(* ===== verification/Prelude.thy ===== *)
theory Prelude
  imports Main "HOL-Library.Word" "HOL-Library.AList" "HOL-Library.Multiset"
begin

text \<open>
  Shared vocabulary of the development: the model's types for Rust strings, UUIDs, instants
  and durations, the result type with its bind (Rust's \<^verbatim>\<open>?\<close> operator), the checked machine
  arithmetic of the standard library, the chrono functions the code calls (a parameter), and the
  generic lemmas on lists, association lists and results that the component theories use.
\<close>

named_theorems result_simps \<open>rewrite rules for results and the bind on them\<close>
named_theorems text_simps \<open>rewrite rules for trimmed strings\<close>


section \<open>Strings\<close>

text \<open>
  A Rust \<^verbatim>\<open>String\<close> is a sequence of Unicode scalar values, here a list of code points. A source
  literal is written \<open>lit ''...''\<close>. \<^verbatim>\<open>str::trim\<close> removes the characters with the Unicode
  property White_Space at both ends; \<^verbatim>\<open>str::len\<close> counts the bytes of the UTF-8 encoding.
\<close>

type_synonym rstring = "nat list"

definition lit :: "string \<Rightarrow> rstring" where
  "lit s = map of_char s"

definition is_whitespace :: "nat \<Rightarrow> bool" where
  "is_whitespace c \<longleftrightarrow>
     (9 \<le> c \<and> c \<le> 13) \<or> c = 32 \<or> c = 133 \<or> c = 160 \<or> c = 5760 \<or>
     (8192 \<le> c \<and> c \<le> 8202) \<or> c = 8232 \<or> c = 8233 \<or> c = 8239 \<or> c = 8287 \<or> c = 12288"

definition trim_start :: "rstring \<Rightarrow> rstring" where
  "trim_start s = dropWhile is_whitespace s"

definition trim :: "rstring \<Rightarrow> rstring" where
  "trim s = rev (dropWhile is_whitespace (rev (trim_start s)))"

definition utf8_width :: "nat \<Rightarrow> nat" where
  "utf8_width c = (if c < 128 then 1 else if c < 2048 then 2 else if c < 65536 then 3 else 4)"

definition str_len :: "rstring \<Rightarrow> nat" where
  "str_len s = sum_list (map utf8_width s)"

definition blank :: "rstring \<Rightarrow> bool" where
  "blank s \<longleftrightarrow> trim s = []"

lemma dropWhile_rev_hd:
  assumes "xs = [] \<or> \<not> P (hd xs)"
  shows "dropWhile P (rev (dropWhile P (rev xs))) = rev (dropWhile P (rev xs))"
proof (cases xs)
  case Nil
  then show ?thesis by simp
next
  case (Cons x ys)
  with assms have "\<not> P x" by simp
  then have "dropWhile P (rev ys @ [x]) = dropWhile P (rev ys) @ [x]"
    by (simp add: dropWhile_append3)
  with Cons \<open>\<not> P x\<close> show ?thesis by simp
qed

lemma trim_trim [text_simps, simp]: "trim (trim s) = trim s"
proof -
  let ?d = "dropWhile is_whitespace"
  have "?d s = [] \<or> \<not> is_whitespace (hd (?d s))"
    using hd_dropWhile by blast
  then have "?d (rev (?d (rev (?d s)))) = rev (?d (rev (?d s)))"
    by (rule dropWhile_rev_hd)
  then show ?thesis
    by (simp add: trim_def trim_start_def)
qed

lemma trim_Nil [text_simps, simp]: "trim [] = []"
  by (simp add: trim_def trim_start_def)

lemma trim_eq_Nil_iff [text_simps]: "trim s = [] \<longleftrightarrow> (\<forall>c \<in> set s. is_whitespace c)"
proof -
  have "trim s = [] \<longleftrightarrow> (\<forall>c \<in> set (trim_start s). is_whitespace c)"
    by (simp add: trim_def)
  also have "\<dots> \<longleftrightarrow> (\<forall>c \<in> set s. is_whitespace c)"
    unfolding trim_start_def by (induction s) auto
  finally show ?thesis .
qed

lemma blank_trim [text_simps, simp]: "blank (trim s) = blank s"
  by (simp add: blank_def)

lemma not_blank_nonempty [text_simps]: "\<not> blank s \<Longrightarrow> s \<noteq> []"
  by (auto simp: blank_def)

lemma str_len_Nil_iff [text_simps, simp]: "str_len s = 0 \<longleftrightarrow> s = []"
  by (cases s) (auto simp: str_len_def utf8_width_def)

text \<open>\<^verbatim>\<open>str::split\<close> at a character.\<close>

fun split_on :: "nat \<Rightarrow> rstring \<Rightarrow> rstring list" where
  "split_on x [] = [[]]"
| "split_on x (c # s) =
     (if c = x then [] # split_on x s
      else case split_on x s of [] \<Rightarrow> [[c]] | p # ps \<Rightarrow> (c # p) # ps)"

lemma split_on_none: "x \<notin> set s \<Longrightarrow> split_on x s = [s]"
  by (induction s) auto

lemma split_on_nonempty [simp]: "split_on x s \<noteq> []"
  by (induction s) (auto split: list.splits)

lemma split_on_append: "split_on x (s @ x # t) = split_on x s @ split_on x t"
proof (induction s)
  case (Cons c s)
  then show ?case by (cases "split_on x s") auto
qed simp


section \<open>Identifiers, instants and durations\<close>

text \<open>
  A UUID is its 128-bit value; \<^verbatim>\<open>Uuid::is_nil\<close> tests for zero and the ordering of UUIDs (by
  bytes, big-endian) is the ordering of the values. A chrono \<^verbatim>\<open>DateTime<Utc>\<close> and a chrono
  \<^verbatim>\<open>Duration\<close> are a signed number of nanoseconds.
\<close>

type_synonym uuid = "128 word"
type_synonym datetime = int
type_synonym duration = int
type_synonym u32 = "32 word"
type_synonym u64 = "64 word"

definition is_nil :: "uuid \<Rightarrow> bool" where
  "is_nil u \<longleftrightarrow> u = 0"

text \<open>
  The chrono crate is not part of the repository. The functions of it that the code calls are a
  parameter of the model; \<open>chrono_ok\<close> states the documented behaviour the proofs rely on:
  \<^verbatim>\<open>checked_add_signed\<close> is exact when it returns a value, and \<^verbatim>\<open>num_milliseconds\<close>
  counts whole milliseconds (towards zero).
\<close>

record chrono =
  checked_add_signed :: "datetime \<Rightarrow> duration \<Rightarrow> datetime option"
  num_milliseconds :: "duration \<Rightarrow> int"
  num_seconds :: "duration \<Rightarrow> int"

definition chrono_ok :: "chrono \<Rightarrow> bool" where
  "chrono_ok X \<longleftrightarrow>
     (\<forall>t d u. checked_add_signed X t d = Some u \<longrightarrow> u = t + d) \<and>
     (\<forall>d. 0 \<le> d \<longrightarrow> 0 \<le> num_milliseconds X d \<and> num_milliseconds X d * 1000000 \<le> d
            \<and> d < (num_milliseconds X d + 1) * 1000000) \<and>
     (\<forall>d. 0 \<le> d \<longrightarrow> 0 \<le> num_seconds X d \<and> num_seconds X d * 1000000000 \<le> d
            \<and> d < (num_seconds X d + 1) * 1000000000)"

text \<open>
  A concrete instance for evaluation: instants within chrono's documented range of years, and
  truncating division.
\<close>

definition chrono_min :: datetime where
  "chrono_min = - 8334601228800000000000"

definition chrono_max :: datetime where
  "chrono_max = 8210266876799999999999"

definition chrono_ref :: chrono where
  "chrono_ref =
     \<lparr>checked_add_signed =
        (\<lambda>t d. if chrono_min \<le> t + d \<and> t + d \<le> chrono_max then Some (t + d) else None),
      num_milliseconds = (\<lambda>d. sgn d * (\<bar>d\<bar> div 1000000)),
      num_seconds = (\<lambda>d. sgn d * (\<bar>d\<bar> div 1000000000))\<rparr>"

lemma whole_units_bounds:
  fixes d k :: int
  assumes "0 \<le> d" "0 < k"
  shows "0 \<le> sgn d * (\<bar>d\<bar> div k)" "sgn d * (\<bar>d\<bar> div k) * k \<le> d"
    "d < (sgn d * (\<bar>d\<bar> div k) + 1) * k"
proof -
  have eq: "sgn d * (\<bar>d\<bar> div k) = d div k"
    using assms by (cases "d = 0") (auto simp: sgn_if)
  have parts: "d div k * k + d mod k = d" "0 \<le> d mod k" "d mod k < k"
    using assms by (simp_all add: mult.commute)
  show "0 \<le> sgn d * (\<bar>d\<bar> div k)"
    unfolding eq using assms by (simp add: pos_imp_zdiv_nonneg_iff)
  show "sgn d * (\<bar>d\<bar> div k) * k \<le> d"
    unfolding eq using parts by linarith
  show "d < (sgn d * (\<bar>d\<bar> div k) + 1) * k"
    unfolding eq distrib_right using parts by linarith
qed

lemma chrono_ref_ok [simp]: "chrono_ok chrono_ref"
  unfolding chrono_ok_def chrono_ref_def
  using whole_units_bounds [where k = 1000000] whole_units_bounds [where k = 1000000000]
  by simp

lemma chrono_add_exact: "chrono_ok X \<Longrightarrow> checked_add_signed X t d = Some u \<Longrightarrow> u = t + d"
  by (auto simp: chrono_ok_def)

lemma chrono_millis_bounds:
  "chrono_ok X \<Longrightarrow> 0 \<le> d \<Longrightarrow> 0 \<le> num_milliseconds X d \<and> num_milliseconds X d * 1000000 \<le> d"
  by (simp add: chrono_ok_def)

definition millis :: "int \<Rightarrow> duration" where
  "millis n = n * 1000000"


section \<open>Results\<close>

text \<open>
  A Rust \<^verbatim>\<open>Result<A, E>\<close> is \<open>'e + 'a\<close>, the error on the left. \<open>bindE\<close> is the
  \<^verbatim>\<open>?\<close> operator. A method on \<^verbatim>\<open>&mut self\<close> returns its result together with the value
  it leaves in \<^verbatim>\<open>self\<close>, so that a mutation before an error return is visible.
\<close>

definition bindE :: "'e + 'a \<Rightarrow> ('a \<Rightarrow> 'e + 'b) \<Rightarrow> 'e + 'b" where
  "bindE m f = (case m of Inl e \<Rightarrow> Inl e | Inr x \<Rightarrow> f x)"

definition map_err :: "('e \<Rightarrow> 'f) \<Rightarrow> 'e + 'a \<Rightarrow> 'f + 'a" where
  "map_err f m = (case m of Inl e \<Rightarrow> Inl (f e) | Inr x \<Rightarrow> Inr x)"

definition ok_or :: "'e \<Rightarrow> 'a option \<Rightarrow> 'e + 'a" where
  "ok_or e x = (case x of None \<Rightarrow> Inl e | Some y \<Rightarrow> Inr y)"

lemma bindE_simps [result_simps, simp]:
  "bindE (Inl e) f = Inl e"
  "bindE (Inr x) f = f x"
  by (simp_all add: bindE_def)

lemma bindE_eq_Inr [result_simps]: "bindE m f = Inr y \<longleftrightarrow> (\<exists>x. m = Inr x \<and> f x = Inr y)"
  by (cases m) auto

lemma bindE_eq_Inl [result_simps]:
  "bindE m f = Inl e \<longleftrightarrow> m = Inl e \<or> (\<exists>x. m = Inr x \<and> f x = Inl e)"
  by (cases m) auto

lemma map_err_simps [result_simps, simp]:
  "map_err f (Inl e) = Inl (f e)"
  "map_err f (Inr x) = Inr x"
  by (simp_all add: map_err_def)

lemma map_err_eq_Inr [result_simps, simp]: "map_err f m = Inr y \<longleftrightarrow> m = Inr y"
  by (cases m) auto

lemma ok_or_simps [result_simps, simp]:
  "ok_or e None = Inl e"
  "ok_or e (Some x) = Inr x"
  by (simp_all add: ok_or_def)

lemma ok_or_eq_Inr [result_simps, simp]: "ok_or e x = Inr y \<longleftrightarrow> x = Some y"
  by (cases x) auto

lemma ok_or_eq_Inl [result_simps, simp]: "ok_or e x = Inl e' \<longleftrightarrow> x = None \<and> e' = e"
  by (cases x) auto


section \<open>Machine integers\<close>

text \<open>
  \<^verbatim>\<open>checked_add\<close>, \<^verbatim>\<open>saturating_add\<close> and the fallible conversions between signed 64-bit
  columns and the unsigned domain types.
\<close>

definition checked_add :: "'a::len word \<Rightarrow> 'a word \<Rightarrow> 'a word option" where
  "checked_add a b = (if unat a + unat b < 2 ^ LENGTH('a) then Some (a + b) else None)"

definition saturating_add :: "'a::len word \<Rightarrow> 'a word \<Rightarrow> 'a word" where
  "saturating_add a b = (if unat a + unat b < 2 ^ LENGTH('a) then a + b else - 1)"

definition u32_try_from :: "int \<Rightarrow> u32 option" where
  "u32_try_from n = (if 0 \<le> n \<and> n < 2 ^ 32 then Some (word_of_int n) else None)"

definition u64_try_from :: "int \<Rightarrow> u64 option" where
  "u64_try_from n = (if 0 \<le> n \<and> n < 2 ^ 64 then Some (word_of_int n) else None)"

definition i64_try_from :: "nat \<Rightarrow> int option" where
  "i64_try_from n = (if n < 2 ^ 63 then Some (int n) else None)"

lemma checked_add_Some_unat: "checked_add a b = Some c \<Longrightarrow> unat c = unat a + unat b"
  by (auto simp: checked_add_def unat_word_ariths split: if_splits)

lemma checked_add_one_lt:
  fixes a m :: "'a::len word"
  assumes "a < m"
  shows "checked_add a 1 = Some (a + 1)" "unat (a + 1) = unat a + 1" "a + 1 \<le> m"
proof -
  have lt: "unat a < unat m" using assms by (simp add: word_less_nat_alt)
  have one: "unat (1 :: 'a word) = 1" by simp
  have b: "unat a + 1 < 2 ^ LENGTH('a)"
    using lt unsigned_less [of m, where ?'a = nat] by linarith
  then show "checked_add a 1 = Some (a + 1)" by (simp add: checked_add_def)
  from b show eq: "unat (a + 1) = unat a + 1" by (simp add: unat_word_ariths)
  from lt eq show "a + 1 \<le> m" by (simp add: word_le_nat_alt)
qed

lemma saturating_add_one_lt:
  fixes a m :: "'a::len word"
  assumes "a < m"
  shows "saturating_add a 1 = a + 1"
  using checked_add_one_lt(1) [OF assms]
  by (simp add: saturating_add_def checked_add_def split: if_splits)

lemma u32_try_from_uint [simp]: "u32_try_from (uint (w :: u32)) = Some w"
  using uint_lt2p [of w] by (simp add: u32_try_from_def)

lemma u64_try_from_uint [simp]: "u64_try_from (uint (w :: u64)) = Some w"
  using uint_lt2p [of w] by (simp add: u64_try_from_def)

lemma u32_try_from_Some: "u32_try_from n = Some w \<Longrightarrow> uint w = n"
  by (auto simp: u32_try_from_def uint_word_of_int take_bit_int_eq_self split: if_splits)


section \<open>Lists and association lists\<close>

lemma filter_key_single:
  assumes "distinct (map k xs)" "x \<in> set xs"
  shows "filter (\<lambda>y. k y = k x) xs = [x]"
  using assms by (induction xs) (auto simp: filter_empty_conv, metis image_eqI)

lemma alist_update_map:
  assumes "distinct (map k xs)" "i \<in> k ` set xs"
  shows "AList.update i v (map (\<lambda>x. (k x, f x)) xs) = map (\<lambda>x. (k x, if k x = i then v else f x)) xs"
  using assms
proof (induction xs)
  case (Cons x xs)
  show ?case
  proof (cases "k x = i")
    case True
    with Cons.prems(1) have "i \<notin> k ` set xs" by auto
    then have "\<forall>y \<in> set xs. k y \<noteq> i" by blast
    with True show ?thesis by simp
  next
    case False
    with Cons show ?thesis by auto
  qed
qed simp

lemma map_of_map_keyed: "map_of (map (\<lambda>e. (fst e, g (fst e) (snd e))) xs) i = map_option (g i) (map_of xs i)"
  by (induction xs) auto

lemma alist_update_append: "i \<notin> fst ` set s \<Longrightarrow> AList.update i v s = s @ [(i, v)]"
  by (induction s) auto

lemma find_SomeD: "find P xs = Some x \<Longrightarrow> x \<in> set xs \<and> P x"
  by (induction xs) (auto split: if_splits)

lemma distinct_key_eq: "distinct (map k xs) \<Longrightarrow> x \<in> set xs \<Longrightarrow> y \<in> set xs \<Longrightarrow> k x = k y \<Longrightarrow> x = y"
  by (auto simp: distinct_map inj_on_def)

end
