(* ===== verification/Job.thy ===== *)
theory Job
  imports Prelude
begin

text \<open>
  The durable job of \<^verbatim>\<open>src/domain/job.rs\<close>: its data, the fenced lifecycle operations, the
  persisted-state invariant and the lifecycle as a step relation. The first part holds the
  definitions, in the order of the source; the second the interface \<open>fenced_transition\<close> that
  the five owner operations share, and the invariants by rule induction.

  \<^verbatim>\<open>Uuid::new_v4\<close> is random: an operation that draws a UUID takes it as an argument.
\<close>

section \<open>Data\<close>

datatype json =
    JNull | JBool bool | JNumber int | JString rstring
  | JArray "json list" | JObject "(rstring \<times> json) list"

datatype job_type =
    SourceSync | FeedRebuild | ArticleBackfill | CredentialRefresh | AssetRepair | AssetRefresh

definition all_job_types :: "job_type list" where
  "all_job_types =
     [SourceSync, FeedRebuild, ArticleBackfill, CredentialRefresh, AssetRepair, AssetRefresh]"

fun requires_browser :: "job_type \<Rightarrow> bool" where
  "requires_browser SourceSync = True"
| "requires_browser ArticleBackfill = True"
| "requires_browser AssetRefresh = True"
| "requires_browser _ = False"

datatype job_status = Queued | Running | RetryWait | Deferred | Succeeded | Failed

fun is_active :: "job_status \<Rightarrow> bool" where
  "is_active Queued = True"
| "is_active Running = True"
| "is_active RetryWait = True"
| "is_active Deferred = True"
| "is_active _ = False"

fun is_terminal :: "job_status \<Rightarrow> bool" where
  "is_terminal Succeeded = True"
| "is_terminal Failed = True"
| "is_terminal _ = False"

type_synonym lease_token = uuid

record new_job =
  nj_job_type :: job_type
  nj_source_id :: "uuid option"
  nj_priority :: int
  nj_run_after :: datetime
  nj_max_attempts :: u32
  nj_payload :: json
  nj_dedupe_key :: rstring
  nj_now :: datetime

record persisted_job =
  p_id :: uuid
  p_job_type :: job_type
  p_source_id :: "uuid option"
  p_status :: job_status
  p_priority :: int
  p_run_after :: datetime
  p_claim_count :: u32
  p_failure_count :: u32
  p_max_attempts :: u32
  p_lease_owner :: "rstring option"
  p_lease_token :: "lease_token option"
  p_lease_until :: "datetime option"
  p_heartbeat_at :: "datetime option"
  p_started_at :: "datetime option"
  p_finished_at :: "datetime option"
  p_last_error :: "rstring option"
  p_payload :: json
  p_dedupe_key :: rstring
  p_created_at :: datetime
  p_updated_at :: datetime

record job =
  j_id :: uuid
  j_type :: job_type
  j_source_id :: "uuid option"
  j_status :: job_status
  j_priority :: int
  j_run_after :: datetime
  j_claim_count :: u32
  j_failure_count :: u32
  j_max_attempts :: u32
  j_lease_owner :: "rstring option"
  j_lease_token :: "lease_token option"
  j_lease_until :: "datetime option"
  j_heartbeat_at :: "datetime option"
  j_started_at :: "datetime option"
  j_finished_at :: "datetime option"
  j_last_error :: "rstring option"
  j_payload :: json
  j_dedupe_key :: rstring
  j_created_at :: datetime
  j_updated_at :: datetime

datatype job_error =
    InvalidAttemptLimit | EmptyDedupeKey | EmptyLeaseOwner | InvalidLeaseDuration | NotDue
  | AttemptsExhausted | ClaimCountOverflow | FailureCountOverflow | InvalidDeferralTime
  | InvalidTransition job_status string | LeaseOwnerMismatch | LeaseTokenMismatch
  | LeaseExpired | LeaseMissing | InvalidPersistedState string | EmptyError


section \<open>Operations\<close>

definition validate_owner :: "rstring \<Rightarrow> job_error + unit" where
  "validate_owner owner = (if trim owner = [] then Inl EmptyLeaseOwner else Inr ())"

definition nonempty_error :: "rstring \<Rightarrow> job_error + rstring" where
  "nonempty_error err = (if trim err = [] then Inl EmptyError else Inr err)"

definition lease_expiry :: "chrono \<Rightarrow> datetime \<Rightarrow> duration \<Rightarrow> job_error + datetime" where
  "lease_expiry X now lease_for =
     (if lease_for \<le> 0 then Inl InvalidLeaseDuration
      else ok_or InvalidLeaseDuration (checked_add_signed X now lease_for))"

definition clear_lease :: "job \<Rightarrow> job" where
  "clear_lease j = j\<lparr>j_lease_owner := None, j_lease_token := None, j_lease_until := None\<rparr>"

definition lease_complete :: "job \<Rightarrow> bool" where
  "lease_complete j \<longleftrightarrow>
     j_lease_owner j \<noteq> None \<and> j_lease_token j \<noteq> None \<and> j_lease_until j \<noteq> None"

definition lease_empty :: "job \<Rightarrow> bool" where
  "lease_empty j \<longleftrightarrow>
     j_lease_owner j = None \<and> j_lease_token j = None \<and> j_lease_until j = None"

definition validate_persisted_state :: "job \<Rightarrow> job_error + unit" where
  "validate_persisted_state j =
     (if j_max_attempts j = 0 \<or> j_failure_count j > j_max_attempts j then
        Inl (InvalidPersistedState ''failure_count must be within a non-zero max_attempts limit'')
      else if trim (j_dedupe_key j) = [] then
        Inl (InvalidPersistedState ''dedupe_key must not be empty'')
      else if j_status j = Running \<and> j_claim_count j = 0 then
        Inl (InvalidPersistedState ''running jobs require at least one claim'')
      else if j_status j = Running \<and> \<not> lease_complete j then
        Inl (InvalidPersistedState ''running jobs require owner, token, and lease expiry'')
      else if j_status j = Running \<and>
              (case j_lease_owner j of Some owner \<Rightarrow> trim owner = [] | None \<Rightarrow> False) then
        Inl (InvalidPersistedState ''running job lease owner must not be empty'')
      else if j_status j = Running \<and> j_finished_at j \<noteq> None then
        Inl (InvalidPersistedState ''running jobs cannot have finished_at'')
      else if j_status j = Running \<and> j_failure_count j \<ge> j_max_attempts j then
        Inl (InvalidPersistedState ''running jobs must have failure budget remaining'')
      else if j_status j \<in> {Queued, RetryWait, Deferred} \<and> \<not> lease_empty j then
        Inl (InvalidPersistedState ''queued jobs cannot retain a lease'')
      else if j_status j \<in> {Queued, RetryWait, Deferred} \<and> j_finished_at j \<noteq> None then
        Inl (InvalidPersistedState ''non-terminal jobs cannot have finished_at'')
      else if j_status j \<in> {Queued, RetryWait, Deferred} \<and>
              j_failure_count j \<ge> j_max_attempts j then
        Inl (InvalidPersistedState ''active jobs must have failure budget remaining'')
      else if j_status j \<in> {Succeeded, Failed} \<and> \<not> lease_empty j then
        Inl (InvalidPersistedState ''terminal jobs cannot retain a lease'')
      else if j_status j \<in> {Succeeded, Failed} \<and> j_finished_at j = None then
        Inl (InvalidPersistedState ''terminal jobs require finished_at'')
      else Inr ())"

definition new :: "uuid \<Rightarrow> new_job \<Rightarrow> job_error + job" where
  "new uid spec =
     (if nj_max_attempts spec = 0 then Inl InvalidAttemptLimit
      else if trim (nj_dedupe_key spec) = [] then Inl EmptyDedupeKey
      else Inr
        \<lparr>j_id = uid, j_type = nj_job_type spec, j_source_id = nj_source_id spec,
         j_status = Queued, j_priority = nj_priority spec, j_run_after = nj_run_after spec,
         j_claim_count = 0, j_failure_count = 0, j_max_attempts = nj_max_attempts spec,
         j_lease_owner = None, j_lease_token = None, j_lease_until = None,
         j_heartbeat_at = None, j_started_at = None, j_finished_at = None,
         j_last_error = None, j_payload = nj_payload spec, j_dedupe_key = nj_dedupe_key spec,
         j_created_at = nj_now spec, j_updated_at = nj_now spec\<rparr>)"

definition from_persisted :: "persisted_job \<Rightarrow> job_error + job" where
  "from_persisted r =
     (let j =
        \<lparr>j_id = p_id r, j_type = p_job_type r, j_source_id = p_source_id r,
         j_status = p_status r, j_priority = p_priority r, j_run_after = p_run_after r,
         j_claim_count = p_claim_count r, j_failure_count = p_failure_count r,
         j_max_attempts = p_max_attempts r, j_lease_owner = p_lease_owner r,
         j_lease_token = p_lease_token r, j_lease_until = p_lease_until r,
         j_heartbeat_at = p_heartbeat_at r, j_started_at = p_started_at r,
         j_finished_at = p_finished_at r, j_last_error = p_last_error r,
         j_payload = p_payload r, j_dedupe_key = p_dedupe_key r,
         j_created_at = p_created_at r, j_updated_at = p_updated_at r\<rparr>
      in bindE (validate_persisted_state j) (\<lambda>_. Inr j))"

definition ensure_live_owner ::
    "rstring \<Rightarrow> lease_token \<Rightarrow> datetime \<Rightarrow> string \<Rightarrow> job \<Rightarrow> job_error + unit" where
  "ensure_live_owner owner token now operation j =
     (if j_status j \<noteq> Running then Inl (InvalidTransition (j_status j) operation)
      else if j_lease_owner j \<noteq> Some owner then Inl LeaseOwnerMismatch
      else if j_lease_token j \<noteq> Some token then Inl LeaseTokenMismatch
      else case j_lease_until j of
             Some lease_until \<Rightarrow> if lease_until > now then Inr () else Inl LeaseExpired
           | None \<Rightarrow> Inl LeaseMissing)"

definition claim ::
    "chrono \<Rightarrow> lease_token \<Rightarrow> rstring \<Rightarrow> datetime \<Rightarrow> duration \<Rightarrow> job \<Rightarrow>
     (job_error + lease_token) \<times> job" where
  "claim X lease_token owner now lease_for j =
     (case validate_owner owner of Inl e \<Rightarrow> (Inl e, j) | Inr _ \<Rightarrow>
      case lease_expiry X now lease_for of Inl e \<Rightarrow> (Inl e, j) | Inr lease_until \<Rightarrow>
      if j_status j \<notin> {Queued, RetryWait, Deferred} then
        (Inl (InvalidTransition (j_status j) ''claim''), j)
      else if j_run_after j > now then (Inl NotDue, j)
      else if j_failure_count j \<ge> j_max_attempts j then (Inl AttemptsExhausted, j)
      else case checked_add (j_claim_count j) 1 of
             None \<Rightarrow> (Inl ClaimCountOverflow, j)
           | Some c \<Rightarrow>
               (Inr lease_token,
                j\<lparr>j_claim_count := c, j_status := Running, j_lease_owner := Some owner,
                  j_lease_token := Some lease_token, j_lease_until := Some lease_until,
                  j_heartbeat_at := Some now,
                  j_started_at := (case j_started_at j of None \<Rightarrow> Some now | Some t \<Rightarrow> Some t),
                  j_finished_at := None, j_updated_at := now\<rparr>))"

definition defer_job ::
    "rstring \<Rightarrow> lease_token \<Rightarrow> datetime \<Rightarrow> datetime \<Rightarrow> job \<Rightarrow> (job_error + unit) \<times> job" where
  "defer_job owner token now resume_at j =
     (case validate_owner owner of Inl e \<Rightarrow> (Inl e, j) | Inr _ \<Rightarrow>
      if resume_at \<le> now then (Inl InvalidDeferralTime, j)
      else case ensure_live_owner owner token now ''defer'' j of
             Inl e \<Rightarrow> (Inl e, j)
           | Inr _ \<Rightarrow>
               (Inr (),
                (clear_lease (j\<lparr>j_status := Deferred, j_run_after := resume_at\<rparr>))
                  \<lparr>j_last_error := None, j_finished_at := None, j_updated_at := now\<rparr>))"

definition heartbeat ::
    "chrono \<Rightarrow> rstring \<Rightarrow> lease_token \<Rightarrow> datetime \<Rightarrow> duration \<Rightarrow> job \<Rightarrow>
     (job_error + unit) \<times> job" where
  "heartbeat X owner token now lease_for j =
     (case validate_owner owner of Inl e \<Rightarrow> (Inl e, j) | Inr _ \<Rightarrow>
      case lease_expiry X now lease_for of Inl e \<Rightarrow> (Inl e, j) | Inr lease_until \<Rightarrow>
      case ensure_live_owner owner token now ''heartbeat'' j of
        Inl e \<Rightarrow> (Inl e, j)
      | Inr _ \<Rightarrow>
          (Inr (), j\<lparr>j_lease_until := Some lease_until, j_heartbeat_at := Some now,
                     j_updated_at := now\<rparr>))"

definition succeed ::
    "rstring \<Rightarrow> lease_token \<Rightarrow> datetime \<Rightarrow> job \<Rightarrow> (job_error + unit) \<times> job" where
  "succeed owner token now j =
     (case validate_owner owner of Inl e \<Rightarrow> (Inl e, j) | Inr _ \<Rightarrow>
      case ensure_live_owner owner token now ''succeed'' j of
        Inl e \<Rightarrow> (Inl e, j)
      | Inr _ \<Rightarrow>
          (Inr (), (clear_lease (j\<lparr>j_status := Succeeded\<rparr>))
                     \<lparr>j_last_error := None, j_finished_at := Some now, j_updated_at := now\<rparr>))"

definition retry ::
    "rstring \<Rightarrow> lease_token \<Rightarrow> datetime \<Rightarrow> datetime \<Rightarrow> rstring \<Rightarrow> job \<Rightarrow>
     (job_error + job_status) \<times> job" where
  "retry owner token now retry_at err j =
     (case validate_owner owner of Inl e \<Rightarrow> (Inl e, j) | Inr _ \<Rightarrow>
      case nonempty_error err of Inl e \<Rightarrow> (Inl e, j) | Inr err \<Rightarrow>
      case ensure_live_owner owner token now ''retry'' j of
        Inl e \<Rightarrow> (Inl e, j)
      | Inr _ \<Rightarrow>
          (let j1 = (clear_lease (j\<lparr>j_last_error := Some err, j_run_after := retry_at\<rparr>))
                      \<lparr>j_updated_at := now\<rparr>
           in case checked_add (j_failure_count j1) 1 of
                None \<Rightarrow> (Inl FailureCountOverflow, j1)
              | Some n \<Rightarrow>
                  (let j2 = j1\<lparr>j_failure_count := n\<rparr>
                   in if j_failure_count j2 \<ge> j_max_attempts j2
                      then (Inr Failed, j2\<lparr>j_status := Failed, j_finished_at := Some now\<rparr>)
                      else (Inr RetryWait, j2\<lparr>j_status := RetryWait, j_finished_at := None\<rparr>))))"

definition fail ::
    "rstring \<Rightarrow> lease_token \<Rightarrow> datetime \<Rightarrow> rstring \<Rightarrow> job \<Rightarrow> (job_error + unit) \<times> job" where
  "fail owner token now err j =
     (case validate_owner owner of Inl e \<Rightarrow> (Inl e, j) | Inr _ \<Rightarrow>
      case nonempty_error err of Inl e \<Rightarrow> (Inl e, j) | Inr err \<Rightarrow>
      case ensure_live_owner owner token now ''fail'' j of
        Inl e \<Rightarrow> (Inl e, j)
      | Inr _ \<Rightarrow>
          (Inr (), (clear_lease (j\<lparr>j_status := Failed\<rparr>))
                     \<lparr>j_last_error := Some err, j_finished_at := Some now, j_updated_at := now\<rparr>))"

definition cancel :: "datetime \<Rightarrow> rstring \<Rightarrow> job \<Rightarrow> (job_error + unit) \<times> job" where
  "cancel now reason j =
     (case nonempty_error reason of Inl e \<Rightarrow> (Inl e, j) | Inr reason \<Rightarrow>
      if j_status j \<notin> {Queued, RetryWait, Deferred} then
        (Inl (InvalidTransition (j_status j) ''cancel''), j)
      else
        (Inr (), (clear_lease (j\<lparr>j_status := Failed\<rparr>))
                   \<lparr>j_last_error := Some reason, j_finished_at := Some now,
                    j_updated_at := now\<rparr>))"

definition recover_expired_lease :: "datetime \<Rightarrow> job \<Rightarrow> bool \<times> job" where
  "recover_expired_lease now j =
     (if j_status j \<noteq> Running \<or>
         (case j_lease_until j of Some lease_until \<Rightarrow> lease_until > now | None \<Rightarrow> False)
      then (False, j)
      else
        (let j1 = (clear_lease j)
                    \<lparr>j_run_after := now, j_last_error := Some (lit ''worker lease expired''),
                     j_updated_at := now,
                     j_failure_count := saturating_add (j_failure_count j) 1\<rparr>
         in (True,
             if j_failure_count j1 \<ge> j_max_attempts j1
             then j1\<lparr>j_status := Failed, j_finished_at := Some now\<rparr>
             else j1\<lparr>j_status := Queued, j_finished_at := None\<rparr>)))"


section \<open>Lifecycle events\<close>

text \<open>
  One event is one call of a mutating method; \<open>run_event\<close> gives whether the call succeeded (for
  \<open>recover_expired_lease\<close>, whether it changed the job) and the job it leaves.
\<close>

datatype job_event =
    EvClaim lease_token rstring datetime duration
  | EvHeartbeat rstring lease_token datetime duration
  | EvDefer rstring lease_token datetime datetime
  | EvSucceed rstring lease_token datetime
  | EvRetry rstring lease_token datetime datetime rstring
  | EvFail rstring lease_token datetime rstring
  | EvCancel datetime rstring
  | EvRecover datetime

definition succeeded :: "('e + 'a) \<times> 's \<Rightarrow> bool \<times> 's" where
  "succeeded r = (case fst r of Inl _ \<Rightarrow> False | Inr _ \<Rightarrow> True, snd r)"

fun run_event :: "chrono \<Rightarrow> job_event \<Rightarrow> job \<Rightarrow> bool \<times> job" where
  "run_event X (EvClaim tok owner now lease_for) j = succeeded (claim X tok owner now lease_for j)"
| "run_event X (EvHeartbeat owner tok now lease_for) j =
     succeeded (heartbeat X owner tok now lease_for j)"
| "run_event X (EvDefer owner tok now resume_at) j = succeeded (defer_job owner tok now resume_at j)"
| "run_event X (EvSucceed owner tok now) j = succeeded (succeed owner tok now j)"
| "run_event X (EvRetry owner tok now retry_at err) j = succeeded (retry owner tok now retry_at err j)"
| "run_event X (EvFail owner tok now err) j = succeeded (fail owner tok now err j)"
| "run_event X (EvCancel now reason) j = succeeded (cancel now reason j)"
| "run_event X (EvRecover now) j = recover_expired_lease now j"

fun run_events :: "chrono \<Rightarrow> job_event list \<Rightarrow> job \<Rightarrow> job" where
  "run_events X [] j = j"
| "run_events X (ev # evs) j = run_events X evs (snd (run_event X ev j))"

text \<open>The events that consume failure budget, and how many of them take effect in a run.\<close>

fun is_failure_event :: "job_event \<Rightarrow> bool" where
  "is_failure_event (EvRetry _ _ _ _ _) = True"
| "is_failure_event (EvRecover _) = True"
| "is_failure_event _ = False"

fun effective_failures :: "chrono \<Rightarrow> job_event list \<Rightarrow> job \<Rightarrow> nat" where
  "effective_failures X [] j = 0"
| "effective_failures X (ev # evs) j =
     (if is_failure_event ev \<and> fst (run_event X ev j) then 1 else 0)
     + effective_failures X evs (snd (run_event X ev j))"

text \<open>The lifecycle drawn in the module documentation, one equation per edge.\<close>

fun lifecycle_edge :: "job_status \<Rightarrow> job_status \<Rightarrow> bool" where
  "lifecycle_edge Queued Running = True"
| "lifecycle_edge RetryWait Running = True"
| "lifecycle_edge Deferred Running = True"
| "lifecycle_edge Running Succeeded = True"
| "lifecycle_edge Running RetryWait = True"
| "lifecycle_edge Running Deferred = True"
| "lifecycle_edge Running Failed = True"
| "lifecycle_edge Running Queued = True"
| "lifecycle_edge Queued Failed = True"
| "lifecycle_edge RetryWait Failed = True"
| "lifecycle_edge Deferred Failed = True"
| "lifecycle_edge _ _ = False"

text \<open>The jobs a run of the program can hold: created by \<open>new\<close>, changed by events only.\<close>

inductive job_reachable :: "chrono \<Rightarrow> job \<Rightarrow> bool" for X :: chrono where
  created: "new uid spec = Inr j \<Longrightarrow> job_reachable X j"
| stepped: "job_reachable X j \<Longrightarrow> job_reachable X (snd (run_event X ev j))"


section \<open>The persisted-state invariant\<close>

definition job_ok :: "job \<Rightarrow> bool" where
  "job_ok j \<longleftrightarrow> validate_persisted_state j = Inr ()"

definition live_owner :: "rstring \<Rightarrow> lease_token \<Rightarrow> datetime \<Rightarrow> job \<Rightarrow> bool" where
  "live_owner owner token now j \<longleftrightarrow>
     j_status j = Running \<and> j_lease_owner j = Some owner \<and> j_lease_token j = Some token \<and>
     (\<exists>u. j_lease_until j = Some u \<and> now < u)"

definition same_identity :: "job \<Rightarrow> job \<Rightarrow> bool" where
  "same_identity j j' \<longleftrightarrow>
     j_id j' = j_id j \<and> j_type j' = j_type j \<and> j_source_id j' = j_source_id j \<and>
     j_priority j' = j_priority j \<and> j_max_attempts j' = j_max_attempts j \<and>
     j_payload j' = j_payload j \<and> j_dedupe_key j' = j_dedupe_key j \<and>
     j_created_at j' = j_created_at j"

lemma job_ok_iff:
  "job_ok j \<longleftrightarrow>
     0 < j_max_attempts j \<and> j_failure_count j \<le> j_max_attempts j \<and> trim (j_dedupe_key j) \<noteq> [] \<and>
     (case j_status j of
        Running \<Rightarrow> j_claim_count j \<noteq> 0 \<and> lease_complete j \<and>
          trim (the (j_lease_owner j)) \<noteq> [] \<and> j_finished_at j = None \<and>
          j_failure_count j < j_max_attempts j
      | Succeeded \<Rightarrow> lease_empty j \<and> j_finished_at j \<noteq> None
      | Failed \<Rightarrow> lease_empty j \<and> j_finished_at j \<noteq> None
      | _ \<Rightarrow> lease_empty j \<and> j_finished_at j = None \<and> j_failure_count j < j_max_attempts j)"
  by (auto simp: job_ok_def validate_persisted_state_def lease_complete_def not_le not_less
        word_neq_0_conv split: if_splits job_status.splits option.splits)

lemma ensure_live_owner_iff: "ensure_live_owner owner token now name j = Inr r \<longleftrightarrow> live_owner owner token now j"
  by (auto simp: ensure_live_owner_def live_owner_def split: option.splits)

lemma validate_owner_iff: "validate_owner owner = Inr r \<longleftrightarrow> trim owner \<noteq> []"
  by (auto simp: validate_owner_def)

lemma nonempty_error_iff: "nonempty_error err = Inr r \<longleftrightarrow> trim err \<noteq> [] \<and> r = err"
  by (auto simp: nonempty_error_def)

lemma ensure_live_owner_Inl: "ensure_live_owner owner token now name j = Inl e \<Longrightarrow> \<not> live_owner owner token now j"
  by (auto simp: ensure_live_owner_def live_owner_def)

lemma validate_owner_Inl: "validate_owner owner = Inl e \<longleftrightarrow> trim owner = [] \<and> e = EmptyLeaseOwner"
  by (auto simp: validate_owner_def)

lemma nonempty_error_Inl: "nonempty_error err = Inl e \<longleftrightarrow> trim err = [] \<and> e = EmptyError"
  by (auto simp: nonempty_error_def)

lemmas job_guards =
  ensure_live_owner_iff validate_owner_iff nonempty_error_iff validate_owner_Inl nonempty_error_Inl

end
