(* ===== verification/Job_Lifecycle.thy ===== *)
theory Job_Lifecycle
  imports Job
begin

text \<open>
  The lifecycle of a job. The five operations of a lease owner (heartbeat, defer, succeed, retry,
  fail) share one contract, the locale \<open>fenced_transition\<close>: they succeed only for the live owner
  with the current fencing token, keep the persisted-state invariant and the job's identity, and
  leave the job unchanged when they fail. Each is an interpretation of it. The properties of
  runs follow by induction over the events.
\<close>

section \<open>Exact success conditions\<close>

lemma claim_Inr_iff:
  "claim X tok owner now lease_for j = (Inr t, j') \<longleftrightarrow>
     trim owner \<noteq> [] \<and> 0 < lease_for \<and> j_status j \<in> {Queued, RetryWait, Deferred} \<and>
     j_run_after j \<le> now \<and> j_failure_count j < j_max_attempts j \<and> t = tok \<and>
     (\<exists>u c. checked_add_signed X now lease_for = Some u \<and> checked_add (j_claim_count j) 1 = Some c \<and>
        j' = j\<lparr>j_claim_count := c, j_status := Running, j_lease_owner := Some owner,
               j_lease_token := Some tok, j_lease_until := Some u, j_heartbeat_at := Some now,
               j_started_at := (case j_started_at j of None \<Rightarrow> Some now | Some s \<Rightarrow> Some s),
               j_finished_at := None, j_updated_at := now\<rparr>)"
  by (auto simp: claim_def validate_owner_def lease_expiry_def not_le not_less
        split: sum.splits option.splits if_splits)

lemma claim_Inl_unchanged: "claim X tok owner now lease_for j = (Inl e, j') \<Longrightarrow> j' = j"
  by (auto simp: claim_def split: sum.splits option.splits if_splits)

lemma heartbeat_Inr_iff:
  "heartbeat X owner tok now lease_for j = (Inr r, j') \<longleftrightarrow>
     trim owner \<noteq> [] \<and> 0 < lease_for \<and> live_owner owner tok now j \<and>
     (\<exists>u. checked_add_signed X now lease_for = Some u \<and>
        j' = j\<lparr>j_lease_until := Some u, j_heartbeat_at := Some now, j_updated_at := now\<rparr>)"
  by (auto simp: heartbeat_def lease_expiry_def job_guards
      dest: ensure_live_owner_Inl split: sum.splits option.splits if_splits)

lemma defer_job_Inr_iff:
  "defer_job owner tok now resume_at j = (Inr r, j') \<longleftrightarrow>
     trim owner \<noteq> [] \<and> now < resume_at \<and> live_owner owner tok now j \<and>
     j' = j\<lparr>j_status := Deferred, j_run_after := resume_at, j_lease_owner := None,
            j_lease_token := None, j_lease_until := None, j_last_error := None,
            j_finished_at := None, j_updated_at := now\<rparr>"
  by (auto simp: defer_job_def clear_lease_def job_guards
      dest: ensure_live_owner_Inl split: sum.splits if_splits)

lemma succeed_Inr_iff:
  "succeed owner tok now j = (Inr r, j') \<longleftrightarrow>
     trim owner \<noteq> [] \<and> live_owner owner tok now j \<and>
     j' = j\<lparr>j_status := Succeeded, j_lease_owner := None, j_lease_token := None,
            j_lease_until := None, j_last_error := None, j_finished_at := Some now,
            j_updated_at := now\<rparr>"
  by (auto simp: succeed_def clear_lease_def job_guards dest: ensure_live_owner_Inl split: sum.splits)

lemma fail_Inr_iff:
  "fail owner tok now err j = (Inr r, j') \<longleftrightarrow>
     trim owner \<noteq> [] \<and> trim err \<noteq> [] \<and> live_owner owner tok now j \<and>
     j' = j\<lparr>j_status := Failed, j_lease_owner := None, j_lease_token := None,
            j_lease_until := None, j_last_error := Some err, j_finished_at := Some now,
            j_updated_at := now\<rparr>"
  by (auto simp: fail_def clear_lease_def job_guards dest: ensure_live_owner_Inl split: sum.splits)

lemma cancel_Inr_iff:
  "cancel now reason j = (Inr r, j') \<longleftrightarrow>
     trim reason \<noteq> [] \<and> j_status j \<in> {Queued, RetryWait, Deferred} \<and>
     j' = j\<lparr>j_status := Failed, j_lease_owner := None, j_lease_token := None,
            j_lease_until := None, j_last_error := Some reason, j_finished_at := Some now,
            j_updated_at := now\<rparr>"
  by (auto simp: cancel_def clear_lease_def job_guards split: sum.splits if_splits)

lemma cancel_Inl_unchanged: "cancel now reason j = (Inl e, j') \<Longrightarrow> j' = j"
  by (auto simp: cancel_def split: sum.splits if_splits)

text \<open>
  \<open>retry\<close> writes the job before it checks the failure counter; within the persisted-state
  invariant the counter of a running job is below its limit, so the check cannot fail.
\<close>

definition retried :: "datetime \<Rightarrow> datetime \<Rightarrow> rstring \<Rightarrow> job \<Rightarrow> job" where
  "retried now retry_at err j =
     (let n = j_failure_count j + 1; exhausted = (n \<ge> j_max_attempts j)
      in j\<lparr>j_status := (if exhausted then Failed else RetryWait), j_run_after := retry_at,
           j_failure_count := n, j_lease_owner := None, j_lease_token := None,
           j_lease_until := None, j_last_error := Some err,
           j_finished_at := (if exhausted then Some now else None), j_updated_at := now\<rparr>)"

lemma running_budget: "job_ok j \<Longrightarrow> j_status j = Running \<Longrightarrow> j_failure_count j < j_max_attempts j"
  by (simp add: job_ok_iff)

lemma retry_Inr_iff:
  assumes "job_ok j"
  shows "retry owner tok now retry_at err j = (Inr r, j') \<longleftrightarrow>
     trim owner \<noteq> [] \<and> trim err \<noteq> [] \<and> live_owner owner tok now j \<and>
     j' = retried now retry_at err j \<and> r = j_status j'"
proof (cases "live_owner owner tok now j")
  case True
  then have "j_failure_count j < j_max_attempts j"
    using assms by (auto simp: live_owner_def intro: running_budget)
  from checked_add_one_lt(1) [OF this] show ?thesis
    by (auto simp: retry_def retried_def clear_lease_def job_guards Let_def
        dest: ensure_live_owner_Inl split: sum.splits if_splits)
next
  case False
  then show ?thesis
    by (auto simp: retry_def job_guards dest: ensure_live_owner_Inl split: sum.splits)
qed

lemma retry_Inl_unchanged:
  assumes "job_ok j" "retry owner tok now retry_at err j = (Inl e, j')"
  shows "j' = j"
proof (cases "live_owner owner tok now j")
  case True
  then have "j_failure_count j < j_max_attempts j"
    using assms(1) by (auto simp: live_owner_def intro: running_budget)
  from checked_add_one_lt(1) [OF this] assms(2) show ?thesis
    by (auto simp: retry_def clear_lease_def job_guards Let_def dest: ensure_live_owner_Inl split: sum.splits if_splits)
next
  case False
  with assms(2) show ?thesis
    by (auto simp: retry_def job_guards dest: ensure_live_owner_Inl split: sum.splits)
qed

lemma recover_expired_lease_True:
  assumes "job_ok j" "recover_expired_lease now j = (True, j')"
  shows "j_status j = Running" "\<exists>u. j_lease_until j = Some u \<and> u \<le> now"
    "j' = (retried now now (lit ''worker lease expired'') j)
       \<lparr>j_status := (if j_failure_count j + 1 \<ge> j_max_attempts j then Failed else Queued)\<rparr>"
proof -
  from assms(2) show run: "j_status j = Running"
    by (auto simp: recover_expired_lease_def split: if_splits)
  with assms show "\<exists>u. j_lease_until j = Some u \<and> u \<le> now"
    by (auto simp: recover_expired_lease_def job_ok_iff lease_complete_def Let_def
        split: if_splits option.splits)
  have "saturating_add (j_failure_count j) 1 = j_failure_count j + 1"
    by (rule saturating_add_one_lt) (rule running_budget [OF assms(1) run])
  with assms(2) show "j' = (retried now now (lit ''worker lease expired'') j)
       \<lparr>j_status := (if j_failure_count j + 1 \<ge> j_max_attempts j then Failed else Queued)\<rparr>"
    by (auto simp: recover_expired_lease_def retried_def clear_lease_def Let_def split: if_splits)
qed

lemma recover_expired_lease_False: "recover_expired_lease now j = (False, j') \<Longrightarrow> j' = j"
  by (auto simp: recover_expired_lease_def Let_def split: if_splits)

lemmas job_exact =
  claim_Inr_iff heartbeat_Inr_iff defer_job_Inr_iff succeed_Inr_iff fail_Inr_iff cancel_Inr_iff


section \<open>The contract of the owner operations\<close>

locale fenced_transition =
  fixes op :: "rstring \<Rightarrow> lease_token \<Rightarrow> datetime \<Rightarrow> job \<Rightarrow> (job_error + 'r) \<times> job"
  assumes op_live: "op owner tok now j = (Inr r, j') \<Longrightarrow> live_owner owner tok now j"
    and op_error: "job_ok j \<Longrightarrow> op owner tok now j = (Inl e, j') \<Longrightarrow> j' = j"
    and op_keeps_ok: "job_ok j \<Longrightarrow> op owner tok now j = (Inr r, j') \<Longrightarrow> job_ok j'"
    and op_identity: "job_ok j \<Longrightarrow> op owner tok now j = (Inr r, j') \<Longrightarrow> same_identity j j'"
    and op_claims: "job_ok j \<Longrightarrow> op owner tok now j = (Inr r, j') \<Longrightarrow> j_claim_count j' = j_claim_count j"
    and op_token: "job_ok j \<Longrightarrow> op owner tok now j = (Inr r, j') \<Longrightarrow> j_lease_token j' \<in> {None, Some tok}"
begin

lemma not_owner_rejected:
  assumes "job_ok j" "\<not> live_owner owner tok now j"
  shows "\<exists>e. op owner tok now j = (Inl e, j)"
proof (cases "op owner tok now j")
  case (Pair r j')
  with assms show ?thesis
    by (cases r) (auto dest: op_live op_error)
qed

lemma stale_token_rejected:
  assumes "job_ok j" "j_lease_token j \<noteq> Some tok"
  shows "\<exists>e. op owner tok now j = (Inl e, j)"
  using assms by (intro not_owner_rejected) (auto simp: live_owner_def)

lemma expired_rejected:
  assumes "job_ok j" "\<And>u. j_lease_until j = Some u \<Longrightarrow> u \<le> now"
  shows "\<exists>e. op owner tok now j = (Inl e, j)"
  using assms by (intro not_owner_rejected) (force simp: live_owner_def)+

lemma preserves_ok: "job_ok j \<Longrightarrow> job_ok (snd (op owner tok now j))"
proof (cases "op owner tok now j")
  case (Pair r j')
  assume "job_ok j"
  with Pair show ?thesis by (cases r) (auto dest: op_error op_keeps_ok)
qed

lemma preserves_identity: "job_ok j \<Longrightarrow> same_identity j (snd (op owner tok now j))"
proof (cases "op owner tok now j")
  case (Pair r j')
  assume "job_ok j"
  with Pair show ?thesis
    by (cases r) (auto dest: op_error op_identity simp: same_identity_def)
qed

lemma no_new_token:
  assumes "job_ok j" "j_lease_token j \<noteq> Some t"
  shows "j_lease_token (snd (op owner tok now j)) \<noteq> Some t"
proof (cases "op owner tok now j")
  case (Pair r j')
  show ?thesis
  proof (cases r)
    case (Inl e)
    with Pair assms show ?thesis by (auto dest: op_error)
  next
    case (Inr x)
    with Pair have "j_lease_token j = Some tok"
      by (auto dest: op_live simp: live_owner_def)
    with assms Pair Inr show ?thesis by (auto dest: op_token)
  qed
qed

end

lemma retried_ok:
  assumes "job_ok j" "j_status j = Running"
  shows "job_ok (retried now retry_at err j)"
    and "j_status (retried now retry_at err j) = Failed \<longleftrightarrow> j_failure_count j + 1 \<ge> j_max_attempts j"
proof -
  have "j_failure_count j < j_max_attempts j" using assms by (rule running_budget)
  from checked_add_one_lt(3) [OF this] assms show "job_ok (retried now retry_at err j)"
    by (auto simp: job_ok_iff retried_def Let_def lease_empty_def not_le)
  show "j_status (retried now retry_at err j) = Failed \<longleftrightarrow> j_failure_count j + 1 \<ge> j_max_attempts j"
    by (simp add: retried_def Let_def)
qed

interpretation hb: fenced_transition "\<lambda>owner tok now. heartbeat X owner tok now lease_for"
  for X lease_for
proof (unfold_locales, goal_cases)
  case (2 j owner tok now e j')
  then show ?case by (auto simp: heartbeat_def split: sum.splits)
qed (auto simp: heartbeat_Inr_iff job_ok_iff same_identity_def live_owner_def lease_complete_def)

interpretation df: fenced_transition "\<lambda>owner tok now. defer_job owner tok now resume_at"
  for resume_at
proof (unfold_locales, goal_cases)
  case (2 j owner tok now e j')
  then show ?case by (auto simp: defer_job_def split: sum.splits if_splits)
qed (auto simp: defer_job_Inr_iff job_ok_iff same_identity_def live_owner_def lease_empty_def)

interpretation su: fenced_transition succeed
proof (unfold_locales, goal_cases)
  case (2 j owner tok now e j')
  then show ?case by (auto simp: succeed_def split: sum.splits)
qed (auto simp: succeed_Inr_iff job_ok_iff same_identity_def live_owner_def lease_empty_def)

interpretation re: fenced_transition "\<lambda>owner tok now. retry owner tok now retry_at err"
  for retry_at err
proof (unfold_locales, goal_cases)
  case (1 owner tok now j r j')
  then show ?case by (auto simp: retry_def job_guards dest: ensure_live_owner_Inl split: sum.splits)
next
  case (2 j owner tok now e j')
  then show ?case by (rule retry_Inl_unchanged)
next
  case (3 j owner tok now r j')
  then show ?case by (auto simp: retry_Inr_iff live_owner_def intro: retried_ok)
qed (auto simp: retry_Inr_iff retried_def same_identity_def Let_def)

interpretation fa: fenced_transition "\<lambda>owner tok now. fail owner tok now err"
  for err
proof (unfold_locales, goal_cases)
  case (2 j owner tok now e j')
  then show ?case by (auto simp: fail_def split: sum.splits)
qed (auto simp: fail_Inr_iff job_ok_iff same_identity_def live_owner_def lease_empty_def)


section \<open>Events\<close>

lemma succeeded_True: "succeeded p = (True, j') \<longleftrightarrow> (\<exists>r. p = (Inr r, j'))"
  by (cases p) (auto simp: succeeded_def split: sum.splits)

lemma succeeded_False: "succeeded p = (False, j') \<longleftrightarrow> (\<exists>e. p = (Inl e, j'))"
  by (cases p) (auto simp: succeeded_def split: sum.splits)

lemma run_event_unchanged: "job_ok j \<Longrightarrow> run_event X ev j = (False, j') \<Longrightarrow> j' = j"
  by (cases ev)
    (auto simp: succeeded_False dest: claim_Inl_unchanged hb.op_error df.op_error su.op_error
      re.op_error fa.op_error cancel_Inl_unchanged recover_expired_lease_False)

lemma claim_ok: "job_ok j \<Longrightarrow> claim X tok owner now lease_for j = (Inr t, j') \<Longrightarrow> job_ok j'"
  using checked_add_Some_unat [of "j_claim_count j" 1]
  by (auto simp: claim_Inr_iff job_ok_iff lease_complete_def split: job_status.splits)

lemma cancel_ok: "job_ok j \<Longrightarrow> cancel now reason j = (Inr r, j') \<Longrightarrow> job_ok j'"
  by (auto simp: cancel_Inr_iff job_ok_iff lease_empty_def split: job_status.splits)

text \<open>Case analysis on what one event does to a valid job.\<close>

lemma run_event_cases [consumes 1, case_names unchanged claim heartbeat deferral success retry failure cancellation recovery]:
  assumes "job_ok j"
  obtains (unchanged) "run_event X ev j = (False, j)"
  | (claim) tok owner now lease_for j' where "ev = EvClaim tok owner now lease_for"
      "claim X tok owner now lease_for j = (Inr tok, j')" "run_event X ev j = (True, j')"
  | (heartbeat) owner tok now lease_for j' where "ev = EvHeartbeat owner tok now lease_for"
      "heartbeat X owner tok now lease_for j = (Inr (), j')" "run_event X ev j = (True, j')"
  | (deferral) owner tok now resume_at j' where "ev = EvDefer owner tok now resume_at"
      "defer_job owner tok now resume_at j = (Inr (), j')" "run_event X ev j = (True, j')"
  | (success) owner tok now j' where "ev = EvSucceed owner tok now"
      "succeed owner tok now j = (Inr (), j')" "run_event X ev j = (True, j')"
  | (retry) owner tok now retry_at err where "ev = EvRetry owner tok now retry_at err"
      "live_owner owner tok now j" "run_event X ev j = (True, retried now retry_at err j)"
  | (failure) owner tok now err j' where "ev = EvFail owner tok now err"
      "fail owner tok now err j = (Inr (), j')" "run_event X ev j = (True, j')"
  | (cancellation) now reason j' where "ev = EvCancel now reason"
      "cancel now reason j = (Inr (), j')" "run_event X ev j = (True, j')"
  | (recovery) now where "ev = EvRecover now" "j_status j = Running"
      "\<exists>u. j_lease_until j = Some u \<and> u \<le> now"
      "run_event X ev j = (True, (retried now now (lit ''worker lease expired'') j)
         \<lparr>j_status := (if j_failure_count j + 1 \<ge> j_max_attempts j then Failed else Queued)\<rparr>)"
proof (cases "run_event X ev j")
  case (Pair b j')
  show thesis
  proof (cases b)
    case False
    with Pair assms have "j' = j" by (auto dest: run_event_unchanged)
    with Pair False show thesis by (intro unchanged) simp
  next
    case True
    show thesis
    proof (cases ev)
      case (EvClaim tok owner now lease_for)
      with Pair True show thesis by (intro claim) (auto simp: succeeded_True claim_Inr_iff)
    next
      case (EvRetry owner tok now retry_at err)
      with Pair True obtain r where "Job.retry owner tok now retry_at err j = (Inr r, j')"
        by (auto simp: succeeded_True)
      then have "live_owner owner tok now j" "j' = retried now retry_at err j"
        by (simp_all add: retry_Inr_iff [OF assms])
      with EvRetry Pair True show thesis by (intro retry) simp_all
    next
      case (EvRecover now)
      with Pair True have "recover_expired_lease now j = (True, j')" by simp
      from recover_expired_lease_True [OF assms this] EvRecover Pair True show thesis
        by (intro recovery) auto
    qed (use Pair True that in \<open>auto simp: succeeded_True\<close>)
  qed
qed

lemma retried_identity: "same_identity j (retried now retry_at err j)"
  by (simp add: retried_def same_identity_def Let_def)

lemma recovered_ok:
  assumes "job_ok j" "j_status j = Running"
  shows "job_ok ((retried now now err j)
    \<lparr>j_status := (if j_failure_count j + 1 \<ge> j_max_attempts j then Failed else Queued)\<rparr>)"
  using retried_ok [OF assms] by (auto simp: job_ok_iff retried_def Let_def lease_empty_def)

lemma run_event_ok:
  assumes "job_ok j"
  shows "job_ok (snd (run_event X ev j))"
  using assms
proof (cases rule: run_event_cases [of j X ev])
  case recovery
  then show ?thesis using recovered_ok [OF assms] by simp
qed (use assms in \<open>auto simp: live_owner_def intro: claim_ok cancel_ok retried_ok
      hb.op_keeps_ok df.op_keeps_ok su.op_keeps_ok fa.op_keeps_ok\<close>)

lemma run_event_identity:
  assumes "job_ok j"
  shows "same_identity j (snd (run_event X ev j))"
  using assms
proof (cases rule: run_event_cases [of j X ev])
  case recovery
  then show ?thesis by (simp add: same_identity_def retried_def Let_def)
qed (use assms in \<open>auto simp: job_exact same_identity_def retried_def Let_def\<close>)

lemma run_events_ok: "job_ok j \<Longrightarrow> job_ok (run_events X evs j)"
  by (induction evs arbitrary: j) (auto intro: run_event_ok)

lemma same_identity_refl: "same_identity j j"
  by (simp add: same_identity_def)

lemma same_identity_trans: "same_identity a b \<Longrightarrow> same_identity b c \<Longrightarrow> same_identity a c"
  by (simp add: same_identity_def)

lemma run_events_identity: "job_ok j \<Longrightarrow> same_identity j (run_events X evs j)"
proof (induction evs arbitrary: j)
  case Nil
  then show ?case by (simp add: same_identity_refl)
next
  case (Cons ev evs)
  have "same_identity (snd (run_event X ev j)) (run_events X evs (snd (run_event X ev j)))"
    by (rule Cons.IH) (rule run_event_ok [OF Cons.prems])
  with run_event_identity [OF Cons.prems] show ?case
    by (auto intro: same_identity_trans)
qed

lemma new_ok: "new uid spec = Inr j \<Longrightarrow> job_ok j"
  by (auto simp: new_def job_ok_iff lease_empty_def word_neq_0_conv split: if_splits)

text \<open>The token an event presents, and the token a claim event installs.\<close>

fun presented_token :: "job_event \<Rightarrow> lease_token option" where
  "presented_token (EvHeartbeat _ tok _ _) = Some tok"
| "presented_token (EvDefer _ tok _ _) = Some tok"
| "presented_token (EvSucceed _ tok _) = Some tok"
| "presented_token (EvRetry _ tok _ _ _) = Some tok"
| "presented_token (EvFail _ tok _ _) = Some tok"
| "presented_token _ = None"

fun claimed_token :: "job_event \<Rightarrow> lease_token option" where
  "claimed_token (EvClaim tok _ _ _) = Some tok"
| "claimed_token _ = None"

lemma run_event_stale:
  assumes "job_ok j" "presented_token ev = Some tok" "j_lease_token j \<noteq> Some tok"
  shows "run_event X ev j = (False, j)"
  using assms
  by (cases ev)
    (auto simp: succeeded_False dest: hb.stale_token_rejected df.stale_token_rejected
      su.stale_token_rejected re.stale_token_rejected fa.stale_token_rejected)

lemma run_event_no_token:
  assumes "job_ok j" "j_lease_token j \<noteq> Some tok" "claimed_token ev \<noteq> Some tok"
  shows "j_lease_token (snd (run_event X ev j)) \<noteq> Some tok"
  using assms(1)
proof (cases rule: run_event_cases [of j X ev])
  case heartbeat
  with assms show ?thesis by (auto simp: heartbeat_Inr_iff)
qed (use assms in \<open>auto simp: job_exact retried_def Let_def\<close>)

lemma run_events_no_token:
  assumes "job_ok j" "j_lease_token j \<noteq> Some tok" "\<forall>ev \<in> set evs. claimed_token ev \<noteq> Some tok"
  shows "j_lease_token (run_events X evs j) \<noteq> Some tok"
  using assms
proof (induction evs arbitrary: j)
  case Nil
  then show ?case by simp
next
  case (Cons ev evs)
  from Cons.prems show ?case
    using Cons.IH [OF run_event_ok run_event_no_token] by simp
qed

text \<open>Failure accounting of one event.\<close>

lemma retried_failure_count:
  assumes "job_ok j" "j_status j = Running"
  shows "unat (j_failure_count (retried now retry_at err j)) = unat (j_failure_count j) + 1"
  using checked_add_one_lt(2) [OF running_budget [OF assms]] by (simp add: retried_def Let_def)

lemma run_event_failure_count:
  assumes "job_ok j"
  shows "unat (j_failure_count (snd (run_event X ev j))) =
     unat (j_failure_count j) + (if is_failure_event ev \<and> fst (run_event X ev j) then 1 else 0)"
  using assms
proof (cases rule: run_event_cases [of j X ev])
  case (retry owner tok now retry_at err)
  then show ?thesis
    using retried_failure_count [OF assms] by (simp add: live_owner_def)
next
  case (recovery now)
  then show ?thesis using retried_failure_count [OF assms] by simp
qed (auto simp: job_exact)

lemma exhausted_is_failed:
  assumes "job_ok j" "j_failure_count j = j_max_attempts j \<longrightarrow> j_status j = Failed"
  shows "j_failure_count (snd (run_event X ev j)) = j_max_attempts (snd (run_event X ev j)) \<longrightarrow>
     j_status (snd (run_event X ev j)) = Failed"
  using assms(1)
proof (cases rule: run_event_cases [of j X ev])
  case retry
  then show ?thesis by (auto simp: retried_def Let_def)
next
  case recovery
  then show ?thesis by (auto simp: retried_def Let_def)
qed (use assms in \<open>auto simp: job_exact live_owner_def\<close>)


lemma run_event_terminal:
  assumes "job_ok j" "is_terminal (j_status j)"
  shows "run_event X ev j = (False, j)"
  using assms(1)
  by (cases rule: run_event_cases [of j X ev]) (use assms(2) in \<open>auto simp: job_exact live_owner_def\<close>)

lemma claim_live_owner:
  assumes "chrono_ok X" "claim X tok owner now lease_for j = (Inr t, j')" "at < now + lease_for"
  shows "live_owner owner tok at j'"
  using assms(2,3) chrono_add_exact [OF assms(1), of now lease_for]
  by (auto simp: claim_Inr_iff live_owner_def)


section \<open>Properties\<close>

text \<open>A concrete job for the witnesses.\<close>

definition example_spec :: new_job where
  "example_spec =
     \<lparr>nj_job_type = FeedRebuild, nj_source_id = Some 5, nj_priority = 10, nj_run_after = 0,
      nj_max_attempts = 2, nj_payload = JNull, nj_dedupe_key = lit ''feed_rebuild:5'',
      nj_now = 0\<rparr>"

definition example_job :: job where
  "example_job = (case new 77 example_spec of Inr j \<Rightarrow> j)"

definition example_worker :: rstring where
  "example_worker = lit ''worker-a''"

lemmas job_eval =
  example_spec_def example_worker_def lit_def trim_def trim_start_def is_whitespace_def new_def
  claim_def heartbeat_def defer_job_def succeed_def retry_def fail_def cancel_def
  recover_expired_lease_def validate_owner_def nonempty_error_def lease_expiry_def clear_lease_def
  ensure_live_owner_def checked_add_def saturating_add_def succeeded_def chrono_ref_def
  chrono_min_def chrono_max_def Let_def

lemma example_job_eq:
  "example_job =
     \<lparr>j_id = 77, j_type = FeedRebuild, j_source_id = Some 5, j_status = Queued, j_priority = 10,
      j_run_after = 0, j_claim_count = 0, j_failure_count = 0, j_max_attempts = 2,
      j_lease_owner = None, j_lease_token = None, j_lease_until = None, j_heartbeat_at = None,
      j_started_at = None, j_finished_at = None, j_last_error = None, j_payload = JNull,
      j_dedupe_key = lit ''feed_rebuild:5'', j_created_at = 0, j_updated_at = 0\<rparr>"
  by (simp add: example_job_def job_eval)

lemma example_job_new: "new 77 example_spec = Inr example_job"
  by (simp add: example_job_eq job_eval)

lemma example_job_ok: "job_ok example_job"
  by (rule new_ok [OF example_job_new])

definition example_claimed :: job where
  "example_claimed = snd (run_event chrono_ref (EvClaim 1 example_worker 10 1000) example_job)"

lemma example_claimed_ok: "job_ok example_claimed"
  by (simp only: example_claimed_def run_event_ok [OF example_job_ok])

text \<open>
  (C1) Every job the program can hold, created by \<open>Job::new\<close> and changed by any sequence of
  method calls, satisfies the persisted-state invariant, so that it can always be written and
  read back; its identity, type, source, priority, payload, deduplication key and attempt limit
  never change.
\<close>

theorem reachable_jobs_valid:
  assumes "job_reachable X j"
  shows "validate_persisted_state j = Inr () \<and>
     validate_persisted_state (run_events X evs j) = Inr () \<and> same_identity j (run_events X evs j)"
proof -
  from assms have "job_ok j"
    by (induction rule: job_reachable.induct) (auto intro: new_ok run_event_ok)
  then show ?thesis
    using run_events_ok run_events_identity by (simp add: job_ok_def)
qed

theorem reachable_jobs_valid_witness:
  "job_reachable chrono_ref example_job \<and>
   validate_persisted_state (run_events chrono_ref [EvClaim 1 example_worker 10 1000] example_job)
     = Inr ()"
  using reachable_jobs_valid [of chrono_ref example_job "[EvClaim 1 example_worker 10 1000]"]
    job_reachable.created [OF example_job_new, of chrono_ref] by simp

text \<open>
  (C2) Fencing. Once the lease token of a job is no longer \<open>tok\<close>, and as long as no later claim
  draws \<open>tok\<close> again, no heartbeat, deferral, completion, retry or failure that presents
  \<open>tok\<close> succeeds or changes the job, whatever happens in between.
\<close>

theorem stale_lease_never_acts:
  assumes "job_ok j" "j_lease_token j \<noteq> Some tok"
    and "\<forall>ev \<in> set evs. claimed_token ev \<noteq> Some tok"
    and "presented_token ev = Some tok"
  shows "run_event X ev (run_events X evs j) = (False, run_events X evs j)"
  using run_event_stale [OF run_events_ok [OF assms(1)] assms(4)
      run_events_no_token [OF assms(1-3)]] .

theorem stale_lease_never_acts_witness:
  "job_ok example_claimed \<and>
   run_event chrono_ref (EvSucceed example_worker 9 50)
     (run_events chrono_ref [EvRecover 2000, EvClaim 2 example_worker 2000 500] example_claimed) =
   (False,
    run_events chrono_ref [EvRecover 2000, EvClaim 2 example_worker 2000 500] example_claimed)"
proof -
  have "j_lease_token example_claimed = Some 1"
    by (simp add: example_claimed_def example_job_eq job_eval)
  then show ?thesis
    using stale_lease_never_acts [OF example_claimed_ok, of 9
        "[EvRecover 2000, EvClaim 2 example_worker 2000 500]" "EvSucceed example_worker 9 50"
        chrono_ref] example_claimed_ok
    by simp
qed

text \<open>
  (C3) The failure budget. Along any run the failure counter counts exactly the retries and lease
  recoveries that took effect; it never passes \<open>max_attempts\<close>, and a job that started with
  budget left and used all of it is in the terminal state \<open>Failed\<close>.
\<close>

theorem failure_budget_exact:
  assumes "job_ok j" "j_failure_count j < j_max_attempts j"
  shows "unat (j_failure_count (run_events X evs j)) =
           unat (j_failure_count j) + effective_failures X evs j \<and>
         unat (j_failure_count j) + effective_failures X evs j \<le> unat (j_max_attempts j) \<and>
         (unat (j_failure_count j) + effective_failures X evs j = unat (j_max_attempts j) \<longrightarrow>
            j_status (run_events X evs j) = Failed)"
proof -
  let ?inv = "\<lambda>j. j_failure_count j = j_max_attempts j \<longrightarrow> j_status j = Failed"
  have count: "job_ok j \<Longrightarrow> unat (j_failure_count (run_events X evs j)) =
      unat (j_failure_count j) + effective_failures X evs j" for j
    by (induction evs arbitrary: j) (auto simp: run_event_failure_count run_event_ok)
  have inv: "job_ok j \<Longrightarrow> ?inv j \<Longrightarrow> ?inv (run_events X evs j)" for j
  proof (induction evs arbitrary: j)
    case (Cons ev evs)
    then show ?case using run_event_ok exhausted_is_failed by simp
  qed simp
  have "job_ok (run_events X evs j)" using assms(1) by (rule run_events_ok)
  moreover have "same_identity j (run_events X evs j)" using assms(1) by (rule run_events_identity)
  moreover have "?inv j" using assms(2) by auto
  ultimately show ?thesis
    using count [OF assms(1)] inv [OF assms(1)]
    by (auto simp: job_ok_iff same_identity_def word_le_nat_alt simp flip: word_unat_eq_iff)
qed

theorem failure_budget_exact_witness:
  "unat (j_failure_count (run_events chrono_ref
      [EvClaim 1 example_worker 10 1000, EvRecover 2000, EvClaim 2 example_worker 2000 500,
       EvRetry example_worker 2 2100 3000 example_worker] example_job)) = 2 \<and>
   j_status (run_events chrono_ref
      [EvClaim 1 example_worker 10 1000, EvRecover 2000, EvClaim 2 example_worker 2000 500,
       EvRetry example_worker 2 2100 3000 example_worker] example_job) = Failed"
proof -
  let ?evs = "[EvClaim 1 example_worker 10 1000, EvRecover 2000, EvClaim 2 example_worker 2000 500,
       EvRetry example_worker 2 2100 3000 example_worker]"
  have h: "j_failure_count example_job < j_max_attempts example_job"
    by (simp add: example_job_eq)
  have "effective_failures chrono_ref ?evs example_job = 2"
    "unat (j_failure_count example_job) = 0" "unat (j_max_attempts example_job) = 2"
    by (simp_all add: example_job_eq job_eval word_le_nat_alt)
  with failure_budget_exact [OF example_job_ok h, of chrono_ref ?evs] show ?thesis by simp
qed

text \<open>
  The lifecycle. A call that succeeds moves the job along an edge of the documented
  lifecycle, except for a heartbeat, which keeps a running job running; a call that fails leaves
  the job exactly as it was.
\<close>

theorem events_follow_lifecycle:
  assumes "job_ok j"
  shows "if fst (run_event X ev j)
         then lifecycle_edge (j_status j) (j_status (snd (run_event X ev j))) \<or>
              (\<exists>owner tok now lease_for. ev = EvHeartbeat owner tok now lease_for) \<and>
              j_status j = Running \<and> j_status (snd (run_event X ev j)) = Running
         else snd (run_event X ev j) = j"
  using assms
  by (cases rule: run_event_cases [of j X ev])
    (auto simp: job_exact live_owner_def retried_def Let_def)

theorem events_follow_lifecycle_witness:
  "fst (run_event chrono_ref (EvRecover 2000) example_claimed) \<and>
   lifecycle_edge Running (j_status (snd (run_event chrono_ref (EvRecover 2000) example_claimed)))"
proof -
  have "j_status example_claimed = Running" "fst (run_event chrono_ref (EvRecover 2000) example_claimed)"
    by (simp_all add: example_claimed_def example_job_eq job_eval)
  then show ?thesis
    using events_follow_lifecycle [OF example_claimed_ok, of chrono_ref "EvRecover 2000"] by simp
qed

text \<open>
  A succeeded or failed job is final: no sequence of calls changes any field of it.
\<close>

theorem terminal_jobs_final:
  assumes "job_ok j" "is_terminal (j_status j)"
  shows "run_events X evs j = j"
  by (induction evs) (simp_all add: run_event_terminal [OF assms])

theorem terminal_jobs_final_witness:
  "run_events chrono_ref [EvClaim 2 example_worker 5000 1000, EvRecover 9000]
     (snd (run_event chrono_ref (EvSucceed example_worker 1 50) example_claimed)) =
   snd (run_event chrono_ref (EvSucceed example_worker 1 50) example_claimed)"
proof (rule terminal_jobs_final)
  show "job_ok (snd (run_event chrono_ref (EvSucceed example_worker 1 50) example_claimed))"
    by (rule run_event_ok [OF example_claimed_ok])
  show "is_terminal (j_status (snd (run_event chrono_ref (EvSucceed example_worker 1 50) example_claimed)))"
    by (simp add: example_claimed_def example_job_eq job_eval)
qed

text \<open>
  A successful claim is exclusive until its lease ends: up to then the claimer is the live
  owner, lease recovery leaves the job alone and every other claim is refused.
\<close>

theorem claim_exclusive:
  assumes "chrono_ok X" "claim X tok owner now lease_for j = (Inr t, j')" "at < now + lease_for"
  shows "live_owner owner tok at j' \<and> recover_expired_lease at j' = (False, j') \<and>
    (\<exists>e. claim X tok2 owner2 at lease2 j' = (Inl e, j'))"
proof -
  have live: "live_owner owner tok at j'" by (rule claim_live_owner [OF assms])
  then have "recover_expired_lease at j' = (False, j')"
    by (auto simp: live_owner_def recover_expired_lease_def)
  moreover obtain r j'' where r: "claim X tok2 owner2 at lease2 j' = (r, j'')"
    by (cases "claim X tok2 owner2 at lease2 j'")
  moreover have "\<exists>e. r = Inl e" using r live by (cases r) (auto simp: claim_Inr_iff live_owner_def)
  ultimately show ?thesis using live by (auto dest: claim_Inl_unchanged)
qed

theorem claim_exclusive_witness:
  "live_owner example_worker 1 1009 example_claimed \<and>
   recover_expired_lease 1009 example_claimed = (False, example_claimed)"
proof -
  have "claim chrono_ref 1 example_worker 10 1000 example_job = (Inr 1, example_claimed)"
    by (simp add: example_claimed_def example_job_eq job_eval)
  from claim_exclusive [OF chrono_ref_ok this, of 1009] show ?thesis by simp
qed

text \<open>
  Crash recovery. Recovering a running job whose lease has ended always takes effect: nobody
  owns the job any more, one failure is charged, and the job is queued and due at once, or failed
  when that was its last attempt. A second recovery does nothing.
\<close>

theorem recovery_releases_job:
  assumes "job_ok j" "j_status j = Running" "j_lease_until j = Some u" "u \<le> now"
  shows "\<exists>j'. recover_expired_lease now j = (True, j') \<and>
    recover_expired_lease later j' = (False, j') \<and> \<not> live_owner owner tok at j' \<and>
    unat (j_failure_count j') = unat (j_failure_count j) + 1 \<and>
    (if unat (j_failure_count j) + 1 < unat (j_max_attempts j)
     then j_status j' = Queued \<and> j_run_after j' = now
     else j_status j' = Failed \<and> j_finished_at j' = Some now)"
proof -
  obtain j' where r: "recover_expired_lease now j = (True, j')"
    using assms by (simp add: recover_expired_lease_def Let_def)
  note b = running_budget [OF assms(1,2)]
  have j': "j' = (retried now now (lit ''worker lease expired'') j)
       \<lparr>j_status := (if j_failure_count j + 1 \<ge> j_max_attempts j then Failed else Queued)\<rparr>"
    by (rule recover_expired_lease_True(3) [OF assms(1) r])
  have c: "unat (j_failure_count j') = unat (j_failure_count j) + 1"
    using retried_failure_count [OF assms(1,2)] by (simp add: j')
  have ex: "j_failure_count j + 1 \<ge> j_max_attempts j \<longleftrightarrow>
      \<not> unat (j_failure_count j) + 1 < unat (j_max_attempts j)"
    using checked_add_one_lt(2) [OF b] by (simp add: word_le_nat_alt not_less)
  show ?thesis
    using r c by (auto simp: ex j' retried_def Let_def live_owner_def recover_expired_lease_def)
qed

theorem recovery_releases_job_witness:
  "\<exists>j'. recover_expired_lease 1010 example_claimed = (True, j') \<and> j_status j' = Queued \<and>
     j_run_after j' = 1010"
proof -
  have "j_status example_claimed = Running" "j_lease_until example_claimed = Some 1010"
    "unat (j_failure_count example_claimed) = 0" "unat (j_max_attempts example_claimed) = 2"
    by (simp_all add: example_claimed_def example_job_eq job_eval)
  then show ?thesis
    using recovery_releases_job [OF example_claimed_ok, of 1010 1010 0 example_worker 0 0] by auto
qed

text \<open>
  A planned deferral is free: it changes neither counter, the job cannot be claimed before
  the resume time, and it can be claimed at the resume time by any worker with a name and a
  representable positive lease while the claim counter has room.
\<close>

theorem deferral_keeps_budget:
  assumes "job_ok j" "defer_job owner tok now resume_at j = (Inr (), j')"
  shows "j_claim_count j' = j_claim_count j \<and> j_failure_count j' = j_failure_count j \<and>
    (at < resume_at \<longrightarrow> (\<exists>e. claim X tok2 owner2 at lease2 j' = (Inl e, j'))) \<and>
    (trim owner2 \<noteq> [] \<longrightarrow> 0 < lease2 \<longrightarrow> checked_add_signed X resume_at lease2 \<noteq> None \<longrightarrow>
     j_claim_count j < - 1 \<longrightarrow> (\<exists>j''. claim X tok2 owner2 resume_at lease2 j' = (Inr tok2, j'')))"
proof -
  from assms(2) have live: "live_owner owner tok now j"
    and j': "j' = j\<lparr>j_status := Deferred, j_run_after := resume_at, j_lease_owner := None,
            j_lease_token := None, j_lease_until := None, j_last_error := None,
            j_finished_at := None, j_updated_at := now\<rparr>"
    by (auto simp: defer_job_Inr_iff)
  have b: "j_failure_count j < j_max_attempts j"
    using live assms(1) by (auto simp: live_owner_def intro: running_budget)
  have "\<exists>e. claim X tok2 owner2 at lease2 j' = (Inl e, j')" if "at < resume_at"
    using that
    by (cases "claim X tok2 owner2 at lease2 j'"; cases "fst (claim X tok2 owner2 at lease2 j')")
      (auto simp: claim_Inr_iff j' dest: claim_Inl_unchanged)
  moreover have "\<exists>j''. claim X tok2 owner2 resume_at lease2 j' = (Inr tok2, j'')"
    if "trim owner2 \<noteq> []" "0 < lease2" "checked_add_signed X resume_at lease2 \<noteq> None"
      "j_claim_count j < - 1"
    using that b checked_add_one_lt(1) [OF that(4)] by (auto simp: claim_Inr_iff j')
  ultimately show ?thesis by (simp add: j')
qed

theorem deferral_keeps_budget_witness:
  "\<exists>j''. claim chrono_ref 3 example_worker 900 100
     (snd (defer_job example_worker 1 500 900 example_claimed)) = (Inr 3, j'')"
proof -
  have d: "defer_job example_worker 1 500 900 example_claimed =
      (Inr (), snd (defer_job example_worker 1 500 900 example_claimed))"
    and "j_claim_count example_claimed = 1" "trim example_worker \<noteq> []"
    by (simp_all add: example_claimed_def example_job_eq job_eval)
  moreover have "checked_add_signed chrono_ref 900 100 \<noteq> None" "(1 :: u32) < - 1"
    by (simp_all add: chrono_ref_def chrono_min_def chrono_max_def word_less_alt uint_word_ariths)
  ultimately show ?thesis
    using deferral_keeps_budget [OF example_claimed_ok d, of 0 chrono_ref 3 example_worker 100]
    by simp
qed

end
