(* ===== verification/Job_Store.thy ===== *)
theory Job_Store
  imports Job_Lifecycle "HOL-Library.Option_ord"
begin

text \<open>
  The job repository contract and its in-memory implementation, from
  \<^verbatim>\<open>src/persistence/repositories/job_repository.rs\<close>: enqueue with active deduplication, the
  claim of the first due job in queue order, the fenced transitions addressed by job id, bounded
  recovery of expired leases, and transactions with rollback.

  The store is a \<^verbatim>\<open>HashMap\<close>, here the list of its entries in iteration order; \<open>AList.update\<close>
  is \<^verbatim>\<open>insert\<close> and the write through \<^verbatim>\<open>get_mut\<close>. The iteration order of a
  \<^verbatim>\<open>HashMap\<close> is unspecified, so what the operations return must not depend on it: this is
  proved, not assumed.
\<close>

section \<open>Orderings\<close>

text \<open>\<^verbatim>\<open>std::cmp::Ordering\<close> with \<^verbatim>\<open>then_with\<close>, and \<^verbatim>\<open>Iterator::min_by\<close>, which keeps the
  first of several minima.\<close>

datatype ordering = Less | Equal | Greater

definition cmp_of :: "'a::linorder \<Rightarrow> 'a \<Rightarrow> ordering" where
  "cmp_of a b = (if a < b then Less else if a = b then Equal else Greater)"

fun then_with :: "ordering \<Rightarrow> ordering \<Rightarrow> ordering" where
  "then_with Equal o2 = o2"
| "then_with o1 _ = o1"

fun min_by :: "('a \<Rightarrow> 'a \<Rightarrow> ordering) \<Rightarrow> 'a list \<Rightarrow> 'a option" where
  "min_by cmp [] = None"
| "min_by cmp (x # xs) = Some (foldl (\<lambda>a b. if cmp a b = Greater then b else a) x xs)"


section \<open>The repository's types\<close>

datatype enqueue_result = Inserted job | AlreadyActive uuid

record job_lease =
  l_job :: job
  l_token :: lease_token

datatype job_outcome =
    OutDeferred uuid rstring lease_token datetime datetime
  | OutSucceeded uuid rstring lease_token datetime
  | OutRetry uuid rstring lease_token datetime datetime rstring
  | OutFailed uuid rstring lease_token datetime rstring
  | OutCancelled uuid datetime rstring

datatype job_repository_error = DomainErr job_error | NotFound uuid | Storage string

type_synonym store = "(uuid \<times> job) list"

type_synonym 'a store_result = "(job_repository_error + 'a) \<times> store"


section \<open>Operations on the locked store\<close>

definition claim_order :: "job \<Rightarrow> job \<Rightarrow> ordering" where
  "claim_order left right =
     then_with (then_with (then_with (cmp_of (j_priority right) (j_priority left))
       (cmp_of (j_run_after left) (j_run_after right)))
       (cmp_of (j_created_at left) (j_created_at right)))
       (cmp_of (j_id left) (j_id right))"

definition get_mut :: "store \<Rightarrow> uuid \<Rightarrow> job_repository_error + job" where
  "get_mut jobs job_id = ok_or (NotFound job_id) (map_of jobs job_id)"

text \<open>A transition through \<^verbatim>\<open>get_mut\<close>: the job is changed in place and a snapshot returned.\<close>

definition transition ::
    "uuid \<Rightarrow> (job \<Rightarrow> (job_error + 'a) \<times> job) \<Rightarrow> store \<Rightarrow> ('a \<times> job) store_result" where
  "transition job_id op jobs =
     (case get_mut jobs job_id of
        Inl e \<Rightarrow> (Inl e, jobs)
      | Inr j \<Rightarrow>
          (case op j of
             (Inl e, j') \<Rightarrow> (Inl (DomainErr e), AList.update job_id j' jobs)
           | (Inr r, j') \<Rightarrow> (Inr (r, j'), AList.update job_id j' jobs)))"

definition snapshot :: "('a \<times> job) store_result \<Rightarrow> job store_result" where
  "snapshot r = (case fst r of Inl e \<Rightarrow> (Inl e, snd r) | Inr p \<Rightarrow> (Inr (snd p), snd r))"

definition enqueue_in_store :: "uuid \<Rightarrow> new_job \<Rightarrow> store \<Rightarrow> enqueue_result store_result" where
  "enqueue_in_store uid spec jobs =
     (case find (\<lambda>j. is_active (j_status j) \<and> j_dedupe_key j = nj_dedupe_key spec) (map snd jobs) of
        Some existing \<Rightarrow> (Inr (AlreadyActive (j_id existing)), jobs)
      | None \<Rightarrow>
          (case new uid spec of
             Inl e \<Rightarrow> (Inl (DomainErr e), jobs)
           | Inr j \<Rightarrow> (Inr (Inserted j), AList.update (j_id j) j jobs)))"

definition claimable :: "datetime \<Rightarrow> job_type list \<Rightarrow> job \<Rightarrow> bool" where
  "claimable now allowed j \<longleftrightarrow>
     j_status j \<in> {Queued, RetryWait, Deferred} \<and> j_run_after j \<le> now \<and>
     j_type j \<in> set allowed \<and> j_failure_count j < j_max_attempts j"

definition claim_next_in_store ::
    "chrono \<Rightarrow> lease_token \<Rightarrow> rstring \<Rightarrow> datetime \<Rightarrow> duration \<Rightarrow> job_type list \<Rightarrow> store \<Rightarrow>
     job_lease option store_result" where
  "claim_next_in_store X tok owner now lease_for allowed jobs =
     (case min_by (\<lambda>l r. claim_order (snd l) (snd r))
             (filter (\<lambda>e. claimable now allowed (snd e)) jobs) of
        None \<Rightarrow> (Inr None, jobs)
      | Some (candidate_id, _) \<Rightarrow>
          (case transition candidate_id (claim X tok owner now lease_for) jobs of
             (Inl e, jobs') \<Rightarrow> (Inl e, jobs')
           | (Inr (t, j), jobs') \<Rightarrow> (Inr (Some \<lparr>l_job = j, l_token = t\<rparr>), jobs')))"

definition heartbeat_in_store ::
    "chrono \<Rightarrow> uuid \<Rightarrow> rstring \<Rightarrow> lease_token \<Rightarrow> datetime \<Rightarrow> duration \<Rightarrow> store \<Rightarrow> job store_result" where
  "heartbeat_in_store X job_id owner token now lease_for jobs =
     snapshot (transition job_id (heartbeat X owner token now lease_for) jobs)"

definition defer_in_store ::
    "uuid \<Rightarrow> rstring \<Rightarrow> lease_token \<Rightarrow> datetime \<Rightarrow> datetime \<Rightarrow> store \<Rightarrow> job store_result" where
  "defer_in_store job_id owner token now resume_at jobs =
     snapshot (transition job_id (defer_job owner token now resume_at) jobs)"

definition succeed_in_store ::
    "uuid \<Rightarrow> rstring \<Rightarrow> lease_token \<Rightarrow> datetime \<Rightarrow> store \<Rightarrow> job store_result" where
  "succeed_in_store job_id owner token now jobs =
     snapshot (transition job_id (succeed owner token now) jobs)"

definition retry_in_store ::
    "uuid \<Rightarrow> rstring \<Rightarrow> lease_token \<Rightarrow> datetime \<Rightarrow> datetime \<Rightarrow> rstring \<Rightarrow> store \<Rightarrow>
     job store_result" where
  "retry_in_store job_id owner token now retry_at err jobs =
     snapshot (transition job_id (retry owner token now retry_at err) jobs)"

definition fail_in_store ::
    "uuid \<Rightarrow> rstring \<Rightarrow> lease_token \<Rightarrow> datetime \<Rightarrow> rstring \<Rightarrow> store \<Rightarrow> job store_result" where
  "fail_in_store job_id owner token now err jobs =
     snapshot (transition job_id (fail owner token now err) jobs)"

definition cancel_in_store :: "uuid \<Rightarrow> datetime \<Rightarrow> rstring \<Rightarrow> store \<Rightarrow> job store_result" where
  "cancel_in_store job_id now reason jobs = snapshot (transition job_id (cancel now reason) jobs)"

definition lease_expired :: "datetime \<Rightarrow> job \<Rightarrow> bool" where
  "lease_expired now j \<longleftrightarrow>
     j_status j = Running \<and> (case j_lease_until j of Some u \<Rightarrow> u \<le> now | None \<Rightarrow> False)"

text \<open>The recovery loop; \<open>None\<close> is the panic of its \<^verbatim>\<open>expect\<close>.\<close>

fun recover_each :: "datetime \<Rightarrow> uuid list \<Rightarrow> store \<Rightarrow> job list option \<times> store" where
  "recover_each now [] jobs = (Some [], jobs)"
| "recover_each now (i # is) jobs =
     (case map_of jobs i of
        None \<Rightarrow> (None, jobs)
      | Some j \<Rightarrow>
          (let (changed, j') = recover_expired_lease now j;
               (rest, jobs') = recover_each now is (AList.update i j' jobs)
           in (map_option (\<lambda>js. if changed then j' # js else js) rest, jobs')))"

definition recovery_candidates :: "datetime \<Rightarrow> nat \<Rightarrow> store \<Rightarrow> (uuid \<times> datetime option) list" where
  "recovery_candidates now limit jobs =
     take limit (sort_key snd
       (map (\<lambda>(i, j). (i, j_lease_until j)) (filter (\<lambda>(i, j). lease_expired now j) jobs)))"

definition recover_expired_in_store ::
    "datetime \<Rightarrow> nat \<Rightarrow> store \<Rightarrow> job list option \<times> store" where
  "recover_expired_in_store now limit jobs =
     recover_each now (map fst (recovery_candidates now limit jobs)) jobs"


section \<open>Transactions\<close>

record memory_transaction =
  guard :: "store option"
  backup :: store
  committed :: bool

definition begin_tx :: "store \<Rightarrow> memory_transaction" where
  "begin_tx jobs = \<lparr>guard = Some jobs, backup = jobs, committed = False\<rparr>"

definition jobs_mut :: "memory_transaction \<Rightarrow> job_repository_error + store" where
  "jobs_mut tx = ok_or (Storage ''transaction is closed'') (guard tx)"

text \<open>One call of a transaction method; a method works on the store behind \<^verbatim>\<open>jobs_mut\<close>.\<close>

definition in_tx ::
    "(store \<Rightarrow> 'a store_result) \<Rightarrow> memory_transaction \<Rightarrow>
     (job_repository_error + 'a) \<times> memory_transaction" where
  "in_tx op tx =
     (case jobs_mut tx of
        Inl e \<Rightarrow> (Inl e, tx)
      | Inr jobs \<Rightarrow> (case op jobs of (r, jobs') \<Rightarrow> (r, tx\<lparr>guard := Some jobs'\<rparr>)))"

text \<open>
  \<open>commit_tx\<close> and \<open>drop_tx\<close> return the store the mutex holds once the guard is released:
  \<open>None\<close> when the handle no longer holds the guard.
\<close>

definition commit_tx :: "memory_transaction \<Rightarrow> store option \<times> memory_transaction" where
  "commit_tx tx = (guard tx, tx\<lparr>committed := True, guard := None\<rparr>)"

definition drop_tx :: "memory_transaction \<Rightarrow> store option" where
  "drop_tx tx =
     (if \<not> committed tx then (case guard tx of Some _ \<Rightarrow> Some (backup tx) | None \<Rightarrow> None)
      else guard tx)"

fun apply_outcome :: "job_outcome \<Rightarrow> store \<Rightarrow> job store_result" where
  "apply_outcome (OutDeferred job_id owner token now resume_at) jobs =
     defer_in_store job_id owner token now resume_at jobs"
| "apply_outcome (OutSucceeded job_id owner token now) jobs =
     succeed_in_store job_id owner token now jobs"
| "apply_outcome (OutRetry job_id owner token now retry_at err) jobs =
     retry_in_store job_id owner token now retry_at err jobs"
| "apply_outcome (OutFailed job_id owner token now err) jobs =
     fail_in_store job_id owner token now err jobs"
| "apply_outcome (OutCancelled job_id now reason) jobs = cancel_in_store job_id now reason jobs"

text \<open>
  The convenience methods of \<^verbatim>\<open>JobRepository\<close> (defer, succeed, retry, fail, cancel): begin, one
  operation, and commit; the early return of \<^verbatim>\<open>?\<close> drops the transaction.
\<close>

definition commit_outcome :: "job_outcome \<Rightarrow> store \<Rightarrow> job store_result" where
  "commit_outcome outcome jobs =
     (case in_tx (apply_outcome outcome) (begin_tx jobs) of
        (Inl e, tx) \<Rightarrow> (Inl e, case drop_tx tx of Some jobs' \<Rightarrow> jobs' | None \<Rightarrow> jobs)
      | (Inr j, tx) \<Rightarrow> (Inr j, case fst (commit_tx tx) of Some jobs' \<Rightarrow> jobs' | None \<Rightarrow> jobs))"


section \<open>Operations of the repository as steps\<close>

datatype store_op =
    OpEnqueue uuid new_job
  | OpClaimNext lease_token rstring datetime duration "job_type list"
  | OpHeartbeat uuid rstring lease_token datetime duration
  | OpOutcome job_outcome
  | OpRecover datetime nat

fun run_store_op :: "chrono \<Rightarrow> store_op \<Rightarrow> store \<Rightarrow> store" where
  "run_store_op X (OpEnqueue uid spec) s = snd (enqueue_in_store uid spec s)"
| "run_store_op X (OpClaimNext tok owner now lease_for allowed) s =
     snd (claim_next_in_store X tok owner now lease_for allowed s)"
| "run_store_op X (OpHeartbeat job_id owner tok now lease_for) s =
     snd (heartbeat_in_store X job_id owner tok now lease_for s)"
| "run_store_op X (OpOutcome outcome) s = snd (commit_outcome outcome s)"
| "run_store_op X (OpRecover now limit) s = snd (recover_expired_in_store now limit s)"

definition unique_active :: "store \<Rightarrow> bool" where
  "unique_active s \<longleftrightarrow>
     (\<forall>(a, ja) \<in> set s. \<forall>(b, jb) \<in> set s.
        is_active (j_status ja) \<longrightarrow> is_active (j_status jb) \<longrightarrow>
        j_dedupe_key ja = j_dedupe_key jb \<longrightarrow> a = b)"

definition store_ok :: "store \<Rightarrow> bool" where
  "store_ok s \<longleftrightarrow>
     distinct (map fst s) \<and> (\<forall>(i, j) \<in> set s. j_id j = i \<and> job_ok j) \<and> unique_active s"

text \<open>The identifier drawn by an enqueue is unused.\<close>

fun fresh_op :: "store_op \<Rightarrow> store \<Rightarrow> bool" where
  "fresh_op (OpEnqueue uid spec) s \<longleftrightarrow> uid \<notin> fst ` set s"
| "fresh_op _ s \<longleftrightarrow> True"

section \<open>Minimum by a comparison function\<close>

locale total_cmp =
  fixes cmp :: "'a \<Rightarrow> 'a \<Rightarrow> ordering"
  assumes cmp_total: "cmp x y = Greater \<Longrightarrow> cmp y x \<noteq> Greater"
    and cmp_trans: "cmp x y \<noteq> Greater \<Longrightarrow> cmp y z \<noteq> Greater \<Longrightarrow> cmp x z \<noteq> Greater"
begin

lemma foldl_min:
  "foldl (\<lambda>a b. if cmp a b = Greater then b else a) x xs \<in> insert x (set xs) \<and>
   (\<forall>y \<in> insert x (set xs). cmp (foldl (\<lambda>a b. if cmp a b = Greater then b else a) x xs) y \<noteq> Greater)"
proof (induction xs arbitrary: x)
  case Nil
  then show ?case using cmp_total [of x x] by auto
next
  case (Cons b xs)
  let ?m = "if cmp x b = Greater then b else x"
  have le: "cmp ?m x \<noteq> Greater" "cmp ?m b \<noteq> Greater"
    using cmp_total [of x b] cmp_total [of x x] cmp_total [of b b] by auto
  let ?f = "foldl (\<lambda>a b. if cmp a b = Greater then b else a) ?m xs"
  from Cons.IH [of ?m] have m: "cmp ?f ?m \<noteq> Greater" and r: "\<forall>y \<in> set xs. cmp ?f y \<noteq> Greater"
    by simp_all
  have "cmp ?f x \<noteq> Greater" "cmp ?f b \<noteq> Greater"
    by (rule cmp_trans [OF m le(1)], rule cmp_trans [OF m le(2)])
  with r have "\<forall>y \<in> insert x (insert b (set xs)). cmp ?f y \<noteq> Greater" by blast
  moreover from Cons.IH [of ?m]
  have "?f \<in> insert x (insert b (set xs))"
    by (cases "cmp x b = Greater") auto
  ultimately show ?case by simp
qed

lemma min_by_Some:
  assumes "min_by cmp xs = Some m"
  shows "m \<in> set xs" "\<And>y. y \<in> set xs \<Longrightarrow> cmp m y \<noteq> Greater"
  using assms foldl_min by (cases xs; auto)+

lemma min_by_None: "min_by cmp xs = None \<longleftrightarrow> xs = []"
  by (cases xs) auto

text \<open>Where ties are impossible the minimum depends on the set of elements only.\<close>

lemma min_by_set:
  assumes "set xs = set ys"
    and "\<And>a b. a \<in> set xs \<Longrightarrow> b \<in> set xs \<Longrightarrow> cmp a b \<noteq> Greater \<Longrightarrow> cmp b a \<noteq> Greater \<Longrightarrow> a = b"
  shows "min_by cmp xs = min_by cmp ys"
proof (cases "min_by cmp xs")
  case None
  with assms(1) show ?thesis by (auto simp: min_by_None)
next
  case (Some a)
  with assms(1) obtain b where b: "min_by cmp ys = Some b"
    by (cases "min_by cmp ys") (auto simp: min_by_None)
  note a_min = min_by_Some [OF Some] and b_min = min_by_Some [OF b]
  have "a = b"
  proof (rule assms(2))
    show "a \<in> set xs" by (rule a_min(1))
    show in_xs: "b \<in> set xs" using b_min(1) by (simp add: assms(1))
    show "cmp a b \<noteq> Greater" by (rule a_min(2) [OF in_xs])
    show "cmp b a \<noteq> Greater" using a_min(1) by (intro b_min(2)) (simp add: assms(1))
  qed
  then show ?thesis by (simp add: Some b)
qed

end

definition claim_key_le :: "job \<Rightarrow> job \<Rightarrow> bool" where
  "claim_key_le l r \<longleftrightarrow>
     j_priority r < j_priority l \<or> j_priority r = j_priority l \<and>
     (j_run_after l < j_run_after r \<or> j_run_after l = j_run_after r \<and>
      (j_created_at l < j_created_at r \<or> j_created_at l = j_created_at r \<and> j_id l \<le> j_id r))"

lemma claim_order_Greater: "claim_order l r \<noteq> Greater \<longleftrightarrow> claim_key_le l r"
  unfolding claim_order_def cmp_of_def claim_key_le_def by auto

lemma claim_key_le_antisym: "claim_key_le l r \<Longrightarrow> claim_key_le r l \<Longrightarrow> j_id l = j_id r"
  unfolding claim_key_le_def by auto

lemma claim_key_le_trans: "claim_key_le a b \<Longrightarrow> claim_key_le b c \<Longrightarrow> claim_key_le a c"
  unfolding claim_key_le_def by (elim disjE conjE; simp)

interpretation co: total_cmp "\<lambda>l r :: 'k \<times> job. claim_order (snd l) (snd r)"
proof (unfold_locales, goal_cases)
  case (1 x y)
  then have "\<not> claim_key_le (snd x) (snd y)" using claim_order_Greater by blast
  then have "claim_key_le (snd y) (snd x)" unfolding claim_key_le_def by auto
  then show ?case by (simp only: claim_order_Greater)
next
  case (2 x y z)
  then have "claim_key_le (snd x) (snd z)"
    unfolding claim_order_Greater by (rule claim_key_le_trans)
  then show ?case by (simp only: claim_order_Greater)
qed


section \<open>The store as a map\<close>

lemma map_of_update [simp]: "map_of (AList.update k v s) = (map_of s)(k \<mapsto> v)"
  by (simp add: AList.update_conv')

lemma store_ok_map_of:
  assumes "store_ok s" "map_of s i = Some j"
  shows "j_id j = i" "job_ok j"
proof -
  have "(i, j) \<in> set s" using assms(2) by (rule map_of_SomeD)
  then have "case (i, j) of (i, j) \<Rightarrow> j_id j = i \<and> job_ok j"
    using assms(1) unfolding store_ok_def by blast
  then show "j_id j = i" "job_ok j" by simp_all
qed

lemma store_ok_unique:
  assumes "store_ok s" "map_of s a = Some ja" "map_of s b = Some jb"
    "is_active (j_status ja)" "is_active (j_status jb)" "j_dedupe_key ja = j_dedupe_key jb"
  shows "a = b"
proof -
  have "(a, ja) \<in> set s" "(b, jb) \<in> set s" using assms(2,3) by (auto dest: map_of_SomeD)
  moreover have "unique_active s" using assms(1) by (simp add: store_ok_def)
  ultimately show ?thesis using assms(4-) unfolding unique_active_def by fast
qed

lemma store_okI:
  assumes "distinct (map fst s)"
    and "\<And>i j. map_of s i = Some j \<Longrightarrow> j_id j = i \<and> job_ok j"
    and "\<And>a b ja jb. map_of s a = Some ja \<Longrightarrow> map_of s b = Some jb \<Longrightarrow> is_active (j_status ja) \<Longrightarrow>
       is_active (j_status jb) \<Longrightarrow> j_dedupe_key ja = j_dedupe_key jb \<Longrightarrow> a = b"
  shows "store_ok s"
proof -
  have m: "(i, j) \<in> set s \<Longrightarrow> map_of s i = Some j" for i j
    using assms(1) by simp
  have "unique_active s"
    unfolding unique_active_def
  proof (clarify)
    fix a ja b jb
    assume "(a, ja) \<in> set s" "(b, jb) \<in> set s" "is_active (j_status ja)" "is_active (j_status jb)"
      "j_dedupe_key ja = j_dedupe_key jb"
    then show "a = b" by (intro assms(3) [OF m m])
  qed
  moreover have "\<forall>(i, j) \<in> set s. j_id j = i \<and> job_ok j"
    using m assms(2) by blast
  ultimately show ?thesis using assms(1) by (simp add: store_ok_def)
qed

lemma store_ok_distinct: "store_ok s \<Longrightarrow> distinct (map fst s)"
  by (simp add: store_ok_def)

lemma not_active_terminal: "\<not> is_active st \<longleftrightarrow> is_terminal st"
  by (cases st) simp_all

text \<open>Replacing a stored job by one that an event made of it keeps the store consistent.\<close>

lemma store_ok_event:
  assumes "store_ok s" "map_of s i = Some j"
  shows "store_ok (AList.update i (snd (run_event X ev j)) s)"
proof (rule store_okI)
  let ?j = "snd (run_event X ev j)"
  note j = store_ok_map_of [OF assms]
  have same: "j_id ?j = i" "j_dedupe_key ?j = j_dedupe_key j"
    using run_event_identity [OF j(2), of X ev] j(1) by (simp_all add: same_identity_def)
  have act: "is_active (j_status ?j) \<Longrightarrow> is_active (j_status j)"
    using run_event_terminal [OF j(2), of X ev] not_active_terminal [of "j_status j"] by auto
  show "distinct (map fst (AList.update i ?j s))"
    by (rule AList.distinct_update) (rule store_ok_distinct [OF assms(1)])
  show "j_id j' = i' \<and> job_ok j'" if "map_of (AList.update i ?j s) i' = Some j'" for i' j'
    using that same run_event_ok [OF j(2), of X ev] store_ok_map_of [OF assms(1)]
    by (auto split: if_splits)
  show "a = b" if "map_of (AList.update i ?j s) a = Some ja" "map_of (AList.update i ?j s) b = Some jb"
    "is_active (j_status ja)" "is_active (j_status jb)" "j_dedupe_key ja = j_dedupe_key jb" for a b ja jb
  proof -
    have "\<exists>k. map_of s a = Some k \<and> is_active (j_status k) \<and> j_dedupe_key k = j_dedupe_key ja"
      "\<exists>k. map_of s b = Some k \<and> is_active (j_status k) \<and> j_dedupe_key k = j_dedupe_key jb"
      using that assms(2) same act by (auto split: if_splits)
    then show "a = b" using store_ok_unique [OF assms(1)] that(5) by auto
  qed
qed

section \<open>What a queue promises\<close>

text \<open>
  How a stored job may change: its identity stays, its status moves along the lifecycle, the
  counters only grow, and a terminal job does not change at all.
\<close>

definition job_evolves :: "job \<Rightarrow> job \<Rightarrow> bool" where
  "job_evolves j j' \<longleftrightarrow>
     same_identity j j' \<and> lifecycle_edge\<^sup>*\<^sup>* (j_status j) (j_status j') \<and>
     j_failure_count j \<le> j_failure_count j' \<and> j_claim_count j \<le> j_claim_count j' \<and>
     (is_terminal (j_status j) \<longrightarrow> j' = j)"

lemma job_evolves_refl: "job_evolves j j"
  by (simp add: job_evolves_def same_identity_refl)

lemma job_evolves_trans:
  assumes "job_evolves a b" "job_evolves b c"
  shows "job_evolves a c"
  using assms unfolding job_evolves_def
  by (auto intro: same_identity_trans rtranclp_trans order_trans)

fun legal_run :: "('op \<Rightarrow> 's \<Rightarrow> bool) \<Rightarrow> ('op \<Rightarrow> 's \<Rightarrow> 's) \<Rightarrow> 'op list \<Rightarrow> 's \<Rightarrow> bool" where
  "legal_run legal step [] s \<longleftrightarrow> True"
| "legal_run legal step (op # ops) s \<longleftrightarrow> legal op s \<and> legal_run legal step ops (step op s)"

locale job_queue =
  fixes lookup :: "'s \<Rightarrow> uuid \<Rightarrow> job option"
    and inv :: "'s \<Rightarrow> bool"
    and legal :: "'op \<Rightarrow> 's \<Rightarrow> bool"
    and step :: "'op \<Rightarrow> 's \<Rightarrow> 's"
  assumes inv_step: "inv s \<Longrightarrow> legal op s \<Longrightarrow> inv (step op s)"
    and inv_job: "inv s \<Longrightarrow> lookup s i = Some j \<Longrightarrow> j_id j = i \<and> job_ok j"
    and inv_unique: "inv s \<Longrightarrow> lookup s a = Some ja \<Longrightarrow> lookup s b = Some jb \<Longrightarrow>
       is_active (j_status ja) \<Longrightarrow> is_active (j_status jb) \<Longrightarrow> j_dedupe_key ja = j_dedupe_key jb \<Longrightarrow>
       a = b"
    and step_job: "inv s \<Longrightarrow> legal op s \<Longrightarrow> lookup s i = Some j \<Longrightarrow>
       \<exists>j'. lookup (step op s) i = Some j' \<and> job_evolves j j'"
begin

lemma run_inv: "inv s \<Longrightarrow> legal_run legal step ops s \<Longrightarrow> inv (fold step ops s)"
  by (induction ops arbitrary: s) (auto intro: inv_step)

lemma run_job:
  assumes "inv s" "legal_run legal step ops s" "lookup s i = Some j"
  shows "\<exists>j'. lookup (fold step ops s) i = Some j' \<and> job_evolves j j'"
  using assms
proof (induction ops arbitrary: s j)
  case Nil
  then show ?case by (simp add: job_evolves_refl)
next
  case (Cons op ops)
  then obtain j1 where j1: "lookup (step op s) i = Some j1" "job_evolves j j1"
    using step_job [of s op i j] by auto
  with Cons show ?case
    using inv_step by (fastforce intro: job_evolves_trans)
qed

lemma run_terminal:
  assumes "inv s" "legal_run legal step ops s" "lookup s i = Some j" "is_terminal (j_status j)"
  shows "lookup (fold step ops s) i = Some j"
  using run_job [OF assms(1-3)] assms(4) by (auto simp: job_evolves_def)

lemma run_unique_active:
  assumes "inv s" "legal_run legal step ops s" "s' = fold step ops s"
    "lookup s' a = Some ja" "lookup s' b = Some jb" "is_active (j_status ja)"
    "is_active (j_status jb)" "j_dedupe_key ja = j_dedupe_key jb"
  shows "a = b"
  using inv_unique [of s' a ja b jb] run_inv [OF assms(1,2)] assms(3-) by simp

end


section \<open>The memory repository keeps the promise\<close>

lemma run_event_evolves:
  assumes "job_ok j"
  shows "job_evolves j (snd (run_event X ev j))"
proof -
  let ?j = "snd (run_event X ev j)"
  have "lifecycle_edge\<^sup>*\<^sup>* (j_status j) (j_status ?j)"
    using assms
  proof (cases rule: run_event_cases [of j X ev])
    case heartbeat
    then show ?thesis by (auto simp: heartbeat_Inr_iff)
  qed (auto simp: job_exact live_owner_def retried_def Let_def intro!: r_into_rtranclp)
  moreover have "j_claim_count j \<le> j_claim_count ?j"
    using assms
  proof (cases rule: run_event_cases [of j X ev])
    case (claim tok owner now lease_for j')
    then show ?thesis
      using checked_add_Some_unat [of "j_claim_count j" 1] by (auto simp: claim_Inr_iff word_le_nat_alt)
  qed (auto simp: job_exact retried_def Let_def)
  moreover have "j_failure_count j \<le> j_failure_count ?j"
    using run_event_failure_count [OF assms] by (simp add: word_le_nat_alt)
  ultimately show ?thesis
    using run_event_identity [OF assms] run_event_terminal [OF assms] by (simp add: job_evolves_def)
qed

lemma transition_None: "map_of s i = None \<Longrightarrow> transition i op s = (Inl (NotFound i), s)"
  by (simp add: transition_def get_mut_def)

lemma transition_Some:
  "map_of s i = Some j \<Longrightarrow>
     transition i op s =
       (case fst (op j) of Inl e \<Rightarrow> Inl (DomainErr e) | Inr r \<Rightarrow> Inr (r, snd (op j)),
        AList.update i (snd (op j)) s)"
  by (simp add: transition_def get_mut_def split: prod.splits sum.splits)

lemma snd_snapshot [simp]: "snd (snapshot r) = snd r"
  by (simp add: snapshot_def split: sum.splits)

lemma fst_snapshot: "fst (snapshot r) = (case fst r of Inl e \<Rightarrow> Inl e | Inr p \<Rightarrow> Inr (snd p))"
  by (simp add: snapshot_def split: sum.splits)

definition store_evolves :: "store \<Rightarrow> store \<Rightarrow> bool" where
  "store_evolves s s' \<longleftrightarrow>
     (\<forall>i j. map_of s i = Some j \<longrightarrow> (\<exists>j'. map_of s' i = Some j' \<and> job_evolves j j'))"

lemma store_evolves_refl: "store_evolves s s"
  by (auto simp: store_evolves_def intro: job_evolves_refl)

lemma store_evolves_trans: "store_evolves a b \<Longrightarrow> store_evolves b c \<Longrightarrow> store_evolves a c"
  by (force simp: store_evolves_def intro: job_evolves_trans)

lemma event_step:
  assumes "store_ok s" "map_of s i = Some j"
  shows "store_ok (AList.update i (snd (run_event X ev j)) s) \<and>
    store_evolves s (AList.update i (snd (run_event X ev j)) s)"
  using store_ok_event [OF assms] assms(2)
    run_event_evolves [OF store_ok_map_of(2) [OF assms]] job_evolves_refl
  by (auto simp: store_evolves_def)

lemma transition_step:
  assumes "store_ok s" "\<And>j. snd (op j) = snd (run_event X ev j)"
  shows "store_ok (snd (transition i op s)) \<and> store_evolves s (snd (transition i op s))"
proof (cases "map_of s i")
  case None
  with assms(1) show ?thesis by (simp add: transition_None store_evolves_refl)
next
  case (Some j)
  with event_step [OF assms(1) Some] assms(2) show ?thesis by (simp add: transition_Some)
qed

lemma enqueue_step:
  assumes "store_ok s" "uid \<notin> fst ` set s"
  shows "store_ok (snd (enqueue_in_store uid spec s)) \<and> store_evolves s (snd (enqueue_in_store uid spec s))"
proof (cases "find (\<lambda>j. is_active (j_status j) \<and> j_dedupe_key j = nj_dedupe_key spec) (map snd s)")
  case (Some j)
  with assms(1) show ?thesis by (simp add: enqueue_in_store_def store_evolves_refl)
next
  case None
  show ?thesis
  proof (cases "new uid spec")
    case (Inl e)
    with None assms(1) show ?thesis by (simp add: enqueue_in_store_def store_evolves_refl)
  next
    case (Inr j)
    then have j: "j_id j = uid" "j_dedupe_key j = nj_dedupe_key spec" "job_ok j"
      using new_ok [OF Inr] by (auto simp: new_def split: if_splits)
    have free: "map_of s uid = None" using assms(2) by (simp add: map_of_eq_None_iff)
    have other: "\<not> (is_active (j_status k) \<and> j_dedupe_key k = nj_dedupe_key spec)"
      if "map_of s i = Some k" for i k
      using None map_of_SomeD [OF that] by (force simp: find_None_iff)
    have "store_ok (AList.update uid j s)"
    proof (rule store_okI)
      show "distinct (map fst (AList.update uid j s))"
        by (rule AList.distinct_update) (rule store_ok_distinct [OF assms(1)])
    next
      fix i k assume "map_of (AList.update uid j s) i = Some k"
      then show "j_id k = i \<and> job_ok k"
        using j store_ok_map_of [OF assms(1)] by (auto split: if_splits)
    next
      fix a b ja jb
      assume "map_of (AList.update uid j s) a = Some ja" "map_of (AList.update uid j s) b = Some jb"
        "is_active (j_status ja)" "is_active (j_status jb)" "j_dedupe_key ja = j_dedupe_key jb"
      then show "a = b"
        using other [of a ja] other [of b jb] j(2) store_ok_unique [OF assms(1), of a ja b jb]
        by (auto split: if_splits)
    qed
    moreover have "store_evolves s (AList.update uid j s)"
      using free job_evolves_refl by (auto simp: store_evolves_def)
    ultimately show ?thesis using None Inr j(1) by (simp add: enqueue_in_store_def)
  qed
qed

lemma recover_each_step:
  "store_ok s \<Longrightarrow> store_ok (snd (recover_each now is s)) \<and> store_evolves s (snd (recover_each now is s))"
proof (induction "is" arbitrary: s)
  case (Cons i "is")
  show ?case
  proof (cases "map_of s i")
    case None
    with Cons.prems show ?thesis by (simp add: store_evolves_refl)
  next
    case (Some j)
    let ?s = "AList.update i (snd (recover_expired_lease now j)) s"
    have step: "store_ok ?s" "store_evolves s ?s"
      using event_step [OF Cons.prems Some, of undefined "EvRecover now"] by simp_all
    from Cons.IH [OF step(1)] step(2) Some show ?thesis
      by (auto simp: Let_def case_prod_beta intro: store_evolves_trans)
  qed
qed (simp add: store_evolves_refl)

lemma recover_each_exact:
  assumes "distinct is" "\<forall>i \<in> set is. \<exists>j. map_of s i = Some j \<and> lease_expired now j"
  shows "fst (recover_each now is s) =
      Some (map (\<lambda>i. snd (recover_expired_lease now (the (map_of s i)))) is) \<and>
    map_of (snd (recover_each now is s)) =
      (\<lambda>i. if i \<in> set is then Some (snd (recover_expired_lease now (the (map_of s i)))) else map_of s i)"
  using assms
proof (induction "is" arbitrary: s)
  case (Cons i "is")
  from Cons.prems obtain j where j: "map_of s i = Some j" "lease_expired now j" by auto
  obtain j' where j': "recover_expired_lease now j = (True, j')"
    using j(2) by (auto simp: recover_expired_lease_def lease_expired_def Let_def split: option.splits)
  let ?s = "AList.update i j' s"
  have same: "i' \<in> set is \<Longrightarrow> map_of ?s i' = map_of s i'" for i' using Cons.prems(1) by auto
  have "distinct is" "\<forall>i \<in> set is. \<exists>j. map_of ?s i = Some j \<and> lease_expired now j"
    using Cons.prems same by auto
  from Cons.IH [OF this] show ?case
    using j(1) j' same Cons.prems(1) by (auto simp: Let_def case_prod_beta fun_eq_iff)
qed simp

lemma recovery_candidates_expired:
  assumes "store_ok s" "i \<in> fst ` set (recovery_candidates now limit s)"
  shows "\<exists>j. map_of s i = Some j \<and> lease_expired now j"
proof -
  from assms(2) obtain j where "(i, j) \<in> set s" "lease_expired now j"
    by (auto simp: recovery_candidates_def dest!: in_set_takeD)
  with store_ok_distinct [OF assms(1)] show ?thesis by auto
qed

lemma distinct_map_filter_fst: "distinct (map fst s) \<Longrightarrow> distinct (map fst (filter P s))"
  by (induction s) auto

lemma recovery_candidates_distinct:
  assumes "store_ok s"
  shows "distinct (map fst (recovery_candidates now limit s))"
proof -
  let ?c = "map (\<lambda>(i, j). (i, j_lease_until j)) (filter (\<lambda>(i, j). lease_expired now j) s)"
  have fst_c: "map fst ?c = map fst (filter (\<lambda>(i, j). lease_expired now j) s)"
    by (simp add: case_prod_beta comp_def)
  have "distinct (map fst ?c)"
    unfolding fst_c by (rule distinct_map_filter_fst) (rule store_ok_distinct [OF assms])
  moreover have "mset (map fst (sort_key snd ?c)) = mset (map fst ?c)"
    by (simp only: mset_map mset_sort)
  ultimately have "distinct (map fst (sort_key snd ?c))"
    using mset_eq_imp_distinct_iff by blast
  then have "distinct (take limit (map fst (sort_key snd ?c)))"
    by (rule distinct_take)
  then show ?thesis
    unfolding recovery_candidates_def by (simp only: take_map)
qed

lemma claim_next_step:
  assumes "store_ok s"
  shows "store_ok (snd (claim_next_in_store X tok owner now lease_for allowed s)) \<and>
    store_evolves s (snd (claim_next_in_store X tok owner now lease_for allowed s))"
proof -
  have "snd (claim X tok owner now lease_for j) = snd (run_event X (EvClaim tok owner now lease_for) j)" for j
    by (simp add: succeeded_def)
  from transition_step [OF assms, of "claim X tok owner now lease_for", OF this] assms show ?thesis
    by (auto simp: claim_next_in_store_def store_evolves_refl split: option.splits prod.splits sum.splits)
      (metis snd_conv)+
qed

lemma commit_outcome_exact:
  "commit_outcome out s =
     (fst (apply_outcome out s),
      case fst (apply_outcome out s) of Inl e \<Rightarrow> s | Inr j \<Rightarrow> snd (apply_outcome out s))"
  by (simp add: commit_outcome_def in_tx_def jobs_mut_def begin_tx_def drop_tx_def commit_tx_def
      split: prod.splits sum.splits)

lemma apply_outcome_step:
  assumes "store_ok s"
  shows "store_ok (snd (apply_outcome out s)) \<and> store_evolves s (snd (apply_outcome out s))"
proof (cases out)
  case (OutDeferred i owner tok now resume_at)
  then show ?thesis
    using transition_step [OF assms, of "defer_job owner tok now resume_at" undefined "EvDefer owner tok now resume_at" i]
    by (simp add: defer_in_store_def succeeded_def)
next
  case (OutSucceeded i owner tok now)
  then show ?thesis
    using transition_step [OF assms, of "succeed owner tok now" undefined "EvSucceed owner tok now" i]
    by (simp add: succeed_in_store_def succeeded_def)
next
  case (OutRetry i owner tok now retry_at err)
  then show ?thesis
    using transition_step [OF assms, of "retry owner tok now retry_at err" undefined "EvRetry owner tok now retry_at err" i]
    by (simp add: retry_in_store_def succeeded_def)
next
  case (OutFailed i owner tok now err)
  then show ?thesis
    using transition_step [OF assms, of "fail owner tok now err" undefined "EvFail owner tok now err" i]
    by (simp add: fail_in_store_def succeeded_def)
next
  case (OutCancelled i now reason)
  then show ?thesis
    using transition_step [OF assms, of "cancel now reason" undefined "EvCancel now reason" i]
    by (simp add: cancel_in_store_def succeeded_def)
qed

lemma store_op_step:
  assumes "store_ok s" "fresh_op op s"
  shows "store_ok (run_store_op X op s) \<and> store_evolves s (run_store_op X op s)"
proof (cases op)
  case (OpEnqueue uid spec)
  with assms show ?thesis using enqueue_step [OF assms(1)] by simp
next
  case (OpClaimNext tok owner now lease_for allowed)
  with assms show ?thesis using claim_next_step by simp
next
  case (OpHeartbeat i owner tok now lease_for)
  then show ?thesis
    using transition_step [OF assms(1), of "heartbeat X owner tok now lease_for" X "EvHeartbeat owner tok now lease_for" i]
    by (simp add: heartbeat_in_store_def succeeded_def)
next
  case (OpOutcome out)
  then show ?thesis
    using apply_outcome_step [OF assms(1), of out] assms(1)
    by (simp add: commit_outcome_exact store_evolves_refl split: sum.splits)
next
  case (OpRecover now limit)
  then show ?thesis
    using recover_each_step [OF assms(1)] by (simp add: recover_expired_in_store_def)
qed

interpretation mq: job_queue map_of store_ok fresh_op "run_store_op X"
  for X
proof (unfold_locales, goal_cases)
  case (1 s op)
  then show ?case using store_op_step by blast
next
  case (2 s i j)
  then show ?case using store_ok_map_of by blast
next
  case (3 s a ja b jb)
  then show ?case by (rule store_ok_unique)
next
  case (4 s op i j)
  then show ?case using store_op_step [of s op X] by (auto simp: store_evolves_def)
qed


section \<open>Properties\<close>

definition example_store :: store where
  "example_store = [(77, example_job), (78, example_job\<lparr>j_id := 78, j_priority := 20,
     j_dedupe_key := lit ''k''\<rparr>)]"

lemma example_store_ok: "store_ok example_store"
  using example_job_ok
  by (simp add: store_ok_def example_store_def unique_active_def example_job_eq job_ok_iff
      lease_empty_def lit_def trim_def trim_start_def is_whitespace_def)

text \<open>
  The queue invariant. Under any sequence of enqueues, claims, heartbeats, outcomes and
  recoveries (with unused identifiers for new jobs) the store keeps one entry per id, every stored
  job satisfies the persisted-state invariant, no two active jobs share a deduplication key, and
  every job that was stored is still stored, has its identity, has moved only along the lifecycle,
  with counters that only grew, and not at all once it was terminal.
\<close>

theorem queue_runs_consistent:
  assumes "store_ok s" "legal_run fresh_op (run_store_op X) ops s"
  shows "store_ok (fold (run_store_op X) ops s) \<and>
    (\<forall>i j. map_of s i = Some j \<longrightarrow>
       (\<exists>j'. map_of (fold (run_store_op X) ops s) i = Some j' \<and> job_evolves j j'))"
  using mq.run_inv [OF assms] mq.run_job [OF assms] by blast

theorem queue_runs_consistent_witness:
  "store_ok (fold (run_store_op chrono_ref)
     [OpEnqueue 79 example_spec, OpClaimNext 1 example_worker 10 1000 all_job_types,
      OpRecover 5000 3] example_store)"
  using queue_runs_consistent [OF example_store_ok, of chrono_ref
      "[OpEnqueue 79 example_spec, OpClaimNext 1 example_worker 10 1000 all_job_types,
        OpRecover 5000 3]"]
  by (simp add: example_store_def)

lemma claim_next_exact:
  assumes "store_ok s" "claim_next_in_store X tok owner now lease_for allowed s = (Inr r, s')"
  shows "case r of
     None \<Rightarrow> s' = s \<and> (\<forall>j \<in> snd ` set s. \<not> claimable now allowed j)
   | Some lease \<Rightarrow> (\<exists>j. map_of s (j_id j) = Some j \<and> claimable now allowed j \<and>
        (\<forall>k \<in> snd ` set s. claimable now allowed k \<longrightarrow> claim_key_le j k) \<and>
        s' = AList.update (j_id j) (l_job lease) s \<and>
        claim X tok owner now lease_for j = (Inr (l_token lease), l_job lease))"
proof (cases "min_by (\<lambda>l r. claim_order (snd l) (snd r)) (filter (\<lambda>e. claimable now allowed (snd e)) s)")
  case None
  with assms(2) show ?thesis
    by (auto simp: claim_next_in_store_def co.min_by_None filter_empty_conv)
next
  case (Some e)
  obtain i j where e: "e = (i, j)" by (cases e)
  note best = co.min_by_Some [OF Some]
  have ij: "(i, j) \<in> set s" "claimable now allowed j" using best(1) by (auto simp: e)
  then have m: "map_of s i = Some j" using store_ok_distinct [OF assms(1)] by simp
  from store_ok_map_of(1) [OF assms(1) m] have i: "i = j_id j" by simp
  have min: "claimable now allowed k \<Longrightarrow> k \<in> snd ` set s \<Longrightarrow> claim_key_le j k" for k
    using best(2) by (force simp: e claim_order_Greater)
  obtain res j' where c: "claim X tok owner now lease_for j = (res, j')"
    by (cases "claim X tok owner now lease_for j")
  from assms(2) Some e m c obtain t where t: "res = Inr t"
    and r: "r = Some \<lparr>l_job = j', l_token = t\<rparr>" "s' = AList.update i j' s"
    by (cases res) (simp_all add: claim_next_in_store_def transition_Some)
  show ?thesis using r m i ij(2) min c t by auto
qed

text \<open>
  Claiming. When the claim returns a lease, the leased job was due, of an allowed type, with
  budget left, and first in queue order (priority, then due time, then age, then id) among all
  such jobs; it is the only stored job that changed and the caller now owns it with the drawn
  token. When it returns nothing there was no such job.
\<close>

theorem claim_next_takes_first:
  assumes "store_ok s" "chrono_ok X"
    and "claim_next_in_store X tok owner now lease_for allowed s = (Inr r, s')"
  shows "case r of
     None \<Rightarrow> s' = s \<and> (\<forall>j \<in> snd ` set s. \<not> claimable now allowed j)
   | Some lease \<Rightarrow> (\<exists>j. map_of s (j_id j) = Some j \<and> claimable now allowed j \<and>
        (\<forall>k \<in> snd ` set s. claimable now allowed k \<longrightarrow> claim_key_le j k) \<and>
        map_of s' = (map_of s)(j_id j \<mapsto> l_job lease) \<and> l_token lease = tok \<and>
        live_owner owner tok now (l_job lease) \<and> same_identity j (l_job lease))"
proof (cases r)
  case (Some lease)
  with claim_next_exact [OF assms(1,3)] obtain j where
    j: "map_of s (j_id j) = Some j" "claimable now allowed j"
    "\<forall>k \<in> snd ` set s. claimable now allowed k \<longrightarrow> claim_key_le j k"
    "s' = AList.update (j_id j) (l_job lease) s"
    and c: "claim X tok owner now lease_for j = (Inr (l_token lease), l_job lease)" by auto
  from c have "0 < lease_for" "l_token lease = tok" "same_identity j (l_job lease)"
    by (auto simp: claim_Inr_iff same_identity_def)
  with j Some claim_live_owner [OF assms(2) c, of now] show ?thesis by auto
qed (use claim_next_exact [OF assms(1,3)] in simp)

lemma example_store_claim:
  "claim_next_in_store chrono_ref 1 example_worker 10 1000 all_job_types example_store =
     (Inr (Some \<lparr>l_job = snd (claim chrono_ref 1 example_worker 10 1000 (snd (example_store ! 1))),
                 l_token = 1\<rparr>),
      AList.update 78 (snd (claim chrono_ref 1 example_worker 10 1000 (snd (example_store ! 1))))
        example_store)"
  by (simp add: claim_next_in_store_def example_store_def claimable_def example_job_eq claim_order_def
      cmp_of_def all_job_types_def transition_def get_mut_def job_eval)

theorem claim_next_takes_first_witness:
  "\<exists>lease s'. claim_next_in_store chrono_ref 1 example_worker 10 1000 all_job_types example_store =
      (Inr (Some lease), s') \<and> live_owner example_worker 1 10 (l_job lease)"
  using claim_next_takes_first [OF example_store_ok chrono_ref_ok example_store_claim]
  by (auto simp: example_store_claim)

text \<open>
  The iteration order of the hash map does not matter: two stores with the same entries give
  the same claim and equal stores afterwards.
\<close>

theorem claim_next_order_independent:
  assumes "store_ok s" "store_ok t" "set s = set t"
  shows "fst (claim_next_in_store X tok owner now lease_for allowed s) =
       fst (claim_next_in_store X tok owner now lease_for allowed t) \<and>
     map_of (snd (claim_next_in_store X tok owner now lease_for allowed s)) =
       map_of (snd (claim_next_in_store X tok owner now lease_for allowed t))"
proof -
  let ?pick = "\<lambda>s. min_by (\<lambda>l r. claim_order (snd l) (snd r)) (filter (\<lambda>e. claimable now allowed (snd e)) s)"
  have eq: "map_of s = map_of t"
    using assms by (intro map_of_eqI) (auto simp: store_ok_def dest: store_ok_distinct)
  have "?pick s = ?pick t"
  proof (rule co.min_by_set)
    fix a b :: "uuid \<times> job"
    assume ab: "a \<in> set (filter (\<lambda>e. claimable now allowed (snd e)) s)"
      "b \<in> set (filter (\<lambda>e. claimable now allowed (snd e)) s)"
      and "claim_order (snd a) (snd b) \<noteq> Greater" "claim_order (snd b) (snd a) \<noteq> Greater"
    then have "j_id (snd a) = j_id (snd b)"
      unfolding claim_order_Greater by (intro claim_key_le_antisym)
    moreover have "map_of s (fst a) = Some (snd a)" "map_of s (fst b) = Some (snd b)"
      using ab store_ok_distinct [OF assms(1)] by auto
    ultimately show "a = b"
      using store_ok_map_of(1) [OF assms(1)] by (metis option.inject prod.collapse)
  qed (simp add: assms(3))
  then show ?thesis
    by (auto simp: claim_next_in_store_def eq transition_def get_mut_def
        split: option.splits prod.splits sum.splits)
qed

theorem claim_next_order_independent_witness:
  "fst (claim_next_in_store chrono_ref 1 example_worker 10 1000 all_job_types example_store) =
   fst (claim_next_in_store chrono_ref 1 example_worker 10 1000 all_job_types (rev example_store))"
proof -
  have "store_ok (rev example_store)"
    using example_store_ok by (simp add: store_ok_def unique_active_def rev_map [symmetric])
  from claim_next_order_independent [OF example_store_ok this] show ?thesis by simp
qed

definition expired_in :: "datetime \<Rightarrow> store \<Rightarrow> store" where
  "expired_in now s = filter (\<lambda>(i, j). lease_expired now j) s"

lemma recovered_id: "j_id (snd (recover_expired_lease now j)) = j_id j"
  by (simp add: recover_expired_lease_def Let_def clear_lease_def)

text \<open>
  Recovery. It never panics, recovers exactly as many jobs as are expired, up to the limit,
  earliest lease end first; none of the recovered jobs is expired afterwards, no other job
  changes, and within the limit no expired job is left.
\<close>

theorem recovery_exact:
  assumes "store_ok s"
  shows "\<exists>js ids. fst (recover_expired_in_store now limit s) = Some js \<and> map j_id js = ids \<and>
      length js = min limit (length (expired_in now s)) \<and>
      (\<forall>j \<in> set js. \<not> lease_expired now j) \<and>
      sorted (map (\<lambda>i. j_lease_until (the (map_of s i))) ids) \<and>
      (\<forall>i. i \<notin> set ids \<longrightarrow> map_of (snd (recover_expired_in_store now limit s)) i = map_of s i) \<and>
      (length (expired_in now s) \<le> limit \<longrightarrow>
         (\<forall>j \<in> ran (map_of (snd (recover_expired_in_store now limit s))). \<not> lease_expired now j))"
proof -
  define expired where "expired = expired_in now s"
  define ids where "ids = map fst (recovery_candidates now limit s)"
  let ?rec = "\<lambda>i. snd (recover_expired_lease now (the (map_of s i)))"
  let ?c = "map (\<lambda>(i, j). (i, j_lease_until j)) expired"
  have cands: "recovery_candidates now limit s = take limit (sort_key snd ?c)"
    by (simp add: recovery_candidates_def expired_def expired_in_def)
  have ex: "\<forall>i \<in> set ids. \<exists>j. map_of s i = Some j \<and> lease_expired now j"
    using recovery_candidates_expired [OF assms(1)] by (auto simp: ids_def)
  note spec = recover_each_exact [OF recovery_candidates_distinct [OF assms(1), of now limit] ex [unfolded ids_def]]
  have cured: "\<not> lease_expired now (snd (recover_expired_lease now j))" for j
    by (auto simp: recover_expired_lease_def lease_expired_def Let_def clear_lease_def split: option.splits)
  have until: "p \<in> set (recovery_candidates now limit s) \<Longrightarrow> j_lease_until (the (map_of s (fst p))) = snd p" for p
    using store_ok_distinct [OF assms(1)] by (auto simp: cands expired_def expired_in_def dest!: in_set_takeD)
  have "map (\<lambda>i. j_lease_until (the (map_of s i))) ids = map snd (recovery_candidates now limit s)"
    using until by (simp add: ids_def)
  also have "\<dots> = take limit (map snd (sort_key snd ?c))" by (simp add: cands take_map)
  finally have srt: "sorted (map (\<lambda>i. j_lease_until (the (map_of s i))) ids)"
    by (simp only: sorted_wrt_take sorted_sort_key)
  have len: "length ids = min limit (length expired)"
    by (simp add: ids_def cands min.commute)
  have all: "\<not> lease_expired now j"
    if "length expired \<le> limit" "map_of (snd (recover_expired_in_store now limit s)) i = Some j" for i j
  proof
    assume "lease_expired now j"
    with that(2) cured have "i \<notin> set ids" "map_of s i = Some j"
      by (auto simp: recover_expired_in_store_def spec ids_def split: if_splits)
    then have "(i, j) \<in> set expired"
      using \<open>lease_expired now j\<close> map_of_SomeD [of s i j] by (simp add: expired_def expired_in_def)
    then have "i \<in> fst ` set (sort_key snd ?c)" by (force simp: image_iff)
    with that(1) have "i \<in> set ids" by (simp add: ids_def cands)
    with \<open>i \<notin> set ids\<close> show False by simp
  qed
  from cured have "\<forall>j \<in> set (map ?rec ids). \<not> lease_expired now j" by simp
  moreover have "map j_id (map ?rec ids) = ids"
    using ex store_ok_map_of(1) [OF assms(1)]
    by (auto simp: recovered_id intro!: map_idI)
  moreover have "fst (recover_expired_in_store now limit s) = Some (map ?rec ids)"
    "\<forall>i. i \<notin> set ids \<longrightarrow> map_of (snd (recover_expired_in_store now limit s)) i = map_of s i"
    using spec by (simp_all add: recover_expired_in_store_def ids_def)
  ultimately show ?thesis
    using srt len all by (intro exI [of _ "map ?rec ids"] exI [of _ ids]) (auto simp: ran_def expired_def)
qed

theorem recovery_exact_witness:
  "\<exists>js. fst (recover_expired_in_store 2000 1
       (snd (claim_next_in_store chrono_ref 1 example_worker 10 1000 all_job_types example_store)))
     = Some js \<and> length js \<le> 1"
proof -
  let ?s = "snd (claim_next_in_store chrono_ref 1 example_worker 10 1000 all_job_types example_store)"
  have "store_ok ?s" using claim_next_step [OF example_store_ok] by blast
  from recovery_exact [OF this, of 2000 1] show ?thesis by auto
qed

text \<open>
  Outcomes are atomic. The convenience methods of the repository either apply the
  transition of the addressed job and commit it, or report the error and leave the store exactly
  as it was, whatever the transition did before it failed.
\<close>

theorem outcomes_atomic:
  "commit_outcome out s =
     (fst (apply_outcome out s),
      case fst (apply_outcome out s) of Inl e \<Rightarrow> s | Inr j \<Rightarrow> snd (apply_outcome out s))"
  by (rule commit_outcome_exact)

lemma find_append_right: "find P xs = None \<Longrightarrow> find P (xs @ ys) = find P ys"
  by (induction xs) (auto split: if_splits)

text \<open>
  Enqueue. With an unused identifier, an enqueue whose key is held by an active job returns
  that job's id and changes nothing; otherwise it reports the invalid specification or inserts a
  queued job. An enqueue with the key of an inserted job then returns the inserted id.
\<close>

theorem enqueue_deduplicates:
  assumes "store_ok s" "uid \<notin> fst ` set s"
  shows "case enqueue_in_store uid spec s of
     (Inr (AlreadyActive i), s') \<Rightarrow> s' = s \<and>
        (\<exists>j. map_of s i = Some j \<and> is_active (j_status j) \<and> j_dedupe_key j = nj_dedupe_key spec)
   | (Inr (Inserted j), s') \<Rightarrow> new uid spec = Inr j \<and> map_of s' = (map_of s)(uid \<mapsto> j) \<and>
        (\<forall>k \<in> snd ` set s. is_active (j_status k) \<longrightarrow> j_dedupe_key k \<noteq> nj_dedupe_key spec) \<and>
        (nj_dedupe_key spec2 = nj_dedupe_key spec \<longrightarrow>
           enqueue_in_store uid2 spec2 s' = (Inr (AlreadyActive uid), s'))
   | (Inl e, s') \<Rightarrow> s' = s \<and> (\<exists>je. e = DomainErr je \<and> new uid spec = Inl je)"
proof -
  let ?holds = "\<lambda>spec j. is_active (j_status j) \<and> j_dedupe_key j = nj_dedupe_key spec"
  show ?thesis
  proof (cases "find (?holds spec) (map snd s)")
    case (Some j)
    then obtain i where "(i, j) \<in> set s" "?holds spec j"
      by (auto simp: find_Some_iff in_set_conv_nth) (metis nth_mem prod.collapse)
    then have "map_of s i = Some j" using store_ok_distinct [OF assms(1)] by simp
    with \<open>?holds spec j\<close> Some show ?thesis
      using store_ok_map_of(1) [OF assms(1)] by (auto simp: enqueue_in_store_def)
  next
    case None
    show ?thesis
    proof (cases "new uid spec")
      case (Inr j)
      let ?s = "AList.update uid j s"
      have j: "j_id j = uid" "?holds spec j" using Inr by (auto simp: new_def split: if_splits)
      have free: "\<forall>k \<in> snd ` set s. \<not> ?holds spec k" using None by (auto simp: find_None_iff)
      have "AList.update uid j s = s @ [(uid, j)]"
        using assms(2) by (induction s) auto
      with None j have "nj_dedupe_key spec2 = nj_dedupe_key spec \<Longrightarrow> find (?holds spec2) (map snd ?s) = Some j"
        by (simp add: find_append_right)
      then show ?thesis
        using None Inr j free by (auto simp: enqueue_in_store_def)
    qed (use None in \<open>simp add: enqueue_in_store_def\<close>)
  qed
qed

theorem enqueue_deduplicates_witness:
  "\<exists>j. map_of example_store 77 = Some j \<and> is_active (j_status j) \<and>
     enqueue_in_store 79 example_spec example_store = (Inr (AlreadyActive 77), example_store)"
proof -
  have r: "enqueue_in_store 79 example_spec example_store = (Inr (AlreadyActive 77), example_store)"
    by (simp add: enqueue_in_store_def example_store_def example_job_eq example_spec_def)
  have f: "79 \<notin> fst ` set example_store" by (simp add: example_store_def)
  from enqueue_deduplicates [OF example_store_ok f, of example_spec] show ?thesis
    by (auto simp: r)
qed

end
