(* ===== verification/Job_Pg.thy ===== *)
theory Job_Pg
  imports Job_Store
begin

text \<open>
  The PostgreSQL implementation of the job repository, from
  \<^verbatim>\<open>src/persistence/repositories/job_repository.rs\<close>: the row format with its textual names and
  64-bit counters, the decoding of rows, one definition per SQL statement with its
  \<^verbatim>\<open>WHERE\<close>, \<^verbatim>\<open>SET\<close> and \<^verbatim>\<open>RETURNING\<close> clauses, the diagnosis of updates that match no row,
  and the cleanup of asset-refresh generations when a refresh job ends in failure.

  A method runs in a transaction of its own; an error rolls it back (\<open>autocommit\<close>). What the
  database server contributes is the argument \<open>pg_env\<close>: the statement's \<^verbatim>\<open>clock_timestamp()\<close>,
  the addition of an interval to a timestamp (\<open>None\<close> is the error for a value out of range) and
  the ids of the rows other transactions hold locked, which \<^verbatim>\<open>SKIP LOCKED\<close> skips.
\<close>

section \<open>Tables\<close>

record job_row =
  r_id :: uuid
  r_job_type :: string
  r_source_id :: "uuid option"
  r_status :: string
  r_priority :: int
  r_run_after :: datetime
  r_claim_count :: int
  r_failure_count :: int
  r_max_attempts :: int
  r_lease_owner :: "rstring option"
  r_lease_token :: "uuid option"
  r_lease_until :: "datetime option"
  r_heartbeat_at :: "datetime option"
  r_started_at :: "datetime option"
  r_finished_at :: "datetime option"
  r_last_error :: "rstring option"
  r_payload_json :: json
  r_dedupe_key :: rstring
  r_created_at :: datetime
  r_updated_at :: datetime

text \<open>The columns of the asset-refresh tables.\<close>

record repair_job_row =
  arj_job_id :: uuid
  arj_admission_class :: string
  arj_refresh_source_id :: "uuid option"
  arj_refresh_review_id :: "rstring option"
  arj_expired_asset_record_id :: "uuid option"
  arj_chain_id :: "uuid option"
  arj_chain_ordinal :: "int option"
  arj_expiry_refunded :: bool

record refresh_state_row =
  ars_asset_record_id :: uuid
  ars_requested_generation :: int
  ars_completed_generation :: int
  ars_served_generation :: int
  ars_active_chain_id :: "uuid option"
  ars_updated_at :: datetime

record generation_entry_row =
  ge_asset_record_id :: uuid
  ge_generation :: int
  ge_ordinal :: int
  ge_source_id :: uuid
  ge_review_id :: rstring
  ge_state :: string
  ge_not_before :: "datetime option"

record lineage_row =
  ln_source_id :: uuid
  ln_review_id :: rstring
  ln_attempts :: int
  ln_next_allowed_at :: "datetime option"
  ln_exhausted :: bool
  ln_last_outcome :: "string option"
  ln_updated_at :: datetime

record pg =
  pg_jobs :: "job_row list"
  pg_repair_jobs :: "repair_job_row list"
  pg_refresh_states :: "refresh_state_row list"
  pg_entries :: "generation_entry_row list"
  pg_lineage :: "lineage_row list"

record pg_env =
  db_now :: datetime
  cleanup_now :: "uuid \<Rightarrow> datetime \<times> datetime"
  ts_add :: "datetime \<Rightarrow> duration \<Rightarrow> datetime option"
  locked :: "uuid list"

definition pg_env_ok :: "pg_env \<Rightarrow> bool" where
  "pg_env_ok E \<longleftrightarrow> (\<forall>t d u. ts_add E t d = Some u \<longrightarrow> u = t + d)"

record refresh_policy =
  rp_max_attempts :: u32
  rp_cooldown_secs :: nat

type_synonym 'a pg_result = "(job_repository_error + 'a) \<times> pg"

definition autocommit :: "(pg \<Rightarrow> 'a pg_result) \<Rightarrow> pg \<Rightarrow> 'a pg_result" where
  "autocommit op s = (case op s of (Inl e, _) \<Rightarrow> (Inl e, s) | (Inr r, s') \<Rightarrow> (Inr r, s'))"


section \<open>Names, decoding and validation\<close>

fun job_type_name :: "job_type \<Rightarrow> string" where
  "job_type_name SourceSync = ''source_sync''"
| "job_type_name FeedRebuild = ''feed_rebuild''"
| "job_type_name ArticleBackfill = ''article_backfill''"
| "job_type_name CredentialRefresh = ''credential_refresh''"
| "job_type_name AssetRepair = ''asset_repair''"
| "job_type_name AssetRefresh = ''asset_refresh''"

definition job_type_names :: "job_type list \<Rightarrow> string list" where
  "job_type_names job_types = map job_type_name job_types"

fun status_name :: "job_status \<Rightarrow> string" where
  "status_name Queued = ''queued''"
| "status_name Running = ''running''"
| "status_name RetryWait = ''retry_wait''"
| "status_name Deferred = ''deferred''"
| "status_name Succeeded = ''succeeded''"
| "status_name Failed = ''failed''"

definition parse_job_type :: "string \<Rightarrow> job_repository_error + job_type" where
  "parse_job_type value =
     (if value = ''source_sync'' then Inr SourceSync
      else if value = ''feed_rebuild'' then Inr FeedRebuild
      else if value = ''article_backfill'' then Inr ArticleBackfill
      else if value = ''credential_refresh'' then Inr CredentialRefresh
      else if value = ''asset_repair'' then Inr AssetRepair
      else if value = ''asset_refresh'' then Inr AssetRefresh
      else Inl (Storage (''unknown persisted job_type: '' @ value)))"

definition parse_job_status :: "string \<Rightarrow> job_repository_error + job_status" where
  "parse_job_status value =
     (if value = ''queued'' then Inr Queued
      else if value = ''running'' then Inr Running
      else if value = ''retry_wait'' then Inr RetryWait
      else if value = ''deferred'' then Inr Deferred
      else if value = ''succeeded'' then Inr Succeeded
      else if value = ''failed'' then Inr Failed
      else Inl (Storage (''unknown persisted job status: '' @ value)))"

definition persisted_u32 :: "string \<Rightarrow> int \<Rightarrow> job_repository_error + u32" where
  "persisted_u32 column value =
     ok_or (Storage (''persisted job column '' @ column @ '' is outside the u32 range''))
       (u32_try_from value)"

definition decode_job :: "job_row \<Rightarrow> job_repository_error + job" where
  "decode_job r =
     bindE (parse_job_type (r_job_type r)) (\<lambda>ty.
     bindE (parse_job_status (r_status r)) (\<lambda>st.
     bindE (persisted_u32 ''claim_count'' (r_claim_count r)) (\<lambda>cc.
     bindE (persisted_u32 ''failure_count'' (r_failure_count r)) (\<lambda>fc.
     bindE (persisted_u32 ''max_attempts'' (r_max_attempts r)) (\<lambda>ma.
       map_err DomainErr (from_persisted
         \<lparr>p_id = r_id r, p_job_type = ty, p_source_id = r_source_id r, p_status = st,
          p_priority = r_priority r, p_run_after = r_run_after r, p_claim_count = cc,
          p_failure_count = fc, p_max_attempts = ma, p_lease_owner = r_lease_owner r,
          p_lease_token = r_lease_token r, p_lease_until = r_lease_until r,
          p_heartbeat_at = r_heartbeat_at r, p_started_at = r_started_at r,
          p_finished_at = r_finished_at r, p_last_error = r_last_error r,
          p_payload = r_payload_json r, p_dedupe_key = r_dedupe_key r,
          p_created_at = r_created_at r, p_updated_at = r_updated_at r\<rparr>))))))"

definition pg_validate_owner :: "rstring \<Rightarrow> job_repository_error + unit" where
  "pg_validate_owner owner =
     (if trim owner = [] then Inl (DomainErr EmptyLeaseOwner) else Inr ())"

definition validate_error :: "rstring \<Rightarrow> job_repository_error + unit" where
  "validate_error err = (if trim err = [] then Inl (DomainErr EmptyError) else Inr ())"

definition lease_milliseconds :: "chrono \<Rightarrow> duration \<Rightarrow> job_repository_error + int" where
  "lease_milliseconds X lease_for =
     (if lease_for \<le> 0 then Inl (DomainErr InvalidLeaseDuration)
      else let milliseconds = num_milliseconds X lease_for
           in if milliseconds \<le> 0 then Inl (DomainErr InvalidLeaseDuration) else Inr milliseconds)"


section \<open>Statements\<close>

text \<open>\<^verbatim>\<open>UPDATE ... SET ... WHERE ... RETURNING\<close> on the job table.\<close>

definition update_where ::
    "(job_row \<Rightarrow> bool) \<Rightarrow> (job_row \<Rightarrow> job_row) \<Rightarrow> pg \<Rightarrow> job_row list \<times> pg" where
  "update_where cond set_cols s =
     (map set_cols (filter cond (pg_jobs s)),
      s\<lparr>pg_jobs := map (\<lambda>r. if cond r then set_cols r else r) (pg_jobs s)\<rparr>)"

definition active_statuses :: "string list" where
  "active_statuses = [''queued'', ''running'', ''retry_wait'', ''deferred'']"

definition bind_job :: "job \<Rightarrow> job_row" where
  "bind_job j =
     \<lparr>r_id = j_id j, r_job_type = job_type_name (j_type j), r_source_id = j_source_id j,
      r_status = status_name (j_status j), r_priority = j_priority j,
      r_run_after = j_run_after j, r_claim_count = uint (j_claim_count j),
      r_failure_count = uint (j_failure_count j), r_max_attempts = uint (j_max_attempts j),
      r_lease_owner = j_lease_owner j, r_lease_token = j_lease_token j,
      r_lease_until = j_lease_until j, r_heartbeat_at = j_heartbeat_at j,
      r_started_at = j_started_at j, r_finished_at = j_finished_at j,
      r_last_error = j_last_error j, r_payload_json = j_payload j,
      r_dedupe_key = j_dedupe_key j, r_created_at = j_created_at j,
      r_updated_at = j_updated_at j\<rparr>"

definition active_conflict :: "rstring \<Rightarrow> job_row \<Rightarrow> bool" where
  "active_conflict key r \<longleftrightarrow> r_dedupe_key r = key \<and> r_status r \<in> set active_statuses"

definition enqueue_internal ::
    "pg_env \<Rightarrow> uuid \<Rightarrow> new_job \<Rightarrow> bool \<Rightarrow> pg \<Rightarrow> enqueue_result pg_result" where
  "enqueue_internal E uid spec use_database_time s =
     (case new uid spec of
        Inl e \<Rightarrow> (Inl (DomainErr e), s)
      | Inr j \<Rightarrow>
          (let row = (if use_database_time
                      then (bind_job j)\<lparr>r_run_after := db_now E, r_created_at := db_now E,
                                        r_updated_at := db_now E\<rparr>
                      else bind_job j)
           in if \<exists>r \<in> set (pg_jobs s). active_conflict (j_dedupe_key j) r then
                (case sort_key r_created_at (filter (active_conflict (j_dedupe_key j)) (pg_jobs s)) of
                   [] \<Rightarrow>
                     (Inl (Storage ''active job conflict was not found after insert conflict''), s)
                 | r # _ \<Rightarrow> (Inr (AlreadyActive (r_id r)), s))
              else if \<exists>r \<in> set (pg_jobs s). r_id r = r_id row then
                (Inl (Storage ''duplicate key value violates unique constraint''), s)
              else
                (case decode_job row of
                   Inl e \<Rightarrow> (Inl e, s\<lparr>pg_jobs := pg_jobs s @ [row]\<rparr>)
                 | Inr j' \<Rightarrow> (Inr (Inserted j'), s\<lparr>pg_jobs := pg_jobs s @ [row]\<rparr>))))"

definition row_claim_order :: "job_row \<Rightarrow> job_row \<Rightarrow> ordering" where
  "row_claim_order l r =
     then_with (then_with (then_with (cmp_of (r_priority r) (r_priority l))
       (cmp_of (r_run_after l) (r_run_after r)))
       (cmp_of (r_created_at l) (r_created_at r)))
       (cmp_of (r_id l) (r_id r))"

definition claim_candidate :: "pg_env \<Rightarrow> job_type list \<Rightarrow> job_row \<Rightarrow> bool" where
  "claim_candidate E allowed r \<longleftrightarrow>
     r_status r \<in> {''queued'', ''retry_wait'', ''deferred''} \<and>
     r_job_type r \<in> set (job_type_names allowed) \<and> r_run_after r \<le> db_now E \<and>
     r_failure_count r < r_max_attempts r \<and> r_id r \<notin> set (locked E)"

definition claim_set :: "pg_env \<Rightarrow> rstring \<Rightarrow> uuid \<Rightarrow> datetime \<Rightarrow> job_row \<Rightarrow> job_row" where
  "claim_set E owner tok lease_until r =
     r\<lparr>r_status := ''running'', r_claim_count := r_claim_count r + 1, r_lease_owner := Some owner,
       r_lease_token := Some tok, r_lease_until := Some lease_until,
       r_heartbeat_at := Some (db_now E),
       r_started_at := (case r_started_at r of None \<Rightarrow> Some (db_now E) | Some t \<Rightarrow> Some t),
       r_finished_at := None, r_updated_at := db_now E\<rparr>"

definition pg_out_of_range :: job_repository_error where
  "pg_out_of_range = Storage ''timestamp out of range''"

definition pg_claim_next ::
    "chrono \<Rightarrow> pg_env \<Rightarrow> lease_token \<Rightarrow> rstring \<Rightarrow> duration \<Rightarrow> job_type list \<Rightarrow> pg \<Rightarrow>
     job_lease option pg_result" where
  "pg_claim_next X E tok owner lease_for allowed s =
     (case pg_validate_owner owner of Inl e \<Rightarrow> (Inl e, s) | Inr _ \<Rightarrow>
      case lease_milliseconds X lease_for of Inl e \<Rightarrow> (Inl e, s) | Inr ms \<Rightarrow>
      case min_by row_claim_order (filter (claim_candidate E allowed) (pg_jobs s)) of
        None \<Rightarrow> (Inr None, s)
      | Some c \<Rightarrow>
          (case ts_add E (db_now E) (millis ms) of
             None \<Rightarrow> (Inl pg_out_of_range, s)
           | Some lease_until \<Rightarrow>
               (case update_where (\<lambda>r. r_id r = r_id c) (claim_set E owner tok lease_until) s of
                  ([], s') \<Rightarrow> (Inr None, s')
                | (row # _, s') \<Rightarrow>
                    (case decode_job row of
                       Inl e \<Rightarrow> (Inl e, s')
                     | Inr j \<Rightarrow> (Inr (Some \<lparr>l_job = j, l_token = tok\<rparr>), s')))))"

definition find_in_transaction :: "uuid \<Rightarrow> pg \<Rightarrow> job_repository_error + job option" where
  "find_in_transaction job_id s =
     (case find (\<lambda>r. r_id r = job_id) (pg_jobs s) of
        None \<Rightarrow> Inr None
      | Some r \<Rightarrow> bindE (decode_job r) (\<lambda>j. Inr (Some j)))"

datatype fenced_operation =
    FencedHeartbeat duration
  | FencedSucceed
  | FencedRetry datetime rstring
  | FencedDefer datetime
  | FencedFail rstring

fun fenced_domain ::
    "chrono \<Rightarrow> fenced_operation \<Rightarrow> rstring \<Rightarrow> lease_token \<Rightarrow> datetime \<Rightarrow> job \<Rightarrow> job_error + unit" where
  "fenced_domain X (FencedHeartbeat lease_for) owner token now j =
     fst (heartbeat X owner token now lease_for j)"
| "fenced_domain X FencedSucceed owner token now j = fst (succeed owner token now j)"
| "fenced_domain X (FencedRetry retry_at err) owner token now j =
     bindE (fst (retry owner token now retry_at err j)) (\<lambda>_. Inr ())"
| "fenced_domain X (FencedDefer resume_at) owner token now j =
     fst (defer_job owner token now resume_at j)"
| "fenced_domain X (FencedFail err) owner token now j = fst (fail owner token now err j)"

definition fenced_update_error ::
    "chrono \<Rightarrow> uuid \<Rightarrow> rstring \<Rightarrow> lease_token \<Rightarrow> datetime \<Rightarrow> fenced_operation \<Rightarrow> pg \<Rightarrow>
     job_repository_error" where
  "fenced_update_error X job_id owner token now operation s =
     (case find_in_transaction job_id s of
        Inl e \<Rightarrow> e
      | Inr None \<Rightarrow> NotFound job_id
      | Inr (Some current) \<Rightarrow>
          (case fenced_domain X operation owner token now current of
             Inl e \<Rightarrow> DomainErr e
           | Inr _ \<Rightarrow> Storage ''fenced job update did not match its lease predicate''))"

definition cancel_update_error :: "uuid \<Rightarrow> datetime \<Rightarrow> rstring \<Rightarrow> pg \<Rightarrow> job_repository_error" where
  "cancel_update_error job_id now reason s =
     (case find_in_transaction job_id s of
        Inl e \<Rightarrow> e
      | Inr None \<Rightarrow> NotFound job_id
      | Inr (Some current) \<Rightarrow>
          (case fst (cancel now reason current) of
             Inl e \<Rightarrow> DomainErr e
           | Inr _ \<Rightarrow> Storage ''job cancellation did not match its state predicate''))"

text \<open>The predicate shared by the fenced updates.\<close>

definition fence :: "pg_env \<Rightarrow> uuid \<Rightarrow> rstring \<Rightarrow> lease_token \<Rightarrow> job_row \<Rightarrow> bool" where
  "fence E job_id owner token r \<longleftrightarrow>
     r_id r = job_id \<and> r_status r = ''running'' \<and> r_lease_owner r = Some owner \<and>
     r_lease_token r = Some token \<and> (\<exists>u \<in> set_option (r_lease_until r). u > db_now E)"

definition release_lease :: "job_row \<Rightarrow> job_row" where
  "release_lease r = r\<lparr>r_lease_owner := None, r_lease_token := None, r_lease_until := None\<rparr>"

definition pg_heartbeat ::
    "chrono \<Rightarrow> pg_env \<Rightarrow> uuid \<Rightarrow> rstring \<Rightarrow> lease_token \<Rightarrow> datetime \<Rightarrow> duration \<Rightarrow> pg \<Rightarrow> job pg_result" where
  "pg_heartbeat X E job_id owner token now lease_for s =
     (case pg_validate_owner owner of Inl e \<Rightarrow> (Inl e, s) | Inr _ \<Rightarrow>
      case lease_milliseconds X lease_for of Inl e \<Rightarrow> (Inl e, s) | Inr ms \<Rightarrow>
      if filter (fence E job_id owner token) (pg_jobs s) = [] then
        (Inl (fenced_update_error X job_id owner token now (FencedHeartbeat lease_for) s), s)
      else
        (case ts_add E (db_now E) (millis ms) of
           None \<Rightarrow> (Inl pg_out_of_range, s)
         | Some lease_until \<Rightarrow>
             (case update_where (fence E job_id owner token)
                     (\<lambda>r. r\<lparr>r_lease_until := Some lease_until, r_heartbeat_at := Some (db_now E),
                            r_updated_at := db_now E\<rparr>) s of
                (row # _, s') \<Rightarrow> (decode_job row, s')
              | ([], s') \<Rightarrow>
                  (Inl (fenced_update_error X job_id owner token now
                          (FencedHeartbeat lease_for) s'), s'))))"

definition pg_defer ::
    "chrono \<Rightarrow> pg_env \<Rightarrow> uuid \<Rightarrow> rstring \<Rightarrow> lease_token \<Rightarrow> datetime \<Rightarrow> datetime \<Rightarrow> pg \<Rightarrow> job pg_result" where
  "pg_defer X E job_id owner token now resume_at s =
     (case pg_validate_owner owner of Inl e \<Rightarrow> (Inl e, s) | Inr _ \<Rightarrow>
      case update_where (\<lambda>r. fence E job_id owner token r \<and> resume_at > db_now E)
             (\<lambda>r. (release_lease r)\<lparr>r_status := ''deferred'', r_run_after := resume_at,
                    r_last_error := None, r_finished_at := None, r_updated_at := db_now E\<rparr>) s of
        (row # _, s') \<Rightarrow> (decode_job row, s')
      | ([], s') \<Rightarrow>
          (Inl (fenced_update_error X job_id owner token now (FencedDefer resume_at) s'), s'))"

definition pg_succeed ::
    "chrono \<Rightarrow> pg_env \<Rightarrow> uuid \<Rightarrow> rstring \<Rightarrow> lease_token \<Rightarrow> datetime \<Rightarrow> pg \<Rightarrow> job pg_result" where
  "pg_succeed X E job_id owner token now s =
     (case pg_validate_owner owner of Inl e \<Rightarrow> (Inl e, s) | Inr _ \<Rightarrow>
      case update_where (fence E job_id owner token)
             (\<lambda>r. (release_lease r)\<lparr>r_status := ''succeeded'', r_last_error := None,
                    r_finished_at := Some (db_now E), r_updated_at := db_now E\<rparr>) s of
        (row # _, s') \<Rightarrow> (decode_job row, s')
      | ([], s') \<Rightarrow> (Inl (fenced_update_error X job_id owner token now FencedSucceed s'), s'))"


section \<open>Cleanup after a failed refresh\<close>

record refresh_target =
  t_source_id :: uuid
  t_review_id :: rstring
  t_asset_id :: uuid
  t_chain_id :: uuid
  t_ordinal :: int
  t_generation :: int

text \<open>The join that finds the generation entry in flight for a refresh job.\<close>

definition refresh_match ::
    "uuid \<Rightarrow> repair_job_row \<times> refresh_state_row \<times> generation_entry_row \<Rightarrow> bool" where
  "refresh_match job_id m =
     (case m of (arj, ars, e) \<Rightarrow>
        arj_expired_asset_record_id arj = Some (ars_asset_record_id ars) \<and>
        ge_asset_record_id e = ars_asset_record_id ars \<and>
        ge_generation e = ars_served_generation ars \<and>
        arj_chain_ordinal arj = Some (ge_ordinal e) \<and>
        arj_refresh_source_id arj = Some (ge_source_id e) \<and>
        arj_refresh_review_id arj = Some (ge_review_id e) \<and>
        arj_job_id arj = job_id \<and> arj_admission_class arj = ''internal_refresh'' \<and>
        arj_chain_id arj \<noteq> None \<and> ars_active_chain_id ars = arj_chain_id arj \<and>
        ge_state e = ''in_flight'')"

definition refresh_target_of :: "uuid \<Rightarrow> pg \<Rightarrow> refresh_target option" where
  "refresh_target_of job_id s =
     map_option (\<lambda>(arj, ars, e).
         \<lparr>t_source_id = ge_source_id e, t_review_id = ge_review_id e,
          t_asset_id = ars_asset_record_id ars, t_chain_id = the (arj_chain_id arj),
          t_ordinal = ge_ordinal e, t_generation = ars_served_generation ars\<rparr>)
       (find (refresh_match job_id)
          (List.product (pg_repair_jobs s) (List.product (pg_refresh_states s) (pg_entries s))))"

definition lineage_update :: "refresh_policy \<Rightarrow> datetime \<Rightarrow> datetime \<Rightarrow> lineage_row \<Rightarrow> lineage_row" where
  "lineage_update policy now next_allowed ln =
     (let exhausted = ln_exhausted ln \<or> ln_attempts ln \<ge> uint (rp_max_attempts policy)
      in ln\<lparr>ln_next_allowed_at := Some next_allowed, ln_exhausted := exhausted,
            ln_last_outcome := Some (if exhausted then ''exhausted'' else ''inconclusive''),
            ln_updated_at := now\<rparr>)"

definition lineage_of :: "refresh_target \<Rightarrow> lineage_row \<Rightarrow> bool" where
  "lineage_of t ln \<longleftrightarrow> ln_source_id ln = t_source_id t \<and> ln_review_id ln = t_review_id t"

definition close_entry :: "refresh_target \<Rightarrow> bool \<Rightarrow> datetime option \<Rightarrow> generation_entry_row \<Rightarrow> generation_entry_row" where
  "close_entry t exhausted not_before e =
     (if ge_asset_record_id e = t_asset_id t \<and> ge_generation e = t_generation t \<and>
         ge_ordinal e = t_ordinal t \<and> ge_state e = ''in_flight''
      then e\<lparr>ge_state := (if exhausted then ''done'' else ''cooling''), ge_not_before := not_before\<rparr>
      else e)"

definition close_state ::
    "refresh_target \<Rightarrow> datetime \<Rightarrow> generation_entry_row list \<Rightarrow> refresh_state_row \<Rightarrow> refresh_state_row" where
  "close_state t now entries st =
     (if ars_asset_record_id st = t_asset_id t \<and> ars_active_chain_id st = Some (t_chain_id t) \<and>
         ars_served_generation st = t_generation t
      then st\<lparr>ars_active_chain_id := None,
              ars_completed_generation :=
                (if \<exists>e \<in> set entries. ge_asset_record_id e = ars_asset_record_id st \<and>
                      ge_generation e = t_generation t \<and> ge_state e \<noteq> ''done''
                 then ars_completed_generation st
                 else max (ars_completed_generation st) (t_generation t)),
              ars_updated_at := now\<rparr>
      else st)"

definition cleanup_terminal_refresh :: "pg_env \<Rightarrow> refresh_policy \<Rightarrow> job \<Rightarrow> pg \<Rightarrow> unit pg_result" where
  "cleanup_terminal_refresh E policy j s =
     (if j_type j \<noteq> AssetRefresh \<or> j_status j \<noteq> Failed then (Inr (), s)
      else case refresh_target_of (j_id j) s of
        None \<Rightarrow> (Inr (), s)
      | Some t \<Rightarrow>
          (let (now1, now2) = cleanup_now E (j_id j)
           in case (if \<exists>ln \<in> set (pg_lineage s). lineage_of t ln
                    then map_option Some (ts_add E now1 (int (rp_cooldown_secs policy) * 1000000000))
                    else Some None) of
                None \<Rightarrow> (Inl pg_out_of_range, s)
              | Some next_allowed \<Rightarrow>
                  (let lineage' = (case next_allowed of None \<Rightarrow> pg_lineage s
                         | Some n \<Rightarrow> map (\<lambda>ln. if lineage_of t ln then lineage_update policy now1 n ln
                                              else ln) (pg_lineage s));
                       exhausted = (case find (lineage_of t) lineage' of
                         None \<Rightarrow> True | Some ln \<Rightarrow> ln_exhausted ln);
                       not_before = (if exhausted then None else next_allowed);
                       entries' = map (close_entry t exhausted not_before) (pg_entries s);
                       states' = map (close_state t now2 entries') (pg_refresh_states s)
                   in (Inr (), s\<lparr>pg_lineage := lineage', pg_entries := entries',
                                 pg_refresh_states := states'\<rparr>))))"

text \<open>The tail of \<^verbatim>\<open>retry\<close>, \<^verbatim>\<open>fail\<close> and \<^verbatim>\<open>cancel\<close>: decode the row, then clean up.\<close>

definition decode_and_cleanup :: "pg_env \<Rightarrow> refresh_policy \<Rightarrow> job_row \<Rightarrow> pg \<Rightarrow> job pg_result" where
  "decode_and_cleanup E policy row s =
     (case decode_job row of
        Inl e \<Rightarrow> (Inl e, s)
      | Inr j \<Rightarrow>
          (case cleanup_terminal_refresh E policy j s of
             (Inl e, s') \<Rightarrow> (Inl e, s')
           | (Inr _, s') \<Rightarrow> (Inr j, s')))"

definition retry_set :: "pg_env \<Rightarrow> datetime \<Rightarrow> rstring \<Rightarrow> string \<Rightarrow> job_row \<Rightarrow> job_row" where
  "retry_set E run_after err otherwise_status r =
     (release_lease r)
       \<lparr>r_status := (if r_failure_count r + 1 \<ge> r_max_attempts r then ''failed'' else otherwise_status),
        r_failure_count := r_failure_count r + 1, r_run_after := run_after,
        r_last_error := Some err,
        r_finished_at := (if r_failure_count r + 1 \<ge> r_max_attempts r then Some (db_now E) else None),
        r_updated_at := db_now E\<rparr>"

definition pg_retry ::
    "chrono \<Rightarrow> pg_env \<Rightarrow> refresh_policy \<Rightarrow> uuid \<Rightarrow> rstring \<Rightarrow> lease_token \<Rightarrow> datetime \<Rightarrow> datetime \<Rightarrow>
     rstring \<Rightarrow> pg \<Rightarrow> job pg_result" where
  "pg_retry X E policy job_id owner token now retry_at err s =
     (case pg_validate_owner owner of Inl e \<Rightarrow> (Inl e, s) | Inr _ \<Rightarrow>
      case validate_error err of Inl e \<Rightarrow> (Inl e, s) | Inr _ \<Rightarrow>
      case update_where (fence E job_id owner token) (retry_set E retry_at err ''retry_wait'') s of
        (row # _, s') \<Rightarrow> decode_and_cleanup E policy row s'
      | ([], s') \<Rightarrow>
          (Inl (fenced_update_error X job_id owner token now (FencedRetry retry_at err) s'), s'))"

definition pg_fail ::
    "chrono \<Rightarrow> pg_env \<Rightarrow> refresh_policy \<Rightarrow> uuid \<Rightarrow> rstring \<Rightarrow> lease_token \<Rightarrow> datetime \<Rightarrow> rstring \<Rightarrow> pg \<Rightarrow>
     job pg_result" where
  "pg_fail X E policy job_id owner token now err s =
     (case pg_validate_owner owner of Inl e \<Rightarrow> (Inl e, s) | Inr _ \<Rightarrow>
      case validate_error err of Inl e \<Rightarrow> (Inl e, s) | Inr _ \<Rightarrow>
      case update_where (fence E job_id owner token)
             (\<lambda>r. (release_lease r)\<lparr>r_status := ''failed'', r_last_error := Some err,
                    r_finished_at := Some (db_now E), r_updated_at := db_now E\<rparr>) s of
        (row # _, s') \<Rightarrow> decode_and_cleanup E policy row s'
      | ([], s') \<Rightarrow> (Inl (fenced_update_error X job_id owner token now (FencedFail err) s'), s'))"

definition cancellable :: "uuid \<Rightarrow> job_row \<Rightarrow> bool" where
  "cancellable job_id r \<longleftrightarrow>
     r_id r = job_id \<and> r_status r \<in> set active_statuses \<and> r_lease_owner r = None \<and>
     r_lease_token r = None \<and> r_lease_until r = None"

definition pg_cancel ::
    "pg_env \<Rightarrow> refresh_policy \<Rightarrow> uuid \<Rightarrow> datetime \<Rightarrow> rstring \<Rightarrow> pg \<Rightarrow> job pg_result" where
  "pg_cancel E policy job_id now reason s =
     (case validate_error reason of Inl e \<Rightarrow> (Inl e, s) | Inr _ \<Rightarrow>
      case update_where (cancellable job_id)
             (\<lambda>r. r\<lparr>r_status := ''failed'', r_last_error := Some reason,
                    r_finished_at := Some (db_now E), r_updated_at := db_now E\<rparr>) s of
        (row # _, s') \<Rightarrow> decode_and_cleanup E policy row s'
      | ([], s') \<Rightarrow> (Inl (cancel_update_error job_id now reason s'), s'))"

definition expired_rows :: "pg_env \<Rightarrow> nat \<Rightarrow> pg \<Rightarrow> job_row list" where
  "expired_rows E limit s =
     take limit (sort_key r_lease_until (sort_key r_id
       (filter (\<lambda>r. r_status r = ''running'' \<and>
           (\<exists>u \<in> set_option (r_lease_until r). u \<le> db_now E) \<and> r_id r \<notin> set (locked E))
         (pg_jobs s))))"

fun decode_all :: "job_row list \<Rightarrow> job_repository_error + job list" where
  "decode_all [] = Inr []"
| "decode_all (r # rs) = bindE (decode_job r) (\<lambda>j. bindE (decode_all rs) (\<lambda>js. Inr (j # js)))"

fun cleanup_all :: "pg_env \<Rightarrow> refresh_policy \<Rightarrow> job list \<Rightarrow> pg \<Rightarrow> unit pg_result" where
  "cleanup_all E policy [] s = (Inr (), s)"
| "cleanup_all E policy (j # js) s =
     (case cleanup_terminal_refresh E policy j s of
        (Inl e, s') \<Rightarrow> (Inl e, s')
      | (Inr _, s') \<Rightarrow> cleanup_all E policy js s')"

text \<open>The rows an \<^verbatim>\<open>UPDATE\<close> returns come in no specified order; here in table order.\<close>

definition pg_recover_expired :: "pg_env \<Rightarrow> refresh_policy \<Rightarrow> nat \<Rightarrow> pg \<Rightarrow> job list pg_result" where
  "pg_recover_expired E policy limit s =
     (if limit = 0 then (Inr [], s)
      else if i64_try_from limit = None then
        (Inl (Storage ''recovery batch limit exceeds PostgreSQL range''), s)
      else
        (let ids = map r_id (expired_rows E limit s);
             (rows, s') = update_where (\<lambda>r. r_id r \<in> set ids)
                            (retry_set E (db_now E) (lit ''worker lease expired'') ''queued'') s
         in case decode_all rows of
              Inl e \<Rightarrow> (Inl e, s')
            | Inr js \<Rightarrow>
                (case cleanup_all E policy js s' of
                   (Inl e, s'') \<Rightarrow> (Inl e, s'')
                 | (Inr _, s'') \<Rightarrow> (Inr js, s''))))"


section \<open>The repository\<close>

text \<open>\<^verbatim>\<open>JobOutcomeTransaction\<close> for the PostgreSQL transaction, and the methods of the
  repository, each in a transaction of its own.\<close>

fun pg_apply_outcome ::
    "chrono \<Rightarrow> pg_env \<Rightarrow> refresh_policy \<Rightarrow> job_outcome \<Rightarrow> pg \<Rightarrow> job pg_result" where
  "pg_apply_outcome X E policy (OutDeferred job_id owner token now resume_at) s =
     pg_defer X E job_id owner token now resume_at s"
| "pg_apply_outcome X E policy (OutSucceeded job_id owner token now) s =
     pg_succeed X E job_id owner token now s"
| "pg_apply_outcome X E policy (OutRetry job_id owner token now retry_at err) s =
     pg_retry X E policy job_id owner token now retry_at err s"
| "pg_apply_outcome X E policy (OutFailed job_id owner token now err) s =
     pg_fail X E policy job_id owner token now err s"
| "pg_apply_outcome X E policy (OutCancelled job_id now reason) s =
     pg_cancel E policy job_id now reason s"

fun run_pg_op :: "chrono \<Rightarrow> refresh_policy \<Rightarrow> pg_env \<times> store_op \<Rightarrow> pg \<Rightarrow> pg" where
  "run_pg_op X policy (E, OpEnqueue uid spec) s =
     snd (autocommit (enqueue_internal E uid spec False) s)"
| "run_pg_op X policy (E, OpClaimNext tok owner now lease_for allowed) s =
     snd (autocommit (pg_claim_next X E tok owner lease_for allowed) s)"
| "run_pg_op X policy (E, OpHeartbeat job_id owner tok now lease_for) s =
     snd (autocommit (pg_heartbeat X E job_id owner tok now lease_for) s)"
| "run_pg_op X policy (E, OpOutcome out) s = snd (autocommit (pg_apply_outcome X E policy out) s)"
| "run_pg_op X policy (E, OpRecover now limit) s =
     snd (autocommit (pg_recover_expired E policy limit) s)"

definition enqueue_immediately ::
    "pg_env \<Rightarrow> uuid \<Rightarrow> new_job \<Rightarrow> pg \<Rightarrow> enqueue_result pg_result" where
  "enqueue_immediately E uid spec s = autocommit (enqueue_internal E uid spec True) s"


section \<open>The table as a store\<close>

text \<open>
  A row is well formed when it is the encoding of a valid job; the table then stands for the store
  of the jobs its rows decode to.
\<close>

definition row_job :: "job_row \<Rightarrow> job" where
  "row_job r = (case decode_job r of Inr j \<Rightarrow> j | Inl _ \<Rightarrow> undefined)"

definition row_ok :: "job_row \<Rightarrow> bool" where
  "row_ok r \<longleftrightarrow> (case decode_job r of Inr _ \<Rightarrow> True | Inl _ \<Rightarrow> False)"

definition store_of :: "pg \<Rightarrow> store" where
  "store_of s = map (\<lambda>r. (r_id r, row_job r)) (pg_jobs s)"

definition pg_ok :: "pg \<Rightarrow> bool" where
  "pg_ok s \<longleftrightarrow> (\<forall>r \<in> set (pg_jobs s). row_ok r) \<and> store_ok (store_of s)"

end
