(* ===== verification/Job_Pg_Refine.thy ===== *)
theory Job_Pg_Refine
  imports Job_Pg
begin

text \<open>
  The PostgreSQL job repository implements the same queue as the memory repository. Rows are the
  encodings of valid jobs; each \<^verbatim>\<open>UPDATE\<close> by primary key refines the domain operation on the
  addressed job, at the database's time; the claim, the recovery and the enqueue refine theirs. The
  repository is then an interpretation of the locale \<open>job_queue\<close>, from which the properties of
  whole runs follow.
\<close>

section \<open>Names and rows\<close>

lemma parse_job_type_name [simp]: "parse_job_type (job_type_name t) = Inr t"
  by (cases t) (simp_all add: parse_job_type_def)

lemma parse_status_name [simp]: "parse_job_status (status_name st) = Inr st"
  by (cases st) (simp_all add: parse_job_status_def)

lemma parse_job_type_Inr: "parse_job_type v = Inr t \<longleftrightarrow> v = job_type_name t"
proof
  assume "parse_job_type v = Inr t"
  then show "v = job_type_name t" unfolding parse_job_type_def by (simp split: if_split_asm)
qed simp

lemma parse_job_status_Inr: "parse_job_status v = Inr st \<longleftrightarrow> v = status_name st"
proof
  assume "parse_job_status v = Inr st"
  then show "v = status_name st" unfolding parse_job_status_def by (simp split: if_split_asm)
qed simp

lemma job_type_name_eq [simp]: "job_type_name a = job_type_name b \<longleftrightarrow> a = b"
  by (metis parse_job_type_name sum.inject(2))

lemma status_name_eq [simp]: "status_name a = status_name b \<longleftrightarrow> a = b"
  by (metis parse_status_name sum.inject(2))

lemma persisted_u32_Inr: "persisted_u32 c n = Inr w \<longleftrightarrow> n = uint w"
  by (auto simp: persisted_u32_def dest: u32_try_from_Some)

lemma job_type_name_in [simp]: "job_type_name t \<in> set (job_type_names ts) \<longleftrightarrow> t \<in> set ts"
  by (auto simp: job_type_names_def)

text \<open>Decoding is exactly the inverse of the encoding, on valid jobs and nowhere else.\<close>

lemma decode_job_iff: "decode_job r = Inr j \<longleftrightarrow> job_ok j \<and> r = bind_job j"
proof
  assume "decode_job r = Inr j"
  then have "job_ok j \<and> r_job_type r = job_type_name (j_type j) \<and> r_status r = status_name (j_status j) \<and>
     r_claim_count r = uint (j_claim_count j) \<and> r_failure_count r = uint (j_failure_count j) \<and>
     r_max_attempts r = uint (j_max_attempts j) \<and> j_id j = r_id r \<and> j_source_id j = r_source_id r \<and>
     j_priority j = r_priority r \<and> j_run_after j = r_run_after r \<and> j_lease_owner j = r_lease_owner r \<and>
     j_lease_token j = r_lease_token r \<and> j_lease_until j = r_lease_until r \<and>
     j_heartbeat_at j = r_heartbeat_at r \<and> j_started_at j = r_started_at r \<and>
     j_finished_at j = r_finished_at r \<and> j_last_error j = r_last_error r \<and>
     j_payload j = r_payload_json r \<and> j_dedupe_key j = r_dedupe_key r \<and>
     j_created_at j = r_created_at r \<and> j_updated_at j = r_updated_at r"
    by (clarsimp simp: decode_job_def bindE_eq_Inr parse_job_type_Inr parse_job_status_Inr
        persisted_u32_Inr from_persisted_def Let_def job_ok_def)
  then show "job_ok j \<and> r = bind_job j" by (simp add: bind_job_def)
next
  assume "job_ok j \<and> r = bind_job j"
  then show "decode_job r = Inr j"
    by (cases j) (simp add: decode_job_def bind_job_def persisted_u32_def from_persisted_def job_ok_def Let_def)
qed

lemma row_ok_iff: "row_ok r \<longleftrightarrow> (\<exists>j. job_ok j \<and> r = bind_job j)"
proof
  assume "row_ok r"
  then obtain j where "decode_job r = Inr j" by (auto simp: row_ok_def split: sum.splits)
  then show "\<exists>j. job_ok j \<and> r = bind_job j" by (auto simp: decode_job_iff)
next
  assume "\<exists>j. job_ok j \<and> r = bind_job j"
  then obtain j where "decode_job r = Inr j" by (auto simp: decode_job_iff)
  then show "row_ok r" by (simp add: row_ok_def)
qed

lemma row_job_bind [simp]: "job_ok j \<Longrightarrow> row_job (bind_job j) = j"
  using decode_job_iff [of "bind_job j" j] by (simp add: row_job_def)

lemma bind_row_job: "row_ok r \<Longrightarrow> bind_job (row_job r) = r \<and> job_ok (row_job r)"
  by (auto simp: row_ok_iff)

lemma bind_job_sel [simp]:
  "r_id (bind_job j) = j_id j" "r_status (bind_job j) = status_name (j_status j)"
  "r_job_type (bind_job j) = job_type_name (j_type j)" "r_dedupe_key (bind_job j) = j_dedupe_key j"
  "r_run_after (bind_job j) = j_run_after j" "r_priority (bind_job j) = j_priority j"
  "r_created_at (bind_job j) = j_created_at j" "r_lease_until (bind_job j) = j_lease_until j"
  "r_lease_owner (bind_job j) = j_lease_owner j" "r_lease_token (bind_job j) = j_lease_token j"
  "r_failure_count (bind_job j) = uint (j_failure_count j)"
  "r_max_attempts (bind_job j) = uint (j_max_attempts j)"
  by (simp_all add: bind_job_def)

lemma status_name_running: "status_name st = ''running'' \<longleftrightarrow> st = Running"
  by (cases st) simp_all

lemma status_name_waiting:
  "status_name st \<in> {''queued'', ''retry_wait'', ''deferred''} \<longleftrightarrow> st \<in> {Queued, RetryWait, Deferred}"
  by (cases st) simp_all

lemma status_name_active: "status_name st \<in> set active_statuses \<longleftrightarrow> is_active st"
  by (cases st) (simp_all add: active_statuses_def)

text \<open>What the \<^verbatim>\<open>WHERE\<close> clauses say of the encoding of a job.\<close>

lemma fence_bind: "fence E i owner tok (bind_job j) \<longleftrightarrow> j_id j = i \<and> live_owner owner tok (db_now E) j"
  by (auto simp: fence_def live_owner_def status_name_running)

lemma cancellable_bind:
  assumes "job_ok j"
  shows "cancellable i (bind_job j) \<longleftrightarrow> j_id j = i \<and> j_status j \<in> {Queued, RetryWait, Deferred}"
  using assms
  by (cases "j_status j")
    (auto simp: cancellable_def active_statuses_def job_ok_iff lease_complete_def lease_empty_def)

lemma claim_candidate_bind:
  "claim_candidate E allowed (bind_job j) \<longleftrightarrow>
     claimable (db_now E) allowed j \<and> j_id j \<notin> set (locked E)"
  unfolding claim_candidate_def claimable_def bind_job_sel status_name_waiting job_type_name_in
  by (auto simp: word_less_alt)

lemma row_claim_order_bind: "row_claim_order (bind_job a) (bind_job b) = claim_order a b"
  by (simp add: row_claim_order_def claim_order_def)

text \<open>What the \<^verbatim>\<open>SET\<close> clauses do to the encoding of a job.\<close>

lemma uint_plus_one:
  fixes a m :: u32
  assumes "a < m"
  shows "uint (a + 1) = uint a + 1"
  using checked_add_one_lt(2) [OF assms] unfolding uint_nat by simp

lemma retry_set_bind:
  assumes "job_ok j" "j_status j = Running"
  shows "retry_set E at err ''retry_wait'' (bind_job j) = bind_job (retried (db_now E) at err j)"
    and "retry_set E at err ''queued'' (bind_job j) =
       bind_job ((retried (db_now E) at err j)
         \<lparr>j_status := (if j_failure_count j + 1 \<ge> j_max_attempts j then Failed else Queued)\<rparr>)"
proof -
  have u: "uint (j_failure_count j + 1) = uint (j_failure_count j) + 1"
    using running_budget [OF assms] by (rule uint_plus_one)
  then have le: "j_max_attempts j \<le> j_failure_count j + 1 \<longleftrightarrow>
      uint (j_max_attempts j) \<le> uint (j_failure_count j) + 1"
    by (simp add: word_le_def)
  show "retry_set E at err ''retry_wait'' (bind_job j) = bind_job (retried (db_now E) at err j)"
    by (simp add: retry_set_def release_lease_def bind_job_def retried_def Let_def u le)
  show "retry_set E at err ''queued'' (bind_job j) =
       bind_job ((retried (db_now E) at err j)
         \<lparr>j_status := (if j_failure_count j + 1 \<ge> j_max_attempts j then Failed else Queued)\<rparr>)"
    by (simp add: retry_set_def release_lease_def bind_job_def retried_def Let_def u le)
qed

section \<open>Statements on the table\<close>

lemma pg_ok_rows: "pg_ok s \<Longrightarrow> r \<in> set (pg_jobs s) \<Longrightarrow> r = bind_job (row_job r) \<and> job_ok (row_job r)"
  by (auto simp: pg_ok_def bind_row_job)

lemma fst_store_of: "map fst (store_of s) = map r_id (pg_jobs s)"
  by (simp add: store_of_def)

lemma pg_ok_distinct: "pg_ok s \<Longrightarrow> distinct (map r_id (pg_jobs s))"
  using store_ok_distinct [of "store_of s"] by (simp add: pg_ok_def fst_store_of)

lemma store_of_row:
  assumes "pg_ok s" "map_of (store_of s) i = Some j"
  shows "bind_job j \<in> set (pg_jobs s)" "j_id j = i" "job_ok j"
proof -
  from map_of_SomeD [OF assms(2)] obtain r where "r \<in> set (pg_jobs s)" "j = row_job r"
    by (auto simp: store_of_def)
  then show "bind_job j \<in> set (pg_jobs s)" "job_ok j" using pg_ok_rows [OF assms(1)] by auto
  show "j_id j = i" using assms by (auto simp: pg_ok_def dest: store_ok_map_of)
qed

lemma row_in_store:
  assumes "pg_ok s" "r \<in> set (pg_jobs s)"
  shows "map_of (store_of s) (r_id r) = Some (row_job r)"
proof -
  have "(r_id r, row_job r) \<in> set (store_of s)" using assms(2) by (simp add: store_of_def)
  then show ?thesis using assms(1) by (simp add: pg_ok_def store_ok_distinct)
qed

lemma update_where_miss:
  assumes "\<forall>r \<in> set (pg_jobs s). \<not> cond r"
  shows "update_where cond f s = ([], s)"
proof -
  have "map (\<lambda>r. if cond r then f r else r) (pg_jobs s) = pg_jobs s"
    using assms by (auto intro: map_idI)
  with assms show ?thesis by (simp add: update_where_def filter_empty_conv)
qed

text \<open>An update by primary key that matches the row of one job.\<close>

lemma update_where_hit:
  assumes "pg_ok s" "map_of (store_of s) i = Some j" "cond (bind_job j)" "\<And>r. cond r \<Longrightarrow> r_id r = i"
    and "f (bind_job j) = bind_job j'" "job_ok j'" "j_id j' = i"
  shows "fst (update_where cond f s) = [bind_job j']"
    and "store_of (snd (update_where cond f s)) = AList.update i j' (store_of s)"
    and "\<forall>r \<in> set (pg_jobs (snd (update_where cond f s))). row_ok r"
proof -
  note j = store_of_row [OF assms(1,2)]
  have eq: "r = bind_job j" if "r \<in> set (pg_jobs s)" "r_id r = i" for r
    using j that pg_ok_distinct [OF assms(1)]
    by (intro inj_onD [of r_id "set (pg_jobs s)"]) (auto simp: distinct_map)
  have only: "cond r \<longleftrightarrow> r_id r = i" if "r \<in> set (pg_jobs s)" for r
    using assms(3,4) eq [OF that] by auto
  have "filter cond (pg_jobs s) = filter (\<lambda>r. r_id r = i) (pg_jobs s)"
    using only by (auto intro: filter_cong)
  also have "\<dots> = [bind_job j]"
    using filter_key_single [OF pg_ok_distinct [OF assms(1)] j(1)] j(2) by simp
  finally show "fst (update_where cond f s) = [bind_job j']"
    by (simp add: update_where_def assms(5))
  have "AList.update i j' (map (\<lambda>r. (r_id r, row_job r)) rs) =
      map (\<lambda>r. (r_id r, if r_id r = i then j' else row_job r)) rs"
    if "distinct (map r_id rs)" "i \<in> r_id ` set rs" for rs
    using that by (rule alist_update_map)
  from this [OF pg_ok_distinct [OF assms(1)]] j
  have "AList.update i j' (store_of s) =
      map (\<lambda>r. (r_id r, if r_id r = i then j' else row_job r)) (pg_jobs s)"
    by (force simp: store_of_def image_iff)
  also have "\<dots> = store_of (snd (update_where cond f s))"
    using only eq assms(5-7) by (auto simp: store_of_def update_where_def)
  finally show "store_of (snd (update_where cond f s)) = AList.update i j' (store_of s)" by simp
  show "\<forall>r \<in> set (pg_jobs (snd (update_where cond f s))). row_ok r"
    using assms(1,5,6) only eq by (auto simp: update_where_def pg_ok_def row_ok_iff)
qed

section \<open>Outcomes refine the memory repository\<close>

text \<open>The outcome with the time of the database in place of the caller's.\<close>

fun retime :: "datetime \<Rightarrow> job_outcome \<Rightarrow> job_outcome" where
  "retime t (OutDeferred job_id owner token now resume_at) = OutDeferred job_id owner token t resume_at"
| "retime t (OutSucceeded job_id owner token now) = OutSucceeded job_id owner token t"
| "retime t (OutRetry job_id owner token now retry_at err) = OutRetry job_id owner token t retry_at err"
| "retime t (OutFailed job_id owner token now err) = OutFailed job_id owner token t err"
| "retime t (OutCancelled job_id now reason) = OutCancelled job_id t reason"

definition pg_refines :: "'a pg_result \<Rightarrow> pg \<Rightarrow> 'a store_result \<Rightarrow> bool" where
  "pg_refines res s mem \<longleftrightarrow>
     (case res of
        (Inr x, s') \<Rightarrow> mem = (Inr x, store_of s') \<and> (\<forall>r \<in> set (pg_jobs s'). row_ok r)
      | (Inl e, s') \<Rightarrow> s' = s \<and> (e = pg_out_of_range \<or> (\<exists>e'. mem = (Inl e', store_of s))))"

definition atomically :: "store \<Rightarrow> 'a store_result \<Rightarrow> 'a store_result" where
  "atomically s r = (fst r, case fst r of Inl _ \<Rightarrow> s | Inr _ \<Rightarrow> snd r)"

lemma commit_outcome_atomically: "commit_outcome out s = atomically s (apply_outcome out s)"
  by (simp add: commit_outcome_exact atomically_def)

lemma cleanup_cases:
  obtains s' where "cleanup_terminal_refresh E policy j s = (Inr (), s')" "pg_jobs s' = pg_jobs s"
  | "cleanup_terminal_refresh E policy j s = (Inl pg_out_of_range, s)"
proof (cases "fst (cleanup_terminal_refresh E policy j s)")
  case (Inl e)
  then have "cleanup_terminal_refresh E policy j s = (Inl pg_out_of_range, s)"
    by (auto simp: cleanup_terminal_refresh_def Let_def split: if_splits option.splits prod.splits)
  then show thesis by (rule that(2))
next
  case (Inr u)
  have "pg_jobs (snd (cleanup_terminal_refresh E policy j s)) = pg_jobs s"
    by (auto simp: cleanup_terminal_refresh_def Let_def split: option.splits prod.splits)
  with Inr show thesis by (intro that(1) [of "snd (cleanup_terminal_refresh E policy j s)"]) (auto simp: prod_eq_iff)
qed

definition row_tail :: "(job_row \<Rightarrow> pg \<Rightarrow> job pg_result) \<Rightarrow> bool" where
  "row_tail k \<longleftrightarrow>
     (\<forall>j s. job_ok j \<longrightarrow>
        (\<exists>s'. k (bind_job j) s = (Inr j, s') \<and> pg_jobs s' = pg_jobs s) \<or>
        (\<exists>s'. k (bind_job j) s = (Inl pg_out_of_range, s')))"

lemma row_tail_decode: "row_tail (\<lambda>row s. (decode_job row, s))"
  by (auto simp: row_tail_def decode_job_iff)

lemma row_tail_cleanup: "row_tail (decode_and_cleanup E policy)"
proof -
  have "(\<exists>s'. decode_and_cleanup E policy (bind_job j) s = (Inr j, s') \<and> pg_jobs s' = pg_jobs s) \<or>
      (\<exists>s'. decode_and_cleanup E policy (bind_job j) s = (Inl pg_out_of_range, s'))"
    if "job_ok j" for j s
  proof -
    have "decode_job (bind_job j) = Inr j" using that by (simp add: decode_job_iff)
    then show ?thesis
      by (cases rule: cleanup_cases [of E policy j s]) (auto simp: decode_and_cleanup_def)
  qed
  then show ?thesis by (simp add: row_tail_def)
qed

lemma store_of_cong: "pg_jobs a = pg_jobs b \<Longrightarrow> store_of a = store_of b"
  by (simp add: store_of_def)

text \<open>
  One update by primary key against one domain operation on the addressed job: when the
  \<^verbatim>\<open>WHERE\<close> clause says exactly that the operation succeeds and the \<^verbatim>\<open>SET\<close> clause writes
  its result, the statement with its tail refines the transition of the memory store.
\<close>

lemma update_refines:
  assumes "pg_ok s" "row_tail k" "\<And>r. cond r \<Longrightarrow> r_id r = i"
    and hit: "\<And>j. job_ok j \<Longrightarrow> j_id j = i \<Longrightarrow> cond (bind_job j) \<longleftrightarrow> (\<exists>r j'. op j = (Inr r, j'))"
    and eff: "\<And>j r j'. job_ok j \<Longrightarrow> op j = (Inr r, j') \<Longrightarrow>
       f (bind_job j) = bind_job j' \<and> job_ok j' \<and> j_id j' = j_id j"
  shows "pg_refines
     (autocommit (\<lambda>s. case update_where cond f s of (row # _, s') \<Rightarrow> k row s' | ([], s') \<Rightarrow> (Inl (err s'), s')) s)
     s (atomically (store_of s) (snapshot (transition i op (store_of s))))"
    (is "pg_refines (autocommit ?stmt s) s ?mem")
proof (cases "\<exists>j r j'. map_of (store_of s) i = Some j \<and> op j = (Inr r, j')")
  case True
  then obtain j r j' where j: "map_of (store_of s) i = Some j" "op j = (Inr r, j')" by blast
  note row = store_of_row [OF assms(1) j(1)]
  note e = eff [OF row(3) j(2)]
  have "cond (bind_job j)" using hit [OF row(3,2)] j(2) by blast
  from update_where_hit [where cond = cond and f = f, OF assms(1) j(1) this assms(3)] e row(2)
  obtain s1 where u: "update_where cond f s = ([bind_job j'], s1)"
      "store_of s1 = AList.update i j' (store_of s)" "\<forall>r \<in> set (pg_jobs s1). row_ok r"
    by (metis prod.collapse)
  have mem: "?mem = (Inr j', AList.update i j' (store_of s))"
    using j by (simp add: atomically_def snapshot_def transition_Some)
  from assms(2) e consider s2 where "k (bind_job j') s1 = (Inr j', s2)" "pg_jobs s2 = pg_jobs s1"
    | s2 where "k (bind_job j') s1 = (Inl pg_out_of_range, s2)"
    unfolding row_tail_def by blast
  then show ?thesis
  proof cases
    case 1
    with u mem show ?thesis by (simp add: pg_refines_def autocommit_def store_of_cong [OF 1(2)])
  next
    case 2
    with u show ?thesis by (simp add: pg_refines_def autocommit_def)
  qed
next
  case False
  have "\<not> cond r" if "r \<in> set (pg_jobs s)" for r
  proof
    assume c: "cond r"
    note rr = pg_ok_rows [OF assms(1) that]
    from row_in_store [OF assms(1) that] assms(3) [OF c]
    have "map_of (store_of s) i = Some (row_job r)" by simp
    moreover from rr c have "cond (bind_job (row_job r))" by simp
    then have "\<exists>x j'. op (row_job r) = (Inr x, j')"
      using hit [of "row_job r"] rr store_of_row(2) [OF assms(1) \<open>map_of (store_of s) i = _\<close>] by blast
    ultimately show False using False by blast
  qed
  then have "update_where cond f s = ([], s)" by (intro update_where_miss) simp
  moreover have "\<exists>e. ?mem = (Inl e, store_of s)"
  proof (cases "map_of (store_of s) i")
    case (Some j)
    with False obtain e where "fst (op j) = Inl e" by (cases "op j"; cases "fst (op j)") auto
    with Some show ?thesis by (simp add: atomically_def snapshot_def transition_Some)
  qed (simp add: atomically_def snapshot_def transition_None)
  ultimately show ?thesis by (simp add: pg_refines_def autocommit_def)
qed

text \<open>A statement guarded by the validation that the domain operation performs first.\<close>

lemma guard_refines:
  assumes "\<And>x. v = Inr x \<Longrightarrow> pg_refines (autocommit g s) s mem"
    and "\<And>e. v = Inl e \<Longrightarrow> \<exists>e'. mem = (Inl e', store_of s)"
  shows "pg_refines (autocommit (\<lambda>s. case v of Inl e \<Rightarrow> (Inl e, s) | Inr _ \<Rightarrow> g s) s) s mem"
  using assms by (cases v) (auto simp: pg_refines_def autocommit_def)

lemma transition_rejects:
  assumes "\<And>j. \<exists>e j'. op j = (Inl e, j')"
  shows "\<exists>e'. atomically s (snapshot (transition i op s)) = (Inl e', s)"
proof (cases "map_of s i")
  case (Some j)
  with assms [of j] show ?thesis by (auto simp: atomically_def snapshot_def transition_Some)
qed (simp add: atomically_def snapshot_def transition_None)

lemma fence_id: "fence E i owner tok r \<Longrightarrow> r_id r = i"
  by (simp add: fence_def)

lemma cancellable_id: "cancellable i r \<Longrightarrow> r_id r = i"
  by (simp add: cancellable_def)

lemma event_result_ok:
  assumes "job_ok j" "run_event X ev j = (True, j')"
  shows "job_ok j' \<and> j_id j' = j_id j"
  using run_event_ok [OF assms(1), of X ev] run_event_identity [OF assms(1), of X ev] assms(2)
  by (simp add: same_identity_def)

lemma defer_refines:
  assumes "pg_ok s"
  shows "pg_refines (autocommit (pg_defer X E i owner tok now resume_at) s) s
    (atomically (store_of s) (defer_in_store i owner tok (db_now E) resume_at (store_of s)))"
  unfolding pg_defer_def [abs_def] defer_in_store_def
proof (rule guard_refines)
  fix x assume "pg_validate_owner owner = Inr x"
  then have o: "trim owner \<noteq> []" by (simp add: pg_validate_owner_def split: if_splits)
  show "pg_refines
     (autocommit (\<lambda>s. case update_where (\<lambda>r. fence E i owner tok r \<and> resume_at > db_now E)
        (\<lambda>r. (release_lease r)\<lparr>r_status := ''deferred'', r_run_after := resume_at,
                    r_last_error := None, r_finished_at := None, r_updated_at := db_now E\<rparr>) s of
        ([], s') \<Rightarrow> (Inl (fenced_update_error X i owner tok now (FencedDefer resume_at) s'), s')
      | (row # _, s') \<Rightarrow> (decode_job row, s')) s) s
     (atomically (store_of s) (snapshot (transition i (defer_job owner tok (db_now E) resume_at) (store_of s))))"
  proof (rule update_refines [OF assms row_tail_decode])
    fix j assume "job_ok j" "j_id j = i"
    then show "fence E i owner tok (bind_job j) \<and> db_now E < resume_at \<longleftrightarrow>
        (\<exists>r j'. defer_job owner tok (db_now E) resume_at j = (Inr r, j'))"
      by (auto simp: fence_bind defer_job_Inr_iff o)
  next
    fix j r j' assume h: "job_ok j" "defer_job owner tok (db_now E) resume_at j = (Inr r, j')"
    then have "run_event X (EvDefer owner tok (db_now E) resume_at) j = (True, j')"
      by (simp add: succeeded_True)
    from event_result_ok [OF h(1) this] h(2)
    show "(release_lease (bind_job j))\<lparr>r_status := ''deferred'', r_run_after := resume_at,
            r_last_error := None, r_finished_at := None, r_updated_at := db_now E\<rparr> = bind_job j' \<and>
        job_ok j' \<and> j_id j' = j_id j"
      by (simp add: defer_job_Inr_iff bind_job_def release_lease_def)
  qed (auto dest: fence_id)
next
  fix e assume "pg_validate_owner owner = Inl e"
  then have "trim owner = []" by (simp add: pg_validate_owner_def split: if_splits)
  then show "\<exists>e'. atomically (store_of s)
      (snapshot (transition i (defer_job owner tok (db_now E) resume_at) (store_of s))) = (Inl e', store_of s)"
    by (intro transition_rejects) (simp add: defer_job_def validate_owner_def)
qed

lemma succeed_refines:
  assumes "pg_ok s"
  shows "pg_refines (autocommit (pg_succeed X E i owner tok now) s) s
    (atomically (store_of s) (succeed_in_store i owner tok (db_now E) (store_of s)))"
  unfolding pg_succeed_def [abs_def] succeed_in_store_def
proof (rule guard_refines)
  fix x assume "pg_validate_owner owner = Inr x"
  then have o: "trim owner \<noteq> []" by (simp add: pg_validate_owner_def split: if_splits)
  show "pg_refines
     (autocommit (\<lambda>s. case update_where (fence E i owner tok)
        (\<lambda>r. (release_lease r)\<lparr>r_status := ''succeeded'', r_last_error := None,
                    r_finished_at := Some (db_now E), r_updated_at := db_now E\<rparr>) s of
        ([], s') \<Rightarrow> (Inl (fenced_update_error X i owner tok now FencedSucceed s'), s')
      | (row # _, s') \<Rightarrow> (decode_job row, s')) s) s
     (atomically (store_of s) (snapshot (transition i (succeed owner tok (db_now E)) (store_of s))))"
  proof (rule update_refines [OF assms row_tail_decode])
    fix j r j' assume h: "job_ok j" "succeed owner tok (db_now E) j = (Inr r, j')"
    then have "run_event X (EvSucceed owner tok (db_now E)) j = (True, j')"
      by (simp add: succeeded_True)
    from event_result_ok [OF h(1) this] h(2)
    show "(release_lease (bind_job j))\<lparr>r_status := ''succeeded'', r_last_error := None,
            r_finished_at := Some (db_now E), r_updated_at := db_now E\<rparr> = bind_job j' \<and>
        job_ok j' \<and> j_id j' = j_id j"
      by (simp add: succeed_Inr_iff bind_job_def release_lease_def)
  qed (auto simp: fence_bind succeed_Inr_iff o dest: fence_id)
next
  fix e assume "pg_validate_owner owner = Inl e"
  then have "trim owner = []" by (simp add: pg_validate_owner_def split: if_splits)
  then show "\<exists>e'. atomically (store_of s)
      (snapshot (transition i (succeed owner tok (db_now E)) (store_of s))) = (Inl e', store_of s)"
    by (intro transition_rejects) (simp add: succeed_def validate_owner_def)
qed

lemma retry_refines:
  assumes "pg_ok s"
  shows "pg_refines (autocommit (pg_retry X E policy i owner tok now retry_at err) s) s
    (atomically (store_of s) (retry_in_store i owner tok (db_now E) retry_at err (store_of s)))"
  unfolding pg_retry_def [abs_def] retry_in_store_def
proof (intro guard_refines)
  fix x y assume "pg_validate_owner owner = Inr x" "validate_error err = Inr y"
  then have o: "trim owner \<noteq> []" "trim err \<noteq> []"
    by (simp_all add: pg_validate_owner_def validate_error_def split: if_splits)
  show "pg_refines
     (autocommit (\<lambda>s. case update_where (fence E i owner tok) (retry_set E retry_at err ''retry_wait'') s of
        ([], s') \<Rightarrow> (Inl (fenced_update_error X i owner tok now (FencedRetry retry_at err) s'), s')
      | (row # _, s') \<Rightarrow> decode_and_cleanup E policy row s') s) s
     (atomically (store_of s) (snapshot (transition i (retry owner tok (db_now E) retry_at err) (store_of s))))"
  proof (rule update_refines [OF assms row_tail_cleanup])
    fix j r j' assume h: "job_ok j" "retry owner tok (db_now E) retry_at err j = (Inr r, j')"
    then have "run_event X (EvRetry owner tok (db_now E) retry_at err) j = (True, j')"
      by (simp add: succeeded_True)
    from event_result_ok [OF h(1) this] h
    show "retry_set E retry_at err ''retry_wait'' (bind_job j) = bind_job j' \<and> job_ok j' \<and> j_id j' = j_id j"
      by (simp add: retry_Inr_iff live_owner_def retry_set_bind)
  qed (auto simp: fence_bind retry_Inr_iff o dest: fence_id)
next
  fix e x assume "pg_validate_owner owner = Inr x" "validate_error err = Inl e"
  then have "trim err = []" by (simp add: validate_error_def split: if_splits)
  then show "\<exists>e'. atomically (store_of s)
      (snapshot (transition i (retry owner tok (db_now E) retry_at err) (store_of s))) = (Inl e', store_of s)"
    by (intro transition_rejects) (simp add: retry_def validate_owner_def nonempty_error_def)
next
  fix e assume "pg_validate_owner owner = Inl e"
  then have "trim owner = []" by (simp add: pg_validate_owner_def split: if_splits)
  then show "\<exists>e'. atomically (store_of s)
      (snapshot (transition i (retry owner tok (db_now E) retry_at err) (store_of s))) = (Inl e', store_of s)"
    by (intro transition_rejects) (simp add: retry_def validate_owner_def)
qed

lemma fail_refines:
  assumes "pg_ok s"
  shows "pg_refines (autocommit (pg_fail X E policy i owner tok now err) s) s
    (atomically (store_of s) (fail_in_store i owner tok (db_now E) err (store_of s)))"
  unfolding pg_fail_def [abs_def] fail_in_store_def
proof (intro guard_refines)
  fix x y assume "pg_validate_owner owner = Inr x" "validate_error err = Inr y"
  then have o: "trim owner \<noteq> []" "trim err \<noteq> []"
    by (simp_all add: pg_validate_owner_def validate_error_def split: if_splits)
  show "pg_refines
     (autocommit (\<lambda>s. case update_where (fence E i owner tok)
        (\<lambda>r. (release_lease r)\<lparr>r_status := ''failed'', r_last_error := Some err,
                    r_finished_at := Some (db_now E), r_updated_at := db_now E\<rparr>) s of
        ([], s') \<Rightarrow> (Inl (fenced_update_error X i owner tok now (FencedFail err) s'), s')
      | (row # _, s') \<Rightarrow> decode_and_cleanup E policy row s') s) s
     (atomically (store_of s) (snapshot (transition i (fail owner tok (db_now E) err) (store_of s))))"
  proof (rule update_refines [OF assms row_tail_cleanup])
    fix j r j' assume h: "job_ok j" "fail owner tok (db_now E) err j = (Inr r, j')"
    then have "run_event X (EvFail owner tok (db_now E) err) j = (True, j')"
      by (simp add: succeeded_True)
    from event_result_ok [OF h(1) this] h(2)
    show "(release_lease (bind_job j))\<lparr>r_status := ''failed'', r_last_error := Some err,
            r_finished_at := Some (db_now E), r_updated_at := db_now E\<rparr> = bind_job j' \<and>
        job_ok j' \<and> j_id j' = j_id j"
      by (simp add: fail_Inr_iff bind_job_def release_lease_def)
  qed (auto simp: fence_bind fail_Inr_iff o dest: fence_id)
next
  fix e x assume "pg_validate_owner owner = Inr x" "validate_error err = Inl e"
  then have "trim err = []" by (simp add: validate_error_def split: if_splits)
  then show "\<exists>e'. atomically (store_of s)
      (snapshot (transition i (fail owner tok (db_now E) err) (store_of s))) = (Inl e', store_of s)"
    by (intro transition_rejects) (simp add: fail_def validate_owner_def nonempty_error_def)
next
  fix e assume "pg_validate_owner owner = Inl e"
  then have "trim owner = []" by (simp add: pg_validate_owner_def split: if_splits)
  then show "\<exists>e'. atomically (store_of s)
      (snapshot (transition i (fail owner tok (db_now E) err) (store_of s))) = (Inl e', store_of s)"
    by (intro transition_rejects) (simp add: fail_def validate_owner_def)
qed

lemma cancel_refines:
  assumes "pg_ok s"
  shows "pg_refines (autocommit (pg_cancel E policy i now reason) s) s
    (atomically (store_of s) (cancel_in_store i (db_now E) reason (store_of s)))"
  unfolding pg_cancel_def [abs_def] cancel_in_store_def
proof (rule guard_refines)
  fix x assume "validate_error reason = Inr x"
  then have o: "trim reason \<noteq> []" by (simp add: validate_error_def split: if_splits)
  show "pg_refines
     (autocommit (\<lambda>s. case update_where (cancellable i)
        (\<lambda>r. r\<lparr>r_status := ''failed'', r_last_error := Some reason,
                    r_finished_at := Some (db_now E), r_updated_at := db_now E\<rparr>) s of
        ([], s') \<Rightarrow> (Inl (cancel_update_error i now reason s'), s')
      | (row # _, s') \<Rightarrow> decode_and_cleanup E policy row s') s) s
     (atomically (store_of s) (snapshot (transition i (cancel (db_now E) reason) (store_of s))))"
  proof (rule update_refines [OF assms row_tail_cleanup])
    fix j r j' assume h: "job_ok j" "cancel (db_now E) reason j = (Inr r, j')"
    then have "run_event X (EvCancel (db_now E) reason) j = (True, j')" for X
      by (simp add: succeeded_True)
    from event_result_ok [OF h(1) this] h(2)
    have j': "job_ok j' \<and> j_id j' = j_id j" by simp
    have "lease_empty j" using h by (auto simp: cancel_Inr_iff job_ok_iff split: job_status.splits)
    with j' h(2) show "(bind_job j)\<lparr>r_status := ''failed'', r_last_error := Some reason,
            r_finished_at := Some (db_now E), r_updated_at := db_now E\<rparr> = bind_job j' \<and>
        job_ok j' \<and> j_id j' = j_id j"
      by (simp add: cancel_Inr_iff bind_job_def lease_empty_def)
  qed (auto simp: cancellable_bind cancel_Inr_iff o dest: cancellable_id)
next
  fix e assume "validate_error reason = Inl e"
  then have "trim reason = []" by (simp add: validate_error_def split: if_splits)
  then show "\<exists>e'. atomically (store_of s)
      (snapshot (transition i (cancel (db_now E) reason) (store_of s))) = (Inl e', store_of s)"
    by (intro transition_rejects) (simp add: cancel_def nonempty_error_def)
qed

lemma outcome_refines:
  assumes "pg_ok s"
  shows "pg_refines (autocommit (pg_apply_outcome X E policy out) s) s
    (commit_outcome (retime (db_now E) out) (store_of s))"
  using defer_refines [OF assms] succeed_refines [OF assms] retry_refines [OF assms]
    fail_refines [OF assms] cancel_refines [OF assms]
  unfolding commit_outcome_atomically by (cases out) (simp_all add: autocommit_def)

section \<open>Leases\<close>

text \<open>
  The lease the database grants: the whole milliseconds of the requested duration, added by the
  database's own timestamp arithmetic.
\<close>

definition pg_chrono :: "chrono \<Rightarrow> pg_env \<Rightarrow> chrono" where
  "pg_chrono X E = X\<lparr>checked_add_signed := ts_add E\<rparr>"

definition pg_lease :: "chrono \<Rightarrow> duration \<Rightarrow> duration" where
  "pg_lease X lease_for = (if lease_for \<le> 0 then lease_for else millis (num_milliseconds X lease_for))"

lemma lease_milliseconds_Inr:
  "lease_milliseconds X lf = Inr ms \<longleftrightarrow> 0 < pg_lease X lf \<and> 0 < lf \<and> pg_lease X lf = millis ms"
  by (auto simp: lease_milliseconds_def pg_lease_def millis_def Let_def split: if_splits)

lemma lease_milliseconds_Inl: "lease_milliseconds X lf = Inl e \<Longrightarrow> pg_lease X lf \<le> 0"
  by (auto simp: lease_milliseconds_def pg_lease_def millis_def Let_def split: if_splits)

lemma pg_lease_le: "chrono_ok X \<Longrightarrow> pg_lease X lf \<le> lf"
  by (auto simp: pg_lease_def millis_def dest: chrono_millis_bounds [of X lf])

lemma heartbeat_refines:
  assumes "pg_ok s"
  shows "pg_refines (autocommit (pg_heartbeat X E i owner tok now lf) s) s
    (atomically (store_of s)
       (heartbeat_in_store (pg_chrono X E) i owner tok (db_now E) (pg_lease X lf) (store_of s)))"
  unfolding pg_heartbeat_def [abs_def] heartbeat_in_store_def
proof (intro guard_refines)
  let ?op = "heartbeat (pg_chrono X E) owner tok (db_now E) (pg_lease X lf)"
  fix e assume "pg_validate_owner owner = Inl e"
  then have "trim owner = []" by (simp add: pg_validate_owner_def split: if_splits)
  then show "\<exists>e'. atomically (store_of s) (snapshot (transition i ?op (store_of s))) = (Inl e', store_of s)"
    by (intro transition_rejects) (simp add: heartbeat_def validate_owner_def)
next
  let ?op = "heartbeat (pg_chrono X E) owner tok (db_now E) (pg_lease X lf)"
  let ?err = "fenced_update_error X i owner tok now (FencedHeartbeat lf)"
  fix x assume "pg_validate_owner owner = Inr x"
  then have o: "trim owner \<noteq> []" by (simp add: pg_validate_owner_def split: if_splits)
  show "pg_refines (autocommit (\<lambda>s. case lease_milliseconds X lf of Inl e \<Rightarrow> (Inl e, s) | Inr ms \<Rightarrow>
      if filter (fence E i owner tok) (pg_jobs s) = [] then (Inl (?err s), s)
      else case ts_add E (db_now E) (millis ms) of
             None \<Rightarrow> (Inl pg_out_of_range, s)
           | Some lease_until \<Rightarrow>
             (case update_where (fence E i owner tok)
                     (\<lambda>r. r\<lparr>r_lease_until := Some lease_until, r_heartbeat_at := Some (db_now E),
                            r_updated_at := db_now E\<rparr>) s of
                ([], s') \<Rightarrow> (Inl (?err s'), s')
              | (row # _, s') \<Rightarrow> (decode_job row, s'))) s) s
      (atomically (store_of s) (snapshot (transition i ?op (store_of s))))"
  proof (cases "\<exists>ms u. lease_milliseconds X lf = Inr ms \<and> ts_add E (db_now E) (millis ms) = Some u")
    case False
    then have "\<exists>e j'. ?op j = (Inl e, j')" for j
      by (cases "lease_milliseconds X lf")
        (auto simp: heartbeat_def lease_expiry_def pg_chrono_def lease_milliseconds_Inr
          dest!: lease_milliseconds_Inl split: sum.splits)
    from transition_rejects [OF this] False show ?thesis
      by (auto simp: pg_refines_def autocommit_def split: sum.splits option.splits)
  next
    case True
    then obtain ms u where ms: "lease_milliseconds X lf = Inr ms" "ts_add E (db_now E) (millis ms) = Some u" by blast
    let ?f = "\<lambda>r. r\<lparr>r_lease_until := Some u, r_heartbeat_at := Some (db_now E), r_updated_at := db_now E\<rparr>"
    have eq: "(if filter (fence E i owner tok) (pg_jobs s) = [] then (Inl (?err s), s)
        else case update_where (fence E i owner tok) ?f s of ([], s') \<Rightarrow> (Inl (?err s'), s')
              | (row # _, s') \<Rightarrow> (decode_job row, s')) =
        (case update_where (fence E i owner tok) ?f s of ([], s') \<Rightarrow> (Inl (?err s'), s')
              | (row # _, s') \<Rightarrow> (decode_job row, s'))" for s
      by (auto simp: filter_empty_conv update_where_miss)
    have "pg_refines (autocommit (\<lambda>s. case update_where (fence E i owner tok) ?f s of
        ([], s') \<Rightarrow> (Inl (?err s'), s') | (row # _, s') \<Rightarrow> (decode_job row, s')) s) s
      (atomically (store_of s) (snapshot (transition i ?op (store_of s))))"
    proof (rule update_refines [OF assms row_tail_decode])
      fix j assume "job_ok j" "j_id j = i"
      then show "fence E i owner tok (bind_job j) \<longleftrightarrow> (\<exists>r j'. ?op j = (Inr r, j'))"
        using ms by (auto simp: fence_bind heartbeat_Inr_iff o pg_chrono_def lease_milliseconds_Inr)
    next
      fix j r j' assume h: "job_ok j" "?op j = (Inr r, j')"
      then have "run_event (pg_chrono X E) (EvHeartbeat owner tok (db_now E) (pg_lease X lf)) j = (True, j')"
        by (simp add: succeeded_True)
      from event_result_ok [OF h(1) this] h(2) ms
      show "?f (bind_job j) = bind_job j' \<and> job_ok j' \<and> j_id j' = j_id j"
        by (auto simp: heartbeat_Inr_iff bind_job_def pg_chrono_def lease_milliseconds_Inr)
    qed (rule fence_id)
    then show ?thesis by (simp add: ms eq cong del: if_weak_cong)
  qed
qed

text \<open>The update of the selected row: the domain claim, or a row that does not decode.\<close>

lemma claim_hit:
  assumes "pg_ok s" "map_of (store_of s) (j_id j) = Some j" "claimable (db_now E) allowed j"
    and "trim owner \<noteq> []" "lease_milliseconds X lf = Inr ms" "ts_add E (db_now E) (millis ms) = Some u"
  shows "(\<exists>j' s'. update_where (\<lambda>r. r_id r = j_id j) (claim_set E owner tok u) s = ([bind_job j'], s') \<and>
       decode_job (bind_job j') = Inr j' \<and>
       claim (pg_chrono X E) tok owner (db_now E) (pg_lease X lf) j = (Inr tok, j') \<and>
       store_of s' = AList.update (j_id j) j' (store_of s) \<and> (\<forall>r \<in> set (pg_jobs s'). row_ok r)) \<or>
     (\<exists>row s' e. update_where (\<lambda>r. r_id r = j_id j) (claim_set E owner tok u) s = ([row], s') \<and>
       decode_job row = Inl e)"
proof (cases "checked_add (j_claim_count j) 1")
  case (Some c)
  note row = store_of_row [OF assms(1,2)]
  obtain j' where c': "claim (pg_chrono X E) tok owner (db_now E) (pg_lease X lf) j = (Inr tok, j')"
    and j': "j' = j\<lparr>j_claim_count := c, j_status := Running, j_lease_owner := Some owner,
               j_lease_token := Some tok, j_lease_until := Some u, j_heartbeat_at := Some (db_now E),
               j_started_at := (case j_started_at j of None \<Rightarrow> Some (db_now E) | Some s \<Rightarrow> Some s),
               j_finished_at := None, j_updated_at := db_now E\<rparr>"
    using Some assms(3-) by (simp add: claim_Inr_iff claimable_def pg_chrono_def lease_milliseconds_Inr)
  then have ok: "job_ok j'" "j_id j' = j_id j" using claim_ok [OF row(3) c'] by simp_all
  have "uint c = uint (j_claim_count j) + 1"
    using checked_add_Some_unat [OF Some] unfolding uint_nat by simp
  then have eff: "claim_set E owner tok u (bind_job j) = bind_job j'"
    by (simp add: claim_set_def bind_job_def j' split: option.split)
  note hit = update_where_hit [where cond = "\<lambda>r. r_id r = j_id j" and f = "claim_set E owner tok u",
      OF assms(1,2) _ _ eff ok]
  from hit ok c' show ?thesis
    by (intro disjI1 exI [of _ j'] exI [of _ "snd (update_where (\<lambda>r. r_id r = j_id j) (claim_set E owner tok u) s)"])
      (auto simp: decode_job_iff prod_eq_iff)
next
  case None
  note row = store_of_row [OF assms(1,2)]
  have big: "4294967296 \<le> unat (j_claim_count j) + 1"
    using None by (simp add: checked_add_def split: if_splits)
  have "uint (j_claim_count j) + 1 \<noteq> uint w" for w :: u32
  proof -
    have "uint w < 4294967296" using uint_lt2p [of w] by simp
    with big uint_nat [of "j_claim_count j"] show ?thesis by linarith
  qed
  then have "\<nexists>k. claim_set E owner tok u (bind_job j) = bind_job k"
    by (auto simp: claim_set_def bind_job_def)
  then obtain e where e: "decode_job (claim_set E owner tok u (bind_job j)) = Inl e"
    using decode_job_iff by (cases "decode_job (claim_set E owner tok u (bind_job j))") blast+
  have "filter (\<lambda>r. r_id r = j_id j) (pg_jobs s) = [bind_job j]"
    using filter_key_single [OF pg_ok_distinct [OF assms(1)] row(1)] by simp
  with e show ?thesis by (intro disjI2) (simp add: update_where_def)
qed

lemma min_by_map: "min_by cmp (map f xs) = map_option f (min_by (\<lambda>a b. cmp (f a) (f b)) xs)"
proof (cases xs)
  case (Cons x ys)
  have "foldl (\<lambda>a b. if cmp a b = Greater then b else a) (f x) (map f ys) =
      f (foldl (\<lambda>a b. if cmp (f a) (f b) = Greater then b else a) x ys)" for x
    by (induction ys arbitrary: x) (simp_all add: if_distrib [of f, symmetric])
  with Cons show ?thesis by simp
qed simp

text \<open>The candidate the claim statement selects, in terms of the store.\<close>

lemma claim_candidate_first:
  assumes "pg_ok s" "min_by row_claim_order (filter (claim_candidate E allowed) (pg_jobs s)) = Some c"
  obtains j where "c = bind_job j" "map_of (store_of s) (j_id j) = Some j"
    "claimable (db_now E) allowed j" "j_id j \<notin> set (locked E)"
    "\<And>k. k \<in> snd ` set (store_of s) \<Longrightarrow> claimable (db_now E) allowed k \<Longrightarrow> j_id k \<notin> set (locked E) \<Longrightarrow>
       claim_key_le j k"
proof -
  let ?e = "map (\<lambda>r. ((), row_job r)) (filter (claim_candidate E allowed) (pg_jobs s))"
  have rows: "r = bind_job (row_job r)" if "r \<in> set (pg_jobs s)" for r
    using pg_ok_rows [OF assms(1) that] by simp
  have "filter (claim_candidate E allowed) (pg_jobs s) = map (\<lambda>e. bind_job (snd e)) ?e"
    using rows by (auto intro!: map_idI [symmetric] simp: comp_def)
  moreover have "min_by row_claim_order (map (\<lambda>e. bind_job (snd e)) ?e) =
      map_option (\<lambda>e. bind_job (snd e)) (min_by (\<lambda>a b. claim_order (snd a) (snd b)) ?e)"
    using min_by_map [of row_claim_order "\<lambda>e. bind_job (snd e)" ?e] by (simp only: row_claim_order_bind)
  ultimately have "map_option (\<lambda>e. bind_job (snd e)) (min_by (\<lambda>a b. claim_order (snd a) (snd b)) ?e) = Some c"
    using assms(2) by argo
  then obtain j where j: "min_by (\<lambda>a b. claim_order (snd a) (snd b)) ?e = Some ((), j)" "c = bind_job j"
    by (cases "min_by (\<lambda>a b. claim_order (snd a) (snd b)) ?e") auto
  note best = co.min_by_Some [OF j(1)]
  from best(1) obtain r where r: "r \<in> set (pg_jobs s)" "claim_candidate E allowed r" "j = row_job r" by auto
  note rr = pg_ok_rows [OF assms(1) r(1)]
  have id: "r_id r = j_id j" using rr r(3) by (metis bind_job_sel(1))
  have cand: "claim_candidate E allowed (bind_job j)" using rr r by simp
  show thesis
  proof (rule that)
    show "map_of (store_of s) (j_id j) = Some j" using row_in_store [OF assms(1) r(1)] id r(3) by simp
    show "claimable (db_now E) allowed j" "j_id j \<notin> set (locked E)"
      using cand by (simp_all add: claim_candidate_bind)
    fix k assume k: "k \<in> snd ` set (store_of s)" "claimable (db_now E) allowed k" "j_id k \<notin> set (locked E)"
    then obtain rk where rk: "rk \<in> set (pg_jobs s)" "k = row_job rk" by (auto simp: store_of_def)
    with k pg_ok_rows [OF assms(1) rk(1)] have "claim_candidate E allowed rk"
      by (metis claim_candidate_bind)
    with rk have "((), k) \<in> set ?e" by auto
    from best(2) [OF this] show "claim_key_le j k" by (simp add: claim_order_Greater)
  qed (rule j(2))
qed

lemma claim_next_refines:
  assumes "pg_ok s"
  shows "case autocommit (pg_claim_next X E tok owner lf allowed) s of
     (Inl e, s') \<Rightarrow> s' = s
   | (Inr None, s') \<Rightarrow> s' = s \<and> (\<forall>k \<in> snd ` set (store_of s). claimable (db_now E) allowed k \<longrightarrow> j_id k \<in> set (locked E))
   | (Inr (Some lease), s') \<Rightarrow>
       (\<exists>j. map_of (store_of s) (j_id j) = Some j \<and> claimable (db_now E) allowed j \<and>
          j_id j \<notin> set (locked E) \<and>
          (\<forall>k \<in> snd ` set (store_of s). claimable (db_now E) allowed k \<longrightarrow> j_id k \<notin> set (locked E) \<longrightarrow>
             claim_key_le j k) \<and>
          claim (pg_chrono X E) tok owner (db_now E) (pg_lease X lf) j = (Inr (l_token lease), l_job lease) \<and>
          store_of s' = AList.update (j_id j) (l_job lease) (store_of s) \<and>
          (\<forall>r \<in> set (pg_jobs s'). row_ok r))"
proof (cases "pg_validate_owner owner")
  case (Inl e)
  then show ?thesis by (simp add: autocommit_def pg_claim_next_def)
next
  case owner: (Inr u)
  then have o: "trim owner \<noteq> []" by (simp add: pg_validate_owner_def split: if_splits)
  show ?thesis
  proof (cases "lease_milliseconds X lf")
    case (Inl e)
    with owner show ?thesis by (simp add: autocommit_def pg_claim_next_def)
  next
    case ms: (Inr ms)
    show ?thesis
    proof (cases "min_by row_claim_order (filter (claim_candidate E allowed) (pg_jobs s))")
      case None
      then have "filter (claim_candidate E allowed) (pg_jobs s) = []"
        by (cases "filter (claim_candidate E allowed) (pg_jobs s)") simp_all
      then have "j_id k \<in> set (locked E)" if "k \<in> snd ` set (store_of s)" "claimable (db_now E) allowed k" for k
        using that pg_ok_rows [OF assms]
        by (auto simp: filter_empty_conv store_of_def) (metis claim_candidate_bind)
      with owner ms None show ?thesis by (simp add: autocommit_def pg_claim_next_def)
    next
      case c: (Some c)
      from claim_candidate_first [OF assms c] obtain j where j: "c = bind_job j"
        "map_of (store_of s) (j_id j) = Some j" "claimable (db_now E) allowed j" "j_id j \<notin> set (locked E)"
        and first: "\<And>k. k \<in> snd ` set (store_of s) \<Longrightarrow> claimable (db_now E) allowed k \<Longrightarrow>
          j_id k \<notin> set (locked E) \<Longrightarrow> claim_key_le j k" by metis
      show ?thesis
      proof (cases "ts_add E (db_now E) (millis ms)")
        case None
        with owner ms c show ?thesis by (simp add: autocommit_def pg_claim_next_def)
      next
        case u: (Some u)
        from claim_hit [OF assms j(2,3) o ms u, of tok] show ?thesis
        proof (elim disjE exE conjE)
          fix j' s'
          assume "update_where (\<lambda>r. r_id r = j_id j) (claim_set E owner tok u) s = ([bind_job j'], s')"
            "decode_job (bind_job j') = Inr j'"
            "claim (pg_chrono X E) tok owner (db_now E) (pg_lease X lf) j = (Inr tok, j')"
            "store_of s' = AList.update (j_id j) j' (store_of s)" "\<forall>r \<in> set (pg_jobs s'). row_ok r"
          with owner ms c j u show ?thesis
            by (simp add: autocommit_def pg_claim_next_def) (intro exI [of _ j], simp add: first)
        qed (use owner ms c j u in \<open>simp add: autocommit_def pg_claim_next_def\<close>)
      qed
    qed
  qed
qed

section \<open>Recovery\<close>

lemma expired_rows_expired:
  assumes "pg_ok s" "i \<in> r_id ` set (expired_rows E limit s)"
  shows "\<exists>j. map_of (store_of s) i = Some j \<and> lease_expired (db_now E) j"
proof -
  from assms(2) obtain r where r: "r \<in> set (pg_jobs s)" "i = r_id r" "r_status r = ''running''"
    "\<exists>u \<in> set_option (r_lease_until r). u \<le> db_now E"
    by (auto simp: expired_rows_def dest!: in_set_takeD)
  note rr = pg_ok_rows [OF assms(1) r(1)]
  have "r_status r = status_name (j_status (row_job r))" "r_lease_until r = j_lease_until (row_job r)"
    using rr by (metis bind_job_sel(2), metis bind_job_sel(8))
  with r have "lease_expired (db_now E) (row_job r)"
    by (auto simp: lease_expired_def status_name_running)
  with row_in_store [OF assms(1) r(1)] r(2) show ?thesis by blast
qed

lemma expired_rows_distinct:
  assumes "pg_ok s"
  shows "distinct (map r_id (expired_rows E limit s))"
proof -
  let ?e = "filter (\<lambda>r. r_status r = ''running'' \<and>
           (\<exists>u \<in> set_option (r_lease_until r). u \<le> db_now E) \<and> r_id r \<notin> set (locked E)) (pg_jobs s)"
  have "distinct (map r_id ?e)"
    using pg_ok_distinct [OF assms] by (rule distinct_map_filter)
  moreover have "mset (map r_id (sort_key r_lease_until (sort_key r_id ?e))) = mset (map r_id ?e)"
    by (simp only: mset_map mset_sort)
  ultimately have "distinct (map r_id (sort_key r_lease_until (sort_key r_id ?e)))"
    using mset_eq_imp_distinct_iff by blast
  then show ?thesis
    unfolding expired_rows_def by (simp only: take_map [symmetric] distinct_take)
qed

lemma recovered_row:
  assumes "job_ok j" "lease_expired (db_now E) j"
  shows "retry_set E (db_now E) (lit ''worker lease expired'') ''queued'' (bind_job j) =
      bind_job (snd (recover_expired_lease (db_now E) j))"
    and "job_ok (snd (recover_expired_lease (db_now E) j))"
proof -
  have run: "j_status j = Running" using assms(2) by (simp add: lease_expired_def)
  obtain j' where j': "recover_expired_lease (db_now E) j = (True, j')"
    using assms(2) by (auto simp: recover_expired_lease_def lease_expired_def Let_def split: option.splits)
  show "retry_set E (db_now E) (lit ''worker lease expired'') ''queued'' (bind_job j) =
      bind_job (snd (recover_expired_lease (db_now E) j))"
    unfolding retry_set_bind(2) [OF assms(1) run] j'
    using recover_expired_lease_True(3) [OF assms(1) j'] by simp
  show "job_ok (snd (recover_expired_lease (db_now E) j))"
    using run_event_ok [OF assms(1), of undefined "EvRecover (db_now E)"] by simp
qed

lemma decode_all_bind: "\<forall>j \<in> set js. job_ok j \<Longrightarrow> decode_all (map bind_job js) = Inr js"
proof (induction js)
  case (Cons j js)
  then have "decode_job (bind_job j) = Inr j" by (simp add: decode_job_iff)
  with Cons show ?case by simp
qed simp

lemma cleanup_all_cases:
  "(\<exists>s'. cleanup_all E policy js s = (Inr (), s') \<and> pg_jobs s' = pg_jobs s) \<or>
   (\<exists>s'. cleanup_all E policy js s = (Inl pg_out_of_range, s'))"
proof (induction js arbitrary: s)
  case (Cons j js)
  show ?case
  proof (cases rule: cleanup_cases [of E policy j s])
    case (1 s')
    with Cons.IH [of s'] show ?thesis by auto
  qed auto
qed simp

lemma recover_update:
  assumes "pg_ok s" and ids: "ids = r_id ` set (expired_rows E limit s)"
  defines "rec \<equiv> \<lambda>j. snd (recover_expired_lease (db_now E) j)"
  shows "\<exists>s'. update_where (\<lambda>r. r_id r \<in> ids)
       (retry_set E (db_now E) (lit ''worker lease expired'') ''queued'') s =
         (map bind_job (map (\<lambda>e. rec (snd e)) (filter (\<lambda>e. fst e \<in> ids) (store_of s))), s') \<and>
     (\<forall>e \<in> set (store_of s). fst e \<in> ids \<longrightarrow> job_ok (rec (snd e))) \<and>
     store_of s' = map (\<lambda>e. (fst e, if fst e \<in> ids then rec (snd e) else snd e)) (store_of s) \<and>
     (\<forall>r \<in> set (pg_jobs s'). row_ok r)"
proof -
  let ?f = "retry_set E (db_now E) (lit ''worker lease expired'') ''queued''"
  have hit: "?f r = bind_job (rec (row_job r)) \<and> job_ok (rec (row_job r)) \<and> j_id (rec (row_job r)) = r_id r"
    if "r \<in> set (pg_jobs s)" "r_id r \<in> ids" for r
  proof -
    note rr = pg_ok_rows [OF assms(1) that(1)]
    have "lease_expired (db_now E) (row_job r)"
      using expired_rows_expired [OF assms(1), of "r_id r"] that row_in_store [OF assms(1) that(1)] ids by auto
    from recovered_row [of "row_job r" E, OF _ this] rr show ?thesis
      unfolding rec_def by (metis bind_job_sel(1) recovered_id)
  qed
  have rows: "map ?f (filter (\<lambda>r. r_id r \<in> ids) (pg_jobs s)) =
      map bind_job (map (\<lambda>e. rec (snd e)) (filter (\<lambda>e. fst e \<in> ids) (store_of s)))"
    using hit by (simp add: store_of_def filter_map comp_def)
  let ?s = "s\<lparr>pg_jobs := map (\<lambda>r. if r_id r \<in> ids then ?f r else r) (pg_jobs s)\<rparr>"
  have st: "store_of ?s = map (\<lambda>e. (fst e, if fst e \<in> ids then rec (snd e) else snd e)) (store_of s)"
    using hit by (auto simp: store_of_def)
  have ok: "\<forall>r \<in> set (pg_jobs ?s). row_ok r"
    using hit pg_ok_rows [OF assms(1)] by (auto simp: row_ok_iff)
  have "\<forall>e \<in> set (store_of s). fst e \<in> ids \<longrightarrow> job_ok (rec (snd e))"
    using hit by (auto simp: store_of_def)
  with rows st ok show ?thesis by (auto simp: update_where_def)
qed

lemma store_ok_cong:
  assumes "store_ok s" "map_of t = map_of s" "distinct (map fst t)"
  shows "store_ok t"
  using assms(3) store_ok_map_of [OF assms(1)] store_ok_unique [OF assms(1)]
  by (intro store_okI) (auto simp: assms(2))

lemma recover_expired_refines:
  assumes "pg_ok s"
  shows "case autocommit (pg_recover_expired E policy limit) s of
     (Inl e, s') \<Rightarrow> s' = s
   | (Inr js, s') \<Rightarrow>
       (let ids = r_id ` set (expired_rows E limit s) in
          set (map j_id js) = ids \<and>
          (\<forall>i. map_of (store_of s') i =
             (if i \<in> ids then Some (snd (recover_expired_lease (db_now E) (the (map_of (store_of s) i))))
              else map_of (store_of s) i))) \<and>
       (\<forall>j \<in> set js. map_of (store_of s') (j_id j) = Some j) \<and>
       pg_ok s' \<and> store_evolves (store_of s) (store_of s')"
proof (cases "limit = 0 \<or> i64_try_from limit = None")
  case True
  with assms show ?thesis
    by (auto simp: autocommit_def pg_recover_expired_def expired_rows_def store_evolves_refl)
next
  case False
  let ?ids = "map r_id (expired_rows E limit s)"
  let ?rec = "\<lambda>j. snd (recover_expired_lease (db_now E) j)"
  let ?js = "map (\<lambda>e. ?rec (snd e)) (filter (\<lambda>e. fst e \<in> set ?ids) (store_of s))"
  from recover_update [OF assms, of "set ?ids" E limit] obtain s1 where
    u: "update_where (\<lambda>r. r_id r \<in> set ?ids)
       (retry_set E (db_now E) (lit ''worker lease expired'') ''queued'') s = (map bind_job ?js, s1)"
    and ok: "\<forall>e \<in> set (store_of s). fst e \<in> set ?ids \<longrightarrow> job_ok (?rec (snd e))"
    and st: "store_of s1 = map (\<lambda>e. (fst e, if fst e \<in> set ?ids then ?rec (snd e) else snd e)) (store_of s)"
    and rows: "\<forall>r \<in> set (pg_jobs s1). row_ok r" by auto
  have dec: "decode_all (map bind_job ?js) = Inr ?js" using ok by (intro decode_all_bind) auto
  have sok: "store_ok (store_of s)" using assms by (simp add: pg_ok_def)
  have ex: "\<forall>i \<in> set ?ids. \<exists>j. map_of (store_of s) i = Some j \<and> lease_expired (db_now E) j"
    using expired_rows_expired [OF assms] by simp
  have m: "map_of (store_of s1) i = (if i \<in> set ?ids then Some (?rec (the (map_of (store_of s) i)))
      else map_of (store_of s) i)" for i
    unfolding st using ex map_of_map_keyed [of "\<lambda>k v. if k \<in> set ?ids then ?rec v else v" "store_of s" i]
    by (cases "map_of (store_of s) i") auto
  note each = recover_each_exact [OF expired_rows_distinct [OF assms] ex]
  have same: "map_of (store_of s1) = map_of (snd (recover_each (db_now E) ?ids (store_of s)))"
    using each m by auto
  have "distinct (map fst (store_of s1))" using store_ok_distinct [OF sok] by (simp add: st comp_def)
  from store_ok_cong [OF _ same this] recover_each_step [OF sok, of "db_now E" ?ids]
  have evolves: "store_ok (store_of s1) \<and> store_evolves (store_of s) (store_of s1)"
    by (simp add: store_evolves_def same)
  have id: "map_of (store_of s) (fst e) = Some (snd e) \<and> j_id (?rec (snd e)) = fst e"
    if "e \<in> set (store_of s)" for e
    using that store_ok_distinct [OF sok] store_ok_map_of(1) [OF sok, of "fst e" "snd e"]
    by (simp add: recovered_id)
  have js: "set (map j_id ?js) = set ?ids"
  proof
    show "set (map j_id ?js) \<subseteq> set ?ids" using id by auto
    show "set ?ids \<subseteq> set (map j_id ?js)"
    proof
      fix i assume i: "i \<in> set ?ids"
      with ex obtain j where "map_of (store_of s) i = Some j" by blast
      from map_of_SomeD [OF this] id [of "(i, j)"] i show "i \<in> set (map j_id ?js)" by force
    qed
  qed
  have stored: "\<forall>j \<in> set ?js. map_of (store_of s1) (j_id j) = Some j"
    using id m by auto
  from cleanup_all_cases [of E policy ?js s1] show ?thesis
  proof (elim disjE exE conjE)
    fix s2 assume c: "cleanup_all E policy ?js s1 = (Inr (), s2)" "pg_jobs s2 = pg_jobs s1"
    then have res: "autocommit (pg_recover_expired E policy limit) s = (Inr ?js, s2)"
      using False u dec by (simp add: autocommit_def pg_recover_expired_def Let_def)
    note same_store = store_of_cong [OF c(2)]
    have "pg_ok s2" using evolves rows by (simp add: pg_ok_def same_store c(2))
    then show ?thesis
      unfolding res prod.case sum.case Let_def same_store set_map [symmetric]
      using js stored evolves m by (intro conjI allI) (assumption | simp only: m)+
  next
    fix s2 assume c: "cleanup_all E policy ?js s1 = (Inl pg_out_of_range, s2)"
    then show ?thesis using False u dec by (simp add: autocommit_def pg_recover_expired_def Let_def)
  qed
qed

section \<open>Enqueue\<close>

definition at_db_time :: "pg_env \<Rightarrow> bool \<Rightarrow> new_job \<Rightarrow> new_job" where
  "at_db_time E use_database_time spec =
     (if use_database_time then spec\<lparr>nj_run_after := db_now E, nj_now := db_now E\<rparr> else spec)"

lemma active_conflict_bind:
  "active_conflict key (bind_job j) \<longleftrightarrow> is_active (j_status j) \<and> j_dedupe_key j = key"
  by (auto simp: active_conflict_def status_name_active)

lemma new_at_db_time:
  assumes "new uid spec = Inr j"
  shows "new uid (at_db_time E b spec) =
      Inr (if b then j\<lparr>j_run_after := db_now E, j_created_at := db_now E, j_updated_at := db_now E\<rparr> else j)"
  using assms by (auto simp: new_def at_db_time_def split: if_splits)

lemma enqueue_insert:
  assumes "new uid spec = Inr j"
    "(if b then (bind_job j)\<lparr>r_run_after := db_now E, r_created_at := db_now E, r_updated_at := db_now E\<rparr>
      else bind_job j) = row"
    "\<not> (\<exists>r \<in> set (pg_jobs s). active_conflict (j_dedupe_key j) r)"
    "\<not> (\<exists>r \<in> set (pg_jobs s). r_id r = r_id row)" "decode_job row = Inr j'"
  shows "enqueue_internal E uid spec b s = (Inr (Inserted j'), s\<lparr>pg_jobs := pg_jobs s @ [row]\<rparr>)"
  unfolding enqueue_internal_def assms(1) sum.case Let_def assms(2)
  using assms(3-) by simp

lemma enqueue_refines:
  assumes "pg_ok s" "new uid spec = Inr j" "uid \<notin> fst ` set (store_of s)"
  shows "pg_refines (autocommit (enqueue_internal E uid spec b) s) s
      (enqueue_in_store uid (at_db_time E b spec) (store_of s))"
proof -
  let ?j = "if b then j\<lparr>j_run_after := db_now E, j_created_at := db_now E, j_updated_at := db_now E\<rparr> else j"
  let ?row = "if b then (bind_job j)\<lparr>r_run_after := db_now E, r_created_at := db_now E, r_updated_at := db_now E\<rparr>
      else bind_job j"
  let ?holds = "\<lambda>k. is_active (j_status k) \<and> j_dedupe_key k = nj_dedupe_key spec"
  have new': "new uid (at_db_time E b spec) = Inr ?j" by (rule new_at_db_time [OF assms(2)])
  have key: "nj_dedupe_key (at_db_time E b spec) = nj_dedupe_key spec" by (simp add: at_db_time_def)
  have j: "j_dedupe_key j = nj_dedupe_key spec" "j_id j = uid" "j_id ?j = uid"
    using assms(2) by (auto simp: new_def split: if_splits)
  have row: "?row = bind_job ?j" by (simp add: bind_job_def)
  have conflict: "active_conflict (nj_dedupe_key spec) r \<longleftrightarrow> ?holds (row_job r)" if "r \<in> set (pg_jobs s)" for r
    using pg_ok_rows [OF assms(1) that] active_conflict_bind by metis
  have sok: "store_ok (store_of s)" using assms(1) by (simp add: pg_ok_def)
  show ?thesis
  proof (cases "\<exists>r \<in> set (pg_jobs s). active_conflict (nj_dedupe_key spec) r")
    case True
    let ?c = "sort_key r_created_at (filter (active_conflict (nj_dedupe_key spec)) (pg_jobs s))"
    obtain r rs where c: "?c = r # rs"
    proof (cases ?c)
      case Nil
      then have "set ?c = {}" by simp
      with True show ?thesis by (auto simp: filter_empty_conv)
    qed
    have "r \<in> set ?c" by (simp add: c)
    then have r: "r \<in> set (pg_jobs s)" "?holds (row_job r)" using conflict by auto
    have "find ?holds (map snd (store_of s)) \<noteq> None"
      using r by (auto simp: find_None_iff store_of_def)
    then obtain k where k: "find ?holds (map snd (store_of s)) = Some k" by blast
    from find_SomeD [OF k] have "k \<in> snd ` set (store_of s)" "?holds k" by auto
    then obtain rk where rk: "rk \<in> set (pg_jobs s)" "k = row_job rk" by (auto simp: store_of_def)
    have "r_id r = r_id rk"
      using store_ok_unique [OF sok row_in_store [OF assms(1) r(1)] row_in_store [OF assms(1) rk(1)]]
        r(2) \<open>?holds k\<close> rk(2) by simp
    moreover have "j_id k = r_id rk" using store_of_row(2) [OF assms(1) row_in_store [OF assms(1) rk(1)]] rk(2) by simp
    ultimately have "enqueue_in_store uid (at_db_time E b spec) (store_of s) = (Inr (AlreadyActive (r_id r)), store_of s)"
      using k by (simp add: enqueue_in_store_def key)
    moreover have "enqueue_internal E uid spec b s = (Inr (AlreadyActive (r_id r)), s)"
      using assms(2) True c j(1) by (simp add: enqueue_internal_def Let_def)
    ultimately show ?thesis using assms(1) by (simp add: pg_refines_def autocommit_def pg_ok_def)
  next
    case False
    have "find ?holds (map snd (store_of s)) = None"
      using False conflict by (auto simp: find_None_iff store_of_def)
    then have mem: "enqueue_in_store uid (at_db_time E b spec) (store_of s) =
        (Inr (Inserted ?j), store_of s @ [(uid, ?j)])"
      using assms(3) new' j(3) by (simp add: enqueue_in_store_def key alist_update_append)
    have ok: "job_ok ?j" by (rule new_ok [OF new'])
    have unused: "\<not> (\<exists>r \<in> set (pg_jobs s). r_id r = uid)"
      using assms(3) by (force simp: store_of_def image_iff)
    have "enqueue_internal E uid spec b s = (Inr (Inserted ?j), s\<lparr>pg_jobs := pg_jobs s @ [bind_job ?j]\<rparr>)"
      using False unused j by (intro enqueue_insert [OF assms(2) row]) (simp_all add: decode_job_iff ok del: if_split)
    moreover have "store_of (s\<lparr>pg_jobs := pg_jobs s @ [bind_job ?j]\<rparr>) = store_of s @ [(uid, ?j)]"
      using ok j(3) by (simp add: store_of_def del: if_split)
    moreover have "\<forall>r \<in> set (pg_jobs (s\<lparr>pg_jobs := pg_jobs s @ [bind_job ?j]\<rparr>)). row_ok r"
      using assms(1) ok by (auto simp: pg_ok_def row_ok_iff)
    ultimately show ?thesis by (simp add: pg_refines_def autocommit_def mem)
  qed
qed

lemma enqueue_used_id:
  assumes "pg_ok s" "uid \<in> fst ` set (store_of s)"
  shows "snd (autocommit (enqueue_internal E uid spec b) s) = s"
proof (cases "new uid spec")
  case (Inr j)
  then have "j_id j = uid" by (auto simp: new_def split: if_splits)
  with assms(2) have "\<exists>r \<in> set (pg_jobs s). r_id r = j_id j" by (auto simp: store_of_def)
  with Inr show ?thesis
    by (auto simp: autocommit_def enqueue_internal_def Let_def split: list.splits)
qed (simp add: autocommit_def enqueue_internal_def)

section \<open>The PostgreSQL repository keeps the promise\<close>

lemma refines_step:
  assumes "pg_refines res s mem" "pg_ok s" "store_ok (snd mem) \<and> store_evolves (store_of s) (snd mem)"
  shows "pg_ok (snd res) \<and> store_evolves (store_of s) (store_of (snd res))"
  using assms by (cases res; cases "fst res") (auto simp: pg_refines_def pg_ok_def store_evolves_refl)

lemma atomically_step:
  assumes "store_ok s" "store_ok (snd r) \<and> store_evolves s (snd r)"
  shows "store_ok (snd (atomically s r)) \<and> store_evolves s (snd (atomically s r))"
  using assms by (simp add: atomically_def store_evolves_refl split: sum.splits)

lemma claim_next_pg_step:
  assumes "pg_ok s"
  shows "pg_ok (snd (autocommit (pg_claim_next X E tok owner lf allowed) s)) \<and>
    store_evolves (store_of s) (store_of (snd (autocommit (pg_claim_next X E tok owner lf allowed) s)))"
proof -
  obtain r s' where res: "autocommit (pg_claim_next X E tok owner lf allowed) s = (r, s')"
    by (cases "autocommit (pg_claim_next X E tok owner lf allowed) s")
  have sok: "store_ok (store_of s)" using assms by (simp add: pg_ok_def)
  show ?thesis
  proof (cases "\<exists>lease. r = Inr (Some lease)")
    case True
    then obtain lease where r: "r = Inr (Some lease)" by blast
    with claim_next_refines [where X = X and E = E and tok = tok and owner = owner and lf = lf and allowed = allowed, OF assms] res obtain j where
      j: "map_of (store_of s) (j_id j) = Some j"
      "claim (pg_chrono X E) tok owner (db_now E) (pg_lease X lf) j = (Inr (l_token lease), l_job lease)"
      "store_of s' = AList.update (j_id j) (l_job lease) (store_of s)" "\<forall>r \<in> set (pg_jobs s'). row_ok r"
      by auto
    from j(2) have "l_job lease = snd (run_event (pg_chrono X E) (EvClaim tok owner (db_now E) (pg_lease X lf)) j)"
      by (simp add: succeeded_def)
    with event_step [OF sok j(1), of "pg_chrono X E" "EvClaim tok owner (db_now E) (pg_lease X lf)"] j(3,4)
    show ?thesis by (simp add: res pg_ok_def)
  next
    case False
    then have "s' = s"
      using claim_next_refines [where X = X and E = E and tok = tok and owner = owner and lf = lf and allowed = allowed, OF assms] res
      by (auto split: sum.splits option.splits)
    with assms show ?thesis by (simp add: res store_evolves_refl)
  qed
qed

lemma enqueue_pg_step:
  assumes "pg_ok s"
  shows "pg_ok (snd (autocommit (enqueue_internal E uid spec b) s)) \<and>
    store_evolves (store_of s) (store_of (snd (autocommit (enqueue_internal E uid spec b) s)))"
proof (cases "uid \<in> fst ` set (store_of s)")
  case True
  then show ?thesis using enqueue_used_id [OF assms True] assms by (simp add: store_evolves_refl)
next
  case False
  show ?thesis
  proof (cases "new uid spec")
    case (Inl e)
    then show ?thesis using assms by (simp add: autocommit_def enqueue_internal_def store_evolves_refl)
  next
    case (Inr j)
    have "store_ok (store_of s)" using assms by (simp add: pg_ok_def)
    from refines_step [OF enqueue_refines [OF assms Inr False] assms enqueue_step [OF this False]]
    show ?thesis .
  qed
qed

lemma pg_op_step:
  assumes "pg_ok s"
  shows "pg_ok (run_pg_op X policy eop s) \<and> store_evolves (store_of s) (store_of (run_pg_op X policy eop s))"
proof -
  obtain E op where eop: "eop = (E, op)" by (cases eop)
  have sok: "store_ok (store_of s)" using assms by (simp add: pg_ok_def)
  show ?thesis
  proof (cases op)
    case (OpEnqueue uid spec)
    with eop enqueue_pg_step [OF assms] show ?thesis by simp
  next
    case (OpClaimNext tok owner now lf allowed)
    with eop claim_next_pg_step [OF assms] show ?thesis by simp
  next
    case (OpHeartbeat i owner tok now lf)
    have "store_ok (snd (heartbeat_in_store (pg_chrono X E) i owner tok (db_now E) (pg_lease X lf) (store_of s))) \<and>
        store_evolves (store_of s) (snd (heartbeat_in_store (pg_chrono X E) i owner tok (db_now E) (pg_lease X lf) (store_of s)))"
      using store_op_step [OF sok, of "OpHeartbeat i owner tok (db_now E) (pg_lease X lf)" "pg_chrono X E"] by simp
    from refines_step [OF heartbeat_refines [OF assms] assms atomically_step [OF sok this]]
    show ?thesis by (simp add: eop OpHeartbeat)
  next
    case (OpOutcome out)
    have "store_ok (snd (commit_outcome (retime (db_now E) out) (store_of s))) \<and>
        store_evolves (store_of s) (snd (commit_outcome (retime (db_now E) out) (store_of s)))"
      using store_op_step [OF sok, of "OpOutcome (retime (db_now E) out)" undefined] by simp
    from refines_step [OF outcome_refines [OF assms] assms this] show ?thesis by (simp add: eop OpOutcome)
  next
    case (OpRecover now limit)
    then show ?thesis
      using recover_expired_refines [where E = E and policy = policy and limit = limit, OF assms] assms eop
      by (auto simp: store_evolves_refl split: prod.splits sum.splits)
  qed
qed

interpretation pq: job_queue "\<lambda>s. map_of (store_of s)" pg_ok "\<lambda>_ _. True" "run_pg_op X policy"
  for X policy
proof (unfold_locales, goal_cases)
  case (1 s op)
  then show ?case using pg_op_step by blast
next
  case (2 s i j)
  then show ?case using store_of_row by blast
next
  case (3 s a ja b jb)
  then have "store_ok (store_of s)" by (simp add: pg_ok_def)
  from store_ok_unique [OF this 3(2-)] show ?case .
next
  case (4 s op i j)
  then show ?case using pg_op_step [OF 4(1), of X policy op] by (auto simp: store_evolves_def)
qed

lemma legal_run_always: "legal_run (\<lambda>_ _. True) step ops s"
  by (induction ops arbitrary: s) simp_all


section \<open>Properties\<close>

definition example_pg :: pg where
  "example_pg = \<lparr>pg_jobs = [bind_job example_job], pg_repair_jobs = [], pg_refresh_states = [],
     pg_entries = [], pg_lineage = []\<rparr>"

definition example_env :: "datetime \<Rightarrow> pg_env" where
  "example_env t = \<lparr>db_now = t, cleanup_now = (\<lambda>_. (t, t)), ts_add = (\<lambda>t d. Some (t + d)), locked = []\<rparr>"

definition example_policy :: refresh_policy where
  "example_policy = \<lparr>rp_max_attempts = 3, rp_cooldown_secs = 3600\<rparr>"

lemma example_pg_ok: "pg_ok example_pg"
proof -
  have "store_ok [(77, example_job)]"
    using example_job_ok by (simp add: store_ok_def unique_active_def example_job_eq)
  moreover have "store_of example_pg = [(77, example_job)]"
    using example_job_ok by (simp add: store_of_def example_pg_def) (simp add: example_job_eq)
  ultimately show ?thesis
    using example_job_ok by (auto simp: pg_ok_def example_pg_def row_ok_iff)
qed

text \<open>
  (C7) The row format. A row decodes to a job exactly when the job satisfies the persisted-state
  invariant and the row is what the repository writes for it: nothing valid is rejected, nothing
  else is accepted, and reading back what was written gives the same job.
\<close>

theorem row_decoding_exact: "decode_job r = Inr j \<longleftrightarrow> job_ok j \<and> r = bind_job j"
  by (rule decode_job_iff)

text \<open>
  (C4) The PostgreSQL outcomes implement the domain transitions. A deferral, completion, retry,
  failure or cancellation that succeeds returns and stores exactly what the domain operation gives
  at the database's time; one that fails leaves every table as it was, and the domain operation
  fails too, unless a timestamp left the database's range.
\<close>

theorem pg_outcomes_refine_domain:
  assumes "pg_ok s"
  shows "case autocommit (pg_apply_outcome X E policy out) s of
      (Inr j, s') \<Rightarrow> commit_outcome (retime (db_now E) out) (store_of s) = (Inr j, store_of s') \<and> pg_ok s'
    | (Inl e, s') \<Rightarrow> s' = s \<and>
        (e = pg_out_of_range \<or>
         (\<exists>e'. commit_outcome (retime (db_now E) out) (store_of s) = (Inl e', store_of s)))"
  using outcome_refines [OF assms, of X E policy out] pg_op_step [OF assms, of X policy "(E, OpOutcome out)"]
  by (auto simp: pg_refines_def split: prod.splits sum.splits)

theorem pg_outcomes_refine_domain_witness:
  "\<exists>j s'. autocommit (pg_apply_outcome chrono_ref (example_env 5) example_policy
       (OutCancelled 77 9 example_worker)) example_pg = (Inr j, s') \<and>
     commit_outcome (OutCancelled 77 5 example_worker) (store_of example_pg) = (Inr j, store_of s')"
proof -
  let ?j = "snd (cancel 5 example_worker example_job)"
  have c: "cancellable 77 (bind_job example_job)"
    unfolding cancellable_bind [OF example_job_ok] by (simp add: example_job_eq)
  have r: "cancel 5 example_worker example_job = (Inr (), ?j)" by (simp add: example_job_eq job_eval)
  have b: "(bind_job example_job)\<lparr>r_status := ''failed'', r_last_error := Some example_worker,
      r_finished_at := Some 5, r_updated_at := 5\<rparr> = bind_job ?j"
    by (simp add: bind_job_def example_job_eq job_eval)
  have d: "decode_job (bind_job ?j) = Inr ?j"
    using cancel_ok [OF example_job_ok r] by (simp add: decode_job_iff)
  have ty: "j_type ?j = FeedRebuild" "validate_error example_worker = Inr ()"
    by (simp_all add: example_job_eq job_eval validate_error_def)
  have "fst (autocommit (pg_apply_outcome chrono_ref (example_env 5) example_policy
       (OutCancelled 77 9 example_worker)) example_pg) = Inr ?j"
    by (simp add: autocommit_def pg_cancel_def ty update_where_def example_pg_def c b d
        decode_and_cleanup_def cleanup_terminal_refresh_def example_env_def)
  then show ?thesis
    using pg_outcomes_refine_domain [where X = chrono_ref and E = "example_env 5" and policy = example_policy
        and out = "OutCancelled 77 9 example_worker", OF example_pg_ok]
    by (auto simp: example_env_def split: prod.splits sum.splits)
qed

text \<open>
  (C6) Claiming through PostgreSQL. A returned lease is for the first row in queue order among
  the due, allowed, unlocked rows with budget left; the job is the domain claim at the database's
  time, its lease runs for at most the requested duration, and no other row changes. No row is
  returned only when every claimable row is locked by another transaction, and an error changes
  nothing.
\<close>

theorem pg_claim_takes_first_unlocked:
  assumes "pg_ok s" "chrono_ok X" "pg_env_ok E"
  shows "case autocommit (pg_claim_next X E tok owner lease_for allowed) s of
     (Inl e, s') \<Rightarrow> s' = s
   | (Inr None, s') \<Rightarrow> s' = s \<and>
       (\<forall>k \<in> snd ` set (store_of s). claimable (db_now E) allowed k \<longrightarrow> j_id k \<in> set (locked E))
   | (Inr (Some lease), s') \<Rightarrow>
       (\<exists>j u. map_of (store_of s) (j_id j) = Some j \<and> claimable (db_now E) allowed j \<and>
          j_id j \<notin> set (locked E) \<and>
          (\<forall>k \<in> snd ` set (store_of s). claimable (db_now E) allowed k \<longrightarrow> j_id k \<notin> set (locked E) \<longrightarrow>
             claim_key_le j k) \<and>
          store_of s' = AList.update (j_id j) (l_job lease) (store_of s) \<and>
          l_token lease = tok \<and> live_owner owner tok (db_now E) (l_job lease) \<and>
          j_lease_until (l_job lease) = Some u \<and> u \<le> db_now E + lease_for)"
proof -
  have lease: "live_owner owner tok (db_now E) j' \<and> t = tok \<and>
      (\<exists>u. j_lease_until j' = Some u \<and> u \<le> db_now E + lease_for)"
    if c: "claim (pg_chrono X E) tok owner (db_now E) (pg_lease X lease_for) j = (Inr t, j')" for j j' t
  proof -
    from c obtain u where u: "ts_add E (db_now E) (pg_lease X lease_for) = Some u" "0 < pg_lease X lease_for"
      "j_status j' = Running" "j_lease_owner j' = Some owner" "j_lease_token j' = Some tok"
      "j_lease_until j' = Some u" "t = tok"
      by (auto simp: claim_Inr_iff pg_chrono_def)
    have "u = db_now E + pg_lease X lease_for" using u(1) assms(3) by (simp add: pg_env_ok_def)
    with u pg_lease_le [OF assms(2), of lease_for] show ?thesis by (auto simp: live_owner_def)
  qed
  show ?thesis
    using claim_next_refines [where X = X and E = E and tok = tok and owner = owner and lf = lease_for
        and allowed = allowed, OF assms(1)] lease
    by (auto split: prod.splits sum.splits option.splits)
qed

lemma example_pg_claim:
  "\<exists>lease s'. autocommit (pg_claim_next chrono_ref (example_env 5) 9 example_worker 2500000 [FeedRebuild])
     example_pg = (Inr (Some lease), s')"
proof -
  let ?E = "example_env 5"
  let ?j = "snd (claim (pg_chrono chrono_ref ?E) 9 example_worker 5 2000000 example_job)"
  have c: "claim (pg_chrono chrono_ref ?E) 9 example_worker 5 2000000 example_job = (Inr 9, ?j)"
    by (simp add: example_job_eq job_eval pg_chrono_def example_env_def)
  have d: "decode_job (bind_job ?j) = Inr ?j"
    using claim_ok [OF example_job_ok c] by (simp add: decode_job_iff)
  have b: "claim_set ?E example_worker 9 2000005 (bind_job example_job) = bind_job ?j"
    by (simp add: claim_set_def bind_job_def example_job_eq job_eval pg_chrono_def example_env_def)
  have cand: "claim_candidate ?E [FeedRebuild] (bind_job example_job)"
    unfolding claim_candidate_bind by (simp add: claimable_def example_job_eq example_env_def)
  have ms: "lease_milliseconds chrono_ref 2500000 = Inr 2" "pg_validate_owner example_worker = Inr ()"
    "ts_add ?E (db_now ?E) (millis 2) = Some 2000005"
    by (simp_all add: lease_milliseconds_def chrono_ref_def pg_validate_owner_def job_eval millis_def example_env_def)
  show ?thesis
    by (simp add: autocommit_def pg_claim_next_def ms cand example_pg_def update_where_def b d)
qed

theorem pg_claim_takes_first_unlocked_witness:
  "\<exists>lease s'. autocommit (pg_claim_next chrono_ref (example_env 5) 9 example_worker 2500000 [FeedRebuild])
       example_pg = (Inr (Some lease), s') \<and> live_owner example_worker 9 5 (l_job lease)"
proof -
  have "pg_env_ok (example_env 5)" by (simp add: pg_env_ok_def example_env_def)
  from pg_claim_takes_first_unlocked [where tok = 9 and owner = example_worker and lease_for = 2500000
      and allowed = "[FeedRebuild]", OF example_pg_ok chrono_ref_ok this] example_pg_claim
  show ?thesis by (auto simp: example_env_def)
qed

text \<open>
  (C5) The queue invariant holds for the PostgreSQL repository under every interleaving of
  committed operations, at any database times and with any locked rows: all rows stay decodable,
  active deduplication keys stay unique and stored jobs only evolve along the lifecycle. Unlike
  the memory store it needs no assumption on fresh identifiers: the primary key rejects a used one.
\<close>

theorem pg_queue_runs_consistent:
  assumes "pg_ok s"
  shows "pg_ok (fold (run_pg_op X policy) ops s) \<and>
    (\<forall>i j. map_of (store_of s) i = Some j \<longrightarrow>
       (\<exists>j'. map_of (store_of (fold (run_pg_op X policy) ops s)) i = Some j' \<and> job_evolves j j'))"
  using pq.run_inv [OF assms legal_run_always] pq.run_job [OF assms legal_run_always] by blast

theorem pg_queue_runs_consistent_witness:
  "pg_ok (fold (run_pg_op chrono_ref example_policy)
     [(example_env 5, OpClaimNext 9 example_worker 0 2500000 all_job_types),
      (example_env 900000000, OpRecover 0 10)] example_pg)"
  using pg_queue_runs_consistent [OF example_pg_ok] by blast

text \<open>
  Recovery through PostgreSQL. It returns exactly the recovered jobs; the expired, unlocked
  rows selected up to the limit become what the domain recovery makes of them at the database's
  time, and no other row changes. An error changes nothing.
\<close>

theorem pg_recovery_exact:
  assumes "pg_ok s"
  shows "case autocommit (pg_recover_expired E policy limit) s of
     (Inl e, s') \<Rightarrow> s' = s
   | (Inr js, s') \<Rightarrow>
       (let ids = r_id ` set (expired_rows E limit s) in
          card ids \<le> limit \<and> set (map j_id js) = ids \<and>
          (\<forall>i. map_of (store_of s') i =
             (if i \<in> ids then Some (snd (recover_expired_lease (db_now E) (the (map_of (store_of s) i))))
              else map_of (store_of s) i))) \<and>
       (\<forall>j \<in> set js. map_of (store_of s') (j_id j) = Some j) \<and> pg_ok s'"
proof -
  have "length (expired_rows E limit s) \<le> limit" by (simp add: expired_rows_def)
  then have "card (r_id ` set (expired_rows E limit s)) \<le> limit"
    using card_image_le [of "set (expired_rows E limit s)" r_id] card_length [of "expired_rows E limit s"] by simp
  note bound = this
  obtain r s' where res: "autocommit (pg_recover_expired E policy limit) s = (r, s')"
    by (cases "autocommit (pg_recover_expired E policy limit) s")
  note exact = recover_expired_refines [where E = E and policy = policy and limit = limit, OF assms]
  show ?thesis
  proof (cases r)
    case (Inr js)
    with exact bound show ?thesis
      unfolding res Inr prod.case sum.case Let_def by (elim conjE) (intro conjI; assumption)
  qed (use exact res in simp)
qed

theorem pg_recovery_exact_witness:
  "\<exists>s'. autocommit (pg_recover_expired (example_env 5) example_policy 0) example_pg = (Inr [], s') \<and> pg_ok s'"
  using pg_recovery_exact [where E = "example_env 5" and policy = example_policy and limit = 0, OF example_pg_ok]
  by (simp add: autocommit_def pg_recover_expired_def)

text \<open>The table constraints the cleanup relies on, and those it must keep.\<close>

definition refresh_tables_ok :: "pg \<Rightarrow> bool" where
  "refresh_tables_ok s \<longleftrightarrow>
     distinct (map arj_job_id (pg_repair_jobs s)) \<and>
     distinct (map ars_asset_record_id (pg_refresh_states s)) \<and>
     (\<forall>st \<in> set (pg_refresh_states s). ars_completed_generation st \<le> ars_served_generation st) \<and>
     (\<forall>e \<in> set (pg_entries s). (ge_state e = ''cooling'') = (ge_not_before e \<noteq> None))"

lemma refresh_target_of_Some:
  assumes "refresh_target_of i s = Some t"
  obtains rj st e where "rj \<in> set (pg_repair_jobs s)" "arj_job_id rj = i" "st \<in> set (pg_refresh_states s)"
    "e \<in> set (pg_entries s)" "arj_expired_asset_record_id rj = Some (t_asset_id t)"
    "arj_chain_id rj = Some (t_chain_id t)" "arj_chain_ordinal rj = Some (t_ordinal t)"
    "ars_asset_record_id st = t_asset_id t" "ars_served_generation st = t_generation t"
    "ars_active_chain_id st = Some (t_chain_id t)"
proof -
  from assms obtain rj st e where m: "find (refresh_match i)
      (List.product (pg_repair_jobs s) (List.product (pg_refresh_states s) (pg_entries s))) = Some (rj, st, e)"
    and t: "t = \<lparr>t_source_id = ge_source_id e, t_review_id = ge_review_id e,
          t_asset_id = ars_asset_record_id st, t_chain_id = the (arj_chain_id rj),
          t_ordinal = ge_ordinal e, t_generation = ars_served_generation st\<rparr>"
    by (auto simp: refresh_target_of_def)
  from find_SomeD [OF m] show thesis
    by (intro that [of rj st e]) (auto simp: t refresh_match_def)
qed

lemma refresh_target_of_None:
  "refresh_target_of i s = None \<longleftrightarrow>
     (\<forall>rj \<in> set (pg_repair_jobs s). \<forall>st \<in> set (pg_refresh_states s). \<forall>e \<in> set (pg_entries s).
        \<not> refresh_match i (rj, st, e))"
  by (auto simp: refresh_target_of_def find_None_iff)

lemma close_state_key: "ars_asset_record_id (close_state t now es st) = ars_asset_record_id st"
  by (simp add: close_state_def)

lemma close_state_bound:
  "ars_completed_generation st \<le> ars_served_generation st \<Longrightarrow>
     ars_completed_generation (close_state t now es st) \<le> ars_served_generation (close_state t now es st)"
  by (simp add: close_state_def)

lemma close_entry_check:
  assumes "ex \<longleftrightarrow> nb = None" "(ge_state e = ''cooling'') = (ge_not_before e \<noteq> None)"
  shows "(ge_state (close_entry t ex nb e) = ''cooling'') = (ge_not_before (close_entry t ex nb e) \<noteq> None)"
  using assms by (simp add: close_entry_def)

lemma cleanup_result:
  assumes "j_type j = AssetRefresh" "j_status j = Failed" "refresh_target_of (j_id j) s = Some t"
    and "cleanup_terminal_refresh E policy j s = (Inr (), s')"
  obtains exhausted not_before now where
    "pg_entries s' = map (close_entry t exhausted not_before) (pg_entries s)"
    "pg_refresh_states s' = map (close_state t now (pg_entries s')) (pg_refresh_states s)"
    "pg_repair_jobs s' = pg_repair_jobs s" "exhausted \<longleftrightarrow> not_before = None"
proof -
  obtain now1 now2 where n: "cleanup_now E (j_id j) = (now1, now2)" by (cases "cleanup_now E (j_id j)")
  let ?next = "if \<exists>ln \<in> set (pg_lineage s). lineage_of t ln
     then map_option Some (ts_add E now1 (int (rp_cooldown_secs policy) * 1000000000)) else Some None"
  obtain na where na: "?next = Some na"
    using assms n by (cases ?next) (simp_all add: cleanup_terminal_refresh_def)
  define l where "l = (case na of None \<Rightarrow> pg_lineage s
     | Some n \<Rightarrow> map (\<lambda>ln. if lineage_of t ln then lineage_update policy now1 n ln else ln) (pg_lineage s))"
  define ex where "ex = (case find (lineage_of t) l of None \<Rightarrow> True | Some ln \<Rightarrow> ln_exhausted ln)"
  define nb where "nb = (if ex then None else na)"
  let ?entries = "map (close_entry t ex nb) (pg_entries s)"
  have s': "s' = s\<lparr>pg_lineage := l, pg_entries := ?entries,
      pg_refresh_states := map (close_state t now2 ?entries) (pg_refresh_states s)\<rparr>"
    using assms n na by (simp add: cleanup_terminal_refresh_def Let_def l_def ex_def nb_def)
  have "ex" if "na = None"
  proof -
    have "\<not> (\<exists>ln \<in> set (pg_lineage s). lineage_of t ln)" using na that by (auto split: if_splits)
    then have "find (lineage_of t) l = None" using that by (simp add: l_def find_None_iff)
    then show ?thesis by (simp add: ex_def)
  qed
  then have "ex \<longleftrightarrow> nb = None" by (auto simp: nb_def)
  then show thesis by (intro that [of ex nb now2]) (simp_all add: s')
qed

text \<open>
  A refresh job that ends in failure gives up its place. After the cleanup the chain of the
  job is no longer the active chain of the asset record, the generation entry it held is done or
  cooling, a second cleanup finds nothing to do, and the constraints of the refresh tables
  (completed generation at most the served one; exactly the cooling entries have a resume time)
  still hold.
\<close>

theorem failed_refresh_released:
  assumes "refresh_tables_ok s" "j_type j = AssetRefresh" "j_status j = Failed"
    and "refresh_target_of (j_id j) s = Some t"
    and "cleanup_terminal_refresh E policy j s = (Inr (), s')"
  shows "refresh_tables_ok s' \<and> refresh_target_of (j_id j) s' = None \<and>
    (\<forall>st \<in> set (pg_refresh_states s'). ars_asset_record_id st = t_asset_id t \<longrightarrow>
       ars_active_chain_id st = None) \<and>
    (\<forall>e \<in> set (pg_entries s'). ge_asset_record_id e = t_asset_id t \<longrightarrow> ge_generation e = t_generation t \<longrightarrow>
       ge_ordinal e = t_ordinal t \<longrightarrow> ge_state e \<noteq> ''in_flight'')"
proof -
  from refresh_target_of_Some [OF assms(4)] obtain rj st0 where
    rj: "rj \<in> set (pg_repair_jobs s)" "arj_job_id rj = j_id j"
      "arj_expired_asset_record_id rj = Some (t_asset_id t)" "arj_chain_ordinal rj = Some (t_ordinal t)"
    and st0: "st0 \<in> set (pg_refresh_states s)" "ars_asset_record_id st0 = t_asset_id t"
      "ars_served_generation st0 = t_generation t" "ars_active_chain_id st0 = Some (t_chain_id t)"
    by metis
  from cleanup_result [OF assms(2-)] obtain ex nb now where
    entries: "pg_entries s' = map (close_entry t ex nb) (pg_entries s)"
    and states: "pg_refresh_states s' = map (close_state t now (pg_entries s')) (pg_refresh_states s)"
    and jobs: "pg_repair_jobs s' = pg_repair_jobs s" and ex: "ex \<longleftrightarrow> nb = None"
    by metis
  note keys = assms(1) [unfolded refresh_tables_ok_def]
  have only: "st = st0" if "st \<in> set (pg_refresh_states s)" "ars_asset_record_id st = t_asset_id t" for st
    using keys that st0 by (intro distinct_key_eq [of ars_asset_record_id "pg_refresh_states s"]) simp_all
  have closed: "ars_asset_record_id st = t_asset_id t \<longrightarrow> ars_active_chain_id st = None \<and> ars_served_generation st = t_generation t"
    if "st \<in> set (pg_refresh_states s')" for st
  proof
    from that obtain st1 where st1: "st1 \<in> set (pg_refresh_states s)" "st = close_state t now (pg_entries s') st1"
      unfolding states by auto
    assume "ars_asset_record_id st = t_asset_id t"
    then have "ars_asset_record_id st1 = t_asset_id t"
      unfolding st1(2) by (simp add: close_state_def split: if_splits)
    from only [OF st1(1) this] st0 show "ars_active_chain_id st = None \<and> ars_served_generation st = t_generation t"
      by (simp add: st1(2) close_state_def)
  qed
  have open_entry: "ge_asset_record_id e = t_asset_id t \<longrightarrow> ge_generation e = t_generation t \<longrightarrow>
       ge_ordinal e = t_ordinal t \<longrightarrow> ge_state e \<noteq> ''in_flight''" if "e \<in> set (pg_entries s')" for e
    using that unfolding entries by (auto simp: close_entry_def split: if_split_asm)
  have "arj = rj" if "arj \<in> set (pg_repair_jobs s)" "arj_job_id arj = j_id j" for arj
    using keys that rj by (intro distinct_key_eq [of arj_job_id "pg_repair_jobs s"]) simp_all
  then have none: "refresh_target_of (j_id j) s' = None"
    unfolding refresh_target_of_None jobs using closed rj(3)
    by (auto simp: refresh_match_def)
  have "refresh_tables_ok s'"
    unfolding refresh_tables_ok_def states jobs entries
    using keys close_state_bound close_entry_check [OF ex] by (simp add: close_state_key comp_def)
  with none closed open_entry show ?thesis by blast
qed

definition example_refresh_pg :: pg where
  "example_refresh_pg = \<lparr>pg_jobs = [],
     pg_repair_jobs = [\<lparr>arj_job_id = 77, arj_admission_class = ''internal_refresh'',
       arj_refresh_source_id = Some 5, arj_refresh_review_id = Some [65],
       arj_expired_asset_record_id = Some 8, arj_chain_id = Some 9, arj_chain_ordinal = Some 1, arj_expiry_refunded = False\<rparr>],
     pg_refresh_states = [\<lparr>ars_asset_record_id = 8, ars_requested_generation = 1, ars_completed_generation = 0,
       ars_served_generation = 1, ars_active_chain_id = Some 9, ars_updated_at = 0\<rparr>],
     pg_entries = [\<lparr>ge_asset_record_id = 8, ge_generation = 1, ge_ordinal = 1, ge_source_id = 5,
       ge_review_id = [65], ge_state = ''in_flight'', ge_not_before = None\<rparr>],
     pg_lineage = []\<rparr>"

theorem failed_refresh_released_witness:
  "\<exists>s'. cleanup_terminal_refresh (example_env 5) example_policy
      (example_job\<lparr>j_type := AssetRefresh, j_status := Failed\<rparr>) example_refresh_pg = (Inr (), s') \<and>
    refresh_tables_ok s' \<and> refresh_target_of 77 s' = None"
proof -
  let ?j = "example_job\<lparr>j_type := AssetRefresh, j_status := Failed\<rparr>"
  have id: "j_id ?j = 77" by (simp add: example_job_eq)
  have t: "\<exists>t. refresh_target_of (j_id ?j) example_refresh_pg = Some t"
    by (simp add: id refresh_target_of_def refresh_match_def example_refresh_pg_def)
  have ok: "refresh_tables_ok example_refresh_pg"
    by (simp add: refresh_tables_ok_def example_refresh_pg_def)
  have "\<exists>s'. cleanup_terminal_refresh (example_env 5) example_policy ?j example_refresh_pg = (Inr (), s')"
    using t by (auto simp: cleanup_terminal_refresh_def example_env_def example_refresh_pg_def Let_def)
  then show ?thesis
    using failed_refresh_released [OF ok, of ?j] t by (auto simp: id)
qed

end
