(* ===== verification/Job_Service.thy ===== *)
theory Job_Service
  imports Job_Pg_Refine
begin

text \<open>
  The worker-facing facade of \<^verbatim>\<open>src/application/job_service.rs\<close>: the validated policy of one
  instance, and the queue and outcome operations bound to its owner, lease and recovery limit.

  The service is generic in its queue. The operations of the traits \<^verbatim>\<open>JobQueue\<close>,
  \<^verbatim>\<open>ExpiredJobRecovery\<close> and of an outcome transaction that is begun, used once and committed are
  the record \<open>queue_port\<close>; what the clients of the queue rely on is the locale
  \<open>queue_contract\<close>. The memory and the PostgreSQL repository are ports, and both are
  interpretations of the contract.
\<close>

section \<open>Queue ports\<close>

record 's queue_port =
  qp_enqueue :: "uuid \<Rightarrow> new_job \<Rightarrow> 's \<Rightarrow> (job_repository_error + enqueue_result) \<times> 's"
  qp_claim_next :: "lease_token \<Rightarrow> rstring \<Rightarrow> datetime \<Rightarrow> duration \<Rightarrow> job_type list \<Rightarrow> 's \<Rightarrow>
     (job_repository_error + job_lease option) \<times> 's"
  qp_heartbeat :: "uuid \<Rightarrow> rstring \<Rightarrow> lease_token \<Rightarrow> datetime \<Rightarrow> duration \<Rightarrow> 's \<Rightarrow>
     (job_repository_error + job) \<times> 's"
  qp_find :: "uuid \<Rightarrow> 's \<Rightarrow> (job_repository_error + job option) \<times> 's"
  qp_recover_expired :: "datetime \<Rightarrow> nat \<Rightarrow> 's \<Rightarrow> (job_repository_error + job list) \<times> 's"
  qp_outcome :: "job_outcome \<Rightarrow> 's \<Rightarrow> (job_repository_error + job) \<times> 's"

definition memory_port :: "chrono \<Rightarrow> store queue_port" where
  "memory_port X =
     \<lparr>qp_enqueue = enqueue_in_store,
      qp_claim_next = claim_next_in_store X,
      qp_heartbeat = heartbeat_in_store X,
      qp_find = (\<lambda>job_id jobs. (Inr (map_of jobs job_id), jobs)),
      qp_recover_expired = (\<lambda>now limit jobs.
        case recover_expired_in_store now limit jobs of
          (None, jobs') \<Rightarrow> (Inl (Storage ''panic''), jobs')
        | (Some js, jobs') \<Rightarrow> (Inr js, jobs')),
      qp_outcome = commit_outcome\<rparr>"

text \<open>
  A session with the database: what the server contributes to the n-th operation, the number of
  operations so far, and the tables.
\<close>

record pg_session =
  ses_env :: "nat \<Rightarrow> pg_env"
  ses_next :: nat
  ses_db :: pg

definition in_session :: "(pg_env \<Rightarrow> pg \<Rightarrow> 'a pg_result) \<Rightarrow> pg_session \<Rightarrow> (job_repository_error + 'a) \<times> pg_session" where
  "in_session op ses =
     (case autocommit (op (ses_env ses (ses_next ses))) (ses_db ses) of
        (r, db) \<Rightarrow> (r, ses\<lparr>ses_next := ses_next ses + 1, ses_db := db\<rparr>))"

definition pg_port :: "chrono \<Rightarrow> refresh_policy \<Rightarrow> pg_session queue_port" where
  "pg_port X policy =
     \<lparr>qp_enqueue = (\<lambda>uid spec. in_session (\<lambda>E. enqueue_internal E uid spec False)),
      qp_claim_next = (\<lambda>tok owner now lease_for allowed.
        in_session (\<lambda>E. pg_claim_next X E tok owner lease_for allowed)),
      qp_heartbeat = (\<lambda>job_id owner token now lease_for.
        in_session (\<lambda>E. pg_heartbeat X E job_id owner token now lease_for)),
      qp_find = (\<lambda>job_id. in_session (\<lambda>E db. (find_in_transaction job_id db, db))),
      qp_recover_expired = (\<lambda>now limit. in_session (\<lambda>E. pg_recover_expired E policy limit)),
      qp_outcome = (\<lambda>out. in_session (\<lambda>E. pg_apply_outcome X E policy out))\<rparr>"


section \<open>Service policy\<close>

definition max_recovery_batch_limit :: nat where
  "max_recovery_batch_limit = 1000"

record job_service_config =
  js_owner :: rstring
  js_lease_for :: duration
  js_recovery_batch_limit :: nat

datatype job_service_config_error = EmptyOwner | InvalidLease | RecoveryLimitTooLarge nat

definition job_service_config_new ::
    "chrono \<Rightarrow> rstring \<Rightarrow> duration \<Rightarrow> nat \<Rightarrow> job_service_config_error + job_service_config" where
  "job_service_config_new X owner lease_for recovery_batch_limit =
     (let owner = trim owner
      in if owner = [] then Inl EmptyOwner
         else if lease_for \<le> 0 \<or> num_milliseconds X lease_for \<le> 0 then Inl InvalidLease
         else if recovery_batch_limit > max_recovery_batch_limit then
           Inl (RecoveryLimitTooLarge recovery_batch_limit)
         else Inr \<lparr>js_owner = owner, js_lease_for = lease_for,
                   js_recovery_batch_limit = recovery_batch_limit\<rparr>)"


section \<open>Operations\<close>

text \<open>\<^verbatim>\<open>JobServiceError\<close> only wraps the repository's error and is identified with it.\<close>

definition service_enqueue ::
    "'s queue_port \<Rightarrow> uuid \<Rightarrow> new_job \<Rightarrow> 's \<Rightarrow> (job_repository_error + enqueue_result) \<times> 's" where
  "service_enqueue Q uid spec = qp_enqueue Q uid spec"

definition service_claim_next ::
    "'s queue_port \<Rightarrow> job_service_config \<Rightarrow> lease_token \<Rightarrow> datetime \<Rightarrow> job_type list \<Rightarrow> 's \<Rightarrow>
     (job_repository_error + job_lease option) \<times> 's" where
  "service_claim_next Q cfg tok now allowed =
     qp_claim_next Q tok (js_owner cfg) now (js_lease_for cfg) allowed"

definition service_find ::
    "'s queue_port \<Rightarrow> uuid \<Rightarrow> 's \<Rightarrow> (job_repository_error + job option) \<times> 's" where
  "service_find Q job_id = qp_find Q job_id"

definition service_heartbeat ::
    "'s queue_port \<Rightarrow> job_service_config \<Rightarrow> job_lease \<Rightarrow> datetime \<Rightarrow> 's \<Rightarrow> (job_repository_error + job) \<times> 's" where
  "service_heartbeat Q cfg lease now =
     qp_heartbeat Q (j_id (l_job lease)) (js_owner cfg) (l_token lease) now (js_lease_for cfg)"

definition service_recover_expired ::
    "'s queue_port \<Rightarrow> job_service_config \<Rightarrow> datetime \<Rightarrow> 's \<Rightarrow> (job_repository_error + job list) \<times> 's" where
  "service_recover_expired Q cfg now = qp_recover_expired Q now (js_recovery_batch_limit cfg)"

datatype job_outcome_kind =
    KindSucceeded datetime
  | KindDeferred datetime datetime
  | KindRetry datetime datetime rstring
  | KindFailed datetime rstring

fun lease_outcome :: "job_service_config \<Rightarrow> job_lease \<Rightarrow> job_outcome_kind \<Rightarrow> job_outcome" where
  "lease_outcome cfg lease (KindSucceeded now) =
     OutSucceeded (j_id (l_job lease)) (js_owner cfg) (l_token lease) now"
| "lease_outcome cfg lease (KindDeferred now resume_at) =
     OutDeferred (j_id (l_job lease)) (js_owner cfg) (l_token lease) now resume_at"
| "lease_outcome cfg lease (KindRetry now retry_at err) =
     OutRetry (j_id (l_job lease)) (js_owner cfg) (l_token lease) now retry_at err"
| "lease_outcome cfg lease (KindFailed now err) =
     OutFailed (j_id (l_job lease)) (js_owner cfg) (l_token lease) now err"

definition apply_lease_outcome ::
    "(job_outcome \<Rightarrow> 's \<Rightarrow> (job_repository_error + job) \<times> 's) \<Rightarrow> job_service_config \<Rightarrow> job_lease \<Rightarrow>
     job_outcome_kind \<Rightarrow> 's \<Rightarrow> (job_repository_error + job) \<times> 's" where
  "apply_lease_outcome tx cfg lease kind = tx (lease_outcome cfg lease kind)"

definition service_succeed where
  "service_succeed tx cfg lease now = apply_lease_outcome tx cfg lease (KindSucceeded now)"

definition service_defer where
  "service_defer tx cfg lease now resume_at =
     apply_lease_outcome tx cfg lease (KindDeferred now resume_at)"

definition service_retry where
  "service_retry tx cfg lease now retry_at err =
     apply_lease_outcome tx cfg lease (KindRetry now retry_at err)"

definition service_fail where
  "service_fail tx cfg lease now err = apply_lease_outcome tx cfg lease (KindFailed now err)"

definition service_cancel ::
    "(job_outcome \<Rightarrow> 's \<Rightarrow> (job_repository_error + job) \<times> 's) \<Rightarrow> uuid \<Rightarrow> datetime \<Rightarrow> rstring \<Rightarrow> 's \<Rightarrow>
     (job_repository_error + job) \<times> 's" where
  "service_cancel tx job_id now reason = tx (OutCancelled job_id now reason)"


section \<open>The contract of a queue\<close>

fun outcome_job :: "job_outcome \<Rightarrow> uuid" where
  "outcome_job (OutDeferred i _ _ _ _) = i"
| "outcome_job (OutSucceeded i _ _ _) = i"
| "outcome_job (OutRetry i _ _ _ _ _) = i"
| "outcome_job (OutFailed i _ _ _ _) = i"
| "outcome_job (OutCancelled i _ _) = i"

fun outcome_fence :: "job_outcome \<Rightarrow> (rstring \<times> lease_token) option" where
  "outcome_fence (OutDeferred _ owner tok _ _) = Some (owner, tok)"
| "outcome_fence (OutSucceeded _ owner tok _) = Some (owner, tok)"
| "outcome_fence (OutRetry _ owner tok _ _ _) = Some (owner, tok)"
| "outcome_fence (OutFailed _ owner tok _ _) = Some (owner, tok)"
| "outcome_fence (OutCancelled _ _ _) = None"

text \<open>The status an outcome leaves the job in; a retry may exhaust the budget.\<close>

fun outcome_status :: "job_outcome \<Rightarrow> job_status set" where
  "outcome_status (OutDeferred _ _ _ _ _) = {Deferred}"
| "outcome_status (OutSucceeded _ _ _ _) = {Succeeded}"
| "outcome_status (OutRetry _ _ _ _ _ _) = {RetryWait, Failed}"
| "outcome_status (OutFailed _ _ _ _ _) = {Failed}"
| "outcome_status (OutCancelled _ _ _) = {Failed}"

definition holds_lease :: "job option \<Rightarrow> rstring \<times> lease_token \<Rightarrow> bool" where
  "holds_lease j f \<longleftrightarrow>
     (\<exists>k. j = Some k \<and> j_status k = Running \<and> j_lease_owner k = Some (fst f) \<and> j_lease_token k = Some (snd f))"

locale queue_contract =
  fixes Q :: "'s queue_port"
    and lookup :: "'s \<Rightarrow> uuid \<Rightarrow> job option"
    and inv :: "'s \<Rightarrow> bool"
  assumes claim_evolves: "inv s \<Longrightarrow> qp_claim_next Q tok owner now lf allowed s = (r, s') \<Longrightarrow>
      inv s' \<and> (\<forall>i j. lookup s i = Some j \<longrightarrow> (\<exists>j'. lookup s' i = Some j' \<and> job_evolves j j'))"
    and claim_lease: "inv s \<Longrightarrow> qp_claim_next Q tok owner now lf allowed s = (Inr (Some lease), s') \<Longrightarrow>
      l_token lease = tok \<and> lookup s' (j_id (l_job lease)) = Some (l_job lease) \<and>
      j_type (l_job lease) \<in> set allowed \<and> holds_lease (Some (l_job lease)) (owner, tok)"
    and heartbeat_evolves: "inv s \<Longrightarrow> qp_heartbeat Q i owner tok now lf s = (rh, s') \<Longrightarrow>
      inv s' \<and> (\<forall>i j. lookup s i = Some j \<longrightarrow> (\<exists>j'. lookup s' i = Some j' \<and> job_evolves j j'))"
    and recover_evolves: "inv s \<Longrightarrow> qp_recover_expired Q now limit s = (rr, s') \<Longrightarrow>
      inv s' \<and> (\<forall>i j. lookup s i = Some j \<longrightarrow> (\<exists>j'. lookup s' i = Some j' \<and> job_evolves j j'))"
    and find_reads: "inv s \<Longrightarrow> qp_find Q i s = (rf, s') \<Longrightarrow> rf = Inr (lookup s i) \<and> lookup s' = lookup s \<and> inv s'"
    and outcome_error: "inv s \<Longrightarrow> qp_outcome Q out s = (Inl e, s') \<Longrightarrow> lookup s' = lookup s \<and> inv s'"
    and outcome_done: "inv s \<Longrightarrow> qp_outcome Q out s = (Inr j, s') \<Longrightarrow>
      inv s' \<and> lookup s' = (lookup s)(outcome_job out \<mapsto> j) \<and>
      (\<exists>j0. lookup s (outcome_job out) = Some j0 \<and> job_evolves j0 j) \<and>
      j_status j \<in> outcome_status out \<and>
      (\<forall>f. outcome_fence out = Some f \<longrightarrow> holds_lease (lookup s (outcome_job out)) f)"
begin

text \<open>An outcome is accepted only from the holder of the lease, and settles the leased job.\<close>

lemma lease_outcome_done:
  assumes "inv s" "apply_lease_outcome (qp_outcome Q) cfg lease kind s = (Inr j, s')"
  shows "holds_lease (lookup s (j_id (l_job lease))) (js_owner cfg, l_token lease)"
    "lookup s' = (lookup s)(j_id (l_job lease) \<mapsto> j)" "inv s'"
    "\<exists>j0. lookup s (j_id (l_job lease)) = Some j0 \<and> job_evolves j0 j"
    "j_status j \<noteq> Running"
  using outcome_done [OF assms(1) assms(2) [unfolded apply_lease_outcome_def]]
  by (cases kind; force)+

end

section \<open>The memory repository as a queue\<close>

lemma transition_done:
  assumes "snapshot (transition i op s) = (Inr j, s')"
  obtains j0 r where "map_of s i = Some j0" "op j0 = (Inr r, j)" "s' = AList.update i j s"
proof (cases "map_of s i")
  case None
  with assms show thesis by (simp add: snapshot_def transition_None)
next
  case (Some j0)
  with assms that show thesis
    by (cases "op j0"; cases "fst (op j0)") (auto simp: snapshot_def transition_Some)
qed

lemma apply_outcome_done:
  assumes "store_ok s" "apply_outcome out s = (Inr j, s')"
  shows "s' = AList.update (outcome_job out) j s" "\<exists>j0. map_of s (outcome_job out) = Some j0"
    "j_status j \<in> outcome_status out"
    "\<forall>f. outcome_fence out = Some f \<longrightarrow> holds_lease (map_of s (outcome_job out)) f"
proof -
  have "s' = AList.update (outcome_job out) j s \<and> (\<exists>j0. map_of s (outcome_job out) = Some j0) \<and>
      j_status j \<in> outcome_status out \<and>
      (\<forall>f. outcome_fence out = Some f \<longrightarrow> holds_lease (map_of s (outcome_job out)) f)"
    using assms
  proof (cases out)
    case (OutRetry i owner tok now retry_at err)
    with assms(2) have t: "snapshot (transition i (retry owner tok now retry_at err) s) = (Inr j, s')"
      by (simp add: retry_in_store_def)
    from transition_done [OF t] obtain j0 r where
      j0: "map_of s i = Some j0" "retry owner tok now retry_at err j0 = (Inr r, j)" "s' = AList.update i j s" .
    have "job_ok j0" using store_ok_map_of(2) [OF assms(1) j0(1)] .
    with j0 OutRetry show ?thesis
      by (auto simp: retry_Inr_iff retried_def Let_def live_owner_def holds_lease_def)
  qed (auto simp: defer_in_store_def succeed_in_store_def fail_in_store_def cancel_in_store_def
      defer_job_Inr_iff succeed_Inr_iff fail_Inr_iff cancel_Inr_iff live_owner_def holds_lease_def
      elim!: transition_done)
  then show "s' = AList.update (outcome_job out) j s" "\<exists>j0. map_of s (outcome_job out) = Some j0"
    "j_status j \<in> outcome_status out"
    "\<forall>f. outcome_fence out = Some f \<longrightarrow> holds_lease (map_of s (outcome_job out)) f" by blast+
qed

lemma commit_outcome_done:
  assumes "store_ok s" "commit_outcome out s = (Inr j, s')"
  shows "store_ok s' \<and> map_of s' = (map_of s)(outcome_job out \<mapsto> j) \<and>
      (\<exists>j0. map_of s (outcome_job out) = Some j0 \<and> job_evolves j0 j) \<and>
      j_status j \<in> outcome_status out \<and>
      (\<forall>f. outcome_fence out = Some f \<longrightarrow> holds_lease (map_of s (outcome_job out)) f)"
proof -
  have a: "apply_outcome out s = (Inr j, s')"
    using assms(2) by (cases "apply_outcome out s") (auto simp: commit_outcome_exact split: sum.splits)
  note settled = apply_outcome_done [OF assms(1) a]
  have step: "store_ok s'" "store_evolves s s'" using apply_outcome_step [OF assms(1), of out] by (simp_all add: a)
  from settled(2) obtain j0 where j0: "map_of s (outcome_job out) = Some j0" by blast
  with step(2) settled(1) have "job_evolves j0 j" by (fastforce simp: store_evolves_def)
  with settled step(1) j0 show ?thesis by simp
qed

lemma commit_outcome_error: "commit_outcome out s = (Inl e, s') \<Longrightarrow> s' = s"
  by (auto simp: commit_outcome_exact split: sum.splits)

lemma claimed_holds_lease:
  "claim X tok owner now lf j = (Inr t, j') \<Longrightarrow> t = tok \<and> holds_lease (Some j') (owner, tok) \<and> same_identity j j'"
  by (auto simp: claim_Inr_iff holds_lease_def same_identity_def)

interpretation mem: queue_contract "memory_port X" map_of store_ok
  for X
proof (unfold_locales, goal_cases)
  case (1 s tok owner now lf allowed r s')
  then show ?case
    using claim_next_step [of s X tok owner now lf allowed] by (simp add: memory_port_def store_evolves_def)
next
  case (2 s tok owner now lf allowed lease s')
  then have c: "claim_next_in_store X tok owner now lf allowed s = (Inr (Some lease), s')"
    by (simp add: memory_port_def)
  from claim_next_exact [OF 2(1) c] obtain j where j: "claimable now allowed j"
    "s' = AList.update (j_id j) (l_job lease) s"
    "claim X tok owner now lf j = (Inr (l_token lease), l_job lease)" by auto
  from claimed_holds_lease [OF j(3)] j show ?case
    by (auto simp: same_identity_def claimable_def)
next
  case (3 s i owner tok now lf rh s')
  then show ?case
    using store_op_step [of s "OpHeartbeat i owner tok now lf" X] by (simp add: memory_port_def store_evolves_def)
next
  case (4 s now limit rr s')
  then show ?case
    using store_op_step [of s "OpRecover now limit" X]
    by (cases "recover_expired_in_store now limit s") (auto simp: memory_port_def store_evolves_def split: option.splits)
next
  case (7 s out j s')
  then show ?case using commit_outcome_done [of s out j s'] by (simp add: memory_port_def)
qed (auto simp: memory_port_def dest: commit_outcome_error)


section \<open>The PostgreSQL repository as a queue\<close>

abbreviation ses_lookup :: "pg_session \<Rightarrow> uuid \<Rightarrow> job option" where
  "ses_lookup ses \<equiv> map_of (store_of (ses_db ses))"

abbreviation ses_ok :: "pg_session \<Rightarrow> bool" where
  "ses_ok ses \<equiv> pg_ok (ses_db ses)"

lemma in_session_db:
  assumes "in_session op ses = (r, ses')"
  shows "autocommit (op (ses_env ses (ses_next ses))) (ses_db ses) = (r, ses_db ses')"
  using assms by (auto simp: in_session_def split: prod.splits)

lemma find_in_transaction_lookup:
  assumes "pg_ok s"
  shows "find_in_transaction i s = Inr (map_of (store_of s) i)"
proof (cases "find (\<lambda>r. r_id r = i) (pg_jobs s)")
  case None
  then have "map_of (store_of s) i = None"
    by (auto simp: find_None_iff map_of_eq_None_iff store_of_def)
  with None show ?thesis by (simp add: find_in_transaction_def)
next
  case (Some r)
  with find_SomeD [OF Some] row_in_store [OF assms, of r] pg_ok_rows [OF assms, of r]
  show ?thesis by (auto simp: find_in_transaction_def bindE_def decode_job_iff [THEN iffD2])
qed

lemma pg_outcome_done:
  assumes "pg_ok s" "autocommit (pg_apply_outcome X E policy out) s = (Inr j, s')"
  shows "pg_ok s' \<and> map_of (store_of s') = (map_of (store_of s))(outcome_job out \<mapsto> j) \<and>
      (\<exists>j0. map_of (store_of s) (outcome_job out) = Some j0 \<and> job_evolves j0 j) \<and>
      j_status j \<in> outcome_status out \<and>
      (\<forall>f. outcome_fence out = Some f \<longrightarrow> holds_lease (map_of (store_of s) (outcome_job out)) f)"
proof -
  have same: "outcome_job (retime t out) = outcome_job out" "outcome_status (retime t out) = outcome_status out"
    "outcome_fence (retime t out) = outcome_fence out" for t
    by (cases out; simp)+
  have "commit_outcome (retime (db_now E) out) (store_of s) = (Inr j, store_of s')"
    using outcome_refines [OF assms(1), of X E policy out] assms(2) by (simp add: pg_refines_def)
  from commit_outcome_done [OF _ this] assms(1) have
    "map_of (store_of s') = (map_of (store_of s))(outcome_job out \<mapsto> j) \<and>
      (\<exists>j0. map_of (store_of s) (outcome_job out) = Some j0 \<and> job_evolves j0 j) \<and>
      j_status j \<in> outcome_status out \<and>
      (\<forall>f. outcome_fence out = Some f \<longrightarrow> holds_lease (map_of (store_of s) (outcome_job out)) f)"
    by (simp add: same pg_ok_def)
  moreover have "pg_ok s'" using pg_op_step [OF assms(1), of X policy "(E, OpOutcome out)"] assms(2) by simp
  ultimately show ?thesis by blast
qed

lemma pg_claim_lease:
  assumes "pg_ok s" "autocommit (pg_claim_next X E tok owner lf allowed) s = (Inr (Some lease), s')"
  shows "l_token lease = tok \<and> map_of (store_of s') (j_id (l_job lease)) = Some (l_job lease) \<and>
      j_type (l_job lease) \<in> set allowed \<and> holds_lease (Some (l_job lease)) (owner, tok)"
proof -
  from claim_next_refines [where X = X and E = E and tok = tok and owner = owner and lf = lf and allowed = allowed,
      OF assms(1)] assms(2)
  obtain j where j: "claimable (db_now E) allowed j"
    "claim (pg_chrono X E) tok owner (db_now E) (pg_lease X lf) j = (Inr (l_token lease), l_job lease)"
    "store_of s' = AList.update (j_id j) (l_job lease) (store_of s)" by auto
  from claimed_holds_lease [OF j(2)] j show ?thesis by (auto simp: same_identity_def claimable_def)
qed

interpretation pgq: queue_contract "pg_port X policy" ses_lookup ses_ok
  for X policy
proof (unfold_locales, goal_cases)
  case (1 s tok owner now lf allowed r s')
  then show ?case
    using claim_next_pg_step [of "ses_db s" X "ses_env s (ses_next s)" tok owner lf allowed]
    by (auto simp: pg_port_def store_evolves_def dest!: in_session_db)
next
  case (2 s tok owner now lf allowed lease s')
  then show ?case
    using pg_claim_lease [of "ses_db s" X "ses_env s (ses_next s)" tok owner lf allowed lease "ses_db s'"]
    by (auto simp: pg_port_def dest!: in_session_db)
next
  case (3 s i owner tok now lf rh s')
  then show ?case
    using pg_op_step [of "ses_db s" X policy "(ses_env s (ses_next s), OpHeartbeat i owner tok now lf)"]
    by (auto simp: pg_port_def store_evolves_def dest!: in_session_db)
next
  case (4 s now limit rr s')
  then show ?case
    using pg_op_step [of "ses_db s" X policy "(ses_env s (ses_next s), OpRecover now limit)"]
    by (auto simp: pg_port_def store_evolves_def dest!: in_session_db)
next
  case (5 s i rf s')
  then show ?case
    by (auto simp: pg_port_def autocommit_def find_in_transaction_lookup dest!: in_session_db)
next
  case (6 s out e s')
  then show ?case
    using outcome_refines [of "ses_db s" X "ses_env s (ses_next s)" policy out]
    by (auto simp: pg_port_def pg_refines_def dest!: in_session_db)
next
  case (7 s out j s')
  then have "autocommit (pg_apply_outcome X (ses_env s (ses_next s)) policy out) (ses_db s) = (Inr j, ses_db s')"
    by (auto simp: pg_port_def dest!: in_session_db)
  from pg_outcome_done [OF 7(1) this] show ?case .
qed


section \<open>Properties\<close>

text \<open>
  Fenced outcomes through the service on PostgreSQL. When a success, deferral, retry or
  failure for a lease is accepted, the job was running under the service's owner and the lease's
  token at that moment, the leased job is the only one that changes, and it leaves the running
  state along the lifecycle.
\<close>

theorem service_outcome_fenced:
  assumes "pg_ok (ses_db ses)"
    "apply_lease_outcome (qp_outcome (pg_port X policy)) cfg lease kind ses = (Inr j, ses')"
  shows "holds_lease (map_of (store_of (ses_db ses)) (j_id (l_job lease))) (js_owner cfg, l_token lease) \<and>
    map_of (store_of (ses_db ses')) = (map_of (store_of (ses_db ses)))(j_id (l_job lease) \<mapsto> j) \<and>
    j_status j \<noteq> Running \<and> pg_ok (ses_db ses') \<and>
    (\<exists>j0. map_of (store_of (ses_db ses)) (j_id (l_job lease)) = Some j0 \<and> job_evolves j0 j)"
  using pgq.lease_outcome_done [OF assms] by blast

definition single_pg :: "job \<Rightarrow> pg" where
  "single_pg j = \<lparr>pg_jobs = [bind_job j], pg_repair_jobs = [], pg_refresh_states = [],
     pg_entries = [], pg_lineage = []\<rparr>"

lemma single_pg_ok: "job_ok j \<Longrightarrow> pg_ok (single_pg j)"
  by (auto simp: pg_ok_def single_pg_def row_ok_iff store_of_def store_ok_def unique_active_def)

definition example_session :: pg_session where
  "example_session = \<lparr>ses_env = (\<lambda>_. example_env 50), ses_next = 0, ses_db = single_pg example_claimed\<rparr>"

definition example_config :: job_service_config where
  "example_config = \<lparr>js_owner = example_worker, js_lease_for = 2500000, js_recovery_batch_limit = 10\<rparr>"

definition example_lease :: job_lease where
  "example_lease = \<lparr>l_job = example_claimed, l_token = 1\<rparr>"

lemma example_claimed_live: "live_owner example_worker 1 50 example_claimed" "j_id example_claimed = 77"
  by (simp_all add: live_owner_def example_claimed_def example_job_eq job_eval)

lemma pg_succeed_single:
  assumes "job_ok j" "succeed owner tok (db_now E) j = (Inr (), j')"
  shows "autocommit (pg_succeed X E (j_id j) owner tok now) (single_pg j) = (Inr j', single_pg j')"
proof -
  have d: "decode_job (bind_job j') = Inr j'"
    using su.op_keeps_ok [OF assms] by (simp add: decode_job_iff)
  have b: "(release_lease (bind_job j))\<lparr>r_status := ''succeeded'', r_last_error := None,
      r_finished_at := Some (db_now E), r_updated_at := db_now E\<rparr> = bind_job j'"
    using assms(2) by (simp add: succeed_Inr_iff bind_job_def release_lease_def)
  have "fence E (j_id j) owner tok (bind_job j)" "trim owner \<noteq> []"
    using assms(2) by (simp_all add: succeed_Inr_iff fence_bind)
  then show ?thesis
    by (simp add: autocommit_def pg_succeed_def pg_validate_owner_def update_where_def single_pg_def b d)
qed

lemma pg_retry_single:
  assumes "job_ok j" "retry owner tok (db_now E) retry_at err j = (Inr r, j')" "j_type j \<noteq> AssetRefresh"
  shows "autocommit (pg_apply_outcome X E policy (OutRetry (j_id j) owner tok now retry_at err)) (single_pg j) =
    (Inr j', single_pg j')"
proof -
  from assms(2) have j': "trim owner \<noteq> []" "trim err \<noteq> []" "live_owner owner tok (db_now E) j"
    "j' = retried (db_now E) retry_at err j"
    by (simp_all add: retry_Inr_iff [OF assms(1)])
  then have run: "j_status j = Running" by (simp add: live_owner_def)
  have d: "decode_job (bind_job j') = Inr j'" "j_type j' \<noteq> AssetRefresh"
    using retried_ok(1) [OF assms(1) run] assms(3) by (simp_all add: decode_job_iff j'(4) retried_def Let_def)
  note b = retry_set_bind(1) [OF assms(1) run, of E retry_at err, folded j'(4)]
  have "fence E (j_id j) owner tok (bind_job j)" using j'(3) by (simp add: fence_bind)
  with j'(1,2) d b show ?thesis
    by (simp add: autocommit_def pg_retry_def pg_validate_owner_def validate_error_def update_where_def
        single_pg_def decode_and_cleanup_def cleanup_terminal_refresh_def)
qed

lemma pg_claim_single:
  assumes "job_ok j" "claimable (db_now E) allowed j" "j_id j \<notin> set (locked E)"
    "lease_milliseconds X lf = Inr ms"
    "claim (pg_chrono X E) tok owner (db_now E) (millis ms) j = (Inr tok, j')"
  shows "autocommit (pg_claim_next X E tok owner lf allowed) (single_pg j) =
    (Inr (Some \<lparr>l_job = j', l_token = tok\<rparr>), single_pg j')"
proof -
  have d: "decode_job (bind_job j') = Inr j'"
    using claim_ok [OF assms(1,5)] by (simp add: decode_job_iff)
  from assms(5) obtain u c where u: "ts_add E (db_now E) (millis ms) = Some u" "trim owner \<noteq> []"
    "checked_add (j_claim_count j) 1 = Some c"
    "j' = j\<lparr>j_claim_count := c, j_status := Running, j_lease_owner := Some owner,
               j_lease_token := Some tok, j_lease_until := Some u, j_heartbeat_at := Some (db_now E),
               j_started_at := (case j_started_at j of None \<Rightarrow> Some (db_now E) | Some s \<Rightarrow> Some s),
               j_finished_at := None, j_updated_at := db_now E\<rparr>"
    by (auto simp: claim_Inr_iff pg_chrono_def)
  have "uint c = uint (j_claim_count j) + 1"
    using checked_add_Some_unat [OF u(3)] unfolding uint_nat by simp
  then have b: "claim_set E owner tok u (bind_job j) = bind_job j'"
    by (simp add: claim_set_def bind_job_def u(4) split: option.split)
  have "claim_candidate E allowed (bind_job j)" using assms(2,3) by (simp add: claim_candidate_bind)
  then show ?thesis
    using u(1,2) assms(4)
    by (simp add: autocommit_def pg_claim_next_def pg_validate_owner_def single_pg_def update_where_def b d)
qed

lemma pg_recover_single:
  assumes "j_status j \<noteq> Running"
  shows "autocommit (pg_recover_expired E policy limit) (single_pg j) =
    (if i64_try_from limit = None then Inl (Storage ''recovery batch limit exceeds PostgreSQL range'') else Inr [],
     single_pg j)"
proof -
  have "expired_rows E limit (single_pg j) = []"
    using assms by (simp add: expired_rows_def single_pg_def status_name_running)
  then show ?thesis
    by (auto simp: autocommit_def pg_recover_expired_def single_pg_def update_where_def i64_try_from_def)
qed

lemma pg_succeed_outcome: "pg_apply_outcome X E policy (OutSucceeded i owner tok now) = pg_succeed X E i owner tok now"
  by (rule ext) simp

lemma example_succeed:
  "succeed example_worker 1 50 example_claimed = (Inr (), snd (succeed example_worker 1 50 example_claimed))"
  by (simp add: example_claimed_def example_job_eq job_eval)

lemma example_session_succeeds:
  "\<exists>j ses'. apply_lease_outcome (qp_outcome (pg_port chrono_ref example_policy)) example_config example_lease
     (KindSucceeded 0) example_session = (Inr j, ses')"
proof -
  let ?E = "example_env 50"
  have "succeed example_worker 1 (db_now ?E) example_claimed =
      (Inr (), snd (succeed example_worker 1 50 example_claimed))"
    using example_succeed by (simp add: example_env_def)
  from pg_succeed_single [OF example_claimed_ok this, of chrono_ref 0] show ?thesis
    by (simp add: apply_lease_outcome_def pg_port_def in_session_def example_session_def example_config_def
        example_lease_def pg_succeed_outcome)
qed

theorem service_outcome_fenced_witness:
  "\<exists>j ses'. apply_lease_outcome (qp_outcome (pg_port chrono_ref example_policy)) example_config example_lease
     (KindSucceeded 0) example_session = (Inr j, ses') \<and> j_status j \<noteq> Running \<and>
     holds_lease (map_of (store_of (ses_db example_session)) 77) (example_worker, 1)"
proof -
  have "pg_ok (ses_db example_session)"
    using single_pg_ok [OF example_claimed_ok] by (simp add: example_session_def)
  from service_outcome_fenced [OF this] example_session_succeeds show ?thesis
    by (fastforce simp: example_config_def example_lease_def example_claimed_live(2))
qed

text \<open>
  A service that was constructed is usable: its owner and lease pass the checks of both
  repositories for every claim and heartbeat, and its recovery limit fits the database's integer.
\<close>

theorem service_config_usable:
  assumes "chrono_ok X" "job_service_config_new X owner lease_for limit = Inr cfg"
  shows "validate_owner (js_owner cfg) = Inr () \<and> pg_validate_owner (js_owner cfg) = Inr () \<and>
    (\<exists>ms > 0. lease_milliseconds X (js_lease_for cfg) = Inr ms \<and> millis ms \<le> js_lease_for cfg) \<and>
    js_recovery_batch_limit cfg \<le> max_recovery_batch_limit \<and>
    i64_try_from (js_recovery_batch_limit cfg) = Some (int (js_recovery_batch_limit cfg))"
proof -
  from assms(2) have c: "js_owner cfg = trim owner" "trim owner \<noteq> []" "js_lease_for cfg = lease_for"
    "0 < lease_for" "0 < num_milliseconds X lease_for" "js_recovery_batch_limit cfg = limit"
    "limit \<le> max_recovery_batch_limit"
    by (auto simp: job_service_config_new_def Let_def split: if_splits)
  have "millis (num_milliseconds X lease_for) \<le> lease_for"
    using chrono_millis_bounds [OF assms(1), of lease_for] c(4) by (simp add: millis_def)
  with c show ?thesis
    by (simp add: validate_owner_def pg_validate_owner_def lease_milliseconds_def i64_try_from_def
        max_recovery_batch_limit_def Let_def)
qed

lemma example_config_new: "job_service_config_new chrono_ref example_worker 2500000 10 = Inr example_config"
  by (simp add: job_service_config_new_def example_config_def max_recovery_batch_limit_def job_eval)

theorem service_config_usable_witness:
  "\<exists>ms > 0. lease_milliseconds chrono_ref (js_lease_for example_config) = Inr ms"
  using service_config_usable [OF chrono_ref_ok example_config_new] by blast

end
