(* ===== verification/Worker.thy ===== *)
theory Worker
  imports Job_Service
begin

text \<open>
  The job worker of \<^verbatim>\<open>src/application/worker.rs\<close>: its policies, one pass (recover, claim,
  execute with heartbeats under a deadline, settle) and the polling loop with its counters.

  What happens while a handler runs is an input: a script of the events that the two
  \<^verbatim>\<open>select!\<close> statements and the timeout can observe, in order. \<open>Interleave\<close> is any step of the
  handler's own transactions or of other replicas on the shared state; \<open>Tick\<close> is a heartbeat that
  completes before the handler; \<open>TickRace\<close> is a heartbeat in flight when the handler completes,
  which the database has executed or not; the script that ends without a result is the execution
  timeout. The proofs hold for every script.
\<close>

section \<open>Policies\<close>

datatype job_execution =
    ExSucceeded | ExCommitted | ExDeferred datetime | ExRetry datetime rstring | ExFailed rstring

text \<open>A \<^verbatim>\<open>std::time::Duration\<close> is a number of nanoseconds.\<close>

type_synonym std_duration = nat

record worker_config =
  wc_allowed_job_types :: "job_type list"
  wc_heartbeat_every :: std_duration
  wc_execution_timeout :: std_duration

datatype worker_config_error =
    NoAllowedJobTypes | InvalidHeartbeat | InvalidExecutionTimeout | WorkerInvalidLease
  | HeartbeatNotShorterThanLease

definition default_execution_timeout :: std_duration where
  "default_execution_timeout = 30 * 60 * 1000000000"

definition new_with_execution_timeout ::
    "job_type list \<Rightarrow> std_duration \<Rightarrow> std_duration \<Rightarrow> worker_config_error + worker_config" where
  "new_with_execution_timeout allowed heartbeat_every execution_timeout =
     (if allowed = [] then Inl NoAllowedJobTypes
      else if heartbeat_every = 0 then Inl InvalidHeartbeat
      else if execution_timeout = 0 then Inl InvalidExecutionTimeout
      else Inr \<lparr>wc_allowed_job_types = allowed, wc_heartbeat_every = heartbeat_every,
                wc_execution_timeout = execution_timeout\<rparr>)"

definition worker_config_new :: "job_type list \<Rightarrow> std_duration \<Rightarrow> worker_config_error + worker_config" where
  "worker_config_new allowed heartbeat_every =
     new_with_execution_timeout allowed heartbeat_every default_execution_timeout"

definition to_std :: "duration \<Rightarrow> std_duration option" where
  "to_std d = (if 0 \<le> d then Some (nat d) else None)"

definition validate_for_lease :: "worker_config \<Rightarrow> duration \<Rightarrow> worker_config_error + unit" where
  "validate_for_lease cfg lease_for =
     bindE (ok_or WorkerInvalidLease (to_std lease_for)) (\<lambda>lease_for.
       if wc_heartbeat_every cfg \<ge> lease_for then Inl HeartbeatNotShorterThanLease else Inr ())"

record worker_loop_config =
  wl_idle_poll_interval :: std_duration
  wl_error_backoff :: std_duration

datatype worker_loop_config_error = InvalidIdlePollInterval | InvalidErrorBackoff

definition worker_loop_config_new ::
    "std_duration \<Rightarrow> std_duration \<Rightarrow> worker_loop_config_error + worker_loop_config" where
  "worker_loop_config_new idle_poll_interval error_backoff =
     (if idle_poll_interval = 0 then Inl InvalidIdlePollInterval
      else if error_backoff = 0 then Inl InvalidErrorBackoff
      else Inr \<lparr>wl_idle_poll_interval = idle_poll_interval, wl_error_backoff = error_backoff\<rparr>)"

record worker_loop_stats =
  ws_passes :: u64
  ws_completed :: u64
  ws_idle :: u64
  ws_errors :: u64

datatype worker_error =
    WeJob job_repository_error
  | WeHeartbeat job_repository_error
  | WeTransaction job_repository_error

datatype worker_run = Idle | Completed job job_execution

text \<open>
  The worker: its service over a queue port, its policy, the gate for browser jobs when there is
  one, and the \<^verbatim>\<open>Debug\<close> formatting of a duration, which is the standard library's.
\<close>

record 's worker =
  w_queue :: "'s queue_port"
  w_service :: job_service_config
  w_config :: worker_config
  w_gate :: "bool option"
  w_debug_duration :: "std_duration \<Rightarrow> rstring"

definition worker_new ::
    "'s queue_port \<Rightarrow> job_service_config \<Rightarrow> worker_config \<Rightarrow> (std_duration \<Rightarrow> rstring) \<Rightarrow>
     worker_config_error + 's worker" where
  "worker_new Q service config fmt =
     bindE (validate_for_lease config (js_lease_for service)) (\<lambda>_.
       Inr \<lparr>w_queue = Q, w_service = service, w_config = config, w_gate = None,
            w_debug_duration = fmt\<rparr>)"


section \<open>One pass\<close>

datatype 's exec_event =
    Interleave "'s \<Rightarrow> 's"
  | Tick
  | TickRace bool job_execution
  | HandlerDone job_execution

text \<open>The result is \<open>None\<close> when the deadline passes before the handler returns.\<close>

fun execute_with_heartbeats ::
    "'s worker \<Rightarrow> job_lease \<Rightarrow> datetime \<Rightarrow> 's exec_event list \<Rightarrow> 's \<Rightarrow>
     (worker_error + job_execution) option \<times> 's" where
  "execute_with_heartbeats w lease now [] s = (None, s)"
| "execute_with_heartbeats w lease now (Interleave f # script) s =
     execute_with_heartbeats w lease now script (f s)"
| "execute_with_heartbeats w lease now (HandlerDone outcome # script) s = (Some (Inr outcome), s)"
| "execute_with_heartbeats w lease now (TickRace sent outcome # script) s =
     (Some (Inr outcome),
      if sent then snd (service_heartbeat (w_queue w) (w_service w) lease now s) else s)"
| "execute_with_heartbeats w lease now (Tick # script) s =
     (case service_heartbeat (w_queue w) (w_service w) lease now s of
        (Inr _, s') \<Rightarrow> execute_with_heartbeats w lease now script s'
      | (Inl e, s') \<Rightarrow> (Some (Inl (WeHeartbeat e)), s'))"

definition worker_apply_outcome ::
    "'s worker \<Rightarrow> job_lease \<Rightarrow> job_execution \<Rightarrow> datetime \<Rightarrow> 's \<Rightarrow>
     (job_repository_error + job) option \<times> 's" where
  "worker_apply_outcome w lease outcome now s =
     (let tx = qp_outcome (w_queue w); cfg = w_service w; some = (\<lambda>(r, s'). (Some r, s'))
      in case outcome of
           ExSucceeded \<Rightarrow> some (service_succeed tx cfg lease now s)
         | ExCommitted \<Rightarrow> (None, s)
         | ExDeferred resume_at \<Rightarrow> some (service_defer tx cfg lease now resume_at s)
         | ExRetry retry_at err \<Rightarrow> some (service_retry tx cfg lease now retry_at err s)
         | ExFailed err \<Rightarrow> some (service_fail tx cfg lease now err s))"

definition gated_job_types :: "'s worker \<Rightarrow> job_type list" where
  "gated_job_types w =
     (if w_gate w = Some False
      then filter (\<lambda>t. \<not> requires_browser t) (wc_allowed_job_types (w_config w))
      else wc_allowed_job_types (w_config w))"

definition timeout_error :: "'s worker \<Rightarrow> rstring" where
  "timeout_error w =
     lit ''job execution timed out after '' @ w_debug_duration w (wc_execution_timeout (w_config w))"

text \<open>
  Settling a finished execution: a committed one is read back, any other is applied in a
  transaction of its own. The \<^verbatim>\<open>unreachable!\<close> of \<^verbatim>\<open>apply_outcome\<close> is the \<open>None\<close> above, which
  this definition never reaches.
\<close>

definition settle ::
    "'s worker \<Rightarrow> job_lease \<Rightarrow> job_execution \<Rightarrow> datetime \<Rightarrow> 's \<Rightarrow> (worker_error + worker_run) \<times> 's" where
  "settle w lease outcome now s =
     (if outcome = ExCommitted then
        (case service_find (w_queue w) (j_id (l_job lease)) s of
           (Inl e, s') \<Rightarrow> (Inl (WeJob e), s')
         | (Inr None, s') \<Rightarrow> (Inl (WeJob (NotFound (j_id (l_job lease)))), s')
         | (Inr (Some j), s') \<Rightarrow> (Inr (Completed j outcome), s'))
      else
        (case worker_apply_outcome w lease outcome now s of
           (Some (Inl e), s') \<Rightarrow> (Inl (WeJob e), s')
         | (Some (Inr j), s') \<Rightarrow> (Inr (Completed j outcome), s')
         | (None, s') \<Rightarrow> (Inl (WeJob (Storage ''unreachable'')), s')))"

definition run_once ::
    "'s worker \<Rightarrow> lease_token \<Rightarrow> datetime \<Rightarrow> 's exec_event list \<Rightarrow> 's \<Rightarrow> (worker_error + worker_run) \<times> 's" where
  "run_once w tok now script s =
     (case service_recover_expired (w_queue w) (w_service w) now s of
        (Inl e, s1) \<Rightarrow> (Inl (WeJob e), s1)
      | (Inr _, s1) \<Rightarrow>
          (case service_claim_next (w_queue w) (w_service w) tok now (gated_job_types w) s1 of
             (Inl e, s2) \<Rightarrow> (Inl (WeJob e), s2)
           | (Inr None, s2) \<Rightarrow> (Inr Idle, s2)
           | (Inr (Some lease), s2) \<Rightarrow>
               (case execute_with_heartbeats w lease now script s2 of
                  (Some (Inl e), s3) \<Rightarrow> (Inl e, s3)
                | (Some (Inr outcome), s3) \<Rightarrow> settle w lease outcome now s3
                | (None, s3) \<Rightarrow> settle w lease (ExRetry now (timeout_error w)) now s3)))"


section \<open>The loop\<close>

text \<open>
  One turn of the loop: the shutdown flag is seen at its start, or a pass runs with its inputs and,
  when it has to wait, the flag is seen during the wait or not.
\<close>

datatype 's loop_turn =
    ShutdownSeen
  | Turn lease_token datetime "'s exec_event list" bool

definition count_pass :: "worker_error + worker_run \<Rightarrow> worker_loop_stats \<Rightarrow> worker_loop_stats" where
  "count_pass r stats =
     (let stats = stats\<lparr>ws_passes := ws_passes stats + 1\<rparr>
      in case r of
           Inr (Completed _ _) \<Rightarrow> stats\<lparr>ws_completed := ws_completed stats + 1\<rparr>
         | Inr Idle \<Rightarrow> stats\<lparr>ws_idle := ws_idle stats + 1\<rparr>
         | Inl _ \<Rightarrow> stats\<lparr>ws_errors := ws_errors stats + 1\<rparr>)"

definition pass_wait :: "worker_loop_config \<Rightarrow> worker_error + worker_run \<Rightarrow> std_duration option" where
  "pass_wait cfg r =
     (case r of
        Inr (Completed _ _) \<Rightarrow> None
      | Inr Idle \<Rightarrow> Some (wl_idle_poll_interval cfg)
      | Inl _ \<Rightarrow> Some (wl_error_backoff cfg))"

text \<open>The boolean of the result says whether the loop has returned.\<close>

fun run_loop ::
    "'s worker \<Rightarrow> worker_loop_config \<Rightarrow> 's loop_turn list \<Rightarrow> worker_loop_stats \<Rightarrow> 's \<Rightarrow>
     bool \<times> worker_loop_stats \<times> 's" where
  "run_loop w cfg [] stats s = (False, stats, s)"
| "run_loop w cfg (ShutdownSeen # turns) stats s = (True, stats, s)"
| "run_loop w cfg (Turn tok now script seen # turns) stats s =
     (case run_once w tok now script s of
        (r, s') \<Rightarrow>
          (if pass_wait cfg r \<noteq> None \<and> seen then (True, count_pass r stats, s')
           else run_loop w cfg turns (count_pass r stats) s'))"

definition zero_stats :: worker_loop_stats where
  "zero_stats = \<lparr>ws_passes = 0, ws_completed = 0, ws_idle = 0, ws_errors = 0\<rparr>"

definition run_until_shutdown ::
    "'s worker \<Rightarrow> worker_loop_config \<Rightarrow> 's loop_turn list \<Rightarrow> 's \<Rightarrow> bool \<times> worker_loop_stats \<times> 's" where
  "run_until_shutdown w cfg turns s = run_loop w cfg turns zero_stats s"

section \<open>A pass over any queue that keeps the contract\<close>

definition evolves_by :: "('s \<Rightarrow> uuid \<Rightarrow> job option) \<Rightarrow> 's \<Rightarrow> 's \<Rightarrow> bool" where
  "evolves_by lookup s s' \<longleftrightarrow>
     (\<forall>i j. lookup s i = Some j \<longrightarrow> (\<exists>j'. lookup s' i = Some j' \<and> job_evolves j j'))"

text \<open>The interleaved steps of handlers and other replicas go through queues themselves.\<close>

definition fair_script ::
    "('s \<Rightarrow> bool) \<Rightarrow> ('s \<Rightarrow> uuid \<Rightarrow> job option) \<Rightarrow> 's exec_event list \<Rightarrow> bool" where
  "fair_script good lookup script \<longleftrightarrow>
     (\<forall>f. Interleave f \<in> set script \<longrightarrow> (\<forall>s. good s \<longrightarrow> good (f s) \<and> evolves_by lookup s (f s)))"

lemma evolves_by_refl: "lookup s' = lookup s \<Longrightarrow> evolves_by lookup s s'"
  by (auto simp: evolves_by_def intro: job_evolves_refl)

lemma evolves_by_trans: "evolves_by lookup a b \<Longrightarrow> evolves_by lookup b c \<Longrightarrow> evolves_by lookup a c"
  by (fastforce simp: evolves_by_def intro: job_evolves_trans)

lemma evolves_by_same_type:
  "evolves_by lookup s s' \<Longrightarrow> lookup s i = Some j \<Longrightarrow> \<exists>j'. lookup s' i = Some j' \<and> j_type j' = j_type j \<and> j_id j' = j_id j"
  by (fastforce simp: evolves_by_def job_evolves_def same_identity_def)

text \<open>The outcome a handler's result asks for; a committed one asks for none.\<close>

fun settled_kind :: "datetime \<Rightarrow> job_execution \<Rightarrow> job_outcome_kind option" where
  "settled_kind now ExSucceeded = Some (KindSucceeded now)"
| "settled_kind now ExCommitted = None"
| "settled_kind now (ExDeferred resume_at) = Some (KindDeferred now resume_at)"
| "settled_kind now (ExRetry retry_at err) = Some (KindRetry now retry_at err)"
| "settled_kind now (ExFailed err) = Some (KindFailed now err)"

lemma settle_kind:
  assumes "settled_kind now outcome = Some kind"
  shows "settle w lease outcome now s =
    (case apply_lease_outcome (qp_outcome (w_queue w)) (w_service w) lease kind s of
       (Inl e, s') \<Rightarrow> (Inl (WeJob e), s') | (Inr j, s') \<Rightarrow> (Inr (Completed j outcome), s'))"
  using assms
  by (cases outcome; cases "apply_lease_outcome (qp_outcome (w_queue w)) (w_service w) lease kind s")
    (auto simp: settle_def worker_apply_outcome_def service_succeed_def service_defer_def service_retry_def
      service_fail_def Let_def)

lemma settled_kind_None: "settled_kind now outcome = None \<longleftrightarrow> outcome = ExCommitted"
  by (cases outcome) simp_all

context queue_contract
begin

lemma heartbeat_step:
  assumes "inv s"
  shows "inv (snd (service_heartbeat Q cfg lease now s)) \<and>
    evolves_by lookup s (snd (service_heartbeat Q cfg lease now s))"
  using heartbeat_evolves [OF assms, of "j_id (l_job lease)" "js_owner cfg" "l_token lease" now "js_lease_for cfg"]
  by (simp add: service_heartbeat_def evolves_by_def prod_eq_iff)

lemma execute_step:
  assumes "w_queue w = Q" "inv s" "fair_script inv lookup script"
    "execute_with_heartbeats w lease now script s = (r, s')"
  shows "inv s' \<and> evolves_by lookup s s'"
  using assms
proof (induction w lease now script s arbitrary: r s' rule: execute_with_heartbeats.induct)
  case (2 w lease now f script s)
  then have f: "inv (f s)" "evolves_by lookup s (f s)" "fair_script inv lookup script"
    by (auto simp: fair_script_def)
  with 2 show ?case by (fastforce intro: evolves_by_trans)
next
  case (4 w lease now sent outcome script s)
  with heartbeat_step [of s "w_service w" lease now] show ?case by (auto intro: evolves_by_refl)
next
  case (5 w lease now script s)
  obtain rh s1 where h: "service_heartbeat (w_queue w) (w_service w) lease now s = (rh, s1)"
    by (cases "service_heartbeat (w_queue w) (w_service w) lease now s")
  have s1: "inv s1" "evolves_by lookup s s1"
    using heartbeat_step [of s "w_service w" lease now] 5(2,3) h by simp_all
  have fair: "fair_script inv lookup script" using 5(4) by (auto simp: fair_script_def)
  show ?case
  proof (cases rh)
    case (Inl e)
    with h 5(5) s1 show ?thesis by simp
  next
    case (Inr j)
    with h 5(5) have "execute_with_heartbeats w lease now script s1 = (r, s')" by simp
    from 5(1) [OF h [symmetric] Inr 5(2) s1(1) fair this] s1(2) show ?thesis
      by (auto intro: evolves_by_trans)
  qed
qed (auto intro: evolves_by_refl)

lemma settle_step:
  assumes "w_queue w = Q" "inv s" "settle w lease outcome now s = (r, s')"
  shows "inv s' \<and> evolves_by lookup s s'"
proof (cases "settled_kind now outcome")
  case None
  then have True: "outcome = ExCommitted" by (simp add: settled_kind_None)
  obtain rf s1 where "qp_find Q (j_id (l_job lease)) s = (rf, s1)" by (cases "qp_find Q (j_id (l_job lease)) s")
  with find_reads [OF assms(2) this] assms(1,3) True show ?thesis
    by (auto simp: settle_def service_find_def intro: evolves_by_refl split: option.splits)
next
  case (Some kind)
  note k = settle_kind [OF this, of w lease s, unfolded assms(1)]
  show ?thesis
  proof (cases "apply_lease_outcome (qp_outcome Q) (w_service w) lease kind s")
    case (Pair ra s1)
    show ?thesis
    proof (cases ra)
      case (Inl e)
      with Pair have "qp_outcome Q (lease_outcome (w_service w) lease kind) s = (Inl e, s1)"
        by (simp add: apply_lease_outcome_def)
      from outcome_error [OF assms(2) this] Pair Inl k assms(3) show ?thesis
        by (auto intro: evolves_by_refl)
    next
      case (Inr j)
      with Pair have "apply_lease_outcome (qp_outcome Q) (w_service w) lease kind s = (Inr j, s1)" by simp
      from lease_outcome_done [OF assms(2) this] Pair Inr k assms(3) show ?thesis
        by (auto simp: evolves_by_def intro: job_evolves_refl)
    qed
  qed
qed

text \<open>The states a pass goes through.\<close>

lemma run_once_states:
  assumes "w_queue w = Q" "inv s" "run_once w tok now script s = (r, s')"
  obtains (stopped) s1 where "inv s1" "evolves_by lookup s s1" "s' = s1" "\<forall>j out. r \<noteq> Inr (Completed j out)"
  | (claimed) lease s2 where "inv s2" "evolves_by lookup s s2"
      "l_token lease = tok" "lookup s2 (j_id (l_job lease)) = Some (l_job lease)"
      "j_type (l_job lease) \<in> set (gated_job_types w)"
      "(case execute_with_heartbeats w lease now script s2 of
          (Some (Inl e), s3) \<Rightarrow> (Inl e, s3)
        | (Some (Inr outcome), s3) \<Rightarrow> settle w lease outcome now s3
        | (None, s3) \<Rightarrow> settle w lease (ExRetry now (timeout_error w)) now s3) = (r, s')"
proof -
  let ?cfg = "w_service w"
  obtain rr s1 where rec: "qp_recover_expired Q now (js_recovery_batch_limit ?cfg) s = (rr, s1)"
    by (cases "qp_recover_expired Q now (js_recovery_batch_limit ?cfg) s")
  have s1: "inv s1" "evolves_by lookup s s1" using recover_evolves [OF assms(2) rec] by (auto simp: evolves_by_def)
  show thesis
  proof (cases rr)
    case (Inl e)
    with rec assms(1,3) s1 show thesis
      by (intro stopped [of s1]) (auto simp: run_once_def service_recover_expired_def)
  next
    case (Inr js)
    obtain rc s2 where cl: "qp_claim_next Q tok (js_owner ?cfg) now (js_lease_for ?cfg) (gated_job_types w) s1 = (rc, s2)"
      by (cases "qp_claim_next Q tok (js_owner ?cfg) now (js_lease_for ?cfg) (gated_job_types w) s1")
    have s2: "inv s2" "evolves_by lookup s s2"
      using claim_evolves [OF s1(1) cl] s1(2) by (auto simp: evolves_by_def intro: evolves_by_trans [unfolded evolves_by_def, rule_format])
        (metis job_evolves_trans)+
    show thesis
    proof (cases "\<exists>lease. rc = Inr (Some lease)")
      case True
      then obtain lease where l: "rc = Inr (Some lease)" by blast
      with claim_lease [OF s1(1)] cl have
        "l_token lease = tok" "lookup s2 (j_id (l_job lease)) = Some (l_job lease)"
        "j_type (l_job lease) \<in> set (gated_job_types w)" by blast+
      with s2 rec Inr cl l assms(1,3) show thesis
        by (intro claimed [of s2 lease]) (simp_all add: run_once_def service_recover_expired_def service_claim_next_def)
    next
      case False
      with s2 rec Inr cl assms(1,3) show thesis
        by (intro stopped [of s2])
          (auto simp: run_once_def service_recover_expired_def service_claim_next_def split: sum.splits option.splits)
    qed
  qed
qed

lemma run_once_step:
  assumes "w_queue w = Q" "inv s" "fair_script inv lookup script" "run_once w tok now script s = (r, s')"
  shows "inv s' \<and> evolves_by lookup s s'"
  using assms(1,2,4)
proof (cases rule: run_once_states)
  case (claimed lease s2)
  obtain re s3 where ex: "execute_with_heartbeats w lease now script s2 = (re, s3)"
    by (cases "execute_with_heartbeats w lease now script s2")
  note s3 = execute_step [OF assms(1) claimed(1) assms(3) ex]
  from claimed(6) ex consider "s' = s3" | outcome where "settle w lease outcome now s3 = (r, s')"
    by (auto split: option.splits sum.splits)
  then show ?thesis
    by cases (use s3 claimed(2) settle_step [OF assms(1)] in \<open>blast intro: evolves_by_trans\<close>)+
qed blast

end

context queue_contract
begin

text \<open>A completed pass: what was claimed, that it was still owned when settled, and the result.\<close>

lemma settle_completed:
  assumes "w_queue w = Q" "inv s" "settle w lease outcome now s = (Inr (Completed j out), s')"
  shows "out = outcome \<and> lookup s' (j_id (l_job lease)) = Some j \<and>
    (outcome \<noteq> ExCommitted \<longrightarrow> j_status j \<noteq> Running \<and> lookup s' = (lookup s)(j_id (l_job lease) \<mapsto> j) \<and>
       holds_lease (lookup s (j_id (l_job lease))) (js_owner (w_service w), l_token lease))"
proof (cases "settled_kind now outcome")
  case None
  then have c: "outcome = ExCommitted" by (simp add: settled_kind_None)
  obtain rf s1 where f: "qp_find Q (j_id (l_job lease)) s = (rf, s1)" by (cases "qp_find Q (j_id (l_job lease)) s")
  from find_reads [OF assms(2) f] f assms(1,3) c show ?thesis
    by (auto simp: settle_def service_find_def split: option.splits)
next
  case (Some kind)
  note k = settle_kind [OF this, of w lease s, unfolded assms(1)]
  obtain ra s1 where a: "apply_lease_outcome (qp_outcome Q) (w_service w) lease kind s = (ra, s1)"
    by (cases "apply_lease_outcome (qp_outcome Q) (w_service w) lease kind s")
  with k assms(3) have r: "ra = Inr j" "out = outcome" "s' = s1" by (auto split: sum.splits)
  from lease_outcome_done [OF assms(2) a [unfolded r(1)]] r show ?thesis by simp
qed

lemma run_once_completed:
  assumes "w_queue w = Q" "inv s" "fair_script inv lookup script"
    "run_once w tok now script s = (Inr (Completed j out), s')"
  shows "lookup s' (j_id j) = Some j \<and> j_type j \<in> set (gated_job_types w) \<and>
    (out \<noteq> ExCommitted \<longrightarrow> j_status j \<noteq> Running \<and>
       (\<exists>s3. inv s3 \<and> holds_lease (lookup s3 (j_id j)) (js_owner (w_service w), tok) \<and>
          lookup s' = (lookup s3)(j_id j \<mapsto> j)))"
  using assms(1,2,4)
proof (cases rule: run_once_states)
  case (claimed lease s2)
  obtain re s3 where ex: "execute_with_heartbeats w lease now script s2 = (re, s3)"
    by (cases "execute_with_heartbeats w lease now script s2")
  note s3 = execute_step [OF assms(1) claimed(1) assms(3) ex]
  from claimed(6) ex obtain outcome where o: "settle w lease outcome now s3 = (Inr (Completed j out), s')"
    by (auto split: option.splits sum.splits)
  note done1 = settle_completed [OF assms(1) _ o] and step = settle_step [OF assms(1) _ o]
  have "evolves_by lookup s2 s'" using s3 step by (blast intro: evolves_by_trans)
  from evolves_by_same_type [OF this claimed(4)] done1 s3
  have "j_type j = j_type (l_job lease)" "j_id j = j_id (l_job lease)" by auto
  with done1 s3 claimed(3,5) show ?thesis by auto
qed blast

end

text \<open>An execution that ends by the deadline, with every heartbeat accepted, is a retry.\<close>

fun unfinished :: "'s exec_event list \<Rightarrow> bool" where
  "unfinished [] = True"
| "unfinished (Interleave f # script) = unfinished script"
| "unfinished (Tick # script) = unfinished script"
| "unfinished _ = False"

lemma execute_unfinished:
  "unfinished script \<Longrightarrow> execute_with_heartbeats w lease now script s = (r, s') \<Longrightarrow>
     r = None \<or> (\<exists>e. r = Some (Inl (WeHeartbeat e)))"
  by (induction w lease now script s arbitrary: r s' rule: execute_with_heartbeats.induct)
    (auto split: prod.splits sum.splits)

lemma stats_step:
  assumes "ws_passes st = ws_completed st + ws_idle st + ws_errors st"
  shows "ws_passes (count_pass r st) = ws_completed (count_pass r st) + ws_idle (count_pass r st) + ws_errors (count_pass r st)"
  using assms by (auto simp: count_pass_def Let_def split: sum.splits worker_run.splits)

lemma run_loop_stats:
  assumes "run_loop w cfg turns st s = (b, st', s')" "ws_passes st = ws_completed st + ws_idle st + ws_errors st"
  shows "ws_passes st' = ws_completed st' + ws_idle st' + ws_errors st'"
  using assms
  by (induction w cfg turns st s arbitrary: b st' s' rule: run_loop.induct)
    (auto split: prod.splits if_splits dest: stats_step)

lemma run_loop_returns:
  assumes "run_loop w cfg turns st s = (b, st', s')" "ShutdownSeen \<in> set turns"
  shows "b"
  using assms
  by (induction w cfg turns st s arbitrary: b st' s' rule: run_loop.induct)
    (auto split: prod.splits if_splits)

definition fair_turns ::
    "('s \<Rightarrow> bool) \<Rightarrow> ('s \<Rightarrow> uuid \<Rightarrow> job option) \<Rightarrow> 's loop_turn list \<Rightarrow> bool" where
  "fair_turns good lookup turns \<longleftrightarrow>
     (\<forall>tok now script seen. Turn tok now script seen \<in> set turns \<longrightarrow> fair_script good lookup script)"

context queue_contract
begin

lemma run_once_timeout:
  assumes "w_queue w = Q" "inv s" "fair_script inv lookup script" "unfinished script"
    "run_once w tok now script s = (Inr (Completed j out), s')"
  shows "out = ExRetry now (timeout_error w) \<and> j_status j \<in> {RetryWait, Failed}"
  using assms(1,2,5)
proof (cases rule: run_once_states)
  case (claimed lease s2)
  obtain re s3 where ex: "execute_with_heartbeats w lease now script s2 = (re, s3)"
    by (cases "execute_with_heartbeats w lease now script s2")
  have s3: "inv s3" using execute_step [OF assms(1) claimed(1) assms(3) ex] by simp
  from execute_unfinished [OF assms(4) ex] claimed(6) ex
  have o: "settle w lease (ExRetry now (timeout_error w)) now s3 = (Inr (Completed j out), s')" by auto
  let ?out = "OutRetry (j_id (l_job lease)) (js_owner (w_service w)) (l_token lease) now now (timeout_error w)"
  obtain ra s4 where a: "qp_outcome Q ?out s3 = (ra, s4)" by (cases "qp_outcome Q ?out s3")
  have "ra = Inr j \<and> out = ExRetry now (timeout_error w)"
    using o a settle_kind [of now "ExRetry now (timeout_error w)" "KindRetry now now (timeout_error w)" w lease s3]
    by (auto simp: apply_lease_outcome_def assms(1) split: sum.splits)
  with outcome_done [OF s3, of ?out j s4] a show ?thesis by simp
qed blast

lemma run_loop_step:
  assumes "w_queue w = Q" "inv s" "fair_turns inv lookup turns" "run_loop w cfg turns st s = (b, st', s')"
  shows "inv s' \<and> evolves_by lookup s s'"
  using assms
proof (induction w cfg turns st s arbitrary: b st' s' rule: run_loop.induct)
  case (3 w cfg tok now script seen turns st s)
  obtain r s1 where o: "run_once w tok now script s = (r, s1)" by (cases "run_once w tok now script s")
  have fair: "fair_script inv lookup script" "fair_turns inv lookup turns"
    using 3(4) unfolding fair_turns_def by (auto intro: list.set_intros)
  note s1 = run_once_step [OF 3(2,3) fair(1) o]
  show ?case
  proof (cases "pass_wait cfg r \<noteq> None \<and> seen")
    case True
    with 3(5) o s1 show ?thesis by simp
  next
    case False
    with 3(5) o have "run_loop w cfg turns (count_pass r st) s1 = (b, st', s')" by (auto split: if_splits)
    from 3(1) [OF o [symmetric] False 3(2) _ fair(2) this] s1 show ?thesis
      by (blast intro: evolves_by_trans)
  qed
qed (auto intro: evolves_by_refl)

end


section \<open>Keeping a lease alive\<close>

text \<open>The heartbeats a lease holder sends, at the given database times.\<close>

fun heartbeats :: "chrono \<Rightarrow> rstring \<Rightarrow> lease_token \<Rightarrow> duration \<Rightarrow> datetime list \<Rightarrow> job \<Rightarrow> bool \<times> job" where
  "heartbeats X owner tok lf [] j = (True, j)"
| "heartbeats X owner tok lf (t # ts) j =
     (case heartbeat X owner tok t lf j of
        (Inl _, j') \<Rightarrow> (False, j')
      | (Inr _, j') \<Rightarrow> heartbeats X owner tok lf ts j')"

fun spaced :: "duration \<Rightarrow> datetime \<Rightarrow> datetime list \<Rightarrow> bool" where
  "spaced gap t0 [] \<longleftrightarrow> True"
| "spaced gap t0 (t # ts) \<longleftrightarrow> t0 \<le> t \<and> t \<le> t0 + gap \<and> spaced gap t ts"

lemma heartbeats_keep_lease:
  assumes "chrono_ok X" "trim owner \<noteq> []" "0 < lf" "gap < lf"
    and "j_status j = Running" "j_lease_owner j = Some owner" "j_lease_token j = Some tok"
    and "j_lease_until j = Some (t0 + lf)" "spaced gap t0 ts"
    and "\<forall>t \<in> set ts. checked_add_signed X t lf \<noteq> None"
  shows "fst (heartbeats X owner tok lf ts j) \<and>
    live_owner owner tok (last (t0 # ts) + gap) (snd (heartbeats X owner tok lf ts j))"
  using assms(5-)
proof (induction ts arbitrary: t0 j)
  case Nil
  with assms(4) show ?case by (simp add: live_owner_def)
next
  case (Cons t ts)
  from Cons.prems(6) obtain u where u: "checked_add_signed X t lf = Some u" by auto
  have "u = t + lf" using chrono_add_exact [OF assms(1) u] .
  moreover have "live_owner owner tok t j" using Cons.prems assms(4) by (auto simp: live_owner_def)
  ultimately have h: "heartbeat X owner tok t lf j =
      (Inr (), j\<lparr>j_lease_until := Some (t + lf), j_heartbeat_at := Some t, j_updated_at := t\<rparr>)"
    using u assms(2,3) heartbeat_Inr_iff [of X owner tok t lf j "()"] by auto
  show ?case
    using Cons.IH [of "j\<lparr>j_lease_until := Some (t + lf), j_heartbeat_at := Some t, j_updated_at := t\<rparr>" t] Cons.prems
    by (simp add: h)
qed


section \<open>Properties\<close>

definition example_worker_config :: worker_config where
  "example_worker_config =
     \<lparr>wc_allowed_job_types = all_job_types, wc_heartbeat_every = 1000000, wc_execution_timeout = 60000000000\<rparr>"

definition memory_worker :: "bool option \<Rightarrow> store worker" where
  "memory_worker gate =
     \<lparr>w_queue = memory_port chrono_ref, w_service = example_config, w_config = example_worker_config,
      w_gate = gate, w_debug_duration = (\<lambda>_. lit ''60s'')\<rparr>"

lemma fair_script_no_interleave: "\<forall>f. Interleave f \<notin> set script \<Longrightarrow> fair_script good lookup script"
  by (simp add: fair_script_def)


definition pg_worker :: "pg_session worker" where
  "pg_worker =
     \<lparr>w_queue = pg_port chrono_ref example_policy, w_service = example_config, w_config = example_worker_config,
      w_gate = None, w_debug_duration = (\<lambda>_. lit ''60s'')\<rparr>"

definition fresh_session :: pg_session where
  "fresh_session = \<lparr>ses_env = (\<lambda>_. example_env 5), ses_next = 0, ses_db = single_pg example_job\<rparr>"

lemma pg_example_run:
  "\<exists>j ses'. run_once pg_worker 9 0 [HandlerDone ExSucceeded] fresh_session = (Inr (Completed j ExSucceeded), ses')"
proof -
  let ?E = "example_env 5"
  have t: "db_now ?E = 5" by (simp add: example_env_def)
  obtain j1 where c: "claim (pg_chrono chrono_ref ?E) 9 example_worker (db_now ?E) (millis 2) example_job = (Inr 9, j1)"
    by (simp add: example_job_eq job_eval pg_chrono_def example_env_def millis_def)
  have ok: "job_ok j1" by (rule claim_ok [OF example_job_ok c])
  have "live_owner example_worker 9 5 j1" "j_id j1 = 77"
    using c by (auto simp: claim_Inr_iff live_owner_def pg_chrono_def example_env_def millis_def example_job_eq)
  then obtain j2 where d: "succeed example_worker 9 (db_now ?E) j1 = (Inr (), j2)"
    using succeed_Inr_iff [of example_worker 9 5 j1 "()"] by (auto simp: t job_eval)
  have ms: "lease_milliseconds chrono_ref 2500000 = Inr 2"
    by (simp add: lease_milliseconds_def chrono_ref_def)
  have cl: "claimable (db_now ?E) all_job_types example_job" "j_id example_job \<notin> set (locked ?E)"
    "j_status example_job \<noteq> Running"
    by (simp_all add: claimable_def example_job_eq example_env_def all_job_types_def)
  note steps = pg_recover_single [OF cl(3), of ?E example_policy 10]
    pg_claim_single [OF example_job_ok cl(1,2) ms c] pg_succeed_single [OF ok d, of chrono_ref 0]
  show ?thesis
    using steps \<open>j_id j1 = 77\<close>
    by (simp add: run_once_def pg_worker_def fresh_session_def service_recover_expired_def pg_port_def
        in_session_def example_config_def service_claim_next_def gated_job_types_def example_worker_config_def
        settle_def worker_apply_outcome_def service_succeed_def apply_lease_outcome_def i64_try_from_def pg_succeed_outcome)
qed


text \<open>
  The browser gate. While the gate is closed a pass never completes a job that needs the
  browser, and database-only jobs of the configured types are still allowed.
\<close>

theorem closed_gate_spares_browser_jobs:
  assumes "w_queue w = memory_port X" "store_ok s" "w_gate w = Some False"
    and "fair_script store_ok map_of script" "run_once w tok now script s = (Inr (Completed j out), s')"
  shows "\<not> requires_browser (j_type j) \<and>
    set (gated_job_types w) = {t \<in> set (wc_allowed_job_types (w_config w)). \<not> requires_browser t}"
  using mem.run_once_completed [OF assms(1,2,4,5)] assms(3) by (auto simp: gated_job_types_def)

lemma memory_example_run:
  "\<exists>j s'. run_once (memory_worker (Some False)) 1 10 [HandlerDone ExSucceeded] example_store =
     (Inr (Completed j ExSucceeded), s')"
  by (simp add: run_once_def memory_worker_def service_recover_expired_def memory_port_def example_config_def
      recover_expired_in_store_def recovery_candidates_def lease_expired_def example_store_def example_job_eq
      service_claim_next_def gated_job_types_def example_worker_config_def all_job_types_def
      claim_next_in_store_def claimable_def claim_order_def cmp_of_def transition_def get_mut_def
      settle_def worker_apply_outcome_def service_succeed_def apply_lease_outcome_def
      commit_outcome_exact succeed_in_store_def snapshot_def job_eval)

theorem closed_gate_spares_browser_jobs_witness:
  "\<exists>j s'. run_once (memory_worker (Some False)) 1 10 [HandlerDone ExSucceeded] example_store =
      (Inr (Completed j ExSucceeded), s') \<and> \<not> requires_browser (j_type j)"
proof -
  have "fair_script store_ok map_of [HandlerDone ExSucceeded]" by (rule fair_script_no_interleave) simp
  with memory_example_run closed_gate_spares_browser_jobs [of "memory_worker (Some False)" chrono_ref
      example_store "[HandlerDone ExSucceeded]" 1 10] example_store_ok
  show ?thesis by (fastforce simp: memory_worker_def)
qed

text \<open>
  The execution deadline. When the handler has not returned by the deadline and no heartbeat
  failed, a completed pass has settled the job as a retry due at once, which charges its failure
  budget: the job waits for a retry or has failed for good.
\<close>

theorem timeout_is_charged:
  assumes "w_queue w = pg_port X policy" "pg_ok (ses_db ses)"
    and "fair_script (\<lambda>ses. pg_ok (ses_db ses)) (\<lambda>ses. map_of (store_of (ses_db ses))) script"
    and "unfinished script" "run_once w tok now script ses = (Inr (Completed j out), ses')"
  shows "out = ExRetry now (timeout_error w) \<and> j_status j \<in> {RetryWait, Failed}"
  by (rule pgq.run_once_timeout [OF assms])

lemma pg_timeout_run:
  "\<exists>j out ses'. run_once pg_worker 9 0 [] fresh_session = (Inr (Completed j out), ses')"
proof -
  let ?E = "example_env 5" and ?err = "timeout_error pg_worker"
  obtain j1 where c: "claim (pg_chrono chrono_ref ?E) 9 example_worker (db_now ?E) (millis 2) example_job = (Inr 9, j1)"
    by (simp add: example_job_eq job_eval pg_chrono_def example_env_def millis_def)
  have ok: "job_ok j1" by (rule claim_ok [OF example_job_ok c])
  have j1: "live_owner example_worker 9 (db_now ?E) j1" "j_id j1 = 77" "j_type j1 \<noteq> AssetRefresh"
    using c by (auto simp: claim_Inr_iff live_owner_def pg_chrono_def example_env_def millis_def example_job_eq)
  moreover have "trim example_worker \<noteq> []" "trim ?err \<noteq> []"
    by (simp_all add: trim_eq_Nil_iff timeout_error_def example_worker_def lit_def is_whitespace_def)
  ultimately obtain j2 where d: "retry example_worker 9 (db_now ?E) 0 ?err j1 = (Inr (j_status j2), j2)"
    using retry_Inr_iff [OF ok, of example_worker 9 "db_now ?E" 0 ?err] by blast
  have ms: "lease_milliseconds chrono_ref 2500000 = Inr 2"
    by (simp add: lease_milliseconds_def chrono_ref_def)
  have cl: "claimable (db_now ?E) all_job_types example_job" "j_id example_job \<notin> set (locked ?E)"
    "j_status example_job \<noteq> Running"
    by (simp_all add: claimable_def example_job_eq example_env_def all_job_types_def)
  note steps = pg_recover_single [OF cl(3), of ?E example_policy 10]
    pg_claim_single [OF example_job_ok cl(1,2) ms c] pg_retry_single [OF ok d j1(3), of chrono_ref example_policy 0]
  show ?thesis
    using steps j1(2)
    by (simp add: run_once_def pg_worker_def fresh_session_def service_recover_expired_def pg_port_def
        in_session_def example_config_def service_claim_next_def gated_job_types_def example_worker_config_def
        settle_def worker_apply_outcome_def service_retry_def apply_lease_outcome_def i64_try_from_def
        timeout_error_def)
qed

theorem timeout_is_charged_witness:
  "\<exists>j out ses'. run_once pg_worker 9 0 [] fresh_session = (Inr (Completed j out), ses') \<and>
     j_status j \<in> {RetryWait, Failed}"
proof -
  obtain j out ses' where r: "run_once pg_worker 9 0 [] fresh_session = (Inr (Completed j out), ses')"
    using pg_timeout_run by blast
  have "w_queue pg_worker = pg_port chrono_ref example_policy" by (simp add: pg_worker_def)
  moreover have "pg_ok (ses_db fresh_session)" by (simp add: fresh_session_def single_pg_ok example_job_ok)
  moreover have "fair_script (\<lambda>ses. pg_ok (ses_db ses)) (\<lambda>ses. map_of (store_of (ses_db ses)))
      ([] :: pg_session exec_event list)"
    by (rule fair_script_no_interleave) simp
  ultimately show ?thesis using timeout_is_charged [OF _ _ _ _ r] r by auto
qed

text \<open>
  (C9) The loop. From its start the pass counter is the sum of the completed, idle and failed
  passes; the loop returns once it sees the shutdown flag between two passes; and the queue keeps
  its invariant with every stored job on its lifecycle, however many passes ran.
\<close>

theorem worker_loop_accounts:
  assumes "w_queue w = pg_port X policy" "pg_ok (ses_db ses)"
    and "fair_turns (\<lambda>ses. pg_ok (ses_db ses)) (\<lambda>ses. map_of (store_of (ses_db ses))) turns"
    and "run_until_shutdown w cfg turns ses = (returned, st, ses')"
  shows "ws_passes st = ws_completed st + ws_idle st + ws_errors st \<and>
    (ShutdownSeen \<in> set turns \<longrightarrow> returned) \<and> pg_ok (ses_db ses') \<and>
    evolves_by (\<lambda>ses. map_of (store_of (ses_db ses))) ses ses'"
proof -
  have l: "run_loop w cfg turns zero_stats ses = (returned, st, ses')"
    using assms(4) by (simp add: run_until_shutdown_def)
  have "ws_passes zero_stats = ws_completed zero_stats + ws_idle zero_stats + ws_errors zero_stats"
    by (simp add: zero_stats_def)
  from run_loop_stats [OF l this] run_loop_returns [OF l] pgq.run_loop_step [OF assms(1-3) l] show ?thesis
    by blast
qed

theorem worker_loop_accounts_witness:
  "\<exists>st ses'. run_until_shutdown pg_worker \<lparr>wl_idle_poll_interval = 1, wl_error_backoff = 1\<rparr>
      [Turn 9 0 [HandlerDone ExSucceeded] False, ShutdownSeen] fresh_session = (True, st, ses') \<and>
     ws_passes st = ws_completed st + ws_idle st + ws_errors st \<and> pg_ok (ses_db ses')"
proof -
  let ?turns = "[Turn 9 0 [HandlerDone ExSucceeded] False, ShutdownSeen] :: pg_session loop_turn list"
  obtain b st ses' where r: "run_until_shutdown pg_worker \<lparr>wl_idle_poll_interval = 1, wl_error_backoff = 1\<rparr>
      ?turns fresh_session = (b, st, ses')"
    by (metis prod_cases3)
  have "w_queue pg_worker = pg_port chrono_ref example_policy" by (simp add: pg_worker_def)
  moreover have "pg_ok (ses_db fresh_session)" by (simp add: fresh_session_def single_pg_ok example_job_ok)
  moreover have "fair_turns (\<lambda>ses. pg_ok (ses_db ses)) (\<lambda>ses. map_of (store_of (ses_db ses))) ?turns"
    by (auto simp: fair_turns_def fair_script_def)
  ultimately show ?thesis using worker_loop_accounts [OF _ _ _ r] r by simp
qed

text \<open>
  (C10) Heartbeats keep a lease. For a service whose lease is a whole number of milliseconds and a
  worker that was accepted for it, heartbeats that reach the database at most one heartbeat
  interval apart are all accepted, and the lease is still live one interval after the last.
\<close>

theorem heartbeats_protect_lease:
  assumes "chrono_ok X" "pg_env_ok E" "validate_for_lease wc (js_lease_for sc) = Inr ()"
    and "js_lease_for sc mod 1000000 = 0" "job_service_config_new X owner lf limit = Inr sc"
    and "claim (pg_chrono X E) tok (js_owner sc) t0 (pg_lease X (js_lease_for sc)) j0 = (Inr tok, j)"
    and "spaced (int (wc_heartbeat_every wc)) t0 ts"
    and "\<forall>t \<in> set ts. ts_add E t (pg_lease X (js_lease_for sc)) \<noteq> None"
  shows "fst (heartbeats (pg_chrono X E) (js_owner sc) tok (pg_lease X (js_lease_for sc)) ts j) \<and>
    live_owner (js_owner sc) tok (last (t0 # ts) + int (wc_heartbeat_every wc))
      (snd (heartbeats (pg_chrono X E) (js_owner sc) tok (pg_lease X (js_lease_for sc)) ts j))"
proof -
  let ?lf = "js_lease_for sc" and ?gap = "int (wc_heartbeat_every wc)"
  have pos: "0 < ?lf" and owner: "trim (js_owner sc) \<noteq> []"
    using assms(5) by (auto simp: job_service_config_new_def Let_def split: if_splits)
  obtain k where k: "?lf = 1000000 * k" using assms(4) by blast
  have "num_milliseconds X ?lf * 1000000 \<le> ?lf \<and> ?lf < (num_milliseconds X ?lf + 1) * 1000000"
    using assms(1) pos by (simp add: chrono_ok_def)
  then have "num_milliseconds X ?lf = k" using k by simp
  then have whole: "pg_lease X ?lf = ?lf" using pos k by (simp add: pg_lease_def millis_def)
  have gap: "?gap < ?lf"
    using assms(3) pos by (auto simp: validate_for_lease_def to_std_def split: if_splits)
  have X': "chrono_ok (pg_chrono X E)"
    using assms(1,2) by (simp add: chrono_ok_def pg_chrono_def pg_env_ok_def)
  obtain u where u: "ts_add E t0 ?lf = Some u" "j_status j = Running" "j_lease_owner j = Some (js_owner sc)"
    "j_lease_token j = Some tok" "j_lease_until j = Some u"
    using assms(6) by (auto simp: claim_Inr_iff pg_chrono_def whole)
  have "u = t0 + ?lf" using u(1) assms(2) by (simp add: pg_env_ok_def)
  with heartbeats_keep_lease [OF X' owner pos gap, of j tok t0 ts] u assms(7,8)
  show ?thesis by (simp add: whole pg_chrono_def)
qed

theorem heartbeats_protect_lease_witness:
  "\<exists>j. claim (pg_chrono chrono_ref (example_env 5)) 9 example_worker 5 3000000 example_job = (Inr 9, j) \<and>
     live_owner example_worker 9 3500005
       (snd (heartbeats (pg_chrono chrono_ref (example_env 5)) example_worker 9 3000000 [1500005] j))"
proof -
  let ?E = "example_env 5" and ?sc = "\<lparr>js_owner = example_worker, js_lease_for = 3000000, js_recovery_batch_limit = 10\<rparr>"
  let ?wc = "\<lparr>wc_allowed_job_types = all_job_types, wc_heartbeat_every = 2000000, wc_execution_timeout = 1\<rparr>"
  obtain j where c: "claim (pg_chrono chrono_ref ?E) 9 example_worker 5 3000000 example_job = (Inr 9, j)"
    by (simp add: example_job_eq job_eval pg_chrono_def example_env_def)
  have sc: "job_service_config_new chrono_ref example_worker 3000000 10 = Inr ?sc"
    by (simp add: job_service_config_new_def max_recovery_batch_limit_def job_eval)
  have l: "pg_lease chrono_ref (js_lease_for ?sc) = 3000000"
    by (simp add: pg_lease_def millis_def chrono_ref_def)
  have "validate_for_lease ?wc (js_lease_for ?sc) = Inr ()" "js_lease_for ?sc mod 1000000 = 0"
    "pg_env_ok ?E" "spaced (int (wc_heartbeat_every ?wc)) 5 [1500005]"
    "\<forall>t \<in> set [1500005]. ts_add ?E t (pg_lease chrono_ref (js_lease_for ?sc)) \<noteq> None"
    by (simp_all add: validate_for_lease_def to_std_def pg_env_ok_def example_env_def)
  with heartbeats_protect_lease [of chrono_ref ?E ?wc ?sc example_worker 3000000 10 9 5 example_job j "[1500005]"]
    sc c l show ?thesis by (simp del: heartbeats.simps)
qed


end
