(* ===== verification/Pacing.thy ===== *)
theory Pacing
  imports Complex_Main Prelude
begin

text \<open>
  Pacing and quiet hours: \<^verbatim>\<open>src/domain/pacing.rs\<close>, the controller of
  \<^verbatim>\<open>src/acquisition/pacing.rs\<close> that samples delays and plans scrolls, and the bounds that
  \<^verbatim>\<open>src/config.rs\<close> puts on configured delays.

  A \<^verbatim>\<open>f64\<close> is a finite value, an infinity or NaN; comparisons are exact on them. What the code
  takes from elsewhere is a parameter: the rounding of a division, the generator and its normal
  distribution, and the time zone. A panic is \<open>None\<close>.
\<close>

section \<open>Floating-point numbers and durations\<close>

datatype f64 = Fin rat | Inf bool | NaN

fun is_finite :: "f64 \<Rightarrow> bool" where
  "is_finite (Fin x) \<longleftrightarrow> True"
| "is_finite _ \<longleftrightarrow> False"

text \<open>\<open>Inf True\<close> is positive infinity.\<close>

fun f_less :: "f64 \<Rightarrow> f64 \<Rightarrow> bool" where
  "f_less (Fin x) (Fin y) \<longleftrightarrow> x < y"
| "f_less (Inf a) (Fin y) \<longleftrightarrow> \<not> a"
| "f_less (Fin x) (Inf b) \<longleftrightarrow> b"
| "f_less (Inf a) (Inf b) \<longleftrightarrow> \<not> a \<and> b"
| "f_less _ _ \<longleftrightarrow> False"

definition f_leq :: "f64 \<Rightarrow> f64 \<Rightarrow> bool" where
  "f_leq a b \<longleftrightarrow> f_less a b \<or> (a = b \<and> a \<noteq> NaN)"

text \<open>\<^verbatim>\<open>f64::clamp\<close> panics unless the bounds are ordered.\<close>

definition f_clamp :: "f64 \<Rightarrow> f64 \<Rightarrow> f64 \<Rightarrow> f64 option" where
  "f_clamp x lo hi =
     (if \<not> f_leq lo hi then None
      else if f_less x lo then Some lo else if f_less hi x then Some hi else Some x)"

type_synonym fdiv = "rat \<Rightarrow> rat \<Rightarrow> rat"

text \<open>
  The quotient of two finite numbers is rounded to a neighbouring \<^verbatim>\<open>f64\<close>: rounding is monotone
  and keeps the integers below \<open>2 ^ 53\<close>.
\<close>

definition fdiv_ok :: "fdiv \<Rightarrow> bool" where
  "fdiv_ok D \<longleftrightarrow>
     (\<forall>x y k. 0 < k \<longrightarrow> x \<le> y \<longrightarrow> D x k \<le> D y k) \<and>
     (\<forall>n k :: int. 0 < k \<longrightarrow> \<bar>n\<bar> < 2 ^ 53 \<longrightarrow> D (of_int (n * k)) (of_int k) = of_int n)"

lemma fdiv_exact:
  fixes n k :: int
  shows "fdiv_ok D \<Longrightarrow> 0 < k \<Longrightarrow> \<bar>n\<bar> < 2 ^ 53 \<Longrightarrow> D (of_int (n * k)) (of_int k) = of_int n"
  unfolding fdiv_ok_def by blast

fun f_div :: "fdiv \<Rightarrow> f64 \<Rightarrow> rat \<Rightarrow> f64" where
  "f_div D (Fin x) k = Fin (D x k)"
| "f_div D (Inf a) k = Inf a"
| "f_div D NaN k = NaN"

definition round_half_even :: "rat \<Rightarrow> int" where
  "round_half_even x =
     (let n = \<lfloor>x\<rfloor>; r = x - of_int n
      in if r < 1 / 2 then n else if r > 1 / 2 then n + 1 else if even n then n else n + 1)"

text \<open>
  \<^verbatim>\<open>Duration::from_secs_f64\<close>: nanoseconds, rounded to the nearest; it panics on a negative value,
  on NaN and when the seconds do not fit 64 bits.
\<close>

fun from_secs_f64 :: "f64 \<Rightarrow> duration option" where
  "from_secs_f64 (Fin x) =
     (if x < 0 then None
      else let n = round_half_even (x * 1000000000)
           in if n < 2 ^ 64 * 1000000000 then Some n else None)"
| "from_secs_f64 _ = None"

lemma round_half_even_mono:
  assumes "x \<le> y"
  shows "round_half_even x \<le> round_half_even y"
proof (cases "\<lfloor>x\<rfloor> = \<lfloor>y\<rfloor>")
  case True
  with assms show ?thesis
    by (auto simp: round_half_even_def Let_def)
next
  case False
  with assms have "\<lfloor>x\<rfloor> + 1 \<le> \<lfloor>y\<rfloor>"
    using floor_mono [OF assms] by linarith
  moreover have "round_half_even x \<le> \<lfloor>x\<rfloor> + 1" "\<lfloor>y\<rfloor> \<le> round_half_even y"
    by (auto simp: round_half_even_def Let_def)
  ultimately show ?thesis by linarith
qed

lemma round_half_even_of_int [simp]: "round_half_even (of_int n) = n"
  by (simp add: round_half_even_def)

lemma round_half_even_nonneg: "0 \<le> x \<Longrightarrow> 0 \<le> round_half_even x"
  using round_half_even_mono [of 0 x] round_half_even_of_int [of 0] by simp


section \<open>Delay distributions\<close>

datatype delay_kind = Request | PageNavigation | PageAction | ScrollSettle

datatype pacing_error =
    InvalidNumber string
  | InvalidBounds
  | EqualQuietHourEndpoints
  | InvalidScrollLimits
  | ScrollLimitTooLarge string

record delay_distribution =
  mean_ms :: f64
  stddev_ms :: f64
  min_ms :: f64
  max_ms :: f64

definition invalid_number :: "f64 \<Rightarrow> bool" where
  "invalid_number v \<longleftrightarrow> \<not> is_finite v \<or> f_less v (Fin 0)"

definition delay_distribution_new ::
    "f64 \<Rightarrow> f64 \<Rightarrow> f64 \<Rightarrow> f64 \<Rightarrow> pacing_error + delay_distribution" where
  "delay_distribution_new mean stddev lo hi =
     (case find (\<lambda>(field, v). invalid_number v)
             [(''mean_ms'', mean), (''stddev_ms'', stddev), (''min_ms'', lo), (''max_ms'', hi)] of
        Some (field, _) \<Rightarrow> Inl (InvalidNumber field)
      | None \<Rightarrow>
          if f_less hi lo then Inl InvalidBounds
          else Inr \<lparr>mean_ms = mean, stddev_ms = stddev, min_ms = lo, max_ms = hi\<rparr>)"

text \<open>
  The generator: \<^verbatim>\<open>Normal::sample\<close> of rand_distr for a finite standard deviation, and
  \<^verbatim>\<open>random_range(lo..=hi)\<close> of rand, which panics on an empty range.
\<close>

record 'g rng =
  normal_sample :: "f64 \<Rightarrow> f64 \<Rightarrow> 'g \<Rightarrow> f64 \<times> 'g"
  uniform_u32 :: "u32 \<Rightarrow> u32 \<Rightarrow> 'g \<Rightarrow> u32 \<times> 'g"

definition rng_ok :: "'g rng \<Rightarrow> bool" where
  "rng_ok R \<longleftrightarrow>
     (\<forall>m d g. is_finite m \<longrightarrow> is_finite d \<longrightarrow> fst (normal_sample R m d g) \<noteq> NaN) \<and>
     (\<forall>lo hi g. lo \<le> hi \<longrightarrow> lo \<le> fst (uniform_u32 R lo hi g) \<and> fst (uniform_u32 R lo hi g) \<le> hi)"

definition random_range :: "'g rng \<Rightarrow> u32 \<Rightarrow> u32 \<Rightarrow> 'g \<Rightarrow> (u32 \<times> 'g) option" where
  "random_range R lo hi g = (if lo \<le> hi then Some (uniform_u32 R lo hi g) else None)"

definition sample :: "fdiv \<Rightarrow> 'g rng \<Rightarrow> delay_distribution \<Rightarrow> 'g \<Rightarrow> (duration \<times> 'g) option" where
  "sample D R d g =
     (case (if stddev_ms d = Fin 0 then Some (mean_ms d, g)
            else if is_finite (stddev_ms d) then Some (normal_sample R (mean_ms d) (stddev_ms d) g)
            else None) of
        None \<Rightarrow> None
      | Some (sampled, g') \<Rightarrow>
          (case f_clamp sampled (min_ms d) (max_ms d) of
             None \<Rightarrow> None
           | Some bounded \<Rightarrow>
               map_option (\<lambda>delay. (delay, g')) (from_secs_f64 (f_div D bounded 1000))))"

definition dist_ok :: "delay_distribution \<Rightarrow> bool" where
  "dist_ok d \<longleftrightarrow>
     (\<exists>m s lo hi. d = \<lparr>mean_ms = Fin m, stddev_ms = Fin s, min_ms = Fin lo, max_ms = Fin hi\<rparr> \<and>
        0 \<le> m \<and> 0 \<le> s \<and> 0 \<le> lo \<and> lo \<le> hi)"

lemma finite_number: "\<not> invalid_number v \<longleftrightarrow> (\<exists>x. v = Fin x \<and> 0 \<le> x)"
  by (cases v) (auto simp: invalid_number_def not_less)

lemma delay_distribution_new_ok: "delay_distribution_new m s lo hi = Inr d \<Longrightarrow> dist_ok d"
  by (fastforce simp: delay_distribution_new_def dist_ok_def finite_number not_less
      split: if_splits option.splits)

lemma clamp_bounds:
  assumes "x \<noteq> NaN" "lo \<le> hi"
  obtains b where "f_clamp x (Fin lo) (Fin hi) = Some (Fin b)" "lo \<le> b" "b \<le> hi"
proof (cases x)
  case (Fin r)
  have "f_clamp x (Fin lo) (Fin hi) = Some (Fin (if r < lo then lo else if hi < r then hi else r))"
    using Fin assms(2) by (auto simp: f_clamp_def f_leq_def)
  then show thesis by (rule that) (use assms(2) in auto)
next
  case (Inf a)
  have "f_clamp x (Fin lo) (Fin hi) = Some (Fin (if a then hi else lo))"
    using Inf assms(2) by (auto simp: f_clamp_def f_leq_def)
  then show thesis by (rule that) (use assms(2) in auto)
qed (use assms in simp)

definition delay_of :: "fdiv \<Rightarrow> rat \<Rightarrow> duration" where
  "delay_of D ms = round_half_even (D ms 1000 * 1000000000)"

lemma delay_of_mono: "fdiv_ok D \<Longrightarrow> x \<le> y \<Longrightarrow> delay_of D x \<le> delay_of D y"
  by (simp add: delay_of_def fdiv_ok_def round_half_even_mono mult_right_mono)

lemma delay_of_nonneg: "fdiv_ok D \<Longrightarrow> 0 \<le> x \<Longrightarrow> 0 \<le> D x 1000"
proof -
  assume ok: "fdiv_ok D" and x: "0 \<le> x"
  have "D (of_int (0 * 1000)) (of_int 1000) = of_int 0"
    by (rule fdiv_exact [OF ok]) simp_all
  moreover have "D 0 1000 \<le> D x 1000"
    using ok x by (simp add: fdiv_ok_def)
  ultimately show ?thesis by simp
qed

lemma from_secs_delay:
  assumes "fdiv_ok D" "0 \<le> b" "b \<le> hi" "delay_of D hi < 2 ^ 64 * 1000000000"
  shows "from_secs_f64 (f_div D (Fin b) 1000) = Some (delay_of D b)"
  using assms delay_of_nonneg [OF assms(1,2)] delay_of_mono [OF assms(1,3)]
  by (auto simp: delay_of_def Let_def)

lemma sample_bounds:
  assumes D: "fdiv_ok D" and R: "rng_ok R" and d: "dist_ok d"
    and lo: "min_ms d = Fin lo" and hi: "max_ms d = Fin hi"
    and fits: "delay_of D hi < 2 ^ 64 * 1000000000"
  obtains delay g' where "sample D R d g = Some (delay, g')"
    "delay_of D lo \<le> delay" "delay \<le> delay_of D hi"
proof -
  from d lo hi obtain m s where eq: "mean_ms d = Fin m" "stddev_ms d = Fin s" and b: "0 \<le> lo" "lo \<le> hi"
    by (auto simp: dist_ok_def)
  obtain x g' where x: "(if stddev_ms d = Fin 0 then Some (mean_ms d, g)
            else if is_finite (stddev_ms d) then Some (normal_sample R (mean_ms d) (stddev_ms d) g)
            else None) = Some (x, g')" and nan: "x \<noteq> NaN"
    using R eq by (cases "s = 0"; cases "normal_sample R (Fin m) (Fin s) g")
      (auto simp: rng_ok_def, metis fst_conv is_finite.simps(1))
  from clamp_bounds [OF nan b(2)] obtain y
    where y: "f_clamp x (Fin lo) (Fin hi) = Some (Fin y)" "lo \<le> y" "y \<le> hi" .
  have "sample D R d g = Some (delay_of D y, g')"
    unfolding sample_def x using from_secs_delay [OF D _ y(3) fits] y(1,2) b(1) lo hi by simp
  with that y D show thesis using delay_of_mono by blast
qed

section \<open>Configured distributions\<close>

text \<open>\<^verbatim>\<open>bounded_delay\<close> and \<^verbatim>\<open>distribution\<close> of the configuration.\<close>

datatype pacing_config_error = InvalidValue string string | PacingErr pacing_error

definition max_configured_delay_ms :: f64 where
  "max_configured_delay_ms = Fin 300000"

definition bounded_delay :: "f64 option \<Rightarrow> string \<Rightarrow> pacing_config_error + f64 option" where
  "bounded_delay value variable =
     (case value of
        None \<Rightarrow> Inr None
      | Some v \<Rightarrow>
          if \<not> is_finite v \<or> f_less v (Fin 0)
          then Inl (InvalidValue variable ''must be finite and non-negative'')
          else if f_less max_configured_delay_ms v
          then Inl (InvalidValue variable ''exceeds the maximum supported delay'')
          else Inr (Some v))"

definition unwrap_or :: "'a option \<Rightarrow> 'a \<Rightarrow> 'a" where
  "unwrap_or x d = (case x of None \<Rightarrow> d | Some y \<Rightarrow> y)"

definition configured_distribution ::
    "f64 option \<Rightarrow> f64 option \<Rightarrow> f64 option \<Rightarrow> f64 option \<Rightarrow> f64 \<times> f64 \<times> f64 \<times> f64 \<Rightarrow>
     pacing_config_error + delay_distribution" where
  "configured_distribution mean stddev lo hi defaults =
     bindE (bounded_delay mean ''PACING_DELAY_MEAN_MS'') (\<lambda>mean.
     bindE (bounded_delay stddev ''PACING_DELAY_STDDEV_MS'') (\<lambda>stddev.
     bindE (bounded_delay lo ''PACING_DELAY_MIN_MS'') (\<lambda>lo.
     bindE (bounded_delay hi ''PACING_DELAY_MAX_MS'') (\<lambda>hi.
       (case defaults of (default_mean, default_stddev, default_min, default_max) \<Rightarrow>
          map_err PacingErr (delay_distribution_new (unwrap_or mean default_mean)
            (unwrap_or stddev default_stddev) (unwrap_or lo default_min)
            (unwrap_or hi default_max)))))))"

text \<open>The defaults the configuration passes for the four operation kinds.\<close>

fun distribution_defaults :: "delay_kind \<Rightarrow> f64 \<times> f64 \<times> f64 \<times> f64" where
  "distribution_defaults Request = (Fin 2000, Fin 250, Fin 1000, Fin 4000)"
| "distribution_defaults PageNavigation = (Fin 3000, Fin 500, Fin 1500, Fin 7000)"
| "distribution_defaults PageAction = (Fin 1000, Fin 200, Fin 500, Fin 3000)"
| "distribution_defaults ScrollSettle = (Fin 1000, Fin 200, Fin 500, Fin 3000)"

lemma bounded_delay_ok:
  "bounded_delay v var = Inr r \<Longrightarrow> r = v \<and> (\<forall>x. v = Some (Fin x) \<longrightarrow> 0 \<le> x \<and> x \<le> 300000)"
  by (auto simp: bounded_delay_def max_configured_delay_ms_def split: option.splits if_splits)

lemma default_max_bounded:
  "distribution_defaults kind = (m, s, lo, hi) \<Longrightarrow> hi = Fin x \<Longrightarrow> x \<le> 300000"
  by (cases kind) auto

lemma distribution_new_fields:
  "delay_distribution_new m s lo hi = Inr d \<Longrightarrow> min_ms d = lo \<and> max_ms d = hi"
  by (auto simp: delay_distribution_new_def split: if_splits option.splits)

lemma configured_distribution_ok:
  assumes "configured_distribution mean stddev lo hi (distribution_defaults kind) = Inr d"
  shows "dist_ok d" "\<exists>l h. min_ms d = Fin l \<and> max_ms d = Fin h \<and> 0 \<le> l \<and> h \<le> 300000"
proof -
  obtain dm ds dl dh where def: "distribution_defaults kind = (dm, ds, dl, dh)"
    by (cases "distribution_defaults kind")
  from assms have new: "delay_distribution_new (unwrap_or mean dm) (unwrap_or stddev ds)
      (unwrap_or lo dl) (unwrap_or hi dh) = Inr d"
    and hi: "\<forall>x. hi = Some (Fin x) \<longrightarrow> 0 \<le> x \<and> x \<le> 300000"
    by (auto simp: configured_distribution_def def bindE_eq_Inr dest!: bounded_delay_ok)
  from new show ok: "dist_ok d" by (rule delay_distribution_new_ok)
  then obtain l h where lh: "min_ms d = Fin l" "max_ms d = Fin h" "0 \<le> l" by (auto simp: dist_ok_def)
  with distribution_new_fields [OF new] have h: "unwrap_or hi dh = Fin h" by simp
  have "h \<le> 300000"
  proof (cases hi)
    case None
    with h show ?thesis using default_max_bounded [OF def] by (simp add: unwrap_or_def)
  next
    case (Some v)
    with h hi show ?thesis by (simp add: unwrap_or_def)
  qed
  with lh show "\<exists>l h. min_ms d = Fin l \<and> max_ms d = Fin h \<and> 0 \<le> l \<and> h \<le> 300000" by blast
qed

lemma delay_of_max: "fdiv_ok D \<Longrightarrow> delay_of D 300000 = 300 * 1000000000"
  using fdiv_exact [of D 1000 300] round_half_even_of_int [of "300 * 1000000000"]
  by (simp add: delay_of_def)

lemma configured_sample:
  assumes D: "fdiv_ok D" and R: "rng_ok R"
    and d: "configured_distribution mean stddev lo hi (distribution_defaults kind) = Inr d"
  obtains delay g' where "sample D R d g = Some (delay, g')" "0 \<le> delay" "delay \<le> 300 * 1000000000"
proof -
  from configured_distribution_ok(2) [OF d] obtain l h
    where lh: "min_ms d = Fin l" "max_ms d = Fin h" "0 \<le> l" "h \<le> 300000" by blast
  have top: "delay_of D h \<le> 300 * 1000000000"
    using delay_of_mono [OF D lh(4)] delay_of_max [OF D] by simp
  then have fits: "delay_of D h < 2 ^ 64 * 1000000000" by simp
  have low: "0 \<le> delay_of D l"
    using delay_of_nonneg [OF D lh(3)] by (simp add: delay_of_def round_half_even_nonneg)
  from sample_bounds [OF D R configured_distribution_ok(1) [OF d] lh(1,2) fits]
  obtain delay g' where "sample D R d g = Some (delay, g')" "delay_of D l \<le> delay" "delay \<le> delay_of D h" .
  with that low top show thesis by force
qed


section \<open>Policies and scroll plans\<close>

definition max_scroll_steps_limit :: u32 where
  "max_scroll_steps_limit = 64"

definition max_scroll_pixels_limit :: u32 where
  "max_scroll_pixels_limit = 1000000"

record pacing_policy =
  pp_request :: delay_distribution
  pp_page_navigation :: delay_distribution
  pp_page_action :: delay_distribution
  pp_scroll_settle :: delay_distribution
  pp_max_scroll_steps :: u32
  pp_max_scroll_pixels :: u32
  pp_max_page_operation :: duration

definition pacing_policy_new ::
    "delay_distribution \<Rightarrow> delay_distribution \<Rightarrow> delay_distribution \<Rightarrow> delay_distribution \<Rightarrow> u32 \<Rightarrow> u32 \<Rightarrow>
     duration \<Rightarrow> pacing_error + pacing_policy" where
  "pacing_policy_new request page_navigation page_action scroll_settle max_steps max_pixels max_op =
     (if max_steps = 0 \<or> max_pixels = 0 \<or> max_op = 0 then Inl InvalidScrollLimits
      else if max_steps > max_scroll_steps_limit
      then Inl (ScrollLimitTooLarge ''max_scroll_steps'')
      else if max_pixels > max_scroll_pixels_limit
      then Inl (ScrollLimitTooLarge ''max_scroll_pixels'')
      else Inr \<lparr>pp_request = request, pp_page_navigation = page_navigation,
                pp_page_action = page_action, pp_scroll_settle = scroll_settle,
                pp_max_scroll_steps = max_steps, pp_max_scroll_pixels = max_pixels,
                pp_max_page_operation = max_op\<rparr>)"

fun policy_distribution :: "pacing_policy \<Rightarrow> delay_kind \<Rightarrow> delay_distribution" where
  "policy_distribution p Request = pp_request p"
| "policy_distribution p PageNavigation = pp_page_navigation p"
| "policy_distribution p PageAction = pp_page_action p"
| "policy_distribution p ScrollSettle = pp_scroll_settle p"

definition sample_delay ::
    "fdiv \<Rightarrow> 'g rng \<Rightarrow> pacing_policy \<Rightarrow> delay_kind \<Rightarrow> 'g \<Rightarrow> (duration \<times> 'g) option" where
  "sample_delay D R p kind g = sample D R (policy_distribution p kind) g"

text \<open>
  Unsigned subtraction and multiplication panic on overflow (in a build with overflow checks;
  the theorems show that no overflow occurs, so the build profile makes no difference).
\<close>

definition sub_u32 :: "u32 \<Rightarrow> u32 \<Rightarrow> u32 option" where
  "sub_u32 a b = (if b \<le> a then Some (a - b) else None)"

definition mul_u32 :: "u32 \<Rightarrow> u32 \<Rightarrow> u32 option" where
  "mul_u32 a b = (if unat a * unat b < 2 ^ 32 then Some (a * b) else None)"

definition saturating_sub_u32 :: "u32 \<Rightarrow> u32 \<Rightarrow> u32" where
  "saturating_sub_u32 a b = (if b \<le> a then a - b else 0)"

record scroll_step =
  distance :: u32
  settle_for :: duration

fun scroll_steps ::
    "fdiv \<Rightarrow> 'g rng \<Rightarrow> pacing_policy \<Rightarrow> u32 \<Rightarrow> u32 \<Rightarrow> u32 \<Rightarrow> nat list \<Rightarrow> u32 \<Rightarrow> 'g \<Rightarrow>
     (scroll_step list \<times> 'g) option" where
  "scroll_steps D R p viewport minimum step_count [] remaining g = Some ([], g)"
| "scroll_steps D R p viewport minimum step_count (index # rest) remaining g =
     Option.bind (sub_u32 step_count (of_nat index)) (\<lambda>left.
     Option.bind (sub_u32 left 1) (\<lambda>remaining_steps.
     Option.bind (mul_u32 remaining_steps minimum) (\<lambda>reserved.
     let maximum = max (min (saturating_sub_u32 remaining reserved) viewport) minimum
     in Option.bind (random_range R minimum maximum g) (\<lambda>(dist, g1).
     Option.bind (sub_u32 remaining dist) (\<lambda>remaining'.
     Option.bind (sample D R (policy_distribution p ScrollSettle) g1) (\<lambda>(delay, g2).
     Option.bind (scroll_steps D R p viewport minimum step_count rest remaining' g2)
       (\<lambda>(steps, g3). Some (\<lparr>distance = dist, settle_for = delay\<rparr> # steps, g3))))))))"

definition minimum_distance :: "u32 \<Rightarrow> u32 \<Rightarrow> u32" where
  "minimum_distance viewport max_pixels = min (max (viewport div 2) 1) max_pixels"

definition maximum_steps :: "pacing_policy \<Rightarrow> u32 \<Rightarrow> u32" where
  "maximum_steps p minimum =
     max (min (pp_max_scroll_steps p) (pp_max_scroll_pixels p div minimum)) 1"

definition scroll_plan ::
    "fdiv \<Rightarrow> 'g rng \<Rightarrow> pacing_policy \<Rightarrow> u32 \<Rightarrow> 'g \<Rightarrow> (scroll_step list \<times> 'g) option" where
  "scroll_plan D R p viewport_height g =
     (let max_pixels = pp_max_scroll_pixels p;
          viewport = max viewport_height 1;
          minimum = minimum_distance viewport max_pixels
      in if minimum = 0 then None
         else Option.bind (random_range R 1 (maximum_steps p minimum) g) (\<lambda>(step_count, g1).
           scroll_steps D R p viewport minimum step_count [0..<unat step_count] max_pixels g1))"

lemma sub_u32_Some:
  assumes "b \<le> a"
  shows "sub_u32 a b = Some (a - b)" "unat (a - b) = unat a - unat b"
  using assms by (simp_all add: sub_u32_def unat_sub)

lemma mul_u32_Some:
  assumes "unat a * unat b < 2 ^ 32"
  shows "mul_u32 a b = Some (a * b)" "unat (a * b) = unat a * unat b"
  using assms by (simp_all add: mul_u32_def unat_word_ariths)

lemma u32_index:
  assumes "i < unat (n :: u32)"
  shows "(of_nat i :: u32) \<le> n" "unat (of_nat i :: u32) = i"
proof -
  have "i < 2 ^ 32" using assms unsigned_less [of n, where ?'a = nat] by simp
  then show "unat (of_nat i :: u32) = i" by (simp add: unat_of_nat)
  with assms show "(of_nat i :: u32) \<le> n" by (simp add: word_le_nat_alt)
qed

text \<open>The pixels reserved for the remaining steps leave room for at least the minimum.\<close>

lemma scroll_room:
  fixes n minimum remaining viewport :: u32
  assumes i: "i < unat n" and room: "(unat n - i) * unat minimum \<le> unat remaining"
    and vp: "minimum \<le> viewport"
  defines "rs \<equiv> n - of_nat i - 1"
  defines "maximum \<equiv> max (min (saturating_sub_u32 remaining (rs * minimum)) viewport) minimum"
  shows "sub_u32 n (of_nat i) = Some (n - of_nat i)"
    "sub_u32 (n - of_nat i) 1 = Some rs"
    "mul_u32 rs minimum = Some (rs * minimum)"
    "minimum \<le> maximum" "maximum \<le> viewport"
    "unat maximum + (unat n - Suc i) * unat minimum \<le> unat remaining"
proof -
  note idx = u32_index [OF i]
  have left: "unat (n - of_nat i) = unat n - i" using sub_u32_Some(2) [OF idx(1)] idx(2) by simp
  show "sub_u32 n (of_nat i) = Some (n - of_nat i)" by (rule sub_u32_Some(1) [OF idx(1)])
  have one: "1 \<le> n - of_nat i" using left i by (simp add: word_le_nat_alt)
  show "sub_u32 (n - of_nat i) 1 = Some rs" unfolding rs_def by (rule sub_u32_Some(1) [OF one])
  have rs: "unat rs = unat n - Suc i" unfolding rs_def using sub_u32_Some(2) [OF one] left by simp
  have split: "unat minimum + (unat n - Suc i) * unat minimum = (unat n - i) * unat minimum"
    using i by (metis Suc_diff_Suc mult_Suc)
  have small: "unat rs * unat minimum < 2 ^ 32"
    using rs split room unsigned_less [of remaining, where ?'a = nat] by simp
  show "mul_u32 rs minimum = Some (rs * minimum)" by (rule mul_u32_Some(1) [OF small])
  have res: "unat (rs * minimum) = (unat n - Suc i) * unat minimum"
    using mul_u32_Some(2) [OF small] rs by simp
  then have le: "rs * minimum \<le> remaining" using split room by (simp add: word_le_nat_alt)
  have spare: "unat (remaining - rs * minimum) = unat remaining - (unat n - Suc i) * unat minimum"
    using unat_sub [OF le] res by simp
  then have "minimum \<le> remaining - rs * minimum" using split room by (simp add: word_le_nat_alt)
  then have max_eq: "maximum = min (remaining - rs * minimum) viewport"
    using vp le by (simp add: maximum_def saturating_sub_u32_def max_absorb1)
  show "minimum \<le> maximum" by (simp add: maximum_def)
  show "maximum \<le> viewport" by (simp add: max_eq)
  have "maximum \<le> remaining - rs * minimum" by (simp add: max_eq)
  then have "unat maximum \<le> unat (remaining - rs * minimum)" by (simp add: word_le_nat_alt)
  then show "unat maximum + (unat n - Suc i) * unat minimum \<le> unat remaining"
    using spare split room by linarith
qed

definition plan_within :: "u32 \<Rightarrow> u32 \<Rightarrow> nat \<Rightarrow> scroll_step list \<Rightarrow> bool" where
  "plan_within minimum viewport pixels steps \<longleftrightarrow>
     (\<forall>st \<in> set steps. minimum \<le> distance st \<and> distance st \<le> viewport) \<and>
     sum_list (map (unat \<circ> distance) steps) \<le> pixels"

lemma scroll_steps_ok:
  assumes R: "rng_ok R"
    and settle: "\<And>g. \<exists>delay g'. sample D R (policy_distribution p ScrollSettle) g = Some (delay, g')"
    and vp: "minimum \<le> viewport"
    and room: "(unat n - i) * unat minimum \<le> unat remaining"
  shows "\<exists>steps g'. scroll_steps D R p viewport minimum n [i..<unat n] remaining g = Some (steps, g') \<and>
           length steps = unat n - i \<and> plan_within minimum viewport (unat remaining) steps"
  using room
proof (induction "unat n - i" arbitrary: i remaining g)
  case 0
  then show ?case by (simp add: plan_within_def)
next
  case (Suc k)
  then have i: "i < unat n" by simp
  note st = scroll_room [OF i Suc.prems vp]
  define rs where "rs = n - of_nat i - 1"
  define maximum where
    "maximum = max (min (saturating_sub_u32 remaining (rs * minimum)) viewport) minimum"
  note st = st [folded rs_def, folded maximum_def]
  obtain d g1 where d: "uniform_u32 R minimum maximum g = (d, g1)" by fastforce
  with R st(4) have range: "minimum \<le> d" "d \<le> maximum" by (auto simp: rng_ok_def) (metis fst_conv)+
  from settle obtain delay g2 where s2: "sample D R (policy_distribution p ScrollSettle) g1 = Some (delay, g2)"
    by blast
  have dn: "unat d \<le> unat maximum" using range(2) by (simp add: word_le_nat_alt)
  then have dr: "d \<le> remaining" using st(6) by (simp add: word_le_nat_alt)
  have room': "(unat n - Suc i) * unat minimum \<le> unat (remaining - d)"
    using st(6) dn unat_sub [OF dr] by linarith
  from Suc.hyps(1) [OF _ room'] Suc.hyps(2) obtain steps g3
    where rec: "scroll_steps D R p viewport minimum n [Suc i..<unat n] (remaining - d) g2 = Some (steps, g3)"
      "length steps = unat n - Suc i" "plan_within minimum viewport (unat (remaining - d)) steps"
    by (metis diff_Suc_1 Suc_diff_Suc i)
  have "scroll_steps D R p viewport minimum n [i..<unat n] remaining g =
      Some (\<lparr>distance = d, settle_for = delay\<rparr> # steps, g3)"
    using i st(1-4) d s2 rec(1) sub_u32_Some(1) [OF dr]
    by (simp add: upt_conv_Cons random_range_def Let_def maximum_def del: policy_distribution.simps)
  moreover have "plan_within minimum viewport (unat remaining) (\<lparr>distance = d, settle_for = delay\<rparr> # steps)"
    using rec(3) range st(5) unat_sub [OF dr] dr by (auto simp: plan_within_def word_le_nat_alt)
  ultimately show ?case using rec(2) i by auto
qed

lemma u32_half: "unat (viewport div 2 :: u32) = unat viewport div 2"
  by (simp add: unat_div_distrib)

lemma minimum_distance_bounds:
  assumes "1 \<le> viewport" "0 < max_pixels"
  shows "0 < minimum_distance viewport max_pixels" "minimum_distance viewport max_pixels \<le> max_pixels"
    "minimum_distance viewport max_pixels \<le> viewport"
proof -
  have "viewport div 2 \<le> viewport" by (simp add: word_le_nat_alt u32_half)
  with assms show "minimum_distance viewport max_pixels \<le> viewport"
    by (simp add: minimum_distance_def min.coboundedI1)
  have "0 < max (viewport div 2) (1 :: u32)"
    by (metis max.strict_coboundedI2 word_less_1 zero_neq_one word_neq_0_conv)
  with assms(2) show "0 < minimum_distance viewport max_pixels" by (simp add: minimum_distance_def)
  show "minimum_distance viewport max_pixels \<le> max_pixels" by (simp add: minimum_distance_def)
qed

lemma maximum_steps_room:
  assumes "0 < minimum" "minimum \<le> pp_max_scroll_pixels p" "n \<le> maximum_steps p minimum"
  shows "unat n * unat minimum \<le> unat (pp_max_scroll_pixels p)"
    "0 < pp_max_scroll_steps p \<Longrightarrow> n \<le> pp_max_scroll_steps p"
proof -
  let ?px = "unat (pp_max_scroll_pixels p)" and ?q = "pp_max_scroll_pixels p div minimum"
  have q: "unat ?q = ?px div unat minimum" by (simp add: unat_div_distrib)
  have m: "0 < unat minimum" "unat minimum \<le> ?px"
    using assms(1,2) by (simp_all add: word_less_nat_alt word_le_nat_alt)
  then have "1 \<le> unat ?q" by (simp add: q div_greater_zero_iff Suc_leI)
  then have one: "1 \<le> ?q" by (simp add: word_le_nat_alt)
  have "n \<le> ?q"
    using assms(3) one unfolding maximum_steps_def by (auto simp: max_def min_def split: if_splits)
  then have "unat n \<le> ?px div unat minimum" using q by (simp add: word_le_nat_alt)
  then have "unat n * unat minimum \<le> ?px div unat minimum * unat minimum" by (rule mult_le_mono1)
  then show "unat n * unat minimum \<le> ?px"
    using div_times_less_eq_dividend le_trans by blast
  assume "0 < pp_max_scroll_steps p"
  then have "1 \<le> pp_max_scroll_steps p" by (simp add: word_le_nat_alt word_less_nat_alt)
  with assms(3) show "n \<le> pp_max_scroll_steps p"
    unfolding maximum_steps_def by (auto simp: max_def min_def split: if_splits)
qed

text \<open>
  A scroll plan is bounded. For every policy that \<^verbatim>\<open>PacingPolicy::new\<close> accepts with a
  configured settle distribution, every viewport height and every generator, planning returns
  (no subtraction or product overflows and no range is empty) between one and the permitted number
  of steps; every step moves at least half a viewport (or the whole pixel budget, if that is
  less) and at most one viewport, and the total distance stays within the pixel budget.
\<close>

theorem scroll_plan_bounded:
  assumes D: "fdiv_ok D" and R: "rng_ok R"
    and policy: "pacing_policy_new rq nav act settle max_steps max_pixels max_op = Inr p"
    and conf: "configured_distribution mean stddev lo hi (distribution_defaults ScrollSettle) = Inr settle"
  shows "\<exists>steps g'. scroll_plan D R p viewport_height g = Some (steps, g') \<and>
           1 \<le> length steps \<and> length steps \<le> unat max_steps \<and>
           plan_within (minimum_distance (max viewport_height 1) max_pixels) (max viewport_height 1)
             (unat max_pixels) steps"
proof -
  from policy have p: "pp_scroll_settle p = settle" "pp_max_scroll_steps p = max_steps"
    "pp_max_scroll_pixels p = max_pixels" "max_steps \<noteq> 0" "max_pixels \<noteq> 0"
    by (auto simp: pacing_policy_new_def split: if_splits)
  define vp where "vp = max viewport_height 1"
  define mini where "mini = minimum_distance vp max_pixels"
  have px: "0 < max_pixels" using p(5) by (simp add: word_neq_0_conv)
  have vp1: "1 \<le> vp" by (simp add: vp_def)
  note mb = minimum_distance_bounds [OF vp1 px, folded mini_def]
  have top: "1 \<le> maximum_steps p mini" by (simp add: maximum_steps_def)
  obtain n g1 where n: "uniform_u32 R 1 (maximum_steps p mini) g = (n, g1)" by fastforce
  with R top have range: "1 \<le> n" "n \<le> maximum_steps p mini"
    by (auto simp: rng_ok_def) (metis fst_conv)+
  have room: "(unat n - 0) * unat mini \<le> unat max_pixels"
    using maximum_steps_room(1) [OF mb(1) _ range(2)] mb(2) p(3) by simp
  have settle: "\<exists>delay g'. sample D R (policy_distribution p ScrollSettle) g = Some (delay, g')" for g
    using configured_sample [OF D R conf] p(1) by (metis policy_distribution.simps(4))
  from scroll_steps_ok [OF R settle mb(3) room, where g = g1] obtain steps g'
    where st: "scroll_steps D R p vp mini n [0..<unat n] max_pixels g1 = Some (steps, g')"
      "length steps = unat n" "plan_within mini vp (unat max_pixels) steps"
    by auto
  have plan: "scroll_plan D R p viewport_height g = Some (steps, g')"
    using st(1) n top mb(1) p(3) by (simp add: scroll_plan_def Let_def vp_def mini_def random_range_def)
  have "n \<le> max_steps"
    using maximum_steps_room(2) [OF mb(1) _ range(2)] mb(2) p by (simp add: word_neq_0_conv)
  then have "1 \<le> length steps" "length steps \<le> unat max_steps"
    using range(1) st(2) by (simp_all add: word_le_nat_alt)
  with plan st(3) show ?thesis by (auto simp: vp_def mini_def)
qed

definition example_rng :: "nat rng" where
  "example_rng =
     \<lparr>normal_sample = (\<lambda>m d g. (if even g then m else Inf (even (g div 2)), g + 1)),
      uniform_u32 = (\<lambda>lo hi g. (if even g then lo else hi, g + 1))\<rparr>"

definition exact_div :: fdiv where
  "exact_div x y = x / y"

lemma example_rng_ok: "rng_ok example_rng"
  by (auto simp: rng_ok_def example_rng_def)

lemma exact_div_ok: "fdiv_ok exact_div"
  by (simp add: fdiv_ok_def exact_div_def divide_right_mono)

definition example_settle :: delay_distribution where
  "example_settle = \<lparr>mean_ms = Fin 1000, stddev_ms = Fin 200, min_ms = Fin 500, max_ms = Fin 3000\<rparr>"

definition example_pacing :: pacing_policy where
  "example_pacing =
     \<lparr>pp_request = example_settle, pp_page_navigation = example_settle,
      pp_page_action = example_settle, pp_scroll_settle = example_settle,
      pp_max_scroll_steps = 5, pp_max_scroll_pixels = 3000, pp_max_page_operation = 60000000000\<rparr>"

lemma example_settle_configured:
  "configured_distribution None None None None (distribution_defaults ScrollSettle) = Inr example_settle"
  by (simp add: configured_distribution_def bounded_delay_def unwrap_or_def
      delay_distribution_new_def example_settle_def invalid_number_def)

lemma example_pacing_policy:
  "pacing_policy_new example_settle example_settle example_settle example_settle 5 3000 60000000000 =
     Inr example_pacing"
  by (simp add: pacing_policy_new_def example_pacing_def max_scroll_steps_limit_def
      max_scroll_pixels_limit_def word_less_nat_alt)

theorem scroll_plan_bounded_witness:
  "\<exists>steps g'. scroll_plan exact_div example_rng example_pacing 800 (1 :: nat) = Some (steps, g') \<and>
     1 \<le> length steps \<and> length steps \<le> unat (5 :: u32) \<and>
     plan_within (minimum_distance (max 800 1) 3000) (max 800 1) (unat (3000 :: u32)) steps"
  by (rule scroll_plan_bounded [OF exact_div_ok example_rng_ok example_pacing_policy
        example_settle_configured])

text \<open>
  Configured delays are bounded and sampling them never panics: for every operation kind and
  every setting that the configuration accepts, \<^verbatim>\<open>sample\<close> returns a delay between zero and the
  five minutes of \<^verbatim>\<open>MAX_CONFIGURED_DELAY_MS\<close>, inside the configured bounds, whatever the
  generator draws (infinities included).
\<close>

theorem configured_delays_bounded:
  assumes D: "fdiv_ok D" and R: "rng_ok R"
    and conf: "configured_distribution mean stddev lo hi (distribution_defaults kind) = Inr d"
  shows "\<exists>delay g' l h. sample D R d g = Some (delay, g') \<and> 0 \<le> delay \<and> delay \<le> 300 * 1000000000 \<and>
           min_ms d = Fin l \<and> max_ms d = Fin h \<and> delay_of D l \<le> delay \<and> delay \<le> delay_of D h"
proof -
  from configured_distribution_ok(2) [OF conf] obtain l h
    where lh: "min_ms d = Fin l" "max_ms d = Fin h" "h \<le> 300000" by blast
  have fits: "delay_of D h < 2 ^ 64 * 1000000000"
    using delay_of_mono [OF D lh(3)] delay_of_max [OF D] by simp
  from configured_sample [OF D R conf] obtain delay g'
    where s: "sample D R d g = Some (delay, g')" "0 \<le> delay" "delay \<le> 300 * 1000000000" .
  from sample_bounds [OF D R configured_distribution_ok(1) [OF conf] lh(1,2) fits, where g = g]
  have "delay_of D l \<le> delay" "delay \<le> delay_of D h" using s(1) by (metis Pair_inject option.inject)+
  with s lh show ?thesis by blast
qed

theorem configured_delays_bounded_witness:
  "\<exists>delay g' l h. sample exact_div example_rng example_settle (1 :: nat) = Some (delay, g') \<and>
     0 \<le> delay \<and> delay \<le> 300 * 1000000000 \<and> min_ms example_settle = Fin l \<and>
     max_ms example_settle = Fin h \<and> delay_of exact_div l \<le> delay \<and> delay \<le> delay_of exact_div h"
  by (rule configured_delays_bounded [OF exact_div_ok example_rng_ok example_settle_configured])


section \<open>Quiet hours\<close>

text \<open>
  A naive local date-time is a number of nanoseconds on the local calendar; its date is the number
  of whole days and its time of day the rest. A time zone of chrono_tz is the offset in force at an
  instant, the instants of a local date-time, and the successor of a date.
\<close>

datatype 'a local_result = LNone | LSingle 'a | LAmbiguous 'a 'a

record tz =
  utc_offset :: "datetime \<Rightarrow> duration"
  from_local_datetime :: "int \<Rightarrow> datetime local_result"
  succ_opt :: "int \<Rightarrow> int option"

definition day :: int where
  "day = 86400000000000"

definition local_of :: "tz \<Rightarrow> datetime \<Rightarrow> int" where
  "local_of z t = t + utc_offset z t"

definition local_date :: "tz \<Rightarrow> datetime \<Rightarrow> int" where
  "local_date z t = local_of z t div day"

definition local_time :: "tz \<Rightarrow> datetime \<Rightarrow> int" where
  "local_time z t = local_of z t mod day"

definition and_time :: "int \<Rightarrow> int \<Rightarrow> int" where
  "and_time date time = date * day + time"

text \<open>
  What the code relies on: \<^verbatim>\<open>from_local_datetime\<close> returns exactly the instants with the given
  local date-time; \<^verbatim>\<open>succ_opt\<close> is the next day; and a clock that was put back runs through the
  repeated local times again.
\<close>

definition tz_ok :: "tz \<Rightarrow> bool" where
  "tz_ok z \<longleftrightarrow>
     (\<forall>l. case from_local_datetime z l of
            LNone \<Rightarrow> \<forall>t. local_of z t \<noteq> l
          | LSingle a \<Rightarrow> \<forall>t. local_of z t = l \<longleftrightarrow> t = a
          | LAmbiguous a b \<Rightarrow> \<forall>t. local_of z t = l \<longleftrightarrow> t = a \<or> t = b) \<and>
     (\<forall>d d'. succ_opt z d = Some d' \<longrightarrow> d' = d + 1) \<and>
     (\<forall>t u. t \<le> u \<longrightarrow> local_of z u < local_of z t \<longrightarrow> (\<exists>w. u \<le> w \<and> local_of z w = local_of z t))"

record quiet_hours =
  q_timezone :: tz
  q_start :: int
  q_end :: int

definition quiet_hours_new :: "tz \<Rightarrow> int \<Rightarrow> int \<Rightarrow> pacing_error + quiet_hours" where
  "quiet_hours_new timezone start end_time =
     (if start = end_time then Inl EqualQuietHourEndpoints
      else Inr \<lparr>q_timezone = timezone, q_start = start, q_end = end_time\<rparr>)"

definition is_quiet_at :: "quiet_hours \<Rightarrow> datetime \<Rightarrow> bool" where
  "is_quiet_at q instant =
     (let time = local_time (q_timezone q) instant
      in if q_start q < q_end q then time \<ge> q_start q \<and> time < q_end q
         else time \<ge> q_start q \<or> time < q_end q)"

definition quiet_end_date :: "quiet_hours \<Rightarrow> datetime \<Rightarrow> int option" where
  "quiet_end_date q instant =
     (let z = q_timezone q
      in if q_start q < q_end q \<or> local_time z instant < q_end q then Some (local_date z instant)
         else succ_opt z (local_date z instant))"

definition next_allowed_at :: "quiet_hours \<Rightarrow> datetime \<Rightarrow> datetime option" where
  "next_allowed_at q instant =
     (if \<not> is_quiet_at q instant then Some instant
      else case quiet_end_date q instant of
        None \<Rightarrow> None
      | Some end_date \<Rightarrow>
          (case from_local_datetime (q_timezone q) (and_time end_date (q_end q)) of
             LSingle end_at \<Rightarrow> Some end_at
           | LAmbiguous first second \<Rightarrow> Some (max first second)
           | LNone \<Rightarrow> None))"

lemma day_pos [simp]: "0 < day"
  by (simp add: day_def)

lemma local_split: "local_of z t = and_time (local_date z t) (local_time z t)"
  by (simp add: local_date_def local_time_def and_time_def)

lemma local_time_range: "0 \<le> local_time z t" "local_time z t < day"
  by (simp_all add: local_time_def)

lemma and_time_parts:
  assumes "0 \<le> time" "time < day"
  shows "and_time d time mod day = time" "and_time d time div day = d"
  using assms by (simp_all add: and_time_def)

lemma and_time_less:
  assumes "d < d'" "t < day" "0 \<le> t'"
  shows "and_time d t < and_time d' t'"
proof -
  have "(d + 1) * day \<le> d' * day" using assms(1) by (intro mult_right_mono) (auto simp: day_def)
  with assms show ?thesis by (simp add: and_time_def distrib_right)
qed

lemma and_time_lex:
  assumes "and_time d t \<le> and_time d' t'" "t' < day" "0 \<le> t"
  shows "d < d' \<or> d = d' \<and> t \<le> t'"
  using and_time_less [of d' d t' t] assms by (cases d d' rule: linorder_cases) (auto simp: and_time_def)

text \<open>The latest instant with a given local time, as \<^verbatim>\<open>next_allowed_at\<close> picks it.\<close>

lemma latest_instant:
  assumes z: "tz_ok z"
    and pick: "(case from_local_datetime z l of LSingle a \<Rightarrow> Some a
                | LAmbiguous a b \<Rightarrow> Some (max a b) | LNone \<Rightarrow> None) = Some u"
  shows "local_of z u = l" "\<And>t. local_of z t = l \<Longrightarrow> t \<le> u" "\<And>t. local_of z t < l \<Longrightarrow> t < u"
proof -
  from z have fl: "case from_local_datetime z l of
            LNone \<Rightarrow> \<forall>t. local_of z t \<noteq> l
          | LSingle a \<Rightarrow> \<forall>t. local_of z t = l \<longleftrightarrow> t = a
          | LAmbiguous a b \<Rightarrow> \<forall>t. local_of z t = l \<longleftrightarrow> t = a \<or> t = b"
    unfolding tz_ok_def by blast
  show u: "local_of z u = l"
    using fl pick by (auto split: local_result.splits simp: max_def split: if_splits)
  show last: "t \<le> u" if "local_of z t = l" for t
    using fl pick that by (auto split: local_result.splits simp: max_def split: if_splits)
  show "t < u" if t: "local_of z t < l" for t
  proof (rule ccontr)
    assume "\<not> t < u"
    then have "u \<le> t" by simp
    with z t u obtain w where "t \<le> w" "local_of z w = local_of z u" unfolding tz_ok_def by blast
    with last u \<open>u \<le> t\<close> have "w = u" "t = u" by force+
    with t u show False by simp
  qed
qed

lemma quiet_end_after:
  assumes z: "tz_ok (q_timezone q)" and quiet: "is_quiet_at q t"
    and e: "quiet_end_date q t = Some d" and range: "0 \<le> q_end q" "q_end q < day"
  shows "local_of (q_timezone q) t < and_time d (q_end q)"
proof (cases "q_start q < q_end q \<or> local_time (q_timezone q) t < q_end q")
  case True
  with e have "d = local_date (q_timezone q) t" by (simp add: quiet_end_date_def)
  moreover have "local_time (q_timezone q) t < q_end q"
    using quiet True by (auto simp: is_quiet_at_def Let_def split: if_splits)
  ultimately show ?thesis using local_split [of "q_timezone q" t] by (simp add: and_time_def)
next
  case False
  with e have "succ_opt (q_timezone q) (local_date (q_timezone q) t) = Some d"
    by (simp add: quiet_end_date_def Let_def)
  with z have "d = local_date (q_timezone q) t + 1" unfolding tz_ok_def by blast
  then show ?thesis
    unfolding local_split [of "q_timezone q" t] using range local_time_range by (intro and_time_less) auto
qed

text \<open>Between a quiet instant and the end of its window every local time is quiet.\<close>

lemma quiet_until_end:
  assumes quiet: "is_quiet_at q t" and e: "quiet_end_date q t = Some d"
    and d1: "\<And>d d'. succ_opt (q_timezone q) d = Some d' \<Longrightarrow> d' = d + 1"
    and range: "0 \<le> q_end q" "q_end q < day"
    and v: "local_of (q_timezone q) t \<le> local_of (q_timezone q) v"
      "local_of (q_timezone q) v < and_time d (q_end q)"
  shows "is_quiet_at q v"
proof -
  let ?z = "q_timezone q"
  note sp = local_split [of ?z t] local_split [of ?z v]
  note rg = local_time_range [of ?z t] local_time_range [of ?z v]
  have lower: "local_date ?z t < local_date ?z v \<or>
      local_date ?z t = local_date ?z v \<and> local_time ?z t \<le> local_time ?z v"
    using and_time_lex [OF v(1) [unfolded sp]] rg by blast
  have "and_time (local_date ?z v) (local_time ?z v) \<le> and_time d (q_end q)"
    "and_time (local_date ?z v) (local_time ?z v) \<noteq> and_time d (q_end q)"
    using v(2) unfolding sp by simp_all
  then have upper: "local_date ?z v < d \<or> local_date ?z v = d \<and> local_time ?z v < q_end q"
    using and_time_lex [of "local_date ?z v" "local_time ?z v" d "q_end q"] rg range by force
  show ?thesis
  proof (cases "q_start q < q_end q \<or> local_time ?z t < q_end q")
    case True
    with e have "d = local_date ?z t" by (simp add: quiet_end_date_def)
    with lower upper have "local_time ?z t \<le> local_time ?z v" "local_time ?z v < q_end q" by linarith+
    with quiet True show ?thesis unfolding is_quiet_at_def Let_def by (auto split: if_splits)
  next
    case False
    with e have "succ_opt ?z (local_date ?z t) = Some d" by (simp add: quiet_end_date_def Let_def)
    then have "d = local_date ?z t + 1" by (rule d1)
    with lower upper have "local_time ?z t \<le> local_time ?z v \<or> local_time ?z v < q_end q" by linarith
    with quiet False show ?thesis unfolding is_quiet_at_def Let_def by (auto split: if_splits)
  qed
qed

text \<open>
  (C34) Work resumes at the end of the quiet window, never inside it and never in the past: for a
  window that \<^verbatim>\<open>QuietHours::new\<close> accepts, the instant that \<^verbatim>\<open>next_allowed_at\<close> returns is
  not quiet and not before the given one, also across a daylight-saving change; an instant that
  is already allowed is returned as it is; and if the offset does not change in between, every
  instant up to the returned one is quiet, so no allowed time is lost.
\<close>

theorem quiet_hours_release:
  assumes z: "tz_ok z" and new: "quiet_hours_new z start end_time = Inr q"
    and range: "0 \<le> end_time" "end_time < day"
    and next_at: "next_allowed_at q t = Some u"
  shows "\<not> is_quiet_at q u \<and> t \<le> u \<and> (\<not> is_quiet_at q t \<longrightarrow> u = t) \<and>
         ((\<forall>v. t \<le> v \<and> v \<le> u \<longrightarrow> utc_offset z v = utc_offset z t) \<longrightarrow>
            (\<forall>v. t \<le> v \<and> v < u \<longrightarrow> is_quiet_at q v))"
proof (cases "is_quiet_at q t")
  case False
  with next_at have "u = t" by (simp add: next_allowed_at_def)
  with False show ?thesis by auto
next
  case True
  from new have q: "q_timezone q = z" "q_end q = end_time" "q_start q \<noteq> end_time"
    by (auto simp: quiet_hours_new_def split: if_splits)
  from next_at True q obtain d where d: "quiet_end_date q t = Some d"
    and pick: "(case from_local_datetime z (and_time d end_time) of LSingle a \<Rightarrow> Some a
                | LAmbiguous a b \<Rightarrow> Some (max a b) | LNone \<Rightarrow> None) = Some u"
    by (auto simp: next_allowed_at_def split: option.splits local_result.splits)
  note last = latest_instant [OF z pick]
  have tu: "t < u"
    using quiet_end_after [of q t d] z True d range q last(3) by simp
  have "local_time z u = end_time"
    using last(1) and_time_parts(1) [OF range] by (simp add: local_time_def)
  with q have nq: "\<not> is_quiet_at q u" by (auto simp: is_quiet_at_def Let_def)
  have "is_quiet_at q v" if same: "\<forall>v. t \<le> v \<and> v \<le> u \<longrightarrow> utc_offset z v = utc_offset z t"
    and v: "t \<le> v" "v < u" for v
  proof (rule quiet_until_end [OF True d])
    have "utc_offset z v = utc_offset z t" "utc_offset z u = utc_offset z t"
      using same [rule_format, of v] same [rule_format, of u] v by linarith+
    then show "local_of (q_timezone q) t \<le> local_of (q_timezone q) v"
      "local_of (q_timezone q) v < and_time d (q_end q)"
      using v q last(1) by (simp_all add: local_of_def)
    show "d' = d + 1" if "succ_opt (q_timezone q) d = Some d'" for d d'
      using that z q(1) unfolding tz_ok_def by blast
  qed (use q range in simp_all)
  then have "(\<forall>v. t \<le> v \<and> v \<le> u \<longrightarrow> utc_offset z v = utc_offset z t) \<longrightarrow>
      (\<forall>v. t \<le> v \<and> v < u \<longrightarrow> is_quiet_at q v)" by blast
  moreover have "t \<le> u" using tu by simp
  ultimately show ?thesis using nq True by blast
qed

text \<open>
  A zone whose clock is put back by an hour at instant zero: the hour before it happens twice.
\<close>

definition hour :: int where
  "hour = 3600000000000"

definition fold_zone :: tz where
  "fold_zone =
     \<lparr>utc_offset = (\<lambda>t. if t < 0 then hour else 0),
      from_local_datetime =
        (\<lambda>l. if l < 0 then LSingle (l - hour)
             else if l < hour then LAmbiguous (l - hour) l else LSingle l),
      succ_opt = (\<lambda>d. Some (d + 1))\<rparr>"

lemma fold_zone_local: "local_of fold_zone t = (if t < 0 then t + hour else t)"
  by (simp add: local_of_def fold_zone_def)

lemma fold_zone_repeats:
  assumes "t \<le> u" "local_of fold_zone u < local_of fold_zone t"
  shows "u \<le> local_of fold_zone t \<and> local_of fold_zone (local_of fold_zone t) = local_of fold_zone t"
  using assms by (simp add: fold_zone_local hour_def split: if_splits)

lemma fold_zone_ok: "tz_ok fold_zone"
  unfolding tz_ok_def
proof (intro conjI allI impI)
  show "case from_local_datetime fold_zone l of
      LNone \<Rightarrow> \<forall>t. local_of fold_zone t \<noteq> l
    | LSingle a \<Rightarrow> \<forall>t. local_of fold_zone t = l \<longleftrightarrow> t = a
    | LAmbiguous a b \<Rightarrow> \<forall>t. local_of fold_zone t = l \<longleftrightarrow> t = a \<or> t = b" for l
    unfolding fold_zone_local by (auto simp: fold_zone_def hour_def)
qed (use fold_zone_repeats in \<open>auto simp: fold_zone_def\<close>)

text \<open>
  Quiet from 23:30 to 00:30 local time; at half past midnight before the change the window ends
  at the second 00:30.
\<close>

theorem quiet_hours_release_witness:
  "\<exists>q. quiet_hours_new fold_zone (23 * hour + 1800000000000) 1800000000000 = Inr q \<and>
     is_quiet_at q (- 2700000000000) \<and> next_allowed_at q (- 2700000000000) = Some 1800000000000 \<and>
     \<not> is_quiet_at q 1800000000000"
proof -
  let ?q = "\<lparr>q_timezone = fold_zone, q_start = 23 * hour + 1800000000000, q_end = 1800000000000\<rparr>"
  have new: "quiet_hours_new fold_zone (23 * hour + 1800000000000) 1800000000000 = Inr ?q"
    by (simp add: quiet_hours_new_def hour_def)
  have at: "is_quiet_at ?q (- 2700000000000)"
    by (simp add: is_quiet_at_def local_time_def local_of_def fold_zone_def hour_def day_def)
  have "next_allowed_at ?q (- 2700000000000) = Some 1800000000000"
    by (simp add: at next_allowed_at_def quiet_end_date_def local_time_def local_date_def local_of_def
        and_time_def Let_def)
      (simp add: fold_zone_def hour_def day_def)
  moreover have "\<not> is_quiet_at ?q 1800000000000"
    by (rule quiet_hours_release [OF fold_zone_ok new _ _ calculation, THEN conjunct1])
      (simp_all add: day_def)
  ultimately show ?thesis using new at by blast
qed

end
