(* ===== verification/Database.thy ===== *)
theory Database
  imports Job_Pg_Refine
begin

text \<open>
  The tables of the PostgreSQL schema (\<^verbatim>\<open>migrations/*.sql\<close>) that the repositories beside the job
  repository read and write, the libraries they call, and what the repositories share: a statement
  on one keyed table, and a method as a transaction of its own that is rolled back on an error.
\<close>

section \<open>Rows\<close>

record source_row =
  so_id :: uuid
  so_book_id :: rstring
  so_display_name :: rstring
  so_article_url :: "rstring option"
  so_account_id :: "uuid option"
  so_feed_revision :: int
  so_enabled :: bool
  so_scheduling_gate :: string
  so_sync_interval_seconds :: int
  so_rss_item_limit :: int
  so_next_fetch_at :: datetime
  so_failure_cooldown_until :: "datetime option"
  so_schedule_reserved_until :: "datetime option"
  so_priority :: int
  so_max_attempts :: int
  so_created_at :: datetime
  so_updated_at :: datetime

record account_row =
  ac_account_id :: uuid
  ac_disabled :: bool
  ac_setup_required :: bool
  ac_access_expires_at :: "datetime option"

record article_row =
  ar_source_id :: uuid
  ar_review_id :: rstring
  ar_title :: rstring
  ar_author :: "rstring option"
  ar_summary :: "rstring option"
  ar_cover_url :: "rstring option"
  ar_original_url :: "rstring option"
  ar_published_at :: datetime
  ar_content_html :: rstring
  ar_content_hash :: "rstring option"
  ar_observation_version :: int
  ar_fetched_at :: datetime
  ar_created_at :: datetime
  ar_updated_at :: datetime

record feed_cache_row =
  fc_source_id :: uuid
  fc_xml_bytes :: "8 word list"
  fc_etag :: rstring
  fc_generated_at :: datetime
  fc_expires_at :: datetime
  fc_feed_revision :: int
  fc_content_hash :: rstring
  fc_updated_at :: datetime

record build_lease_row =
  bl_source_id :: uuid
  bl_lease_owner :: rstring
  bl_lease_token :: uuid
  bl_lease_until :: datetime
  bl_heartbeat_at :: datetime
  bl_created_at :: datetime
  bl_updated_at :: datetime

record account_lease_row =
  al_account_id :: uuid
  al_lease_owner :: rstring
  al_lease_token :: uuid
  al_lease_until :: datetime
  al_heartbeat_at :: datetime

record db =
  d_pg :: pg
  d_sources :: "source_row list"
  d_accounts :: "account_row list"
  d_articles :: "article_row list"
  d_feed_cache :: "feed_cache_row list"
  d_build_leases :: "build_lease_row list"
  d_account_leases :: "account_lease_row list"


section \<open>Libraries\<close>

text \<open>
  The url crate: the parts of a parsed URL that the code inspects. \<open>u_rest\<close> stands for the parts
  it does not look at.
\<close>

record url =
  u_scheme :: rstring
  u_host :: "rstring option"
  u_username :: rstring
  u_password :: "rstring option"
  u_fragment :: "rstring option"
  u_port :: "nat option"
  u_query_pairs :: "(rstring \<times> rstring) list"
  u_rest :: rstring

record libs =
  lib_chrono :: chrono
  try_seconds :: "int \<Rightarrow> duration option"
  url_parse :: "rstring \<Rightarrow> url option"
  url_text :: "url \<Rightarrow> rstring"
  url_clear_port :: "url \<Rightarrow> url option"

text \<open>
  What the code relies on: \<^verbatim>\<open>Duration::try_seconds\<close> is exact; the text of a parsed URL has no
  surrounding blanks and parses back to the URL; the default port of a scheme is not reported as a
  port.
\<close>

definition libs_ok :: "libs \<Rightarrow> bool" where
  "libs_ok L \<longleftrightarrow>
     chrono_ok (lib_chrono L) \<and>
     (\<forall>n d. try_seconds L n = Some d \<longrightarrow> d = n * 1000000000) \<and>
     (\<forall>v u. url_parse L v = Some u \<longrightarrow>
        url_parse L (url_text L u) = Some u \<and> trim (url_text L u) = url_text L u \<and> url_text L u \<noteq> []) \<and>
     (\<forall>v u. url_parse L v = Some u \<longrightarrow> u_scheme u = lit ''https'' \<longrightarrow> u_port u \<noteq> Some 443)"


section \<open>Transactions\<close>

text \<open>
  A method returns its result with the tables it leaves; an error rolls its transaction back.
\<close>

definition transact :: "('s \<Rightarrow> ('e + 'a) \<times> 's) \<Rightarrow> 's \<Rightarrow> ('e + 'a) \<times> 's" where
  "transact m s = (case m s of (Inl e, _) \<Rightarrow> (Inl e, s) | (Inr r, s') \<Rightarrow> (Inr r, s'))"

lemma transact_Inr: "transact m s = (Inr r, s') \<longleftrightarrow> m s = (Inr r, s')"
  by (auto simp: transact_def split: prod.splits sum.splits)

lemma transact_Inl: "transact m s = (Inl e, s') \<longleftrightarrow> s' = s \<and> (\<exists>t. m s = (Inl e, t))"
  by (auto simp: transact_def split: prod.splits sum.splits)

lemma transact_cases:
  obtains (done_ok) r where "transact m s = (Inr r, snd (m s))" "fst (m s) = Inr r"
  | (rolled_back) e where "transact m s = (Inl e, s)" "fst (m s) = Inl e"
  by (cases "m s"; cases "fst (m s)") (auto simp: transact_def)

text \<open>\<^verbatim>\<open>UPDATE ... WHERE key = k\<close> on a table whose key is unique.\<close>

definition update_rows :: "('r \<Rightarrow> bool) \<Rightarrow> ('r \<Rightarrow> 'r) \<Rightarrow> 'r list \<Rightarrow> 'r list" where
  "update_rows cond set_cols rows = map (\<lambda>r. if cond r then set_cols r else r) rows"

lemma update_rows_keys:
  assumes "\<And>r. cond r \<Longrightarrow> k (set_cols r) = k r"
  shows "map k (update_rows cond set_cols rows) = map k rows"
  using assms by (simp add: update_rows_def)

lemma set_update_rows:
  "r \<in> set (update_rows cond set_cols rows) \<longleftrightarrow>
     (\<exists>r0 \<in> set rows. r = (if cond r0 then set_cols r0 else r0))"
  by (auto simp: update_rows_def)

lemma update_rows_all:
  assumes "\<forall>r \<in> set rows. P r" "\<And>r. r \<in> set rows \<Longrightarrow> cond r \<Longrightarrow> P (set_cols r)"
  shows "\<forall>r \<in> set (update_rows cond set_cols rows). P r"
  using assms by (auto simp: update_rows_def)

lemma update_rows_distinct:
  assumes "distinct (map k rows)" "distinct (map b rows)"
    and "\<forall>x \<in> set rows. k x = i \<longrightarrow> x = r" "\<forall>x \<in> set rows. k x \<noteq> i \<longrightarrow> b x \<noteq> b (f r)"
  shows "distinct (map b (update_rows (\<lambda>x. k x = i) f rows))"
  using assms
proof (induction rows)
  case (Cons x xs)
  then have IH: "distinct (map b (update_rows (\<lambda>x. k x = i) f xs))" by simp
  show ?case
  proof (cases "k x = i")
    case True
    with Cons.prems(1) have other: "\<forall>y \<in> set xs. k y \<noteq> i" by (auto simp: image_iff)
    then have "update_rows (\<lambda>x. k x = i) f xs = xs"
      unfolding update_rows_def by (intro map_idI) auto
    with True IH other Cons.prems show ?thesis by (auto simp: update_rows_def)
  next
    case False
    with Cons.prems have "b x \<notin> b ` set xs" "b x \<noteq> b (f r)" "\<forall>y \<in> set xs. k y = i \<longrightarrow> y = r" by auto
    then have "b x \<notin> b ` set (update_rows (\<lambda>x. k x = i) f xs)"
      by (auto simp: set_update_rows split: if_splits)
    moreover have "update_rows (\<lambda>x. k x = i) f (x # xs) = x # update_rows (\<lambda>x. k x = i) f xs"
      using False by (simp add: update_rows_def)
    ultimately show ?thesis using IH by simp
  qed
qed (simp add: update_rows_def)

text \<open>The row with a key, in a table whose keys are distinct.\<close>

lemma find_keyed:
  assumes "distinct (map k rows)" "r \<in> set rows"
  shows "find (\<lambda>x. k x = k r) rows = Some r"
  using assms by (induction rows) auto

lemma find_keyed_update:
  assumes "\<And>r. k (f r) = k r"
  shows "find (\<lambda>r. k r = i) (update_rows cond f rows) =
     map_option (\<lambda>r. if cond r then f r else r) (find (\<lambda>r. k r = i) rows)"
  using assms by (induction rows) (auto simp: update_rows_def)

lemma find_append_key:
  "find P (xs @ ys) = (case find P xs of None \<Rightarrow> find P ys | Some x \<Rightarrow> Some x)"
  by (induction xs) auto

lemma find_filter_key:
  assumes "\<And>r. k r = i \<Longrightarrow> P r"
  shows "find (\<lambda>r. k r = i) (filter P rows) = find (\<lambda>r. k r = i) rows"
  using assms by (induction rows) auto


text \<open>A condition that implies the key: it finds the row of the key, if that satisfies it.\<close>

lemma find_fenced:
  assumes "distinct (map k rows)" "\<And>r. P r \<Longrightarrow> k r = i"
  shows "find P rows = (case find (\<lambda>r. k r = i) rows of None \<Rightarrow> None | Some r \<Rightarrow> if P r then Some r else None)"
  using assms
proof (induction rows)
  case (Cons x rows)
  have "\<not> P y" if "k x = i" "y \<in> set rows" for y
    using Cons.prems that by (auto simp: image_iff)
  then have "k x = i \<Longrightarrow> find P rows = None" by (simp add: find_None_iff)
  with Cons show ?case by (auto split: option.splits)
qed simp

lemma find_deleted:
  assumes "distinct (map k rows)" "\<And>r. P r \<Longrightarrow> k r = i" "find P rows = Some r"
  shows "find (\<lambda>x. k x = j) (filter (\<lambda>x. \<not> P x) rows) = (if j = i then None else find (\<lambda>x. k x = j) rows)"
proof (cases "j = i")
  case True
  have r: "r \<in> set rows" "P r" using find_SomeD [OF assms(3)] by auto
  have "P x" if "x \<in> set rows" "k x = i" for x
    using distinct_key_eq [OF assms(1) that(1) r(1)] that(2) assms(2) [OF r(2)] r(2) by simp
  then show ?thesis using True by (auto simp: find_None_iff)
next
  case False
  then show ?thesis using assms(2) by (auto intro: find_filter_key)
qed

text \<open>What a keyed table holds after an insert, an update by key and an update by condition.\<close>

lemma find_inserted:
  assumes "find (\<lambda>r. k r = i) rows = None" "k row = i"
  shows "find (\<lambda>r. k r = j) (rows @ [row]) = (if j = i then Some row else find (\<lambda>r. k r = j) rows)"
  using assms by (auto simp: find_append_key split: option.splits)

lemma distinct_inserted:
  assumes "find (\<lambda>r. k r = i) rows = None" "k row = i" "distinct (map k rows)"
  shows "distinct (map k (rows @ [row]))"
  using assms by (auto simp: find_None_iff)

lemma find_updated:
  assumes "\<And>r. cond r \<Longrightarrow> k r = i" "\<And>r. cond r \<Longrightarrow> k (f r) = i"
    and "find (\<lambda>r. k r = i) rows = Some r0" "cond r0"
  shows "find (\<lambda>r. k r = j) (update_rows cond f rows) = (if j = i then Some (f r0) else find (\<lambda>r. k r = j) rows)"
proof (cases "j = i")
  case True
  with assms show ?thesis by (induction rows) (auto simp: update_rows_def split: if_splits)
next
  case False
  from assms(1,2) have "find (\<lambda>r. k r = j) (update_rows cond f rows) = find (\<lambda>r. k r = j) rows"
    using False by (induction rows) (auto simp: update_rows_def)
  with False show ?thesis by simp
qed

section \<open>Tables whose entries only move forward\<close>

text \<open>
  A table under a sequence of operations: an invariant that every legal operation keeps, and a
  preorder along which an entry moves as long as no operation removes it. The repositories below
  interpret it with the order that their entries promise to follow.
\<close>

locale tracked_table =
  fixes lookup :: "'s \<Rightarrow> 'k \<Rightarrow> 'v option"
    and inv :: "'s \<Rightarrow> bool"
    and legal :: "'op \<Rightarrow> bool"
    and keeps :: "'op \<Rightarrow> 'k \<Rightarrow> bool"
    and step :: "'op \<Rightarrow> 's \<Rightarrow> 's"
    and evolves :: "'v \<Rightarrow> 'v \<Rightarrow> bool"
  assumes evolves_refl: "evolves v v"
    and evolves_trans: "evolves a b \<Longrightarrow> evolves b c \<Longrightarrow> evolves a c"
    and inv_step: "inv s \<Longrightarrow> legal op \<Longrightarrow> inv (step op s)"
    and step_evolves: "inv s \<Longrightarrow> legal op \<Longrightarrow> keeps op k \<Longrightarrow> lookup s k = Some v \<Longrightarrow>
       \<exists>v'. lookup (step op s) k = Some v' \<and> evolves v v'"
begin

lemma run_inv:
  assumes "inv s" "\<forall>op \<in> set ops. legal op"
  shows "inv (fold step ops s)"
  using assms by (induction ops arbitrary: s) (auto intro: inv_step)

lemma run_evolves:
  assumes "inv s" "\<forall>op \<in> set ops. legal op \<and> keeps op k" "lookup s k = Some v"
  shows "\<exists>v'. lookup (fold step ops s) k = Some v' \<and> evolves v v'"
  using assms
proof (induction ops arbitrary: s v)
  case Nil
  then show ?case by (auto intro: evolves_refl)
next
  case (Cons op ops)
  then obtain v1 where v1: "lookup (step op s) k = Some v1" "evolves v v1"
    using step_evolves [of s op k v] by auto
  from Cons.prems have "inv (step op s)" by (auto intro: inv_step)
  from Cons.IH [OF this _ v1(1)] Cons.prems(2) v1(2) show ?case
    by (auto intro: evolves_trans)
qed

end

end
