(* ===== verification/Source.thy ===== *)
theory Source
  imports Database
begin

text \<open>
  Sources: the domain type of \<^verbatim>\<open>src/domain/source.rs\<close> with its validation and its feed revision,
  the URL policy of \<^verbatim>\<open>src/domain/url_policy.rs\<close>, and the transaction-scoped repository of
  \<^verbatim>\<open>src/persistence/repositories/source_repository.rs\<close>.
\<close>

section \<open>URL policy\<close>

definition ascii_lower :: "nat \<Rightarrow> nat" where
  "ascii_lower c = (if 65 \<le> c \<and> c \<le> 90 then c + 32 else c)"

definition to_ascii_lowercase :: "rstring \<Rightarrow> rstring" where
  "to_ascii_lowercase s = map ascii_lower s"

text \<open>\<^verbatim>\<open>value.split_once(':')\<close>\<close>

definition split_once :: "nat \<Rightarrow> rstring \<Rightarrow> (rstring \<times> rstring) option" where
  "split_once c s =
     (case dropWhile (\<lambda>x. x \<noteq> c) s of [] \<Rightarrow> None | _ # rest \<Rightarrow> Some (takeWhile (\<lambda>x. x \<noteq> c) s, rest))"

definition has_provider_signature :: "url \<Rightarrow> bool" where
  "has_provider_signature u =
     (let keys = map (\<lambda>(name, _). to_ascii_lowercase name) (u_query_pairs u);
          has = (\<lambda>name. lit name \<in> set keys)
      in has ''x-amz-signature'' \<or> has ''x-goog-signature'' \<or>
         (has ''googleaccessid'' \<and> has ''signature'' \<and> has ''expires'') \<or>
         (has ''awsaccesskeyid'' \<and> has ''signature'' \<and> has ''expires'') \<or>
         (has ''key-pair-id'' \<and> has ''signature'' \<and> (has ''expires'' \<or> has ''policy'')) \<or>
         (has ''sig'' \<and> has ''se'' \<and> has ''sv'') \<or>
         (has ''e'' \<and>
          (\<exists>(name, value) \<in> set (u_query_pairs u).
             to_ascii_lowercase name = lit ''token'' \<and>
             (case split_once 58 value of
                None \<Rightarrow> False
              | Some (key, signature) \<Rightarrow> key \<noteq> [] \<and> signature \<noteq> [] \<and> 58 \<notin> set signature))) \<or>
         (has ''ossaccesskeyid'' \<and> has ''signature'' \<and> has ''expires'') \<or>
         (has ''q-signature'' \<and> has ''q-ak'' \<and> has ''q-sign-algorithm'') \<or>
         (has ''sign'' \<and> has ''key-time'' \<and> has ''x-cos-security-token'') \<or>
         has ''hdnts'')"


section \<open>The domain type\<close>

datatype source_error =
    InvalidId | EmptyBookId | EmptyDisplayName | EmptyArticleUrl | InvalidArticleUrl
  | InvalidSyncInterval | InvalidRssItemLimit | SourceInvalidMaxAttempts | InvalidAccountId
  | InvalidSchedulingGate | FeedRevisionExhausted | InvalidRevision

text \<open>\<^verbatim>\<open>VerifiedWechatArticleUrl::parse\<close>; the verified value is the text of the URL.\<close>

definition article_url_parse :: "libs \<Rightarrow> rstring \<Rightarrow> source_error + rstring" where
  "article_url_parse L value =
     (let v = trim value
      in if v = [] then Inl EmptyArticleUrl
         else case url_parse L v of
           None \<Rightarrow> Inl InvalidArticleUrl
         | Some u \<Rightarrow>
             if u_scheme u \<noteq> lit ''https'' \<or> u_host u \<noteq> Some (lit ''mp.weixin.qq.com'') \<or>
                u_username u \<noteq> [] \<or> u_password u \<noteq> None \<or> u_fragment u \<noteq> None \<or>
                (case u_port u of None \<Rightarrow> False | Some port \<Rightarrow> port \<noteq> 443) \<or> has_provider_signature u
             then Inl InvalidArticleUrl
             else if u_port u = Some 443 then
               (case url_clear_port L u of
                  None \<Rightarrow> Inl InvalidArticleUrl
                | Some u' \<Rightarrow> Inr (url_text L u'))
             else Inr (url_text L u))"

datatype scheduling_gate = Ready | AuthenticationRequired | RiskControlled

definition is_automatically_eligible :: "scheduling_gate \<Rightarrow> bool" where
  "is_automatically_eligible gate \<longleftrightarrow> gate = Ready"

fun gate_as_str :: "scheduling_gate \<Rightarrow> string" where
  "gate_as_str Ready = ''ready''"
| "gate_as_str AuthenticationRequired = ''authentication_required''"
| "gate_as_str RiskControlled = ''risk_controlled''"

definition gate_from_str :: "string \<Rightarrow> source_error + scheduling_gate" where
  "gate_from_str value =
     (if value = ''ready'' then Inr Ready
      else if value = ''authentication_required'' then Inr AuthenticationRequired
      else if value = ''risk_controlled'' then Inr RiskControlled
      else Inl InvalidSchedulingGate)"

type_synonym feed_revision = u64

definition revision_next :: "feed_revision \<Rightarrow> feed_revision option" where
  "revision_next r = checked_add r 1"

record new_source =
  ns_id :: uuid
  ns_book_id :: rstring
  ns_display_name :: rstring
  ns_article_url :: "rstring option"
  ns_enabled :: bool
  ns_sync_interval :: duration
  ns_rss_item_limit :: u32
  ns_account_id :: "uuid option"
  ns_scheduling_gate :: scheduling_gate
  ns_next_fetch_at :: datetime
  ns_priority :: int
  ns_max_attempts :: u32

record source_update =
  su_book_id :: rstring
  su_display_name :: rstring
  su_article_url :: "rstring option"
  su_sync_interval :: duration
  su_rss_item_limit :: u32
  su_account_id :: "uuid option"
  su_priority :: int
  su_max_attempts :: u32

record source_patch =
  sp_book_id :: "rstring option"
  sp_display_name :: "rstring option"
  sp_article_url :: "rstring option option"
  sp_sync_interval :: "duration option"
  sp_rss_item_limit :: "u32 option"
  sp_account_id :: "uuid option option"
  sp_priority :: "int option"
  sp_max_attempts :: "u32 option"

record source =
  src_id :: uuid
  src_book_id :: rstring
  src_display_name :: rstring
  src_article_url :: "rstring option"
  src_enabled :: bool
  src_sync_interval :: duration
  src_rss_item_limit :: u32
  src_account_id :: "uuid option"
  src_scheduling_gate :: scheduling_gate
  src_feed_revision :: feed_revision
  src_next_fetch_at :: datetime
  src_failure_cooldown_until :: "datetime option"
  src_schedule_reserved_until :: "datetime option"
  src_priority :: int
  src_max_attempts :: u32

definition seconds :: "int \<Rightarrow> duration" where
  "seconds n = n * 1000000000"

definition source_validate :: "libs \<Rightarrow> source \<Rightarrow> source_error + unit" where
  "source_validate L s =
     (if is_nil (src_id s) then Inl InvalidId
      else if src_book_id s = [] then Inl EmptyBookId
      else if src_display_name s = [] then Inl EmptyDisplayName
      else if src_sync_interval s \<le> 0 then Inl InvalidSyncInterval
      else if src_sync_interval s \<noteq> seconds (num_seconds (lib_chrono L) (src_sync_interval s))
      then Inl InvalidSyncInterval
      else if src_rss_item_limit s = 0 then Inl InvalidRssItemLimit
      else if src_max_attempts s = 0 then Inl SourceInvalidMaxAttempts
      else if (case src_account_id s of None \<Rightarrow> False | Some a \<Rightarrow> is_nil a) then Inl InvalidAccountId
      else Inr ())"

definition source_new :: "libs \<Rightarrow> new_source \<Rightarrow> source_error + source" where
  "source_new L spec =
     (let s = \<lparr>src_id = ns_id spec, src_book_id = trim (ns_book_id spec),
               src_display_name = trim (ns_display_name spec),
               src_article_url = ns_article_url spec, src_enabled = ns_enabled spec,
               src_sync_interval = ns_sync_interval spec,
               src_rss_item_limit = ns_rss_item_limit spec, src_account_id = ns_account_id spec,
               src_scheduling_gate = ns_scheduling_gate spec, src_feed_revision = 0,
               src_next_fetch_at = ns_next_fetch_at spec, src_failure_cooldown_until = None,
               src_schedule_reserved_until = None, src_priority = ns_priority spec,
               src_max_attempts = ns_max_attempts spec\<rparr>
      in bindE (source_validate L s) (\<lambda>_. Inr s))"

definition source_from_parts :: "libs \<Rightarrow> source \<Rightarrow> source_error + source" where
  "source_from_parts L parts = bindE (source_validate L parts) (\<lambda>_. Inr parts)"

definition advance_feed_revision :: "source \<Rightarrow> (source_error + feed_revision) \<times> source" where
  "advance_feed_revision s =
     (case revision_next (src_feed_revision s) of
        None \<Rightarrow> (Inl FeedRevisionExhausted, s)
      | Some r \<Rightarrow> (Inr r, s\<lparr>src_feed_revision := r\<rparr>))"

definition source_visible_change :: "source \<Rightarrow> source \<Rightarrow> bool" where
  "source_visible_change s updated \<longleftrightarrow>
     src_book_id updated \<noteq> src_book_id s \<or> src_display_name updated \<noteq> src_display_name s \<or>
     src_article_url updated \<noteq> src_article_url s \<or> src_rss_item_limit updated \<noteq> src_rss_item_limit s"

definition apply_update :: "libs \<Rightarrow> source_update \<Rightarrow> source \<Rightarrow> source_error + source" where
  "apply_update L update s =
     (let updated = s\<lparr>src_book_id := trim (su_book_id update),
                      src_display_name := trim (su_display_name update),
                      src_article_url := su_article_url update,
                      src_sync_interval := su_sync_interval update,
                      src_rss_item_limit := su_rss_item_limit update,
                      src_account_id := su_account_id update, src_priority := su_priority update,
                      src_max_attempts := su_max_attempts update\<rparr>
      in bindE (source_validate L updated) (\<lambda>_.
           if source_visible_change s updated
           then (case advance_feed_revision updated of (Inl e, _) \<Rightarrow> Inl e | (Inr _, s') \<Rightarrow> Inr s')
           else Inr updated))"

definition or_current :: "'a option \<Rightarrow> 'a \<Rightarrow> 'a" where
  "or_current x current = (case x of None \<Rightarrow> current | Some y \<Rightarrow> y)"

definition apply_patch :: "libs \<Rightarrow> source_patch \<Rightarrow> source \<Rightarrow> source_error + source" where
  "apply_patch L patch s =
     apply_update L
       \<lparr>su_book_id = or_current (sp_book_id patch) (src_book_id s),
        su_display_name = or_current (sp_display_name patch) (src_display_name s),
        su_article_url = or_current (sp_article_url patch) (src_article_url s),
        su_sync_interval = or_current (sp_sync_interval patch) (src_sync_interval s),
        su_rss_item_limit = or_current (sp_rss_item_limit patch) (src_rss_item_limit s),
        su_account_id = or_current (sp_account_id patch) (src_account_id s),
        su_priority = or_current (sp_priority patch) (src_priority s),
        su_max_attempts = or_current (sp_max_attempts patch) (src_max_attempts s)\<rparr> s"


section \<open>The repository\<close>

datatype source_repository_error =
    SourceDomain source_error
  | SourceNotFound uuid
  | BookIdConflict rstring
  | RevisionConflict uuid feed_revision feed_revision
  | RevisionOutOfRange
  | SourceStorage string

type_synonym 'a source_result = "(source_repository_error + 'a) \<times> db"

definition duration_seconds :: "libs \<Rightarrow> duration \<Rightarrow> source_repository_error + int" where
  "duration_seconds L d =
     (let n = num_seconds (lib_chrono L) d
      in if d \<noteq> seconds n then Inl (SourceDomain InvalidSyncInterval) else Inr n)"

definition persisted_revision :: "feed_revision \<Rightarrow> source_repository_error + int" where
  "persisted_revision r = ok_or RevisionOutOfRange (i64_try_from (unat r))"

definition decode_revision_value :: "int \<Rightarrow> source_repository_error + feed_revision" where
  "decode_revision_value value = ok_or (SourceDomain InvalidRevision) (u64_try_from value)"

definition validate_source_id :: "uuid \<Rightarrow> source_repository_error + unit" where
  "validate_source_id source_id = (if is_nil source_id then Inl (SourceDomain InvalidId) else Inr ())"

definition validate_book_id :: "rstring \<Rightarrow> source_repository_error + rstring" where
  "validate_book_id book_id =
     (if trim book_id = [] then Inl (SourceDomain EmptyBookId) else Inr (trim book_id))"

definition decode_source :: "libs \<Rightarrow> source_row \<Rightarrow> source_repository_error + source" where
  "decode_source L r =
     bindE (ok_or (SourceDomain InvalidSyncInterval) (try_seconds L (so_sync_interval_seconds r))) (\<lambda>interval.
     bindE (ok_or (SourceDomain InvalidRssItemLimit) (u32_try_from (so_rss_item_limit r))) (\<lambda>limit.
     bindE (ok_or (SourceDomain SourceInvalidMaxAttempts) (u32_try_from (so_max_attempts r))) (\<lambda>attempts.
     bindE (ok_or (SourceDomain InvalidRevision) (u64_try_from (so_feed_revision r))) (\<lambda>revision.
     bindE (case so_article_url r of
              None \<Rightarrow> Inr None
            | Some v \<Rightarrow> map_err SourceDomain (bindE (article_url_parse L v) (\<lambda>u. Inr (Some u)))) (\<lambda>article_url.
     bindE (map_err SourceDomain (gate_from_str (so_scheduling_gate r))) (\<lambda>gate.
       map_err SourceDomain (source_from_parts L
         \<lparr>src_id = so_id r, src_book_id = so_book_id r, src_display_name = so_display_name r,
          src_article_url = article_url, src_enabled = so_enabled r, src_sync_interval = interval,
          src_rss_item_limit = limit, src_account_id = so_account_id r, src_scheduling_gate = gate,
          src_feed_revision = revision, src_next_fetch_at = so_next_fetch_at r,
          src_failure_cooldown_until = so_failure_cooldown_until r,
          src_schedule_reserved_until = so_schedule_reserved_until r,
          src_priority = so_priority r, src_max_attempts = attempts\<rparr>)))))))"

definition find_source_row :: "uuid \<Rightarrow> db \<Rightarrow> source_row option" where
  "find_source_row source_id d = find (\<lambda>r. so_id r = source_id) (d_sources d)"

definition source_find :: "libs \<Rightarrow> uuid \<Rightarrow> db \<Rightarrow> source_repository_error + source option" where
  "source_find L source_id d =
     bindE (validate_source_id source_id) (\<lambda>_.
       case find_source_row source_id d of
         None \<Rightarrow> Inr None
       | Some r \<Rightarrow> bindE (decode_source L r) (\<lambda>s. Inr (Some s)))"

definition find_by_book_id :: "libs \<Rightarrow> rstring \<Rightarrow> db \<Rightarrow> source_repository_error + source option" where
  "find_by_book_id L book_id d =
     bindE (validate_book_id book_id) (\<lambda>book.
       case find (\<lambda>r. so_book_id r = book) (d_sources d) of
         None \<Rightarrow> Inr None
       | Some r \<Rightarrow> bindE (decode_source L r) (\<lambda>s. Inr (Some s)))"

fun decode_sources :: "libs \<Rightarrow> source_row list \<Rightarrow> source_repository_error + source list" where
  "decode_sources L [] = Inr []"
| "decode_sources L (r # rs) =
     bindE (decode_source L r) (\<lambda>s. bindE (decode_sources L rs) (\<lambda>ss. Inr (s # ss)))"

text \<open>The collation of \<open>display_name\<close> is the server's: a parameter.\<close>

definition source_list ::
    "libs \<Rightarrow> (rstring \<Rightarrow> 'k::linorder) \<Rightarrow> db \<Rightarrow> source_repository_error + source list" where
  "source_list L collate d =
     decode_sources L (sort_key (collate \<circ> so_display_name) (sort_key so_id (d_sources d)))"

text \<open>
  The unique indexes: the primary key and \<^verbatim>\<open>sources_book_id_idx\<close>; a violation of the latter is
  reported as \<^verbatim>\<open>BookIdConflict\<close>.
\<close>

definition unique_violation :: "source_row \<Rightarrow> source_row list \<Rightarrow> source_repository_error option" where
  "unique_violation row others =
     (if \<exists>r \<in> set others. so_id r = so_id row
      then Some (SourceStorage ''duplicate key value violates unique constraint'')
      else if \<exists>r \<in> set others. so_book_id r = so_book_id row
      then Some (BookIdConflict (so_book_id row)) else None)"

definition new_source_row :: "datetime \<Rightarrow> source \<Rightarrow> int \<Rightarrow> source_row" where
  "new_source_row now s interval_seconds =
     \<lparr>so_id = src_id s, so_book_id = src_book_id s, so_display_name = src_display_name s,
      so_article_url = src_article_url s, so_account_id = src_account_id s, so_feed_revision = 0,
      so_enabled = src_enabled s, so_scheduling_gate = gate_as_str (src_scheduling_gate s),
      so_sync_interval_seconds = interval_seconds,
      so_rss_item_limit = uint (src_rss_item_limit s), so_next_fetch_at = src_next_fetch_at s,
      so_failure_cooldown_until = None, so_schedule_reserved_until = None,
      so_priority = src_priority s, so_max_attempts = uint (src_max_attempts s),
      so_created_at = now, so_updated_at = now\<rparr>"

definition source_insert :: "libs \<Rightarrow> datetime \<Rightarrow> new_source \<Rightarrow> db \<Rightarrow> source source_result" where
  "source_insert L now spec d =
     (case source_new L spec of
        Inl e \<Rightarrow> (Inl (SourceDomain e), d)
      | Inr s \<Rightarrow>
          (case duration_seconds L (src_sync_interval s) of
             Inl e \<Rightarrow> (Inl e, d)
           | Inr interval_seconds \<Rightarrow>
               (let row = new_source_row now s interval_seconds
                in case unique_violation row (d_sources d) of
                     Some e \<Rightarrow> (Inl e, d)
                   | None \<Rightarrow> (decode_source L row, d\<lparr>d_sources := d_sources d @ [row]\<rparr>))))"

text \<open>\<^verbatim>\<open>UPDATE sources SET ... WHERE id = $1 RETURNING ...\<close>\<close>

definition update_source_row ::
    "libs \<Rightarrow> uuid \<Rightarrow> (source_row \<Rightarrow> source_row) \<Rightarrow> db \<Rightarrow> source source_result" where
  "update_source_row L source_id set_cols d =
     (case validate_source_id source_id of
        Inl e \<Rightarrow> (Inl e, d)
      | Inr _ \<Rightarrow>
          (case find_source_row source_id d of
             None \<Rightarrow> (Inl (SourceNotFound source_id), d)
           | Some r \<Rightarrow>
               (decode_source L (set_cols r),
                d\<lparr>d_sources := update_rows (\<lambda>r. so_id r = source_id) set_cols (d_sources d)\<rparr>)))"

definition set_enabled :: "libs \<Rightarrow> datetime \<Rightarrow> uuid \<Rightarrow> bool \<Rightarrow> db \<Rightarrow> source source_result" where
  "set_enabled L now source_id enabled =
     update_source_row L source_id (\<lambda>r. r\<lparr>so_enabled := enabled, so_updated_at := now\<rparr>)"

definition set_scheduling_gate ::
    "libs \<Rightarrow> datetime \<Rightarrow> uuid \<Rightarrow> scheduling_gate \<Rightarrow> db \<Rightarrow> source source_result" where
  "set_scheduling_gate L now source_id gate =
     update_source_row L source_id
       (\<lambda>r. r\<lparr>so_scheduling_gate := gate_as_str gate, so_updated_at := now\<rparr>)"

definition update_schedule ::
    "libs \<Rightarrow> datetime \<Rightarrow> uuid \<Rightarrow> datetime \<Rightarrow> datetime option \<Rightarrow> datetime option \<Rightarrow> db \<Rightarrow> source source_result" where
  "update_schedule L now source_id next_fetch_at cooldown_until reserved_until =
     update_source_row L source_id
       (\<lambda>r. r\<lparr>so_next_fetch_at := next_fetch_at, so_failure_cooldown_until := cooldown_until,
              so_schedule_reserved_until := reserved_until, so_updated_at := now\<rparr>)"

definition find_for_update :: "libs \<Rightarrow> uuid \<Rightarrow> db \<Rightarrow> source_repository_error + source" where
  "find_for_update L source_id d =
     bindE (validate_source_id source_id) (\<lambda>_.
     bindE (ok_or (SourceNotFound source_id) (find_source_row source_id d)) (decode_source L))"

definition patched_row :: "datetime \<Rightarrow> source \<Rightarrow> int \<Rightarrow> int \<Rightarrow> source_row \<Rightarrow> source_row" where
  "patched_row now updated revision interval_seconds r =
     r\<lparr>so_book_id := src_book_id updated, so_display_name := src_display_name updated,
       so_article_url := src_article_url updated, so_account_id := src_account_id updated,
       so_feed_revision := revision, so_sync_interval_seconds := interval_seconds,
       so_rss_item_limit := uint (src_rss_item_limit updated), so_priority := src_priority updated,
       so_max_attempts := uint (src_max_attempts updated), so_updated_at := now\<rparr>"

definition source_update_op ::
    "libs \<Rightarrow> datetime \<Rightarrow> uuid \<Rightarrow> source_patch \<Rightarrow> db \<Rightarrow> source source_result" where
  "source_update_op L now source_id patch d =
     (case find_for_update L source_id d of Inl e \<Rightarrow> (Inl e, d) | Inr current \<Rightarrow>
      case map_err SourceDomain (apply_patch L patch current) of Inl e \<Rightarrow> (Inl e, d) | Inr updated \<Rightarrow>
      case duration_seconds L (src_sync_interval updated) of Inl e \<Rightarrow> (Inl e, d) | Inr interval_seconds \<Rightarrow>
      case persisted_revision (src_feed_revision updated) of Inl e \<Rightarrow> (Inl e, d) | Inr revision \<Rightarrow>
        if \<exists>r \<in> set (d_sources d). so_id r \<noteq> source_id \<and> so_book_id r = src_book_id updated
        then (Inl (BookIdConflict (src_book_id updated)), d)
        else update_source_row L source_id (patched_row now updated revision interval_seconds) d)"

text \<open>
  Deleting a source removes its jobs explicitly and, through the foreign keys, everything that
  hangs on the source or on those jobs.
\<close>

definition cascade_jobs :: "uuid \<Rightarrow> pg \<Rightarrow> pg" where
  "cascade_jobs source_id s =
     (let kept = filter (\<lambda>r. r_source_id r \<noteq> Some source_id) (pg_jobs s);
          gone = map r_id (filter (\<lambda>r. r_source_id r = Some source_id) (pg_jobs s))
      in s\<lparr>pg_jobs := kept,
           pg_repair_jobs := filter (\<lambda>a. arj_job_id a \<notin> set gone) (pg_repair_jobs s),
           pg_lineage := filter (\<lambda>ln. ln_source_id ln \<noteq> source_id) (pg_lineage s)\<rparr>)"

definition source_delete :: "uuid \<Rightarrow> db \<Rightarrow> unit source_result" where
  "source_delete source_id d =
     (case validate_source_id source_id of Inl e \<Rightarrow> (Inl e, d) | Inr _ \<Rightarrow>
      case find_source_row source_id d of
        None \<Rightarrow> (Inl (SourceNotFound source_id), d)
      | Some _ \<Rightarrow>
          (Inr (), d\<lparr>d_pg := cascade_jobs source_id (d_pg d),
                     d_sources := filter (\<lambda>r. so_id r \<noteq> source_id) (d_sources d),
                     d_articles := filter (\<lambda>a. ar_source_id a \<noteq> source_id) (d_articles d),
                     d_feed_cache := filter (\<lambda>c. fc_source_id c \<noteq> source_id) (d_feed_cache d),
                     d_build_leases := filter (\<lambda>l. bl_source_id l \<noteq> source_id) (d_build_leases d)\<rparr>))"

definition bump_feed_revision ::
    "datetime \<Rightarrow> uuid \<Rightarrow> feed_revision \<Rightarrow> db \<Rightarrow> feed_revision source_result" where
  "bump_feed_revision now source_id expected d =
     (case validate_source_id source_id of Inl e \<Rightarrow> (Inl e, d) | Inr _ \<Rightarrow>
      case persisted_revision expected of Inl e \<Rightarrow> (Inl e, d) | Inr expected_value \<Rightarrow>
      case find_source_row source_id d of
        None \<Rightarrow> (Inl (SourceNotFound source_id), d)
      | Some r \<Rightarrow>
          if so_feed_revision r = expected_value then
            if so_feed_revision r + 1 \<ge> 2 ^ 63
            then (Inl (SourceStorage ''bigint out of range''), d)
            else (decode_revision_value (so_feed_revision r + 1),
                  d\<lparr>d_sources := update_rows (\<lambda>r. so_id r = source_id)
                      (\<lambda>r. r\<lparr>so_feed_revision := so_feed_revision r + 1, so_updated_at := now\<rparr>)
                      (d_sources d)\<rparr>)
          else
            (bindE (decode_revision_value (so_feed_revision r))
               (\<lambda>actual. Inl (RevisionConflict source_id expected actual)), d))"


section \<open>Well-formed tables\<close>

definition source_ok :: "libs \<Rightarrow> source \<Rightarrow> bool" where
  "source_ok L s \<longleftrightarrow>
     source_validate L s = Inr () \<and>
     (\<forall>u. src_article_url s = Some u \<longrightarrow> article_url_parse L u = Inr u) \<and>
     unat (src_feed_revision s) < 2 ^ 63 \<and>
     try_seconds L (num_seconds (lib_chrono L) (src_sync_interval s)) = Some (src_sync_interval s)"

definition bind_source :: "libs \<Rightarrow> datetime \<Rightarrow> datetime \<Rightarrow> source \<Rightarrow> source_row" where
  "bind_source L created updated s =
     \<lparr>so_id = src_id s, so_book_id = src_book_id s, so_display_name = src_display_name s,
      so_article_url = src_article_url s, so_account_id = src_account_id s,
      so_feed_revision = uint (src_feed_revision s), so_enabled = src_enabled s,
      so_scheduling_gate = gate_as_str (src_scheduling_gate s),
      so_sync_interval_seconds = num_seconds (lib_chrono L) (src_sync_interval s),
      so_rss_item_limit = uint (src_rss_item_limit s), so_next_fetch_at = src_next_fetch_at s,
      so_failure_cooldown_until = src_failure_cooldown_until s,
      so_schedule_reserved_until = src_schedule_reserved_until s,
      so_priority = src_priority s, so_max_attempts = uint (src_max_attempts s),
      so_created_at = created, so_updated_at = updated\<rparr>"

definition source_row_ok :: "libs \<Rightarrow> source_row \<Rightarrow> bool" where
  "source_row_ok L r \<longleftrightarrow> (\<exists>s. source_ok L s \<and> r = bind_source L (so_created_at r) (so_updated_at r) s)"

definition sources_ok :: "libs \<Rightarrow> db \<Rightarrow> bool" where
  "sources_ok L d \<longleftrightarrow>
     (\<forall>r \<in> set (d_sources d). source_row_ok L r) \<and>
     distinct (map so_id (d_sources d)) \<and> distinct (map so_book_id (d_sources d))"

definition source_at :: "libs \<Rightarrow> db \<Rightarrow> uuid \<Rightarrow> source option" where
  "source_at L d source_id =
     (case find_source_row source_id d of
        None \<Rightarrow> None
      | Some r \<Rightarrow> (case decode_source L r of Inl _ \<Rightarrow> None | Inr s \<Rightarrow> Some s))"

lemma gate_round_trip [simp]: "gate_from_str (gate_as_str g) = Inr g"
  by (cases g) (simp_all add: gate_from_str_def)

lemma article_url_idem:
  assumes L: "libs_ok L" and p: "article_url_parse L v = Inr w"
  shows "article_url_parse L w = Inr w"
proof -
  from p obtain u where u: "url_parse L (trim v) = Some u"
    by (auto simp: article_url_parse_def Let_def split: if_splits option.splits)
  from p u have https: "u_scheme u = lit ''https''"
    by (auto simp: article_url_parse_def Let_def split: if_splits)
  with L u have port: "u_port u \<noteq> Some 443" by (auto simp: libs_ok_def)
  with p u have w: "w = url_text L u"
    by (auto simp: article_url_parse_def Let_def split: if_splits)
  from L u have "url_parse L w = Some u" "trim w = w" "w \<noteq> []" by (auto simp: libs_ok_def w)
  with p u w port show ?thesis
    by (auto simp: article_url_parse_def Let_def split: if_splits)
qed

lemma decode_bind_source:
  assumes "source_ok L s"
  shows "decode_source L (bind_source L c u s) = Inr s"
proof -
  have "(case src_article_url s of None \<Rightarrow> Inr None
      | Some v \<Rightarrow> map_err SourceDomain (bindE (article_url_parse L v) (\<lambda>u. Inr (Some u)))) = Inr (src_article_url s)"
    using assms by (auto simp: source_ok_def split: option.splits)
  with assms show ?thesis
    by (cases s) (simp add: decode_source_def bind_source_def source_ok_def source_from_parts_def)
qed

lemma source_row_okE:
  assumes "source_row_ok L r"
  obtains s where "source_ok L s" "decode_source L r = Inr s"
    "r = bind_source L (so_created_at r) (so_updated_at r) s"
  using assms decode_bind_source unfolding source_row_ok_def by metis

lemma source_row_okI: "source_ok L s \<Longrightarrow> r = bind_source L c u s \<Longrightarrow> source_row_ok L r"
  unfolding source_row_ok_def by (rule exI [of _ s]) (simp add: bind_source_def)

lemma sources_ok_find:
  assumes "sources_ok L d" "find_source_row i d = Some r"
  shows "r \<in> set (d_sources d)" "so_id r = i" "source_row_ok L r"
  using assms find_SomeD [of _ "d_sources d" r] by (auto simp: sources_ok_def find_source_row_def)

lemma source_at_row:
  assumes "sources_ok L d" "source_at L d i = Some s"
  obtains r where "find_source_row i d = Some r" "decode_source L r = Inr s" "source_ok L s"
    "r = bind_source L (so_created_at r) (so_updated_at r) s" "src_id s = i"
proof -
  from assms(2) obtain r where r: "find_source_row i d = Some r" "decode_source L r = Inr s"
    by (auto simp: source_at_def split: option.splits sum.splits)
  from sources_ok_find [OF assms(1) r(1)] obtain s' where s': "source_ok L s'" "decode_source L r = Inr s'"
    "r = bind_source L (so_created_at r) (so_updated_at r) s'" and i: "so_id r = i"
    by (blast elim: source_row_okE)
  from r(2) s'(2) have "s' = s" by simp
  moreover from s'(3) i have "src_id s' = i" by (metis bind_source_def source_row.select_convs(1))
  ultimately show thesis using that r s' by blast
qed

lemma find_for_update_at:
  "sources_ok L d \<Longrightarrow> find_for_update L i d = Inr s \<Longrightarrow> source_at L d i = Some s"
  by (auto simp: find_for_update_def source_at_def result_simps)


section \<open>Operations as steps\<close>

text \<open>
  Each operation in a transaction of its own, with the clock the statement reads. An operation is
  typed when its values have the Rust types the source gives them: an article URL is the result of
  \<^verbatim>\<open>parse\<close>, and an interval is a duration chrono can represent.
\<close>

datatype source_op =
    InsertSource datetime new_source
  | SetEnabled datetime uuid bool
  | UpdateSource datetime uuid source_patch
  | DeleteSource uuid
  | SetGate datetime uuid scheduling_gate
  | UpdateSchedule datetime uuid datetime "datetime option" "datetime option"
  | BumpRevision datetime uuid feed_revision

fun source_step :: "libs \<Rightarrow> source_op \<Rightarrow> db \<Rightarrow> db" where
  "source_step L (InsertSource now spec) d = snd (transact (source_insert L now spec) d)"
| "source_step L (SetEnabled now i e) d = snd (transact (set_enabled L now i e) d)"
| "source_step L (UpdateSource now i patch) d = snd (transact (source_update_op L now i patch) d)"
| "source_step L (DeleteSource i) d = snd (transact (source_delete i) d)"
| "source_step L (SetGate now i g) d = snd (transact (set_scheduling_gate L now i g) d)"
| "source_step L (UpdateSchedule now i n c r) d = snd (transact (update_schedule L now i n c r) d)"
| "source_step L (BumpRevision now i expected) d = snd (transact (bump_feed_revision now i expected) d)"

definition verified_url :: "libs \<Rightarrow> rstring \<Rightarrow> bool" where
  "verified_url L u \<longleftrightarrow> (\<exists>v. article_url_parse L v = Inr u)"

definition representable :: "libs \<Rightarrow> duration \<Rightarrow> bool" where
  "representable L d \<longleftrightarrow>
     (d = seconds (num_seconds (lib_chrono L) d) \<longrightarrow> try_seconds L (num_seconds (lib_chrono L) d) = Some d)"

fun op_typed :: "libs \<Rightarrow> source_op \<Rightarrow> bool" where
  "op_typed L (InsertSource now spec) \<longleftrightarrow>
     (\<forall>u. ns_article_url spec = Some u \<longrightarrow> verified_url L u) \<and> representable L (ns_sync_interval spec)"
| "op_typed L (UpdateSource now i patch) \<longleftrightarrow>
     (\<forall>u. sp_article_url patch = Some (Some u) \<longrightarrow> verified_url L u) \<and>
     (\<forall>t. sp_sync_interval patch = Some t \<longrightarrow> representable L t)"
| "op_typed L _ \<longleftrightarrow> True"

fun keeps_source :: "source_op \<Rightarrow> uuid \<Rightarrow> bool" where
  "keeps_source (DeleteSource i) k \<longleftrightarrow> i \<noteq> k"
| "keeps_source _ k \<longleftrightarrow> True"

definition visible :: "source \<Rightarrow> rstring \<times> rstring \<times> rstring option \<times> u32" where
  "visible s = (src_book_id s, src_display_name s, src_article_url s, src_rss_item_limit s)"

definition source_evolves :: "source \<Rightarrow> source \<Rightarrow> bool" where
  "source_evolves s s' \<longleftrightarrow>
     src_id s' = src_id s \<and> src_feed_revision s \<le> src_feed_revision s' \<and>
     (src_feed_revision s' = src_feed_revision s \<longrightarrow> visible s' = visible s)"

lemma source_evolves_refl: "source_evolves s s"
  by (simp add: source_evolves_def)

lemma source_evolves_trans: "source_evolves a b \<Longrightarrow> source_evolves b c \<Longrightarrow> source_evolves a c"
  unfolding source_evolves_def by (metis order_antisym order_trans)

lemma source_visible_change_iff: "source_visible_change s s' \<longleftrightarrow> visible s' \<noteq> visible s"
  by (auto simp: source_visible_change_def visible_def)

text \<open>One statement on one row.\<close>

lemma update_row_step:
  assumes ok: "sources_ok L d" and r: "find_source_row i d = Some r"
    and s: "decode_source L r = Inr s" "source_evolves s s'" "source_ok L s'"
    and row: "f r = bind_source L c u s'" and key: "\<And>r. so_id (f r) = so_id r"
    and book: "\<forall>r' \<in> set (d_sources d). so_id r' \<noteq> i \<longrightarrow> so_book_id r' \<noteq> src_book_id s'"
  defines "d' \<equiv> d\<lparr>d_sources := update_rows (\<lambda>r. so_id r = i) f (d_sources d)\<rparr>"
  shows "sources_ok L d'" "source_at L d k = Some v \<Longrightarrow> \<exists>v'. source_at L d' k = Some v' \<and> source_evolves v v'"
proof -
  note in_table = sources_ok_find [OF ok r]
  have dist: "distinct (map so_id (d_sources d))" using ok by (simp add: sources_ok_def)
  have only: "r' = r" if "r' \<in> set (d_sources d)" "so_id r' = i" for r'
    using distinct_key_eq [OF dist that(1) in_table(1)] that(2) in_table(2) by simp
  have dec: "decode_source L (f r) = Inr s'" using decode_bind_source [OF s(3)] row by simp
  have "so_book_id (f r) = src_book_id s'" by (simp add: row bind_source_def)
  then have books: "distinct (map so_book_id (update_rows (\<lambda>r. so_id r = i) f (d_sources d)))"
    using ok book only dist by (intro update_rows_distinct [where r = r]) (auto simp: sources_ok_def)
  show "sources_ok L d'"
    unfolding sources_ok_def d'_def
  proof (simp, intro conjI)
    show "\<forall>r \<in> set (update_rows (\<lambda>r. so_id r = i) f (d_sources d)). source_row_ok L r"
      using ok only source_row_okI [OF s(3) row] by (intro update_rows_all) (auto simp: sources_ok_def)
    show "distinct (map so_id (update_rows (\<lambda>r. so_id r = i) f (d_sources d)))"
      using dist by (simp add: update_rows_keys key)
  qed (rule books)
  have look: "find_source_row k d' = map_option (\<lambda>r. if so_id r = i then f r else r) (find_source_row k d)"
    unfolding find_source_row_def d'_def by (simp add: find_keyed_update key)
  assume v: "source_at L d k = Some v"
  show "\<exists>v'. source_at L d' k = Some v' \<and> source_evolves v v'"
  proof (cases "k = i")
    case True
    with v r s(1) have "v = s" by (simp add: source_at_def)
    with True r in_table(2) dec s(2) look show ?thesis by (simp add: source_at_def)
  next
    case False
    from source_at_row [OF ok v] obtain rk where rk: "find_source_row k d = Some rk" .
    with sources_ok_find(2) [OF ok rk] False look v show ?thesis
      by (auto simp: source_at_def source_evolves_refl)
  qed
qed

definition keeps_sources :: "libs \<Rightarrow> (uuid \<Rightarrow> bool) \<Rightarrow> db \<Rightarrow> db \<Rightarrow> bool" where
  "keeps_sources L kept d d' \<longleftrightarrow>
     sources_ok L d' \<and>
     (\<forall>k v. kept k \<longrightarrow> source_at L d k = Some v \<longrightarrow>
        (\<exists>v'. source_at L d' k = Some v' \<and> source_evolves v v'))"

lemma keeps_sources_refl: "sources_ok L d \<Longrightarrow> keeps_sources L kept d d"
  by (auto simp: keeps_sources_def source_evolves_refl)

lemma keeps_rolled_back:
  assumes "sources_ok L d" "\<And>r. fst (m d) = Inr r \<Longrightarrow> keeps_sources L kept d (snd (m d))"
  shows "keeps_sources L kept d (snd (transact m d))"
  using assms keeps_sources_refl by (cases rule: transact_cases [of m d]) auto

lemma other_book:
  assumes "sources_ok L d" "r \<in> set (d_sources d)"
  shows "\<forall>r' \<in> set (d_sources d). so_id r' \<noteq> so_id r \<longrightarrow> so_book_id r' \<noteq> so_book_id r"
  using distinct_key_eq [OF _ _ assms(2), of so_book_id] assms(1) unfolding sources_ok_def by blast

lemma update_source_row_keeps:
  assumes ok: "sources_ok L d"
    and cols: "\<And>s c u. f (bind_source L c u s) = bind_source L c now (g s)"
    and g: "\<And>s. source_ok L s \<Longrightarrow> source_ok L (g s) \<and> source_evolves s (g s) \<and> src_book_id (g s) = src_book_id s"
    and key: "\<And>r. so_id (f r) = so_id r"
  shows "keeps_sources L (\<lambda>_. True) d (snd (transact (update_source_row L i f) d))"
proof (rule keeps_rolled_back [OF ok])
  fix res assume res: "fst (update_source_row L i f d) = Inr res"
  then obtain r where r: "find_source_row i d = Some r"
    and d': "snd (update_source_row L i f d) = d\<lparr>d_sources := update_rows (\<lambda>r. so_id r = i) f (d_sources d)\<rparr>"
    by (auto simp: update_source_row_def split: sum.splits option.splits)
  from sources_ok_find [OF ok r] obtain s where s: "source_ok L s" "decode_source L r = Inr s"
    "r = bind_source L (so_created_at r) (so_updated_at r) s" and id: "so_id r = i" "r \<in> set (d_sources d)"
    by (blast elim: source_row_okE)
  note gs = g [OF s(1)]
  have "so_book_id r = src_book_id s" using s(3) by (metis bind_source_def source_row.select_convs(2))
  then have other: "\<forall>r' \<in> set (d_sources d). so_id r' \<noteq> i \<longrightarrow> so_book_id r' \<noteq> src_book_id (g s)"
    using other_book [OF ok id(2)] id gs by simp
  have "f r = bind_source L (so_created_at r) now (g s)" using cols s(3) by metis
  note step = update_row_step [OF ok r s(2) conjunct1 [OF conjunct2 [OF gs]] conjunct1 [OF gs] this key other]
  show "keeps_sources L (\<lambda>_. True) d (snd (update_source_row L i f d))"
    unfolding keeps_sources_def d' using step by blast
qed

lemma source_ok_cong:
  assumes "source_ok L s" "src_id s' = src_id s" "src_book_id s' = src_book_id s"
    "src_display_name s' = src_display_name s" "src_article_url s' = src_article_url s"
    "src_sync_interval s' = src_sync_interval s" "src_rss_item_limit s' = src_rss_item_limit s"
    "src_account_id s' = src_account_id s" "src_max_attempts s' = src_max_attempts s"
    "src_feed_revision s' = src_feed_revision s"
  shows "source_ok L s' \<and> source_evolves s s' \<and> src_book_id s' = src_book_id s"
proof -
  have "source_ok L s' = source_ok L s" unfolding source_ok_def source_validate_def assms(2-) ..
  with assms show ?thesis by (simp add: source_evolves_def visible_def)
qed

lemma source_ok_set:
  assumes "source_ok L s"
  shows "source_ok L (s\<lparr>src_enabled := e\<rparr>)" "source_evolves s (s\<lparr>src_enabled := e\<rparr>)"
    "source_ok L (s\<lparr>src_scheduling_gate := g\<rparr>)" "source_evolves s (s\<lparr>src_scheduling_gate := g\<rparr>)"
    "source_ok L (s\<lparr>src_next_fetch_at := n, src_failure_cooldown_until := c, src_schedule_reserved_until := r\<rparr>)"
    "source_evolves s (s\<lparr>src_next_fetch_at := n, src_failure_cooldown_until := c, src_schedule_reserved_until := r\<rparr>)"
  using source_ok_cong [OF assms, of "s\<lparr>src_enabled := e\<rparr>"]
    source_ok_cong [OF assms, of "s\<lparr>src_scheduling_gate := g\<rparr>"]
    source_ok_cong [OF assms, of "s\<lparr>src_next_fetch_at := n, src_failure_cooldown_until := c, src_schedule_reserved_until := r\<rparr>"]
  by simp_all

lemma set_enabled_keeps:
  "sources_ok L d \<Longrightarrow> keeps_sources L (\<lambda>_. True) d (snd (transact (set_enabled L now i e) d))"
  unfolding set_enabled_def
  by (rule update_source_row_keeps [where g = "\<lambda>s. s\<lparr>src_enabled := e\<rparr>" and now = now])
    (simp_all add: bind_source_def source_ok_set)

lemma set_gate_keeps:
  "sources_ok L d \<Longrightarrow> keeps_sources L (\<lambda>_. True) d (snd (transact (set_scheduling_gate L now i e) d))"
  unfolding set_scheduling_gate_def
  by (rule update_source_row_keeps [where g = "\<lambda>s. s\<lparr>src_scheduling_gate := e\<rparr>" and now = now])
    (simp_all add: bind_source_def source_ok_set)

lemma update_schedule_keeps:
  "sources_ok L d \<Longrightarrow> keeps_sources L (\<lambda>_. True) d (snd (transact (update_schedule L now i n c r) d))"
  unfolding update_schedule_def
  by (rule update_source_row_keeps [where g = "\<lambda>s. s\<lparr>src_next_fetch_at := n, src_failure_cooldown_until := c,
        src_schedule_reserved_until := r\<rparr>" and now = now])
    (simp_all add: bind_source_def source_ok_set)

lemma bump_keeps:
  assumes ok: "sources_ok L d"
  shows "keeps_sources L (\<lambda>_. True) d (snd (transact (bump_feed_revision now i expected) d))"
proof (rule keeps_rolled_back [OF ok])
  let ?f = "\<lambda>r. r\<lparr>so_feed_revision := so_feed_revision r + 1, so_updated_at := now\<rparr>"
  fix res assume res: "fst (bump_feed_revision now i expected d) = Inr res"
  then obtain r where r: "find_source_row i d = Some r" "so_feed_revision r + 1 < 2 ^ 63"
    and d': "snd (bump_feed_revision now i expected d) =
      d\<lparr>d_sources := update_rows (\<lambda>r. so_id r = i) ?f (d_sources d)\<rparr>"
    by (auto simp: bump_feed_revision_def result_simps not_le split: sum.splits option.splits if_splits)
  from sources_ok_find [OF ok r(1)] obtain s where s: "source_ok L s" "decode_source L r = Inr s"
    "r = bind_source L (so_created_at r) (so_updated_at r) s" and id: "so_id r = i" "r \<in> set (d_sources d)"
    by (blast elim: source_row_okE)
  let ?s = "s\<lparr>src_feed_revision := src_feed_revision s + 1\<rparr>"
  have rev: "so_feed_revision r = uint (src_feed_revision s)"
    using s(3) by (metis bind_source_def source_row.select_convs(6))
  have "int (unat (src_feed_revision s) + 1) < int (2 ^ 63)" using r(2) unfolding rev uint_nat by simp
  then have small: "unat (src_feed_revision s) + 1 < 2 ^ 63" by (simp only: of_nat_less_iff)
  then have next_rev: "unat (src_feed_revision s + 1) = unat (src_feed_revision s) + 1"
    by (simp add: unat_word_ariths)
  have "source_validate L ?s = source_validate L s" by (simp add: source_validate_def)
  then have ok': "source_ok L ?s" using s(1) small next_rev by (simp add: source_ok_def)
  have ev: "source_evolves s ?s"
    using next_rev by (auto simp: source_evolves_def word_le_nat_alt)
  have "uint (src_feed_revision s + 1) = uint (src_feed_revision s) + 1"
    using next_rev unfolding uint_nat by simp
  with s(3) have row: "?f r = bind_source L (so_created_at r) now ?s"
    by (cases r) (simp add: bind_source_def)
  have "so_book_id r = src_book_id s" using s(3) by (metis bind_source_def source_row.select_convs(2))
  then have other: "\<forall>r' \<in> set (d_sources d). so_id r' \<noteq> i \<longrightarrow> so_book_id r' \<noteq> src_book_id ?s"
    using other_book [OF ok id(2)] id by simp
  have key: "so_id (?f r) = so_id r" for r by simp
  note step = update_row_step [where f = ?f, OF ok r(1) s(2) ev ok' row key other]
  show "keeps_sources L (\<lambda>_. True) d (snd (bump_feed_revision now i expected d))"
    unfolding keeps_sources_def d' using step by blast
qed

lemma delete_keeps:
  assumes ok: "sources_ok L d"
  shows "keeps_sources L (\<lambda>k. i \<noteq> k) d (snd (transact (source_delete i) d))"
proof (rule keeps_rolled_back [OF ok])
  fix res assume "fst (source_delete i d) = Inr res"
  then have d': "d_sources (snd (source_delete i d)) = filter (\<lambda>r. so_id r \<noteq> i) (d_sources d)"
    by (auto simp: source_delete_def split: sum.splits option.splits)
  then have "find_source_row k (snd (source_delete i d)) = find_source_row k d" if "i \<noteq> k" for k
    unfolding find_source_row_def using that by (simp add: find_filter_key)
  moreover have "sources_ok L (snd (source_delete i d))"
    using ok unfolding sources_ok_def d' by (simp add: distinct_map_filter)
  ultimately show "keeps_sources L (\<lambda>k. i \<noteq> k) d (snd (source_delete i d))"
    by (auto simp: keeps_sources_def source_at_def source_evolves_refl)
qed

lemma insert_keeps:
  assumes L: "libs_ok L" and ok: "sources_ok L d" and typed: "op_typed L (InsertSource now spec)"
  shows "keeps_sources L (\<lambda>_. True) d (snd (transact (source_insert L now spec) d))"
proof (rule keeps_rolled_back [OF ok])
  fix res assume res: "fst (source_insert L now spec d) = Inr res"
  then obtain s n where s: "source_new L spec = Inr s" "duration_seconds L (src_sync_interval s) = Inr n"
    and free: "unique_violation (new_source_row now s n) (d_sources d) = None"
    and d': "snd (source_insert L now spec d) = d\<lparr>d_sources := d_sources d @ [new_source_row now s n]\<rparr>"
    by (auto simp: source_insert_def Let_def split: sum.splits option.splits)
  from s(1) have new: "source_validate L s = Inr ()" "src_article_url s = ns_article_url spec"
    "src_sync_interval s = ns_sync_interval spec" "src_feed_revision s = 0"
    "src_failure_cooldown_until s = None" "src_schedule_reserved_until s = None"
    by (auto simp: source_new_def Let_def result_simps)
  from s(2) have n: "n = num_seconds (lib_chrono L) (src_sync_interval s)" "src_sync_interval s = seconds n"
    by (auto simp: duration_seconds_def Let_def split: if_splits)
  from typed have "representable L (src_sync_interval s)" by (simp add: new(3))
  then have secs: "try_seconds L n = Some (src_sync_interval s)"
    unfolding representable_def n(1) [symmetric] using n(2) by blast
  have urls: "\<forall>u. src_article_url s = Some u \<longrightarrow> article_url_parse L u = Inr u"
    using typed article_url_idem [OF L] by (auto simp: new(2) verified_url_def)
  have "source_ok L s"
    unfolding source_ok_def n(1) [symmetric] using new(1,4) secs urls by simp
  moreover have row: "new_source_row now s n = bind_source L now now s"
    by (simp add: new_source_row_def bind_source_def n(1) [symmetric] new(4-6))
  ultimately have row_ok: "source_row_ok L (new_source_row now s n)" using source_row_okI by blast
  have apart: "so_id (new_source_row now s n) \<notin> so_id ` set (d_sources d)"
    "so_book_id (new_source_row now s n) \<notin> so_book_id ` set (d_sources d)"
    using free by (auto simp: unique_violation_def split: if_splits)
  then have "sources_ok L (d\<lparr>d_sources := d_sources d @ [new_source_row now s n]\<rparr>)"
    using ok row_ok by (auto simp: sources_ok_def)
  then show "keeps_sources L (\<lambda>_. True) d (snd (source_insert L now spec d))"
    by (auto simp: keeps_sources_def d' source_at_def find_source_row_def find_append_key source_evolves_refl
        split: option.splits)
qed

text \<open>A validated update keeps the source well formed and moves its revision exactly when needed.\<close>

lemma apply_patch_ok:
  assumes L: "libs_ok L" and s: "source_ok L s"
    and patch: "apply_patch L patch s = Inr s'" and rev: "unat (src_feed_revision s') < 2 ^ 63"
    and url: "\<forall>u. sp_article_url patch = Some (Some u) \<longrightarrow> verified_url L u"
    and interval: "\<forall>t. sp_sync_interval patch = Some t \<longrightarrow> representable L t"
  shows "source_ok L s' \<and> source_evolves s s'"
proof -
  define up where "up = s\<lparr>src_book_id := trim (or_current (sp_book_id patch) (src_book_id s)),
      src_display_name := trim (or_current (sp_display_name patch) (src_display_name s)),
      src_article_url := or_current (sp_article_url patch) (src_article_url s),
      src_sync_interval := or_current (sp_sync_interval patch) (src_sync_interval s),
      src_rss_item_limit := or_current (sp_rss_item_limit patch) (src_rss_item_limit s),
      src_account_id := or_current (sp_account_id patch) (src_account_id s),
      src_priority := or_current (sp_priority patch) (src_priority s),
      src_max_attempts := or_current (sp_max_attempts patch) (src_max_attempts s)\<rparr>"
  from patch have valid: "source_validate L up = Inr ()"
    and res: "s' = up \<and> \<not> source_visible_change s up \<or>
      (\<exists>r. revision_next (src_feed_revision up) = Some r \<and> s' = up\<lparr>src_feed_revision := r\<rparr>)"
    by (auto simp: apply_patch_def apply_update_def Let_def up_def [symmetric] result_simps
        advance_feed_revision_def split: if_splits option.splits)
  have same: "src_feed_revision up = src_feed_revision s" "src_id up = src_id s" by (simp_all add: up_def)
  have urls: "article_url_parse L u = Inr u" if "src_article_url up = Some u" for u
    using that s url article_url_idem [OF L]
    by (auto simp: up_def or_current_def source_ok_def verified_url_def split: option.splits)
  from valid have "src_sync_interval up = seconds (num_seconds (lib_chrono L) (src_sync_interval up))"
    by (auto simp: source_validate_def split: if_splits)
  then have secs: "try_seconds L (num_seconds (lib_chrono L) (src_sync_interval up)) = Some (src_sync_interval up)"
    using s interval by (auto simp: up_def or_current_def source_ok_def representable_def split: option.splits)
  from res show ?thesis
  proof (elim disjE exE conjE)
    assume "s' = up" "\<not> source_visible_change s up"
    with valid urls secs rev same show ?thesis
      by (simp add: source_ok_def source_evolves_def source_visible_change_iff)
  next
    fix r assume r: "revision_next (src_feed_revision up) = Some r" "s' = up\<lparr>src_feed_revision := r\<rparr>"
    then have "unat r = unat (src_feed_revision s) + 1"
      using checked_add_Some_unat same(1) by (fastforce simp: revision_next_def)
    then have "src_feed_revision s < r" by (simp add: word_less_nat_alt)
    moreover have "source_validate L s' = source_validate L up" by (simp add: r(2) source_validate_def)
    ultimately show ?thesis using valid urls secs rev same r(2)
      by (auto simp: source_ok_def source_evolves_def)
  qed
qed

lemma update_keeps:
  assumes L: "libs_ok L" and ok: "sources_ok L d" and typed: "op_typed L (UpdateSource now i patch)"
  shows "keeps_sources L (\<lambda>_. True) d (snd (transact (source_update_op L now i patch) d))"
proof (rule keeps_rolled_back [OF ok])
  fix res assume res: "fst (source_update_op L now i patch d) = Inr res"
  then obtain s s' n v where s: "find_for_update L i d = Inr s" "apply_patch L patch s = Inr s'"
      "duration_seconds L (src_sync_interval s') = Inr n" "persisted_revision (src_feed_revision s') = Inr v"
    and fr: "\<not> (\<exists>r \<in> set (d_sources d). so_id r \<noteq> i \<and> so_book_id r = src_book_id s')"
    unfolding source_update_op_def by (simp split: sum.splits if_splits)
  from fr have free: "\<forall>r' \<in> set (d_sources d). so_id r' \<noteq> i \<longrightarrow> so_book_id r' \<noteq> src_book_id s'" by blast
  have m: "source_update_op L now i patch d = update_source_row L i (patched_row now s' v n) d"
    unfolding source_update_op_def s(1) sum.case s(2) map_err_simps s(3,4) using fr by (simp only: if_False)
  let ?f = "patched_row now s' v n"
  from source_at_row [OF ok find_for_update_at [OF ok s(1)]] obtain r
    where r: "find_source_row i d = Some r" "decode_source L r = Inr s" "source_ok L s"
      "r = bind_source L (so_created_at r) (so_updated_at r) s" "src_id s = i" .
  from s(4) have v: "v = uint (src_feed_revision s')" "unat (src_feed_revision s') < 2 ^ 63"
    unfolding persisted_revision_def i64_try_from_def uint_nat by (auto split: if_splits)
  from s(3) have n: "n = num_seconds (lib_chrono L) (src_sync_interval s')"
    by (auto simp: duration_seconds_def Let_def split: if_splits)
  from apply_patch_ok [OF L r(3) s(2) v(2)] typed have s': "source_ok L s'" "source_evolves s s'" by auto
  have kept: "src_enabled s' = src_enabled s" "src_scheduling_gate s' = src_scheduling_gate s"
    "src_next_fetch_at s' = src_next_fetch_at s" "src_failure_cooldown_until s' = src_failure_cooldown_until s"
    "src_schedule_reserved_until s' = src_schedule_reserved_until s" "src_id s' = src_id s"
    using s(2) by (auto simp: apply_patch_def apply_update_def Let_def result_simps advance_feed_revision_def
        split: if_splits option.splits)
  from r(4) have row: "?f r = bind_source L (so_created_at r) now s'"
    by (cases r) (simp add: patched_row_def bind_source_def kept v n)
  have key: "so_id (?f r) = so_id r" for r by (simp add: patched_row_def)
  note step = update_row_step [where f = ?f, OF ok r(1,2) s'(2,1) row key free]
  have "snd (source_update_op L now i patch d) = d\<lparr>d_sources := update_rows (\<lambda>r. so_id r = i) ?f (d_sources d)\<rparr>"
    using res r(1) by (auto simp: m update_source_row_def split: sum.splits)
  then show "keeps_sources L (\<lambda>_. True) d (snd (source_update_op L now i patch d))"
    unfolding keeps_sources_def using step by simp
qed

lemma keeps_source_fun:
  "keeps_source (InsertSource now spec) = (\<lambda>_. True)" "keeps_source (SetEnabled now i e) = (\<lambda>_. True)"
  "keeps_source (UpdateSource now i patch) = (\<lambda>_. True)" "keeps_source (SetGate now i g) = (\<lambda>_. True)"
  "keeps_source (UpdateSchedule now i n c r) = (\<lambda>_. True)"
  "keeps_source (BumpRevision now i v) = (\<lambda>_. True)" "keeps_source (DeleteSource i) = (\<lambda>k. i \<noteq> k)"
  by auto

lemma source_step_keeps:
  assumes "libs_ok L" "sources_ok L d" "op_typed L op"
  shows "keeps_sources L (keeps_source op) d (source_step L op d)"
proof (cases op)
  case (InsertSource now spec)
  with insert_keeps [OF assms(1,2)] assms(3) show ?thesis by (simp add: keeps_source_fun)
next
  case (UpdateSource now i patch)
  with update_keeps [OF assms(1,2)] assms(3) show ?thesis by (simp add: keeps_source_fun)
next
  case (DeleteSource i)
  with delete_keeps [OF assms(2)] show ?thesis by (simp add: keeps_source_fun)
qed (use assms set_enabled_keeps set_gate_keeps update_schedule_keeps bump_keeps in \<open>simp_all add: keeps_source_fun\<close>)

interpretation st: tracked_table "source_at L" "\<lambda>d. libs_ok L \<and> sources_ok L d" "op_typed L"
  keeps_source "source_step L" source_evolves for L
  using source_step_keeps by unfold_locales
    (auto simp: keeps_sources_def source_evolves_refl intro: source_evolves_trans)

text \<open>
  A URL library for evaluation: it knows one host and no port, and reads every text that starts
  with the prefix as a URL.
\<close>

definition example_prefix :: rstring where
  "example_prefix = lit ''https://mp.weixin.qq.com/''"

definition example_url :: "rstring \<Rightarrow> url" where
  "example_url rest =
     \<lparr>u_scheme = lit ''https'', u_host = Some (lit ''mp.weixin.qq.com''), u_username = [],
      u_password = None, u_fragment = None, u_port = None, u_query_pairs = [], u_rest = rest\<rparr>"

definition example_libs :: libs where
  "example_libs =
     \<lparr>lib_chrono = chrono_ref, try_seconds = (\<lambda>n. Some (n * 1000000000)),
      url_parse = (\<lambda>v. if take 25 v = example_prefix \<and> trim v = v then Some (example_url (drop 25 v)) else None),
      url_text = (\<lambda>u. example_prefix @ u_rest u), url_clear_port = (\<lambda>u. Some (u\<lparr>u_port := None\<rparr>))\<rparr>"

lemma example_libs_ok: "libs_ok example_libs"
proof -
  have "length example_prefix = 25" by (simp add: example_prefix_def lit_def)
  moreover have "example_prefix @ drop 25 v = v" if "take 25 v = example_prefix" for v
    using that by (metis append_take_drop_id)
  ultimately show ?thesis
    by (auto simp: libs_ok_def example_libs_def example_url_def example_prefix_def lit_def split: if_splits)
qed

definition example_source :: source where
  "example_source =
     \<lparr>src_id = 7, src_book_id = lit ''book'', src_display_name = lit ''name'', src_article_url = None,
      src_enabled = True, src_sync_interval = 3600000000000, src_rss_item_limit = 20,
      src_account_id = None, src_scheduling_gate = Ready, src_feed_revision = 4,
      src_next_fetch_at = 100, src_failure_cooldown_until = None, src_schedule_reserved_until = None,
      src_priority = 1, src_max_attempts = 3\<rparr>"

definition empty_pg :: pg where
  "empty_pg = \<lparr>pg_jobs = [], pg_repair_jobs = [], pg_refresh_states = [], pg_entries = [], pg_lineage = []\<rparr>"

definition example_db :: db where
  "example_db =
     \<lparr>d_pg = empty_pg, d_sources = [bind_source example_libs 10 20 example_source], d_accounts = [],
      d_articles = [], d_feed_cache = [], d_build_leases = [], d_account_leases = []\<rparr>"

definition no_patch :: source_patch where
  "no_patch =
     \<lparr>sp_book_id = None, sp_display_name = None, sp_article_url = None, sp_sync_interval = None,
      sp_rss_item_limit = None, sp_account_id = None, sp_priority = None, sp_max_attempts = None\<rparr>"

lemma example_source_ok: "source_ok example_libs example_source"
  by (simp add: source_ok_def source_validate_def example_source_def example_libs_def chrono_ref_def
      seconds_def is_nil_def lit_def)

lemma example_db_ok: "sources_ok example_libs example_db"
  using source_row_okI [OF example_source_ok] by (simp add: sources_ok_def example_db_def)

lemma example_source_at: "source_at example_libs example_db 7 = Some example_source"
proof -
  have "so_id (bind_source example_libs 10 20 example_source) = 7"
    by (simp add: bind_source_def example_source_def)
  then show ?thesis
    using decode_bind_source [OF example_source_ok]
    by (simp add: source_at_def find_source_row_def example_db_def)
qed

text \<open>
  (C15) The feed revision of a source identifies its feed-visible state. From a well-formed table,
  through any sequence of inserts, updates, gate, schedule and revision changes and deletions of
  other sources, the table stays well formed (rows that decode, unique ids and unique book ids), the
  revision of a source never decreases, and as long as it is the same, so are the fields the feed
  shows: book id, display name, article URL and item limit.
\<close>

theorem feed_revision_tracks_visible_state:
  assumes "libs_ok L" "sources_ok L d" "\<forall>op \<in> set ops. op_typed L op \<and> keeps_source op i"
    and "source_at L d i = Some s"
  shows "sources_ok L (fold (source_step L) ops d) \<and>
     (\<exists>s'. source_at L (fold (source_step L) ops d) i = Some s' \<and>
        src_feed_revision s \<le> src_feed_revision s' \<and>
        (src_feed_revision s' = src_feed_revision s \<longrightarrow> visible s' = visible s))"
  using st.run_inv [of L d ops] st.run_evolves [of L d ops i s] assms
  by (auto simp: source_evolves_def)

theorem feed_revision_tracks_visible_state_witness:
  "sources_ok example_libs (fold (source_step example_libs)
      [UpdateSource 30 7 (no_patch\<lparr>sp_display_name := Some (lit ''new'')\<rparr>), BumpRevision 40 7 5, DeleteSource 8]
      example_db) \<and>
   (\<exists>s'. source_at example_libs (fold (source_step example_libs)
      [UpdateSource 30 7 (no_patch\<lparr>sp_display_name := Some (lit ''new'')\<rparr>), BumpRevision 40 7 5, DeleteSource 8]
      example_db) 7 = Some s' \<and> 4 \<le> src_feed_revision s')"
proof -
  have four: "src_feed_revision example_source = 4" by (simp add: example_source_def)
  show ?thesis
    using feed_revision_tracks_visible_state [OF example_libs_ok example_db_ok _ example_source_at,
        of "[UpdateSource 30 7 (no_patch\<lparr>sp_display_name := Some (lit ''new'')\<rparr>), BumpRevision 40 7 5, DeleteSource 8]"]
    unfolding four by (auto simp: no_patch_def)
qed

end
