(* ===== verification/Lease.thy ===== *)
theory Lease
  imports Source
begin

text \<open>
  Leases on accounts and on feed builds. \<^verbatim>\<open>AccountLease\<close> (\<^verbatim>\<open>src/domain/credentials.rs\<close>) and
  \<^verbatim>\<open>FeedBuildLease\<close> (\<^verbatim>\<open>src/domain/source.rs\<close>) are the same data with different key types, and so are
  the errors and the in-memory stores of \<^verbatim>\<open>account_lease_repository.rs\<close> and
  \<^verbatim>\<open>feed_cache_repository.rs\<close>: they are defined once. The PostgreSQL stores differ in their tables
  and are defined apart. The locale \<open>lease_store\<close> is the contract all of them keep; the
  guard and the browser pool of \<^verbatim>\<open>src/acquisition/browser_pool.rs\<close> are its clients.
\<close>

section \<open>Leases and stores\<close>

record lease =
  le_key :: uuid
  le_owner :: rstring
  le_token :: uuid
  le_until :: datetime
  le_heartbeat_at :: datetime

definition is_live_at :: "lease \<Rightarrow> datetime \<Rightarrow> bool" where
  "is_live_at l now \<longleftrightarrow> le_until l > now"

datatype lease_error =
    LeaseInvalidKey
  | LeaseEmptyOwner
  | LeaseInvalidDuration
  | LeaseSourceNotFound uuid
  | LeaseLost uuid
  | LeaseBackend string

type_synonym ('a, 's) lease_result = "(lease_error + 'a) \<times> 's"

definition validate_lease_owner :: "uuid \<Rightarrow> rstring \<Rightarrow> lease_error + unit" where
  "validate_lease_owner key owner =
     (if is_nil key then Inl LeaseInvalidKey
      else if trim owner = [] then Inl LeaseEmptyOwner else Inr ())"

definition validate_inputs :: "uuid \<Rightarrow> rstring \<Rightarrow> duration \<Rightarrow> lease_error + unit" where
  "validate_inputs key owner lease_for =
     bindE (validate_lease_owner key owner) (\<lambda>_.
       if lease_for \<le> 0 then Inl LeaseInvalidDuration else Inr ())"

definition whole_milliseconds :: "chrono \<Rightarrow> duration \<Rightarrow> lease_error + int" where
  "whole_milliseconds X lease_for =
     (let milliseconds = num_milliseconds X lease_for
      in if milliseconds \<le> 0 then Inl LeaseInvalidDuration else Inr milliseconds)"

text \<open>The in-memory stores: a settable clock and a map.\<close>

record lease_memory =
  lm_now :: datetime
  lm_leases :: "uuid \<rightharpoonup> lease"

definition memory_new :: "datetime \<Rightarrow> lease_memory" where
  "memory_new now = \<lparr>lm_now = now, lm_leases = Map.empty\<rparr>"

definition set_now :: "datetime \<Rightarrow> lease_memory \<Rightarrow> lease_memory" where
  "set_now now s = s\<lparr>lm_now := now\<rparr>"

definition is_held :: "uuid \<Rightarrow> rstring \<Rightarrow> uuid \<Rightarrow> lease_memory \<Rightarrow> bool" where
  "is_held key owner token s =
     (case lm_leases s key of
        None \<Rightarrow> False
      | Some l \<Rightarrow> le_owner l = owner \<and> le_token l = token \<and> is_live_at l (lm_now s))"

definition memory_acquire ::
    "chrono \<Rightarrow> uuid \<Rightarrow> uuid \<Rightarrow> rstring \<Rightarrow> duration \<Rightarrow> lease_memory \<Rightarrow> (lease option, lease_memory) lease_result" where
  "memory_acquire X tok key owner lease_for s =
     (case validate_inputs key owner lease_for of Inl e \<Rightarrow> (Inl e, s) | Inr _ \<Rightarrow>
      if (case lm_leases s key of None \<Rightarrow> False | Some l \<Rightarrow> is_live_at l (lm_now s)) then (Inr None, s)
      else case checked_add_signed X (lm_now s) lease_for of
        None \<Rightarrow> (Inl LeaseInvalidDuration, s)
      | Some lease_until \<Rightarrow>
          (let l = \<lparr>le_key = key, le_owner = owner, le_token = tok, le_until = lease_until,
                    le_heartbeat_at = lm_now s\<rparr>
           in (Inr (Some l), s\<lparr>lm_leases := (lm_leases s)(key \<mapsto> l)\<rparr>)))"

definition memory_heartbeat ::
    "chrono \<Rightarrow> uuid \<Rightarrow> rstring \<Rightarrow> uuid \<Rightarrow> duration \<Rightarrow> lease_memory \<Rightarrow> (lease, lease_memory) lease_result" where
  "memory_heartbeat X key owner token lease_for s =
     (case validate_inputs key owner lease_for of Inl e \<Rightarrow> (Inl e, s) | Inr _ \<Rightarrow>
      if \<not> is_held key owner token s then (Inl (LeaseLost key), s)
      else case checked_add_signed X (lm_now s) lease_for of
        None \<Rightarrow> (Inl LeaseInvalidDuration, s)
      | Some lease_until \<Rightarrow>
          (let renewed = \<lparr>le_key = key, le_owner = owner, le_token = token, le_until = lease_until,
                          le_heartbeat_at = lm_now s\<rparr>
           in (Inr renewed, s\<lparr>lm_leases := (lm_leases s)(key \<mapsto> renewed)\<rparr>)))"

definition memory_release ::
    "uuid \<Rightarrow> rstring \<Rightarrow> uuid \<Rightarrow> lease_memory \<Rightarrow> (unit, lease_memory) lease_result" where
  "memory_release key owner token s =
     (case validate_lease_owner key owner of Inl e \<Rightarrow> (Inl e, s) | Inr _ \<Rightarrow>
      if is_held key owner token s then (Inr (), s\<lparr>lm_leases := (lm_leases s)(key := None)\<rparr>)
      else (Inl (LeaseLost key), s))"

text \<open>PostgreSQL: the table \<^verbatim>\<open>account_leases\<close>.\<close>

definition account_lease_live :: "pg_env \<Rightarrow> uuid \<Rightarrow> rstring \<Rightarrow> uuid \<Rightarrow> account_lease_row \<Rightarrow> bool" where
  "account_lease_live E key owner token r \<longleftrightarrow>
     al_account_id r = key \<and> al_lease_owner r = owner \<and> al_lease_token r = token \<and>
     al_lease_until r > db_now E"

definition decode_account_lease :: "account_lease_row \<Rightarrow> lease_error + lease" where
  "decode_account_lease r =
     (if is_nil (al_account_id r) then Inl LeaseInvalidKey
      else Inr \<lparr>le_key = al_account_id r, le_owner = al_lease_owner r, le_token = al_lease_token r,
                le_until = al_lease_until r, le_heartbeat_at = al_heartbeat_at r\<rparr>)"

definition account_acquire ::
    "chrono \<Rightarrow> pg_env \<Rightarrow> uuid \<Rightarrow> uuid \<Rightarrow> rstring \<Rightarrow> duration \<Rightarrow> db \<Rightarrow> (lease option, db) lease_result" where
  "account_acquire X E tok key owner lease_for d =
     (case validate_inputs key owner lease_for of Inl e \<Rightarrow> (Inl e, d) | Inr _ \<Rightarrow>
      case whole_milliseconds X lease_for of Inl e \<Rightarrow> (Inl e, d) | Inr ms \<Rightarrow>
      case ts_add E (db_now E) (millis ms) of
        None \<Rightarrow> (Inl (LeaseBackend ''timestamp out of range''), d)
      | Some lease_until \<Rightarrow>
          (let row = \<lparr>al_account_id = key, al_lease_owner = owner, al_lease_token = tok,
                      al_lease_until = lease_until, al_heartbeat_at = db_now E\<rparr>
           in case find (\<lambda>r. al_account_id r = key) (d_account_leases d) of
                None \<Rightarrow>
                  (bindE (decode_account_lease row) (Inr \<circ> Some),
                   d\<lparr>d_account_leases := d_account_leases d @ [row]\<rparr>)
              | Some r \<Rightarrow>
                  if al_lease_until r \<le> db_now E then
                    (bindE (decode_account_lease row) (Inr \<circ> Some),
                     d\<lparr>d_account_leases :=
                         update_rows (\<lambda>r. al_account_id r = key) (\<lambda>_. row) (d_account_leases d)\<rparr>)
                  else (Inr None, d)))"

definition account_heartbeat ::
    "chrono \<Rightarrow> pg_env \<Rightarrow> uuid \<Rightarrow> rstring \<Rightarrow> uuid \<Rightarrow> duration \<Rightarrow> db \<Rightarrow> (lease, db) lease_result" where
  "account_heartbeat X E key owner token lease_for d =
     (case validate_inputs key owner lease_for of Inl e \<Rightarrow> (Inl e, d) | Inr _ \<Rightarrow>
      case whole_milliseconds X lease_for of Inl e \<Rightarrow> (Inl e, d) | Inr ms \<Rightarrow>
      case find (account_lease_live E key owner token) (d_account_leases d) of
        None \<Rightarrow> (Inl (LeaseLost key), d)
      | Some r \<Rightarrow>
          (case ts_add E (db_now E) (millis ms) of
             None \<Rightarrow> (Inl (LeaseBackend ''timestamp out of range''), d)
           | Some lease_until \<Rightarrow>
               (let set_cols = (\<lambda>r. r\<lparr>al_lease_until := lease_until, al_heartbeat_at := db_now E\<rparr>)
                in (decode_account_lease (set_cols r),
                    d\<lparr>d_account_leases :=
                        update_rows (account_lease_live E key owner token) set_cols (d_account_leases d)\<rparr>))))"

definition account_release ::
    "pg_env \<Rightarrow> uuid \<Rightarrow> rstring \<Rightarrow> uuid \<Rightarrow> db \<Rightarrow> (unit, db) lease_result" where
  "account_release E key owner token d =
     (case validate_lease_owner key owner of Inl e \<Rightarrow> (Inl e, d) | Inr _ \<Rightarrow>
      case find (account_lease_live E key owner token) (d_account_leases d) of
        None \<Rightarrow> (Inl (LeaseLost key), d)
      | Some _ \<Rightarrow>
          (Inr (), d\<lparr>d_account_leases :=
             filter (\<lambda>r. \<not> account_lease_live E key owner token r) (d_account_leases d)\<rparr>))"

text \<open>PostgreSQL: the table \<^verbatim>\<open>feed_build_leases\<close>, with its foreign key to the source.\<close>

definition build_lease_live :: "datetime \<Rightarrow> uuid \<Rightarrow> rstring \<Rightarrow> uuid \<Rightarrow> build_lease_row \<Rightarrow> bool" where
  "build_lease_live now key owner token r \<longleftrightarrow>
     bl_source_id r = key \<and> bl_lease_owner r = owner \<and> bl_lease_token r = token \<and> bl_lease_until r > now"

definition decode_build_lease :: "build_lease_row \<Rightarrow> lease_error + lease" where
  "decode_build_lease r =
     (if is_nil (bl_source_id r) then Inl LeaseInvalidKey
      else Inr \<lparr>le_key = bl_source_id r, le_owner = bl_lease_owner r, le_token = bl_lease_token r,
                le_until = bl_lease_until r, le_heartbeat_at = bl_heartbeat_at r\<rparr>)"

definition acquire_build ::
    "chrono \<Rightarrow> pg_env \<Rightarrow> uuid \<Rightarrow> uuid \<Rightarrow> rstring \<Rightarrow> duration \<Rightarrow> db \<Rightarrow> (lease option, db) lease_result" where
  "acquire_build X E tok key owner lease_for d =
     (case validate_inputs key owner lease_for of Inl e \<Rightarrow> (Inl e, d) | Inr _ \<Rightarrow>
      case whole_milliseconds X lease_for of Inl e \<Rightarrow> (Inl e, d) | Inr ms \<Rightarrow>
      case ts_add E (db_now E) (millis ms) of
        None \<Rightarrow> (Inl (LeaseBackend ''timestamp out of range''), d)
      | Some lease_until \<Rightarrow>
          (let row = \<lparr>bl_source_id = key, bl_lease_owner = owner, bl_lease_token = tok,
                      bl_lease_until = lease_until, bl_heartbeat_at = db_now E,
                      bl_created_at = db_now E, bl_updated_at = db_now E\<rparr>;
               excluded = (\<lambda>r. r\<lparr>bl_lease_owner := owner, bl_lease_token := tok,
                                 bl_lease_until := lease_until, bl_heartbeat_at := db_now E,
                                 bl_updated_at := db_now E\<rparr>)
           in case find (\<lambda>r. bl_source_id r = key) (d_build_leases d) of
                None \<Rightarrow>
                  if \<forall>s \<in> set (d_sources d). so_id s \<noteq> key then (Inl (LeaseSourceNotFound key), d)
                  else (bindE (decode_build_lease row) (Inr \<circ> Some),
                        d\<lparr>d_build_leases := d_build_leases d @ [row]\<rparr>)
              | Some r \<Rightarrow>
                  if bl_lease_until r \<le> db_now E then
                    (bindE (decode_build_lease (excluded r)) (Inr \<circ> Some),
                     d\<lparr>d_build_leases :=
                         update_rows (\<lambda>r. bl_source_id r = key) excluded (d_build_leases d)\<rparr>)
                  else (Inr None, d)))"

definition heartbeat_build ::
    "chrono \<Rightarrow> pg_env \<Rightarrow> uuid \<Rightarrow> rstring \<Rightarrow> uuid \<Rightarrow> duration \<Rightarrow> db \<Rightarrow> (lease, db) lease_result" where
  "heartbeat_build X E key owner token lease_for d =
     (case validate_inputs key owner lease_for of Inl e \<Rightarrow> (Inl e, d) | Inr _ \<Rightarrow>
      case whole_milliseconds X lease_for of Inl e \<Rightarrow> (Inl e, d) | Inr ms \<Rightarrow>
      case find (build_lease_live (db_now E) key owner token) (d_build_leases d) of
        None \<Rightarrow> (Inl (LeaseLost key), d)
      | Some r \<Rightarrow>
          (case ts_add E (db_now E) (millis ms) of
             None \<Rightarrow> (Inl (LeaseBackend ''timestamp out of range''), d)
           | Some lease_until \<Rightarrow>
               (let set_cols = (\<lambda>r. r\<lparr>bl_lease_until := lease_until, bl_heartbeat_at := db_now E,
                                      bl_updated_at := db_now E\<rparr>)
                in (decode_build_lease (set_cols r),
                    d\<lparr>d_build_leases :=
                        update_rows (build_lease_live (db_now E) key owner token) set_cols
                          (d_build_leases d)\<rparr>))))"

definition release_build :: "pg_env \<Rightarrow> uuid \<Rightarrow> rstring \<Rightarrow> uuid \<Rightarrow> db \<Rightarrow> (unit, db) lease_result" where
  "release_build E key owner token d =
     (case validate_lease_owner key owner of Inl e \<Rightarrow> (Inl e, d) | Inr _ \<Rightarrow>
      case find (build_lease_live (db_now E) key owner token) (d_build_leases d) of
        None \<Rightarrow> (Inl (LeaseLost key), d)
      | Some _ \<Rightarrow>
          (Inr (), d\<lparr>d_build_leases :=
             filter (\<lambda>r. \<not> build_lease_live (db_now E) key owner token r) (d_build_leases d)\<rparr>))"


section \<open>Guards and the browser pool\<close>

text \<open>
  The trait \<^verbatim>\<open>AccountLeaseStore\<close> as a record of operations. An operation takes the instant its
  authoritative clock reads.
\<close>

record 's lease_port =
  lp_acquire :: "datetime \<Rightarrow> uuid \<Rightarrow> uuid \<Rightarrow> rstring \<Rightarrow> duration \<Rightarrow> 's \<Rightarrow> (lease option, 's) lease_result"
  lp_heartbeat :: "datetime \<Rightarrow> uuid \<Rightarrow> rstring \<Rightarrow> uuid \<Rightarrow> duration \<Rightarrow> 's \<Rightarrow> (lease, 's) lease_result"
  lp_release :: "datetime \<Rightarrow> uuid \<Rightarrow> rstring \<Rightarrow> uuid \<Rightarrow> 's \<Rightarrow> (unit, 's) lease_result"

definition memory_lease_port :: "chrono \<Rightarrow> lease_memory lease_port" where
  "memory_lease_port X =
     \<lparr>lp_acquire = (\<lambda>now tok key owner lf s. memory_acquire X tok key owner lf (set_now now s)),
      lp_heartbeat = (\<lambda>now key owner tok lf s. memory_heartbeat X key owner tok lf (set_now now s)),
      lp_release = (\<lambda>now key owner tok s. memory_release key owner tok (set_now now s))\<rparr>"

definition account_lease_port :: "chrono \<Rightarrow> pg_env \<Rightarrow> db lease_port" where
  "account_lease_port X E =
     \<lparr>lp_acquire = (\<lambda>now tok key owner lf. transact (account_acquire X (E\<lparr>db_now := now\<rparr>) tok key owner lf)),
      lp_heartbeat = (\<lambda>now key owner tok lf. transact (account_heartbeat X (E\<lparr>db_now := now\<rparr>) key owner tok lf)),
      lp_release = (\<lambda>now key owner tok. transact (account_release (E\<lparr>db_now := now\<rparr>) key owner tok))\<rparr>"

definition build_lease_port :: "chrono \<Rightarrow> pg_env \<Rightarrow> db lease_port" where
  "build_lease_port X E =
     \<lparr>lp_acquire = (\<lambda>now tok key owner lf. transact (acquire_build X (E\<lparr>db_now := now\<rparr>) tok key owner lf)),
      lp_heartbeat = (\<lambda>now key owner tok lf. transact (heartbeat_build X (E\<lparr>db_now := now\<rparr>) key owner tok lf)),
      lp_release = (\<lambda>now key owner tok. transact (release_build (E\<lparr>db_now := now\<rparr>) key owner tok))\<rparr>"

record lease_guard =
  g_lease :: lease
  g_cancelled :: bool

definition guard_acquire ::
    "'s lease_port \<Rightarrow> datetime \<Rightarrow> uuid \<Rightarrow> uuid \<Rightarrow> rstring \<Rightarrow> duration \<Rightarrow> 's \<Rightarrow> (lease_guard option, 's) lease_result" where
  "guard_acquire P now tok key owner lease_for s =
     (case lp_acquire P now tok key owner lease_for s of
        (Inl e, s') \<Rightarrow> (Inl e, s')
      | (Inr None, s') \<Rightarrow> (Inr None, s')
      | (Inr (Some l), s') \<Rightarrow> (Inr (Some \<lparr>g_lease = l, g_cancelled = False\<rparr>), s'))"

definition ensure_usable :: "lease_guard \<Rightarrow> lease_error + unit" where
  "ensure_usable g = (if g_cancelled g then Inl (LeaseLost (le_key (g_lease g))) else Inr ())"

definition guard_heartbeat ::
    "'s lease_port \<Rightarrow> datetime \<Rightarrow> duration \<Rightarrow> lease_guard \<Rightarrow> 's \<Rightarrow> (lease_error + unit) \<times> lease_guard \<times> 's" where
  "guard_heartbeat P now lease_for g s =
     (case ensure_usable g of
        Inl e \<Rightarrow> (Inl e, g, s)
      | Inr _ \<Rightarrow>
          (case lp_heartbeat P now (le_key (g_lease g)) (le_owner (g_lease g)) (le_token (g_lease g)) lease_for s of
             (Inr l, s') \<Rightarrow> (Inr (), g\<lparr>g_lease := l\<rparr>, s')
           | (Inl e, s') \<Rightarrow> (Inl e, g\<lparr>g_cancelled := True\<rparr>, s')))"

definition start_heartbeat :: "duration \<Rightarrow> duration \<Rightarrow> lease_guard \<Rightarrow> lease_error + unit" where
  "start_heartbeat heartbeat_for lease_for g =
     bindE (ensure_usable g) (\<lambda>_.
       if heartbeat_for \<le> 0 \<or> lease_for \<le> 0 \<or> heartbeat_for \<ge> lease_for
       then Inl LeaseInvalidDuration else Inr ())"

text \<open>
  The heartbeat task: one tick per instant of the list, ended by the first failure, which cancels
  the guard it shares its flag with.
\<close>

fun heartbeat_task ::
    "'s lease_port \<Rightarrow> duration \<Rightarrow> datetime list \<Rightarrow> lease_guard \<Rightarrow> 's \<Rightarrow> (lease_error + unit) \<times> lease_guard \<times> 's" where
  "heartbeat_task P lease_for [] g s = (Inr (), g, s)"
| "heartbeat_task P lease_for (now # ticks) g s =
     (case lp_heartbeat P now (le_key (g_lease g)) (le_owner (g_lease g)) (le_token (g_lease g)) lease_for s of
        (Inl e, s') \<Rightarrow> (Inl e, g\<lparr>g_cancelled := True\<rparr>, s')
      | (Inr _, s') \<Rightarrow> heartbeat_task P lease_for ticks g s')"

definition guard_release ::
    "'s lease_port \<Rightarrow> datetime \<Rightarrow> lease_guard \<Rightarrow> 's \<Rightarrow> (lease_error + unit) \<times> lease_guard \<times> 's" where
  "guard_release P now g s =
     (case lp_release P now (le_key (g_lease g)) (le_owner (g_lease g)) (le_token (g_lease g)) s of
        (r, s') \<Rightarrow> (r, g\<lparr>g_cancelled := True\<rparr>, s'))"

datatype browser_pool_error = InvalidCapacity | PoolClosed | AccountLeaseErr lease_error

record browser_pool =
  bp_capacity :: nat
  bp_free :: nat
  bp_closed :: bool

definition browser_pool_new :: "nat \<Rightarrow> browser_pool_error + browser_pool" where
  "browser_pool_new capacity =
     (if capacity = 0 then Inl InvalidCapacity
      else Inr \<lparr>bp_capacity = capacity, bp_free = capacity, bp_closed = False\<rparr>)"

text \<open>
  Waiting for a permit has no result of its own: \<open>open_public\<close> is the step that takes a permit
  when one is free, \<open>None\<close> while it waits.
\<close>

definition open_public :: "browser_pool \<Rightarrow> ((browser_pool_error + unit) \<times> browser_pool) option" where
  "open_public p =
     (if bp_closed p then Some (Inl PoolClosed, p)
      else if bp_free p = 0 then None
      else Some (Inr (), p\<lparr>bp_free := bp_free p - 1\<rparr>))"

definition try_open_public :: "browser_pool \<Rightarrow> (browser_pool_error + bool) \<times> browser_pool" where
  "try_open_public p =
     (if bp_closed p then (Inl PoolClosed, p)
      else if bp_free p = 0 then (Inr False, p)
      else (Inr True, p\<lparr>bp_free := bp_free p - 1\<rparr>))"

definition drop_permit :: "browser_pool \<Rightarrow> browser_pool" where
  "drop_permit p = p\<lparr>bp_free := bp_free p + 1\<rparr>"

definition open_authenticated ::
    "'s lease_port \<Rightarrow> datetime \<Rightarrow> uuid \<Rightarrow> uuid \<Rightarrow> rstring \<Rightarrow> duration \<Rightarrow> browser_pool \<Rightarrow> 's \<Rightarrow>
     ((browser_pool_error + lease_guard option) \<times> browser_pool \<times> 's) option" where
  "open_authenticated P now tok key owner lease_for p s =
     (case open_public p of
        None \<Rightarrow> None
      | Some (Inl e, p') \<Rightarrow> Some (Inl e, p', s)
      | Some (Inr _, p') \<Rightarrow>
          (case guard_acquire P now tok key owner lease_for s of
             (Inl e, s') \<Rightarrow> Some (Inl (AccountLeaseErr e), drop_permit p', s')
           | (Inr None, s') \<Rightarrow> Some (Inr None, drop_permit p', s')
           | (Inr (Some g), s') \<Rightarrow> Some (Inr (Some g), p', s')))"


section \<open>The contract of a lease store\<close>

locale lease_store =
  fixes held :: "'s \<Rightarrow> uuid \<Rightarrow> lease option"
    and inv :: "'s \<Rightarrow> bool"
    and P :: "'s lease_port"
  assumes acquired: "inv s \<Longrightarrow> lp_acquire P now tok k owner lf s = (Inr (Some l), s') \<Longrightarrow>
       inv s' \<and> held s' = (held s)(k \<mapsto> l) \<and> (\<forall>l0. held s k = Some l0 \<longrightarrow> le_until l0 \<le> now) \<and>
       le_key l = k \<and> le_owner l = owner \<and> le_token l = tok \<and> now < le_until l"
    and not_acquired: "inv s \<Longrightarrow> lp_acquire P now tok k owner lf s = (r, s') \<Longrightarrow> \<forall>l. r \<noteq> Inr (Some l) \<Longrightarrow>
       inv s' \<and> held s' = held s"
    and renewed: "inv s \<Longrightarrow> lp_heartbeat P now k owner tok lf s = (Inr l, s') \<Longrightarrow>
       inv s' \<and> held s' = (held s)(k \<mapsto> l) \<and> le_key l = k \<and> le_owner l = owner \<and> le_token l = tok \<and>
       now < le_until l \<and>
       (\<exists>l0. held s k = Some l0 \<and> le_owner l0 = owner \<and> le_token l0 = tok \<and> now < le_until l0)"
    and not_renewed: "inv s \<Longrightarrow> lp_heartbeat P now k owner tok lf s = (Inl e, s') \<Longrightarrow> inv s' \<and> held s' = held s"
    and released: "inv s \<Longrightarrow> lp_release P now k owner tok s = (Inr u, s') \<Longrightarrow>
       inv s' \<and> held s' = (held s)(k := None) \<and>
       (\<exists>l0. held s k = Some l0 \<and> le_owner l0 = owner \<and> le_token l0 = tok \<and> now < le_until l0)"
    and not_released: "inv s \<Longrightarrow> lp_release P now k owner tok s = (Inl e, s') \<Longrightarrow> inv s' \<and> held s' = held s"
begin

text \<open>A live lease cannot be taken over.\<close>

lemma live_excludes:
  assumes "inv s" "held s k = Some l" "now < le_until l"
  shows "fst (lp_acquire P now tok k owner lf s) \<noteq> Inr (Some l')"
proof
  assume "fst (lp_acquire P now tok k owner lf s) = Inr (Some l')"
  then have "lp_acquire P now tok k owner lf s = (Inr (Some l'), snd (lp_acquire P now tok k owner lf s))"
    by (metis prod.collapse)
  from acquired [OF assms(1) this] assms(2,3) show False by auto
qed

text \<open>Every operation either fails and changes nothing or does what its contract says.\<close>

lemma heartbeat_cases:
  assumes "inv s"
  obtains (renewed_lease) l0 l s' where "lp_heartbeat P now k owner tok lf s = (Inr l, s')" "inv s'"
      "held s' = (held s)(k \<mapsto> l)" "held s k = Some l0" "le_token l0 = tok" "le_token l = tok"
  | (rejected) e s' where "lp_heartbeat P now k owner tok lf s = (Inl e, s')" "inv s'" "held s' = held s"
proof (cases "lp_heartbeat P now k owner tok lf s")
  case (Pair r s')
  show thesis
  proof (cases r)
    case (Inl e)
    with Pair have "lp_heartbeat P now k owner tok lf s = (Inl e, s')" by simp
    from rejected [OF this] not_renewed [OF assms this] show thesis by blast
  next
    case (Inr l)
    with Pair have "lp_heartbeat P now k owner tok lf s = (Inr l, s')" by simp
    from renewed_lease [OF this] renewed [OF assms this] show thesis by blast
  qed
qed

lemma release_cases:
  assumes "inv s"
  obtains (released_lease) l0 u s' where "lp_release P now k owner tok s = (Inr u, s')" "inv s'"
      "held s' = (held s)(k := None)" "held s k = Some l0" "le_token l0 = tok"
  | (rejected) e s' where "lp_release P now k owner tok s = (Inl e, s')" "inv s'" "held s' = held s"
proof (cases "lp_release P now k owner tok s")
  case (Pair r s')
  show thesis
  proof (cases r)
    case (Inl e)
    with Pair have "lp_release P now k owner tok s = (Inl e, s')" by simp
    from rejected [OF this] not_released [OF assms this] show thesis by blast
  next
    case (Inr u)
    with Pair have "lp_release P now k owner tok s = (Inr u, s')" by simp
    from released_lease [OF this] released [OF assms this] show thesis by blast
  qed
qed

lemma acquire_cases:
  assumes "inv s"
  obtains (acquired_lease) l s' where "lp_acquire P now tok k owner lf s = (Inr (Some l), s')" "inv s'"
      "held s' = (held s)(k \<mapsto> l)" "\<forall>l0. held s k = Some l0 \<longrightarrow> le_until l0 \<le> now"
  | (refused) r s' where "lp_acquire P now tok k owner lf s = (r, s')" "inv s'" "held s' = held s"
proof (cases "lp_acquire P now tok k owner lf s")
  case (Pair r s')
  show thesis
  proof (cases "\<exists>l. r = Inr (Some l)")
    case True
    with Pair obtain l where "lp_acquire P now tok k owner lf s = (Inr (Some l), s')" by auto
    from acquired_lease [OF this] acquired [OF assms this] show thesis by blast
  next
    case False
    from refused [OF Pair] not_acquired [OF assms Pair] False show thesis by blast
  qed
qed

end

text \<open>Operations of any replica as steps.\<close>

datatype lease_op =
    LAcquire datetime uuid uuid rstring duration
  | LHeartbeat datetime uuid rstring uuid duration
  | LRelease datetime uuid rstring uuid

fun lease_step :: "'s lease_port \<Rightarrow> lease_op \<Rightarrow> 's \<Rightarrow> 's" where
  "lease_step P (LAcquire now tok k owner lf) s = snd (lp_acquire P now tok k owner lf s)"
| "lease_step P (LHeartbeat now k owner tok lf) s = snd (lp_heartbeat P now k owner tok lf s)"
| "lease_step P (LRelease now k owner tok) s = snd (lp_release P now k owner tok s)"

text \<open>An operation of another claim on the key, before the lease ends: it uses another token.\<close>

fun foreign :: "uuid \<Rightarrow> lease \<Rightarrow> lease_op \<Rightarrow> bool" where
  "foreign k l (LAcquire now tok k' owner lf) \<longleftrightarrow> k' = k \<longrightarrow> now < le_until l"
| "foreign k l (LHeartbeat now k' owner tok lf) \<longleftrightarrow> k' = k \<longrightarrow> tok \<noteq> le_token l"
| "foreign k l (LRelease now k' owner tok) \<longleftrightarrow> k' = k \<longrightarrow> tok \<noteq> le_token l"

context lease_store
begin

lemma foreign_step:
  assumes "inv s" "held s k = Some l" "foreign k l op"
  shows "held (lease_step P op s) k = Some l"
proof (cases op)
  case (LAcquire now tok k' owner lf)
  with assms show ?thesis
    by (cases rule: acquire_cases [OF assms(1), of now tok k' owner lf]) auto
next
  case (LHeartbeat now k' owner tok lf)
  with assms show ?thesis
    by (cases rule: heartbeat_cases [OF assms(1), of now k' owner tok lf]) auto
next
  case (LRelease now k' owner tok)
  with assms show ?thesis
    by (cases rule: release_cases [OF assms(1), of now k' owner tok]) auto
qed

lemma step_inv: "inv s \<Longrightarrow> inv (lease_step P op s)"
proof (cases op)
  case (LAcquire now tok k' owner lf)
  assume "inv s"
  with LAcquire show ?thesis by (cases rule: acquire_cases [OF \<open>inv s\<close>, of now tok k' owner lf]) auto
next
  case (LHeartbeat now k' owner tok lf)
  assume "inv s"
  with LHeartbeat show ?thesis by (cases rule: heartbeat_cases [OF \<open>inv s\<close>, of now k' owner tok lf]) auto
next
  case (LRelease now k' owner tok)
  assume "inv s"
  with LRelease show ?thesis by (cases rule: release_cases [OF \<open>inv s\<close>, of now k' owner tok]) auto
qed

lemma undisturbed:
  assumes "inv s" "held s k = Some l" "\<forall>op \<in> set ops. foreign k l op"
  shows "inv (fold (lease_step P) ops s) \<and> held (fold (lease_step P) ops s) k = Some l"
  using assms by (induction ops arbitrary: s) (auto simp: step_inv foreign_step)

text \<open>
  A claim that was granted keeps the lease through everything other claims do, and no other claim
  is granted before it ends.
\<close>

lemma granted_is_exclusive:
  assumes "inv s" "lp_acquire P t0 tok k owner lf s = (Inr (Some l), s')"
    and "\<forall>op \<in> set ops. foreign k l op" "now < le_until l"
  shows "held (fold (lease_step P) ops s') k = Some l \<and>
     fst (lp_acquire P now tok' k owner' lf' (fold (lease_step P) ops s')) \<noteq> Inr (Some l')"
proof -
  from acquired [OF assms(1,2)] have "inv s'" "held s' k = Some l" by simp_all
  from undisturbed [OF this assms(3)] live_excludes assms(4) show ?thesis by blast
qed

text \<open>The guard: it is only usable while its lease is the one in the store.\<close>

lemma guard_heartbeat_holds:
  assumes "inv s" "guard_heartbeat P now lf g s = (Inr (), g', s')"
  shows "inv s' \<and> held s' (le_key (g_lease g')) = Some (g_lease g') \<and> now < le_until (g_lease g') \<and>
     le_key (g_lease g') = le_key (g_lease g) \<and> le_token (g_lease g') = le_token (g_lease g) \<and>
     \<not> g_cancelled g'"
proof -
  from assms(2) obtain l where l: "lp_heartbeat P now (le_key (g_lease g)) (le_owner (g_lease g))
      (le_token (g_lease g)) lf s = (Inr l, s')" "g' = g\<lparr>g_lease := l\<rparr>" "\<not> g_cancelled g"
    by (auto simp: guard_heartbeat_def ensure_usable_def split: sum.splits prod.splits if_splits)
  from renewed [OF assms(1) l(1)] l(2,3) show ?thesis by simp
qed

lemma guard_failure_cancels:
  assumes "guard_heartbeat P now lf g s = (Inl e, g', s')"
  shows "g_cancelled g' \<and> guard_heartbeat P now' lf' g' s'' = (Inl (LeaseLost (le_key (g_lease g))), g', s'')"
  using assms
  by (auto simp: guard_heartbeat_def ensure_usable_def split: sum.splits prod.splits if_splits)

end


section \<open>The stores keep the contract\<close>

definition memory_held :: "lease_memory \<Rightarrow> uuid \<Rightarrow> lease option" where
  "memory_held s k = lm_leases s k"

definition account_held :: "db \<Rightarrow> uuid \<Rightarrow> lease option" where
  "account_held d k =
     map_option (\<lambda>r. \<lparr>le_key = al_account_id r, le_owner = al_lease_owner r, le_token = al_lease_token r,
                      le_until = al_lease_until r, le_heartbeat_at = al_heartbeat_at r\<rparr>)
       (find (\<lambda>r. al_account_id r = k) (d_account_leases d))"

definition build_held :: "db \<Rightarrow> uuid \<Rightarrow> lease option" where
  "build_held d k =
     map_option (\<lambda>r. \<lparr>le_key = bl_source_id r, le_owner = bl_lease_owner r, le_token = bl_lease_token r,
                      le_until = bl_lease_until r, le_heartbeat_at = bl_heartbeat_at r\<rparr>)
       (find (\<lambda>r. bl_source_id r = k) (d_build_leases d))"

definition account_leases_ok :: "db \<Rightarrow> bool" where
  "account_leases_ok d \<longleftrightarrow> distinct (map al_account_id (d_account_leases d))"

definition build_leases_ok :: "db \<Rightarrow> bool" where
  "build_leases_ok d \<longleftrightarrow> distinct (map bl_source_id (d_build_leases d))"

interpretation memory_leases: lease_store memory_held "\<lambda>_. chrono_ok X" "memory_lease_port X" for X
proof unfold_locales
  fix s s' :: lease_memory and now :: datetime and tok k :: uuid and owner lf l
  assume ok: "chrono_ok X" and a: "lp_acquire (memory_lease_port X) now tok k owner lf s = (Inr (Some l), s')"
  then obtain u where "0 < lf" "checked_add_signed X now lf = Some u"
      "\<not> (case lm_leases s k of None \<Rightarrow> False | Some l \<Rightarrow> is_live_at l now)"
      "l = \<lparr>le_key = k, le_owner = owner, le_token = tok, le_until = u, le_heartbeat_at = now\<rparr>"
      "s' = s\<lparr>lm_now := now, lm_leases := (lm_leases s)(k \<mapsto> l)\<rparr>"
    by (auto simp: memory_lease_port_def memory_acquire_def validate_inputs_def set_now_def Let_def result_simps
        split: sum.splits option.splits if_splits)
  with chrono_add_exact [OF ok, of now lf u] show "chrono_ok X \<and> memory_held s' = (memory_held s)(k \<mapsto> l) \<and>
      (\<forall>l0. memory_held s k = Some l0 \<longrightarrow> le_until l0 \<le> now) \<and> le_key l = k \<and> le_owner l = owner \<and>
      le_token l = tok \<and> now < le_until l"
    using ok by (auto simp: memory_held_def is_live_at_def fun_eq_iff split: option.splits)
next
  fix s s' :: lease_memory and now :: datetime and tok k :: uuid and owner lf l
  assume ok: "chrono_ok X" and a: "lp_heartbeat (memory_lease_port X) now k owner tok lf s = (Inr l, s')"
  then obtain u where "0 < lf" "checked_add_signed X now lf = Some u" "is_held k owner tok (set_now now s)"
      "l = \<lparr>le_key = k, le_owner = owner, le_token = tok, le_until = u, le_heartbeat_at = now\<rparr>"
      "s' = s\<lparr>lm_now := now, lm_leases := (lm_leases s)(k \<mapsto> l)\<rparr>"
    by (auto simp: memory_lease_port_def memory_heartbeat_def validate_inputs_def set_now_def Let_def result_simps
        split: sum.splits option.splits if_splits)
  with chrono_add_exact [OF ok, of now lf u] show "chrono_ok X \<and> memory_held s' = (memory_held s)(k \<mapsto> l) \<and>
      le_key l = k \<and> le_owner l = owner \<and> le_token l = tok \<and> now < le_until l \<and>
      (\<exists>l0. memory_held s k = Some l0 \<and> le_owner l0 = owner \<and> le_token l0 = tok \<and> now < le_until l0)"
    using ok by (auto simp: memory_held_def is_held_def is_live_at_def set_now_def fun_eq_iff split: option.splits)
qed (auto simp: memory_lease_port_def memory_acquire_def memory_heartbeat_def memory_release_def memory_held_def
      is_held_def is_live_at_def set_now_def Let_def fun_eq_iff split: sum.splits option.splits if_splits)

lemma grant_after:
  assumes "pg_env_ok E" "whole_milliseconds X lf = Inr ms" "ts_add E t (millis ms) = Some u"
  shows "t < u"
proof -
  from assms(1,3) have "u = t + millis ms" unfolding pg_env_ok_def by blast
  with assms(2) show ?thesis by (auto simp: whole_milliseconds_def Let_def millis_def split: if_splits)
qed

lemma account_find:
  assumes "account_leases_ok d"
  shows "find (account_lease_live E k owner tok) (d_account_leases d) =
     (case find (\<lambda>r. al_account_id r = k) (d_account_leases d) of None \<Rightarrow> None
      | Some r \<Rightarrow> if account_lease_live E k owner tok r then Some r else None)"
  using assms by (intro find_fenced) (auto simp: account_leases_ok_def account_lease_live_def)

lemma build_find:
  assumes "build_leases_ok d"
  shows "find (build_lease_live now k owner tok) (d_build_leases d) =
     (case find (\<lambda>r. bl_source_id r = k) (d_build_leases d) of None \<Rightarrow> None
      | Some r \<Rightarrow> if build_lease_live now k owner tok r then Some r else None)"
  using assms by (intro find_fenced) (auto simp: build_leases_ok_def build_lease_live_def)

lemma find_key: "find (\<lambda>x. k x = i) rows = Some r \<Longrightarrow> k r = i"
  by (auto dest: find_SomeD)

lemma account_acquire_refused: "account_acquire X E tok k owner lf d = (Inr None, d') \<Longrightarrow> d' = d"
  by (auto simp: account_acquire_def decode_account_lease_def Let_def result_simps
      split: sum.splits option.splits if_splits)

lemma account_acquire_granted:
  assumes "account_leases_ok d" "pg_env_ok E" "account_acquire X E tok k owner lf d = (Inr (Some l), d')"
  shows "account_leases_ok d' \<and> account_held d' = (account_held d)(k \<mapsto> l) \<and>
     (\<forall>l0. account_held d k = Some l0 \<longrightarrow> le_until l0 \<le> db_now E) \<and>
     le_key l = k \<and> le_owner l = owner \<and> le_token l = tok \<and> db_now E < le_until l"
proof -
  obtain ms u row where
    u: "whole_milliseconds X lf = Inr ms" "ts_add E (db_now E) (millis ms) = Some u"
    and row: "row = \<lparr>al_account_id = k, al_lease_owner = owner, al_lease_token = tok, al_lease_until = u,
                     al_heartbeat_at = db_now E\<rparr>"
    and l: "l = \<lparr>le_key = k, le_owner = owner, le_token = tok, le_until = u, le_heartbeat_at = db_now E\<rparr>"
    and d': "find (\<lambda>r. al_account_id r = k) (d_account_leases d) = None \<and>
              d' = d\<lparr>d_account_leases := d_account_leases d @ [row]\<rparr> \<or>
            (\<exists>r. find (\<lambda>r. al_account_id r = k) (d_account_leases d) = Some r \<and> al_lease_until r \<le> db_now E \<and>
              d' = d\<lparr>d_account_leases := update_rows (\<lambda>r. al_account_id r = k) (\<lambda>_. row) (d_account_leases d)\<rparr>)"
    using assms(3)
    by (auto simp: account_acquire_def decode_account_lease_def Let_def result_simps
        split: sum.splits option.splits if_splits)
  from d' have "account_leases_ok d' \<and> account_held d' = (account_held d)(k \<mapsto> l) \<and>
     (\<forall>l0. account_held d k = Some l0 \<longrightarrow> le_until l0 \<le> db_now E)"
  proof (elim disjE conjE exE)
    assume none: "find (\<lambda>r. al_account_id r = k) (d_account_leases d) = None"
      and d': "d' = d\<lparr>d_account_leases := d_account_leases d @ [row]\<rparr>"
    from row have "al_account_id row = k" by simp
    with none assms(1) find_inserted [OF none this] distinct_inserted [OF none this] row l d'
    show ?thesis by (simp add: account_leases_ok_def account_held_def fun_eq_iff)
  next
    fix r
    assume r: "find (\<lambda>r. al_account_id r = k) (d_account_leases d) = Some r" "al_lease_until r \<le> db_now E"
      and d': "d' = d\<lparr>d_account_leases := update_rows (\<lambda>r. al_account_id r = k) (\<lambda>_. row) (d_account_leases d)\<rparr>"
    have "map al_account_id (d_account_leases d') = map al_account_id (d_account_leases d)"
      using d' row by (simp add: update_rows_keys)
    moreover have "find (\<lambda>r. al_account_id r = j) (d_account_leases d') =
        (if j = k then Some row else find (\<lambda>r. al_account_id r = j) (d_account_leases d))" for j
      using d' row by (simp add: find_updated [OF _ _ r(1)] find_key [OF r(1)])
    ultimately show ?thesis using assms(1) r row l
      by (simp add: account_leases_ok_def account_held_def fun_eq_iff)
  qed
  with grant_after [OF assms(2) u] l show ?thesis by simp
qed


lemma account_heartbeat_renewed:
  assumes "account_leases_ok d" "pg_env_ok E" "account_heartbeat X E k owner tok lf d = (Inr l, d')"
  shows "account_leases_ok d' \<and> account_held d' = (account_held d)(k \<mapsto> l) \<and>
     le_key l = k \<and> le_owner l = owner \<and> le_token l = tok \<and> db_now E < le_until l \<and>
     (\<exists>l0. account_held d k = Some l0 \<and> le_owner l0 = owner \<and> le_token l0 = tok \<and> db_now E < le_until l0)"
proof -
  obtain ms u r where
    u: "whole_milliseconds X lf = Inr ms" "ts_add E (db_now E) (millis ms) = Some u"
    and f: "find (account_lease_live E k owner tok) (d_account_leases d) = Some r"
    and l: "decode_account_lease (r\<lparr>al_lease_until := u, al_heartbeat_at := db_now E\<rparr>) = Inr l"
    and d': "d' = d\<lparr>d_account_leases := update_rows (account_lease_live E k owner tok)
                 (\<lambda>r. r\<lparr>al_lease_until := u, al_heartbeat_at := db_now E\<rparr>) (d_account_leases d)\<rparr>"
    using assms(3) by (auto simp: account_heartbeat_def Let_def split: sum.splits option.splits)
  from f account_find [OF assms(1), of E k owner tok]
  have r: "find (\<lambda>r. al_account_id r = k) (d_account_leases d) = Some r" "account_lease_live E k owner tok r"
    by (auto split: option.splits if_splits)
  have "map al_account_id (d_account_leases d') = map al_account_id (d_account_leases d)"
    using d' by (simp add: update_rows_keys)
  moreover have "find (\<lambda>r. al_account_id r = j) (d_account_leases d') =
      (if j = k then Some (r\<lparr>al_lease_until := u, al_heartbeat_at := db_now E\<rparr>)
       else find (\<lambda>r. al_account_id r = j) (d_account_leases d))" for j
    using d' r
    by (subst find_updated [of "account_lease_live E k owner tok" _ k _ _ r, symmetric]) (simp_all add: account_lease_live_def)
  ultimately show ?thesis using assms(1) r l grant_after [OF assms(2) u]
    by (auto simp: account_leases_ok_def account_held_def account_lease_live_def decode_account_lease_def
        fun_eq_iff split: if_splits)
qed

lemma account_release_released:
  assumes "account_leases_ok d" "account_release E k owner tok d = (Inr x, d')"
  shows "account_leases_ok d' \<and> account_held d' = (account_held d)(k := None) \<and>
     (\<exists>l0. account_held d k = Some l0 \<and> le_owner l0 = owner \<and> le_token l0 = tok \<and> db_now E < le_until l0)"
proof -
  obtain r where f: "find (account_lease_live E k owner tok) (d_account_leases d) = Some r"
    and d': "d' = d\<lparr>d_account_leases := filter (\<lambda>r. \<not> account_lease_live E k owner tok r) (d_account_leases d)\<rparr>"
    using assms(2) by (auto simp: account_release_def split: sum.splits option.splits)
  from f account_find [OF assms(1), of E k owner tok]
  have r: "find (\<lambda>r. al_account_id r = k) (d_account_leases d) = Some r" "account_lease_live E k owner tok r"
    by (auto split: option.splits if_splits)
  from assms(1) have dist: "distinct (map al_account_id (d_account_leases d))" by (simp add: account_leases_ok_def)
  have "find (\<lambda>r. al_account_id r = j) (d_account_leases d') =
      (if j = k then None else find (\<lambda>r. al_account_id r = j) (d_account_leases d))" for j
    using d' find_deleted [OF dist _ f, of k j] by (simp add: account_lease_live_def)
  then show ?thesis using r d' dist
    by (auto simp: account_leases_ok_def account_held_def account_lease_live_def fun_eq_iff distinct_map_filter)
qed

interpretation account_leases:
  lease_store account_held "\<lambda>d. account_leases_ok d \<and> pg_env_ok E" "account_lease_port X E" for X E
proof unfold_locales
  have env: "pg_env_ok E \<Longrightarrow> pg_env_ok (E\<lparr>db_now := now\<rparr>)" for now by (simp add: pg_env_ok_def)
  show "(account_leases_ok d' \<and> pg_env_ok E) \<and> account_held d' = (account_held d)(k \<mapsto> l) \<and>
      (\<forall>l0. account_held d k = Some l0 \<longrightarrow> le_until l0 \<le> now) \<and>
      le_key l = k \<and> le_owner l = owner \<and> le_token l = tok \<and> now < le_until l"
    if "account_leases_ok d \<and> pg_env_ok E"
      "lp_acquire (account_lease_port X E) now tok k owner lf d = (Inr (Some l), d')" for d now tok k owner lf l d'
    using that account_acquire_granted [of d "E\<lparr>db_now := now\<rparr>" X tok k owner lf l d'] env
    by (simp add: account_lease_port_def transact_Inr)
  show "(account_leases_ok d' \<and> pg_env_ok E) \<and> account_held d' = (account_held d)(k \<mapsto> l) \<and>
      le_key l = k \<and> le_owner l = owner \<and> le_token l = tok \<and> now < le_until l \<and>
      (\<exists>l0. account_held d k = Some l0 \<and> le_owner l0 = owner \<and> le_token l0 = tok \<and> now < le_until l0)"
    if "account_leases_ok d \<and> pg_env_ok E"
      "lp_heartbeat (account_lease_port X E) now k owner tok lf d = (Inr l, d')" for d now tok k owner lf l d'
    using that account_heartbeat_renewed [of d "E\<lparr>db_now := now\<rparr>" X k owner tok lf l d'] env
    by (simp add: account_lease_port_def transact_Inr)
  show "(account_leases_ok d' \<and> pg_env_ok E) \<and> account_held d' = (account_held d)(k := None) \<and>
      (\<exists>l0. account_held d k = Some l0 \<and> le_owner l0 = owner \<and> le_token l0 = tok \<and> now < le_until l0)"
    if "account_leases_ok d \<and> pg_env_ok E"
      "lp_release (account_lease_port X E) now k owner tok d = (Inr x, d')" for d now tok k owner x d'
    using that account_release_released [of d "E\<lparr>db_now := now\<rparr>" k owner tok x d']
    by (simp add: account_lease_port_def transact_Inr)
  show "(account_leases_ok d' \<and> pg_env_ok E) \<and> account_held d' = account_held d"
    if "account_leases_ok d \<and> pg_env_ok E" "\<forall>l. r \<noteq> Inr (Some l)"
      "lp_acquire (account_lease_port X E) now tok k owner lf d = (r, d')" for d now tok k owner lf r d'
  proof (cases r)
    case (Inl e)
    with that show ?thesis by (simp add: account_lease_port_def transact_Inl)
  next
    case (Inr ol)
    with that(2) have "r = Inr None" by (cases ol) simp_all
    with that account_acquire_refused [of X "E\<lparr>db_now := now\<rparr>" tok k owner lf d d'] show ?thesis
      by (simp add: account_lease_port_def transact_Inr)
  qed
qed (auto simp: account_lease_port_def transact_Inl)

lemma acquire_build_refused: "acquire_build X E tok k owner lf d = (Inr None, d') \<Longrightarrow> d' = d"
  by (auto simp: acquire_build_def decode_build_lease_def Let_def result_simps
      split: sum.splits option.splits if_splits)

lemma acquire_build_granted:
  assumes "build_leases_ok d" "pg_env_ok E" "acquire_build X E tok k owner lf d = (Inr (Some l), d')"
  shows "build_leases_ok d' \<and> build_held d' = (build_held d)(k \<mapsto> l) \<and>
     (\<forall>l0. build_held d k = Some l0 \<longrightarrow> le_until l0 \<le> db_now E) \<and>
     le_key l = k \<and> le_owner l = owner \<and> le_token l = tok \<and> db_now E < le_until l"
proof -
  let ?set = "\<lambda>u r. r\<lparr>bl_lease_owner := owner, bl_lease_token := tok, bl_lease_until := u,
                      bl_heartbeat_at := db_now E, bl_updated_at := db_now E\<rparr>"
  obtain ms u row where
    u: "whole_milliseconds X lf = Inr ms" "ts_add E (db_now E) (millis ms) = Some u"
    and row: "row = \<lparr>bl_source_id = k, bl_lease_owner = owner, bl_lease_token = tok, bl_lease_until = u,
                     bl_heartbeat_at = db_now E, bl_created_at = db_now E, bl_updated_at = db_now E\<rparr>"
    and l: "l = \<lparr>le_key = k, le_owner = owner, le_token = tok, le_until = u, le_heartbeat_at = db_now E\<rparr>"
    and d': "find (\<lambda>r. bl_source_id r = k) (d_build_leases d) = None \<and>
              d' = d\<lparr>d_build_leases := d_build_leases d @ [row]\<rparr> \<or>
            (\<exists>r. find (\<lambda>r. bl_source_id r = k) (d_build_leases d) = Some r \<and> bl_lease_until r \<le> db_now E \<and>
              d' = d\<lparr>d_build_leases := update_rows (\<lambda>r. bl_source_id r = k) (?set u) (d_build_leases d)\<rparr>)"
    using assms(3)
    by (auto simp: acquire_build_def decode_build_lease_def Let_def result_simps
        split: sum.splits option.splits if_splits dest: find_key)
  from d' have "build_leases_ok d' \<and> build_held d' = (build_held d)(k \<mapsto> l) \<and>
     (\<forall>l0. build_held d k = Some l0 \<longrightarrow> le_until l0 \<le> db_now E)"
  proof (elim disjE conjE exE)
    assume none: "find (\<lambda>r. bl_source_id r = k) (d_build_leases d) = None"
      and d': "d' = d\<lparr>d_build_leases := d_build_leases d @ [row]\<rparr>"
    from row have "bl_source_id row = k" by simp
    with none assms(1) find_inserted [OF none this] distinct_inserted [OF none this] row l d'
    show ?thesis by (simp add: build_leases_ok_def build_held_def fun_eq_iff)
  next
    fix r
    assume r: "find (\<lambda>r. bl_source_id r = k) (d_build_leases d) = Some r" "bl_lease_until r \<le> db_now E"
      and d': "d' = d\<lparr>d_build_leases := update_rows (\<lambda>r. bl_source_id r = k) (?set u) (d_build_leases d)\<rparr>"
    have "map bl_source_id (d_build_leases d') = map bl_source_id (d_build_leases d)"
      using d' by (simp add: update_rows_keys)
    moreover have "find (\<lambda>r. bl_source_id r = j) (d_build_leases d') =
        (if j = k then Some (?set u r) else find (\<lambda>r. bl_source_id r = j) (d_build_leases d))" for j
      using d' by (simp add: find_updated [OF _ _ r(1)] find_key [OF r(1)])
    ultimately show ?thesis using assms(1) r l find_key [OF r(1)]
      by (simp add: build_leases_ok_def build_held_def fun_eq_iff)
  qed
  with grant_after [OF assms(2) u] l show ?thesis by simp
qed

lemma heartbeat_build_renewed:
  assumes "build_leases_ok d" "pg_env_ok E" "heartbeat_build X E k owner tok lf d = (Inr l, d')"
  shows "build_leases_ok d' \<and> build_held d' = (build_held d)(k \<mapsto> l) \<and>
     le_key l = k \<and> le_owner l = owner \<and> le_token l = tok \<and> db_now E < le_until l \<and>
     (\<exists>l0. build_held d k = Some l0 \<and> le_owner l0 = owner \<and> le_token l0 = tok \<and> db_now E < le_until l0)"
proof -
  obtain ms u r where
    u: "whole_milliseconds X lf = Inr ms" "ts_add E (db_now E) (millis ms) = Some u"
    and f: "find (build_lease_live (db_now E) k owner tok) (d_build_leases d) = Some r"
    and l: "decode_build_lease (r\<lparr>bl_lease_until := u, bl_heartbeat_at := db_now E,
                   bl_updated_at := db_now E\<rparr>) = Inr l"
    and d': "d' = d\<lparr>d_build_leases := update_rows (build_lease_live (db_now E) k owner tok)
                 (\<lambda>r. r\<lparr>bl_lease_until := u, bl_heartbeat_at := db_now E,
                   bl_updated_at := db_now E\<rparr>) (d_build_leases d)\<rparr>"
    using assms(3) by (auto simp: heartbeat_build_def Let_def split: sum.splits option.splits)
  from f build_find [OF assms(1), of "db_now E" k owner tok]
  have r: "find (\<lambda>r. bl_source_id r = k) (d_build_leases d) = Some r" "build_lease_live (db_now E) k owner tok r"
    by (auto split: option.splits if_splits)
  have "map bl_source_id (d_build_leases d') = map bl_source_id (d_build_leases d)"
    using d' by (simp add: update_rows_keys)
  moreover have "find (\<lambda>r. bl_source_id r = j) (d_build_leases d') =
      (if j = k then Some (r\<lparr>bl_lease_until := u, bl_heartbeat_at := db_now E,
                   bl_updated_at := db_now E\<rparr>)
       else find (\<lambda>r. bl_source_id r = j) (d_build_leases d))" for j
    using d' r
    by (subst find_updated [of "build_lease_live (db_now E) k owner tok" _ k _ _ r, symmetric]) (simp_all add: build_lease_live_def)
  ultimately show ?thesis using assms(1) r l grant_after [OF assms(2) u]
    by (auto simp: build_leases_ok_def build_held_def build_lease_live_def decode_build_lease_def
        fun_eq_iff split: if_splits)
qed

lemma release_build_released:
  assumes "build_leases_ok d" "release_build E k owner tok d = (Inr x, d')"
  shows "build_leases_ok d' \<and> build_held d' = (build_held d)(k := None) \<and>
     (\<exists>l0. build_held d k = Some l0 \<and> le_owner l0 = owner \<and> le_token l0 = tok \<and> db_now E < le_until l0)"
proof -
  obtain r where f: "find (build_lease_live (db_now E) k owner tok) (d_build_leases d) = Some r"
    and d': "d' = d\<lparr>d_build_leases := filter (\<lambda>r. \<not> build_lease_live (db_now E) k owner tok r) (d_build_leases d)\<rparr>"
    using assms(2) by (auto simp: release_build_def split: sum.splits option.splits)
  from f build_find [OF assms(1), of "db_now E" k owner tok]
  have r: "find (\<lambda>r. bl_source_id r = k) (d_build_leases d) = Some r" "build_lease_live (db_now E) k owner tok r"
    by (auto split: option.splits if_splits)
  from assms(1) have dist: "distinct (map bl_source_id (d_build_leases d))" by (simp add: build_leases_ok_def)
  have "find (\<lambda>r. bl_source_id r = j) (d_build_leases d') =
      (if j = k then None else find (\<lambda>r. bl_source_id r = j) (d_build_leases d))" for j
    using d' find_deleted [OF dist _ f, of k j] by (simp add: build_lease_live_def)
  then show ?thesis using r d' dist
    by (auto simp: build_leases_ok_def build_held_def build_lease_live_def fun_eq_iff distinct_map_filter)
qed

interpretation build_leases:
  lease_store build_held "\<lambda>d. build_leases_ok d \<and> pg_env_ok E" "build_lease_port X E" for X E
proof unfold_locales
  have env: "pg_env_ok E \<Longrightarrow> pg_env_ok (E\<lparr>db_now := now\<rparr>)" for now by (simp add: pg_env_ok_def)
  show "(build_leases_ok d' \<and> pg_env_ok E) \<and> build_held d' = (build_held d)(k \<mapsto> l) \<and>
      (\<forall>l0. build_held d k = Some l0 \<longrightarrow> le_until l0 \<le> now) \<and>
      le_key l = k \<and> le_owner l = owner \<and> le_token l = tok \<and> now < le_until l"
    if "build_leases_ok d \<and> pg_env_ok E"
      "lp_acquire (build_lease_port X E) now tok k owner lf d = (Inr (Some l), d')" for d now tok k owner lf l d'
    using that acquire_build_granted [of d "E\<lparr>db_now := now\<rparr>" X tok k owner lf l d'] env
    by (simp add: build_lease_port_def transact_Inr)
  show "(build_leases_ok d' \<and> pg_env_ok E) \<and> build_held d' = (build_held d)(k \<mapsto> l) \<and>
      le_key l = k \<and> le_owner l = owner \<and> le_token l = tok \<and> now < le_until l \<and>
      (\<exists>l0. build_held d k = Some l0 \<and> le_owner l0 = owner \<and> le_token l0 = tok \<and> now < le_until l0)"
    if "build_leases_ok d \<and> pg_env_ok E"
      "lp_heartbeat (build_lease_port X E) now k owner tok lf d = (Inr l, d')" for d now tok k owner lf l d'
    using that heartbeat_build_renewed [of d "E\<lparr>db_now := now\<rparr>" X k owner tok lf l d'] env
    by (simp add: build_lease_port_def transact_Inr)
  show "(build_leases_ok d' \<and> pg_env_ok E) \<and> build_held d' = (build_held d)(k := None) \<and>
      (\<exists>l0. build_held d k = Some l0 \<and> le_owner l0 = owner \<and> le_token l0 = tok \<and> now < le_until l0)"
    if "build_leases_ok d \<and> pg_env_ok E"
      "lp_release (build_lease_port X E) now k owner tok d = (Inr x, d')" for d now tok k owner x d'
    using that release_build_released [of d "E\<lparr>db_now := now\<rparr>" k owner tok x d']
    by (simp add: build_lease_port_def transact_Inr)
  show "(build_leases_ok d' \<and> pg_env_ok E) \<and> build_held d' = build_held d"
    if "build_leases_ok d \<and> pg_env_ok E" "\<forall>l. r \<noteq> Inr (Some l)"
      "lp_acquire (build_lease_port X E) now tok k owner lf d = (r, d')" for d now tok k owner lf r d'
  proof (cases r)
    case (Inl e)
    with that show ?thesis by (simp add: build_lease_port_def transact_Inl)
  next
    case (Inr ol)
    with that(2) have "r = Inr None" by (cases ol) simp_all
    with that acquire_build_refused [of X "E\<lparr>db_now := now\<rparr>" tok k owner lf d d'] show ?thesis
      by (simp add: build_lease_port_def transact_Inr)
  qed
qed (auto simp: build_lease_port_def transact_Inl)


section \<open>Exclusive use of an account\<close>

lemma account_heartbeat_live:
  assumes "account_leases_ok d" "account_held d k = Some l" "db_now E < le_until l"
  shows "fst (account_heartbeat X E k (le_owner l) (le_token l) lf d) \<noteq> Inl (LeaseLost k)"
proof -
  from assms(2) obtain r where r: "find (\<lambda>r. al_account_id r = k) (d_account_leases d) = Some r"
      "l = \<lparr>le_key = al_account_id r, le_owner = al_lease_owner r, le_token = al_lease_token r,
            le_until = al_lease_until r, le_heartbeat_at = al_heartbeat_at r\<rparr>"
    by (auto simp: account_held_def)
  with assms(3) find_key [OF r(1)] have "account_lease_live E k (le_owner l) (le_token l) r"
    by (simp add: account_lease_live_def)
  with account_find [OF assms(1), of E k "le_owner l" "le_token l"] r(1) show ?thesis
    by (auto simp: account_heartbeat_def validate_inputs_def validate_lease_owner_def whole_milliseconds_def
        decode_account_lease_def Let_def result_simps split: if_splits option.splits)
qed

lemma guard_acquire_granted:
  "fst (guard_acquire P now tok k owner lf s) = Inr (Some g) \<longleftrightarrow>
     fst (lp_acquire P now tok k owner lf s) = Inr (Some (g_lease g)) \<and> \<not> g_cancelled g"
  by (cases g) (auto simp: guard_acquire_def split: prod.splits sum.splits option.splits)

lemma open_authenticated_granted:
  assumes "open_authenticated P now tok k owner lf p s = Some (Inr (Some g), p', s')"
  shows "lp_acquire P now tok k owner lf s = (Inr (Some (g_lease g)), s') \<and> \<not> g_cancelled g \<and>
     \<not> bp_closed p \<and> bp_free p = Suc (bp_free p') \<and> bp_capacity p' = bp_capacity p"
  using assms by (auto simp: open_authenticated_def open_public_def guard_acquire_def
      split: prod.splits sum.splits option.splits if_splits)

text \<open>
  (C23) An authenticated session excludes every other one. When \<^verbatim>\<open>open_authenticated\<close> hands out a guard
  for an account, one browser permit is used and the lease row is the guard's. Whatever any replica
  then does with that account under other tokens, and with other accounts, as long as the database
  clock has not passed the end of the lease: the row is still the guard's, no further
  \<^verbatim>\<open>open_authenticated\<close> for the account is granted, the guard is usable and its heartbeat is not told
  that the lease was lost.
\<close>

theorem authenticated_session_exclusive:
  assumes "account_leases_ok d" "pg_env_ok E"
    and "open_authenticated (account_lease_port X E) t0 tok k owner lf p d = Some (Inr (Some g), p', d1)"
    and "\<forall>op \<in> set ops. foreign k (g_lease g) op" "now < le_until (g_lease g)"
    and "d2 = fold (lease_step (account_lease_port X E)) ops d1"
  shows "bp_free p = Suc (bp_free p') \<and>
     account_held d2 k = Some (g_lease g) \<and>
     (\<nexists>g' q' d3. open_authenticated (account_lease_port X E) now tok' k owner' lf' q d2 = Some (Inr (Some g'), q', d3)) \<and>
     ensure_usable g = Inr () \<and>
     fst (guard_heartbeat (account_lease_port X E) now lf' g d2) \<noteq> Inl (LeaseLost k)"
proof (intro conjI)
  have inv: "account_leases_ok d \<and> pg_env_ok E" using assms(1,2) by simp
  from open_authenticated_granted [OF assms(3)]
  have acq: "lp_acquire (account_lease_port X E) t0 tok k owner lf d = (Inr (Some (g_lease g)), d1)"
    and g: "\<not> g_cancelled g" and permits: "bp_free p = Suc (bp_free p')"
    by auto
  note granted = account_leases.acquired [OF inv acq]
  from granted have "account_leases_ok d1 \<and> pg_env_ok E" "account_held d1 k = Some (g_lease g)" by simp_all
  from account_leases.undisturbed [OF this assms(4)]
  have ok: "account_leases_ok d2 \<and> pg_env_ok E" and held: "account_held d2 k = Some (g_lease g)"
    using assms(6) by simp_all
  show "bp_free p = Suc (bp_free p')" by (rule permits)
  show "account_held d2 k = Some (g_lease g)" by (rule held)
  show "ensure_usable g = Inr ()" using g by (simp add: ensure_usable_def)
  show "\<nexists>g' q' d3. open_authenticated (account_lease_port X E) now tok' k owner' lf' q d2 = Some (Inr (Some g'), q', d3)"
    using account_leases.live_excludes [OF ok held assms(5), of X tok' owner' lf'] open_authenticated_granted
    by (metis fst_conv)
  have "fst (account_heartbeat X (E\<lparr>db_now := now\<rparr>) k (le_owner (g_lease g)) (le_token (g_lease g)) lf' d2)
      \<noteq> Inl (LeaseLost k)"
    using ok assms(5) by (intro account_heartbeat_live [OF _ held]) simp_all
  then show "fst (guard_heartbeat (account_lease_port X E) now lf' g d2) \<noteq> Inl (LeaseLost k)"
    using g granted
    by (auto simp: guard_heartbeat_def ensure_usable_def account_lease_port_def transact_def
        split: prod.splits sum.splits)
qed

definition example_pool :: browser_pool where
  "example_pool = \<lparr>bp_capacity = 2, bp_free = 2, bp_closed = False\<rparr>"

theorem authenticated_session_exclusive_witness:
  "\<exists>g p' d1. open_authenticated (account_lease_port chrono_ref (example_env 0)) 5 9 3 (lit ''w1'') 2500000
       example_pool example_db = Some (Inr (Some g), p', d1) \<and> bp_free p' = 1 \<and>
     account_held (fold (lease_step (account_lease_port chrono_ref (example_env 0)))
       [LAcquire 7 8 3 (lit ''w2'') 2500000, LRelease 8 3 (lit ''w1'') 4] d1) 3 = Some (g_lease g)"
proof -
  let ?P = "account_lease_port chrono_ref (example_env 0)"
  let ?l = "\<lparr>le_key = 3, le_owner = lit ''w1'', le_token = 9, le_until = 2000005, le_heartbeat_at = 5\<rparr> :: lease"
  let ?ops = "[LAcquire 7 8 3 (lit ''w2'') 2500000, LRelease 8 3 (lit ''w1'') 4]"
  have "fst (account_acquire chrono_ref ((example_env 0)\<lparr>db_now := 5\<rparr>) 9 3 (lit ''w1'') 2500000 example_db) =
      Inr (Some ?l)"
    by (simp add: account_acquire_def validate_inputs_def validate_lease_owner_def whole_milliseconds_def
        is_nil_def decode_account_lease_def chrono_ref_def example_env_def example_db_def millis_def job_eval result_simps
        Let_def)
  then have "\<exists>d1. lp_acquire ?P 5 9 3 (lit ''w1'') 2500000 example_db = (Inr (Some ?l), d1)"
    by (simp add: account_lease_port_def transact_Inr) (metis prod.collapse)
  then obtain d1 where "lp_acquire ?P 5 9 3 (lit ''w1'') 2500000 example_db = (Inr (Some ?l), d1)" by blast
  then obtain p' where o: "open_authenticated ?P 5 9 3 (lit ''w1'') 2500000 example_pool example_db =
      Some (Inr (Some \<lparr>g_lease = ?l, g_cancelled = False\<rparr>), p', d1)"
    by (simp add: open_authenticated_def open_public_def example_pool_def guard_acquire_def)
  have "account_leases_ok example_db" "pg_env_ok (example_env 0)"
    by (simp_all add: account_leases_ok_def example_db_def pg_env_ok_def example_env_def)
  moreover have "\<forall>op \<in> set ?ops. foreign 3 ?l op" by simp
  ultimately show ?thesis
    using authenticated_session_exclusive [OF _ _ o, of ?ops 100 "fold (lease_step ?P) ?ops d1"] o
    by (simp add: example_pool_def)
qed

end
