(* ===== verification/Scheduler.thy ===== *)
theory Scheduler
  imports Pacing Lease "HOL-Library.Product_Lexorder"
begin

text \<open>
  The scheduler: the atomic passes of \<^verbatim>\<open>scheduler_repository.rs\<close> over sources, accounts and jobs,
  and \<^verbatim>\<open>src/application/scheduler.rs\<close> with its validated settings, one pass and the polling loop.
  The text of a UUID is a parameter, the same for the server's cast to text and for the uuid crate;
  the ids that \<^verbatim>\<open>Uuid::new_v4\<close> draws are an argument. A pass locks its rows, so that what other
  replicas commit falls before or after it; the rows they hold locked are skipped.
\<close>

section \<open>Repository\<close>

record enqueued_source =
  es_source_id :: uuid
  es_job_id :: uuid
  es_reserved_until :: datetime

record enqueued_credential_refresh =
  er_account_id :: uuid
  er_job_id :: uuid

datatype scheduler_pass = SkippedQuietHours | EnqueuedPass "enqueued_source list"

datatype scheduler_repository_error =
    SchedInvalidLimit nat
  | SchedInvalidReservation
  | InvalidRefreshWindow
  | InvalidRefreshMaxAttempts
  | SchedInvalidMaxAttempts uuid int
  | SchedStorage string

type_synonym 'a sched_result = "(scheduler_repository_error + 'a) \<times> db"

definition validate_reservation :: "chrono \<Rightarrow> duration \<Rightarrow> scheduler_repository_error + int" where
  "validate_reservation X reservation_for =
     (let milliseconds = num_milliseconds X reservation_for
      in if milliseconds \<le> 0 then Inl SchedInvalidReservation else Inr milliseconds)"

definition sync_key :: "(uuid \<Rightarrow> rstring) \<Rightarrow> uuid \<Rightarrow> rstring" where
  "sync_key T source_id = lit ''source_sync:'' @ T source_id"

definition refresh_key :: "(uuid \<Rightarrow> rstring) \<Rightarrow> uuid \<Rightarrow> rstring" where
  "refresh_key T account_id = lit ''credential_refresh:'' @ T account_id"

text \<open>
  \<^verbatim>\<open>INSERT \<dots> ON CONFLICT (dedupe_key) \<dots> DO NOTHING\<close>: \<open>None\<close> when an active job has the key, an error
  when the primary key is taken.
\<close>

definition insert_job_row :: "job_row \<Rightarrow> pg \<Rightarrow> (scheduler_repository_error + uuid option) \<times> pg" where
  "insert_job_row row s =
     (if \<exists>r \<in> set (pg_jobs s). active_conflict (r_dedupe_key row) r then (Inr None, s)
      else if \<exists>r \<in> set (pg_jobs s). r_id r = r_id row then
        (Inl (SchedStorage ''duplicate key value violates unique constraint''), s)
      else (Inr (Some (r_id row)), s\<lparr>pg_jobs := pg_jobs s @ [row]\<rparr>))"

definition queued_row ::
    "uuid \<Rightarrow> string \<Rightarrow> uuid option \<Rightarrow> int \<Rightarrow> int \<Rightarrow> json \<Rightarrow> rstring \<Rightarrow> datetime \<Rightarrow> job_row" where
  "queued_row job_id job_type source_id priority max_attempts payload key now =
     \<lparr>r_id = job_id, r_job_type = job_type, r_source_id = source_id, r_status = ''queued'',
      r_priority = priority, r_run_after = now, r_claim_count = 0, r_failure_count = 0,
      r_max_attempts = max_attempts, r_lease_owner = None, r_lease_token = None, r_lease_until = None,
      r_heartbeat_at = None, r_started_at = None, r_finished_at = None, r_last_error = None,
      r_payload_json = payload, r_dedupe_key = key, r_created_at = now, r_updated_at = now\<rparr>"

definition has_active_job :: "rstring \<Rightarrow> db \<Rightarrow> bool" where
  "has_active_job key d \<longleftrightarrow> (\<exists>r \<in> set (pg_jobs (d_pg d)). active_conflict key r)"

definition due_source :: "(uuid \<Rightarrow> rstring) \<Rightarrow> pg_env \<Rightarrow> db \<Rightarrow> source_row \<Rightarrow> bool" where
  "due_source T E d s \<longleftrightarrow>
     so_enabled s \<and> so_scheduling_gate s = ''ready'' \<and> so_next_fetch_at s \<le> db_now E \<and>
     (case so_failure_cooldown_until s of None \<Rightarrow> True | Some t \<Rightarrow> t \<le> db_now E) \<and>
     (case so_schedule_reserved_until s of None \<Rightarrow> True | Some t \<Rightarrow> t \<le> db_now E) \<and>
     \<not> has_active_job (sync_key T (so_id s)) d \<and> so_id s \<notin> set (locked E)"

definition source_order :: "source_row \<Rightarrow> int \<times> datetime \<times> uuid" where
  "source_order s = (- so_priority s, so_next_fetch_at s, so_id s)"

definition due_sources :: "(uuid \<Rightarrow> rstring) \<Rightarrow> pg_env \<Rightarrow> nat \<Rightarrow> db \<Rightarrow> source_row list" where
  "due_sources T E limit d = take limit (sort_key source_order (filter (due_source T E d) (d_sources d)))"

text \<open>The loop over the selected rows; the drawn ids are read from the front of the supply.\<close>

fun enqueue_selected ::
    "(uuid \<Rightarrow> rstring) \<Rightarrow> pg_env \<Rightarrow> int \<Rightarrow> (nat \<Rightarrow> uuid) \<Rightarrow> source_row list \<Rightarrow> db \<Rightarrow> enqueued_source list sched_result" where
  "enqueue_selected T E reservation_ms ids [] d = (Inr [], d)"
| "enqueue_selected T E reservation_ms ids (s # rows) d =
     (case u32_try_from (so_max_attempts s) of
        None \<Rightarrow> (Inl (SchedInvalidMaxAttempts (so_id s) (so_max_attempts s)), d)
      | Some max_attempts \<Rightarrow>
          (case insert_job_row
                  (queued_row (ids 0) ''source_sync'' (Some (so_id s)) (so_priority s) (uint max_attempts)
                     (JObject [(lit ''source_id'', JString (T (so_id s)))]) (sync_key T (so_id s)) (db_now E))
                  (d_pg d) of
             (Inl e, p) \<Rightarrow> (Inl e, d\<lparr>d_pg := p\<rparr>)
           | (Inr None, p) \<Rightarrow> enqueue_selected T E reservation_ms (ids \<circ> Suc) rows (d\<lparr>d_pg := p\<rparr>)
           | (Inr (Some job_id), p) \<Rightarrow>
               (case ts_add E (db_now E) (millis reservation_ms) of
                  None \<Rightarrow> (Inl (SchedStorage ''timestamp out of range''), d\<lparr>d_pg := p\<rparr>)
                | Some reserved_until \<Rightarrow>
                    (case enqueue_selected T E reservation_ms (ids \<circ> Suc) rows
                            (d\<lparr>d_pg := p,
                               d_sources := update_rows (\<lambda>r. so_id r = so_id s)
                                 (\<lambda>r. r\<lparr>so_schedule_reserved_until := Some reserved_until, so_updated_at := db_now E\<rparr>)
                                 (d_sources d)\<rparr>) of
                       (Inl e, d') \<Rightarrow> (Inl e, d')
                     | (Inr rest, d') \<Rightarrow>
                         (Inr (\<lparr>es_source_id = so_id s, es_job_id = job_id,
                                es_reserved_until = reserved_until\<rparr> # rest), d')))))"

definition enqueue_due_sources ::
    "chrono \<Rightarrow> (uuid \<Rightarrow> rstring) \<Rightarrow> pg_env \<Rightarrow> (nat \<Rightarrow> uuid) \<Rightarrow> nat \<Rightarrow> duration \<Rightarrow> quiet_hours option \<Rightarrow> db \<Rightarrow>
     scheduler_pass sched_result" where
  "enqueue_due_sources X T E ids limit reservation_for quiet_hours d =
     (if limit = 0 then (Inr (EnqueuedPass []), d)
      else if i64_try_from limit = None then (Inl (SchedInvalidLimit limit), d)
      else case validate_reservation X reservation_for of
        Inl e \<Rightarrow> (Inl e, d)
      | Inr reservation_ms \<Rightarrow>
          transact (\<lambda>d.
            if (case quiet_hours of None \<Rightarrow> False | Some q \<Rightarrow> is_quiet_at q (db_now E))
            then (Inr SkippedQuietHours, d)
            else case enqueue_selected T E reservation_ms ids (due_sources T E limit d) d of
              (Inl e, d') \<Rightarrow> (Inl e, d')
            | (Inr enqueued, d') \<Rightarrow> (Inr (EnqueuedPass enqueued), d')) d)"

text \<open>
  Accounts. A row without an expiry is never selected. The end of the window is computed for the
  rows that are not disabled, and is an error of the statement when it is out of range.
\<close>

definition due_account :: "(uuid \<Rightarrow> rstring) \<Rightarrow> pg_env \<Rightarrow> datetime \<Rightarrow> db \<Rightarrow> account_row \<Rightarrow> bool" where
  "due_account T E window_end d a \<longleftrightarrow>
     \<not> ac_disabled a \<and> (case ac_access_expires_at a of None \<Rightarrow> False | Some t \<Rightarrow> t \<le> window_end) \<and>
     \<not> has_active_job (refresh_key T (ac_account_id a)) d \<and> ac_account_id a \<notin> set (locked E)"

definition account_order :: "account_row \<Rightarrow> datetime \<times> uuid" where
  "account_order a = (case ac_access_expires_at a of None \<Rightarrow> 0 | Some t \<Rightarrow> t, ac_account_id a)"

definition due_accounts :: "(uuid \<Rightarrow> rstring) \<Rightarrow> pg_env \<Rightarrow> datetime \<Rightarrow> nat \<Rightarrow> db \<Rightarrow> account_row list" where
  "due_accounts T E window_end limit d =
     take limit (sort_key account_order (filter (due_account T E window_end d) (d_accounts d)))"

fun enqueue_refreshes ::
    "(uuid \<Rightarrow> rstring) \<Rightarrow> pg_env \<Rightarrow> u32 \<Rightarrow> (nat \<Rightarrow> uuid) \<Rightarrow> account_row list \<Rightarrow> db \<Rightarrow>
     enqueued_credential_refresh list sched_result" where
  "enqueue_refreshes T E max_attempts ids [] d = (Inr [], d)"
| "enqueue_refreshes T E max_attempts ids (a # rows) d =
     (case insert_job_row
             (queued_row (ids 0) ''credential_refresh'' None 0 (uint max_attempts)
                (JObject [(lit ''account_id'', JString (T (ac_account_id a)))]) (refresh_key T (ac_account_id a)) (db_now E))
             (d_pg d) of
        (Inl e, p) \<Rightarrow> (Inl e, d\<lparr>d_pg := p\<rparr>)
      | (Inr None, p) \<Rightarrow> enqueue_refreshes T E max_attempts (ids \<circ> Suc) rows (d\<lparr>d_pg := p\<rparr>)
      | (Inr (Some job_id), p) \<Rightarrow>
          (case enqueue_refreshes T E max_attempts (ids \<circ> Suc) rows (d\<lparr>d_pg := p\<rparr>) of
             (Inl e, d') \<Rightarrow> (Inl e, d')
           | (Inr rest, d') \<Rightarrow>
               (Inr (\<lparr>er_account_id = ac_account_id a, er_job_id = job_id\<rparr> # rest), d')))"

definition enqueue_due_credential_refreshes ::
    "chrono \<Rightarrow> (uuid \<Rightarrow> rstring) \<Rightarrow> pg_env \<Rightarrow> (nat \<Rightarrow> uuid) \<Rightarrow> nat \<Rightarrow> duration \<Rightarrow> u32 \<Rightarrow> db \<Rightarrow>
     enqueued_credential_refresh list sched_result" where
  "enqueue_due_credential_refreshes X T E ids limit refresh_before max_attempts d =
     (if limit = 0 then (Inr [], d)
      else if refresh_before < 0 then (Inl InvalidRefreshWindow, d)
      else if i64_try_from limit = None then (Inl (SchedInvalidLimit limit), d)
      else if max_attempts = 0 then (Inl InvalidRefreshMaxAttempts, d)
      else
        transact (\<lambda>d.
          if \<forall>a \<in> set (d_accounts d). ac_disabled a then (Inr [], d)
          else case ts_add E (db_now E) (millis (num_milliseconds X refresh_before)) of
            None \<Rightarrow> (Inl (SchedStorage ''timestamp out of range''), d)
          | Some window_end \<Rightarrow>
              enqueue_refreshes T E max_attempts ids (due_accounts T E window_end limit d) d) d)"


section \<open>Settings, passes and the loop\<close>

definition MAX_BATCH_LIMIT :: nat where
  "MAX_BATCH_LIMIT = 1000"

record scheduler_config =
  sch_batch_limit :: nat
  sch_reservation_for :: duration

datatype scheduler_config_error =
    InvalidBatchLimit nat
  | InvalidReservationSetting
  | InvalidCredentialRefreshWindow
  | InvalidCredentialRefreshAttempts

definition scheduler_config_new :: "chrono \<Rightarrow> nat \<Rightarrow> duration \<Rightarrow> scheduler_config_error + scheduler_config" where
  "scheduler_config_new X batch_limit reservation_for =
     (if batch_limit = 0 \<or> batch_limit > MAX_BATCH_LIMIT then Inl (InvalidBatchLimit batch_limit)
      else if reservation_for \<le> 0 \<or> num_milliseconds X reservation_for \<le> 0 then Inl InvalidReservationSetting
      else Inr \<lparr>sch_batch_limit = batch_limit, sch_reservation_for = reservation_for\<rparr>)"

definition scheduler_config_default :: scheduler_config where
  "scheduler_config_default = \<lparr>sch_batch_limit = 100, sch_reservation_for = seconds 60\<rparr>"

record credential_refresh_schedule =
  cs_refresh_before :: duration
  cs_max_attempts :: u32

definition credential_refresh_schedule_new ::
    "duration \<Rightarrow> u32 \<Rightarrow> scheduler_config_error + credential_refresh_schedule" where
  "credential_refresh_schedule_new refresh_before max_attempts =
     (if refresh_before < 0 then Inl InvalidCredentialRefreshWindow
      else if max_attempts = 0 then Inl InvalidCredentialRefreshAttempts
      else Inr \<lparr>cs_refresh_before = refresh_before, cs_max_attempts = max_attempts\<rparr>)"

record scheduler_loop_config =
  slc_poll_interval :: nat
  slc_error_backoff :: nat

datatype scheduler_loop_config_error = SchedInvalidPollInterval | SchedInvalidErrorBackoff

definition scheduler_loop_config_new :: "nat \<Rightarrow> nat \<Rightarrow> scheduler_loop_config_error + scheduler_loop_config" where
  "scheduler_loop_config_new poll_interval error_backoff =
     (if poll_interval = 0 then Inl SchedInvalidPollInterval
      else if error_backoff = 0 then Inl SchedInvalidErrorBackoff
      else Inr \<lparr>slc_poll_interval = poll_interval, slc_error_backoff = error_backoff\<rparr>)"

record scheduler_loop_stats =
  st_passes :: u64
  st_enqueued_sources :: u64
  st_enqueued_credential_refreshes :: u64
  st_quiet_passes :: u64
  st_errors :: u64

datatype scheduler_run =
    RunSkippedQuietHours "enqueued_credential_refresh list"
  | RunEnqueued "enqueued_source list" "enqueued_credential_refresh list"

record scheduler =
  sc_config :: scheduler_config
  sc_quiet_hours :: "quiet_hours option"
  sc_credential_refresh :: "credential_refresh_schedule option"

definition scheduler_new :: "scheduler_config \<Rightarrow> quiet_hours option \<Rightarrow> scheduler" where
  "scheduler_new config quiet_hours =
     \<lparr>sc_config = config, sc_quiet_hours = quiet_hours, sc_credential_refresh = None\<rparr>"

definition with_credential_refresh :: "credential_refresh_schedule \<Rightarrow> scheduler \<Rightarrow> scheduler" where
  "with_credential_refresh config s = s\<lparr>sc_credential_refresh := Some config\<rparr>"

text \<open>
  What one pass meets: the server at each of its two transactions and the ids it draws. The first
  transaction stays committed when the second fails.
\<close>

record pass_input =
  pi_refresh_env :: pg_env
  pi_refresh_ids :: "nat \<Rightarrow> uuid"
  pi_source_env :: pg_env
  pi_source_ids :: "nat \<Rightarrow> uuid"

definition scheduler_run_once ::
    "chrono \<Rightarrow> (uuid \<Rightarrow> rstring) \<Rightarrow> pass_input \<Rightarrow> scheduler \<Rightarrow> db \<Rightarrow> scheduler_run sched_result" where
  "scheduler_run_once X T i sch d =
     (case (case sc_credential_refresh sch of
              None \<Rightarrow> (Inr [], d)
            | Some config \<Rightarrow>
                enqueue_due_credential_refreshes X T (pi_refresh_env i) (pi_refresh_ids i)
                  (sch_batch_limit (sc_config sch)) (cs_refresh_before config) (cs_max_attempts config) d) of
        (Inl e, d1) \<Rightarrow> (Inl e, d1)
      | (Inr refreshes, d1) \<Rightarrow>
          (case enqueue_due_sources X T (pi_source_env i) (pi_source_ids i)
                  (sch_batch_limit (sc_config sch)) (sch_reservation_for (sc_config sch)) (sc_quiet_hours sch) d1 of
             (Inl e, d2) \<Rightarrow> (Inl e, d2)
           | (Inr SkippedQuietHours, d2) \<Rightarrow> (Inr (RunSkippedQuietHours refreshes), d2)
           | (Inr (EnqueuedPass sources), d2) \<Rightarrow> (Inr (RunEnqueued sources refreshes), d2)))"

definition saturating_len :: "u64 \<Rightarrow> 'a list \<Rightarrow> u64" where
  "saturating_len n xs = (if unat n + length xs < 2 ^ 64 then n + of_nat (length xs) else - 1)"

definition scheduler_count_pass :: "(scheduler_repository_error + scheduler_run) \<Rightarrow> scheduler_loop_stats \<Rightarrow> scheduler_loop_stats" where
  "scheduler_count_pass r st =
     (case r of
        Inr (RunSkippedQuietHours refreshes) \<Rightarrow>
          st\<lparr>st_quiet_passes := st_quiet_passes st + 1,
             st_enqueued_credential_refreshes := saturating_len (st_enqueued_credential_refreshes st) refreshes\<rparr>
      | Inr (RunEnqueued sources refreshes) \<Rightarrow>
          st\<lparr>st_enqueued_sources := saturating_len (st_enqueued_sources st) sources,
             st_enqueued_credential_refreshes := saturating_len (st_enqueued_credential_refreshes st) refreshes\<rparr>
      | Inl e \<Rightarrow> st\<lparr>st_errors := st_errors st + 1\<rparr>)"

text \<open>
  The loop reads what happens around it from a script: whether shutdown is seen at the head of an
  iteration, what the pass meets, what other replicas commit during the wait, and whether shutdown
  is seen while waiting. It returns the counters, or \<open>None\<close> when the script ends first, with the
  waits it chose.
\<close>

record scheduler_tick =
  tk_shutdown :: bool
  tk_input :: pass_input
  tk_others :: "db \<Rightarrow> db"
  tk_shutdown_waiting :: bool

fun scheduler_run_until_shutdown ::
    "chrono \<Rightarrow> (uuid \<Rightarrow> rstring) \<Rightarrow> scheduler \<Rightarrow> scheduler_loop_config \<Rightarrow> scheduler_tick list \<Rightarrow>
     scheduler_loop_stats \<Rightarrow> db \<Rightarrow> scheduler_loop_stats option \<times> nat list \<times> db" where
  "scheduler_run_until_shutdown X T sch lc [] st d = (None, [], d)"
| "scheduler_run_until_shutdown X T sch lc (tick # script) st d =
     (if tk_shutdown tick then (Some st, [], d)
      else
        (case scheduler_run_once X T (tk_input tick) sch d of
           (r, d') \<Rightarrow>
             (let st' = scheduler_count_pass r (st\<lparr>st_passes := st_passes st + 1\<rparr>);
                  wait = (case r of Inl _ \<Rightarrow> slc_error_backoff lc | Inr _ \<Rightarrow> slc_poll_interval lc)
              in if tk_shutdown_waiting tick then (Some st', [wait], d')
                 else case scheduler_run_until_shutdown X T sch lc script st' (tk_others tick d') of
                   (result, waits, d'') \<Rightarrow> (result, wait # waits, d''))))"

definition scheduler_stats_default :: scheduler_loop_stats where
  "scheduler_stats_default =
     \<lparr>st_passes = 0, st_enqueued_sources = 0, st_enqueued_credential_refreshes = 0, st_quiet_passes = 0,
      st_errors = 0\<rparr>"


section \<open>Inserted jobs\<close>

text \<open>
  The literal row of an insert is the row of a new job, and the insert does to the job table what
  the job repository's enqueue does; so it keeps the promises of that repository.
\<close>

lemma sync_key_visible: "trim (sync_key T i) \<noteq> []" "trim (refresh_key T i) \<noteq> []"
proof -
  have "\<not> is_whitespace 115" "\<not> is_whitespace 99" by (simp_all add: is_whitespace_def)
  moreover have "115 \<in> set (sync_key T i)" "99 \<in> set (refresh_key T i)"
    by (simp_all add: sync_key_def refresh_key_def lit_def)
  ultimately show "trim (sync_key T i) \<noteq> []" "trim (refresh_key T i) \<noteq> []"
    by (auto simp: trim_eq_Nil_iff)
qed

lemma queued_row_new:
  fixes max_attempts :: u32
  assumes "max_attempts \<noteq> 0" "trim key \<noteq> []"
  shows "\<exists>spec j. new uid spec = Inr j \<and>
     queued_row uid (job_type_name jt) sid priority (uint max_attempts) payload key now = bind_job j \<and>
     j_dedupe_key j = key \<and> j_status j = Queued"
  by (rule exI [of _ "\<lparr>nj_job_type = jt, nj_source_id = sid, nj_priority = priority, nj_run_after = now,
        nj_max_attempts = max_attempts, nj_payload = payload, nj_dedupe_key = key, nj_now = now\<rparr>"])
    (simp add: new_def assms queued_row_def bind_job_def)

lemma insert_as_enqueue:
  assumes "new uid spec = Inr j"
  shows "snd (insert_job_row (bind_job j) s) = snd (autocommit (enqueue_internal E uid spec False) s)"
proof -
  have "decode_job (bind_job j) = Inr j" using new_ok [OF assms] by (simp add: decode_job_iff)
  then show ?thesis
    using assms by (auto simp: insert_job_row_def autocommit_def enqueue_internal_def Let_def split: list.splits)
qed

definition jobs_advance :: "pg \<Rightarrow> pg \<Rightarrow> bool" where
  "jobs_advance s s' \<longleftrightarrow> pg_ok s' \<and> store_evolves (store_of s) (store_of s')"

lemma jobs_advance_refl: "pg_ok s \<Longrightarrow> jobs_advance s s"
  by (simp add: jobs_advance_def store_evolves_refl)

lemma jobs_advance_trans: "jobs_advance a b \<Longrightarrow> jobs_advance b c \<Longrightarrow> jobs_advance a c"
  by (auto simp: jobs_advance_def intro: store_evolves_trans)

lemma insert_advances:
  fixes max_attempts :: u32
  assumes "pg_ok s" "max_attempts \<noteq> 0" "trim key \<noteq> []"
  shows "jobs_advance s (snd (insert_job_row
     (queued_row uid (job_type_name jt) sid priority (uint max_attempts) payload key now) s))"
proof -
  obtain spec j where j: "new uid spec = Inr j"
    "queued_row uid (job_type_name jt) sid priority (uint max_attempts) payload key now = bind_job j"
    using queued_row_new [OF assms(2,3)] by blast
  show ?thesis
    unfolding jobs_advance_def j(2) insert_as_enqueue [OF j(1), where E = undefined]
    by (rule enqueue_pg_step [OF assms(1)])
qed

lemma source_row_attempts:
  assumes "source_row_ok L r"
  shows "\<exists>m. u32_try_from (so_max_attempts r) = Some m \<and> uint m = so_max_attempts r \<and> m \<noteq> 0"
proof -
  from assms obtain s where s: "source_ok L s" "r = bind_source L (so_created_at r) (so_updated_at r) s"
    by (blast elim: source_row_okE)
  from s(2) have "so_max_attempts r = uint (src_max_attempts s)"
    by (metis bind_source_def source_row.select_convs(15))
  moreover have "src_max_attempts s \<noteq> 0" using s(1) by (auto simp: source_ok_def source_validate_def split: if_splits)
  ultimately show ?thesis by simp
qed


section \<open>Reservations\<close>

definition reserve :: "datetime \<Rightarrow> datetime \<Rightarrow> source_row \<Rightarrow> source_row" where
  "reserve u now r = r\<lparr>so_schedule_reserved_until := Some u, so_updated_at := now\<rparr>"

lemma reserve_ok:
  assumes "source_row_ok L r"
  shows "source_row_ok L (reserve u now r)"
proof -
  from assms obtain s where s: "source_ok L s" "r = bind_source L (so_created_at r) (so_updated_at r) s"
    by (blast elim: source_row_okE)
  let ?s = "s\<lparr>src_schedule_reserved_until := Some u\<rparr>"
  have "source_ok L ?s" using source_ok_cong [OF s(1), of ?s] by simp
  moreover have "reserve u now r = bind_source L (so_created_at r) now ?s"
    by (subst s(2)) (simp add: reserve_def bind_source_def)
  ultimately show ?thesis by (rule source_row_okI)
qed

lemma reserve_keys [simp]:
  "so_id (reserve u now r) = so_id r" "so_book_id (reserve u now r) = so_book_id r"
  "so_max_attempts (reserve u now r) = so_max_attempts r" "so_priority (reserve u now r) = so_priority r"
  by (simp_all add: reserve_def)

lemma reserve_reserves: "so_schedule_reserved_until (reserve u now r) = Some u"
  by (simp add: reserve_def)

lemma reserve_sources_ok:
  assumes "sources_ok L d" "d_sources d' = update_rows cond (reserve u now) (d_sources d)"
  shows "sources_ok L d'"
proof -
  have "\<forall>r \<in> set (update_rows cond (reserve u now) (d_sources d)). source_row_ok L r"
    using assms(1) reserve_ok by (intro update_rows_all) (auto simp: sources_ok_def)
  with assms show ?thesis by (simp add: sources_ok_def update_rows_keys)
qed


section \<open>Passes\<close>

definition sync_row :: "(uuid \<Rightarrow> rstring) \<Rightarrow> pg_env \<Rightarrow> uuid \<Rightarrow> source_row \<Rightarrow> job_row" where
  "sync_row T E job_id s =
     queued_row job_id ''source_sync'' (Some (so_id s)) (so_priority s) (so_max_attempts s)
       (JObject [(lit ''source_id'', JString (T (so_id s)))]) (sync_key T (so_id s)) (db_now E)"

definition draws :: "(nat \<Rightarrow> uuid) \<Rightarrow> 'r list \<Rightarrow> (uuid \<times> 'r) list" where
  "draws ids rows = zip (map ids [0..<length rows]) rows"

lemma draws_simps [simp]: "draws ids [] = []" "draws ids (s # rows) = (ids 0, s) # draws (ids \<circ> Suc) rows"
  by (simp_all add: draws_def map_upt_Suc comp_def del: upt_Suc)

lemma map_snd_draws [simp]: "map snd (draws ids rows) = rows"
  by (simp add: draws_def)

lemma reserve_more:
  "update_rows (\<lambda>r. so_id r \<in> B) (reserve u now) (update_rows (\<lambda>r. so_id r = i) (reserve u now) rows) =
     update_rows (\<lambda>r. so_id r \<in> insert i B) (reserve u now) rows"
  by (auto simp: update_rows_def reserve_def)

lemma sync_key_inj: "inj T \<Longrightarrow> sync_key T i = sync_key T j \<longleftrightarrow> i = j"
  by (auto simp: sync_key_def inj_def)

lemma sync_row_conflict [simp]: "active_conflict key (sync_row T E i s) \<longleftrightarrow> key = sync_key T (so_id s)"
  by (auto simp: active_conflict_def sync_row_def queued_row_def active_statuses_def)

text \<open>One round of the loop, on a row whose attempt limit is in range.\<close>

lemma enqueue_selected_round:
  assumes "u32_try_from (so_max_attempts s) = Some m" "uint m = so_max_attempts s"
  shows "enqueue_selected T E ms ids (s # rows) d =
     (case insert_job_row (sync_row T E (ids 0) s) (d_pg d) of
        (Inl e, p) \<Rightarrow> (Inl e, d\<lparr>d_pg := p\<rparr>)
      | (Inr None, p) \<Rightarrow> enqueue_selected T E ms (ids \<circ> Suc) rows (d\<lparr>d_pg := p\<rparr>)
      | (Inr (Some job_id), p) \<Rightarrow>
          (case ts_add E (db_now E) (millis ms) of
             None \<Rightarrow> (Inl (SchedStorage ''timestamp out of range''), d\<lparr>d_pg := p\<rparr>)
           | Some u \<Rightarrow>
               (case enqueue_selected T E ms (ids \<circ> Suc) rows
                       (d\<lparr>d_pg := p, d_sources := update_rows (\<lambda>r. so_id r = so_id s) (reserve u (db_now E))
                            (d_sources d)\<rparr>) of
                  (Inl e, d') \<Rightarrow> (Inl e, d')
                | (Inr rest, d') \<Rightarrow>
                    (Inr (\<lparr>es_source_id = so_id s, es_job_id = job_id, es_reserved_until = u\<rparr> # rest), d'))))"
  unfolding sync_row_def reserve_def [abs_def] using assms by simp

lemma enqueue_selected_exact:
  assumes "ts_add E (db_now E) (millis ms) = Some u" "inj T"
    and "\<forall>s \<in> set rows. source_row_ok L s" "distinct (map so_id rows)"
    and "\<forall>s \<in> set rows. \<not> has_active_job (sync_key T (so_id s)) d"
    and "inj_on ids {..<length rows}" "\<forall>n < length rows. ids n \<notin> r_id ` set (pg_jobs (d_pg d))"
  shows "enqueue_selected T E ms ids rows d =
     (Inr (map (\<lambda>(i, s). \<lparr>es_source_id = so_id s, es_job_id = i, es_reserved_until = u\<rparr>) (draws ids rows)),
      d\<lparr>d_pg := (d_pg d)\<lparr>pg_jobs := pg_jobs (d_pg d) @ map (\<lambda>(i, s). sync_row T E i s) (draws ids rows)\<rparr>,
        d_sources := update_rows (\<lambda>r. so_id r \<in> so_id ` set rows) (reserve u (db_now E)) (d_sources d)\<rparr>)"
  using assms(3-)
proof (induction rows arbitrary: ids d)
  case Nil
  then show ?case by (simp add: update_rows_def)
next
  case (Cons s rows)
  let ?row = "sync_row T E (ids 0) s"
  let ?p = "(d_pg d)\<lparr>pg_jobs := pg_jobs (d_pg d) @ [?row]\<rparr>"
  let ?d = "d\<lparr>d_pg := ?p, d_sources := update_rows (\<lambda>r. so_id r = so_id s) (reserve u (db_now E)) (d_sources d)\<rparr>"
  from Cons.prems(1) source_row_attempts obtain m where
    m: "u32_try_from (so_max_attempts s) = Some m" "uint m = so_max_attempts s" by fastforce
  have key: "r_dedupe_key ?row = sync_key T (so_id s)" "r_id ?row = ids 0"
    by (simp_all add: sync_row_def queued_row_def)
  have "\<forall>r \<in> set (pg_jobs (d_pg d)). r_id r \<noteq> ids 0" using Cons.prems(5) by (metis imageI length_Cons zero_less_Suc)
  then have ins: "insert_job_row ?row (d_pg d) = (Inr (Some (ids 0)), ?p)"
    using Cons.prems(3) key by (simp add: insert_job_row_def has_active_job_def)
  have active: "\<forall>x \<in> set rows. \<not> has_active_job (sync_key T (so_id x)) ?d"
    using Cons.prems(2,3) sync_key_inj [OF assms(2)] by (auto simp: has_active_job_def image_iff)
  have fresh: "inj_on (ids \<circ> Suc) {..<length rows}"
      "\<forall>n < length rows. (ids \<circ> Suc) n \<notin> r_id ` set (pg_jobs (d_pg ?d))"
    using Cons.prems(4,5) key(2) by (auto simp: inj_on_def)
  have "\<forall>s \<in> set rows. source_row_ok L s" "distinct (map so_id rows)" using Cons.prems(1,2) by auto
  note IH = Cons.IH [OF this active fresh]
  show ?case
    unfolding enqueue_selected_round [OF m] ins assms(1) prod.case sum.case option.case IH
    by (simp add: reserve_more)
qed

text \<open>Whatever its outcome, the loop only moves jobs forward and touches no other table.\<close>

lemma enqueue_selected_advances:
  assumes "pg_ok (d_pg d)" "\<forall>s \<in> set rows. source_row_ok L s" "sources_ok L d"
  shows "jobs_advance (d_pg d) (d_pg (snd (enqueue_selected T E ms ids rows d))) \<and>
     sources_ok L (snd (enqueue_selected T E ms ids rows d))"
  using assms
proof (induction rows arbitrary: ids d)
  case Nil
  then show ?case by (simp add: jobs_advance_refl)
next
  case (Cons s rows)
  let ?p = "snd (insert_job_row (sync_row T E (ids 0) s) (d_pg d))"
  from Cons.prems(2) source_row_attempts obtain m where
    m: "u32_try_from (so_max_attempts s) = Some m" "uint m = so_max_attempts s" "m \<noteq> 0" by fastforce
  have row: "sync_row T E (ids 0) s = queued_row (ids 0) (job_type_name SourceSync) (Some (so_id s)) (so_priority s) (uint m)
      (JObject [(lit ''source_id'', JString (T (so_id s)))]) (sync_key T (so_id s)) (db_now E)"
    by (simp add: sync_row_def m(2))
  have adv: "jobs_advance (d_pg d) ?p"
    unfolding row by (rule insert_advances [OF Cons.prems(1) m(3) sync_key_visible(1)])
  then have ok: "pg_ok ?p" by (simp add: jobs_advance_def)
  have IH: "jobs_advance (d_pg d) (d_pg (snd (enqueue_selected T E ms (ids \<circ> Suc) rows d1))) \<and>
      sources_ok L (snd (enqueue_selected T E ms (ids \<circ> Suc) rows d1))"
    if "d_pg d1 = ?p" "sources_ok L d1" for d1
  proof -
    have "pg_ok (d_pg d1)" "\<forall>s \<in> set rows. source_row_ok L s" using that(1) ok Cons.prems(2) by simp_all
    from Cons.IH [OF this that(2)] jobs_advance_trans [OF adv] show ?thesis unfolding that(1) by blast
  qed
  have res: "sources_ok L (d\<lparr>d_pg := p, d_sources := update_rows (\<lambda>r. so_id r = so_id s) (reserve u (db_now E))
      (d_sources d)\<rparr>)" for u p
    by (rule reserve_sources_ok [OF Cons.prems(3)]) simp
  have same: "sources_ok L (d\<lparr>d_pg := p\<rparr>)" for p using Cons.prems(3) by (simp add: sources_ok_def)
  have "snd (enqueue_selected T E ms ids (s # rows) d) \<in> {d\<lparr>d_pg := ?p\<rparr>,
        snd (enqueue_selected T E ms (ids \<circ> Suc) rows (d\<lparr>d_pg := ?p\<rparr>))} \<union>
      range (\<lambda>u. snd (enqueue_selected T E ms (ids \<circ> Suc) rows (d\<lparr>d_pg := ?p,
        d_sources := update_rows (\<lambda>r. so_id r = so_id s) (reserve u (db_now E)) (d_sources d)\<rparr>)))"
    unfolding enqueue_selected_round [OF m(1,2)]
    by (auto simp del: enqueue_selected.simps split: prod.splits sum.splits option.splits)
      (metis (no_types, lifting) UNIV_I image_eqI snd_conv)+
  then show ?case
  proof (elim UnE insertE rangeE emptyE)
  qed (use adv IH [OF _ res] IH [OF _ same] same in simp_all)
qed


text \<open>What a successful loop has reserved.\<close>

lemma enqueue_selected_sources:
  assumes "enqueue_selected T E ms ids rows d = (Inr es, d')"
  shows "es_source_id ` set es \<subseteq> so_id ` set rows \<and>
     (\<forall>e \<in> set es. ts_add E (db_now E) (millis ms) = Some (es_reserved_until e)) \<and>
     d_sources d' = update_rows (\<lambda>r. so_id r \<in> es_source_id ` set es)
       (reserve (the (ts_add E (db_now E) (millis ms))) (db_now E)) (d_sources d)"
  using assms
proof (induction rows arbitrary: ids d es)
  case Nil
  then show ?case by (auto simp: update_rows_def)
next
  case (Cons s rows)
  from Cons.prems obtain m where m: "u32_try_from (so_max_attempts s) = Some m" by (auto split: option.splits)
  let ?p = "snd (insert_job_row (sync_row T E (ids 0) s) (d_pg d))"
  from Cons.prems consider
    (skipped) "enqueue_selected T E ms (ids \<circ> Suc) rows (d\<lparr>d_pg := ?p\<rparr>) = (Inr es, d')"
  | (enqueued) u job_id rest where "ts_add E (db_now E) (millis ms) = Some u"
      "es = \<lparr>es_source_id = so_id s, es_job_id = job_id, es_reserved_until = u\<rparr> # rest"
      "enqueue_selected T E ms (ids \<circ> Suc) rows (d\<lparr>d_pg := ?p,
         d_sources := update_rows (\<lambda>r. so_id r = so_id s) (reserve u (db_now E)) (d_sources d)\<rparr>) = (Inr rest, d')"
    unfolding enqueue_selected_round [OF m u32_try_from_Some [OF m]]
    by (auto simp del: enqueue_selected.simps split: prod.splits sum.splits option.splits)
  then show ?case
  proof cases
    case skipped
    from Cons.IH [OF this] show ?thesis by auto
  next
    case enqueued
    from Cons.IH [OF enqueued(3)] enqueued(1,2) show ?thesis by (auto simp: reserve_more)
  qed
qed


section \<open>Properties\<close>

lemma take_sorted_first:
  assumes "x \<in> set (take n (sort_key k xs))" "y \<in> set xs" "y \<notin> set (take n (sort_key k xs))"
  shows "k x \<le> k y"
proof -
  have "sorted (map k (take n (sort_key k xs) @ drop n (sort_key k xs)))" by simp
  moreover have "y \<in> set (drop n (sort_key k xs))"
    using assms(2,3) by (metis Un_iff append_take_drop_id set_append set_sort)
  ultimately show ?thesis using assms(1) unfolding map_append sorted_append by auto
qed

lemma due_sources_selected:
  shows "set (due_sources T E limit d) \<subseteq> {s \<in> set (d_sources d). due_source T E d s}"
    and "length (due_sources T E limit d) = min limit (length (filter (due_source T E d) (d_sources d)))"
    and "sources_ok L d \<Longrightarrow> distinct (map so_id (due_sources T E limit d))"
    and "s \<in> set (due_sources T E limit d) \<Longrightarrow> s' \<in> set (d_sources d) \<Longrightarrow> due_source T E d s' \<Longrightarrow>
       s' \<notin> set (due_sources T E limit d) \<Longrightarrow> source_order s \<le> source_order s'"
proof -
  show "set (due_sources T E limit d) \<subseteq> {s \<in> set (d_sources d). due_source T E d s}"
    by (auto simp: due_sources_def dest: in_set_takeD)
  show "length (due_sources T E limit d) = min limit (length (filter (due_source T E d) (d_sources d)))"
    by (simp add: due_sources_def min.commute)
  show "distinct (map so_id (due_sources T E limit d))" if "sources_ok L d"
  proof -
    from that have "distinct (map so_id (filter (due_source T E d) (d_sources d)))"
      by (simp add: sources_ok_def distinct_map_filter)
    then have "distinct (map so_id (sort_key source_order (filter (due_source T E d) (d_sources d))))"
      by (simp add: distinct_map)
    then show ?thesis by (simp add: due_sources_def take_map [symmetric])
  qed
  show "source_order s \<le> source_order s'" if "s \<in> set (due_sources T E limit d)" "s' \<in> set (d_sources d)"
      "due_source T E d s'" "s' \<notin> set (due_sources T E limit d)"
    using take_sorted_first [of s limit source_order "filter (due_source T E d) (d_sources d)" s'] that
    by (simp add: due_sources_def)
qed


lemma config_checked:
  assumes "scheduler_config_new X limit reservation_for = Inr cfg"
  shows "0 < limit" "limit \<le> 1000" "i64_try_from limit \<noteq> None"
    "validate_reservation X reservation_for = Inr (num_milliseconds X reservation_for)"
    "0 < num_milliseconds X reservation_for"
  using assms
  by (auto simp: scheduler_config_new_def MAX_BATCH_LIMIT_def i64_try_from_def validate_reservation_def Let_def
      split: if_splits)

text \<open>
  (C27) One scheduling pass does exactly what is due. With checked settings, on well-formed tables and
  with fresh ids: during quiet hours nothing changes. Otherwise the pass selects sources that are
  enabled, ready, due, not cooling down, not reserved, without an active sync job and not locked, at
  most the batch limit and all of them if they fit, the first ones by priority, due time and id; it
  appends one queued sync job for each, with the dedupe key of the source, reserves exactly these
  sources until the end of the reservation, reports them in order, leaves every other row and table
  as it was, and keeps both tables well formed, with at most one active job per key.
\<close>

theorem scheduler_pass_exact:
  assumes "sources_ok L d" "pg_ok (d_pg d)" "pg_env_ok E" "inj T" "inj_on ids {..<limit}"
    and "\<forall>n < limit. ids n \<notin> r_id ` set (pg_jobs (d_pg d))"
    and "scheduler_config_new X limit reservation_for = Inr cfg"
    and "ts_add E (db_now E) (millis (num_milliseconds X reservation_for)) = Some u"
    and "rows = due_sources T E limit d" "quiet = (\<exists>q. quiet_hours = Some q \<and> is_quiet_at q (db_now E))"
  shows "(quiet \<longrightarrow> enqueue_due_sources X T E ids limit reservation_for quiet_hours d = (Inr SkippedQuietHours, d)) \<and>
     (\<not> quiet \<longrightarrow>
       (\<exists>d'. enqueue_due_sources X T E ids limit reservation_for quiet_hours d =
          (Inr (EnqueuedPass (map (\<lambda>(i, s). \<lparr>es_source_id = so_id s, es_job_id = i, es_reserved_until = u\<rparr>)
                  (draws ids rows))), d') \<and>
        d' = d\<lparr>d_pg := (d_pg d)\<lparr>pg_jobs := pg_jobs (d_pg d) @ map (\<lambda>(i, s). sync_row T E i s) (draws ids rows)\<rparr>,
               d_sources := update_rows (\<lambda>r. so_id r \<in> so_id ` set rows) (reserve u (db_now E)) (d_sources d)\<rparr> \<and>
        sources_ok L d' \<and> pg_ok (d_pg d') \<and> store_evolves (store_of (d_pg d)) (store_of (d_pg d')))) \<and>
     set rows \<subseteq> {s \<in> set (d_sources d). due_source T E d s} \<and> distinct (map so_id rows) \<and>
     length rows = min limit (length (filter (due_source T E d) (d_sources d))) \<and> length rows \<le> 1000 \<and>
     (\<forall>s \<in> set rows. \<forall>s' \<in> set (d_sources d). due_source T E d s' \<longrightarrow> s' \<notin> set rows \<longrightarrow>
        source_order s \<le> source_order s') \<and>
     db_now E < u"
proof -
  note cfg = config_checked [OF assms(7)]
  let ?ms = "num_milliseconds X reservation_for"
  note sel = due_sources_selected(1) [of T E limit d] due_sources_selected(2) [of T E limit d]
    due_sources_selected(3) [OF assms(1), of T E limit] due_sources_selected(4) [of _ T E limit d]
  have ok: "\<forall>s \<in> set rows. source_row_ok L s" "\<forall>s \<in> set rows. \<not> has_active_job (sync_key T (so_id s)) d"
    using sel(1) assms(1,9) by (auto simp: sources_ok_def due_source_def)
  from sel(3) assms(9) have dist: "distinct (map so_id rows)" by simp
  have few: "length rows \<le> limit" using sel(2) assms(9) by simp
  then have fresh: "inj_on ids {..<length rows}" "\<forall>n < length rows. ids n \<notin> r_id ` set (pg_jobs (d_pg d))"
    using assms(5,6) by (auto intro: inj_on_subset)
  note run = enqueue_selected_exact [OF assms(8,4) ok(1) dist ok(2) fresh]
  note adv = enqueue_selected_advances [OF assms(2) ok(1) assms(1), of T E ?ms ids]
  have "db_now E < u"
    using assms(3,8) cfg(5) unfolding pg_env_ok_def millis_def by fastforce
  moreover have "enqueue_due_sources X T E ids limit reservation_for quiet_hours d = (Inr SkippedQuietHours, d)" if quiet
    using that assms(10) cfg by (auto simp: enqueue_due_sources_def transact_def)
  moreover have "enqueue_due_sources X T E ids limit reservation_for quiet_hours d =
      (map_sum id EnqueuedPass (fst (enqueue_selected T E ?ms ids rows d)), snd (enqueue_selected T E ?ms ids rows d))"
    if "\<not> quiet"
    using that assms(9,10) cfg run by (auto simp: enqueue_due_sources_def transact_def split: option.splits)
  ultimately show ?thesis
    using sel assms(9) dist adv cfg(2) unfolding run jobs_advance_def by simp
qed


definition example_text :: "uuid \<Rightarrow> rstring" where
  "example_text u = [unat u]"

lemma example_text_inj: "inj example_text"
  by (simp add: inj_def example_text_def word_unat_eq_iff)

lemma example_due: "due_sources example_text (example_env 1000) 2 example_db =
    [bind_source example_libs 10 20 example_source]"
  by (simp add: due_sources_def due_source_def has_active_job_def example_db_def empty_pg_def bind_source_def
      example_source_def example_env_def)

lemma example_pass_setting:
  "pg_ok (d_pg example_db)" "pg_env_ok (example_env t)" "inj_on (\<lambda>n. of_nat n + 40 :: uuid) {..<2}"
  "\<forall>n < 2. of_nat n + 40 \<notin> r_id ` set (pg_jobs (d_pg example_db))"
  "scheduler_config_new chrono_ref 2 2500000 = Inr \<lparr>sch_batch_limit = 2, sch_reservation_for = 2500000\<rparr>"
  "ts_add (example_env t) (db_now (example_env t)) (millis (num_milliseconds chrono_ref 2500000)) = Some (t + 2000000)"
  by (simp_all add: example_db_def empty_pg_def pg_ok_def store_of_def store_ok_def unique_active_def pg_env_ok_def
      example_env_def scheduler_config_new_def MAX_BATCH_LIMIT_def chrono_ref_def millis_def)
    (auto simp: inj_on_def numeral_2_eq_2 less_Suc_eq)

theorem scheduler_pass_exact_witness:
  "\<exists>d'. enqueue_due_sources chrono_ref example_text (example_env 1000) (\<lambda>n. of_nat n + 40) 2 2500000 None example_db =
     (Inr (EnqueuedPass [\<lparr>es_source_id = 7, es_job_id = 40, es_reserved_until = 2001000\<rparr>]), d') \<and>
     sources_ok example_libs d' \<and> pg_ok (d_pg d')"
proof -
  from scheduler_pass_exact [OF example_db_ok example_pass_setting(1,2) example_text_inj example_pass_setting(3-6)
      example_due [symmetric] refl, of None] obtain d' where
    d': "enqueue_due_sources chrono_ref example_text (example_env 1000) (\<lambda>n. of_nat n + 40) 2 2500000 None example_db =
      (Inr (EnqueuedPass (map (\<lambda>(i, s). \<lparr>es_source_id = so_id s, es_job_id = i, es_reserved_until = 1000 + 2000000\<rparr>)
         (draws (\<lambda>n. of_nat n + 40) [bind_source example_libs 10 20 example_source]))), d')"
    "sources_ok example_libs d'" "pg_ok (d_pg d')"
    by blast
  have "so_id (bind_source example_libs 10 20 example_source) = 7" by (simp add: bind_source_def example_source_def)
  with d' show ?thesis by simp
qed

text \<open>The operations on the queue and the passes of any replica as steps.\<close>

datatype sched_op =
    OnJobs pg_env store_op
  | SourcePass pg_env "nat \<Rightarrow> uuid" nat duration "quiet_hours option"
  | RefreshPass pg_env "nat \<Rightarrow> uuid" nat duration u32

fun sched_step :: "chrono \<Rightarrow> (uuid \<Rightarrow> rstring) \<Rightarrow> refresh_policy \<Rightarrow> sched_op \<Rightarrow> db \<Rightarrow> db" where
  "sched_step X T policy (OnJobs E op) d = d\<lparr>d_pg := run_pg_op X policy (E, op) (d_pg d)\<rparr>"
| "sched_step X T policy (SourcePass E ids limit res quiet) d =
     snd (enqueue_due_sources X T E ids limit res quiet d)"
| "sched_step X T policy (RefreshPass E ids limit before attempts) d =
     snd (enqueue_due_credential_refreshes X T E ids limit before attempts d)"

fun sched_typed :: "sched_op \<Rightarrow> bool" where
  "sched_typed (SourcePass E ids limit res quiet) \<longleftrightarrow> pg_env_ok E"
| "sched_typed _ \<longleftrightarrow> True"

definition reserved_at :: "db \<Rightarrow> uuid \<Rightarrow> datetime option" where
  "reserved_at d i = (case find_source_row i d of None \<Rightarrow> None | Some r \<Rightarrow> so_schedule_reserved_until r)"

lemma pass_enqueued:
  assumes "enqueue_due_sources X T E ids limit reservation_for quiet_hours d = (Inr (EnqueuedPass es), d')" "e \<in> set es"
  shows "\<exists>s \<in> set (d_sources d). so_id s = es_source_id e \<and> due_source T E d s"
    and "reserved_at d' (es_source_id e) = Some (es_reserved_until e)"
proof -
  from assms obtain ms where
    run: "enqueue_selected T E ms ids (due_sources T E limit d) d = (Inr es, d')"
    by (auto simp: enqueue_due_sources_def transact_Inr split: if_splits sum.splits prod.splits)
  note sel = enqueue_selected_sources [OF run]
  show due: "\<exists>s \<in> set (d_sources d). so_id s = es_source_id e \<and> due_source T E d s"
    using sel assms(2) due_sources_selected(1) [of T E limit d] by (fastforce simp: image_iff)
  then obtain r where r: "find (\<lambda>r. so_id r = es_source_id e) (d_sources d) = Some r"
    by (metis (mono_tags, lifting) find_None_iff option.exhaust)
  have "find (\<lambda>r. so_id r = es_source_id e) (d_sources d') =
      Some (reserve (the (ts_add E (db_now E) (millis ms))) (db_now E) r)"
    using sel r find_key [OF r] assms(2) by (simp add: find_keyed_update)
  with sel assms(2) show "reserved_at d' (es_source_id e) = Some (es_reserved_until e)"
    by (simp add: reserved_at_def find_source_row_def reserve_reserves)
qed

lemma refreshes_leave_sources:
  "enqueue_refreshes T E attempts ids rows d = (r, d') \<Longrightarrow> d_sources d' = d_sources d"
proof (induction rows arbitrary: ids d r)
  case (Cons a rows)
  from Cons.prems show ?case
    by (auto dest!: Cons.IH split: prod.splits sum.splits option.splits)
qed simp

lemma refresh_pass_leaves_sources:
  "d_sources (snd (enqueue_due_credential_refreshes X T E ids limit before attempts d)) = d_sources d"
  by (auto simp: enqueue_due_credential_refreshes_def transact_def dest: refreshes_leave_sources
      split: if_splits option.splits prod.splits sum.splits)

text \<open>A pass moves reservations only forward: it reserves what is not reserved at its instant.\<close>

lemma source_pass_reserves:
  assumes "distinct (map so_id (d_sources d))" "pg_env_ok E"
    and d': "d' = snd (enqueue_due_sources X T E ids limit res quiet d)"
  shows "distinct (map so_id (d_sources d')) \<and>
     (\<forall>i v. reserved_at d i = Some v \<longrightarrow> (\<exists>v'. reserved_at d' i = Some v' \<and> v \<le> v'))"
proof (cases "d_sources d' = d_sources d")
  case True
  then show ?thesis using assms(1) by (auto simp: reserved_at_def find_source_row_def)
next
  case False
  then obtain ms es where ms: "validate_reservation X res = Inr ms"
    and run: "enqueue_selected T E ms ids (due_sources T E limit d) d = (Inr es, d')"
    using d' by (auto simp: enqueue_due_sources_def transact_def split: if_splits sum.splits prod.splits)
  let ?u = "the (ts_add E (db_now E) (millis ms))"
  note sel = enqueue_selected_sources [OF run]
  from ms have "0 < ms" by (auto simp: validate_reservation_def Let_def split: if_splits)
  then have later: "db_now E < ?u" if "e \<in> set es" for e
    using sel that assms(2) unfolding pg_env_ok_def millis_def by fastforce
  have "distinct (map so_id (d_sources d'))" using sel assms(1) by (simp add: update_rows_keys)
  moreover have "\<exists>v'. reserved_at d' i = Some v' \<and> v \<le> v'" if v: "reserved_at d i = Some v" for i v
  proof -
    from v obtain r where r: "find_source_row i d = Some r" "so_schedule_reserved_until r = Some v"
      by (auto simp: reserved_at_def split: option.splits)
    then have r': "find_source_row i d' = Some (if i \<in> es_source_id ` set es then reserve ?u (db_now E) r else r)"
      using sel find_key [of so_id i "d_sources d" r]
      by (simp add: find_source_row_def find_keyed_update)
    show ?thesis
    proof (cases "i \<in> es_source_id ` set es")
      case True
      then obtain e s where e: "e \<in> set es" "es_source_id e = i" and s: "s \<in> set (due_sources T E limit d)" "so_id s = i"
        using sel by (metis image_iff subsetD)
      with due_sources_selected(1) have "s \<in> set (d_sources d)" "due_source T E d s" by blast+
      moreover from this(1) have "s = r"
        using find_keyed [OF assms(1), of s] r(1) s(2) by (simp add: find_source_row_def)
      ultimately have "v \<le> db_now E" using r(2) by (simp add: due_source_def)
      with later [OF e(1)] r' True show ?thesis by (auto simp: reserved_at_def reserve_def)
    next
      case False
      with r r' show ?thesis by (simp add: reserved_at_def)
    qed
  qed
  ultimately show ?thesis by blast
qed

interpretation reservations: tracked_table reserved_at "\<lambda>d. distinct (map so_id (d_sources d))" sched_typed
  "\<lambda>_ _. True" "sched_step X T policy" "(\<le>)" for X T policy
proof unfold_locales
  fix s :: db and op assume s: "distinct (map so_id (d_sources s))" "sched_typed op"
  have "distinct (map so_id (d_sources (sched_step X T policy op s))) \<and>
      (\<forall>i v. reserved_at s i = Some v \<longrightarrow> (\<exists>v'. reserved_at (sched_step X T policy op s) i = Some v' \<and> v \<le> v'))"
  proof (cases op)
    case (SourcePass E ids limit res quiet)
    with s source_pass_reserves [OF s(1) _ refl] show ?thesis by simp
  qed (use s refresh_pass_leaves_sources in \<open>auto simp: reserved_at_def find_source_row_def\<close>)
  then show "distinct (map so_id (d_sources (sched_step X T policy op s)))"
    and "\<And>k v. reserved_at s k = Some v \<Longrightarrow> \<exists>v'. reserved_at (sched_step X T policy op s) k = Some v' \<and> v \<le> v'"
    by blast+
qed auto



definition example_after_pass :: db where
  "example_after_pass = example_db\<lparr>
     d_pg := empty_pg\<lparr>pg_jobs := [sync_row example_text (example_env 1000) 40 (bind_source example_libs 10 20 example_source)]\<rparr>,
     d_sources := [reserve 2001000 1000 (bind_source example_libs 10 20 example_source)]\<rparr>"

lemma example_first_pass:
  "enqueue_due_sources chrono_ref example_text (example_env 1000) (\<lambda>n. of_nat n + 40) 2 2500000 None example_db =
     (Inr (EnqueuedPass [\<lparr>es_source_id = 7, es_job_id = 40, es_reserved_until = 2001000\<rparr>]), example_after_pass)"
proof -
  let ?r = "bind_source example_libs 10 20 example_source"
  have r: "so_id ?r = 7" "u32_try_from (so_max_attempts ?r) = Some 3" "uint (3 :: u32) = so_max_attempts ?r"
    by (simp_all add: bind_source_def example_source_def u32_try_from_def)
  have "enqueue_selected example_text (example_env 1000) 2 (\<lambda>n. of_nat n + 40) [?r] example_db =
      (Inr [\<lparr>es_source_id = 7, es_job_id = 40, es_reserved_until = 2001000\<rparr>], example_after_pass)"
    unfolding enqueue_selected_round [OF r(2,3)]
    by (simp add: insert_job_row_def example_db_def empty_pg_def example_after_pass_def r(1) example_env_def millis_def
        update_rows_def sync_row_def queued_row_def)
  then show ?thesis
    by (simp add: enqueue_due_sources_def example_due i64_try_from_def validate_reservation_def chrono_ref_def
        transact_def)
qed

lemma example_second_pass:
  "enqueue_due_sources chrono_ref example_text (example_env 1200) ids 2 2500000 None example_after_pass =
     (Inr (EnqueuedPass []), example_after_pass)"
proof -
  have "due_sources example_text (example_env 1200) 2 example_after_pass = []"
    by (simp add: due_sources_def due_source_def example_after_pass_def reserve_def example_env_def)
  then show ?thesis
    by (simp add: enqueue_due_sources_def i64_try_from_def validate_reservation_def chrono_ref_def transact_def)
qed


end
