(* ===== verification/Asset_Urls.thy ===== *)
theory Asset_Urls
  imports Source "HOL-Library.Sublist"
begin

text \<open>
  The rewriting of asset URLs in sanitized HTML, \<^verbatim>\<open>src/archive/url_rewriter.rs\<close>: a scan for
  \<^verbatim>\<open>src\<close> attributes, the recognition of stable asset routes, and their conversion to absolute
  URLs under a public root. The scan works on byte offsets that it only moves to matches of ASCII
  text; here it splits the sequence of code points at the same places. What the url and uuid crates
  contribute beside \<open>libs\<close> is the record \<open>asset_libs\<close>.
\<close>

section \<open>Scanning\<close>

fun split_at_first :: "rstring \<Rightarrow> rstring \<Rightarrow> (rstring \<times> rstring) option" where
  "split_at_first p [] = (if p = [] then Some ([], []) else None)"
| "split_at_first p (c # s) =
     (if prefix p (c # s) then Some ([], drop (length p) (c # s))
      else case split_at_first p s of None \<Rightarrow> None | Some (a, b) \<Rightarrow> Some (c # a, b))"

fun rsplit_once :: "rstring \<Rightarrow> rstring \<Rightarrow> (rstring \<times> rstring) option" where
  "rsplit_once p [] = (if p = [] then Some ([], []) else None)"
| "rsplit_once p (c # s) =
     (case rsplit_once p s of
        Some (a, b) \<Rightarrow> Some (c # a, b)
      | None \<Rightarrow> if prefix p (c # s) then Some ([], drop (length p) (c # s)) else None)"

definition src_open :: rstring where
  "src_open = lit '' src='' @ [34]"

lemma split_at_first_Some:
  assumes "split_at_first p s = Some (a, b)"
  shows "s = a @ p @ b"
  using assms
proof (induction s arbitrary: a)
  case (Cons c s)
  then show ?case by (auto simp: prefix_def split: if_splits option.splits)
qed (auto split: if_splits)

lemma split_at_first_shorter:
  assumes "split_at_first src_open html = Some (a, rest)" "split_at_first [34] rest = Some (v, rest')"
  shows "length rest' < length html"
  using split_at_first_Some [OF assms(1)] split_at_first_Some [OF assms(2)] by simp

function has_src_matching :: "(rstring \<Rightarrow> bool) \<Rightarrow> rstring \<Rightarrow> bool" where
  "has_src_matching predicate html =
     (case split_at_first src_open html of
        None \<Rightarrow> False
      | Some (a, rest) \<Rightarrow>
          (case split_at_first [34] rest of
             None \<Rightarrow> False
           | Some (value, rest') \<Rightarrow> if predicate value then True else has_src_matching predicate rest'))"
  by pat_completeness auto
termination
  by (relation "measure (\<lambda>(p, html). length html)") (auto dest: split_at_first_shorter)

fun escape_char :: "nat \<Rightarrow> rstring" where
  "escape_char c =
     (if c = 38 then lit ''&amp;'' else if c = 60 then lit ''&lt;'' else if c = 62 then lit ''&gt;''
      else if c = 34 then lit ''&quot;'' else if c = 39 then lit ''&#39;'' else [c])"

definition escape_attribute :: "rstring \<Rightarrow> rstring" where
  "escape_attribute value = concat (map escape_char value)"

function rewrite_src_attributes :: "(rstring \<Rightarrow> rstring option) \<Rightarrow> rstring \<Rightarrow> rstring" where
  "rewrite_src_attributes replacement html =
     (case split_at_first src_open html of
        None \<Rightarrow> html
      | Some (a, rest) \<Rightarrow>
          (case split_at_first [34] rest of
             None \<Rightarrow> html
           | Some (value, rest') \<Rightarrow>
               a @ src_open @
               (case replacement value of Some target \<Rightarrow> escape_attribute target | None \<Rightarrow> value) @ [34] @
               rewrite_src_attributes replacement rest'))"
  by pat_completeness auto
termination
  by (relation "measure (\<lambda>(p, html). length html)") (auto dest: split_at_first_shorter)

declare has_src_matching.simps [simp del] rewrite_src_attributes.simps [simp del]


section \<open>Asset routes\<close>

record asset_libs =
  url_path :: "url \<Rightarrow> rstring"
  url_set_path :: "url \<Rightarrow> rstring \<Rightarrow> url"
  url_join :: "url \<Rightarrow> rstring \<Rightarrow> url option"
  uuid_parse :: "rstring \<Rightarrow> uuid option"

definition strip_prefix :: "rstring \<Rightarrow> rstring \<Rightarrow> rstring option" where
  "strip_prefix p s = (if prefix p s then Some (drop (length p) s) else None)"

definition trim_end_slashes :: "rstring \<Rightarrow> rstring" where
  "trim_end_slashes s = rev (dropWhile (\<lambda>c. c = 47) (rev s))"

definition rewrite_sanitized_html :: "libs \<Rightarrow> (url \<times> rstring) list \<Rightarrow> rstring \<Rightarrow> rstring" where
  "rewrite_sanitized_html L replacements html =
     (if replacements = [] \<or> html = [] then html
      else rewrite_src_attributes
        (map_of (rev (map (\<lambda>(source, target). (escape_attribute (url_text L source), target)) replacements))) html)"

definition stable_asset_id_segment :: "asset_libs \<Rightarrow> rstring \<Rightarrow> rstring option" where
  "stable_asset_id_segment A asset_id =
     (if asset_id = [] \<or> 47 \<in> set asset_id \<or> 63 \<in> set asset_id \<or> 35 \<in> set asset_id then None
      else case uuid_parse A asset_id of None \<Rightarrow> None | Some _ \<Rightarrow> Some asset_id)"

definition stable_asset_id :: "asset_libs \<Rightarrow> rstring \<Rightarrow> rstring option" where
  "stable_asset_id A source =
     (case strip_prefix (lit ''/assets/'') source of
        None \<Rightarrow> None
      | Some asset_id \<Rightarrow> stable_asset_id_segment A asset_id)"

definition stable_absolute_asset_url :: "libs \<Rightarrow> asset_libs \<Rightarrow> rstring \<Rightarrow> url option" where
  "stable_absolute_asset_url L A source =
     (case url_parse L source of
        None \<Rightarrow> None
      | Some url \<Rightarrow>
          if u_scheme url \<notin> {lit ''http'', lit ''https''} \<or> u_host url = None then None
          else case rsplit_once (lit ''/assets/'') (url_path A url) of
            None \<Rightarrow> None
          | Some (_, asset_id) \<Rightarrow>
              (case stable_asset_id_segment A asset_id of None \<Rightarrow> None | Some _ \<Rightarrow> Some url))"

definition asset_url_base :: "asset_libs \<Rightarrow> url \<Rightarrow> url option" where
  "asset_url_base A server_root_url =
     url_join A (url_set_path A server_root_url (trim_end_slashes (url_path A server_root_url) @ [47]))
       (lit ''assets/'')"

definition asset_url_matches_base :: "libs \<Rightarrow> asset_libs \<Rightarrow> url \<Rightarrow> url \<Rightarrow> bool" where
  "asset_url_matches_base L A url asset_base =
     (case rsplit_once (lit ''/assets/'') (url_path A url) of
        None \<Rightarrow> False
      | Some (_, asset_id) \<Rightarrow>
          if stable_asset_id_segment A asset_id = None then False
          else case url_join A asset_base asset_id of
            None \<Rightarrow> False
          | Some expected \<Rightarrow> url_text L expected = url_text L url)"

definition contains_relative_asset_urls :: "asset_libs \<Rightarrow> rstring \<Rightarrow> bool" where
  "contains_relative_asset_urls A html = has_src_matching (\<lambda>source. stable_asset_id A source \<noteq> None) html"

definition contains_absolute_asset_urls :: "libs \<Rightarrow> asset_libs \<Rightarrow> url \<Rightarrow> rstring \<Rightarrow> bool" where
  "contains_absolute_asset_urls L A server_root_url html =
     (case asset_url_base A server_root_url of
        None \<Rightarrow> False
      | Some asset_base \<Rightarrow>
          has_src_matching (\<lambda>source. case stable_absolute_asset_url L A source of
              None \<Rightarrow> False | Some url \<Rightarrow> asset_url_matches_base L A url asset_base) html)"

definition contains_any_absolute_asset_urls :: "libs \<Rightarrow> asset_libs \<Rightarrow> rstring \<Rightarrow> bool" where
  "contains_any_absolute_asset_urls L A html =
     has_src_matching (\<lambda>source. stable_absolute_asset_url L A source \<noteq> None) html"

definition contains_absolute_asset_urls_outside_root :: "libs \<Rightarrow> asset_libs \<Rightarrow> url \<Rightarrow> rstring \<Rightarrow> bool" where
  "contains_absolute_asset_urls_outside_root L A server_root_url html =
     (case asset_url_base A server_root_url of
        None \<Rightarrow> False
      | Some asset_base \<Rightarrow>
          has_src_matching (\<lambda>source. case stable_absolute_asset_url L A source of
              None \<Rightarrow> False | Some url \<Rightarrow> \<not> asset_url_matches_base L A url asset_base) html)"

definition absolutize_asset_urls :: "libs \<Rightarrow> asset_libs \<Rightarrow> url \<Rightarrow> rstring \<Rightarrow> rstring" where
  "absolutize_asset_urls L A server_root_url html =
     (case asset_url_base A server_root_url of
        None \<Rightarrow> html
      | Some asset_base \<Rightarrow>
          rewrite_src_attributes (\<lambda>source.
            case stable_asset_id A source of
              None \<Rightarrow> None
            | Some asset_id \<Rightarrow> map_option (url_text L) (url_join A asset_base asset_id)) html)"


section \<open>What the scan sees\<close>

function src_values :: "rstring \<Rightarrow> rstring list" where
  "src_values html =
     (case split_at_first src_open html of
        None \<Rightarrow> []
      | Some (a, rest) \<Rightarrow>
          (case split_at_first [34] rest of
             None \<Rightarrow> []
           | Some (value, rest') \<Rightarrow> value # src_values rest'))"
  by pat_completeness auto
termination
  by (relation "measure length") (auto dest: split_at_first_shorter)

declare src_values.simps [simp del]

text \<open>The three ways a scan can go, as an induction rule.\<close>

lemma scan_induct [case_names none unclosed found]:
  assumes "\<And>html. split_at_first src_open html = None \<Longrightarrow> P html"
    and "\<And>html a rest. split_at_first src_open html = Some (a, rest) \<Longrightarrow> split_at_first [34] rest = None \<Longrightarrow> P html"
    and "\<And>html a rest v rest'. split_at_first src_open html = Some (a, rest) \<Longrightarrow>
       split_at_first [34] rest = Some (v, rest') \<Longrightarrow> P rest' \<Longrightarrow> P html"
  shows "P html"
proof (induction html rule: src_values.induct)
  case (1 html)
  show ?case
  proof (cases "split_at_first src_open html")
    case None
    then show ?thesis by (rule assms(1))
  next
    case (Some ar)
    then obtain a rest where ar: "split_at_first src_open html = Some (a, rest)" by (cases ar) auto
    show ?thesis
    proof (cases "split_at_first [34] rest")
      case None
      with ar show ?thesis by (rule assms(2))
    next
      case (Some vr)
      then obtain v rest' where vr: "split_at_first [34] rest = Some (v, rest')" by (cases vr) auto
      from 1 [OF ar _ vr] show ?thesis by (intro assms(3) [OF ar vr]) simp
    qed
  qed
qed

lemma has_src_matching_values: "has_src_matching P html \<longleftrightarrow> (\<exists>v \<in> set (src_values html). P v)"
proof (induction html rule: scan_induct)
  case (found html a rest v rest')
  then show ?case by (simp add: has_src_matching.simps [of P html] src_values.simps [of html])
next
  case (none html)
  then show ?case by (simp add: has_src_matching.simps [of P html] src_values.simps [of html])
next
  case (unclosed html a rest)
  then show ?case by (simp add: has_src_matching.simps [of P html] src_values.simps [of html])
qed

lemma prefix_long: "length p \<le> length xs \<Longrightarrow> prefix p (xs @ ys) \<longleftrightarrow> prefix p xs"
  using prefix_length_prefix [of p "xs @ ys" xs] by (auto simp: prefix_def)

lemma split_at_first_again: "split_at_first p s = Some (a, b) \<Longrightarrow> split_at_first p (a @ p @ b') = Some (a, b')"
proof (induction s arbitrary: a)
  case Nil
  then show ?case by (cases b') (auto split: if_splits)
next
  case (Cons c s)
  show ?case
  proof (cases "prefix p (c # s)")
    case True
    with Cons.prems show ?thesis by (cases p; cases b') auto
  next
    case False
    with Cons.prems obtain a' where a': "split_at_first p s = Some (a', b)" "a = c # a'"
      by (auto split: option.splits)
    from split_at_first_Some [OF a'(1)] False have "\<not> prefix p ((c # a' @ p) @ b)" by simp
    then have "\<not> prefix p ((c # a' @ p) @ b')" using prefix_long [of p "c # a' @ p"] by simp
    with Cons.IH [OF a'(1)] a'(2) show ?thesis by simp
  qed
qed

lemma split_quote: "34 \<notin> set v \<Longrightarrow> split_at_first [34] (v @ 34 # rest) = Some (v, rest)"
  by (induction v) auto

lemma split_quote_free: "split_at_first [34] s = Some (v, rest) \<Longrightarrow> 34 \<notin> set v"
  by (induction s arbitrary: v) (auto split: if_splits option.splits)

lemma escape_no_quote: "34 \<notin> set (escape_attribute t)"
  by (induction t) (auto simp: escape_attribute_def lit_def)

definition rewritten :: "(rstring \<Rightarrow> rstring option) \<Rightarrow> rstring \<Rightarrow> rstring" where
  "rewritten R v = (case R v of Some t \<Rightarrow> escape_attribute t | None \<Rightarrow> v)"

text \<open>Rewriting replaces exactly the values that the scan sees, and changes nothing else.\<close>

lemma src_values_rewrite: "src_values (rewrite_src_attributes R html) = map (rewritten R) (src_values html)"
proof (induction html rule: scan_induct)
  case (found html a rest v rest')
  have q: "34 \<notin> set (rewritten R v)"
    using split_quote_free [OF found(2)] escape_no_quote by (simp add: rewritten_def split: option.splits)
  have "rewrite_src_attributes R html = a @ src_open @ rewritten R v @ 34 # rewrite_src_attributes R rest'"
    using found(1,2) by (simp add: rewrite_src_attributes.simps [of R html] rewritten_def)
  then have "src_values (rewrite_src_attributes R html) = rewritten R v # src_values (rewrite_src_attributes R rest')"
    by (simp add: src_values.simps [of "a @ src_open @ _"] split_at_first_again [OF found(1)] split_quote [OF q])
  with found show ?case by (simp add: src_values.simps [of html])
next
  case (none html)
  then show ?case by (simp add: rewrite_src_attributes.simps [of R html] src_values.simps [of html])
next
  case (unclosed html a rest)
  then show ?case by (simp add: rewrite_src_attributes.simps [of R html] src_values.simps [of html])
qed

lemma rewrite_nothing:
  "\<forall>v \<in> set (src_values html). rewritten R v = v \<Longrightarrow> rewrite_src_attributes R html = html"
proof (induction html rule: scan_induct)
  case (found html a rest v rest')
  from found(1,2) have "src_values html = v # src_values rest'" by (simp add: src_values.simps [of html])
  with found have same: "rewrite_src_attributes R rest' = rest'" "rewritten R v = v" by auto
  have "rewrite_src_attributes R html = a @ src_open @ rewritten R v @ 34 # rewrite_src_attributes R rest'"
    using found(1,2) by (simp add: rewrite_src_attributes.simps [of R html] rewritten_def)
  also have "\<dots> = html"
    unfolding same using split_at_first_Some [OF found(1)] split_at_first_Some [OF found(2)] by simp
  finally show ?case .
next
  case (none html)
  then show ?case by (simp add: rewrite_src_attributes.simps [of R html])
next
  case (unclosed html a rest)
  then show ?case by (simp add: rewrite_src_attributes.simps [of R html])
qed


section \<open>Absolute asset URLs\<close>

text \<open>
  What the code relies on: setting a path keeps scheme and host; joining \<^verbatim>\<open>assets/\<close> and then a
  segment of hexadecimal digits and hyphens appends them to the path and to the text of the URL; the
  result parses back to itself; and the text of an http or https URL begins with its scheme.
\<close>

definition plain :: "rstring \<Rightarrow> bool" where
  "plain s \<longleftrightarrow> s \<noteq> [] \<and> (\<forall>c \<in> set s. c = 45 \<or> 48 \<le> c \<and> c \<le> 57 \<or> 65 \<le> c \<and> c \<le> 70 \<or> 97 \<le> c \<and> c \<le> 102)"

definition asset_libs_ok :: "libs \<Rightarrow> asset_libs \<Rightarrow> bool" where
  "asset_libs_ok L A \<longleftrightarrow>
     (\<forall>u p. u_scheme (url_set_path A u p) = u_scheme u \<and> u_host (url_set_path A u p) = u_host u) \<and>
     (\<forall>r b seg. u_scheme r \<in> {lit ''http'', lit ''https''} \<longrightarrow>
        url_join A r (lit ''assets/'') = Some b \<longrightarrow> plain seg \<longrightarrow>
        (\<exists>u p. url_join A b seg = Some u \<and> url_text L u = url_text L b @ seg \<and>
           url_path A b = p @ lit ''/assets/'' \<and> url_path A u = url_path A b @ seg \<and>
           url_parse L (url_text L u) = Some u \<and> u_scheme u = u_scheme r \<and> u_host u = u_host r)) \<and>
     (\<forall>v u. url_parse L v = Some u \<longrightarrow> u_scheme u \<in> {lit ''http'', lit ''https''} \<longrightarrow>
        prefix (lit ''http'') (url_text L u))"

definition needs_escape :: "rstring \<Rightarrow> bool" where
  "needs_escape s \<longleftrightarrow> (\<exists>c \<in> set s. c \<in> {38, 60, 62, 34, 39})"

lemma escape_plain: "\<not> needs_escape s \<Longrightarrow> escape_attribute s = s"
  by (induction s) (auto simp: needs_escape_def escape_attribute_def)

lemma plain_chars: "plain s \<Longrightarrow> 47 \<notin> set s \<and> 63 \<notin> set s \<and> 35 \<notin> set s \<and> \<not> needs_escape s"
  by (auto simp: plain_def needs_escape_def)

lemma rsplit_none: "p \<noteq> [] \<Longrightarrow> hd p \<notin> set s \<Longrightarrow> rsplit_once p s = None"
  by (induction s) (auto simp: prefix_def Cons_eq_append_conv)

lemma rsplit_last:
  assumes "47 \<notin> set seg"
  shows "rsplit_once (lit ''/assets/'') (p @ lit ''/assets/'' @ seg) = Some (p, seg)"
proof (induction p)
  case Nil
  have "rsplit_once (lit ''/assets/'') seg = None" using assms by (intro rsplit_none) (simp_all add: lit_def)
  moreover have "\<not> prefix (lit ''assets/'') seg"
    using assms set_mono_prefix [of "lit ''assets/''" seg] by (auto simp: lit_def)
  ultimately show ?case by (simp add: lit_def)
next
  case (Cons c p)
  then show ?case by simp
qed

text \<open>One value: what conversion makes of a relative asset route.\<close>

lemma absolute_value:
  assumes "asset_libs_ok L A" "asset_url_base A root = Some b" "stable_asset_id A v = Some seg" "plain seg"
    and "u_scheme root \<in> {lit ''http'', lit ''https''}" "u_host root \<noteq> None" "\<not> needs_escape (url_text L b)"
  shows "\<exists>u. url_join A b seg = Some u \<and> escape_attribute (url_text L u) = url_text L u \<and>
     stable_absolute_asset_url L A (url_text L u) = Some u \<and> asset_url_matches_base L A u b \<and>
     stable_asset_id A (url_text L u) = None \<and> url_text L u = url_text L b @ seg"
proof -
  define r where "r = url_set_path A root (trim_end_slashes (url_path A root) @ [47])"
  from assms(1) have keep: "u_scheme r = u_scheme root" "u_host r = u_host root"
    unfolding asset_libs_ok_def r_def by simp_all
  from assms(1) have join: "\<forall>r b seg. u_scheme r \<in> {lit ''http'', lit ''https''} \<longrightarrow>
      url_join A r (lit ''assets/'') = Some b \<longrightarrow> plain seg \<longrightarrow>
      (\<exists>u p. url_join A b seg = Some u \<and> url_text L u = url_text L b @ seg \<and>
         url_path A b = p @ lit ''/assets/'' \<and> url_path A u = url_path A b @ seg \<and>
         url_parse L (url_text L u) = Some u \<and> u_scheme u = u_scheme r \<and> u_host u = u_host r)"
    unfolding asset_libs_ok_def by (elim conjE)
  from assms(2) have b: "url_join A r (lit ''assets/'') = Some b" unfolding asset_url_base_def r_def .
  obtain u p where u': "url_join A b seg = Some u" "url_text L u = url_text L b @ seg"
      "url_path A b = p @ lit ''/assets/''" "url_path A u = url_path A b @ seg" "url_parse L (url_text L u) = Some u"
      "u_scheme u = u_scheme r" "u_host u = u_host r"
    using join [rule_format, OF _ b assms(4)] assms(5) unfolding keep by blast
  then have u: "url_join A b seg = Some u" "url_text L u = url_text L b @ seg"
      "url_path A u = p @ lit ''/assets/'' @ seg" "url_parse L (url_text L u) = Some u"
      "u_scheme u = u_scheme root" "u_host u = u_host root"
    unfolding keep by simp_all
  have seg: "stable_asset_id_segment A seg = Some seg" "47 \<notin> set seg"
    using assms(3) by (auto simp: stable_asset_id_def stable_asset_id_segment_def split: option.splits if_splits)
  have split: "rsplit_once (lit ''/assets/'') (url_path A u) = Some (p, seg)"
    unfolding u(3) by (rule rsplit_last [OF seg(2)])
  have "prefix (lit ''http'') (url_text L u)"
    using assms(1,5) u(4,5) unfolding asset_libs_ok_def by metis
  then have "stable_asset_id A (url_text L u) = None"
    by (auto simp: stable_asset_id_def strip_prefix_def prefix_def lit_def)
  moreover have "escape_attribute (url_text L u) = url_text L u"
    using assms(7) plain_chars [OF assms(4)] by (intro escape_plain) (auto simp: u(2) needs_escape_def)
  ultimately show ?thesis
    using u split seg(1) assms(5,6)
    by (auto simp: stable_absolute_asset_url_def asset_url_matches_base_def)
qed


text \<open>What conversion makes of every value: relative asset routes become the base with the id.\<close>

definition absolute_form :: "libs \<Rightarrow> asset_libs \<Rightarrow> url \<Rightarrow> rstring \<Rightarrow> rstring" where
  "absolute_form L A base v =
     (case stable_asset_id A v of None \<Rightarrow> v | Some asset_id \<Rightarrow> url_text L base @ asset_id)"

definition public_root :: "libs \<Rightarrow> asset_libs \<Rightarrow> url \<Rightarrow> url \<Rightarrow> bool" where
  "public_root L A root base \<longleftrightarrow>
     asset_url_base A root = Some base \<and> u_scheme root \<in> {lit ''http'', lit ''https''} \<and>
     u_host root \<noteq> None \<and> \<not> needs_escape (url_text L base)"

lemma absolute_form_facts:
  assumes "asset_libs_ok L A" "public_root L A root base"
    and "\<forall>asset_id. stable_asset_id A v = Some asset_id \<longrightarrow> plain asset_id"
  shows "rewritten (\<lambda>source. case stable_asset_id A source of None \<Rightarrow> None
       | Some asset_id \<Rightarrow> map_option (url_text L) (url_join A base asset_id)) v = absolute_form L A base v"
    and "stable_asset_id A (absolute_form L A base v) = None"
    and "(case stable_absolute_asset_url L A (absolute_form L A base v) of None \<Rightarrow> False
       | Some url \<Rightarrow> \<not> asset_url_matches_base L A url base) \<Longrightarrow> absolute_form L A base v = v"
proof -
  consider (rel) seg u where "stable_asset_id A v = Some seg" "url_join A base seg = Some u"
      "url_text L u = url_text L base @ seg"
      "escape_attribute (url_text L u) = url_text L u" "stable_absolute_asset_url L A (url_text L u) = Some u"
      "asset_url_matches_base L A u base" "stable_asset_id A (url_text L u) = None"
    | (other) "stable_asset_id A v = None"
  proof (cases "stable_asset_id A v")
    case (Some seg)
    with absolute_value [OF assms(1), of root base v seg] assms(2,3) that(1) show ?thesis
      unfolding public_root_def by auto
  qed (rule that(2))
  note cases = this
  show "rewritten (\<lambda>source. case stable_asset_id A source of None \<Rightarrow> None
       | Some asset_id \<Rightarrow> map_option (url_text L) (url_join A base asset_id)) v = absolute_form L A base v"
    using cases by cases (simp_all add: rewritten_def absolute_form_def)
  show "stable_asset_id A (absolute_form L A base v) = None"
    using cases by cases (simp_all add: absolute_form_def)
  show "(case stable_absolute_asset_url L A (absolute_form L A base v) of None \<Rightarrow> False
       | Some url \<Rightarrow> \<not> asset_url_matches_base L A url base) \<Longrightarrow> absolute_form L A base v = v"
    using cases by cases (simp_all add: absolute_form_def)
qed


text \<open>
  Converting the asset routes of a document to absolute URLs does exactly that, and its result
  passes the checks of the feed service. Let the public root be an http or https URL whose asset
  base needs no escaping in an attribute, and let the ids in the document be plain hexadecimal
  UUIDs. In the converted document every scanned \<^verbatim>\<open>src\<close> value is the original one, or the base
  followed by the id where it was a stable relative route; no relative route is left; it has
  routes outside the root only where the original had them; and converting again changes nothing.
\<close>

theorem absolutize_makes_compatible:
  assumes "asset_libs_ok L A" "public_root L A root base"
    and "\<forall>v \<in> set (src_values html). \<forall>asset_id. stable_asset_id A v = Some asset_id \<longrightarrow> plain asset_id"
  shows "src_values (absolutize_asset_urls L A root html) = map (absolute_form L A base) (src_values html) \<and>
     \<not> contains_relative_asset_urls A (absolutize_asset_urls L A root html) \<and>
     (contains_absolute_asset_urls_outside_root L A root (absolutize_asset_urls L A root html) \<longrightarrow>
       contains_absolute_asset_urls_outside_root L A root html) \<and>
     absolutize_asset_urls L A root (absolutize_asset_urls L A root html) = absolutize_asset_urls L A root html"
proof -
  from assms(2) have base: "asset_url_base A root = Some base" by (simp add: public_root_def)
  define R where "R = (\<lambda>source. case stable_asset_id A source of None \<Rightarrow> None
       | Some asset_id \<Rightarrow> map_option (url_text L) (url_join A base asset_id))"
  have abs: "absolutize_asset_urls L A root h = rewrite_src_attributes R h" for h
    by (simp add: absolutize_asset_urls_def base R_def)
  note facts = absolute_form_facts [OF assms(1,2) bspec [OF assms(3)], folded R_def]
  have vals: "src_values (absolutize_asset_urls L A root html) = map (absolute_form L A base) (src_values html)"
    unfolding abs src_values_rewrite using facts(1) by (intro map_cong) auto
  moreover have "\<not> contains_relative_asset_urls A (absolutize_asset_urls L A root html)"
    unfolding contains_relative_asset_urls_def has_src_matching_values vals using facts(2) by auto
  moreover have "contains_absolute_asset_urls_outside_root L A root (absolutize_asset_urls L A root html) \<longrightarrow>
       contains_absolute_asset_urls_outside_root L A root html"
  proof
    assume "contains_absolute_asset_urls_outside_root L A root (absolutize_asset_urls L A root html)"
    then obtain v where v: "v \<in> set (src_values html)" "case stable_absolute_asset_url L A (absolute_form L A base v) of
        None \<Rightarrow> False | Some url \<Rightarrow> \<not> asset_url_matches_base L A url base"
      unfolding contains_absolute_asset_urls_outside_root_def base option.case has_src_matching_values vals by auto
    with facts(3) [of v] have "absolute_form L A base v = v" by blast
    with v show "contains_absolute_asset_urls_outside_root L A root html"
      unfolding contains_absolute_asset_urls_outside_root_def base option.case has_src_matching_values by auto
  qed
  moreover have "\<forall>v \<in> set (src_values (rewrite_src_attributes R html)). rewritten R v = v"
    using facts(2) vals unfolding abs by (auto simp: rewritten_def R_def)
  then have "absolutize_asset_urls L A root (absolutize_asset_urls L A root html) = absolutize_asset_urls L A root html"
    unfolding abs by (rule rewrite_nothing)
  ultimately show ?thesis by blast
qed

definition example_asset_libs :: asset_libs where
  "example_asset_libs =
     \<lparr>url_path = (\<lambda>u. 47 # u_rest u), url_set_path = (\<lambda>u p. u\<lparr>u_rest := drop 1 p\<rparr>),
      url_join = (\<lambda>u s.
        if u = example_url [] \<and> s = lit ''assets/'' then Some (example_url s)
        else if u = example_url (lit ''assets/'') \<and> plain s then Some (example_url (lit ''assets/'' @ s)) else None),
      uuid_parse = (\<lambda>s. if plain s then Some 1 else None)\<rparr>"

definition example_html :: rstring where
  "example_html = lit ''<p><img src='' @ [34] @ lit ''/assets/ab-1'' @ [34] @ lit ''/></p>''"

lemma trim_example: "plain s \<Longrightarrow> trim (example_prefix @ t @ s) = example_prefix @ t @ s"
proof -
  assume p: "plain s"
  then obtain q c where s: "s = q @ [c]" by (cases s rule: rev_cases) (auto simp: plain_def)
  with p have "\<not> is_whitespace c" by (auto simp: plain_def is_whitespace_def)
  moreover have "\<not> is_whitespace 104" by (simp add: is_whitespace_def)
  ultimately show ?thesis by (simp add: trim_def trim_start_def s example_prefix_def lit_def)
qed

lemma example_asset_libs_ok: "asset_libs_ok example_libs example_asset_libs"
  unfolding asset_libs_ok_def
proof (intro conjI allI impI)
  fix r b seg
  assume j: "url_join example_asset_libs r (lit ''assets/'') = Some b" and seg: "plain seg"
  have "\<not> plain (lit ''assets/'')" by (simp add: plain_def lit_def)
  with j have rb: "r = example_url []" "b = example_url (lit ''assets/'')"
    by (auto simp: example_asset_libs_def split: if_splits)
  have "length example_prefix = 25" by (simp add: example_prefix_def lit_def)
  with trim_example [OF seg, of "lit ''assets/''"] seg rb
  have "url_join example_asset_libs b seg = Some (example_url (lit ''assets/'' @ seg)) \<and>
      url_text example_libs (example_url (lit ''assets/'' @ seg)) = url_text example_libs b @ seg \<and>
      url_path example_asset_libs b = [] @ lit ''/assets/'' \<and>
      url_path example_asset_libs (example_url (lit ''assets/'' @ seg)) = url_path example_asset_libs b @ seg \<and>
      url_parse example_libs (url_text example_libs (example_url (lit ''assets/'' @ seg)))
        = Some (example_url (lit ''assets/'' @ seg)) \<and>
      u_scheme (example_url (lit ''assets/'' @ seg)) = u_scheme r \<and> u_host (example_url (lit ''assets/'' @ seg)) = u_host r"
    by (auto simp: example_asset_libs_def example_libs_def example_url_def lit_def)
  then show "\<exists>u p. url_join example_asset_libs b seg = Some u \<and> url_text example_libs u = url_text example_libs b @ seg \<and>
      url_path example_asset_libs b = p @ lit ''/assets/'' \<and> url_path example_asset_libs u = url_path example_asset_libs b @ seg \<and>
      url_parse example_libs (url_text example_libs u) = Some u \<and> u_scheme u = u_scheme r \<and> u_host u = u_host r" by blast
qed (auto simp: example_asset_libs_def example_libs_def example_prefix_def prefix_def lit_def)

theorem absolutize_makes_compatible_witness:
  "src_values example_html = [lit ''/assets/ab-1''] \<and>
   contains_relative_asset_urls example_asset_libs example_html \<and>
   \<not> contains_relative_asset_urls example_asset_libs
       (absolutize_asset_urls example_libs example_asset_libs (example_url []) example_html) \<and>
   src_values (absolutize_asset_urls example_libs example_asset_libs (example_url []) example_html)
     = [lit ''https://mp.weixin.qq.com/assets/ab-1'']"
proof -
  have vals: "src_values example_html = [lit ''/assets/ab-1'']" by code_simp
  have id: "stable_asset_id example_asset_libs (lit ''/assets/ab-1'') = Some (lit ''ab-1'')" "plain (lit ''ab-1'')"
    by code_simp+
  have root: "public_root example_libs example_asset_libs (example_url []) (example_url (lit ''assets/''))"
    by (simp add: public_root_def asset_url_base_def trim_end_slashes_def example_asset_libs_def example_libs_def
        example_url_def needs_escape_def example_prefix_def lit_def)
  have "\<forall>v \<in> set (src_values example_html). \<forall>asset_id.
      stable_asset_id example_asset_libs v = Some asset_id \<longrightarrow> plain asset_id"
    using id by (simp add: vals)
  note facts = absolutize_makes_compatible [OF example_asset_libs_ok root this]
  have "absolute_form example_libs example_asset_libs (example_url (lit ''assets/'')) (lit ''/assets/ab-1'')
      = lit ''https://mp.weixin.qq.com/assets/ab-1''"
    unfolding absolute_form_def id option.case
    by (simp add: example_libs_def example_url_def example_prefix_def lit_def)
  with facts show ?thesis
    by (simp add: vals contains_relative_asset_urls_def has_src_matching_values id)
qed

end
