(* ===== verification/Article.thy ===== *)
theory Article
  imports Source
begin

text \<open>
  Articles: the normalized observation and the stored article of \<^verbatim>\<open>src/domain/article.rs\<close>, and the
  repository of \<^verbatim>\<open>src/persistence/repositories/article_repository.rs\<close> whose upsert merges an
  observation into the stored article.

  An upsert first locks the row; when there is none it inserts, and when the insert meets a row
  that another transaction committed in between, it starts again. What the other transactions
  commit between the two statements is the argument \<open>others\<close>, one effect per round.
\<close>

section \<open>The domain type\<close>

datatype article_error =
    ArticleInvalidSourceId | EmptyReviewId | EmptyTitle | InvalidCoverUrl | InvalidOriginalUrl
  | InvalidObservationVersion

record new_article =
  na_source_id :: uuid
  na_review_id :: rstring
  na_title :: rstring
  na_author :: "rstring option"
  na_summary :: "rstring option"
  na_cover_url :: "rstring option"
  na_original_url :: "rstring option"
  na_published_at :: datetime
  na_content_html :: rstring
  na_content_hash :: "rstring option"
  na_observation_version :: u64
  na_fetched_at :: datetime

record article = new_article +
  na_created_at :: datetime
  na_updated_at :: datetime

definition normalize_optional :: "rstring option \<Rightarrow> rstring option" where
  "normalize_optional value =
     (case value of None \<Rightarrow> None | Some v \<Rightarrow> if trim v = [] then None else Some (trim v))"

definition invalid_cover :: "libs \<Rightarrow> rstring \<Rightarrow> bool" where
  "invalid_cover L value =
     (case url_parse L value of
        None \<Rightarrow> True
      | Some u \<Rightarrow>
          \<not> (u_scheme u = lit ''http'' \<or> u_scheme u = lit ''https'') \<or> u_host u = None \<or>
          has_provider_signature u)"

definition normalize :: "libs \<Rightarrow> new_article \<Rightarrow> article_error + new_article" where
  "normalize L a =
     (if is_nil (na_source_id a) then Inl ArticleInvalidSourceId
      else let review_id = trim (na_review_id a)
      in if review_id = [] then Inl EmptyReviewId
      else let title = trim (na_title a)
      in if title = [] then Inl EmptyTitle
      else if na_observation_version a = 0 then Inl InvalidObservationVersion
      else let cover_url = normalize_optional (na_cover_url a)
      in if (case cover_url of None \<Rightarrow> False | Some value \<Rightarrow> invalid_cover L value)
      then Inl InvalidCoverUrl
      else Inr (a\<lparr>na_review_id := review_id, na_title := title,
                  na_author := normalize_optional (na_author a),
                  na_summary := normalize_optional (na_summary a), na_cover_url := cover_url,
                  na_content_hash := normalize_optional (na_content_hash a)\<rparr>))"

definition article_from_parts :: "libs \<Rightarrow> article \<Rightarrow> article_error + article" where
  "article_from_parts L parts =
     bindE (normalize L (new_article.truncate parts)) (\<lambda>n.
       Inr (new_article.extend n
              (article.fields (na_created_at parts) (na_updated_at parts))))"

definition or_else :: "'a option \<Rightarrow> 'a option \<Rightarrow> 'a option" where
  "or_else x y = (case x of None \<Rightarrow> y | Some _ \<Rightarrow> x)"

definition merge_observation :: "article \<Rightarrow> new_article \<Rightarrow> new_article" where
  "merge_observation current incoming =
     (let content_html = (if na_content_html incoming = [] then na_content_html current
                          else na_content_html incoming);
          content_hash = or_else (na_content_hash incoming)
            (if content_html = na_content_html current then na_content_hash current else None)
      in \<lparr>na_source_id = na_source_id current, na_review_id = na_review_id current,
          na_title = na_title incoming, na_author = or_else (na_author incoming) (na_author current),
          na_summary = or_else (na_summary incoming) (na_summary current),
          na_cover_url = or_else (na_cover_url incoming) (na_cover_url current),
          na_original_url = or_else (na_original_url incoming) (na_original_url current),
          na_published_at = na_published_at incoming, na_content_html = content_html,
          na_content_hash = content_hash, na_observation_version = na_observation_version incoming,
          na_fetched_at = na_fetched_at incoming\<rparr>)"

definition feed_visible_change :: "article \<Rightarrow> new_article \<Rightarrow> bool" where
  "feed_visible_change current incoming \<longleftrightarrow>
     na_title current \<noteq> na_title incoming \<or> na_author current \<noteq> na_author incoming \<or>
     na_summary current \<noteq> na_summary incoming \<or> na_cover_url current \<noteq> na_cover_url incoming \<or>
     na_original_url current \<noteq> na_original_url incoming \<or>
     na_published_at current \<noteq> na_published_at incoming \<or>
     na_content_html current \<noteq> na_content_html incoming \<or>
     na_content_hash current \<noteq> na_content_hash incoming"

record article_upsert_result =
  up_article :: article
  up_feed_visible_change :: bool
  up_created :: bool


section \<open>The repository\<close>

datatype article_repository_error =
    ArticleDomain article_error
  | ArticleSourceNotFound uuid
  | InvalidLimit
  | ArticleStorage string

type_synonym 'a article_result = "(article_repository_error + 'a) \<times> db"

definition observation_version_from_i64 :: "int \<Rightarrow> article_repository_error + u64" where
  "observation_version_from_i64 value =
     (case u64_try_from value of
        None \<Rightarrow> Inl (ArticleDomain InvalidObservationVersion)
      | Some v \<Rightarrow> if v > 0 then Inr v else Inl (ArticleDomain InvalidObservationVersion))"

definition observation_version_as_i64 :: "u64 \<Rightarrow> article_repository_error + int" where
  "observation_version_as_i64 v =
     ok_or (ArticleDomain InvalidObservationVersion) (i64_try_from (unat v))"

definition decode_article :: "libs \<Rightarrow> article_row \<Rightarrow> article_repository_error + article" where
  "decode_article L r =
     bindE (case ar_original_url r of
              None \<Rightarrow> Inr None
            | Some v \<Rightarrow>
                (case article_url_parse L v of
                   Inl _ \<Rightarrow> Inl (ArticleDomain InvalidOriginalUrl)
                 | Inr u \<Rightarrow> Inr (Some u))) (\<lambda>original_url.
     bindE (observation_version_from_i64 (ar_observation_version r)) (\<lambda>version.
       map_err ArticleDomain (article_from_parts L
         \<lparr>na_source_id = ar_source_id r, na_review_id = ar_review_id r, na_title = ar_title r,
          na_author = ar_author r, na_summary = ar_summary r, na_cover_url = ar_cover_url r,
          na_original_url = original_url, na_published_at = ar_published_at r,
          na_content_html = ar_content_html r, na_content_hash = ar_content_hash r,
          na_observation_version = version, na_fetched_at = ar_fetched_at r,
          na_created_at = ar_created_at r, na_updated_at = ar_updated_at r\<rparr>)))"

definition validate_article_source :: "uuid \<Rightarrow> article_repository_error + unit" where
  "validate_article_source source_id =
     (if is_nil source_id then Inl (ArticleDomain ArticleInvalidSourceId) else Inr ())"

definition validate_key :: "uuid \<Rightarrow> rstring \<Rightarrow> article_repository_error + rstring" where
  "validate_key source_id review_id =
     bindE (validate_article_source source_id) (\<lambda>_.
       if trim review_id = [] then Inl (ArticleDomain EmptyReviewId) else Inr (trim review_id))"

definition article_key :: "article_row \<Rightarrow> uuid \<times> rstring" where
  "article_key r = (ar_source_id r, ar_review_id r)"

definition find_article_row :: "uuid \<Rightarrow> rstring \<Rightarrow> db \<Rightarrow> article_row option" where
  "find_article_row source_id review_id d =
     find (\<lambda>r. article_key r = (source_id, review_id)) (d_articles d)"

text \<open>\<^verbatim>\<open>find\<close> and \<^verbatim>\<open>find_for_update\<close>: the same query, outside and inside a transaction.\<close>

definition article_find :: "libs \<Rightarrow> uuid \<Rightarrow> rstring \<Rightarrow> db \<Rightarrow> article_repository_error + article option" where
  "article_find L source_id review_id d =
     bindE (validate_key source_id review_id) (\<lambda>review.
       case find_article_row source_id review d of
         None \<Rightarrow> Inr None
       | Some r \<Rightarrow> bindE (decode_article L r) (\<lambda>a. Inr (Some a)))"

fun decode_articles :: "libs \<Rightarrow> article_row list \<Rightarrow> article_repository_error + article list" where
  "decode_articles L [] = Inr []"
| "decode_articles L (r # rs) =
     bindE (decode_article L r) (\<lambda>a. bindE (decode_articles L rs) (\<lambda>as. Inr (a # as)))"

definition list_for_feed ::
    "libs \<Rightarrow> (rstring \<Rightarrow> 'k::linorder) \<Rightarrow> uuid \<Rightarrow> u32 \<Rightarrow> db \<Rightarrow> article_repository_error + article list" where
  "list_for_feed L collate source_id limit d =
     bindE (validate_article_source source_id) (\<lambda>_.
       if limit = 0 then Inl InvalidLimit
       else decode_articles L (take (unat limit)
              (sort_key (\<lambda>r. - ar_published_at r) (sort_key (collate \<circ> ar_review_id)
                 (filter (\<lambda>r. ar_source_id r = source_id) (d_articles d))))))"

definition allocate_observation_version :: "int \<Rightarrow> article_repository_error + u64" where
  "allocate_observation_version nextval = observation_version_from_i64 nextval"

definition new_article_row :: "datetime \<Rightarrow> new_article \<Rightarrow> int \<Rightarrow> article_row" where
  "new_article_row now a version =
     \<lparr>ar_source_id = na_source_id a, ar_review_id = na_review_id a, ar_title = na_title a,
      ar_author = na_author a, ar_summary = na_summary a, ar_cover_url = na_cover_url a,
      ar_original_url = na_original_url a, ar_published_at = na_published_at a,
      ar_content_html = na_content_html a, ar_content_hash = na_content_hash a,
      ar_observation_version = version, ar_fetched_at = na_fetched_at a,
      ar_created_at = now, ar_updated_at = now\<rparr>"

definition changed_cols :: "datetime \<Rightarrow> new_article \<Rightarrow> int \<Rightarrow> article_row \<Rightarrow> article_row" where
  "changed_cols now a version r =
     r\<lparr>ar_title := na_title a, ar_author := na_author a, ar_summary := na_summary a,
       ar_cover_url := na_cover_url a, ar_original_url := na_original_url a,
       ar_published_at := na_published_at a, ar_content_html := na_content_html a,
       ar_content_hash := na_content_hash a, ar_observation_version := version,
       ar_fetched_at := na_fetched_at a, ar_updated_at := now\<rparr>"

definition observation_cols :: "datetime \<Rightarrow> new_article \<Rightarrow> int \<Rightarrow> article_row \<Rightarrow> article_row" where
  "observation_cols now a version r =
     r\<lparr>ar_observation_version := version, ar_fetched_at := na_fetched_at a, ar_updated_at := now\<rparr>"

text \<open>\<^verbatim>\<open>update_changed_article\<close> and \<^verbatim>\<open>update_observation\<close>: one row by its primary key.\<close>

definition update_article_row ::
    "libs \<Rightarrow> (datetime \<Rightarrow> new_article \<Rightarrow> int \<Rightarrow> article_row \<Rightarrow> article_row) \<Rightarrow> datetime \<Rightarrow> new_article \<Rightarrow> db \<Rightarrow>
     article_row article_result" where
  "update_article_row L cols now a d =
     (case observation_version_as_i64 (na_observation_version a) of
        Inl e \<Rightarrow> (Inl e, d)
      | Inr version \<Rightarrow>
          (case find_article_row (na_source_id a) (na_review_id a) d of
             None \<Rightarrow> (Inl (ArticleStorage ''no rows returned''), d)
           | Some r \<Rightarrow>
               (Inr (cols now a version r),
                d\<lparr>d_articles := update_rows
                    (\<lambda>r. article_key r = (na_source_id a, na_review_id a)) (cols now a version)
                    (d_articles d)\<rparr>)))"

definition merge_into :: "libs \<Rightarrow> datetime \<Rightarrow> new_article \<Rightarrow> article_row \<Rightarrow> db \<Rightarrow> article_upsert_result article_result" where
  "merge_into L now a row d =
     (case decode_article L row of
        Inl e \<Rightarrow> (Inl e, d)
      | Inr current \<Rightarrow>
          if na_observation_version a < na_observation_version current
          then (Inr \<lparr>up_article = current, up_feed_visible_change = False, up_created = False\<rparr>, d)
          else
            (let merged = merge_observation current a;
                 changed = feed_visible_change current merged
             in case update_article_row L (if changed then changed_cols else observation_cols) now merged d of
                  (Inl e, d') \<Rightarrow> (Inl e, d')
                | (Inr row', d') \<Rightarrow>
                    (bindE (decode_article L row') (\<lambda>article.
                       Inr \<lparr>up_article = article, up_feed_visible_change = changed, up_created = False\<rparr>), d')))"

definition insert_article :: "libs \<Rightarrow> datetime \<Rightarrow> new_article \<Rightarrow> int \<Rightarrow> db \<Rightarrow> article_upsert_result article_result" where
  "insert_article L now a version d =
     (if \<forall>s \<in> set (d_sources d). so_id s \<noteq> na_source_id a
      then (Inl (ArticleSourceNotFound (na_source_id a)), d)
      else let row = new_article_row now a version
           in (bindE (decode_article L row) (\<lambda>article.
                 Inr \<lparr>up_article = article, up_feed_visible_change = True, up_created = True\<rparr>),
               d\<lparr>d_articles := d_articles d @ [row]\<rparr>))"

fun upsert_loop ::
    "libs \<Rightarrow> datetime \<Rightarrow> new_article \<Rightarrow> int \<Rightarrow> (db \<Rightarrow> db) list \<Rightarrow> db \<Rightarrow> article_upsert_result article_result" where
  "upsert_loop L now a version [] d =
     (case find_article_row (na_source_id a) (na_review_id a) d of
        Some row \<Rightarrow> merge_into L now a row d
      | None \<Rightarrow> insert_article L now a version d)"
| "upsert_loop L now a version (other # others) d =
     (case find_article_row (na_source_id a) (na_review_id a) d of
        Some row \<Rightarrow> merge_into L now a row d
      | None \<Rightarrow>
          (let d' = other d
           in case find_article_row (na_source_id a) (na_review_id a) d' of
                None \<Rightarrow> insert_article L now a version d'
              | Some _ \<Rightarrow> upsert_loop L now a version others d'))"

definition upsert :: "libs \<Rightarrow> datetime \<Rightarrow> (db \<Rightarrow> db) list \<Rightarrow> new_article \<Rightarrow> db \<Rightarrow> article_upsert_result article_result" where
  "upsert L now others article d =
     (case normalize L article of
        Inl e \<Rightarrow> (Inl (ArticleDomain e), d)
      | Inr a \<Rightarrow>
          (case observation_version_as_i64 (na_observation_version a) of
             Inl e \<Rightarrow> (Inl e, d)
           | Inr version \<Rightarrow> upsert_loop L now a version others d))"


section \<open>Well-formed tables\<close>

lemma normalize_optional_idem [simp]: "normalize_optional (normalize_optional v) = normalize_optional v"
  by (auto simp: normalize_optional_def split: option.splits)

lemma normalize_optional_or_else:
  "normalize_optional x = x \<Longrightarrow> normalize_optional y = y \<Longrightarrow> normalize_optional (or_else x y) = or_else x y"
  by (auto simp: or_else_def split: option.splits)

definition normal :: "libs \<Rightarrow> new_article \<Rightarrow> bool" where
  "normal L a \<longleftrightarrow>
     \<not> is_nil (na_source_id a) \<and> trim (na_review_id a) = na_review_id a \<and> na_review_id a \<noteq> [] \<and>
     trim (na_title a) = na_title a \<and> na_title a \<noteq> [] \<and> na_observation_version a \<noteq> 0 \<and>
     normalize_optional (na_author a) = na_author a \<and>
     normalize_optional (na_summary a) = na_summary a \<and>
     normalize_optional (na_cover_url a) = na_cover_url a \<and>
     normalize_optional (na_content_hash a) = na_content_hash a \<and>
     (\<forall>v. na_cover_url a = Some v \<longrightarrow> \<not> invalid_cover L v)"

lemma normalize_normal: "normal L a \<Longrightarrow> normalize L a = Inr a"
  by (cases a) (auto simp: normal_def normalize_def Let_def split: option.splits)

lemma normalize_result:
  assumes "normalize L x = Inr a"
  shows "normal L a" "na_original_url a = na_original_url x"
    "na_observation_version a = na_observation_version x"
  using assms normalize_optional_idem [of "na_cover_url x"]
  by (auto simp: normal_def normalize_def Let_def simp del: normalize_optional_idem split: if_splits option.splits)
    (auto simp: normalize_optional_idem)

definition article_ok :: "libs \<Rightarrow> article \<Rightarrow> bool" where
  "article_ok L a \<longleftrightarrow>
     normal L (new_article.truncate a) \<and>
     (\<forall>u. na_original_url a = Some u \<longrightarrow> article_url_parse L u = Inr u) \<and>
     unat (na_observation_version a) < 2 ^ 63"

definition bind_article :: "article \<Rightarrow> article_row" where
  "bind_article a =
     \<lparr>ar_source_id = na_source_id a, ar_review_id = na_review_id a, ar_title = na_title a,
      ar_author = na_author a, ar_summary = na_summary a, ar_cover_url = na_cover_url a,
      ar_original_url = na_original_url a, ar_published_at = na_published_at a,
      ar_content_html = na_content_html a, ar_content_hash = na_content_hash a,
      ar_observation_version = uint (na_observation_version a), ar_fetched_at = na_fetched_at a,
      ar_created_at = na_created_at a, ar_updated_at = na_updated_at a\<rparr>"

definition articles_ok :: "libs \<Rightarrow> db \<Rightarrow> bool" where
  "articles_ok L d \<longleftrightarrow>
     (\<forall>r \<in> set (d_articles d). \<exists>a. article_ok L a \<and> r = bind_article a) \<and>
     distinct (map article_key (d_articles d))"

definition article_at :: "libs \<Rightarrow> db \<Rightarrow> uuid \<times> rstring \<Rightarrow> article option" where
  "article_at L d k =
     (case find_article_row (fst k) (snd k) d of
        None \<Rightarrow> None
      | Some r \<Rightarrow> (case decode_article L r of Inl _ \<Rightarrow> None | Inr a \<Rightarrow> Some a))"

lemma truncate_sel [simp]:
  "na_source_id (new_article.truncate a) = na_source_id a" "na_review_id (new_article.truncate a) = na_review_id a"
  "na_title (new_article.truncate a) = na_title a" "na_author (new_article.truncate a) = na_author a"
  "na_summary (new_article.truncate a) = na_summary a" "na_cover_url (new_article.truncate a) = na_cover_url a"
  "na_original_url (new_article.truncate a) = na_original_url a"
  "na_published_at (new_article.truncate a) = na_published_at a"
  "na_content_html (new_article.truncate a) = na_content_html a"
  "na_content_hash (new_article.truncate a) = na_content_hash a"
  "na_observation_version (new_article.truncate a) = na_observation_version a"
  "na_fetched_at (new_article.truncate a) = na_fetched_at a"
  by (simp_all add: new_article.defs)

lemma version_from_uint: "v \<noteq> 0 \<Longrightarrow> observation_version_from_i64 (uint v) = Inr v"
  by (simp add: observation_version_from_i64_def word_neq_0_conv)

lemma decode_bind_article:
  assumes "article_ok L a"
  shows "decode_article L (bind_article a) = Inr a"
proof -
  have url: "(case na_original_url a of None \<Rightarrow> Inr None
      | Some v \<Rightarrow> (case article_url_parse L v of Inl _ \<Rightarrow> Inl (ArticleDomain InvalidOriginalUrl)
         | Inr u \<Rightarrow> Inr (Some u))) = Inr (na_original_url a)"
    using assms by (auto simp: article_ok_def split: option.splits)
  have version: "observation_version_from_i64 (uint (na_observation_version a)) = Inr (na_observation_version a)"
    using assms by (intro version_from_uint) (simp add: article_ok_def normal_def)
  have "article_from_parts L a = Inr a"
    using assms normalize_normal [of L "new_article.truncate a"]
    by (cases a) (simp add: article_from_parts_def article_ok_def new_article.defs article.defs)
  then show ?thesis
    by (cases a) (use url version in \<open>simp add: decode_article_def bind_article_def\<close>)
qed

lemma article_key_bind [simp]: "article_key (bind_article a) = (na_source_id a, na_review_id a)"
  by (simp add: article_key_def bind_article_def)

lemma article_row_bound:
  assumes "articles_ok L d" "find_article_row i v d = Some r"
  obtains a where "article_ok L a" "r = bind_article a" "r \<in> set (d_articles d)" "article_key r = (i, v)"
proof -
  from find_SomeD [OF assms(2) [unfolded find_article_row_def]]
  have r: "r \<in> set (d_articles d)" "article_key r = (i, v)" by auto
  with assms(1) obtain a where "article_ok L a" "r = bind_article a" unfolding articles_ok_def by blast
  with that r show thesis by blast
qed

lemma article_at_find:
  assumes "articles_ok L d"
  shows "article_at L d (i, v) = Some a \<longleftrightarrow> find_article_row i v d = Some (bind_article a) \<and> article_ok L a"
proof (cases "find_article_row i v d")
  case (Some r)
  obtain b where b: "article_ok L b" "r = bind_article b" by (rule article_row_bound [OF assms Some])
  have "a = b" if "bind_article a = bind_article b" "article_ok L a"
    using that decode_bind_article b(1) by (metis Inr_inject)
  with Some b show ?thesis by (auto simp: article_at_def decode_bind_article)
qed (simp add: article_at_def)

lemma article_at_None:
  assumes "articles_ok L d"
  shows "article_at L d (i, v) = None \<longleftrightarrow> find_article_row i v d = None"
proof (cases "find_article_row i v d")
  case (Some r)
  obtain b where "article_ok L b" "r = bind_article b" by (rule article_row_bound [OF assms Some])
  with Some show ?thesis by (simp add: article_at_def decode_bind_article)
qed (simp add: article_at_def)

lemma merge_normal:
  assumes "article_ok L cur" "normal L a"
  shows "normal L (merge_observation cur a)"
  using assms normalize_optional_or_else
  by (auto simp: normal_def article_ok_def merge_observation_def Let_def or_else_def split: option.splits)

definition only_changes :: "libs \<Rightarrow> uuid \<times> rstring \<Rightarrow> article option \<Rightarrow> db \<Rightarrow> db \<Rightarrow> bool" where
  "only_changes L k a d d' \<longleftrightarrow>
     articles_ok L d' \<and> article_at L d' k = a \<and> (\<forall>k'. k' \<noteq> k \<longrightarrow> article_at L d' k' = article_at L d k') \<and>
     d_sources d' = d_sources d"

lemma write_article:
  assumes ok: "articles_ok L d" and cur: "find_article_row i v d = Some r"
    and row: "f r = bind_article a'" and a': "article_ok L a'" "na_source_id a' = i" "na_review_id a' = v"
    and key: "\<And>r. article_key (f r) = article_key r"
  shows "only_changes L (i, v) (Some a') d
     (d\<lparr>d_articles := update_rows (\<lambda>r. article_key r = (i, v)) f (d_articles d)\<rparr>)"
proof -
  let ?d = "d\<lparr>d_articles := update_rows (\<lambda>r. article_key r = (i, v)) f (d_articles d)\<rparr>"
  obtain r_in: "r \<in> set (d_articles d)" "article_key r = (i, v)" by (rule article_row_bound [OF ok cur])
  have dist: "distinct (map article_key (d_articles d))" using ok by (simp add: articles_ok_def)
  have only: "r' = r" if "r' \<in> set (d_articles d)" "article_key r' = (i, v)" for r'
    using distinct_key_eq [OF dist that(1) r_in(1)] that(2) r_in(2) by simp
  have rows: "\<forall>r \<in> set (update_rows (\<lambda>r. article_key r = (i, v)) f (d_articles d)).
      \<exists>a. article_ok L a \<and> r = bind_article a"
    using ok only row a'(1) by (intro update_rows_all) (auto simp: articles_ok_def)
  have keys: "distinct (map article_key (update_rows (\<lambda>r. article_key r = (i, v)) f (d_articles d)))"
    using dist by (simp add: update_rows_keys key)
  have ok': "articles_ok L ?d" using rows keys by (simp add: articles_ok_def)
  have look: "find_article_row (fst k) (snd k) ?d =
      map_option (\<lambda>r. if article_key r = (i, v) then f r else r) (find_article_row (fst k) (snd k) d)" for k
    unfolding find_article_row_def by (simp add: find_keyed_update key)
  have at: "article_at L ?d (i, v) = Some a'"
    using look [of "(i, v)"] cur r_in(2) row decode_bind_article [OF a'(1)] by (simp add: article_at_def)
  have other: "article_at L ?d k = article_at L d k" if "k \<noteq> (i, v)" for k
  proof (cases "find_article_row (fst k) (snd k) d")
    case (Some rk)
    obtain "article_key rk = k" by (rule article_row_bound [OF ok Some]) simp
    with that Some look [of k] show ?thesis by (simp add: article_at_def)
  qed (use look [of k] in \<open>simp add: article_at_def\<close>)
  show ?thesis unfolding only_changes_def using ok' at other by simp
qed

lemma append_article:
  assumes ok: "articles_ok L d" and free: "find_article_row i v d = None"
    and row: "row = bind_article a'" and a': "article_ok L a'" "na_source_id a' = i" "na_review_id a' = v"
  shows "only_changes L (i, v) (Some a') d (d\<lparr>d_articles := d_articles d @ [row]\<rparr>)"
proof -
  let ?d = "d\<lparr>d_articles := d_articles d @ [row]\<rparr>"
  have key: "article_key row = (i, v)" using row a' by simp
  have fresh: "(i, v) \<notin> article_key ` set (d_articles d)"
    using free by (auto simp: find_article_row_def find_None_iff)
  have ok': "articles_ok L ?d" using ok row a'(1) fresh key by (auto simp: articles_ok_def)
  have look: "find_article_row (fst k) (snd k) ?d =
      (case find_article_row (fst k) (snd k) d of None \<Rightarrow> if k = (i, v) then Some row else None | Some r \<Rightarrow> Some r)" for k
    unfolding find_article_row_def by (auto simp: find_append_key key split: option.splits)
  have at: "article_at L ?d (i, v) = Some a'"
    using look [of "(i, v)"] free row decode_bind_article [OF a'(1)] by (simp add: article_at_def)
  have other: "article_at L ?d k = article_at L d k" if "k \<noteq> (i, v)" for k
    using look [of k] that by (simp add: article_at_def split: option.splits)
  show ?thesis unfolding only_changes_def using ok' at other by simp
qed

text \<open>What an upsert that runs without interruption does, in every case.\<close>

definition upserted :: "libs \<Rightarrow> new_article \<Rightarrow> article option \<Rightarrow> article_upsert_result \<Rightarrow> bool" where
  "upserted L a old r \<longleftrightarrow>
     (case old of
        None \<Rightarrow> up_created r \<and> up_feed_visible_change r \<and> new_article.truncate (up_article r) = a
      | Some current \<Rightarrow>
          \<not> up_created r \<and>
          (up_feed_visible_change r \<longleftrightarrow> feed_visible_change current (new_article.truncate (up_article r))) \<and>
          na_created_at (up_article r) = na_created_at current \<and>
          (if na_observation_version a < na_observation_version current then up_article r = current
           else new_article.truncate (up_article r) = merge_observation current a))"

lemma version_as_i64:
  assumes "unat v < 2 ^ 63"
  shows "observation_version_as_i64 v = Inr (uint v)"
  using assms unfolding observation_version_as_i64_def i64_try_from_def uint_nat by simp

lemma merge_exact:
  assumes ok: "articles_ok L d" and a: "normal L a" "unat (na_observation_version a) < 2 ^ 63"
      "\<forall>u. na_original_url a = Some u \<longrightarrow> article_url_parse L u = Inr u"
    and cur: "article_at L d (na_source_id a, na_review_id a) = Some cur"
  shows "\<exists>r d'. merge_into L now a (bind_article cur) d = (Inr r, d') \<and> upserted L a (Some cur) r \<and>
     only_changes L (na_source_id a, na_review_id a) (Some (up_article r)) d d'"
proof (cases "na_observation_version a < na_observation_version cur")
  case True
  have "article_ok L cur" using article_at_find [OF ok] cur by simp
  then show ?thesis
    using True cur ok
    by (auto simp: merge_into_def decode_bind_article upserted_def only_changes_def feed_visible_change_def)
next
  case False
  from article_at_find [OF ok] cur have find: "find_article_row (na_source_id a) (na_review_id a) d = Some (bind_article cur)"
    and cok: "article_ok L cur" by simp_all
  have "article_key (bind_article cur) = (na_source_id a, na_review_id a)"
    by (rule article_row_bound [OF ok find])
  then have key: "na_source_id cur = na_source_id a" "na_review_id cur = na_review_id a" by simp_all
  define m where "m = merge_observation cur a"
  define changed where "changed = feed_visible_change cur m"
  define cols where "cols = (if changed then changed_cols else observation_cols)"
  define stored where "stored = new_article.extend m (article.fields (na_created_at cur) now)"
  have trunc: "new_article.truncate stored = m" by (cases m) (simp add: stored_def new_article.defs article.defs)
  have m_key: "na_source_id m = na_source_id a" "na_review_id m = na_review_id a"
    "na_observation_version m = na_observation_version a" "na_fetched_at m = na_fetched_at a"
    by (simp_all add: m_def merge_observation_def Let_def key)
  have m_url: "\<forall>u. na_original_url m = Some u \<longrightarrow> article_url_parse L u = Inr u"
    using a(3) cok by (auto simp: m_def merge_observation_def Let_def or_else_def article_ok_def split: option.splits)
  have sel: "na_source_id stored = na_source_id m" "na_review_id stored = na_review_id m"
    "na_original_url stored = na_original_url m" "na_observation_version stored = na_observation_version m"
    "na_created_at stored = na_created_at cur"
    by (cases m; simp add: stored_def new_article.defs article.defs)+
  have "article_ok L stored"
    using merge_normal [OF cok a(1)] m_url a(2) by (simp add: article_ok_def trunc sel m_key m_def [symmetric])
  moreover have row: "cols now m (uint (na_observation_version a)) (bind_article cur) = bind_article stored"
    using m_key key
    by (cases m; cases cur)
      (auto simp: cols_def changed_def changed_cols_def observation_cols_def bind_article_def stored_def
        new_article.defs article.defs feed_visible_change_def)
  ultimately have written: "only_changes L (na_source_id a, na_review_id a) (Some stored) d
      (d\<lparr>d_articles := update_rows (\<lambda>r. article_key r = (na_source_id a, na_review_id a))
         (cols now m (uint (na_observation_version a))) (d_articles d)\<rparr>)"
    using m_key sel
    by (intro write_article [OF ok find])
      (auto simp: cols_def changed_cols_def observation_cols_def article_key_def)
  have run: "merge_into L now a (bind_article cur) d =
      (Inr \<lparr>up_article = stored, up_feed_visible_change = changed, up_created = False\<rparr>,
       d\<lparr>d_articles := update_rows (\<lambda>r. article_key r = (na_source_id a, na_review_id a))
         (cols now m (uint (na_observation_version a))) (d_articles d)\<rparr>)"
    using False find m_key row decode_bind_article [OF \<open>article_ok L stored\<close>] decode_bind_article [OF cok]
      version_as_i64 [OF a(2)]
    by (simp add: merge_into_def Let_def m_def [symmetric] changed_def [symmetric] cols_def [symmetric]
        update_article_row_def)
  have "upserted L a (Some cur) \<lparr>up_article = stored, up_feed_visible_change = changed, up_created = False\<rparr>"
    using False trunc sel by (simp add: upserted_def changed_def m_def)
  with run written show ?thesis by auto
qed

lemma insert_exact:
  assumes ok: "articles_ok L d" and a: "normal L a" "unat (na_observation_version a) < 2 ^ 63"
      "\<forall>u. na_original_url a = Some u \<longrightarrow> article_url_parse L u = Inr u"
    and free: "article_at L d (na_source_id a, na_review_id a) = None"
    and src: "\<exists>s \<in> set (d_sources d). so_id s = na_source_id a"
  shows "\<exists>r d'. insert_article L now a (uint (na_observation_version a)) d = (Inr r, d') \<and> upserted L a None r \<and>
     only_changes L (na_source_id a, na_review_id a) (Some (up_article r)) d d'"
proof -
  define stored where "stored = new_article.extend a (article.fields now now)"
  have trunc: "new_article.truncate stored = a" by (cases a) (simp add: stored_def new_article.defs article.defs)
  have sel: "na_source_id stored = na_source_id a" "na_review_id stored = na_review_id a"
    "na_original_url stored = na_original_url a" "na_observation_version stored = na_observation_version a"
    by (cases a; simp add: stored_def new_article.defs article.defs)+
  have nok: "article_ok L stored" using a by (simp add: article_ok_def trunc sel)
  have row: "new_article_row now a (uint (na_observation_version a)) = bind_article stored"
    by (cases a) (simp add: new_article_row_def bind_article_def stored_def new_article.defs article.defs)
  have none: "find_article_row (na_source_id a) (na_review_id a) d = None"
    using free article_at_None [OF ok] by simp
  have "insert_article L now a (uint (na_observation_version a)) d =
      (Inr \<lparr>up_article = stored, up_feed_visible_change = True, up_created = True\<rparr>,
       d\<lparr>d_articles := d_articles d @ [bind_article stored]\<rparr>)"
    using src decode_bind_article [OF nok] by (auto simp: insert_article_def row Let_def)
  moreover have "upserted L a None \<lparr>up_article = stored, up_feed_visible_change = True, up_created = True\<rparr>"
    by (simp add: upserted_def trunc)
  ultimately show ?thesis using append_article [OF ok none refl nok] sel by auto
qed

lemma upsert_exact:
  assumes L: "libs_ok L" and ok: "articles_ok L d" and norm: "normalize L x = Inr a"
    and fits: "unat (na_observation_version a) < 2 ^ 63"
    and typed: "\<forall>u. na_original_url x = Some u \<longrightarrow> verified_url L u"
    and src: "article_at L d (na_source_id a, na_review_id a) = None \<longrightarrow>
      (\<exists>s \<in> set (d_sources d). so_id s = na_source_id a)"
  shows "\<exists>r d'. upsert L now [] x d = (Inr r, d') \<and>
     upserted L a (article_at L d (na_source_id a, na_review_id a)) r \<and>
     only_changes L (na_source_id a, na_review_id a) (Some (up_article r)) d d'"
proof -
  note n = normalize_result [OF norm]
  have url: "\<forall>u. na_original_url a = Some u \<longrightarrow> article_url_parse L u = Inr u"
    using typed article_url_idem [OF L] by (auto simp: n(2) verified_url_def)
  have run: "upsert L now [] x d = upsert_loop L now a (uint (na_observation_version a)) [] d"
    using norm version_as_i64 [OF fits] by (simp add: upsert_def)
  show ?thesis
  proof (cases "article_at L d (na_source_id a, na_review_id a)")
    case None
    have "find_article_row (na_source_id a) (na_review_id a) d = None" using None article_at_None [OF ok] by simp
    with None insert_exact [OF ok n(1) fits url None] src show ?thesis by (simp add: run)
  next
    case (Some cur)
    have "find_article_row (na_source_id a) (na_review_id a) d = Some (bind_article cur)"
      using Some article_at_find [OF ok] by simp
    with Some merge_exact [OF ok n(1) fits url Some] show ?thesis by (simp add: run)
  qed
qed

text \<open>
  An upsert in a race: whatever others commit between its statements, it does what an upsert does
  that runs without interruption after some of those commits.
\<close>

lemma upsert_loop_serializes:
  "\<exists>n \<le> length others. upsert_loop L now a version others d =
     upsert_loop L now a version [] (fold (\<lambda>f. f) (take n others) d)"
proof (induction others arbitrary: d)
  case Nil
  then show ?case by simp
next
  case (Cons other others)
  show ?case
  proof (cases "find_article_row (na_source_id a) (na_review_id a) d")
    case (Some row)
    then show ?thesis by (intro exI [of _ 0]) simp
  next
    case none: None
    show ?thesis
    proof (cases "find_article_row (na_source_id a) (na_review_id a) (other d)")
      case None
      with none show ?thesis by (intro exI [of _ 1]) (simp add: Let_def)
    next
      case (Some row)
      from Cons obtain n where "n \<le> length others" "upsert_loop L now a version others (other d) =
          upsert_loop L now a version [] (fold (\<lambda>f. f) (take n others) (other d))" by blast
      with none Some show ?thesis by (intro exI [of _ "Suc n"]) (simp add: Let_def)
    qed
  qed
qed


section \<open>Sequences of observations\<close>

text \<open>Each upsert in a transaction of its own; a deletion of a source removes its articles.\<close>

datatype article_op = Observe datetime new_article | Source source_op

fun article_step :: "libs \<Rightarrow> article_op \<Rightarrow> db \<Rightarrow> db" where
  "article_step L (Observe now x) d = snd (transact (upsert L now [] x) d)"
| "article_step L (Source op) d = source_step L op d"

fun article_op_typed :: "libs \<Rightarrow> article_op \<Rightarrow> bool" where
  "article_op_typed L (Observe now x) \<longleftrightarrow> (\<forall>u. na_original_url x = Some u \<longrightarrow> verified_url L u)"
| "article_op_typed L (Source op) \<longleftrightarrow> op_typed L op"

fun keeps_article :: "article_op \<Rightarrow> uuid \<times> rstring \<Rightarrow> bool" where
  "keeps_article (Observe now x) k \<longleftrightarrow> True"
| "keeps_article (Source op) k \<longleftrightarrow> keeps_source op (fst k)"

definition kept :: "'a option \<Rightarrow> 'a option \<Rightarrow> bool" where
  "kept old stored \<longleftrightarrow> (old \<noteq> None \<longrightarrow> stored \<noteq> None)"

definition article_evolves :: "article \<Rightarrow> article \<Rightarrow> bool" where
  "article_evolves a a' \<longleftrightarrow>
     na_observation_version a \<le> na_observation_version a' \<and> na_created_at a' = na_created_at a \<and>
     kept (na_author a) (na_author a') \<and> kept (na_summary a) (na_summary a') \<and>
     kept (na_cover_url a) (na_cover_url a') \<and> kept (na_original_url a) (na_original_url a') \<and>
     (na_content_html a \<noteq> [] \<longrightarrow> na_content_html a' \<noteq> [])"

lemma article_evolves_refl: "article_evolves a a"
  by (simp add: article_evolves_def kept_def)

lemma article_evolves_trans: "article_evolves a b \<Longrightarrow> article_evolves b c \<Longrightarrow> article_evolves a c"
  unfolding article_evolves_def kept_def by (auto intro: order_trans)

lemma merge_evolves:
  "\<not> na_observation_version a < na_observation_version cur \<Longrightarrow>
   new_article.truncate a' = merge_observation cur a \<Longrightarrow> na_created_at a' = na_created_at cur \<Longrightarrow>
   article_evolves cur a'"
  by (drule arg_cong [where f = "\<lambda>n. (na_observation_version n, na_author n, na_summary n, na_cover_url n,
        na_original_url n, na_content_html n)"])
    (auto simp: article_evolves_def kept_def merge_observation_def Let_def or_else_def split: option.splits)

lemma upserted_evolves: "upserted L a (Some cur) r \<Longrightarrow> article_evolves cur (up_article r)"
  by (auto simp: upserted_def article_evolves_refl intro: merge_evolves split: if_splits)

definition keeps_articles :: "libs \<Rightarrow> (uuid \<times> rstring \<Rightarrow> bool) \<Rightarrow> db \<Rightarrow> db \<Rightarrow> bool" where
  "keeps_articles L kept_keys d d' \<longleftrightarrow>
     articles_ok L d' \<and>
     (\<forall>k a. kept_keys k \<longrightarrow> article_at L d k = Some a \<longrightarrow>
        (\<exists>a'. article_at L d' k = Some a' \<and> article_evolves a a'))"

lemma keeps_articles_same:
  assumes "articles_ok L d" "d_articles d' = d_articles d"
  shows "keeps_articles L P d d'"
proof -
  have "articles_ok L d' = articles_ok L d" "article_at L d' = article_at L d"
    using assms(2) by (auto simp: articles_ok_def article_at_def find_article_row_def)
  with assms(1) show ?thesis by (auto simp: keeps_articles_def article_evolves_refl)
qed

lemma observe_keeps:
  assumes L: "libs_ok L" and ok: "articles_ok L d" and typed: "article_op_typed L (Observe now x)"
  shows "keeps_articles L (\<lambda>_. True) d (snd (transact (upsert L now [] x) d))"
proof (cases rule: transact_cases [of "upsert L now [] x" d])
  case (rolled_back e)
  with keeps_articles_same [OF ok] show ?thesis by simp
next
  case (done_ok res)
  then obtain a where a: "normalize L x = Inr a" "unat (na_observation_version a) < 2 ^ 63"
    by (auto simp: upsert_def observation_version_as_i64_def i64_try_from_def split: sum.splits if_splits)
  let ?k = "(na_source_id a, na_review_id a)"
  have "\<exists>s \<in> set (d_sources d). so_id s = na_source_id a" if "article_at L d ?k = None"
    using done_ok(2) a that article_at_None [OF ok] version_as_i64 [OF a(2)]
    by (auto simp: upsert_def insert_article_def split: if_splits)
  with upsert_exact [OF L ok a, where now = now] typed obtain r d' where
    r: "upsert L now [] x d = (Inr r, d')" "upserted L a (article_at L d ?k) r"
      "only_changes L ?k (Some (up_article r)) d d'" by auto
  have "\<exists>b'. article_at L d' k = Some b' \<and> article_evolves b b'" if "article_at L d k = Some b" for k b
  proof (cases "k = ?k")
    case True
    with that r show ?thesis by (auto simp: only_changes_def dest: upserted_evolves)
  next
    case False
    with r(3) have "article_at L d' k = article_at L d k" unfolding only_changes_def by blast
    with that show ?thesis by (auto simp: article_evolves_refl)
  qed
  with r done_ok show ?thesis by (auto simp: keeps_articles_def only_changes_def)
qed

lemma transact_articles:
  assumes "\<And>r d'. m d = (Inr r, d') \<Longrightarrow> d_articles d' = d_articles d"
  shows "d_articles (snd (transact m d)) = d_articles d"
  using assms by (cases "m d"; cases "fst (m d)") (auto simp: transact_def)

lemma update_source_row_articles:
  "update_source_row L i f d = (r, d') \<Longrightarrow> d_articles d' = d_articles d"
  by (auto simp: update_source_row_def split: sum.splits option.splits)

lemma source_step_articles:
  assumes "\<forall>i. op \<noteq> DeleteSource i"
  shows "d_articles (source_step L op d) = d_articles d"
proof (cases op)
  case (InsertSource now spec)
  then show ?thesis
    by (simp, intro transact_articles) (auto simp: source_insert_def Let_def split: sum.splits option.splits)
next
  case (UpdateSource now i patch)
  then show ?thesis
    by (simp, intro transact_articles)
      (auto simp: source_update_op_def dest: update_source_row_articles split: sum.splits if_splits)
next
  case (BumpRevision now i v)
  then show ?thesis
    by (simp, intro transact_articles)
      (auto simp: bump_feed_revision_def result_simps split: sum.splits option.splits if_splits)
qed (use assms in \<open>auto simp: set_enabled_def set_scheduling_gate_def update_schedule_def
      intro!: transact_articles dest: update_source_row_articles\<close>)

lemma delete_articles:
  assumes "articles_ok L d"
  shows "keeps_articles L (\<lambda>k. i \<noteq> fst k) d (snd (transact (source_delete i) d))"
proof (cases rule: transact_cases [of "source_delete i" d])
  case (rolled_back e)
  with keeps_articles_same [OF assms] show ?thesis by simp
next
  case (done_ok res)
  then have rows: "d_articles (snd (source_delete i d)) = filter (\<lambda>a. ar_source_id a \<noteq> i) (d_articles d)"
    by (auto simp: source_delete_def split: sum.splits option.splits)
  have "articles_ok L (snd (source_delete i d))"
    using assms unfolding articles_ok_def rows by (auto simp: distinct_map_filter)
  moreover have "article_at L (snd (source_delete i d)) k = article_at L d k" if "i \<noteq> fst k" for k
  proof -
    have "find_article_row (fst k) (snd k) (snd (source_delete i d)) = find_article_row (fst k) (snd k) d"
      unfolding find_article_row_def rows using that by (intro find_filter_key) (auto simp: article_key_def)
    then show ?thesis by (simp add: article_at_def)
  qed
  ultimately show ?thesis using done_ok by (auto simp: keeps_articles_def article_evolves_refl)
qed

lemma article_step_keeps:
  assumes "libs_ok L" "articles_ok L d" "article_op_typed L op"
  shows "keeps_articles L (keeps_article op) d (article_step L op d)"
proof (cases op)
  case (Observe now x)
  have "keeps_article op = (\<lambda>_. True)" by (auto simp: Observe)
  with observe_keeps [OF assms(1,2)] assms(3) Observe show ?thesis by simp
next
  case (Source sop)
  show ?thesis
  proof (cases "\<exists>i. sop = DeleteSource i")
    case True
    then obtain i where i: "sop = DeleteSource i" by blast
    have "keeps_article op = (\<lambda>k. i \<noteq> fst k)" by (auto simp: Source i)
    with delete_articles [OF assms(2)] Source i show ?thesis by simp
  next
    case False
    with keeps_articles_same [OF assms(2)] source_step_articles Source show ?thesis by simp
  qed
qed

interpretation at: tracked_table "article_at L" "\<lambda>d. libs_ok L \<and> articles_ok L d" "article_op_typed L"
  keeps_article "article_step L" article_evolves for L
  using article_step_keeps by unfold_locales
    (auto simp: keeps_articles_def article_evolves_refl intro: article_evolves_trans)


section \<open>Properties\<close>

definition example_article :: new_article where
  "example_article =
     \<lparr>na_source_id = 7, na_review_id = lit '' r1 '', na_title = lit ''Title'', na_author = None,
      na_summary = Some (lit '' ''), na_cover_url = None, na_original_url = None, na_published_at = 50,
      na_content_html = lit ''<p>x</p>'', na_content_hash = None, na_observation_version = 3,
      na_fetched_at = 60\<rparr>"

definition example_normal :: new_article where
  "example_normal = example_article\<lparr>na_review_id := lit ''r1'', na_summary := None\<rparr>"

lemma example_normalize: "normalize example_libs example_article = Inr example_normal"
  by (simp add: normalize_def example_article_def example_normal_def Let_def is_nil_def
      normalize_optional_def trim_def trim_start_def lit_def is_whitespace_def)

lemma example_articles_ok: "articles_ok example_libs example_db"
  by (simp add: articles_ok_def example_db_def)

lemma example_source_known: "\<exists>s \<in> set (d_sources example_db). so_id s = na_source_id example_normal"
  by (simp add: example_db_def bind_source_def example_source_def example_normal_def example_article_def)

text \<open>
  (C20) An upsert that is not interrupted always succeeds for a valid observation of a known source
  and stores exactly the merge: a first observation is stored as normalized and reported as
  created; an observation older than the stored one changes nothing; any other is merged field by
  field into the stored article. The reported feed-visible change is true exactly when a visible
  field differs, no other article changes, and the table stays well formed.
\<close>

theorem article_upsert_merges:
  assumes "libs_ok L" "articles_ok L d" "normalize L x = Inr a"
    and "unat (na_observation_version a) < 2 ^ 63"
    and "\<forall>u. na_original_url x = Some u \<longrightarrow> verified_url L u"
    and "\<exists>s \<in> set (d_sources d). so_id s = na_source_id a"
  shows "\<exists>r d'. upsert L now [] x d = (Inr r, d') \<and> articles_ok L d' \<and>
     article_at L d' (na_source_id a, na_review_id a) = Some (up_article r) \<and>
     (\<forall>k. k \<noteq> (na_source_id a, na_review_id a) \<longrightarrow> article_at L d' k = article_at L d k) \<and>
     (case article_at L d (na_source_id a, na_review_id a) of
        None \<Rightarrow> up_created r \<and> up_feed_visible_change r \<and> new_article.truncate (up_article r) = a
      | Some current \<Rightarrow>
          \<not> up_created r \<and>
          (up_feed_visible_change r \<longleftrightarrow> feed_visible_change current (new_article.truncate (up_article r))) \<and>
          na_created_at (up_article r) = na_created_at current \<and>
          (if na_observation_version a < na_observation_version current then up_article r = current
           else new_article.truncate (up_article r) = merge_observation current a))"
  using upsert_exact [of L d x a now] assms unfolding upserted_def only_changes_def by blast

theorem article_upsert_merges_witness:
  "\<exists>r d'. upsert example_libs 70 [] example_article example_db = (Inr r, d') \<and>
     articles_ok example_libs d' \<and> article_at example_libs d' (7, lit ''r1'') = Some (up_article r) \<and>
     up_created r \<and> new_article.truncate (up_article r) = example_normal"
proof -
  have key: "na_source_id example_normal = 7" "na_review_id example_normal = lit ''r1''"
    by (simp_all add: example_normal_def example_article_def)
  have none: "article_at example_libs example_db k = None" for k
    by (simp add: article_at_def find_article_row_def example_db_def)
  have small: "unat (na_observation_version example_normal) < 2 ^ 63"
    by (simp add: example_normal_def example_article_def)
  have typed: "\<forall>u. na_original_url example_article = Some u \<longrightarrow> verified_url example_libs u"
    by (simp add: example_article_def)
  from article_upsert_merges [OF example_libs_ok example_articles_ok example_normalize small typed
      example_source_known, of 70] show ?thesis
    unfolding none key by auto
qed

text \<open>
  (C21) Concurrent upserts serialize. Whatever other transactions commit between the statements of
  an upsert, its result and the tables it leaves are those of an upsert that runs without
  interruption after some of those commits; in particular the retry loop ends as soon as the
  others stop.
\<close>

theorem article_upsert_serializes:
  "\<exists>n \<le> length others. upsert L now others x d = upsert L now [] x (fold (\<lambda>f. f) (take n others) d)"
proof (cases "normalize L x")
  case (Inl e)
  then show ?thesis by (intro exI [of _ 0]) (simp add: upsert_def)
next
  case (Inr a)
  then show ?thesis
    using upsert_loop_serializes [of others L now a _ d]
    by (cases "observation_version_as_i64 (na_observation_version a)") (auto simp: upsert_def)
qed

text \<open>
  (C22) Observations never regress. Through any sequence of observations, in any order, and of source
  operations that keep the source, the article table stays well formed, the observation version
  of an article never decreases, its creation time is fixed, and an author, summary, cover,
  original URL or content once known is never lost.
\<close>

theorem article_observations_never_regress:
  assumes "libs_ok L" "articles_ok L d" "article_at L d k = Some a"
    and "\<forall>op \<in> set ops. article_op_typed L op \<and> keeps_article op k"
  shows "articles_ok L (fold (article_step L) ops d) \<and>
     (\<exists>a'. article_at L (fold (article_step L) ops d) k = Some a' \<and>
        na_observation_version a \<le> na_observation_version a' \<and> na_created_at a' = na_created_at a \<and>
        kept (na_author a) (na_author a') \<and> kept (na_summary a) (na_summary a') \<and>
        kept (na_cover_url a) (na_cover_url a') \<and> kept (na_original_url a) (na_original_url a') \<and>
        (na_content_html a \<noteq> [] \<longrightarrow> na_content_html a' \<noteq> []))"
  using at.run_inv [of L d ops] at.run_evolves [of L d ops k a] assms
  unfolding article_evolves_def by blast

definition example_stored :: article where
  "example_stored = new_article.extend example_normal (article.fields 61 61)"

definition example_article_db :: db where
  "example_article_db = example_db\<lparr>d_articles := [bind_article example_stored]\<rparr>"

lemma example_stored_ok: "article_ok example_libs example_stored"
proof -
  have trunc: "new_article.truncate example_stored = example_normal"
    by (simp add: example_stored_def example_normal_def example_article_def new_article.defs article.defs)
  have "na_original_url example_stored = None" "na_observation_version example_stored = 3"
    by (simp_all add: example_stored_def example_normal_def example_article_def new_article.defs article.defs)
  then show ?thesis
    using normalize_result(1) [OF example_normalize] by (simp add: article_ok_def trunc)
qed

theorem article_observations_never_regress_witness:
  "\<exists>a'. article_at example_libs (fold (article_step example_libs)
      [Observe 80 (example_article\<lparr>na_observation_version := 2\<rparr>), Source (SetEnabled 85 7 False),
       Observe 90 (example_article\<lparr>na_observation_version := 9, na_content_html := []\<rparr>)]
      example_article_db) (7, lit ''r1'') = Some a' \<and>
     na_observation_version example_stored \<le> na_observation_version a'"
proof -
  have ok: "articles_ok example_libs example_article_db"
    using example_stored_ok by (auto simp: articles_ok_def example_article_db_def)
  have key: "article_key (bind_article example_stored) = (7, lit ''r1'')"
    by (simp add: example_stored_def example_normal_def example_article_def new_article.defs article.defs)
  have at: "article_at example_libs example_article_db (7, lit ''r1'') = Some example_stored"
    using decode_bind_article [OF example_stored_ok] key
    by (simp add: article_at_def find_article_row_def example_article_db_def)
  have "\<forall>op \<in> set [Observe 80 (example_article\<lparr>na_observation_version := 2\<rparr>), Source (SetEnabled 85 7 False),
       Observe 90 (example_article\<lparr>na_observation_version := 9, na_content_html := []\<rparr>)].
     article_op_typed example_libs op \<and> keeps_article op (7, lit ''r1'')"
    by (simp add: example_article_def)
  from article_observations_never_regress [OF example_libs_ok ok at this] show ?thesis by blast
qed

end
