(* ===== verification/Feed.thy ===== *)
theory Feed
  imports Lease Article
begin

text \<open>
  The feed cache: the values of \<^verbatim>\<open>src/domain/feed.rs\<close> and the reads and fenced publications of
  \<^verbatim>\<open>feed_cache_repository.rs\<close>. A publication runs several statements, each of which reads the
  server clock for itself; \<open>clk\<close> gives the readings in order. The lemmas show what a publication
  changes on each branch and that, through anything that happens to sources, articles, leases and
  caches, a cached document only moves forward and never runs ahead of its source.
\<close>

section \<open>Values\<close>

record feed_cache =
  cache_source_id :: uuid
  cache_xml_bytes :: "8 word list"
  cache_etag :: rstring
  cache_generated_at :: datetime
  cache_expires_at :: datetime
  cache_feed_revision :: feed_revision
  cache_content_hash :: rstring
  cache_updated_at :: datetime

record feed_cache_candidate =
  cand_source_id :: uuid
  cand_xml_bytes :: "8 word list"
  cand_etag :: rstring
  cand_generated_at :: datetime
  cand_expires_at :: datetime
  cand_feed_revision :: feed_revision
  cand_content_hash :: rstring

record feed_cache_read =
  read_cache :: feed_cache
  read_source_revision :: feed_revision
  read_fresh :: bool

definition from_candidate :: "feed_cache_candidate \<Rightarrow> datetime \<Rightarrow> feed_cache" where
  "from_candidate c updated_at =
     \<lparr>cache_source_id = cand_source_id c, cache_xml_bytes = cand_xml_bytes c, cache_etag = cand_etag c,
      cache_generated_at = cand_generated_at c, cache_expires_at = cand_expires_at c,
      cache_feed_revision = cand_feed_revision c, cache_content_hash = cand_content_hash c,
      cache_updated_at = updated_at\<rparr>"

definition is_fresh_at :: "feed_cache \<Rightarrow> feed_revision \<Rightarrow> datetime \<Rightarrow> bool" where
  "is_fresh_at c source_revision now \<longleftrightarrow>
     cache_feed_revision c = source_revision \<and> cache_expires_at c > now"


section \<open>Repository\<close>

datatype feed_cache_error =
    CacheInvalidSourceId
  | CacheEmptyOwner
  | EmptyXml
  | EmptyEtag
  | EmptyContentHash
  | InvalidExpiry
  | CacheRevisionOutOfRange
  | CacheSourceNotFound uuid
  | CacheLeaseLost uuid
  | CacheStorage string

datatype publish_result =
    Published feed_cache
  | SourceRevisionChanged feed_revision
  | ExistingCacheNewer

definition validate_source_id_for_cache :: "uuid \<Rightarrow> feed_cache_error + unit" where
  "validate_source_id_for_cache source_id = (if is_nil source_id then Inl CacheInvalidSourceId else Inr ())"

definition cache_revision :: "int \<Rightarrow> feed_cache_error + feed_revision" where
  "cache_revision value = ok_or CacheRevisionOutOfRange (u64_try_from value)"

definition decode_cache :: "feed_cache_row \<Rightarrow> feed_cache_error + feed_cache" where
  "decode_cache r =
     bindE (validate_source_id_for_cache (fc_source_id r)) (\<lambda>_.
     bindE (cache_revision (fc_feed_revision r)) (\<lambda>revision.
       Inr (from_candidate
         \<lparr>cand_source_id = fc_source_id r, cand_xml_bytes = fc_xml_bytes r, cand_etag = fc_etag r,
          cand_generated_at = fc_generated_at r, cand_expires_at = fc_expires_at r,
          cand_feed_revision = revision, cand_content_hash = fc_content_hash r\<rparr> (fc_updated_at r))))"

definition decode_cache_read :: "feed_cache_row \<Rightarrow> int \<Rightarrow> bool \<Rightarrow> feed_cache_error + feed_cache_read" where
  "decode_cache_read r source_feed_revision fresh =
     bindE (cache_revision source_feed_revision) (\<lambda>source_revision.
     bindE (decode_cache r) (\<lambda>cache.
       Inr \<lparr>read_cache = cache, read_source_revision = source_revision, read_fresh = fresh\<rparr>))"

definition find_cache_row :: "uuid \<Rightarrow> db \<Rightarrow> feed_cache_row option" where
  "find_cache_row source_id d = find (\<lambda>r. fc_source_id r = source_id) (d_feed_cache d)"

text \<open>The read joins the cache row with its source and compares both in one statement.\<close>

definition get_cache :: "datetime \<Rightarrow> uuid \<Rightarrow> db \<Rightarrow> feed_cache_error + feed_cache_read option" where
  "get_cache now source_id d =
     bindE (validate_source_id_for_cache source_id) (\<lambda>_.
       case (find_cache_row source_id d, find_source_row source_id d) of
         (Some r, Some s) \<Rightarrow>
           bindE (decode_cache_read r (so_feed_revision s)
               (fc_expires_at r > now \<and> fc_feed_revision r = so_feed_revision s)) (Inr \<circ> Some)
       | _ \<Rightarrow> Inr None)"

definition validate_candidate :: "feed_cache_candidate \<Rightarrow> rstring \<Rightarrow> feed_cache_error + int" where
  "validate_candidate c owner =
     bindE (validate_source_id_for_cache (cand_source_id c)) (\<lambda>_.
       if trim owner = [] then Inl CacheEmptyOwner
       else if cand_xml_bytes c = [] then Inl EmptyXml
       else if trim (cand_etag c) = [] then Inl EmptyEtag
       else if trim (cand_content_hash c) = [] then Inl EmptyContentHash
       else if cand_expires_at c \<le> cand_generated_at c then Inl InvalidExpiry
       else ok_or CacheRevisionOutOfRange (i64_try_from (unat (cand_feed_revision c))))"

definition lease_is_live :: "datetime \<Rightarrow> uuid \<Rightarrow> rstring \<Rightarrow> uuid \<Rightarrow> db \<Rightarrow> bool" where
  "lease_is_live now source_id owner token d \<longleftrightarrow>
     find (build_lease_live now source_id owner token) (d_build_leases d) \<noteq> None"

definition release_build_lease :: "datetime \<Rightarrow> uuid \<Rightarrow> rstring \<Rightarrow> uuid \<Rightarrow> db \<Rightarrow> bool \<times> db" where
  "release_build_lease now source_id owner token d =
     (length (filter (build_lease_live now source_id owner token) (d_build_leases d)) = 1,
      d\<lparr>d_build_leases := filter (\<lambda>r. \<not> build_lease_live now source_id owner token r) (d_build_leases d)\<rparr>)"

definition cache_superseded :: "feed_cache_row \<Rightarrow> feed_cache_row \<Rightarrow> bool" where
  "cache_superseded old excluded \<longleftrightarrow>
     fc_feed_revision old < fc_feed_revision excluded \<or>
     fc_feed_revision old = fc_feed_revision excluded \<and> fc_generated_at old \<le> fc_generated_at excluded"

definition write_cache_row ::
    "datetime \<Rightarrow> feed_cache_candidate \<Rightarrow> int \<Rightarrow> rstring \<Rightarrow> uuid \<Rightarrow> db \<Rightarrow> feed_cache_row option \<times> db" where
  "write_cache_row now c revision owner token d =
     (let row = \<lparr>fc_source_id = cand_source_id c, fc_xml_bytes = cand_xml_bytes c, fc_etag = cand_etag c,
                 fc_generated_at = cand_generated_at c, fc_expires_at = cand_expires_at c,
                 fc_feed_revision = revision, fc_content_hash = cand_content_hash c, fc_updated_at = now\<rparr>
      in if \<not> lease_is_live now (cand_source_id c) owner token d then (None, d)
         else case find_cache_row (cand_source_id c) d of
           None \<Rightarrow> (Some row, d\<lparr>d_feed_cache := d_feed_cache d @ [row]\<rparr>)
         | Some old \<Rightarrow>
             if cache_superseded old row
             then (Some row, d\<lparr>d_feed_cache :=
                     update_rows (\<lambda>r. fc_source_id r = cand_source_id c) (\<lambda>_. row) (d_feed_cache d)\<rparr>)
             else (None, d))"

definition publish_if_current ::
    "(nat \<Rightarrow> datetime) \<Rightarrow> feed_cache_candidate \<Rightarrow> rstring \<Rightarrow> uuid \<Rightarrow> db \<Rightarrow> (feed_cache_error + publish_result) \<times> db" where
  "publish_if_current clk c owner token d =
     (let source_id = cand_source_id c in
      case validate_candidate c owner of Inl e \<Rightarrow> (Inl e, d) | Inr revision \<Rightarrow>
      case find_source_row source_id d of None \<Rightarrow> (Inl (CacheSourceNotFound source_id), d) | Some s \<Rightarrow>
      case cache_revision (so_feed_revision s) of Inl e \<Rightarrow> (Inl e, d) | Inr current_revision \<Rightarrow>
      if \<not> lease_is_live (clk 0) source_id owner token d then (Inl (CacheLeaseLost source_id), d)
      else if current_revision \<noteq> word_of_int revision then
        (Inr (SourceRevisionChanged current_revision), snd (release_build_lease (clk 1) source_id owner token d))
      else case write_cache_row (clk 1) c revision owner token d of
        (Some row, d1) \<Rightarrow>
          (case release_build_lease (clk 2) source_id owner token d1 of (released, d2) \<Rightarrow>
             if \<not> released then (Inl (CacheLeaseLost source_id), d2)
             else (bindE (decode_cache row) (Inr \<circ> Published), d2))
      | (None, d1) \<Rightarrow>
          if \<not> lease_is_live (clk 2) source_id owner token d1 then (Inl (CacheLeaseLost source_id), d1)
          else case release_build_lease (clk 3) source_id owner token d1 of (released, d2) \<Rightarrow>
            if \<not> released then (Inl (CacheLeaseLost source_id), d2)
            else (Inr ExistingCacheNewer, d2))"


section \<open>Well-formed caches\<close>

text \<open>
  Every row is the row of some cache value; its source exists (a foreign key of the schema) and is
  at least at the row's revision.
\<close>

definition bind_cache :: "feed_cache \<Rightarrow> feed_cache_row" where
  "bind_cache c =
     \<lparr>fc_source_id = cache_source_id c, fc_xml_bytes = cache_xml_bytes c, fc_etag = cache_etag c,
      fc_generated_at = cache_generated_at c, fc_expires_at = cache_expires_at c,
      fc_feed_revision = uint (cache_feed_revision c), fc_content_hash = cache_content_hash c,
      fc_updated_at = cache_updated_at c\<rparr>"

definition cache_row_ok :: "libs \<Rightarrow> db \<Rightarrow> feed_cache_row \<Rightarrow> bool" where
  "cache_row_ok L d r \<longleftrightarrow>
     (\<exists>c s. r = bind_cache c \<and> \<not> is_nil (cache_source_id c) \<and>
        source_at L d (cache_source_id c) = Some s \<and> cache_feed_revision c \<le> src_feed_revision s)"

definition feed_ok :: "libs \<Rightarrow> db \<Rightarrow> bool" where
  "feed_ok L d \<longleftrightarrow>
     libs_ok L \<and> sources_ok L d \<and> build_leases_ok d \<and> distinct (map fc_source_id (d_feed_cache d)) \<and>
     (\<forall>r \<in> set (d_feed_cache d). cache_row_ok L d r)"

definition cache_at :: "db \<Rightarrow> uuid \<Rightarrow> feed_cache option" where
  "cache_at d source_id =
     (case find_cache_row source_id d of
        None \<Rightarrow> None
      | Some r \<Rightarrow> (case decode_cache r of Inl _ \<Rightarrow> None | Inr c \<Rightarrow> Some c))"

definition cache_evolves :: "feed_cache \<Rightarrow> feed_cache \<Rightarrow> bool" where
  "cache_evolves c c' \<longleftrightarrow>
     cache_source_id c' = cache_source_id c \<and>
     (cache_feed_revision c < cache_feed_revision c' \<or>
      cache_feed_revision c = cache_feed_revision c' \<and> cache_generated_at c \<le> cache_generated_at c')"

lemma cache_evolves_refl: "cache_evolves c c"
  by (simp add: cache_evolves_def)

lemma cache_evolves_trans: "cache_evolves a b \<Longrightarrow> cache_evolves b c \<Longrightarrow> cache_evolves a c"
  by (auto simp: cache_evolves_def)

lemma decode_bind_cache: "\<not> is_nil (cache_source_id c) \<Longrightarrow> decode_cache (bind_cache c) = Inr c"
  by (simp add: decode_cache_def bind_cache_def from_candidate_def validate_source_id_for_cache_def
      cache_revision_def)

lemma cache_key [simp]:
  "fc_source_id (bind_cache c) = cache_source_id c" "cache_source_id (from_candidate k t) = cand_source_id k"
  by (simp_all add: bind_cache_def from_candidate_def)

lemma superseded_evolves:
  "cache_source_id c' = cache_source_id c \<Longrightarrow> cache_superseded (bind_cache c) (bind_cache c') \<longleftrightarrow> cache_evolves c c'"
  by (auto simp: cache_superseded_def bind_cache_def cache_evolves_def word_less_def
      word_uint_eq_iff)

lemma cache_at_row:
  assumes "feed_ok L d" "cache_at d i = Some c"
  obtains s where "find_cache_row i d = Some (bind_cache c)" "cache_source_id c = i" "\<not> is_nil i"
    "source_at L d i = Some s" "cache_feed_revision c \<le> src_feed_revision s"
proof -
  from assms(2) obtain r where r: "find_cache_row i d = Some r" "decode_cache r = Inr c"
    by (auto simp: cache_at_def split: option.splits sum.splits)
  then have "r \<in> set (d_feed_cache d)" "fc_source_id r = i"
    using find_SomeD [of _ "d_feed_cache d" r] by (auto simp: find_cache_row_def)
  with assms(1) obtain c' s where c': "r = bind_cache c'" "\<not> is_nil (cache_source_id c')"
      "source_at L d (cache_source_id c') = Some s" "cache_feed_revision c' \<le> src_feed_revision s"
    by (auto simp: feed_ok_def cache_row_ok_def)
  with decode_bind_cache [OF c'(2)] r(2) have "c' = c" by simp
  with c' r(1) \<open>fc_source_id r = i\<close> that show thesis by (auto simp: bind_cache_def)
qed

lemma row_cache_at:
  assumes "feed_ok L d" "find_cache_row i d = Some r"
  shows "\<exists>c. r = bind_cache c \<and> cache_at d i = Some c"
proof -
  from assms(2) have "r \<in> set (d_feed_cache d)"
    using find_SomeD [of _ "d_feed_cache d" r] by (auto simp: find_cache_row_def)
  with assms(1) obtain c where "r = bind_cache c" "\<not> is_nil (cache_source_id c)"
    by (auto simp: feed_ok_def cache_row_ok_def)
  with assms(2) decode_bind_cache show ?thesis by (auto simp: cache_at_def)
qed

text \<open>A read of a well-formed cache: fresh exactly when the domain says so.\<close>

lemma get_cache_exact:
  assumes "feed_ok L d"
  shows "get_cache now i d =
     (if is_nil i then Inl CacheInvalidSourceId
      else case (cache_at d i, source_at L d i) of
        (Some c, Some s) \<Rightarrow>
          Inr (Some \<lparr>read_cache = c, read_source_revision = src_feed_revision s,
                     read_fresh = is_fresh_at c (src_feed_revision s) now\<rparr>)
      | _ \<Rightarrow> Inr None)"
proof (cases "cache_at d i")
  case None
  with row_cache_at [OF assms] have "find_cache_row i d = None" by (cases "find_cache_row i d") fastforce+
  with None show ?thesis by (simp add: get_cache_def validate_source_id_for_cache_def)
next
  case (Some c)
  from cache_at_row [OF assms Some] obtain s where s: "find_cache_row i d = Some (bind_cache c)"
    "cache_source_id c = i" "\<not> is_nil i" "source_at L d i = Some s" by blast
  from assms have "sources_ok L d" by (simp add: feed_ok_def)
  from source_at_row [OF this s(4)] obtain r where r: "find_source_row i d = Some r"
    "r = bind_source L (so_created_at r) (so_updated_at r) s" by blast
  from r(2) have "so_feed_revision r = uint (src_feed_revision s)" by (metis bind_source_def source_row.select_convs(6))
  with s r(1) Some show ?thesis
    by (simp add: get_cache_def validate_source_id_for_cache_def decode_cache_read_def decode_bind_cache
        cache_revision_def is_fresh_at_def) (auto simp: bind_cache_def word_uint_eq_iff)
qed


section \<open>Publication\<close>

text \<open>The table with a row written under its key.\<close>

definition put_cache :: "feed_cache_row \<Rightarrow> feed_cache_row list \<Rightarrow> feed_cache_row list" where
  "put_cache row rows =
     (if find (\<lambda>r. fc_source_id r = fc_source_id row) rows = None then rows @ [row]
      else update_rows (\<lambda>r. fc_source_id r = fc_source_id row) (\<lambda>_. row) rows)"

lemma find_put_cache:
  "find (\<lambda>r. fc_source_id r = j) (put_cache row rows) =
     (if j = fc_source_id row then Some row else find (\<lambda>r. fc_source_id r = j) rows)"
proof (cases "find (\<lambda>r. fc_source_id r = fc_source_id row) rows")
  case None
  then show ?thesis by (simp add: put_cache_def find_inserted)
next
  case (Some r0)
  then show ?thesis by (simp add: put_cache_def find_updated [OF _ _ Some] find_key [OF Some])
qed

lemma put_cache_distinct: "distinct (map fc_source_id rows) \<Longrightarrow> distinct (map fc_source_id (put_cache row rows))"
  using distinct_inserted [of fc_source_id "fc_source_id row" rows row]
  by (auto simp: put_cache_def update_rows_keys)

lemma set_put_cache: "set (put_cache row rows) \<subseteq> insert row (set rows)"
  by (auto simp: put_cache_def set_update_rows)

lemma validate_candidate_ok:
  "validate_candidate c owner = Inr revision \<longleftrightarrow>
     \<not> is_nil (cand_source_id c) \<and> trim owner \<noteq> [] \<and> cand_xml_bytes c \<noteq> [] \<and> trim (cand_etag c) \<noteq> [] \<and>
     trim (cand_content_hash c) \<noteq> [] \<and> cand_generated_at c < cand_expires_at c \<and>
     unat (cand_feed_revision c) < 2 ^ 63 \<and> revision = uint (cand_feed_revision c)"
  unfolding validate_candidate_def validate_source_id_for_cache_def i64_try_from_def uint_nat
  by (auto simp: result_simps split: if_splits)

text \<open>The outcome of a publication as equations on the tables.\<close>

lemma publish_published:
  assumes "publish_if_current clk c owner token d = (Inr (Published x), d')"
  shows "x = from_candidate c (clk 1) \<and> \<not> is_nil (cand_source_id c) \<and>
     (\<exists>s. find_source_row (cand_source_id c) d = Some s \<and>
        cache_revision (so_feed_revision s) = Inr (cand_feed_revision c)) \<and>
     (\<forall>n \<le> 2. lease_is_live (clk n) (cand_source_id c) owner token d) \<and>
     (\<forall>old. find_cache_row (cand_source_id c) d = Some old \<longrightarrow> cache_superseded old (bind_cache x)) \<and>
     d' = d\<lparr>d_feed_cache := put_cache (bind_cache x) (d_feed_cache d),
            d_build_leases := filter (\<lambda>r. \<not> build_lease_live (clk 2) (cand_source_id c) owner token r)
              (d_build_leases d)\<rparr>"
proof -
  let ?i = "cand_source_id c" and ?row = "bind_cache (from_candidate c (clk 1))"
  from assms obtain revision s v where v: "validate_candidate c owner = Inr revision"
    "find_source_row ?i d = Some s" "cache_revision (so_feed_revision s) = Inr v"
    "lease_is_live (clk 0) ?i owner token d" "v = word_of_int revision"
    by (auto simp: publish_if_current_def Let_def split: sum.splits option.splits if_splits)
  from v(1) have valid: "\<not> is_nil ?i" "revision = uint (cand_feed_revision c)"
    by (simp_all add: validate_candidate_ok)
  with v(5) have rev: "v = cand_feed_revision c" by simp
  have row: "\<lparr>fc_source_id = ?i, fc_xml_bytes = cand_xml_bytes c, fc_etag = cand_etag c,
      fc_generated_at = cand_generated_at c, fc_expires_at = cand_expires_at c, fc_feed_revision = revision,
      fc_content_hash = cand_content_hash c, fc_updated_at = clk 1\<rparr> = ?row"
    by (simp add: bind_cache_def from_candidate_def valid)
  from assms v obtain d1 r1 where w: "write_cache_row (clk 1) c revision owner token d = (Some r1, d1)"
    "decode_cache r1 = Inr x" "fst (release_build_lease (clk 2) ?i owner token d1)"
    "d' = snd (release_build_lease (clk 2) ?i owner token d1)"
    by (auto simp: publish_if_current_def Let_def result_simps split: prod.splits option.splits if_splits)
  from w(1) have written: "r1 = ?row" "lease_is_live (clk 1) ?i owner token d"
      "d1 = d\<lparr>d_feed_cache := put_cache ?row (d_feed_cache d)\<rparr>"
      "\<forall>old. find_cache_row ?i d = Some old \<longrightarrow> cache_superseded old ?row"
    unfolding write_cache_row_def row Let_def
    by (auto simp: put_cache_def find_cache_row_def split: option.splits if_splits)
  have "decode_cache ?row = Inr (from_candidate c (clk 1))"
    by (rule decode_bind_cache) (simp add: from_candidate_def valid)
  with w(2) written(1) have x: "x = from_candidate c (clk 1)" by simp
  from w(3) written(3) have "filter (build_lease_live (clk 2) ?i owner token) (d_build_leases d) \<noteq> []"
    by (auto simp: release_build_lease_def)
  then have "lease_is_live (clk 2) ?i owner token d"
    by (auto simp: lease_is_live_def find_None_iff filter_empty_conv)
  moreover have "n \<le> 2 \<longleftrightarrow> n = 0 \<or> n = 1 \<or> n = 2" for n :: nat by auto
  ultimately show ?thesis using v(2,3,4) rev valid(1) written w(4) x
    by (auto simp: release_build_lease_def)
qed

lemma publish_other:
  assumes "publish_if_current clk c owner token d = (Inr r, d')" "\<forall>x. r \<noteq> Published x"
  shows "d_feed_cache d' = d_feed_cache d \<and>
     (\<exists>t. d' = d\<lparr>d_build_leases := filter (\<lambda>r. \<not> build_lease_live t (cand_source_id c) owner token r)
              (d_build_leases d)\<rparr>)"
  using assms by (cases r)
    (auto simp: publish_if_current_def write_cache_row_def release_build_lease_def Let_def result_simps
      split: sum.splits option.splits if_splits)


lemma lease_live_held:
  assumes "build_leases_ok d"
  shows "lease_is_live t i owner token d \<longleftrightarrow>
     (\<exists>l. build_held d i = Some l \<and> le_owner l = owner \<and> le_token l = token \<and> t < le_until l)"
proof (cases "find (\<lambda>r. bl_source_id r = i) (d_build_leases d)")
  case None
  then show ?thesis by (simp add: lease_is_live_def build_find [OF assms] build_held_def)
next
  case (Some r)
  from find_key [OF this] Some show ?thesis
    by (simp add: lease_is_live_def build_find [OF assms] build_held_def build_lease_live_def)
qed

lemma leases_after_release:
  assumes "build_leases_ok d" "lease_is_live t i owner token d"
    "d_build_leases d' = filter (\<lambda>r. \<not> build_lease_live t i owner token r) (d_build_leases d)"
  shows "build_held d' = (build_held d)(i := None)"
proof -
  from assms(2) obtain r where r: "find (build_lease_live t i owner token) (d_build_leases d) = Some r"
    by (auto simp: lease_is_live_def)
  have "find (\<lambda>r. bl_source_id r = j) (d_build_leases d') =
      (if j = i then None else find (\<lambda>r. bl_source_id r = j) (d_build_leases d))" for j
    unfolding assms(3) using assms(1)
    by (intro find_deleted [OF _ _ r]) (simp_all add: build_leases_ok_def build_lease_live_def)
  then show ?thesis by (simp add: build_held_def fun_eq_iff)
qed

lemma source_at_cong: "d_sources d' = d_sources d \<Longrightarrow> source_at L d' = source_at L d"
  by (simp add: source_at_def find_source_row_def fun_eq_iff)

lemma cache_at_cong: "d_feed_cache d' = d_feed_cache d \<Longrightarrow> cache_at d' = cache_at d"
  by (simp add: cache_at_def find_cache_row_def fun_eq_iff)

lemma feed_ok_leases_filtered:
  assumes "feed_ok L d" "d' = d\<lparr>d_build_leases := filter P (d_build_leases d)\<rparr>"
  shows "feed_ok L d'"
proof -
  have "source_at L d' = source_at L d" by (rule source_at_cong) (simp add: assms(2))
  with assms show ?thesis
    by (simp add: feed_ok_def cache_row_ok_def sources_ok_def build_leases_ok_def distinct_map_filter)
qed

lemma published_step:
  assumes ok: "feed_ok L d" and p: "publish_if_current clk c owner token d = (Inr (Published x), d')"
  shows "feed_ok L d' \<and> x = from_candidate c (clk 1) \<and>
     (\<exists>s. source_at L d (cand_source_id c) = Some s \<and> src_feed_revision s = cand_feed_revision c) \<and>
     (\<exists>l. build_held d (cand_source_id c) = Some l \<and> le_owner l = owner \<and> le_token l = token \<and> clk 2 < le_until l) \<and>
     cache_at d' = (cache_at d)(cand_source_id c \<mapsto> x) \<and>
     build_held d' = (build_held d)(cand_source_id c := None) \<and>
     (\<forall>c0. cache_at d (cand_source_id c) = Some c0 \<longrightarrow> cache_evolves c0 x)"
proof -
  let ?i = "cand_source_id c"
  from publish_published [OF p] obtain r where r: "find_source_row ?i d = Some r"
    "cache_revision (so_feed_revision r) = Inr (cand_feed_revision c)" and nil: "\<not> is_nil ?i"
    and live: "lease_is_live (clk 2) ?i owner token d" and x: "x = from_candidate c (clk 1)"
    and d': "d' = d\<lparr>d_feed_cache := put_cache (bind_cache x) (d_feed_cache d),
      d_build_leases := filter (\<lambda>r. \<not> build_lease_live (clk 2) ?i owner token r) (d_build_leases d)\<rparr>"
    and super: "\<forall>old. find_cache_row ?i d = Some old \<longrightarrow> cache_superseded old (bind_cache x)" by auto
  from ok have sok: "sources_ok L d" and bok: "build_leases_ok d" by (simp_all add: feed_ok_def)
  from sources_ok_find [OF sok r(1)] obtain s where s: "decode_source L r = Inr s"
    "r = bind_source L (so_created_at r) (so_updated_at r) s" by (blast elim: source_row_okE)
  from s(2) have "so_feed_revision r = uint (src_feed_revision s)" by (metis bind_source_def source_row.select_convs(6))
  with r(2) have rev: "src_feed_revision s = cand_feed_revision c" by (simp add: cache_revision_def)
  from r(1) s(1) have at: "source_at L d ?i = Some s" by (simp add: source_at_def)
  have sat: "source_at L d' = source_at L d" by (rule source_at_cong) (simp add: d')
  have idx: "cache_source_id x = ?i" by (simp add: x)
  have "cache_row_ok L d' (bind_cache x)"
    unfolding cache_row_ok_def sat by (rule exI [of _ x], rule exI [of _ s]) (simp add: idx nil at rev x from_candidate_def)
  then have "\<forall>r \<in> set (d_feed_cache d'). cache_row_ok L d' r"
    using ok d' set_put_cache [of "bind_cache x" "d_feed_cache d"] unfolding feed_ok_def cache_row_ok_def sat by auto
  then have "feed_ok L d'"
    using ok d' by (simp add: feed_ok_def put_cache_distinct sources_ok_def build_leases_ok_def distinct_map_filter)
  moreover have "cache_at d' = (cache_at d)(?i \<mapsto> x)"
    using d' idx nil by (simp add: fun_eq_iff cache_at_def find_cache_row_def find_put_cache decode_bind_cache)
  moreover have "cache_evolves c0 x" if "cache_at d ?i = Some c0" for c0
  proof -
    from cache_at_row [OF ok that] have "find_cache_row ?i d = Some (bind_cache c0)" "cache_source_id c0 = ?i" by auto
    with super idx show ?thesis by (simp add: superseded_evolves)
  qed
  moreover have "build_held d' = (build_held d)(?i := None)"
    using d' by (intro leases_after_release [OF bok live]) simp
  ultimately show ?thesis using at rev x live by (auto simp: lease_live_held [OF bok])
qed


lemma filter_keyed_length:
  assumes "distinct (map k rows)" "\<And>r. P r \<Longrightarrow> k r = i"
  shows "length (filter P rows) = 1 \<longleftrightarrow> find P rows \<noteq> None"
  using assms(1)
proof (induction rows)
  case (Cons x rows)
  have "filter P rows = []" if "P x"
    using Cons.prems assms(2) [OF that] assms(2) by (auto simp: filter_empty_conv image_iff)
  with Cons show ?case by simp
qed simp

lemma release_iff_live:
  assumes "build_leases_ok d"
  shows "fst (release_build_lease t i owner token d) \<longleftrightarrow> lease_is_live t i owner token d"
  using assms filter_keyed_length [of bl_source_id "d_build_leases d" "build_lease_live t i owner token" i]
  by (simp add: release_build_lease_def lease_is_live_def build_leases_ok_def build_lease_live_def)

lemma live_earlier: "lease_is_live t i owner token d \<Longrightarrow> t' \<le> t \<Longrightarrow> lease_is_live t' i owner token d"
  by (auto simp: lease_is_live_def find_None_iff build_lease_live_def)

lemma lease_is_live_cong: "d_build_leases d' = d_build_leases d \<Longrightarrow> lease_is_live t i owner token d' = lease_is_live t i owner token d"
  by (simp add: lease_is_live_def)

lemma write_cache_row_cases:
  assumes "feed_ok L d" "validate_candidate c owner = Inr revision"
    "lease_is_live t (cand_source_id c) owner token d"
  obtains (written) d1 where "write_cache_row t c revision owner token d = (Some (bind_cache (from_candidate c t)), d1)"
      "d_build_leases d1 = d_build_leases d"
  | (newer) c0 where "write_cache_row t c revision owner token d = (None, d)" "cache_at d (cand_source_id c) = Some c0"
      "\<not> cache_evolves c0 (from_candidate c t)"
proof (cases "find_cache_row (cand_source_id c) d")
  case None
  with assms(2,3) show thesis
    by (intro written [of "snd (write_cache_row t c revision owner token d)"])
      (auto simp: write_cache_row_def Let_def validate_candidate_ok bind_cache_def from_candidate_def)
next
  case (Some old)
  from row_cache_at [OF assms(1) Some] obtain c0 where c0: "old = bind_cache c0" "cache_at d (cand_source_id c) = Some c0"
    by blast
  from cache_at_row [OF assms(1) c0(2)] have key: "cache_source_id c0 = cand_source_id c" by blast
  have row: "bind_cache (from_candidate c t) =
      \<lparr>fc_source_id = cand_source_id c, fc_xml_bytes = cand_xml_bytes c, fc_etag = cand_etag c,
       fc_generated_at = cand_generated_at c, fc_expires_at = cand_expires_at c, fc_feed_revision = revision,
       fc_content_hash = cand_content_hash c, fc_updated_at = t\<rparr>"
    using assms(2) by (simp add: validate_candidate_ok bind_cache_def from_candidate_def)
  show thesis
  proof (cases "cache_superseded old (bind_cache (from_candidate c t))")
    case True
    with Some assms(3) show thesis
      by (intro written [of "snd (write_cache_row t c revision owner token d)"]) (auto simp: write_cache_row_def Let_def row)
  next
    case False
    with superseded_evolves [of "from_candidate c t" c0] key c0(1)
    have "\<not> cache_evolves c0 (from_candidate c t)" by simp
    with False Some assms(3) c0(2) show thesis by (intro newer) (auto simp: write_cache_row_def Let_def row)
  qed
qed

text \<open>While the lease lasts, a valid publication always ends in a result.\<close>

lemma publish_completes:
  assumes "feed_ok L d" "mono clk" "validate_candidate c owner = Inr revision"
    and "source_at L d (cand_source_id c) = Some s" "lease_is_live (clk 3) (cand_source_id c) owner token d"
  shows "\<exists>r d'. publish_if_current clk c owner token d = (Inr r, d')"
proof -
  let ?i = "cand_source_id c"
  from assms(1) have sok: "sources_ok L d" and bok: "build_leases_ok d" by (simp_all add: feed_ok_def)
  from source_at_row [OF sok assms(4)] obtain r where r: "find_source_row ?i d = Some r"
    "r = bind_source L (so_created_at r) (so_updated_at r) s" by blast
  from r(2) have "so_feed_revision r = uint (src_feed_revision s)" by (metis bind_source_def source_row.select_convs(6))
  then have rev: "cache_revision (so_feed_revision r) = Inr (src_feed_revision s)" by (simp add: cache_revision_def)
  have live: "lease_is_live (clk n) ?i owner token d" if "n \<le> 3" for n
    using live_earlier [OF assms(5)] monoD [OF assms(2) that] by blast
  have nil: "decode_cache (bind_cache (from_candidate c (clk 1))) = Inr (from_candidate c (clk 1))"
    using assms(3) by (intro decode_bind_cache) (simp add: validate_candidate_ok)
  show ?thesis
  proof (cases rule: write_cache_row_cases [OF assms(1,3) live [of 1]])
    case 1 then show ?case by simp
  next
    case (2 d1)
    from 2(2) bok have bok1: "build_leases_ok d1" by (simp add: build_leases_ok_def)
    have "fst (release_build_lease (clk 2) ?i owner token d1)"
      using live [of 2] 2(2) by (simp add: release_iff_live [OF bok1] lease_is_live_def)
    then obtain d2 where "release_build_lease (clk 2) ?i owner token d1 = (True, d2)" by (metis prod.collapse)
    with 2 r(1) rev live [of 0] assms(3) nil show ?thesis by (simp add: publish_if_current_def Let_def)
  next
    case (3 c0)
    have "fst (release_build_lease (clk 3) ?i owner token d)"
      using live [of 3] by (simp add: release_iff_live [OF bok])
    then obtain d2 where "release_build_lease (clk 3) ?i owner token d = (True, d2)" by (metis prod.collapse)
    with 3 r(1) rev live [of 0] live [of 2] assms(3) show ?thesis by (simp add: publish_if_current_def Let_def)
  qed
qed


lemma not_published_step:
  assumes ok: "feed_ok L d" and clk: "mono clk" and p: "publish_if_current clk c owner token d = (Inr r, d')"
    and r: "\<forall>x. r \<noteq> Published x"
  shows "feed_ok L d' \<and> cache_at d' = cache_at d \<and> d_sources d' = d_sources d \<and>
     (\<forall>v. r = SourceRevisionChanged v \<longrightarrow>
        (\<exists>s. source_at L d (cand_source_id c) = Some s \<and> src_feed_revision s = v \<and> v \<noteq> cand_feed_revision c)) \<and>
     (r = ExistingCacheNewer \<longrightarrow> build_held d' = (build_held d)(cand_source_id c := None) \<and>
        (\<exists>c0. cache_at d (cand_source_id c) = Some c0 \<and> \<not> cache_evolves c0 (from_candidate c (clk 1))))"
proof (intro conjI allI impI)
  let ?i = "cand_source_id c"
  from ok have sok: "sources_ok L d" and bok: "build_leases_ok d" by (simp_all add: feed_ok_def)
  from publish_other [OF p r] obtain t where
    d': "d' = d\<lparr>d_build_leases := filter (\<lambda>r. \<not> build_lease_live t ?i owner token r) (d_build_leases d)\<rparr>" by blast
  show "feed_ok L d'" by (rule feed_ok_leases_filtered [OF ok d'])
  show "cache_at d' = cache_at d" by (rule cache_at_cong) (simp add: d')
  show "d_sources d' = d_sources d" by (simp add: d')
  from p obtain revision sr v0 where valid: "validate_candidate c owner = Inr revision"
    "find_source_row ?i d = Some sr" "cache_revision (so_feed_revision sr) = Inr v0"
    by (auto simp: publish_if_current_def Let_def split: sum.splits option.splits)
  {
    fix v assume v: "r = SourceRevisionChanged v"
    from sources_ok_find [OF sok valid(2)] obtain s where s: "decode_source L sr = Inr s"
      "sr = bind_source L (so_created_at sr) (so_updated_at sr) s" by (blast elim: source_row_okE)
    from s(2) have "so_feed_revision sr = uint (src_feed_revision s)"
      by (metis bind_source_def source_row.select_convs(6))
    with valid(3) have "v0 = src_feed_revision s" by (simp add: cache_revision_def)
    moreover from p valid v have "v = v0" "v \<noteq> word_of_int revision"
      by (auto simp: publish_if_current_def Let_def result_simps split: prod.splits option.splits if_splits)
    ultimately show "\<exists>s. source_at L d ?i = Some s \<and> src_feed_revision s = v \<and> v \<noteq> cand_feed_revision c"
      using valid(1,2) s(1) by (auto simp: source_at_def validate_candidate_ok)
  }
  assume newer: "r = ExistingCacheNewer"
  with p valid obtain d1 where w: "write_cache_row (clk 1) c revision owner token d = (None, d1)"
    "lease_is_live (clk 2) ?i owner token d1" "release_build_lease (clk 3) ?i owner token d1 = (True, d')"
    by (auto simp: publish_if_current_def Let_def result_simps split: prod.splits option.splits if_splits)
  from w(1) have d1: "d1 = d" by (auto simp: write_cache_row_def Let_def split: if_splits option.splits)
  with w(3) release_iff_live [OF bok, of "clk 3" ?i owner token] have live: "lease_is_live (clk 3) ?i owner token d"
    by simp
  from w(3) d1 show "build_held d' = (build_held d)(?i := None)"
    by (intro leases_after_release [OF bok live]) (auto simp: release_build_lease_def)
  have "lease_is_live (clk 1) ?i owner token d" using live_earlier [OF live] monoD [OF clk, of 1 3] by simp
  from write_cache_row_cases [OF ok valid(1) this] w(1)
  show "\<exists>c0. cache_at d ?i = Some c0 \<and> \<not> cache_evolves c0 (from_candidate c (clk 1))"
    by (metis option.distinct(1) prod.inject)
qed


section \<open>Feeds under everything that happens around them\<close>

text \<open>
  The operations that share the tables of the feed: observations of articles and changes of
  sources, build leases, and publications, each in a transaction of its own.
\<close>

datatype feed_op =
    OnTables article_op
  | OnBuildLease lease_op
  | Publish "nat \<Rightarrow> datetime" feed_cache_candidate rstring uuid

fun feed_step :: "libs \<Rightarrow> chrono \<Rightarrow> pg_env \<Rightarrow> feed_op \<Rightarrow> db \<Rightarrow> db" where
  "feed_step L X E (OnTables op) d = article_step L op d"
| "feed_step L X E (OnBuildLease op) d = lease_step (build_lease_port X E) op d"
| "feed_step L X E (Publish clk c owner token) d = snd (transact (publish_if_current clk c owner token) d)"

fun feed_op_typed :: "libs \<Rightarrow> feed_op \<Rightarrow> bool" where
  "feed_op_typed L (OnTables op) \<longleftrightarrow> article_op_typed L op"
| "feed_op_typed L (OnBuildLease op) \<longleftrightarrow> True"
| "feed_op_typed L (Publish clk c owner token) \<longleftrightarrow> mono clk"

fun keeps_feed :: "feed_op \<Rightarrow> uuid \<Rightarrow> bool" where
  "keeps_feed (OnTables (Source op)) k \<longleftrightarrow> keeps_source op k"
| "keeps_feed _ k \<longleftrightarrow> True"

text \<open>A step that leaves the caches alone and moves the sources forward.\<close>

lemma feed_ok_moved:
  assumes "feed_ok L d" "keeps_sources L stays d d'" "build_leases_ok d'"
    and "d_feed_cache d' = filter (\<lambda>r. stays (fc_source_id r)) (d_feed_cache d)"
  shows "feed_ok L d' \<and> (\<forall>i. stays i \<longrightarrow> cache_at d' i = cache_at d i)"
proof (intro conjI allI impI)
  have "cache_row_ok L d' r" if "r \<in> set (d_feed_cache d')" for r
  proof -
    from that assms(1,4) obtain c s where c: "r = bind_cache c" "\<not> is_nil (cache_source_id c)"
        "source_at L d (cache_source_id c) = Some s" "cache_feed_revision c \<le> src_feed_revision s"
        "stays (cache_source_id c)"
      by (auto simp: feed_ok_def cache_row_ok_def)
    with assms(2) obtain s' where "source_at L d' (cache_source_id c) = Some s'"
        "src_feed_revision s \<le> src_feed_revision s'"
      unfolding keeps_sources_def source_evolves_def by blast
    with c show ?thesis unfolding cache_row_ok_def by (intro exI [of _ c] exI [of _ s']) auto
  qed
  with assms show "feed_ok L d'" by (simp add: feed_ok_def keeps_sources_def distinct_map_filter)
  fix i assume "stays i"
  then show "cache_at d' i = cache_at d i"
    unfolding cache_at_def find_cache_row_def assms(4)
    by (simp add: find_filter_key [of fc_source_id i "\<lambda>r. stays (fc_source_id r)"])
qed

lemma source_step_tables:
  "source_step L op d = d \<or>
   keeps_source op = (\<lambda>_. True) \<and> d_feed_cache (source_step L op d) = d_feed_cache d \<and>
     d_build_leases (source_step L op d) = d_build_leases d \<or>
   (\<exists>i. op = DeleteSource i \<and> d_feed_cache (source_step L op d) = filter (\<lambda>r. fc_source_id r \<noteq> i) (d_feed_cache d) \<and>
      d_build_leases (source_step L op d) = filter (\<lambda>r. bl_source_id r \<noteq> i) (d_build_leases d))"
  by (cases op) (auto simp: transact_def source_insert_def set_enabled_def source_update_op_def source_delete_def
      set_scheduling_gate_def update_schedule_def update_source_row_def bump_feed_revision_def Let_def
      keeps_source_fun split: prod.splits sum.splits option.splits if_splits)

lemma observe_tables:
  "d_sources (article_step L (Observe now x) d) = d_sources d \<and>
   d_feed_cache (article_step L (Observe now x) d) = d_feed_cache d \<and>
   d_build_leases (article_step L (Observe now x) d) = d_build_leases d"
  by (auto simp: transact_def upsert_def merge_into_def insert_article_def update_article_row_def Let_def
      split: prod.splits sum.splits option.splits if_splits)

lemma build_step_tables:
  "d_sources (lease_step (build_lease_port X E) op d) = d_sources d \<and>
   d_feed_cache (lease_step (build_lease_port X E) op d) = d_feed_cache d"
  by (cases op) (auto simp: build_lease_port_def transact_def acquire_build_def heartbeat_build_def release_build_def
      Let_def split: prod.splits sum.splits option.splits if_splits)


definition keeps_feeds :: "libs \<Rightarrow> (uuid \<Rightarrow> bool) \<Rightarrow> db \<Rightarrow> db \<Rightarrow> bool" where
  "keeps_feeds L stays d d' \<longleftrightarrow>
     feed_ok L d' \<and> keeps_sources L stays d d' \<and>
     (\<forall>i c. stays i \<longrightarrow> cache_at d i = Some c \<longrightarrow> (\<exists>c'. cache_at d' i = Some c' \<and> cache_evolves c c'))"

lemma keeps_feeds_refl: "feed_ok L d \<Longrightarrow> keeps_feeds L stays d d"
  by (auto simp: keeps_feeds_def keeps_sources_refl cache_evolves_refl feed_ok_def)

lemma keeps_feeds_moved:
  assumes "feed_ok L d" "keeps_sources L stays d d'" "build_leases_ok d'"
    and "d_feed_cache d' = filter (\<lambda>r. stays (fc_source_id r)) (d_feed_cache d)"
  shows "keeps_feeds L stays d d'"
  using feed_ok_moved [OF assms] assms(2) by (auto simp: keeps_feeds_def intro: cache_evolves_refl)

lemma same_sources_keep:
  assumes "sources_ok L d" "d_sources d' = d_sources d"
  shows "keeps_sources L stays d d'"
  using source_at_cong [OF assms(2), of L] assms by (auto simp: keeps_sources_def sources_ok_def source_evolves_refl)

lemma source_op_keeps_feeds:
  assumes ok: "feed_ok L d" and typed: "op_typed L op"
  shows "keeps_feeds L (keeps_source op) d (source_step L op d)"
proof -
  from ok have L: "libs_ok L" and sok: "sources_ok L d" and bok: "build_leases_ok d" by (simp_all add: feed_ok_def)
  note keep = source_step_keeps [OF L sok typed]
  from source_step_tables [of L op d] show ?thesis
  proof (elim disjE conjE exE)
    assume "source_step L op d = d"
    with keeps_feeds_refl [OF ok] show ?thesis by simp
  next
    assume "keeps_source op = (\<lambda>_. True)" "d_feed_cache (source_step L op d) = d_feed_cache d"
      "d_build_leases (source_step L op d) = d_build_leases d"
    with keep bok show ?thesis by (intro keeps_feeds_moved [OF ok]) (simp_all add: build_leases_ok_def)
  next
    fix i assume "op = DeleteSource i"
      "d_feed_cache (source_step L op d) = filter (\<lambda>r. fc_source_id r \<noteq> i) (d_feed_cache d)"
      "d_build_leases (source_step L op d) = filter (\<lambda>r. bl_source_id r \<noteq> i) (d_build_leases d)"
    with keep bok show ?thesis
      by (intro keeps_feeds_moved [OF ok])
        (simp_all add: build_leases_ok_def distinct_map_filter keeps_source_fun eq_commute)
  qed
qed

lemma publish_keeps_feeds:
  assumes ok: "feed_ok L d" and clk: "mono clk"
  shows "keeps_feeds L stays d (snd (transact (publish_if_current clk c owner token) d))"
proof (cases rule: transact_cases [of "publish_if_current clk c owner token" d])
  case (done_ok r)
  let ?d = "snd (publish_if_current clk c owner token d)"
  from done_ok have p: "publish_if_current clk c owner token d = (Inr r, ?d)" by (simp add: prod_eq_iff)
  from ok have sok: "sources_ok L d" by (simp add: feed_ok_def)
  show ?thesis
  proof (cases "\<exists>x. r = Published x")
    case True
    then obtain x where x: "publish_if_current clk c owner token d = (Inr (Published x), ?d)" using p by metis
    have "d_sources ?d = d_sources d" using publish_published [OF x] by (metis db.select_convs(2) db.surjective db.update_convs(5) db.update_convs(6))
    from same_sources_keep [OF sok this] published_step [OF ok x] done_ok(1) show ?thesis
      by (auto simp: keeps_feeds_def intro: cache_evolves_refl)
  next
    case False
    with not_published_step [OF ok clk p] same_sources_keep [OF sok] done_ok(1) show ?thesis
      by (auto simp: keeps_feeds_def intro: cache_evolves_refl)
  qed
next
  case (rolled_back e)
  with keeps_feeds_refl [OF ok] show ?thesis by simp
qed

lemma feed_step_keeps:
  assumes ok: "feed_ok L d" and E: "pg_env_ok E" and typed: "feed_op_typed L op"
  shows "keeps_feeds L (keeps_feed op) d (feed_step L X E op d)"
proof -
  from ok have sok: "sources_ok L d" and bok: "build_leases_ok d" by (simp_all add: feed_ok_def)
  have still: "keeps_feeds L (\<lambda>_. True) d d'" if "d_sources d' = d_sources d" "build_leases_ok d'"
      "d_feed_cache d' = d_feed_cache d" for d'
    using keeps_feeds_moved [OF ok same_sources_keep [OF sok that(1)] that(2)] that(3) by simp
  consider (observe) now x where "op = OnTables (Observe now x)" | (source) sop where "op = OnTables (Source sop)"
    | (lease) lop where "op = OnBuildLease lop" | (publish) clk c owner token where "op = Publish clk c owner token"
    by (metis article_op.exhaust feed_op.exhaust)
  then show ?thesis
  proof cases
    case observe
    have "keeps_feed op = (\<lambda>_. True)" by (auto simp: observe)
    with still [of "article_step L (Observe now x) d"] observe_tables [of L now x d] bok show ?thesis
      by (metis build_leases_ok_def feed_step.simps(1) observe)
  next
    case source
    have "keeps_feed op = keeps_source sop" by (auto simp: source)
    with source_op_keeps_feeds [OF ok, of sop] typed show ?thesis by (simp add: source)
  next
    case lease
    have "keeps_feed op = (\<lambda>_. True)" by (auto simp: lease)
    moreover have "build_leases_ok (lease_step (build_lease_port X E) lop d)"
      using build_leases.step_inv [of d E X lop] bok E by simp
    ultimately show ?thesis using still build_step_tables [of X E lop d] lease by simp
  next
    case publish
    with publish_keeps_feeds [OF ok] typed show ?thesis by simp
  qed
qed

text \<open>The two tables of the feed under these operations.\<close>

interpretation fc: tracked_table cache_at "\<lambda>d. feed_ok L d \<and> pg_env_ok E" "feed_op_typed L" keeps_feed
  "feed_step L X E" cache_evolves for L X E
  using feed_step_keeps by unfold_locales
    (auto simp: keeps_feeds_def cache_evolves_refl intro: cache_evolves_trans)

interpretation fs: tracked_table "source_at L" "\<lambda>d. feed_ok L d \<and> pg_env_ok E" "feed_op_typed L" keeps_feed
  "feed_step L X E" source_evolves for L X E
  using feed_step_keeps by unfold_locales
    (auto simp: keeps_feeds_def keeps_sources_def source_evolves_refl intro: source_evolves_trans)


section \<open>Properties\<close>

text \<open>
  (C24) A publication is fenced and compares before it writes. Under a clock that does not run
  backwards, from well-formed tables: an error leaves the database as it was. A published document
  is the candidate, rendered from the revision the source still has, written by a caller whose lease
  is live, it never replaces a document of a newer revision or of the same revision generated later,
  and the lease is released with it. A stale candidate or one that is older than the cached document
  leaves the cache alone and is reported as such. And a valid candidate whose lease outlasts the
  transaction always gets one of these answers.
\<close>

theorem feed_publication_fenced:
  assumes "feed_ok L d" "mono clk" "transact (publish_if_current clk c owner token) d = (r, d')"
  shows "feed_ok L d' \<and> d_sources d' = d_sources d \<and>
     (case r of
        Inl e \<Rightarrow> d' = d
      | Inr (Published x) \<Rightarrow>
          x = from_candidate c (clk 1) \<and> cache_at d' = (cache_at d)(cand_source_id c \<mapsto> x) \<and>
          (\<exists>s. source_at L d (cand_source_id c) = Some s \<and> src_feed_revision s = cand_feed_revision c) \<and>
          (\<exists>l. build_held d (cand_source_id c) = Some l \<and> le_owner l = owner \<and> le_token l = token \<and> clk 2 < le_until l) \<and>
          build_held d' = (build_held d)(cand_source_id c := None) \<and>
          (\<forall>c0. cache_at d (cand_source_id c) = Some c0 \<longrightarrow> cache_evolves c0 x)
      | Inr (SourceRevisionChanged v) \<Rightarrow>
          cache_at d' = cache_at d \<and>
          (\<exists>s. source_at L d (cand_source_id c) = Some s \<and> src_feed_revision s = v \<and> v \<noteq> cand_feed_revision c)
      | Inr ExistingCacheNewer \<Rightarrow>
          cache_at d' = cache_at d \<and> build_held d' = (build_held d)(cand_source_id c := None) \<and>
          (\<exists>c0. cache_at d (cand_source_id c) = Some c0 \<and> \<not> cache_evolves c0 (from_candidate c (clk 1)))) \<and>
     ((\<exists>revision. validate_candidate c owner = Inr revision) \<and> (\<exists>s. source_at L d (cand_source_id c) = Some s) \<and>
      (\<exists>l. build_held d (cand_source_id c) = Some l \<and> le_owner l = owner \<and> le_token l = token \<and> clk 3 < le_until l)
      \<longrightarrow> (\<exists>y. r = Inr y))"
proof -
  from assms(1) have bok: "build_leases_ok d" by (simp add: feed_ok_def)
  have answered: "\<exists>y. r = Inr y" if "validate_candidate c owner = Inr revision" "source_at L d (cand_source_id c) = Some s"
      "lease_is_live (clk 3) (cand_source_id c) owner token d" for revision s
    using publish_completes [OF assms(1,2) that] assms(3) by (auto simp: transact_def)
  show ?thesis
  proof (cases r)
    case (Inl e)
    with assms(1,3) answered show ?thesis by (auto simp: transact_Inl lease_live_held [OF bok])
  next
    case (Inr y)
    with assms(3) have p: "publish_if_current clk c owner token d = (Inr y, d')" by (simp add: transact_Inr)
    show ?thesis
    proof (cases y)
      case (Published x)
      with p have px: "publish_if_current clk c owner token d = (Inr (Published x), d')" by simp
      have "d_sources d' = d_sources d" using publish_published [OF px] by auto
      with published_step [OF assms(1) px] Inr Published show ?thesis by auto
    qed (use not_published_step [OF assms(1,2) p] Inr in auto)
  qed
qed

definition example_candidate :: feed_cache_candidate where
  "example_candidate =
     \<lparr>cand_source_id = 7, cand_xml_bytes = [60], cand_etag = lit ''e1'', cand_generated_at = 5,
      cand_expires_at = 500, cand_feed_revision = 4, cand_content_hash = lit ''h1''\<rparr>"

definition example_feed_db :: db where
  "example_feed_db = example_db\<lparr>d_build_leases :=
     [\<lparr>bl_source_id = 7, bl_lease_owner = lit ''w1'', bl_lease_token = 9, bl_lease_until = 1000,
       bl_heartbeat_at = 1, bl_created_at = 1, bl_updated_at = 1\<rparr>]\<rparr>"

lemma example_feed_ok: "feed_ok example_libs example_feed_db"
  using example_libs_ok example_db_ok
  by (simp add: feed_ok_def example_feed_db_def sources_ok_def build_leases_ok_def example_db_def)

lemma example_feed_source: "source_at example_libs example_feed_db 7 = Some example_source"
  using example_source_at source_at_cong [of example_feed_db example_db] by (simp add: example_feed_db_def)

lemma example_publishes:
  "transact (publish_if_current (\<lambda>n. 10 + int n) example_candidate (lit ''w1'') 9) example_feed_db =
     (Inr (Published (from_candidate example_candidate 11)),
      example_feed_db\<lparr>d_feed_cache := [bind_cache (from_candidate example_candidate 11)], d_build_leases := []\<rparr>)"
proof -
  have valid: "validate_candidate example_candidate (lit ''w1'') = Inr 4"
    by (simp add: validate_candidate_def validate_source_id_for_cache_def example_candidate_def is_nil_def
        i64_try_from_def job_eval result_simps)
  show ?thesis
    using valid
    by (simp add: publish_if_current_def Let_def example_candidate_def example_feed_db_def example_db_def
        find_source_row_def bind_source_def example_source_def cache_revision_def u64_try_from_def lease_is_live_def
        build_lease_live_def write_cache_row_def find_cache_row_def release_build_lease_def decode_cache_def
        validate_source_id_for_cache_def is_nil_def from_candidate_def bind_cache_def transact_def result_simps)
qed

theorem feed_publication_fenced_witness:
  "\<exists>x d'. transact (publish_if_current (\<lambda>n. 10 + int n) example_candidate (lit ''w1'') 9) example_feed_db =
     (Inr (Published x), d') \<and> feed_ok example_libs d' \<and> cache_at d' 7 = Some x \<and> build_held d' 7 = None"
proof -
  have "mono (\<lambda>n. 10 + int n)" by (simp add: mono_def)
  from feed_publication_fenced [OF example_feed_ok this example_publishes] show ?thesis
    unfolding example_publishes by (simp add: example_candidate_def)
qed

end
