(* ===== verification/Renderer.thy ===== *)
theory Renderer
  imports Feed "HOL-Library.Product_Lexorder" "HOL-Library.List_Lexorder" "HOL-Library.Multiset"
begin

text \<open>
  The RSS renderer, \<^verbatim>\<open>src/rss/renderer.rs\<close>: validation of a feed snapshot, the order of its
  articles, the channel handed to the rss crate, and the cache candidate made of the serialized
  bytes. Serialization, the hash and the date format are those of crates, the record \<open>rss_libs\<close>.
  The lemmas show that the document does not depend on the order of the input, and that what the
  renderer produces the cache repository accepts.
\<close>

section \<open>Input and output\<close>

record render_article =
  ra_review_id :: rstring
  ra_title :: rstring
  ra_author :: "rstring option"
  ra_summary :: "rstring option"
  ra_original_url :: "rstring option"
  ra_published_at :: datetime
  ra_content_html :: rstring

record render_feed_input =
  ri_source_id :: uuid
  ri_title :: rstring
  ri_feed_url :: rstring
  ri_description :: rstring
  ri_source_revision :: feed_revision
  ri_generated_at :: datetime
  ri_expires_at :: datetime
  ri_articles :: "render_article list"

datatype render_error =
    RenderInvalidSourceId
  | EmptyField string
  | DuplicateReviewId rstring
  | RenderInvalidExpiry
  | InvalidXmlCharacter string
  | Serialization string

text \<open>The parts of the rss crate's channel that the code sets.\<close>

record rss_item =
  it_title :: rstring
  it_guid :: rstring
  it_permalink :: bool
  it_creators :: "rstring list option"
  it_description :: "rstring option"
  it_link :: "rstring option"
  it_pub_date :: rstring
  it_content :: rstring

record rss_channel =
  ch_title :: rstring
  ch_link :: rstring
  ch_description :: rstring
  ch_items :: "rss_item list"

record rss_libs =
  to_rfc2822 :: "datetime \<Rightarrow> rstring"
  write_to :: "rss_channel \<Rightarrow> string + 8 word list"
  sha256_hex :: "8 word list \<Rightarrow> rstring"


section \<open>Validation\<close>

definition validate_required_text :: "string \<Rightarrow> rstring \<Rightarrow> render_error + unit" where
  "validate_required_text field value = (if trim value = [] then Inl (EmptyField field) else Inr ())"

definition xml_char :: "nat \<Rightarrow> bool" where
  "xml_char c \<longleftrightarrow> c = 9 \<or> c = 10 \<or> c = 13 \<or> 32 \<le> c \<and> c \<le> 55295 \<or> 57344 \<le> c \<and> c \<le> 65533 \<or>
     65536 \<le> c \<and> c \<le> 1114111"

definition validate_xml_text :: "string \<Rightarrow> rstring \<Rightarrow> render_error + unit" where
  "validate_xml_text field value =
     (if list_ex (\<lambda>c. \<not> xml_char c) value then Inl (InvalidXmlCharacter field) else Inr ())"

definition validate_xml_opt :: "string \<Rightarrow> rstring option \<Rightarrow> render_error + unit" where
  "validate_xml_opt field value = (case value of None \<Rightarrow> Inr () | Some v \<Rightarrow> validate_xml_text field v)"

definition validate_article_text :: "render_article \<Rightarrow> render_error + unit" where
  "validate_article_text a =
     bindE (validate_required_text ''article review_id'' (ra_review_id a)) (\<lambda>_.
     bindE (validate_required_text ''article title'' (ra_title a)) (\<lambda>_.
     bindE (validate_xml_text ''article review_id'' (ra_review_id a)) (\<lambda>_.
     bindE (validate_xml_text ''article title'' (ra_title a)) (\<lambda>_.
     bindE (validate_xml_text ''article content_html'' (ra_content_html a)) (\<lambda>_.
     bindE (validate_xml_opt ''article author'' (ra_author a)) (\<lambda>_.
     bindE (validate_xml_opt ''article summary'' (ra_summary a)) (\<lambda>_.
       validate_xml_opt ''article original_url'' (ra_original_url a))))))))"

fun validate_articles :: "rstring set \<Rightarrow> render_article list \<Rightarrow> render_error + unit" where
  "validate_articles review_ids [] = Inr ()"
| "validate_articles review_ids (a # rest) =
     bindE (validate_article_text a) (\<lambda>_.
       if ra_review_id a \<in> review_ids then Inl (DuplicateReviewId (ra_review_id a))
       else validate_articles (insert (ra_review_id a) review_ids) rest)"

definition validate_input :: "render_feed_input \<Rightarrow> render_error + unit" where
  "validate_input input =
     (if is_nil (ri_source_id input) then Inl RenderInvalidSourceId
      else
        bindE (validate_required_text ''title'' (ri_title input)) (\<lambda>_.
        bindE (validate_required_text ''feed_url'' (ri_feed_url input)) (\<lambda>_.
        bindE (validate_xml_text ''title'' (ri_title input)) (\<lambda>_.
        bindE (validate_xml_text ''feed_url'' (ri_feed_url input)) (\<lambda>_.
        bindE (validate_xml_text ''description'' (ri_description input)) (\<lambda>_.
          if ri_expires_at input \<le> ri_generated_at input then Inl RenderInvalidExpiry
          else validate_articles {} (ri_articles input)))))))"


section \<open>Rendering\<close>

text \<open>Newest first, then by review id; \<^verbatim>\<open>str\<close> compares bytes, which for UTF-8 is by code points.\<close>

definition feed_order :: "render_article \<Rightarrow> int \<times> rstring" where
  "feed_order a = (- ra_published_at a, ra_review_id a)"

definition non_empty :: "rstring option \<Rightarrow> rstring option" where
  "non_empty value = (case value of None \<Rightarrow> None | Some v \<Rightarrow> if trim v = [] then None else Some v)"

definition to_rss_item :: "rss_libs \<Rightarrow> render_article \<Rightarrow> rss_item" where
  "to_rss_item R a =
     \<lparr>it_title = ra_title a, it_guid = ra_review_id a, it_permalink = False,
      it_creators = map_option (\<lambda>author. [author]) (non_empty (ra_author a)),
      it_description = non_empty (ra_summary a), it_link = non_empty (ra_original_url a),
      it_pub_date = to_rfc2822 R (ra_published_at a), it_content = ra_content_html a\<rparr>"

definition render_channel :: "rss_libs \<Rightarrow> render_feed_input \<Rightarrow> rss_channel" where
  "render_channel R input =
     \<lparr>ch_title = ri_title input, ch_link = ri_feed_url input, ch_description = ri_description input,
      ch_items = map (to_rss_item R) (sort_key feed_order (ri_articles input))\<rparr>"

definition render :: "rss_libs \<Rightarrow> render_feed_input \<Rightarrow> render_error + feed_cache_candidate" where
  "render R input =
     bindE (validate_input input) (\<lambda>_.
     bindE (map_err Serialization (write_to R (render_channel R input))) (\<lambda>xml_bytes.
       let content_hash = sha256_hex R xml_bytes in
       Inr \<lparr>cand_source_id = ri_source_id input, cand_xml_bytes = xml_bytes,
            cand_etag = lit ''sha256:'' @ content_hash, cand_generated_at = ri_generated_at input,
            cand_expires_at = ri_expires_at input, cand_feed_revision = ri_source_revision input,
            cand_content_hash = content_hash\<rparr>))"


section \<open>Determinism\<close>

definition article_text_ok :: "render_article \<Rightarrow> bool" where
  "article_text_ok a \<longleftrightarrow> validate_article_text a = Inr ()"

lemma validate_articles_ok:
  "validate_articles ids arts = Inr () \<longleftrightarrow>
     (\<forall>a \<in> set arts. article_text_ok a) \<and> distinct (map ra_review_id arts) \<and>
     ids \<inter> ra_review_id ` set arts = {}"
proof (induction arts arbitrary: ids)
  case (Cons a arts)
  then show ?case by (auto simp: bindE_eq_Inr article_text_ok_def)
qed simp

lemma validate_articles_perm:
  assumes "mset arts = mset arts'"
  shows "validate_articles ids arts = Inr () \<longleftrightarrow> validate_articles ids arts' = Inr ()"
proof -
  from assms have "mset (map ra_review_id arts) = mset (map ra_review_id arts')" by simp
  then have "distinct (map ra_review_id arts) = distinct (map ra_review_id arts')"
    using mset_eq_imp_distinct_iff by blast
  with mset_eq_setD [OF assms] show ?thesis by (simp add: validate_articles_ok)
qed

lemma sort_articles_perm:
  assumes "mset arts = mset arts'" "distinct (map ra_review_id arts)"
  shows "sort_key feed_order arts = sort_key feed_order arts'"
proof (rule sort_key_inj_key_eq)
  show "inj_on feed_order (set arts)"
    using assms(2) by (auto simp: feed_order_def distinct_map intro!: inj_onI dest: inj_onD)
qed (simp_all add: assms(1))

definition same_feed :: "render_feed_input \<Rightarrow> render_feed_input \<Rightarrow> bool" where
  "same_feed a b \<longleftrightarrow> (\<exists>arts. b = a\<lparr>ri_articles := arts\<rparr> \<and> mset arts = mset (ri_articles a))"

lemma validate_input_perm:
  assumes "same_feed a b"
  shows "validate_input a = Inr () \<longleftrightarrow> validate_input b = Inr ()"
proof -
  from assms obtain arts where b: "b = a\<lparr>ri_articles := arts\<rparr>" "mset arts = mset (ri_articles a)"
    by (auto simp: same_feed_def)
  show ?thesis using validate_articles_perm [OF b(2)] by (simp add: b(1) validate_input_def bindE_eq_Inr)
qed

lemma validate_input_distinct:
  "validate_input a = Inr () \<Longrightarrow> distinct (map ra_review_id (ri_articles a))"
  by (auto simp: validate_input_def bindE_eq_Inr validate_articles_ok split: if_splits)


text \<open>
  (C26) The document does not depend on the order in which the articles arrive. Two snapshots with
  the same articles in any order are both rejected, or both rendered to the same candidate: the same
  bytes, the same hash, the same entity tag.
\<close>

theorem render_ignores_article_order:
  assumes "same_feed a b"
  shows "(\<exists>c. render R a = Inr c \<and> render R b = Inr c) \<or> (\<exists>e e'. render R a = Inl e \<and> render R b = Inl e')"
proof (cases "validate_input a = Inr ()")
  case True
  from assms obtain arts where b: "b = a\<lparr>ri_articles := arts\<rparr>" "mset arts = mset (ri_articles a)"
    by (auto simp: same_feed_def)
  from sort_articles_perm [OF b(2) [symmetric] validate_input_distinct [OF True]]
  have "render R b = render R a"
    using True validate_input_perm [OF assms] by (simp add: render_def render_channel_def b(1))
  then show ?thesis by (cases "render R a") auto
next
  case False
  then obtain e where "validate_input a = Inl e" by (cases "validate_input a") auto
  moreover from False validate_input_perm [OF assms] obtain e' where "validate_input b = Inl e'"
    by (cases "validate_input b") auto
  ultimately show ?thesis by (simp add: render_def)
qed

text \<open>
  What the code relies on: a document is never empty, and a hash is written as hexadecimal digits.
\<close>

definition rss_libs_ok :: "rss_libs \<Rightarrow> bool" where
  "rss_libs_ok R \<longleftrightarrow>
     (\<forall>ch xml. write_to R ch = Inr xml \<longrightarrow> xml \<noteq> []) \<and>
     (\<forall>xml. sha256_hex R xml \<noteq> [] \<and> (\<forall>c \<in> set (sha256_hex R xml). \<not> is_whitespace c))"

lemma trim_eq_Nil_ex: "trim s = [] \<Longrightarrow> c \<in> set s \<Longrightarrow> is_whitespace c"
  by (simp add: trim_eq_Nil_iff)

lemma render_Inr:
  assumes "render R input = Inr c"
  shows "validate_input input = Inr ()" "write_to R (render_channel R input) = Inr (cand_xml_bytes c)"
    "cand_source_id c = ri_source_id input" "cand_feed_revision c = ri_source_revision input"
    "cand_generated_at c = ri_generated_at input" "cand_expires_at c = ri_expires_at input"
    "cand_content_hash c = sha256_hex R (cand_xml_bytes c)" "cand_etag c = lit ''sha256:'' @ cand_content_hash c"
  using assms by (auto simp: render_def bindE_eq_Inr map_err_def Let_def split: sum.splits)

lemma rendered_accepted:
  assumes "rss_libs_ok R" "render R input = Inr c" "trim owner \<noteq> []"
  shows "validate_candidate c owner =
     ok_or CacheRevisionOutOfRange (i64_try_from (unat (ri_source_revision input)))"
proof -
  note c = render_Inr [OF assms(2)]
  from c(1) have "\<not> is_nil (ri_source_id input)" "\<not> ri_expires_at input \<le> ri_generated_at input"
    by (auto simp: validate_input_def bindE_eq_Inr split: if_splits)
  moreover from assms(1) c(2) have "cand_xml_bytes c \<noteq> []" by (auto simp: rss_libs_ok_def)
  moreover have "trim (cand_content_hash c) \<noteq> []" "trim (cand_etag c) \<noteq> []"
    using assms(1) unfolding c(7,8) rss_libs_ok_def trim_eq_Nil_iff
    by (auto simp: lit_def is_whitespace_def) (metis list.set_sel(1))
  ultimately show ?thesis
    using assms(3) by (simp add: validate_candidate_def validate_source_id_for_cache_def c)
qed

lemma sorted_desc:
  assumes "sorted (map feed_order xs)"
  shows "sorted_wrt (\<lambda>a b. ra_published_at b \<le> ra_published_at a) xs"
  using assms unfolding sorted_map
  by (rule sorted_wrt_mono_rel [rotated]) (auto simp: feed_order_def)

text \<open>
  A rendered feed is what the cache repository accepts. When the serializer yields a document,
  the candidate passes every check of the repository but the range of the revision, which it takes
  from the snapshot; it is the serialization of a channel whose items are the articles of the
  snapshot, newest first, each with its review id as a unique identifier that is not a permalink.
\<close>

theorem rendered_feed_publishable:
  assumes "rss_libs_ok R" "render R input = Inr c" "trim owner \<noteq> []"
  shows "validate_candidate c owner =
       ok_or CacheRevisionOutOfRange (i64_try_from (unat (ri_source_revision input))) \<and>
     (\<exists>arts. mset arts = mset (ri_articles input) \<and>
        sorted_wrt (\<lambda>a b. ra_published_at b \<le> ra_published_at a) arts \<and>
        write_to R \<lparr>ch_title = ri_title input, ch_link = ri_feed_url input, ch_description = ri_description input,
            ch_items = map (to_rss_item R) arts\<rparr> = Inr (cand_xml_bytes c) \<and>
        distinct (map (it_guid \<circ> to_rss_item R) arts) \<and> (\<forall>a \<in> set arts. \<not> it_permalink (to_rss_item R a)))"
proof -
  let ?arts = "sort_key feed_order (ri_articles input)"
  note c = render_Inr [OF assms(2)]
  have "mset ?arts = mset (ri_articles input)" by simp
  moreover have "sorted_wrt (\<lambda>a b. ra_published_at b \<le> ra_published_at a) ?arts" by (intro sorted_desc) simp
  moreover have "it_guid \<circ> to_rss_item R = ra_review_id" by (simp add: fun_eq_iff to_rss_item_def)
  moreover have "distinct (map ra_review_id ?arts)"
    using validate_input_distinct [OF c(1)] by (simp add: distinct_map)
  moreover have "\<forall>a \<in> set ?arts. \<not> it_permalink (to_rss_item R a)" by (simp add: to_rss_item_def)
  ultimately show ?thesis
    using rendered_accepted [OF assms] c(2) unfolding render_channel_def
    by (intro conjI exI [of _ ?arts]) simp_all
qed

definition example_rss :: rss_libs where
  "example_rss =
     \<lparr>to_rfc2822 = (\<lambda>_. []), write_to = (\<lambda>ch. Inr (60 # map (\<lambda>i. of_nat (length (it_content i))) (ch_items ch))),
      sha256_hex = (\<lambda>xml. lit ''0a'')\<rparr>"

definition example_render_article :: "string \<Rightarrow> datetime \<Rightarrow> render_article" where
  "example_render_article name published =
     \<lparr>ra_review_id = lit name, ra_title = lit ''title'', ra_author = Some (lit ''author''), ra_summary = None,
      ra_original_url = None, ra_published_at = published, ra_content_html = lit name\<rparr>"

definition example_input :: "render_article list \<Rightarrow> render_feed_input" where
  "example_input arts =
     \<lparr>ri_source_id = 7, ri_title = lit ''feed'', ri_feed_url = lit ''https://h/feed'', ri_description = [],
      ri_source_revision = 4, ri_generated_at = 100, ri_expires_at = 200, ri_articles = arts\<rparr>"

lemmas example_valid_simps =
  validate_input_def example_input_def validate_required_text_def validate_xml_text_def xml_char_def
  validate_article_text_def validate_xml_opt_def example_render_article_def is_nil_def lit_def trim_def
  trim_start_def is_whitespace_def

theorem render_ignores_article_order_witness:
  "render example_rss (example_input [example_render_article ''a'' 5, example_render_article ''bb'' 9]) =
     render example_rss (example_input [example_render_article ''bb'' 9, example_render_article ''a'' 5]) \<and>
   map_err (\<lambda>_. ()) (render example_rss (example_input [example_render_article ''a'' 5, example_render_article ''bb'' 9])) \<noteq> Inl ()"
proof -
  have ok: "validate_input (example_input [example_render_article ''a'' 5, example_render_article ''bb'' 9]) = Inr ()"
    by (simp add: example_valid_simps)
  have "same_feed (example_input [example_render_article ''a'' 5, example_render_article ''bb'' 9])
      (example_input [example_render_article ''bb'' 9, example_render_article ''a'' 5])"
    unfolding same_feed_def
    by (rule exI [of _ "[example_render_article ''bb'' 9, example_render_article ''a'' 5]"]) (simp add: example_input_def)
  note same = render_ignores_article_order [OF this, of example_rss]
  have "\<exists>c. render example_rss (example_input [example_render_article ''a'' 5, example_render_article ''bb'' 9]) = Inr c"
    using ok by (simp add: render_def example_rss_def map_err_def Let_def)
  with same show ?thesis by (auto simp: map_err_def)
qed

theorem rendered_feed_publishable_witness:
  "\<exists>c. render example_rss (example_input [example_render_article ''a'' 5]) = Inr c \<and>
     validate_candidate c (lit ''me'') = Inr 4"
proof -
  have R: "rss_libs_ok example_rss" by (auto simp: rss_libs_ok_def example_rss_def lit_def is_whitespace_def)
  have ok: "validate_input (example_input [example_render_article ''a'' 5]) = Inr ()" by (simp add: example_valid_simps)
  then obtain c where c: "render example_rss (example_input [example_render_article ''a'' 5]) = Inr c"
    by (simp add: render_def example_rss_def map_err_def Let_def)
  have me: "trim (lit ''me'') \<noteq> []" by code_simp
  have "ok_or CacheRevisionOutOfRange (i64_try_from (unat (ri_source_revision (example_input [example_render_article ''a'' 5])))) = Inr 4"
    by (simp add: example_input_def i64_try_from_def ok_or_def)
  with rendered_feed_publishable [OF R c me] c show ?thesis by auto
qed

end
