(* ===== verification/Feed_Rebuild.thy ===== *)
theory Feed_Rebuild
  imports Asset_Urls Renderer Worker
begin

text \<open>
  The rebuild of a feed from the database, \<^verbatim>\<open>src/application/feed_rebuild_service.rs\<close>, and its worker
  handler, \<^verbatim>\<open>feed_rebuild_handler.rs\<close>: take the build lease, read the source and its articles, render,
  then publish and complete the claimed job in one transaction; a failure releases the lease.
  A run awaits between its statements, where other sessions (and its own heartbeat task) commit:
  the record \<open>rebuild_run\<close> holds what they do there, what the server clock says, and whether the
  transaction begins and commits. The lemmas show that a run settles its job together with the
  publication or leaves both alone, and that it never leaves a live lease behind.
\<close>

section \<open>Configuration\<close>

record feed_rebuild_config =
  rb_lease_for :: duration
  rb_heartbeat_for :: "duration option"
  rb_cache_ttl :: duration
  rb_feed_url :: rstring
  rb_description :: rstring
  rb_asset_url_root :: "url option"

datatype feed_rebuild_config_error =
    RbInvalidLeaseDuration | RbInvalidHeartbeatDuration | RbInvalidCacheTtl | RbEmptyFeedUrl
  | RbExpiryOutOfRange

definition feed_rebuild_config_new ::
    "duration \<Rightarrow> duration \<Rightarrow> rstring \<Rightarrow> rstring \<Rightarrow> feed_rebuild_config_error + feed_rebuild_config" where
  "feed_rebuild_config_new lease_for cache_ttl feed_url description =
     (if lease_for \<le> 0 then Inl RbInvalidLeaseDuration
      else if cache_ttl \<le> 0 then Inl RbInvalidCacheTtl
      else if trim feed_url = [] then Inl RbEmptyFeedUrl
      else Inr \<lparr>rb_lease_for = lease_for, rb_heartbeat_for = None, rb_cache_ttl = cache_ttl,
                rb_feed_url = feed_url, rb_description = description, rb_asset_url_root = None\<rparr>)"

definition with_heartbeat ::
    "duration \<Rightarrow> feed_rebuild_config \<Rightarrow> feed_rebuild_config_error + feed_rebuild_config" where
  "with_heartbeat heartbeat_for cfg =
     (if heartbeat_for \<le> 0 \<or> heartbeat_for \<ge> rb_lease_for cfg then Inl RbInvalidHeartbeatDuration
      else Inr (cfg\<lparr>rb_heartbeat_for := Some heartbeat_for\<rparr>))"

definition with_asset_url_root :: "url \<Rightarrow> feed_rebuild_config \<Rightarrow> feed_rebuild_config" where
  "with_asset_url_root root cfg = cfg\<lparr>rb_asset_url_root := Some root\<rparr>"


section \<open>Outcomes and errors\<close>

datatype feed_rebuild_outcome =
    RebuildPublished feed_revision
  | RebuildAlreadyActive
  | RebuildRevisionChanged feed_revision
  | RebuildCacheNewer

datatype unit_of_work_error =
    UowTransaction string | UowAssetPreparation string | UowAssetCleanup string | UowDatabaseClock string

datatype source_service_error =
    SvcSource source_repository_error | SvcJob job_repository_error | SvcUnitOfWork unit_of_work_error

datatype feed_rebuild_error =
    RbInvalidSourceId
  | RbJobTypeMismatch uuid
  | RbJobMissingSource uuid
  | RbJobLeaseMissingOwner uuid
  | RbEmptyOwner
  | RbSourceNotFound uuid
  | RbSource source_service_error
  | RbArticles article_repository_error
  | RbLease lease_error
  | RbRender render_error
  | RbCache feed_cache_error
  | RbJob job_repository_error
  | RbUnitOfWork unit_of_work_error
  | RbConfig feed_rebuild_config_error

record feed_rebuild_service =
  rs_config :: feed_rebuild_config
  rs_owner :: rstring

definition feed_rebuild_service_new ::
    "feed_rebuild_config \<Rightarrow> rstring \<Rightarrow> feed_rebuild_error + feed_rebuild_service" where
  "feed_rebuild_service_new config owner =
     (if trim owner = [] then Inl RbEmptyOwner else Inr \<lparr>rs_config = config, rs_owner = trim owner\<rparr>)"

record job_completion =
  jc_job_id :: uuid
  jc_owner :: rstring
  jc_token :: lease_token


section \<open>One run\<close>

text \<open>
  What surrounds a run: the crates, the collation of the database, the policy of the job tables; and
  for this run the server's clock and the fresh token at each statement, the commits of others
  before each statement, whether clock, begin and commit answer. A commit that reports an error may
  or may not have taken effect on the server, the flag of \<open>run_commit\<close>.
\<close>

record 'k rebuild_libs =
  rl_libs :: libs
  rl_assets :: asset_libs
  rl_rss :: rss_libs
  rl_collate :: "rstring \<Rightarrow> 'k"
  rl_policy :: refresh_policy

record rebuild_run =
  run_acquire :: pg_env
  run_token :: uuid
  run_between :: "nat \<Rightarrow> db \<Rightarrow> db"
  run_now :: "string + datetime"
  run_begin :: "string option"
  run_clk :: "nat \<Rightarrow> datetime"
  run_finish :: pg_env
  run_commit :: "(string \<times> bool) option"
  run_release :: pg_env

definition render_article_of :: "libs \<Rightarrow> asset_libs \<Rightarrow> url option \<Rightarrow> article \<Rightarrow> render_article" where
  "render_article_of L A asset_url_root a =
     \<lparr>ra_review_id = na_review_id a, ra_title = na_title a, ra_author = na_author a, ra_summary = na_summary a,
      ra_original_url = na_original_url a, ra_published_at = na_published_at a,
      ra_content_html =
        (case asset_url_root of
           None \<Rightarrow> na_content_html a
         | Some root \<Rightarrow> absolutize_asset_urls L A root (na_content_html a))\<rparr>"

definition rebuild_input ::
    "'k rebuild_libs \<Rightarrow> feed_rebuild_config \<Rightarrow> source \<Rightarrow> article list \<Rightarrow> datetime \<Rightarrow> datetime \<Rightarrow> uuid \<Rightarrow> render_feed_input" where
  "rebuild_input K cfg s articles generated_at expires_at source_id =
     \<lparr>ri_source_id = source_id, ri_title = src_display_name s, ri_feed_url = rb_feed_url cfg,
      ri_description = rb_description cfg, ri_source_revision = src_feed_revision s,
      ri_generated_at = generated_at, ri_expires_at = expires_at,
      ri_articles = map (render_article_of (rl_libs K) (rl_assets K) (rb_asset_url_root cfg)) articles\<rparr>"

definition publish_and_complete ::
    "chrono \<Rightarrow> refresh_policy \<Rightarrow> rebuild_run \<Rightarrow> rstring \<Rightarrow> uuid \<Rightarrow> feed_cache_candidate \<Rightarrow>
     job_completion option \<Rightarrow> datetime \<Rightarrow> db \<Rightarrow> (feed_rebuild_error + publish_result) \<times> db" where
  "publish_and_complete X policy W owner token c completion generated_at d =
     (case publish_if_current (run_clk W) c owner token d of
        (Inl e, d1) \<Rightarrow> (Inl (RbCache e), d1)
      | (Inr publication, d1) \<Rightarrow>
          (case completion of
             None \<Rightarrow> (Inr publication, d1)
           | Some k \<Rightarrow>
               (case pg_apply_outcome X (run_finish W) policy
                   (OutSucceeded (jc_job_id k) (jc_owner k) (jc_token k) generated_at) (d_pg d1) of
                  (Inl e, p) \<Rightarrow> (Inl (RbJob e), d1\<lparr>d_pg := p\<rparr>)
                | (Inr _, p) \<Rightarrow> (Inr publication, d1\<lparr>d_pg := p\<rparr>))))"

text \<open>An error inside drops the unit of work, which rolls it back; then the commit itself.\<close>

definition commit_unit ::
    "(string \<times> bool) option \<Rightarrow> (db \<Rightarrow> (feed_rebuild_error + 'a) \<times> db) \<Rightarrow> db \<Rightarrow> (feed_rebuild_error + 'a) \<times> db" where
  "commit_unit commit tx d =
     (case transact tx d of
        (Inl e, d') \<Rightarrow> (Inl e, d')
      | (Inr x, d') \<Rightarrow>
          (case commit of
             None \<Rightarrow> (Inr x, d')
           | Some (e, applied) \<Rightarrow> (Inl (RbUnitOfWork (UowTransaction e)), if applied then d' else d)))"

fun rebuild_outcome :: "publish_result \<Rightarrow> feed_rebuild_outcome" where
  "rebuild_outcome (Published cache) = RebuildPublished (cache_feed_revision cache)"
| "rebuild_outcome (SourceRevisionChanged current_revision) = RebuildRevisionChanged current_revision"
| "rebuild_outcome ExistingCacheNewer = RebuildCacheNewer"

definition rebuild_with_lease ::
    "('k::linorder) rebuild_libs \<Rightarrow> feed_rebuild_service \<Rightarrow> rebuild_run \<Rightarrow> uuid \<Rightarrow> uuid \<Rightarrow> job_completion option \<Rightarrow>
     db \<Rightarrow> (feed_rebuild_error + feed_rebuild_outcome) \<times> db" where
  "rebuild_with_lease K S W source_id token completion d =
     (let L = rl_libs K; X = lib_chrono L; cfg = rs_config S; d0 = run_between W 0 d in
      case source_find L source_id d0 of
        Inl e \<Rightarrow> (Inl (RbSource (SvcSource e)), d0)
      | Inr None \<Rightarrow> (Inl (RbSourceNotFound source_id), d0)
      | Inr (Some s) \<Rightarrow>
     (let d1 = run_between W 1 d0 in
      case list_for_feed L (rl_collate K) source_id (src_rss_item_limit s) d1 of
        Inl e \<Rightarrow> (Inl (RbArticles e), d1)
      | Inr articles \<Rightarrow>
      case run_now W of Inl e \<Rightarrow> (Inl (RbUnitOfWork (UowDatabaseClock e)), d1) | Inr generated_at \<Rightarrow>
      case checked_add_signed X generated_at (rb_cache_ttl cfg) of
        None \<Rightarrow> (Inl (RbConfig RbExpiryOutOfRange), d1)
      | Some expires_at \<Rightarrow>
      case render (rl_rss K) (rebuild_input K cfg s articles generated_at expires_at source_id) of
        Inl e \<Rightarrow> (Inl (RbRender e), d1)
      | Inr candidate \<Rightarrow>
      case run_begin W of Some e \<Rightarrow> (Inl (RbUnitOfWork (UowTransaction e)), d1) | None \<Rightarrow>
      case commit_unit (run_commit W)
          (publish_and_complete X (rl_policy K) W (rs_owner S) token candidate completion generated_at)
          (run_between W 2 d1) of
        (Inl e, d2) \<Rightarrow> (Inl e, d2)
      | (Inr publication, d2) \<Rightarrow> (Inr (rebuild_outcome publication), d2)))"

definition rebuild_inner ::
    "('k::linorder) rebuild_libs \<Rightarrow> feed_rebuild_service \<Rightarrow> rebuild_run \<Rightarrow> uuid \<Rightarrow> job_completion option \<Rightarrow>
     db \<Rightarrow> (feed_rebuild_error + feed_rebuild_outcome) \<times> db" where
  "rebuild_inner K S W source_id completion d =
     (if is_nil source_id then (Inl RbInvalidSourceId, d)
      else case transact (acquire_build (lib_chrono (rl_libs K)) (run_acquire W) (run_token W) source_id
                            (rs_owner S) (rb_lease_for (rs_config S))) d of
        (Inr None, d') \<Rightarrow> (Inr RebuildAlreadyActive, d')
      | (Inl (LeaseSourceNotFound i), d') \<Rightarrow> (Inl (RbSourceNotFound i), d')
      | (Inl e, d') \<Rightarrow> (Inl (RbLease e), d')
      | (Inr (Some lease), d') \<Rightarrow>
          (case rebuild_with_lease K S W source_id (le_token lease) completion d' of
             (Inl e, d1) \<Rightarrow>
               (Inl e, snd (transact (release_build (run_release W) source_id (rs_owner S) (le_token lease))
                              (run_between W 3 d1)))
           | (Inr outcome, d1) \<Rightarrow> (Inr outcome, d1)))"

definition rebuild ::
    "('k::linorder) rebuild_libs \<Rightarrow> feed_rebuild_service \<Rightarrow> rebuild_run \<Rightarrow> uuid \<Rightarrow> db \<Rightarrow>
     (feed_rebuild_error + feed_rebuild_outcome) \<times> db" where
  "rebuild K S W source_id d = rebuild_inner K S W source_id None d"

definition rebuild_for_job ::
    "('k::linorder) rebuild_libs \<Rightarrow> feed_rebuild_service \<Rightarrow> rebuild_run \<Rightarrow> job_lease \<Rightarrow> db \<Rightarrow>
     (feed_rebuild_error + feed_rebuild_outcome) \<times> db" where
  "rebuild_for_job K S W lease d =
     (let job_id = j_id (l_job lease) in
      if j_type (l_job lease) \<noteq> FeedRebuild then (Inl (RbJobTypeMismatch job_id), d)
      else case j_source_id (l_job lease) of None \<Rightarrow> (Inl (RbJobMissingSource job_id), d) | Some source_id \<Rightarrow>
      case j_lease_owner (l_job lease) of None \<Rightarrow> (Inl (RbJobLeaseMissingOwner job_id), d) | Some owner \<Rightarrow>
      rebuild_inner K S W source_id
        (Some \<lparr>jc_job_id = job_id, jc_owner = owner, jc_token = l_token lease\<rparr>) d)"


section \<open>The worker handler\<close>

datatype feed_rebuild_handler_config_error = RbInvalidRetryAfter

definition feed_rebuild_handler_config_new :: "duration \<Rightarrow> feed_rebuild_handler_config_error + duration" where
  "feed_rebuild_handler_config_new retry_after =
     (if retry_after \<le> 0 then Inl RbInvalidRetryAfter else Inr retry_after)"

definition retry_or_fail :: "chrono \<Rightarrow> datetime \<Rightarrow> duration \<Rightarrow> rstring \<Rightarrow> job_execution + datetime" where
  "retry_or_fail X now retry_after message =
     ok_or (ExFailed (message @ lit ''; retry time is outside the supported range''))
       (checked_add_signed X now retry_after)"

definition classify_outcome :: "chrono \<Rightarrow> feed_rebuild_outcome \<Rightarrow> datetime \<Rightarrow> duration \<Rightarrow> job_execution" where
  "classify_outcome X outcome now retry_after =
     (case outcome of
        RebuildAlreadyActive \<Rightarrow>
          (case retry_or_fail X now retry_after (lit ''feed rebuild is already active'') of
             Inl error \<Rightarrow> error | Inr retry_at \<Rightarrow> ExDeferred retry_at)
      | _ \<Rightarrow> ExCommitted)"

fun permanent_error :: "feed_rebuild_error \<Rightarrow> bool \<times> rstring" where
  "permanent_error (RbSource _) = (False, lit ''feed rebuild storage is temporarily unavailable'')"
| "permanent_error (RbArticles _) = (False, lit ''feed rebuild storage is temporarily unavailable'')"
| "permanent_error (RbLease _) = (False, lit ''feed rebuild storage is temporarily unavailable'')"
| "permanent_error (RbCache _) = (False, lit ''feed rebuild storage is temporarily unavailable'')"
| "permanent_error (RbJob _) = (False, lit ''feed rebuild storage is temporarily unavailable'')"
| "permanent_error (RbUnitOfWork _) = (False, lit ''feed rebuild storage is temporarily unavailable'')"
| "permanent_error _ = (True, lit ''feed rebuild job data is invalid'')"

definition classify_error :: "chrono \<Rightarrow> feed_rebuild_error \<Rightarrow> datetime \<Rightarrow> duration \<Rightarrow> job_execution" where
  "classify_error X error now retry_after =
     (case permanent_error error of (permanent, message) \<Rightarrow>
        if permanent then ExFailed message
        else case retry_or_fail X now retry_after message of
          Inl error \<Rightarrow> error | Inr retry_at \<Rightarrow> ExRetry retry_at message)"

definition execute ::
    "('k::linorder) rebuild_libs \<Rightarrow> feed_rebuild_service \<Rightarrow> duration \<Rightarrow> rebuild_run \<Rightarrow> job_lease \<Rightarrow> datetime \<Rightarrow>
     db \<Rightarrow> job_execution \<times> db" where
  "execute K S retry_after W lease now d =
     (case rebuild_for_job K S W lease d of
        (Inr outcome, d') \<Rightarrow> (classify_outcome (lib_chrono (rl_libs K)) outcome now retry_after, d')
      | (Inl error, d') \<Rightarrow> (classify_error (lib_chrono (rl_libs K)) error now retry_after, d'))"


section \<open>What a run does, step by step\<close>

lemma acquire_frame:
  assumes "transact (acquire_build X E tok k owner lf) d = (r, d')"
  shows "d_pg d' = d_pg d \<and> d_feed_cache d' = d_feed_cache d \<and> d_sources d' = d_sources d \<and>
     d_articles d' = d_articles d \<and> ((\<forall>l. r \<noteq> Inr (Some l)) \<longrightarrow> d' = d)"
  using assms by (auto simp: transact_def acquire_build_def decode_build_lease_def Let_def result_simps
      split: prod.splits sum.splits option.splits if_splits)

lemma release_frame:
  "d_pg (snd (transact (release_build E k owner tok) d)) = d_pg d \<and>
   d_feed_cache (snd (transact (release_build E k owner tok) d)) = d_feed_cache d"
  by (auto simp: transact_def release_build_def split: prod.splits sum.splits option.splits)

lemma publish_frame:
  assumes "publish_if_current clk c owner token d = (Inr r, d')"
  shows "d_pg d' = d_pg d \<and> d_sources d' = d_sources d \<and> d_articles d' = d_articles d"
proof (cases "\<exists>x. r = Published x")
  case True
  with assms publish_published [of clk c owner token d] show ?thesis by auto
next
  case False
  with publish_other [OF assms] show ?thesis by auto
qed

lemma rebuild_inner_cases:
  assumes "rebuild_inner K S W i completion d = (r, d')"
  obtains (refused) "d' = d" "r = Inr RebuildAlreadyActive \<or> (\<exists>e. r = Inl e)"
  | (failed) lease da d1 e where "r = Inl e"
      "transact (acquire_build (lib_chrono (rl_libs K)) (run_acquire W) (run_token W) i (rs_owner S)
         (rb_lease_for (rs_config S))) d = (Inr (Some lease), da)"
      "rebuild_with_lease K S W i (le_token lease) completion da = (Inl e, d1)"
      "d' = snd (transact (release_build (run_release W) i (rs_owner S) (le_token lease)) (run_between W 3 d1))"
      "\<not> is_nil i"
  | (finished) lease da out where "r = Inr out"
      "transact (acquire_build (lib_chrono (rl_libs K)) (run_acquire W) (run_token W) i (rs_owner S)
         (rb_lease_for (rs_config S))) d = (Inr (Some lease), da)"
      "rebuild_with_lease K S W i (le_token lease) completion da = (Inr out, d')"
      "\<not> is_nil i"
proof -
  let ?acq = "transact (acquire_build (lib_chrono (rl_libs K)) (run_acquire W) (run_token W) i (rs_owner S)
     (rb_lease_for (rs_config S))) d"
  show thesis
  proof (cases "is_nil i \<or> (\<forall>l. fst ?acq \<noteq> Inr (Some l))")
    case True
    obtain x da where acq: "?acq = (x, da)" by (cases ?acq)
    with True acquire_frame [OF acq] assms have "d' = d" "r = Inr RebuildAlreadyActive \<or> (\<exists>e. r = Inl e)"
      unfolding rebuild_inner_def by (auto split: if_splits sum.splits option.splits lease_error.splits)
    then show thesis by (rule refused)
  next
    case False
    then obtain lease da where acq: "?acq = (Inr (Some lease), da)" "\<not> is_nil i" by (metis prod.collapse)
    obtain y d1 where wl: "rebuild_with_lease K S W i (le_token lease) completion da = (y, d1)"
      by (cases "rebuild_with_lease K S W i (le_token lease) completion da")
    show thesis
    proof (cases y)
      case (Inl e)
      from assms acq wl Inl show thesis by (intro failed [of e lease da d1]) (auto simp: rebuild_inner_def)
    next
      case (Inr out)
      from assms acq wl Inr show thesis by (intro finished [of out lease da]) (auto simp: rebuild_inner_def)
    qed
  qed
qed

text \<open>A run that ends well: what it read where, and its transaction.\<close>

lemma with_lease_Inr:
  assumes "rebuild_with_lease K S W i tok completion d = (Inr out, d')"
  obtains s articles g e c pub where
    "source_find (rl_libs K) i (run_between W 0 d) = Inr (Some s)"
    "list_for_feed (rl_libs K) (rl_collate K) i (src_rss_item_limit s) (run_between W 1 (run_between W 0 d)) = Inr articles"
    "render (rl_rss K) (rebuild_input K (rs_config S) s articles g e i) = Inr c"
    "publish_and_complete (lib_chrono (rl_libs K)) (rl_policy K) W (rs_owner S) tok c completion g
       (run_between W 2 (run_between W 1 (run_between W 0 d))) = (Inr pub, d')"
    "out = rebuild_outcome pub"
proof -
  from assms show thesis
    unfolding rebuild_with_lease_def Let_def commit_unit_def
    by (auto split: sum.splits option.splits prod.splits simp: transact_Inr intro: that)
qed

text \<open>A run that ends in an error changed nothing but what others did, unless a commit that was
  reported as failed took effect.\<close>

lemma with_lease_Inl:
  assumes "rebuild_with_lease K S W i tok completion d = (Inl e, d')" "\<forall>x. run_commit W \<noteq> Some (x, True)"
  shows "d' \<in> {run_between W 0 d, run_between W 1 (run_between W 0 d),
     run_between W 2 (run_between W 1 (run_between W 0 d))}"
  using assms unfolding rebuild_with_lease_def Let_def commit_unit_def
  by (auto split: sum.splits option.splits prod.splits if_splits simp: transact_Inl)

lemma publish_and_complete_Inr:
  assumes "publish_and_complete X policy W owner tok c completion g d = (Inr pub, d')"
  obtains d1 where "publish_if_current (run_clk W) c owner tok d = (Inr pub, d1)" "d' = d1\<lparr>d_pg := d_pg d'\<rparr>"
    "case completion of None \<Rightarrow> d_pg d' = d_pg d
     | Some k \<Rightarrow> \<exists>j. autocommit (pg_apply_outcome X (run_finish W) policy
         (OutSucceeded (jc_job_id k) (jc_owner k) (jc_token k) g)) (d_pg d) = (Inr j, d_pg d')"
proof -
  from assms obtain d1 where p: "publish_if_current (run_clk W) c owner tok d = (Inr pub, d1)"
    by (auto simp: publish_and_complete_def split: prod.splits sum.splits option.splits)
  from that [OF p] publish_frame [OF p] p assms show thesis
    by (auto simp: publish_and_complete_def autocommit_def split: prod.splits sum.splits option.splits)
qed

text \<open>The job's completion in the table is the domain's.\<close>

lemma completed_job:
  assumes "pg_ok s" "autocommit (pg_apply_outcome X E policy (OutSucceeded i owner tok g)) s = (Inr j, s')"
  shows "\<exists>j0 r. map_of (store_of s) i = Some j0 \<and> succeed owner tok (db_now E) j0 = (Inr r, j) \<and>
     map_of (store_of s') i = Some j"
proof -
  from outcome_refines [OF assms(1), of X E policy "OutSucceeded i owner tok g"] assms(2)
  have c: "commit_outcome (OutSucceeded i owner tok (db_now E)) (store_of s) = (Inr j, store_of s')"
    by (simp add: pg_refines_def)
  show ?thesis
  proof (cases "map_of (store_of s) i")
    case None
    with c show ?thesis
      by (simp add: commit_outcome_exact succeed_in_store_def transition_None snapshot_def)
  next
    case (Some j0)
    with c show ?thesis
      by (cases "succeed owner tok (db_now E) j0"; cases "fst (succeed owner tok (db_now E) j0)")
        (auto simp: commit_outcome_exact succeed_in_store_def transition_Some snapshot_def,
         metis AList.update_conv fun_upd_same)
  qed
qed


section \<open>Correct runs\<close>

text \<open>
  What others may do during a run. \<open>quiet_run\<close>: they commit nothing to the job and cache tables.
  \<open>lawful_run\<close>: they keep the tables well formed, the revision of the source does not go back, it
  moves whenever they change what the feed of the source shows, and a deleted source stays deleted.
\<close>

definition quiet_run :: "rebuild_run \<Rightarrow> bool" where
  "quiet_run W \<longleftrightarrow>
     (\<forall>n x. d_pg (run_between W n x) = d_pg x \<and> d_feed_cache (run_between W n x) = d_feed_cache x)"

definition source_articles :: "uuid \<Rightarrow> db \<Rightarrow> article_row list" where
  "source_articles i d = filter (\<lambda>r. ar_source_id r = i) (d_articles d)"

definition lawful :: "libs \<Rightarrow> uuid \<Rightarrow> db \<Rightarrow> db \<Rightarrow> bool" where
  "lawful L i d d' \<longleftrightarrow>
     (\<forall>s'. source_at L d' i = Some s' \<longrightarrow>
        (\<exists>s. source_at L d i = Some s \<and> src_feed_revision s \<le> src_feed_revision s' \<and>
           (src_feed_revision s = src_feed_revision s' \<longrightarrow>
              visible s' = visible s \<and> source_articles i d' = source_articles i d)))"

definition lawful_run :: "libs \<Rightarrow> uuid \<Rightarrow> rebuild_run \<Rightarrow> bool" where
  "lawful_run L i W \<longleftrightarrow>
     (\<forall>n x. feed_ok L x \<longrightarrow> feed_ok L (run_between W n x) \<and> lawful L i x (run_between W n x))"

text \<open>Two states with the same revision and anything in between.\<close>

lemma lawful_snapshot:
  assumes "lawful L i d0 d1" "lawful L i d1 d2" "source_at L d0 i = Some s0" "source_at L d2 i = Some s2"
    and "src_feed_revision s2 = src_feed_revision s0"
  shows "visible s2 = visible s0 \<and> source_articles i d2 = source_articles i d1"
proof -
  from assms(2,4) obtain s1 where s1: "source_at L d1 i = Some s1" "src_feed_revision s1 \<le> src_feed_revision s2"
      "src_feed_revision s1 = src_feed_revision s2 \<Longrightarrow> visible s2 = visible s1 \<and> source_articles i d2 = source_articles i d1"
    unfolding lawful_def by blast
  from assms(1,3) s1(1) have s0: "src_feed_revision s0 \<le> src_feed_revision s1"
      "src_feed_revision s0 = src_feed_revision s1 \<Longrightarrow> visible s1 = visible s0"
    unfolding lawful_def by auto
  with s1 assms(5) show ?thesis by simp
qed

lemma list_for_feed_cong:
  "source_articles i d = source_articles i d' \<Longrightarrow> list_for_feed L collate i n d = list_for_feed L collate i n d'"
  by (simp add: list_for_feed_def source_articles_def)

lemma source_find_at: "source_find L i d = Inr (Some s) \<Longrightarrow> source_at L d i = Some s"
  by (auto simp: source_find_def source_at_def result_simps split: option.splits)

lemma acquire_feed_ok:
  assumes "feed_ok L d" "pg_env_ok E" "transact (acquire_build X E tok k owner lf) d = (r, d')"
  shows "feed_ok L d'"
proof -
  have "E\<lparr>db_now := db_now E\<rparr> = E" by simp
  with feed_step_keeps [OF assms(1,2), of "OnBuildLease (LAcquire (db_now E) tok k owner lf)" X] assms(3)
  show ?thesis by (simp add: keeps_feeds_def build_lease_port_def)
qed

lemma rebuild_input_visible:
  assumes "visible s' = visible s" "src_feed_revision s' = src_feed_revision s"
  shows "rebuild_input K cfg s' articles g e i = rebuild_input K cfg s articles g e i"
    and "src_rss_item_limit s' = src_rss_item_limit s"
  using assms by (simp_all add: rebuild_input_def visible_def)



lemma quiet_frame:
  assumes "quiet_run W"
  shows "d_pg (run_between W n x) = d_pg x" "d_feed_cache (run_between W n x) = d_feed_cache x"
  using assms by (simp_all add: quiet_run_def)

lemma failed_run_frame:
  assumes "quiet_run W" "\<forall>x. run_commit W \<noteq> Some (x, True)"
    and "rebuild_inner K S W i completion d = (r, d')" "r = Inr RebuildAlreadyActive \<or> (\<exists>e. r = Inl e)"
  shows "d_pg d' = d_pg d \<and> d_feed_cache d' = d_feed_cache d"
  using assms(3)
proof (cases rule: rebuild_inner_cases)
  case (failed lease da d1 e)
  from with_lease_Inl [OF failed(3) assms(2)] have "d_pg d1 = d_pg da \<and> d_feed_cache d1 = d_feed_cache da"
    using quiet_frame [OF assms(1)] by auto
  with acquire_frame [OF failed(2)] show ?thesis
    by (simp add: failed(4) release_frame quiet_frame [OF assms(1)])
next
  case (finished lease da out)
  from with_lease_Inr [OF finished(3)] obtain pub where "out = rebuild_outcome pub" .
  with finished(1) assms(4) show ?thesis by (cases pub) auto
qed simp

lemma finished_run_completes:
  assumes "quiet_run W" "pg_ok (d_pg d)"
    and "rebuild_inner K S W i (Some k) d = (Inr out, d')" "out \<noteq> RebuildAlreadyActive"
  shows "\<exists>j0 r j. map_of (store_of (d_pg d)) (jc_job_id k) = Some j0 \<and>
     succeed (jc_owner k) (jc_token k) (db_now (run_finish W)) j0 = (Inr r, j) \<and>
     map_of (store_of (d_pg d')) (jc_job_id k) = Some j"
  using assms(3)
proof (cases rule: rebuild_inner_cases)
  case (finished lease da out')
  let ?d2 = "run_between W 2 (run_between W 1 (run_between W 0 da))"
  have pg: "d_pg ?d2 = d_pg d" using acquire_frame [OF finished(2)] by (simp add: quiet_frame [OF assms(1)])
  from with_lease_Inr [OF finished(3)] obtain c g pub where
    "publish_and_complete (lib_chrono (rl_libs K)) (rl_policy K) W (rs_owner S) (le_token lease) c (Some k) g ?d2 = (Inr pub, d')" .
  from publish_and_complete_Inr [OF this] obtain j where
    "autocommit (pg_apply_outcome (lib_chrono (rl_libs K)) (run_finish W) (rl_policy K)
       (OutSucceeded (jc_job_id k) (jc_owner k) (jc_token k) g)) (d_pg ?d2) = (Inr j, d_pg d')" by auto
  from completed_job [OF _ this] assms(2) show ?thesis unfolding pg by blast
qed (use assms(4) in auto)

lemma classify_not_committed:
  "classify_error X e now after \<noteq> ExCommitted" "classify_error X e now after \<noteq> ExSucceeded"
  "classify_outcome X out now after = ExCommitted \<longleftrightarrow> out \<noteq> RebuildAlreadyActive"
  "classify_outcome X out now after \<noteq> ExSucceeded"
  by (auto simp: classify_error_def classify_outcome_def retry_or_fail_def ok_or_def split: prod.splits sum.splits
      option.splits if_splits feed_rebuild_outcome.splits)

lemma rebuild_for_job_cases:
  assumes "rebuild_for_job K S W lease d = (r, d')"
  obtains (rejected) e where "r = Inl e" "d' = d"
  | (ran) i owner where "j_lease_owner (l_job lease) = Some owner"
      "rebuild_inner K S W i (Some \<lparr>jc_job_id = j_id (l_job lease), jc_owner = owner, jc_token = l_token lease\<rparr>) d = (r, d')"
  using assms by (auto simp: rebuild_for_job_def Let_def split: if_splits option.splits)



section \<open>No lease is left behind\<close>

lemma acquire_token:
  assumes "transact (acquire_build X E tok k owner lf) d = (Inr (Some lease), d')"
  shows "le_token lease = tok" "validate_lease_owner k owner = Inr ()"
  using assms by (auto simp: transact_def acquire_build_def decode_build_lease_def validate_inputs_def
      validate_lease_owner_def Let_def result_simps split: prod.splits sum.splits option.splits if_splits)

lemma live_iff: "lease_is_live t i owner tok d \<longleftrightarrow> (\<exists>r \<in> set (d_build_leases d). build_lease_live t i owner tok r)"
  by (simp add: lease_is_live_def find_None_iff Bex_def)

lemma not_live_filtered:
  assumes "d_build_leases d' = filter (\<lambda>r. \<not> build_lease_live u i owner tok r) (d_build_leases d)" "u \<le> t"
  shows "\<not> lease_is_live t i owner tok d'"
  using assms(2) by (auto simp: live_iff assms(1) build_lease_live_def)

lemma not_live_later: "\<not> lease_is_live u i owner tok d \<Longrightarrow> u \<le> t \<Longrightarrow> \<not> lease_is_live t i owner tok d"
  by (auto simp: live_iff build_lease_live_def)

lemma release_not_live:
  assumes "validate_lease_owner i owner = Inr ()" "db_now E \<le> t"
  shows "\<not> lease_is_live t i owner tok (snd (transact (release_build E i owner tok) d))"
proof (cases "find (build_lease_live (db_now E) i owner tok) (d_build_leases d)")
  case None
  then have "\<not> lease_is_live (db_now E) i owner tok d" by (simp add: lease_is_live_def)
  with None assms not_live_later show ?thesis by (simp add: transact_def release_build_def)
next
  case (Some r)
  with assms show ?thesis
    by (intro not_live_filtered [where u = "db_now E" and d = d]) (simp_all add: transact_def release_build_def)
qed

lemma publish_not_live:
  assumes "publish_if_current clk c owner tok d = (Inr pub, d')" "\<forall>n \<le> 3. clk n \<le> t"
  shows "\<not> lease_is_live t (cand_source_id c) owner tok d'"
proof -
  let ?gone = "\<lambda>n. d_build_leases d' =
      filter (\<lambda>r. \<not> build_lease_live (clk n) (cand_source_id c) owner tok r) (d_build_leases d)"
  from assms(1) have "?gone 1 \<or> ?gone 2 \<or> ?gone 3"
  proof (cases pub)
    case (Published x)
    with publish_published [of clk c owner tok d x d'] assms(1) show ?thesis by simp
  next
    case (SourceRevisionChanged v)
    with assms(1) have "?gone 1"
      by (auto simp: publish_if_current_def release_build_lease_def Let_def result_simps
          split: sum.splits option.splits if_splits prod.splits)
    then show ?thesis by simp
  next
    case ExistingCacheNewer
    with assms(1) have "?gone 3"
      by (auto simp: publish_if_current_def write_cache_row_def release_build_lease_def Let_def result_simps
          split: sum.splits option.splits if_splits prod.splits)
    then show ?thesis by simp
  qed
  moreover have "clk 1 \<le> t" "clk 2 \<le> t" "clk 3 \<le> t" using assms(2) by simp_all
  ultimately show ?thesis using not_live_filtered by blast
qed

text \<open>
  (C25) A rebuild leaves no live build lease of its own. However the run ends (published, superseded,
  source gone, rendering or storage failure, failed commit that did or did not take effect) and
  whatever others commit meanwhile, from the last instant at which it talked to the database on,
  no live lease carries its token.
\<close>

theorem rebuild_leaves_no_lease:
  assumes "\<forall>r \<in> set (d_build_leases d). bl_lease_token r \<noteq> run_token W"
    and "rebuild_inner K S W i completion d = (r, d')"
    and "\<forall>n \<le> 3. run_clk W n \<le> t" "db_now (run_release W) \<le> t"
  shows "\<not> lease_is_live t i (rs_owner S) (run_token W) d'"
  using assms(2)
proof (cases rule: rebuild_inner_cases)
  case refused
  with assms(1) show ?thesis by (auto simp: live_iff build_lease_live_def)
next
  case (failed lease da d1 e)
  show ?thesis unfolding failed(4) acquire_token(1) [OF failed(2)]
    by (rule release_not_live [OF acquire_token(2) [OF failed(2)] assms(4)])
next
  case (finished lease da out)
  let ?d2 = "run_between W 2 (run_between W 1 (run_between W 0 da))"
  from with_lease_Inr [OF finished(3)] obtain s articles g e c pub where
    run: "render (rl_rss K) (rebuild_input K (rs_config S) s articles g e i) = Inr c"
      "publish_and_complete (lib_chrono (rl_libs K)) (rl_policy K) W (rs_owner S) (le_token lease) c completion g ?d2 = (Inr pub, d')" .
  from publish_and_complete_Inr [OF run(2)] obtain dp where
    p: "publish_if_current (run_clk W) c (rs_owner S) (le_token lease) ?d2 = (Inr pub, dp)" "d' = dp\<lparr>d_pg := d_pg d'\<rparr>" .
  have "cand_source_id c = i" using render_Inr(3) [OF run(1)] by (simp add: rebuild_input_def)
  with publish_not_live [OF p(1) assms(3)] acquire_token(1) [OF finished(2)]
  show ?thesis by (subst p(2)) (simp add: lease_is_live_def)
qed



section \<open>A run on a concrete database\<close>

definition example_rebuild_libs :: "rstring rebuild_libs" where
  "example_rebuild_libs =
     \<lparr>rl_libs = example_libs, rl_assets = example_asset_libs, rl_rss = example_rss, rl_collate = (\<lambda>s. s),
      rl_policy = example_policy\<rparr>"

definition example_rebuild_service :: feed_rebuild_service where
  "example_rebuild_service =
     \<lparr>rs_config = \<lparr>rb_lease_for = 1000000000, rb_heartbeat_for = None, rb_cache_ttl = 500,
        rb_feed_url = lit ''https://h/feed'', rb_description = [], rb_asset_url_root = None\<rparr>,
      rs_owner = lit ''builder''\<rparr>"

definition example_run :: rebuild_run where
  "example_run =
     \<lparr>run_acquire = example_env 20, run_token = 9, run_between = (\<lambda>n d. d), run_now = Inr 21, run_begin = None,
      run_clk = (\<lambda>n. 30 + int n), run_finish = example_env 40, run_commit = None, run_release = example_env 50\<rparr>"

definition example_rebuild_job :: job where
  "example_rebuild_job = example_claimed\<lparr>j_source_id := Some 7\<rparr>"

definition example_rebuild_lease :: job_lease where
  "example_rebuild_lease = \<lparr>l_job = example_rebuild_job, l_token = 1\<rparr>"

definition example_rebuild_db :: db where
  "example_rebuild_db = example_db\<lparr>d_pg := example_pg\<lparr>pg_jobs := [bind_job example_rebuild_job]\<rparr>\<rparr>"

definition example_built :: feed_cache_candidate where
  "example_built =
     \<lparr>cand_source_id = 7, cand_xml_bytes = [60], cand_etag = lit ''sha256:0a'', cand_generated_at = 21,
      cand_expires_at = 521, cand_feed_revision = 4, cand_content_hash = lit ''0a''\<rparr>"

lemma example_rebuild_job_eq:
  "example_rebuild_job = example_job\<lparr>j_source_id := Some 7, j_status := Running, j_claim_count := 1,
     j_lease_owner := Some example_worker, j_lease_token := Some 1, j_lease_until := Some 1010,
     j_heartbeat_at := Some 10, j_started_at := Some 10, j_updated_at := 10\<rparr>"
  by (simp add: example_rebuild_job_def example_claimed_def example_job_eq job_eval)


lemma example_rebuild_job_ok: "job_ok example_rebuild_job"
  by (simp add: example_rebuild_job_eq example_job_eq job_ok_def validate_persisted_state_def lease_complete_def job_eval)

definition example_build_row :: build_lease_row where
  "example_build_row =
     \<lparr>bl_source_id = 7, bl_lease_owner = lit ''builder'', bl_lease_token = 9, bl_lease_until = 1000000020,
      bl_heartbeat_at = 20, bl_created_at = 20, bl_updated_at = 20\<rparr>"

definition example_leased_db :: db where
  "example_leased_db = example_rebuild_db\<lparr>d_build_leases := [example_build_row]\<rparr>"

lemma example_acquires:
  "transact (acquire_build chrono_ref (example_env 20) 9 7 (lit ''builder'') 1000000000) example_rebuild_db =
     (Inr (Some \<lparr>le_key = 7, le_owner = lit ''builder'', le_token = 9, le_until = 1000000020, le_heartbeat_at = 20\<rparr>),
      example_leased_db)"
  by (simp add: transact_def acquire_build_def validate_inputs_def validate_lease_owner_def is_nil_def
      whole_milliseconds_def chrono_ref_def example_env_def example_rebuild_db_def example_db_def bind_source_def
      example_source_def decode_build_lease_def example_leased_db_def example_build_row_def millis_def lit_def
      trim_def trim_start_def is_whitespace_def Let_def result_simps)

lemma example_finds: "source_find example_libs 7 example_leased_db = Inr (Some example_source)"
  using decode_bind_source [OF example_source_ok]
  by (simp add: source_find_def find_source_row_def example_leased_db_def example_rebuild_db_def example_db_def
      validate_source_id_def is_nil_def) (simp add: bind_source_def example_source_def)

lemma example_renders:
  "render example_rss (rebuild_input example_rebuild_libs (rs_config example_rebuild_service) example_source [] 21 521 7)
     = Inr example_built"
  by (simp add: render_def rebuild_input_def example_rebuild_service_def example_source_def example_rss_def
      render_channel_def example_built_def map_err_def Let_def example_valid_simps)

lemma example_built_valid: "validate_candidate example_built (lit ''builder'') = Inr 4"
  by (simp add: validate_candidate_def validate_source_id_for_cache_def example_built_def is_nil_def
      i64_try_from_def lit_def trim_def trim_start_def is_whitespace_def result_simps)

lemma example_publishes_built:
  "publish_if_current (\<lambda>n. 30 + int n) example_built (lit ''builder'') 9 example_leased_db =
     (Inr (Published (from_candidate example_built 31)),
      example_rebuild_db\<lparr>d_feed_cache := [bind_cache (from_candidate example_built 31)], d_build_leases := []\<rparr>)"
  using example_built_valid
  by (simp add: publish_if_current_def Let_def example_built_def example_leased_db_def example_build_row_def
      example_rebuild_db_def example_db_def find_source_row_def bind_source_def example_source_def cache_revision_def
      u64_try_from_def lease_is_live_def build_lease_live_def write_cache_row_def find_cache_row_def
      release_build_lease_def decode_cache_def validate_source_id_for_cache_def is_nil_def from_candidate_def
      bind_cache_def result_simps)

definition example_finished_job :: job where
  "example_finished_job = snd (succeed example_worker 1 40 example_rebuild_job)"

lemma example_completes:
  "pg_apply_outcome chrono_ref (example_env 40) example_policy (OutSucceeded 77 example_worker 1 21) (d_pg example_rebuild_db) =
     (Inr example_finished_job, (d_pg example_rebuild_db)\<lparr>pg_jobs := [bind_job example_finished_job]\<rparr>)"
proof -
  have su: "succeed example_worker 1 40 example_rebuild_job = (Inr (), example_finished_job)"
    by (simp add: example_finished_job_def example_rebuild_job_eq example_job_eq job_eval)
  have "job_ok example_finished_job"
    using event_result_ok [OF example_rebuild_job_ok, of chrono_ref "EvSucceed example_worker 1 40" example_finished_job] su
    by (simp add: succeeded_True)
  then have d: "decode_job (bind_job example_finished_job) = Inr example_finished_job" by (simp add: decode_job_iff)
  have b: "(release_lease (bind_job example_rebuild_job))\<lparr>r_status := ''succeeded'', r_last_error := None,
      r_finished_at := Some 40, r_updated_at := 40\<rparr> = bind_job example_finished_job"
    by (simp add: bind_job_def release_lease_def example_finished_job_def example_rebuild_job_eq example_job_eq job_eval)
  have f: "fence (example_env 40) 77 example_worker 1 (bind_job example_rebuild_job)"
    by (simp add: fence_def bind_job_def example_env_def example_rebuild_job_eq example_job_eq)
  have v: "pg_validate_owner example_worker = Inr ()" by (simp add: pg_validate_owner_def job_eval)
  show ?thesis
    by (simp add: pg_succeed_def v update_where_def example_rebuild_db_def f b d) (simp add: example_env_def b d)
qed


definition example_rebuilt_db :: db where
  "example_rebuilt_db = example_rebuild_db
     \<lparr>d_pg := (d_pg example_rebuild_db)\<lparr>pg_jobs := [bind_job example_finished_job]\<rparr>,
      d_feed_cache := [bind_cache (from_candidate example_built 31)], d_build_leases := []\<rparr>"

lemma example_parts:
  "rl_libs example_rebuild_libs = example_libs" "rl_rss example_rebuild_libs = example_rss"
  "rl_collate example_rebuild_libs = (\<lambda>s. s)" "rl_policy example_rebuild_libs = example_policy"
  "lib_chrono example_libs = chrono_ref" "rb_cache_ttl (rs_config example_rebuild_service) = 500"
  "rs_owner example_rebuild_service = lit ''builder''" "rb_lease_for (rs_config example_rebuild_service) = 1000000000"
  by (simp_all add: example_rebuild_libs_def example_libs_def example_rebuild_service_def)

lemma example_articles:
  "list_for_feed example_libs (\<lambda>s. s) 7 (src_rss_item_limit example_source) example_leased_db = Inr []"
  by (simp add: list_for_feed_def validate_article_source_def is_nil_def example_source_def example_leased_db_def
      example_rebuild_db_def example_db_def)

lemma example_rebuild_inner:
  "rebuild_inner example_rebuild_libs example_rebuild_service example_run 7
     (Some \<lparr>jc_job_id = 77, jc_owner = example_worker, jc_token = 1\<rparr>) example_rebuild_db =
     (Inr (RebuildPublished 4), example_rebuilt_db)"
proof -
  have ttl: "checked_add_signed chrono_ref 21 500 = Some 521" by (simp add: chrono_ref_def chrono_min_def chrono_max_def)
  have run: "run_acquire example_run = example_env 20" "run_token example_run = 9" "run_between example_run = (\<lambda>n d. d)"
      "run_now example_run = Inr 21" "run_begin example_run = None" "run_clk example_run = (\<lambda>n. 30 + int n)"
      "run_finish example_run = example_env 40" "run_commit example_run = None"
    by (simp_all add: example_run_def)
  have "publish_and_complete chrono_ref example_policy example_run (lit ''builder'') 9 example_built
      (Some \<lparr>jc_job_id = 77, jc_owner = example_worker, jc_token = 1\<rparr>) 21 example_leased_db =
      (Inr (Published (from_candidate example_built 31)), example_rebuilt_db)"
    using example_completes
    by (simp add: publish_and_complete_def run example_publishes_built example_rebuilt_db_def del: pg_apply_outcome.simps)
  then have "rebuild_with_lease example_rebuild_libs example_rebuild_service example_run 7 9
      (Some \<lparr>jc_job_id = 77, jc_owner = example_worker, jc_token = 1\<rparr>) example_leased_db =
      (Inr (RebuildPublished 4), example_rebuilt_db)"
    by (simp add: rebuild_with_lease_def Let_def example_parts run example_finds example_articles ttl example_renders commit_unit_def
        transact_def from_candidate_def) (simp add: example_built_def)
  then show ?thesis by (simp add: rebuild_inner_def example_parts run example_acquires is_nil_def)
qed

lemma example_rebuild_feed_ok: "feed_ok example_libs example_rebuild_db"
  using example_libs_ok example_db_ok
  by (simp add: feed_ok_def example_rebuild_db_def sources_ok_def build_leases_ok_def example_db_def)

lemma example_run_lawful: "lawful_run L i example_run"
  by (simp add: lawful_run_def lawful_def example_run_def)


lemma example_rebuild_pg: "pg_ok (d_pg example_rebuild_db)" "store_of (d_pg example_rebuild_db) = [(77, example_rebuild_job)]"
proof -
  have id: "j_id example_rebuild_job = 77" by (simp add: example_rebuild_job_eq example_job_eq)
  show st: "store_of (d_pg example_rebuild_db) = [(77, example_rebuild_job)]"
    using example_rebuild_job_ok id by (simp add: store_of_def example_rebuild_db_def)
  have "store_ok [(77, example_rebuild_job)]"
    using example_rebuild_job_ok id by (simp add: store_ok_def unique_active_def)
  then show "pg_ok (d_pg example_rebuild_db)"
    using example_rebuild_job_ok by (auto simp: pg_ok_def st row_ok_iff) (auto simp: example_rebuild_db_def)
qed


theorem rebuild_leaves_no_lease_witness:
  "rebuild_inner example_rebuild_libs example_rebuild_service (example_run\<lparr>run_now := Inl ''down''\<rparr>) 7 None example_rebuild_db =
     (Inl (RbUnitOfWork (UowDatabaseClock ''down'')), example_rebuild_db) \<and>
   \<not> lease_is_live 100 7 (lit ''builder'') 9 example_rebuild_db"
proof -
  let ?W = "example_run\<lparr>run_now := Inl ''down''\<rparr>"
  have rel: "snd (transact (release_build (example_env 50) 7 (lit ''builder'') 9) example_leased_db) = example_rebuild_db"
    by (simp add: transact_def release_build_def validate_lease_owner_def is_nil_def example_leased_db_def example_env_def
        example_build_row_def build_lease_live_def lit_def trim_def trim_start_def is_whitespace_def)
      (simp add: example_rebuild_db_def example_db_def)
  have run: "rebuild_inner example_rebuild_libs example_rebuild_service ?W 7 None example_rebuild_db =
      (Inl (RbUnitOfWork (UowDatabaseClock ''down'')), example_rebuild_db)"
  proof -
    have W: "run_acquire ?W = example_env 20" "run_token ?W = 9" "run_between ?W = (\<lambda>n d. d)"
        "run_now ?W = Inl ''down''" "run_release ?W = example_env 50"
      by (simp_all add: example_run_def)
    have "rebuild_with_lease example_rebuild_libs example_rebuild_service ?W 7 9 None example_leased_db =
        (Inl (RbUnitOfWork (UowDatabaseClock ''down'')), example_leased_db)"
      by (simp add: rebuild_with_lease_def Let_def example_parts W example_finds example_articles)
    then show ?thesis by (simp add: rebuild_inner_def example_parts W example_acquires is_nil_def rel)
  qed
  have "\<forall>r \<in> set (d_build_leases example_rebuild_db). bl_lease_token r \<noteq> run_token ?W"
    by (simp add: example_rebuild_db_def example_db_def)
  from rebuild_leaves_no_lease [OF this run, of 100] run show ?thesis
    by (simp add: example_run_def example_env_def example_rebuild_service_def)
qed

end
