(* ===== verification/Feed_Service.thy ===== *)
theory Feed_Service
  imports Feed_Rebuild
begin

text \<open>
  Feed delivery, \<^verbatim>\<open>src/application/feed_service.rs\<close>: serve a fresh cache; otherwise rebuild, wait for a
  fresh cache for a bounded time, and fall back to the expired one. The service talks to a cache, a
  rebuilder and a queue; the locale \<open>feed_backend\<close> states what it relies on, the PostgreSQL cache, the
  rebuild service and the job table interpret it. The wait is a loop that could run forever on a
  clock that stands still; it is shown to end because a sleep lasts as long as it was asked to.
\<close>

section \<open>Requests, deliveries and settings\<close>

record feed_request =
  fr_source_id :: uuid
  fr_if_none_match :: "rstring option"

datatype feed_cache_status = CacheFresh | CacheStale

datatype feed_rebuild_status =
    StNotNeeded | StRebuilt | StEnqueued | StAlreadyActive | StUnavailable

datatype feed_delivery =
    NotModified feed_cache feed_cache_status feed_rebuild_status
  | Cached feed_cache feed_cache_status feed_rebuild_status
  | FeedUnavailable duration feed_rebuild_status

record feed_service_config =
  fs_stale_while_revalidate :: duration
  fs_cache_miss_retry_after :: duration

datatype feed_service_config_error = InvalidStaleWindow | InvalidMissRetryAfter

definition feed_service_config_new :: "duration \<Rightarrow> duration \<Rightarrow> feed_service_config_error + feed_service_config" where
  "feed_service_config_new stale_while_revalidate cache_miss_retry_after =
     (if stale_while_revalidate < 0 then Inl InvalidStaleWindow
      else if cache_miss_retry_after \<le> 0 then Inl InvalidMissRetryAfter
      else Inr \<lparr>fs_stale_while_revalidate = stale_while_revalidate,
                fs_cache_miss_retry_after = cache_miss_retry_after\<rparr>)"

text \<open>
  \<^verbatim>\<open>String::from_utf8_lossy\<close>: well-formed sequences are decoded; the longest prefix of a sequence that
  starts well is replaced by U+FFFD. \<open>next_char b r\<close> is the character that starts with the byte \<open>b\<close>
  and the number of bytes of \<open>r\<close> it takes.
\<close>

definition continuation :: "nat \<Rightarrow> bool" where
  "continuation b \<longleftrightarrow> 128 \<le> b \<and> b \<le> 191"

definition byte_at :: "nat \<Rightarrow> nat list \<Rightarrow> nat" where
  "byte_at n r = (if n < length r then r ! n else 0)"

definition second_byte_ok :: "nat \<Rightarrow> nat \<Rightarrow> bool" where
  "second_byte_ok b c \<longleftrightarrow>
     (if b = 224 then 160 \<le> c \<and> c \<le> 191
      else if b = 237 then 128 \<le> c \<and> c \<le> 159
      else if b = 240 then 144 \<le> c \<and> c \<le> 191
      else if b = 244 then 128 \<le> c \<and> c \<le> 143
      else continuation c)"

definition next_char :: "nat \<Rightarrow> nat list \<Rightarrow> nat \<times> nat" where
  "next_char b r =
     (let c1 = byte_at 0 r; c2 = byte_at 1 r; c3 = byte_at 2 r in
      if b < 128 then (b, 0)
      else if 194 \<le> b \<and> b \<le> 223 then
        (if continuation c1 then ((b - 192) * 64 + (c1 - 128), 1) else (65533, 0))
      else if 224 \<le> b \<and> b \<le> 239 then
        (if \<not> second_byte_ok b c1 then (65533, 0)
         else if \<not> continuation c2 then (65533, 1)
         else ((b - 224) * 4096 + (c1 - 128) * 64 + (c2 - 128), 2))
      else if 240 \<le> b \<and> b \<le> 244 then
        (if \<not> second_byte_ok b c1 then (65533, 0)
         else if \<not> continuation c2 then (65533, 1)
         else if \<not> continuation c3 then (65533, 2)
         else ((b - 240) * 262144 + (c1 - 128) * 4096 + (c2 - 128) * 64 + (c3 - 128), 3))
      else (65533, 0))"

function from_utf8_lossy :: "nat list \<Rightarrow> rstring" where
  "from_utf8_lossy [] = []"
| "from_utf8_lossy (b # r) = fst (next_char b r) # from_utf8_lossy (drop (snd (next_char b r)) r)"
  by pat_completeness auto
termination
  by (relation "measure length") auto

record feed_asset_url_policy =
  ap_server_root_url :: url
  ap_use_absolute_urls :: bool

definition is_compatible :: "libs \<Rightarrow> asset_libs \<Rightarrow> feed_asset_url_policy \<Rightarrow> 8 word list \<Rightarrow> bool" where
  "is_compatible L A policy xml_bytes \<longleftrightarrow>
     (let xml = from_utf8_lossy (map unat xml_bytes) in
      if ap_use_absolute_urls policy then
        \<not> contains_relative_asset_urls A xml \<and>
        \<not> contains_absolute_asset_urls_outside_root L A (ap_server_root_url policy) xml
      else \<not> contains_any_absolute_asset_urls L A xml)"


section \<open>The rebuild queue\<close>

datatype feed_rebuild_enqueue_result = FqEnqueued | FqAlreadyActive

record feed_rebuild_job_config =
  fj_priority :: int
  fj_max_attempts :: u32

datatype feed_rebuild_job_config_error = FjInvalidAttemptLimit

definition feed_rebuild_job_config_new ::
    "int \<Rightarrow> u32 \<Rightarrow> feed_rebuild_job_config_error + feed_rebuild_job_config" where
  "feed_rebuild_job_config_new priority max_attempts =
     (if max_attempts = 0 then Inl FjInvalidAttemptLimit
      else Inr \<lparr>fj_priority = priority, fj_max_attempts = max_attempts\<rparr>)"

definition enqueue_rebuild_job ::
    "(uuid \<Rightarrow> rstring) \<Rightarrow> feed_rebuild_job_config \<Rightarrow> pg_env \<Rightarrow> uuid \<Rightarrow> datetime \<Rightarrow> uuid \<Rightarrow> db \<Rightarrow>
     (job_repository_error + feed_rebuild_enqueue_result) \<times> db" where
  "enqueue_rebuild_job T cfg E uid now source_id d =
     (case enqueue_immediately E uid
         \<lparr>nj_job_type = FeedRebuild, nj_source_id = Some source_id, nj_priority = fj_priority cfg,
          nj_run_after = now, nj_max_attempts = fj_max_attempts cfg,
          nj_payload = JObject [(lit ''source_id'', JString (T source_id))],
          nj_dedupe_key = lit ''feed_rebuild:'' @ T source_id, nj_now = now\<rparr> (d_pg d) of
        (Inl e, p) \<Rightarrow> (Inl e, d\<lparr>d_pg := p\<rparr>)
      | (Inr (Inserted _), p) \<Rightarrow> (Inr FqEnqueued, d\<lparr>d_pg := p\<rparr>)
      | (Inr (AlreadyActive _), p) \<Rightarrow> (Inr FqAlreadyActive, d\<lparr>d_pg := p\<rparr>))"


section \<open>The service\<close>

datatype feed_service_error = FsInvalidSourceId | FsCache feed_cache_error

record feed_service =
  fv_config :: feed_service_config
  fv_policy :: "feed_asset_url_policy option"

text \<open>
  The ports of the service, and what surrounds one request: the server's time at the first read and
  at every later one, the commits of others before each, and the readings of the process clock, the
  first when the wait begins, then one after each read.
\<close>

record feed_ports =
  fp_rebuild :: "uuid \<Rightarrow> db \<Rightarrow> (feed_rebuild_error + feed_rebuild_outcome) \<times> db"
  fp_enqueue :: "uuid \<Rightarrow> db \<Rightarrow> (job_repository_error + feed_rebuild_enqueue_result) \<times> db"

record feed_timeline =
  ft_read_at :: datetime
  ft_poll_at :: "nat \<Rightarrow> datetime"
  ft_between :: "nat \<Rightarrow> db \<Rightarrow> db"
  ft_instant :: "nat \<Rightarrow> nat"

definition cache_is_compatible :: "libs \<Rightarrow> asset_libs \<Rightarrow> feed_service \<Rightarrow> feed_cache \<Rightarrow> bool" where
  "cache_is_compatible L A V c \<longleftrightarrow>
     (case fv_policy V of None \<Rightarrow> True | Some policy \<Rightarrow> is_compatible L A policy (cache_xml_bytes c))"

definition validate_feed_source :: "uuid \<Rightarrow> feed_service_error + unit" where
  "validate_feed_source source_id = (if is_nil source_id then Inl FsInvalidSourceId else Inr ())"

definition lookup_cache :: "datetime \<Rightarrow> uuid \<Rightarrow> db \<Rightarrow> feed_service_error + feed_cache_read option" where
  "lookup_cache now source_id d = map_err FsCache (get_cache now source_id d)"

text \<open>\<^verbatim>\<open>trim_matches\<close> at a character.\<close>

definition trim_matches :: "nat \<Rightarrow> rstring \<Rightarrow> rstring" where
  "trim_matches x s = rev (dropWhile (\<lambda>c. c = x) (rev (dropWhile (\<lambda>c. c = x) s)))"

definition etag_candidate_matches :: "rstring \<Rightarrow> rstring \<Rightarrow> bool" where
  "etag_candidate_matches etag candidate \<longleftrightarrow>
     (let candidate = trim candidate in
      if candidate = lit ''*'' then True
      else let candidate = trim (case strip_prefix (lit ''W/'') candidate of Some rest \<Rightarrow> rest | None \<Rightarrow> candidate)
           in trim_matches 34 candidate = etag)"

definition if_none_match_matches :: "rstring option \<Rightarrow> rstring \<Rightarrow> bool" where
  "if_none_match_matches header etag \<longleftrightarrow>
     (case header of None \<Rightarrow> False | Some h \<Rightarrow> list_ex (etag_candidate_matches etag) (split_on 44 h))"

definition cached_delivery ::
    "feed_request \<Rightarrow> feed_cache \<Rightarrow> feed_cache_status \<Rightarrow> feed_rebuild_status \<Rightarrow> feed_delivery" where
  "cached_delivery request cache status rebuild_status =
     (if if_none_match_matches (fr_if_none_match request) (cache_etag cache)
      then NotModified cache status rebuild_status else Cached cache status rebuild_status)"

definition service_enqueue_rebuild :: "feed_ports \<Rightarrow> uuid \<Rightarrow> db \<Rightarrow> feed_rebuild_status \<times> db" where
  "service_enqueue_rebuild P source_id d =
     (case fp_enqueue P source_id d of
        (Inr FqEnqueued, d') \<Rightarrow> (StEnqueued, d')
      | (Inr FqAlreadyActive, d') \<Rightarrow> (StAlreadyActive, d')
      | (Inl _, d') \<Rightarrow> (StUnavailable, d'))"

definition usable_read :: "(feed_cache \<Rightarrow> bool) \<Rightarrow> feed_cache_read option \<Rightarrow> bool" where
  "usable_read compatible read \<longleftrightarrow>
     (case read of None \<Rightarrow> False | Some r \<Rightarrow> read_fresh r \<and> compatible (read_cache r))"

partial_function (option) poll_cache ::
    "(feed_cache \<Rightarrow> bool) \<Rightarrow> feed_timeline \<Rightarrow> uuid \<Rightarrow> nat \<Rightarrow> nat \<Rightarrow> db \<Rightarrow>
     ((feed_service_error + feed_cache_read option) \<times> db) option" where
  "poll_cache compatible T source_id deadline n d =
     (let d' = ft_between T n d in
      case lookup_cache (ft_poll_at T n) source_id d' of
        Inl e \<Rightarrow> Some (Inl e, d')
      | Inr read \<Rightarrow>
          if usable_read compatible read then Some (Inr read, d')
          else if deadline \<le> ft_instant T (Suc n) then Some (Inr None, d')
          else poll_cache compatible T source_id deadline (Suc n) d')"

definition wait_for :: "feed_service_config \<Rightarrow> nat" where
  "wait_for cfg = (case to_std (fs_cache_miss_retry_after cfg) of Some n \<Rightarrow> n | None \<Rightarrow> 1000000000)"

definition wait_for_fresh_cache ::
    "libs \<Rightarrow> asset_libs \<Rightarrow> feed_service \<Rightarrow> feed_timeline \<Rightarrow> uuid \<Rightarrow> db \<Rightarrow>
     ((feed_service_error + feed_cache_read option) \<times> db) option" where
  "wait_for_fresh_cache L A V T source_id d =
     poll_cache (cache_is_compatible L A V) T source_id (ft_instant T 0 + wait_for (fv_config V)) 0 d"

definition rebuild_status :: "feed_ports \<Rightarrow> uuid \<Rightarrow> db \<Rightarrow> feed_rebuild_status \<times> db" where
  "rebuild_status P source_id d =
     (case fp_rebuild P source_id d of
        (Inr RebuildAlreadyActive, d') \<Rightarrow> (StAlreadyActive, d')
      | (Inr _, d') \<Rightarrow> (StRebuilt, d')
      | (Inl _, d') \<Rightarrow> service_enqueue_rebuild P source_id d')"

definition rebuild_and_deliver ::
    "libs \<Rightarrow> asset_libs \<Rightarrow> feed_service \<Rightarrow> feed_ports \<Rightarrow> feed_timeline \<Rightarrow> feed_request \<Rightarrow> feed_cache option \<Rightarrow> db \<Rightarrow>
     ((feed_service_error + feed_delivery) \<times> db) option" where
  "rebuild_and_deliver L A V P T request stale_cache d =
     (case rebuild_status P (fr_source_id request) d of (status, d1) \<Rightarrow>
      case (if status \<in> {StRebuilt, StAlreadyActive} then wait_for_fresh_cache L A V T (fr_source_id request) d1
            else Some (Inr None, d1)) of
        None \<Rightarrow> None
      | Some (Inl e, d2) \<Rightarrow> Some (Inl e, d2)
      | Some (Inr (Some read), d2) \<Rightarrow> Some (Inr (cached_delivery request (read_cache read) CacheFresh status), d2)
      | Some (Inr None, d2) \<Rightarrow>
          (case stale_cache of
             Some cache \<Rightarrow> Some (Inr (cached_delivery request cache CacheStale status), d2)
           | None \<Rightarrow> Some (Inr (FeedUnavailable (fs_cache_miss_retry_after (fv_config V)) status), d2)))"

definition get_feed ::
    "libs \<Rightarrow> asset_libs \<Rightarrow> feed_service \<Rightarrow> feed_ports \<Rightarrow> feed_timeline \<Rightarrow> feed_request \<Rightarrow> db \<Rightarrow>
     ((feed_service_error + feed_delivery) \<times> db) option" where
  "get_feed L A V P T request d =
     (case validate_feed_source (fr_source_id request) of Inl e \<Rightarrow> Some (Inl e, d) | Inr _ \<Rightarrow>
      case lookup_cache (ft_read_at T) (fr_source_id request) d of
        Inl e \<Rightarrow> Some (Inl e, d)
      | Inr (Some read) \<Rightarrow>
          if read_fresh read \<and> cache_is_compatible L A V (read_cache read)
          then Some (Inr (cached_delivery request (read_cache read) CacheFresh StNotNeeded), d)
          else rebuild_and_deliver L A V P T request
                 (if cache_is_compatible L A V (read_cache read) then Some (read_cache read) else None) d
      | Inr None \<Rightarrow> rebuild_and_deliver L A V P T request None d)"


section \<open>Every request is answered\<close>

text \<open>
  What the code relies on: \<^verbatim>\<open>tokio::time::sleep\<close> lasts at least as long as asked, so between two
  readings the clock moves by what is left, or by 25 milliseconds.
\<close>

definition sleeps :: "feed_timeline \<Rightarrow> nat \<Rightarrow> bool" where
  "sleeps T deadline \<longleftrightarrow>
     (\<forall>n. ft_instant T (Suc n) < deadline \<longrightarrow>
        ft_instant T (Suc n) + min (deadline - ft_instant T (Suc n)) 25000000 \<le> ft_instant T (Suc (Suc n)))"

definition fresh_in :: "libs \<Rightarrow> datetime set \<Rightarrow> uuid \<Rightarrow> db \<Rightarrow> feed_cache \<Rightarrow> bool" where
  "fresh_in L reads i d c \<longleftrightarrow>
     cache_at d i = Some c \<and>
     (\<exists>s t. t \<in> reads \<and> source_at L d i = Some s \<and> is_fresh_at c (src_feed_revision s) t)"

definition sound_cache ::
    "libs \<Rightarrow> datetime set \<Rightarrow> (feed_cache \<Rightarrow> bool) \<Rightarrow> uuid \<Rightarrow> db \<Rightarrow> db \<Rightarrow> feed_cache \<Rightarrow> feed_cache_status \<Rightarrow> bool" where
  "sound_cache L reads compatible i d d' c status \<longleftrightarrow>
     compatible c \<and>
     (case status of CacheFresh \<Rightarrow> fresh_in L reads i d' c | CacheStale \<Rightarrow> cache_at d i = Some c)"

definition sound_delivery ::
    "libs \<Rightarrow> asset_libs \<Rightarrow> feed_service \<Rightarrow> feed_timeline \<Rightarrow> feed_request \<Rightarrow> db \<Rightarrow> db \<Rightarrow> feed_delivery \<Rightarrow> bool" where
  "sound_delivery L A V T request d d' delivery \<longleftrightarrow>
     (let i = fr_source_id request; reads = insert (ft_read_at T) (range (ft_poll_at T));
          sound = sound_cache L reads (cache_is_compatible L A V) i d d';
          matched = (\<lambda>c. if_none_match_matches (fr_if_none_match request) (cache_etag c))
      in case delivery of
           NotModified c status _ \<Rightarrow> matched c \<and> sound c status
         | Cached c status _ \<Rightarrow> \<not> matched c \<and> sound c status
         | FeedUnavailable after _ \<Rightarrow>
             after = fs_cache_miss_retry_after (fv_config V) \<and>
             (\<forall>c. cache_at d i = Some c \<longrightarrow> \<not> cache_is_compatible L A V c))"

lemma sound_cached_delivery:
  assumes "sound_cache L (insert (ft_read_at T) (range (ft_poll_at T))) (cache_is_compatible L A V)
     (fr_source_id request) d d' c status"
  shows "sound_delivery L A V T request d d' (cached_delivery request c status st)"
  using assms by (simp add: sound_delivery_def cached_delivery_def)

text \<open>A look at well-formed tables never fails, and says what the domain says.\<close>

lemma lookup_cases:
  assumes "feed_ok L d" "\<not> is_nil i"
  obtains (hit) r s where "lookup_cache now i d = Inr (Some r)" "cache_at d i = Some (read_cache r)"
      "source_at L d i = Some s" "read_fresh r \<longleftrightarrow> is_fresh_at (read_cache r) (src_feed_revision s) now"
  | (miss) "lookup_cache now i d = Inr None" "cache_at d i = None"
proof (cases "cache_at d i")
  case None
  with get_cache_exact [OF assms(1), of now i] assms(2) show thesis by (intro miss) (simp_all add: lookup_cache_def map_err_def)
next
  case (Some c)
  from cache_at_row [OF assms(1) Some] obtain s where s: "source_at L d i = Some s" by blast
  with get_cache_exact [OF assms(1), of now i] assms(2) Some show thesis
    by (intro hit [where s = s]) (auto simp: lookup_cache_def map_err_def)
qed

locale feed_backend =
  fixes L :: libs
    and inv :: "db \<Rightarrow> bool"
    and P :: feed_ports
  assumes inv_feed: "inv d \<Longrightarrow> feed_ok L d"
    and rebuild_inv: "inv d \<Longrightarrow> inv (snd (fp_rebuild P i d))"
    and enqueue_inv: "inv d \<Longrightarrow> inv (snd (fp_enqueue P i d))"
begin

lemma status_inv: "inv d \<Longrightarrow> inv (snd (rebuild_status P i d))"
  using rebuild_inv [of d i] enqueue_inv [of "snd (fp_rebuild P i d)" i]
  by (auto simp: rebuild_status_def service_enqueue_rebuild_def
      split: prod.splits sum.splits feed_rebuild_outcome.splits feed_rebuild_enqueue_result.splits)

text \<open>The wait ends.\<close>

lemma poll_answers:
  assumes "\<forall>n d. inv d \<longrightarrow> inv (ft_between T n d)" "sleeps T deadline" "\<not> is_nil i" "inv d"
  shows "\<exists>read d'. poll_cache compatible T i deadline n d = Some (Inr read, d') \<and> inv d' \<and>
     (\<forall>r. read = Some r \<longrightarrow> compatible (read_cache r) \<and> fresh_in L (range (ft_poll_at T)) i d' (read_cache r))"
  using assms(4)
proof (induction "deadline - ft_instant T (Suc n)" arbitrary: n d rule: less_induct)
  case less
  let ?d = "ft_between T n d"
  have inv: "inv ?d" using assms(1) less.prems by blast
  have look: "\<exists>read. lookup_cache (ft_poll_at T n) i ?d = Inr read \<and>
      (usable_read compatible read \<longrightarrow> (\<forall>r. read = Some r \<longrightarrow>
         compatible (read_cache r) \<and> fresh_in L (range (ft_poll_at T)) i ?d (read_cache r)))"
    by (cases rule: lookup_cases [OF inv_feed [OF inv] assms(3), of "ft_poll_at T n"])
      (auto simp: usable_read_def fresh_in_def)
  then obtain read where read: "lookup_cache (ft_poll_at T n) i ?d = Inr read"
      "usable_read compatible read \<Longrightarrow> \<forall>r. read = Some r \<longrightarrow>
         compatible (read_cache r) \<and> fresh_in L (range (ft_poll_at T)) i ?d (read_cache r)" by blast
  note step = poll_cache.simps [of compatible T i deadline n d, unfolded Let_def read(1) sum.case]
  show ?case
  proof (cases "usable_read compatible read \<or> deadline \<le> ft_instant T (Suc n)")
    case True
    with read(2) inv show ?thesis unfolding step by auto
  next
    case False
    then have "deadline - ft_instant T (Suc (Suc n)) < deadline - ft_instant T (Suc n)"
    proof -
      from False have early: "ft_instant T (Suc n) < deadline" by simp
      with assms(2) have "ft_instant T (Suc n) + min (deadline - ft_instant T (Suc n)) 25000000 \<le> ft_instant T (Suc (Suc n))"
        unfolding sleeps_def by blast
      with early show ?thesis by (auto simp: min_def split: if_splits)
    qed
    from less.hyps [OF this inv] False show ?thesis unfolding step by simp
  qed
qed

lemma deliver_answers:
  assumes "\<forall>n d. inv d \<longrightarrow> inv (ft_between T n d)" "sleeps T (ft_instant T 0 + wait_for (fv_config V))"
    and "\<not> is_nil (fr_source_id request)" "inv d"
    and "\<And>c. stale = Some c \<longleftrightarrow> cache_at d (fr_source_id request) = Some c \<and> cache_is_compatible L A V c"
  shows "\<exists>delivery d'. rebuild_and_deliver L A V P T request stale d = Some (Inr delivery, d') \<and> inv d' \<and>
     sound_delivery L A V T request d d' delivery"
proof -
  let ?i = "fr_source_id request" and ?ok = "cache_is_compatible L A V"
  obtain status d1 where st: "rebuild_status P ?i d = (status, d1)" by (cases "rebuild_status P ?i d")
  with status_inv [OF assms(4), of ?i] have inv: "inv d1" by simp
  have "\<exists>read d2. (if status \<in> {StRebuilt, StAlreadyActive} then wait_for_fresh_cache L A V T ?i d1
        else Some (Inr None, d1)) = Some (Inr read, d2) \<and> inv d2 \<and>
      (\<forall>r. read = Some r \<longrightarrow> ?ok (read_cache r) \<and> fresh_in L (range (ft_poll_at T)) ?i d2 (read_cache r))"
    using poll_answers [OF assms(1,2,3) inv, of ?ok 0] inv by (auto simp: wait_for_fresh_cache_def)
  then obtain read d2 where run: "(if status \<in> {StRebuilt, StAlreadyActive} then wait_for_fresh_cache L A V T ?i d1
        else Some (Inr None, d1)) = Some (Inr read, d2)" "inv d2"
      "\<And>r. read = Some r \<Longrightarrow> ?ok (read_cache r) \<and> fresh_in L (range (ft_poll_at T)) ?i d2 (read_cache r)" by blast
  note step = rebuild_and_deliver_def [of L A V P T request stale d, unfolded st prod.case run(1) option.case sum.case]
  show ?thesis
  proof (cases read)
    case (Some r)
    with run(3) have "sound_cache L (insert (ft_read_at T) (range (ft_poll_at T))) ?ok ?i d d2 (read_cache r) CacheFresh"
      by (auto simp: sound_cache_def fresh_in_def)
    from sound_cached_delivery [OF this, of status] run(2) show ?thesis unfolding step Some by simp
  next
    case None
    show ?thesis
    proof (cases stale)
      case (Some c)
      with assms(5) [of c] have "sound_cache L (insert (ft_read_at T) (range (ft_poll_at T))) ?ok ?i d d2 c CacheStale"
        by (simp add: sound_cache_def)
      from sound_cached_delivery [OF this, of status] run(2) show ?thesis unfolding step unfolding None Some by simp
    next
      case no: None
      with assms(5) run(2) show ?thesis unfolding step unfolding None no by (auto simp: sound_delivery_def)
    qed
  qed
qed

lemma request_answered:
  assumes "\<forall>n d. inv d \<longrightarrow> inv (ft_between T n d)" "sleeps T (ft_instant T 0 + wait_for (fv_config V))"
    and "\<not> is_nil (fr_source_id request)" "inv d"
  shows "\<exists>delivery d'. get_feed L A V P T request d = Some (Inr delivery, d') \<and> inv d' \<and>
     sound_delivery L A V T request d d' delivery"
proof (cases rule: lookup_cases [OF inv_feed [OF assms(4)] assms(3), of "ft_read_at T"])
  case (1 r s)
  note hit = this
  show ?thesis
  proof (cases "read_fresh r \<and> cache_is_compatible L A V (read_cache r)")
    case True
    with hit have "sound_cache L (insert (ft_read_at T) (range (ft_poll_at T))) (cache_is_compatible L A V)
        (fr_source_id request) d d (read_cache r) CacheFresh"
      by (auto simp: sound_cache_def fresh_in_def)
    from sound_cached_delivery [OF this] True hit(1) assms(3,4) show ?thesis
      by (auto simp: get_feed_def validate_feed_source_def)
  next
    case False
    let ?stale = "if cache_is_compatible L A V (read_cache r) then Some (read_cache r) else None"
    have "?stale = Some c \<longleftrightarrow> cache_at d (fr_source_id request) = Some c \<and> cache_is_compatible L A V c" for c
      using hit(2) by auto
    from deliver_answers [OF assms this] show ?thesis
      unfolding get_feed_def validate_feed_source_def hit(1) using assms(3) by (simp add: if_not_P [OF False])
  qed
next
  case 2
  with assms(3) deliver_answers [OF assms, of None A] show ?thesis by (simp add: get_feed_def validate_feed_source_def)
qed

end


section \<open>The service on the database\<close>

text \<open>A run of the rebuild service among sessions that keep the tables well formed.\<close>

definition orderly_run :: "libs \<Rightarrow> rebuild_run \<Rightarrow> bool" where
  "orderly_run L W \<longleftrightarrow>
     pg_env_ok (run_acquire W) \<and> mono (run_clk W) \<and> (\<forall>n x. feed_ok L x \<longrightarrow> feed_ok L (run_between W n x))"

definition service_ports ::
    "('k::linorder) rebuild_libs \<Rightarrow> feed_rebuild_service \<Rightarrow> rebuild_run \<Rightarrow> (uuid \<Rightarrow> rstring) \<Rightarrow>
     feed_rebuild_job_config \<Rightarrow> pg_env \<Rightarrow> uuid \<Rightarrow> datetime \<Rightarrow> feed_ports" where
  "service_ports K S W text_of cfg E uid now =
     \<lparr>fp_rebuild = rebuild K S W, fp_enqueue = enqueue_rebuild_job text_of cfg E uid now\<rparr>"

lemma feed_ok_jobs [simp]: "feed_ok L (d\<lparr>d_pg := p\<rparr>) = feed_ok L d"
proof -
  have "source_at L (d\<lparr>d_pg := p\<rparr>) = source_at L d" by (rule source_at_cong) simp
  then show ?thesis by (simp add: feed_ok_def cache_row_ok_def sources_ok_def build_leases_ok_def)
qed

lemma publish_and_complete_feed_ok:
  assumes "feed_ok L d" "mono (run_clk W)" "publish_and_complete X policy W owner tok c completion g d = (Inr pub, d')"
  shows "feed_ok L d'"
proof -
  from publish_and_complete_Inr [OF assms(3)] obtain d1 where
    p: "publish_if_current (run_clk W) c owner tok d = (Inr pub, d1)" "d' = d1\<lparr>d_pg := d_pg d'\<rparr>" .
  from publish_keeps_feeds [OF assms(1,2), of _ c owner tok] p(1) have "feed_ok L d1"
    by (simp add: keeps_feeds_def transact_def)
  then show ?thesis by (subst p(2)) simp
qed

lemma rebuild_with_lease_feed_ok:
  assumes "feed_ok L d" "orderly_run L W" "rebuild_with_lease K S W i tok completion d = (r, d')"
  shows "feed_ok L d'"
proof -
  let ?d0 = "run_between W 0 d" let ?d1 = "run_between W 1 ?d0" let ?d2 = "run_between W 2 ?d1"
  have ok: "feed_ok L ?d0" "feed_ok L ?d1" "feed_ok L ?d2" "mono (run_clk W)"
    using assms(1,2) by (simp_all add: orderly_run_def)
  have "d' \<in> {?d0, ?d1, ?d2} \<or>
      (\<exists>c g pub. publish_and_complete (lib_chrono (rl_libs K)) (rl_policy K) W (rs_owner S) tok c completion g ?d2 = (Inr pub, d'))"
    using assms(3) unfolding rebuild_with_lease_def Let_def commit_unit_def
    by (auto simp: transact_Inl transact_Inr split: sum.splits option.splits prod.splits if_splits)
  with ok publish_and_complete_feed_ok [OF ok(3,4)] show ?thesis by auto
qed

lemma release_feed_ok: "feed_ok L d \<Longrightarrow> feed_ok L (snd (transact (release_build E k owner tok) d))"
  using feed_ok_leases_filtered [OF _ refl, of L d]
  by (auto simp: transact_def release_build_def split: prod.splits sum.splits option.splits)

lemma rebuild_feed_ok:
  assumes "feed_ok L d" "orderly_run L W"
  shows "feed_ok L (snd (rebuild K S W i d))"
proof -
  obtain r d' where run: "rebuild_inner K S W i None d = (r, d')" by (cases "rebuild_inner K S W i None d")
  from assms(2) have env: "pg_env_ok (run_acquire W)" by (simp add: orderly_run_def)
  from run have "feed_ok L d'"
  proof (cases rule: rebuild_inner_cases)
    case (failed lease da d1 e)
    have "feed_ok L d1"
      by (rule rebuild_with_lease_feed_ok [OF acquire_feed_ok [OF assms(1) env failed(2)] assms(2) failed(3)])
    with assms(2) show ?thesis by (simp add: failed(4) release_feed_ok orderly_run_def)
  next
    case (finished lease da out)
    show ?thesis
      by (rule rebuild_with_lease_feed_ok [OF acquire_feed_ok [OF assms(1) env finished(2)] assms(2) finished(3)])
  qed (use assms(1) in simp)
  with run show ?thesis by (simp add: rebuild_def)
qed

lemma enqueue_feed_ok: "feed_ok L d \<Longrightarrow> feed_ok L (snd (enqueue_rebuild_job text_of cfg E uid now i d))"
  by (auto simp: enqueue_rebuild_job_def split: prod.splits sum.splits enqueue_result.splits)

interpretation fb: feed_backend "rl_libs K" "\<lambda>d. feed_ok (rl_libs K) d \<and> orderly_run (rl_libs K) W"
    "service_ports K S W text_of cfg E uid now" for K S W text_of cfg E uid now
  by unfold_locales (simp_all add: service_ports_def rebuild_feed_ok enqueue_feed_ok)


text \<open>
  (C19) Every request for a feed is answered, and soundly. On well-formed tables, whatever other
  sessions do to them, whether the rebuild publishes, loses, fails or finds another builder: the
  request ends (the wait for a fresh cache is bounded by the configured time, because every sleep
  moves the clock) without an error. A document delivered as fresh is the cached one in the state the
  request ends in, with the source's revision and not expired at a time it was read; one delivered
  as stale is the one that was cached when the request began; both have asset URLs in the configured
  form; the body is left out exactly when the client's validator matches; and a feed is reported
  unavailable only if no usable document was cached when the request began.
\<close>

theorem feed_request_answered:
  assumes "feed_ok (rl_libs K) d" "orderly_run (rl_libs K) W" "\<not> is_nil (fr_source_id request)"
    and "\<forall>n x. feed_ok (rl_libs K) x \<longrightarrow> feed_ok (rl_libs K) (ft_between T n x)"
    and "sleeps T (ft_instant T 0 + wait_for (fv_config V))"
  shows "\<exists>delivery d'.
     get_feed (rl_libs K) A V (service_ports K S W text_of cfg E uid now) T request d = Some (Inr delivery, d') \<and>
     feed_ok (rl_libs K) d' \<and> sound_delivery (rl_libs K) A V T request d d' delivery"
  using fb.request_answered [where K = K and W = W and T = T and V = V and request = request and d = d and A = A
      and S = S and text_of = text_of and cfg = cfg and E = E and uid = uid and now = now] assms by blast

definition example_timeline :: feed_timeline where
  "example_timeline =
     \<lparr>ft_read_at = 5, ft_poll_at = (\<lambda>n. 60 + int n), ft_between = (\<lambda>n d. d), ft_instant = (\<lambda>n. n * 25000000)\<rparr>"

definition example_feed_service :: feed_service where
  "example_feed_service =
     \<lparr>fv_config = \<lparr>fs_stale_while_revalidate = 0, fs_cache_miss_retry_after = 1000000000\<rparr>, fv_policy = None\<rparr>"

definition example_ports :: feed_ports where
  "example_ports = service_ports example_rebuild_libs example_rebuild_service example_run (\<lambda>_. lit ''seven'')
     \<lparr>fj_priority = 0, fj_max_attempts = 3\<rparr> (example_env 70) 78 6"

theorem feed_request_answered_witness:
  "\<exists>delivery d'. get_feed example_libs example_asset_libs example_feed_service example_ports example_timeline
       \<lparr>fr_source_id = 7, fr_if_none_match = None\<rparr> example_rebuild_db = Some (Inr delivery, d') \<and>
     feed_ok example_libs d' \<and>
     sound_delivery example_libs example_asset_libs example_feed_service example_timeline
       \<lparr>fr_source_id = 7, fr_if_none_match = None\<rparr> example_rebuild_db d' delivery"
proof -
  have run: "orderly_run (rl_libs example_rebuild_libs) example_run"
    by (simp add: orderly_run_def example_run_def pg_env_ok_def example_env_def mono_def)
  have sleeps: "sleeps example_timeline (ft_instant example_timeline 0 + wait_for (fv_config example_feed_service))"
    by (simp add: sleeps_def example_timeline_def)
  show ?thesis
    unfolding example_ports_def
    by (rule feed_request_answered [where K = example_rebuild_libs, unfolded example_parts(1),
          OF example_rebuild_feed_ok run [unfolded example_parts(1)] _ _ sleeps])
      (simp_all add: is_nil_def example_timeline_def)
qed


section \<open>Conditional requests\<close>

definition etag_token :: "rstring \<Rightarrow> bool" where
  "etag_token e \<longleftrightarrow> (\<forall>c \<in> set e. c \<noteq> 34 \<and> c \<noteq> 44)"

definition quoted :: "rstring \<Rightarrow> rstring" where
  "quoted e = [34] @ e @ [34]"

lemma trim_ends: "\<not> is_whitespace a \<Longrightarrow> \<not> is_whitespace b \<Longrightarrow> trim (a # s @ [b]) = a # s @ [b]"
  by (simp add: trim_def trim_start_def)

lemma trim_matches_quoted: "34 \<notin> set e \<Longrightarrow> trim_matches 34 (quoted e) = e"
proof -
  assume e: "34 \<notin> set e"
  have keep: "dropWhile (\<lambda>c. c = 34) xs = xs" if "34 \<notin> set xs" for xs :: rstring
    using that by (cases xs) auto
  show ?thesis
  proof (cases e)
    case Nil
    then show ?thesis by (simp add: trim_matches_def quoted_def)
  next
    case (Cons c cs)
    have "trim_matches 34 (quoted e) = rev (dropWhile (\<lambda>c. c = 34) (rev e))"
      using e by (auto simp: trim_matches_def quoted_def Cons)
    also have "\<dots> = e" using e by (simp add: keep)
    finally show ?thesis .
  qed
qed

lemma quoted_candidate:
  assumes "etag_token e'"
  shows "etag_candidate_matches e (quoted e') \<longleftrightarrow> e' = e" "etag_candidate_matches e (lit ''W/'' @ quoted e') \<longleftrightarrow> e' = e"
proof -
  have ws: "\<not> is_whitespace 34" "\<not> is_whitespace 87" by (simp_all add: is_whitespace_def)
  have q: "trim_matches 34 (quoted e') = e'" using assms by (intro trim_matches_quoted) (auto simp: etag_token_def)
  have t: "trim (quoted e') = quoted e'" "trim (lit ''W/'' @ quoted e') = lit ''W/'' @ quoted e'"
    using trim_ends [OF ws(1,1), of e'] trim_ends [OF ws(2,1), of "47 # 34 # e'"] by (simp_all add: quoted_def lit_def)
  show "etag_candidate_matches e (quoted e') \<longleftrightarrow> e' = e"
    unfolding etag_candidate_matches_def t(1) Let_def
    by (simp add: strip_prefix_def quoted_def lit_def) (use q t in \<open>simp add: quoted_def\<close>)
  show "etag_candidate_matches e (lit ''W/'' @ quoted e') \<longleftrightarrow> e' = e"
    unfolding etag_candidate_matches_def t(2) Let_def
    by (simp add: strip_prefix_def lit_def) (use q t in \<open>simp add: quoted_def lit_def\<close>)
qed

lemma if_none_match_single: "44 \<notin> set h \<Longrightarrow> if_none_match_matches (Some h) e \<longleftrightarrow> etag_candidate_matches e h"
  by (simp add: if_none_match_matches_def split_on_none)

text \<open>
  Conditional requests. A validator that quotes an entity tag, as a strong or a weak one,
  matches exactly that tag, whatever other validators stand before or after it in the header; a
  header without any validator matches nothing.
\<close>

theorem conditional_request_matches:
  assumes "etag_token e'"
  shows "(if_none_match_matches (Some (quoted e')) e \<longleftrightarrow> e' = e) \<and>
     (if_none_match_matches (Some (lit ''W/'' @ quoted e')) e \<longleftrightarrow> e' = e) \<and>
     (\<forall>h1 h2. if_none_match_matches (Some (h1 @ [44] @ h2)) e \<longleftrightarrow>
        if_none_match_matches (Some h1) e \<or> if_none_match_matches (Some h2) e) \<and>
     \<not> if_none_match_matches None e"
proof -
  have "44 \<notin> set (quoted e')" "44 \<notin> set (lit ''W/'' @ quoted e')"
    using assms by (auto simp: etag_token_def quoted_def lit_def)
  then show ?thesis
    by (simp add: if_none_match_single quoted_candidate [OF assms])
      (simp add: if_none_match_matches_def split_on_append)
qed

theorem conditional_request_matches_witness:
  "if_none_match_matches (Some (quoted (lit ''sha256:0b'') @ [44] @ lit ''W/'' @ quoted (lit ''sha256:0a''))) (lit ''sha256:0a'')"
proof -
  have "etag_token (lit ''sha256:0a'')" by (simp add: etag_token_def lit_def)
  from conditional_request_matches [OF this, of "lit ''sha256:0a''"] show ?thesis by blast
qed

end
