(* ===== verification/Sync_Run.thy ===== *)
theory Sync_Run
  imports Source
begin

text \<open>
  Synchronization runs: the domain type of \<^verbatim>\<open>src/domain/sync.rs\<close> with its outcome rules, and the
  repository of \<^verbatim>\<open>src/persistence/repositories/sync_run_repository.rs\<close> over the table
  \<^verbatim>\<open>sync_runs\<close> with the constraints of its schema. The theory shows that the domain rules and the
  constraints agree, that a row is always the image of a valid run, that a start can be repeated,
  and that a run ends once.
\<close>

section \<open>Outcomes and failures\<close>

datatype sync_outcome =
    SyncRunning | SyncSucceeded | SyncDeferred | SyncAuthenticationRequired | SyncRiskControlled
  | SyncBlocked | SyncRetryableFailure | SyncFailed

datatype sync_failure_class =
    AuthenticationExpired | ClassRiskControlled | ClassBlocked | Retryable | Permanent

datatype sync_error =
    SyncInvalidId | SyncInvalidSourceId | SyncInvalidJobId | InvalidOutcome | InvalidFailureClass
  | MissingFailure | UnexpectedFailure | MismatchedFailureClass | EmptyFailureMessage
  | FailureMessageTooLong | AlreadyFinished | CompletionBeforeStart

fun outcome_as_str :: "sync_outcome \<Rightarrow> string" where
  "outcome_as_str SyncRunning = ''running''"
| "outcome_as_str SyncSucceeded = ''succeeded''"
| "outcome_as_str SyncDeferred = ''deferred''"
| "outcome_as_str SyncAuthenticationRequired = ''authentication_required''"
| "outcome_as_str SyncRiskControlled = ''risk_controlled''"
| "outcome_as_str SyncBlocked = ''blocked''"
| "outcome_as_str SyncRetryableFailure = ''retryable_failure''"
| "outcome_as_str SyncFailed = ''failed''"

definition outcome_parse :: "string \<Rightarrow> sync_error + sync_outcome" where
  "outcome_parse v =
     (if v = ''running'' then Inr SyncRunning
      else if v = ''succeeded'' then Inr SyncSucceeded
      else if v = ''deferred'' then Inr SyncDeferred
      else if v = ''authentication_required'' then Inr SyncAuthenticationRequired
      else if v = ''risk_controlled'' then Inr SyncRiskControlled
      else if v = ''blocked'' then Inr SyncBlocked
      else if v = ''retryable_failure'' then Inr SyncRetryableFailure
      else if v = ''failed'' then Inr SyncFailed
      else Inl InvalidOutcome)"

definition is_finished :: "sync_outcome \<Rightarrow> bool" where
  "is_finished outcome \<longleftrightarrow> outcome \<noteq> SyncRunning"

definition requires_failure :: "sync_outcome \<Rightarrow> bool" where
  "requires_failure outcome \<longleftrightarrow>
     outcome \<in> {SyncAuthenticationRequired, SyncRiskControlled, SyncBlocked, SyncRetryableFailure, SyncFailed}"

fun class_as_str :: "sync_failure_class \<Rightarrow> string" where
  "class_as_str AuthenticationExpired = ''authentication_expired''"
| "class_as_str ClassRiskControlled = ''risk_controlled''"
| "class_as_str ClassBlocked = ''blocked''"
| "class_as_str Retryable = ''retryable''"
| "class_as_str Permanent = ''permanent''"

definition class_parse :: "string \<Rightarrow> sync_error + sync_failure_class" where
  "class_parse v =
     (if v = ''authentication_expired'' then Inr AuthenticationExpired
      else if v = ''risk_controlled'' then Inr ClassRiskControlled
      else if v = ''blocked'' then Inr ClassBlocked
      else if v = ''retryable'' then Inr Retryable
      else if v = ''permanent'' then Inr Permanent
      else Inl InvalidFailureClass)"

record sync_failure =
  fl_class :: sync_failure_class
  fl_message :: rstring

definition sync_failure_new :: "sync_failure_class \<Rightarrow> rstring \<Rightarrow> sync_error + sync_failure" where
  "sync_failure_new c message =
     (let message = trim message
      in if message = [] then Inl EmptyFailureMessage
         else if str_len message > 4096 then Inl FailureMessageTooLong
         else Inr \<lparr>fl_class = c, fl_message = message\<rparr>)"


section \<open>Runs\<close>

record sync_stats =
  articles_seen :: u32
  articles_created :: u32
  articles_updated :: u32
  articles_failed :: u32
  archived_articles :: u32
  archived_assets :: u32

definition stats_default :: sync_stats where
  "stats_default =
     \<lparr>articles_seen = 0, articles_created = 0, articles_updated = 0, articles_failed = 0,
      archived_articles = 0, archived_assets = 0\<rparr>"

record new_sync_run =
  nr_id :: uuid
  nr_source_id :: uuid
  nr_job_id :: "uuid option"
  nr_started_at :: datetime

record sync_run_completion =
  cp_outcome :: sync_outcome
  cp_finished_at :: datetime
  cp_stats :: sync_stats
  cp_failure :: "sync_failure option"
  cp_feed_revision :: "feed_revision option"

record sync_run =
  run_id :: uuid
  run_source_id :: uuid
  run_job_id :: "uuid option"
  run_outcome :: sync_outcome
  run_stats :: sync_stats
  run_failure :: "sync_failure option"
  run_feed_revision :: "feed_revision option"
  run_started_at :: datetime
  run_finished_at :: "datetime option"
  run_created_at :: datetime
  run_updated_at :: datetime

definition class_matches :: "sync_outcome \<Rightarrow> sync_failure_class \<Rightarrow> bool" where
  "class_matches outcome c =
     (case outcome of
        SyncAuthenticationRequired \<Rightarrow> c = AuthenticationExpired
      | SyncRiskControlled \<Rightarrow> c = ClassRiskControlled
      | SyncBlocked \<Rightarrow> c = ClassBlocked
      | SyncRetryableFailure \<Rightarrow> c = Retryable
      | SyncFailed \<Rightarrow> c = Permanent \<or> c = Retryable
      | _ \<Rightarrow> False)"

definition validate_outcome ::
    "sync_outcome \<Rightarrow> sync_failure option \<Rightarrow> datetime option \<Rightarrow> sync_error + unit" where
  "validate_outcome outcome failure finished_at =
     (if \<not> is_finished outcome then
        if finished_at \<noteq> None then Inl InvalidOutcome
        else if failure \<noteq> None then Inl UnexpectedFailure else Inr ()
      else if finished_at = None then Inl InvalidOutcome
      else if requires_failure outcome \<noteq> (failure \<noteq> None) then
        Inl (if requires_failure outcome then MissingFailure else UnexpectedFailure)
      else (case failure of
              Some f \<Rightarrow> if class_matches outcome (fl_class f) then Inr () else Inl MismatchedFailureClass
            | None \<Rightarrow> Inr ()))"

definition nil_job :: "uuid option \<Rightarrow> bool" where
  "nil_job job_id = (case job_id of None \<Rightarrow> False | Some j \<Rightarrow> is_nil j)"

definition sync_run_start :: "new_sync_run \<Rightarrow> sync_error + sync_run" where
  "sync_run_start spec =
     (if is_nil (nr_id spec) then Inl SyncInvalidId
      else if is_nil (nr_source_id spec) then Inl SyncInvalidSourceId
      else if nil_job (nr_job_id spec) then Inl SyncInvalidJobId
      else Inr \<lparr>run_id = nr_id spec, run_source_id = nr_source_id spec, run_job_id = nr_job_id spec,
                run_outcome = SyncRunning, run_stats = stats_default, run_failure = None,
                run_feed_revision = None, run_started_at = nr_started_at spec, run_finished_at = None,
                run_created_at = nr_started_at spec, run_updated_at = nr_started_at spec\<rparr>)"

definition sync_run_from_parts :: "sync_run \<Rightarrow> sync_error + sync_run" where
  "sync_run_from_parts parts =
     (if is_nil (run_id parts) then Inl SyncInvalidId
      else if is_nil (run_source_id parts) then Inl SyncInvalidSourceId
      else if nil_job (run_job_id parts) then Inl SyncInvalidJobId
      else if (case run_finished_at parts of None \<Rightarrow> False | Some t \<Rightarrow> t < run_started_at parts)
      then Inl CompletionBeforeStart
      else bindE (validate_outcome (run_outcome parts) (run_failure parts) (run_finished_at parts))
             (\<lambda>_. Inr parts))"

definition sync_run_finish :: "sync_run \<Rightarrow> sync_run_completion \<Rightarrow> sync_error + sync_run" where
  "sync_run_finish run c =
     (if is_finished (run_outcome run) then Inl AlreadyFinished
      else if \<not> is_finished (cp_outcome c) then Inl InvalidOutcome
      else if cp_finished_at c < run_started_at run then Inl CompletionBeforeStart
      else bindE (validate_outcome (cp_outcome c) (cp_failure c) (Some (cp_finished_at c))) (\<lambda>_.
        Inr (run\<lparr>run_outcome := cp_outcome c, run_stats := cp_stats c, run_failure := cp_failure c,
                 run_feed_revision := cp_feed_revision c, run_finished_at := Some (cp_finished_at c),
                 run_updated_at := cp_finished_at c\<rparr>)))"


section \<open>The table\<close>

record sync_run_row =
  sr_id :: uuid
  sr_source_id :: uuid
  sr_job_id :: "uuid option"
  sr_outcome :: string
  sr_articles_seen :: int
  sr_articles_created :: int
  sr_articles_updated :: int
  sr_articles_failed :: int
  sr_archived_articles :: int
  sr_archived_assets :: int
  sr_failure_class :: "string option"
  sr_failure_message :: "rstring option"
  sr_feed_revision :: "int option"
  sr_started_at :: datetime
  sr_finished_at :: "datetime option"
  sr_created_at :: datetime
  sr_updated_at :: datetime

text \<open>The database with the runs: the other tables and \<^verbatim>\<open>sync_runs\<close>.\<close>

record sync_db =
  sy_db :: db
  sy_runs :: "sync_run_row list"

text \<open>
  The CHECK constraints of the table. \<^verbatim>\<open>btrim\<close> with one argument removes spaces (code point 32),
  \<^verbatim>\<open>length\<close> counts characters.
\<close>

definition btrim :: "rstring \<Rightarrow> rstring" where
  "btrim s = rev (dropWhile (\<lambda>c. c = 32) (rev (dropWhile (\<lambda>c. c = 32) s)))"

definition failure_outcomes :: "string list" where
  "failure_outcomes = [''authentication_required'', ''risk_controlled'', ''blocked'', ''retryable_failure'', ''failed'']"

definition quiet_outcomes :: "string list" where
  "quiet_outcomes = [''running'', ''succeeded'', ''deferred'']"

definition failure_class_outcome_check :: "sync_run_row \<Rightarrow> bool" where
  "failure_class_outcome_check r \<longleftrightarrow>
     sr_outcome r \<in> set quiet_outcomes \<and> sr_failure_class r = None \<or>
     sr_outcome r = ''authentication_required'' \<and> sr_failure_class r = Some ''authentication_expired'' \<or>
     sr_outcome r = ''risk_controlled'' \<and> sr_failure_class r = Some ''risk_controlled'' \<or>
     sr_outcome r = ''blocked'' \<and> sr_failure_class r = Some ''blocked'' \<or>
     sr_outcome r = ''retryable_failure'' \<and> sr_failure_class r = Some ''retryable'' \<or>
     sr_outcome r = ''failed'' \<and>
       (sr_failure_class r = Some ''retryable'' \<or> sr_failure_class r = Some ''permanent'')"

definition sync_row_check :: "sync_run_row \<Rightarrow> bool" where
  "sync_row_check r \<longleftrightarrow>
     sr_outcome r \<in> set (quiet_outcomes @ failure_outcomes) \<and>
     0 \<le> sr_articles_seen r \<and> 0 \<le> sr_articles_created r \<and> 0 \<le> sr_articles_updated r \<and>
     0 \<le> sr_articles_failed r \<and> 0 \<le> sr_archived_articles r \<and> 0 \<le> sr_archived_assets r \<and>
     (case sr_feed_revision r of None \<Rightarrow> True | Some v \<Rightarrow> 0 \<le> v) \<and>
     (sr_outcome r = ''running'' \<longleftrightarrow> sr_finished_at r = None) \<and>
     (if sr_outcome r \<in> set failure_outcomes
      then (case sr_failure_class r of None \<Rightarrow> False | Some c \<Rightarrow> btrim (lit c) \<noteq> []) \<and>
           (case sr_failure_message r of None \<Rightarrow> False | Some m \<Rightarrow> btrim m \<noteq> [])
      else sr_failure_class r = None \<and> sr_failure_message r = None) \<and>
     (case sr_failure_class r of
        None \<Rightarrow> True
      | Some c \<Rightarrow> c \<in> {''authentication_expired'', ''risk_controlled'', ''blocked'', ''retryable'', ''permanent''}) \<and>
     failure_class_outcome_check r \<and>
     (case sr_failure_message r of None \<Rightarrow> True | Some m \<Rightarrow> length m \<le> 4096)"


section \<open>The repository\<close>

datatype sync_run_repository_error =
    SyncDomain sync_error
  | SyncSourceNotFound uuid
  | SyncJobNotFound uuid
  | SyncRunNotFound uuid
  | StartConflict uuid
  | SyncInvalidLimit
  | InvalidCounter string int
  | InvalidFeedRevision int
  | SyncStorage string

type_synonym 'a sync_result = "(sync_run_repository_error + 'a) \<times> sync_db"

definition counter :: "string \<Rightarrow> int \<Rightarrow> sync_run_repository_error + u32" where
  "counter field v = ok_or (InvalidCounter field v) (u32_try_from v)"

definition feed_revision_from_i64 :: "int \<Rightarrow> sync_run_repository_error + feed_revision" where
  "feed_revision_from_i64 v = ok_or (InvalidFeedRevision v) (u64_try_from v)"

definition feed_revision_as_i64 :: "feed_revision \<Rightarrow> sync_run_repository_error + int" where
  "feed_revision_as_i64 v = ok_or (InvalidFeedRevision (2 ^ 63 - 1)) (i64_try_from (unat v))"

text \<open>\<^verbatim>\<open>Option::map(f).transpose()?\<close>\<close>

definition transpose_map :: "('a \<Rightarrow> 'e + 'b) \<Rightarrow> 'a option \<Rightarrow> 'e + 'b option" where
  "transpose_map f x = (case x of None \<Rightarrow> Inr None | Some y \<Rightarrow> bindE (f y) (\<lambda>z. Inr (Some z)))"

definition validate_run_source_id :: "uuid \<Rightarrow> sync_run_repository_error + unit" where
  "validate_run_source_id source_id =
     (if is_nil source_id then Inl (SyncDomain SyncInvalidSourceId) else Inr ())"

definition decode_failure ::
    "string option \<Rightarrow> rstring option \<Rightarrow> sync_run_repository_error + sync_failure option" where
  "decode_failure class_text message =
     (case (class_text, message) of
        (Some c, Some m) \<Rightarrow>
          map_err SyncDomain (bindE (class_parse c) (\<lambda>c. bindE (sync_failure_new c m) (\<lambda>f. Inr (Some f))))
      | (None, None) \<Rightarrow> Inr None
      | _ \<Rightarrow> Inl (SyncDomain InvalidOutcome))"

definition decode_stats :: "sync_run_row \<Rightarrow> sync_run_repository_error + sync_stats" where
  "decode_stats r =
     bindE (counter ''articles_seen'' (sr_articles_seen r)) (\<lambda>seen.
     bindE (counter ''articles_created'' (sr_articles_created r)) (\<lambda>created.
     bindE (counter ''articles_updated'' (sr_articles_updated r)) (\<lambda>updated.
     bindE (counter ''articles_failed'' (sr_articles_failed r)) (\<lambda>failed.
     bindE (counter ''archived_articles'' (sr_archived_articles r)) (\<lambda>articles.
     bindE (counter ''archived_assets'' (sr_archived_assets r)) (\<lambda>assets.
       Inr \<lparr>articles_seen = seen, articles_created = created, articles_updated = updated,
            articles_failed = failed, archived_articles = articles, archived_assets = assets\<rparr>))))))"

definition decode_sync_run :: "sync_run_row \<Rightarrow> sync_run_repository_error + sync_run" where
  "decode_sync_run r =
     bindE (decode_failure (sr_failure_class r) (sr_failure_message r)) (\<lambda>failure.
     bindE (map_err SyncDomain (outcome_parse (sr_outcome r))) (\<lambda>outcome.
     bindE (decode_stats r) (\<lambda>stats.
     bindE (transpose_map feed_revision_from_i64 (sr_feed_revision r)) (\<lambda>revision.
       map_err SyncDomain (sync_run_from_parts
         \<lparr>run_id = sr_id r, run_source_id = sr_source_id r, run_job_id = sr_job_id r,
          run_outcome = outcome, run_stats = stats, run_failure = failure,
          run_feed_revision = revision, run_started_at = sr_started_at r,
          run_finished_at = sr_finished_at r, run_created_at = sr_created_at r,
          run_updated_at = sr_updated_at r\<rparr>)))))"

definition find_run_row :: "uuid \<Rightarrow> sync_db \<Rightarrow> sync_run_row option" where
  "find_run_row i d = find (\<lambda>r. sr_id r = i) (sy_runs d)"

definition sync_run_find :: "uuid \<Rightarrow> sync_db \<Rightarrow> sync_run_repository_error + sync_run option" where
  "sync_run_find i d =
     (if is_nil i then Inl (SyncDomain SyncInvalidId)
      else transpose_map decode_sync_run (find_run_row i d))"

fun decode_runs :: "sync_run_row list \<Rightarrow> sync_run_repository_error + sync_run list" where
  "decode_runs [] = Inr []"
| "decode_runs (r # rs) = bindE (decode_sync_run r) (\<lambda>x. bindE (decode_runs rs) (\<lambda>xs. Inr (x # xs)))"

text \<open>\<^verbatim>\<open>ORDER BY started_at DESC, id DESC LIMIT\<close>\<close>

definition history_order :: "sync_run_row list \<Rightarrow> sync_run_row list" where
  "history_order rows = sort_key (\<lambda>r. - sr_started_at r) (rev (sort_key sr_id rows))"

definition list_for_source :: "uuid \<Rightarrow> u32 \<Rightarrow> sync_db \<Rightarrow> sync_run_repository_error + sync_run list" where
  "list_for_source source_id limit d =
     bindE (validate_run_source_id source_id) (\<lambda>_.
       if limit = 0 then Inl SyncInvalidLimit
       else decode_runs (take (unat limit)
              (history_order (filter (\<lambda>r. sr_source_id r = source_id) (sy_runs d)))))"

text \<open>
  An instant is bound to a \<^verbatim>\<open>TIMESTAMPTZ\<close> column, which holds whole microseconds; how the driver
  rounds is a parameter \<open>stamp\<close>. An insert checks the constraints of the row and then the
  foreign keys, unless the primary key is taken.
\<close>

definition started_row :: "(datetime \<Rightarrow> datetime) \<Rightarrow> datetime \<Rightarrow> sync_run \<Rightarrow> sync_run_row" where
  "started_row stamp now run =
     \<lparr>sr_id = run_id run, sr_source_id = run_source_id run, sr_job_id = run_job_id run,
      sr_outcome = outcome_as_str (run_outcome run), sr_articles_seen = 0, sr_articles_created = 0,
      sr_articles_updated = 0, sr_articles_failed = 0, sr_archived_articles = 0,
      sr_archived_assets = 0, sr_failure_class = None, sr_failure_message = None,
      sr_feed_revision = None, sr_started_at = stamp (run_started_at run), sr_finished_at = None,
      sr_created_at = now, sr_updated_at = now\<rparr>"

definition insert_error :: "sync_run_row \<Rightarrow> sync_db \<Rightarrow> sync_run_repository_error option" where
  "insert_error r d =
     (if \<not> sync_row_check r then Some (SyncStorage ''check constraint violated'')
      else if \<forall>s \<in> set (d_sources (sy_db d)). so_id s \<noteq> sr_source_id r
      then Some (SyncSourceNotFound (sr_source_id r))
      else case sr_job_id r of
             None \<Rightarrow> None
           | Some j \<Rightarrow> if \<forall>x \<in> set (pg_jobs (d_pg (sy_db d))). r_id x \<noteq> j
                       then Some (SyncJobNotFound j) else None)"

definition sync_start ::
    "(datetime \<Rightarrow> datetime) \<Rightarrow> datetime \<Rightarrow> new_sync_run \<Rightarrow> sync_db \<Rightarrow> sync_run sync_result" where
  "sync_start stamp now spec d =
     (case sync_run_start spec of Inl e \<Rightarrow> (Inl (SyncDomain e), d) | Inr run \<Rightarrow>
      case find_run_row (run_id run) d of
        None \<Rightarrow>
          (let row = started_row stamp now run
           in case insert_error row d of
                Some e \<Rightarrow> (Inl e, d)
              | None \<Rightarrow> (decode_sync_run row, d\<lparr>sy_runs := sy_runs d @ [row]\<rparr>))
      | Some row \<Rightarrow>
          (case decode_sync_run row of Inl e \<Rightarrow> (Inl e, d) | Inr existing \<Rightarrow>
             if sr_started_at row = stamp (run_started_at run) \<and>
                run_source_id existing = run_source_id run \<and> run_job_id existing = run_job_id run
             then (Inr existing, d) else (Inl (StartConflict (run_id run)), d)))"

definition finished_row ::
    "(datetime \<Rightarrow> datetime) \<Rightarrow> datetime \<Rightarrow> sync_run \<Rightarrow> int option \<Rightarrow> sync_run_row \<Rightarrow> sync_run_row" where
  "finished_row stamp now run revision r =
     (let stats = run_stats run
      in r\<lparr>sr_outcome := outcome_as_str (run_outcome run),
           sr_articles_seen := uint (articles_seen stats), sr_articles_created := uint (articles_created stats),
           sr_articles_updated := uint (articles_updated stats), sr_articles_failed := uint (articles_failed stats),
           sr_archived_articles := uint (archived_articles stats), sr_archived_assets := uint (archived_assets stats),
           sr_failure_class := map_option (class_as_str \<circ> fl_class) (run_failure run),
           sr_failure_message := map_option fl_message (run_failure run),
           sr_feed_revision := revision, sr_finished_at := map_option stamp (run_finished_at run),
           sr_updated_at := now\<rparr>)"

definition sync_finish ::
    "(datetime \<Rightarrow> datetime) \<Rightarrow> datetime \<Rightarrow> uuid \<Rightarrow> sync_run_completion \<Rightarrow> sync_db \<Rightarrow> sync_run sync_result" where
  "sync_finish stamp now i completion d =
     (if is_nil i then (Inl (SyncDomain SyncInvalidId), d)
      else case find_run_row i d of None \<Rightarrow> (Inl (SyncRunNotFound i), d) | Some row \<Rightarrow>
      case decode_sync_run row of Inl e \<Rightarrow> (Inl e, d) | Inr run \<Rightarrow>
      case sync_run_finish run completion of Inl e \<Rightarrow> (Inl (SyncDomain e), d) | Inr finished \<Rightarrow>
      case transpose_map feed_revision_as_i64 (run_feed_revision finished) of Inl e \<Rightarrow> (Inl e, d) | Inr revision \<Rightarrow>
        let row' = finished_row stamp now finished revision row
        in if \<not> sync_row_check row' then (Inl (SyncStorage ''check constraint violated''), d)
           else (decode_sync_run row',
                 d\<lparr>sy_runs := update_rows (\<lambda>r. sr_id r = run_id finished)
                      (finished_row stamp now finished revision) (sy_runs d)\<rparr>))"

text \<open>
  What the foreign keys do to the runs when a source or a job goes: the runs of a deleted source
  go with it, and a run of a deleted job keeps its row without the job.
\<close>

definition cascade_runs :: "db \<Rightarrow> sync_run_row list \<Rightarrow> sync_run_row list" where
  "cascade_runs d runs =
     map (\<lambda>r. case sr_job_id r of
                None \<Rightarrow> r
              | Some j \<Rightarrow> if \<exists>x \<in> set (pg_jobs (d_pg d)). r_id x = j then r else r\<lparr>sr_job_id := None\<rparr>)
       (filter (\<lambda>r. \<exists>s \<in> set (d_sources d). so_id s = sr_source_id r) runs)"

text \<open>A change to the other tables, with its effect on the runs.\<close>

definition settle_runs :: "db \<Rightarrow> sync_db \<Rightarrow> sync_db" where
  "settle_runs d' d = \<lparr>sy_db = d', sy_runs = cascade_runs d' (sy_runs d)\<rparr>"

definition on_db :: "(db \<Rightarrow> ('e + 'a) \<times> db) \<Rightarrow> sync_db \<Rightarrow> ('e + 'a) \<times> sync_db" where
  "on_db m d =
     (case m (sy_db d) of (r, d') \<Rightarrow> (r, settle_runs d' d))"


section \<open>Well-formed runs\<close>

lemma outcome_round_trip [simp]: "outcome_parse (outcome_as_str outcome) = Inr outcome"
  by (cases outcome) (simp_all add: outcome_parse_def)

lemma class_round_trip [simp]: "class_parse (class_as_str c) = Inr c"
  by (cases c) (simp_all add: class_parse_def)

definition failure_ok :: "sync_failure \<Rightarrow> bool" where
  "failure_ok f \<longleftrightarrow> trim (fl_message f) = fl_message f \<and> fl_message f \<noteq> [] \<and> str_len (fl_message f) \<le> 4096"

lemma sync_failure_new_ok: "sync_failure_new c m = Inr f \<Longrightarrow> failure_ok f \<and> fl_class f = c \<and> fl_message f = trim m"
  by (auto simp: sync_failure_new_def failure_ok_def Let_def split: if_splits)

lemma sync_failure_new_id: "failure_ok f \<Longrightarrow> sync_failure_new (fl_class f) (fl_message f) = Inr f"
  by (simp add: sync_failure_new_def failure_ok_def)

definition option_ok :: "('a \<Rightarrow> bool) \<Rightarrow> 'a option \<Rightarrow> bool" where
  "option_ok P x = (case x of None \<Rightarrow> True | Some y \<Rightarrow> P y)"

lemma option_ok_simps [simp]: "option_ok P None" "option_ok P (Some y) = P y"
  by (simp_all add: option_ok_def)

definition run_ok :: "sync_run \<Rightarrow> bool" where
  "run_ok r \<longleftrightarrow>
     sync_run_from_parts r = Inr r \<and> option_ok failure_ok (run_failure r) \<and>
     option_ok (\<lambda>v. unat v < 2 ^ 63) (run_feed_revision r)"

text \<open>The row that holds a run.\<close>

definition bind_run :: "sync_run \<Rightarrow> sync_run_row" where
  "bind_run r =
     \<lparr>sr_id = run_id r, sr_source_id = run_source_id r, sr_job_id = run_job_id r,
      sr_outcome = outcome_as_str (run_outcome r),
      sr_articles_seen = uint (articles_seen (run_stats r)),
      sr_articles_created = uint (articles_created (run_stats r)),
      sr_articles_updated = uint (articles_updated (run_stats r)),
      sr_articles_failed = uint (articles_failed (run_stats r)),
      sr_archived_articles = uint (archived_articles (run_stats r)),
      sr_archived_assets = uint (archived_assets (run_stats r)),
      sr_failure_class = map_option (class_as_str \<circ> fl_class) (run_failure r),
      sr_failure_message = map_option fl_message (run_failure r),
      sr_feed_revision = map_option uint (run_feed_revision r),
      sr_started_at = run_started_at r, sr_finished_at = run_finished_at r,
      sr_created_at = run_created_at r, sr_updated_at = run_updated_at r\<rparr>"

lemma decode_bind_run:
  assumes "run_ok r"
  shows "decode_sync_run (bind_run r) = Inr r"
proof -
  have stats: "decode_stats (bind_run r) = Inr (run_stats r)"
    by (simp add: decode_stats_def bind_run_def counter_def)
  have failure: "decode_failure (sr_failure_class (bind_run r)) (sr_failure_message (bind_run r)) = Inr (run_failure r)"
    using assms by (cases "run_failure r")
      (auto simp: decode_failure_def bind_run_def run_ok_def sync_failure_new_id)
  have rev: "transpose_map feed_revision_from_i64 (sr_feed_revision (bind_run r)) = Inr (run_feed_revision r)"
    by (cases "run_feed_revision r") (simp_all add: transpose_map_def bind_run_def feed_revision_from_i64_def)
  have parts: "sync_run_from_parts
     \<lparr>run_id = run_id r, run_source_id = run_source_id r, run_job_id = run_job_id r,
      run_outcome = run_outcome r, run_stats = run_stats r, run_failure = run_failure r,
      run_feed_revision = run_feed_revision r, run_started_at = run_started_at r,
      run_finished_at = run_finished_at r, run_created_at = run_created_at r,
      run_updated_at = run_updated_at r\<rparr> = Inr r"
    using assms by (cases r) (simp add: run_ok_def)
  show ?thesis
    by (simp add: decode_sync_run_def stats failure rev) (simp add: bind_run_def parts)
qed

lemma bind_run_inj: "run_ok r \<Longrightarrow> run_ok r' \<Longrightarrow> bind_run r = bind_run r' \<Longrightarrow> r = r'"
  by (metis decode_bind_run sum.inject(2))

subsection \<open>Domain rules and table constraints\<close>

lemma length_le_str_len: "length s \<le> str_len s"
  by (induction s) (auto simp: str_len_def utf8_width_def)

lemma btrim_nonempty: "trim m \<noteq> [] \<Longrightarrow> btrim m \<noteq> []"
proof -
  assume "trim m \<noteq> []"
  then obtain c where "c \<in> set m" "\<not> is_whitespace c" by (auto simp: trim_eq_Nil_iff)
  then have c: "c \<in> set m" "c \<noteq> 32" by (auto simp: is_whitespace_def)
  then have "c \<in> set (dropWhile (\<lambda>c. c = 32) m)" by (induction m) auto
  with c(2) show ?thesis by (auto simp: btrim_def)
qed

lemma class_text [simp]: "btrim (lit (class_as_str c)) \<noteq> []"
  by (cases c) (simp_all add: btrim_def lit_def)

lemma class_as_str_simps [simp]:
  "class_as_str c = ''authentication_expired'' \<longleftrightarrow> c = AuthenticationExpired"
  "class_as_str c = ''risk_controlled'' \<longleftrightarrow> c = ClassRiskControlled"
  "class_as_str c = ''blocked'' \<longleftrightarrow> c = ClassBlocked"
  "class_as_str c = ''retryable'' \<longleftrightarrow> c = Retryable"
  "class_as_str c = ''permanent'' \<longleftrightarrow> c = Permanent"
  by (cases c; simp)+

lemma outcome_vocabulary [simp]: "outcome_as_str outcome \<in> set (quiet_outcomes @ failure_outcomes)"
  by (cases outcome) (simp_all add: quiet_outcomes_def failure_outcomes_def)

lemma outcome_running_iff [simp]: "outcome_as_str outcome = ''running'' \<longleftrightarrow> \<not> is_finished outcome"
  by (cases outcome) (simp_all add: is_finished_def)

lemma outcome_failure_iff [simp]: "outcome_as_str outcome \<in> set failure_outcomes \<longleftrightarrow> requires_failure outcome"
  by (cases outcome) (simp_all add: failure_outcomes_def requires_failure_def)

definition constraints_agree :: "sync_run_row \<Rightarrow> bool" where
  "constraints_agree r \<longleftrightarrow>
     (sr_outcome r = ''running'' \<longleftrightarrow> sr_finished_at r = None) \<and>
     ((sr_outcome r \<in> set failure_outcomes) = (sr_failure_class r \<noteq> None)) \<and> failure_class_outcome_check r"

lemma validate_outcome_iff:
  "validate_outcome (run_outcome r) (run_failure r) (run_finished_at r) = Inr () \<longleftrightarrow> constraints_agree (bind_run r)"
  unfolding constraints_agree_def validate_outcome_def failure_class_outcome_check_def
  by (cases "run_outcome r"; cases "run_failure r"; cases "run_finished_at r")
     (auto simp: bind_run_def is_finished_def requires_failure_def class_matches_def quiet_outcomes_def
        failure_outcomes_def)

lemma run_ok_outcome: "run_ok r \<Longrightarrow> validate_outcome (run_outcome r) (run_failure r) (run_finished_at r) = Inr ()"
  by (auto simp: run_ok_def sync_run_from_parts_def bindE_eq_Inr split: if_splits)

lemma run_ok_check:
  assumes "run_ok r"
  shows "sync_row_check (bind_run r)"
proof -
  from run_ok_outcome [OF assms] have agree: "constraints_agree (bind_run r)"
    by (simp add: validate_outcome_iff)
  have out: "sr_outcome (bind_run r) \<in> set (quiet_outcomes @ failure_outcomes)"
    using outcome_vocabulary by (simp add: bind_run_def)
  have counts: "0 \<le> sr_articles_seen (bind_run r)" "0 \<le> sr_articles_created (bind_run r)"
    "0 \<le> sr_articles_updated (bind_run r)" "0 \<le> sr_articles_failed (bind_run r)"
    "0 \<le> sr_archived_articles (bind_run r)" "0 \<le> sr_archived_assets (bind_run r)"
    by (simp_all add: bind_run_def)
  have rev: "case sr_feed_revision (bind_run r) of None \<Rightarrow> True | Some v \<Rightarrow> 0 \<le> v"
    by (simp add: bind_run_def split: option.split)
  have fail: "(run_failure r = None \<longrightarrow> sr_failure_class (bind_run r) = None \<and> sr_failure_message (bind_run r) = None) \<and>
    (\<forall>f. run_failure r = Some f \<longrightarrow> sr_failure_class (bind_run r) = Some (class_as_str (fl_class f)) \<and>
       sr_failure_message (bind_run r) = Some (fl_message f) \<and> failure_ok f)"
    using assms by (auto simp: bind_run_def run_ok_def)
  have vocab: "class_as_str c \<in> {''authentication_expired'', ''risk_controlled'', ''blocked'', ''retryable'', ''permanent''}" for c
    by (cases c) simp_all
  have message: "failure_ok f \<Longrightarrow> btrim (fl_message f) \<noteq> [] \<and> length (fl_message f) \<le> 4096" for f
    using btrim_nonempty [of "fl_message f"] length_le_str_len [of "fl_message f"] by (simp add: failure_ok_def)
  show ?thesis
    unfolding sync_row_check_def
    using agree out counts rev fail message
    by (cases "run_failure r") (auto simp: constraints_agree_def vocab [simplified])
qed


subsection \<open>Starting and finishing a run\<close>

lemma sync_run_start_ok:
  assumes "sync_run_start spec = Inr run"
  shows "run_ok (run\<lparr>run_started_at := a, run_created_at := b, run_updated_at := c\<rparr>)"
    "run_id run = nr_id spec" "run_source_id run = nr_source_id spec" "run_job_id run = nr_job_id spec"
    "run_started_at run = nr_started_at spec" "run_outcome run = SyncRunning" "\<not> is_nil (nr_id spec)"
  using assms by (auto simp: sync_run_start_def run_ok_def sync_run_from_parts_def validate_outcome_def
    is_finished_def split: if_splits)

lemma started_row_eq:
  assumes "sync_run_start spec = Inr run"
  shows "started_row stamp now run =
     bind_run (run\<lparr>run_started_at := stamp (run_started_at run), run_created_at := now, run_updated_at := now\<rparr>)"
  using assms by (auto simp: sync_run_start_def started_row_def bind_run_def stats_default_def split: if_splits)

text \<open>The driver's rounding keeps the order of instants and rounds once.\<close>

definition stamp_ok :: "(datetime \<Rightarrow> datetime) \<Rightarrow> bool" where
  "stamp_ok stamp \<longleftrightarrow> mono stamp \<and> (\<forall>t. stamp (stamp t) = stamp t)"

definition to_micros :: "datetime \<Rightarrow> datetime" where
  "to_micros t = t div 1000 * 1000"

lemma to_micros_ok: "stamp_ok to_micros"
  by (auto simp: stamp_ok_def to_micros_def intro!: monoI zdiv_mono1)

definition completion_typed :: "sync_run_completion \<Rightarrow> bool" where
  "completion_typed c \<longleftrightarrow> option_ok failure_ok (cp_failure c)"

text \<open>The run as the table holds it after the end: its end is rounded and the row was just written.\<close>

definition ended :: "(datetime \<Rightarrow> datetime) \<Rightarrow> datetime \<Rightarrow> sync_run \<Rightarrow> sync_run" where
  "ended stamp now run = run\<lparr>run_finished_at := map_option stamp (run_finished_at run), run_updated_at := now\<rparr>"

lemma sync_run_finish_Inr:
  assumes "sync_run_finish run c = Inr f"
  shows "\<not> is_finished (run_outcome run)" "is_finished (cp_outcome c)" "run_started_at run \<le> cp_finished_at c"
    "validate_outcome (cp_outcome c) (cp_failure c) (Some (cp_finished_at c)) = Inr ()"
    "f = run\<lparr>run_outcome := cp_outcome c, run_stats := cp_stats c, run_failure := cp_failure c,
             run_feed_revision := cp_feed_revision c, run_finished_at := Some (cp_finished_at c),
             run_updated_at := cp_finished_at c\<rparr>"
  using assms by (auto simp: sync_run_finish_def bindE_eq_Inr split: if_splits)

lemma ended_ok:
  assumes run: "run_ok run" "stamp (run_started_at run) = run_started_at run" and stamp: "stamp_ok stamp"
    and c: "completion_typed c" "option_ok (\<lambda>v. unat v < 2 ^ 63) (cp_feed_revision c)"
    and f: "sync_run_finish run c = Inr f"
  shows "run_ok (ended stamp now f)"
proof -
  note f' = sync_run_finish_Inr [OF f]
  have "stamp (run_started_at run) \<le> stamp (cp_finished_at c)"
    using stamp f'(3) by (auto simp: stamp_ok_def mono_def)
  with run f'(4) c show ?thesis
    unfolding run_ok_def f'(5) ended_def
    by (auto simp: sync_run_from_parts_def completion_typed_def validate_outcome_def split: if_splits)
qed

lemma finished_row_eq:
  assumes "sync_run_finish run c = Inr f" "transpose_map feed_revision_as_i64 (run_feed_revision f) = Inr v"
  shows "finished_row stamp now f v (bind_run run) = bind_run (ended stamp now f)"
    "option_ok (\<lambda>v. unat v < 2 ^ 63) (cp_feed_revision c)"
proof -
  note f = sync_run_finish_Inr(5) [OF assms(1)]
  have v: "v = map_option uint (cp_feed_revision c) \<and> option_ok (\<lambda>v. unat v < 2 ^ 63) (cp_feed_revision c)"
    using assms(2) unfolding f
    by (cases "cp_feed_revision c") (auto simp: transpose_map_def feed_revision_as_i64_def i64_try_from_def
        bindE_eq_Inr split: if_splits)
  then show "option_ok (\<lambda>v. unat v < 2 ^ 63) (cp_feed_revision c)" ..
  show "finished_row stamp now f v (bind_run run) = bind_run (ended stamp now f)"
    using v unfolding f finished_row_def bind_run_def ended_def by (simp add: Let_def)
qed


section \<open>The table under its operations\<close>

definition run_stored :: "(datetime \<Rightarrow> datetime) \<Rightarrow> db \<Rightarrow> sync_run_row \<Rightarrow> bool" where
  "run_stored stamp d row \<longleftrightarrow>
     (\<exists>run. run_ok run \<and> row = bind_run run \<and> stamp (run_started_at run) = run_started_at run) \<and>
     (\<exists>s \<in> set (d_sources d). so_id s = sr_source_id row) \<and>
     option_ok (\<lambda>j. \<exists>x \<in> set (pg_jobs (d_pg d)). r_id x = j) (sr_job_id row)"

definition runs_ok :: "(datetime \<Rightarrow> datetime) \<Rightarrow> sync_db \<Rightarrow> bool" where
  "runs_ok stamp d \<longleftrightarrow>
     stamp_ok stamp \<and> distinct (map sr_id (sy_runs d)) \<and> (\<forall>row \<in> set (sy_runs d). run_stored stamp (sy_db d) row)"

definition run_at :: "sync_db \<Rightarrow> uuid \<Rightarrow> sync_run option" where
  "run_at d i =
     (case find_run_row i d of
        None \<Rightarrow> None
      | Some row \<Rightarrow> (case decode_sync_run row of Inl _ \<Rightarrow> None | Inr run \<Rightarrow> Some run))"

lemma bind_run_key [simp]: "sr_id (bind_run r) = run_id r" "sr_source_id (bind_run r) = run_source_id r"
  "sr_job_id (bind_run r) = run_job_id r" "sr_started_at (bind_run r) = run_started_at r"
  by (simp_all add: bind_run_def)

lemma ended_key [simp]: "run_id (ended stamp now r) = run_id r" "run_source_id (ended stamp now r) = run_source_id r"
  "run_job_id (ended stamp now r) = run_job_id r" "run_started_at (ended stamp now r) = run_started_at r"
  by (simp_all add: ended_def)

lemma finished_row_key [simp]: "sr_id (finished_row stamp now f v r) = sr_id r"
  by (simp add: finished_row_def Let_def)

lemma find_run_cases:
  assumes "runs_ok stamp d"
  obtains (absent) "find_run_row i d = None" "run_at d i = None"
  | (stored) run where "find_run_row i d = Some (bind_run run)" "run_at d i = Some run" "run_ok run"
      "run_id run = i" "stamp (run_started_at run) = run_started_at run" "bind_run run \<in> set (sy_runs d)"
proof (cases "find_run_row i d")
  case None
  then show ?thesis using absent by (simp add: run_at_def)
next
  case (Some row)
  then have row: "row \<in> set (sy_runs d)" "sr_id row = i"
    using find_SomeD by (fastforce simp: find_run_row_def)+
  with assms obtain run where "run_ok run" "row = bind_run run" "stamp (run_started_at run) = run_started_at run"
    unfolding runs_ok_def run_stored_def by blast
  with Some row show ?thesis by (intro stored [of run]) (simp_all add: run_at_def decode_bind_run)
qed

lemma run_at_sub:
  assumes "find_run_row j d' = find_run_row j d"
  shows "run_at d' j = run_at d j"
  using assms by (simp add: run_at_def)

text \<open>A start on a well-formed table, case by case.\<close>

lemma sync_start_eq:
  assumes ok: "runs_ok stamp d" and spec: "sync_run_start spec = Inr run"
    and new_run: "new_run = run\<lparr>run_started_at := stamp (run_started_at run), run_created_at := now, run_updated_at := now\<rparr>"
  shows "run_at d (nr_id spec) = None \<Longrightarrow> sync_start stamp now spec d =
      (case insert_error (bind_run new_run) d of
         Some e \<Rightarrow> (Inl e, d) | None \<Rightarrow> (Inr new_run, d\<lparr>sy_runs := sy_runs d @ [bind_run new_run]\<rparr>))"
    and "run_at d (nr_id spec) = Some old \<Longrightarrow> sync_start stamp now spec d =
      (if run_started_at old = stamp (nr_started_at spec) \<and> run_source_id old = nr_source_id spec \<and>
          run_job_id old = nr_job_id spec
       then (Inr old, d) else (Inl (StartConflict (nr_id spec)), d))"
proof -
  note run = sync_run_start_ok [OF spec]
  have dec: "decode_sync_run (started_row stamp now run) = Inr new_run"
    unfolding started_row_eq [OF spec] new_run by (intro decode_bind_run run(1))
  show "sync_start stamp now spec d =
      (case insert_error (bind_run new_run) d of
         Some e \<Rightarrow> (Inl e, d) | None \<Rightarrow> (Inr new_run, d\<lparr>sy_runs := sy_runs d @ [bind_run new_run]\<rparr>))"
    if "run_at d (nr_id spec) = None"
    using ok that dec
    by (cases rule: find_run_cases [OF ok, of "nr_id spec"])
       (simp_all add: sync_start_def spec run(2) Let_def started_row_eq [OF spec] new_run split: option.split)
  show "sync_start stamp now spec d =
      (if run_started_at old = stamp (nr_started_at spec) \<and> run_source_id old = nr_source_id spec \<and>
          run_job_id old = nr_job_id spec
       then (Inr old, d) else (Inl (StartConflict (nr_id spec)), d))"
    if "run_at d (nr_id spec) = Some old"
    using ok that
    by (cases rule: find_run_cases [OF ok, of "nr_id spec"])
       (simp_all add: sync_start_def spec run(2-5) decode_bind_run)
qed

text \<open>A finish on a well-formed table: the constraints of the table never reject it.\<close>

lemma sync_finish_eq:
  assumes ok: "runs_ok stamp d" and c: "completion_typed c" and i: "\<not> is_nil i"
  shows "run_at d i = None \<Longrightarrow> sync_finish stamp now i c d = (Inl (SyncRunNotFound i), d)"
    and "run_at d i = Some run \<Longrightarrow> sync_finish stamp now i c d =
      (case sync_run_finish run c of Inl e \<Rightarrow> (Inl (SyncDomain e), d) | Inr f \<Rightarrow>
       case transpose_map feed_revision_as_i64 (run_feed_revision f) of Inl e \<Rightarrow> (Inl e, d) | Inr v \<Rightarrow>
         (Inr (ended stamp now f),
          d\<lparr>sy_runs := update_rows (\<lambda>r. sr_id r = i) (finished_row stamp now f v) (sy_runs d)\<rparr>))"
proof -
  show "sync_finish stamp now i c d = (Inl (SyncRunNotFound i), d)" if "run_at d i = None"
    using that i by (cases rule: find_run_cases [OF ok, of i]) (simp_all add: sync_finish_def)
  assume at: "run_at d i = Some run"
  then have row: "find_run_row i d = Some (bind_run run)" "run_ok run" "run_id run = i"
      "stamp (run_started_at run) = run_started_at run"
    by (cases rule: find_run_cases [OF ok, of i]; simp)+
  show "sync_finish stamp now i c d =
      (case sync_run_finish run c of Inl e \<Rightarrow> (Inl (SyncDomain e), d) | Inr f \<Rightarrow>
       case transpose_map feed_revision_as_i64 (run_feed_revision f) of Inl e \<Rightarrow> (Inl e, d) | Inr v \<Rightarrow>
         (Inr (ended stamp now f),
          d\<lparr>sy_runs := update_rows (\<lambda>r. sr_id r = i) (finished_row stamp now f v) (sy_runs d)\<rparr>))"
  proof (cases "sync_run_finish run c")
    case (Inl e)
    with row i show ?thesis by (simp add: sync_finish_def decode_bind_run)
  next
    case (Inr f)
    have id: "run_id f = i" using sync_run_finish_Inr(5) [OF Inr] row(3) by simp
    have fin: "sync_row_check (finished_row stamp now f v (bind_run run))"
      "decode_sync_run (finished_row stamp now f v (bind_run run)) = Inr (ended stamp now f)"
      if "transpose_map feed_revision_as_i64 (run_feed_revision f) = Inr v" for v
    proof -
      have "run_ok (ended stamp now f)"
        using ended_ok [where stamp = stamp, OF row(2,4) _ c _ Inr] finished_row_eq(2) [OF Inr that] ok by (simp add: runs_ok_def)
      then show "sync_row_check (finished_row stamp now f v (bind_run run))"
        "decode_sync_run (finished_row stamp now f v (bind_run run)) = Inr (ended stamp now f)"
        using finished_row_eq(1) [OF Inr that] by (simp_all add: run_ok_check decode_bind_run)
    qed
    show ?thesis
      using row i Inr fin id
      by (cases "transpose_map feed_revision_as_i64 (run_feed_revision f)")
         (simp_all add: sync_finish_def decode_bind_run)
  qed
qed


lemma sync_finish_Inr:
  assumes ok: "runs_ok stamp d" and c: "completion_typed c" and res: "sync_finish stamp now i c d = (Inr r, d')"
  obtains run f v where "run_at d i = Some run" "sync_run_finish run c = Inr f" "r = ended stamp now f"
    "finished_row stamp now f v (bind_run run) = bind_run r" "run_ok r"
    "d' = d\<lparr>sy_runs := update_rows (\<lambda>r. sr_id r = i) (finished_row stamp now f v) (sy_runs d)\<rparr>"
proof -
  from res have i: "\<not> is_nil i" by (auto simp: sync_finish_def split: if_splits)
  from res sync_finish_eq(1) [OF ok c i] obtain run where run: "run_at d i = Some run"
    by (cases "run_at d i") auto
  then have row: "run_ok run" "stamp (run_started_at run) = run_started_at run"
    by (cases rule: find_run_cases [OF ok, of i]; simp)+
  from res obtain f v where f: "sync_run_finish run c = Inr f"
      "transpose_map feed_revision_as_i64 (run_feed_revision f) = Inr v" "r = ended stamp now f"
      "d' = d\<lparr>sy_runs := update_rows (\<lambda>r. sr_id r = i) (finished_row stamp now f v) (sy_runs d)\<rparr>"
    unfolding sync_finish_eq(2) [OF ok c i run] by (auto split: sum.splits)
  have "run_ok r"
    using ended_ok [where stamp = stamp, OF row _ c _ f(1)] finished_row_eq(2) [OF f(1,2)] ok f(3)
    by (simp add: runs_ok_def)
  with that run f finished_row_eq(1) [OF f(1,2)] show ?thesis by blast
qed

lemma sync_finish_Inl: "sync_finish stamp now i c d = (Inl e, d') \<Longrightarrow> runs_ok stamp d \<Longrightarrow> completion_typed c \<Longrightarrow> d' = d"
proof -
  assume res: "sync_finish stamp now i c d = (Inl e, d')" and ok: "runs_ok stamp d" and c: "completion_typed c"
  show "d' = d"
  proof (cases "is_nil i")
    case True
    with res show ?thesis by (simp add: sync_finish_def)
  next
    case False
    with res show ?thesis
      using sync_finish_eq [OF ok c False] by (cases "run_at d i") (auto split: sum.splits)
  qed
qed

lemma sync_start_Inl:
  assumes "sync_start stamp now spec d = (Inl e, d')" "runs_ok stamp d"
  shows "d' = d"
proof (cases "sync_run_start spec")
  case (Inl e)
  with assms(1) show ?thesis by (simp add: sync_start_def)
next
  case (Inr run)
  note eq = sync_start_eq [OF assms(2) Inr refl]
  from assms(1) show ?thesis
    by (cases "run_at d (nr_id spec)") (auto simp: eq split: option.splits if_splits)
qed

lemma sync_start_Inr:
  assumes res: "sync_start stamp now spec d = (Inr r, d')" and ok: "runs_ok stamp d"
  shows "(run_at d (nr_id spec) = Some r \<and> d' = d) \<or>
     (run_at d (nr_id spec) = None \<and> insert_error (bind_run r) d = None \<and> run_ok r \<and>
      run_outcome r = SyncRunning \<and> d' = d\<lparr>sy_runs := sy_runs d @ [bind_run r]\<rparr>)"
    "run_id r = nr_id spec" "run_source_id r = nr_source_id spec" "run_job_id r = nr_job_id spec"
    "run_started_at r = stamp (nr_started_at spec)"
proof -
  obtain run where run: "sync_run_start spec = Inr run"
    using res by (cases "sync_run_start spec") (simp_all add: sync_start_def)
  note eq = sync_start_eq [OF ok run refl] and fields = sync_run_start_ok [OF run]
  have id: "run_at d (nr_id spec) = Some old \<Longrightarrow> run_id old = nr_id spec" for old
    by (cases rule: find_run_cases [OF ok, of "nr_id spec"]) simp_all
  from res id show "(run_at d (nr_id spec) = Some r \<and> d' = d) \<or>
     (run_at d (nr_id spec) = None \<and> insert_error (bind_run r) d = None \<and> run_ok r \<and>
      run_outcome r = SyncRunning \<and> d' = d\<lparr>sy_runs := sy_runs d @ [bind_run r]\<rparr>)"
    "run_id r = nr_id spec" "run_source_id r = nr_source_id spec" "run_job_id r = nr_job_id spec"
    "run_started_at r = stamp (nr_started_at spec)"
    by (cases "run_at d (nr_id spec)"; auto simp: eq fields split: option.splits if_splits)+
qed


subsection \<open>Runs only move forward\<close>

text \<open>
  The operations on the runs, each in a transaction of its own, between arbitrary changes of the
  other tables. A run is looked up with its source, so that a change that keeps the source keeps
  the run.
\<close>

datatype run_op =
    StartRun datetime new_sync_run
  | FinishRun datetime uuid sync_run_completion
  | Elsewhere "db \<Rightarrow> db"

fun run_step :: "(datetime \<Rightarrow> datetime) \<Rightarrow> run_op \<Rightarrow> sync_db \<Rightarrow> sync_db" where
  "run_step stamp (StartRun now spec) d = snd (transact (sync_start stamp now spec) d)"
| "run_step stamp (FinishRun now i c) d = snd (transact (sync_finish stamp now i c) d)"
| "run_step stamp (Elsewhere f) d = settle_runs (f (sy_db d)) d"

fun run_op_typed :: "run_op \<Rightarrow> bool" where
  "run_op_typed (FinishRun now i c) \<longleftrightarrow> completion_typed c"
| "run_op_typed _ \<longleftrightarrow> True"

definition has_source :: "uuid \<Rightarrow> db \<Rightarrow> bool" where
  "has_source i d \<longleftrightarrow> (\<exists>s \<in> set (d_sources d). so_id s = i)"

fun keeps_run :: "run_op \<Rightarrow> uuid \<times> uuid \<Rightarrow> bool" where
  "keeps_run (Elsewhere f) k \<longleftrightarrow> (\<forall>d. has_source (fst k) d \<longrightarrow> has_source (fst k) (f d))"
| "keeps_run _ k \<longleftrightarrow> True"

definition run_of :: "sync_db \<Rightarrow> uuid \<times> uuid \<Rightarrow> sync_run option" where
  "run_of d k =
     (case run_at d (snd k) of None \<Rightarrow> None | Some r \<Rightarrow> if run_source_id r = fst k then Some r else None)"

text \<open>The job of a run can be deleted, but a run that has ended changes in no other way.\<close>

definition run_evolves :: "sync_run \<Rightarrow> sync_run \<Rightarrow> bool" where
  "run_evolves r r' \<longleftrightarrow>
     run_id r' = run_id r \<and> run_source_id r' = run_source_id r \<and>
     run_started_at r' = run_started_at r \<and> run_created_at r' = run_created_at r \<and>
     (run_job_id r' = run_job_id r \<or> run_job_id r' = None) \<and>
     (is_finished (run_outcome r) \<longrightarrow> r'\<lparr>run_job_id := None\<rparr> = r\<lparr>run_job_id := None\<rparr>)"

lemma run_evolves_refl: "run_evolves r r"
  by (simp add: run_evolves_def)

lemma run_evolves_trans:
  assumes "run_evolves a b" "run_evolves b c"
  shows "run_evolves a c"
proof -
  have "is_finished (run_outcome a) \<Longrightarrow> run_outcome b = run_outcome a"
    using assms(1) by (cases a; cases b) (simp add: run_evolves_def)
  with assms show ?thesis by (auto simp: run_evolves_def)
qed

definition runs_kept :: "(datetime \<Rightarrow> datetime) \<Rightarrow> (uuid \<times> uuid \<Rightarrow> bool) \<Rightarrow> sync_db \<Rightarrow> sync_db \<Rightarrow> bool" where
  "runs_kept stamp kept d d' \<longleftrightarrow>
     runs_ok stamp d' \<and>
     (\<forall>k r. kept k \<longrightarrow> run_of d k = Some r \<longrightarrow> (\<exists>r'. run_of d' k = Some r' \<and> run_evolves r r'))"

lemma runs_kept_refl: "runs_ok stamp d \<Longrightarrow> runs_kept stamp kept d d"
  by (auto simp: runs_kept_def run_evolves_refl)

lemma runs_kept_transact:
  assumes "runs_ok stamp d" "\<And>r d'. m d = (Inr r, d') \<Longrightarrow> runs_kept stamp kept d d'"
  shows "runs_kept stamp kept d (snd (transact m d))"
  using assms runs_kept_refl by (cases "m d"; cases "fst (m d)") (auto simp: transact_def)

lemma run_of_changed:
  assumes "\<And>j. run_at d' j = (if j = i then Some r' else run_at d j)"
    and "\<And>r. run_at d i = Some r \<Longrightarrow> run_evolves r r'"
    and "run_of d k = Some r"
  shows "\<exists>r'. run_of d' k = Some r' \<and> run_evolves r r'"
  using assms by (cases "snd k = i") (auto simp: run_of_def run_evolves_def split: option.splits if_splits)

lemma start_kept:
  assumes ok: "runs_ok stamp d" and res: "sync_start stamp now spec d = (Inr r, d')"
  shows "runs_kept stamp kept d d'"
proof (cases "d' = d")
  case True
  with ok show ?thesis by (simp add: runs_kept_refl)
next
  case False
  with sync_start_Inr [OF res ok] have new: "run_at d (nr_id spec) = None" "insert_error (bind_run r) d = None"
      "run_ok r" "d' = d\<lparr>sy_runs := sy_runs d @ [bind_run r]\<rparr>" "run_id r = nr_id spec"
      "run_started_at r = stamp (nr_started_at spec)" by auto
  from new(1) have none: "find_run_row (nr_id spec) d = None"
    by (cases rule: find_run_cases [OF ok, of "nr_id spec"]) simp_all
  have stored: "run_stored stamp (sy_db d) (bind_run r)"
    using new(2,3,6) ok unfolding run_stored_def insert_error_def runs_ok_def stamp_ok_def
    by (cases "run_job_id r") (auto split: if_splits)
  have look: "find_run_row j d' = (if j = nr_id spec then Some (bind_run r) else find_run_row j d)" for j
    using none new(5) unfolding new(4) find_run_row_def by (simp add: find_inserted)
  have "run_at d' j = (if j = nr_id spec then Some r else run_at d j)" for j
    using new(3) by (simp add: run_at_def look decode_bind_run)
  note kept = run_of_changed [OF this]
  have "runs_ok stamp d'"
    using ok stored none new(5) distinct_inserted [of sr_id "nr_id spec" "sy_runs d" "bind_run r"]
    unfolding runs_ok_def new(4) by (auto simp: find_run_row_def)
  with kept new(1) show ?thesis by (simp add: runs_kept_def)
qed

lemma finish_kept:
  assumes ok: "runs_ok stamp d" and c: "completion_typed c" and res: "sync_finish stamp now i c d = (Inr r, d')"
  shows "runs_kept stamp kept d d'"
proof -
  from sync_finish_Inr [OF ok c res] obtain run f v where
    f: "run_at d i = Some run" "sync_run_finish run c = Inr f" "r = ended stamp now f"
      "finished_row stamp now f v (bind_run run) = bind_run r" "run_ok r"
    and d': "d' = d\<lparr>sy_runs := update_rows (\<lambda>r. sr_id r = i) (finished_row stamp now f v) (sy_runs d)\<rparr>" by blast
  from f(1) have row: "find_run_row i d = Some (bind_run run)" "bind_run run \<in> set (sy_runs d)" "run_id run = i"
      "stamp (run_started_at run) = run_started_at run"
    by (cases rule: find_run_cases [OF ok, of i]; simp)+
  note end_run = sync_run_finish_Inr [OF f(2)]
  have keys: "run_id r = i" "run_source_id r = run_source_id run" "run_job_id r = run_job_id run"
      "run_started_at r = run_started_at run" "run_created_at r = run_created_at run"
    unfolding f(3) end_run(5) using row(3) by (simp_all add: ended_def)
  have evolves: "run_evolves run r" using keys row(3) end_run(1) by (simp add: run_evolves_def)
  have look: "find_run_row j d' = (if j = i then Some (bind_run r) else find_run_row j d)" for j
    using find_updated [where k = sr_id and i = i and f = "finished_row stamp now f v" and
        cond = "\<lambda>r. sr_id r = i"] row(1,3) f(4)
    unfolding d' find_run_row_def by simp
  have at: "run_at d' j = (if j = i then Some r else run_at d j)" for j
    using f(5) by (simp add: run_at_def look decode_bind_run)
  have dist: "distinct (map sr_id (sy_runs d))" using ok by (simp add: runs_ok_def)
  have only: "x = bind_run run" if "x \<in> set (sy_runs d)" "sr_id x = i" for x
    using distinct_key_eq [OF dist that(1) row(2)] that(2) row(3) by simp
  have old: "run_stored stamp (sy_db d) (bind_run run)" using ok row(2) by (simp add: runs_ok_def)
  have "run_stored stamp (sy_db d) (bind_run r)"
    using old f(5) keys row(4) unfolding run_stored_def by auto
  then have "\<forall>x \<in> set (sy_runs d'). run_stored stamp (sy_db d') x"
    using ok only f(4) unfolding d' by (auto simp: runs_ok_def set_update_rows)
  moreover have "distinct (map sr_id (sy_runs d'))"
    using dist unfolding d' by (simp add: update_rows_keys)
  ultimately have "runs_ok stamp d'" using ok by (simp add: runs_ok_def)
  with run_of_changed [OF at] f(1) evolves show ?thesis by (simp add: runs_kept_def)
qed


lemma detached_run:
  assumes "run_ok r"
  shows "run_ok (r\<lparr>run_job_id := None\<rparr>)" "(bind_run r)\<lparr>sr_job_id := None\<rparr> = bind_run (r\<lparr>run_job_id := None\<rparr>)"
  using assms by (cases "run_finished_at r"; force simp: run_ok_def sync_run_from_parts_def bind_run_def
    nil_job_def bindE_eq_Inr split: if_splits)+

definition attached :: "db \<Rightarrow> sync_run_row \<Rightarrow> sync_run_row" where
  "attached d r =
     (case sr_job_id r of
        None \<Rightarrow> r
      | Some j \<Rightarrow> if \<exists>x \<in> set (pg_jobs (d_pg d)). r_id x = j then r else r\<lparr>sr_job_id := None\<rparr>)"

lemma cascade_runs_eq: "cascade_runs d runs = map (attached d) (filter (\<lambda>r. has_source (sr_source_id r) d) runs)"
  by (simp add: cascade_runs_def attached_def has_source_def cong: map_cong)

lemma attached_keys [simp]: "sr_id (attached d r) = sr_id r" "sr_source_id (attached d r) = sr_source_id r"
  by (simp_all add: attached_def split: option.split)

lemma attached_cases:
  "attached d r = r \<and> option_ok (\<lambda>j. \<exists>x \<in> set (pg_jobs (d_pg d)). r_id x = j) (sr_job_id r) \<or>
   attached d r = r\<lparr>sr_job_id := None\<rparr>"
  by (cases "sr_job_id r") (auto simp: attached_def)

lemma attached_run:
  assumes "run_ok r"
  obtains r' where "attached d (bind_run r) = bind_run r'" "run_ok r'" "run_evolves r r'"
    "option_ok (\<lambda>j. \<exists>x \<in> set (pg_jobs (d_pg d)). r_id x = j) (run_job_id r')"
  using attached_cases [of d "bind_run r"]
proof
  assume "attached d (bind_run r) = bind_run r \<and>
    option_ok (\<lambda>j. \<exists>x \<in> set (pg_jobs (d_pg d)). r_id x = j) (sr_job_id (bind_run r))"
  with that assms show ?thesis by (simp add: run_evolves_refl)
next
  assume "attached d (bind_run r) = (bind_run r)\<lparr>sr_job_id := None\<rparr>"
  with that [of "r\<lparr>run_job_id := None\<rparr>"] detached_run [OF assms] show ?thesis by (simp add: run_evolves_def)
qed

lemma find_cascaded:
  assumes "find (\<lambda>r. sr_id r = i) rows = Some row" "distinct (map sr_id rows)"
  shows "find (\<lambda>r. sr_id r = i) (cascade_runs d rows) =
     (if has_source (sr_source_id row) d then Some (attached d row) else None)"
  using assms
proof (induction rows)
  case (Cons x rows)
  show ?case
  proof (cases "sr_id x = i")
    case True
    with Cons.prems have "row = x" "find (\<lambda>r. sr_id r = i) (cascade_runs d rows) = None"
      by (auto simp: find_None_iff cascade_runs_eq image_iff)
    with True show ?thesis by (simp add: cascade_runs_eq)
  qed (use Cons in \<open>simp add: cascade_runs_eq\<close>)
qed simp

lemma settle_runs_kept:
  assumes ok: "runs_ok stamp d"
  shows "runs_kept stamp (\<lambda>k. has_source (fst k) (sy_db d) \<longrightarrow> has_source (fst k) d') d (settle_runs d' d)"
proof -
  have dist: "distinct (map sr_id (sy_runs d))" using ok by (simp add: runs_ok_def)
  then have dist': "distinct (map sr_id (cascade_runs d' (sy_runs d)))"
    by (simp add: cascade_runs_eq comp_def distinct_map_filter)
  have "run_stored stamp d' row'" if "row' \<in> set (cascade_runs d' (sy_runs d))" for row'
  proof -
    from that obtain row where row: "row \<in> set (sy_runs d)" "has_source (sr_source_id row) d'" "row' = attached d' row"
      by (auto simp: cascade_runs_eq)
    with ok obtain run where run: "run_ok run" "row = bind_run run" "stamp (run_started_at run) = run_started_at run"
      by (auto simp: runs_ok_def run_stored_def)
    from run(1) obtain r' where r': "attached d' (bind_run run) = bind_run r'" "run_ok r'" "run_evolves run r'"
        "option_ok (\<lambda>j. \<exists>x \<in> set (pg_jobs (d_pg d')). r_id x = j) (run_job_id r')"
      by (rule attached_run [of run d'])
    have "stamp (run_started_at r') = run_started_at r'" "run_source_id r' = run_source_id run"
      using r'(3) run(3) by (simp_all add: run_evolves_def)
    with r' row run show ?thesis unfolding run_stored_def has_source_def by auto
  qed
  with dist' ok have ok': "runs_ok stamp (settle_runs d' d)" by (simp add: runs_ok_def settle_runs_def)
  have "\<exists>r'. run_of (settle_runs d' d) k = Some r' \<and> run_evolves r r'"
    if k: "has_source (fst k) (sy_db d) \<longrightarrow> has_source (fst k) d'" "run_of d k = Some r" for k r
  proof -
    from k(2) have at: "run_at d (snd k) = Some r" "run_source_id r = fst k"
      by (auto simp: run_of_def split: option.splits if_splits)
    then have row: "find_run_row (snd k) d = Some (bind_run r)" "run_ok r" "bind_run r \<in> set (sy_runs d)"
      by (cases rule: find_run_cases [OF ok, of "snd k"]; simp)+
    then have "run_stored stamp (sy_db d) (bind_run r)" using ok by (simp add: runs_ok_def)
    then have "has_source (fst k) (sy_db d)" using at(2) by (simp add: run_stored_def has_source_def)
    with k(1) at(2) have src: "has_source (sr_source_id (bind_run r)) d'" by simp
    from row(2) obtain r' where r': "attached d' (bind_run r) = bind_run r'" "run_ok r'" "run_evolves r r'"
      by (rule attached_run [of r d'])
    have "find_run_row (snd k) (settle_runs d' d) = Some (bind_run r')"
      using find_cascaded [OF row(1) [unfolded find_run_row_def] dist, of d'] src r'(1)
      by (simp add: find_run_row_def settle_runs_def)
    then have "run_at (settle_runs d' d) (snd k) = Some r'" using r'(2) by (simp add: run_at_def decode_bind_run)
    with r'(3) at(2) show ?thesis by (simp add: run_of_def run_evolves_def)
  qed
  with ok' show ?thesis by (simp add: runs_kept_def)
qed

lemma run_step_kept:
  assumes "runs_ok stamp d" "run_op_typed op"
  shows "runs_kept stamp (keeps_run op) d (run_step stamp op d)"
proof (cases op)
  case (StartRun now spec)
  with assms start_kept show ?thesis by (auto intro: runs_kept_transact)
next
  case (FinishRun now i c)
  with assms finish_kept show ?thesis by (auto intro: runs_kept_transact)
next
  case (Elsewhere f)
  with settle_runs_kept [OF assms(1), of "f (sy_db d)"] show ?thesis by (auto simp: runs_kept_def)
qed

interpretation sr: tracked_table run_of "runs_ok stamp" run_op_typed keeps_run "run_step stamp" run_evolves
  for stamp
  using run_step_kept by unfold_locales
    (auto simp: runs_kept_def run_evolves_refl intro: run_evolves_trans)


section \<open>Properties\<close>

definition example_sync_run :: sync_run where
  "example_sync_run =
     \<lparr>run_id = 5, run_source_id = 7, run_job_id = None, run_outcome = SyncSucceeded,
      run_stats = stats_default\<lparr>articles_seen := 3\<rparr>, run_failure = None, run_feed_revision = Some 4,
      run_started_at = 3000, run_finished_at = Some 8000, run_created_at = 3000, run_updated_at = 9000\<rparr>"

definition example_sync_db :: sync_db where
  "example_sync_db = \<lparr>sy_db = example_db, sy_runs = [bind_run example_sync_run]\<rparr>"

definition example_start :: new_sync_run where
  "example_start = \<lparr>nr_id = 6, nr_source_id = 7, nr_job_id = None, nr_started_at = 12345\<rparr>"

definition example_completion :: sync_run_completion where
  "example_completion =
     \<lparr>cp_outcome = SyncBlocked, cp_finished_at = 20500, cp_stats = stats_default,
      cp_failure = Some \<lparr>fl_class = ClassBlocked, fl_message = lit ''stop''\<rparr>, cp_feed_revision = None\<rparr>"

definition example_run_ops :: "run_op list" where
  "example_run_ops =
     [StartRun 13000 example_start, FinishRun 21000 5 example_completion, FinishRun 21000 6 example_completion,
      Elsewhere (\<lambda>d. d\<lparr>d_pg := empty_pg\<rparr>)]"

lemma example_completion_typed: "completion_typed example_completion"
  by (simp add: completion_typed_def example_completion_def failure_ok_def lit_def trim_def trim_start_def
      is_whitespace_def str_len_def utf8_width_def)

lemma example_sync_run_stored: "runs_ok to_micros example_sync_db" "run_of example_sync_db (7, 5) = Some example_sync_run"
proof -
  have run: "run_ok example_sync_run"
    by (simp add: run_ok_def sync_run_from_parts_def example_sync_run_def is_nil_def nil_job_def validate_outcome_def
        is_finished_def requires_failure_def)
  have keys: "run_id example_sync_run = 5" "run_source_id example_sync_run = 7" "run_job_id example_sync_run = None"
    "run_started_at example_sync_run = 3000"
    by (simp_all add: example_sync_run_def)
  have "so_id (bind_source example_libs 10 20 example_source) = 7"
    by (simp add: bind_source_def example_source_def)
  then show "runs_ok to_micros example_sync_db"
    using run keys to_micros_ok
    by (auto simp: runs_ok_def example_sync_db_def run_stored_def example_db_def to_micros_def)
  show "run_of example_sync_db (7, 5) = Some example_sync_run"
    using keys by (simp add: run_of_def run_at_def find_run_row_def example_sync_db_def decode_bind_run [OF run])
qed

text \<open>
  (C11) Every stored run is well typed. From a well-formed table, through any sequence of starts and
  finishes and any changes of the other tables in between, every row satisfies all constraints of the
  schema, decodes to a run whose row it is, belongs to an existing source and, if it names a job, to
  an existing job; so the domain rules and the table constraints never disagree on what is written.
\<close>

theorem run_rows_typed:
  assumes "runs_ok stamp d" "\<forall>op \<in> set ops. run_op_typed op"
    and "row \<in> set (sy_runs (fold (run_step stamp) ops d))"
  shows "sync_row_check row \<and> (\<exists>run. decode_sync_run row = Inr run \<and> bind_run run = row) \<and>
     has_source (sr_source_id row) (sy_db (fold (run_step stamp) ops d)) \<and>
     (\<forall>j. sr_job_id row = Some j \<longrightarrow> (\<exists>x \<in> set (pg_jobs (d_pg (sy_db (fold (run_step stamp) ops d)))). r_id x = j))"
proof -
  have "runs_ok stamp (fold (run_step stamp) ops d)" using sr.run_inv assms(1,2) .
  with assms(3) have row: "run_stored stamp (sy_db (fold (run_step stamp) ops d)) row" by (simp add: runs_ok_def)
  then obtain run where "run_ok run" "row = bind_run run" by (auto simp: run_stored_def)
  with row run_ok_check decode_bind_run show ?thesis by (auto simp: run_stored_def has_source_def)
qed

theorem run_rows_typed_witness:
  "bind_run example_sync_run \<in> set (sy_runs (fold (run_step to_micros) [Elsewhere (\<lambda>d. d\<lparr>d_pg := empty_pg\<rparr>)] example_sync_db)) \<and>
   sync_row_check (bind_run example_sync_run)"
proof -
  have job: "run_job_id example_sync_run = None" by (simp add: example_sync_run_def)
  have "so_id (bind_source example_libs 10 20 example_source) = sr_source_id (bind_run example_sync_run)"
    by (simp add: bind_source_def example_source_def example_sync_run_def)
  then have mem: "bind_run example_sync_run \<in>
    set (sy_runs (fold (run_step to_micros) [Elsewhere (\<lambda>d. d\<lparr>d_pg := empty_pg\<rparr>)] example_sync_db))"
    by (simp add: example_sync_db_def settle_runs_def cascade_runs_eq attached_def job has_source_def example_db_def)
  with run_rows_typed [OF example_sync_run_stored(1) _ mem] show ?thesis by simp
qed

text \<open>
  (C12) A synchronization run ends once. From a well-formed table, through any sequence of starts and
  finishes (of this run or others, repeated, late or by a worker that lost its job) and any changes of
  the other tables that keep its source, the run stays in the table with its source, start and
  creation times; once it has an outcome, its outcome, counters, failure, revision and end never
  change again, and it can only lose the reference to a deleted job.
\<close>

theorem run_ends_once:
  assumes "runs_ok stamp d" "\<forall>op \<in> set ops. run_op_typed op \<and> keeps_run op (source_id, i)"
    and "run_of d (source_id, i) = Some r"
  shows "\<exists>r'. run_of (fold (run_step stamp) ops d) (source_id, i) = Some r' \<and>
     run_source_id r' = source_id \<and> run_started_at r' = run_started_at r \<and> run_created_at r' = run_created_at r \<and>
     (run_job_id r' = run_job_id r \<or> run_job_id r' = None) \<and>
     (is_finished (run_outcome r) \<longrightarrow>
        run_outcome r' = run_outcome r \<and> run_stats r' = run_stats r \<and> run_failure r' = run_failure r \<and>
        run_feed_revision r' = run_feed_revision r \<and> run_finished_at r' = run_finished_at r)"
proof -
  have src: "run_source_id r = source_id"
    using assms(3) by (auto simp: run_of_def split: option.splits if_splits)
  obtain r' where r': "run_of (fold (run_step stamp) ops d) (source_id, i) = Some r'" "run_evolves r r'"
    using sr.run_evolves [OF assms] by blast
  with src show ?thesis by (cases r; cases r') (auto simp: run_evolves_def)
qed

theorem run_ends_once_witness:
  "\<exists>r'. run_of (fold (run_step to_micros) example_run_ops example_sync_db) (7, 5) = Some r' \<and>
     run_outcome r' = SyncSucceeded \<and> run_finished_at r' = Some 8000 \<and> articles_seen (run_stats r') = 3"
proof -
  have ops: "\<forall>op \<in> set example_run_ops. run_op_typed op \<and> keeps_run op (7, 5)"
    by (simp add: example_run_ops_def example_completion_typed has_source_def)
  have "is_finished (run_outcome example_sync_run)" "run_outcome example_sync_run = SyncSucceeded"
    "run_finished_at example_sync_run = Some 8000" "articles_seen (run_stats example_sync_run) = 3"
    by (simp_all add: example_sync_run_def is_finished_def)
  with run_ends_once [OF example_sync_run_stored(1) ops example_sync_run_stored(2)] show ?thesis by auto
qed

text \<open>
  A start can be repeated, but an id belongs to one run. On a well-formed table, when a start
  succeeded, repeating it at any later time returns the same run and changes nothing, although the
  table holds the start rounded to microseconds; a start of another run (another source, job or
  stored start time) under the same id is refused as a conflict and changes nothing.
\<close>

theorem start_repeatable:
  assumes "runs_ok stamp d" "sync_start stamp now spec d = (Inr r, d')"
  shows "sync_start stamp now' spec d' = (Inr r, d') \<and>
     (sync_run_start spec' = Inr run' \<longrightarrow> nr_id spec' = nr_id spec \<longrightarrow>
        (nr_source_id spec', nr_job_id spec', stamp (nr_started_at spec')) \<noteq>
          (nr_source_id spec, nr_job_id spec, stamp (nr_started_at spec)) \<longrightarrow>
        sync_start stamp now' spec' d' = (Inl (StartConflict (nr_id spec)), d'))"
proof -
  note r = sync_start_Inr [OF assms(2,1)]
  have ok: "runs_ok stamp d'" using start_kept [OF assms] by (simp add: runs_kept_def)
  have at: "run_at d' (nr_id spec) = Some r"
  proof (cases "run_at d (nr_id spec) = Some r \<and> d' = d")
    case False
    with r(1) have new: "run_at d (nr_id spec) = None" "run_ok r" "d' = d\<lparr>sy_runs := sy_runs d @ [bind_run r]\<rparr>" by auto
    from new(1) have "find_run_row (nr_id spec) d = None"
      by (cases rule: find_run_cases [OF assms(1), of "nr_id spec"]) simp_all
    then have "find_run_row (nr_id spec) d' = Some (bind_run r)"
      using r(2) unfolding new(3) find_run_row_def by (simp add: find_inserted)
    with new(2) show ?thesis by (simp add: run_at_def decode_bind_run)
  qed simp
  obtain run where run: "sync_run_start spec = Inr run"
    using assms(2) by (cases "sync_run_start spec") (simp_all add: sync_start_def)
  show ?thesis
    using sync_start_eq(2) [OF ok run refl at, of now'] r(3-5) at
      sync_start_eq(2) [OF ok _ refl, of spec' run' r now'] by auto
qed

theorem start_repeatable_witness:
  "\<exists>r d'. sync_start to_micros 13000 example_start example_sync_db = (Inr r, d') \<and>
     sync_start to_micros 99000 example_start d' = (Inr r, d') \<and>
     sync_start to_micros 99000 (example_start\<lparr>nr_started_at := 77000\<rparr>) d' = (Inl (StartConflict 6), d')"
proof -
  have spec: "sync_run_start example_start = Inr (example_sync_run\<lparr>run_id := 6, run_outcome := SyncRunning,
      run_stats := stats_default, run_feed_revision := None, run_started_at := 12345, run_finished_at := None,
      run_created_at := 12345, run_updated_at := 12345\<rparr>)" (is "_ = Inr ?run")
    by (simp add: sync_run_start_def example_start_def example_sync_run_def is_nil_def nil_job_def)
  let ?r = "?run\<lparr>run_started_at := to_micros (run_started_at ?run), run_created_at := 13000, run_updated_at := 13000\<rparr>"
  have none: "run_at example_sync_db (nr_id example_start) = None"
    by (simp add: run_at_def find_run_row_def example_sync_db_def example_start_def example_sync_run_def)
  have "so_id (bind_source example_libs 10 20 example_source) = 7"
    by (simp add: bind_source_def example_source_def)
  moreover have "sync_row_check (bind_run ?r)"
    using run_ok_check [OF sync_run_start_ok(1) [OF spec]] .
  ultimately have "insert_error (bind_run ?r) example_sync_db = None"
    by (simp add: insert_error_def example_sync_db_def example_db_def example_sync_run_def)
  then have start: "sync_start to_micros 13000 example_start example_sync_db =
      (Inr ?r, example_sync_db\<lparr>sy_runs := sy_runs example_sync_db @ [bind_run ?r]\<rparr>)"
    using sync_start_eq(1) [OF example_sync_run_stored(1) spec refl none, of 13000] by simp
  have other: "sync_run_start (example_start\<lparr>nr_started_at := 77000\<rparr>) =
      Inr (?run\<lparr>run_started_at := 77000, run_created_at := 77000, run_updated_at := 77000\<rparr>)"
    by (simp add: sync_run_start_def example_start_def example_sync_run_def is_nil_def nil_job_def)
  from start_repeatable [OF example_sync_run_stored(1) start, of 99000 "example_start\<lparr>nr_started_at := 77000\<rparr>"] start other
  show ?thesis by (auto simp: example_start_def to_micros_def)
qed

end
