(* ===== verification/Source_Service.thy ===== *)
theory Source_Service
  imports Scheduler Feed_Rebuild
begin

text \<open>
  The source use cases of \<^verbatim>\<open>src/application/source_service.rs\<close>: each opens a unit of work, calls the
  source repository and, for a new source that may be scheduled, the job queue, and commits. The
  theory shows that a call is atomic and that a created source is either scheduled or waits for its
  operator.
\<close>

section \<open>A unit of work\<close>

text \<open>
  What the session does to a unit of work (\<^verbatim>\<open>src/persistence/unit_of_work.rs\<close>): the begin may fail;
  an error inside drops the unit, which rolls it back; the commit may report an error although it
  was applied, because the answer was lost or because the cleanup of asset blobs after it failed.
\<close>

record unit_session =
  us_begin :: "unit_of_work_error option"
  us_commit :: "(unit_of_work_error \<times> bool) option"

definition in_unit ::
    "(unit_of_work_error \<Rightarrow> 'e) \<Rightarrow> unit_session \<Rightarrow> ('s \<Rightarrow> ('e + 'a) \<times> 's) \<Rightarrow> 's \<Rightarrow> ('e + 'a) \<times> 's" where
  "in_unit f U tx s =
     (case us_begin U of Some e \<Rightarrow> (Inl (f e), s) | None \<Rightarrow>
      case transact tx s of
        (Inl e, s') \<Rightarrow> (Inl e, s')
      | (Inr x, s') \<Rightarrow>
          (case us_commit U of
             None \<Rightarrow> (Inr x, s')
           | Some (e, applied) \<Rightarrow> (Inl (f e), if applied then s' else s)))"

lemma in_unit_Inr: "in_unit f U tx s = (Inr x, s') \<longleftrightarrow> us_begin U = None \<and> us_commit U = None \<and> tx s = (Inr x, s')"
  by (auto simp: in_unit_def transact_def split: option.splits prod.splits sum.splits)

lemma in_unit_Inl:
  assumes "in_unit f U tx s = (Inl e, s')"
  shows "s' = s \<or> (\<exists>x c. us_begin U = None \<and> us_commit U = Some (c, True) \<and> e = f c \<and> tx s = (Inr x, s'))"
  using assms by (auto simp: in_unit_def transact_def split: option.splits prod.splits sum.splits if_splits)

lemma in_unit_keeps:
  assumes "P s" "\<And>x s'. tx s = (Inr x, s') \<Longrightarrow> P s'"
  shows "P (snd (in_unit f U tx s))"
  using assms by (auto simp: in_unit_def transact_def split: option.splits prod.splits sum.splits)


section \<open>The use cases\<close>

type_synonym 'a service_result = "(source_service_error + 'a) \<times> db"

definition on_sources :: "(db \<Rightarrow> 'a source_result) \<Rightarrow> db \<Rightarrow> 'a service_result" where
  "on_sources m d = (case m d of (r, d') \<Rightarrow> (map_err SvcSource r, d'))"

definition source_sync_job :: "(uuid \<Rightarrow> rstring) \<Rightarrow> source \<Rightarrow> datetime \<Rightarrow> new_job" where
  "source_sync_job T s now =
     \<lparr>nj_job_type = SourceSync, nj_source_id = Some (src_id s), nj_priority = src_priority s,
      nj_run_after = src_next_fetch_at s, nj_max_attempts = src_max_attempts s,
      nj_payload = JObject [(lit ''source_id'', JString (T (src_id s)))],
      nj_dedupe_key = sync_key T (src_id s), nj_now = now\<rparr>"

definition enqueue_source_sync :: "pg_env \<Rightarrow> uuid \<Rightarrow> new_job \<Rightarrow> db \<Rightarrow> unit service_result" where
  "enqueue_source_sync E uid job d =
     (case enqueue_internal E uid job False (d_pg d) of
        (Inl e, p) \<Rightarrow> (Inl (SvcJob e), d\<lparr>d_pg := p\<rparr>)
      | (Inr _, p) \<Rightarrow> (Inr (), d\<lparr>d_pg := p\<rparr>))"

definition create_tx ::
    "libs \<Rightarrow> (uuid \<Rightarrow> rstring) \<Rightarrow> pg_env \<Rightarrow> uuid \<Rightarrow> datetime \<Rightarrow> new_source \<Rightarrow> db \<Rightarrow> source service_result" where
  "create_tx L T E uid now spec d =
     (case on_sources (source_insert L (db_now E) spec) d of
        (Inl e, d1) \<Rightarrow> (Inl e, d1)
      | (Inr created, d1) \<Rightarrow>
          if src_enabled created \<and> is_automatically_eligible (src_scheduling_gate created) then
            (case enqueue_source_sync E uid (source_sync_job T created now) d1 of
               (Inl e, d2) \<Rightarrow> (Inl e, d2)
             | (Inr _, d2) \<Rightarrow> (Inr created, d2))
          else (Inr created, d1))"

definition create_source ::
    "libs \<Rightarrow> (uuid \<Rightarrow> rstring) \<Rightarrow> unit_session \<Rightarrow> pg_env \<Rightarrow> uuid \<Rightarrow> datetime \<Rightarrow> new_source \<Rightarrow> db \<Rightarrow> source service_result" where
  "create_source L T U E uid now spec = in_unit SvcUnitOfWork U (create_tx L T E uid now spec)"

definition update_source ::
    "libs \<Rightarrow> unit_session \<Rightarrow> pg_env \<Rightarrow> uuid \<Rightarrow> source_patch \<Rightarrow> db \<Rightarrow> source service_result" where
  "update_source L U E source_id patch =
     in_unit SvcUnitOfWork U (on_sources (source_update_op L (db_now E) source_id patch))"

definition delete_source :: "unit_session \<Rightarrow> uuid \<Rightarrow> db \<Rightarrow> unit service_result" where
  "delete_source U source_id = in_unit SvcUnitOfWork U (on_sources (source_delete source_id))"

definition set_source_enabled ::
    "libs \<Rightarrow> unit_session \<Rightarrow> pg_env \<Rightarrow> uuid \<Rightarrow> bool \<Rightarrow> db \<Rightarrow> source service_result" where
  "set_source_enabled L U E source_id enabled =
     in_unit SvcUnitOfWork U (on_sources (set_enabled L (db_now E) source_id enabled))"

definition set_source_gate ::
    "libs \<Rightarrow> unit_session \<Rightarrow> pg_env \<Rightarrow> uuid \<Rightarrow> scheduling_gate \<Rightarrow> db \<Rightarrow> source service_result" where
  "set_source_gate L U E source_id gate =
     in_unit SvcUnitOfWork U (on_sources (set_scheduling_gate L (db_now E) source_id gate))"

definition source_service_find :: "libs \<Rightarrow> uuid \<Rightarrow> db \<Rightarrow> source_service_error + source option" where
  "source_service_find L source_id d = map_err SvcSource (source_find L source_id d)"

definition service_find_by_book_id :: "libs \<Rightarrow> rstring \<Rightarrow> db \<Rightarrow> source_service_error + source option" where
  "service_find_by_book_id L book_id d = map_err SvcSource (find_by_book_id L book_id d)"

definition service_list ::
    "libs \<Rightarrow> (rstring \<Rightarrow> 'k::linorder) \<Rightarrow> db \<Rightarrow> source_service_error + source list" where
  "service_list L collate d = map_err SvcSource (source_list L collate d)"


section \<open>What a call does\<close>

lemma on_sources_Inr: "on_sources m d = (Inr x, d') \<longleftrightarrow> m d = (Inr x, d')"
  by (auto simp: on_sources_def split: prod.splits)

lemma source_insert_Inr:
  assumes L: "libs_ok L" and ok: "sources_ok L d" and typed: "op_typed L (InsertSource now spec)"
    and res: "source_insert L now spec d = (Inr s, d')"
  obtains row where "find_source_row (ns_id spec) d = None" "so_id row = ns_id spec"
    "d' = d\<lparr>d_sources := d_sources d @ [row]\<rparr>" "sources_ok L d'" "decode_source L row = Inr s"
    "source_new L spec = Inr s"
proof -
  from res obtain s0 n where s0: "source_new L spec = Inr s0" "duration_seconds L (src_sync_interval s0) = Inr n"
    and free: "unique_violation (new_source_row now s0 n) (d_sources d) = None"
    and d': "d' = d\<lparr>d_sources := d_sources d @ [new_source_row now s0 n]\<rparr>"
    and dec: "decode_source L (new_source_row now s0 n) = Inr s"
    by (auto simp: source_insert_def Let_def split: sum.splits option.splits)
  from s0(1) have new: "src_id s0 = ns_id spec" "src_feed_revision s0 = 0"
    "src_failure_cooldown_until s0 = None" "src_schedule_reserved_until s0 = None"
    by (auto simp: source_new_def Let_def result_simps)
  from insert_keeps [OF L ok typed] res have ok': "sources_ok L d'"
    by (simp add: keeps_sources_def transact_def)
  then have "source_row_ok L (new_source_row now s0 n)" by (simp add: sources_ok_def d')
  then obtain s1 where s1: "source_ok L s1" "new_source_row now s0 n = bind_source L now now s1"
    by (auto simp: source_row_ok_def new_source_row_def)
  with dec have "s1 = s" by (simp add: decode_bind_source)
  with s1 have row: "new_source_row now s0 n = bind_source L now now s" by simp
  from s1(1) \<open>s1 = s\<close> have secs: "try_seconds L (num_seconds (lib_chrono L) (src_sync_interval s)) = Some (src_sync_interval s)"
    by (simp add: source_ok_def)
  from s0(2) have n: "src_sync_interval s0 = seconds n" by (auto simp: duration_seconds_def Let_def split: if_splits)
  have "s = s0"
  proof -
    have int: "src_sync_interval s = src_sync_interval s0"
      using arg_cong [OF row, of so_sync_interval_seconds] secs n L
      by (auto simp: new_source_row_def bind_source_def libs_ok_def seconds_def)
    have gate: "src_scheduling_gate s = src_scheduling_gate s0"
      using arg_cong [OF row, of so_scheduling_gate]
      by (cases "src_scheduling_gate s"; cases "src_scheduling_gate s0") (auto simp: new_source_row_def bind_source_def)
    have rev: "uint (src_feed_revision s) = 0"
      using arg_cong [OF row, of so_feed_revision] by (simp add: new_source_row_def bind_source_def)
    show ?thesis
      using row int gate rev new(2-4) by (intro source.equality) (simp_all add: new_source_row_def bind_source_def word_uint_eq_iff)
  qed
  moreover have "find_source_row (ns_id spec) d = None"
    using free new(1) by (auto simp: unique_violation_def find_source_row_def find_None_iff new_source_row_def
        split: if_splits)
  ultimately show ?thesis
    using that [of "new_source_row now s0 n"] s0(1) d' ok' dec new(1) by (simp add: new_source_row_def)
qed

lemma enqueue_internal_Inr:
  assumes ok: "pg_ok s" and res: "enqueue_internal E uid spec False s = (Inr r, s')"
  shows "pg_ok s'" "\<exists>row \<in> set (pg_jobs s'). active_conflict (nj_dedupe_key spec) row"
    and "\<not> (\<exists>row \<in> set (pg_jobs s). active_conflict (nj_dedupe_key spec) row) \<Longrightarrow>
      \<exists>j. new uid spec = Inr j \<and> pg_jobs s' = pg_jobs s @ [bind_job j]"
proof -
  from enqueue_pg_step [OF ok, of E uid spec False] res show "pg_ok s'" by (simp add: autocommit_def)
  from res obtain j where j: "new uid spec = Inr j" by (cases "new uid spec") (auto simp: enqueue_internal_def)
  then have key: "j_dedupe_key j = nj_dedupe_key spec" "j_status j = Queued" by (auto simp: new_def split: if_splits)
  have active: "active_conflict (nj_dedupe_key spec) (bind_job j)"
    using key by (simp add: active_conflict_bind)
  show "\<exists>row \<in> set (pg_jobs s'). active_conflict (nj_dedupe_key spec) row"
    using res active by (auto simp: enqueue_internal_def j key Let_def split: list.splits if_splits sum.splits)
  show "\<exists>j. new uid spec = Inr j \<and> pg_jobs s' = pg_jobs s @ [bind_job j]"
    if "\<not> (\<exists>row \<in> set (pg_jobs s). active_conflict (nj_dedupe_key spec) row)"
    using res that by (auto simp: enqueue_internal_def j key Let_def split: if_splits sum.splits)
qed

text \<open>The other calls are one operation of the source repository each, or nothing.\<close>

lemma on_sources_unit:
  "snd (in_unit SvcUnitOfWork U (on_sources m) d) \<in> {d, snd (transact m d)}"
  by (auto simp: in_unit_def on_sources_def transact_def map_err_def split: option.splits prod.splits sum.splits)

lemma service_calls_are_steps:
  "snd (update_source L U E i patch d) \<in> {d, source_step L (UpdateSource (db_now E) i patch) d}"
  "snd (delete_source U i d) \<in> {d, source_step L (DeleteSource i) d}"
  "snd (set_source_enabled L U E i e d) \<in> {d, source_step L (SetEnabled (db_now E) i e) d}"
  "snd (set_source_gate L U E i g d) \<in> {d, source_step L (SetGate (db_now E) i g) d}"
  using on_sources_unit
  by (simp_all add: update_source_def delete_source_def set_source_enabled_def set_source_gate_def)


section \<open>Properties\<close>

lemma create_tx_Inr:
  assumes L: "libs_ok L" and ok: "sources_ok L d" and jobs: "pg_ok (d_pg d)"
    and typed: "op_typed L (InsertSource (db_now E) spec)" and res: "create_tx L T E uid now spec d = (Inr s, d')"
  defines "runs \<equiv> src_enabled s \<and> src_scheduling_gate s = Ready" and "key \<equiv> sync_key T (ns_id spec)"
  shows "source_new L spec = Inr s" "source_at L d (ns_id spec) = None"
    "source_at L d' i = (if i = ns_id spec then Some s else source_at L d i)" "sources_ok L d'" "pg_ok (d_pg d')"
    "\<not> runs \<Longrightarrow> d_pg d' = d_pg d" "runs \<Longrightarrow> has_active_job key d'"
    "runs \<Longrightarrow> \<not> has_active_job key d \<Longrightarrow>
      \<exists>j. new uid (source_sync_job T s now) = Inr j \<and> pg_jobs (d_pg d') = pg_jobs (d_pg d) @ [bind_job j]"
proof -
  from res obtain d1 where ins: "source_insert L (db_now E) spec d = (Inr s, d1)"
    and rest: "if runs then enqueue_source_sync E uid (source_sync_job T s now) d1 = (Inr (), d') else d' = d1"
    by (auto simp: create_tx_def on_sources_Inr runs_def is_automatically_eligible_def
        split: prod.splits sum.splits if_splits)
  from source_insert_Inr [OF L ok typed ins] obtain row where
    row: "find_source_row (ns_id spec) d = None" "so_id row = ns_id spec"
      "d1 = d\<lparr>d_sources := d_sources d @ [row]\<rparr>" "sources_ok L d1" "decode_source L row = Inr s"
      "source_new L spec = Inr s" by blast
  have sources: "d_sources d' = d_sources d1"
    using rest by (auto simp: enqueue_source_sync_def split: if_splits prod.splits sum.splits)
  show "source_new L spec = Inr s" "source_at L d (ns_id spec) = None" using row by (simp_all add: source_at_def)
  have "find_source_row i d1 = (if i = ns_id spec then Some row else find_source_row i d)"
    using row(1,2) unfolding row(3) find_source_row_def by (simp add: find_inserted)
  then show "source_at L d' i = (if i = ns_id spec then Some s else source_at L d i)"
    unfolding source_at_cong [OF sources] using row(5) by (simp add: source_at_def)
  show "sources_ok L d'" using row(4) sources by (simp add: sources_ok_def)
  have id: "src_id s = ns_id spec" using row(6) by (auto simp: source_new_def Let_def result_simps)
  then have key: "nj_dedupe_key (source_sync_job T s now) = key" by (simp add: source_sync_job_def key_def)
  have pg1: "d_pg d1 = d_pg d" using row(3) by simp
  show "pg_ok (d_pg d')" "\<not> runs \<Longrightarrow> d_pg d' = d_pg d" "runs \<Longrightarrow> has_active_job key d'"
    "runs \<Longrightarrow> \<not> has_active_job key d \<Longrightarrow>
      \<exists>j. new uid (source_sync_job T s now) = Inr j \<and> pg_jobs (d_pg d') = pg_jobs (d_pg d) @ [bind_job j]"
    using rest jobs pg1 enqueue_internal_Inr [OF jobs, of E uid "source_sync_job T s now"]
    by (auto simp: enqueue_source_sync_def has_active_job_def key split: if_splits prod.splits sum.splits)
qed

text \<open>
  (C14) Creating a source is atomic and leaves it scheduled or waiting for its operator. On well-formed
  tables: an error leaves everything as it was, unless the commit was applied and only its answer was
  lost. A success adds exactly the validated source, at revision zero, under an id that was free; if it
  is enabled and its gate is open, its synchronization job is active in the queue in the same commit,
  due at the source's next fetch time, for this source and with its priority and attempts when no job
  had its key before, and no pass of any scheduler selects the source while that job is active;
  otherwise no job is added. The table and queue invariants are kept.
\<close>

theorem created_source_scheduled:
  assumes "libs_ok L" "sources_ok L d" "pg_ok (d_pg d)" "op_typed L (InsertSource (db_now E) spec)"
    and "create_source L T U E uid now spec d = (r, d')"
  shows "case r of
      Inl e \<Rightarrow> d' = d \<or> (\<exists>c. us_commit U = Some (c, True) \<and> e = SvcUnitOfWork c)
    | Inr s \<Rightarrow>
        source_new L spec = Inr s \<and> source_at L d (ns_id spec) = None \<and>
        (\<forall>i. source_at L d' i = (if i = ns_id spec then Some s else source_at L d i)) \<and>
        sources_ok L d' \<and> pg_ok (d_pg d') \<and>
        (if src_enabled s \<and> src_scheduling_gate s = Ready
         then has_active_job (sync_key T (ns_id spec)) d' \<and>
              (\<forall>E' row. so_id row = ns_id spec \<longrightarrow> \<not> due_source T E' d' row) \<and>
              (\<not> has_active_job (sync_key T (ns_id spec)) d \<longrightarrow>
                 (\<exists>j. pg_jobs (d_pg d') = pg_jobs (d_pg d) @ [bind_job j] \<and> j_id j = uid \<and>
                    j_type j = SourceSync \<and> j_status j = Queued \<and> j_source_id j = Some (ns_id spec) \<and>
                    j_run_after j = ns_next_fetch_at spec \<and> j_priority j = ns_priority spec \<and>
                    j_max_attempts j = ns_max_attempts spec))
         else d_pg d' = d_pg d)"
proof (cases r)
  case (Inl e)
  with in_unit_Inl [OF assms(5) [unfolded create_source_def Inl]] show ?thesis by auto
next
  case (Inr s)
  with assms(5) have tx: "create_tx L T E uid now spec d = (Inr s, d')"
    by (simp add: create_source_def in_unit_Inr)
  note f = create_tx_Inr [OF assms(1-4) tx]
  have fields: "src_id s = ns_id spec" "src_next_fetch_at s = ns_next_fetch_at spec"
    "src_priority s = ns_priority spec" "src_max_attempts s = ns_max_attempts spec"
    using f(1) by (auto simp: source_new_def Let_def result_simps)
  have job: "new uid (source_sync_job T s now) = Inr j \<Longrightarrow> j_id j = uid \<and> j_type j = SourceSync \<and>
      j_status j = Queued \<and> j_source_id j = Some (ns_id spec) \<and> j_run_after j = ns_next_fetch_at spec \<and>
      j_priority j = ns_priority spec \<and> j_max_attempts j = ns_max_attempts spec" for j
    using fields by (auto simp: new_def source_sync_job_def split: if_splits)
  have due: "has_active_job (sync_key T (ns_id spec)) d' \<Longrightarrow> so_id row = ns_id spec \<Longrightarrow> \<not> due_source T E' d' row" for E' row
    by (auto simp: due_source_def)
  show ?thesis
  proof (cases "src_enabled s \<and> src_scheduling_gate s = Ready")
    case True
    with f job due Inr show ?thesis by auto
  next
    case False
    with f Inr show ?thesis by auto
  qed
qed

definition example_new_source :: new_source where
  "example_new_source =
     \<lparr>ns_id = 9, ns_book_id = lit '' fresh '', ns_display_name = lit ''Fresh'', ns_article_url = None,
      ns_enabled = True, ns_sync_interval = 3600000000000, ns_rss_item_limit = 20, ns_account_id = None,
      ns_scheduling_gate = Ready, ns_next_fetch_at = 500, ns_priority = 2, ns_max_attempts = 3\<rparr>"

definition example_unit :: unit_session where
  "example_unit = \<lparr>us_begin = None, us_commit = None\<rparr>"

lemma example_create:
  "\<exists>s d'. create_source example_libs example_text example_unit (example_env 25) 33 30 example_new_source example_db =
     (Inr s, d') \<and> src_enabled s \<and> src_scheduling_gate s = Ready"
proof -
  let ?s = "\<lparr>src_id = 9, src_book_id = lit ''fresh'', src_display_name = lit ''Fresh'', src_article_url = None,
      src_enabled = True, src_sync_interval = 3600000000000, src_rss_item_limit = 20,
      src_account_id = None, src_scheduling_gate = Ready, src_feed_revision = 0,
      src_next_fetch_at = 500, src_failure_cooldown_until = None, src_schedule_reserved_until = None,
      src_priority = 2, src_max_attempts = 3\<rparr>"
  have ok: "source_ok example_libs ?s"
    by (simp add: source_ok_def source_validate_def example_libs_def chrono_ref_def seconds_def is_nil_def lit_def)
  have new: "source_new example_libs example_new_source = Inr ?s"
    by (simp add: source_new_def example_new_source_def source_validate_def example_libs_def chrono_ref_def
        seconds_def is_nil_def lit_def trim_def trim_start_def is_whitespace_def)
  have secs: "duration_seconds example_libs (src_sync_interval ?s) = Inr 3600"
    by (simp add: duration_seconds_def example_libs_def chrono_ref_def seconds_def)
  have row: "new_source_row (db_now (example_env 25)) ?s 3600 = bind_source example_libs (db_now (example_env 25)) (db_now (example_env 25)) ?s"
    by (simp add: new_source_row_def bind_source_def example_libs_def chrono_ref_def)
  have free: "unique_violation (new_source_row (db_now (example_env 25)) ?s 3600) (d_sources example_db) = None"
    by (simp add: unique_violation_def new_source_row_def example_db_def bind_source_def example_source_def lit_def)
  have ins: "source_insert example_libs (db_now (example_env 25)) example_new_source example_db =
      (Inr ?s, example_db\<lparr>d_sources := d_sources example_db @ [new_source_row (db_now (example_env 25)) ?s 3600]\<rparr>)"
    unfolding source_insert_def new sum.case secs Let_def free option.case
    using decode_bind_source [OF ok] by (simp add: row)
  obtain j where j: "new 33 (source_sync_job example_text ?s 30) = Inr j"
    by (simp add: new_def source_sync_job_def sync_key_def lit_def trim_def trim_start_def is_whitespace_def)
  have "enqueue_internal (example_env 25) 33 (source_sync_job example_text ?s 30) False empty_pg =
      (Inr (Inserted j), empty_pg\<lparr>pg_jobs := pg_jobs empty_pg @ [bind_job j]\<rparr>)"
    using new_ok [OF j] by (intro enqueue_insert [OF j]) (simp_all add: empty_pg_def decode_job_iff)
  then show ?thesis
    unfolding create_source_def in_unit_Inr create_tx_def on_sources_def ins
    by (simp add: example_unit_def is_automatically_eligible_def enqueue_source_sync_def example_db_def)
qed

theorem created_source_scheduled_witness:
  "\<exists>s d'. create_source example_libs example_text example_unit (example_env 25) 33 30 example_new_source example_db =
     (Inr s, d') \<and> source_at example_libs d' 9 = Some s \<and> has_active_job (sync_key example_text 9) d'"
proof -
  obtain s d' where res: "create_source example_libs example_text example_unit (example_env 25) 33 30
      example_new_source example_db = (Inr s, d')" "src_enabled s" "src_scheduling_gate s = Ready"
    using example_create by blast
  have typed: "op_typed example_libs (InsertSource (db_now (example_env 25)) example_new_source)"
    by (simp add: example_new_source_def representable_def example_libs_def chrono_ref_def seconds_def)
  have jobs: "pg_ok (d_pg example_db)"
    by (simp add: pg_ok_def store_ok_def store_of_def unique_active_def example_db_def empty_pg_def)
  have id: "ns_id example_new_source = 9" by (simp add: example_new_source_def)
  from created_source_scheduled [OF example_libs_ok example_db_ok jobs typed res(1)] res show ?thesis
    by (auto simp: id)
qed

end
