(* ===== verification/Asset_Store.thy ===== *)
theory Asset_Store
  imports Source
begin

text \<open>
  The values of the asset archive (\<^verbatim>\<open>src/archive/asset_store.rs\<close>): the validated policies, the inputs
  that were fetched for an article, the keys of blobs, and blobs with their metadata. The theory shows
  that an accepted key names something below the root of the store, and that a blob always carries the
  checksum of its bytes.
\<close>

type_synonym bytes = "8 word list"

text \<open>
  The sha2 and uuid crates: the lower-case hexadecimal digest, and the text of a UUID with its parser.
  What the code relies on: a digest is 64 hexadecimal digits; a UUID is parsed from its text, which has
  36 characters, hexadecimal digits and hyphens.
\<close>

record blob_libs =
  sha256_hex :: "bytes \<Rightarrow> rstring"
  uuid_text :: "uuid \<Rightarrow> rstring"
  parse_uuid :: "rstring \<Rightarrow> uuid option"

definition is_ascii_hexdigit :: "nat \<Rightarrow> bool" where
  "is_ascii_hexdigit c \<longleftrightarrow> (48 \<le> c \<and> c \<le> 57) \<or> (65 \<le> c \<and> c \<le> 70) \<or> (97 \<le> c \<and> c \<le> 102)"

definition blob_libs_ok :: "blob_libs \<Rightarrow> bool" where
  "blob_libs_ok K \<longleftrightarrow>
     (\<forall>b. length (sha256_hex K b) = 64 \<and> list_all is_ascii_hexdigit (sha256_hex K b)) \<and>
     (\<forall>u. parse_uuid K (uuid_text K u) = Some u) \<and>
     (\<forall>u. length (uuid_text K u) = 36 \<and> list_all (\<lambda>c. is_ascii_hexdigit c \<or> c = 45) (uuid_text K u))"


section \<open>Policies\<close>

text \<open>A standard library \<^verbatim>\<open>Duration\<close> is a number of nanoseconds.\<close>

record asset_cache_policy =
  max_cache_size_bytes :: u64
  max_age :: nat
  max_asset_size_bytes :: u64
  max_count_per_article :: u32
  max_fetch_bytes_per_article :: u64
  max_fetch_time_per_article :: nat
  fetch_timeout :: nat
  max_redirects :: u32

datatype asset_cache_policy_error =
    CacheZeroLimit string | CacheZeroDuration string | TimeoutExceedsArticleBudget

definition asset_cache_policy_new :: "asset_cache_policy \<Rightarrow> asset_cache_policy_error + asset_cache_policy" where
  "asset_cache_policy_new p =
     (if max_asset_size_bytes p = 0 then Inl (CacheZeroLimit ''max_asset_size_bytes'')
      else if max_count_per_article p = 0 then Inl (CacheZeroLimit ''max_count_per_article'')
      else if max_fetch_bytes_per_article p = 0 then Inl (CacheZeroLimit ''max_fetch_bytes_per_article'')
      else if max_fetch_time_per_article p = 0 then Inl (CacheZeroDuration ''max_fetch_time_per_article'')
      else if fetch_timeout p = 0 then Inl (CacheZeroDuration ''fetch_timeout'')
      else if fetch_timeout p > max_fetch_time_per_article p then Inl TimeoutExceedsArticleBudget
      else Inr p)"

definition asset_cache_policy_default :: asset_cache_policy where
  "asset_cache_policy_default =
     \<lparr>max_cache_size_bytes = 5000000000, max_age = 30 * 24 * 60 * 60 * 1000000000,
      max_asset_size_bytes = 10000000, max_count_per_article = 100,
      max_fetch_bytes_per_article = 100000000, max_fetch_time_per_article = 120 * 1000000000,
      fetch_timeout = 30 * 1000000000, max_redirects = 5\<rparr>"

record asset_repair_policy =
  max_pending :: u32
  public_max_pending :: u32
  requeue_after :: nat
  repair_max_attempts :: u32

datatype asset_repair_policy_error =
    RepairZeroLimit string | PublicLimitExceedsGlobal | RepairZeroDuration

definition asset_repair_policy_new :: "asset_repair_policy \<Rightarrow> asset_repair_policy_error + asset_repair_policy" where
  "asset_repair_policy_new p =
     (if max_pending p = 0 then Inl (RepairZeroLimit ''max_pending'')
      else if public_max_pending p > max_pending p then Inl PublicLimitExceedsGlobal
      else if requeue_after p = 0 then Inl RepairZeroDuration
      else if repair_max_attempts p = 0 then Inl (RepairZeroLimit ''max_attempts'')
      else Inr p)"

record asset_refresh_policy =
  refresh_max_attempts :: u32
  refresh_cooldown :: nat

datatype asset_refresh_policy_error = AttemptLimitOutOfRange | CooldownOutOfRange

definition asset_refresh_policy_new ::
    "asset_refresh_policy \<Rightarrow> asset_refresh_policy_error + asset_refresh_policy" where
  "asset_refresh_policy_new p =
     (if \<not> (1 \<le> refresh_max_attempts p \<and> refresh_max_attempts p \<le> 10) then Inl AttemptLimitOutOfRange
      else if \<not> (60 * 1000000000 \<le> refresh_cooldown p \<and> refresh_cooldown p \<le> 86400 * 1000000000)
      then Inl CooldownOutOfRange
      else Inr p)"

lemma default_policy_accepted: "asset_cache_policy_new asset_cache_policy_default = Inr asset_cache_policy_default"
  by (simp add: asset_cache_policy_new_def asset_cache_policy_default_def)


section \<open>Inputs\<close>

record asset_input =
  ai_source_url :: url
  ai_final_url :: url
  ai_media_type :: rstring
  ai_bytes :: bytes
  ai_occurrence :: u32
  ai_referer_url :: url
  ai_origin :: "rstring option"
  ai_user_agent :: "rstring option"
  ai_checksum :: rstring
  ai_preparation_id :: uuid

definition asset_input_new ::
    "blob_libs \<Rightarrow> uuid \<Rightarrow> url \<Rightarrow> url \<Rightarrow> rstring \<Rightarrow> bytes \<Rightarrow> u32 \<Rightarrow> url \<Rightarrow> rstring option \<Rightarrow> rstring option \<Rightarrow> asset_input" where
  "asset_input_new K uid source_url final_url media_type body occurrence referer_url origin user_agent =
     \<lparr>ai_source_url = source_url, ai_final_url = final_url, ai_media_type = media_type, ai_bytes = body,
      ai_occurrence = occurrence, ai_referer_url = referer_url, ai_origin = origin,
      ai_user_agent = user_agent, ai_checksum = sha256_hex K body, ai_preparation_id = uid\<rparr>"

definition checksum_matches_bytes :: "blob_libs \<Rightarrow> asset_input \<Rightarrow> bool" where
  "checksum_matches_bytes K i \<longleftrightarrow> sha256_hex K (ai_bytes i) = ai_checksum i"

definition has_signed_url_query :: "url \<Rightarrow> bool" where
  "has_signed_url_query u = has_provider_signature u"


section \<open>Keys\<close>

datatype asset_blob_key_error = KeyEmpty | AbsoluteOrInvalid | KeyTraversal | KeyBackslash

definition is_ascii_alphabetic :: "nat \<Rightarrow> bool" where
  "is_ascii_alphabetic c \<longleftrightarrow> (65 \<le> c \<and> c \<le> 90) \<or> (97 \<le> c \<and> c \<le> 122)"

definition drive_prefix :: "rstring \<Rightarrow> bool" where
  "drive_prefix v = (case v of a # b # _ \<Rightarrow> is_ascii_alphabetic a \<and> b = 58 | _ \<Rightarrow> False)"

definition starts_with_char :: "nat \<Rightarrow> rstring \<Rightarrow> bool" where
  "starts_with_char c v = (case v of [] \<Rightarrow> False | a # _ \<Rightarrow> a = c)"

definition asset_blob_key_new :: "rstring \<Rightarrow> asset_blob_key_error + rstring" where
  "asset_blob_key_new v =
     (if trim v = [] then Inl KeyEmpty
      else if starts_with_char 47 v \<or> starts_with_char 92 v \<or> 0 \<in> set v \<or> drive_prefix v then Inl AbsoluteOrInvalid
      else if list_ex (\<lambda>c. c = [] \<or> c = lit ''.'' \<or> c = lit ''..'') (split_on 47 v) then Inl KeyTraversal
      else if 92 \<in> set v then Inl KeyBackslash
      else Inr v)"

definition for_blob_id :: "blob_libs \<Rightarrow> uuid \<Rightarrow> rstring" where
  "for_blob_id K blob_id = lit ''blobs/'' @ uuid_text K blob_id"


section \<open>Blobs\<close>

datatype asset_blob_store_error =
    BlobInvalidMetadata | BlobChecksumMismatch | BlobConflict | BlobSizeOverflow | BlobBackend string

record asset_blob =
  blob_bytes :: bytes
  blob_media_type :: rstring
  blob_checksum :: rstring

definition asset_blob_new :: "blob_libs \<Rightarrow> bytes \<Rightarrow> rstring \<Rightarrow> rstring \<Rightarrow> asset_blob_store_error + asset_blob" where
  "asset_blob_new K body media_type checksum =
     (if trim media_type = [] then Inl BlobInvalidMetadata
      else if checksum \<noteq> sha256_hex K body then Inl BlobChecksumMismatch
      else Inr \<lparr>blob_bytes = body, blob_media_type = media_type, blob_checksum = checksum\<rparr>)"

record asset_blob_metadata =
  md_checksum :: rstring
  md_media_type :: rstring
  md_byte_size :: u64
  md_present :: bool
  md_stored_byte_size :: "u64 option"

definition asset_blob_metadata_new ::
    "rstring \<Rightarrow> rstring \<Rightarrow> u64 \<Rightarrow> bool \<Rightarrow> asset_blob_store_error + asset_blob_metadata" where
  "asset_blob_metadata_new checksum media_type byte_size present =
     (if trim media_type = [] \<or> str_len checksum \<noteq> 64 \<or> \<not> list_all is_ascii_hexdigit checksum
      then Inl BlobInvalidMetadata
      else Inr \<lparr>md_checksum = checksum, md_media_type = media_type, md_byte_size = byte_size,
                md_present = present, md_stored_byte_size = (if present then Some byte_size else None)\<rparr>)"

definition with_stored_byte_size :: "u64 \<Rightarrow> asset_blob_metadata \<Rightarrow> asset_blob_metadata" where
  "with_stored_byte_size n m = m\<lparr>md_present := (n = md_byte_size m), md_stored_byte_size := Some n\<rparr>"

record stored_asset =
  sa_id :: uuid
  sa_source_url :: url
  sa_blob_id :: uuid
  sa_checksum :: rstring
  sa_media_type :: rstring
  sa_byte_size :: u64

datatype asset_read = AssetAvailable rstring rstring bytes | AssetMissing url

record asset_maintenance_result =
  mr_stale_blobs :: nat
  mr_size_evicted_blobs :: nat
  mr_orphan_records :: nat
  mr_orphan_blobs :: nat

definition maintenance_changed :: "asset_maintenance_result \<Rightarrow> bool" where
  "maintenance_changed r \<longleftrightarrow>
     mr_stale_blobs r > 0 \<or> mr_size_evicted_blobs r > 0 \<or> mr_orphan_records r > 0 \<or> mr_orphan_blobs r > 0"

lemma str_len_ascii: "list_all (\<lambda>c. utf8_width c = 1) s \<Longrightarrow> str_len s = length s"
  by (induction s) (auto simp: str_len_def)

lemma digest_checksum:
  assumes "blob_libs_ok K" "trim m \<noteq> []"
  shows "asset_blob_metadata_new (sha256_hex K b) m n p =
     Inr \<lparr>md_checksum = sha256_hex K b, md_media_type = m, md_byte_size = n, md_present = p,
          md_stored_byte_size = (if p then Some n else None)\<rparr>"
proof -
  have hex: "length (sha256_hex K b) = 64" "list_all is_ascii_hexdigit (sha256_hex K b)"
    using assms(1) by (simp_all add: blob_libs_ok_def)
  have "list_all (\<lambda>c. utf8_width c = 1) (sha256_hex K b)"
    using hex(2) by (rule list.pred_mono_strong) (auto simp: is_ascii_hexdigit_def utf8_width_def)
  then have "str_len (sha256_hex K b) = length (sha256_hex K b)" by (rule str_len_ascii)
  with hex assms(2) show ?thesis by (simp add: asset_blob_metadata_new_def)
qed


section \<open>Keys stay below the root\<close>

text \<open>
  How a path is resolved against a directory: empty components and \<^verbatim>\<open>.\<close> stay, \<^verbatim>\<open>..\<close> goes up, and
  any other component goes down.
\<close>

fun resolve :: "rstring list \<Rightarrow> rstring list \<Rightarrow> rstring list" where
  "resolve dir [] = dir"
| "resolve dir (c # cs) =
     (if c = [] \<or> c = lit ''.'' then resolve dir cs
      else if c = lit ''..'' then resolve (butlast dir) cs
      else resolve (dir @ [c]) cs)"

lemma resolve_plain:
  assumes "\<not> list_ex (\<lambda>c. c = [] \<or> c = lit ''.'' \<or> c = lit ''..'') cs"
  shows "resolve dir cs = dir @ cs"
  using assms by (induction cs arbitrary: dir) auto

lemma uuid_text_plain:
  assumes "blob_libs_ok K"
  shows "c \<in> set (uuid_text K u) \<Longrightarrow> is_ascii_hexdigit c \<or> c = 45" "length (uuid_text K u) = 36"
  using assms unfolding blob_libs_ok_def list_all_iff by simp_all

lemma for_blob_id_accepted:
  assumes "blob_libs_ok K"
  shows "asset_blob_key_new (for_blob_id K u) = Inr (for_blob_id K u)"
proof -
  note plain = uuid_text_plain [OF assms]
  have no: "47 \<notin> set (uuid_text K u)" "0 \<notin> set (uuid_text K u)" "92 \<notin> set (uuid_text K u)"
    using plain(1) [of _ u] by (fastforce simp: is_ascii_hexdigit_def)+
  have key: "for_blob_id K u = [98, 108, 111, 98, 115] @ 47 # uuid_text K u" by (simp add: for_blob_id_def lit_def)
  have "split_on 47 (for_blob_id K u) = [[98, 108, 111, 98, 115], uuid_text K u]"
    unfolding key using no(1) by (subst split_on_append) (simp add: split_on_none)
  moreover have "uuid_text K u \<noteq> []" "uuid_text K u \<noteq> lit ''.''" "uuid_text K u \<noteq> lit ''..''"
    using plain(2) [of u] by (auto simp: lit_def)
  moreover have "trim (for_blob_id K u) \<noteq> []"
    unfolding key by (auto simp: trim_eq_Nil_iff is_whitespace_def)
  moreover have "\<not> drive_prefix (for_blob_id K u)" "\<not> starts_with_char 47 (for_blob_id K u)"
    "\<not> starts_with_char 92 (for_blob_id K u)" "0 \<notin> set (for_blob_id K u)" "92 \<notin> set (for_blob_id K u)"
    using no unfolding key by (auto simp: drive_prefix_def starts_with_char_def)
  moreover have "[98, 108, 111, 98, 115] \<noteq> lit ''.''" "[98, 108, 111, 98, 115] \<noteq> lit ''..''" by (simp_all add: lit_def)
  ultimately show ?thesis by (simp add: asset_blob_key_new_def)
qed

text \<open>
  An accepted blob key cannot leave the store. Whatever text is offered, an accepted key resolves,
  from any directory and with empty, single-dot and double-dot components read as a file system reads
  them, to that directory followed by the key's components, at least one and none empty; it is not
  absolute, has no drive prefix, no backslash and no NUL. The key of every blob id is accepted.
\<close>

theorem accepted_keys_stay_inside:
  assumes "blob_libs_ok K"
  shows "(\<forall>v k. asset_blob_key_new v = Inr k \<longrightarrow>
            k = v \<and> (\<forall>dir. resolve dir (split_on 47 k) = dir @ split_on 47 k) \<and> [] \<notin> set (split_on 47 k) \<and>
            \<not> starts_with_char 47 k \<and> \<not> drive_prefix k \<and> 92 \<notin> set k \<and> 0 \<notin> set k) \<and>
         (\<forall>u. asset_blob_key_new (for_blob_id K u) = Inr (for_blob_id K u))"
proof (intro conjI allI impI for_blob_id_accepted [OF assms])
  fix v k assume new: "asset_blob_key_new v = Inr k"
  then have ok: "\<not> list_ex (\<lambda>c. c = [] \<or> c = lit ''.'' \<or> c = lit ''..'') (split_on 47 k)" and "k = v"
    and rest: "\<not> starts_with_char 47 k" "\<not> drive_prefix k" "92 \<notin> set k" "0 \<notin> set k"
    by (auto simp: asset_blob_key_new_def split: if_splits)
  show "k = v" "\<not> starts_with_char 47 k" "\<not> drive_prefix k" "92 \<notin> set k" "0 \<notin> set k" by fact+
  show "resolve dir (split_on 47 k) = dir @ split_on 47 k" for dir by (rule resolve_plain [OF ok])
  show "[] \<notin> set (split_on 47 k)" using ok by (auto simp: list_ex_iff)
qed


text \<open>Concrete libraries: a constant digest, and the value of a UUID in base 16.\<close>

definition hex_digit :: "nat \<Rightarrow> nat" where
  "hex_digit d = (if d < 10 then 48 + d else 87 + d)"

definition digit_of_hex :: "nat \<Rightarrow> nat" where
  "digit_of_hex c = (if c < 58 then c - 48 else c - 87)"

fun hex_text :: "nat \<Rightarrow> nat \<Rightarrow> rstring" where
  "hex_text 0 n = []"
| "hex_text (Suc k) n = hex_digit (n mod 16) # hex_text k (n div 16)"

fun hex_read :: "rstring \<Rightarrow> nat" where
  "hex_read [] = 0"
| "hex_read (c # cs) = digit_of_hex c + 16 * hex_read cs"

definition example_blob_libs :: blob_libs where
  "example_blob_libs =
     \<lparr>sha256_hex = (\<lambda>b. replicate 64 48), uuid_text = (\<lambda>u. hex_text 32 (unat u) @ [45, 45, 45, 45]),
      parse_uuid = (\<lambda>v. Some (word_of_nat (hex_read (take 32 v))))\<rparr>"

lemma hex_text_facts: "length (hex_text k n) = k" "list_all is_ascii_hexdigit (hex_text k n)"
  "hex_read (hex_text k n) = n mod 16 ^ k"
proof -
  show "length (hex_text k n) = k" by (induction k arbitrary: n) auto
  show "list_all is_ascii_hexdigit (hex_text k n)"
    by (induction k arbitrary: n) (auto simp: is_ascii_hexdigit_def hex_digit_def)
  have "digit_of_hex (hex_digit d) = d" if "d < 16" for d
    using that by (simp add: digit_of_hex_def hex_digit_def)
  then show "hex_read (hex_text k n) = n mod 16 ^ k"
    by (induction k arbitrary: n) (auto simp: mod_mult2_eq)
qed

lemma example_blob_libs_ok: "blob_libs_ok example_blob_libs"
proof -
  have "hex_read (hex_text 32 (unat u)) = unat u" for u :: uuid
    using unsigned_less [of u, where ?'a = nat] by (simp add: hex_text_facts)
  then show ?thesis
    using hex_text_facts(1,2) [of 32]
    by (auto simp: blob_libs_ok_def example_blob_libs_def is_ascii_hexdigit_def list_all_iff)
qed

theorem accepted_keys_stay_inside_witness:
  "asset_blob_key_new (lit ''a/b'') = Inr (lit ''a/b'') \<and>
   resolve [lit ''root''] (split_on 47 (lit ''a/b'')) = [lit ''root'', lit ''a'', lit ''b'']"
proof -
  have new: "asset_blob_key_new (lit ''a/b'') = Inr (lit ''a/b'')"
    by (simp add: asset_blob_key_new_def lit_def trim_def trim_start_def is_whitespace_def starts_with_char_def drive_prefix_def)
  have split: "split_on 47 (lit ''a/b'') = [lit ''a'', lit ''b'']" by (simp add: lit_def)
  have "resolve [lit ''root''] (split_on 47 (lit ''a/b'')) = [lit ''root''] @ split_on 47 (lit ''a/b'')"
    using accepted_keys_stay_inside [OF example_blob_libs_ok] new by blast
  with new split show ?thesis by simp
qed

end
