(* ===== verification/Asset_Cache.thy ===== *)
theory Asset_Cache
  imports Asset_Store "HOL-Library.List_Lexorder" "HOL-Library.Product_Lexorder"
begin

text \<open>
  The asset cache of \<^verbatim>\<open>src/persistence/repositories/asset_repository.rs\<close> with the blob store inside
  PostgreSQL: preparing a batch, storing and replacing the assets of an article within a savepoint,
  making room by evicting the least recently used blobs, reading an asset, maintenance, and what a
  unit of work does with the evictions when it commits.

  A method takes one reading of the server's clock, a batch one for every input. The drawn ids are
  arguments. The advisory locks serialize the writers, so that other sessions fall between two
  transactions and are not visible inside one.
\<close>

section \<open>Tables\<close>

record blob_row =
  b_id :: uuid
  b_checksum :: rstring
  b_byte_size :: int
  b_media_type :: rstring
  b_data :: "bytes option"
  b_created_at :: datetime
  b_last_fetched_at :: datetime
  b_last_accessed_at :: datetime

record asset_record_row =
  rc_id :: uuid
  rc_source_url :: rstring
  rc_version :: int
  rc_final_url :: rstring
  rc_blob_id :: "uuid option"
  rc_fetch_status :: string
  rc_last_error :: "string option"
  rc_updated_at :: datetime

record article_asset_row =
  aa_source_id :: uuid
  aa_review_id :: rstring
  aa_record_id :: uuid
  aa_occurrence :: int
  aa_role :: string
  aa_referer_url :: rstring
  aa_origin :: "rstring option"
  aa_user_agent :: "rstring option"

text \<open>The queues hold blob ids with the time they were queued; a repair is a job and its record.\<close>

record asset_db =
  a_blobs :: "blob_row list"
  a_records :: "asset_record_row list"
  a_links :: "article_asset_row list"
  a_deletion_queue :: "(uuid \<times> datetime) list"
  a_cleanup_queue :: "(uuid \<times> datetime) list"
  a_repairs :: "(uuid \<times> uuid option) list"

datatype asset_repository_error =
    InvalidArticleIdentity
  | InvalidAssetUrl
  | InvalidMediaType
  | EmptyBody
  | AssetTooLarge nat u64
  | TooManyAssets u32
  | CapacityExceeded u64 u64
  | AssetInvalidMetadata
  | ChecksumMismatch
  | PreparationRequired
  | AssetLeaseLost
  | AssetStorage string
  | AssetBlobStore asset_blob_store_error

type_synonym 'a asset_result = "(asset_repository_error + 'a) \<times> asset_db"


section \<open>The blob store in PostgreSQL\<close>

definition legacy_blob_id :: "blob_libs \<Rightarrow> rstring \<Rightarrow> asset_blob_store_error + uuid" where
  "legacy_blob_id K key =
     (let text = (if take 6 key = lit ''blobs/'' then drop 6 key else key)
      in ok_or BlobInvalidMetadata (parse_uuid K text))"

definition find_blob :: "uuid \<Rightarrow> asset_db \<Rightarrow> blob_row option" where
  "find_blob i s = find (\<lambda>b. b_id b = i) (a_blobs s)"

definition read_in_transaction ::
    "blob_libs \<Rightarrow> rstring \<Rightarrow> asset_db \<Rightarrow> asset_blob_store_error + asset_blob option" where
  "read_in_transaction K key s =
     bindE (legacy_blob_id K key) (\<lambda>blob_id.
       case find_blob blob_id s of None \<Rightarrow> Inr None | Some r \<Rightarrow>
       case b_data r of None \<Rightarrow> Inr None | Some body \<Rightarrow>
       bindE (ok_or BlobInvalidMetadata (u64_try_from (b_byte_size r))) (\<lambda>expected_size.
         if unat expected_size \<noteq> length body then Inl BlobInvalidMetadata
         else bindE (asset_blob_new K body (b_media_type r) (b_checksum r)) (\<lambda>blob. Inr (Some blob))))"

definition blob_metadata_from_row :: "blob_row \<Rightarrow> asset_blob_store_error + asset_blob_metadata" where
  "blob_metadata_from_row r =
     bindE (ok_or BlobInvalidMetadata (u64_try_from (b_byte_size r))) (\<lambda>byte_size.
       asset_blob_metadata_new (b_checksum r) (b_media_type r) byte_size (b_data r \<noteq> None))"

definition stat_in_transaction ::
    "blob_libs \<Rightarrow> rstring \<Rightarrow> asset_db \<Rightarrow> asset_blob_store_error + asset_blob_metadata option" where
  "stat_in_transaction K key s =
     bindE (legacy_blob_id K key) (\<lambda>blob_id.
       case find_blob blob_id s of None \<Rightarrow> Inr None
       | Some r \<Rightarrow> bindE (blob_metadata_from_row r) (\<lambda>m. Inr (Some m)))"

definition update_blob :: "uuid \<Rightarrow> (blob_row \<Rightarrow> blob_row) \<Rightarrow> asset_db \<Rightarrow> asset_db" where
  "update_blob i f s = s\<lparr>a_blobs := update_rows (\<lambda>b. b_id b = i) f (a_blobs s)\<rparr>"

definition new_blob_row :: "datetime \<Rightarrow> uuid \<Rightarrow> asset_blob \<Rightarrow> int \<Rightarrow> blob_row" where
  "new_blob_row now blob_id blob byte_size =
     \<lparr>b_id = blob_id, b_checksum = blob_checksum blob, b_byte_size = byte_size,
      b_media_type = blob_media_type blob, b_data = Some (blob_bytes blob), b_created_at = now,
      b_last_fetched_at = now, b_last_accessed_at = now\<rparr>"

definition put_in_transaction ::
    "blob_libs \<Rightarrow> datetime \<Rightarrow> datetime \<Rightarrow> rstring \<Rightarrow> asset_blob \<Rightarrow> asset_db \<Rightarrow>
     (asset_blob_store_error + unit) \<times> asset_db" where
  "put_in_transaction K txn_now now key blob s =
     (case legacy_blob_id K key of Inl e \<Rightarrow> (Inl e, s) | Inr blob_id \<Rightarrow>
      case i64_try_from (length (blob_bytes blob)) of None \<Rightarrow> (Inl BlobSizeOverflow, s) | Some byte_size \<Rightarrow>
      case find_blob blob_id s of
        None \<Rightarrow> (Inr (), s\<lparr>a_blobs := a_blobs s @ [new_blob_row txn_now blob_id blob byte_size]\<rparr>)
      | Some r \<Rightarrow>
          if b_checksum r \<noteq> blob_checksum blob \<or> b_media_type r \<noteq> blob_media_type blob \<or> b_byte_size r \<noteq> byte_size \<or>
             (case b_data r of None \<Rightarrow> False | Some body \<Rightarrow> body \<noteq> blob_bytes blob)
          then (Inl BlobConflict, s)
          else if b_data r = None
          then (Inr (), update_blob blob_id
                  (\<lambda>r. r\<lparr>b_data := Some (blob_bytes blob), b_last_fetched_at := now, b_last_accessed_at := now\<rparr>) s)
          else (Inr (), s))"

definition delete_in_transaction ::
    "blob_libs \<Rightarrow> rstring \<Rightarrow> asset_db \<Rightarrow> (asset_blob_store_error + unit) \<times> asset_db" where
  "delete_in_transaction K key s =
     (case legacy_blob_id K key of Inl e \<Rightarrow> (Inl e, s)
      | Inr blob_id \<Rightarrow> (Inr (), update_blob blob_id (\<lambda>r. r\<lparr>b_data := None\<rparr>) s))"

definition deletion_queued :: "uuid \<Rightarrow> asset_db \<Rightarrow> bool" where
  "deletion_queued i s \<longleftrightarrow> i \<in> fst ` set (a_deletion_queue s)"


section \<open>Validation\<close>

definition validate_article_identity :: "uuid \<Rightarrow> rstring \<Rightarrow> asset_repository_error + unit" where
  "validate_article_identity source_id review_id =
     (if is_nil source_id \<or> trim review_id = [] then Inl InvalidArticleIdentity else Inr ())"

definition validate_input_count :: "asset_cache_policy \<Rightarrow> asset_input list \<Rightarrow> asset_repository_error + unit" where
  "validate_input_count policy inputs =
     (if length inputs > unat (max_count_per_article policy)
      then Inl (TooManyAssets (max_count_per_article policy)) else Inr ())"

definition normalize_url :: "libs \<Rightarrow> url \<Rightarrow> asset_repository_error + url" where
  "normalize_url L u =
     (if \<not> (u_scheme u = lit ''http'' \<or> u_scheme u = lit ''https'') \<or> u_host u = None \<or> u_username u \<noteq> [] \<or>
         u_password u \<noteq> None \<or> u_fragment u \<noteq> None
      then Inl InvalidAssetUrl
      else if (u_scheme u = lit ''http'' \<and> u_port u = Some 80) \<or> (u_scheme u = lit ''https'' \<and> u_port u = Some 443)
      then ok_or InvalidAssetUrl (url_clear_port L u)
      else Inr u)"

definition parse_asset_url :: "libs \<Rightarrow> rstring \<Rightarrow> asset_repository_error + url" where
  "parse_asset_url L v = bindE (ok_or InvalidAssetUrl (url_parse L v)) (normalize_url L)"

definition is_control :: "nat \<Rightarrow> bool" where
  "is_control c \<longleftrightarrow> c < 32 \<or> (127 \<le> c \<and> c < 160)"

definition invalid_header :: "rstring option \<Rightarrow> bool" where
  "invalid_header v =
     (case v of None \<Rightarrow> False | Some h \<Rightarrow> h = [] \<or> str_len h > 512 \<or> list_ex is_control h)"

definition supported_media_types :: "rstring list" where
  "supported_media_types = [lit ''image/png'', lit ''image/jpeg'', lit ''image/gif'', lit ''image/webp'']"

definition validate_asset_input ::
    "libs \<Rightarrow> blob_libs \<Rightarrow> asset_cache_policy \<Rightarrow> asset_input \<Rightarrow> asset_repository_error + unit" where
  "validate_asset_input L K policy i =
     (if \<not> checksum_matches_bytes K i then Inl ChecksumMismatch
      else if has_provider_signature (ai_source_url i) \<or> has_provider_signature (ai_final_url i) \<or>
              has_provider_signature (ai_referer_url i)
      then Inl InvalidAssetUrl
      else
        bindE (normalize_url L (ai_source_url i)) (\<lambda>_.
        bindE (normalize_url L (ai_final_url i)) (\<lambda>_.
        bindE (normalize_url L (ai_referer_url i)) (\<lambda>_.
          if ai_media_type i \<notin> set supported_media_types then Inl InvalidMediaType
          else if ai_bytes i = [] then Inl EmptyBody
          else if length (ai_bytes i) > unat (max_asset_size_bytes policy)
          then Inl (AssetTooLarge (length (ai_bytes i)) (max_asset_size_bytes policy))
          else if invalid_header (ai_origin i) \<or> invalid_header (ai_user_agent i) then Inl AssetInvalidMetadata
          else Inr ()))))"

definition input_byte_size :: "asset_input \<Rightarrow> asset_repository_error + int" where
  "input_byte_size i =
     ok_or (AssetStorage ''asset body exceeds PostgreSQL byte range'') (i64_try_from (length (ai_bytes i)))"


section \<open>Preparing a batch\<close>

record asset_batch_preparation =
  matching_blobs :: "uuid \<rightharpoonup> uuid option"
  matching_inputs :: "uuid \<rightharpoonup> uuid"

definition matching_blob :: "asset_batch_preparation \<Rightarrow> asset_input \<Rightarrow> asset_repository_error + uuid option" where
  "matching_blob p i = ok_or PreparationRequired (matching_blobs p (ai_preparation_id i))"

definition matching_input :: "asset_batch_preparation \<Rightarrow> asset_input \<Rightarrow> uuid option" where
  "matching_input p i = matching_inputs p (ai_preparation_id i)"

definition ok_value :: "'e + 'a \<Rightarrow> 'a option" where
  "ok_value r = (case r of Inl _ \<Rightarrow> None | Inr x \<Rightarrow> Some x)"

definition same_body :: "asset_input \<Rightarrow> asset_input \<Rightarrow> bool" where
  "same_body input previous \<longleftrightarrow>
     ai_checksum previous = ai_checksum input \<and>
     ok_value (input_byte_size previous) = ok_value (input_byte_size input) \<and> ai_bytes previous = ai_bytes input"

fun earlier_inputs :: "asset_input list \<Rightarrow> asset_input list \<Rightarrow> (uuid \<rightharpoonup> uuid)" where
  "earlier_inputs before [] = Map.empty"
| "earlier_inputs before (i # inputs) =
     (let rest = earlier_inputs (before @ [i]) inputs
      in case find (same_body i) before of
           None \<Rightarrow> rest
         | Some previous \<Rightarrow> [ai_preparation_id i \<mapsto> ai_preparation_id previous] ++ rest)"

fun input_keys :: "asset_input list \<Rightarrow> asset_repository_error + (rstring \<times> int) list" where
  "input_keys [] = Inr []"
| "input_keys (i # inputs) =
     bindE (input_byte_size i) (\<lambda>n. bindE (input_keys inputs) (\<lambda>keys. Inr ((ai_checksum i, n) # keys)))"

definition candidate_ids :: "rstring \<Rightarrow> int \<Rightarrow> asset_db \<Rightarrow> uuid list" where
  "candidate_ids checksum byte_size s =
     sort (map b_id (filter (\<lambda>b. b_checksum b = checksum \<and> b_byte_size b = byte_size \<and> \<not> deletion_queued (b_id b) s)
                       (a_blobs s)))"

fun candidate_blobs :: "blob_libs \<Rightarrow> asset_db \<Rightarrow> uuid list \<Rightarrow> asset_repository_error + (uuid \<times> asset_blob) list" where
  "candidate_blobs K s [] = Inr []"
| "candidate_blobs K s (i # ids) =
     bindE (map_err AssetBlobStore (read_in_transaction K (for_blob_id K i) s)) (\<lambda>r.
     bindE (candidate_blobs K s ids) (\<lambda>rest.
       Inr (case r of None \<Rightarrow> rest | Some blob \<Rightarrow> (i, blob) # rest)))"

definition matched :: "(uuid \<times> asset_blob) list \<Rightarrow> asset_input \<Rightarrow> uuid option" where
  "matched candidates i = map_option fst (find (\<lambda>c. blob_bytes (snd c) = ai_bytes i) candidates)"

fun match_keys ::
    "blob_libs \<Rightarrow> asset_db \<Rightarrow> asset_input list \<Rightarrow> (rstring \<times> int) list \<Rightarrow> (uuid \<rightharpoonup> uuid option) \<Rightarrow>
     asset_repository_error + (uuid \<rightharpoonup> uuid option)" where
  "match_keys K s inputs [] m = Inr m"
| "match_keys K s inputs ((checksum, byte_size) # keys) m =
     bindE (candidate_blobs K s (candidate_ids checksum byte_size s)) (\<lambda>candidates.
       match_keys K s inputs keys
         (m ++ map_of (rev (map (\<lambda>i. (ai_preparation_id i, matched candidates i))
            (filter (\<lambda>i. ai_checksum i = checksum \<and> input_byte_size i = Inr byte_size) inputs)))))"

definition prepare_asset_batch ::
    "blob_libs \<Rightarrow> asset_input list \<Rightarrow> asset_db \<Rightarrow> asset_repository_error + asset_batch_preparation" where
  "prepare_asset_batch K inputs s =
     bindE (input_keys inputs) (\<lambda>keys.
     bindE (match_keys K s inputs (sort (remdups keys)) (map_of (map (\<lambda>i. (ai_preparation_id i, None)) inputs)))
       (\<lambda>matches. Inr \<lparr>matching_blobs = matches, matching_inputs = earlier_inputs [] inputs\<rparr>))"


section \<open>Making room\<close>

definition stored_blobs :: "uuid list \<Rightarrow> asset_db \<Rightarrow> blob_row list" where
  "stored_blobs excluded s = filter (\<lambda>b. b_data b \<noteq> None \<and> b_id b \<notin> set excluded) (a_blobs s)"

definition cached_byte_size :: "uuid list \<Rightarrow> asset_db \<Rightarrow> asset_repository_error + int" where
  "cached_byte_size excluded s =
     (let total = sum_list (map b_byte_size (stored_blobs excluded s))
      in if total < 2 ^ 63 then Inr total else Inl (AssetStorage ''bigint out of range''))"

definition oldest_stored :: "uuid list \<Rightarrow> asset_db \<Rightarrow> (uuid \<times> int) option" where
  "oldest_stored protected s =
     (case sort_key (\<lambda>b. (b_last_accessed_at b, b_id b)) (stored_blobs protected s) of
        [] \<Rightarrow> None | b # _ \<Rightarrow> Some (b_id b, b_byte_size b))"

definition i64_checked_add :: "int \<Rightarrow> int \<Rightarrow> int option" where
  "i64_checked_add a b = (if - (2 ^ 63) \<le> a + b \<and> a + b < 2 ^ 63 then Some (a + b) else None)"

definition i64_saturating_sub :: "int \<Rightarrow> int \<Rightarrow> int" where
  "i64_saturating_sub a b = max (- (2 ^ 63)) (min (2 ^ 63 - 1) (a - b))"

definition mark_evicted :: "datetime \<Rightarrow> uuid \<Rightarrow> string \<Rightarrow> asset_db \<Rightarrow> asset_db" where
  "mark_evicted now blob_id reason s =
     s\<lparr>a_records := update_rows (\<lambda>r. rc_blob_id r = Some blob_id \<and> rc_fetch_status r = ''available'')
         (\<lambda>r. r\<lparr>rc_fetch_status := ''missing'', rc_last_error := Some reason, rc_updated_at := now\<rparr>) (a_records s)\<rparr>"

definition exceeds :: "int \<Rightarrow> int \<Rightarrow> int \<Rightarrow> bool" where
  "exceeds max_bytes additional used =
     (case i64_checked_add used additional of None \<Rightarrow> True | Some v \<Rightarrow> v > max_bytes)"

text \<open>The loop; it returns the count and the deferred evictions with the result.\<close>

function evict_until ::
    "datetime \<Rightarrow> int \<Rightarrow> int \<Rightarrow> asset_repository_error \<Rightarrow> uuid list \<Rightarrow> int \<Rightarrow> nat \<Rightarrow> uuid list \<Rightarrow> asset_db \<Rightarrow>
     (asset_repository_error + nat \<times> uuid list) \<times> asset_db" where
  "evict_until now max_bytes additional full protected used evicted deferred s =
     (if \<not> exceeds max_bytes additional used then (Inr (evicted, deferred), s)
      else case oldest_stored (protected @ deferred) s of
        None \<Rightarrow> (Inl full, s)
      | Some (blob_id, byte_size) \<Rightarrow>
          evict_until now max_bytes additional full protected (i64_saturating_sub used byte_size) (Suc evicted)
            (deferred @ [blob_id]) (mark_evicted now blob_id ''asset bytes evicted by size policy'' s))"
  by pat_completeness auto

record cache_limit =
  cl_max_bytes :: u64
  cl_additional_bytes :: u64
  cl_protected :: "uuid list"
  cl_pending_bytes :: u64
  cl_pending_blob_ids :: "uuid list"

lemma oldest_stored_Some:
  assumes "oldest_stored protected s = Some (i, n)"
  obtains b where "b \<in> set (a_blobs s)" "b_id b = i" "b_byte_size b = n" "b_data b \<noteq> None" "i \<notin> set protected"
proof -
  obtain b bs where b: "sort_key (\<lambda>b. (b_last_accessed_at b, b_id b)) (stored_blobs protected s) = b # bs"
    "b_id b = i" "b_byte_size b = n"
    using assms by (auto simp: oldest_stored_def split: list.splits)
  then have "b \<in> set (stored_blobs protected s)"
    by (metis list.set_intros(1) set_sort)
  with that b(2,3) show ?thesis by (auto simp: stored_blobs_def)
qed

lemma mark_evicted_frame [simp]: "a_blobs (mark_evicted now i reason s) = a_blobs s"
  "a_links (mark_evicted now i reason s) = a_links s" "a_deletion_queue (mark_evicted now i reason s) = a_deletion_queue s"
  "a_cleanup_queue (mark_evicted now i reason s) = a_cleanup_queue s" "a_repairs (mark_evicted now i reason s) = a_repairs s"
  by (simp_all add: mark_evicted_def)

lemma stored_blobs_evicted:
  assumes "oldest_stored (protected @ deferred) s = Some (i, n)"
  shows "length (stored_blobs (deferred @ [i]) (mark_evicted now i reason s)) < length (stored_blobs deferred s)"
proof -
  from oldest_stored_Some [OF assms] obtain b where b: "b \<in> set (a_blobs s)" "b_id b = i" "b_data b \<noteq> None"
    "i \<notin> set (protected @ deferred)" by metis
  have "stored_blobs (deferred @ [i]) (mark_evicted now i reason s) = filter (\<lambda>b. b_id b \<noteq> i) (stored_blobs deferred s)"
    by (auto simp: stored_blobs_def intro: filter_cong)
  moreover have "b \<in> set (stored_blobs deferred s)" using b by (auto simp: stored_blobs_def)
  ultimately show ?thesis using b(2) by (simp add: length_filter_less)
qed

termination evict_until
  by (relation "measure (\<lambda>(now, max_bytes, additional, full, protected, used, evicted, deferred, s).
        length (stored_blobs deferred s))") (auto simp: stored_blobs_evicted)

declare evict_until.simps [simp del]

definition enforce_cache_limit ::
    "datetime \<Rightarrow> cache_limit \<Rightarrow> uuid list \<Rightarrow> asset_db \<Rightarrow> (nat \<times> uuid list) asset_result" where
  "enforce_cache_limit now c deferred s =
     (let full = CapacityExceeded (cl_additional_bytes c) (cl_max_bytes c) in
      if cl_max_bytes c = 0 then (Inr (0, deferred), s)
      else case i64_try_from (unat (cl_max_bytes c)) of None \<Rightarrow> (Inr (0, deferred), s) | Some max_bytes \<Rightarrow>
      case i64_try_from (unat (cl_additional_bytes c)) of None \<Rightarrow> (Inl full, s) | Some additional \<Rightarrow>
      if additional > max_bytes then (Inl full, s)
      else case i64_try_from (unat (cl_pending_bytes c)) of None \<Rightarrow> (Inl full, s) | Some pending \<Rightarrow>
      case cached_byte_size (cl_pending_blob_ids c @ deferred) s of Inl e \<Rightarrow> (Inl e, s) | Inr cached \<Rightarrow>
      case i64_checked_add cached pending of None \<Rightarrow> (Inl full, s) | Some used \<Rightarrow>
        evict_until now max_bytes additional full (cl_protected c) used 0 deferred s)"


section \<open>Storing the assets of an article\<close>

text \<open>Binary changes that follow the outcome of the enclosing unit of work.\<close>

record mutation_state =
  newly_written :: "uuid list"
  deferred_evictions :: "uuid list"
  pending_bytes :: u64

definition mutation_default :: mutation_state where
  "mutation_default = \<lparr>newly_written = [], deferred_evictions = [], pending_bytes = 0\<rparr>"

type_synonym 'a write_result = "(asset_repository_error + 'a) \<times> asset_db \<times> mutation_state"

text \<open>
  What surrounds a batch: the start of the transaction (\<^verbatim>\<open>CURRENT_TIMESTAMP\<close>), and for every input
  a reading of the clock and the ids drawn for a new blob and a new record.
\<close>

record write_env =
  we_txn_now :: datetime
  we_now :: "nat \<Rightarrow> datetime"
  we_blob_id :: "nat \<Rightarrow> uuid"
  we_record_id :: "nat \<Rightarrow> uuid"

definition insert_blob ::
    "blob_libs \<Rightarrow> asset_cache_policy \<Rightarrow> write_env \<Rightarrow> nat \<Rightarrow> asset_input \<Rightarrow> rstring \<Rightarrow> int \<Rightarrow> uuid list \<Rightarrow>
     asset_db \<Rightarrow> mutation_state \<Rightarrow> (uuid \<times> rstring) write_result" where
  "insert_blob K policy W n input checksum byte_size protected s m =
     (case enforce_cache_limit (we_now W n)
             \<lparr>cl_max_bytes = max_cache_size_bytes policy, cl_additional_bytes = word_of_int byte_size,
              cl_protected = protected, cl_pending_bytes = pending_bytes m,
              cl_pending_blob_ids = newly_written m\<rparr> (deferred_evictions m) s of
        (Inl e, s1) \<Rightarrow> (Inl e, s1, m)
      | (Inr (_, deferred), s1) \<Rightarrow>
     (let m1 = m\<lparr>deferred_evictions := deferred\<rparr>; blob_id = we_blob_id W n in
      case asset_blob_new K (ai_bytes input) (ai_media_type input) checksum of
        Inl e \<Rightarrow> (Inl (AssetBlobStore e), s1, m1)
      | Inr blob \<Rightarrow>
      case put_in_transaction K (we_txn_now W) (we_now W n) (for_blob_id K blob_id) blob s1 of
        (Inl e, s2) \<Rightarrow> (Inl (AssetBlobStore e), s2, m1)
      | (Inr _, s2) \<Rightarrow>
     (let m2 = m1\<lparr>newly_written := newly_written m1 @ [blob_id]\<rparr>;
          s3 = (if find_blob blob_id s2 = None
                then s2\<lparr>a_blobs := a_blobs s2 @ [(new_blob_row (we_txn_now W) blob_id blob byte_size)\<lparr>b_data := None\<rparr>]\<rparr>
                else s2) in
      case checked_add (pending_bytes m) (word_of_nat (length (blob_bytes blob))) of
        None \<Rightarrow> (Inl (AssetStorage ''asset batch byte count overflow''), s3, m2)
      | Some pending \<Rightarrow> (Inr (blob_id, ai_media_type input), s3, m2\<lparr>pending_bytes := pending\<rparr>))))"

definition current_record :: "rstring \<Rightarrow> asset_db \<Rightarrow> asset_record_row option" where
  "current_record source_url s =
     (case sort_key (\<lambda>r. - rc_version r) (filter (\<lambda>r. rc_source_url r = source_url) (a_records s)) of
        [] \<Rightarrow> None | r # _ \<Rightarrow> Some r)"

text \<open>The blob is still there with its bytes, and is not queued for deletion.\<close>

definition reusable_blob ::
    "blob_libs \<Rightarrow> uuid \<Rightarrow> rstring \<Rightarrow> int \<Rightarrow> asset_db \<Rightarrow> asset_repository_error + asset_blob_metadata option" where
  "reusable_blob K blob_id checksum byte_size s =
     (case find_blob blob_id s of
        None \<Rightarrow> Inr None
      | Some b \<Rightarrow>
          if b_checksum b = checksum \<and> b_byte_size b = byte_size \<and> \<not> deletion_queued blob_id s
          then bindE (map_err AssetBlobStore (stat_in_transaction K (for_blob_id K blob_id) s)) (\<lambda>r.
                 Inr (case r of None \<Rightarrow> None
                      | Some md \<Rightarrow> if md_present md \<and> md_checksum md = checksum \<and> md_byte_size md = word_of_int byte_size
                                  then Some md else None))
          else Inr None)"

definition touch_blob :: "datetime \<Rightarrow> uuid \<Rightarrow> asset_db \<Rightarrow> asset_db" where
  "touch_blob now blob_id = update_blob blob_id (\<lambda>b. b\<lparr>b_last_fetched_at := now, b_last_accessed_at := now\<rparr>)"

definition stored_asset_of :: "uuid \<Rightarrow> url \<Rightarrow> uuid \<Rightarrow> rstring \<Rightarrow> rstring \<Rightarrow> int \<Rightarrow> stored_asset" where
  "stored_asset_of record_id source_url blob_id checksum media_type byte_size =
     \<lparr>sa_id = record_id, sa_source_url = source_url, sa_blob_id = blob_id, sa_checksum = checksum,
      sa_media_type = media_type, sa_byte_size = word_of_int byte_size\<rparr>"

text \<open>The blob of a new record: one of this batch, a prepared match, or a new one.\<close>

definition choose_blob ::
    "blob_libs \<Rightarrow> asset_cache_policy \<Rightarrow> write_env \<Rightarrow> nat \<Rightarrow> asset_input \<Rightarrow> rstring \<Rightarrow> int \<Rightarrow> uuid list \<Rightarrow>
     uuid option \<Rightarrow> asset_db \<Rightarrow> mutation_state \<Rightarrow> (uuid \<times> rstring) write_result" where
  "choose_blob K policy W n input checksum byte_size protected matching s m =
     (case matching of
        None \<Rightarrow> insert_blob K policy W n input checksum byte_size protected s m
      | Some blob_id \<Rightarrow>
          (case reusable_blob K blob_id checksum byte_size s of
             Inl e \<Rightarrow> (Inl e, s, m)
           | Inr (Some md) \<Rightarrow> (Inr (blob_id, md_media_type md), touch_blob (we_now W n) blob_id s, m)
           | Inr None \<Rightarrow> insert_blob K policy W n input checksum byte_size protected s m))"

definition add_record ::
    "datetime \<Rightarrow> uuid \<Rightarrow> rstring \<Rightarrow> int \<Rightarrow> rstring \<Rightarrow> uuid \<Rightarrow> asset_db \<Rightarrow> uuid asset_result" where
  "add_record now record_id source_url version final_url blob_id s =
     (if \<exists>r \<in> set (a_records s). rc_id r = record_id \<or> (rc_source_url r = source_url \<and> rc_version r = version)
      then (Inl (AssetStorage ''duplicate key value violates unique constraint''), s)
      else (Inr record_id, s\<lparr>a_records := a_records s @
              [\<lparr>rc_id = record_id, rc_source_url = source_url, rc_version = version, rc_final_url = final_url,
                rc_blob_id = Some blob_id, rc_fetch_status = ''available'', rc_last_error = None,
                rc_updated_at = now\<rparr>]\<rparr>))"

definition store_version ::
    "libs \<Rightarrow> blob_libs \<Rightarrow> asset_cache_policy \<Rightarrow> write_env \<Rightarrow> nat \<Rightarrow> asset_batch_preparation \<Rightarrow> uuid list \<Rightarrow>
     (uuid \<rightharpoonup> uuid) \<Rightarrow> asset_input \<Rightarrow> url \<Rightarrow> url \<Rightarrow> int \<Rightarrow> asset_record_row option \<Rightarrow>
     asset_db \<Rightarrow> mutation_state \<Rightarrow> stored_asset write_result" where
  "store_version L K policy W n prep protected batch input source_url final_url byte_size current s m =
     (case matching_blob prep input of Inl e \<Rightarrow> (Inl e, s, m) | Inr prepared \<Rightarrow>
      let batch_match = (case matching_input prep input of None \<Rightarrow> None | Some previous \<Rightarrow> batch previous);
          matching = (if batch_match = None then prepared else batch_match) in
      case choose_blob K policy W n input (ai_checksum input) byte_size protected matching s m of
        (Inl e, s1, m1) \<Rightarrow> (Inl e, s1, m1)
      | (Inr (blob_id, media_type), s1, m1) \<Rightarrow>
      case i64_checked_add (case current of None \<Rightarrow> 0 | Some r \<Rightarrow> rc_version r) 1 of
        None \<Rightarrow> (Inl (AssetStorage ''asset version overflow''), s1, m1)
      | Some next_version \<Rightarrow>
      case add_record (we_txn_now W) (we_record_id W n) (url_text L source_url) next_version (url_text L final_url) blob_id s1 of
        (Inl e, s2) \<Rightarrow> (Inl e, s2, m1)
      | (Inr record_id, s2) \<Rightarrow>
          (Inr (stored_asset_of record_id source_url blob_id (ai_checksum input) media_type byte_size), s2, m1))"

definition unchanged_blob :: "asset_record_row \<Rightarrow> uuid option \<Rightarrow> rstring \<Rightarrow> int \<Rightarrow> asset_db \<Rightarrow> bool" where
  "unchanged_blob r prepared checksum byte_size s \<longleftrightarrow>
     (let b = (case rc_blob_id r of None \<Rightarrow> None | Some i \<Rightarrow> find_blob i s)
      in prepared = rc_blob_id r \<and> map_option b_checksum b = Some checksum \<and> map_option b_byte_size b = Some byte_size)"

definition reuse_record ::
    "write_env \<Rightarrow> nat \<Rightarrow> asset_record_row \<Rightarrow> rstring \<Rightarrow> uuid \<Rightarrow> asset_db \<Rightarrow> asset_db" where
  "reuse_record W n r final_url blob_id s =
     touch_blob (we_now W n) blob_id
       (s\<lparr>a_records := update_rows (\<lambda>x. rc_id x = rc_id r)
            (\<lambda>x. x\<lparr>rc_final_url := final_url, rc_fetch_status := ''available'', rc_last_error := None,
                   rc_updated_at := we_now W n\<rparr>) (a_records s)\<rparr>)"

definition store_one ::
    "libs \<Rightarrow> blob_libs \<Rightarrow> asset_cache_policy \<Rightarrow> write_env \<Rightarrow> nat \<Rightarrow> asset_batch_preparation \<Rightarrow> uuid list \<Rightarrow>
     (uuid \<rightharpoonup> uuid) \<Rightarrow> asset_input \<Rightarrow> asset_db \<Rightarrow> mutation_state \<Rightarrow> stored_asset write_result" where
  "store_one L K policy W n prep protected batch input s m =
     (case normalize_url L (ai_source_url input) of Inl e \<Rightarrow> (Inl e, s, m) | Inr source_url \<Rightarrow>
      case normalize_url L (ai_final_url input) of Inl e \<Rightarrow> (Inl e, s, m) | Inr final_url \<Rightarrow>
      case input_byte_size input of Inl e \<Rightarrow> (Inl e, s, m) | Inr byte_size \<Rightarrow>
      let current = current_record (url_text L source_url) s;
          new_version = store_version L K policy W n prep protected batch input source_url final_url byte_size current s m in
      case current of None \<Rightarrow> new_version | Some r \<Rightarrow>
      case matching_blob prep input of Inl e \<Rightarrow> (Inl e, s, m) | Inr prepared \<Rightarrow>
      if \<not> unchanged_blob r prepared (ai_checksum input) byte_size s then new_version
      else case rc_blob_id r of None \<Rightarrow> (Inl AssetInvalidMetadata, s, m) | Some blob_id \<Rightarrow>
      case reusable_blob K blob_id (ai_checksum input) byte_size s of
        Inl e \<Rightarrow> (Inl e, s, m)
      | Inr None \<Rightarrow> new_version
      | Inr (Some md) \<Rightarrow>
          (Inr (stored_asset_of (rc_id r) source_url blob_id (ai_checksum input) (md_media_type md) byte_size),
           reuse_record W n r (url_text L final_url) blob_id s, m))"

definition attach ::
    "libs \<Rightarrow> uuid \<Rightarrow> rstring \<Rightarrow> asset_input \<Rightarrow> uuid \<Rightarrow> asset_db \<Rightarrow> unit asset_result" where
  "attach L source_id review_id input asset_id s =
     (if unat (ai_occurrence input) \<ge> 2 ^ 31 then (Inl AssetInvalidMetadata, s)
      else let occurrence = uint (ai_occurrence input);
               at = (\<lambda>l. aa_source_id l = source_id \<and> aa_review_id l = trim review_id \<and> aa_occurrence l = occurrence);
               row = \<lparr>aa_source_id = source_id, aa_review_id = trim review_id, aa_record_id = asset_id,
                      aa_occurrence = occurrence, aa_role = ''body'',
                      aa_referer_url = url_text L (ai_referer_url input), aa_origin = ai_origin input,
                      aa_user_agent = ai_user_agent input\<rparr>
           in (Inr (), s\<lparr>a_links := (if list_ex at (a_links s) then update_rows at (\<lambda>_. row) (a_links s)
                                     else a_links s @ [row])\<rparr>))"

fun store_all ::
    "libs \<Rightarrow> blob_libs \<Rightarrow> asset_cache_policy \<Rightarrow> write_env \<Rightarrow> asset_batch_preparation \<Rightarrow> uuid \<Rightarrow> rstring \<Rightarrow>
     nat \<Rightarrow> uuid list \<Rightarrow> (uuid \<rightharpoonup> uuid) \<Rightarrow> asset_input list \<Rightarrow> asset_db \<Rightarrow> mutation_state \<Rightarrow> stored_asset list write_result" where
  "store_all L K policy W prep source_id review_id n protected batch [] s m = (Inr [], s, m)"
| "store_all L K policy W prep source_id review_id n protected batch (input # inputs) s m =
     (case validate_asset_input L K policy input of Inl e \<Rightarrow> (Inl e, s, m) | Inr _ \<Rightarrow>
      case store_one L K policy W n prep protected batch input s m of (Inl e, s1, m1) \<Rightarrow> (Inl e, s1, m1) | (Inr asset, s1, m1) \<Rightarrow>
      case attach L source_id review_id input (sa_id asset) s1 of (Inl e, s2) \<Rightarrow> (Inl e, s2, m1) | (Inr _, s2) \<Rightarrow>
      case store_all L K policy W prep source_id review_id (Suc n)
             (if sa_blob_id asset \<in> set protected then protected else protected @ [sa_blob_id asset])
             (batch(ai_preparation_id input \<mapsto> sa_blob_id asset)) inputs s2 m1 of
        (Inl e, s3, m3) \<Rightarrow> (Inl e, s3, m3)
      | (Inr stored, s3, m3) \<Rightarrow> (Inr (asset # stored), s3, m3))"

definition store_inputs ::
    "libs \<Rightarrow> blob_libs \<Rightarrow> asset_cache_policy \<Rightarrow> write_env \<Rightarrow> asset_batch_preparation option \<Rightarrow> uuid \<Rightarrow> rstring \<Rightarrow>
     asset_input list \<Rightarrow> asset_db \<Rightarrow> mutation_state \<Rightarrow> stored_asset list write_result" where
  "store_inputs L K policy W preparation source_id review_id inputs s m =
     (case preparation of None \<Rightarrow> (Inl PreparationRequired, s, m)
      | Some prep \<Rightarrow> store_all L K policy W prep source_id review_id 0 [] Map.empty inputs s m)"

text \<open>
  After the savepoint is rolled back the new blobs are gone from the tables; they are still deleted one
  by one, which is what removes them from a store outside the database.
\<close>

definition cleanup_new_blobs :: "blob_libs \<Rightarrow> uuid list \<Rightarrow> asset_db \<Rightarrow> asset_db" where
  "cleanup_new_blobs K ids s =
     (let s1 = fold (\<lambda>i s. snd (delete_in_transaction K (for_blob_id K i) s)) ids s;
          delete_failed = list_ex (\<lambda>i. legacy_blob_id K (for_blob_id K i) = Inl BlobInvalidMetadata) ids
      in if ids = [] then s
         else if delete_failed then s1 else s1\<lparr>a_blobs := filter (\<lambda>b. b_id b \<notin> set ids) (a_blobs s1)\<rparr>)"

definition in_savepoint ::
    "blob_libs \<Rightarrow> (asset_db \<Rightarrow> mutation_state \<Rightarrow> 'a write_result) \<Rightarrow> asset_db \<Rightarrow> mutation_state \<Rightarrow> 'a write_result" where
  "in_savepoint K tx s m =
     (case tx s m of
        (Inr x, s1, m1) \<Rightarrow> (Inr x, s1, m1)
      | (Inl e, s1, m1) \<Rightarrow>
          (let start = length (newly_written m)
           in (Inl e, cleanup_new_blobs K (drop start (newly_written m1)) s,
               \<lparr>newly_written = take start (newly_written m1),
                deferred_evictions = take (length (deferred_evictions m)) (deferred_evictions m1),
                pending_bytes = pending_bytes m\<rparr>)))"

definition clear_links :: "uuid \<Rightarrow> rstring \<Rightarrow> asset_db \<Rightarrow> asset_db" where
  "clear_links source_id review_id s =
     s\<lparr>a_links := filter (\<lambda>l. \<not> (aa_source_id l = source_id \<and> aa_review_id l = trim review_id)) (a_links s)\<rparr>"

definition store_for_article ::
    "libs \<Rightarrow> blob_libs \<Rightarrow> asset_cache_policy \<Rightarrow> write_env \<Rightarrow> asset_batch_preparation option \<Rightarrow> uuid \<Rightarrow> rstring \<Rightarrow>
     asset_input list \<Rightarrow> asset_db \<Rightarrow> mutation_state \<Rightarrow> stored_asset list write_result" where
  "store_for_article L K policy W preparation source_id review_id inputs s m =
     (case validate_article_identity source_id review_id of Inl e \<Rightarrow> (Inl e, s, m) | Inr _ \<Rightarrow>
      case validate_input_count policy inputs of Inl e \<Rightarrow> (Inl e, s, m) | Inr _ \<Rightarrow>
      if inputs = [] then (Inr [], s, m)
      else in_savepoint K (store_inputs L K policy W preparation source_id review_id inputs) s m)"

definition clear_for_article :: "uuid \<Rightarrow> rstring \<Rightarrow> asset_db \<Rightarrow> unit asset_result" where
  "clear_for_article source_id review_id s =
     (case validate_article_identity source_id review_id of Inl e \<Rightarrow> (Inl e, s)
      | Inr _ \<Rightarrow> (Inr (), clear_links source_id review_id s))"

definition replace_for_article ::
    "libs \<Rightarrow> blob_libs \<Rightarrow> asset_cache_policy \<Rightarrow> write_env \<Rightarrow> asset_batch_preparation option \<Rightarrow> uuid \<Rightarrow> rstring \<Rightarrow>
     asset_input list \<Rightarrow> asset_db \<Rightarrow> mutation_state \<Rightarrow> stored_asset list write_result" where
  "replace_for_article L K policy W preparation source_id review_id inputs s m =
     (case validate_article_identity source_id review_id of Inl e \<Rightarrow> (Inl e, s, m) | Inr _ \<Rightarrow>
      case validate_input_count policy inputs of Inl e \<Rightarrow> (Inl e, s, m) | Inr _ \<Rightarrow>
      in_savepoint K (\<lambda>s m. store_inputs L K policy W preparation source_id review_id inputs
                              (clear_links source_id review_id s) m) s m)"


section \<open>Commit, reads and maintenance\<close>

definition queue_deletion :: "datetime \<Rightarrow> uuid \<Rightarrow> asset_db \<Rightarrow> asset_db" where
  "queue_deletion now i s =
     (if deletion_queued i s then s else s\<lparr>a_deletion_queue := a_deletion_queue s @ [(i, now)]\<rparr>)"

definition queue_order :: "(uuid \<times> datetime) list \<Rightarrow> uuid list" where
  "queue_order q = map fst (sort_key (\<lambda>(i, t). (t, i)) q)"

fun drain :: "blob_libs \<Rightarrow> (uuid \<Rightarrow> asset_db \<Rightarrow> asset_db) \<Rightarrow> uuid list \<Rightarrow> asset_db \<Rightarrow> unit asset_result" where
  "drain K unqueue [] s = (Inr (), s)"
| "drain K unqueue (i # ids) s =
     (case delete_in_transaction K (for_blob_id K i) s of
        (Inl e, s1) \<Rightarrow> (Inl (AssetBlobStore e), s1)
      | (Inr _, s1) \<Rightarrow> drain K unqueue ids (unqueue i s1))"

definition unqueue_deletion :: "uuid \<Rightarrow> asset_db \<Rightarrow> asset_db" where
  "unqueue_deletion i s = s\<lparr>a_deletion_queue := filter (\<lambda>q. fst q \<noteq> i) (a_deletion_queue s)\<rparr>"

definition unqueue_cleanup :: "uuid \<Rightarrow> asset_db \<Rightarrow> asset_db" where
  "unqueue_cleanup i s = s\<lparr>a_cleanup_queue := filter (\<lambda>q. fst q \<noteq> i) (a_cleanup_queue s)\<rparr>"

definition drain_blob_deletion_queue :: "blob_libs \<Rightarrow> asset_db \<Rightarrow> unit asset_result" where
  "drain_blob_deletion_queue K = transact (\<lambda>s. drain K unqueue_deletion (queue_order (a_deletion_queue s)) s)"

definition drain_blob_cleanup_queue :: "blob_libs \<Rightarrow> asset_db \<Rightarrow> unit asset_result" where
  "drain_blob_cleanup_queue K = transact (\<lambda>s. drain K unqueue_cleanup (queue_order (a_cleanup_queue s)) s)"

definition drain_queues :: "blob_libs \<Rightarrow> asset_db \<Rightarrow> unit asset_result" where
  "drain_queues K s =
     (case drain_blob_deletion_queue K s of
        (Inl e, s1) \<Rightarrow> (Inl e, s1) | (Inr _, s1) \<Rightarrow> drain_blob_cleanup_queue K s1)"

text \<open>The end of a unit of work: the evictions are queued in its transaction, and carried out after it.\<close>

definition commit_assets :: "blob_libs \<Rightarrow> datetime \<Rightarrow> mutation_state \<Rightarrow> asset_db \<Rightarrow> unit asset_result" where
  "commit_assets K now m s = drain_queues K (fold (queue_deletion now) (deferred_evictions m) s)"

definition linked :: "uuid \<Rightarrow> asset_db \<Rightarrow> bool" where
  "linked record_id s \<longleftrightarrow> (\<exists>l \<in> set (a_links s). aa_record_id l = record_id)"

definition read_and_touch :: "libs \<Rightarrow> blob_libs \<Rightarrow> datetime \<Rightarrow> uuid \<Rightarrow> asset_db \<Rightarrow> asset_read option asset_result" where
  "read_and_touch L K now asset_id =
     transact (\<lambda>s.
       case find (\<lambda>r. rc_id r = asset_id \<and> linked asset_id s) (a_records s) of None \<Rightarrow> (Inr None, s) | Some r \<Rightarrow>
       case parse_asset_url L (rc_source_url r) of Inl e \<Rightarrow> (Inl e, s) | Inr source_url \<Rightarrow>
       case (case rc_blob_id r of
               None \<Rightarrow> Inr None
             | Some i \<Rightarrow> if deletion_queued i s then Inr None
                         else map_err AssetBlobStore (read_in_transaction K (for_blob_id K i) s)) of
         Inl e \<Rightarrow> (Inl e, s)
       | Inr None \<Rightarrow> (Inr (Some (AssetMissing source_url)), s)
       | Inr (Some blob) \<Rightarrow>
           (Inr (Some (AssetAvailable (blob_media_type blob) (blob_checksum blob) (blob_bytes blob))),
            (case rc_blob_id r of None \<Rightarrow> s | Some i \<Rightarrow> update_blob i (\<lambda>b. b\<lparr>b_last_accessed_at := now\<rparr>) s)))"

fun evict_stale :: "blob_libs \<Rightarrow> blob_row list \<Rightarrow> asset_db \<Rightarrow> asset_repository_error + uuid list" where
  "evict_stale K [] s = Inr []"
| "evict_stale K (b # rows) s =
     bindE (map_err AssetBlobStore (stat_in_transaction K (for_blob_id K (b_id b)) s)) (\<lambda>r.
     bindE (evict_stale K rows s) (\<lambda>rest.
       Inr (if (case r of None \<Rightarrow> False | Some md \<Rightarrow> md_stored_byte_size md \<noteq> None) then b_id b # rest else rest)))"

definition evict_stale_blobs :: "blob_libs \<Rightarrow> datetime \<Rightarrow> int \<Rightarrow> asset_db \<Rightarrow> asset_repository_error + uuid list" where
  "evict_stale_blobs K now age_seconds s =
     evict_stale K (sort_key (\<lambda>b. (b_last_accessed_at b, b_id b))
       (filter (\<lambda>b. b_last_accessed_at b < now - age_seconds * 1000000000) (a_blobs s))) s"

definition stale_ids :: "blob_libs \<Rightarrow> asset_cache_policy \<Rightarrow> datetime \<Rightarrow> asset_db \<Rightarrow> asset_repository_error + uuid list" where
  "stale_ids K policy now s =
     (if max_age policy = 0 then Inr []
      else bindE (ok_or (AssetStorage ''asset max age exceeds PostgreSQL range'')
                    (i64_try_from (max_age policy div 1000000000))) (\<lambda>age_seconds. evict_stale_blobs K now age_seconds s))"

definition mark_stale :: "datetime \<Rightarrow> uuid list \<Rightarrow> asset_db \<Rightarrow> asset_db" where
  "mark_stale now ids s =
     s\<lparr>a_records := update_rows (\<lambda>r. (\<exists>i \<in> set ids. rc_blob_id r = Some i) \<and> rc_fetch_status r = ''available'')
         (\<lambda>r. r\<lparr>rc_fetch_status := ''missing'', rc_last_error := Some ''asset bytes evicted by age policy'',
                rc_updated_at := now\<rparr>) (a_records s)\<rparr>"

definition repair_active :: "pg \<Rightarrow> uuid \<Rightarrow> asset_db \<Rightarrow> bool" where
  "repair_active p record_id s \<longleftrightarrow>
     (\<exists>(job_id, asset_record_id) \<in> set (a_repairs s). asset_record_id = Some record_id \<and>
        (\<exists>j \<in> set (pg_jobs p). r_id j = job_id \<and> r_status j \<in> set active_statuses))"

definition orphan_record :: "pg \<Rightarrow> asset_db \<Rightarrow> asset_record_row \<Rightarrow> bool" where
  "orphan_record p s r \<longleftrightarrow> \<not> linked (rc_id r) s \<and> \<not> repair_active p (rc_id r) s"

definition orphan_blob :: "asset_db \<Rightarrow> blob_row \<Rightarrow> bool" where
  "orphan_blob s b \<longleftrightarrow> (\<forall>r \<in> set (a_records s). rc_blob_id r \<noteq> Some (b_id b))"

text \<open>Deleting records; a repair of a deleted record keeps its job.\<close>

definition drop_records :: "(asset_record_row \<Rightarrow> bool) \<Rightarrow> asset_db \<Rightarrow> asset_db" where
  "drop_records P s =
     (let gone = map rc_id (filter P (a_records s))
      in s\<lparr>a_records := filter (\<lambda>r. \<not> P r) (a_records s),
           a_repairs := map (\<lambda>(j, r). (j, if r \<in> Some ` set gone then None else r)) (a_repairs s)\<rparr>)"

fun delete_orphans :: "blob_libs \<Rightarrow> uuid list \<Rightarrow> asset_db \<Rightarrow> unit asset_result" where
  "delete_orphans K [] s = (Inr (), s)"
| "delete_orphans K (i # ids) s =
     (case delete_in_transaction K (for_blob_id K i) s of
        (Inl e, s1) \<Rightarrow> (Inl (AssetBlobStore e), s1)
      | (Inr _, s1) \<Rightarrow> delete_orphans K ids s1)"

definition maintenance_tx ::
    "blob_libs \<Rightarrow> asset_cache_policy \<Rightarrow> pg \<Rightarrow> datetime \<Rightarrow> asset_db \<Rightarrow> asset_maintenance_result asset_result" where
  "maintenance_tx K policy p now s =
     (case stale_ids K policy now s of Inl e \<Rightarrow> (Inl e, s) | Inr stale \<Rightarrow>
      case enforce_cache_limit now
             \<lparr>cl_max_bytes = max_cache_size_bytes policy, cl_additional_bytes = 0, cl_protected = [],
              cl_pending_bytes = 0, cl_pending_blob_ids = []\<rparr> stale (mark_stale now stale s) of
        (Inl e, s1) \<Rightarrow> (Inl e, s1)
      | (Inr (size_evicted, deferred), s1) \<Rightarrow>
     (let s2 = fold (queue_deletion now) deferred s1;
          s3 = drop_records (orphan_record p s2) s2;
          orphans = map b_id (filter (orphan_blob s3) (a_blobs s3)) in
      case delete_orphans K orphans s3 of
        (Inl e, s4) \<Rightarrow> (Inl e, s4)
      | (Inr _, s4) \<Rightarrow>
          (Inr \<lparr>mr_stale_blobs = length stale, mr_size_evicted_blobs = size_evicted,
                mr_orphan_records = length (filter (orphan_record p s2) (a_records s2)),
                mr_orphan_blobs = length (filter (\<lambda>b. b_id b \<in> set orphans) (a_blobs s4))\<rparr>,
           s4\<lparr>a_blobs := filter (\<lambda>b. b_id b \<notin> set orphans) (a_blobs s4)\<rparr>)))"

definition maintenance ::
    "blob_libs \<Rightarrow> asset_cache_policy \<Rightarrow> pg \<Rightarrow> datetime \<Rightarrow> asset_db \<Rightarrow> asset_maintenance_result asset_result" where
  "maintenance K policy p now s =
     (case transact (maintenance_tx K policy p now) s of
        (Inl e, s1) \<Rightarrow> (Inl e, s1)
      | (Inr result, s1) \<Rightarrow>
          (case drain_queues K s1 of (Inl e, s2) \<Rightarrow> (Inl e, s2) | (Inr _, s2) \<Rightarrow> (Inr result, s2)))"

end
