(* ===== verification/Asset_Safety.thy ===== *)
theory Asset_Safety
  imports Asset_Cache
begin

text \<open>
  What the asset cache promises: a stored asset has the bytes that were fetched, a batch that fails
  leaves no trace, the cache stays within its limit after every unit of work, and maintenance removes
  only what nothing refers to. One promise fails: a blob that was chosen for eviction can be handed out
  again within the same unit of work.
\<close>

section \<open>Blobs by id\<close>

lemma legacy_blob_id_eq [simp]: "blob_libs_ok K \<Longrightarrow> legacy_blob_id K (for_blob_id K i) = Inr i"
  by (simp add: legacy_blob_id_def for_blob_id_def lit_def blob_libs_ok_def)

lemma delete_eq [simp]:
  "blob_libs_ok K \<Longrightarrow> delete_in_transaction K (for_blob_id K i) s = (Inr (), update_blob i (\<lambda>r. r\<lparr>b_data := None\<rparr>) s)"
  by (simp add: delete_in_transaction_def)

definition blob_ok :: "blob_libs \<Rightarrow> blob_row \<Rightarrow> bool" where
  "blob_ok K b \<longleftrightarrow>
     0 \<le> b_byte_size b \<and> b_byte_size b < 2 ^ 63 \<and> trim (b_media_type b) \<noteq> [] \<and>
     (\<exists>body. b_checksum b = sha256_hex K body) \<and>
     (\<forall>body. b_data b = Some body \<longrightarrow> int (length body) = b_byte_size b \<and> b_checksum b = sha256_hex K body)"

definition assets_ok :: "blob_libs \<Rightarrow> asset_db \<Rightarrow> bool" where
  "assets_ok K s \<longleftrightarrow>
     blob_libs_ok K \<and> distinct (map b_id (a_blobs s)) \<and> (\<forall>b \<in> set (a_blobs s). blob_ok K b) \<and>
     distinct (map rc_id (a_records s)) \<and>
     (\<forall>r \<in> set (a_records s). \<forall>i. rc_blob_id r = Some i \<longrightarrow> find_blob i s \<noteq> None)"

lemma u64_of_small: "0 \<le> n \<Longrightarrow> n < 2 ^ 63 \<Longrightarrow> u64_try_from n = Some (word_of_int n)"
  by (simp add: u64_try_from_def)

lemma unat_of_small: "0 \<le> n \<Longrightarrow> n < 2 ^ 63 \<Longrightarrow> int (unat (word_of_int n :: u64)) = n"
  by (simp add: unat_eq_nat_uint uint_word_of_int take_bit_int_eq_self)

lemma stat_eq:
  assumes "blob_libs_ok K" "find_blob i s = Some b" "blob_ok K b"
  shows "stat_in_transaction K (for_blob_id K i) s =
     Inr (Some \<lparr>md_checksum = b_checksum b, md_media_type = b_media_type b, md_byte_size = word_of_int (b_byte_size b),
          md_present = (b_data b \<noteq> None),
          md_stored_byte_size = (if b_data b \<noteq> None then Some (word_of_int (b_byte_size b)) else None)\<rparr>)"
proof -
  from assms(3) obtain body where "b_checksum b = sha256_hex K body" by (auto simp: blob_ok_def)
  with assms show ?thesis
    by (simp add: stat_in_transaction_def blob_metadata_from_row_def blob_ok_def u64_of_small digest_checksum)
qed

lemma stat_None: "blob_libs_ok K \<Longrightarrow> find_blob i s = None \<Longrightarrow> stat_in_transaction K (for_blob_id K i) s = Inr None"
  by (simp add: stat_in_transaction_def)

lemma read_eq:
  assumes "blob_libs_ok K" "find_blob i s = Some b" "blob_ok K b"
  shows "read_in_transaction K (for_blob_id K i) s =
     Inr (map_option (\<lambda>body. \<lparr>blob_bytes = body, blob_media_type = b_media_type b, blob_checksum = b_checksum b\<rparr>) (b_data b))"
proof (cases "b_data b")
  case None
  with assms show ?thesis by (simp add: read_in_transaction_def)
next
  case (Some body)
  with assms(3) have "int (length body) = b_byte_size b" "b_checksum b = sha256_hex K body" "trim (b_media_type b) \<noteq> []"
    "b_byte_size b < 2 ^ 63" by (simp_all add: blob_ok_def)
  moreover from this have "unat (word_of_int (b_byte_size b) :: u64) = length body"
    using unat_of_small [of "b_byte_size b"] by linarith
  ultimately show ?thesis
    using assms Some by (simp add: read_in_transaction_def u64_of_small asset_blob_new_def)
qed

lemma read_None: "blob_libs_ok K \<Longrightarrow> find_blob i s = None \<Longrightarrow> read_in_transaction K (for_blob_id K i) s = Inr None"
  by (simp add: read_in_transaction_def)

lemma find_blob_ok: "assets_ok K s \<Longrightarrow> find_blob i s = Some b \<Longrightarrow> blob_ok K b \<and> b_id b = i \<and> b \<in> set (a_blobs s)"
  using find_SomeD by (fastforce simp: find_blob_def assets_ok_def)

lemma find_blob_mem: "assets_ok K s \<Longrightarrow> b \<in> set (a_blobs s) \<Longrightarrow> find_blob (b_id b) s = Some b"
  by (simp add: find_blob_def assets_ok_def find_keyed)

lemma find_blob_None: "find_blob i s = None \<longleftrightarrow> i \<notin> b_id ` set (a_blobs s)"
  by (auto simp: find_blob_def find_None_iff)


section \<open>How much is stored\<close>

definition stored_size :: "uuid list \<Rightarrow> asset_db \<Rightarrow> int" where
  "stored_size excluded s = sum_list (map b_byte_size (stored_blobs excluded s))"

lemma sum_filter_le:
  assumes "\<forall>x \<in> set xs. 0 \<le> (f x :: int)" "\<forall>x \<in> set xs. P x \<longrightarrow> Q x"
  shows "sum_list (map f (filter P xs)) \<le> sum_list (map f (filter Q xs))"
  using assms by (induction xs) auto

lemma sum_filter_split:
  "sum_list (map f (filter P xs)) = sum_list (map f (filter (\<lambda>x. P x \<and> Q x) xs)) + sum_list (map f (filter (\<lambda>x. P x \<and> \<not> Q x) xs))"
  for f :: "'a \<Rightarrow> int"
  by (induction xs) auto

lemma stored_size_nonneg: "assets_ok K s \<Longrightarrow> 0 \<le> stored_size excluded s"
  unfolding stored_size_def stored_blobs_def
  by (intro sum_list_nonneg) (auto simp: assets_ok_def blob_ok_def)

lemma stored_size_drop:
  assumes ok: "assets_ok K s" and b: "b \<in> set (a_blobs s)" "b_data b \<noteq> None" "b_id b \<notin> set deferred"
  shows "stored_size deferred s = stored_size (deferred @ [b_id b]) s + b_byte_size b"
proof -
  have dist: "distinct (map b_id (a_blobs s))" using ok by (simp add: assets_ok_def)
  have eq: "filter (\<lambda>x. (b_data x \<noteq> None \<and> b_id x \<notin> set deferred) \<and> b_id x = b_id b) (a_blobs s) = [b]"
  proof -
    have "filter (\<lambda>x. (b_data x \<noteq> None \<and> b_id x \<notin> set deferred) \<and> b_id x = b_id b) (a_blobs s) =
        filter (\<lambda>x. b_id x = b_id b) (a_blobs s)"
      using b distinct_key_eq [OF dist _ b(1)] by (auto intro!: filter_cong)
    with filter_key_single [OF dist b(1)] show ?thesis by simp
  qed
  have rest: "filter (\<lambda>x. (b_data x \<noteq> None \<and> b_id x \<notin> set deferred) \<and> b_id x \<noteq> b_id b) (a_blobs s) =
      filter (\<lambda>x. b_data x \<noteq> None \<and> b_id x \<notin> set (deferred @ [b_id b])) (a_blobs s)"
    by (auto intro: filter_cong)
  show ?thesis
    unfolding stored_size_def stored_blobs_def
    using sum_filter_split [of b_byte_size "\<lambda>x. b_data x \<noteq> None \<and> b_id x \<notin> set deferred" "a_blobs s" "\<lambda>x. b_id x = b_id b"]
    unfolding eq rest by simp
qed

lemma stored_size_cong: "a_blobs s' = a_blobs s \<Longrightarrow> stored_size excluded s' = stored_size excluded s"
  by (simp add: stored_size_def stored_blobs_def)

lemma stored_size_mono:
  assumes "assets_ok K s" "set a \<subseteq> set b"
  shows "stored_size b s \<le> stored_size a s"
  unfolding stored_size_def stored_blobs_def using assms
  by (intro sum_filter_le) (auto simp: assets_ok_def blob_ok_def)


section \<open>Eviction\<close>

text \<open>What eviction leaves alone: everything but the status of records. The final URL of a record is not
  part of its core, because storing the same body again updates it.\<close>

definition record_core :: "asset_record_row \<Rightarrow> uuid \<times> rstring \<times> int \<times> uuid option" where
  "record_core r = (rc_id r, rc_source_url r, rc_version r, rc_blob_id r)"

definition same_but_status :: "asset_db \<Rightarrow> asset_db \<Rightarrow> bool" where
  "same_but_status s s' \<longleftrightarrow>
     s'\<lparr>a_records := []\<rparr> = s\<lparr>a_records := []\<rparr> \<and> map record_core (a_records s') = map record_core (a_records s)"

lemma same_but_status_refl: "same_but_status s s"
  by (simp add: same_but_status_def)

lemma same_but_status_trans: "same_but_status a b \<Longrightarrow> same_but_status b c \<Longrightarrow> same_but_status a c"
  by (simp add: same_but_status_def)

lemma same_but_status_fields:
  assumes "same_but_status s s'"
  shows "a_blobs s' = a_blobs s" "a_links s' = a_links s" "a_deletion_queue s' = a_deletion_queue s"
    "a_cleanup_queue s' = a_cleanup_queue s" "a_repairs s' = a_repairs s"
    "map record_core (a_records s') = map record_core (a_records s)"
  using assms by (cases s; cases s'; simp add: same_but_status_def)+

lemma mark_evicted_same: "same_but_status s (mark_evicted now i reason s)"
  by (simp add: same_but_status_def mark_evicted_def update_rows_def record_core_def)

lemma mark_stale_same: "same_but_status s (mark_stale now ids s)"
  by (simp add: same_but_status_def mark_stale_def update_rows_def record_core_def)

lemma record_core_ids: "map record_core rs' = map record_core rs \<Longrightarrow> map rc_id rs' = map rc_id rs"
  by (metis (no_types, lifting) record_core_def fst_conv map_map comp_apply map_cong)

lemma record_core_blobs:
  assumes "map record_core rs' = map record_core rs" "r' \<in> set rs'"
  shows "\<exists>r \<in> set rs. record_core r = record_core r'"
  using assms by (metis (no_types, lifting) image_iff list.set_map)

lemma same_but_status_ok:
  assumes "same_but_status s s'" "assets_ok K s"
  shows "assets_ok K s'"
proof -
  note f = same_but_status_fields [OF assms(1)]
  have find: "find_blob i s' = find_blob i s" for i by (simp add: find_blob_def f)
  have "find_blob i s' \<noteq> None" if "r' \<in> set (a_records s')" "rc_blob_id r' = Some i" for r' i
    using record_core_blobs [OF f(6) that(1)] that(2) assms(2) unfolding find
    by (auto simp: assets_ok_def record_core_def)
  then show ?thesis
    using assms(2) record_core_ids [OF f(6)] by (auto simp: assets_ok_def f)
qed

lemma evict_until_result:
  assumes "assets_ok K s" "0 \<le> stored_size deferred s" "stored_size deferred s \<le> used" "used < 2 ^ 63" "0 \<le> additional" "max_bytes < 2 ^ 63"
    and "evict_until now max_bytes additional full protected used evicted deferred s = (Inr (n, deferred'), s')"
  shows "same_but_status s s' \<and> stored_size deferred' s' + additional \<le> max_bytes \<and>
     (\<exists>extra. deferred' = deferred @ extra \<and> set extra \<subseteq> b_id ` set (a_blobs s) - set protected \<and>
        n = evicted + length extra)"
  using assms
proof (induction now max_bytes additional full protected used evicted deferred s rule: evict_until.induct)
  case (1 now max_bytes additional full protected used evicted deferred s)
  show ?case
  proof (cases "exceeds max_bytes additional used")
    case False
    with "1.prems"(7) have res: "deferred' = deferred" "s' = s" "n = evicted" by (simp_all add: evict_until.simps [of now])
    from False have "used + additional \<le> max_bytes"
      by (auto simp: exceeds_def i64_checked_add_def split: if_splits)
    with "1.prems"(3) res show ?thesis by (auto simp: same_but_status_refl)
  next
    case True
    then obtain i k where old: "oldest_stored (protected @ deferred) s = Some (i, k)"
      using "1.prems"(7) by (cases "oldest_stored (protected @ deferred) s") (auto simp: evict_until.simps [of now])
    let ?s = "mark_evicted now i ''asset bytes evicted by size policy'' s"
    from oldest_stored_Some [OF old] obtain b where b: "b \<in> set (a_blobs s)" "b_id b = i" "b_byte_size b = k"
      "b_data b \<noteq> None" "i \<notin> set (protected @ deferred)" by blast
    have k: "0 \<le> k" "k \<le> stored_size deferred s"
      using b stored_size_drop [OF "1.prems"(1) b(1,4), of deferred] stored_size_nonneg [OF "1.prems"(1), of "deferred @ [i]"] "1.prems"(1)
      by (auto simp: assets_ok_def blob_ok_def)
    have size: "stored_size (deferred @ [i]) ?s = stored_size deferred s - k"
      using stored_size_drop [OF "1.prems"(1) b(1,4), of deferred] b by (simp add: stored_size_cong [of ?s s])
    have sub: "i64_saturating_sub used k = used - k"
      using k "1.prems"(3,4) "1.prems"(2) by (simp add: i64_saturating_sub_def)
    have rest: "evict_until now max_bytes additional full protected (i64_saturating_sub used k) (Suc evicted)
        (deferred @ [i]) ?s = (Inr (n, deferred'), s')"
      using "1.prems"(7) True old by (simp add: evict_until.simps [of now max_bytes additional full protected used])
    have "same_but_status ?s s' \<and> stored_size deferred' s' + additional \<le> max_bytes \<and>
       (\<exists>extra. deferred' = (deferred @ [i]) @ extra \<and> set extra \<subseteq> b_id ` set (a_blobs ?s) - set protected \<and>
          n = Suc evicted + length extra)"
      using "1.IH" [OF _ old refl same_but_status_ok [OF mark_evicted_same "1.prems"(1)] _ _ _ "1.prems"(5,6) rest]
        True k "1.prems"(2-4) by (simp add: size sub)
    then obtain extra where "same_but_status ?s s'" "stored_size deferred' s' + additional \<le> max_bytes"
      "deferred' = deferred @ i # extra" "set extra \<subseteq> b_id ` set (a_blobs s) - set protected" "n = Suc evicted + length extra"
      by auto
    moreover from this(1) have "same_but_status s s'" using mark_evicted_same same_but_status_trans by blast
    ultimately show ?thesis using b by (intro conjI exI [of _ "i # extra"]) auto
  qed
qed

lemma evict_until_prefix:
  "evict_until now max_bytes additional full protected used evicted deferred s = (Inr (n, deferred'), s') \<Longrightarrow>
   \<exists>extra. deferred' = deferred @ extra"
proof (induction now max_bytes additional full protected used evicted deferred s rule: evict_until.induct)
  case (1 now max_bytes additional full protected used evicted deferred s)
  show ?case
  proof (cases "exceeds max_bytes additional used")
    case False
    with "1.prems" show ?thesis by (simp add: evict_until.simps [of now])
  next
    case True
    then obtain i k where old: "oldest_stored (protected @ deferred) s = Some (i, k)"
      using "1.prems" by (cases "oldest_stored (protected @ deferred) s") (auto simp: evict_until.simps [of now])
    have "evict_until now max_bytes additional full protected (i64_saturating_sub used k) (Suc evicted)
        (deferred @ [i]) (mark_evicted now i ''asset bytes evicted by size policy'' s) = (Inr (n, deferred'), s')"
      using "1.prems" True old by (simp add: evict_until.simps [of now max_bytes additional full protected used])
    from "1.IH" [OF _ old refl this] True show ?thesis by auto
  qed
qed

lemma enforce_prefix:
  "enforce_cache_limit now c deferred s = (Inr (n, deferred'), s') \<Longrightarrow> \<exists>extra. deferred' = deferred @ extra"
  by (auto simp: enforce_cache_limit_def Let_def dest: evict_until_prefix split: if_splits option.splits sum.splits)

text \<open>The bytes written by this unit of work that are stored and not deferred.\<close>

definition pending_size :: "uuid list \<Rightarrow> uuid list \<Rightarrow> asset_db \<Rightarrow> int" where
  "pending_size pend deferred s =
     sum_list (map b_byte_size (filter (\<lambda>b. (b_data b \<noteq> None \<and> b_id b \<notin> set deferred) \<and> b_id b \<in> set pend) (a_blobs s)))"

definition bounded :: "u64 \<Rightarrow> bool" where
  "bounded max_bytes \<longleftrightarrow> max_bytes \<noteq> 0 \<and> unat max_bytes < 2 ^ 63"

lemma stored_size_split: "stored_size deferred s = stored_size (pend @ deferred) s + pending_size pend deferred s"
proof -
  have "filter (\<lambda>b. (b_data b \<noteq> None \<and> b_id b \<notin> set deferred) \<and> b_id b \<notin> set pend) (a_blobs s) = stored_blobs (pend @ deferred) s"
    unfolding stored_blobs_def by (rule filter_cong) auto
  then show ?thesis
    unfolding stored_size_def pending_size_def
    using sum_filter_split [of b_byte_size "\<lambda>b. b_data b \<noteq> None \<and> b_id b \<notin> set deferred" "a_blobs s" "\<lambda>b. b_id b \<in> set pend"]
    by (simp add: stored_blobs_def)
qed

lemma enforce_result:
  assumes ok: "assets_ok K s" and pend: "pending_size (cl_pending_blob_ids c) deferred s \<le> int (unat (cl_pending_bytes c))"
    and res: "enforce_cache_limit now c deferred s = (Inr (n, deferred'), s')"
  shows "same_but_status s s'"
    and "\<exists>extra. deferred' = deferred @ extra \<and> set extra \<subseteq> b_id ` set (a_blobs s) - set (cl_protected c)"
    and "bounded (cl_max_bytes c) \<Longrightarrow>
      stored_size deferred' s' + int (unat (cl_additional_bytes c)) \<le> int (unat (cl_max_bytes c))"
proof -
  have "same_but_status s s' \<and>
     (\<exists>extra. deferred' = deferred @ extra \<and> set extra \<subseteq> b_id ` set (a_blobs s) - set (cl_protected c)) \<and>
     (bounded (cl_max_bytes c) \<longrightarrow>
        stored_size deferred' s' + int (unat (cl_additional_bytes c)) \<le> int (unat (cl_max_bytes c)))"
  proof (cases "bounded (cl_max_bytes c)")
    case False
    with res show ?thesis
      by (auto simp: enforce_cache_limit_def Let_def bounded_def i64_try_from_def same_but_status_refl split: if_splits)
  next
    case True
    then have lt: "unat (cl_max_bytes c) < 2 ^ 63" "cl_max_bytes c \<noteq> 0" by (simp_all add: bounded_def)
    from lt(1) have "int (unat (cl_max_bytes c)) < int (2 ^ 63)" by (rule of_nat_less_iff [THEN iffD2])
    with lt have max: "i64_try_from (unat (cl_max_bytes c)) = Some (int (unat (cl_max_bytes c)))" "cl_max_bytes c \<noteq> 0"
      "int (unat (cl_max_bytes c)) < 2 ^ 63"
      by (simp_all only: i64_try_from_def if_True of_nat_power of_nat_numeral not_False_eq_True)
    obtain used where used: "used = stored_size (cl_pending_blob_ids c @ deferred) s + int (unat (cl_pending_bytes c))"
      "used < 2 ^ 63"
      "evict_until now (int (unat (cl_max_bytes c))) (int (unat (cl_additional_bytes c)))
        (CapacityExceeded (cl_additional_bytes c) (cl_max_bytes c)) (cl_protected c) used 0 deferred s =
        (Inr (n, deferred'), s')"
      using res max(1,2)
      by (auto simp: enforce_cache_limit_def Let_def i64_try_from_def i64_checked_add_def cached_byte_size_def
          stored_size_def split: if_splits)
    have le: "stored_size deferred s \<le> used"
      using stored_size_split [of deferred s "cl_pending_blob_ids c"] pend used(1) by simp
    from evict_until_result [OF ok stored_size_nonneg [OF ok] le used(2) _ max(3) used(3)] show ?thesis by auto
  qed
  then show "same_but_status s s'"
    and "\<exists>extra. deferred' = deferred @ extra \<and> set extra \<subseteq> b_id ` set (a_blobs s) - set (cl_protected c)"
    and "bounded (cl_max_bytes c) \<Longrightarrow>
      stored_size deferred' s' + int (unat (cl_additional_bytes c)) \<le> int (unat (cl_max_bytes c))"
    by blast+
qed


section \<open>What a batch adds\<close>

text \<open>The columns of a blob that storing and reading never change.\<close>

definition content :: "blob_row \<Rightarrow> uuid \<times> rstring \<times> int \<times> rstring \<times> bytes option" where
  "content b = (b_id b, b_checksum b, b_byte_size b, b_media_type b, b_data b)"

definition grows ::
    "asset_db \<Rightarrow> mutation_state \<Rightarrow> blob_row list \<Rightarrow> asset_record_row list \<Rightarrow> uuid list \<Rightarrow> asset_db \<Rightarrow> mutation_state \<Rightarrow> bool" where
  "grows s m bs rs extra s' m' \<longleftrightarrow>
     map content (a_blobs s') = map content (a_blobs s) @ map content bs \<and>
     map record_core (a_records s') = map record_core (a_records s) @ map record_core rs \<and>
     a_deletion_queue s' = a_deletion_queue s \<and> a_cleanup_queue s' = a_cleanup_queue s \<and> a_repairs s' = a_repairs s \<and>
     newly_written m' = newly_written m @ map b_id bs \<and> deferred_evictions m' = deferred_evictions m @ extra"

lemma grows_refl: "grows s m [] [] [] s m"
  by (simp add: grows_def)

lemma grows_trans:
  assumes "grows s m bs rs extra s1 m1" "grows s1 m1 bs' rs' extra' s2 m2"
  shows "grows s m (bs @ bs') (rs @ rs') (extra @ extra') s2 m2"
  using assms by (simp add: grows_def)

lemma content_ids: "map content xs = map content ys \<Longrightarrow> map b_id xs = map b_id ys"
proof -
  assume "map content xs = map content ys"
  then have "map (fst \<circ> content) xs = map (fst \<circ> content) ys" by (metis map_map)
  then show ?thesis by (simp add: content_def comp_def)
qed

lemma content_stored_size:
  assumes "map content xs = map content ys"
  shows "sum_list (map b_byte_size (filter (\<lambda>b. b_data b \<noteq> None \<and> P (b_id b)) xs)) =
     sum_list (map b_byte_size (filter (\<lambda>b. b_data b \<noteq> None \<and> P (b_id b)) ys))"
  using assms
proof (induction xs arbitrary: ys)
  case (Cons x xs)
  then obtain y ys' where ys: "ys = y # ys'" "content x = content y" "map content xs = map content ys'" by (cases ys) auto
  with Cons.IH [OF ys(3)] show ?case by (simp add: content_def)
qed simp

lemma content_mem: "map content xs = map content ys \<Longrightarrow> x \<in> set xs \<Longrightarrow> \<exists>y \<in> set ys. content y = content x"
  by (metis (no_types, lifting) image_iff list.set_map)

lemma content_blob_ok: "content b = content b' \<Longrightarrow> blob_ok K b = blob_ok K b'"
  by (simp add: content_def blob_ok_def)

lemma touch_content [simp]: "map content (a_blobs (touch_blob now i s)) = map content (a_blobs s)"
  by (simp add: touch_blob_def update_blob_def update_rows_def content_def)

lemma touch_frame [simp]: "a_records (touch_blob now i s) = a_records s" "a_links (touch_blob now i s) = a_links s"
  "a_deletion_queue (touch_blob now i s) = a_deletion_queue s" "a_cleanup_queue (touch_blob now i s) = a_cleanup_queue s"
  "a_repairs (touch_blob now i s) = a_repairs s"
  by (simp_all add: touch_blob_def update_blob_def)

lemma grows_blobs:
  assumes "grows s m bs rs extra s' m'"
  shows "map content (a_blobs s') = map content (a_blobs s @ bs)" "b_id ` set (a_blobs s') = b_id ` set (a_blobs s) \<union> b_id ` set bs"
proof -
  show eq: "map content (a_blobs s') = map content (a_blobs s @ bs)" using assms by (simp add: grows_def)
  have "set (map b_id (a_blobs s')) = set (map b_id (a_blobs s @ bs))" by (simp only: content_ids [OF eq])
  then show "b_id ` set (a_blobs s') = b_id ` set (a_blobs s) \<union> b_id ` set bs" by auto
qed

text \<open>The blob with an id, after a batch: its content is what it was, or the new blob's.\<close>

lemma grows_find:
  assumes g: "grows s m bs rs extra s' m'" and ok: "assets_ok K s" "assets_ok K s'"
  shows "find_blob i s = Some b \<Longrightarrow> \<exists>b'. find_blob i s' = Some b' \<and> content b' = content b"
    and "b \<in> set bs \<Longrightarrow> \<exists>b'. find_blob (b_id b) s' = Some b' \<and> content b' = content b"
proof -
  have all: "\<exists>b'. find_blob (b_id b) s' = Some b' \<and> content b' = content b" if "b \<in> set (a_blobs s @ bs)" for b
  proof -
    from content_mem [OF grows_blobs(1) [OF g, symmetric] that] obtain b' where
      "b' \<in> set (a_blobs s')" "content b' = content b" by blast
    moreover from this have "b_id b' = b_id b" by (simp add: content_def)
    ultimately show ?thesis using find_blob_mem [OF ok(2)] by metis
  qed
  show "\<exists>b'. find_blob i s' = Some b' \<and> content b' = content b" if "find_blob i s = Some b"
    using find_blob_ok [OF ok(1) that] all [of b] by auto
  show "\<exists>b'. find_blob (b_id b) s' = Some b' \<and> content b' = content b" if "b \<in> set bs" using all that by simp
qed

lemma grows_stored_size:
  assumes "grows s m bs rs extra s' m'" "\<forall>b \<in> set (a_blobs s @ bs). 0 \<le> b_byte_size b"
  shows "stored_size e s' \<le> stored_size e s + sum_list (map b_byte_size bs)"
proof -
  have "stored_size e s' = sum_list (map b_byte_size (filter (\<lambda>b. b_data b \<noteq> None \<and> b_id b \<notin> set e) (a_blobs s @ bs)))"
    unfolding stored_size_def stored_blobs_def by (rule content_stored_size [OF grows_blobs(1) [OF assms(1)]])
  moreover have "sum_list (map b_byte_size (filter (\<lambda>b. b_data b \<noteq> None \<and> b_id b \<notin> set e) bs)) \<le> sum_list (map b_byte_size bs)"
    using sum_filter_le [of bs b_byte_size "\<lambda>b. b_data b \<noteq> None \<and> b_id b \<notin> set e" "\<lambda>_. True"] assms(2) by simp
  ultimately show ?thesis by (simp add: stored_size_def stored_blobs_def)
qed

definition mut_ok :: "mutation_state \<Rightarrow> asset_db \<Rightarrow> bool" where
  "mut_ok m s \<longleftrightarrow> pending_size (newly_written m) (deferred_evictions m) s \<le> int (unat (pending_bytes m))"

lemma pending_size_add:
  assumes "a_blobs s' = a_blobs s @ [b]" "b_id b \<notin> b_id ` set (a_blobs s)" "\<forall>x \<in> set (a_blobs s'). 0 \<le> b_byte_size x"
  shows "pending_size (pend @ [b_id b]) (deferred @ extra) s' \<le> pending_size pend deferred s + b_byte_size b"
proof -
  let ?P = "\<lambda>x. (b_data x \<noteq> None \<and> b_id x \<notin> set (deferred @ extra)) \<and> b_id x \<in> set (pend @ [b_id b])"
  let ?Q = "\<lambda>x. (b_data x \<noteq> None \<and> b_id x \<notin> set deferred) \<and> b_id x \<in> set pend"
  have "sum_list (map b_byte_size (filter ?P (a_blobs s))) \<le> sum_list (map b_byte_size (filter ?Q (a_blobs s)))"
    using assms by (intro sum_filter_le) (auto simp: image_iff)
  moreover have "sum_list (map b_byte_size (filter ?P [b])) \<le> b_byte_size b" using assms(1,3) by simp
  ultimately show ?thesis by (simp only: pending_size_def assms(1) filter_append map_append sum_list_append)
qed

lemma insert_blob_Inr:
  assumes ok: "assets_ok K s" and mut: "mut_ok m s" and sum: "sha256_hex K (ai_bytes input) = checksum"
    and media: "trim (ai_media_type input) \<noteq> []" and size: "byte_size = int (length (ai_bytes input))" "length (ai_bytes input) < 2 ^ 63"
    and fresh: "we_blob_id W n \<notin> b_id ` set (a_blobs s)"
    and res: "insert_blob K policy W n input checksum byte_size protected s m = (Inr (i, mt), s', m')"
  obtains b extra where "grows s m [b] [] extra s' m'" "b_id b = i" "i = we_blob_id W n" "b_data b = Some (ai_bytes input)"
    "blob_ok K b" "a_links s' = a_links s" "set extra \<subseteq> b_id ` set (a_blobs s) - set protected" "assets_ok K s'"
    "mut_ok m' s'" "bounded (max_cache_size_bytes policy) \<Longrightarrow>
       stored_size (deferred_evictions m') s' \<le> int (unat (max_cache_size_bytes policy))"
proof -
  have K: "blob_libs_ok K" using ok by (simp add: assets_ok_def)
  let ?c = "\<lparr>cl_max_bytes = max_cache_size_bytes policy, cl_additional_bytes = word_of_int byte_size,
              cl_protected = protected, cl_pending_bytes = pending_bytes m, cl_pending_blob_ids = newly_written m\<rparr>"
  let ?b = "new_blob_row (we_txn_now W) (we_blob_id W n)
      \<lparr>blob_bytes = ai_bytes input, blob_media_type = ai_media_type input, blob_checksum = checksum\<rparr> byte_size"
  obtain k d1 s1 where enf: "enforce_cache_limit (we_now W n) ?c (deferred_evictions m) s = (Inr (k, d1), s1)"
    using res by (auto simp: insert_blob_def split: prod.splits sum.splits)
  note e = enforce_result [OF ok _ enf, simplified]
  have mut': "pending_size (newly_written m) (deferred_evictions m) s \<le> uint (pending_bytes m)" using mut by (simp add: mut_ok_def)
  note same = e(1) [OF mut'] and f = same_but_status_fields [OF e(1) [OF mut']]
  obtain extra where extra: "d1 = deferred_evictions m @ extra" "set extra \<subseteq> b_id ` set (a_blobs s) - set protected"
    using e(2) [OF mut'] by blast
  have none: "find_blob (we_blob_id W n) s1 = None" using fresh by (simp add: find_blob_None f)
  have blob: "asset_blob_new K (ai_bytes input) (ai_media_type input) checksum =
      Inr \<lparr>blob_bytes = ai_bytes input, blob_media_type = ai_media_type input, blob_checksum = checksum\<rparr>"
    using sum media by (simp add: asset_blob_new_def)
  have put: "put_in_transaction K (we_txn_now W) (we_now W n) (for_blob_id K (we_blob_id W n))
      \<lparr>blob_bytes = ai_bytes input, blob_media_type = ai_media_type input, blob_checksum = checksum\<rparr> s1 =
      (Inr (), s1\<lparr>a_blobs := a_blobs s1 @ [?b]\<rparr>)"
    using K none size by (simp add: put_in_transaction_def i64_try_from_def)
  have found: "find_blob (we_blob_id W n) (s1\<lparr>a_blobs := a_blobs s1 @ [?b]\<rparr>) \<noteq> None"
    by (simp add: find_blob_None new_blob_row_def)
  from res obtain pending where pending: "checked_add (pending_bytes m) (word_of_nat (length (ai_bytes input))) = Some pending"
    and r: "i = we_blob_id W n" "s' = s1\<lparr>a_blobs := a_blobs s1 @ [?b]\<rparr>"
      "m' = m\<lparr>deferred_evictions := d1, newly_written := newly_written m @ [we_blob_id W n], pending_bytes := pending\<rparr>"
    using found by (auto simp: insert_blob_def enf blob put Let_def split: option.splits)
  have b: "b_id ?b = i" "b_data ?b = Some (ai_bytes input)" "b_byte_size ?b = byte_size" "blob_ok K ?b"
    using r(1) sum media size by (auto simp: new_blob_row_def blob_ok_def)
  have blobs: "a_blobs s' = a_blobs s @ [?b]" by (simp add: r(2) f(1))
  have ok1: "assets_ok K s1" by (rule same_but_status_ok [OF same ok])
  have find: "find_blob j s1 \<noteq> None \<Longrightarrow> find_blob j s' \<noteq> None" for j
    unfolding find_blob_None r(2) by auto
  have ok': "assets_ok K s'"
    using ok1 b fresh find r unfolding assets_ok_def by (auto simp: r(2) f(1))
  have bytes: "int (unat (word_of_nat (length (ai_bytes input)) :: u64)) = byte_size"
    using size unat_of_small [of byte_size] by simp
  have nonneg: "\<forall>x \<in> set (a_blobs s'). 0 \<le> b_byte_size x" using ok' by (auto simp: assets_ok_def blob_ok_def)
  have "pending_size (newly_written m') (deferred_evictions m') s' \<le> int (unat (pending_bytes m)) + byte_size"
    using pending_size_add [OF blobs _ nonneg, of "newly_written m" "deferred_evictions m" extra] fresh b mut r extra(1)
    by (simp add: mut_ok_def)
  also have "\<dots> = int (unat pending)" using checked_add_Some_unat [OF pending] bytes by simp
  finally have mut'': "mut_ok m' s'" by (simp add: mut_ok_def r)
  have g: "grows s m [?b] [] extra s' m'"
    using f b r extra(1) by (simp add: grows_def blobs)
  have fits: "stored_size (deferred_evictions m') s' \<le> int (unat (max_cache_size_bytes policy))"
    if "bounded (max_cache_size_bytes policy)"
  proof -
    have "stored_size (deferred_evictions m') s' \<le> stored_size d1 s1 + byte_size"
      using b(3) size unfolding r(2,3) by (simp add: stored_size_def stored_blobs_def)
    moreover have "stored_size d1 s1 + int (unat (word_of_int byte_size :: u64)) \<le> int (unat (max_cache_size_bytes policy))"
      using e(3) [OF mut' that] by simp
    moreover have "int (unat (word_of_int byte_size :: u64)) = byte_size" using size by (intro unat_of_small) simp_all
    ultimately show ?thesis by linarith
  qed
  from that [OF g b(1) r(1) b(2,4) _ extra(2) ok' mut'' fits] f(2) r(2) show ?thesis by simp
qed

subsection \<open>What is written when a batch fails\<close>

text \<open>Whatever the result, a step only appends to the mutation state, and only ids drawn for it.\<close>

definition extends_state :: "uuid set \<Rightarrow> mutation_state \<Rightarrow> mutation_state \<Rightarrow> bool" where
  "extends_state ids m m' \<longleftrightarrow>
     (\<exists>new. newly_written m' = newly_written m @ new \<and> set new \<subseteq> ids) \<and>
     (\<exists>extra. deferred_evictions m' = deferred_evictions m @ extra)"

lemma extends_state_refl [simp]: "extends_state ids m m"
  by (simp add: extends_state_def)

lemma extends_state_trans: "extends_state A m m1 \<Longrightarrow> extends_state B m1 m2 \<Longrightarrow> extends_state (A \<union> B) m m2"
  by (fastforce simp: extends_state_def)

lemma insert_blob_extends:
  assumes "insert_blob K policy W n input checksum byte_size protected s m = (r, s', m')"
  shows "extends_state {we_blob_id W n} m m'"
  using assms
  by (auto simp: insert_blob_def Let_def extends_state_def dest!: enforce_prefix
      split: prod.splits sum.splits option.splits if_splits)

lemma choose_blob_extends:
  assumes "choose_blob K policy W n input checksum byte_size protected matching s m = (r, s', m')"
  shows "extends_state {we_blob_id W n} m m'"
  using assms by (auto simp: choose_blob_def dest: insert_blob_extends split: option.splits sum.splits)

lemma store_version_extends:
  assumes "store_version L K policy W n prep protected batch input u v byte_size current s m = (r, s', m')"
  shows "extends_state {we_blob_id W n} m m'"
  using assms by (auto simp: store_version_def Let_def dest: choose_blob_extends
      split: option.splits sum.splits prod.splits)

lemma store_one_extends:
  assumes "store_one L K policy W n prep protected batch input s m = (r, s', m')"
  shows "extends_state {we_blob_id W n} m m'"
  using assms by (auto simp: store_one_def Let_def dest: store_version_extends
      split: option.splits sum.splits prod.splits if_splits)

lemma store_all_extends:
  "store_all L K policy W prep source_id review_id n protected batch inputs s m = (r, s', m') \<Longrightarrow>
   extends_state (we_blob_id W ` {n..<n + length inputs}) m m'"
proof (induction inputs arbitrary: n protected batch s m r s' m')
  case (Cons input inputs)
  have range: "{n..<n + length (input # inputs)} = insert n {Suc n..<Suc n + length inputs}" by auto
  have here: "{we_blob_id W n} \<union> we_blob_id W ` {Suc n..<Suc n + length inputs} = we_blob_id W ` {n..<n + length (input # inputs)}"
    unfolding range by simp
  have first: "extends_state (we_blob_id W ` {n..<n + length (input # inputs)}) m m1"
    if "store_one L K policy W n prep protected batch input s m = (r1, s1, m1)" for r1 s1 m1
    using store_one_extends [OF that] unfolding here [symmetric] extends_state_def by blast
  show ?case
  proof (cases "validate_asset_input L K policy input")
    case (Inl e)
    with Cons.prems show ?thesis by simp
  next
    case (Inr _)
    obtain r1 s1 m1 where one: "store_one L K policy W n prep protected batch input s m = (r1, s1, m1)"
      using prod_cases3 by blast
    show ?thesis
    proof (cases r1)
      case (Inl e)
      with Cons.prems Inr one first [OF one] show ?thesis by simp
    next
      case (Inr asset)
      obtain r2 s2 where at: "attach L source_id review_id input (sa_id asset) s1 = (r2, s2)" by fastforce
      show ?thesis
      proof (cases r2)
        case (Inl e)
        with Cons.prems Inr \<open>validate_asset_input L K policy input = _\<close> one at first [OF one] show ?thesis by simp
      next
        case (Inr u)
        let ?rest = "store_all L K policy W prep source_id review_id (Suc n)
             (if sa_blob_id asset \<in> set protected then protected else protected @ [sa_blob_id asset])
             (batch(ai_preparation_id input \<mapsto> sa_blob_id asset)) inputs s2 m1"
        obtain r3 s3 m3 where rest: "?rest = (r3, s3, m3)" using prod_cases3 by blast
        have "m' = m3"
          using Cons.prems \<open>validate_asset_input L K policy input = _\<close> one \<open>r1 = Inr asset\<close> at Inr rest
          by (cases r3) simp_all
        with extends_state_trans [OF store_one_extends [OF one] Cons.IH [OF rest]] show ?thesis unfolding here by simp
      qed
    qed
  qed
qed simp

lemma cleanup_absent:
  assumes "blob_libs_ok K" "set ids \<inter> b_id ` set (a_blobs s) = {}"
  shows "cleanup_new_blobs K ids s = s"
proof -
  have same: "update_blob i f s = s" if "i \<notin> b_id ` set (a_blobs s)" for i f
  proof -
    have "update_rows (\<lambda>b. b_id b = i) f (a_blobs s) = a_blobs s"
      unfolding update_rows_def using that by (intro map_idI) auto
    then show ?thesis by (simp add: update_blob_def)
  qed
  have "fold (\<lambda>i s. snd (delete_in_transaction K (for_blob_id K i) s)) ids s = s"
    using assms(2) by (induction ids) (auto simp: assms(1) same)
  moreover have "filter (\<lambda>b. b_id b \<notin> set ids) (a_blobs s) = a_blobs s"
    using assms(2) by (auto simp: filter_id_conv)
  ultimately show ?thesis by (simp add: cleanup_new_blobs_def Let_def)
qed

text \<open>The ids that \<^verbatim>\<open>Uuid::new_v4\<close> draws for a batch are new and differ from each other.\<close>

definition fresh_ids :: "write_env \<Rightarrow> nat \<Rightarrow> asset_db \<Rightarrow> bool" where
  "fresh_ids W k s \<longleftrightarrow>
     distinct (map (we_blob_id W) [0..<k]) \<and> we_blob_id W ` {0..<k} \<inter> b_id ` set (a_blobs s) = {}"

lemma savepoint_rolled_back:
  assumes "blob_libs_ok K" "tx s m = (Inl e, s1, m1)" "extends_state ids m m1" "ids \<inter> b_id ` set (a_blobs s) = {}"
  shows "in_savepoint K tx s m = (Inl e, s, m)"
proof -
  from assms(3) obtain new extra where m1: "newly_written m1 = newly_written m @ new" "set new \<subseteq> ids"
    "deferred_evictions m1 = deferred_evictions m @ extra" by (auto simp: extends_state_def)
  then have "cleanup_new_blobs K new s = s" using assms(1,4) by (intro cleanup_absent) auto
  with assms(2) m1 show ?thesis by (simp add: in_savepoint_def)
qed

lemma store_inputs_extends:
  "store_inputs L K policy W preparation source_id review_id inputs s m = (r, s', m') \<Longrightarrow>
   extends_state (we_blob_id W ` {0..<length inputs}) m m'"
  using store_all_extends [where n = 0] by (auto simp: store_inputs_def split: option.splits)

lemma replace_failed:
  assumes "blob_libs_ok K" "fresh_ids W (length inputs) s"
    and "replace_for_article L K policy W preparation source_id review_id inputs s m = (Inl e, s', m')"
  shows "s' = s \<and> m' = m"
proof -
  let ?tx = "\<lambda>s m. store_inputs L K policy W preparation source_id review_id inputs (clear_links source_id review_id s) m"
  show ?thesis
  proof (cases "?tx s m")
    case (fields r s1 m1)
    note ext = store_inputs_extends [OF fields]
    show ?thesis
    proof (cases r)
      case (Inl e1)
      with assms(2) fields savepoint_rolled_back [OF assms(1), of ?tx s m e1 s1 m1, OF _ ext]
      have "in_savepoint K ?tx s m = (Inl e1, s, m)" by (simp add: fresh_ids_def)
      with assms(3) show ?thesis by (auto simp: replace_for_article_def split: sum.splits)
    next
      case (Inr x)
      with assms(3) fields show ?thesis
        by (auto simp: replace_for_article_def in_savepoint_def split: sum.splits)
    qed
  qed
qed

lemma store_failed:
  assumes "blob_libs_ok K" "fresh_ids W (length inputs) s"
    and "store_for_article L K policy W preparation source_id review_id inputs s m = (Inl e, s', m')"
  shows "s' = s \<and> m' = m"
proof -
  let ?tx = "store_inputs L K policy W preparation source_id review_id inputs"
  show ?thesis
  proof (cases "?tx s m")
    case (fields r s1 m1)
    note ext = store_inputs_extends [OF fields]
    show ?thesis
    proof (cases r)
      case (Inl e1)
      with assms(2) fields savepoint_rolled_back [OF assms(1), of ?tx s m e1 s1 m1, OF _ ext]
      have "in_savepoint K ?tx s m = (Inl e1, s, m)" by (simp add: fresh_ids_def)
      with assms(3) show ?thesis by (auto simp: store_for_article_def split: sum.splits if_splits)
    next
      case (Inr x)
      with assms(3) fields show ?thesis
        by (auto simp: store_for_article_def in_savepoint_def split: sum.splits if_splits)
    qed
  qed
qed

subsection \<open>What is written when a batch succeeds\<close>

text \<open>A blob the preparation or the batch offers for an input, while it has data, has the input's bytes.\<close>

definition offers_ok :: "asset_batch_preparation \<Rightarrow> (uuid \<rightharpoonup> uuid) \<Rightarrow> asset_input \<Rightarrow> asset_db \<Rightarrow> bool" where
  "offers_ok prep batch input s \<longleftrightarrow>
     (\<forall>i b. matching_blobs prep (ai_preparation_id input) = Some (Some i) \<or>
            (\<exists>previous. matching_inputs prep (ai_preparation_id input) = Some previous \<and> batch previous = Some i) \<longrightarrow>
        find_blob i s = Some b \<longrightarrow> b_data b \<noteq> None \<longrightarrow> b_data b = Some (ai_bytes input))"

definition input_ok :: "libs \<Rightarrow> blob_libs \<Rightarrow> asset_cache_policy \<Rightarrow> asset_input \<Rightarrow> bool" where
  "input_ok L K policy i \<longleftrightarrow> validate_asset_input L K policy i = Inr ()"

lemma input_ok_facts:
  assumes "input_ok L K policy i"
  shows "sha256_hex K (ai_bytes i) = ai_checksum i" "trim (ai_media_type i) \<noteq> []"
proof -
  have "ai_media_type i \<in> set supported_media_types" "sha256_hex K (ai_bytes i) = ai_checksum i"
    using assms by (auto simp: input_ok_def validate_asset_input_def checksum_matches_bytes_def result_simps split: if_splits)
  then show "sha256_hex K (ai_bytes i) = ai_checksum i" "trim (ai_media_type i) \<noteq> []"
    by (auto simp: supported_media_types_def lit_def trim_eq_Nil_iff is_whitespace_def)
qed

lemma reusable_blob_Some:
  assumes "assets_ok K s" "reusable_blob K i checksum byte_size s = Inr (Some md)"
  obtains b where "find_blob i s = Some b" "b_data b \<noteq> None" "b_checksum b = checksum" "b_byte_size b = byte_size"
    "\<not> deletion_queued i s"
proof -
  have K: "blob_libs_ok K" using assms(1) by (simp add: assets_ok_def)
  from assms(2) obtain b where b: "find_blob i s = Some b" "b_checksum b = checksum" "b_byte_size b = byte_size"
      "\<not> deletion_queued i s"
    by (auto simp: reusable_blob_def split: option.splits if_splits)
  then have "blob_ok K b" using find_blob_ok [OF assms(1)] by blast
  from assms(2) b stat_eq [OF K b(1) this] have "b_data b \<noteq> None"
    by (auto simp: reusable_blob_def split: option.splits if_splits)
  with that b show ?thesis by blast
qed

text \<open>
  The effect of storing one input: what grows, that the tables stay well formed, that a new blob fits,
  and the blob the asset refers to.
\<close>

definition fits :: "asset_cache_policy \<Rightarrow> asset_db \<Rightarrow> mutation_state \<Rightarrow> bool" where
  "fits policy s m \<longleftrightarrow>
     (bounded (max_cache_size_bytes policy) \<longrightarrow>
        stored_size (deferred_evictions m) s \<le> int (unat (max_cache_size_bytes policy)))"

definition stored_step ::
    "blob_libs \<Rightarrow> asset_cache_policy \<Rightarrow> uuid set \<Rightarrow> asset_db \<Rightarrow> mutation_state \<Rightarrow>
     blob_row list \<Rightarrow> asset_record_row list \<Rightarrow> uuid list \<Rightarrow> asset_db \<Rightarrow> mutation_state \<Rightarrow> bool" where
  "stored_step K policy ids s m bs rs extra s' m' \<longleftrightarrow>
     grows s m bs rs extra s' m' \<and> b_id ` set bs \<subseteq> ids \<and> assets_ok K s' \<and> mut_ok m' s' \<and>
     (\<forall>b \<in> set bs. 0 \<le> b_byte_size b) \<and> (if bs = [] then extra = [] else fits policy s' m')"

definition has_bytes :: "asset_db \<Rightarrow> uuid \<Rightarrow> bytes \<Rightarrow> bool" where
  "has_bytes s i body \<longleftrightarrow> (\<exists>b. find_blob i s = Some b \<and> b_data b = Some body)"

lemma pending_size_content:
  assumes "map content (a_blobs s') = map content (a_blobs s)"
  shows "pending_size p d s' = pending_size p d s"
  unfolding pending_size_def conj_assoc using content_stored_size [OF assms, of "\<lambda>i. i \<notin> set d \<and> i \<in> set p"] by simp

lemma find_content:
  assumes "map content (a_blobs s') = map content (a_blobs s)"
  shows "find_blob i s' \<noteq> None \<longleftrightarrow> find_blob i s \<noteq> None"
proof -
  have "set (map b_id (a_blobs s')) = set (map b_id (a_blobs s))" by (simp only: content_ids [OF assms])
  then show ?thesis unfolding find_blob_None by simp
qed

text \<open>Changes that keep the content of blobs and the core of records keep the tables well formed.\<close>

lemma assets_ok_cong:
  assumes ok: "assets_ok K s" and c: "map content (a_blobs s') = map content (a_blobs s)"
    and r: "map record_core (a_records s') = map record_core (a_records s)"
  shows "assets_ok K s'"
proof -
  have "blob_ok K b" if "b \<in> set (a_blobs s')" for b
    using content_mem [OF c that] content_blob_ok ok by (metis assets_ok_def)
  moreover have "find_blob i s' \<noteq> None" if "r' \<in> set (a_records s')" "rc_blob_id r' = Some i" for r' i
    using record_core_blobs [OF r that(1)] that(2) ok unfolding find_content [OF c]
    by (auto simp: assets_ok_def record_core_def)
  ultimately show ?thesis
    using ok content_ids [OF c] record_core_ids [OF r] unfolding assets_ok_def by simp
qed

lemma stored_step_touch:
  assumes "assets_ok K s" "mut_ok m s" "map content (a_blobs s') = map content (a_blobs s)"
    "map record_core (a_records s') = map record_core (a_records s)"
    "a_deletion_queue s' = a_deletion_queue s" "a_cleanup_queue s' = a_cleanup_queue s" "a_repairs s' = a_repairs s"
  shows "stored_step K policy ids s m [] [] [] s' m"
  using assms assets_ok_cong [OF assms(1,3,4)]
  by (simp add: stored_step_def grows_def mut_ok_def pending_size_content [OF assms(3)])

lemma choose_blob_Inr:
  assumes ok: "assets_ok K s" "mut_ok m s" and input: "input_ok L K policy input" "input_byte_size input = Inr byte_size"
    and fresh: "we_blob_id W n \<notin> b_id ` set (a_blobs s)" and offer: "\<And>j b. matching = Some j \<Longrightarrow> find_blob j s = Some b \<Longrightarrow>
        b_data b \<noteq> None \<Longrightarrow> b_data b = Some (ai_bytes input)"
    and res: "choose_blob K policy W n input (ai_checksum input) byte_size protected matching s m = (Inr (i, mt), s', m')"
  obtains bs extra where "stored_step K policy {we_blob_id W n} s m bs [] extra s' m'" "has_bytes s' i (ai_bytes input)"
    "a_links s' = a_links s"
proof -
  note result = that
  have size: "byte_size = int (length (ai_bytes input))" "length (ai_bytes input) < 2 ^ 63"
    using input(2) by (auto simp: input_byte_size_def i64_try_from_def split: if_splits)
  have "thesis" if ins: "insert_blob K policy W n input (ai_checksum input) byte_size protected s m = (Inr (i, mt), s', m')"
  proof -
    from insert_blob_Inr [OF ok input_ok_facts [OF input(1)] size fresh ins] obtain b extra where
      b: "grows s m [b] [] extra s' m'" "b_id b = i" "i = we_blob_id W n" "b_data b = Some (ai_bytes input)"
        "blob_ok K b" "a_links s' = a_links s" "assets_ok K s'" "mut_ok m' s'"
      and "fits policy s' m'" unfolding fits_def by metis
    then have "stored_step K policy {we_blob_id W n} s m [b] [] extra s' m'" by (simp add: stored_step_def blob_ok_def)
    moreover have "has_bytes s' i (ai_bytes input)"
      using grows_find(2) [OF b(1) ok(1) b(7), of b] b(2,4) by (auto simp: has_bytes_def content_def)
    ultimately show thesis using result b(6) by blast
  qed
  moreover have thesis if reuse: "matching = Some i" "reusable_blob K i (ai_checksum input) byte_size s = Inr (Some md)"
    "s' = touch_blob (we_now W n) i s" "m' = m" for md
  proof -
    from reusable_blob_Some [OF ok(1) reuse(2)] obtain b where b: "find_blob i s = Some b" "b_data b \<noteq> None" by metis
    then have data: "b_data b = Some (ai_bytes input)" using offer reuse(1) by blast
    have step: "stored_step K policy {we_blob_id W n} s m [] [] [] s' m'"
      unfolding reuse(3,4) by (rule stored_step_touch [OF ok]) simp_all
    then have "grows s m [] [] [] s' m'" "assets_ok K s'" by (simp_all add: stored_step_def)
    from grows_find(1) [OF this(1) ok(1) this(2) b(1)] data have "has_bytes s' i (ai_bytes input)"
      by (auto simp: has_bytes_def content_def)
    with result step reuse(3) show thesis by simp
  qed
  ultimately show thesis
    using res by (auto simp: choose_blob_def split: option.splits sum.splits)
qed

lemma fits_step:
  assumes "stored_step K policy ids s m bs rs extra s' m'" "assets_ok K s" "fits policy s m"
  shows "fits policy s' m'"
proof (cases "bs = []")
  case True
  have g: "grows s m bs rs extra s' m'" "extra = []" using assms(1) True by (auto simp: stored_step_def)
  with grows_stored_size [OF g(1), of "deferred_evictions m"] True assms(2,3) show ?thesis
    by (auto simp: fits_def grows_def assets_ok_def blob_ok_def)
next
  case False
  with assms(1) show ?thesis by (simp add: stored_step_def)
qed

lemma stored_step_trans:
  assumes "stored_step K policy A s m bs rs ex s1 m1" "stored_step K policy B s1 m1 bs' rs' ex' s2 m2"
  shows "stored_step K policy (A \<union> B) s m (bs @ bs') (rs @ rs') (ex @ ex') s2 m2"
proof -
  have g: "grows s m bs rs ex s1 m1" "grows s1 m1 bs' rs' ex' s2 m2" using assms by (simp_all add: stored_step_def)
  have "fits policy s2 m2" if "fits policy s1 m1" using fits_step [OF assms(2) _ that] assms(1) by (simp add: stored_step_def)
  with assms grows_trans [OF g] show ?thesis by (auto simp: stored_step_def split: if_splits)
qed

lemma stored_step_ok: "stored_step K policy ids s m bs rs extra s' m' \<Longrightarrow> assets_ok K s' \<and> mut_ok m' s' \<and> grows s m bs rs extra s' m'"
  by (simp add: stored_step_def)

lemma has_bytes_kept:
  assumes "stored_step K policy ids s m bs rs extra s' m'" "assets_ok K s" "has_bytes s i body"
  shows "has_bytes s' i body"
  using stored_step_ok [OF assms(1)] grows_find(1) [of s m bs rs extra s' m' K] assms(2,3)
  by (fastforce simp: has_bytes_def content_def)

definition has_record :: "asset_db \<Rightarrow> uuid \<Rightarrow> rstring \<Rightarrow> uuid \<Rightarrow> bool" where
  "has_record s record_id source_url blob_id \<longleftrightarrow>
     (\<exists>v. (record_id, source_url, v, Some blob_id) \<in> record_core ` set (a_records s))"

lemma grows_records:
  assumes "grows s m bs rs extra s' m'"
  shows "record_core ` set (a_records s') = record_core ` set (a_records s) \<union> record_core ` set rs"
proof -
  have "set (map record_core (a_records s')) = set (map record_core (a_records s) @ map record_core rs)"
    using assms by (simp only: grows_def)
  then show ?thesis by simp
qed

lemma add_record_step:
  assumes ok: "assets_ok K s" "mut_ok m s" and blob: "find_blob i s \<noteq> None"
    and res: "add_record now record_id source_url version final_url i s = (Inr r, s')"
  shows "\<exists>rs. stored_step K policy {} s m [] rs [] s' m" "has_record s' record_id source_url i" "r = record_id" "a_links s' = a_links s"
    "a_blobs s' = a_blobs s"
proof -
  let ?r = "\<lparr>rc_id = record_id, rc_source_url = source_url, rc_version = version, rc_final_url = final_url,
      rc_blob_id = Some i, rc_fetch_status = ''available'', rc_last_error = None, rc_updated_at = now\<rparr>"
  have s': "s' = s\<lparr>a_records := a_records s @ [?r]\<rparr>" "record_id \<notin> rc_id ` set (a_records s)" and r: "r = record_id"
    using res by (auto simp: add_record_def split: if_splits)
  have find: "find_blob j s' = find_blob j s" for j by (simp add: find_blob_def s'(1))
  have "assets_ok K s'" using ok(1) s' blob unfolding assets_ok_def find by auto
  moreover have "mut_ok m s'" using ok(2) by (simp add: mut_ok_def pending_size_def s'(1))
  ultimately have "stored_step K policy {} s m [] [?r] [] s' m" by (simp add: stored_step_def grows_def s'(1))
  then show "\<exists>rs. stored_step K policy {} s m [] rs [] s' m" by blast
  show "has_record s' record_id source_url i" by (auto simp: has_record_def s'(1) record_core_def)
  show "r = record_id" "a_links s' = a_links s" "a_blobs s' = a_blobs s" using r by (simp_all add: s'(1))
qed

text \<open>An asset that was stored for an input: its blob has the bytes and its record names URL and blob.\<close>

definition asset_stored :: "libs \<Rightarrow> asset_db \<Rightarrow> asset_input \<Rightarrow> stored_asset \<Rightarrow> bool" where
  "asset_stored L s x a \<longleftrightarrow>
     has_bytes s (sa_blob_id a) (ai_bytes x) \<and> normalize_url L (ai_source_url x) = Inr (sa_source_url a) \<and>
     has_record s (sa_id a) (url_text L (sa_source_url a)) (sa_blob_id a)"

lemma asset_stored_kept:
  assumes "stored_step K policy ids s m bs rs extra s' m'" "assets_ok K s" "asset_stored L s x a"
  shows "asset_stored L s' x a"
  using assms(3) has_bytes_kept [OF assms(1,2)] grows_records [of s m bs rs extra s' m'] stored_step_ok [OF assms(1)]
  by (auto simp: asset_stored_def has_record_def)

lemma store_version_Inr:
  assumes ok: "assets_ok K s" "mut_ok m s" and input: "input_ok L K policy input" "input_byte_size input = Inr byte_size"
    and url: "normalize_url L (ai_source_url input) = Inr u"
    and fresh: "we_blob_id W n \<notin> b_id ` set (a_blobs s)" and offer: "offers_ok prep batch input s"
    and res: "store_version L K policy W n prep protected batch input u v byte_size current s m = (Inr a, s', m')"
  shows "(\<exists>bs rs extra. stored_step K policy {we_blob_id W n} s m bs rs extra s' m') \<and> asset_stored L s' input a \<and> a_links s' = a_links s"
proof -
  obtain prepared where prep: "matching_blobs prep (ai_preparation_id input) = Some prepared"
    using res by (cases "matching_blobs prep (ai_preparation_id input)") (auto simp: store_version_def matching_blob_def)
  define batch_match where "batch_match = (case matching_input prep input of None \<Rightarrow> None | Some previous \<Rightarrow> batch previous)"
  define matching where "matching = (if batch_match = None then prepared else batch_match)"
  obtain i mt s1 next_version where
    choose: "choose_blob K policy W n input (ai_checksum input) byte_size protected matching s m = (Inr (i, mt), s1, m')"
    and add: "add_record (we_txn_now W) (we_record_id W n) (url_text L u) next_version (url_text L v) i s1 = (Inr (sa_id a), s')"
    and a: "a = stored_asset_of (sa_id a) u i (ai_checksum input) mt byte_size"
    using res prep unfolding store_version_def Let_def matching_blob_def batch_match_def [symmetric]
    by (auto simp: stored_asset_of_def matching_def split: sum.splits prod.splits option.splits if_splits)
  have "matching = Some j \<Longrightarrow> prepared = Some j \<or> (\<exists>previous. matching_inputs prep (ai_preparation_id input) = Some previous \<and> batch previous = Some j)" for j
    unfolding matching_def batch_match_def matching_input_def by (auto split: if_splits option.splits)
  then have offered: "matching = Some j \<Longrightarrow> find_blob j s = Some b \<Longrightarrow> b_data b \<noteq> None \<Longrightarrow> b_data b = Some (ai_bytes input)" for j b
    using offer prep unfolding offers_ok_def by blast
  obtain bs extra where
    s1: "stored_step K policy {we_blob_id W n} s m bs [] extra s1 m'" "has_bytes s1 i (ai_bytes input)" "a_links s1 = a_links s"
    by (rule choose_blob_Inr [OF ok input fresh offered choose])
  have ok1: "assets_ok K s1" "mut_ok m' s1" using s1(1) by (simp_all add: stored_step_def)
  have blob: "find_blob i s1 \<noteq> None" using s1(2) by (auto simp: has_bytes_def)
  from add_record_step(1) [OF ok1 blob add, of policy] obtain rs where
    step: "stored_step K policy {} s1 m' [] rs [] s' m'" by blast
  from stored_step_trans [OF s1(1) step] have "\<exists>bs rs extra. stored_step K policy {we_blob_id W n} s m bs rs extra s' m'" by auto
  moreover have "asset_stored L s' input a"
    using has_bytes_kept [OF step ok1(1) s1(2)] add_record_step(2,3) [OF ok1 blob add] url a
    by (auto simp: asset_stored_def stored_asset_of_def)
  ultimately show ?thesis using add_record_step(4) [OF ok1 blob add] s1(3) by simp
qed

lemma find_record_core:
  assumes "current_record url s = Some r"
  shows "r \<in> set (a_records s)" "rc_source_url r = url"
proof -
  obtain rs where "sort_key (\<lambda>r. - rc_version r) (filter (\<lambda>r. rc_source_url r = url) (a_records s)) = r # rs"
    using assms by (auto simp: current_record_def split: list.splits)
  then have "r \<in> set (filter (\<lambda>r. rc_source_url r = url) (a_records s))" by (metis list.set_intros(1) set_sort)
  then show "r \<in> set (a_records s)" "rc_source_url r = url" by auto
qed

lemma store_one_Inr:
  assumes ok: "assets_ok K s" "mut_ok m s" and input: "input_ok L K policy input"
    and fresh: "we_blob_id W n \<notin> b_id ` set (a_blobs s)" and offer: "offers_ok prep batch input s"
    and res: "store_one L K policy W n prep protected batch input s m = (Inr a, s', m')"
  shows "(\<exists>bs rs extra. stored_step K policy {we_blob_id W n} s m bs rs extra s' m') \<and> asset_stored L s' input a \<and> a_links s' = a_links s"
proof -
  obtain u v byte_size where urls: "normalize_url L (ai_source_url input) = Inr u" "normalize_url L (ai_final_url input) = Inr v"
    "input_byte_size input = Inr byte_size"
    using res by (auto simp: store_one_def split: sum.splits)
  let ?new = "store_version L K policy W n prep protected batch input u v byte_size (current_record (url_text L u) s) s m"
  show ?thesis
  proof (cases "?new = (Inr a, s', m')")
    case True
    from store_version_Inr [OF ok input urls(3,1) fresh offer True] show ?thesis .
  next
    case False
    with res urls obtain r i md prepared where r: "current_record (url_text L u) s = Some r" "rc_blob_id r = Some i"
      "reusable_blob K i (ai_checksum input) byte_size s = Inr (Some md)" "matching_blob prep input = Inr prepared"
      "unchanged_blob r prepared (ai_checksum input) byte_size s"
      and a: "a = stored_asset_of (rc_id r) u i (ai_checksum input) (md_media_type md) byte_size"
      and s': "s' = reuse_record W n r (url_text L v) i s" "m' = m"
      by (auto simp: store_one_def Let_def split: option.splits sum.splits if_splits)
    have prep: "matching_blobs prep (ai_preparation_id input) = Some (Some i)"
      using r(2,4,5) by (simp add: matching_blob_def unchanged_blob_def Let_def)
    from reusable_blob_Some [OF ok(1) r(3)] obtain b where b: "find_blob i s = Some b" "b_data b \<noteq> None" by metis
    then have data: "has_bytes s i (ai_bytes input)" using offer prep by (auto simp: offers_ok_def has_bytes_def)
    have core: "map record_core (a_records s') = map record_core (a_records s)"
      by (simp add: s' reuse_record_def update_rows_def record_core_def)
    have step: "stored_step K policy {we_blob_id W n} s m [] [] [] s' m'"
      unfolding s'(2) using core by (intro stored_step_touch [OF ok]) (simp_all add: s'(1) reuse_record_def)
    have "record_core ` set (a_records s') = record_core ` set (a_records s)"
      using arg_cong [OF core, of set] by simp
    moreover have "(rc_id r, url_text L u, rc_version r, Some i) \<in> record_core ` set (a_records s)"
      using find_record_core [OF r(1)] r(2) by (force simp: record_core_def)
    ultimately have "has_record s' (rc_id r) (url_text L u) i" by (auto simp: has_record_def)
    with step has_bytes_kept [OF step ok(1) data] urls(1) show ?thesis
      unfolding a by (auto simp: asset_stored_def stored_asset_of_def s'(1) reuse_record_def)
  qed
qed


text \<open>The link of an article to the asset stored for an input.\<close>

definition asset_attached :: "uuid \<Rightarrow> rstring \<Rightarrow> asset_db \<Rightarrow> asset_input \<Rightarrow> stored_asset \<Rightarrow> bool" where
  "asset_attached source_id review_id s x a \<longleftrightarrow>
     (\<exists>l \<in> set (a_links s). aa_source_id l = source_id \<and> aa_review_id l = trim review_id \<and>
        aa_occurrence l = uint (ai_occurrence x) \<and> aa_record_id l = sa_id a)"

text \<open>The links a batch does not write: those of other articles and of other occurrences.\<close>

definition other_links :: "uuid \<Rightarrow> rstring \<Rightarrow> asset_input list \<Rightarrow> asset_db \<Rightarrow> article_asset_row list" where
  "other_links source_id review_id inputs s =
     filter (\<lambda>l. \<not> (aa_source_id l = source_id \<and> aa_review_id l = trim review_id \<and>
                  aa_occurrence l \<in> (\<lambda>x. uint (ai_occurrence x)) ` set inputs)) (a_links s)"

lemma filter_update_other:
  assumes "\<And>x. P x \<Longrightarrow> \<not> Q x \<and> \<not> Q (f x)"
  shows "filter Q (update_rows P f xs) = filter Q xs"
  using assms by (induction xs) (auto simp: update_rows_def)

lemma attach_Inr:
  assumes "attach L source_id review_id x (sa_id a) s = (Inr u, s')"
  shows "s' = s\<lparr>a_links := a_links s'\<rparr>" "asset_attached source_id review_id s' x a"
    "other_links source_id review_id (x # xs) s' = other_links source_id review_id (x # xs) s"
proof -
  let ?at = "\<lambda>l. aa_source_id l = source_id \<and> aa_review_id l = trim review_id \<and> aa_occurrence l = uint (ai_occurrence x)"
  let ?row = "\<lparr>aa_source_id = source_id, aa_review_id = trim review_id, aa_record_id = sa_id a,
      aa_occurrence = uint (ai_occurrence x), aa_role = ''body'',
      aa_referer_url = url_text L (ai_referer_url x), aa_origin = ai_origin x, aa_user_agent = ai_user_agent x\<rparr>"
  have s': "s' = s\<lparr>a_links := (if list_ex ?at (a_links s) then update_rows ?at (\<lambda>_. ?row) (a_links s) else a_links s @ [?row])\<rparr>"
    using assms by (auto simp: attach_def Let_def split: if_splits)
  show "s' = s\<lparr>a_links := a_links s'\<rparr>" unfolding s' by simp
  show "asset_attached source_id review_id s' x a"
  proof -
    have "?row \<in> set (a_links s')" unfolding s' by (auto simp: update_rows_def list_ex_iff)
    then show ?thesis unfolding asset_attached_def by (rule bexI [rotated]) simp
  qed
  show "other_links source_id review_id (x # xs) s' = other_links source_id review_id (x # xs) s"
    unfolding s' other_links_def by (auto intro!: filter_update_other)
qed

lemma other_links_subset:
  assumes "other_links source_id review_id xs s' = other_links source_id review_id xs s" "set xs \<subseteq> set ys"
  shows "other_links source_id review_id ys s' = other_links source_id review_id ys s"
proof -
  have split: "other_links source_id review_id ys s =
      filter (\<lambda>l. \<not> (aa_source_id l = source_id \<and> aa_review_id l = trim review_id \<and>
        aa_occurrence l \<in> (\<lambda>x. uint (ai_occurrence x)) ` set ys)) (other_links source_id review_id xs s)" for s
    unfolding other_links_def filter_filter using assms(2) by (intro filter_cong) auto
  show ?thesis unfolding split [of s] split [of s'] assms(1) ..
qed

lemma attached_kept:
  assumes "other_links source_id review_id xs s' = other_links source_id review_id xs s" "asset_attached source_id review_id s x a"
    "ai_occurrence x \<notin> ai_occurrence ` set xs"
  shows "asset_attached source_id review_id s' x a"
proof -
  from assms(2) obtain l where l: "l \<in> set (a_links s)" "aa_source_id l = source_id" "aa_review_id l = trim review_id"
    "aa_occurrence l = uint (ai_occurrence x)" "aa_record_id l = sa_id a" by (auto simp: asset_attached_def)
  with assms(3) have "l \<in> set (other_links source_id review_id xs s)"
    by (auto simp: other_links_def word_uint_eq_iff image_iff)
  then have "l \<in> set (a_links s')" unfolding assms(1) [symmetric] by (simp add: other_links_def)
  with l show ?thesis by (auto simp: asset_attached_def)
qed


lemma links_only_step:
  assumes "s' = s\<lparr>a_links := a_links s'\<rparr>" "assets_ok K s" "mut_ok m s"
  shows "stored_step K policy ids s m [] [] [] s' m"
proof -
  obtain ls where s': "s' = s\<lparr>a_links := ls\<rparr>" using assms(1) by metis
  show ?thesis unfolding s' by (rule stored_step_touch [OF assms(2,3)]) simp_all
qed

lemma attach_step:
  fixes a :: stored_asset
  assumes "attach L source_id review_id x (sa_id a) s = (Inr u, s')" "assets_ok K s" "mut_ok m s"
  shows "stored_step K policy {} s m [] [] [] s' m"
  by (rule links_only_step [OF attach_Inr(1) [OF assms(1)] assms(2,3)])

text \<open>
  What a batch relies on: the blobs its preparation names either hold the input's bytes or nothing,
  and an input that refers to an earlier one has its bytes.
\<close>

definition prep_ok :: "uuid set \<Rightarrow> asset_batch_preparation \<Rightarrow> asset_input list \<Rightarrow> asset_db \<Rightarrow> bool" where
  "prep_ok drawn prep inputs s \<longleftrightarrow>
     (\<forall>x \<in> set inputs. \<forall>i. matching_blobs prep (ai_preparation_id x) = Some (Some i) \<longrightarrow>
        i \<notin> drawn \<and> (\<forall>b. find_blob i s = Some b \<longrightarrow> b_data b \<noteq> None \<longrightarrow> b_data b = Some (ai_bytes x))) \<and>
     (\<forall>x \<in> set inputs. \<forall>y \<in> set inputs. matching_inputs prep (ai_preparation_id x) = Some (ai_preparation_id y) \<longrightarrow>
        ai_bytes y = ai_bytes x)"

definition batch_ok :: "asset_input list \<Rightarrow> (uuid \<rightharpoonup> uuid) \<Rightarrow> asset_db \<Rightarrow> bool" where
  "batch_ok inputs batch s \<longleftrightarrow>
     (\<forall>p i. batch p = Some i \<longrightarrow> (\<exists>y \<in> set inputs. ai_preparation_id y = p \<and> has_bytes s i (ai_bytes y)))"

lemma offers_from_preparation:
  assumes "prep_ok drawn prep inputs s" "batch_ok inputs batch s" "x \<in> set inputs"
  shows "offers_ok prep batch x s"
proof -
  have "b_data b = Some (ai_bytes x)"
    if "matching_inputs prep (ai_preparation_id x) = Some p" "batch p = Some i" "find_blob i s = Some b" for p i b
  proof -
    have "\<exists>y \<in> set inputs. ai_preparation_id y = p \<and> has_bytes s i (ai_bytes y)"
      using assms(2) that(2) by (simp add: batch_ok_def)
    then obtain y where y: "y \<in> set inputs" "ai_preparation_id y = p" "has_bytes s i (ai_bytes y)" by blast
    then have "ai_bytes y = ai_bytes x" using assms(1,3) that(1) by (auto simp: prep_ok_def)
    with y(3) that(3) show ?thesis by (simp add: has_bytes_def)
  qed
  with assms(1,3) show ?thesis unfolding offers_ok_def prep_ok_def by blast
qed

lemma prep_ok_step:
  assumes "prep_ok drawn prep inputs s" "stored_step K policy ids s m bs rs extra s' m'" "ids \<subseteq> drawn" "assets_ok K s"
  shows "prep_ok drawn prep inputs s'"
proof -
  note g = stored_step_ok [OF assms(2)]
  have "b_data b = Some (ai_bytes x)" if "x \<in> set inputs" "matching_blobs prep (ai_preparation_id x) = Some (Some i)"
    "find_blob i s' = Some b" "b_data b \<noteq> None" for x i b
  proof -
    have "i \<in> b_id ` set (a_blobs s')" using find_blob_None [of i s'] that(3) by auto
    moreover have "i \<notin> drawn" using assms(1) that(1,2) by (auto simp: prep_ok_def)
    moreover have "b_id ` set bs \<subseteq> drawn" using assms(2,3) by (auto simp: stored_step_def)
    moreover have "b_id ` set (a_blobs s') = b_id ` set (a_blobs s) \<union> b_id ` set bs"
      by (rule grows_blobs(2)) (use g in blast)
    ultimately have "i \<in> b_id ` set (a_blobs s)" by blast
    then obtain b0 where b0: "find_blob i s = Some b0" using find_blob_None [of i s] by auto
    obtain b1 where "find_blob i s' = Some b1" "content b1 = content b0" 
      using grows_find(1) [OF conjunct2 [OF conjunct2 [OF g]] assms(4) conjunct1 [OF g] b0] by blast
    then have "b_data b0 = b_data b" using that(3) by (simp add: content_def)
    moreover have "b_data b0 \<noteq> None \<longrightarrow> b_data b0 = Some (ai_bytes x)"
      using assms(1) that(1,2) b0 unfolding prep_ok_def by blast
    ultimately show ?thesis using that(4) by simp
  qed
  then show ?thesis using assms(1) unfolding prep_ok_def by (intro conjI ballI allI impI) blast+
qed

lemma batch_ok_step:
  assumes "batch_ok inputs batch s" "stored_step K policy ids s m bs rs extra s' m'" "assets_ok K s"
  shows "batch_ok inputs batch s'"
  using assms(1) has_bytes_kept [OF assms(2,3)] unfolding batch_ok_def by blast

lemma fresh_step:
  assumes "stored_step K policy ids s m bs rs extra s' m'" "i \<notin> ids" "i \<notin> b_id ` set (a_blobs s)"
  shows "i \<notin> b_id ` set (a_blobs s')"
  using assms grows_blobs(2) [of s m bs rs extra s' m'] stored_step_ok [OF assms(1)] by (auto simp: stored_step_def)


lemma store_all_Inr:
  assumes "assets_ok K s" "mut_ok m s" "prep_ok drawn prep every s" "batch_ok every batch s" "set inputs \<subseteq> set every"
    and "we_blob_id W ` {n..<n + length inputs} \<subseteq> drawn" "distinct (map (we_blob_id W) [n..<n + length inputs])"
    and "we_blob_id W ` {n..<n + length inputs} \<inter> b_id ` set (a_blobs s) = {}"
    and "store_all L K policy W prep source_id review_id n protected batch inputs s m = (Inr stored, s', m')"
  shows "(\<exists>bs rs extra. stored_step K policy (we_blob_id W ` {n..<n + length inputs}) s m bs rs extra s' m') \<and>
     list_all2 (asset_stored L s') inputs stored \<and>
     (distinct (map ai_occurrence inputs) \<longrightarrow> list_all2 (asset_attached source_id review_id s') inputs stored) \<and>
     other_links source_id review_id inputs s' = other_links source_id review_id inputs s"
  using assms
proof (induction inputs arbitrary: n protected batch s m stored)
  case Nil
  then have "stored_step K policy {} s m [] [] [] s' m'" by (simp add: stored_step_def grows_refl)
  with Nil show ?case by auto
next
  case (Cons x xs)
  let ?ids = "we_blob_id W ` {Suc n..<Suc n + length xs}"
  have range: "we_blob_id W ` {n..<n + length (x # xs)} = insert (we_blob_id W n) ?ids"
  proof -
    have "{n..<n + length (x # xs)} = insert n {Suc n..<Suc n + length xs}" by auto
    then show ?thesis by (simp only: image_insert)
  qed
  have dist: "we_blob_id W n \<notin> ?ids" "distinct (map (we_blob_id W) [Suc n..<Suc n + length xs])"
  proof -
    have "[n..<n + length (x # xs)] = n # [Suc n..<Suc n + length xs]" by (simp add: upt_conv_Cons del: upt_Suc)
    with Cons.prems(7) show "we_blob_id W n \<notin> ?ids" "distinct (map (we_blob_id W) [Suc n..<Suc n + length xs])"
      by (simp_all del: upt_Suc)
  qed
  obtain a s1 s2 m1 rest where valid: "input_ok L K policy x"
    and one: "store_one L K policy W n prep protected batch x s m = (Inr a, s1, m1)"
    and att: "attach L source_id review_id x (sa_id a) s1 = (Inr (), s2)"
    and all: "store_all L K policy W prep source_id review_id (Suc n)
             (if sa_blob_id a \<in> set protected then protected else protected @ [sa_blob_id a])
             (batch(ai_preparation_id x \<mapsto> sa_blob_id a)) xs s2 m1 = (Inr rest, s', m')"
    and stored: "stored = a # rest"
    using Cons.prems(9) by (auto simp: input_ok_def split: sum.splits prod.splits)
  have fresh: "we_blob_id W n \<notin> b_id ` set (a_blobs s)" using Cons.prems(8) unfolding range by auto
  have offers: "offers_ok prep batch x s" using offers_from_preparation [OF Cons.prems(3,4)] Cons.prems(5) by simp
  from store_one_Inr [OF Cons.prems(1,2) valid fresh offers one] obtain bs rs extra where
    step1: "stored_step K policy {we_blob_id W n} s m bs rs extra s1 m1" and a: "asset_stored L s1 x a" and links: "a_links s1 = a_links s"
    by blast
  note ok1 = stored_step_ok [OF step1]
  have step2: "stored_step K policy {} s1 m1 [] [] [] s2 m1" using attach_step [OF att] ok1 by blast
  note both = stored_step_trans [OF step1 step2] and ok2 = stored_step_ok [OF step2]
  have a2: "asset_stored L s2 x a" using asset_stored_kept [OF step2 _ a] ok1 by blast
  have drawn: "{we_blob_id W n} \<union> {} \<subseteq> drawn" "?ids \<subseteq> drawn" using Cons.prems(6) unfolding range by auto
  have batch2: "batch_ok every (batch(ai_preparation_id x \<mapsto> sa_blob_id a)) s2"
    using batch_ok_step [OF Cons.prems(4) both Cons.prems(1)] a2 Cons.prems(5)
    by (auto simp: batch_ok_def asset_stored_def)
  have new: "i \<notin> b_id ` set (a_blobs s2)" if "i \<in> ?ids" for i
  proof (rule fresh_step [OF both])
    show "i \<notin> {we_blob_id W n} \<union> {}" using that dist(1) by blast
    show "i \<notin> b_id ` set (a_blobs s)" using that Cons.prems(8) unfolding range by auto
  qed
  then have fresh2: "?ids \<inter> b_id ` set (a_blobs s2) = {}" by blast
  have IH: "(\<exists>bs rs extra. stored_step K policy ?ids s2 m1 bs rs extra s' m') \<and>
     list_all2 (asset_stored L s') xs rest \<and>
     (distinct (map ai_occurrence xs) \<longrightarrow> list_all2 (asset_attached source_id review_id s') xs rest) \<and>
     other_links source_id review_id xs s' = other_links source_id review_id xs s2"
    using Cons.IH [OF _ _ prep_ok_step [OF Cons.prems(3) both drawn(1) Cons.prems(1)] batch2 _ drawn(2) dist(2) fresh2 all]
      ok2 Cons.prems(5) by simp
  then obtain bs' rs' extra' where step3: "stored_step K policy ?ids s2 m1 bs' rs' extra' s' m'" by blast
  have "other_links source_id review_id (x # xs) s' = other_links source_id review_id (x # xs) s2"
    using other_links_subset [of source_id review_id xs s' s2 "x # xs"] IH by auto
  also have "\<dots> = other_links source_id review_id (x # xs) s"
    using attach_Inr(3) [OF att] links by (simp add: other_links_def)
  finally have others: "other_links source_id review_id (x # xs) s' = other_links source_id review_id (x # xs) s" .
  have "asset_attached source_id review_id s' x a" if "distinct (map ai_occurrence (x # xs))"
    using attached_kept [OF _ attach_Inr(2) [OF att]] IH that by auto
  moreover have "asset_stored L s' x a" using asset_stored_kept [OF step3 _ a2] ok2 by blast
  moreover have "\<exists>bs rs extra. stored_step K policy (we_blob_id W ` {n..<n + length (x # xs)}) s m bs rs extra s' m'"
    using stored_step_trans [OF both step3] unfolding range by auto
  ultimately show ?case using IH others stored by simp
qed


subsection \<open>The preparation of a batch\<close>

lemma distinct_key_inj: "distinct (map f xs) \<Longrightarrow> x \<in> set xs \<Longrightarrow> y \<in> set xs \<Longrightarrow> f x = f y \<Longrightarrow> x = y"
  by (simp add: distinct_map inj_on_def)

lemma read_has_bytes:
  assumes ok: "assets_ok K s" and read: "read_in_transaction K (for_blob_id K i) s = Inr (Some blob)"
  shows "has_bytes s i (blob_bytes blob)"
proof -
  have K: "blob_libs_ok K" using ok by (simp add: assets_ok_def)
  show ?thesis
  proof (cases "find_blob i s")
    case None
    with read read_None [OF K] show ?thesis by simp
  next
    case (Some b)
    with read read_eq [OF K Some] find_blob_ok [OF ok Some] show ?thesis by (auto simp: has_bytes_def)
  qed
qed

lemma candidate_blobs_read:
  assumes "candidate_blobs K s ids = Inr candidates" "(i, blob) \<in> set candidates"
  shows "read_in_transaction K (for_blob_id K i) s = Inr (Some blob)"
  using assms
proof (induction ids arbitrary: candidates)
  case (Cons j ids)
  then show ?case
    by (cases "read_in_transaction K (for_blob_id K j) s"; cases "candidate_blobs K s ids")
      (auto simp: result_simps split: option.splits)
qed simp

lemma match_keys_bytes:
  assumes "assets_ok K s" "distinct (map ai_preparation_id inputs)" "match_keys K s inputs keys matches = Inr matches'"
    and "\<forall>x \<in> set inputs. \<forall>i. matches (ai_preparation_id x) = Some (Some i) \<longrightarrow> has_bytes s i (ai_bytes x)"
  shows "\<forall>x \<in> set inputs. \<forall>i. matches' (ai_preparation_id x) = Some (Some i) \<longrightarrow> has_bytes s i (ai_bytes x)"
  using assms(3,4)
proof (induction keys arbitrary: matches)
  case (Cons key keys)
  obtain checksum byte_size where key: "key = (checksum, byte_size)" by fastforce
  from Cons.prems(1) obtain candidates where c: "candidate_blobs K s (candidate_ids checksum byte_size s) = Inr candidates"
    by (cases "candidate_blobs K s (candidate_ids checksum byte_size s)") (auto simp: key result_simps)
  let ?new = "map_of (rev (map (\<lambda>i. (ai_preparation_id i, matched candidates i))
            (filter (\<lambda>i. ai_checksum i = checksum \<and> input_byte_size i = Inr byte_size) inputs)))"
  have new: "has_bytes s i (ai_bytes x)"
    if "x \<in> set inputs" "(matches ++ ?new) (ai_preparation_id x) = Some (Some i)" for x i
  proof (cases "?new (ai_preparation_id x)")
    case None
    with that Cons.prems(2) show ?thesis by (simp add: map_add_def)
  next
    case (Some v)
    then have v: "v = Some i" using that(2) by (simp add: map_add_def)
    from map_of_SomeD [OF Some] obtain y where "y \<in> set inputs" "ai_preparation_id y = ai_preparation_id x" "matched candidates y = v"
      by auto
    with distinct_key_inj [OF assms(2)] that(1) have "matched candidates x = Some i" unfolding v by metis
    then obtain blob where "(i, blob) \<in> set candidates" "blob_bytes blob = ai_bytes x"
      by (auto simp: matched_def dest: find_SomeD)
    with read_has_bytes [OF assms(1) candidate_blobs_read [OF c]] show ?thesis by metis
  qed
  have rest: "match_keys K s inputs keys (matches ++ ?new) = Inr matches'"
    using Cons.prems(1) c by (simp add: key result_simps)
  show ?case by (rule Cons.IH [OF rest]) (intro ballI allI impI new)
qed simp

lemma earlier_inputs_same:
  assumes "earlier_inputs before inputs p = Some q"
  shows "\<exists>x \<in> set inputs. \<exists>y \<in> set before \<union> set inputs. ai_preparation_id x = p \<and> ai_preparation_id y = q \<and> ai_bytes y = ai_bytes x"
  using assms
proof (induction inputs arbitrary: before)
  case (Cons i inputs)
  show ?case
  proof (cases "earlier_inputs (before @ [i]) inputs p")
    case (Some r)
    with Cons.prems have "r = q" by (auto simp: Let_def map_add_def split: option.splits)
    with Cons.IH [of "before @ [i]"] Some show ?thesis by auto
  next
    case None
    with Cons.prems obtain y where "find (same_body i) before = Some y" "ai_preparation_id i = p" "ai_preparation_id y = q"
      by (auto simp: Let_def map_add_def split: option.splits if_splits)
    with find_SomeD [of "same_body i" before y] show ?thesis by (auto simp: same_body_def)
  qed
qed simp

text \<open>What may happen between the preparation and the batch: blobs come and go, but no id gets other bytes.\<close>

definition blobs_kept :: "asset_db \<Rightarrow> asset_db \<Rightarrow> bool" where
  "blobs_kept s s' \<longleftrightarrow>
     (\<forall>i b b'. find_blob i s = Some b \<longrightarrow> find_blob i s' = Some b' \<longrightarrow> b_data b \<noteq> None \<longrightarrow> b_data b' \<noteq> None \<longrightarrow>
        b_data b' = b_data b)"

lemma prepared_ok:
  assumes ok: "assets_ok K s0" and dist: "distinct (map ai_preparation_id inputs)"
    and prep: "prepare_asset_batch K inputs s0 = Inr prep" and kept: "blobs_kept s0 s" "drawn \<inter> b_id ` set (a_blobs s0) = {}"
  shows "prep_ok drawn prep inputs s"
proof -
  obtain keys matches where m: "match_keys K s0 inputs keys (map_of (map (\<lambda>i. (ai_preparation_id i, None)) inputs)) = Inr matches"
    and p: "prep = \<lparr>matching_blobs = matches, matching_inputs = earlier_inputs [] inputs\<rparr>"
    using prep by (cases "input_keys inputs") (auto simp: prepare_asset_batch_def result_simps bindE_eq_Inr)
  have "\<forall>x \<in> set inputs. \<forall>i. matches (ai_preparation_id x) = Some (Some i) \<longrightarrow> has_bytes s0 i (ai_bytes x)"
    by (rule match_keys_bytes [OF ok dist m]) (auto dest!: map_of_SomeD)
  then have blobs: "i \<notin> drawn \<and> (\<forall>b. find_blob i s = Some b \<longrightarrow> b_data b \<noteq> None \<longrightarrow> b_data b = Some (ai_bytes x))"
    if "x \<in> set inputs" "matching_blobs prep (ai_preparation_id x) = Some (Some i)" for x i
    using that kept find_blob_None [of i s0] unfolding p blobs_kept_def has_bytes_def by fastforce
  have same: "ai_bytes y = ai_bytes x" if xy: "x \<in> set inputs" "y \<in> set inputs"
    "matching_inputs prep (ai_preparation_id x) = Some (ai_preparation_id y)" for x y
  proof -
    have "earlier_inputs [] inputs (ai_preparation_id x) = Some (ai_preparation_id y)" using xy(3) by (simp add: p)
    from earlier_inputs_same [OF this] obtain x' y' where "x' \<in> set inputs" "y' \<in> set inputs"
      "ai_preparation_id x' = ai_preparation_id x" "ai_preparation_id y' = ai_preparation_id y" "ai_bytes y' = ai_bytes x'" by auto
    then show ?thesis using distinct_key_inj [OF dist _ xy(1)] distinct_key_inj [OF dist _ xy(2)] by metis
  qed
  show ?thesis using blobs same unfolding prep_ok_def by simp
qed


text \<open>A preparation made for these inputs, at some earlier state of the tables.\<close>

definition prepared_for :: "blob_libs \<Rightarrow> write_env \<Rightarrow> asset_input list \<Rightarrow> asset_batch_preparation \<Rightarrow> asset_db \<Rightarrow> bool" where
  "prepared_for K W inputs prep s \<longleftrightarrow>
     distinct (map ai_preparation_id inputs) \<and>
     (\<exists>s0. assets_ok K s0 \<and> prepare_asset_batch K inputs s0 = Inr prep \<and> blobs_kept s0 s \<and>
        we_blob_id W ` {0..<length inputs} \<inter> b_id ` set (a_blobs s0) = {})"

lemma store_inputs_Inr:
  assumes ok: "assets_ok K s" "mut_ok m s" and prep: "\<And>prep. preparation = Some prep \<Longrightarrow> prepared_for K W inputs prep s"
    and fresh: "fresh_ids W (length inputs) s"
    and res: "store_inputs L K policy W preparation source_id review_id inputs s m = (Inr stored, s', m')"
  shows "(\<exists>bs rs extra. stored_step K policy (we_blob_id W ` {0..<length inputs}) s m bs rs extra s' m') \<and>
     list_all2 (asset_stored L s') inputs stored \<and>
     (distinct (map ai_occurrence inputs) \<longrightarrow> list_all2 (asset_attached source_id review_id s') inputs stored) \<and>
     other_links source_id review_id inputs s' = other_links source_id review_id inputs s"
proof -
  from res obtain p where p: "preparation = Some p"
    and all: "store_all L K policy W p source_id review_id 0 [] Map.empty inputs s m = (Inr stored, s', m')"
    by (auto simp: store_inputs_def split: option.splits)
  from prep [OF p] have "prep_ok (we_blob_id W ` {0..<length inputs}) p inputs s"
    unfolding prepared_for_def using prepared_ok by blast
  from store_all_Inr [OF ok this _ subset_refl _ _ _ all] fresh show ?thesis
    by (simp add: batch_ok_def fresh_ids_def)
qed

lemma clear_links_frame: "clear_links source_id review_id s = s\<lparr>a_links := a_links (clear_links source_id review_id s)\<rparr>"
  by (simp add: clear_links_def)

lemma links_only_blobs [simp]: "a_blobs (clear_links source_id review_id s) = a_blobs s"
  "find_blob i (clear_links source_id review_id s) = find_blob i s"
  by (simp_all add: clear_links_def find_blob_def)

lemma replace_Inr:
  assumes ok: "assets_ok K s" "mut_ok m s" and prep: "\<And>prep. preparation = Some prep \<Longrightarrow> prepared_for K W inputs prep s"
    and fresh: "fresh_ids W (length inputs) s"
    and res: "replace_for_article L K policy W preparation source_id review_id inputs s m = (Inr stored, s', m')"
  shows "(\<exists>bs rs extra. stored_step K policy (we_blob_id W ` {0..<length inputs}) s m bs rs extra s' m') \<and>
     list_all2 (asset_stored L s') inputs stored \<and>
     (distinct (map ai_occurrence inputs) \<longrightarrow> list_all2 (asset_attached source_id review_id s') inputs stored) \<and>
     other_links source_id review_id inputs s' = other_links source_id review_id inputs (clear_links source_id review_id s)"
proof -
  let ?s = "clear_links source_id review_id s"
  have clear: "stored_step K policy {} s m [] [] [] ?s m" by (rule links_only_step [OF clear_links_frame ok])
  have "assets_ok K ?s" "mut_ok m ?s" using clear by (simp_all add: stored_step_def)
  moreover have "prepared_for K W inputs p ?s" if "preparation = Some p" for p
    using prep [OF that] by (simp add: prepared_for_def blobs_kept_def)
  moreover have "fresh_ids W (length inputs) ?s" using fresh by (simp add: fresh_ids_def)
  moreover have "store_inputs L K policy W preparation source_id review_id inputs ?s m = (Inr stored, s', m')"
    using res by (auto simp: replace_for_article_def in_savepoint_def Let_def split: sum.splits prod.splits)
  ultimately have step: "(\<exists>bs rs extra. stored_step K policy (we_blob_id W ` {0..<length inputs}) ?s m bs rs extra s' m') \<and>
     list_all2 (asset_stored L s') inputs stored \<and>
     (distinct (map ai_occurrence inputs) \<longrightarrow> list_all2 (asset_attached source_id review_id s') inputs stored) \<and>
     other_links source_id review_id inputs s' = other_links source_id review_id inputs ?s"
    by (rule store_inputs_Inr)
  then obtain bs rs extra where "stored_step K policy (we_blob_id W ` {0..<length inputs}) ?s m bs rs extra s' m'" by blast
  from stored_step_trans [OF clear this] step show ?thesis by auto
qed

end
