(* ===== verification/Asset_Contracts.thy ===== *)
theory Asset_Contracts
  imports Asset_Safety
begin

text \<open>
  What the asset cache promises to a unit of work and to its readers: what a commit does with the
  deferred evictions, that assets read back as they were fetched, that the cache stays within its limit
  after every unit of work, what maintenance keeps, and the promise that fails: a blob chosen for
  eviction can be handed out again within the same unit of work.
\<close>

section \<open>Deleting queued blobs\<close>

definition wipe :: "uuid set \<Rightarrow> blob_row \<Rightarrow> blob_row" where
  "wipe ids b = (if b_id b \<in> ids then b\<lparr>b_data := None\<rparr> else b)"

lemma wipe_facts [simp]:
  "b_id (wipe ids b) = b_id b" "b_byte_size (wipe ids b) = b_byte_size b"
  "b_last_accessed_at (wipe ids b) = b_last_accessed_at b"
  "b_data (wipe ids b) = (if b_id b \<in> ids then None else b_data b)"
  by (simp_all add: wipe_def)

lemma wipe_none [simp]: "wipe {} = (\<lambda>b. b)"
  by (auto simp: wipe_def)

lemma wipe_wipe: "wipe A \<circ> wipe B = wipe (A \<union> B)"
  by (auto simp: wipe_def)

lemma update_wipe: "update_blob i (\<lambda>r. r\<lparr>b_data := None\<rparr>) s = s\<lparr>a_blobs := map (wipe {i}) (a_blobs s)\<rparr>"
  by (simp add: update_blob_def update_rows_def wipe_def)

definition queued :: "asset_db \<Rightarrow> uuid set" where
  "queued s = fst ` set (a_deletion_queue s) \<union> fst ` set (a_cleanup_queue s)"

lemma drain_deletions:
  assumes "blob_libs_ok K"
  shows "drain K unqueue_deletion ids s =
     (Inr (), s\<lparr>a_blobs := map (wipe (set ids)) (a_blobs s),
                a_deletion_queue := filter (\<lambda>q. fst q \<notin> set ids) (a_deletion_queue s)\<rparr>)"
proof (induction ids arbitrary: s)
  case (Cons i ids)
  then show ?case
    using assms
    by (simp add: update_wipe unqueue_deletion_def wipe_def conj_commute cong: if_cong)
qed simp

lemma drain_cleanups:
  assumes "blob_libs_ok K"
  shows "drain K unqueue_cleanup ids s =
     (Inr (), s\<lparr>a_blobs := map (wipe (set ids)) (a_blobs s),
                a_cleanup_queue := filter (\<lambda>q. fst q \<notin> set ids) (a_cleanup_queue s)\<rparr>)"
proof (induction ids arbitrary: s)
  case (Cons i ids)
  then show ?case
    using assms
    by (simp add: update_wipe unqueue_cleanup_def wipe_def conj_commute cong: if_cong)
qed simp

lemma queue_order_set [simp]: "set (queue_order q) = fst ` set q"
  by (simp add: queue_order_def)

lemma drain_queues_eq:
  assumes "blob_libs_ok K"
  shows "drain_queues K s =
     (Inr (), s\<lparr>a_blobs := map (wipe (queued s)) (a_blobs s), a_deletion_queue := [], a_cleanup_queue := []\<rparr>)"
proof -
  have "filter (\<lambda>q. fst q \<notin> fst ` set qs) qs = []" for qs :: "(uuid \<times> datetime) list" by (auto simp: filter_empty_conv)
  then show ?thesis
    by (simp add: drain_queues_def drain_blob_deletion_queue_def drain_blob_cleanup_queue_def transact_def
        drain_deletions [OF assms] drain_cleanups [OF assms] wipe_wipe queued_def Un_commute)
qed

lemma queue_deletions:
  shows "a_blobs (fold (queue_deletion now) ids s) = a_blobs s" "a_records (fold (queue_deletion now) ids s) = a_records s"
    "a_links (fold (queue_deletion now) ids s) = a_links s" "a_cleanup_queue (fold (queue_deletion now) ids s) = a_cleanup_queue s"
    "a_repairs (fold (queue_deletion now) ids s) = a_repairs s"
    "fst ` set (a_deletion_queue (fold (queue_deletion now) ids s)) = set ids \<union> fst ` set (a_deletion_queue s)"
proof -
  show "fst ` set (a_deletion_queue (fold (queue_deletion now) ids s)) = set ids \<union> fst ` set (a_deletion_queue s)"
    by (induction ids arbitrary: s) (auto simp: queue_deletion_def deletion_queued_def)
qed (induction ids arbitrary: s; simp add: queue_deletion_def)+

lemma wiped_size: "stored_size [] (s\<lparr>a_blobs := map (wipe (set ids)) (a_blobs s)\<rparr>) = stored_size ids s"
proof -
  have "sum_list (map b_byte_size (filter (\<lambda>b. b_data b \<noteq> None \<and> b_id b \<notin> set []) (map (wipe (set ids)) bs))) =
      sum_list (map b_byte_size (filter (\<lambda>b. b_data b \<noteq> None \<and> b_id b \<notin> set ids) bs))" for bs
    by (induction bs) auto
  then show ?thesis by (simp add: stored_size_def stored_blobs_def)
qed

lemma wiped_find: "find_blob i (s\<lparr>a_blobs := map (wipe ids) (a_blobs s)\<rparr>) = map_option (wipe ids) (find_blob i s)"
proof -
  have "find (\<lambda>b. b_id b = i) (map (wipe ids) bs) = map_option (wipe ids) (find (\<lambda>b. b_id b = i) bs)" for bs
    by (induction bs) auto
  then show ?thesis by (simp add: find_blob_def)
qed

lemma blob_ok_wipe: "blob_ok K b \<Longrightarrow> blob_ok K (wipe ids b)"
  by (auto simp: blob_ok_def wipe_def)

lemma wiped_ok:
  assumes "assets_ok K s" "a_blobs s' = map (wipe ids) (a_blobs s)" "a_records s' = a_records s"
  shows "assets_ok K s'"
proof -
  have "find_blob i s' = find_blob i (s\<lparr>a_blobs := map (wipe ids) (a_blobs s)\<rparr>)" for i by (simp add: find_blob_def assms(2))
  then have "find_blob i s' = map_option (wipe ids) (find_blob i s)" for i by (simp add: wiped_find)
  then show ?thesis using assms by (auto simp: assets_ok_def blob_ok_wipe comp_def)
qed

text \<open>A commit always succeeds: the evictions it was given and those still queued are carried out.\<close>

lemma commit_eq:
  assumes "blob_libs_ok K"
  shows "commit_assets K now m s =
     (Inr (), s\<lparr>a_blobs := map (wipe (set (deferred_evictions m) \<union> queued s)) (a_blobs s),
                a_deletion_queue := [], a_cleanup_queue := []\<rparr>)"
proof -
  let ?s = "fold (queue_deletion now) (deferred_evictions m) s"
  have eq: "?s\<lparr>a_blobs := bs, a_deletion_queue := [], a_cleanup_queue := []\<rparr> =
      s\<lparr>a_blobs := bs, a_deletion_queue := [], a_cleanup_queue := []\<rparr>" for bs
    using queue_deletions [of now "deferred_evictions m" s] by (cases ?s; cases s) auto
  have "queued ?s = set (deferred_evictions m) \<union> queued s"
    using queue_deletions(4,6) [of now "deferred_evictions m" s] by (auto simp: queued_def)
  then show ?thesis
    by (simp only: commit_assets_def drain_queues_eq [OF assms] eq queue_deletions(1))
qed

lemma commit_ok:
  assumes "assets_ok K s"
  shows "fst (commit_assets K now m s) = Inr ()" "assets_ok K (snd (commit_assets K now m s))"
    "stored_size [] (snd (commit_assets K now m s)) \<le> stored_size (deferred_evictions m) s"
    "queued (snd (commit_assets K now m s)) = {}"
proof -
  have K: "blob_libs_ok K" using assms by (simp add: assets_ok_def)
  show "fst (commit_assets K now m s) = Inr ()" "queued (snd (commit_assets K now m s)) = {}"
    by (simp_all add: commit_eq [OF K] queued_def)
  show "assets_ok K (snd (commit_assets K now m s))" by (rule wiped_ok [OF assms, of _ "set (deferred_evictions m) \<union> queued s"]) (simp_all add: commit_eq [OF K])
  obtain qs where qs: "queued s = set qs" using finite_list [of "queued s"] by (auto simp: queued_def)
  have "stored_size [] (snd (commit_assets K now m s)) =
      stored_size [] (s\<lparr>a_blobs := map (wipe (set (deferred_evictions m @ qs))) (a_blobs s)\<rparr>)"
    by (simp add: commit_eq [OF K] qs stored_size_def stored_blobs_def)
  also have "\<dots> = stored_size (deferred_evictions m @ qs) s" by (rule wiped_size)
  also have "\<dots> \<le> stored_size (deferred_evictions m) s" by (rule stored_size_mono [OF assms]) simp
  finally show "stored_size [] (snd (commit_assets K now m s)) \<le> stored_size (deferred_evictions m) s" .
qed



section \<open>A unit of work\<close>

text \<open>The calls of a unit of work that write assets, with any result; a failed call is rolled back on its own.\<close>

inductive asset_call ::
    "libs \<Rightarrow> blob_libs \<Rightarrow> asset_cache_policy \<Rightarrow> asset_db \<times> mutation_state \<Rightarrow> asset_db \<times> mutation_state \<Rightarrow> bool"
  for L K policy where
  call_store: "\<lbrakk>\<And>prep. preparation = Some prep \<Longrightarrow> prepared_for K W inputs prep s; fresh_ids W (length inputs) s;
      store_for_article L K policy W preparation source_id review_id inputs s m = (r, s', m')\<rbrakk> \<Longrightarrow>
    asset_call L K policy (s, m) (s', m')"
| call_replace: "\<lbrakk>\<And>prep. preparation = Some prep \<Longrightarrow> prepared_for K W inputs prep s; fresh_ids W (length inputs) s;
      replace_for_article L K policy W preparation source_id review_id inputs s m = (r, s', m')\<rbrakk> \<Longrightarrow>
    asset_call L K policy (s, m) (s', m')"
| call_clear: "clear_for_article source_id review_id s = (r, s') \<Longrightarrow> asset_call L K policy (s, m) (s', m)"

definition asset_calls ::
    "libs \<Rightarrow> blob_libs \<Rightarrow> asset_cache_policy \<Rightarrow> asset_db \<times> mutation_state \<Rightarrow> asset_db \<times> mutation_state \<Rightarrow> bool" where
  "asset_calls L K policy = (asset_call L K policy)\<^sup>*\<^sup>*"

lemma no_step: "assets_ok K s \<Longrightarrow> mut_ok m s \<Longrightarrow> stored_step K policy ids s m [] [] [] s m"
  by (rule links_only_step) simp_all

lemma store_Inr:
  assumes ok: "assets_ok K s" "mut_ok m s" and prep: "\<And>prep. preparation = Some prep \<Longrightarrow> prepared_for K W inputs prep s"
    and fresh: "fresh_ids W (length inputs) s"
    and res: "store_for_article L K policy W preparation source_id review_id inputs s m = (Inr stored, s', m')"
  shows "\<exists>bs rs extra. stored_step K policy (we_blob_id W ` {0..<length inputs}) s m bs rs extra s' m'"
proof (cases "inputs = []")
  case True
  with res have "s' = s" "m' = m" by (auto simp: store_for_article_def split: sum.splits)
  with no_step [OF ok] show ?thesis by blast
next
  case False
  with res have "store_inputs L K policy W preparation source_id review_id inputs s m = (Inr stored, s', m')"
    by (auto simp: store_for_article_def in_savepoint_def Let_def split: sum.splits prod.splits)
  from store_inputs_Inr [OF ok prep fresh this] show ?thesis by blast
qed

lemma asset_call_step:
  assumes "asset_call L K policy (s, m) (s', m')" "assets_ok K s" "mut_ok m s"
  shows "\<exists>ids bs rs extra. stored_step K policy ids s m bs rs extra s' m'"
  using assms(1)
proof cases
  case (call_store preparation W inputs source_id review_id r)
  show ?thesis
  proof (cases r)
    case (Inl e)
    with store_failed [OF _ call_store(2)] call_store(3) assms(2) have "s' = s" "m' = m" by (auto simp: assets_ok_def)
    with no_step [OF assms(2,3)] show ?thesis by blast
  next
    case (Inr stored)
    with store_Inr [OF assms(2,3) call_store(1,2)] call_store(3) show ?thesis by blast
  qed
next
  case (call_replace preparation W inputs source_id review_id r)
  show ?thesis
  proof (cases r)
    case (Inl e)
    with replace_failed [OF _ call_replace(2)] call_replace(3) assms(2) have "s' = s" "m' = m" by (auto simp: assets_ok_def)
    with no_step [OF assms(2,3)] show ?thesis by blast
  next
    case (Inr stored)
    with replace_Inr [OF assms(2,3) call_replace(1,2)] call_replace(3) show ?thesis by blast
  qed
next
  case (call_clear source_id review_id r)
  then have "s' = s \<or> s' = clear_links source_id review_id s"
    by (auto simp: clear_for_article_def split: sum.splits)
  then have "s' = s\<lparr>a_links := a_links s'\<rparr>" using clear_links_frame by auto
  with links_only_step [OF _ assms(2,3)] call_clear(1) show ?thesis by blast
qed

lemma asset_calls_ok:
  assumes "asset_calls L K policy (s, m) (s', m')" "assets_ok K s" "mut_ok m s"
  shows "assets_ok K s' \<and> mut_ok m' s' \<and> (fits policy s m \<longrightarrow> fits policy s' m')"
proof -
  have "assets_ok K (fst y) \<and> mut_ok (snd y) (fst y) \<and> (fits policy s m \<longrightarrow> fits policy (fst y) (snd y))"
    if "(asset_call L K policy)\<^sup>*\<^sup>* (s, m) y" for y
    using that
  proof (induction rule: rtranclp_induct)
    case base
    with assms show ?case by simp
  next
    case (step y z)
    obtain s1 m1 s2 m2 where yz: "y = (s1, m1)" "z = (s2, m2)" by fastforce
    with step.IH step.hyps(2) asset_call_step obtain ids bs rs extra where st: "stored_step K policy ids s1 m1 bs rs extra s2 m2"
      by fastforce
    with stored_step_ok [OF st] fits_step [OF st] step.IH show ?case by (auto simp: yz)
  qed
  from this [of "(s', m')"] assms(1) show ?thesis by (simp add: asset_calls_def)
qed

lemma pending_none [simp]: "pending_size [] d s = 0"
  by (simp add: pending_size_def)

lemma mut_ok_default [simp]: "mut_ok mutation_default s"
  by (simp add: mut_ok_def mutation_default_def)

text \<open>
  (C36) The cache stays within its limit. When the stored bytes are within a configured limit at the start of a
  unit of work, then after any calls of it that store, replace or clear assets, successful or not, the
  commit carries out its evictions and the stored bytes are within the limit again, with nothing left
  in the queues and the tables well formed.
\<close>

theorem cache_stays_within_limit:
  assumes "assets_ok K s" "stored_size [] s \<le> int (unat (max_cache_size_bytes policy))"
    "bounded (max_cache_size_bytes policy)" "asset_calls L K policy (s, mutation_default) (s', m')"
  shows "\<exists>s''. commit_assets K now m' s' = (Inr (), s'') \<and> assets_ok K s'' \<and>
     stored_size [] s'' \<le> int (unat (max_cache_size_bytes policy)) \<and>
     a_deletion_queue s'' = [] \<and> a_cleanup_queue s'' = []"
proof -
  have "fits policy s mutation_default" using assms(2) by (simp add: fits_def mutation_default_def)
  with asset_calls_ok [OF assms(4,1)] have ok: "assets_ok K s'" "fits policy s' m'" by simp_all
  note c = commit_ok [OF ok(1), of now m']
  have "stored_size [] (snd (commit_assets K now m' s')) \<le> int (unat (max_cache_size_bytes policy))"
    using c(3) ok(2) assms(3) by (simp add: fits_def)
  with c show ?thesis by (intro exI [of _ "snd (commit_assets K now m' s')"]) (auto simp: queued_def intro: prod_eqI)
qed



section \<open>Reading back\<close>

text \<open>The URL type reports no port that is the default of its scheme.\<close>

definition no_default_port :: "libs \<Rightarrow> bool" where
  "no_default_port L \<longleftrightarrow> (\<forall>v u. url_parse L v = Some u \<longrightarrow> u_scheme u = lit ''http'' \<longrightarrow> u_port u \<noteq> Some 80)"

lemma normalize_parsed:
  assumes "libs_ok L" "no_default_port L" "url_parse L v = Some u" "normalize_url L u = Inr u'"
  shows "u' = u" "parse_asset_url L (url_text L u) = Inr u"
proof -
  have same: "url_parse L (url_text L u) = Some u" using assms(1,3) by (auto simp: libs_ok_def)
  have "\<not> (u_scheme u = lit ''https'' \<and> u_port u = Some 443)" "\<not> (u_scheme u = lit ''http'' \<and> u_port u = Some 80)"
    using assms(1-3) by (auto simp: libs_ok_def no_default_port_def)
  then have "normalize_url L u = Inr u" using assms(4) by (auto simp: normalize_url_def split: if_splits)
  with assms(4) same show "u' = u" "parse_asset_url L (url_text L u) = Inr u"
    by (simp_all add: parse_asset_url_def result_simps)
qed

lemma record_found:
  assumes "assets_ok K s" "has_record s i url blob_id"
  obtains r where "find (\<lambda>r. rc_id r = i) (a_records s) = Some r" "rc_source_url r = url" "rc_blob_id r = Some blob_id" "rc_id r = i"
proof -
  from assms(2) obtain r where r: "r \<in> set (a_records s)" "rc_id r = i" "rc_source_url r = url" "rc_blob_id r = Some blob_id"
    by (auto simp: has_record_def record_core_def)
  have "find (\<lambda>x. rc_id x = i) (a_records s) = Some r"
    using assms(1) r(1,2) find_keyed [of rc_id "a_records s" r] by (simp add: assets_ok_def)
  with that r show ?thesis by blast
qed

lemma read_available:
  assumes ok: "assets_ok K s" and L: "libs_ok L" "no_default_port L"
    and url: "url_parse L v = Some u" "normalize_url L u = Inr u'"
    and row: "has_record s i (url_text L u') blob_id" and link: "linked i s" and bytes: "has_bytes s blob_id body"
    and live: "\<not> deletion_queued blob_id s"
  shows "\<exists>mt s'. read_and_touch L K now i s = (Inr (Some (AssetAvailable mt (sha256_hex K body) body)), s')"
proof -
  have K: "blob_libs_ok K" using ok by (simp add: assets_ok_def)
  note norm = normalize_parsed [OF L url]
  from record_found [OF ok row] obtain r where r: "find (\<lambda>r. rc_id r = i) (a_records s) = Some r"
    "rc_source_url r = url_text L u" "rc_blob_id r = Some blob_id" unfolding norm(1) by metis
  have found: "find (\<lambda>r. rc_id r = i \<and> linked i s) (a_records s) = Some r" using r(1) link by simp
  from bytes obtain b where b: "find_blob blob_id s = Some b" "b_data b = Some body" by (auto simp: has_bytes_def)
  then have "blob_ok K b" using find_blob_ok [OF ok] by blast
  with b(2) have "b_checksum b = sha256_hex K body" by (simp add: blob_ok_def)
  with read_eq [OF K b(1) \<open>blob_ok K b\<close>] b(2)
  have "read_in_transaction K (for_blob_id K blob_id) s =
      Inr (Some \<lparr>blob_bytes = body, blob_media_type = b_media_type b, blob_checksum = sha256_hex K body\<rparr>)" by simp
  then show ?thesis
    unfolding read_and_touch_def transact_def using found r(2,3) norm(2) live by (simp add: result_simps)
qed

text \<open>
  (C35) What was fetched reads back. When the assets of an article are replaced by a prepared batch and
  the unit of work commits, every input whose blob was not chosen for eviction meanwhile is then
  available under the id that was returned, with the fetched bytes and their checksum.
\<close>

theorem stored_assets_read_back:
  assumes ok: "assets_ok K s" "mut_ok m s" and L: "libs_ok L" "no_default_port L"
    and urls: "\<forall>x \<in> set inputs. \<exists>v. url_parse L v = Some (ai_source_url x)"
    and prep: "prepared_for K W inputs prep s" and fresh: "fresh_ids W (length inputs) s"
    and occurrences: "distinct (map ai_occurrence inputs)"
    and res: "replace_for_article L K policy W (Some prep) source_id review_id inputs s m = (Inr stored, s', m')"
    and commit: "commit_assets K now m' s' = (Inr (), s'')"
  shows "list_all2 (\<lambda>x a.
       sa_blob_id a \<notin> set (deferred_evictions m') \<union> fst ` set (a_deletion_queue s @ a_cleanup_queue s) \<longrightarrow>
       (\<exists>mt t. read_and_touch L K later (sa_id a) s'' =
          (Inr (Some (AssetAvailable mt (sha256_hex K (ai_bytes x)) (ai_bytes x))), t))) inputs stored"
proof -
  have K: "blob_libs_ok K" using ok by (simp add: assets_ok_def)
  from replace_Inr [OF ok _ fresh res] prep occurrences
  have r: "\<exists>bs rs extra. stored_step K policy (we_blob_id W ` {0..<length inputs}) s m bs rs extra s' m'"
    "list_all2 (asset_stored L s') inputs stored" "list_all2 (asset_attached source_id review_id s') inputs stored" by auto
  then obtain bs rs extra where step: "stored_step K policy (we_blob_id W ` {0..<length inputs}) s m bs rs extra s' m'" by blast
  then have ok': "assets_ok K s'" and q: "queued s' = fst ` set (a_deletion_queue s @ a_cleanup_queue s)"
    by (auto simp: stored_step_def grows_def queued_def)
  from commit_ok(2) [OF ok', of now m'] commit have ok'': "assets_ok K s''" by simp
  have s'': "s'' = s'\<lparr>a_blobs := map (wipe (set (deferred_evictions m') \<union> queued s')) (a_blobs s'),
      a_deletion_queue := [], a_cleanup_queue := []\<rparr>" using commit by (simp add: commit_eq [OF K])
  have find: "find_blob i s'' = map_option (wipe (set (deferred_evictions m') \<union> queued s')) (find_blob i s')" for i
    using wiped_find [of i _ s'] by (simp add: find_blob_def s'')
  have "\<exists>mt t. read_and_touch L K later (sa_id a) s'' = (Inr (Some (AssetAvailable mt (sha256_hex K (ai_bytes x)) (ai_bytes x))), t)"
    if x: "x \<in> set inputs" and a: "asset_stored L s' x a" "asset_attached source_id review_id s' x a"
      and live: "sa_blob_id a \<notin> set (deferred_evictions m') \<union> queued s'" for x a
  proof -
    obtain v where v: "url_parse L v = Some (ai_source_url x)" using urls x by blast
    have "has_bytes s'' (sa_blob_id a) (ai_bytes x)"
    proof -
      obtain b where b: "find_blob (sa_blob_id a) s' = Some b" "b_data b = Some (ai_bytes x)"
        using a(1) by (auto simp: asset_stored_def has_bytes_def)
      moreover from this have "b_id b = sa_blob_id a" using find_blob_ok [OF ok'] by blast
      ultimately show ?thesis using live by (simp add: has_bytes_def find)
    qed
    moreover have "linked (sa_id a) s''" using a(2) by (auto simp: asset_attached_def linked_def s'')
    moreover have "has_record s'' (sa_id a) (url_text L (sa_source_url a)) (sa_blob_id a)"
      using a(1) by (simp add: asset_stored_def has_record_def s'')
    ultimately show ?thesis
      using read_available [OF ok'' L v, of "sa_source_url a"] a(1) by (simp add: asset_stored_def deletion_queued_def s'')
  qed
  with r(2,3) show ?thesis unfolding list_all2_conv_all_nth q by (metis nth_mem)
qed

text \<open>
  (C37) A failed batch leaves no trace. When storing or replacing the assets of an article fails, at
  whatever input and for whatever reason, the tables and the record of binary changes are what they
  were before the call.
\<close>

theorem failed_batch_leaves_no_trace:
  assumes "blob_libs_ok K" "fresh_ids W (length inputs) s"
    and "store_for_article L K policy W preparation source_id review_id inputs s m = (Inl e, s', m') \<or>
         replace_for_article L K policy W preparation source_id review_id inputs s m = (Inl e, s', m')"
  shows "s' = s \<and> m' = m"
  using assms(3) store_failed [OF assms(1,2)] replace_failed [OF assms(1,2)] by blast



section \<open>Maintenance\<close>

definition stale :: "asset_cache_policy \<Rightarrow> datetime \<Rightarrow> blob_row \<Rightarrow> bool" where
  "stale policy now b \<longleftrightarrow>
     max_age policy \<noteq> 0 \<and> b_last_accessed_at b < now - int (max_age policy div 1000000000) * 1000000000"

definition kept_record :: "pg \<Rightarrow> asset_db \<Rightarrow> asset_record_row \<Rightarrow> bool" where
  "kept_record p s r \<longleftrightarrow> linked (rc_id r) s \<or> repair_active p (rc_id r) s"

text \<open>There is no limit, or what is stored respects it.\<close>

definition within_limit :: "asset_cache_policy \<Rightarrow> asset_db \<Rightarrow> bool" where
  "within_limit policy s \<longleftrightarrow>
     (bounded (max_cache_size_bytes policy) \<longrightarrow> stored_size [] s \<le> int (unat (max_cache_size_bytes policy)))"

lemma evict_stale_Inr:
  assumes ok: "assets_ok K s" and "set rows \<subseteq> set (a_blobs s)" "evict_stale K rows s = Inr ids"
  shows "set ids = b_id ` {b \<in> set rows. b_data b \<noteq> None}"
  using assms(2,3)
proof (induction rows arbitrary: ids)
  case (Cons b rows)
  have "find_blob (b_id b) s = Some b" "blob_ok K b" "blob_libs_ok K"
    using ok find_blob_mem [OF ok, of b] Cons.prems(1) by (simp_all add: assets_ok_def)
  with Cons.prems(2) stat_eq [of K "b_id b" s b] obtain rest where rest: "evict_stale K rows s = Inr rest"
    "ids = (if b_data b \<noteq> None then b_id b # rest else rest)" by (auto simp: result_simps)
  have "{b' \<in> set (b # rows). b_data b' \<noteq> None} =
      (if b_data b \<noteq> None then {b} else {}) \<union> {b' \<in> set rows. b_data b' \<noteq> None}" by auto
  with Cons.IH [OF _ rest(1)] Cons.prems(1) rest(2) show ?case by auto
qed simp

lemma stale_ids_Inr:
  assumes "assets_ok K s" "stale_ids K policy now s = Inr ids"
  shows "set ids = b_id ` {b \<in> set (a_blobs s). stale policy now b \<and> b_data b \<noteq> None}"
proof (cases "max_age policy = 0")
  case True
  with assms(2) show ?thesis by (simp add: stale_ids_def stale_def)
next
  case False
  let ?rows = "sort_key (\<lambda>b. (b_last_accessed_at b, b_id b)) (filter (\<lambda>b. b_last_accessed_at b < now - int (max_age policy div 1000000000) * 1000000000) (a_blobs s))"
  have "evict_stale K ?rows s = Inr ids"
    using assms(2) False by (auto simp: stale_ids_def evict_stale_blobs_def i64_try_from_def result_simps split: if_splits)
  from evict_stale_Inr [OF assms(1) _ this] show ?thesis using False by (auto simp: stale_def)
qed

lemma delete_orphans_eq:
  assumes "blob_libs_ok K"
  shows "delete_orphans K ids s = (Inr (), s\<lparr>a_blobs := map (wipe (set ids)) (a_blobs s)\<rparr>)"
proof (induction ids arbitrary: s)
  case (Cons i ids)
  then show ?case using assms by (simp add: update_wipe wipe_wipe)
qed simp

lemma wiped_filter:
  "filter (\<lambda>b. b_id b \<notin> A) (map (wipe A) bs) = filter (\<lambda>b. b_id b \<notin> A) bs"
  by (induction bs) (auto simp: wipe_def)

lemma linked_cong: "a_links s' = a_links s \<Longrightarrow> linked i s' = linked i s"
  by (simp add: linked_def)

lemma repair_active_cong: "a_repairs s' = a_repairs s \<Longrightarrow> repair_active p i s' = repair_active p i s"
  by (simp add: repair_active_def)

lemma core_filter:
  assumes "map record_core rs' = map record_core rs" "\<And>r r'. record_core r = record_core r' \<Longrightarrow> P r = P r'"
  shows "map record_core (filter P rs') = map record_core (filter P rs)"
  using assms(1)
proof (induction rs arbitrary: rs')
  case (Cons r rs)
  then obtain x xs where "rs' = x # xs" "record_core x = record_core r" "map record_core xs = map record_core rs" by auto
  with Cons.IH [of xs] assms(2) [of x r] show ?case by simp
qed simp

lemma enforce_unneeded:
  assumes res: "enforce_cache_limit now c deferred s = (Inr (n, deferred'), s')"
    and c: "cl_additional_bytes c = 0" "cl_pending_bytes c = 0" "cl_pending_blob_ids c = []"
    and small: "bounded (cl_max_bytes c) \<Longrightarrow> stored_size deferred s \<le> int (unat (cl_max_bytes c))"
  shows "deferred' = deferred"
proof (cases "bounded (cl_max_bytes c)")
  case False
  with res show ?thesis by (auto simp: enforce_cache_limit_def Let_def bounded_def i64_try_from_def split: if_splits)
next
  case True
  then have lt: "unat (cl_max_bytes c) < 2 ^ 63" "cl_max_bytes c \<noteq> 0" by (simp_all add: bounded_def)
  then have max: "i64_try_from (unat (cl_max_bytes c)) = Some (int (unat (cl_max_bytes c)))"
    by (simp only: i64_try_from_def if_True)
  have none: "\<not> exceeds (int (unat (cl_max_bytes c))) 0 used"
    if "used = stored_size deferred s" "used < 2 ^ 63" "- (2 ^ 63) \<le> used" for used
    using small [OF True] that by (simp add: exceeds_def i64_checked_add_def)
  show ?thesis
    using res max lt(2) c none
    by (auto simp: enforce_cache_limit_def Let_def i64_try_from_def [of 0] i64_checked_add_def cached_byte_size_def
        stored_size_def evict_until.simps [of now] split: if_splits)
qed

text \<open>The transaction of a maintenance run, up to the draining of the queues.\<close>

lemma maintenance_tx_Inr:
  assumes ok: "assets_ok K s" and res: "maintenance_tx K policy p now s = (Inr result, s')"
  obtains gone where
    "map record_core (a_records s') = map record_core (filter (kept_record p s) (a_records s))"
    "a_blobs s' = filter (\<lambda>b. \<exists>r \<in> set (a_records s'). rc_blob_id r = Some (b_id b)) (a_blobs s)"
    "a_links s' = a_links s" "queued s' = queued s \<union> set gone"
    "{b_id b | b. b \<in> set (a_blobs s) \<and> stale policy now b \<and> b_data b \<noteq> None} \<subseteq> set gone"
    "bounded (max_cache_size_bytes policy) \<Longrightarrow> stored_size gone s \<le> int (unat (max_cache_size_bytes policy))"
    "within_limit policy s \<Longrightarrow> set gone \<subseteq> {b_id b | b. b \<in> set (a_blobs s) \<and> stale policy now b}"
proof -
  note result = that
  have K: "blob_libs_ok K" using ok by (simp add: assets_ok_def)
  let ?c = "\<lparr>cl_max_bytes = max_cache_size_bytes policy, cl_additional_bytes = 0, cl_protected = [],
              cl_pending_bytes = 0, cl_pending_blob_ids = []\<rparr>"
  obtain ids n gone s1 where st: "stale_ids K policy now s = Inr ids"
    and enf: "enforce_cache_limit now ?c ids (mark_stale now ids s) = (Inr (n, gone), s1)"
    using res by (auto simp: maintenance_tx_def Let_def split: sum.splits prod.splits)
  let ?s2 = "fold (queue_deletion now) gone s1"
  let ?s3 = "drop_records (orphan_record p ?s2) ?s2"
  let ?orphans = "map b_id (filter (orphan_blob ?s3) (a_blobs ?s3))"
  have s': "s' = ?s3\<lparr>a_blobs := filter (\<lambda>b. b_id b \<notin> set ?orphans) (a_blobs ?s3)\<rparr>"
    using res by (simp add: maintenance_tx_def Let_def st enf delete_orphans_eq [OF K] wiped_filter)
  have ok0: "assets_ok K (mark_stale now ids s)" by (rule same_but_status_ok [OF mark_stale_same ok])
  note e = enforce_result [OF ok0 _ enf, simplified]
  have "same_but_status s s1" using e(1) mark_stale_same same_but_status_trans by blast
  note f = same_but_status_fields [OF this] and q = queue_deletions [of now gone s1]
  have kept: "orphan_record p ?s2 r \<longleftrightarrow> \<not> kept_record p s r" for r
    by (simp add: orphan_record_def kept_record_def linked_cong [of ?s2 s] repair_active_cong [of ?s2 s] q f)
  have recs: "a_records s' = filter (kept_record p s) (a_records s1)"
    by (simp add: s' drop_records_def Let_def kept q)
  then have core: "map record_core (a_records s') = map record_core (filter (kept_record p s) (a_records s))"
    using core_filter [OF f(6), of "kept_record p s"] by (simp add: kept_record_def record_core_def)
  have blobs3: "a_blobs ?s3 = a_blobs s" by (simp add: drop_records_def Let_def q f)
  have recs3: "a_records ?s3 = a_records s'" by (simp add: s')
  have "b_id b \<in> set ?orphans \<longleftrightarrow> \<not> (\<exists>r \<in> set (a_records s'). rc_blob_id r = Some (b_id b))" if "b \<in> set (a_blobs s)" for b
    using that by (auto simp: blobs3 orphan_blob_def recs3)
  then have blobs: "a_blobs s' = filter (\<lambda>b. \<exists>r \<in> set (a_records s'). rc_blob_id r = Some (b_id b)) (a_blobs s)"
    unfolding s' by (auto simp: blobs3 s' intro!: filter_cong)
  have rest: "a_links s' = a_links s" "queued s' = queued s \<union> set gone"
    using q f by (auto simp: s' drop_records_def Let_def queued_def)
  obtain extra where gone: "gone = ids @ extra" using e(2) by auto
  have stale: "{b_id b | b. b \<in> set (a_blobs s) \<and> stale policy now b \<and> b_data b \<noteq> None} \<subseteq> set gone"
    using stale_ids_Inr [OF ok st] by (auto simp: gone)
  have size: "stored_size gone s \<le> int (unat (max_cache_size_bytes policy))" if "bounded (max_cache_size_bytes policy)"
    using e(3) that stored_size_cong [of s1 s gone] f(1) by simp
  have only: "set gone \<subseteq> {b_id b | b. b \<in> set (a_blobs s) \<and> stale policy now b}" if "within_limit policy s"
  proof -
    have "stored_size ids (mark_stale now ids s) = stored_size ids s"
      using same_but_status_fields(1) [OF mark_stale_same, of now ids s] by (rule stored_size_cong)
    also have "\<dots> \<le> stored_size [] s" by (rule stored_size_mono [OF ok]) simp
    finally have "gone = ids" using enforce_unneeded [OF enf] that by (auto simp: within_limit_def)
    with stale_ids_Inr [OF ok st] show ?thesis by auto
  qed
  from result [OF core blobs rest stale size only] show ?thesis .
qed

lemma maintenance_final:
  assumes ok: "assets_ok K s"
    and core: "map record_core (a_records s1) = map record_core (filter (kept_record p s) (a_records s))"
    and blobs: "a_blobs s1 = filter (\<lambda>b. \<exists>r \<in> set (a_records s1). rc_blob_id r = Some (b_id b)) (a_blobs s)"
    and links: "a_links s1 = a_links s" and q: "queued s1 = queued s \<union> set gone"
    and stale: "{b_id b | b. b \<in> set (a_blobs s) \<and> stale policy now b \<and> b_data b \<noteq> None} \<subseteq> set gone"
    and size: "bounded (max_cache_size_bytes policy) \<Longrightarrow> stored_size gone s \<le> int (unat (max_cache_size_bytes policy))"
    and only: "within_limit policy s \<Longrightarrow> set gone \<subseteq> {b_id b | b. b \<in> set (a_blobs s) \<and> stale policy now b}"
    and s': "s' = s1\<lparr>a_blobs := map (wipe (queued s1)) (a_blobs s1), a_deletion_queue := [], a_cleanup_queue := []\<rparr>"
  shows "assets_ok K s' \<and> a_links s' = a_links s \<and> a_deletion_queue s' = [] \<and> a_cleanup_queue s' = [] \<and>
     map record_core (a_records s') = map record_core (filter (kept_record p s) (a_records s)) \<and>
     map b_id (a_blobs s') = map b_id (filter (\<lambda>b. \<exists>r \<in> set (a_records s'). rc_blob_id r = Some (b_id b)) (a_blobs s)) \<and>
     (\<forall>b' \<in> set (a_blobs s'). \<exists>b \<in> set (a_blobs s). b' = b \<and> \<not> (stale policy now b \<and> b_data b \<noteq> None) \<or> b' = b\<lparr>b_data := None\<rparr>) \<and>
     (within_limit policy s \<longrightarrow> (\<forall>b \<in> set (a_blobs s). b_id b \<notin> queued s \<and> \<not> stale policy now b \<and>
        (\<exists>r \<in> set (a_records s'). rc_blob_id r = Some (b_id b)) \<longrightarrow> b \<in> set (a_blobs s'))) \<and>
     within_limit policy s'"
proof -
  have "find_blob i s1 \<noteq> None" if r': "r' \<in> set (a_records s1)" "rc_blob_id r' = Some i" for r' i
  proof -
    obtain r where "r \<in> set (a_records s)" "record_core r = record_core r'" using record_core_blobs [OF core r'(1)] by auto
    with ok r'(2) have "find_blob i s \<noteq> None" by (auto simp: assets_ok_def record_core_def)
    then obtain b where "b \<in> set (a_blobs s)" "b_id b = i" unfolding find_blob_None by auto
    then show ?thesis using r' unfolding find_blob_None blobs by auto
  qed
  moreover have "distinct (map rc_id (a_records s1))"
    using ok record_core_ids [OF core] by (simp add: assets_ok_def distinct_map_filter)
  moreover have "distinct (map b_id (a_blobs s1))" "\<forall>b \<in> set (a_blobs s1). blob_ok K b" "blob_libs_ok K"
    using ok unfolding blobs by (auto simp: assets_ok_def distinct_map_filter)
  ultimately have ok1: "assets_ok K s1" unfolding assets_ok_def by blast
  have ok': "assets_ok K s'" by (rule wiped_ok [OF ok1, of _ "queued s1"]) (simp_all add: s')
  obtain qs where qs: "queued s = set qs" using finite_list [of "queued s"] by (auto simp: queued_def)
  have "stored_size [] s' = stored_size (gone @ qs) s1"
    using wiped_size [of "gone @ qs" s1] by (simp add: s' q qs stored_size_def stored_blobs_def Un_commute)
  also have "\<dots> \<le> stored_size (gone @ qs) s"
    unfolding stored_size_def stored_blobs_def blobs filter_filter
    using ok by (intro sum_filter_le) (auto simp: assets_ok_def blob_ok_def)
  also have "\<dots> \<le> stored_size gone s" by (rule stored_size_mono [OF ok]) simp
  finally have small: "stored_size [] s' \<le> stored_size gone s" .
  have "\<exists>b \<in> set (a_blobs s). b' = b \<and> \<not> (stale policy now b \<and> b_data b \<noteq> None) \<or> b' = b\<lparr>b_data := None\<rparr>"
    if "b' \<in> set (a_blobs s')" for b'
  proof -
    from that obtain b where b: "b \<in> set (a_blobs s)" "b' = wipe (queued s1) b" unfolding s' blobs by auto
    show ?thesis
    proof (cases "b_id b \<in> queued s1")
      case False
      then have "\<not> (stale policy now b \<and> b_data b \<noteq> None)" using stale b(1) q by blast
      with b False show ?thesis by (auto simp: wipe_def)
    qed (use b in \<open>auto simp: wipe_def\<close>)
  qed
  moreover have "map b_id (a_blobs s') = map b_id (filter (\<lambda>b. \<exists>r \<in> set (a_records s'). rc_blob_id r = Some (b_id b)) (a_blobs s))"
    by (simp add: s' comp_def) (simp add: blobs)
  moreover have "b \<in> set (a_blobs s')" if lim: "within_limit policy s" and b: "b \<in> set (a_blobs s)" "b_id b \<notin> queued s"
    "\<not> stale policy now b" "\<exists>r \<in> set (a_records s'). rc_blob_id r = Some (b_id b)" for b
  proof -
    have "b_id b \<notin> set gone"
    proof
      assume "b_id b \<in> set gone"
      then obtain x where "x \<in> set (a_blobs s)" "b_id x = b_id b" "stale policy now x" using only [OF lim] by auto
      with ok b(1,3) distinct_key_inj [of b_id "a_blobs s" x b] show False by (simp add: assets_ok_def)
    qed
    with b q have "wipe (queued s1) b = b" by (simp add: wipe_def)
    moreover have "b \<in> set (a_blobs s1)" unfolding blobs using b(1,4) by (simp add: s')
    ultimately show ?thesis unfolding s' by force
  qed
  moreover have "within_limit policy s'" unfolding within_limit_def by (intro impI order_trans [OF small] size)
  moreover have "a_records s' = a_records s1" "a_links s' = a_links s1" "a_deletion_queue s' = []" "a_cleanup_queue s' = []"
    by (simp_all add: s')
  ultimately show ?thesis using ok' core links by simp
qed

text \<open>
  (C38) What maintenance does. A failed run changes nothing. A run that succeeds keeps every link; keeps
  exactly the records that an article links to or an active repair refers to; keeps exactly the blobs
  that a kept record refers to, and their bytes or nothing; leaves no bytes in a blob that was not
  accessed within the maximum age; leaves no more bytes than the limit; and leaves both queues empty.
  When the limit was respected before, every kept blob that is neither stale nor queued is untouched.
\<close>

theorem maintenance_contract:
  assumes ok: "assets_ok K s" and res: "maintenance K policy p now s = (r, s')"
  shows "case r of Inl e \<Rightarrow> s' = s
     | Inr result \<Rightarrow>
         assets_ok K s' \<and> a_links s' = a_links s \<and> a_deletion_queue s' = [] \<and> a_cleanup_queue s' = [] \<and>
         map record_core (a_records s') =
           map record_core (filter (\<lambda>r. linked (rc_id r) s \<or> repair_active p (rc_id r) s) (a_records s)) \<and>
         map b_id (a_blobs s') =
           map b_id (filter (\<lambda>b. \<exists>r \<in> set (a_records s'). rc_blob_id r = Some (b_id b)) (a_blobs s)) \<and>
         (\<forall>b' \<in> set (a_blobs s'). \<exists>b \<in> set (a_blobs s). b' = b \<and> \<not> (stale policy now b \<and> b_data b \<noteq> None) \<or> b' = b\<lparr>b_data := None\<rparr>) \<and>
         (within_limit policy s \<longrightarrow> (\<forall>b \<in> set (a_blobs s). b_id b \<notin> queued s \<and> \<not> stale policy now b \<and>
            (\<exists>r \<in> set (a_records s'). rc_blob_id r = Some (b_id b)) \<longrightarrow> b \<in> set (a_blobs s'))) \<and>
         within_limit policy s'"
proof -
  have K: "blob_libs_ok K" using ok by (simp add: assets_ok_def)
  show ?thesis
  proof (cases "maintenance_tx K policy p now s")
    case (Pair r1 s1)
    show ?thesis
    proof (cases r1)
      case (Inl e)
      with res Pair show ?thesis by (auto simp: maintenance_def transact_def)
    next
      case (Inr result)
      have run: "maintenance_tx K policy p now s = (Inr result, s1)" using Pair Inr by simp
      obtain gone where
        tx: "map record_core (a_records s1) = map record_core (filter (kept_record p s) (a_records s))"
          "a_blobs s1 = filter (\<lambda>b. \<exists>r \<in> set (a_records s1). rc_blob_id r = Some (b_id b)) (a_blobs s)"
          "a_links s1 = a_links s" "queued s1 = queued s \<union> set gone"
          "{b_id b | b. b \<in> set (a_blobs s) \<and> stale policy now b \<and> b_data b \<noteq> None} \<subseteq> set gone"
          "bounded (max_cache_size_bytes policy) \<Longrightarrow> stored_size gone s \<le> int (unat (max_cache_size_bytes policy))"
          "within_limit policy s \<Longrightarrow> set gone \<subseteq> {b_id b | b. b \<in> set (a_blobs s) \<and> stale policy now b}"
        by (rule maintenance_tx_Inr [OF ok run]) blast
      have s': "r = Inr result" "s' = s1\<lparr>a_blobs := map (wipe (queued s1)) (a_blobs s1), a_deletion_queue := [], a_cleanup_queue := []\<rparr>"
        using res Pair Inr by (simp_all add: maintenance_def transact_def drain_queues_eq [OF K])
      note fin = maintenance_final [OF ok tx s'(2)]
      show ?thesis using fin by (simp add: s'(1) kept_record_def [abs_def])
    qed
  qed
qed


section \<open>A concrete cache\<close>

definition example_cache_policy :: "u64 \<Rightarrow> asset_cache_policy" where
  "example_cache_policy limit =
     \<lparr>max_cache_size_bytes = limit, max_age = 0, max_asset_size_bytes = 100, max_count_per_article = 10,
      max_fetch_bytes_per_article = 1000, max_fetch_time_per_article = 1000000000, fetch_timeout = 1000000000,
      max_redirects = 3\<rparr>"

definition example_asset_input :: "string \<Rightarrow> bytes \<Rightarrow> u32 \<Rightarrow> uuid \<Rightarrow> asset_input" where
  "example_asset_input name body occurrence uid =
     asset_input_new example_blob_libs uid (example_url (lit name)) (example_url (lit name)) (lit ''image/png'') body
       occurrence (example_url (lit ''article'')) None None"

definition example_write_env :: write_env where
  "example_write_env =
     \<lparr>we_txn_now = 100, we_now = (\<lambda>n. 100 + int n), we_blob_id = (\<lambda>n. 50 + word_of_nat n),
      we_record_id = (\<lambda>n. 60 + word_of_nat n)\<rparr>"

definition example_sum :: rstring where
  "example_sum = replicate 64 48"

text \<open>One blob of two bytes and its record.\<close>

definition example_cache :: asset_db where
  "example_cache =
     \<lparr>a_blobs = [\<lparr>b_id = 1, b_checksum = example_sum, b_byte_size = 2, b_media_type = lit ''image/png'',
                 b_data = Some [7, 7], b_created_at = 0, b_last_fetched_at = 0, b_last_accessed_at = 0\<rparr>],
      a_records = [\<lparr>rc_id = 21, rc_source_url = url_text example_libs (example_url (lit ''b'')), rc_version = 1,
                   rc_final_url = url_text example_libs (example_url (lit ''b'')), rc_blob_id = Some 1,
                   rc_fetch_status = ''available'', rc_last_error = None, rc_updated_at = 0\<rparr>],
      a_links = [], a_deletion_queue = [], a_cleanup_queue = [], a_repairs = []\<rparr>"

text \<open>A new body of one byte, and the body that is stored already.\<close>

definition example_inputs :: "asset_input list" where
  "example_inputs = [example_asset_input ''a'' [9] 0 101, example_asset_input ''b'' [7, 7] 1 102]"

definition example_preparation :: asset_batch_preparation where
  "example_preparation =
     \<lparr>matching_blobs = [101 \<mapsto> None, 102 \<mapsto> Some 1], matching_inputs = Map.empty\<rparr>"

definition example_replace :: "u64 \<Rightarrow> stored_asset list write_result" where
  "example_replace limit =
     replace_for_article example_libs example_blob_libs (example_cache_policy limit) example_write_env (Some example_preparation)
       7 (lit ''r1'') example_inputs example_cache mutation_default"

lemma example_digest [simp]: "sha256_hex example_blob_libs body = example_sum"
  by (simp add: example_blob_libs_def example_sum_def)

lemma example_cache_ok: "assets_ok example_blob_libs example_cache"
  using example_blob_libs_ok
  by (auto simp: assets_ok_def example_cache_def blob_ok_def find_blob_def lit_def trim_eq_Nil_iff is_whitespace_def)

lemma no_default_port_example: "no_default_port example_libs"
  by (auto simp: no_default_port_def example_libs_def example_url_def lit_def)

lemma example_normalize_url [simp]: "normalize_url L (example_url v) = Inr (example_url v)"
  by (simp add: normalize_url_def example_url_def)

lemma example_asset_text [simp]: "url_text example_libs (example_url v) = example_prefix @ v"
  by (simp add: example_libs_def example_url_def)

lemma example_signature: "\<not> has_provider_signature (example_url v)"
  by (simp add: has_provider_signature_def example_url_def Let_def lit_def)

lemma example_valid:
  "validate_asset_input example_libs example_blob_libs (example_cache_policy limit) (example_asset_input name [b] n uid) = Inr ()"
  "validate_asset_input example_libs example_blob_libs (example_cache_policy limit) (example_asset_input name [b, c] n uid) = Inr ()"
  by (simp_all add: validate_asset_input_def example_asset_input_def asset_input_new_def checksum_matches_bytes_def
      supported_media_types_def example_cache_policy_def invalid_header_def example_signature)

lemmas example_input_simps = example_asset_input_def asset_input_new_def input_byte_size_def i64_try_from_def

lemma example_read: "read_in_transaction example_blob_libs (for_blob_id example_blob_libs 1) example_cache =
    Inr (Some \<lparr>blob_bytes = [7, 7], blob_media_type = lit ''image/png'', blob_checksum = example_sum\<rparr>)"
proof -
  have "find_blob 1 example_cache = Some (hd (a_blobs example_cache))" by (simp add: find_blob_def example_cache_def)
  moreover have "blob_ok example_blob_libs (hd (a_blobs example_cache))"
    using example_cache_ok by (simp add: assets_ok_def example_cache_def)
  ultimately show ?thesis using read_eq [OF example_blob_libs_ok] by (simp add: example_cache_def)
qed

lemma example_candidates:
  "candidate_ids example_sum 2 example_cache = [1]" "candidate_ids example_sum 1 example_cache = []"
  by (simp_all add: candidate_ids_def example_cache_def deletion_queued_def)

lemma example_prepare: "prepare_asset_batch example_blob_libs example_inputs example_cache = Inr example_preparation"
proof -
  have keys: "input_keys example_inputs = Inr [(example_sum, 1), (example_sum, 2)]"
    by (simp add: example_inputs_def example_input_simps)
  have order: "sort (remdups [(example_sum, 1), (example_sum, 2 :: int)]) = [(example_sum, 1), (example_sum, 2)]" by simp
  have earlier: "earlier_inputs [] example_inputs = Map.empty"
    by (simp add: example_inputs_def example_input_simps same_body_def ok_value_def)
  show ?thesis
    by (simp add: prepare_asset_batch_def keys order earlier example_candidates example_read)
     (simp add: example_inputs_def example_input_simps example_preparation_def matched_def)
qed


definition example_limit :: "u64 \<Rightarrow> cache_limit" where
  "example_limit limit =
     \<lparr>cl_max_bytes = limit, cl_additional_bytes = 1, cl_protected = [], cl_pending_bytes = 0, cl_pending_blob_ids = []\<rparr>"

lemma example_cached: "stored_blobs [] example_cache = a_blobs example_cache" "cached_byte_size [] example_cache = Inr 2"
  "oldest_stored [] example_cache = Some (1, 2)"
  by (simp_all add: stored_blobs_def cached_byte_size_def oldest_stored_def example_cache_def)

lemma example_enforce:
  "enforce_cache_limit now (example_limit 100) [] example_cache = (Inr (0, []), example_cache)"
  "enforce_cache_limit now (example_limit 2) [] example_cache =
     (Inr (1, [1]), mark_evicted now 1 ''asset bytes evicted by size policy'' example_cache)"
  by (simp_all add: enforce_cache_limit_def example_limit_def i64_try_from_def example_cached i64_checked_add_def exceeds_def
      evict_until.simps [of now "100::int"] evict_until.simps [of now "2::int"] i64_saturating_sub_def)


definition example_first :: "asset_db \<Rightarrow> asset_db" where
  "example_first s =
     s\<lparr>a_blobs := a_blobs s @ [new_blob_row 100 50 \<lparr>blob_bytes = [9], blob_media_type = lit ''image/png'', blob_checksum = example_sum\<rparr> 1],
       a_records := a_records s @ [\<lparr>rc_id = 60, rc_source_url = example_prefix @ lit ''a'', rc_version = 1,
                     rc_final_url = example_prefix @ lit ''a'', rc_blob_id = Some 50, rc_fetch_status = ''available'',
                     rc_last_error = None, rc_updated_at = 100\<rparr>]\<rparr>"

lemma example_record_other: "current_record (example_prefix @ lit ''a'') example_cache = None"
  by (simp add: current_record_def example_cache_def lit_def)

lemma example_blob_new: "asset_blob_new example_blob_libs body (lit ''image/png'') example_sum =
    Inr \<lparr>blob_bytes = body, blob_media_type = lit ''image/png'', blob_checksum = example_sum\<rparr>"
  by (simp add: asset_blob_new_def lit_def trim_eq_Nil_iff is_whitespace_def)

lemma find_blob_appended: "b_id x = i \<Longrightarrow> find_blob i (s\<lparr>a_blobs := a_blobs s @ [x]\<rparr>) \<noteq> None"
  by (simp add: find_blob_None)

lemma example_store_first:
  assumes enf: "enforce_cache_limit 100 (example_limit limit) [] example_cache = (Inr (k, d), s)"
    and s: "same_but_status example_cache s"
  shows "store_one example_libs example_blob_libs (example_cache_policy limit) example_write_env 0 example_preparation [] Map.empty
      (example_asset_input ''a'' [9] 0 101) example_cache mutation_default =
     (Inr (stored_asset_of 60 (example_url (lit ''a'')) 50 example_sum (lit ''image/png'') 1), example_first s,
      \<lparr>newly_written = [50], deferred_evictions = d, pending_bytes = 1\<rparr>)"
proof -
  note f = same_but_status_fields [OF s]
  have none: "find_blob 50 s = None" by (simp add: find_blob_def f example_cache_def)
  have recs: "\<not> (\<exists>r \<in> set (a_records s). rc_id r = 60 \<or> rc_source_url r = example_prefix @ lit ''a'' \<and> rc_version r = 1)"
    using f(6) by (auto simp: example_cache_def record_core_def lit_def)
  show ?thesis
    using enf none recs
    by (simp add: store_one_def example_input_simps example_record_other store_version_def matching_blob_def matching_input_def
      example_preparation_def choose_blob_def insert_blob_def example_cache_policy_def example_limit_def mutation_default_def
      example_write_env_def example_blob_new put_in_transaction_def example_blob_libs_ok example_first_def
      add_record_def i64_checked_add_def checked_add_def find_blob_appended Let_def new_blob_row_def)
qed


definition example_link :: "u32 \<Rightarrow> uuid \<Rightarrow> article_asset_row" where
  "example_link n i = \<lparr>aa_source_id = 7, aa_review_id = lit ''r1'', aa_record_id = i, aa_occurrence = uint n, aa_role = ''body'',
     aa_referer_url = example_prefix @ lit ''article'', aa_origin = None, aa_user_agent = None\<rparr>"

lemma example_attach:
  assumes "unat n < 2 ^ 31" "\<forall>l \<in> set (a_links s). aa_occurrence l \<noteq> uint n"
  shows "attach example_libs 7 (lit ''r1'') (example_asset_input name body n uid) i s = (Inr (), s\<lparr>a_links := a_links s @ [example_link n i]\<rparr>)"
proof -
  have "trim (lit ''r1'') = lit ''r1''" by (simp add: lit_def trim_def trim_start_def is_whitespace_def)
  with assms show ?thesis by (auto simp: attach_def example_input_simps example_link_def Let_def list_ex_iff)
qed

lemma example_record_kept:
  assumes "same_but_status example_cache s"
  obtains r where "a_records s = [r]" "rc_id r = 21" "rc_source_url r = example_prefix @ lit ''b''" "rc_version r = 1" "rc_blob_id r = Some 1"
  using same_but_status_fields(6) [OF assms] by (auto simp: example_cache_def record_core_def)

lemma example_store_second:
  assumes s: "same_but_status example_cache s" and r: "a_records s = [r]" "rc_id r = 21" "rc_source_url r = example_prefix @ lit ''b''"
      "rc_version r = 1" "rc_blob_id r = Some 1"
    and t: "t = (example_first s)\<lparr>a_links := ls\<rparr>"
  shows "store_one example_libs example_blob_libs (example_cache_policy limit) example_write_env 1 example_preparation protected batch
      (example_asset_input ''b'' [7, 7] 1 102) t m =
     (Inr (stored_asset_of 21 (example_url (lit ''b'')) 1 example_sum (lit ''image/png'') 2),
      reuse_record example_write_env 1 r (example_prefix @ lit ''b'') 1 t, m)"
proof -
  note f = same_but_status_fields [OF s]
  have find: "find_blob 1 t = Some (hd (a_blobs example_cache))"
    by (simp add: t example_first_def f find_blob_def example_cache_def)
  have ok: "blob_ok example_blob_libs (hd (a_blobs example_cache))"
    using example_cache_ok by (simp add: assets_ok_def example_cache_def)
  have current: "current_record (example_prefix @ lit ''b'') t = Some r"
    by (simp add: t example_first_def current_record_def r lit_def)
  have blob: "b_checksum (hd (a_blobs example_cache)) = example_sum" "b_byte_size (hd (a_blobs example_cache)) = 2"
    "b_media_type (hd (a_blobs example_cache)) = lit ''image/png''" "b_data (hd (a_blobs example_cache)) = Some [7, 7]"
    by (simp_all add: example_cache_def)
  have live: "\<not> deletion_queued 1 t" by (simp add: t example_first_def deletion_queued_def f example_cache_def)
  show ?thesis
    by (simp add: store_one_def example_input_simps current matching_blob_def example_preparation_def unchanged_blob_def
        r find blob reusable_blob_def live stat_eq [OF example_blob_libs_ok find ok])
qed


definition example_stored_assets :: "stored_asset list" where
  "example_stored_assets =
     [stored_asset_of 60 (example_url (lit ''a'')) 50 example_sum (lit ''image/png'') 1,
      stored_asset_of 21 (example_url (lit ''b'')) 1 example_sum (lit ''image/png'') 2]"

definition example_result :: "asset_record_row \<Rightarrow> asset_db \<Rightarrow> asset_db" where
  "example_result r s =
     (reuse_record example_write_env 1 r (example_prefix @ lit ''b'') 1 ((example_first s)\<lparr>a_links := [example_link 0 60]\<rparr>))
       \<lparr>a_links := [example_link 0 60, example_link 1 21]\<rparr>"

lemma example_replace_eq:
  assumes enf: "enforce_cache_limit 100 (example_limit limit) [] example_cache = (Inr (k, d), s)"
    and s: "same_but_status example_cache s" and r: "a_records s = [r]" "rc_id r = 21" "rc_source_url r = example_prefix @ lit ''b''"
      "rc_version r = 1" "rc_blob_id r = Some 1"
  shows "example_replace limit =
     (Inr example_stored_assets, example_result r s, \<lparr>newly_written = [50], deferred_evictions = d, pending_bytes = 1\<rparr>)"
proof -
  note f = same_but_status_fields [OF s]
  have clear: "clear_links 7 (lit ''r1'') example_cache = example_cache" by (simp add: clear_links_def example_cache_def)
  have identity: "validate_article_identity 7 (lit ''r1'') = Inr ()" "validate_input_count (example_cache_policy limit) example_inputs = Inr ()"
    by (simp_all add: validate_article_identity_def is_nil_def validate_input_count_def example_inputs_def example_cache_policy_def
        lit_def trim_eq_Nil_iff is_whitespace_def)
  have links: "a_links (example_first s) = []" by (simp add: example_first_def f example_cache_def)
  note second = example_store_second [OF s r refl, unfolded One_nat_def]
  have keep: "a_links (reuse_record W n x u i t) = a_links t" for W n x u i t by (simp add: reuse_record_def)
  have ids: "sa_id (stored_asset_of i u b c mt n) = i" "sa_blob_id (stored_asset_of i u b c mt n) = b" for i u b c mt n
    by (simp_all add: stored_asset_of_def)
  have occurrence: "aa_occurrence (example_link n i) = uint n" for n i by (simp add: example_link_def)
  show ?thesis
    by (simp add: example_replace_def replace_for_article_def in_savepoint_def store_inputs_def identity clear)
      (simp add: example_inputs_def example_valid example_store_first [OF enf s] example_attach links second ids keep
        example_result_def example_stored_assets_def occurrence)
qed


lemma example_result_facts:
  assumes s: "same_but_status example_cache s" and r: "a_records s = [r]" "rc_id r = 21" "rc_source_url r = example_prefix @ lit ''b''"
      "rc_version r = 1" "rc_blob_id r = Some 1"
  shows "find_blob 1 (example_result r s) =
      Some ((hd (a_blobs example_cache))\<lparr>b_last_fetched_at := 101, b_last_accessed_at := 101\<rparr>)"
    "b_id (hd (a_blobs example_cache)) = 1"
    "\<exists>x. rc_id x = 60 \<and> a_records (example_result r s) = [r\<lparr>rc_final_url := example_prefix @ lit ''b'',
        rc_fetch_status := ''available'', rc_last_error := None, rc_updated_at := 101\<rparr>, x]"
    "a_links (example_result r s) = [example_link 0 60, example_link 1 21]"
    "a_deletion_queue (example_result r s) = []" "a_cleanup_queue (example_result r s) = []"
  using same_but_status_fields [OF s]
  by (simp_all add: example_result_def reuse_record_def example_first_def r update_rows_def touch_blob_def update_blob_def
      find_blob_def example_write_env_def example_cache_def)

lemma example_url_parse: "\<not> is_whitespace (of_char c) \<Longrightarrow> url_parse example_libs (example_prefix @ lit [c]) = Some (example_url (lit [c]))"
  by (simp add: example_libs_def example_prefix_def lit_def trim_def trim_start_def is_whitespace_def)

lemma example_parse:
  "\<not> is_whitespace (of_char c) \<Longrightarrow> parse_asset_url example_libs (example_prefix @ lit [c]) = Inr (example_url (lit [c]))"
  by (simp add: parse_asset_url_def example_url_parse)

text \<open>
  (C39) A blob chosen for eviction is handed out again. With a limit of two bytes and a blob of two bytes stored, a batch of
  a new one-byte body and the stored body succeeds: making room for the first chooses the stored blob for
  eviction, the second input is given that blob and its record marked available, and the commit deletes
  the bytes, so that the asset that was just stored is missing.
\<close>

theorem evicted_blob_handed_out:
  "\<exists>s' m' s''. example_replace 2 = (Inr example_stored_assets, s', m') \<and>
     commit_assets example_blob_libs now m' s' = (Inr (), s'') \<and> sa_id (example_stored_assets ! 1) = 21 \<and>
     map rc_fetch_status (filter (\<lambda>r. rc_id r = 21) (a_records s'')) = [''available''] \<and>
     fst (read_and_touch example_libs example_blob_libs later 21 s'') = Inr (Some (AssetMissing (example_url (lit ''b''))))"
proof -
  let ?s = "mark_evicted 100 1 ''asset bytes evicted by size policy'' example_cache"
  from example_record_kept [OF mark_evicted_same] obtain r where r: "a_records ?s = [r]" "rc_id r = 21"
    "rc_source_url r = example_prefix @ lit ''b''" "rc_version r = 1" "rc_blob_id r = Some 1" by metis
  note rep = example_replace_eq [OF example_enforce(2) mark_evicted_same r]
  have parse: "parse_asset_url example_libs (example_prefix @ lit ''b'') = Inr (example_url (lit ''b''))"
    by (rule example_parse) (simp add: is_whitespace_def)
  note f = example_result_facts [OF mark_evicted_same r]
  from f(3) obtain x where x: "rc_id x = 60" "a_records (example_result r ?s) = [r\<lparr>rc_final_url := example_prefix @ lit ''b'',
        rc_fetch_status := ''available'', rc_last_error := None, rc_updated_at := 101\<rparr>, x]" by blast
  have find: "find_blob 1 (x\<lparr>a_blobs := map (wipe ids) (a_blobs x), a_deletion_queue := [], a_cleanup_queue := []\<rparr>) =
      map_option (wipe ids) (find_blob 1 x)" for x ids using wiped_find [of 1 ids x] by (simp add: find_blob_def)
  show ?thesis
    unfolding rep commit_eq [OF example_blob_libs_ok]
    by (simp add: example_stored_assets_def stored_asset_of_def x r)
      (simp add: read_and_touch_def transact_def f(1,2,4-6) x r linked_def example_link_def parse read_in_transaction_def
        example_blob_libs_ok find deletion_queued_def wipe_def)
qed


lemma example_kept: "blobs_kept s s"
  by (simp add: blobs_kept_def)

lemma example_fresh: "fresh_ids example_write_env 2 example_cache"
proof -
  have "[0..<2] = [0, 1 :: nat]" "{0..<2} = {0, 1 :: nat}" by (auto simp: upt_rec)
  then show ?thesis by (simp add: fresh_ids_def example_write_env_def example_cache_def)
qed

lemma example_prepared: "prepared_for example_blob_libs example_write_env example_inputs example_preparation example_cache"
proof -
  have "length example_inputs = 2" "distinct (map ai_preparation_id example_inputs)"
    by (simp_all add: example_inputs_def example_input_simps)
  then show ?thesis
    using example_cache_ok example_prepare example_kept example_fresh unfolding prepared_for_def fresh_ids_def by auto
qed

lemma evicted_example: "\<exists>s m. example_replace 2 = (Inr example_stored_assets, s, m) \<and> deferred_evictions m = [1]"
proof -
  let ?s = "mark_evicted 100 1 ''asset bytes evicted by size policy'' example_cache"
  from example_record_kept [OF mark_evicted_same] obtain r where r: "a_records ?s = [r]" "rc_id r = 21"
    "rc_source_url r = example_prefix @ lit ''b''" "rc_version r = 1" "rc_blob_id r = Some 1" by metis
  show ?thesis unfolding example_replace_eq [OF example_enforce(2) mark_evicted_same r] by simp
qed

lemma example_replaced: "\<exists>s m. example_replace 100 = (Inr example_stored_assets, s, m) \<and> deferred_evictions m = []"
proof -
  from example_record_kept [OF same_but_status_refl] obtain r where r: "a_records example_cache = [r]" "rc_id r = 21"
    "rc_source_url r = example_prefix @ lit ''b''" "rc_version r = 1" "rc_blob_id r = Some 1" by metis
  show ?thesis unfolding example_replace_eq [OF example_enforce(1) same_but_status_refl r] by simp
qed

theorem stored_assets_read_back_witness:
  "\<exists>s m s'. example_replace 100 = (Inr example_stored_assets, s, m) \<and>
     commit_assets example_blob_libs 200 m s = (Inr (), s') \<and>
     (\<exists>mt t. read_and_touch example_libs example_blob_libs 300 60 s' = (Inr (Some (AssetAvailable mt example_sum [9])), t)) \<and>
     (\<exists>mt t. read_and_touch example_libs example_blob_libs 300 21 s' = (Inr (Some (AssetAvailable mt example_sum [7, 7])), t))"
proof -
  obtain s m where rep: "example_replace 100 = (Inr example_stored_assets, s, m)" and d: "deferred_evictions m = []"
    using example_replaced by blast
  obtain s' where com: "commit_assets example_blob_libs 200 m s = (Inr (), s')" by (simp add: commit_eq [OF example_blob_libs_ok])
  have urls: "\<forall>x \<in> set example_inputs. \<exists>v. url_parse example_libs v = Some (ai_source_url x)"
    using example_url_parse [of "CHR ''a''"] example_url_parse [of "CHR ''b''"]
    by (auto simp: example_inputs_def example_input_simps is_whitespace_def)
  have len: "length example_inputs = 2" "distinct (map ai_occurrence example_inputs)" by (simp_all add: example_inputs_def example_input_simps)
  have "fresh_ids example_write_env (length example_inputs) example_cache" using example_fresh len by simp
  from stored_assets_read_back [OF example_cache_ok mut_ok_default example_libs_ok no_default_port_example urls example_prepared this len(2)
      rep [unfolded example_replace_def] com, of 300] d
  have "list_all2 (\<lambda>x a. \<exists>mt t. read_and_touch example_libs example_blob_libs 300 (sa_id a) s' =
      (Inr (Some (AssetAvailable mt example_sum (ai_bytes x))), t)) example_inputs example_stored_assets"
    by (simp add: example_cache_def)
  with rep com show ?thesis
    by (simp add: example_inputs_def example_stored_assets_def example_input_simps stored_asset_of_def)
qed


theorem failed_batch_leaves_no_trace_witness:
  "replace_for_article example_libs example_blob_libs (example_cache_policy 100) example_write_env None 7 (lit ''r1'') example_inputs
     example_cache mutation_default = (Inl PreparationRequired, example_cache, mutation_default)"
proof -
  have len: "length example_inputs = 2" by (simp add: example_inputs_def)
  have "fst (replace_for_article example_libs example_blob_libs (example_cache_policy 100) example_write_env None 7 (lit ''r1'') example_inputs
     example_cache mutation_default) = Inl PreparationRequired"
    by (simp add: replace_for_article_def validate_article_identity_def is_nil_def validate_input_count_def len example_cache_policy_def
        in_savepoint_def store_inputs_def Let_def lit_def trim_eq_Nil_iff is_whitespace_def)
  then obtain s m where res: "replace_for_article example_libs example_blob_libs (example_cache_policy 100) example_write_env None 7 (lit ''r1'')
     example_inputs example_cache mutation_default = (Inl PreparationRequired, s, m)" by (metis prod.collapse)
  have fresh: "fresh_ids example_write_env (length example_inputs) example_cache" using example_fresh len by simp
  have "s = example_cache \<and> m = mutation_default"
    by (rule failed_batch_leaves_no_trace [OF example_blob_libs_ok fresh]) (rule disjI2 [OF res])
  with res show ?thesis by simp
qed

theorem cache_stays_within_limit_witness:
  "\<exists>s m s'. example_replace 2 = (Inr example_stored_assets, s, m) \<and> deferred_evictions m = [1] \<and>
     commit_assets example_blob_libs 200 m s = (Inr (), s') \<and> stored_size [] s' \<le> 2"
proof -
  from evicted_example obtain s m where rep: "example_replace 2 = (Inr example_stored_assets, s, m)" and d: "deferred_evictions m = [1]" by blast
  have len: "length example_inputs = 2" by (simp add: example_inputs_def)
  have "fresh_ids example_write_env (length example_inputs) example_cache" using example_fresh len by simp
  then have "asset_call example_libs example_blob_libs (example_cache_policy 2) (example_cache, mutation_default) (s, m)"
    using example_prepared rep unfolding example_replace_def by (intro call_replace [of "Some example_preparation"]) auto
  then have calls: "asset_calls example_libs example_blob_libs (example_cache_policy 2) (example_cache, mutation_default) (s, m)"
    by (simp add: asset_calls_def)
  have "stored_size [] example_cache \<le> int (unat (max_cache_size_bytes (example_cache_policy 2)))"
    by (simp add: stored_size_def example_cached example_cache_policy_def) (simp add: example_cache_def)
  moreover have "bounded (max_cache_size_bytes (example_cache_policy 2))" by (simp add: bounded_def example_cache_policy_def)
  ultimately obtain s' where "commit_assets example_blob_libs 200 m s = (Inr (), s')"
    "stored_size [] s' \<le> int (unat (max_cache_size_bytes (example_cache_policy 2)))"
    using cache_stays_within_limit [OF example_cache_ok _ _ calls, of 200] by blast
  with rep d show ?thesis by (auto simp: example_cache_policy_def)
qed

theorem maintenance_contract_witness:
  "\<exists>result s'. maintenance example_blob_libs (example_cache_policy 2) empty_pg 500 example_cache = (Inr result, s') \<and>
     mr_orphan_records result = 1 \<and> a_records s' = [] \<and> a_blobs s' = []"
proof -
  obtain r s' where run: "maintenance example_blob_libs (example_cache_policy 2) empty_pg 500 example_cache = (r, s')" by fastforce
  have mark: "mark_stale 500 [] example_cache = example_cache" by (simp add: mark_stale_def update_rows_def)
  have enforce: "enforce_cache_limit 500 \<lparr>cl_max_bytes = 2, cl_additional_bytes = 0, cl_protected = [], cl_pending_bytes = 0,
      cl_pending_blob_ids = []\<rparr> [] example_cache = (Inr (0, []), example_cache)"
    by (simp add: enforce_cache_limit_def i64_try_from_def example_cached i64_checked_add_def exceeds_def evict_until.simps [of 500])
  have "\<exists>result. r = Inr result \<and> mr_orphan_records result = 1"
    using run
    by (simp add: maintenance_def transact_def maintenance_tx_def stale_ids_def example_cache_policy_def mark enforce
        delete_orphans_eq [OF example_blob_libs_ok] drain_queues_eq [OF example_blob_libs_ok] drop_records_def Let_def)
      (auto simp: orphan_record_def linked_def repair_active_def example_cache_def)
  then obtain result where "r = Inr result" "mr_orphan_records result = 1" by blast
  note c = maintenance_contract [OF example_cache_ok run, unfolded this(1) sum.case]
  have none: "filter (\<lambda>r. linked (rc_id r) example_cache \<or> repair_active empty_pg (rc_id r) example_cache) (a_records example_cache) = []"
    by (simp add: example_cache_def linked_def repair_active_def)
  from c none have recs: "a_records s' = []" by simp
  with c have "map b_id (a_blobs s') = []" by simp
  with recs run \<open>r = Inr result\<close> \<open>mr_orphan_records result = 1\<close> show ?thesis by simp
qed

end
