(* ===== verification/Asset_Refresh.thy ===== *)
theory Asset_Refresh
  imports Article Asset_Cache
begin

text \<open>
  Whole-article refresh after the expiry of an asset
  (\<^verbatim>\<open>src/persistence/repositories/asset_repository.rs\<close>): the articles that show an expired asset are
  snapshotted as the entries of a generation, and one job at a time, a chain, refreshes them; a lineage
  per article bounds its attempts. The theory has the transitions of this machine; every one runs in a
  transaction that holds the advisory locks of asset capacity and repair admission.

  The statements of one method read the server's clock at one instant. What other sessions commit to
  articles and links while a method waits for a row lock is the view of that statement: the tables
  that the transitions only read are an argument.
\<close>

section \<open>What the transitions read\<close>

record refresh_view =
  rv_articles :: "article_row list"
  rv_assets :: asset_db

definition article_exists :: "refresh_view \<Rightarrow> uuid \<Rightarrow> rstring \<Rightarrow> bool" where
  "article_exists V i v \<longleftrightarrow> (\<exists>r \<in> set (rv_articles V). article_key r = (i, v))"

definition live_link :: "refresh_view \<Rightarrow> uuid \<Rightarrow> uuid \<Rightarrow> rstring \<Rightarrow> bool" where
  "live_link V a i v \<longleftrightarrow>
     article_exists V i v \<and>
     (\<exists>l \<in> set (a_links (rv_assets V)). aa_record_id l = a \<and> aa_source_id l = i \<and> aa_review_id l = v)"

definition blob_is_present :: "blob_libs \<Rightarrow> refresh_view \<Rightarrow> uuid \<Rightarrow> asset_repository_error + bool" where
  "blob_is_present K V a =
     (case find (\<lambda>r. rc_id r = a) (a_records (rv_assets V)) of None \<Rightarrow> Inr False | Some r \<Rightarrow>
      case rc_blob_id r of None \<Rightarrow> Inr False | Some b \<Rightarrow>
      if deletion_queued b (rv_assets V) then Inr False
      else bindE (map_err AssetBlobStore (stat_in_transaction K (for_blob_id K b) (rv_assets V)))
             (\<lambda>md. Inr (case md of None \<Rightarrow> False | Some m \<Rightarrow> md_present m)))"

text \<open>The message of the error, without the text of an id or of a domain error.\<close>

definition job_transaction_error :: "job_repository_error \<Rightarrow> asset_repository_error" where
  "job_transaction_error e =
     AssetStorage (case e of DomainErr _ \<Rightarrow> ''job error'' | NotFound _ \<Rightarrow> ''job was not found''
                   | Storage s \<Rightarrow> ''job repository storage error: '' @ s)"

type_synonym 'a refresh_result = "(asset_repository_error + 'a) \<times> pg"


section \<open>Entries of a generation\<close>

definition of_generation :: "uuid \<Rightarrow> int \<Rightarrow> generation_entry_row \<Rightarrow> bool" where
  "of_generation a g e \<longleftrightarrow> ge_asset_record_id e = a \<and> ge_generation e = g"

definition entry_pending :: "generation_entry_row \<Rightarrow> bool" where
  "entry_pending e \<longleftrightarrow> ge_state e = ''unseen'' \<or> ge_state e = ''cooling''"

definition entry_done :: "generation_entry_row \<Rightarrow> generation_entry_row" where
  "entry_done e = e\<lparr>ge_state := ''done'', ge_not_before := None\<rparr>"

definition retire :: "(generation_entry_row \<Rightarrow> bool) \<Rightarrow> pg \<Rightarrow> pg" where
  "retire P p = p\<lparr>pg_entries := update_rows P entry_done (pg_entries p)\<rparr>"

definition set_state :: "uuid \<Rightarrow> (refresh_state_row \<Rightarrow> refresh_state_row) \<Rightarrow> pg \<Rightarrow> pg" where
  "set_state a f p = p\<lparr>pg_refresh_states := update_rows (\<lambda>s. ars_asset_record_id s = a) f (pg_refresh_states p)\<rparr>"

definition find_state :: "uuid \<Rightarrow> pg \<Rightarrow> refresh_state_row option" where
  "find_state a p = find (\<lambda>s. ars_asset_record_id s = a) (pg_refresh_states p)"

definition find_lineage :: "uuid \<Rightarrow> rstring \<Rightarrow> pg \<Rightarrow> lineage_row option" where
  "find_lineage i v p = find (\<lambda>l. ln_source_id l = i \<and> ln_review_id l = v) (pg_lineage p)"

definition generation_unfinished :: "uuid \<Rightarrow> int \<Rightarrow> pg \<Rightarrow> bool" where
  "generation_unfinished a g p \<longleftrightarrow> (\<exists>e \<in> set (pg_entries p). of_generation a g e \<and> ge_state e \<noteq> ''done'')"

text \<open>\<^verbatim>\<open>row_number() OVER (ORDER BY source_id, review_id)\<close> over the distinct articles that show the asset.\<close>

definition live_articles :: "(rstring \<Rightarrow> 'k::linorder) \<Rightarrow> refresh_view \<Rightarrow> uuid \<Rightarrow> (uuid \<times> rstring) list" where
  "live_articles collate V a =
     sort_key fst (sort_key (collate \<circ> snd)
       (remdups (map (\<lambda>l. (aa_source_id l, aa_review_id l))
          (filter (\<lambda>l. aa_record_id l = a) (a_links (rv_assets V))))))"

definition snapshot_rows :: "uuid \<Rightarrow> int \<Rightarrow> (uuid \<times> rstring) list \<Rightarrow> generation_entry_row list" where
  "snapshot_rows a g articles =
     map (\<lambda>(n, (i, v)). \<lparr>ge_asset_record_id = a, ge_generation = g, ge_ordinal = int n + 1, ge_source_id = i,
            ge_review_id = v, ge_state = ''unseen'', ge_not_before = None\<rparr>)
       (enumerate 0 articles)"

definition entry_key :: "generation_entry_row \<Rightarrow> uuid \<times> int \<times> int" where
  "entry_key e = (ge_asset_record_id e, ge_generation e, ge_ordinal e)"

definition snapshot_asset_generation ::
    "(rstring \<Rightarrow> 'k::linorder) \<Rightarrow> refresh_view \<Rightarrow> uuid \<Rightarrow> int \<Rightarrow> pg \<Rightarrow> nat refresh_result" where
  "snapshot_asset_generation collate V a g p =
     (let rows = snapshot_rows a g (live_articles collate V a)
      in if \<exists>e \<in> set (pg_entries p). entry_key e \<in> entry_key ` set rows
         then (Inl (AssetStorage ''duplicate key value violates unique constraint''), p)
         else let p' = p\<lparr>pg_entries := pg_entries p @ rows\<rparr>
              in (Inr (length (filter (of_generation a g) (pg_entries p'))), p'))"

definition complete_refresh_generation_if_terminal :: "pg_env \<Rightarrow> uuid \<Rightarrow> int \<Rightarrow> pg \<Rightarrow> pg" where
  "complete_refresh_generation_if_terminal E a g p =
     (if generation_unfinished a g p then p
      else set_state a (\<lambda>s. s\<lparr>ars_completed_generation := max (ars_completed_generation s) g, ars_updated_at := db_now E\<rparr>) p)"

definition lineage_spent :: "refresh_policy \<Rightarrow> uuid \<Rightarrow> rstring \<Rightarrow> pg \<Rightarrow> bool" where
  "lineage_spent policy i v p \<longleftrightarrow>
     (\<exists>l \<in> set (pg_lineage p). ln_source_id l = i \<and> ln_review_id l = v \<and>
        (ln_exhausted l \<or> ln_attempts l \<ge> uint (rp_max_attempts policy)))"

definition mark_exhausted_refresh_entries :: "refresh_policy \<Rightarrow> uuid \<Rightarrow> int \<Rightarrow> pg \<Rightarrow> pg" where
  "mark_exhausted_refresh_entries policy a g p =
     retire (\<lambda>e. of_generation a g e \<and> entry_pending e \<and> lineage_spent policy (ge_source_id e) (ge_review_id e) p) p"


section \<open>Selecting and admitting an entry\<close>

definition asset_refresh_key :: "(uuid \<Rightarrow> rstring) \<Rightarrow> uuid \<Rightarrow> rstring \<Rightarrow> rstring" where
  "asset_refresh_key T i v = lit ''asset-refresh:'' @ T i @ lit '':'' @ v"

definition entry_due :: "pg_env \<Rightarrow> generation_entry_row \<Rightarrow> bool" where
  "entry_due E e \<longleftrightarrow>
     ge_state e = ''unseen'' \<or>
     ge_state e = ''cooling'' \<and> (case ge_not_before e of None \<Rightarrow> False | Some t \<Rightarrow> t \<le> db_now E)"

definition lineage_allows :: "pg_env \<Rightarrow> refresh_policy \<Rightarrow> lineage_row \<Rightarrow> bool" where
  "lineage_allows E policy l \<longleftrightarrow>
     \<not> ln_exhausted l \<and> ln_attempts l < uint (rp_max_attempts policy) \<and>
     (case ln_next_allowed_at l of None \<Rightarrow> True | Some t \<Rightarrow> t \<le> db_now E)"

definition admissible ::
    "(uuid \<Rightarrow> rstring) \<Rightarrow> pg_env \<Rightarrow> refresh_policy \<Rightarrow> uuid \<Rightarrow> int \<Rightarrow> int option \<Rightarrow> pg \<Rightarrow> generation_entry_row \<Rightarrow> bool" where
  "admissible T E policy a g cursor p e \<longleftrightarrow>
     of_generation a g e \<and> (case cursor of None \<Rightarrow> True | Some c \<Rightarrow> ge_ordinal e > c) \<and> entry_due E e \<and>
     (case find_lineage (ge_source_id e) (ge_review_id e) p of
        None \<Rightarrow> 0 < uint (rp_max_attempts policy)
      | Some l \<Rightarrow> lineage_allows E policy l) \<and>
     \<not> (\<exists>j \<in> set (pg_jobs p). active_conflict (asset_refresh_key T (ge_source_id e) (ge_review_id e)) j)"

definition next_entry ::
    "(uuid \<Rightarrow> rstring) \<Rightarrow> pg_env \<Rightarrow> refresh_policy \<Rightarrow> uuid \<Rightarrow> int \<Rightarrow> int option \<Rightarrow> pg \<Rightarrow> generation_entry_row option" where
  "next_entry T E policy a g cursor p =
     (case sort_key ge_ordinal (filter (admissible T E policy a g cursor p) (pg_entries p)) of
        [] \<Rightarrow> None | e # _ \<Rightarrow> Some e)"

definition retire_entry :: "uuid \<Rightarrow> int \<Rightarrow> int \<Rightarrow> pg \<Rightarrow> pg" where
  "retire_entry a g ordinal = retire (\<lambda>e. of_generation a g e \<and> ge_ordinal e = ordinal \<and> entry_pending e)"

text \<open>The entries behind a cursor, and why the loop over them ends.\<close>

definition behind :: "uuid \<Rightarrow> int \<Rightarrow> int option \<Rightarrow> pg \<Rightarrow> nat" where
  "behind a g cursor p =
     length (filter (\<lambda>e. of_generation a g e \<and> (case cursor of None \<Rightarrow> True | Some c \<Rightarrow> ge_ordinal e > c)) (pg_entries p))"

lemma entry_done_keeps [simp]: "ge_asset_record_id (entry_done e) = ge_asset_record_id e" "ge_generation (entry_done e) = ge_generation e"
  "ge_ordinal (entry_done e) = ge_ordinal e" "ge_source_id (entry_done e) = ge_source_id e"
  "ge_review_id (entry_done e) = ge_review_id e" "ge_state (entry_done e) = ''done''" "ge_not_before (entry_done e) = None"
  by (simp_all add: entry_done_def)

lemma next_entry_Some:
  assumes "next_entry T E policy a g cursor p = Some e"
  shows "e \<in> set (pg_entries p)" "admissible T E policy a g cursor p e"
proof -
  from assms obtain es where "sort_key ge_ordinal (filter (admissible T E policy a g cursor p) (pg_entries p)) = e # es"
    by (auto simp: next_entry_def split: list.splits)
  then have "e \<in> set (sort_key ge_ordinal (filter (admissible T E policy a g cursor p) (pg_entries p)))" by simp
  then show "e \<in> set (pg_entries p)" "admissible T E policy a g cursor p e" by simp_all
qed

lemma behind_retire [simp]: "behind a g cursor (retire P p) = behind a g cursor p"
proof -
  have "length (filter Q (update_rows P entry_done es)) = length (filter Q es)" if "\<And>e. Q (entry_done e) = Q e" for Q es
    using that by (induction es) (auto simp: update_rows_def)
  note same = this
  show ?thesis 
    unfolding behind_def retire_def by simp (rule same, simp add: of_generation_def split: option.split)
qed

lemma behind_advances:
  assumes "next_entry T E policy a g cursor p = Some e"
  shows "behind a g (Some (ge_ordinal e)) p < behind a g cursor p"
proof -
  let ?P = "\<lambda>c e. of_generation a g e \<and> (case c of None \<Rightarrow> True | Some c \<Rightarrow> ge_ordinal e > c)"
  note e = next_entry_Some [OF assms]
  have sub: "?P (Some (ge_ordinal e)) x \<Longrightarrow> ?P cursor x" for x
    using e(2) by (auto simp: admissible_def split: option.splits)
  have "length (filter (?P (Some (ge_ordinal e))) xs) \<le> length (filter (?P cursor) xs)" for xs
    using sub by (induction xs) auto
  moreover have "?P cursor e" "\<not> ?P (Some (ge_ordinal e)) e" using e(2) by (auto simp: admissible_def)
  moreover obtain xs ys where "pg_entries p = xs @ e # ys" using e(1) by (meson split_list)
  ultimately show ?thesis unfolding behind_def by (simp add: add_le_less_mono add_mono le_imp_less_Suc)
qed

function select_from ::
    "(nat \<Rightarrow> refresh_view) \<Rightarrow> (uuid \<Rightarrow> rstring) \<Rightarrow> pg_env \<Rightarrow> refresh_policy \<Rightarrow> uuid \<Rightarrow> int \<Rightarrow> nat \<Rightarrow> int option \<Rightarrow> pg \<Rightarrow>
     (int \<times> uuid \<times> rstring) option \<times> pg" where
  "select_from V T E policy a g n cursor p =
     (case next_entry T E policy a g cursor p of
        None \<Rightarrow> (None, p)
      | Some e \<Rightarrow>
          if \<not> live_link (V n) a (ge_source_id e) (ge_review_id e)
          then select_from V T E policy a g (Suc n) (Some (ge_ordinal e)) (retire_entry a g (ge_ordinal e) p)
          else if \<not> (\<exists>x \<in> set (pg_entries p). of_generation a g x \<and> ge_ordinal x = ge_ordinal e \<and> entry_due E x)
          then select_from V T E policy a g (Suc n) (Some (ge_ordinal e)) p
          else (Some (ge_ordinal e, ge_source_id e, ge_review_id e), p))"
  by pat_completeness auto
termination
  by (relation "measure (\<lambda>(V, T, E, policy, a, g, n, cursor, p). behind a g cursor p)")
    (auto simp: retire_entry_def dest: behind_advances)

declare select_from.simps [simp del]

definition select_refresh_entry ::
    "blob_libs \<Rightarrow> (nat \<Rightarrow> refresh_view) \<Rightarrow> (uuid \<Rightarrow> rstring) \<Rightarrow> pg_env \<Rightarrow> refresh_policy \<Rightarrow> uuid \<Rightarrow> int \<Rightarrow> int option \<Rightarrow> pg \<Rightarrow>
     (int \<times> uuid \<times> rstring) option refresh_result" where
  "select_refresh_entry K V T E policy a g after_ordinal p =
     (let p1 = retire (\<lambda>e. of_generation a g e \<and> entry_pending e \<and> \<not> live_link (V 0) a (ge_source_id e) (ge_review_id e)) p in
      case blob_is_present K (V 0) a of Inl e \<Rightarrow> (Inl e, p1) | Inr present \<Rightarrow>
        let p2 = (if present then retire (\<lambda>e. of_generation a g e \<and> entry_pending e) p1 else p1)
        in case select_from V T E policy a g 1 after_ordinal p2 of (entry, p3) \<Rightarrow> (Inr entry, p3))"

text \<open>The article row is locked by the selection, so the foreign key of a new lineage holds.\<close>

definition reserve_refresh_lineage ::
    "pg_env \<Rightarrow> refresh_policy \<Rightarrow> uuid \<Rightarrow> rstring \<Rightarrow> pg \<Rightarrow> bool \<times> pg" where
  "reserve_refresh_lineage E policy i v p =
     (case find_lineage i v p of
        None \<Rightarrow>
          (True, p\<lparr>pg_lineage := pg_lineage p @
                  [\<lparr>ln_source_id = i, ln_review_id = v, ln_attempts = 1, ln_next_allowed_at = None, ln_exhausted = False,
                    ln_last_outcome = None, ln_updated_at = db_now E\<rparr>]\<rparr>)
      | Some l \<Rightarrow>
          if lineage_allows E policy l
          then (True, p\<lparr>pg_lineage := update_rows (\<lambda>l. ln_source_id l = i \<and> ln_review_id l = v)
                  (\<lambda>l. l\<lparr>ln_attempts := ln_attempts l + 1, ln_next_allowed_at := None, ln_last_outcome := None,
                         ln_updated_at := db_now E\<rparr>) (pg_lineage p)\<rparr>)
          else (False, p))"

definition REPAIR_JOB_MAX_ATTEMPTS :: u32 where "REPAIR_JOB_MAX_ATTEMPTS = 2"

definition refresh_job ::
    "(uuid \<Rightarrow> rstring) \<Rightarrow> datetime \<Rightarrow> uuid \<Rightarrow> int \<Rightarrow> uuid \<Rightarrow> int \<Rightarrow> uuid \<Rightarrow> rstring \<Rightarrow> new_job" where
  "refresh_job T now a g chain ordinal i v =
     \<lparr>nj_job_type = AssetRefresh, nj_source_id = None, nj_priority = 0, nj_run_after = now,
      nj_max_attempts = REPAIR_JOB_MAX_ATTEMPTS,
      nj_payload = JObject
        [(lit ''source_id'', JString (T i)), (lit ''review_id'', JString v),
         (lit ''expired_asset_record_id'', JString (T a)), (lit ''chain_id'', JString (T chain)),
         (lit ''generation'', JNumber g), (lit ''ordinal'', JNumber ordinal)],
      nj_dedupe_key = asset_refresh_key T i v, nj_now = now\<rparr>"

text \<open>What a transition draws: the application's clock, a job id and a chain id.\<close>

record refresh_draw =
  rd_now :: datetime
  rd_job :: uuid
  rd_chain :: uuid

definition insert_refresh_job ::
    "(uuid \<Rightarrow> rstring) \<Rightarrow> pg_env \<Rightarrow> refresh_draw \<Rightarrow> uuid \<Rightarrow> int \<Rightarrow> uuid \<Rightarrow> int \<Rightarrow> uuid \<Rightarrow> rstring \<Rightarrow> pg \<Rightarrow>
     uuid option refresh_result" where
  "insert_refresh_job T E D a g chain ordinal i v p =
     (case enqueue_internal E (rd_job D) (refresh_job T (rd_now D) a g chain ordinal i v) True p of
        (Inl e, p1) \<Rightarrow> (Inl (job_transaction_error e), p1)
      | (Inr (AlreadyActive _), p1) \<Rightarrow> (Inr None, p1)
      | (Inr (Inserted j), p1) \<Rightarrow>
          (Inr (Some (j_id j)), p1\<lparr>pg_repair_jobs := pg_repair_jobs p1 @
             [\<lparr>arj_job_id = j_id j, arj_admission_class = ''internal_refresh'', arj_refresh_source_id = Some i,
               arj_refresh_review_id = Some v, arj_expired_asset_record_id = Some a, arj_chain_id = Some chain,
               arj_chain_ordinal = Some ordinal, arj_expiry_refunded = False\<rparr>]\<rparr>))"

text \<open>Deleting a job takes its repair metadata along.\<close>

definition delete_job :: "uuid \<Rightarrow> pg \<Rightarrow> pg" where
  "delete_job i p =
     p\<lparr>pg_jobs := filter (\<lambda>r. r_id r \<noteq> i) (pg_jobs p), pg_repair_jobs := filter (\<lambda>r. arj_job_id r \<noteq> i) (pg_repair_jobs p)\<rparr>"

definition admit_refresh_entry ::
    "(uuid \<Rightarrow> rstring) \<Rightarrow> pg_env \<Rightarrow> refresh_policy \<Rightarrow> refresh_draw \<Rightarrow> uuid \<Rightarrow> int \<Rightarrow> uuid \<Rightarrow>
     int \<times> uuid \<times> rstring \<Rightarrow> bool \<Rightarrow> pg \<Rightarrow> uuid option refresh_result" where
  "admit_refresh_entry T E policy D a g chain entry resume p =
     (case entry of (ordinal, i, v) \<Rightarrow>
      case insert_refresh_job T E D a g chain ordinal i v p of
        (Inl e, p1) \<Rightarrow> (Inl e, p1)
      | (Inr None, p1) \<Rightarrow> (Inr None, p1)
      | (Inr (Some job_id), p1) \<Rightarrow>
      case reserve_refresh_lineage E policy i v p1 of
        (False, p2) \<Rightarrow>
          (Inr None, retire (\<lambda>e. of_generation a g e \<and> ge_ordinal e = ordinal \<and>
             lineage_spent policy (ge_source_id e) (ge_review_id e) p2) (delete_job job_id p2))
      | (True, p2) \<Rightarrow>
          let mine = (\<lambda>e. of_generation a g e \<and> ge_ordinal e = ordinal \<and> entry_pending e) in
          if \<not> (\<exists>e \<in> set (pg_entries p2). mine e) then (Inr None, delete_job job_id p2)
          else let p3 = p2\<lparr>pg_entries := update_rows mine (\<lambda>e. e\<lparr>ge_state := ''in_flight'', ge_not_before := None\<rparr>) (pg_entries p2)\<rparr>
               in (Inr (Some job_id),
                   if resume
                   then set_state a (\<lambda>s. if ars_active_chain_id s = None \<or> ars_active_chain_id s = Some chain
                                         then s\<lparr>ars_active_chain_id := Some chain, ars_updated_at := db_now E\<rparr> else s) p3
                   else p3))"


section \<open>Articles that are complete again\<close>

definition affected_generations :: "uuid \<Rightarrow> rstring \<Rightarrow> pg \<Rightarrow> (uuid \<times> int) list" where
  "affected_generations i v p =
     remdups (sort (map (\<lambda>e. (ge_asset_record_id e, ge_generation e))
       (filter (\<lambda>e. ge_source_id e = i \<and> ge_review_id e = v \<and> entry_pending e) (pg_entries p))))"

definition reconcile_article_refresh_entries :: "pg_env \<Rightarrow> uuid \<Rightarrow> rstring \<Rightarrow> pg \<Rightarrow> (uuid \<times> int) list \<times> pg" where
  "reconcile_article_refresh_entries E i v p =
     (let affected = affected_generations i v p
      in (affected, fold (\<lambda>(a, g). complete_refresh_generation_if_terminal E a g) affected
            (retire (\<lambda>e. ge_source_id e = i \<and> ge_review_id e = v \<and> entry_pending e) p)))"

definition active_repairs :: "pg \<Rightarrow> nat" where
  "active_repairs p =
     length (filter (\<lambda>r. \<exists>j \<in> set (pg_jobs p). r_id j = arj_job_id r \<and> r_status j \<in> set active_statuses) (pg_repair_jobs p))"

definition refresh_capacity_available :: "asset_repair_policy \<Rightarrow> pg \<Rightarrow> bool" where
  "refresh_capacity_available rp p \<longleftrightarrow> active_repairs p < unat (max_pending rp)"

definition refresh_generation_pending :: "uuid \<Rightarrow> int \<Rightarrow> pg \<Rightarrow> bool" where
  "refresh_generation_pending a g p \<longleftrightarrow>
     (\<exists>s \<in> set (pg_refresh_states p). ars_asset_record_id s = a \<and> ars_served_generation s = g \<and>
        ars_active_chain_id s = None \<and> ars_requested_generation s > ars_completed_generation s)"

definition reset_lineage :: "refresh_view \<Rightarrow> pg_env \<Rightarrow> uuid \<Rightarrow> rstring \<Rightarrow> pg \<Rightarrow> pg" where
  "reset_lineage V E i v p =
     (if \<not> article_exists V i v then p
      else p\<lparr>pg_lineage :=
             (if find_lineage i v p = None
              then pg_lineage p @ [\<lparr>ln_source_id = i, ln_review_id = v, ln_attempts = 0, ln_next_allowed_at = None,
                     ln_exhausted = False, ln_last_outcome = Some ''succeeded'', ln_updated_at = db_now E\<rparr>]
              else update_rows (\<lambda>l. ln_source_id l = i \<and> ln_review_id l = v)
                     (\<lambda>l. l\<lparr>ln_attempts := 0, ln_next_allowed_at := None, ln_exhausted := False,
                            ln_last_outcome := Some ''succeeded'', ln_updated_at := db_now E\<rparr>) (pg_lineage p))\<rparr>)"

text \<open>
  What surrounds a transition: the digest and id texts, the server's clock, both policies; for the
  \<open>n\<close>-th selection in it the views of its statements and what an admission draws.
\<close>

record refresh_run =
  rr_blobs :: blob_libs
  rr_text :: "uuid \<Rightarrow> rstring"
  rr_env :: pg_env
  rr_chrono :: chrono
  rr_policy :: refresh_policy
  rr_repair :: asset_repair_policy
  rr_view :: "nat \<Rightarrow> nat \<Rightarrow> refresh_view"
  rr_draw :: "nat \<Rightarrow> refresh_draw"

definition run_select :: "refresh_run \<Rightarrow> nat \<Rightarrow> uuid \<Rightarrow> int \<Rightarrow> int option \<Rightarrow> pg \<Rightarrow> (int \<times> uuid \<times> rstring) option refresh_result" where
  "run_select R n a g after = select_refresh_entry (rr_blobs R) (rr_view R n) (rr_text R) (rr_env R) (rr_policy R) a g after"

definition run_admit ::
    "refresh_run \<Rightarrow> nat \<Rightarrow> uuid \<Rightarrow> int \<Rightarrow> uuid \<Rightarrow> int \<times> uuid \<times> rstring \<Rightarrow> bool \<Rightarrow> pg \<Rightarrow> uuid option refresh_result" where
  "run_admit R n a g chain = admit_refresh_entry (rr_text R) (rr_env R) (rr_policy R) (rr_draw R n) a g chain"

fun readmit :: "refresh_run \<Rightarrow> nat \<Rightarrow> (uuid \<times> int) list \<Rightarrow> pg \<Rightarrow> unit refresh_result" where
  "readmit R n [] p = (Inr (), p)"
| "readmit R n ((a, g) # affected) p =
     (case (if \<not> refresh_capacity_available (rr_repair R) p \<or> \<not> refresh_generation_pending a g p then (Inr None, p)
            else run_select R n a g None p) of
        (Inl e, p1) \<Rightarrow> (Inl e, p1)
      | (Inr None, p1) \<Rightarrow> readmit R (Suc n) affected (complete_refresh_generation_if_terminal (rr_env R) a g p1)
      | (Inr (Some entry), p1) \<Rightarrow>
          (case run_admit R n a g (rd_chain (rr_draw R n)) entry True p1 of
             (Inl e, p2) \<Rightarrow> (Inl e, p2)
           | (Inr _, p2) \<Rightarrow> readmit R (Suc n) affected p2))"

definition reset_article_refresh_lineage :: "refresh_run \<Rightarrow> uuid \<Rightarrow> rstring \<Rightarrow> pg \<Rightarrow> unit refresh_result" where
  "reset_article_refresh_lineage R i v p =
     (case validate_article_identity i v of Inl e \<Rightarrow> (Inl e, p) | Inr _ \<Rightarrow>
      case reconcile_article_refresh_entries (rr_env R) i (trim v) (reset_lineage (rr_view R 0 0) (rr_env R) i (trim v) p) of
        (affected, p1) \<Rightarrow> readmit R 0 affected p1)"


section \<open>Following a generation\<close>

definition refresh_generation_completed :: "uuid \<Rightarrow> int \<Rightarrow> pg \<Rightarrow> asset_repository_error + bool" where
  "refresh_generation_completed a g p =
     (case find_state a p of
        None \<Rightarrow> Inl (AssetStorage ''no rows returned'')
      | Some s \<Rightarrow> Inr (ars_completed_generation s \<ge> g \<or> \<not> generation_unfinished a g p))"

definition start_follow_up_generation ::
    "(rstring \<Rightarrow> 'k::linorder) \<Rightarrow> refresh_run \<Rightarrow> nat \<Rightarrow> uuid \<Rightarrow> int \<Rightarrow> pg \<Rightarrow> uuid option refresh_result" where
  "start_follow_up_generation collate R n a g p =
     (let E = rr_env R; ready = (\<lambda>s. ars_asset_record_id s = a \<and> ars_requested_generation s \<ge> g \<and>
            ars_served_generation s < g \<and> ars_active_chain_id s = None) in
      if \<not> (\<exists>s \<in> set (pg_refresh_states p). ready s) then (Inr None, p)
      else case snapshot_asset_generation collate (rr_view R n 0) a g
             (p\<lparr>pg_refresh_states := update_rows ready (\<lambda>s. s\<lparr>ars_served_generation := g, ars_updated_at := db_now E\<rparr>)
                  (pg_refresh_states p)\<rparr>) of
        (Inl e, p1) \<Rightarrow> (Inl e, p1)
      | (Inr entry_count, p1) \<Rightarrow>
          if entry_count = 0
          then (Inr None, set_state a (\<lambda>s. s\<lparr>ars_completed_generation := g, ars_updated_at := db_now E\<rparr>) p1)
          else case run_select R n a g None
                 (complete_refresh_generation_if_terminal E a g (mark_exhausted_refresh_entries (rr_policy R) a g p1)) of
            (Inl e, p2) \<Rightarrow> (Inl e, p2)
          | (Inr None, p2) \<Rightarrow> (Inr None, p2)
          | (Inr (Some entry), p2) \<Rightarrow> run_admit R n a g (rd_chain (rr_draw R n)) entry True p2)"

definition continue_refresh_chain :: "refresh_run \<Rightarrow> nat \<Rightarrow> refresh_target \<Rightarrow> pg \<Rightarrow> uuid option refresh_result" where
  "continue_refresh_chain R n t p =
     (let a = t_asset_id t; g = t_generation t;
          free = set_state a (\<lambda>s. if ars_active_chain_id s = Some (t_chain_id t)
                                  then s\<lparr>ars_active_chain_id := None, ars_updated_at := db_now (rr_env R)\<rparr> else s) in
      case run_select R n a g (Some (t_ordinal t)) (mark_exhausted_refresh_entries (rr_policy R) a g p) of
        (Inl e, p1) \<Rightarrow> (Inl e, p1)
      | (Inr None, p1) \<Rightarrow> (Inr None, free p1)
      | (Inr (Some entry), p1) \<Rightarrow>
          (case run_admit R n a g (t_chain_id t) entry False p1 of
             (Inl e, p2) \<Rightarrow> (Inl e, p2)
           | (Inr (Some job_id), p2) \<Rightarrow> (Inr (Some job_id), p2)
           | (Inr None, p2) \<Rightarrow> (Inr None, free p2)))"

definition set_refresh_entry_done :: "refresh_target \<Rightarrow> pg \<Rightarrow> pg" where
  "set_refresh_entry_done t =
     retire (\<lambda>e. of_generation (t_asset_id t) (t_generation t) e \<and> ge_ordinal e = t_ordinal t)"


section \<open>A refresh job and its end\<close>

text \<open>The association of a job: its metadata joined with the state whose active chain it carries.\<close>

definition target_match :: "uuid \<Rightarrow> repair_job_row \<times> refresh_state_row \<Rightarrow> bool" where
  "target_match job_id m =
     (case m of (arj, ars) \<Rightarrow>
        arj_job_id arj = job_id \<and> arj_admission_class arj = ''internal_refresh'' \<and>
        arj_refresh_source_id arj \<noteq> None \<and> arj_refresh_review_id arj \<noteq> None \<and>
        arj_expired_asset_record_id arj = Some (ars_asset_record_id ars) \<and>
        arj_chain_id arj \<noteq> None \<and> arj_chain_ordinal arj \<noteq> None \<and> ars_active_chain_id ars = arj_chain_id arj)"

definition read_refresh_target :: "uuid \<Rightarrow> pg \<Rightarrow> refresh_target option" where
  "read_refresh_target job_id p =
     map_option (\<lambda>(arj, ars).
         \<lparr>t_source_id = the (arj_refresh_source_id arj), t_review_id = the (arj_refresh_review_id arj),
          t_asset_id = ars_asset_record_id ars, t_chain_id = the (arj_chain_id arj),
          t_ordinal = the (arj_chain_ordinal arj), t_generation = ars_served_generation ars\<rparr>)
       (find (target_match job_id) (List.product (pg_repair_jobs p) (pg_refresh_states p)))"

definition lock_live_repair_lease :: "pg_env \<Rightarrow> job_lease \<Rightarrow> pg \<Rightarrow> asset_repository_error + unit" where
  "lock_live_repair_lease E lease p =
     (case j_lease_owner (l_job lease) of
        None \<Rightarrow> Inl AssetLeaseLost
      | Some owner \<Rightarrow>
          if \<exists>r \<in> set (pg_jobs p). fence E (j_id (l_job lease)) owner (l_token lease) r then Inr () else Inl AssetLeaseLost)"

text \<open>
  \<^verbatim>\<open>lock_current_refresh_target\<close> reads the association, locks the article and reads it again. The job row is
  locked by then, and only the holder of a job changes its association.
\<close>

definition lock_current_refresh_target :: "uuid \<Rightarrow> pg \<Rightarrow> refresh_target option" where
  "lock_current_refresh_target job_id p =
     (case read_refresh_target job_id p of
        None \<Rightarrow> None
      | Some peeked \<Rightarrow>
          (case read_refresh_target job_id p of
             None \<Rightarrow> None | Some target \<Rightarrow> if target = peeked then Some target else None))"

text \<open>\<^verbatim>\<open>payload["key"]\<close> with \<^verbatim>\<open>as_str\<close> and \<^verbatim>\<open>as_i64\<close>\<close>

definition field :: "string \<Rightarrow> json \<Rightarrow> json" where
  "field k v = (case v of JObject kvs \<Rightarrow> (case map_of kvs (lit k) of None \<Rightarrow> JNull | Some x \<Rightarrow> x) | _ \<Rightarrow> JNull)"

definition as_str :: "json \<Rightarrow> rstring option" where
  "as_str v = (case v of JString s \<Rightarrow> Some s | _ \<Rightarrow> None)"

definition as_i64 :: "json \<Rightarrow> int option" where
  "as_i64 v = (case v of JNumber n \<Rightarrow> if - (2 ^ 63) \<le> n \<and> n < 2 ^ 63 then Some n else None | _ \<Rightarrow> None)"

definition payload_matches :: "(uuid \<Rightarrow> rstring) \<Rightarrow> json \<Rightarrow> refresh_target \<Rightarrow> bool" where
  "payload_matches T payload t \<longleftrightarrow>
     as_str (field ''source_id'' payload) = Some (T (t_source_id t)) \<and>
     as_str (field ''review_id'' payload) = Some (t_review_id t) \<and>
     as_str (field ''expired_asset_record_id'' payload) = Some (T (t_asset_id t)) \<and>
     as_str (field ''chain_id'' payload) = Some (T (t_chain_id t)) \<and>
     as_i64 (field ''generation'' payload) = Some (t_generation t) \<and>
     as_i64 (field ''ordinal'' payload) = Some (t_ordinal t)"

definition entry_is_current :: "refresh_target \<Rightarrow> pg \<Rightarrow> bool" where
  "entry_is_current t p \<longleftrightarrow>
     (\<exists>e \<in> set (pg_entries p). of_generation (t_asset_id t) (t_generation t) e \<and> ge_ordinal e = t_ordinal t \<and>
        ge_source_id e = t_source_id t \<and> ge_review_id e = t_review_id t \<and> ge_state e = ''in_flight'')"

definition begin_article_refresh :: "refresh_run \<Rightarrow> job_lease \<Rightarrow> pg \<Rightarrow> asset_repository_error + refresh_target option" where
  "begin_article_refresh R lease p =
     (case lock_live_repair_lease (rr_env R) lease p of Inl e \<Rightarrow> Inl e | Inr _ \<Rightarrow>
      if j_type (l_job lease) \<noteq> AssetRefresh then Inl AssetInvalidMetadata
      else case lock_current_refresh_target (j_id (l_job lease)) p of
        None \<Rightarrow> Inr None
      | Some t \<Rightarrow>
          if \<not> payload_matches (rr_text R) (j_payload (l_job lease)) t \<or> \<not> entry_is_current t p \<or>
             t_ordinal t \<le> 0 \<or> t_generation t \<le> 0
          then Inl AssetInvalidMetadata
          else Inr (Some t))"

datatype article_refresh_outcome = RefreshSucceeded | RefreshInconclusive | RefreshSuperseded | RefreshDeleted

record refresh_finish_result =
  rf_next_job_id :: "uuid option"
  rf_generation_completed :: bool

definition out_of_range_error :: asset_repository_error where
  "out_of_range_error = AssetStorage ''timestamp out of range''"

definition cool_entry :: "refresh_target \<Rightarrow> datetime \<Rightarrow> pg \<Rightarrow> pg" where
  "cool_entry t not_before p =
     p\<lparr>pg_entries := update_rows (\<lambda>e. of_generation (t_asset_id t) (t_generation t) e \<and> ge_ordinal e = t_ordinal t)
         (\<lambda>e. e\<lparr>ge_state := ''cooling'', ge_not_before := Some not_before\<rparr>) (pg_entries p)\<rparr>"

definition settle_article :: "pg_env \<Rightarrow> refresh_target \<Rightarrow> pg \<Rightarrow> pg" where
  "settle_article E t p =
     snd (reconcile_article_refresh_entries E (t_source_id t) (t_review_id t) (set_refresh_entry_done t p))"

definition set_lineage :: "refresh_target \<Rightarrow> (lineage_row \<Rightarrow> lineage_row) \<Rightarrow> pg \<Rightarrow> pg" where
  "set_lineage t f p =
     p\<lparr>pg_lineage := update_rows (\<lambda>l. ln_source_id l = t_source_id t \<and> ln_review_id l = t_review_id t) f (pg_lineage p)\<rparr>"

definition apply_refresh_outcome ::
    "pg_env \<Rightarrow> refresh_policy \<Rightarrow> refresh_target \<Rightarrow> article_refresh_outcome \<Rightarrow> pg \<Rightarrow> unit refresh_result" where
  "apply_refresh_outcome E policy t out p =
     (case out of
        RefreshSucceeded \<Rightarrow>
          (Inr (), settle_article E t (set_lineage t (\<lambda>l. l\<lparr>ln_attempts := 0, ln_next_allowed_at := None, ln_exhausted := False,
             ln_last_outcome := Some ''succeeded'', ln_updated_at := db_now E\<rparr>) p))
      | RefreshInconclusive \<Rightarrow>
          (case find_lineage (t_source_id t) (t_review_id t) p of
             None \<Rightarrow> (Inr (), settle_article E t p)
           | Some l \<Rightarrow>
               (case ts_add E (db_now E) (int (rp_cooldown_secs policy) * 1000000000) of
                  None \<Rightarrow> (Inl out_of_range_error, p)
                | Some later \<Rightarrow>
                    let spent = (\<lambda>l. ln_attempts l \<ge> uint (rp_max_attempts policy));
                        p1 = set_lineage t (\<lambda>l. l\<lparr>ln_next_allowed_at := Some later, ln_exhausted := spent l,
                               ln_last_outcome := Some (if spent l then ''exhausted'' else ''inconclusive''),
                               ln_updated_at := db_now E\<rparr>) p
                    in (Inr (), if spent l then settle_article E t p1 else cool_entry t later p1)))
      | RefreshSuperseded \<Rightarrow> (Inr (), set_refresh_entry_done t p)
      | RefreshDeleted \<Rightarrow> (Inr (), set_refresh_entry_done t p))"

definition succeed_lease :: "refresh_run \<Rightarrow> job_lease \<Rightarrow> pg \<Rightarrow> unit refresh_result" where
  "succeed_lease R lease p =
     (case j_lease_owner (l_job lease) of None \<Rightarrow> (Inl AssetLeaseLost, p) | Some owner \<Rightarrow>
      case pg_succeed (rr_chrono R) (rr_env R) (j_id (l_job lease)) owner (l_token lease) (rd_now (rr_draw R 0)) p of
        (Inl e, p1) \<Rightarrow> (Inl (job_transaction_error e), p1)
      | (Inr _, p1) \<Rightarrow> (Inr (), p1))"

definition finish_article_refresh_in_transaction ::
    "(rstring \<Rightarrow> 'k::linorder) \<Rightarrow> refresh_run \<Rightarrow> job_lease \<Rightarrow> refresh_target \<Rightarrow> article_refresh_outcome \<Rightarrow> pg \<Rightarrow>
     refresh_finish_result refresh_result" where
  "finish_article_refresh_in_transaction collate R lease t out p =
     (let a = t_asset_id t; g = t_generation t in
      if i64_try_from (rp_cooldown_secs (rr_policy R)) = None then (Inl AssetInvalidMetadata, p)
      else case apply_refresh_outcome (rr_env R) (rr_policy R) t out p of (Inl e, p1) \<Rightarrow> (Inl e, p1) | (Inr _, p1) \<Rightarrow>
      case succeed_lease R lease p1 of (Inl e, p2) \<Rightarrow> (Inl e, p2) | (Inr _, p2) \<Rightarrow>
      case continue_refresh_chain R 0 t p2 of (Inl e, p3) \<Rightarrow> (Inl e, p3) | (Inr next, p3) \<Rightarrow>
      let p4 = complete_refresh_generation_if_terminal (rr_env R) a g p3 in
      case find_state a p4 of None \<Rightarrow> (Inl (AssetStorage ''no rows returned''), p4) | Some s \<Rightarrow>
      case refresh_generation_completed a g p4 of Inl e \<Rightarrow> (Inl e, p4) | Inr completed \<Rightarrow>
      if next = None \<and> completed \<and> ars_requested_generation s > ars_served_generation s
      then (case start_follow_up_generation collate R 1 a (ars_requested_generation s) p4 of
              (Inl e, p5) \<Rightarrow> (Inl e, p5)
            | (Inr next', p5) \<Rightarrow> (Inr \<lparr>rf_next_job_id = next', rf_generation_completed = completed\<rparr>, p5))
      else (Inr \<lparr>rf_next_job_id = next, rf_generation_completed = completed\<rparr>, p4))"

definition finish_article_refresh ::
    "(rstring \<Rightarrow> 'k::linorder) \<Rightarrow> refresh_run \<Rightarrow> job_lease \<Rightarrow> article_refresh_outcome \<Rightarrow> pg \<Rightarrow> refresh_finish_result refresh_result" where
  "finish_article_refresh collate R lease out p =
     (case begin_article_refresh R lease p of
        Inl e \<Rightarrow> (Inl e, p)
      | Inr None \<Rightarrow> (Inl AssetInvalidMetadata, p)
      | Inr (Some t) \<Rightarrow> finish_article_refresh_in_transaction collate R lease t out p)"

definition complete_unresolvable_article_refresh :: "refresh_run \<Rightarrow> job_lease \<Rightarrow> pg \<Rightarrow> unit refresh_result" where
  "complete_unresolvable_article_refresh R lease p =
     (if j_type (l_job lease) \<noteq> AssetRefresh then (Inl AssetInvalidMetadata, p)
      else case lock_live_repair_lease (rr_env R) lease p of Inl e \<Rightarrow> (Inl e, p) | Inr _ \<Rightarrow>
      let p1 = (case lock_current_refresh_target (j_id (l_job lease)) p of
                  None \<Rightarrow> p
                | Some t \<Rightarrow>
                    set_state (t_asset_id t) (\<lambda>s. if ars_active_chain_id s = Some (t_chain_id t) \<and> ars_served_generation s = t_generation t
                          then s\<lparr>ars_active_chain_id := None, ars_updated_at := db_now (rr_env R)\<rparr> else s)
                      (complete_refresh_generation_if_terminal (rr_env R) (t_asset_id t) (t_generation t)
                        (retire (\<lambda>e. of_generation (t_asset_id t) (t_generation t) e \<and> ge_ordinal e = t_ordinal t \<and>
                                     ge_state e = ''in_flight'') p)))
      in succeed_lease R lease p1)"


section \<open>Requests\<close>

definition request_next :: "pg_env \<Rightarrow> uuid \<Rightarrow> pg \<Rightarrow> pg" where
  "request_next E a = set_state a (\<lambda>s. s\<lparr>ars_requested_generation := max (ars_requested_generation s) (ars_served_generation s + 1),
     ars_updated_at := db_now E\<rparr>)"

datatype asset_repair_enqueue_result =
    RepairEnqueued uuid | RepairAlreadyActive uuid | RepairNotFound | RepairAlreadyAvailable | RepairCapacityFull
  | RepairBackoff | RepairExhausted | RepairRetryable

definition enqueued_or_retryable :: "uuid option \<Rightarrow> asset_repair_enqueue_result" where
  "enqueued_or_retryable r = (case r of None \<Rightarrow> RepairRetryable | Some job_id \<Rightarrow> RepairEnqueued job_id)"

definition resume_follow_up_generation ::
    "(rstring \<Rightarrow> 'k::linorder) \<Rightarrow> refresh_run \<Rightarrow> nat \<Rightarrow> uuid \<Rightarrow> int \<Rightarrow> pg \<Rightarrow> asset_repair_enqueue_result refresh_result" where
  "resume_follow_up_generation collate R n a served p =
     (case refresh_generation_completed a served p of Inl e \<Rightarrow> (Inl e, p) | Inr completed \<Rightarrow>
      if \<not> completed then (Inr RepairRetryable, p)
      else case (case find_state a p of None \<Rightarrow> (0, 0) | Some s \<Rightarrow> (ars_requested_generation s, ars_served_generation s)) of
        (requested, current) \<Rightarrow>
      if requested \<le> current then (Inr RepairRetryable, p)
      else case start_follow_up_generation collate R n a requested p of
        (Inl e, p1) \<Rightarrow> (Inl e, p1)
      | (Inr r, p1) \<Rightarrow> (Inr (enqueued_or_retryable r), p1))"

definition resume_refresh_after_cache_miss ::
    "(rstring \<Rightarrow> 'k::linorder) \<Rightarrow> refresh_run \<Rightarrow> nat \<Rightarrow> uuid \<Rightarrow> pg \<Rightarrow> asset_repair_enqueue_result option refresh_result" where
  "resume_refresh_after_cache_miss collate R n a p =
     (case find_state a p of None \<Rightarrow> (Inr None, p) | Some s \<Rightarrow>
      let requested = ars_requested_generation s; completed = ars_completed_generation s; served = ars_served_generation s in
      if ars_active_chain_id s \<noteq> None then (Inr (Some RepairRetryable), request_next (rr_env R) a p)
      else if requested \<le> completed \<or> served = 0 then (Inr None, p)
      else if \<not> refresh_capacity_available (rr_repair R) p then (Inr (Some RepairRetryable), p)
      else if served \<le> completed then
        (case start_follow_up_generation collate R n a requested p of
           (Inl e, p1) \<Rightarrow> (Inl e, p1)
         | (Inr r, p1) \<Rightarrow> (Inr (Some (enqueued_or_retryable r)), p1))
      else case run_select R n a served None (mark_exhausted_refresh_entries (rr_policy R) a served p) of
        (Inl e, p1) \<Rightarrow> (Inl e, p1)
      | (Inr None, p1) \<Rightarrow>
          (case resume_follow_up_generation collate R (Suc n) a served
                  (complete_refresh_generation_if_terminal (rr_env R) a served p1) of
             (Inl e, p2) \<Rightarrow> (Inl e, p2)
           | (Inr r, p2) \<Rightarrow> (Inr (Some r), p2))
      | (Inr (Some entry), p1) \<Rightarrow>
          (case run_admit R n a served (rd_chain (rr_draw R n)) entry True p1 of
             (Inl e, p2) \<Rightarrow> (Inl e, p2)
           | (Inr r, p2) \<Rightarrow> (Inr (Some (enqueued_or_retryable r)), p2)))"

datatype asset_refresh_admission_result =
    NoEligibleArticle | RefreshEnqueued uuid uuid int int | AlreadyHandled

definition admit_for_expiry ::
    "refresh_run \<Rightarrow> uuid \<Rightarrow> int \<Rightarrow> pg \<Rightarrow> asset_refresh_admission_result refresh_result" where
  "admit_for_expiry R a g p =
     (case run_select R 0 a g None (mark_exhausted_refresh_entries (rr_policy R) a g p) of
        (Inl e, p1) \<Rightarrow> (Inl e, p1)
      | (Inr None, p1) \<Rightarrow> (Inr NoEligibleArticle, complete_refresh_generation_if_terminal (rr_env R) a g p1)
      | (Inr (Some entry), p1) \<Rightarrow>
          let chain = rd_chain (rr_draw R 0) in
          (case run_admit R 0 a g chain entry True p1 of
             (Inl e, p2) \<Rightarrow> (Inl e, p2)
           | (Inr None, p2) \<Rightarrow> (Inr NoEligibleArticle, p2)
           | (Inr (Some job_id), p2) \<Rightarrow> (Inr (RefreshEnqueued job_id chain g (fst entry)), p2)))"

definition route_confirmed_expiry ::
    "(rstring \<Rightarrow> 'k::linorder) \<Rightarrow> refresh_run \<Rightarrow> uuid \<Rightarrow> pg \<Rightarrow> asset_refresh_admission_result refresh_result" where
  "route_confirmed_expiry collate R a p =
     (let E = rr_env R; state = find_state a p;
          requested = (case state of None \<Rightarrow> 0 | Some s \<Rightarrow> ars_requested_generation s);
          completed = (case state of None \<Rightarrow> 0 | Some s \<Rightarrow> ars_completed_generation s);
          served = (case state of None \<Rightarrow> 0 | Some s \<Rightarrow> ars_served_generation s) in
      if (case state of None \<Rightarrow> False | Some s \<Rightarrow> ars_active_chain_id s \<noteq> None) then (Inr AlreadyHandled, request_next E a p)
      else if served > completed then admit_for_expiry R a served (request_next E a p)
      else case (if requested > completed then Some requested else i64_checked_add requested 1) of
        None \<Rightarrow> (Inl AssetInvalidMetadata, p)
      | Some g \<Rightarrow>
          case snapshot_asset_generation collate (rr_view R 0 0) a g
                 (if state = None
                  then p\<lparr>pg_refresh_states := pg_refresh_states p @
                         [\<lparr>ars_asset_record_id = a, ars_requested_generation = g, ars_completed_generation = completed,
                           ars_served_generation = g, ars_active_chain_id = None, ars_updated_at = db_now E\<rparr>]\<rparr>
                  else set_state a (\<lambda>s. s\<lparr>ars_requested_generation := g, ars_served_generation := g, ars_updated_at := db_now E\<rparr>) p) of
            (Inl e, p1) \<Rightarrow> (Inl e, p1)
          | (Inr entry_count, p1) \<Rightarrow>
              if entry_count = 0
              then (Inr NoEligibleArticle, set_state a (\<lambda>s. s\<lparr>ars_completed_generation := g, ars_updated_at := db_now E\<rparr>) p1)
              else admit_for_expiry R a g p1)"

definition PENDING_SCAN_LIMIT :: nat where "PENDING_SCAN_LIMIT = 16"

definition pending_assets :: "asset_db \<Rightarrow> pg \<Rightarrow> uuid list" where
  "pending_assets A p =
     take PENDING_SCAN_LIMIT (map ars_asset_record_id (sort_key (\<lambda>s. (ars_updated_at s, ars_asset_record_id s))
       (filter (\<lambda>s. ars_active_chain_id s = None \<and> ars_requested_generation s > ars_completed_generation s \<and>
                   \<not> repair_active p (ars_asset_record_id s) A) (pg_refresh_states p))))"

text \<open>Each asset of the scan takes up to two selections.\<close>

fun resume_assets :: "(rstring \<Rightarrow> 'k::linorder) \<Rightarrow> refresh_run \<Rightarrow> nat \<Rightarrow> uuid list \<Rightarrow> pg \<Rightarrow> unit refresh_result" where
  "resume_assets collate R n [] p = (Inr (), p)"
| "resume_assets collate R n (a # as) p =
     (case resume_refresh_after_cache_miss collate R n a p of
        (Inl e, p1) \<Rightarrow> (Inl e, p1)
      | (Inr _, p1) \<Rightarrow> resume_assets collate R (n + 2) as (set_state a (\<lambda>s. s\<lparr>ars_updated_at := db_now (rr_env R)\<rparr>) p1))"

definition resume_pending_refreshes :: "(rstring \<Rightarrow> 'k::linorder) \<Rightarrow> refresh_run \<Rightarrow> asset_db \<Rightarrow> pg \<Rightarrow> unit refresh_result" where
  "resume_pending_refreshes collate R A p = resume_assets collate R 0 (pending_assets A p) p"

end
