(* ===== verification/Asset_Repair.thy ===== *)
theory Asset_Repair
  imports Asset_Refresh
begin

text \<open>
  Repair of a missing asset (\<^verbatim>\<open>asset_repository.rs\<close>): admission of a repair job after a public cache miss, the
  target of the job, restoring the bytes, a failure, success, and the hand-over to a whole-article
  refresh when the asset has expired upstream. The tables are those of jobs and refreshes, the asset
  cache, and one row of attempts per record.
\<close>

section \<open>State\<close>

record repair_state_row =
  ps_asset_record_id :: uuid
  ps_admitted_attempts :: int
  ps_next_allowed_at :: "datetime option"
  ps_exhausted :: bool
  ps_last_error :: "rstring option"
  ps_updated_at :: datetime

record repair_db =
  rb_pg :: pg
  rb_assets :: asset_db
  rb_states :: "repair_state_row list"

type_synonym 'a repair_result = "(asset_repository_error + 'a) \<times> repair_db"

definition find_repair_state :: "uuid \<Rightarrow> repair_db \<Rightarrow> repair_state_row option" where
  "find_repair_state a d = find (\<lambda>r. ps_asset_record_id r = a) (rb_states d)"

definition set_repair_state :: "uuid \<Rightarrow> (repair_state_row \<Rightarrow> repair_state_row) \<Rightarrow> repair_db \<Rightarrow> repair_db" where
  "set_repair_state a f d = d\<lparr>rb_states := update_rows (\<lambda>r. ps_asset_record_id r = a) f (rb_states d)\<rparr>"

definition referenced_record :: "uuid \<Rightarrow> asset_db \<Rightarrow> asset_record_row option" where
  "referenced_record a s = find (\<lambda>r. rc_id r = a \<and> linked a s) (a_records s)"

definition in_pg :: "(pg \<Rightarrow> 'a refresh_result) \<Rightarrow> repair_db \<Rightarrow> 'a repair_result" where
  "in_pg op d = (case op (rb_pg d) of (r, p) \<Rightarrow> (r, d\<lparr>rb_pg := p\<rparr>))"

definition requeue_secs :: "asset_repair_policy \<Rightarrow> nat" where
  "requeue_secs policy = requeue_after policy div 1000000000"

definition record_present :: "blob_libs \<Rightarrow> uuid option \<Rightarrow> asset_db \<Rightarrow> asset_repository_error + bool" where
  "record_present K blob s =
     (case blob of None \<Rightarrow> Inr False | Some b \<Rightarrow>
      if deletion_queued b s then Inr False
      else bindE (map_err AssetBlobStore (stat_in_transaction K (for_blob_id K b) s))
             (\<lambda>md. Inr (case md of None \<Rightarrow> False | Some m \<Rightarrow> md_present m)))"


section \<open>The target of a repair\<close>

record asset_repair_target =
  rt_asset_id :: uuid
  rt_source_url :: url
  rt_referer_url :: url
  rt_origin :: "rstring option"
  rt_user_agent :: "rstring option"
  rt_next_allowed_at :: "datetime option"
  rt_exhausted :: bool

text \<open>The first link of the record in the order of articles; \<open>collate\<close> is the server's order of texts.\<close>

definition first_link :: "(rstring \<Rightarrow> 'k::linorder) \<Rightarrow> uuid \<Rightarrow> asset_db \<Rightarrow> article_asset_row option" where
  "first_link collate a s =
     (case sort_key aa_source_id (sort_key (collate \<circ> aa_review_id) (sort_key aa_occurrence
             (filter (\<lambda>l. aa_record_id l = a) (a_links s)))) of
        [] \<Rightarrow> None | l # _ \<Rightarrow> Some l)"

definition repair_target ::
    "(rstring \<Rightarrow> 'k::linorder) \<Rightarrow> libs \<Rightarrow> blob_libs \<Rightarrow> uuid \<Rightarrow> repair_db \<Rightarrow>
     asset_repository_error + asset_repair_target option" where
  "repair_target collate L K a d =
     (let s = rb_assets d in
      case find (\<lambda>r. rc_id r = a \<and> (case rc_blob_id r of None \<Rightarrow> True | Some b \<Rightarrow> \<not> deletion_queued b s)) (a_records s) of
        None \<Rightarrow> Inr None
      | Some r \<Rightarrow>
          (case first_link collate a s of None \<Rightarrow> Inr None | Some l \<Rightarrow>
           bindE (case rc_blob_id r of None \<Rightarrow> Inr False
                  | Some b \<Rightarrow> bindE (map_err AssetBlobStore (stat_in_transaction K (for_blob_id K b) s))
                      (\<lambda>md. Inr (case md of None \<Rightarrow> False | Some m \<Rightarrow> md_present m)))
             (\<lambda>present. if present then Inr None
               else bindE (parse_asset_url L (rc_source_url r)) (\<lambda>source_url.
                    bindE (parse_asset_url L (aa_referer_url l)) (\<lambda>referer_url.
                      Inr (Some \<lparr>rt_asset_id = a, rt_source_url = source_url, rt_referer_url = referer_url,
                             rt_origin = aa_origin l, rt_user_agent = aa_user_agent l,
                             rt_next_allowed_at = Option.bind (find_repair_state a d) ps_next_allowed_at,
                             rt_exhausted = (case find_repair_state a d of None \<Rightarrow> False | Some st \<Rightarrow> ps_exhausted st)\<rparr>))))))"


section \<open>Admission\<close>

definition active_repair :: "uuid \<Rightarrow> repair_db \<Rightarrow> uuid option" where
  "active_repair a d =
     (case sort_key r_created_at (filter (\<lambda>j. r_status j \<in> set active_statuses \<and>
             (\<exists>(job_id, record_id) \<in> set (a_repairs (rb_assets d)). job_id = r_id j \<and> record_id = Some a)) (pg_jobs (rb_pg d))) of
        [] \<Rightarrow> None | j # _ \<Rightarrow> Some (r_id j))"

definition article_spent :: "refresh_policy \<Rightarrow> pg \<Rightarrow> article_asset_row \<Rightarrow> bool" where
  "article_spent policy p l =
     (case find_lineage (aa_source_id l) (aa_review_id l) p of
        None \<Rightarrow> 0 \<ge> uint (rp_max_attempts policy)
      | Some ln \<Rightarrow> ln_exhausted ln \<or> ln_attempts ln \<ge> uint (rp_max_attempts policy))"

definition article_cooling :: "pg_env \<Rightarrow> refresh_policy \<Rightarrow> pg \<Rightarrow> article_asset_row \<Rightarrow> bool" where
  "article_cooling E policy p l \<longleftrightarrow>
     \<not> article_spent policy p l \<and>
     (case find_lineage (aa_source_id l) (aa_review_id l) p of
        None \<Rightarrow> False
      | Some ln \<Rightarrow> (case ln_next_allowed_at ln of None \<Rightarrow> False | Some t \<Rightarrow> t > db_now E))"

text \<open>What the lineages of the articles that show the asset leave of a request.\<close>

definition lineage_verdict ::
    "pg_env \<Rightarrow> refresh_policy \<Rightarrow> article_row list \<Rightarrow> uuid \<Rightarrow> repair_db \<Rightarrow> asset_repair_enqueue_result option" where
  "lineage_verdict E policy articles a d =
     (let V = \<lparr>rv_articles = articles, rv_assets = rb_assets d\<rparr>;
          links = filter (\<lambda>l. aa_record_id l = a \<and> article_exists V (aa_source_id l) (aa_review_id l)) (a_links (rb_assets d));
          live = length links;
          exhausted = length (filter (article_spent policy (rb_pg d)) links);
          cooling = length (filter (article_cooling E policy (rb_pg d)) links)
      in if live > 0 \<and> exhausted = live then Some RepairExhausted
         else if live > 0 \<and> exhausted + cooling = live then Some RepairRetryable
         else None)"

definition state_verdict :: "pg_env \<Rightarrow> asset_repair_policy \<Rightarrow> uuid \<Rightarrow> repair_db \<Rightarrow> asset_repair_enqueue_result option" where
  "state_verdict E policy a d =
     (case find_repair_state a d of
        None \<Rightarrow> None
      | Some st \<Rightarrow>
          if ps_exhausted st then Some RepairExhausted
          else if (case ps_next_allowed_at st of None \<Rightarrow> False | Some t \<Rightarrow> t > db_now E) then Some RepairBackoff
          else if ps_admitted_attempts st \<ge> uint (repair_max_attempts policy) then Some RepairExhausted
          else None)"

definition public_repairs :: "pg \<Rightarrow> nat" where
  "public_repairs p =
     length (filter (\<lambda>r. arj_admission_class r = ''public_repair'' \<and>
       (\<exists>j \<in> set (pg_jobs p). r_id j = arj_job_id r \<and> r_status j \<in> set active_statuses)) (pg_repair_jobs p))"

definition asset_repair_key :: "(uuid \<Rightarrow> rstring) \<Rightarrow> uuid \<Rightarrow> rstring" where
  "asset_repair_key T a = lit ''asset-repair:'' @ T a"

definition repair_job :: "(uuid \<Rightarrow> rstring) \<Rightarrow> datetime \<Rightarrow> uuid \<Rightarrow> new_job" where
  "repair_job T now a =
     \<lparr>nj_job_type = AssetRepair, nj_source_id = None, nj_priority = 0, nj_run_after = now,
      nj_max_attempts = REPAIR_JOB_MAX_ATTEMPTS, nj_payload = JObject [(lit ''asset_id'', JString (T a))],
      nj_dedupe_key = asset_repair_key T a, nj_now = now\<rparr>"

definition charge_attempt :: "pg_env \<Rightarrow> uuid \<Rightarrow> repair_db \<Rightarrow> repair_db" where
  "charge_attempt E a d =
     (if find_repair_state a d = None
      then d\<lparr>rb_states := rb_states d @
             [\<lparr>ps_asset_record_id = a, ps_admitted_attempts = 1, ps_next_allowed_at = None, ps_exhausted = False,
               ps_last_error = None, ps_updated_at = db_now E\<rparr>]\<rparr>
      else set_repair_state a (\<lambda>st. st\<lparr>ps_admitted_attempts := ps_admitted_attempts st + 1, ps_next_allowed_at := None,
             ps_exhausted := False, ps_last_error := None, ps_updated_at := db_now E\<rparr>) d)"

definition add_repair :: "uuid \<Rightarrow> uuid \<Rightarrow> repair_db \<Rightarrow> repair_db" where
  "add_repair job_id a d =
     d\<lparr>rb_pg := (rb_pg d)\<lparr>pg_repair_jobs := pg_repair_jobs (rb_pg d) @
          [\<lparr>arj_job_id = job_id, arj_admission_class = ''public_repair'', arj_refresh_source_id = None,
            arj_refresh_review_id = None, arj_expired_asset_record_id = None, arj_chain_id = None,
            arj_chain_ordinal = None, arj_expiry_refunded = False\<rparr>]\<rparr>,
       rb_assets := (rb_assets d)\<lparr>a_repairs := a_repairs (rb_assets d) @ [(job_id, Some a)]\<rparr>\<rparr>"

definition admit_repair ::
    "refresh_run \<Rightarrow> article_row list \<Rightarrow> uuid \<Rightarrow> repair_db \<Rightarrow> asset_repair_enqueue_result repair_result" where
  "admit_repair R articles a d =
     (case lineage_verdict (rr_env R) (rr_policy R) articles a d of Some r \<Rightarrow> (Inr r, d) | None \<Rightarrow>
      case state_verdict (rr_env R) (rr_repair R) a d of Some r \<Rightarrow> (Inr r, d) | None \<Rightarrow>
      if active_repairs (rb_pg d) \<ge> unat (max_pending (rr_repair R)) \<or>
         public_repairs (rb_pg d) \<ge> unat (public_max_pending (rr_repair R))
      then (Inr RepairCapacityFull, d)
      else case enqueue_internal (rr_env R) (rd_job (rr_draw R 2)) (repair_job (rr_text R) (rd_now (rr_draw R 2)) a) True (rb_pg d) of
        (Inl e, p) \<Rightarrow> (Inl (job_transaction_error e), d\<lparr>rb_pg := p\<rparr>)
      | (Inr (AlreadyActive job_id), p) \<Rightarrow> (Inr (RepairAlreadyActive job_id), d\<lparr>rb_pg := p\<rparr>)
      | (Inr (Inserted j), p) \<Rightarrow>
          (Inr (RepairEnqueued (j_id j)), add_repair (j_id j) a (charge_attempt (rr_env R) a (d\<lparr>rb_pg := p\<rparr>))))"

definition enqueue_repair_in_transaction ::
    "(rstring \<Rightarrow> 'k::linorder) \<Rightarrow> refresh_run \<Rightarrow> article_row list \<Rightarrow> uuid \<Rightarrow> repair_db \<Rightarrow>
     asset_repair_enqueue_result repair_result" where
  "enqueue_repair_in_transaction collate R articles a d =
     (case referenced_record a (rb_assets d) of
        None \<Rightarrow>
          (case in_pg (resume_refresh_after_cache_miss collate R 0 a) d of
             (Inl e, d1) \<Rightarrow> (Inl e, d1)
           | (Inr (Some r), d1) \<Rightarrow> (Inr r, d1)
           | (Inr None, d1) \<Rightarrow> (Inr RepairNotFound, d1))
      | Some record \<Rightarrow>
          (case record_present (rr_blobs R) (rc_blob_id record) (rb_assets d) of Inl e \<Rightarrow> (Inl e, d) | Inr present \<Rightarrow>
           if present then (Inr RepairAlreadyAvailable, d)
           else case active_repair a d of Some job_id \<Rightarrow> (Inr (RepairAlreadyActive job_id), d) | None \<Rightarrow>
           case in_pg (resume_refresh_after_cache_miss collate R 0 a) d of
             (Inl e, d1) \<Rightarrow> (Inl e, d1)
           | (Inr (Some r), d1) \<Rightarrow> (Inr r, d1)
           | (Inr None, d1) \<Rightarrow> admit_repair R articles a d1))"

definition enqueue_repair ::
    "(rstring \<Rightarrow> 'k::linorder) \<Rightarrow> refresh_run \<Rightarrow> article_row list \<Rightarrow> uuid \<Rightarrow> repair_db \<Rightarrow> asset_repair_enqueue_result repair_result" where
  "enqueue_repair collate R articles a d =
     (case enqueue_repair_in_transaction collate R articles a d of (Inl e, _) \<Rightarrow> (Inl e, d) | (Inr r, d') \<Rightarrow> (Inr r, d'))"


section \<open>The end of a repair\<close>

definition refund_expiry :: "refresh_run \<Rightarrow> uuid \<Rightarrow> uuid \<Rightarrow> repair_db \<Rightarrow> unit repair_result" where
  "refund_expiry R job_id a d =
     (case i64_try_from (requeue_secs (rr_repair R)) of None \<Rightarrow> (Inl AssetInvalidMetadata, d) | Some secs \<Rightarrow>
      case (if find_repair_state a d = None then Some None
            else map_option Some (ts_add (rr_env R) (db_now (rr_env R)) (secs * 1000000000))) of
        None \<Rightarrow> (Inl out_of_range_error, d)
      | Some later \<Rightarrow>
          (let d1 = set_repair_state a (\<lambda>st. st\<lparr>ps_admitted_attempts := max (ps_admitted_attempts st - 1) 0,
                      ps_next_allowed_at := later, ps_exhausted := False, ps_last_error := None,
                      ps_updated_at := db_now (rr_env R)\<rparr>) d;
               refunded = update_rows (\<lambda>r. arj_job_id r = job_id \<and> arj_admission_class r = ''public_repair'' \<and> \<not> arj_expiry_refunded r)
                      (\<lambda>r. r\<lparr>arj_expiry_refunded := True\<rparr>) (pg_repair_jobs (rb_pg d1))
           in (Inr (), d1\<lparr>rb_pg := (rb_pg d1)\<lparr>pg_repair_jobs := refunded\<rparr>\<rparr>)))"

definition finish_confirmed_expiry ::
    "(rstring \<Rightarrow> 'k::linorder) \<Rightarrow> refresh_run \<Rightarrow> job_lease \<Rightarrow> uuid \<Rightarrow> repair_db \<Rightarrow> asset_refresh_admission_result repair_result" where
  "finish_confirmed_expiry collate R lease a d =
     (let job_id = j_id (l_job lease) in
      if j_type (l_job lease) \<noteq> AssetRepair then (Inl AssetInvalidMetadata, d)
      else if j_lease_owner (l_job lease) = None then (Inl AssetLeaseLost, d)
      else case lock_live_repair_lease (rr_env R) lease (rb_pg d) of Inl e \<Rightarrow> (Inl e, d) | Inr _ \<Rightarrow>
      case find (\<lambda>r. arj_job_id r = job_id) (pg_repair_jobs (rb_pg d)) of
        None \<Rightarrow> (Inl AssetInvalidMetadata, d)
      | Some row \<Rightarrow>
          if (case map_of (a_repairs (rb_assets d)) job_id of Some (Some current) \<Rightarrow> current \<noteq> a | _ \<Rightarrow> False)
          then (Inl AssetInvalidMetadata, d)
          else case (if arj_admission_class row = ''public_repair'' \<and> \<not> arj_expiry_refunded row
                     then refund_expiry R job_id a d else (Inr (), d)) of
            (Inl e, d1) \<Rightarrow> (Inl e, d1)
          | (Inr _, d1) \<Rightarrow>
          case in_pg (route_confirmed_expiry collate R a) d1 of (Inl e, d2) \<Rightarrow> (Inl e, d2) | (Inr r, d2) \<Rightarrow>
          case in_pg (succeed_lease R lease) d2 of (Inl e, d3) \<Rightarrow> (Inl e, d3) | (Inr _, d3) \<Rightarrow> (Inr r, d3))"

definition record_repair_failure ::
    "pg_env \<Rightarrow> asset_repair_policy \<Rightarrow> job_lease \<Rightarrow> uuid \<Rightarrow> rstring \<Rightarrow> repair_db \<Rightarrow> bool repair_result" where
  "record_repair_failure E policy lease a err d =
     (case i64_try_from (requeue_secs policy) of None \<Rightarrow> (Inl (AssetStorage ''repair delay is too large''), d) | Some secs \<Rightarrow>
      case lock_live_repair_lease E lease (rb_pg d) of Inl e \<Rightarrow> (Inl e, d) | Inr _ \<Rightarrow>
      case find_repair_state a d of None \<Rightarrow> (Inr False, d) | Some st \<Rightarrow>
      case ts_add E (db_now E) (secs * 1000000000) of None \<Rightarrow> (Inl out_of_range_error, d) | Some later \<Rightarrow>
        (Inr (ps_admitted_attempts st \<ge> uint (repair_max_attempts policy)),
         set_repair_state a (\<lambda>st. st\<lparr>ps_next_allowed_at := Some later,
             ps_exhausted := ps_admitted_attempts st \<ge> uint (repair_max_attempts policy),
             ps_last_error := Some (take 512 err), ps_updated_at := db_now E\<rparr>) d))"

definition complete_repair :: "pg_env \<Rightarrow> job_lease \<Rightarrow> uuid \<Rightarrow> repair_db \<Rightarrow> unit repair_result" where
  "complete_repair E lease a d =
     (case lock_live_repair_lease E lease (rb_pg d) of Inl e \<Rightarrow> (Inl e, d) | Inr _ \<Rightarrow>
      (Inr (), set_repair_state a (\<lambda>st. st\<lparr>ps_admitted_attempts := 0, ps_next_allowed_at := None, ps_exhausted := False,
         ps_last_error := None, ps_updated_at := db_now E\<rparr>) d))"


section \<open>Restoring the bytes\<close>

datatype asset_repair_restore_result = RestoreRestored | RestoreAlreadyAvailable | RestoreNotFound

fun matching_candidate :: "blob_libs \<Rightarrow> asset_db \<Rightarrow> bytes \<Rightarrow> uuid list \<Rightarrow> asset_repository_error + uuid option" where
  "matching_candidate K s body [] = Inr None"
| "matching_candidate K s body (i # ids) =
     bindE (map_err AssetBlobStore (read_in_transaction K (for_blob_id K i) s)) (\<lambda>found.
       case found of
         None \<Rightarrow> matching_candidate K s body ids
       | Some blob \<Rightarrow> if blob_bytes blob = body then Inr (Some i) else matching_candidate K s body ids)"

definition restore_record :: "datetime \<Rightarrow> uuid \<Rightarrow> rstring \<Rightarrow> uuid \<Rightarrow> asset_db \<Rightarrow> asset_db" where
  "restore_record now a final_url blob_id s =
     touch_blob now blob_id
       (s\<lparr>a_records := update_rows (\<lambda>r. rc_id r = a)
            (\<lambda>r. r\<lparr>rc_final_url := final_url, rc_blob_id := Some blob_id, rc_fetch_status := ''available'',
                   rc_last_error := None, rc_updated_at := now\<rparr>) (a_records s)\<rparr>)"

text \<open>
  An error rolls the transaction back; with the blob store in PostgreSQL nothing is left to clean up.
  The evictions that \<^verbatim>\<open>insert_blob\<close> defers are in a mutation state that ends with the method.
\<close>

definition restore_missing_asset ::
    "libs \<Rightarrow> blob_libs \<Rightarrow> asset_cache_policy \<Rightarrow> pg_env \<Rightarrow> write_env \<Rightarrow> job_lease \<Rightarrow> uuid \<Rightarrow> asset_input \<Rightarrow> repair_db \<Rightarrow>
     asset_repair_restore_result repair_result" where
  "restore_missing_asset L K policy E W lease a input d =
     (let s = rb_assets d in
      case validate_asset_input L K policy input of Inl e \<Rightarrow> (Inl e, d) | Inr _ \<Rightarrow>
      case normalize_url L (ai_source_url input) of Inl e \<Rightarrow> (Inl e, d) | Inr source_url \<Rightarrow>
      case normalize_url L (ai_final_url input) of Inl e \<Rightarrow> (Inl e, d) | Inr final_url \<Rightarrow>
      case input_byte_size input of Inl e \<Rightarrow> (Inl e, d) | Inr byte_size \<Rightarrow>
      case referenced_record a s of None \<Rightarrow> (Inr RestoreNotFound, d) | Some record \<Rightarrow>
      case bindE (ok_or AssetInvalidMetadata (url_parse L (rc_source_url record))) (normalize_url L) of Inl e \<Rightarrow> (Inl e, d) | Inr record_url \<Rightarrow>
      if record_url \<noteq> source_url then (Inl AssetInvalidMetadata, d)
      else case record_present K (rc_blob_id record) s of Inl e \<Rightarrow> (Inl e, d) | Inr present \<Rightarrow>
      if present then (Inr RestoreAlreadyAvailable, d)
      else case matching_candidate K s (ai_bytes input) (candidate_ids (ai_checksum input) byte_size s) of Inl e \<Rightarrow> (Inl e, d) | Inr matching \<Rightarrow>
      case (case matching of
              Some blob_id \<Rightarrow> (Inr blob_id, s)
            | None \<Rightarrow>
                (case insert_blob K policy W 0 input (ai_checksum input) byte_size [] s mutation_default of
                   (Inl e, _, _) \<Rightarrow> (Inl e, s)
                 | (Inr (blob_id, _), s1, _) \<Rightarrow> (Inr blob_id, s1))) of
        (Inl e, _) \<Rightarrow> (Inl e, d)
      | (Inr blob_id, s1) \<Rightarrow>
          (case lock_live_repair_lease E lease (rb_pg d) of Inl e \<Rightarrow> (Inl e, d) | Inr _ \<Rightarrow>
           (Inr RestoreRestored, d\<lparr>rb_assets := restore_record (db_now E) a (url_text L final_url) blob_id s1\<rparr>)))"

end
