(* ===== verification/Asset_Restore.thy ===== *)
theory Asset_Restore
  imports Asset_Contracts Asset_Repair
begin

text \<open>
  What restoring a missing asset does to the cache: the record reads back with the fetched bytes, and nothing
  that was stored is dropped.
\<close>

section \<open>The steps of a restore\<close>

lemma matching_candidate_Some:
  assumes "assets_ok K s" "matching_candidate K s body ids = Inr (Some i)"
  shows "i \<in> set ids \<and> has_bytes s i body"
  using assms(2)
proof (induction ids)
  case (Cons j ids)
  then obtain found where read: "read_in_transaction K (for_blob_id K j) s = Inr found"
    by (cases "read_in_transaction K (for_blob_id K j) s") (auto simp: result_simps)
  show ?case
  proof (cases "\<exists>blob. found = Some blob \<and> blob_bytes blob = body")
    case True
    with read Cons.prems read_has_bytes [OF assms(1)] show ?thesis by (auto simp: result_simps)
  next
    case False
    with read Cons show ?thesis by (auto simp: result_simps split: option.splits if_splits)
  qed
qed simp

lemma matching_candidate_None:
  assumes "assets_ok K s" "matching_candidate K s body ids = Inr None"
  shows "\<forall>i \<in> set ids. \<not> has_bytes s i body"
  using assms(2)
proof (induction ids)
  case (Cons j ids)
  have K: "blob_libs_ok K" using assms(1) by (simp add: assets_ok_def)
  from Cons.prems obtain found where read: "read_in_transaction K (for_blob_id K j) s = Inr found"
    by (cases "read_in_transaction K (for_blob_id K j) s") (auto simp: result_simps)
  have "\<not> has_bytes s j body"
  proof
    assume "has_bytes s j body"
    then obtain b where b: "find_blob j s = Some b" "b_data b = Some body" by (auto simp: has_bytes_def)
    with read_eq [OF K b(1)] find_blob_ok [OF assms(1) b(1)] read Cons.prems show False by (auto simp: result_simps)
  qed
  moreover have "matching_candidate K s body ids = Inr None"
    using Cons.prems read by (auto simp: result_simps split: option.splits if_splits)
  ultimately show ?case using Cons.IH by simp
qed simp

text \<open>The blob the record is given: one that holds the bytes, or a new one after the limit was enforced.\<close>

definition restore_blob ::
    "blob_libs \<Rightarrow> asset_cache_policy \<Rightarrow> write_env \<Rightarrow> asset_input \<Rightarrow> asset_db \<Rightarrow> uuid \<Rightarrow> asset_db \<Rightarrow> bool" where
  "restore_blob K policy W input s i s1 \<longleftrightarrow>
     (s1 = s \<and> has_bytes s i (ai_bytes input) \<and> \<not> deletion_queued i s) \<or>
     ((\<forall>j \<in> set (candidate_ids (ai_checksum input) (int (length (ai_bytes input))) s). \<not> has_bytes s j (ai_bytes input)) \<and>
      (\<exists>mt m. insert_blob K policy W 0 input (ai_checksum input) (int (length (ai_bytes input))) [] s mutation_default =
         (Inr (i, mt), s1, m)))"

lemma restored_cases:
  assumes ok: "assets_ok K (rb_assets d)"
    and res: "restore_missing_asset L K policy E W lease a input d = (Inr RestoreRestored, d')"
  obtains r u final_url i s1 where "input_ok L K policy input" "length (ai_bytes input) < 2 ^ 63"
    "referenced_record a (rb_assets d) = Some r" "parse_asset_url L (rc_source_url r) = Inr u"
    "restore_blob K policy W input (rb_assets d) i s1"
    "d' = d\<lparr>rb_assets := restore_record (db_now E) a final_url i s1\<rparr>"
proof -
  let ?s = "rb_assets d"
  note body = res [unfolded restore_missing_asset_def Let_def]
  obtain u final_url byte_size r where v: "validate_asset_input L K policy input = Inr ()" "normalize_url L (ai_source_url input) = Inr u"
      "normalize_url L (ai_final_url input) = Inr final_url" "input_byte_size input = Inr byte_size" "referenced_record a ?s = Some r"
    using body by (auto split: sum.splits option.splits)
  have parse: "parse_asset_url L (rc_source_url r) = Inr u"
    using body v by (cases "url_parse L (rc_source_url r)")
      (auto simp: parse_asset_url_def result_simps split: sum.splits if_splits)
  have size: "byte_size = int (length (ai_bytes input))" "length (ai_bytes input) < 2 ^ 63"
    using v(4) by (auto simp: input_byte_size_def i64_try_from_def result_simps split: if_splits)
  obtain present where present: "record_present K (rc_blob_id r) ?s = Inr present"
    using body v by (auto split: sum.splits if_splits)
  obtain matching where m: "matching_candidate K ?s (ai_bytes input) (candidate_ids (ai_checksum input) byte_size ?s) = Inr matching"
    using body v present by (auto split: sum.splits if_splits)
  obtain i s1 where i: "restore_blob K policy W input ?s i s1"
    and d': "d' = d\<lparr>rb_assets := restore_record (db_now E) a (url_text L final_url) i s1\<rparr>"
  proof (cases matching)
    case (Some i)
    from matching_candidate_Some [OF ok m [unfolded Some]]
    have "restore_blob K policy W input ?s i ?s" by (auto simp: restore_blob_def candidate_ids_def)
    moreover have "d' = d\<lparr>rb_assets := restore_record (db_now E) a (url_text L final_url) i ?s\<rparr>"
      using body v present m Some by (auto split: sum.splits if_splits)
    ultimately show ?thesis by (rule that)
  next
    case None
    from matching_candidate_None [OF ok m [unfolded None]]
    have none: "\<forall>j \<in> set (candidate_ids (ai_checksum input) byte_size ?s). \<not> has_bytes ?s j (ai_bytes input)" .
    obtain i mt s1 mu where ins: "insert_blob K policy W 0 input (ai_checksum input) byte_size [] ?s mutation_default = (Inr (i, mt), s1, mu)"
      and d': "d' = d\<lparr>rb_assets := restore_record (db_now E) a (url_text L final_url) i s1\<rparr>"
      using body v present m None by (auto split: sum.splits if_splits prod.splits)
    have "restore_blob K policy W input ?s i s1" using none ins by (auto simp: restore_blob_def size(1))
    then show ?thesis using d' by (rule that)
  qed
  show ?thesis by (rule that [OF _ size(2) v(5) parse i d']) (simp add: input_ok_def v(1))
qed


lemma restore_blob_effect:
  assumes ok: "assets_ok K s" and input: "input_ok L K policy input" "length (ai_bytes input) < 2 ^ 63"
    and fresh: "we_blob_id W 0 \<notin> b_id ` set (a_blobs s)" "\<not> deletion_queued (we_blob_id W 0) s"
    and blob: "restore_blob K policy W input s i s1"
  obtains bs where "map content (a_blobs s1) = map content (a_blobs s @ bs)" "assets_ok K s1"
    "map record_core (a_records s1) = map record_core (a_records s)" "a_links s1 = a_links s" "a_deletion_queue s1 = a_deletion_queue s"
    "has_bytes s1 i (ai_bytes input)" "\<not> deletion_queued i s1"
    "bs = [] \<or> (\<exists>b. bs = [b] \<and> b_data b = Some (ai_bytes input) \<and> b_byte_size b = int (length (ai_bytes input)))"
    "bs = [] \<longrightarrow> (\<exists>j. has_bytes s j (ai_bytes input) \<and> \<not> deletion_queued j s)"
  using blob [unfolded restore_blob_def]
proof (elim disjE conjE exE)
  assume "s1 = s" "has_bytes s i (ai_bytes input)" "\<not> deletion_queued i s"
  with ok show thesis by (intro that [of "[]"]) auto
next
  fix mt m
  assume ins: "insert_blob K policy W 0 input (ai_checksum input) (int (length (ai_bytes input))) [] s mutation_default = (Inr (i, mt), s1, m)"
  note facts = input_ok_facts [OF input(1)]
  obtain b extra where b: "grows s mutation_default [b] [] extra s1 m" "b_id b = i" "i = we_blob_id W 0"
      "b_data b = Some (ai_bytes input)" "blob_ok K b" "a_links s1 = a_links s" "assets_ok K s1"
    by (rule insert_blob_Inr [OF ok mut_ok_default facts refl input(2) fresh(1) ins])
  from grows_find(2) [OF b(1) ok b(7)] b(2,4) have "has_bytes s1 i (ai_bytes input)" by (auto simp: has_bytes_def content_def)
  moreover have "b_byte_size b = int (length (ai_bytes input))" using b(4,5) by (simp add: blob_ok_def)
  ultimately show thesis
    using b fresh(2) by (intro that [of "[b]"]) (auto simp: grows_def deletion_queued_def)
qed

lemma restore_record_frame:
  "map content (a_blobs (restore_record now a final_url i s)) = map content (a_blobs s)"
  "a_links (restore_record now a final_url i s) = a_links s" "a_deletion_queue (restore_record now a final_url i s) = a_deletion_queue s"
  "a_records (restore_record now a final_url i s) = update_rows (\<lambda>r. rc_id r = a)
     (\<lambda>r. r\<lparr>rc_final_url := final_url, rc_blob_id := Some i, rc_fetch_status := ''available'',
            rc_last_error := None, rc_updated_at := now\<rparr>) (a_records s)"
  by (simp_all add: restore_record_def)

lemma has_bytes_content:
  assumes ok: "assets_ok K s'" and c: "map content (a_blobs s') = map content (a_blobs s @ bs)" and b: "has_bytes s i body"
  shows "has_bytes s' i body"
proof -
  from b obtain b where b: "b \<in> set (a_blobs s)" "b_id b = i" "b_data b = Some body"
    by (auto simp: has_bytes_def find_blob_def dest!: find_SomeD)
  from content_mem [OF c [symmetric], of b] b(1) obtain b' where b': "b' \<in> set (a_blobs s')" "content b' = content b" by auto
  then have "find_blob i s' = Some b'" "b_data b' = Some body" using find_blob_mem [OF ok b'(1)] b by (auto simp: content_def)
  then show ?thesis by (simp add: has_bytes_def)
qed

lemma restore_record_ok:
  assumes ok: "assets_ok K s" and bytes: "has_bytes s i body"
  shows "assets_ok K (restore_record now a final_url i s)"
proof -
  let ?s = "restore_record now a final_url i s"
  note f = restore_record_frame [of now a final_url i s]
  have "blob_ok K b" if "b \<in> set (a_blobs ?s)" for b
    using content_mem [OF f(1) that] content_blob_ok ok by (metis assets_ok_def)
  moreover have "find_blob j ?s \<noteq> None" if "r \<in> set (a_records ?s)" "rc_blob_id r = Some j" for r j
  proof -
    have "find_blob j s \<noteq> None"
      using that ok bytes unfolding f(4) by (auto simp: set_update_rows assets_ok_def has_bytes_def split: if_splits)
    then show ?thesis by (simp only: find_content [OF f(1)] not_False_eq_True)
  qed
  moreover have "map rc_id (a_records ?s) = map rc_id (a_records s)" unfolding f(4) by (rule update_rows_keys) simp
  ultimately show ?thesis using ok content_ids [OF f(1)] unfolding assets_ok_def by simp
qed


section \<open>Properties\<close>

text \<open>
  (C33) A restored asset reads back. When restoring a missing asset succeeds, the public id of the asset reads the
  fetched bytes with their checksum; the links of articles, the jobs and the refresh tables are as they were.
\<close>

theorem restored_asset_reads_back:
  assumes ok: "assets_ok K (rb_assets d)" and fresh: "we_blob_id W 0 \<notin> b_id ` set (a_blobs (rb_assets d))"
      "\<not> deletion_queued (we_blob_id W 0) (rb_assets d)"
    and res: "restore_missing_asset L K policy E W lease a input d = (Inr RestoreRestored, d')"
  shows "(\<exists>mt t. read_and_touch L K now a (rb_assets d') =
      (Inr (Some (AssetAvailable mt (sha256_hex K (ai_bytes input)) (ai_bytes input))), t)) \<and>
    assets_ok K (rb_assets d') \<and> a_links (rb_assets d') = a_links (rb_assets d) \<and>
    rb_pg d' = rb_pg d \<and> rb_states d' = rb_states d"
proof -
  let ?s = "rb_assets d" and ?s' = "rb_assets d'"
  obtain r u final_url i s1 where c: "input_ok L K policy input" "length (ai_bytes input) < 2 ^ 63" "referenced_record a ?s = Some r"
      "parse_asset_url L (rc_source_url r) = Inr u" "restore_blob K policy W input ?s i s1"
      "d' = d\<lparr>rb_assets := restore_record (db_now E) a final_url i s1\<rparr>"
    by (rule restored_cases [OF ok res])
  obtain bs where e: "assets_ok K s1" "map record_core (a_records s1) = map record_core (a_records ?s)" "a_links s1 = a_links ?s"
      "has_bytes s1 i (ai_bytes input)" "\<not> deletion_queued i s1"
    by (rule restore_blob_effect [OF ok c(1,2) fresh c(5)])
  note f = restore_record_frame [of "db_now E" a final_url i s1]
  have ok': "assets_ok K ?s'" using restore_record_ok [OF e(1,4)] by (simp add: c(6))
  have K: "blob_libs_ok K" using ok by (simp add: assets_ok_def)
  have r: "r \<in> set (a_records ?s)" "rc_id r = a" "linked a ?s"
    using c(3) find_SomeD [of "\<lambda>r. rc_id r = a \<and> linked a ?s" "a_records ?s" r] by (simp_all add: referenced_record_def)
  have "record_core r \<in> set (map record_core (a_records s1))" unfolding e(2) using r(1) by simp
  then obtain r1 where r1: "r1 \<in> set (a_records s1)" "rc_id r1 = a" "rc_source_url r1 = rc_source_url r"
    using r(2) by (auto simp: record_core_def)
  let ?r = "r1\<lparr>rc_final_url := final_url, rc_blob_id := Some i, rc_fetch_status := ''available'',
            rc_last_error := None, rc_updated_at := db_now E\<rparr>"
  have "?r \<in> set (a_records ?s')" using r1(1,2) by (auto simp: c(6) f(4) set_update_rows)
  then have found: "find (\<lambda>x. rc_id x = a) (a_records ?s') = Some ?r"
    using ok' r1(2) find_keyed [of rc_id "a_records ?s'" ?r] by (simp add: assets_ok_def)
  have link: "linked a ?s'" using r(3) by (simp add: linked_def c(6) f(2) e(3))
  have live: "\<not> deletion_queued i ?s'" using e(5) by (simp add: deletion_queued_def c(6) f(3))
  have "has_bytes ?s' i (ai_bytes input)"
    by (rule has_bytes_content [OF ok' _ e(4), of "[]"]) (simp add: c(6) f(1))
  then obtain b where b: "find_blob i ?s' = Some b" "b_data b = Some (ai_bytes input)" by (auto simp: has_bytes_def)
  then have bok: "blob_ok K b" using find_blob_ok [OF ok'] by blast
  with b(2) have "b_checksum b = sha256_hex K (ai_bytes input)" by (simp add: blob_ok_def)
  with read_eq [OF K b(1) bok] b(2)
  have read: "read_in_transaction K (for_blob_id K i) ?s' =
      Inr (Some \<lparr>blob_bytes = ai_bytes input, blob_media_type = b_media_type b, blob_checksum = sha256_hex K (ai_bytes input)\<rparr>)" by simp
  have "\<exists>mt t. read_and_touch L K now a ?s' = (Inr (Some (AssetAvailable mt (sha256_hex K (ai_bytes input)) (ai_bytes input))), t)"
    unfolding read_and_touch_def transact_def using found link live read c(4) r1(3) by (simp add: result_simps)
  with ok' show ?thesis by (simp add: c(6) f(2) e(3))
qed

text \<open>
  (C40) Restoring never frees space. It enforces the limit of the cache before it writes a new blob, but whatever
  it chooses to evict keeps its bytes: every stored body is still stored afterwards, and when no live blob had the
  restored bytes, the cache has grown by their length, whatever the limit is.
\<close>

theorem restore_frees_nothing:
  assumes ok: "assets_ok K (rb_assets d)" and fresh: "we_blob_id W 0 \<notin> b_id ` set (a_blobs (rb_assets d))"
      "\<not> deletion_queued (we_blob_id W 0) (rb_assets d)"
    and res: "restore_missing_asset L K policy E W lease a input d = (Inr RestoreRestored, d')"
  shows "(\<forall>i body. has_bytes (rb_assets d) i body \<longrightarrow> has_bytes (rb_assets d') i body) \<and>
    ((\<forall>i. \<not> deletion_queued i (rb_assets d) \<longrightarrow> \<not> has_bytes (rb_assets d) i (ai_bytes input)) \<longrightarrow>
      stored_size [] (rb_assets d') = stored_size [] (rb_assets d) + int (length (ai_bytes input)))"
proof -
  let ?s = "rb_assets d" and ?s' = "rb_assets d'"
  obtain r u final_url i s1 where c: "input_ok L K policy input" "length (ai_bytes input) < 2 ^ 63"
      "restore_blob K policy W input ?s i s1" "d' = d\<lparr>rb_assets := restore_record (db_now E) a final_url i s1\<rparr>"
    by (rule restored_cases [OF ok res])
  obtain bs where e: "map content (a_blobs s1) = map content (a_blobs ?s @ bs)" "assets_ok K s1" "has_bytes s1 i (ai_bytes input)"
      "bs = [] \<or> (\<exists>b. bs = [b] \<and> b_data b = Some (ai_bytes input) \<and> b_byte_size b = int (length (ai_bytes input)))"
      "bs = [] \<longrightarrow> (\<exists>j. has_bytes ?s j (ai_bytes input) \<and> \<not> deletion_queued j ?s)"
    by (rule restore_blob_effect [OF ok c(1,2) fresh c(3)])
  have ok': "assets_ok K ?s'" using restore_record_ok [OF e(2,3)] by (simp add: c(4))
  have blobs: "map content (a_blobs ?s') = map content (a_blobs ?s @ bs)"
    using e(1) by (simp add: c(4) restore_record_frame(1))
  have size: "stored_size [] ?s' = stored_size [] ?s + sum_list (map b_byte_size (filter (\<lambda>b. b_data b \<noteq> None) bs))"
    using content_stored_size [OF blobs, of "\<lambda>_. True"] by (simp add: stored_size_def stored_blobs_def)
  show ?thesis
  proof (intro conjI allI impI)
    show "has_bytes ?s' j body" if "has_bytes ?s j body" for j body by (rule has_bytes_content [OF ok' blobs that])
    assume "\<forall>j. \<not> deletion_queued j ?s \<longrightarrow> \<not> has_bytes ?s j (ai_bytes input)"
    with e(4,5) obtain b where "bs = [b]" "b_data b = Some (ai_bytes input)" "b_byte_size b = int (length (ai_bytes input))" by blast
    with size show "stored_size [] ?s' = stored_size [] ?s + int (length (ai_bytes input))" by simp
  qed
qed


section \<open>A cache at its limit\<close>

text \<open>The cache holds two bytes, its limit; the record of an asset that an article shows has none.\<close>

definition example_full :: asset_db where
  "example_full = example_cache\<lparr>a_records := a_records example_cache @
       [\<lparr>rc_id = 3, rc_source_url = example_prefix @ lit ''a'', rc_version = 1, rc_final_url = example_prefix @ lit ''a'',
         rc_blob_id = None, rc_fetch_status = ''missing'', rc_last_error = None, rc_updated_at = 0\<rparr>],
     a_links := [\<lparr>aa_source_id = 5, aa_review_id = [65], aa_record_id = 3, aa_occurrence = 0, aa_role = ''content'',
         aa_referer_url = example_prefix @ lit ''r'', aa_origin = None, aa_user_agent = None\<rparr>]\<rparr>"

definition example_full_db :: repair_db where
  "example_full_db = \<lparr>rb_pg = \<lparr>pg_jobs = [bind_job (example_claimed\<lparr>j_type := AssetRepair\<rparr>)], pg_repair_jobs = [],
       pg_refresh_states = [], pg_entries = [], pg_lineage = []\<rparr>, rb_assets = example_full, rb_states = []\<rparr>"

definition example_restore :: "asset_repair_restore_result repair_result" where
  "example_restore = restore_missing_asset example_libs example_blob_libs (example_cache_policy 2)
     \<lparr>db_now = 100, cleanup_now = (\<lambda>_. (100, 100)), ts_add = (\<lambda>t d. Some (t + d)), locked = []\<rparr> example_write_env
     \<lparr>l_job = example_claimed\<lparr>j_type := AssetRepair\<rparr>, l_token = 1\<rparr> 3 (example_asset_input ''a'' [9] 0 101) example_full_db"

lemma example_full_ok: "assets_ok example_blob_libs example_full"
  using example_cache_ok by (auto simp: assets_ok_def example_full_def find_blob_def example_cache_def)

lemma example_full_enforce:
  "enforce_cache_limit 100 (example_limit 2) [] example_full =
     (Inr (1, [1]), mark_evicted 100 1 ''asset bytes evicted by size policy'' example_full)"
proof -
  have "stored_blobs [] example_full = a_blobs example_full" "cached_byte_size [] example_full = Inr 2"
    "oldest_stored [] example_full = Some (1, 2)"
    by (simp_all add: stored_blobs_def cached_byte_size_def oldest_stored_def example_full_def example_cache_def)
  then show ?thesis
    by (simp add: enforce_cache_limit_def example_limit_def i64_try_from_def i64_checked_add_def exceeds_def
      evict_until.simps [of 100 "2::int"] i64_saturating_sub_def)
qed

lemma example_full_insert:
  "\<exists>s m. insert_blob example_blob_libs (example_cache_policy 2) example_write_env 0 (example_asset_input ''a'' [9] 0 101) example_sum 1 []
     example_full mutation_default = (Inr (50, lit ''image/png''), s, m)"
proof -
  let ?s = "mark_evicted 100 1 ''asset bytes evicted by size policy'' example_full"
  have limit: "\<lparr>cl_max_bytes = 2, cl_additional_bytes = word_of_int 1, cl_protected = [], cl_pending_bytes = 0, cl_pending_blob_ids = []\<rparr> = example_limit 2"
    by (simp add: example_limit_def)
  have none: "find_blob 50 ?s = None"
    by (simp add: find_blob_None example_full_def example_cache_def)
  show ?thesis
    by (simp add: insert_blob_def example_cache_policy_def mutation_default_def example_write_env_def limit [simplified] example_full_enforce
       example_input_simps example_blob_new put_in_transaction_def example_blob_libs_ok none find_blob_appended new_blob_row_def checked_add_def)
qed


lemma example_restored: "\<exists>d'. example_restore = (Inr RestoreRestored, d')"
proof -
  let ?E = "\<lparr>db_now = 100, cleanup_now = (\<lambda>_. (100, 100)), ts_add = (\<lambda>t d. Some (t + d)), locked = []\<rparr>"
  let ?lease = "\<lparr>l_job = example_claimed\<lparr>j_type := AssetRepair\<rparr>, l_token = 1\<rparr>"
  have lease: "lock_live_repair_lease ?E ?lease (rb_pg example_full_db) = Inr ()"
    by (simp add: lock_live_repair_lease_def fence_def example_full_db_def bind_job_def example_claimed_def example_job_eq job_eval)
  have found: "referenced_record 3 example_full = Some (last (a_records example_full))"
    by (simp add: referenced_record_def linked_def example_full_def example_cache_def)
  have row: "rc_source_url (last (a_records example_full)) = example_prefix @ lit ''a''" "rc_blob_id (last (a_records example_full)) = None"
    by (simp_all add: example_full_def)
  have url: "url_parse example_libs (example_prefix @ lit ''a'') = Some (example_url (lit ''a''))"
    by (rule example_url_parse) (simp add: is_whitespace_def)
  have candidates: "candidate_ids example_sum 1 example_full = []"
    by (simp add: candidate_ids_def example_full_def example_cache_def)
  have input: "ai_source_url (example_asset_input ''a'' [9] 0 101) = example_url (lit ''a'')"
    "ai_final_url (example_asset_input ''a'' [9] 0 101) = example_url (lit ''a'')"
    "ai_checksum (example_asset_input ''a'' [9] 0 101) = example_sum" "input_byte_size (example_asset_input ''a'' [9] 0 101) = Inr 1"
    by (simp_all add: example_input_simps ok_or_def)
  obtain s m where ins: "insert_blob example_blob_libs (example_cache_policy 2) example_write_env 0 (example_asset_input ''a'' [9] 0 101)
      example_sum 1 [] example_full mutation_default = (Inr (50, lit ''image/png''), s, m)" using example_full_insert by blast
  have assets: "rb_assets example_full_db = example_full" by (simp add: example_full_db_def)
  show ?thesis
    unfolding example_restore_def restore_missing_asset_def Let_def assets example_valid(1) sum.case input example_normalize_url found option.case row url
      record_present_def ok_or_def bindE_simps
    by (simp add: candidates ins lease)
qed

lemma example_full_ready:
  "assets_ok example_blob_libs (rb_assets example_full_db)"
  "we_blob_id example_write_env 0 \<notin> b_id ` set (a_blobs (rb_assets example_full_db))"
  "\<not> deletion_queued (we_blob_id example_write_env 0) (rb_assets example_full_db)"
  using example_full_ok
  by (simp_all add: example_full_db_def example_full_def example_cache_def example_write_env_def deletion_queued_def)

theorem restored_asset_reads_back_witness:
  "\<exists>d' mt t. example_restore = (Inr RestoreRestored, d') \<and>
     read_and_touch example_libs example_blob_libs 200 3 (rb_assets d') = (Inr (Some (AssetAvailable mt example_sum [9])), t)"
proof -
  obtain d' where d': "example_restore = (Inr RestoreRestored, d')" using example_restored by blast
  from restored_asset_reads_back [OF example_full_ready d' [unfolded example_restore_def], of 200] d' show ?thesis
    by (auto simp: example_input_simps)
qed

text \<open>The cache is one byte over its limit.\<close>

theorem restore_frees_nothing_witness:
  "\<exists>d'. example_restore = (Inr RestoreRestored, d') \<and> max_cache_size_bytes (example_cache_policy 2) = 2 \<and>
     stored_size [] (rb_assets example_full_db) = 2 \<and> stored_size [] (rb_assets d') = 3"
proof -
  obtain d' where d': "example_restore = (Inr RestoreRestored, d')" using example_restored by blast
  have "\<not> has_bytes (rb_assets example_full_db) i (ai_bytes (example_asset_input ''a'' [9] 0 101))" for i
    by (auto simp: has_bytes_def find_blob_def example_full_db_def example_full_def example_cache_def example_input_simps)
  moreover have size: "stored_size [] (rb_assets example_full_db) = 2"
    by (simp add: stored_size_def stored_blobs_def example_full_db_def example_full_def example_cache_def)
  ultimately have "stored_size [] (rb_assets d') = 3"
    using restore_frees_nothing [OF example_full_ready d' [unfolded example_restore_def]] by (simp add: example_input_simps)
  with d' size show ?thesis by (intro exI [of _ d']) (simp add: example_cache_policy_def)
qed

end
