(* ===== verification/Asset_Chains.thy ===== *)
theory Asset_Chains
  imports Asset_Refresh Job_Pg_Refine
begin

text \<open>
  What holds of the refresh tables through every transition of \<open>Asset_Refresh\<close> and of the job queue: the
  table constraints, that only the generation being served has work left, and that a chain is never
  stranded: while one is active, exactly one of its entries is in flight and an active job carries it.
  The invariant has a set of assets whose chain is being moved within a transition.
\<close>

section \<open>The invariant\<close>

definition carries :: "pg \<Rightarrow> uuid \<Rightarrow> generation_entry_row \<Rightarrow> bool" where
  "carries p c e \<longleftrightarrow>
     (\<exists>r \<in> set (pg_repair_jobs p). \<exists>j \<in> set (pg_jobs p).
        r_id j = arj_job_id r \<and> r_status j \<in> set active_statuses \<and> r_job_type j = job_type_name AssetRefresh \<and>
        arj_admission_class r = ''internal_refresh'' \<and> arj_refresh_source_id r = Some (ge_source_id e) \<and>
        arj_refresh_review_id r = Some (ge_review_id e) \<and> arj_expired_asset_record_id r = Some (ge_asset_record_id e) \<and>
        arj_chain_id r = Some c \<and> arj_chain_ordinal r = Some (ge_ordinal e))"

definition keys_ok :: "pg \<Rightarrow> bool" where
  "keys_ok p \<longleftrightarrow>
     distinct (map ars_asset_record_id (pg_refresh_states p)) \<and> distinct (map entry_key (pg_entries p)) \<and>
     distinct (map arj_job_id (pg_repair_jobs p)) \<and> distinct (map r_id (pg_jobs p)) \<and>
     (\<forall>r \<in> set (pg_repair_jobs p). \<exists>j \<in> set (pg_jobs p). r_id j = arj_job_id r)"

definition state_ok :: "refresh_state_row \<Rightarrow> bool" where
  "state_ok s \<longleftrightarrow>
     0 \<le> ars_completed_generation s \<and> ars_completed_generation s \<le> ars_served_generation s \<and>
     ars_served_generation s \<le> ars_requested_generation s"

definition entry_check :: "generation_entry_row \<Rightarrow> bool" where
  "entry_check e \<longleftrightarrow>
     0 < ge_generation e \<and> 0 < ge_ordinal e \<and>
     (ge_state e = ''unseen'' \<or> ge_state e = ''in_flight'' \<or> ge_state e = ''cooling'' \<or> ge_state e = ''done'') \<and>
     (ge_state e = ''cooling'' \<longleftrightarrow> ge_not_before e \<noteq> None)"

definition entry_served :: "refresh_state_row \<Rightarrow> generation_entry_row \<Rightarrow> bool" where
  "entry_served s e \<longleftrightarrow>
     ge_generation e \<le> ars_served_generation s \<and>
     (ge_state e \<noteq> ''done'' \<longrightarrow>
        ge_generation e = ars_served_generation s \<and> ars_completed_generation s < ars_served_generation s)"

definition in_flight :: "generation_entry_row \<Rightarrow> bool" where
  "in_flight e \<longleftrightarrow> ge_state e = ''in_flight''"

definition refresh_inv :: "uuid set \<Rightarrow> pg \<Rightarrow> bool" where
  "refresh_inv X p \<longleftrightarrow>
     keys_ok p \<and> (\<forall>s \<in> set (pg_refresh_states p). state_ok s) \<and>
     (\<forall>e \<in> set (pg_entries p). entry_check e \<and>
        (\<exists>s \<in> set (pg_refresh_states p). ars_asset_record_id s = ge_asset_record_id e \<and> entry_served s e \<and>
           (in_flight e \<longrightarrow> ge_asset_record_id e \<notin> X \<and> ars_active_chain_id s \<noteq> None))) \<and>
     (\<forall>s \<in> set (pg_refresh_states p). \<forall>c. ars_active_chain_id s = Some c \<longrightarrow> ars_asset_record_id s \<notin> X \<longrightarrow>
        (\<exists>e \<in> set (pg_entries p). ge_asset_record_id e = ars_asset_record_id s \<and> in_flight e \<and> carries p c e)) \<and>
     (\<forall>e \<in> set (pg_entries p). \<forall>e' \<in> set (pg_entries p).
        in_flight e \<longrightarrow> in_flight e' \<longrightarrow> ge_asset_record_id e = ge_asset_record_id e' \<longrightarrow> e = e')"

lemma refresh_invI:
  assumes "keys_ok p" "\<And>s. s \<in> set (pg_refresh_states p) \<Longrightarrow> state_ok s"
    "\<And>e. e \<in> set (pg_entries p) \<Longrightarrow> entry_check e"
    "\<And>e. e \<in> set (pg_entries p) \<Longrightarrow> \<exists>s \<in> set (pg_refresh_states p). ars_asset_record_id s = ge_asset_record_id e \<and> entry_served s e \<and>
           (in_flight e \<longrightarrow> ge_asset_record_id e \<notin> X \<and> ars_active_chain_id s \<noteq> None)"
    "\<And>s c. s \<in> set (pg_refresh_states p) \<Longrightarrow> ars_active_chain_id s = Some c \<Longrightarrow> ars_asset_record_id s \<notin> X \<Longrightarrow>
       \<exists>e \<in> set (pg_entries p). ge_asset_record_id e = ars_asset_record_id s \<and> in_flight e \<and> carries p c e"
    "\<And>e e'. e \<in> set (pg_entries p) \<Longrightarrow> e' \<in> set (pg_entries p) \<Longrightarrow> in_flight e \<Longrightarrow> in_flight e' \<Longrightarrow>
       ge_asset_record_id e = ge_asset_record_id e' \<Longrightarrow> e = e'"
  shows "refresh_inv X p"
  unfolding refresh_inv_def using assms by (intro conjI ballI allI impI) blast+

lemma refresh_invD:
  assumes "refresh_inv X p"
  shows "keys_ok p" "s \<in> set (pg_refresh_states p) \<Longrightarrow> state_ok s" "e \<in> set (pg_entries p) \<Longrightarrow> entry_check e"
    "s \<in> set (pg_refresh_states p) \<Longrightarrow> ars_active_chain_id s = Some c \<Longrightarrow> ars_asset_record_id s \<notin> X \<Longrightarrow>
       \<exists>e \<in> set (pg_entries p). ge_asset_record_id e = ars_asset_record_id s \<and> in_flight e \<and> carries p c e"
    "e \<in> set (pg_entries p) \<Longrightarrow> e' \<in> set (pg_entries p) \<Longrightarrow> in_flight e \<Longrightarrow> in_flight e' \<Longrightarrow>
       ge_asset_record_id e = ge_asset_record_id e' \<Longrightarrow> e = e'"
  using assms unfolding refresh_inv_def by blast+

text \<open>The state of an entry, and the only one.\<close>

lemma state_unique:
  assumes "keys_ok p" "s \<in> set (pg_refresh_states p)" "s' \<in> set (pg_refresh_states p)"
    "ars_asset_record_id s = ars_asset_record_id s'"
  shows "s = s'"
  using assms by (intro distinct_key_eq [of ars_asset_record_id "pg_refresh_states p"]) (auto simp: keys_ok_def)

lemma refresh_inv_entry:
  assumes "refresh_inv X p" "e \<in> set (pg_entries p)" "s \<in> set (pg_refresh_states p)" "ars_asset_record_id s = ge_asset_record_id e"
  shows "entry_served s e" "in_flight e \<Longrightarrow> ge_asset_record_id e \<notin> X" "in_flight e \<Longrightarrow> ars_active_chain_id s \<noteq> None"
proof -
  from assms(1,2) obtain s' where s': "s' \<in> set (pg_refresh_states p)" "ars_asset_record_id s' = ge_asset_record_id e"
    "entry_served s' e" "in_flight e \<longrightarrow> ge_asset_record_id e \<notin> X \<and> ars_active_chain_id s' \<noteq> None"
    unfolding refresh_inv_def by blast
  then have "s' = s" using state_unique [OF refresh_invD(1) [OF assms(1)] s'(1) assms(3)] assms(4) by simp
  with s' show "entry_served s e" "in_flight e \<Longrightarrow> ge_asset_record_id e \<notin> X" "in_flight e \<Longrightarrow> ars_active_chain_id s \<noteq> None"
    by auto
qed

lemma refresh_inv_state:
  assumes "refresh_inv X p" "e \<in> set (pg_entries p)"
  obtains s where "s \<in> set (pg_refresh_states p)" "ars_asset_record_id s = ge_asset_record_id e"
  using assms unfolding refresh_inv_def by blast


section \<open>Moves that keep it\<close>

text \<open>Entries change their state but nothing enters or leaves the air.\<close>

definition same_entry :: "generation_entry_row \<Rightarrow> generation_entry_row \<Rightarrow> bool" where
  "same_entry e e' \<longleftrightarrow>
     ge_asset_record_id e' = ge_asset_record_id e \<and> ge_generation e' = ge_generation e \<and> ge_ordinal e' = ge_ordinal e \<and>
     ge_source_id e' = ge_source_id e \<and> ge_review_id e' = ge_review_id e"

lemma same_entry_simps:
  assumes "same_entry e e'"
  shows "ge_asset_record_id e' = ge_asset_record_id e" "ge_generation e' = ge_generation e" "entry_key e' = entry_key e"
    "carries p c e' = carries p c e" "of_generation a g e' = of_generation a g e"
  using assms by (auto simp: same_entry_def carries_def entry_key_def of_generation_def)

lemma refresh_inv_map_entries:
  assumes inv: "refresh_inv X p" and sub: "X \<subseteq> Y"
    and p': "pg_entries p' = map f (pg_entries p)" "pg_refresh_states p' = pg_refresh_states p"
      "pg_repair_jobs p' = pg_repair_jobs p" "pg_jobs p' = pg_jobs p"
    and same: "\<And>e. same_entry e (f e)"
    and air: "\<And>e. e \<in> set (pg_entries p) \<Longrightarrow> in_flight (f e) \<longleftrightarrow> in_flight e \<and> ge_asset_record_id e \<notin> Y"
    and check: "\<And>e. e \<in> set (pg_entries p) \<Longrightarrow> entry_check (f e)"
    and ended: "\<And>e. e \<in> set (pg_entries p) \<Longrightarrow> ge_state e = ''done'' \<Longrightarrow> ge_state (f e) = ''done''"
  shows "refresh_inv Y p'"
proof (rule refresh_invI)
  note simps = same_entry_simps [OF same]
  have carries: "carries p' c e = carries p c e" for c e by (simp add: carries_def p')
  show "keys_ok p'" using refresh_invD(1) [OF inv] by (simp add: keys_ok_def p' comp_def simps)
  show "state_ok s" if "s \<in> set (pg_refresh_states p')" for s using that refresh_invD(2) [OF inv] by (simp add: p')
  show "entry_check e" if "e \<in> set (pg_entries p')" for e using that check by (auto simp: p')
  show "\<exists>s \<in> set (pg_refresh_states p'). ars_asset_record_id s = ge_asset_record_id e \<and> entry_served s e \<and>
     (in_flight e \<longrightarrow> ge_asset_record_id e \<notin> Y \<and> ars_active_chain_id s \<noteq> None)" if "e \<in> set (pg_entries p')" for e
  proof -
    from that obtain x where x: "x \<in> set (pg_entries p)" "e = f x" by (auto simp: p')
    obtain s where s: "s \<in> set (pg_refresh_states p)" "ars_asset_record_id s = ge_asset_record_id x"
      by (rule refresh_inv_state [OF inv x(1)])
    have "entry_served s (f x)" using refresh_inv_entry(1) [OF inv x(1) s] ended [OF x(1)] by (auto simp: entry_served_def simps)
    with s refresh_inv_entry(2,3) [OF inv x(1) s] air [OF x(1)] show ?thesis by (auto simp: x(2) p' simps)
  qed
  show "\<exists>e \<in> set (pg_entries p'). ge_asset_record_id e = ars_asset_record_id s \<and> in_flight e \<and> carries p' c e"
    if "s \<in> set (pg_refresh_states p')" "ars_active_chain_id s = Some c" "ars_asset_record_id s \<notin> Y" for s c
  proof -
    have "ars_asset_record_id s \<notin> X" using that(3) sub by blast
    from refresh_invD(4) [OF inv _ that(2) this] that(1) obtain e where
      "e \<in> set (pg_entries p)" "ge_asset_record_id e = ars_asset_record_id s" "in_flight e" "carries p c e" by (auto simp: p')
    then show ?thesis using air that(3) by (auto simp: p' carries simps intro!: bexI [of _ e])
  qed
  show "e = e'" if "e \<in> set (pg_entries p')" "e' \<in> set (pg_entries p')" "in_flight e" "in_flight e'"
      "ge_asset_record_id e = ge_asset_record_id e'" for e e'
  proof -
    from that(1,2) obtain x x' where x: "x \<in> set (pg_entries p)" "e = f x" "x' \<in> set (pg_entries p)" "e' = f x'" by (auto simp: p')
    with that(3-5) air have "x = x'" by (intro refresh_invD(5) [OF inv]) (auto simp: simps)
    with x show ?thesis by simp
  qed
qed

lemma in_flight_outside: "refresh_inv X p \<Longrightarrow> e \<in> set (pg_entries p) \<Longrightarrow> in_flight e \<Longrightarrow> ge_asset_record_id e \<notin> X"
  by (metis refresh_inv_state refresh_inv_entry(2))

lemma entry_done_check: "entry_check e \<Longrightarrow> entry_check (entry_done e)"
  by (simp add: entry_check_def)

lemma retire_pending_inv:
  assumes "refresh_inv X p" "\<And>e. e \<in> set (pg_entries p) \<Longrightarrow> P e \<Longrightarrow> entry_pending e"
  shows "refresh_inv X (retire P p)"
proof (rule refresh_inv_map_entries [OF assms(1) subset_refl])
  show "pg_entries (retire P p) = map (\<lambda>e. if P e then entry_done e else e) (pg_entries p)" by (simp add: retire_def update_rows_def)
  show "in_flight (if P e then entry_done e else e) \<longleftrightarrow> in_flight e \<and> ge_asset_record_id e \<notin> X" if "e \<in> set (pg_entries p)" for e
    using assms(2) [OF that] in_flight_outside [OF assms(1) that] by (auto simp: in_flight_def entry_pending_def)
  show "entry_check (if P e then entry_done e else e)" if "e \<in> set (pg_entries p)" for e
    using refresh_invD(3) [OF assms(1) that] entry_done_check by simp
qed (simp_all add: retire_def same_entry_def)

text \<open>The entries in flight of an asset land.\<close>

lemma land_inv:
  assumes inv: "refresh_inv X p" and p': "p' = p\<lparr>pg_entries := update_rows P f (pg_entries p)\<rparr>"
    and landed: "\<And>e. e \<in> set (pg_entries p) \<Longrightarrow> P e \<Longrightarrow> ge_asset_record_id e = a"
      "\<And>e. e \<in> set (pg_entries p) \<Longrightarrow> in_flight e \<Longrightarrow> ge_asset_record_id e = a \<Longrightarrow> P e"
    and f: "\<And>e. same_entry e (f e)" "\<And>e. \<not> in_flight (f e)" "\<And>e. entry_check e \<Longrightarrow> entry_check (f e)"
      "\<And>e. e \<in> set (pg_entries p) \<Longrightarrow> P e \<Longrightarrow> ge_state e = ''done'' \<Longrightarrow> ge_state (f e) = ''done''"
  shows "refresh_inv (insert a X) p'"
proof (rule refresh_inv_map_entries [OF inv])
  show "pg_entries p' = map (\<lambda>e. if P e then f e else e) (pg_entries p)" by (simp add: p' update_rows_def)
  show "in_flight (if P e then f e else e) \<longleftrightarrow> in_flight e \<and> ge_asset_record_id e \<notin> insert a X" if "e \<in> set (pg_entries p)" for e
    using landed [OF that] f(2) in_flight_outside [OF inv that] by auto
  show "entry_check (if P e then f e else e)" if "e \<in> set (pg_entries p)" for e
    using refresh_invD(3) [OF inv that] f(3) by simp
  show "ge_state (if P e then f e else e) = ''done''" if "e \<in> set (pg_entries p)" "ge_state e = ''done''" for e
    using f(4) [OF that(1)] that(2) by auto
qed (use f(1) in \<open>auto simp: p' same_entry_def\<close>)

text \<open>States change but keep their chain and what they serve.\<close>

lemma refresh_inv_map_states:
  assumes inv: "refresh_inv X p" and p': "pg_refresh_states p' = map f (pg_refresh_states p)" "pg_entries p' = pg_entries p"
      "pg_repair_jobs p' = pg_repair_jobs p" "pg_jobs p' = pg_jobs p"
    and keep: "\<And>s. ars_asset_record_id (f s) = ars_asset_record_id s" "\<And>s. ars_served_generation (f s) = ars_served_generation s"
      "\<And>s. ars_active_chain_id (f s) = ars_active_chain_id s"
    and ok: "\<And>s. s \<in> set (pg_refresh_states p) \<Longrightarrow> state_ok (f s)"
    and left: "\<And>s e. s \<in> set (pg_refresh_states p) \<Longrightarrow> e \<in> set (pg_entries p) \<Longrightarrow> ars_asset_record_id s = ge_asset_record_id e \<Longrightarrow>
      ge_state e \<noteq> ''done'' \<Longrightarrow> ge_generation e = ars_served_generation s \<Longrightarrow> ars_completed_generation s < ars_served_generation s \<Longrightarrow>
      ars_completed_generation (f s) < ars_served_generation s"
  shows "refresh_inv X p'"
proof (rule refresh_invI)
  have carries: "carries p' c e = carries p c e" for c e by (simp add: carries_def p')
  show "keys_ok p'" using refresh_invD(1) [OF inv] by (simp add: keys_ok_def p' comp_def keep)
  show "state_ok s" if "s \<in> set (pg_refresh_states p')" for s using that ok by (auto simp: p')
  show "entry_check e" if "e \<in> set (pg_entries p')" for e using that refresh_invD(3) [OF inv] by (simp add: p')
  show "\<exists>s \<in> set (pg_refresh_states p'). ars_asset_record_id s = ge_asset_record_id e \<and> entry_served s e \<and>
     (in_flight e \<longrightarrow> ge_asset_record_id e \<notin> X \<and> ars_active_chain_id s \<noteq> None)" if "e \<in> set (pg_entries p')" for e
  proof -
    from that have e: "e \<in> set (pg_entries p)" by (simp add: p')
    obtain s where s: "s \<in> set (pg_refresh_states p)" "ars_asset_record_id s = ge_asset_record_id e"
      by (rule refresh_inv_state [OF inv e])
    have "entry_served (f s) e"
      using refresh_inv_entry(1) [OF inv e s] left [OF s(1) e s(2)] by (auto simp: entry_served_def keep)
    with s refresh_inv_entry(2,3) [OF inv e s] show ?thesis by (auto simp: p' keep intro!: bexI [of _ s])
  qed
  show "\<exists>e \<in> set (pg_entries p'). ge_asset_record_id e = ars_asset_record_id s \<and> in_flight e \<and> carries p' c e"
    if "s \<in> set (pg_refresh_states p')" "ars_active_chain_id s = Some c" "ars_asset_record_id s \<notin> X" for s c
    using that refresh_invD(4) [OF inv] by (auto simp: p' keep carries)
  show "e = e'" if "e \<in> set (pg_entries p')" "e' \<in> set (pg_entries p')" "in_flight e" "in_flight e'"
      "ge_asset_record_id e = ge_asset_record_id e'" for e e'
    using that refresh_invD(5) [OF inv] by (simp add: p')
qed

lemma complete_inv:
  assumes inv: "refresh_inv X p"
    and g: "\<And>s. s \<in> set (pg_refresh_states p) \<Longrightarrow> ars_asset_record_id s = a \<Longrightarrow> g \<le> ars_served_generation s"
  shows "refresh_inv X (complete_refresh_generation_if_terminal E a g p)"
proof (cases "generation_unfinished a g p")
  case False
  let ?f = "\<lambda>s. if ars_asset_record_id s = a
      then s\<lparr>ars_completed_generation := max (ars_completed_generation s) g, ars_updated_at := db_now E\<rparr> else s"
  show ?thesis
  proof (rule refresh_inv_map_states [OF inv, of _ ?f])
    show "state_ok (?f s)" if "s \<in> set (pg_refresh_states p)" for s
      using refresh_invD(2) [OF inv that] g [OF that] by (auto simp: state_ok_def)
    show "ars_completed_generation (?f s) < ars_served_generation s"
      if "s \<in> set (pg_refresh_states p)" "e \<in> set (pg_entries p)" "ars_asset_record_id s = ge_asset_record_id e"
        "ge_state e \<noteq> ''done''" "ge_generation e = ars_served_generation s" "ars_completed_generation s < ars_served_generation s" for s e
    proof -
      have "g \<noteq> ars_served_generation s" if "ars_asset_record_id s = a"
        using False \<open>ge_state e \<noteq> ''done''\<close> \<open>e \<in> set (pg_entries p)\<close> that \<open>ge_generation e = ars_served_generation s\<close>
          \<open>ars_asset_record_id s = ge_asset_record_id e\<close> by (auto simp: generation_unfinished_def of_generation_def)
      with g [OF that(1)] that(6) show ?thesis by auto
    qed
  qed (simp_all add: complete_refresh_generation_if_terminal_def False set_state_def update_rows_def)
qed (simp add: complete_refresh_generation_if_terminal_def inv)

text \<open>Jobs come and go, as long as every entry in flight is still carried.\<close>

lemma refresh_inv_jobs:
  assumes inv: "refresh_inv X p" and p': "pg_refresh_states p' = pg_refresh_states p" "pg_entries p' = pg_entries p"
    and keys: "keys_ok p'" and carried: "\<And>e c. e \<in> set (pg_entries p) \<Longrightarrow> in_flight e \<Longrightarrow> carries p c e \<Longrightarrow> carries p' c e"
  shows "refresh_inv X p'"
proof (rule refresh_invI [OF keys])
  show "\<exists>s \<in> set (pg_refresh_states p'). ars_asset_record_id s = ge_asset_record_id e \<and> entry_served s e \<and>
     (in_flight e \<longrightarrow> ge_asset_record_id e \<notin> X \<and> ars_active_chain_id s \<noteq> None)" if "e \<in> set (pg_entries p')" for e
    using that inv unfolding refresh_inv_def p' by blast
  show "\<exists>e \<in> set (pg_entries p'). ge_asset_record_id e = ars_asset_record_id s \<and> in_flight e \<and> carries p' c e"
    if "s \<in> set (pg_refresh_states p')" "ars_active_chain_id s = Some c" "ars_asset_record_id s \<notin> X" for s c
    using that refresh_invD(4) [OF inv] carried unfolding p' by blast
qed (use refresh_invD [OF inv] in \<open>auto simp: p'\<close>)

text \<open>An asset without a chain may as well be on the move.\<close>

lemma refresh_inv_free:
  assumes "\<And>s. s \<in> set (pg_refresh_states p) \<Longrightarrow> ars_asset_record_id s = a \<Longrightarrow> ars_active_chain_id s = None"
  shows "refresh_inv (insert a X) p = refresh_inv X p"
proof
  assume inv: "refresh_inv X p"
  show "refresh_inv (insert a X) p"
  proof (rule refresh_inv_map_entries [OF inv, of _ _ "\<lambda>e. e"])
    show "in_flight e = (in_flight e \<and> ge_asset_record_id e \<notin> insert a X)" if e: "e \<in> set (pg_entries p)" for e
    proof -
      obtain s where s: "s \<in> set (pg_refresh_states p)" "ars_asset_record_id s = ge_asset_record_id e"
        by (rule refresh_inv_state [OF inv e])
      from refresh_inv_entry(2,3) [OF inv e s] assms [OF s(1)] s(2) show ?thesis by auto
    qed
  qed (use refresh_invD(3) [OF inv] in \<open>auto simp: same_entry_def\<close>)
next
  assume inv: "refresh_inv (insert a X) p"
  show "refresh_inv X p"
  proof (rule refresh_invI)
    show "\<exists>s \<in> set (pg_refresh_states p). ars_asset_record_id s = ge_asset_record_id e \<and> entry_served s e \<and>
       (in_flight e \<longrightarrow> ge_asset_record_id e \<notin> X \<and> ars_active_chain_id s \<noteq> None)" if "e \<in> set (pg_entries p)" for e
      using that inv unfolding refresh_inv_def by blast
    show "\<exists>e \<in> set (pg_entries p). ge_asset_record_id e = ars_asset_record_id s \<and> in_flight e \<and> carries p c e"
      if "s \<in> set (pg_refresh_states p)" "ars_active_chain_id s = Some c" "ars_asset_record_id s \<notin> X" for s c
      using that assms [OF that(1)] refresh_invD(4) [OF inv that(1,2)] by auto
  qed (use refresh_invD [OF inv] in auto)
qed

text \<open>The chain of an asset on the move is released.\<close>

lemma release_inv:
  assumes inv: "refresh_inv (insert a X) p" and p': "pg_refresh_states p' = map f (pg_refresh_states p)" "pg_entries p' = pg_entries p"
      "pg_repair_jobs p' = pg_repair_jobs p" "pg_jobs p' = pg_jobs p"
    and f: "\<And>s. ars_asset_record_id (f s) = ars_asset_record_id s" "\<And>s. ars_served_generation (f s) = ars_served_generation s"
      "\<And>s. ars_completed_generation (f s) = ars_completed_generation s" "\<And>s. ars_requested_generation (f s) = ars_requested_generation s"
      "\<And>s. s \<in> set (pg_refresh_states p) \<Longrightarrow> ars_active_chain_id (f s) = (if ars_asset_record_id s = a then None else ars_active_chain_id s)"
  shows "refresh_inv X p'"
proof -
  have carries: "carries p' c e = carries p c e" for c e by (simp add: carries_def p')
  have "refresh_inv (insert a X) p'"
  proof (rule refresh_invI)
    show "keys_ok p'" using refresh_invD(1) [OF inv] by (simp add: keys_ok_def p' comp_def f)
    show "state_ok s" if "s \<in> set (pg_refresh_states p')" for s using that refresh_invD(2) [OF inv] by (auto simp: p' state_ok_def f)
    show "\<exists>s \<in> set (pg_refresh_states p'). ars_asset_record_id s = ge_asset_record_id e \<and> entry_served s e \<and>
       (in_flight e \<longrightarrow> ge_asset_record_id e \<notin> insert a X \<and> ars_active_chain_id s \<noteq> None)" if "e \<in> set (pg_entries p')" for e
    proof -
      from that have e: "e \<in> set (pg_entries p)" by (simp add: p')
      obtain s where s: "s \<in> set (pg_refresh_states p)" "ars_asset_record_id s = ge_asset_record_id e"
        by (rule refresh_inv_state [OF inv e])
      from refresh_inv_entry [OF inv e s] s f show ?thesis by (auto simp: p' entry_served_def intro!: bexI [of _ s])
    qed
    show "\<exists>e \<in> set (pg_entries p'). ge_asset_record_id e = ars_asset_record_id s \<and> in_flight e \<and> carries p' c e"
      if "s \<in> set (pg_refresh_states p')" "ars_active_chain_id s = Some c" "ars_asset_record_id s \<notin> insert a X" for s c
      using that refresh_invD(4) [OF inv] by (auto simp: p' f carries)
  qed (use refresh_invD(3,5) [OF inv] in \<open>auto simp: p'\<close>)
  then show ?thesis by (subst (asm) refresh_inv_free) (auto simp: p' f)
qed

text \<open>Lineages are not part of the invariant.\<close>

lemma refresh_inv_lineage [simp]: "refresh_inv X (p\<lparr>pg_lineage := ls\<rparr>) = refresh_inv X p"
  by (simp add: refresh_inv_def keys_ok_def carries_def)


section \<open>A new generation\<close>

lemma live_articles_distinct: "distinct (live_articles collate V a)"
  by (simp add: live_articles_def)

lemma snapshot_rows_facts:
  assumes "e \<in> set (snapshot_rows a g articles)"
  shows "ge_asset_record_id e = a" "ge_generation e = g" "0 < ge_ordinal e" "ge_state e = ''unseen''" "ge_not_before e = None"
  using assms by (auto simp: snapshot_rows_def)

lemma snapshot_rows_keys: "distinct (map entry_key (snapshot_rows a g articles))"
  by (auto simp: snapshot_rows_def distinct_map inj_on_def entry_key_def distinct_enumerate in_set_enumerate_eq)

lemma generation_inv:
  assumes inv: "refresh_inv X p" and p': "pg_refresh_states p' = ss" "pg_entries p' = pg_entries p @ snapshot_rows a g articles"
      "pg_repair_jobs p' = pg_repair_jobs p" "pg_jobs p' = pg_jobs p"
    and ids: "distinct (map ars_asset_record_id ss)" and ok: "\<And>s. s \<in> set ss \<Longrightarrow> state_ok s"
    and others: "\<And>s. ars_asset_record_id s \<noteq> a \<Longrightarrow> s \<in> set ss \<longleftrightarrow> s \<in> set (pg_refresh_states p)"
    and here: "sa \<in> set ss" "ars_asset_record_id sa = a" "ars_served_generation sa = g" "ars_completed_generation sa < g"
      "ars_active_chain_id sa = None"
    and older: "\<And>e. e \<in> set (pg_entries p) \<Longrightarrow> ge_asset_record_id e = a \<Longrightarrow> ge_generation e < g \<and> ge_state e = ''done''"
  shows "refresh_inv X p'"
proof -
  let ?rows = "snapshot_rows a g articles"
  note rows = snapshot_rows_facts [of _ a g articles]
  have carries: "carries p' c e = carries p c e" for c e by (simp add: carries_def p')
  have only: "s = sa" if "s \<in> set ss" "ars_asset_record_id s = a" for s
    using ids that here(1,2) by (intro distinct_key_eq [of ars_asset_record_id ss]) auto
  have g: "0 < g" using ok [OF here(1)] here(3,4) by (simp add: state_ok_def)
  show ?thesis
  proof (rule refresh_invI)
    have "entry_key e \<notin> entry_key ` set ?rows" if "e \<in> set (pg_entries p)" for e
      using older [OF that] rows by (auto simp: entry_key_def)
    then have "entry_key ` set (pg_entries p) \<inter> entry_key ` set ?rows = {}" by blast
    then show "keys_ok p'"
      using refresh_invD(1) [OF inv] ids snapshot_rows_keys [of a g articles] by (simp add: keys_ok_def p')
    show "state_ok s" if "s \<in> set (pg_refresh_states p')" for s using that ok by (simp add: p')
    show "entry_check e" if "e \<in> set (pg_entries p')" for e
      using that refresh_invD(3) [OF inv] rows g by (auto simp: p' entry_check_def)
    show "\<exists>s \<in> set (pg_refresh_states p'). ars_asset_record_id s = ge_asset_record_id e \<and> entry_served s e \<and>
       (in_flight e \<longrightarrow> ge_asset_record_id e \<notin> X \<and> ars_active_chain_id s \<noteq> None)" if "e \<in> set (pg_entries p')" for e
    proof (cases "ge_asset_record_id e = a")
      case True
      from that consider "e \<in> set (pg_entries p)" | "e \<in> set ?rows" by (auto simp: p')
      then have "entry_served sa e \<and> \<not> in_flight e"
      proof cases
        case 1
        with older [OF 1 True] here(3) show ?thesis by (simp add: entry_served_def in_flight_def)
      next
        case 2
        with rows(2,4) [OF 2] here(3,4) show ?thesis by (simp add: entry_served_def in_flight_def)
      qed
      with True here(1,2) show ?thesis by (auto simp: p')
    next
      case False
      with that rows have "e \<in> set (pg_entries p)" by (auto simp: p')
      with inv obtain s where "s \<in> set (pg_refresh_states p)" "ars_asset_record_id s = ge_asset_record_id e" "entry_served s e"
        "in_flight e \<longrightarrow> ge_asset_record_id e \<notin> X \<and> ars_active_chain_id s \<noteq> None" unfolding refresh_inv_def by blast
      with False others show ?thesis by (auto simp: p' intro!: bexI [of _ s])
    qed
    show "\<exists>e \<in> set (pg_entries p'). ge_asset_record_id e = ars_asset_record_id s \<and> in_flight e \<and> carries p' c e"
      if "s \<in> set (pg_refresh_states p')" "ars_active_chain_id s = Some c" "ars_asset_record_id s \<notin> X" for s c
    proof -
      have "ars_asset_record_id s \<noteq> a" using that(1,2) only here(5) by (auto simp: p')
      with that others have "s \<in> set (pg_refresh_states p)" by (simp add: p')
      from refresh_invD(4) [OF inv this that(2,3)] show ?thesis by (auto simp: p' carries)
    qed
    show "e = e'" if "e \<in> set (pg_entries p')" "e' \<in> set (pg_entries p')" "in_flight e" "in_flight e'"
        "ge_asset_record_id e = ge_asset_record_id e'" for e e'
    proof -
      have "\<not> in_flight x" if "x \<in> set ?rows" for x using rows [OF that] by (simp add: in_flight_def)
      with that show ?thesis by (intro refresh_invD(5) [OF inv]) (auto simp: p')
    qed
  qed
qed


text \<open>What each asset serves, which only a new generation changes.\<close>

definition served_view :: "pg \<Rightarrow> (uuid \<times> int) set" where
  "served_view p = (\<lambda>s. (ars_asset_record_id s, ars_served_generation s)) ` set (pg_refresh_states p)"

lemma served_view_frame: "pg_refresh_states p' = pg_refresh_states p \<Longrightarrow> served_view p' = served_view p"
  by (simp add: served_view_def)

lemma served_view_map:
  "pg_refresh_states p' = map f (pg_refresh_states p) \<Longrightarrow> (\<And>s. ars_asset_record_id (f s) = ars_asset_record_id s) \<Longrightarrow>
   (\<And>s. ars_served_generation (f s) = ars_served_generation s) \<Longrightarrow> served_view p' = served_view p"
  by (simp add: served_view_def image_image)


section \<open>Admission\<close>

lemma select_from_facts:
  "select_from V T E policy a g n cursor p = (r, p') \<Longrightarrow> refresh_inv X p \<Longrightarrow>
     refresh_inv X p' \<and> p' = p\<lparr>pg_entries := pg_entries p'\<rparr> \<and>
     (\<forall>ordinal i v. r = Some (ordinal, i, v) \<longrightarrow>
        (\<exists>e \<in> set (pg_entries p'). of_generation a g e \<and> ge_ordinal e = ordinal \<and> ge_source_id e = i \<and> ge_review_id e = v \<and>
           entry_pending e))"
proof (induction V T E policy a g n cursor p arbitrary: p' rule: select_from.induct)
  case (1 V T E policy a g n cursor p)
  show ?case
  proof (cases "next_entry T E policy a g cursor p")
    case None
    with "1.prems" show ?thesis by (simp add: select_from.simps [of V T E policy a g n cursor p])
  next
    case (Some e)
    note e = next_entry_Some [OF Some]
    have pending: "of_generation a g e" "entry_pending e" using e(2) by (auto simp: admissible_def entry_due_def entry_pending_def)
    let ?live = "live_link (V n) a (ge_source_id e) (ge_review_id e)"
    let ?due = "\<exists>x \<in> set (pg_entries p). of_generation a g x \<and> ge_ordinal x = ge_ordinal e \<and> entry_due E x"
    have retired: "refresh_inv X (retire_entry a g (ge_ordinal e) p)"
      unfolding retire_entry_def by (rule retire_pending_inv [OF "1.prems"(2)]) simp
    show ?thesis
    proof (cases ?live)
      case False
      with "1.prems"(1) Some have "select_from V T E policy a g (Suc n) (Some (ge_ordinal e)) (retire_entry a g (ge_ordinal e) p) = (r, p')"
        by (simp add: select_from.simps [of V T E policy a g n cursor p])
      from "1.IH"(1) [OF Some False this retired] show ?thesis by (simp add: retire_entry_def retire_def)
    next
      case live: True
      show ?thesis
      proof (cases ?due)
        case False
        with "1.prems"(1) Some live have "select_from V T E policy a g (Suc n) (Some (ge_ordinal e)) p = (r, p')"
          by (simp add: select_from.simps [of V T E policy a g n cursor p])
        from "1.IH"(2) [OF Some _ False this "1.prems"(2)] live show ?thesis by simp
      next
        case True
        with "1.prems" Some live have "r = Some (ge_ordinal e, ge_source_id e, ge_review_id e)" "p' = p"
          by (simp_all add: select_from.simps [of V T E policy a g n cursor p])
        with e(1) pending "1.prems"(2) show ?thesis by auto
      qed
    qed
  qed
qed

lemma run_select_facts:
  assumes "run_select R n a g after p = (Inr r, p')" "refresh_inv X p"
  shows "refresh_inv X p'" "p' = p\<lparr>pg_entries := pg_entries p'\<rparr>"
    "r = Some (ordinal, i, v) \<Longrightarrow> \<exists>e \<in> set (pg_entries p'). of_generation a g e \<and> ge_ordinal e = ordinal \<and> ge_source_id e = i \<and>
       ge_review_id e = v \<and> entry_pending e"
proof -
  from assms(1) obtain p1 present where
    p1: "p1 = retire (\<lambda>e. of_generation a g e \<and> entry_pending e \<and> \<not> live_link (rr_view R n 0) a (ge_source_id e) (ge_review_id e)) p"
    and sel: "select_from (rr_view R n) (rr_text R) (rr_env R) (rr_policy R) a g 1 after
        (if present then retire (\<lambda>e. of_generation a g e \<and> entry_pending e) p1 else p1) = (r, p')"
    by (auto simp: run_select_def select_refresh_entry_def Let_def split: sum.splits prod.splits)
  have "refresh_inv X p1" unfolding p1 by (rule retire_pending_inv [OF assms(2)]) simp
  then have inv: "refresh_inv X (if present then retire (\<lambda>e. of_generation a g e \<and> entry_pending e) p1 else p1)"
    using retire_pending_inv [of X p1 "\<lambda>e. of_generation a g e \<and> entry_pending e"] by simp
  note f = select_from_facts [OF sel inv]
  show "refresh_inv X p'" using f by blast
  show "r = Some (ordinal, i, v) \<Longrightarrow> \<exists>e \<in> set (pg_entries p'). of_generation a g e \<and> ge_ordinal e = ordinal \<and> ge_source_id e = i \<and>
       ge_review_id e = v \<and> entry_pending e" using f by blast
  have "p' = (if present then retire (\<lambda>e. of_generation a g e \<and> entry_pending e) p1 else p1)\<lparr>pg_entries := pg_entries p'\<rparr>" using f by blast
  then show "p' = p\<lparr>pg_entries := pg_entries p'\<rparr>" by (cases present) (simp_all add: p1 retire_def)
qed


lemma insert_refresh_job_Some:
  assumes "insert_refresh_job T E D a g chain ordinal i v p = (Inr (Some job_id), p')"
  obtains row rj where "p' = p\<lparr>pg_jobs := pg_jobs p @ [row], pg_repair_jobs := pg_repair_jobs p @ [rj]\<rparr>"
    "r_id row = job_id" "r_status row = ''queued''" "r_job_type row = job_type_name AssetRefresh" "\<forall>r \<in> set (pg_jobs p). r_id r \<noteq> job_id"
    "rj = \<lparr>arj_job_id = job_id, arj_admission_class = ''internal_refresh'', arj_refresh_source_id = Some i,
       arj_refresh_review_id = Some v, arj_expired_asset_record_id = Some a, arj_chain_id = Some chain,
       arj_chain_ordinal = Some ordinal, arj_expiry_refunded = False\<rparr>"
proof -
  from assms obtain j p1 where enq: "enqueue_internal E (rd_job D) (refresh_job T (rd_now D) a g chain ordinal i v) True p = (Inr (Inserted j), p1)"
    and id: "job_id = j_id j" and p': "p' = p1\<lparr>pg_repair_jobs := pg_repair_jobs p1 @
        [\<lparr>arj_job_id = job_id, arj_admission_class = ''internal_refresh'', arj_refresh_source_id = Some i,
       arj_refresh_review_id = Some v, arj_expired_asset_record_id = Some a, arj_chain_id = Some chain,
       arj_chain_ordinal = Some ordinal, arj_expiry_refunded = False\<rparr>]\<rparr>"
    by (auto simp: insert_refresh_job_def split: prod.splits sum.splits enqueue_result.splits)
  from enq obtain j0 where j0: "new (rd_job D) (refresh_job T (rd_now D) a g chain ordinal i v) = Inr j0"
    by (cases "new (rd_job D) (refresh_job T (rd_now D) a g chain ordinal i v)") (auto simp: enqueue_internal_def)
  define row where "row = (bind_job j0)\<lparr>r_run_after := db_now E, r_created_at := db_now E, r_updated_at := db_now E\<rparr>"
  from enq have "decode_job row = Inr j" "p1 = p\<lparr>pg_jobs := pg_jobs p @ [row]\<rparr>" "\<forall>r \<in> set (pg_jobs p). r_id r \<noteq> r_id row"
    by (auto simp: enqueue_internal_def j0 row_def Let_def split: if_splits sum.splits list.splits)
  moreover from this(1) have "r_id row = j_id j" by (auto simp: decode_job_iff bind_job_def)
  moreover have "r_id row = rd_job D" "r_status row = ''queued''" "r_job_type row = job_type_name AssetRefresh"
    using j0 by (auto simp: row_def bind_job_def new_def refresh_job_def split: if_splits)
  ultimately show thesis by (intro that [where row = row]) (auto simp: p' id)
qed

lemma insert_refresh_job_None:
  "insert_refresh_job T E D a g chain ordinal i v p = (Inr None, p') \<Longrightarrow> p' = p"
  by (auto simp: insert_refresh_job_def enqueue_internal_def Let_def split: sum.splits prod.splits enqueue_result.splits if_splits list.splits)

lemma reserve_frame:
  "reserve_refresh_lineage E policy i v p = (b, p') \<Longrightarrow> p' = p\<lparr>pg_lineage := pg_lineage p'\<rparr>"
  by (auto simp: reserve_refresh_lineage_def split: option.splits if_splits)

text \<open>An admission either changes no state, job or chain, or puts its entry in flight.\<close>

definition entry_at :: "uuid \<Rightarrow> int \<Rightarrow> int \<Rightarrow> pg \<Rightarrow> generation_entry_row \<Rightarrow> bool" where
  "entry_at a g ordinal p e \<longleftrightarrow> e \<in> set (pg_entries p) \<and> of_generation a g e \<and> ge_ordinal e = ordinal"

lemma entry_at_unique: "keys_ok p \<Longrightarrow> entry_at a g ordinal p e \<Longrightarrow> entry_at a g ordinal p e' \<Longrightarrow> e = e'"
  by (rule distinct_key_eq [of entry_key "pg_entries p"]) (auto simp: keys_ok_def entry_at_def of_generation_def entry_key_def)

lemma launch_inv:
  assumes inv: "refresh_inv (insert a X) p" and a: "a \<notin> X" and e: "entry_at a g ordinal p e" "entry_pending e"
    and p': "pg_entries p' = map f (pg_entries p)" "pg_refresh_states p' = map h (pg_refresh_states p)"
    and f: "\<And>x. same_entry x (f x)" "f e = e\<lparr>ge_state := ''in_flight'', ge_not_before := None\<rparr>"
      "\<And>x. x \<in> set (pg_entries p) \<Longrightarrow> x \<noteq> e \<Longrightarrow> f x = x"
    and h: "\<And>s. ars_asset_record_id (h s) = ars_asset_record_id s" "\<And>s. ars_served_generation (h s) = ars_served_generation s"
      "\<And>s. ars_completed_generation (h s) = ars_completed_generation s" "\<And>s. ars_requested_generation (h s) = ars_requested_generation s"
      "\<And>s. s \<in> set (pg_refresh_states p) \<Longrightarrow> ars_active_chain_id (h s) = (if ars_asset_record_id s = a then Some chain else ars_active_chain_id s)"
    and keys: "keys_ok p'" and carried: "\<And>x c. carries p c x \<Longrightarrow> carries p' c x" "carries p' chain e"
  shows "refresh_inv X p'"
proof (rule refresh_invI [OF keys])
  note simps = same_entry_simps [OF f(1)]
  have e_in: "e \<in> set (pg_entries p)" "ge_asset_record_id e = a" using e(1) by (simp_all add: entry_at_def of_generation_def)
  have grounded: "\<not> in_flight x" if "x \<in> set (pg_entries p)" "ge_asset_record_id x = a" for x
    using in_flight_outside [OF inv that(1)] that(2) by auto
  show "state_ok s" if "s \<in> set (pg_refresh_states p')" for s using that refresh_invD(2) [OF inv] by (auto simp: p' state_ok_def h)
  show "entry_check x" if "x \<in> set (pg_entries p')" for x
  proof -
    from that obtain y where y: "y \<in> set (pg_entries p)" "x = f y" by (auto simp: p')
    with refresh_invD(3) [OF inv y(1)] f(2) f(3) [OF y(1)] show ?thesis by (cases "y = e") (auto simp: entry_check_def)
  qed
  show "\<exists>s \<in> set (pg_refresh_states p'). ars_asset_record_id s = ge_asset_record_id x \<and> entry_served s x \<and>
     (in_flight x \<longrightarrow> ge_asset_record_id x \<notin> X \<and> ars_active_chain_id s \<noteq> None)" if "x \<in> set (pg_entries p')" for x
  proof -
    from that obtain y where y: "y \<in> set (pg_entries p)" "x = f y" by (auto simp: p')
    obtain s where s: "s \<in> set (pg_refresh_states p)" "ars_asset_record_id s = ge_asset_record_id y"
      by (rule refresh_inv_state [OF inv y(1)])
    note old = refresh_inv_entry [OF inv y(1) s]
    have "entry_served (h s) x"
    proof (cases "y = e")
      case True
      then show ?thesis using old(1) e(2) f(2) by (auto simp: entry_served_def h y(2) entry_pending_def)
    next
      case False
      then show ?thesis using old(1) f(3) [OF y(1)] by (simp add: entry_served_def h y(2))
    qed
    moreover have "in_flight x \<longrightarrow> ge_asset_record_id x \<notin> X \<and> ars_active_chain_id (h s) \<noteq> None"
      using old(2,3) f(3) [OF y(1)] e_in a s h(5) [OF s(1)] by (cases "y = e") (auto simp: y(2) f(2))
    ultimately show ?thesis using s by (auto simp: p' h simps y(2) intro!: bexI [of _ s])
  qed
  show "\<exists>x \<in> set (pg_entries p'). ge_asset_record_id x = ars_asset_record_id s \<and> in_flight x \<and> carries p' c x"
    if "s \<in> set (pg_refresh_states p')" "ars_active_chain_id s = Some c" "ars_asset_record_id s \<notin> X" for s c
  proof -
    from that(1) obtain s0 where s0: "s0 \<in> set (pg_refresh_states p)" "s = h s0" by (auto simp: p')
    show ?thesis
    proof (cases "ars_asset_record_id s0 = a")
      case True
      with that s0 h(5) have "c = chain" by auto
      moreover have "in_flight (f e)" by (simp add: f(2) in_flight_def)
      ultimately show ?thesis using e_in carried(2) True s0
        by (intro bexI [of _ "f e"]) (simp_all add: simps h p')
    next
      case False
      with that s0 h obtain x where x: "x \<in> set (pg_entries p)" "ge_asset_record_id x = ars_asset_record_id s0" "in_flight x" "carries p c x"
        using refresh_invD(4) [OF inv s0(1), of c] by auto
      moreover have "x \<noteq> e" using x e_in False by auto
      moreover from this have "x \<in> set (pg_entries p')" using f(3) [OF x(1)] x(1) by (auto simp: p' image_iff intro!: bexI [of _ x])
      ultimately show ?thesis using s0 carried(1) by (intro bexI [of _ x]) (auto simp: p' h)
    qed
  qed
  show "x = x'" if "x \<in> set (pg_entries p')" "x' \<in> set (pg_entries p')" "in_flight x" "in_flight x'"
      "ge_asset_record_id x = ge_asset_record_id x'" for x x'
  proof -
    from that(1,2) obtain y y' where y: "y \<in> set (pg_entries p)" "x = f y" "y' \<in> set (pg_entries p)" "x' = f y'" by (auto simp: p')
    show ?thesis
    proof (cases "ge_asset_record_id y = a")
      case True
      then have "y = e \<and> y' = e" using y that(3-5) f(3) grounded by (metis simps(1))
      then show ?thesis using y by simp
    next
      case False
      then have "y \<noteq> e" "y' \<noteq> e" using e_in that(5) y by (auto simp: simps)
      then show ?thesis using y that(3-5) f(3) refresh_invD(5) [OF inv] by auto
    qed
  qed
qed


lemma delete_inserted:
  assumes "keys_ok p" "\<forall>r \<in> set (pg_jobs p). r_id r \<noteq> i" "r_id row = i" "arj_job_id rj = i"
  shows "delete_job i (p\<lparr>pg_jobs := pg_jobs p @ [row], pg_repair_jobs := pg_repair_jobs p @ [rj], pg_lineage := ls\<rparr>) = p\<lparr>pg_lineage := ls\<rparr>"
proof -
  have "filter (\<lambda>r. r_id r \<noteq> i) (pg_jobs p) = pg_jobs p" using assms(2) by (auto simp: filter_id_conv)
  moreover have "filter (\<lambda>r. arj_job_id r \<noteq> i) (pg_repair_jobs p) = pg_repair_jobs p"
    using assms(1,2) by (auto simp: filter_id_conv keys_ok_def)
  ultimately show ?thesis using assms(3,4) by (simp add: delete_job_def)
qed

lemma admit_inv:
  assumes res: "admit_refresh_entry T E policy D a g chain (ordinal, i, v) resume p = (Inr r, p')"
    and inv: "refresh_inv (insert a X) p" and a: "a \<notin> X"
    and e: "entry_at a g ordinal p e" "entry_pending e" "ge_source_id e = i" "ge_review_id e = v"
    and chain: "\<And>s. s \<in> set (pg_refresh_states p) \<Longrightarrow> ars_asset_record_id s = a \<Longrightarrow>
      ars_active_chain_id s = Some chain \<or> resume \<and> ars_active_chain_id s = None"
  shows "case r of
      None \<Rightarrow> refresh_inv (insert a X) p' \<and> pg_refresh_states p' = pg_refresh_states p \<and> pg_jobs p' = pg_jobs p \<and>
        pg_repair_jobs p' = pg_repair_jobs p
    | Some job_id \<Rightarrow> refresh_inv X p' \<and> (\<exists>row rj. pg_jobs p' = pg_jobs p @ [row] \<and> pg_repair_jobs p' = pg_repair_jobs p @ [rj] \<and>
        arj_job_id rj = r_id row \<and> arj_admission_class rj = ''internal_refresh'' \<and> r_id row \<notin> r_id ` set (pg_jobs p)) \<and> served_view p' = served_view p"
proof (cases "insert_refresh_job T E D a g chain ordinal i v p")
  case (Pair r1 p1)
  show ?thesis
  proof (cases "\<exists>job_id. r1 = Inr (Some job_id)")
    case False
    with res Pair have "r1 = Inr None" "r = None" "p' = p1"
      by (auto simp: admit_refresh_entry_def split: sum.splits option.splits)
    with insert_refresh_job_None [of T E D a g chain ordinal i v p p1] Pair inv show ?thesis by simp
  next
    case True
    then obtain job_id where job_id: "r1 = Inr (Some job_id)" by blast
    obtain row rj where ins: "p1 = p\<lparr>pg_jobs := pg_jobs p @ [row], pg_repair_jobs := pg_repair_jobs p @ [rj]\<rparr>"
      "r_id row = job_id" "r_status row = ''queued''" "r_job_type row = job_type_name AssetRefresh" "\<forall>r \<in> set (pg_jobs p). r_id r \<noteq> job_id"
      and rj: "rj = \<lparr>arj_job_id = job_id, arj_admission_class = ''internal_refresh'', arj_refresh_source_id = Some i,
       arj_refresh_review_id = Some v, arj_expired_asset_record_id = Some a, arj_chain_id = Some chain,
       arj_chain_ordinal = Some ordinal, arj_expiry_refunded = False\<rparr>"
      by (rule insert_refresh_job_Some [OF Pair [unfolded job_id]]) blast
    obtain b p2 where b: "reserve_refresh_lineage E policy i v p1 = (b, p2)" by fastforce
    define ls where "ls = pg_lineage p2"
    have p2: "p2 = p\<lparr>pg_jobs := pg_jobs p @ [row], pg_repair_jobs := pg_repair_jobs p @ [rj], pg_lineage := ls\<rparr>"
      using reserve_frame [OF b] by (simp add: ins(1) ls_def)
    note keys = refresh_invD(1) [OF inv]
    let ?mine = "\<lambda>x. of_generation a g x \<and> ge_ordinal x = ordinal \<and> entry_pending x"
    have mine: "x \<in> set (pg_entries p) \<Longrightarrow> of_generation a g x \<Longrightarrow> ge_ordinal x = ordinal \<Longrightarrow> x = e" for x
      using entry_at_unique [OF keys e(1)] by (auto simp: entry_at_def)
    have e_in: "e \<in> set (pg_entries p)" "of_generation a g e" "ge_ordinal e = ordinal" using e(1) by (simp_all add: entry_at_def)
    show ?thesis
    proof (cases b)
      case False
      let ?P = "\<lambda>x. of_generation a g x \<and> ge_ordinal x = ordinal \<and> lineage_spent policy (ge_source_id x) (ge_review_id x) p2"
      from res Pair job_id b False have r: "r = None" "p' = retire ?P (delete_job job_id p2)"
        by (simp_all add: admit_refresh_entry_def)
      have del: "delete_job job_id p2 = p\<lparr>pg_lineage := ls\<rparr>"
        unfolding p2 by (rule delete_inserted [OF keys ins(5) ins(2)]) (simp_all add: rj)
      have "refresh_inv (insert a X) (retire ?P (p\<lparr>pg_lineage := ls\<rparr>))"
        using inv mine e(2) by (intro retire_pending_inv) auto
      then show ?thesis by (simp add: r del) (simp add: retire_def)
    next
      case True
      let ?p3 = "p2\<lparr>pg_entries := update_rows ?mine (\<lambda>e. e\<lparr>ge_state := ''in_flight'', ge_not_before := None\<rparr>) (pg_entries p2)\<rparr>"
      let ?p4 = "if resume then set_state a (\<lambda>s. if ars_active_chain_id s = None \<or> ars_active_chain_id s = Some chain
               then s\<lparr>ars_active_chain_id := Some chain, ars_updated_at := db_now E\<rparr> else s) ?p3 else ?p3"
      have "\<exists>x \<in> set (pg_entries p2). ?mine x" using e_in e(2) by (auto simp: p2)
      then have "admit_refresh_entry T E policy D a g chain (ordinal, i, v) resume p = (Inr (Some job_id), ?p4)"
        using Pair job_id b True by (simp add: admit_refresh_entry_def Let_def) blast
      with res have r: "r = Some job_id" and p': "p' = ?p4" by simp_all
      let ?f = "\<lambda>x. if ?mine x then x\<lparr>ge_state := ''in_flight'', ge_not_before := None\<rparr> else x"
      let ?h = "\<lambda>s. if resume \<and> ars_asset_record_id s = a \<and> (ars_active_chain_id s = None \<or> ars_active_chain_id s = Some chain)
          then s\<lparr>ars_active_chain_id := Some chain, ars_updated_at := db_now E\<rparr> else s"
      have tables: "pg_entries p' = map ?f (pg_entries p)" "pg_refresh_states p' = map ?h (pg_refresh_states p)"
        "pg_jobs p' = pg_jobs p @ [row]" "pg_repair_jobs p' = pg_repair_jobs p @ [rj]"
        by (auto simp: p' p2 set_state_def update_rows_def Let_def)
      have "refresh_inv X p'"
      proof (rule launch_inv [OF inv a e(1,2) tables(1,2)])
        show "?f e = e\<lparr>ge_state := ''in_flight'', ge_not_before := None\<rparr>" using e_in e(2) by simp
        show "?f x = x" if "x \<in> set (pg_entries p)" "x \<noteq> e" for x using mine [OF that(1)] that(2) by auto
        show "ars_active_chain_id (?h s) = (if ars_asset_record_id s = a then Some chain else ars_active_chain_id s)"
          if "s \<in> set (pg_refresh_states p)" for s using chain [OF that] by auto
        have same: "ars_asset_record_id \<circ> ?h = ars_asset_record_id" "entry_key \<circ> ?f = entry_key"
          by (simp_all add: fun_eq_iff entry_key_def)
        show "keys_ok p'"
          using keys ins(2,5) unfolding keys_ok_def tables map_map same by (auto simp: rj)
        show "carries p' c x" if "carries p c x" for c x using that by (auto simp: carries_def tables)
        show "carries p' chain e"
          using ins(2-4) e(3,4) e_in by (auto simp: carries_def tables rj active_statuses_def of_generation_def)
      qed (auto simp: same_entry_def)
      moreover have "served_view p' = served_view p" by (rule served_view_map [OF tables(2)]) simp_all
      ultimately show ?thesis using tables(3,4) ins(2,5) by (auto simp: r rj)
    qed
  qed
qed


section \<open>Transitions\<close>

definition free_chain :: "uuid \<Rightarrow> pg \<Rightarrow> bool" where
  "free_chain a p \<longleftrightarrow> (\<forall>s \<in> set (pg_refresh_states p). ars_asset_record_id s = a \<longrightarrow> ars_active_chain_id s = None)"

lemma free_inv: "free_chain a p \<Longrightarrow> refresh_inv (insert a X) p = refresh_inv X p"
  by (rule refresh_inv_free) (simp add: free_chain_def)

lemma free_frame: "pg_refresh_states p' = pg_refresh_states p \<Longrightarrow> free_chain a p' = free_chain a p"
  by (simp add: free_chain_def)

definition at_most_served :: "uuid \<Rightarrow> int \<Rightarrow> pg \<Rightarrow> bool" where
  "at_most_served a g p \<longleftrightarrow> (\<forall>(b, h) \<in> served_view p. b = a \<longrightarrow> g \<le> h)"

lemma at_most_served_iff:
  "at_most_served a g p \<longleftrightarrow> (\<forall>s \<in> set (pg_refresh_states p). ars_asset_record_id s = a \<longrightarrow> g \<le> ars_served_generation s)"
  by (auto simp: at_most_served_def served_view_def)

lemma complete_served [simp]: "served_view (complete_refresh_generation_if_terminal E a g p) = served_view p"
proof (cases "generation_unfinished a g p")
  case False
  then show ?thesis
    by (intro served_view_map [where f = "\<lambda>s. if ars_asset_record_id s = a
          then s\<lparr>ars_completed_generation := max (ars_completed_generation s) g, ars_updated_at := db_now E\<rparr> else s"])
      (simp_all add: complete_refresh_generation_if_terminal_def set_state_def update_rows_def)
qed (simp add: complete_refresh_generation_if_terminal_def)

lemma complete_frame [simp]:
  "pg_jobs (complete_refresh_generation_if_terminal E a g p) = pg_jobs p"
  "pg_repair_jobs (complete_refresh_generation_if_terminal E a g p) = pg_repair_jobs p"
  "pg_entries (complete_refresh_generation_if_terminal E a g p) = pg_entries p"
  "pg_lineage (complete_refresh_generation_if_terminal E a g p) = pg_lineage p"
  "free_chain b (complete_refresh_generation_if_terminal E a g p) = free_chain b p"
  by (simp_all add: complete_refresh_generation_if_terminal_def set_state_def update_rows_def free_chain_def ball_Un)
    (force simp: image_iff)

lemma complete_served_inv: "refresh_inv X p \<Longrightarrow> at_most_served a g p \<Longrightarrow> refresh_inv X (complete_refresh_generation_if_terminal E a g p)"
  by (rule complete_inv) (auto simp: at_most_served_iff)

lemma mark_frame [simp]:
  "pg_jobs (mark_exhausted_refresh_entries policy a g p) = pg_jobs p"
  "pg_repair_jobs (mark_exhausted_refresh_entries policy a g p) = pg_repair_jobs p"
  "pg_refresh_states (mark_exhausted_refresh_entries policy a g p) = pg_refresh_states p"
  by (simp_all add: mark_exhausted_refresh_entries_def retire_def)

lemma mark_inv: "refresh_inv X p \<Longrightarrow> refresh_inv X (mark_exhausted_refresh_entries policy a g p)"
  unfolding mark_exhausted_refresh_entries_def by (rule retire_pending_inv) simp_all

lemma active_repairs_cong: "pg_jobs p' = pg_jobs p \<Longrightarrow> pg_repair_jobs p' = pg_repair_jobs p \<Longrightarrow> active_repairs p' = active_repairs p"
  by (simp add: active_repairs_def)

lemma at_most_served_view: "served_view p' = served_view p \<Longrightarrow> at_most_served a g p' = at_most_served a g p"
  by (simp add: at_most_served_def)

lemma mark_views [simp]:
  "free_chain b (mark_exhausted_refresh_entries policy a g p) = free_chain b p"
  "served_view (mark_exhausted_refresh_entries policy a g p) = served_view p"
  "at_most_served b h (mark_exhausted_refresh_entries policy a g p) = at_most_served b h p"
  "active_repairs (mark_exhausted_refresh_entries policy a g p) = active_repairs p"
  by (simp_all add: at_most_served_def active_repairs_def served_view_def free_chain_def)

lemma complete_views [simp]:
  "at_most_served b h (complete_refresh_generation_if_terminal E a g p) = at_most_served b h p"
  "active_repairs (complete_refresh_generation_if_terminal E a g p) = active_repairs p"
  by (simp_all add: at_most_served_def active_repairs_def)

lemma active_repairs_append:
  assumes "keys_ok p" "pg_jobs p' = pg_jobs p @ [row]" "pg_repair_jobs p' = pg_repair_jobs p @ [rj]" "r_id row \<notin> r_id ` set (pg_jobs p)"
  shows "active_repairs p' \<le> Suc (active_repairs p)"
proof -
  let ?act = "\<lambda>q r. \<exists>j \<in> set (pg_jobs q). r_id j = arj_job_id r \<and> r_status j \<in> set active_statuses"
  have "filter (?act p') (pg_repair_jobs p) = filter (?act p) (pg_repair_jobs p)"
    using assms(1,2,4) by (intro filter_cong refl) (force simp: keys_ok_def)
  then show ?thesis unfolding active_repairs_def assms(3) by simp
qed

text \<open>A selection for an asset without a chain, and the admission of what it found.\<close>

lemma select_free:
  assumes "run_select R n a g after p = (Inr r, p')" "refresh_inv X p"
  shows "refresh_inv X p'" "free_chain b p' = free_chain b p" "served_view p' = served_view p" "pg_refresh_states p' = pg_refresh_states p"
    "pg_jobs p' = pg_jobs p" "pg_repair_jobs p' = pg_repair_jobs p" "pg_lineage p' = pg_lineage p"
proof -
  note f = run_select_facts [OF assms]
  have eq: "p' = p\<lparr>pg_entries := pg_entries p'\<rparr>" by (rule f(2))
  show "refresh_inv X p'" by (rule f(1))
  from arg_cong [OF eq, of pg_refresh_states] show st: "pg_refresh_states p' = pg_refresh_states p" by simp
  from arg_cong [OF eq, of pg_jobs] show "pg_jobs p' = pg_jobs p" by simp
  from arg_cong [OF eq, of pg_repair_jobs] show "pg_repair_jobs p' = pg_repair_jobs p" by simp
  from arg_cong [OF eq, of pg_lineage] show "pg_lineage p' = pg_lineage p" by simp
  from st show "free_chain b p' = free_chain b p" "served_view p' = served_view p" by (rule free_frame, rule served_view_frame)
qed

text \<open>Jobs are added, none is changed.\<close>

definition grown :: "pg \<Rightarrow> pg \<Rightarrow> bool" where
  "grown p p' \<longleftrightarrow> (\<exists>js rs. pg_jobs p' = pg_jobs p @ js \<and> pg_repair_jobs p' = pg_repair_jobs p @ rs \<and>
     r_id ` set js \<inter> r_id ` set (pg_jobs p) = {} \<and> (\<forall>r \<in> set rs. arj_admission_class r = ''internal_refresh''))"

lemma grown_same: "pg_jobs p' = pg_jobs p \<Longrightarrow> pg_repair_jobs p' = pg_repair_jobs p \<Longrightarrow> grown p p'"
  unfolding grown_def by (intro exI [of _ "[]"]) simp

lemma grown_cong:
  "pg_jobs q = pg_jobs p \<Longrightarrow> pg_repair_jobs q = pg_repair_jobs p \<Longrightarrow> grown q p' = grown p p'"
  "pg_jobs q' = pg_jobs p' \<Longrightarrow> pg_repair_jobs q' = pg_repair_jobs p' \<Longrightarrow> grown p q' = grown p p'"
  by (simp_all add: grown_def)

lemma admit_selected:
  assumes sel: "run_select R n a g after p = (Inr (Some entry), p1)" and adm: "run_admit R n a g chain entry resume p1 = (Inr r, p2)"
    and inv: "refresh_inv (insert a X) p" and a: "a \<notin> X"
    and chain: "\<forall>s \<in> set (pg_refresh_states p). ars_asset_record_id s = a \<longrightarrow>
      ars_active_chain_id s = Some chain \<or> resume \<and> ars_active_chain_id s = None"
  shows "(case r of None \<Rightarrow> refresh_inv (insert a X) p2 \<and> pg_refresh_states p2 = pg_refresh_states p | Some _ \<Rightarrow> refresh_inv X p2) \<and>
    served_view p2 = served_view p \<and> active_repairs p2 \<le> active_repairs p + (if r = None then 0 else 1) \<and> grown p p2"
proof -
  obtain ordinal i v where entry: "entry = (ordinal, i, v)" by (cases entry)
  note s = select_free [OF sel inv]
  from run_select_facts(3) [OF sel inv] entry obtain e where
    e: "entry_at a g ordinal p1 e" "entry_pending e" "ge_source_id e = i" "ge_review_id e = v" by (auto simp: entry_at_def)
  note r = admit_inv [OF adm [unfolded run_admit_def entry] s(1) a e]
  have r: "case r of
      None \<Rightarrow> refresh_inv (insert a X) p2 \<and> pg_refresh_states p2 = pg_refresh_states p1 \<and> pg_jobs p2 = pg_jobs p1 \<and>
        pg_repair_jobs p2 = pg_repair_jobs p1
    | Some job_id \<Rightarrow> refresh_inv X p2 \<and> (\<exists>row rj. pg_jobs p2 = pg_jobs p1 @ [row] \<and> pg_repair_jobs p2 = pg_repair_jobs p1 @ [rj] \<and>
        arj_job_id rj = r_id row \<and> arj_admission_class rj = ''internal_refresh'' \<and> r_id row \<notin> r_id ` set (pg_jobs p1)) \<and> served_view p2 = served_view p1"
    by (rule r) (use chain s(4) in auto)
  have same: "active_repairs p1 = active_repairs p" by (rule active_repairs_cong [OF s(5,6)])
  show ?thesis
  proof (cases r)
    case None
    with r have eq: "pg_refresh_states p2 = pg_refresh_states p1" "pg_jobs p2 = pg_jobs p1" "pg_repair_jobs p2 = pg_repair_jobs p1"
      and inv2: "refresh_inv (insert a X) p2" by simp_all
    have "grown p p2" by (rule grown_same) (simp_all add: eq s(5,6))
    with inv2 None s(3,4) same served_view_frame [OF eq(1)] active_repairs_cong [OF eq(2,3)] eq(1) show ?thesis by simp
  next
    case (Some job_id)
    with r obtain row rj where app: "pg_jobs p2 = pg_jobs p1 @ [row]" "pg_repair_jobs p2 = pg_repair_jobs p1 @ [rj]"
      "r_id row \<notin> r_id ` set (pg_jobs p1)" and rj: "arj_admission_class rj = ''internal_refresh''" by auto
    have "grown p p2" unfolding grown_def by (intro exI [of _ "[row]"] exI [of _ "[rj]"]) (use app rj s(5,6) in simp)
    with active_repairs_append [OF refresh_invD(1) [OF s(1)] app] Some same r s(3) show ?thesis by simp
  qed
qed

lemma admit_free:
  assumes "run_select R n a g after p = (Inr (Some entry), p1)" "run_admit R n a g chain entry True p1 = (Inr r, p2)"
    and inv: "refresh_inv X p" and a: "a \<notin> X" and free: "free_chain a p"
  shows "refresh_inv X p2" "active_repairs p2 \<le> active_repairs p + (if r = None then 0 else 1)" "served_view p2 = served_view p"
    "grown p p2"
proof -
  have inv': "refresh_inv (insert a X) p" using inv free by (simp add: free_inv)
  have r: "(case r of None \<Rightarrow> refresh_inv (insert a X) p2 \<and> pg_refresh_states p2 = pg_refresh_states p | Some _ \<Rightarrow> refresh_inv X p2) \<and>
    served_view p2 = served_view p \<and> active_repairs p2 \<le> active_repairs p + (if r = None then 0 else 1) \<and> grown p p2"
    by (rule admit_selected [OF assms(1,2) inv' a]) (use free in \<open>simp add: free_chain_def\<close>)
  then show "active_repairs p2 \<le> active_repairs p + (if r = None then 0 else 1)" "served_view p2 = served_view p" "grown p p2" by blast+
  from r show "refresh_inv X p2" using free_inv [of a p2 X] free free_frame [of p2 p a] by (auto split: option.splits)
qed

text \<open>A generation is opened for an asset none of whose entries is left.\<close>

definition idle :: "uuid \<Rightarrow> pg \<Rightarrow> bool" where
  "idle a p \<longleftrightarrow> (\<forall>e \<in> set (pg_entries p). ge_asset_record_id e = a \<longrightarrow> ge_state e = ''done'')"

lemma idle_older:
  assumes inv: "refresh_inv X p" and idle: "idle a p" and e: "e \<in> set (pg_entries p)" "ge_asset_record_id e = a"
    and g: "\<And>s. s \<in> set (pg_refresh_states p) \<Longrightarrow> ars_asset_record_id s = a \<Longrightarrow> ars_served_generation s < g"
  shows "ge_generation e < g \<and> ge_state e = ''done''"
proof -
  obtain s where s: "s \<in> set (pg_refresh_states p)" "ars_asset_record_id s = ge_asset_record_id e"
    by (rule refresh_inv_state [OF inv e(1)])
  from refresh_inv_entry(1) [OF inv e(1) s] g [OF s(1)] s(2) e idle show ?thesis by (auto simp: entry_served_def idle_def)
qed

lemma snapshot_Inr:
  assumes "snapshot_asset_generation collate V a g p = (Inr k, p')"
  shows "p' = p\<lparr>pg_entries := pg_entries p @ snapshot_rows a g (live_articles collate V a)\<rparr>"
    "k = 0 \<Longrightarrow> e \<in> set (pg_entries p') \<Longrightarrow> \<not> of_generation a g e"
  using assms by (auto simp: snapshot_asset_generation_def Let_def filter_empty_conv split: if_splits)

lemma snapshot_inv:
  assumes snap: "snapshot_asset_generation collate V a g (p\<lparr>pg_refresh_states := ss\<rparr>) = (Inr k, p1)"
    and inv: "refresh_inv X p" and idle: "idle a p"
    and served: "\<And>s. s \<in> set (pg_refresh_states p) \<Longrightarrow> ars_asset_record_id s = a \<Longrightarrow> ars_served_generation s < g"
    and ids: "distinct (map ars_asset_record_id ss)" and ok: "\<And>s. s \<in> set ss \<Longrightarrow> state_ok s"
    and others: "\<And>s. ars_asset_record_id s \<noteq> a \<Longrightarrow> s \<in> set ss \<longleftrightarrow> s \<in> set (pg_refresh_states p)"
    and here: "sa \<in> set ss" "ars_asset_record_id sa = a" "ars_served_generation sa = g" "ars_completed_generation sa < g"
      "ars_active_chain_id sa = None"
  shows "refresh_inv X p1 \<and> free_chain a p1 \<and> at_most_served a g p1 \<and> active_repairs p1 = active_repairs p \<and>
    (k = 0 \<longrightarrow> refresh_inv X (set_state a (\<lambda>s. s\<lparr>ars_completed_generation := g, ars_updated_at := t\<rparr>) p1))"
proof (intro conjI impI)
  note p1 = snapshot_Inr(1) [OF snap]
  show inv1: "refresh_inv X p1"
    by (rule generation_inv [OF inv _ _ _ _ ids ok others here])
      (simp_all add: p1 idle_older [OF inv idle _ _ served])
  have only: "s = sa" if "s \<in> set (pg_refresh_states p1)" "ars_asset_record_id s = a" for s
    using state_unique [OF refresh_invD(1) [OF inv1] that(1), of sa] that(2) here(1,2) by (simp add: p1)
  show "free_chain a p1" "at_most_served a g p1" using only here by (auto simp: free_chain_def at_most_served_iff)
  show "active_repairs p1 = active_repairs p" by (simp add: p1 active_repairs_def)
  assume k: "k = 0"
  let ?f = "\<lambda>s. if ars_asset_record_id s = a then s\<lparr>ars_completed_generation := g, ars_updated_at := t\<rparr> else s"
  show "refresh_inv X (set_state a (\<lambda>s. s\<lparr>ars_completed_generation := g, ars_updated_at := t\<rparr>) p1)"
  proof (rule refresh_inv_map_states [OF inv1, of _ ?f])
    show "state_ok (?f s)" if "s \<in> set (pg_refresh_states p1)" for s
      using refresh_invD(2) [OF inv1 that] only [OF that] here(3,4) by (auto simp: state_ok_def)
    show "ars_completed_generation (?f s) < ars_served_generation s"
      if "s \<in> set (pg_refresh_states p1)" "e \<in> set (pg_entries p1)" "ars_asset_record_id s = ge_asset_record_id e"
        "ge_generation e = ars_served_generation s" "ars_completed_generation s < ars_served_generation s" for s e
      using snapshot_Inr(2) [OF snap k that(2)] only [OF that(1)] here(3) that(3-5) by (auto simp: of_generation_def)
  qed (simp_all add: set_state_def update_rows_def)
qed

lemma follow_up_inv:
  assumes res: "start_follow_up_generation collate R n a g p = (Inr r, p')"
    and inv: "refresh_inv X p" and a: "a \<notin> X" and idle: "idle a p"
  shows "refresh_inv X p' \<and> active_repairs p' \<le> active_repairs p + (if r = None then 0 else 1)"
proof (cases "\<exists>s \<in> set (pg_refresh_states p). ars_asset_record_id s = a \<and> ars_requested_generation s \<ge> g \<and>
            ars_served_generation s < g \<and> ars_active_chain_id s = None")
  case False
  with res inv show ?thesis by (auto simp: start_follow_up_generation_def)
next
  case True
  then obtain s where s: "s \<in> set (pg_refresh_states p)" "ars_asset_record_id s = a" "ars_requested_generation s \<ge> g"
    "ars_served_generation s < g" "ars_active_chain_id s = None" by blast
  let ?E = "rr_env R"
  let ?ready = "\<lambda>s. ars_asset_record_id s = a \<and> ars_requested_generation s \<ge> g \<and> ars_served_generation s < g \<and> ars_active_chain_id s = None"
  let ?up = "\<lambda>s. s\<lparr>ars_served_generation := g, ars_updated_at := db_now ?E\<rparr>"
  let ?ss = "update_rows ?ready ?up (pg_refresh_states p)"
  note keys = refresh_invD(1) [OF inv]
  have only: "x = s" if "x \<in> set (pg_refresh_states p)" "ars_asset_record_id x = a" for x
    using state_unique [OF keys that(1) s(1)] that(2) s(2) by simp
  have go: "(\<not> (\<exists>s \<in> set (pg_refresh_states p). ?ready s)) = False" using True by simp
  note body = res [unfolded start_follow_up_generation_def Let_def go if_False]
  from body obtain k p1 where
    snap: "snapshot_asset_generation collate (rr_view R n 0) a g (p\<lparr>pg_refresh_states := ?ss\<rparr>) = (Inr k, p1)"
    by (auto split: prod.splits sum.splits)
  have new: "?ss = map (\<lambda>x. if ?ready x then ?up x else x) (pg_refresh_states p)" by (simp add: update_rows_def)
  have "refresh_inv X p1 \<and> free_chain a p1 \<and> at_most_served a g p1 \<and> active_repairs p1 = active_repairs p \<and>
    (k = 0 \<longrightarrow> refresh_inv X (set_state a (\<lambda>s. s\<lparr>ars_completed_generation := g, ars_updated_at := db_now ?E\<rparr>) p1))"
  proof (rule snapshot_inv [OF snap inv idle, where sa = "?up s"])
    show "ars_served_generation x < g" if "x \<in> set (pg_refresh_states p)" "ars_asset_record_id x = a" for x using only [OF that] s(4) by simp
    show "distinct (map ars_asset_record_id ?ss)"
      using keys update_rows_keys [of ?ready ars_asset_record_id ?up "pg_refresh_states p"] by (simp add: keys_ok_def)
    show "state_ok x" if "x \<in> set ?ss" for x
      using that refresh_invD(2) [OF inv] unfolding set_update_rows by (fastforce simp: state_ok_def)
    show "x \<in> set ?ss \<longleftrightarrow> x \<in> set (pg_refresh_states p)" if "ars_asset_record_id x \<noteq> a" for x
      using that unfolding set_update_rows by (metis (no_types, lifting) refresh_state_row.select_convs refresh_state_row.surjective
        refresh_state_row.update_convs)
    show "?up s \<in> set ?ss" using s unfolding set_update_rows by (intro bexI [of _ s]) simp_all
    show "ars_completed_generation (?up s) < g" using refresh_invD(2) [OF inv s(1)] s(4) by (simp add: state_ok_def)
  qed (use s in simp_all)
  then have i1: "refresh_inv X p1" "free_chain a p1" "at_most_served a g p1" "active_repairs p1 = active_repairs p"
    "k = 0 \<Longrightarrow> refresh_inv X (set_state a (\<lambda>s. s\<lparr>ars_completed_generation := g, ars_updated_at := db_now ?E\<rparr>) p1)" by blast+
  show ?thesis
  proof (cases "k = 0")
    case 0: True
    with body snap have "r = None" "p' = set_state a (\<lambda>s. s\<lparr>ars_completed_generation := g, ars_updated_at := db_now ?E\<rparr>) p1"
      by simp_all
    with i1(4) i1(5) [OF 0] show ?thesis by (simp add: active_repairs_def set_state_def)
  next
    case k: False
    let ?q = "complete_refresh_generation_if_terminal ?E a g (mark_exhausted_refresh_entries (rr_policy R) a g p1)"
    have q: "refresh_inv X ?q" "free_chain a ?q" "active_repairs ?q = active_repairs p"
      using i1 by (auto intro!: complete_served_inv mark_inv)
    show ?thesis
    proof (cases "run_select R n a g None ?q")
      case sel: (Pair x p2)
      show ?thesis
      proof (cases x)
        case (Inl e)
        with body snap k sel show ?thesis by simp
      next
        case x: (Inr y)
        show ?thesis
        proof (cases y)
          case None
          with body snap k sel x have "r = None" "p' = p2" by simp_all
          with select_free [OF sel [unfolded x None] q(1)] q(3) show ?thesis by (simp add: active_repairs_def)
        next
          case (Some entry)
          with body snap k sel x have "run_admit R n a g (rd_chain (rr_draw R n)) entry True p2 = (Inr r, p')" by simp
          from admit_free [OF sel [unfolded x Some] this q(1) a q(2)] q(3) show ?thesis by simp
        qed
      qed
    qed
  qed
qed

end
