(* ===== verification/Asset_Chain_Runs.thy ===== *)
theory Asset_Chain_Runs
  imports Asset_Chains
begin

text \<open>
  Every transition of \<open>Asset_Refresh\<close> keeps the invariant of \<open>Asset_Chains\<close> and the bound on active repairs,
  and so does any sequence of them.
\<close>

section \<open>Articles that are complete again\<close>

definition chain_is :: "uuid \<Rightarrow> uuid option \<Rightarrow> pg \<Rightarrow> bool" where
  "chain_is a c p \<longleftrightarrow> (\<forall>s \<in> set (pg_refresh_states p). ars_asset_record_id s = a \<longrightarrow> ars_active_chain_id s = c)"

lemma chain_is_None: "chain_is a None p = free_chain a p"
  by (simp add: chain_is_def free_chain_def)

lemma chain_is_frame: "pg_refresh_states p' = pg_refresh_states p \<Longrightarrow> chain_is a c p' = chain_is a c p"
  by (simp add: chain_is_def)

lemma chain_is_map:
  "pg_refresh_states p' = map f (pg_refresh_states p) \<Longrightarrow> (\<And>s. ars_asset_record_id (f s) = ars_asset_record_id s) \<Longrightarrow>
   (\<And>s. ars_active_chain_id (f s) = ars_active_chain_id s) \<Longrightarrow> chain_is a c p' = chain_is a c p"
  by (simp add: chain_is_def)

lemma chain_is_complete [simp]: "chain_is b c (complete_refresh_generation_if_terminal E a g p) = chain_is b c p"
  by (simp add: complete_refresh_generation_if_terminal_def set_state_def update_rows_def chain_is_def ball_Un)
    (force simp: image_iff)

text \<open>What retiring entries and completing generations leaves as it is.\<close>

definition steady :: "pg \<Rightarrow> pg \<Rightarrow> bool" where
  "steady p p' \<longleftrightarrow>
     served_view p' = served_view p \<and> pg_jobs p' = pg_jobs p \<and> pg_repair_jobs p' = pg_repair_jobs p \<and>
     (\<forall>a c. chain_is a c p' = chain_is a c p)"

lemma steady_refl [simp]: "steady p p"
  by (simp add: steady_def)

lemma steady_trans [trans]: "steady p q \<Longrightarrow> steady q r \<Longrightarrow> steady p r"
  by (simp add: steady_def)

lemma steady_complete [simp]: "steady p (complete_refresh_generation_if_terminal E a g p)"
  by (simp add: steady_def)

lemma steady_entries:
  "pg_refresh_states p' = pg_refresh_states p \<Longrightarrow> pg_jobs p' = pg_jobs p \<Longrightarrow> pg_repair_jobs p' = pg_repair_jobs p \<Longrightarrow> steady p p'"
  by (simp add: steady_def served_view_def chain_is_def)

lemma steady_views:
  assumes "steady p p'"
  shows "active_repairs p' = active_repairs p" "at_most_served a g p' = at_most_served a g p" "chain_is a c p' = chain_is a c p"
    "pg_jobs p' = pg_jobs p" "pg_repair_jobs p' = pg_repair_jobs p" "served_view p' = served_view p"
  using assms by (simp_all add: steady_def active_repairs_def at_most_served_def)

lemma complete_all:
  "refresh_inv X p \<Longrightarrow> \<forall>(a, g) \<in> set gs. at_most_served a g p \<Longrightarrow>
   p' = fold (\<lambda>(a, g). complete_refresh_generation_if_terminal E a g) gs p \<Longrightarrow> refresh_inv X p' \<and> steady p p'"
proof (induction gs arbitrary: p)
  case (Cons x gs)
  obtain a g where x: "x = (a, g)" by (cases x)
  let ?q = "complete_refresh_generation_if_terminal E a g p"
  have "refresh_inv X ?q" using Cons.prems(1,2) by (intro complete_served_inv) (auto simp: x)
  then have "refresh_inv X p' \<and> steady ?q p'" using Cons.IH [of ?q] Cons.prems(2,3) by (simp add: x)
  then show ?case using steady_trans steady_complete by blast
qed simp

lemma affected_served:
  assumes inv: "refresh_inv X p" and "(a, g) \<in> set (affected_generations i v p)"
  shows "at_most_served a g p"
proof -
  from assms(2) obtain e where e: "e \<in> set (pg_entries p)" "ge_asset_record_id e = a" "ge_generation e = g"
    by (auto simp: affected_generations_def)
  with refresh_inv_entry(1) [OF inv e(1)] show ?thesis by (auto simp: at_most_served_iff entry_served_def)
qed

lemma reconcile_inv:
  assumes "reconcile_article_refresh_entries E i v p = (gs, p')" "refresh_inv X p"
  shows "refresh_inv X p'" "steady p p'" "\<forall>(a, g) \<in> set gs. at_most_served a g p'"
proof -
  let ?q = "retire (\<lambda>e. ge_source_id e = i \<and> ge_review_id e = v \<and> entry_pending e) p"
  from assms(1) have gs: "gs = affected_generations i v p"
    and p': "p' = fold (\<lambda>(a, g). complete_refresh_generation_if_terminal E a g) gs ?q"
    by (auto simp: reconcile_article_refresh_entries_def Let_def)
  have inv: "refresh_inv X ?q" by (rule retire_pending_inv [OF assms(2)]) simp
  have st: "steady p ?q" by (rule steady_entries) (simp_all add: retire_def)
  have served: "\<forall>(a, g) \<in> set gs. at_most_served a g ?q"
    using affected_served [OF assms(2)] steady_views(2) [OF st] by (auto simp: gs)
  note all = complete_all [OF inv served p']
  show "refresh_inv X p'" "steady p p'" using all steady_trans [OF st] by blast+
  show "\<forall>(a, g) \<in> set gs. at_most_served a g p'" using served steady_views(2) all by blast
qed

abbreviation capacity :: "refresh_run \<Rightarrow> nat" where
  "capacity R \<equiv> unat (max_pending (rr_repair R))"

lemma pending_free:
  assumes "refresh_inv X p" "refresh_generation_pending a g p"
  shows "free_chain a p"
proof -
  from assms(2) obtain s where s: "s \<in> set (pg_refresh_states p)" "ars_asset_record_id s = a" "ars_active_chain_id s = None"
    by (auto simp: refresh_generation_pending_def)
  show ?thesis unfolding free_chain_def using state_unique [OF refresh_invD(1) [OF assms(1)] _ s(1)] s by metis
qed

lemma readmit_inv:
  "readmit R n gs p = (Inr (), p') \<Longrightarrow> refresh_inv {} p \<Longrightarrow> \<forall>(a, g) \<in> set gs. at_most_served a g p \<Longrightarrow>
   refresh_inv {} p' \<and> (active_repairs p \<le> capacity R \<longrightarrow> active_repairs p' \<le> capacity R)"
proof (induction gs arbitrary: n p)
  case (Cons x gs)
  obtain a g where x: "x = (a, g)" by (cases x)
  have served: "at_most_served a g p" "\<forall>(a, g) \<in> set gs. at_most_served a g p" using Cons.prems(3) by (simp_all add: x)
  show ?case
  proof (cases "refresh_capacity_available (rr_repair R) p \<and> refresh_generation_pending a g p")
    case False
    let ?q = "complete_refresh_generation_if_terminal (rr_env R) a g p"
    from False Cons.prems(1) have "readmit R (Suc n) gs ?q = (Inr (), p')" by (auto simp: x split: if_splits)
    moreover have "refresh_inv {} ?q" by (rule complete_served_inv [OF Cons.prems(2) served(1)])
    ultimately show ?thesis using Cons.IH [of "Suc n" ?q] served(2) by simp
  next
    case go: True
    then have room: "active_repairs p < capacity R" by (simp add: refresh_capacity_available_def)
    from go have free: "free_chain a p" using pending_free [OF Cons.prems(2)] by blast
    obtain y p1 where sel: "run_select R n a g None p = (Inr y, p1)"
      using Cons.prems(1) go by (auto simp: x split: sum.splits prod.splits)
    note s = select_free [OF sel Cons.prems(2)]
    have same: "active_repairs p1 = active_repairs p" by (rule active_repairs_cong [OF s(5,6)])
    show ?thesis
    proof (cases y)
      case None
      let ?q = "complete_refresh_generation_if_terminal (rr_env R) a g p1"
      from None go sel Cons.prems(1) have "readmit R (Suc n) gs ?q = (Inr (), p')" by (simp add: x)
      moreover have "at_most_served b h p1 = at_most_served b h p" for b h by (rule at_most_served_view [OF s(3)])
      ultimately show ?thesis
        using Cons.IH [of "Suc n" ?q] complete_served_inv [OF s(1), of a g] served room same by simp
    next
      case (Some entry)
      with go sel Cons.prems(1) obtain z p2 where adm: "run_admit R n a g (rd_chain (rr_draw R n)) entry True p1 = (Inr z, p2)"
        and rest: "readmit R (Suc n) gs p2 = (Inr (), p')" by (auto simp: x split: sum.splits prod.splits)
      note f = admit_free [OF sel [unfolded Some] adm Cons.prems(2) _ free]
      have "active_repairs p2 \<le> capacity R" using f(2) room by (auto split: if_splits)
      moreover have "at_most_served b h p2 = at_most_served b h p" for b h by (rule at_most_served_view [OF f(3)]) simp
      ultimately show ?thesis using Cons.IH [OF rest] f(1) served(2) by simp
    qed
  qed
qed simp

lemma lineage_views [simp]:
  "active_repairs (p\<lparr>pg_lineage := ls\<rparr>) = active_repairs p" "at_most_served a g (p\<lparr>pg_lineage := ls\<rparr>) = at_most_served a g p"
  "served_view (p\<lparr>pg_lineage := ls\<rparr>) = served_view p" "steady (p\<lparr>pg_lineage := ls\<rparr>) q = steady p q"
  by (simp_all add: active_repairs_def at_most_served_iff served_view_def steady_def chain_is_def)

lemma reset_inv:
  assumes "reset_article_refresh_lineage R i v p = (Inr (), p')" "refresh_inv {} p"
  shows "refresh_inv {} p' \<and> (active_repairs p \<le> capacity R \<longrightarrow> active_repairs p' \<le> capacity R)"
proof -
  let ?q = "reset_lineage (rr_view R 0 0) (rr_env R) i (trim v) p"
  have q: "?q = p\<lparr>pg_lineage := pg_lineage ?q\<rparr>" by (simp add: reset_lineage_def)
  obtain gs p1 where rec: "reconcile_article_refresh_entries (rr_env R) i (trim v) ?q = (gs, p1)" by fastforce
  with assms(1) have re: "readmit R 0 gs p1 = (Inr (), p')"
    by (auto simp: reset_article_refresh_lineage_def split: sum.splits)
  have same: "refresh_inv {} ?q = refresh_inv {} p" "active_repairs ?q = active_repairs p" by (subst q, simp)+
  then have "refresh_inv {} ?q" using assms(2) by simp
  note r = reconcile_inv [OF rec this]
  have "active_repairs p1 = active_repairs p" using steady_views(1) [OF r(2)] same(2) by simp
  with readmit_inv [OF re r(1) r(3)] show ?thesis by simp
qed


section \<open>The end of a refresh job\<close>

lemma release_chain:
  assumes inv: "refresh_inv (insert a X) q" and all: "\<forall>s \<in> set (pg_refresh_states q). ars_asset_record_id s = a \<longrightarrow> C s"
    and q': "q' = set_state a (\<lambda>s. if C s then s\<lparr>ars_active_chain_id := None, ars_updated_at := now\<rparr> else s) q"
  shows "refresh_inv X q'" "free_chain a q'" "served_view q' = served_view q" "pg_jobs q' = pg_jobs q"
    "pg_repair_jobs q' = pg_repair_jobs q" "active_repairs q' = active_repairs q"
proof -
  let ?f = "\<lambda>s. if ars_asset_record_id s = a \<and> C s then s\<lparr>ars_active_chain_id := None, ars_updated_at := now\<rparr> else s"
  have eq: "pg_refresh_states q' = map ?f (pg_refresh_states q)" by (simp add: q' set_state_def update_rows_def)
  show "refresh_inv X q'"
  proof (rule release_inv [OF inv eq])
    show "ars_active_chain_id (?f s) = (if ars_asset_record_id s = a then None else ars_active_chain_id s)"
      if "s \<in> set (pg_refresh_states q)" for s using bspec [OF all that] by simp
  qed (simp_all add: q' set_state_def)
  show "free_chain a q'" unfolding free_chain_def eq set_map
  proof (intro ballI impI)
    fix s
    assume s: "s \<in> ?f ` set (pg_refresh_states q)" "ars_asset_record_id s = a"
    from s(1) obtain x where x: "s = ?f x" "x \<in> set (pg_refresh_states q)" by (rule imageE)
    have "ars_asset_record_id x = a" using s(2) unfolding x(1) by (cases "C x") (simp_all split: if_splits)
    with bspec [OF all x(2)] show "ars_active_chain_id s = None" unfolding x(1) by simp
  qed
  show "served_view q' = served_view q" by (rule served_view_map [OF eq]) simp_all
  show jobs: "pg_jobs q' = pg_jobs q" "pg_repair_jobs q' = pg_repair_jobs q" by (simp_all add: q' set_state_def)
  show "active_repairs q' = active_repairs q" by (rule active_repairs_cong [OF jobs])
qed

lemma continue_inv:
  assumes res: "continue_refresh_chain R n t p = (Inr r, p')" and a: "t_asset_id t = a" "a \<notin> X"
    and inv: "refresh_inv (insert a X) p" and chain: "chain_is a (Some (t_chain_id t)) p"
  shows "refresh_inv X p' \<and> served_view p' = served_view p \<and> active_repairs p' \<le> active_repairs p + (if r = None then 0 else 1)"
proof -
  let ?m = "mark_exhausted_refresh_entries (rr_policy R) a (t_generation t) p"
  let ?free = "set_state a (\<lambda>s. if ars_active_chain_id s = Some (t_chain_id t)
                                  then s\<lparr>ars_active_chain_id := None, ars_updated_at := db_now (rr_env R)\<rparr> else s)"
  have released: "refresh_inv X (?free q) \<and> served_view (?free q) = served_view q \<and> active_repairs (?free q) = active_repairs q"
    if q: "refresh_inv (insert a X) q" "pg_refresh_states q = pg_refresh_states p" for q
  proof -
    have "\<forall>s \<in> set (pg_refresh_states q). ars_asset_record_id s = a \<longrightarrow> ars_active_chain_id s = Some (t_chain_id t)"
      using chain q(2) by (simp add: chain_is_def)
    from release_chain(1,3,6) [OF q(1) this refl, of "db_now (rr_env R)"] show ?thesis by blast
  qed
  have m: "refresh_inv (insert a X) ?m" by (rule mark_inv [OF inv])
  from res a(1) obtain y p1 where sel: "run_select R n a (t_generation t) (Some (t_ordinal t)) ?m = (Inr y, p1)"
    by (auto simp: continue_refresh_chain_def Let_def split: sum.splits prod.splits)
  note s = select_free [OF sel m]
  show ?thesis
  proof (cases y)
    case None
    with res sel a(1) have "r = None" "p' = ?free p1" by (simp_all add: continue_refresh_chain_def Let_def)
    with released [OF s(1)] s(3-6) active_repairs_cong [OF s(5,6)] show ?thesis by simp
  next
    case (Some entry)
    with res sel a(1) obtain z p2 where adm: "run_admit R n a (t_generation t) (t_chain_id t) entry False p1 = (Inr z, p2)"
      and fin: "r = z" "p' = (if z = None then ?free p2 else p2)"
      by (auto simp: continue_refresh_chain_def Let_def split: sum.splits prod.splits option.splits)
    have "(case z of None \<Rightarrow> refresh_inv (insert a X) p2 \<and> pg_refresh_states p2 = pg_refresh_states ?m | Some _ \<Rightarrow> refresh_inv X p2) \<and>
      served_view p2 = served_view ?m \<and> active_repairs p2 \<le> active_repairs ?m + (if z = None then 0 else 1) \<and> grown ?m p2"
      by (rule admit_selected [OF sel [unfolded Some] adm m a(2)]) (use chain in \<open>simp add: chain_is_def\<close>)
    with fin released [of p2] show ?thesis by (auto split: option.splits)
  qed
qed

text \<open>The association of a job of which the entry is in flight.\<close>

definition target_ok :: "uuid \<Rightarrow> refresh_target \<Rightarrow> pg \<Rightarrow> bool" where
  "target_ok job_id t p \<longleftrightarrow>
     chain_is (t_asset_id t) (Some (t_chain_id t)) p \<and> (t_asset_id t, t_generation t) \<in> served_view p \<and>
     (\<exists>r \<in> set (pg_repair_jobs p). arj_job_id r = job_id \<and> arj_expired_asset_record_id r = Some (t_asset_id t) \<and>
        arj_chain_ordinal r = Some (t_ordinal t))"

lemma read_target_ok:
  assumes "read_refresh_target job_id p = Some t" "keys_ok p"
  shows "target_ok job_id t p"
proof -
  from assms(1) obtain r s where found: "find (target_match job_id) (List.product (pg_repair_jobs p) (pg_refresh_states p)) = Some (r, s)"
    and t: "t_asset_id t = ars_asset_record_id s" "t_chain_id t = the (arj_chain_id r)" "t_ordinal t = the (arj_chain_ordinal r)"
      "t_generation t = ars_served_generation s"
    unfolding read_refresh_target_def by auto
  from found have "(r, s) \<in> set (List.product (pg_repair_jobs p) (pg_refresh_states p))" "target_match job_id (r, s)"
    by (simp_all add: find_SomeD del: set_product)
  then have m: "target_match job_id (r, s)" "r \<in> set (pg_repair_jobs p)" "s \<in> set (pg_refresh_states p)" by simp_all
  have "chain_is (t_asset_id t) (Some (t_chain_id t)) p"
    unfolding chain_is_def using state_unique [OF assms(2) _ m(3)] m(1) by (auto simp: t target_match_def)
  moreover have "(t_asset_id t, t_generation t) \<in> served_view p" using m(3) by (auto simp: served_view_def t)
  moreover have "\<exists>r \<in> set (pg_repair_jobs p). arj_job_id r = job_id \<and> arj_expired_asset_record_id r = Some (t_asset_id t) \<and>
        arj_chain_ordinal r = Some (t_ordinal t)" using m(1,2) by (auto simp: target_match_def t)
  ultimately show ?thesis by (simp add: target_ok_def)
qed

lemma land_target:
  assumes inv: "refresh_inv {} p" and cur: "entry_is_current t p"
    and f: "\<And>e. same_entry e (f e)" "\<And>e. \<not> in_flight (f e)" "\<And>e. entry_check e \<Longrightarrow> entry_check (f e)"
  shows "refresh_inv {t_asset_id t}
    (p\<lparr>pg_entries := update_rows (\<lambda>e. of_generation (t_asset_id t) (t_generation t) e \<and> ge_ordinal e = t_ordinal t) f (pg_entries p)\<rparr>)"
proof -
  from cur obtain e where e: "entry_at (t_asset_id t) (t_generation t) (t_ordinal t) p e" "in_flight e"
    by (auto simp: entry_is_current_def entry_at_def in_flight_def)
  then have e_in: "e \<in> set (pg_entries p)" "of_generation (t_asset_id t) (t_generation t) e" "ge_ordinal e = t_ordinal t"
    by (simp_all add: entry_at_def)
  show ?thesis
  proof (rule land_inv [OF inv refl _ _ f])
    show "of_generation (t_asset_id t) (t_generation t) x \<and> ge_ordinal x = t_ordinal t"
      if "x \<in> set (pg_entries p)" "in_flight x" "ge_asset_record_id x = t_asset_id t" for x
      using refresh_invD(5) [OF inv that(1) e_in(1) that(2) e(2)] that(3) e_in(2,3) by (simp add: of_generation_def)
    show "ge_state (f x) = ''done''"
      if "x \<in> set (pg_entries p)" "of_generation (t_asset_id t) (t_generation t) x \<and> ge_ordinal x = t_ordinal t" "ge_state x = ''done''" for x
      using entry_at_unique [OF refresh_invD(1) [OF inv] e(1), of x] that e(2) by (auto simp: entry_at_def in_flight_def)
  qed (simp add: of_generation_def)
qed

lemma set_done_inv:
  assumes "refresh_inv {} p" "entry_is_current t p"
  shows "refresh_inv {t_asset_id t} (set_refresh_entry_done t p)" "steady p (set_refresh_entry_done t p)"
proof -
  show "refresh_inv {t_asset_id t} (set_refresh_entry_done t p)"
    unfolding set_refresh_entry_done_def retire_def
    by (rule land_target [OF assms]) (simp_all add: same_entry_def in_flight_def entry_done_check)
  show "steady p (set_refresh_entry_done t p)" by (rule steady_entries) (simp_all add: set_refresh_entry_done_def retire_def)
qed

lemma settle_inv:
  assumes "refresh_inv {} p" "entry_is_current t p"
  shows "refresh_inv {t_asset_id t} (settle_article E t p) \<and> steady p (settle_article E t p)"
proof -
  obtain gs p' where rec: "reconcile_article_refresh_entries E (t_source_id t) (t_review_id t) (set_refresh_entry_done t p) = (gs, p')" by fastforce
  note d = set_done_inv [OF assms]
  from reconcile_inv [OF rec d(1)] steady_trans [OF d(2)] rec show ?thesis by (simp add: settle_article_def)
qed

lemma cool_inv:
  assumes "refresh_inv {} p" "entry_is_current t p"
  shows "refresh_inv {t_asset_id t} (cool_entry t later p) \<and> steady p (cool_entry t later p)"
proof
  show "refresh_inv {t_asset_id t} (cool_entry t later p)"
    unfolding cool_entry_def by (rule land_target [OF assms]) (simp_all add: same_entry_def in_flight_def entry_check_def)
  show "steady p (cool_entry t later p)" by (rule steady_entries) (simp_all add: cool_entry_def)
qed

lemma set_lineage_frame [simp]:
  "refresh_inv X (set_lineage t f p) = refresh_inv X p" "entry_is_current t (set_lineage t f p) = entry_is_current t p"
  "steady (set_lineage t f p) q = steady p q"
  by (simp_all add: set_lineage_def entry_is_current_def)

lemma outcome_inv:
  assumes res: "apply_refresh_outcome E policy t out p = (Inr (), p')" and inv: "refresh_inv {} p" "entry_is_current t p"
  shows "refresh_inv {t_asset_id t} p' \<and> steady p p'"
proof (cases out)
  case RefreshSucceeded
  with res have "p' = settle_article E t (set_lineage t (\<lambda>l. l\<lparr>ln_attempts := 0, ln_next_allowed_at := None, ln_exhausted := False,
      ln_last_outcome := Some ''succeeded'', ln_updated_at := db_now E\<rparr>) p)" by (simp add: apply_refresh_outcome_def)
  with settle_inv [of "set_lineage t (\<lambda>l. l\<lparr>ln_attempts := 0, ln_next_allowed_at := None, ln_exhausted := False,
      ln_last_outcome := Some ''succeeded'', ln_updated_at := db_now E\<rparr>) p" t E] inv show ?thesis by simp
next
  case RefreshInconclusive
  show ?thesis
  proof (cases "find_lineage (t_source_id t) (t_review_id t) p")
    case None
    with res RefreshInconclusive settle_inv [OF inv, of E] show ?thesis by (simp add: apply_refresh_outcome_def)
  next
    case (Some l)
    with res RefreshInconclusive obtain f later where
      "p' = settle_article E t (set_lineage t f p) \<or> p' = cool_entry t later (set_lineage t f p)"
      by (auto simp: apply_refresh_outcome_def Let_def split: option.splits if_splits)
    moreover have "refresh_inv {} (set_lineage t f p)" "entry_is_current t (set_lineage t f p)" using inv by simp_all
    ultimately show ?thesis using settle_inv [of "set_lineage t f p" t E] cool_inv [of "set_lineage t f p" t later] by auto
  qed
qed (use res set_done_inv [OF inv] in \<open>simp_all add: apply_refresh_outcome_def\<close>)

text \<open>Changes of job rows: a job that ends may carry no entry of an active chain.\<close>

definition carrier :: "repair_job_row \<Rightarrow> uuid \<Rightarrow> generation_entry_row \<Rightarrow> bool" where
  "carrier r c e \<longleftrightarrow>
     arj_admission_class r = ''internal_refresh'' \<and> arj_refresh_source_id r = Some (ge_source_id e) \<and>
     arj_refresh_review_id r = Some (ge_review_id e) \<and> arj_expired_asset_record_id r = Some (ge_asset_record_id e) \<and>
     arj_chain_id r = Some c \<and> arj_chain_ordinal r = Some (ge_ordinal e)"

abbreviation row_active :: "job_row \<Rightarrow> bool" where
  "row_active j \<equiv> r_status j \<in> set active_statuses"

lemma carries_iff:
  "carries p c e \<longleftrightarrow> (\<exists>r \<in> set (pg_repair_jobs p). \<exists>j \<in> set (pg_jobs p).
     r_id j = arj_job_id r \<and> row_active j \<and> r_job_type j = job_type_name AssetRefresh \<and> carrier r c e)"
  by (auto simp: carries_def carrier_def)

definition loose :: "uuid \<Rightarrow> pg \<Rightarrow> bool" where
  "loose i p \<longleftrightarrow>
     (\<forall>r \<in> set (pg_repair_jobs p). \<forall>e \<in> set (pg_entries p). \<forall>s \<in> set (pg_refresh_states p). \<forall>c.
        arj_job_id r = i \<longrightarrow> in_flight e \<longrightarrow> ars_asset_record_id s = ge_asset_record_id e \<longrightarrow> ars_active_chain_id s = Some c \<longrightarrow>
        \<not> carrier r c e)"

definition job_move :: "(job_row \<Rightarrow> job_row) \<Rightarrow> pg \<Rightarrow> bool" where
  "job_move f p \<longleftrightarrow>
     (\<forall>j \<in> set (pg_jobs p). r_id (f j) = r_id j \<and> r_job_type (f j) = r_job_type j \<and> (row_active (f j) \<longrightarrow> row_active j) \<and>
        (row_active j \<longrightarrow> row_active (f j) \<or> r_job_type j \<noteq> job_type_name AssetRefresh \<or> loose (r_id j) p))"

lemma job_move_inv:
  assumes inv: "refresh_inv X p" and f: "job_move f p"
  shows "refresh_inv X (p\<lparr>pg_jobs := map f (pg_jobs p)\<rparr>)"
proof (rule refresh_invI)
  let ?p = "p\<lparr>pg_jobs := map f (pg_jobs p)\<rparr>"
  have ids: "map (\<lambda>j. r_id (f j)) (pg_jobs p) = map r_id (pg_jobs p)" using f by (auto simp: job_move_def)
  have "\<exists>j \<in> f ` set (pg_jobs p). r_id j = arj_job_id r" if "r \<in> set (pg_repair_jobs p)" for r
    using refresh_invD(1) [OF inv] that f by (fastforce simp: keys_ok_def job_move_def)
  then show "keys_ok ?p" using refresh_invD(1) [OF inv] by (simp add: keys_ok_def comp_def ids)
  show "\<exists>s \<in> set (pg_refresh_states ?p). ars_asset_record_id s = ge_asset_record_id e \<and> entry_served s e \<and>
     (in_flight e \<longrightarrow> ge_asset_record_id e \<notin> X \<and> ars_active_chain_id s \<noteq> None)" if "e \<in> set (pg_entries ?p)" for e
    using that inv unfolding refresh_inv_def by simp
  show "\<exists>e \<in> set (pg_entries ?p). ge_asset_record_id e = ars_asset_record_id s \<and> in_flight e \<and> carries ?p c e"
    if s: "s \<in> set (pg_refresh_states ?p)" "ars_active_chain_id s = Some c" "ars_asset_record_id s \<notin> X" for s c
  proof -
    from s refresh_invD(4) [OF inv] obtain e where e: "e \<in> set (pg_entries p)" "ge_asset_record_id e = ars_asset_record_id s"
      "in_flight e" "carries p c e" by auto
    then obtain r j where r: "r \<in> set (pg_repair_jobs p)" "j \<in> set (pg_jobs p)" "r_id j = arj_job_id r" "row_active j"
      "r_job_type j = job_type_name AssetRefresh" "carrier r c e" by (auto simp: carries_iff)
    have "\<not> loose (r_id j) p"
    proof
      assume "loose (r_id j) p"
      then show False using r(1,3,6) e(1-3) s(1,2) unfolding loose_def by simp
    qed
    with f r have "row_active (f j)" "r_id (f j) = r_id j" "r_job_type (f j) = r_job_type j" by (auto simp: job_move_def)
    with r have "carries ?p c e" unfolding carries_iff by (intro bexI [of _ r] bexI [of _ "f j"]) auto
    with e show ?thesis by auto
  qed
qed (use refresh_invD [OF inv] in auto)

lemma job_move_active:
  assumes "job_move f p"
  shows "active_repairs (p\<lparr>pg_jobs := map f (pg_jobs p)\<rparr>) \<le> active_repairs p"
proof -
  let ?act = "\<lambda>js r. \<exists>j \<in> set js. r_id j = arj_job_id r \<and> row_active j"
  have "?act (map f (pg_jobs p)) r \<Longrightarrow> ?act (pg_jobs p) r" for r using assms by (fastforce simp: job_move_def)
  then have "length (filter (?act (map f (pg_jobs p))) rs) \<le> length (filter (?act (pg_jobs p)) rs)" for rs
    by (induction rs) (simp_all only: filter.simps split: if_split, auto)
  then show ?thesis by (simp add: active_repairs_def)
qed

lemma pg_succeed_Inr:
  assumes "pg_succeed X E i owner tok now p = (Inr j, p')"
  obtains f where "p' = p\<lparr>pg_jobs := map f (pg_jobs p)\<rparr>" "\<forall>r. r_id (f r) = r_id r \<and> r_job_type (f r) = r_job_type r" "\<forall>r. \<not> fence E i owner tok r \<longrightarrow> f r = r"
    "\<forall>r. fence E i owner tok r \<longrightarrow> r_status (f r) = ''succeeded''" "\<exists>r \<in> set (pg_jobs p). fence E i owner tok r"
proof -
  let ?f = "\<lambda>r. if fence E i owner tok r then (release_lease r)\<lparr>r_status := ''succeeded'', r_last_error := None,
        r_finished_at := Some (db_now E), r_updated_at := db_now E\<rparr> else r"
  from assms have p': "p' = p\<lparr>pg_jobs := map ?f (pg_jobs p)\<rparr>" and hit: "filter (fence E i owner tok) (pg_jobs p) \<noteq> []"
    by (auto simp: pg_succeed_def update_where_def split: sum.splits list.splits)
  show thesis
    by (rule that [OF p']) (use hit in \<open>auto simp: filter_empty_conv release_lease_def\<close>)
qed

lemma moved_loose:
  assumes "refresh_inv X p" "keys_ok p" "r \<in> set (pg_repair_jobs p)" "arj_expired_asset_record_id r = Some a" "a \<in> X"
  shows "loose (arj_job_id r) p"
  unfolding loose_def
proof (intro ballI allI impI)
  fix x e s c
  assume x: "x \<in> set (pg_repair_jobs p)" "e \<in> set (pg_entries p)" "arj_job_id x = arj_job_id r" "in_flight e"
  then have "x = r" using assms(2,3) by (intro distinct_key_eq [of arj_job_id "pg_repair_jobs p"]) (auto simp: keys_ok_def)
  with assms(4,5) in_flight_outside [OF assms(1) x(2,4)] show "\<not> carrier x c e" by (auto simp: carrier_def)
qed

lemma succeed_inv:
  assumes res: "succeed_lease R lease p = (Inr (), p')" and inv: "refresh_inv X p"
    and free: "loose (j_id (l_job lease)) p \<or> (\<forall>r \<in> set (pg_jobs p). r_id r = j_id (l_job lease) \<longrightarrow> r_job_type r \<noteq> job_type_name AssetRefresh)"
  shows "refresh_inv X p'" "pg_refresh_states p' = pg_refresh_states p" "active_repairs p' \<le> active_repairs p"
    "r \<in> set (pg_repair_jobs p) \<Longrightarrow> arj_job_id r = j_id (l_job lease) \<Longrightarrow> active_repairs p' < active_repairs p"
proof -
  let ?i = "j_id (l_job lease)"
  from res obtain owner j where "pg_succeed (rr_chrono R) (rr_env R) ?i owner (l_token lease) (rd_now (rr_draw R 0)) p = (Inr j, p')"
    by (auto simp: succeed_lease_def split: option.splits prod.splits sum.splits)
  then obtain f where p': "p' = p\<lparr>pg_jobs := map f (pg_jobs p)\<rparr>" and f: "\<forall>r. r_id (f r) = r_id r \<and> r_job_type (f r) = r_job_type r"
    "\<forall>r. \<not> fence (rr_env R) ?i owner (l_token lease) r \<longrightarrow> f r = r"
    "\<forall>r. fence (rr_env R) ?i owner (l_token lease) r \<longrightarrow> r_status (f r) = ''succeeded''"
    "\<exists>r \<in> set (pg_jobs p). fence (rr_env R) ?i owner (l_token lease) r"
    by (rule pg_succeed_Inr)
  note keys = refresh_invD(1) [OF inv]
  have fenced: "\<not> row_active (f j)" "row_active j" "r_id j = ?i" if "fence (rr_env R) ?i owner (l_token lease) j" for j
    using that f(3) by (auto simp: fence_def active_statuses_def)
  have move: "job_move f p" unfolding job_move_def
  proof
    fix j
    assume j: "j \<in> set (pg_jobs p)"
    show "r_id (f j) = r_id j \<and> r_job_type (f j) = r_job_type j \<and> (row_active (f j) \<longrightarrow> row_active j) \<and>
        (row_active j \<longrightarrow> row_active (f j) \<or> r_job_type j \<noteq> job_type_name AssetRefresh \<or> loose (r_id j) p)"
      using j f(1,2) fenced [of j] free by (cases "fence (rr_env R) ?i owner (l_token lease) j") auto
  qed
  show "refresh_inv X p'" unfolding p' by (rule job_move_inv [OF inv move])
  show "pg_refresh_states p' = pg_refresh_states p" by (simp add: p')
  show "active_repairs p' \<le> active_repairs p" unfolding p' by (rule job_move_active [OF move])
  assume r: "r \<in> set (pg_repair_jobs p)" "arj_job_id r = ?i"
  let ?act = "\<lambda>q x. \<exists>j \<in> set (pg_jobs q). r_id j = arj_job_id x \<and> row_active j"
  have old: "?act p x" if "?act p' x" for x
    using that move by (fastforce simp: p' job_move_def)
  from f(4) obtain j where j: "j \<in> set (pg_jobs p)" "fence (rr_env R) ?i owner (l_token lease) j" by blast
  have "r \<in> set (filter (?act p) (pg_repair_jobs p))" using r j fenced [OF j(2)] by auto
  moreover have "\<not> ?act p' r"
  proof
    assume "?act p' r"
    then obtain k where k: "k \<in> set (pg_jobs p)" "r_id k = ?i" "row_active (f k)" using f(1) r(2) by (auto simp: p')
    have "k = j" using j k fenced [OF j(2)] keys by (intro distinct_key_eq [of r_id "pg_jobs p"]) (auto simp: keys_ok_def)
    with k fenced [OF j(2)] show False by simp
  qed
  ultimately have "length (filter (?act p') (filter (?act p) (pg_repair_jobs p))) < length (filter (?act p) (pg_repair_jobs p))"
    by (rule length_filter_less)
  moreover have "filter (?act p') (filter (?act p) (pg_repair_jobs p)) = filter (?act p') (pg_repair_jobs p')"
    using old by (auto simp: p' intro!: filter_cong)
  ultimately show "active_repairs p' < active_repairs p" by (simp add: active_repairs_def)
qed

lemma completed_idle:
  assumes inv: "refresh_inv X p" and "refresh_generation_completed a g p = Inr True" "(a, g) \<in> served_view p"
  shows "idle a p"
proof -
  from assms(3) obtain s where s: "s \<in> set (pg_refresh_states p)" "ars_asset_record_id s = a" "ars_served_generation s = g"
    by (auto simp: served_view_def)
  from assms(2) obtain s' where s': "find_state a p = Some s'"
    and done_or: "ars_completed_generation s' \<ge> g \<or> \<not> generation_unfinished a g p"
    by (auto simp: refresh_generation_completed_def split: option.splits)
  have "s' = s" using find_SomeD [OF s' [unfolded find_state_def]] state_unique [OF refresh_invD(1) [OF inv] _ s(1)] s(2) by simp
  then show ?thesis
    using refresh_inv_entry(1) [OF inv _ s(1)] s done_or
    by (fastforce simp: idle_def entry_served_def generation_unfinished_def of_generation_def)
qed

lemma served_by_state:
  assumes "keys_ok p" "(a, g) \<in> served_view p" "find_state a p = Some s"
  shows "ars_served_generation s = g" "s \<in> set (pg_refresh_states p)" "ars_asset_record_id s = a"
proof -
  from find_SomeD [OF assms(3) [unfolded find_state_def]] show s: "s \<in> set (pg_refresh_states p)" "ars_asset_record_id s = a" by simp_all
  from assms(2) obtain s' where s': "s' \<in> set (pg_refresh_states p)" "ars_asset_record_id s' = a" "ars_served_generation s' = g"
    by (auto simp: served_view_def)
  then show "ars_served_generation s = g" using state_unique [OF assms(1) s(1) s'(1)] s(2) by simp
qed

lemma served_at_most:
  assumes "keys_ok p" "(a, g) \<in> served_view p"
  shows "at_most_served a g p"
  unfolding at_most_served_iff
proof (intro ballI impI)
  fix s
  assume s: "s \<in> set (pg_refresh_states p)" "ars_asset_record_id s = a"
  from assms(2) obtain s' where s': "s' \<in> set (pg_refresh_states p)" "ars_asset_record_id s' = a" "ars_served_generation s' = g"
    by (auto simp: served_view_def)
  have "s = s'" by (rule state_unique [OF assms(1) s(1) s'(1)]) (simp add: s s')
  with s' show "g \<le> ars_served_generation s" by simp
qed

lemma begin_target:
  assumes "begin_article_refresh R lease p = Inr (Some t)" "keys_ok p"
  shows "target_ok (j_id (l_job lease)) t p" "entry_is_current t p"
proof -
  from assms(1) have "lock_current_refresh_target (j_id (l_job lease)) p = Some t" and cur: "entry_is_current t p"
    by (auto simp: begin_article_refresh_def split: sum.splits if_splits option.splits)
  then have "read_refresh_target (j_id (l_job lease)) p = Some t"
    by (auto simp: lock_current_refresh_target_def split: option.splits)
  then show "target_ok (j_id (l_job lease)) t p" using assms(2) by (rule read_target_ok)
  show "entry_is_current t p" by (rule cur)
qed

lemma finish_inv:
  assumes res: "finish_article_refresh collate R lease out p = (Inr r, p')" and inv: "refresh_inv {} p"
  shows "refresh_inv {} p' \<and> active_repairs p' \<le> active_repairs p"
proof -
  from res obtain t where start: "begin_article_refresh R lease p = Inr (Some t)"
    and fin: "finish_article_refresh_in_transaction collate R lease t out p = (Inr r, p')"
    by (auto simp: finish_article_refresh_def split: sum.splits option.splits)
  define a where "a = t_asset_id t"
  define g where "g = t_generation t"
  note t = begin_target [OF start refresh_invD(1) [OF inv]]
  note body = fin [unfolded finish_article_refresh_in_transaction_def Let_def]
  from body obtain p1 where o: "apply_refresh_outcome (rr_env R) (rr_policy R) t out p = (Inr (), p1)"
    by (auto split: if_splits prod.splits sum.splits)
  note p1 = outcome_inv [OF o inv t(2), folded a_def]
  from body o obtain p2 where su: "succeed_lease R lease p1 = (Inr (), p2)" by (auto split: if_splits prod.splits sum.splits)
  from t(1) obtain rj where rj: "rj \<in> set (pg_repair_jobs p1)" "arj_job_id rj = j_id (l_job lease)" "arj_expired_asset_record_id rj = Some a"
    using steady_views(5) [of p p1] p1 by (auto simp: target_ok_def a_def)
  have inv1: "refresh_inv {a} p1" using p1 by blast
  have "loose (j_id (l_job lease)) p1" using moved_loose [OF inv1 refresh_invD(1) [OF inv1] rj(1,3)] rj(2) by simp
  note p2 = succeed_inv [OF su inv1 disjI1 [OF this]]
  have inv2: "refresh_inv {a} p2" and st2: "pg_refresh_states p2 = pg_refresh_states p1" "active_repairs p2 < active_repairs p"
    using p2(1,2) p2(4) [OF rj(1,2)] p1 steady_views(1) [of p p1] by simp_all
  from body o su obtain n p3 where co: "continue_refresh_chain R 0 t p2 = (Inr n, p3)" by (auto split: if_splits prod.splits sum.splits)
  have chain: "chain_is a (Some (t_chain_id t)) p2"
    using t(1) p1 steady_views(3) chain_is_frame [OF st2(1)] by (auto simp: target_ok_def a_def)
  have p3: "refresh_inv {} p3" "served_view p3 = served_view p2" "active_repairs p3 \<le> active_repairs p2 + (if n = None then 0 else 1)"
    using continue_inv [OF co a_def [symmetric] _ inv2 chain] by simp_all
  have served: "(a, g) \<in> served_view p3"
    using t(1) p3(2) p1 steady_views(6) served_view_frame [OF st2(1)] by (auto simp: target_ok_def a_def g_def)
  let ?p4 = "complete_refresh_generation_if_terminal (rr_env R) a g p3"
  from body o su co obtain s c where s: "find_state a ?p4 = Some s" "refresh_generation_completed a g ?p4 = Inr c"
    by (auto simp: a_def g_def split: if_splits prod.splits sum.splits option.splits)
  have low: "at_most_served a g p3" by (rule served_at_most [OF refresh_invD(1) [OF p3(1)] served])
  have p4: "refresh_inv {} ?p4" by (rule complete_served_inv [OF p3(1) low])
  show ?thesis
  proof (cases "n = None \<and> c \<and> ars_requested_generation s > ars_served_generation s")
    case False
    with body o su co s have "p' = ?p4" by (auto simp: a_def g_def split: if_splits)
    with p4 p3(3) st2(2) show ?thesis by (auto split: if_splits)
  next
    case True
    with body o su co s obtain m where fu: "start_follow_up_generation collate R 1 a (ars_requested_generation s) ?p4 = (Inr m, p')"
      by (auto simp: a_def g_def split: if_splits prod.splits sum.splits)
    have "idle a ?p4" using completed_idle [OF p4, of a g] s(2) True served by simp
    with follow_up_inv [OF fu p4] have "refresh_inv {} p' \<and> active_repairs p' \<le> active_repairs p3 + (if m = None then 0 else 1)" by simp
    moreover have "active_repairs p3 \<le> active_repairs p2" using p3(3) True by simp
    ultimately show ?thesis using st2(2) by (cases m) auto
  qed
qed

lemma target_loose:
  assumes "read_refresh_target i p = None"
  shows "loose i p"
  unfolding loose_def
proof (intro ballI allI impI notI)
  fix r e s c
  assume r: "r \<in> set (pg_repair_jobs p)" "s \<in> set (pg_refresh_states p)" "arj_job_id r = i" "carrier r c e"
    "ars_asset_record_id s = ge_asset_record_id e" "ars_active_chain_id s = Some c"
  have "\<not> target_match i m" if "m \<in> set (List.product (pg_repair_jobs p) (pg_refresh_states p))" for m
    using assms that by (auto simp: read_refresh_target_def find_None_iff)
  from this [of "(r, s)"] r show False by (simp add: target_match_def carrier_def)
qed

lemma unresolvable_inv:
  assumes res: "complete_unresolvable_article_refresh R lease p = (Inr (), p')" and inv: "refresh_inv {} p"
    and cur: "\<forall>t. read_refresh_target (j_id (l_job lease)) p = Some t \<longrightarrow> entry_is_current t p"
  shows "refresh_inv {} p' \<and> active_repairs p' \<le> active_repairs p"
proof (cases "read_refresh_target (j_id (l_job lease)) p")
  case None
  with res have "succeed_lease R lease p = (Inr (), p')"
    by (auto simp: complete_unresolvable_article_refresh_def lock_current_refresh_target_def Let_def split: if_splits sum.splits)
  from succeed_inv(1,3) [OF this inv disjI1 [OF target_loose [OF None]]] show ?thesis by blast
next
  case (Some t)
  define a where "a = t_asset_id t"
  define g where "g = t_generation t"
  note keys = refresh_invD(1) [OF inv]
  note ok = read_target_ok [OF Some keys]
  from cur Some have current: "entry_is_current t p" by blast
  let ?P = "\<lambda>e. of_generation a g e \<and> ge_ordinal e = t_ordinal t \<and> ge_state e = ''in_flight''"
  let ?q1 = "retire ?P p"
  let ?q2 = "complete_refresh_generation_if_terminal (rr_env R) a g ?q1"
  let ?free = "set_state a (\<lambda>s. if ars_active_chain_id s = Some (t_chain_id t) \<and> ars_served_generation s = g
                          then s\<lparr>ars_active_chain_id := None, ars_updated_at := db_now (rr_env R)\<rparr> else s)"
  from res Some have su: "succeed_lease R lease (?free ?q2) = (Inr (), p')"
    by (auto simp: complete_unresolvable_article_refresh_def lock_current_refresh_target_def Let_def a_def g_def split: if_splits sum.splits)
  have eq1: "?q1 = set_refresh_entry_done t p"
  proof -
    from current obtain e where e: "entry_at a g (t_ordinal t) p e" "in_flight e"
      by (auto simp: entry_is_current_def entry_at_def in_flight_def a_def g_def)
    have "?P x \<longleftrightarrow> of_generation a g x \<and> ge_ordinal x = t_ordinal t" if "x \<in> set (pg_entries p)" for x
      using entry_at_unique [OF keys e(1), of x] that e(2) by (auto simp: entry_at_def in_flight_def)
    then show ?thesis by (simp add: set_refresh_entry_done_def retire_def update_rows_def a_def g_def cong: map_cong)
  qed
  note q1 = set_done_inv [OF inv current, folded eq1 a_def]
  have served: "(a, g) \<in> served_view p" "chain_is a (Some (t_chain_id t)) p" using ok by (simp_all add: target_ok_def a_def g_def)
  have q2: "refresh_inv {a} ?q2" "chain_is a (Some (t_chain_id t)) ?q2"
    using complete_served_inv [OF q1(1)] served_at_most [OF keys served(1)] steady_views(2,3) [OF q1(2)] served(2) by simp_all
  have all_served: "ars_served_generation s = g" if "s \<in> set (pg_refresh_states ?q2)" "ars_asset_record_id s = a" for s
  proof -
    have "served_view ?q2 = served_view p" using steady_views(6) [OF q1(2)] by simp
    with that have "(a, ars_served_generation s) \<in> served_view p" by (auto simp: served_view_def)
    with served(1) obtain x y where "x \<in> set (pg_refresh_states p)" "y \<in> set (pg_refresh_states p)" "ars_asset_record_id x = a"
      "ars_asset_record_id y = a" "ars_served_generation x = g" "ars_served_generation y = ars_served_generation s"
      by (auto simp: served_view_def)
    with state_unique [OF keys, of x y] show ?thesis by simp
  qed
  have "\<forall>s \<in> set (pg_refresh_states ?q2). ars_asset_record_id s = a \<longrightarrow>
      ars_active_chain_id s = Some (t_chain_id t) \<and> ars_served_generation s = g"
    using q2(2) all_served by (simp add: chain_is_def)
  note q3 = release_chain [OF q2(1) this refl, of "db_now (rr_env R)"]
  have same: "pg_repair_jobs (?free ?q2) = pg_repair_jobs p" "pg_jobs (?free ?q2) = pg_jobs p"
    using steady_views(4,5) [OF q1(2)] q3(4,5) by simp_all
  from ok obtain rj where rj: "rj \<in> set (pg_repair_jobs p)" "arj_job_id rj = j_id (l_job lease)" "arj_expired_asset_record_id rj = Some a"
    by (auto simp: target_ok_def a_def)
  have inv3: "refresh_inv {a} (?free ?q2)" using q3(1) free_inv [OF q3(2), of "{}"] by simp
  have "loose (j_id (l_job lease)) (?free ?q2)"
    using moved_loose [OF inv3 refresh_invD(1) [OF inv3], of rj a] rj same(1) by simp
  from succeed_inv(1,3) [OF su q3(1) disjI1 [OF this]] active_repairs_cong [OF same(2,1)] show ?thesis by simp
qed


section \<open>Requests\<close>

lemma request_inv:
  assumes "refresh_inv X p"
  shows "refresh_inv X (request_next E a p)" "steady p (request_next E a p)" "pg_entries (request_next E a p) = pg_entries p"
proof -
  let ?f = "\<lambda>s. if ars_asset_record_id s = a
      then s\<lparr>ars_requested_generation := max (ars_requested_generation s) (ars_served_generation s + 1), ars_updated_at := db_now E\<rparr> else s"
  have eq: "pg_refresh_states (request_next E a p) = map ?f (pg_refresh_states p)"
    by (simp add: request_next_def set_state_def update_rows_def)
  show "pg_entries (request_next E a p) = pg_entries p" by (simp add: request_next_def set_state_def)
  show "refresh_inv X (request_next E a p)"
  proof (rule refresh_inv_map_states [OF assms eq])
    show "state_ok (?f s)" if "s \<in> set (pg_refresh_states p)" for s using refresh_invD(2) [OF assms that] by (auto simp: state_ok_def)
  qed (auto simp: request_next_def set_state_def)
  have "served_view (request_next E a p) = served_view p" by (rule served_view_map [OF eq]) simp_all
  moreover have "chain_is b c (request_next E a p) = chain_is b c p" for b c by (rule chain_is_map [OF eq]) simp_all
  ultimately show "steady p (request_next E a p)" by (simp add: steady_def request_next_def set_state_def)
qed

lemma stamp_inv:
  assumes "refresh_inv X p"
  shows "refresh_inv X (set_state a (\<lambda>s. s\<lparr>ars_updated_at := t\<rparr>) p)" "active_repairs (set_state a (\<lambda>s. s\<lparr>ars_updated_at := t\<rparr>) p) = active_repairs p"
proof -
  let ?f = "\<lambda>s. if ars_asset_record_id s = a then s\<lparr>ars_updated_at := t\<rparr> else s"
  show "refresh_inv X (set_state a (\<lambda>s. s\<lparr>ars_updated_at := t\<rparr>) p)"
  proof (rule refresh_inv_map_states [OF assms, of _ ?f])
    show "state_ok (?f s)" if "s \<in> set (pg_refresh_states p)" for s using refresh_invD(2) [OF assms that] by (auto simp: state_ok_def)
  qed (auto simp: set_state_def update_rows_def)
qed (simp add: set_state_def active_repairs_def)

lemma found_state:
  assumes "keys_ok p" "find_state a p = Some s"
  shows "s \<in> set (pg_refresh_states p)" "ars_asset_record_id s = a" "chain_is a (ars_active_chain_id s) p" "(a, ars_served_generation s) \<in> served_view p"
proof -
  from find_SomeD [OF assms(2) [unfolded find_state_def]] show s: "s \<in> set (pg_refresh_states p)" "ars_asset_record_id s = a" by simp_all
  then show "(a, ars_served_generation s) \<in> served_view p" by (auto simp: served_view_def)
  have "x = s" if "x \<in> set (pg_refresh_states p)" "ars_asset_record_id x = a" for x
    by (rule state_unique [OF assms(1) that(1) s(1)]) (simp add: that s)
  then show "chain_is a (ars_active_chain_id s) p" by (auto simp: chain_is_def)
qed

lemma resume_follow_up_inv:
  assumes res: "resume_follow_up_generation collate R n a served p = (Inr r, p')" and inv: "refresh_inv {} p"
    and served: "(a, served) \<in> served_view p"
  shows "refresh_inv {} p' \<and> active_repairs p' \<le> Suc (active_repairs p)"
proof (cases "\<exists>g x. start_follow_up_generation collate R n a g p = (Inr x, p') \<and> refresh_generation_completed a served p = Inr True")
  case True
  then obtain g x where g: "start_follow_up_generation collate R n a g p = (Inr x, p')" "refresh_generation_completed a served p = Inr True" by blast
  from follow_up_inv [OF g(1) inv _ completed_idle [OF inv g(2) served]] show ?thesis by (cases x) simp_all
next
  case False
  with res have "p' = p"
    by (auto simp: resume_follow_up_generation_def Let_def split: sum.splits prod.splits option.splits if_splits)
  with inv show ?thesis by simp
qed

lemma all_done_idle:
  assumes inv: "refresh_inv X p" and s: "find_state a p = Some s" "ars_served_generation s \<le> ars_completed_generation s"
  shows "idle a p"
  using refresh_inv_entry(1) [OF inv _ found_state(1) [OF refresh_invD(1) [OF inv] s(1)]] found_state(2) [OF refresh_invD(1) [OF inv] s(1)] s(2)
  by (fastforce simp: idle_def entry_served_def)

text \<open>The selection that resumes the generation being served.\<close>

lemma pick_inv:
  assumes sel: "run_select R n a g None (mark_exhausted_refresh_entries (rr_policy R) a g p) = (Inr y, p1)" and inv: "refresh_inv X p"
    and free: "free_chain a p" and a: "a \<notin> X"
  shows "refresh_inv X p1" "steady p p1"
    "y = Some entry \<Longrightarrow> run_admit R n a g chain entry True p1 = (Inr r, p2) \<Longrightarrow>
       refresh_inv X p2 \<and> active_repairs p2 \<le> Suc (active_repairs p) \<and> grown p p2"
proof -
  have m: "refresh_inv X (mark_exhausted_refresh_entries (rr_policy R) a g p)" by (rule mark_inv [OF inv])
  note s = select_free [OF sel m]
  show "refresh_inv X p1" by (rule s(1))
  show "steady p p1" by (rule steady_entries) (simp_all add: s(4-6))
  assume y: "y = Some entry" and adm: "run_admit R n a g chain entry True p1 = (Inr r, p2)"
  have "free_chain a (mark_exhausted_refresh_entries (rr_policy R) a g p)" using free by simp
  from admit_free(1,2,4) [OF sel [unfolded y] adm m a this] grown_cong(1) [of "mark_exhausted_refresh_entries (rr_policy R) a g p" p p2]
  show "refresh_inv X p2 \<and> active_repairs p2 \<le> Suc (active_repairs p) \<and> grown p p2" by (cases r) simp_all
qed

lemma resume_inv:
  assumes res: "resume_refresh_after_cache_miss collate R n a p = (Inr r, p')" and inv: "refresh_inv {} p"
  shows "refresh_inv {} p' \<and> (active_repairs p \<le> capacity R \<longrightarrow> active_repairs p' \<le> capacity R)"
proof (cases "find_state a p")
  case None
  with res inv show ?thesis by (simp add: resume_refresh_after_cache_miss_def)
next
  case (Some s)
  note keys = refresh_invD(1) [OF inv]
  note s = found_state [OF keys Some]
  note body = res [unfolded resume_refresh_after_cache_miss_def Some option.case Let_def]
  show ?thesis
  proof (cases "ars_active_chain_id s \<noteq> None")
    case True
    with body have "p' = request_next (rr_env R) a p" by simp
    with request_inv(1) [OF inv] steady_views(1) [OF request_inv(2) [OF inv]] show ?thesis by simp
  next
    case chain: False
    then have free: "free_chain a p" using s(3) by (simp add: chain_is_None)
    show ?thesis
    proof (cases "ars_requested_generation s \<le> ars_completed_generation s \<or> ars_served_generation s = 0 \<or>
        \<not> refresh_capacity_available (rr_repair R) p")
      case True
      with body chain have "p' = p" by (auto split: if_splits)
      with inv show ?thesis by simp
    next
      case go: False
      then have room: "active_repairs p < capacity R" by (simp add: refresh_capacity_available_def)
      show ?thesis
      proof (cases "ars_served_generation s \<le> ars_completed_generation s")
        case True
        with body chain go obtain x where "start_follow_up_generation collate R n a (ars_requested_generation s) p = (Inr x, p')"
          by (auto split: prod.splits sum.splits)
        from follow_up_inv [OF this inv _ all_done_idle [OF inv Some True]] room show ?thesis by (cases x) simp_all
      next
        case False
        let ?g = "ars_served_generation s"
        let ?m = "mark_exhausted_refresh_entries (rr_policy R) a ?g p"
        from False body chain go obtain y p1 where sel: "run_select R n a ?g None ?m = (Inr y, p1)"
          by (auto split: prod.splits sum.splits)
        note p1 = pick_inv [OF sel inv free, simplified]
        show ?thesis
        proof (cases y)
          case None
          let ?q = "complete_refresh_generation_if_terminal (rr_env R) a ?g p1"
          from None False body chain go sel obtain x where fu: "resume_follow_up_generation collate R (Suc n) a ?g ?q = (Inr x, p')"
            by (auto split: prod.splits sum.splits)
          have "at_most_served a ?g p1" using served_at_most [OF keys s(4)] steady_views(2) [OF p1(2)] by simp
          from complete_served_inv [OF p1(1) this] have "refresh_inv {} ?q" .
          moreover have "(a, ?g) \<in> served_view ?q" using s(4) steady_views(6) [OF p1(2)] by simp
          ultimately show ?thesis using resume_follow_up_inv [OF fu] steady_views(1) [OF p1(2)] room by simp
        next
          case entry: (Some entry)
          with False body chain go sel obtain x where "run_admit R n a ?g (rd_chain (rr_draw R n)) entry True p1 = (Inr x, p')"
            by (auto split: prod.splits sum.splits)
          from p1(3) [OF entry this] room show ?thesis by simp
        qed
      qed
    qed
  qed
qed

lemma scan_inv:
  "resume_assets collate R n as p = (Inr (), p') \<Longrightarrow> refresh_inv {} p \<Longrightarrow>
   refresh_inv {} p' \<and> (active_repairs p \<le> capacity R \<longrightarrow> active_repairs p' \<le> capacity R)"
proof (induction "as" arbitrary: n p)
  case (Cons a "as")
  from Cons.prems(1) obtain x p1 where one: "resume_refresh_after_cache_miss collate R n a p = (Inr x, p1)"
    and rest: "resume_assets collate R (n + 2) as (set_state a (\<lambda>s. s\<lparr>ars_updated_at := db_now (rr_env R)\<rparr>) p1) = (Inr (), p')"
    by (auto split: prod.splits sum.splits)
  note p1 = resume_inv [OF one Cons.prems(2)]
  then have inv: "refresh_inv {} p1" by blast
  from Cons.IH [OF rest stamp_inv(1) [OF inv]] stamp_inv(2) [OF inv] p1 show ?case by simp
qed simp

lemma expiry_admission_inv:
  assumes res: "admit_for_expiry R a g p = (Inr r, p')" and inv: "refresh_inv {} p" and free: "free_chain a p" and g: "at_most_served a g p"
  shows "refresh_inv {} p' \<and> active_repairs p' \<le> Suc (active_repairs p) \<and> grown p p'"
proof -
  from res obtain y p1 where sel: "run_select R 0 a g None (mark_exhausted_refresh_entries (rr_policy R) a g p) = (Inr y, p1)"
    by (auto simp: admit_for_expiry_def split: prod.splits sum.splits)
  note p1 = pick_inv [OF sel inv free, simplified]
  show ?thesis
  proof (cases y)
    case None
    with res sel have "p' = complete_refresh_generation_if_terminal (rr_env R) a g p1" by (simp add: admit_for_expiry_def)
    moreover have "at_most_served a g p1" using g steady_views(2) [OF p1(2)] by simp
    moreover have "grown p (complete_refresh_generation_if_terminal (rr_env R) a g p1)"
      by (rule grown_same) (simp_all add: steady_views(4,5) [OF p1(2)])
    ultimately show ?thesis using complete_served_inv [OF p1(1)] steady_views(1) [OF p1(2)] by simp
  next
    case (Some entry)
    with res sel obtain x where "run_admit R 0 a g (rd_chain (rr_draw R 0)) entry True p1 = (Inr x, p')"
      by (auto simp: admit_for_expiry_def Let_def split: prod.splits sum.splits option.splits)
    from p1(3) [OF Some this] show ?thesis .
  qed
qed

lemma expiry_generation_inv:
  assumes res: "(case snapshot_asset_generation collate V a g (p\<lparr>pg_refresh_states := ss\<rparr>) of
            (Inl e, p1) \<Rightarrow> (Inl e, p1)
          | (Inr entry_count, p1) \<Rightarrow>
              if entry_count = 0
              then (Inr NoEligibleArticle, set_state a (\<lambda>s. s\<lparr>ars_completed_generation := g, ars_updated_at := now\<rparr>) p1)
              else admit_for_expiry R a g p1) = (Inr r, p')"
    and inv: "refresh_inv {} p" and idle: "idle a p"
    and served: "\<And>s. s \<in> set (pg_refresh_states p) \<Longrightarrow> ars_asset_record_id s = a \<Longrightarrow> ars_served_generation s < g"
    and ids: "distinct (map ars_asset_record_id ss)" and ok: "\<And>s. s \<in> set ss \<Longrightarrow> state_ok s"
    and others: "\<And>s. ars_asset_record_id s \<noteq> a \<Longrightarrow> s \<in> set ss \<longleftrightarrow> s \<in> set (pg_refresh_states p)"
    and here: "sa \<in> set ss" "ars_asset_record_id sa = a" "ars_served_generation sa = g" "ars_completed_generation sa < g"
      "ars_active_chain_id sa = None"
  shows "refresh_inv {} p' \<and> active_repairs p' \<le> Suc (active_repairs p) \<and> grown p p'"
proof -
  from res obtain k p1 where snap: "snapshot_asset_generation collate V a g (p\<lparr>pg_refresh_states := ss\<rparr>) = (Inr k, p1)"
    by (auto split: prod.splits sum.splits)
  note p1 = snapshot_inv [OF snap inv idle served ids ok others here, of now]
  have same: "pg_jobs p1 = pg_jobs p" "pg_repair_jobs p1 = pg_repair_jobs p" by (simp_all add: snapshot_Inr(1) [OF snap])
  show ?thesis
  proof (cases "k = 0")
    case True
    with res snap have "p' = set_state a (\<lambda>s. s\<lparr>ars_completed_generation := g, ars_updated_at := now\<rparr>) p1" by simp
    moreover have "active_repairs (set_state a f p1) = active_repairs p1" "grown p (set_state a f p1)" for f
      by (simp add: set_state_def active_repairs_def) (rule grown_same, simp_all add: set_state_def same)
    ultimately show ?thesis using p1 True by simp
  next
    case False
    with res snap have "admit_for_expiry R a g p1 = (Inr r, p')" by simp
    from expiry_admission_inv [OF this] p1 grown_cong(1) [OF same] show ?thesis by simp
  qed
qed

lemma route_inv:
  assumes res: "route_confirmed_expiry collate R a p = (Inr r, p')" and inv: "refresh_inv {} p"
  shows "refresh_inv {} p' \<and> active_repairs p' \<le> Suc (active_repairs p) \<and> grown p p'"
proof (cases "find_state a p")
  case None
  note keys = refresh_invD(1) [OF inv]
  have no: "ars_asset_record_id s \<noteq> a" if "s \<in> set (pg_refresh_states p)" for s
    using None that by (auto simp: find_state_def find_None_iff)
  have idle: "idle a p"
  proof -
    have "ge_asset_record_id e \<noteq> a" if "e \<in> set (pg_entries p)" for e
      by (rule refresh_inv_state [OF inv that]) (use no in auto)
    then show ?thesis by (simp add: idle_def)
  qed
  let ?sa = "\<lparr>ars_asset_record_id = a, ars_requested_generation = 1, ars_completed_generation = 0, ars_served_generation = 1,
     ars_active_chain_id = None, ars_updated_at = db_now (rr_env R)\<rparr>"
  have one: "i64_checked_add 0 1 = Some 1" by (simp add: i64_checked_add_def)
  show ?thesis
  proof (rule expiry_generation_inv [OF _ inv idle, where g = 1 and sa = ?sa and ss = "pg_refresh_states p @ [?sa]"])
    show "(case snapshot_asset_generation collate (rr_view R 0 0) a 1 (p\<lparr>pg_refresh_states := pg_refresh_states p @ [?sa]\<rparr>) of
            (Inl e, p1) \<Rightarrow> (Inl e, p1)
          | (Inr entry_count, p1) \<Rightarrow>
              if entry_count = 0
              then (Inr NoEligibleArticle, set_state a (\<lambda>s. s\<lparr>ars_completed_generation := 1, ars_updated_at := db_now (rr_env R)\<rparr>) p1)
              else admit_for_expiry R a 1 p1) = (Inr r, p')"
      using res by (simp add: route_confirmed_expiry_def None Let_def one)
    show "distinct (map ars_asset_record_id (pg_refresh_states p @ [?sa]))" using keys no by (auto simp: keys_ok_def)
    show "state_ok s" if "s \<in> set (pg_refresh_states p @ [?sa])" for s using that refresh_invD(2) [OF inv] by (auto simp: state_ok_def)
  qed (use no in auto)
next
  case (Some s)
  note keys = refresh_invD(1) [OF inv]
  note s = found_state [OF keys Some]
  note body = res [unfolded route_confirmed_expiry_def Some option.case Let_def]
  show ?thesis
  proof (cases "ars_active_chain_id s \<noteq> None")
    case True
    with body have "p' = request_next (rr_env R) a p" by simp
    with request_inv(1) [OF inv] steady_views(1,4,5) [OF request_inv(2) [OF inv]] show ?thesis by (simp add: grown_same)
  next
    case chain: False
    then have free: "free_chain a p" using s(3) by (simp add: chain_is_None)
    show ?thesis
    proof (cases "ars_served_generation s > ars_completed_generation s")
      case True
      let ?q = "request_next (rr_env R) a p"
      from True chain body have adm: "admit_for_expiry R a (ars_served_generation s) ?q = (Inr r, p')" by simp
      note st = request_inv [OF inv, of "rr_env R" a]
      have "free_chain a ?q" using free steady_views(3) [OF st(2), of a None] by (simp add: chain_is_None)
      moreover have "at_most_served a (ars_served_generation s) ?q" using served_at_most [OF keys s(4)] steady_views(2) [OF st(2)] by simp
      ultimately show ?thesis
        using expiry_admission_inv [OF adm st(1)] steady_views(1) [OF st(2)] grown_cong(1) [OF steady_views(4,5) [OF st(2)]] by simp
    next
      case low: False
      have ok: "state_ok s" by (rule refresh_invD(2) [OF inv s(1)])
      from low have idle: "idle a p" by (intro all_done_idle [OF inv Some]) simp
      from body chain low obtain g where g: "(if ars_requested_generation s > ars_completed_generation s then Some (ars_requested_generation s)
          else i64_checked_add (ars_requested_generation s) 1) = Some g" by (auto split: option.splits)
      then have gs: "ars_served_generation s < g" using ok low by (auto simp: state_ok_def i64_checked_add_def split: if_splits)
      let ?up = "\<lambda>s. s\<lparr>ars_requested_generation := g, ars_served_generation := g, ars_updated_at := db_now (rr_env R)\<rparr>"
      let ?ss = "update_rows (\<lambda>x. ars_asset_record_id x = a) ?up (pg_refresh_states p)"
      have only: "x = s" if "x \<in> set (pg_refresh_states p)" "ars_asset_record_id x = a" for x
        by (rule state_unique [OF keys that(1) s(1)]) (simp add: that s)
      have mem: "x \<in> set ?ss \<longleftrightarrow> x = ?up s \<or> x \<in> set (pg_refresh_states p) \<and> ars_asset_record_id x \<noteq> a" for x
        unfolding set_update_rows using only s(1,2) by (metis (no_types, lifting))
      show ?thesis
      proof (rule expiry_generation_inv [OF _ inv idle, where g = g and sa = "?up s" and ss = ?ss])
        show "(case snapshot_asset_generation collate (rr_view R 0 0) a g (p\<lparr>pg_refresh_states := ?ss\<rparr>) of
            (Inl e, p1) \<Rightarrow> (Inl e, p1)
          | (Inr entry_count, p1) \<Rightarrow>
              if entry_count = 0
              then (Inr NoEligibleArticle, set_state a (\<lambda>s. s\<lparr>ars_completed_generation := g, ars_updated_at := db_now (rr_env R)\<rparr>) p1)
              else admit_for_expiry R a g p1) = (Inr r, p')"
          using body chain low g by (simp add: set_state_def)
        show "distinct (map ars_asset_record_id ?ss)"
          using keys update_rows_keys [of "\<lambda>x. ars_asset_record_id x = a" ars_asset_record_id ?up "pg_refresh_states p"] by (simp add: keys_ok_def)
        show "state_ok x" if "x \<in> set ?ss" for x
          using that refresh_invD(2) [OF inv] ok gs unfolding mem by (auto simp: state_ok_def)
        show "x \<in> set ?ss \<longleftrightarrow> x \<in> set (pg_refresh_states p)" if "ars_asset_record_id x \<noteq> a" for x
          unfolding mem using that s(2) by auto
        show "?up s \<in> set ?ss" unfolding mem by simp
        show "ars_completed_generation (?up s) < g" using ok gs by (simp add: state_ok_def)
        show "ars_served_generation x < g" if "x \<in> set (pg_refresh_states p)" "ars_asset_record_id x = a" for x using only [OF that] gs by simp
      qed (use s chain in simp_all)
    qed
  qed
qed

end
