(* ===== verification/Asset_Chain_Jobs.thy ===== *)
theory Asset_Chain_Jobs
  imports Asset_Chain_Runs
begin

text \<open>
  The operations of the job queue keep the invariant of refresh chains: a job that fails for good gives
  up its chain in the same transaction, every other operation leaves the job active.
\<close>

section \<open>The cleanup after a failure\<close>

lemma cleanup_jobs:
  "cleanup_terminal_refresh E policy j (p\<lparr>pg_jobs := js\<rparr>) =
     (case cleanup_terminal_refresh E policy j p of (r, p') \<Rightarrow> (r, p'\<lparr>pg_jobs := js\<rparr>))"
  by (simp add: cleanup_terminal_refresh_def refresh_target_of_def Let_def split: option.splits prod.splits)

lemma cleanup_all_jobs:
  "cleanup_all E policy xs (p\<lparr>pg_jobs := js\<rparr>) =
     (case cleanup_all E policy xs p of (r, p') \<Rightarrow> (r, p'\<lparr>pg_jobs := js\<rparr>))"
  by (induction xs arbitrary: p) (simp_all add: cleanup_jobs split: prod.splits sum.splits)

lemma free_loose:
  assumes "keys_ok p" "free_chain a p" "r \<in> set (pg_repair_jobs p)" "arj_expired_asset_record_id r = Some a"
  shows "loose (arj_job_id r) p"
  unfolding loose_def
proof (intro ballI allI impI notI)
  fix x e s c
  assume x: "x \<in> set (pg_repair_jobs p)" "s \<in> set (pg_refresh_states p)" "arj_job_id x = arj_job_id r" "carrier x c e"
    "ars_asset_record_id s = ge_asset_record_id e" "ars_active_chain_id s = Some c"
  then have "x = r" using assms(1,3) by (intro distinct_key_eq [of arj_job_id "pg_repair_jobs p"]) (auto simp: keys_ok_def)
  with x assms(2,4) show False by (auto simp: carrier_def free_chain_def)
qed

lemma loose_mono:
  assumes "loose i p" "pg_repair_jobs p' = pg_repair_jobs p"
    and "\<And>e. e \<in> set (pg_entries p') \<Longrightarrow> in_flight e \<Longrightarrow> e \<in> set (pg_entries p)"
    and "\<And>s c. s \<in> set (pg_refresh_states p') \<Longrightarrow> ars_active_chain_id s = Some c \<Longrightarrow>
      \<exists>s' \<in> set (pg_refresh_states p). ars_asset_record_id s' = ars_asset_record_id s \<and> ars_active_chain_id s' = Some c"
  shows "loose i p'"
  unfolding loose_def
proof (intro ballI allI impI)
  fix r e s c
  assume a: "r \<in> set (pg_repair_jobs p')" "e \<in> set (pg_entries p')" "s \<in> set (pg_refresh_states p')" "arj_job_id r = i" "in_flight e"
    "ars_asset_record_id s = ge_asset_record_id e" "ars_active_chain_id s = Some c"
  from assms(4) [OF a(3,7)] obtain s' where "s' \<in> set (pg_refresh_states p)" "ars_asset_record_id s' = ge_asset_record_id e"
    "ars_active_chain_id s' = Some c" using a(6) by auto
  then show "\<not> carrier r c e" using assms(1) a(1,4,5) assms(3) [OF a(2,5)] unfolding loose_def assms(2) by simp
qed

lemma no_target_loose:
  assumes inv: "refresh_inv X p" and none: "refresh_target_of i p = None"
  shows "loose i p"
  unfolding loose_def
proof (intro ballI allI impI notI)
  fix r e s c
  assume r: "r \<in> set (pg_repair_jobs p)" "e \<in> set (pg_entries p)" "s \<in> set (pg_refresh_states p)" "arj_job_id r = i" "carrier r c e"
    "ars_asset_record_id s = ge_asset_record_id e" "ars_active_chain_id s = Some c" "in_flight e"
  have no: "\<not> refresh_match i m" if "m \<in> set (List.product (pg_repair_jobs p) (List.product (pg_refresh_states p) (pg_entries p)))" for m
    using none that by (auto simp: refresh_target_of_def find_None_iff)
  have "ge_generation e = ars_served_generation s"
    using refresh_inv_entry(1) [OF inv r(2,3,6)] r(8) by (simp add: entry_served_def in_flight_def)
  then show False using no [of "(r, s, e)"] r by (simp add: refresh_match_def carrier_def in_flight_def)
qed

lemma target_found:
  assumes keys: "keys_ok p" and t: "refresh_target_of i p = Some t"
  obtains r e where "r \<in> set (pg_repair_jobs p)" "arj_job_id r = i" "arj_expired_asset_record_id r = Some (t_asset_id t)"
    "e \<in> set (pg_entries p)" "in_flight e" "of_generation (t_asset_id t) (t_generation t) e" "ge_ordinal e = t_ordinal t"
    "chain_is (t_asset_id t) (Some (t_chain_id t)) p" "(t_asset_id t, t_generation t) \<in> served_view p"
proof -
  from t obtain r s e where found: "find (refresh_match i) (List.product (pg_repair_jobs p) (List.product (pg_refresh_states p) (pg_entries p))) = Some (r, s, e)"
    and eqs: "t_asset_id t = ars_asset_record_id s" "t_chain_id t = the (arj_chain_id r)" "t_ordinal t = ge_ordinal e"
      "t_generation t = ars_served_generation s"
    unfolding refresh_target_of_def by auto
  from find_SomeD [OF found] have m: "r \<in> set (pg_repair_jobs p)" "s \<in> set (pg_refresh_states p)" "e \<in> set (pg_entries p)"
    and match: "refresh_match i (r, s, e)" by simp_all
  have "chain_is (t_asset_id t) (Some (t_chain_id t)) p"
  proof -
    have "x = s" if "x \<in> set (pg_refresh_states p)" "ars_asset_record_id x = ars_asset_record_id s" for x
      by (rule state_unique [OF keys that(1) m(2) that(2)])
    then show ?thesis using match by (auto simp: chain_is_def eqs refresh_match_def)
  qed
  moreover have "(t_asset_id t, t_generation t) \<in> served_view p" using m(2) by (auto simp: served_view_def eqs)
  ultimately show thesis
    using that [OF m(1) _ _ m(3)] match by (simp add: refresh_match_def in_flight_def of_generation_def eqs)
qed

lemma served_here:
  assumes "keys_ok p" "(a, g) \<in> served_view p" "s \<in> set (pg_refresh_states p)" "ars_asset_record_id s = a"
  shows "ars_served_generation s = g"
proof -
  from assms(2) obtain s' where s': "s' \<in> set (pg_refresh_states p)" "ars_asset_record_id s' = a" "ars_served_generation s' = g"
    by (auto simp: served_view_def)
  have "s = s'" by (rule state_unique [OF assms(1,3) s'(1)]) (simp add: assms(4) s'(2))
  with s' show ?thesis by simp
qed

lemma cleanup_shape:
  assumes res: "cleanup_terminal_refresh E policy j p = (Inr (), p')" and j: "j_type j = AssetRefresh" "j_status j = Failed"
    and t: "refresh_target_of (j_id j) p = Some t"
  shows "\<exists>ls ex nb now2. p' = p\<lparr>pg_lineage := ls, pg_entries := map (close_entry t ex nb) (pg_entries p),
      pg_refresh_states := map (close_state t now2 (map (close_entry t ex nb) (pg_entries p))) (pg_refresh_states p)\<rparr> \<and>
    (nb = None \<longleftrightarrow> ex)"
proof (cases "\<exists>ln \<in> set (pg_lineage p). lineage_of t ln")
  case False
  then have "find (lineage_of t) (pg_lineage p) = None" by (simp add: find_None_iff)
  with res j t False obtain now2 where "p' = p\<lparr>pg_lineage := pg_lineage p, pg_entries := map (close_entry t True None) (pg_entries p),
      pg_refresh_states := map (close_state t now2 (map (close_entry t True None) (pg_entries p))) (pg_refresh_states p)\<rparr>"
    by (cases "cleanup_now E (j_id j)") (auto simp: cleanup_terminal_refresh_def Let_def)
  then show ?thesis by blast
next
  case True
  obtain now1 now2 where now: "cleanup_now E (j_id j) = (now1, now2)" by fastforce
  note body = res [unfolded cleanup_terminal_refresh_def]
  from body j t True now obtain n where n: "ts_add E now1 (int (rp_cooldown_secs policy) * 1000000000) = Some n"
    by (cases "ts_add E now1 (int (rp_cooldown_secs policy) * 1000000000)") auto
  define ls where "ls = map (\<lambda>ln. if lineage_of t ln then lineage_update policy now1 n ln else ln) (pg_lineage p)"
  define ex where "ex = (case find (lineage_of t) ls of None \<Rightarrow> True | Some ln \<Rightarrow> ln_exhausted ln)"
  define nb where "nb = (if ex then None else Some n)"
  from body j t True now n have "p' = p\<lparr>pg_lineage := ls, pg_entries := map (close_entry t ex nb) (pg_entries p),
      pg_refresh_states := map (close_state t now2 (map (close_entry t ex nb) (pg_entries p))) (pg_refresh_states p)\<rparr>"
    by (simp add: Let_def ls_def ex_def nb_def)
  moreover have "nb = None \<longleftrightarrow> ex" by (simp add: nb_def)
  ultimately show ?thesis by blast
qed

lemma cleanup_inv:
  assumes res: "cleanup_terminal_refresh E policy j p = (Inr (), p')" and inv: "refresh_inv {} p"
  shows "refresh_inv {} p' \<and> pg_jobs p' = pg_jobs p \<and> pg_repair_jobs p' = pg_repair_jobs p \<and> (\<forall>i. loose i p \<longrightarrow> loose i p') \<and>
    (j_type j = AssetRefresh \<longrightarrow> j_status j = Failed \<longrightarrow> loose (j_id j) p')"
proof (cases "j_type j = AssetRefresh \<and> j_status j = Failed")
  case False
  with res inv show ?thesis by (auto simp: cleanup_terminal_refresh_def)
next
  case failed: True
  note keys = refresh_invD(1) [OF inv]
  show ?thesis
  proof (cases "refresh_target_of (j_id j) p")
    case None
    with res failed inv no_target_loose [OF inv None] show ?thesis by (simp add: cleanup_terminal_refresh_def)
  next
    case (Some t)
    define a where "a = t_asset_id t"
    define g where "g = t_generation t"
    obtain r e where r: "r \<in> set (pg_repair_jobs p)" "arj_job_id r = j_id j" "arj_expired_asset_record_id r = Some a"
      and e: "e \<in> set (pg_entries p)" "in_flight e" "of_generation a g e" "ge_ordinal e = t_ordinal t"
      and chain: "chain_is a (Some (t_chain_id t)) p" "(a, g) \<in> served_view p"
      unfolding a_def g_def by (rule target_found [OF keys Some])
    obtain ls ex nb now2 where
      p': "p' = p\<lparr>pg_lineage := ls, pg_entries := map (close_entry t ex nb) (pg_entries p),
             pg_refresh_states := map (close_state t now2 (map (close_entry t ex nb) (pg_entries p))) (pg_refresh_states p)\<rparr>"
      and nb: "nb = None \<longleftrightarrow> ex"
      using cleanup_shape [OF res] failed Some by blast
    let ?P = "\<lambda>x. of_generation a g x \<and> ge_ordinal x = t_ordinal t \<and> in_flight x"
    let ?f = "\<lambda>x. x\<lparr>ge_state := (if ex then ''done'' else ''cooling''), ge_not_before := nb\<rparr>"
    let ?es = "map (close_entry t ex nb) (pg_entries p)"
    let ?q1 = "p\<lparr>pg_lineage := ls, pg_entries := ?es\<rparr>"
    have es: "?es = update_rows ?P ?f (pg_entries p)"
      by (auto simp: update_rows_def close_entry_def of_generation_def in_flight_def a_def g_def)
    have "refresh_inv (insert a {}) (p\<lparr>pg_entries := ?es\<rparr>)"
    proof (rule land_inv [OF inv])
      show "p\<lparr>pg_entries := ?es\<rparr> = p\<lparr>pg_entries := update_rows ?P ?f (pg_entries p)\<rparr>" by (simp only: es)
      show "?P x" if "x \<in> set (pg_entries p)" "in_flight x" "ge_asset_record_id x = a" for x
        using refresh_invD(5) [OF inv that(1) e(1) that(2) e(2)] that(3) e by (simp add: of_generation_def)
    qed (use nb in \<open>auto simp: of_generation_def same_entry_def in_flight_def entry_check_def\<close>)
    moreover have "?q1 = p\<lparr>pg_entries := ?es\<rparr>\<lparr>pg_lineage := ls\<rparr>" by simp
    ultimately have q1: "refresh_inv {a} ?q1" by (simp only: refresh_inv_lineage)
    have here: "ars_active_chain_id s = Some (t_chain_id t) \<and> ars_served_generation s = g"
      if "s \<in> set (pg_refresh_states p)" "ars_asset_record_id s = a" for s
      using chain that served_here [OF keys chain(2) that] by (simp add: chain_is_def)
    define q2 where "q2 = set_state a (\<lambda>s. if ars_active_chain_id s = Some (t_chain_id t) \<and> ars_served_generation s = g
        then s\<lparr>ars_active_chain_id := None, ars_updated_at := now2\<rparr> else s) ?q1"
    have q2_facts: "refresh_inv {} q2" "free_chain a q2" "served_view q2 = served_view p" "pg_jobs q2 = pg_jobs p" "pg_repair_jobs q2 = pg_repair_jobs p"
      using release_chain(1-5) [OF q1 _ q2_def] here by (simp_all add: served_view_def)
    have p'_q2: "p' = complete_refresh_generation_if_terminal (E\<lparr>db_now := now2\<rparr>) a g q2"
    proof -
      let ?cs = "close_state t now2 ?es"
      let ?rel = "\<lambda>s. if ars_asset_record_id s = a then s\<lparr>ars_active_chain_id := None, ars_updated_at := now2\<rparr> else s"
      have st2: "pg_refresh_states q2 = map ?rel (pg_refresh_states p)" "pg_entries q2 = ?es"
        using here by (auto simp: q2_def set_state_def update_rows_def)
      have cs: "?cs s = (if ars_asset_record_id s = a then (?rel s)\<lparr>ars_completed_generation :=
            (if generation_unfinished a g q2 then ars_completed_generation s else max (ars_completed_generation s) g)\<rparr> else s)"
        if "s \<in> set (pg_refresh_states p)" for s
        using here [OF that] by (auto simp: close_state_def generation_unfinished_def st2 of_generation_def a_def g_def)
      show ?thesis
      proof (cases "generation_unfinished a g q2")
        case True
        then have "map ?cs (pg_refresh_states p) = map ?rel (pg_refresh_states p)" using cs by simp
        with True show ?thesis
          by (simp add: complete_refresh_generation_if_terminal_def p' q2_def set_state_def update_rows_def)
            (use here in auto)
      next
        case False
        then have "map ?cs (pg_refresh_states p) = map (\<lambda>s. if ars_asset_record_id s = a then
            s\<lparr>ars_completed_generation := max (ars_completed_generation s) g, ars_updated_at := now2\<rparr> else s) (pg_refresh_states q2)"
          using cs by (simp add: st2)
        with False show ?thesis
          by (simp add: complete_refresh_generation_if_terminal_def p' q2_def set_state_def update_rows_def)
      qed
    qed
    have inv': "refresh_inv {} p'" unfolding p'_q2
      by (rule complete_served_inv [OF q2_facts(1)])
        (use served_at_most [OF keys chain(2)] q2_facts(3) in \<open>simp add: at_most_served_def\<close>)
    have jobs: "pg_jobs p' = pg_jobs p" "pg_repair_jobs p' = pg_repair_jobs p" by (simp_all add: p')
    have "loose (j_id j) p'"
      using free_loose [OF refresh_invD(1) [OF inv'], of a r] q2_facts(2) r jobs(2) by (simp add: p'_q2)
    moreover have "loose i p'" if "loose i p" for i
    proof (rule loose_mono [OF that jobs(2)])
      show "x \<in> set (pg_entries p)" if "x \<in> set (pg_entries p')" "in_flight x" for x
        using that by (auto simp: p' close_entry_def in_flight_def split: if_splits)
      show "\<exists>s' \<in> set (pg_refresh_states p). ars_asset_record_id s' = ars_asset_record_id s \<and> ars_active_chain_id s' = Some c"
        if "s \<in> set (pg_refresh_states p')" "ars_active_chain_id s = Some c" for s c
        using that by (auto simp: p' close_state_def split: if_splits)
    qed
    ultimately show ?thesis using inv' jobs by blast
  qed
qed

lemma cleanup_all_inv:
  "cleanup_all E policy js p = (Inr (), p') \<Longrightarrow> refresh_inv {} p \<Longrightarrow>
   refresh_inv {} p' \<and> pg_jobs p' = pg_jobs p \<and> pg_repair_jobs p' = pg_repair_jobs p \<and> (\<forall>i. loose i p \<longrightarrow> loose i p') \<and>
   (\<forall>j \<in> set js. j_type j = AssetRefresh \<longrightarrow> j_status j = Failed \<longrightarrow> loose (j_id j) p')"
proof (induction js arbitrary: p)
  case (Cons j js)
  from Cons.prems(1) obtain p1 where one: "cleanup_terminal_refresh E policy j p = (Inr (), p1)" and rest: "cleanup_all E policy js p1 = (Inr (), p')"
    by (auto split: prod.splits sum.splits)
  note c = cleanup_inv [OF one Cons.prems(2)]
  then have "refresh_inv {} p1" by blast
  from Cons.IH [OF rest this] c show ?case by auto
qed simp


section \<open>Operations of the queue\<close>

definition settled :: "pg \<Rightarrow> pg \<Rightarrow> bool" where
  "settled p p' \<longleftrightarrow> (refresh_inv {} p \<longrightarrow> refresh_inv {} p' \<and> active_repairs p' \<le> active_repairs p)"

lemma settled_refl [simp]: "settled p p"
  by (simp add: settled_def)

lemma settled_autocommit:
  assumes "\<And>r p'. op p = (Inr r, p') \<Longrightarrow> settled p p'"
  shows "settled p (snd (autocommit op p))"
  using assms by (auto simp: autocommit_def split: prod.splits sum.splits)

text \<open>Rows change, and the jobs that failed for good are cleaned up after.\<close>

lemma closing_settled:
  assumes res: "cleanup_all E policy js (p\<lparr>pg_jobs := map f (pg_jobs p)\<rparr>) = (Inr (), p')"
    and f: "\<And>r. refresh_inv {} p \<Longrightarrow> r \<in> set (pg_jobs p) \<Longrightarrow>
      r_id (f r) = r_id r \<and> r_job_type (f r) = r_job_type r \<and> (row_active (f r) \<longrightarrow> row_active r)"
    and closed: "\<And>r. refresh_inv {} p \<Longrightarrow> r \<in> set (pg_jobs p) \<Longrightarrow> row_active r \<Longrightarrow>
      row_active (f r) \<or> r_status (f r) = ''failed'' \<and> (\<exists>j \<in> set js. decode_job (f r) = Inr j)"
  shows "settled p p'"
  unfolding settled_def
proof
  assume inv: "refresh_inv {} p"
  from res obtain q where all: "cleanup_all E policy js p = (Inr (), q)" and p': "p' = q\<lparr>pg_jobs := map f (pg_jobs p)\<rparr>"
    unfolding cleanup_all_jobs by (auto split: prod.splits)
  note c = cleanup_all_inv [OF all inv]
  have move: "job_move f q" unfolding job_move_def
  proof
    fix r
    assume "r \<in> set (pg_jobs q)"
    then have r: "r \<in> set (pg_jobs p)" using c by simp
    have "row_active (f r) \<or> r_job_type r \<noteq> job_type_name AssetRefresh \<or> loose (r_id r) q" if "row_active r"
    proof (cases "row_active (f r)")
      case False
      with closed [OF inv r that] obtain j where j: "j \<in> set js" "decode_job (f r) = Inr j" "r_status (f r) = ''failed''" by blast
      then have b: "f r = bind_job j" by (simp add: decode_job_iff)
      have "status_name (j_status j) = ''failed''" using j(3) by (simp add: b bind_job_def)
      then have "j_status j = Failed" by (cases "j_status j") simp_all
      moreover have "j_id j = r_id r" "job_type_name (j_type j) = r_job_type r" using f [OF inv r] by (simp_all add: b bind_job_def)
      ultimately show ?thesis using c j(1) job_type_name_eq [of "j_type j" AssetRefresh] by fastforce
    qed simp
    with f [OF inv r] show "r_id (f r) = r_id r \<and> r_job_type (f r) = r_job_type r \<and> (row_active (f r) \<longrightarrow> row_active r) \<and>
        (row_active r \<longrightarrow> row_active (f r) \<or> r_job_type r \<noteq> job_type_name AssetRefresh \<or> loose (r_id r) q)" by blast
  qed
  have inv_q: "refresh_inv {} q" and jobs: "pg_jobs q = pg_jobs p" "pg_repair_jobs q = pg_repair_jobs p" using c by blast+
  have "p' = q\<lparr>pg_jobs := map f (pg_jobs q)\<rparr>" by (simp add: p' jobs)
  with job_move_inv [OF inv_q move] job_move_active [OF move] active_repairs_cong [OF jobs]
  show "refresh_inv {} p' \<and> active_repairs p' \<le> active_repairs p" by simp
qed

lemma jobs_settled:
  assumes "\<And>r. refresh_inv {} p \<Longrightarrow> r \<in> set (pg_jobs p) \<Longrightarrow>
    r_id (f r) = r_id r \<and> r_job_type (f r) = r_job_type r \<and> (row_active (f r) \<longrightarrow> row_active r) \<and>
    (row_active r \<longrightarrow> row_active (f r) \<or> r_job_type r \<noteq> job_type_name AssetRefresh)"
  shows "settled p (p\<lparr>pg_jobs := map f (pg_jobs p)\<rparr>)"
proof -
  have "job_move f p" if "refresh_inv {} p" using assms [OF that] unfolding job_move_def by blast
  then show ?thesis using job_move_inv job_move_active by (auto simp: settled_def)
qed

lemma same_row:
  "refresh_inv X p \<Longrightarrow> r \<in> set (pg_jobs p) \<Longrightarrow> r' \<in> set (pg_jobs p) \<Longrightarrow> r_id r = r_id r' \<Longrightarrow> r = r'"
  by (rule distinct_key_eq [of r_id "pg_jobs p"]) (auto dest: refresh_invD(1) simp: keys_ok_def)

lemma one_row_settled:
  assumes res: "decode_and_cleanup E policy row (p\<lparr>pg_jobs := map (\<lambda>r. if C r then f r else r) (pg_jobs p)\<rparr>) = (Inr j, p')"
    and row: "r0 \<in> set (pg_jobs p)" "C r0" "row = f r0"
    and C: "\<And>r. C r \<Longrightarrow> r_id r = i \<and> row_active r"
    and f: "\<And>r. r_id (f r) = r_id r \<and> r_job_type (f r) = r_job_type r" "\<And>r. C r \<Longrightarrow> row_active (f r) \<or> r_status (f r) = ''failed''"
  shows "settled p p'"
proof -
  let ?f = "\<lambda>r. if C r then f r else r"
  from res have dec: "decode_job row = Inr j" and "cleanup_all E policy [j] (p\<lparr>pg_jobs := map ?f (pg_jobs p)\<rparr>) = (Inr (), p')"
    by (auto simp: decode_and_cleanup_def split: sum.splits prod.splits)
  from this(2) show ?thesis
  proof (rule closing_settled)
    show "r_id (?f r) = r_id r \<and> r_job_type (?f r) = r_job_type r \<and> (row_active (?f r) \<longrightarrow> row_active r)" for r
      using C [of r] f(1) by auto
    show "row_active (?f r) \<or> r_status (?f r) = ''failed'' \<and> (\<exists>j \<in> set [j]. decode_job (?f r) = Inr j)"
      if inv: "refresh_inv {} p" and r: "r \<in> set (pg_jobs p)" "row_active r" for r
    proof (cases "C r")
      case True
      then have "r = r0" using same_row [OF inv r(1) row(1)] C [of r] C [OF row(2)] by simp
      with True f(2) [OF True] dec row(3) show ?thesis by auto
    qed (use r in simp)
  qed
qed

lemma update_hit:
  assumes "update_where C f s = (row # rows, s')"
  shows "s' = s\<lparr>pg_jobs := map (\<lambda>r. if C r then f r else r) (pg_jobs s)\<rparr>" "\<exists>r0. r0 \<in> set (pg_jobs s) \<and> C r0 \<and> row = f r0"
proof -
  from assms have m: "map f (filter C (pg_jobs s)) = row # rows" by (simp add: update_where_def)
  then have "row \<in> f ` set (filter C (pg_jobs s))" by (metis list.set_intros(1) list.set_map)
  then show "\<exists>r0. r0 \<in> set (pg_jobs s) \<and> C r0 \<and> row = f r0" by auto
qed (use assms in \<open>simp add: update_where_def\<close>)

lemma fence_active: "fence E i owner tok r \<Longrightarrow> r_id r = i \<and> row_active r"
  by (simp add: fence_def active_statuses_def)

lemma heartbeat_settled: "pg_heartbeat X E i owner tok now lease_for p = (Inr j, p') \<Longrightarrow> settled p p'"
  by (auto simp: pg_heartbeat_def update_where_def fence_def active_statuses_def split: sum.splits option.splits list.splits if_splits
      intro!: jobs_settled)

lemma defer_settled:
  assumes "pg_defer X E i owner tok now resume_at p = (Inr j, p')"
  shows "settled p p'"
proof -
  let ?C = "\<lambda>r. fence E i owner tok r \<and> resume_at > db_now E"
  let ?f = "\<lambda>r. (release_lease r)\<lparr>r_status := ''deferred'', r_run_after := resume_at, r_last_error := None, r_finished_at := None,
    r_updated_at := db_now E\<rparr>"
  from assms have "p' = p\<lparr>pg_jobs := map (\<lambda>r. if ?C r then ?f r else r) (pg_jobs p)\<rparr>"
    by (auto simp: pg_defer_def update_where_def split: sum.splits list.splits)
  then show ?thesis
    by (simp only:) (rule jobs_settled, auto simp: release_lease_def active_statuses_def fence_def)
qed

lemma succeed_settled:
  assumes "pg_succeed X E i owner tok now p = (Inr j, p')"
    and other: "\<forall>r \<in> set (pg_jobs p). r_id r = i \<longrightarrow> r_job_type r \<noteq> job_type_name AssetRefresh"
  shows "settled p p'"
proof -
  obtain f where p': "p' = p\<lparr>pg_jobs := map f (pg_jobs p)\<rparr>" and f: "\<forall>r. r_id (f r) = r_id r \<and> r_job_type (f r) = r_job_type r"
    "\<forall>r. \<not> fence E i owner tok r \<longrightarrow> f r = r" "\<forall>r. fence E i owner tok r \<longrightarrow> r_status (f r) = ''succeeded''"
    by (rule pg_succeed_Inr [OF assms(1)]) blast
  show ?thesis unfolding p'
  proof (rule jobs_settled)
    fix r
    assume r: "r \<in> set (pg_jobs p)"
    show "r_id (f r) = r_id r \<and> r_job_type (f r) = r_job_type r \<and> (row_active (f r) \<longrightarrow> row_active r) \<and>
      (row_active r \<longrightarrow> row_active (f r) \<or> r_job_type r \<noteq> job_type_name AssetRefresh)"
    proof (cases "fence E i owner tok r")
      case True
      with fence_active [OF True] other r f(1) show ?thesis by simp
    qed (use f in simp)
  qed
qed

lemma retry_settled:
  assumes "pg_retry X E policy i owner tok now retry_at err p = (Inr j, p')"
  shows "settled p p'"
proof -
  from assms obtain row rows p1 where up: "update_where (fence E i owner tok) (retry_set E retry_at err ''retry_wait'') p = (row # rows, p1)"
    and res: "decode_and_cleanup E policy row p1 = (Inr j, p')"
    by (auto simp: pg_retry_def split: sum.splits prod.splits list.splits)
  obtain r0 where r0: "r0 \<in> set (pg_jobs p)" "fence E i owner tok r0" "row = retry_set E retry_at err ''retry_wait'' r0"
    using update_hit(2) [OF up] by blast
  from res [unfolded update_hit(1) [OF up]] r0 fence_active show ?thesis
    by (rule one_row_settled) (simp_all add: retry_set_def release_lease_def active_statuses_def)
qed

lemma fail_settled:
  assumes "pg_fail X E policy i owner tok now err p = (Inr j, p')"
  shows "settled p p'"
proof -
  let ?f = "\<lambda>r. (release_lease r)\<lparr>r_status := ''failed'', r_last_error := Some err, r_finished_at := Some (db_now E), r_updated_at := db_now E\<rparr>"
  from assms obtain row rows p1 where up: "update_where (fence E i owner tok) ?f p = (row # rows, p1)"
    and res: "decode_and_cleanup E policy row p1 = (Inr j, p')"
    by (auto simp: pg_fail_def split: sum.splits prod.splits list.splits)
  obtain r0 where r0: "r0 \<in> set (pg_jobs p)" "fence E i owner tok r0" "row = ?f r0" using update_hit(2) [OF up] by blast
  from res [unfolded update_hit(1) [OF up]] r0 fence_active show ?thesis
    by (rule one_row_settled) (simp_all add: release_lease_def)
qed

lemma cancel_settled:
  assumes "pg_cancel E policy i now reason p = (Inr j, p')"
  shows "settled p p'"
proof -
  let ?f = "\<lambda>r. r\<lparr>r_status := ''failed'', r_last_error := Some reason, r_finished_at := Some (db_now E), r_updated_at := db_now E\<rparr>"
  from assms obtain row rows p1 where up: "update_where (cancellable i) ?f p = (row # rows, p1)"
    and res: "decode_and_cleanup E policy row p1 = (Inr j, p')"
    by (auto simp: pg_cancel_def split: sum.splits prod.splits list.splits)
  obtain r0 where r0: "r0 \<in> set (pg_jobs p)" "cancellable i r0" "row = ?f r0" using update_hit(2) [OF up] by blast
  have "cancellable i r \<Longrightarrow> r_id r = i \<and> row_active r" for r by (simp add: cancellable_def)
  from res [unfolded update_hit(1) [OF up]] r0 this show ?thesis by (rule one_row_settled) simp_all
qed

lemma foldl_choice: "foldl (\<lambda>a b. if C a b then b else a) x xs \<in> insert x (set xs)"
  by (induction xs arbitrary: x) (simp, fastforce)

lemma min_by_mem: "min_by cmp xs = Some m \<Longrightarrow> m \<in> set xs"
  using foldl_choice [of "\<lambda>a b. cmp a b = Greater"] by (cases xs) auto

lemma claim_settled:
  assumes "pg_claim_next X E tok owner lease_for allowed p = (Inr r, p')"
  shows "settled p p'"
proof (cases "p' = p")
  case False
  with assms obtain c until where c: "min_by row_claim_order (filter (claim_candidate E allowed) (pg_jobs p)) = Some c"
    and p': "p' = p\<lparr>pg_jobs := map (\<lambda>r. if r_id r = r_id c then claim_set E owner tok until r else r) (pg_jobs p)\<rparr>"
    by (auto simp: pg_claim_next_def update_where_def split: sum.splits option.splits list.splits prod.splits)
  have c_in: "c \<in> set (pg_jobs p)" "row_active c"
    using min_by_mem [OF c] by (auto simp: claim_candidate_def active_statuses_def)
  show ?thesis unfolding p'
  proof (rule jobs_settled)
    fix r
    assume "refresh_inv {} p" "r \<in> set (pg_jobs p)"
    then have "r = c" if "r_id r = r_id c" using same_row c_in(1) that by blast
    with c_in(2) show "r_id (if r_id r = r_id c then claim_set E owner tok until r else r) = r_id r \<and>
      r_job_type (if r_id r = r_id c then claim_set E owner tok until r else r) = r_job_type r \<and>
      (row_active (if r_id r = r_id c then claim_set E owner tok until r else r) \<longrightarrow> row_active r) \<and>
      (row_active r \<longrightarrow> row_active (if r_id r = r_id c then claim_set E owner tok until r else r) \<or> r_job_type r \<noteq> job_type_name AssetRefresh)"
      by (cases "r_id r = r_id c") (simp_all add: claim_set_def active_statuses_def)
  qed
qed simp

lemma decode_all_mem: "decode_all rows = Inr js \<Longrightarrow> r \<in> set rows \<Longrightarrow> \<exists>j \<in> set js. decode_job r = Inr j"
  by (induction rows arbitrary: js) (auto simp: bindE_eq_Inr)

lemma recover_settled:
  assumes "pg_recover_expired E policy limit p = (Inr js, p')"
  shows "settled p p'"
proof (cases "limit = 0")
  case True
  with assms show ?thesis by (simp add: pg_recover_expired_def)
next
  case False
  let ?ids = "set (map r_id (expired_rows E limit p))"
  let ?f = "retry_set E (db_now E) (lit ''worker lease expired'') ''queued''"
  let ?g = "\<lambda>r. if r_id r \<in> ?ids then ?f r else r"
  from assms False have dec: "decode_all (map ?f (filter (\<lambda>r. r_id r \<in> ?ids) (pg_jobs p))) = Inr js"
    and res: "cleanup_all E policy js (p\<lparr>pg_jobs := map ?g (pg_jobs p)\<rparr>) = (Inr (), p')"
    by (auto simp: pg_recover_expired_def update_where_def Let_def split: if_splits sum.splits prod.splits)
  have expired: "\<exists>x \<in> set (pg_jobs p). r_id x = r_id r \<and> row_active x" if "r_id r \<in> ?ids" for r
    using that by (force simp: expired_rows_def active_statuses_def dest!: in_set_takeD)
  show ?thesis
  proof (rule closing_settled [OF res])
    fix r
    assume inv: "refresh_inv {} p" and r: "r \<in> set (pg_jobs p)"
    have "row_active r" if "r_id r \<in> ?ids"
    proof -
      from expired [OF that] obtain x where "x \<in> set (pg_jobs p)" "r_id x = r_id r" "row_active x" by blast
      with same_row [OF inv r, of x] show ?thesis by simp
    qed
    then show "r_id (?g r) = r_id r \<and> r_job_type (?g r) = r_job_type r \<and> (row_active (?g r) \<longrightarrow> row_active r)"
      by (simp add: retry_set_def release_lease_def)
    show "row_active (?g r) \<or> r_status (?g r) = ''failed'' \<and> (\<exists>j \<in> set js. decode_job (?g r) = Inr j)" if "row_active r"
    proof (cases "r_id r \<in> ?ids")
      case True
      have "\<exists>j \<in> set js. decode_job (?f r) = Inr j" by (rule decode_all_mem [OF dec]) (use r True in simp)
      with True show ?thesis by (simp add: retry_set_def active_statuses_def)
    qed (use that in simp)
  qed
qed

lemma enqueue_settled:
  assumes "enqueue_internal E uid spec db_time p = (Inr r, p')"
  shows "settled p p'"
proof (cases "p' = p")
  case False
  from assms obtain j where n: "new uid spec = Inr j" by (auto simp: enqueue_internal_def split: sum.splits)
  define row where "row = (if db_time then (bind_job j)\<lparr>r_run_after := db_now E, r_created_at := db_now E, r_updated_at := db_now E\<rparr>
      else bind_job j)"
  note body = assms [unfolded enqueue_internal_def n sum.case Let_def, folded row_def]
  have "\<not> (\<exists>r \<in> set (pg_jobs p). active_conflict (j_dedupe_key j) r)"
    using body False by (cases "sort_key r_created_at (filter (active_conflict (j_dedupe_key j)) (pg_jobs p))") (auto split: if_splits)
  with body have p': "p' = p\<lparr>pg_jobs := pg_jobs p @ [row]\<rparr>" and fresh: "r_id row \<notin> r_id ` set (pg_jobs p)"
    by (auto split: if_splits sum.splits)
  show ?thesis unfolding settled_def
  proof
    assume inv: "refresh_inv {} p"
    note keys = refresh_invD(1) [OF inv]
    have "refresh_inv {} p'"
    proof (rule refresh_inv_jobs [OF inv])
      show "keys_ok p'" using keys fresh by (auto simp: keys_ok_def p')
      show "carries p' c e" if "carries p c e" for c e using that by (auto simp: carries_iff p')
    qed (simp_all add: p')
    moreover have "filter (\<lambda>r. \<exists>j \<in> set (pg_jobs p'). r_id j = arj_job_id r \<and> row_active j) (pg_repair_jobs p) =
        filter (\<lambda>r. \<exists>j \<in> set (pg_jobs p). r_id j = arj_job_id r \<and> row_active j) (pg_repair_jobs p)"
      using keys fresh by (intro filter_cong refl) (force simp: keys_ok_def p')
    ultimately show "refresh_inv {} p' \<and> active_repairs p' \<le> active_repairs p" by (simp add: active_repairs_def p')
  qed
qed simp

text \<open>Refresh jobs are completed by their own transitions, every other job by the worker.\<close>

fun queue_step_ok :: "store_op \<Rightarrow> pg \<Rightarrow> bool" where
  "queue_step_ok (OpOutcome (OutSucceeded i owner tok now)) p \<longleftrightarrow>
     (\<forall>r \<in> set (pg_jobs p). r_id r = i \<longrightarrow> r_job_type r \<noteq> job_type_name AssetRefresh)"
| "queue_step_ok _ p \<longleftrightarrow> True"

lemma queue_settled:
  assumes "queue_step_ok op p"
  shows "settled p (run_pg_op X policy (E, op) p)"
proof (cases op)
  case (OpOutcome out)
  have "settled p p'" if "pg_apply_outcome X E policy out p = (Inr r, p')" for r p'
    using that assms OpOutcome by (cases out) (simp_all add: defer_settled succeed_settled retry_settled fail_settled cancel_settled)
  then show ?thesis by (simp add: OpOutcome settled_autocommit)
qed (simp_all add: settled_autocommit enqueue_settled claim_settled heartbeat_settled recover_settled)

end
