(* ===== verification/Asset_Recovery.thy ===== *)
theory Asset_Recovery
  imports Asset_Chain_Jobs Asset_Repair
begin

text \<open>
  Refresh and repair together with the job queue, as sequences of transactions: what holds of the
  tables after any of them.
\<close>

section \<open>Transactions\<close>

datatype recovery_op =
    QueueOp chrono refresh_policy pg_env store_op
  | ResetLineage refresh_run uuid rstring
  | FinishRefresh refresh_run job_lease article_refresh_outcome
  | AbandonRefresh refresh_run job_lease
  | ResumePending refresh_run
  | EnqueueRepair refresh_run "article_row list" uuid
  | FinishExpiry refresh_run job_lease uuid
  | FailRepair pg_env job_lease uuid rstring
  | CompleteRepair pg_env job_lease uuid

definition committed :: "'a repair_result \<Rightarrow> repair_db \<Rightarrow> repair_db" where
  "committed r d = (case r of (Inl _, _) \<Rightarrow> d | (Inr _, d') \<Rightarrow> d')"

fun recovery_step :: "(rstring \<Rightarrow> 'k::linorder) \<Rightarrow> asset_repair_policy \<Rightarrow> recovery_op \<Rightarrow> repair_db \<Rightarrow> repair_db" where
  "recovery_step collate rp (QueueOp X policy E op) d = d\<lparr>rb_pg := run_pg_op X policy (E, op) (rb_pg d)\<rparr>"
| "recovery_step collate rp (ResetLineage R i v) d = committed (in_pg (reset_article_refresh_lineage R i v) d) d"
| "recovery_step collate rp (FinishRefresh R lease out) d = committed (in_pg (finish_article_refresh collate R lease out) d) d"
| "recovery_step collate rp (AbandonRefresh R lease) d = committed (in_pg (complete_unresolvable_article_refresh R lease) d) d"
| "recovery_step collate rp (ResumePending R) d = committed (in_pg (resume_pending_refreshes collate R (rb_assets d)) d) d"
| "recovery_step collate rp (EnqueueRepair R articles a) d = snd (enqueue_repair collate R articles a d)"
| "recovery_step collate rp (FinishExpiry R lease a) d = committed (finish_confirmed_expiry collate R lease a d) d"
| "recovery_step collate rp (FailRepair E lease a err) d = committed (record_repair_failure E rp lease a err d) d"
| "recovery_step collate rp (CompleteRepair E lease a) d = committed (complete_repair E lease a d) d"

text \<open>
  All replicas run with one repair policy; a worker settles the jobs it claimed with the type they have,
  completes a refresh job through the refresh operations, and abandons one while its entry is in flight.
\<close>

definition lease_genuine :: "job_lease \<Rightarrow> pg \<Rightarrow> bool" where
  "lease_genuine lease p \<longleftrightarrow>
     (\<forall>r \<in> set (pg_jobs p). r_id r = j_id (l_job lease) \<longrightarrow> r_job_type r = job_type_name (j_type (l_job lease)))"

fun recovery_legal :: "asset_repair_policy \<Rightarrow> recovery_op \<Rightarrow> repair_db \<Rightarrow> bool" where
  "recovery_legal rp (QueueOp X policy E op) d \<longleftrightarrow> queue_step_ok op (rb_pg d)"
| "recovery_legal rp (ResetLineage R i v) d \<longleftrightarrow> rr_repair R = rp"
| "recovery_legal rp (FinishRefresh R lease out) d \<longleftrightarrow> rr_repair R = rp"
| "recovery_legal rp (AbandonRefresh R lease) d \<longleftrightarrow>
     (case read_refresh_target (j_id (l_job lease)) (rb_pg d) of None \<Rightarrow> True | Some t \<Rightarrow> entry_is_current t (rb_pg d))"
| "recovery_legal rp (ResumePending R) d \<longleftrightarrow> rr_repair R = rp"
| "recovery_legal rp (EnqueueRepair R articles a) d \<longleftrightarrow> rr_repair R = rp"
| "recovery_legal rp (FinishExpiry R lease a) d \<longleftrightarrow> lease_genuine lease (rb_pg d)"
| "recovery_legal rp (FailRepair E lease a err) d \<longleftrightarrow> True"
| "recovery_legal rp (CompleteRepair E lease a) d \<longleftrightarrow> True"

fun recovery_run :: "(rstring \<Rightarrow> 'k::linorder) \<Rightarrow> asset_repair_policy \<Rightarrow> recovery_op list \<Rightarrow> repair_db \<Rightarrow> repair_db" where
  "recovery_run collate rp [] d = d"
| "recovery_run collate rp (op # ops) d = recovery_run collate rp ops (recovery_step collate rp op d)"

fun recovery_legal_run :: "(rstring \<Rightarrow> 'k::linorder) \<Rightarrow> asset_repair_policy \<Rightarrow> recovery_op list \<Rightarrow> repair_db \<Rightarrow> bool" where
  "recovery_legal_run collate rp [] d \<longleftrightarrow> True"
| "recovery_legal_run collate rp (op # ops) d \<longleftrightarrow>
     recovery_legal rp op d \<and> recovery_legal_run collate rp ops (recovery_step collate rp op d)"

definition attempts_bounded :: "asset_repair_policy \<Rightarrow> repair_db \<Rightarrow> bool" where
  "attempts_bounded rp d \<longleftrightarrow>
     distinct (map ps_asset_record_id (rb_states d)) \<and>
     (\<forall>st \<in> set (rb_states d). 0 \<le> ps_admitted_attempts st \<and> ps_admitted_attempts st \<le> uint (repair_max_attempts rp))"

definition recovery_ok :: "asset_repair_policy \<Rightarrow> repair_db \<Rightarrow> bool" where
  "recovery_ok rp d \<longleftrightarrow> refresh_inv {} (rb_pg d) \<and> active_repairs (rb_pg d) \<le> unat (max_pending rp) \<and> attempts_bounded rp d"


section \<open>Every transaction keeps it\<close>

lemma committed_pg:
  assumes "\<And>r p'. op (rb_pg d) = (Inr r, p') \<Longrightarrow> recovery_ok rp (d\<lparr>rb_pg := p'\<rparr>)" "recovery_ok rp d"
  shows "recovery_ok rp (committed (in_pg op d) d)"
  using assms by (cases "op (rb_pg d)") (auto simp: committed_def in_pg_def split: sum.splits)

lemma recovery_ok_pg:
  assumes "recovery_ok rp d" "refresh_inv {} p'" "active_repairs p' \<le> unat (max_pending rp)"
  shows "recovery_ok rp (d\<lparr>rb_pg := p'\<rparr>)"
  using assms by (simp add: recovery_ok_def attempts_bounded_def)

lemma enqueue_Inserted:
  assumes "enqueue_internal E uid spec db_time p = (Inr (Inserted j), p')"
  shows "\<exists>row. p' = p\<lparr>pg_jobs := pg_jobs p @ [row]\<rparr> \<and> r_id row = j_id j \<and> r_id row \<notin> r_id ` set (pg_jobs p)"
proof -
  from assms obtain j0 where n: "new uid spec = Inr j0" by (auto simp: enqueue_internal_def split: sum.splits)
  define row where "row = (if db_time then (bind_job j0)\<lparr>r_run_after := db_now E, r_created_at := db_now E, r_updated_at := db_now E\<rparr>
      else bind_job j0)"
  note body = assms [unfolded enqueue_internal_def n sum.case Let_def, folded row_def]
  have "\<not> (\<exists>r \<in> set (pg_jobs p). active_conflict (j_dedupe_key j0) r)"
    using body by (cases "sort_key r_created_at (filter (active_conflict (j_dedupe_key j0)) (pg_jobs p))") (auto split: if_splits)
  with body have p': "p' = p\<lparr>pg_jobs := pg_jobs p @ [row]\<rparr>" and fresh: "r_id row \<notin> r_id ` set (pg_jobs p)"
    and dec: "decode_job row = Inr j"
    by (auto split: if_splits sum.splits)
  from dec have "r_id row = j_id j" by (simp add: decode_job_iff bind_job_def)
  with p' fresh show ?thesis by blast
qed

lemma enqueue_AlreadyActive:
  "enqueue_internal E uid spec db_time p = (Inr (AlreadyActive i), p') \<Longrightarrow> p' = p"
  by (auto simp: enqueue_internal_def Let_def split: sum.splits list.splits if_splits)

lemma append_repair_inv:
  assumes inv: "refresh_inv X p" and fresh: "r_id row \<notin> r_id ` set (pg_jobs p)" and rj: "arj_job_id rj = r_id row"
  shows "refresh_inv X (p\<lparr>pg_jobs := pg_jobs p @ [row], pg_repair_jobs := pg_repair_jobs p @ [rj]\<rparr>)"
    "active_repairs (p\<lparr>pg_jobs := pg_jobs p @ [row], pg_repair_jobs := pg_repair_jobs p @ [rj]\<rparr>) \<le> Suc (active_repairs p)"
proof -
  let ?p = "p\<lparr>pg_jobs := pg_jobs p @ [row], pg_repair_jobs := pg_repair_jobs p @ [rj]\<rparr>"
  note keys = refresh_invD(1) [OF inv]
  show "refresh_inv X ?p"
  proof (rule refresh_inv_jobs [OF inv])
    show "keys_ok ?p" using keys fresh by (force simp: keys_ok_def rj)
    show "carries ?p c e" if "carries p c e" for c e using that by (auto simp: carries_iff)
  qed simp_all
  show "active_repairs ?p \<le> Suc (active_repairs p)" by (rule active_repairs_append [OF keys _ _ fresh]) simp_all
qed

lemma set_repair_state_bounded:
  assumes "attempts_bounded rp d" "\<And>st. ps_asset_record_id (f st) = ps_asset_record_id st"
    and "\<And>st. st \<in> set (rb_states d) \<Longrightarrow> ps_asset_record_id st = a \<Longrightarrow>
      0 \<le> ps_admitted_attempts (f st) \<and> ps_admitted_attempts (f st) \<le> uint (repair_max_attempts rp)"
  shows "attempts_bounded rp (set_repair_state a f d)"
  using assms update_rows_keys [of "\<lambda>r. ps_asset_record_id r = a" ps_asset_record_id f "rb_states d"]
  by (auto simp: attempts_bounded_def set_repair_state_def set_update_rows)

lemma charge_bounded:
  assumes ok: "attempts_bounded rp d" and free: "state_verdict E rp a d = None" and pos: "0 < uint (repair_max_attempts rp)"
  shows "attempts_bounded rp (charge_attempt E a d)"
proof (cases "find_repair_state a d")
  case None
  then have "\<forall>st \<in> set (rb_states d). ps_asset_record_id st \<noteq> a" by (auto simp: find_repair_state_def find_None_iff)
  with None ok pos show ?thesis by (auto simp: charge_attempt_def attempts_bounded_def)
next
  case (Some st0)
  then have st0: "st0 \<in> set (rb_states d)" "ps_asset_record_id st0 = a" using find_SomeD [OF Some [unfolded find_repair_state_def]] by simp_all
  have low: "ps_admitted_attempts st0 < uint (repair_max_attempts rp)" using free Some by (auto simp: state_verdict_def split: if_splits)
  have only: "st = st0" if "st \<in> set (rb_states d)" "ps_asset_record_id st = a" for st
    using that st0 ok by (intro distinct_key_eq [of ps_asset_record_id "rb_states d"]) (auto simp: attempts_bounded_def)
  have "0 \<le> ps_admitted_attempts st0" using ok st0(1) by (simp add: attempts_bounded_def)
  with Some low only show ?thesis
    by (simp add: charge_attempt_def) (rule set_repair_state_bounded [OF ok], auto)
qed

lemma charge_frame [simp]: "rb_pg (charge_attempt E a d) = rb_pg d" "rb_assets (charge_attempt E a d) = rb_assets d"
  by (simp_all add: charge_attempt_def set_repair_state_def)

lemma attempts_frame: "rb_states d' = rb_states d \<Longrightarrow> attempts_bounded rp d' = attempts_bounded rp d"
  by (simp add: attempts_bounded_def)

lemma admit_repair_ok:
  assumes res: "admit_repair R articles a d = (Inr r, d')" and ok: "recovery_ok rp d" and rp: "rr_repair R = rp"
    and pos: "0 < uint (repair_max_attempts rp)"
  shows "recovery_ok rp d'"
proof (cases "d' = d")
  case False
  note body = res [unfolded admit_repair_def]
  have inv: "refresh_inv {} (rb_pg d)" and att: "attempts_bounded rp d" using ok by (simp_all add: recovery_ok_def)
  have lv: "lineage_verdict (rr_env R) (rr_policy R) articles a d = None" and sv: "state_verdict (rr_env R) rp a d = None"
    using body False rp by (auto split: option.splits)
  have room: "active_repairs (rb_pg d) < unat (max_pending rp)" using body False rp lv sv by (auto split: if_splits)
  obtain j p1 where enq: "enqueue_internal (rr_env R) (rd_job (rr_draw R 2)) (repair_job (rr_text R) (rd_now (rr_draw R 2)) a) True (rb_pg d) = (Inr (Inserted j), p1)"
    and d': "d' = add_repair (j_id j) a (charge_attempt (rr_env R) a (d\<lparr>rb_pg := p1\<rparr>))"
    using body False rp lv sv by (auto split: if_splits prod.splits sum.splits enqueue_result.splits dest!: enqueue_AlreadyActive)
  obtain row where row: "p1 = (rb_pg d)\<lparr>pg_jobs := pg_jobs (rb_pg d) @ [row]\<rparr>" "r_id row = j_id j" "r_id row \<notin> r_id ` set (pg_jobs (rb_pg d))"
    using enqueue_Inserted [OF enq] by blast
  let ?rj = "\<lparr>arj_job_id = j_id j, arj_admission_class = ''public_repair'', arj_refresh_source_id = None,
            arj_refresh_review_id = None, arj_expired_asset_record_id = None, arj_chain_id = None,
            arj_chain_ordinal = None, arj_expiry_refunded = False\<rparr>"
  have pg: "rb_pg d' = (rb_pg d)\<lparr>pg_jobs := pg_jobs (rb_pg d) @ [row], pg_repair_jobs := pg_repair_jobs (rb_pg d) @ [?rj]\<rparr>"
    by (simp add: d' add_repair_def row(1))
  have "attempts_bounded rp (charge_attempt (rr_env R) a (d\<lparr>rb_pg := p1\<rparr>))"
    by (rule charge_bounded [OF _ _ pos]) (use att sv in \<open>simp_all add: attempts_bounded_def state_verdict_def find_repair_state_def\<close>)
  then have "attempts_bounded rp d'" by (simp add: d' add_repair_def attempts_bounded_def)
  with append_repair_inv [OF inv row(3), of ?rj] row(2) room show ?thesis by (simp add: recovery_ok_def pg)
qed (use ok in simp)

lemma resume_ok:
  assumes "resume_refresh_after_cache_miss collate R n a (rb_pg d) = (Inr r, p')" "recovery_ok rp d" "rr_repair R = rp"
  shows "recovery_ok rp (d\<lparr>rb_pg := p'\<rparr>)"
  using resume_inv [OF assms(1)] assms(2,3) by (intro recovery_ok_pg [OF assms(2)]) (auto simp: recovery_ok_def)

lemma enqueue_repair_ok:
  assumes res: "enqueue_repair_in_transaction collate R articles a d = (Inr r, d')" and ok: "recovery_ok rp d" and rp: "rr_repair R = rp"
    and pos: "0 < uint (repair_max_attempts rp)"
  shows "recovery_ok rp d'"
proof (cases "d' = d")
  case False
  with res obtain x p1 where resume: "resume_refresh_after_cache_miss collate R 0 a (rb_pg d) = (Inr x, p1)"
    and d': "d' = d\<lparr>rb_pg := p1\<rparr> \<or> admit_repair R articles a (d\<lparr>rb_pg := p1\<rparr>) = (Inr r, d')"
    by (auto simp: enqueue_repair_in_transaction_def in_pg_def split: option.splits sum.splits prod.splits if_splits)
  note ok1 = resume_ok [OF resume ok rp]
  from d' show ?thesis using ok1 admit_repair_ok [OF _ ok1 rp pos] by blast
qed (use ok in simp)

lemma refund_rows_inv:
  assumes inv: "refresh_inv X p"
    and p': "p' = p\<lparr>pg_repair_jobs := update_rows P (\<lambda>r. r\<lparr>arj_expiry_refunded := True\<rparr>) (pg_repair_jobs p)\<rparr>"
  shows "refresh_inv X p'" "active_repairs p' = active_repairs p"
proof -
  let ?f = "\<lambda>r. if P r then r\<lparr>arj_expiry_refunded := True\<rparr> else r"
  have rows: "pg_repair_jobs p' = map ?f (pg_repair_jobs p)" by (simp add: p' update_rows_def)
  have ids: "arj_job_id \<circ> ?f = arj_job_id" by (simp add: fun_eq_iff)
  show "refresh_inv X p'"
  proof (rule refresh_inv_jobs [OF inv])
    show "keys_ok p'" using refresh_invD(1) [OF inv] unfolding keys_ok_def rows map_map ids by (auto simp: p')
    show "carries p' c e" if "carries p c e" for c e
    proof -
      from that obtain r j where "r \<in> set (pg_repair_jobs p)" "j \<in> set (pg_jobs p)" "r_id j = arj_job_id r" "row_active j"
        "r_job_type j = job_type_name AssetRefresh" "carrier r c e" by (auto simp: carries_iff)
      then show ?thesis unfolding carries_iff rows
        by (intro bexI [of _ "?f r"] bexI [of _ j]) (auto simp: p' carrier_def)
    qed
  qed (simp_all add: p')
  have jobs: "pg_jobs p' = pg_jobs p" by (simp add: p')
  have "filter Q (map ?f rs) = map ?f (filter Q rs)" if "\<And>r. Q (?f r) = Q r" for Q rs using that by (induction rs) simp_all
  from this [of "\<lambda>r. \<exists>j \<in> set (pg_jobs p). r_id j = arj_job_id r \<and> row_active j" "pg_repair_jobs p"]
  show "active_repairs p' = active_repairs p" unfolding active_repairs_def rows jobs by simp
qed

lemma refund_ok:
  assumes res: "refund_expiry R job_id a d = (Inr (), d')" and inv: "refresh_inv {} (rb_pg d)" and att: "attempts_bounded rp d"
  shows "refresh_inv {} (rb_pg d')" "active_repairs (rb_pg d') = active_repairs (rb_pg d)" "attempts_bounded rp d'"
    "pg_jobs (rb_pg d') = pg_jobs (rb_pg d)" "map arj_job_id (pg_repair_jobs (rb_pg d')) = map arj_job_id (pg_repair_jobs (rb_pg d))"
proof -
  from res obtain f where d1: "rb_states d' = rb_states (set_repair_state a f d)"
    and f: "\<forall>st. ps_asset_record_id (f st) = ps_asset_record_id st \<and> ps_admitted_attempts (f st) = max (ps_admitted_attempts st - 1) 0"
    and pg: "rb_pg d' = (rb_pg d)\<lparr>pg_repair_jobs := update_rows (\<lambda>r. arj_job_id r = job_id \<and> arj_admission_class r = ''public_repair'' \<and>
        \<not> arj_expiry_refunded r) (\<lambda>r. r\<lparr>arj_expiry_refunded := True\<rparr>) (pg_repair_jobs (rb_pg d))\<rparr>"
    by (auto simp: refund_expiry_def Let_def set_repair_state_def split: option.splits if_splits)
  note rows = refund_rows_inv [OF inv pg]
  show "refresh_inv {} (rb_pg d')" "active_repairs (rb_pg d') = active_repairs (rb_pg d)" by (rule rows)+
  show "pg_jobs (rb_pg d') = pg_jobs (rb_pg d)" by (simp add: pg)
  show "map arj_job_id (pg_repair_jobs (rb_pg d')) = map arj_job_id (pg_repair_jobs (rb_pg d))" by (simp add: pg update_rows_keys)
  have "attempts_bounded rp (set_repair_state a f d)"
    using att f by (intro set_repair_state_bounded [OF att]) (auto simp: attempts_bounded_def)
  then show "attempts_bounded rp d'" by (simp add: attempts_bounded_def d1)
qed

lemma finish_expiry_ok:
  assumes res: "finish_confirmed_expiry collate R lease a d = (Inr r, d')" and ok: "recovery_ok rp d"
    and lease: "lease_genuine lease (rb_pg d)"
  shows "recovery_ok rp d'"
proof -
  let ?i = "j_id (l_job lease)"
  note body = res [unfolded finish_confirmed_expiry_def Let_def]
  have inv: "refresh_inv {} (rb_pg d)" and cap: "active_repairs (rb_pg d) \<le> unat (max_pending rp)" and att: "attempts_bounded rp d"
    using ok by (simp_all add: recovery_ok_def)
  have ty: "j_type (l_job lease) = AssetRepair" using body by (auto split: if_splits)
  have live: "lock_live_repair_lease (rr_env R) lease (rb_pg d) = Inr ()" using body ty by (auto split: if_splits sum.splits)
  obtain row where row: "find (\<lambda>r. arj_job_id r = ?i) (pg_repair_jobs (rb_pg d)) = Some row"
    using body ty live by (auto split: if_splits option.splits)
  obtain d1 where d1: "(if arj_admission_class row = ''public_repair'' \<and> \<not> arj_expiry_refunded row then refund_expiry R ?i a d else (Inr (), d)) = (Inr (), d1)"
    and rest: "(case in_pg (route_confirmed_expiry collate R a) d1 of (Inl e, d2) \<Rightarrow> (Inl e, d2) | (Inr r, d2) \<Rightarrow>
          case in_pg (succeed_lease R lease) d2 of (Inl e, d3) \<Rightarrow> (Inl e, d3) | (Inr _, d3) \<Rightarrow> (Inr r, d3)) = (Inr r, d')"
    using body ty live row by (auto split: if_splits prod.splits sum.splits option.splits)
  have p1: "refresh_inv {} (rb_pg d1)" "active_repairs (rb_pg d1) = active_repairs (rb_pg d)" "attempts_bounded rp d1"
    "pg_jobs (rb_pg d1) = pg_jobs (rb_pg d)" "map arj_job_id (pg_repair_jobs (rb_pg d1)) = map arj_job_id (pg_repair_jobs (rb_pg d))"
    using d1 refund_ok [OF _ inv att, of R ?i a d1] inv att by (auto split: if_splits)
  from rest obtain p2 p3 where route: "route_confirmed_expiry collate R a (rb_pg d1) = (Inr r, p2)"
    and su: "succeed_lease R lease p2 = (Inr (), p3)" and d': "d' = d1\<lparr>rb_pg := p3\<rparr>"
    by (auto simp: in_pg_def split: prod.splits sum.splits)
  note p2 = route_inv [OF route p1(1)]
  then have inv2: "refresh_inv {} p2" and grow: "grown (rb_pg d1) p2" and up: "active_repairs p2 \<le> Suc (active_repairs (rb_pg d))"
    using p1(2) by simp_all
  from grow obtain js rs where g: "pg_jobs p2 = pg_jobs (rb_pg d1) @ js" "pg_repair_jobs p2 = pg_repair_jobs (rb_pg d1) @ rs"
    "r_id ` set js \<inter> r_id ` set (pg_jobs (rb_pg d1)) = {}" by (auto simp: grown_def)
  have held: "?i \<in> r_id ` set (pg_jobs (rb_pg d1))"
    using live by (force simp: lock_live_repair_lease_def fence_def p1(4) split: option.splits if_splits)
  have other: "\<forall>j \<in> set (pg_jobs p2). r_id j = ?i \<longrightarrow> r_job_type j \<noteq> job_type_name AssetRefresh"
    using lease held g(3) unfolding lease_genuine_def ty g(1) p1(4) by auto
  have "?i \<in> arj_job_id ` set (pg_repair_jobs (rb_pg d))" using find_SomeD [OF row] by force
  then have "?i \<in> arj_job_id ` set (pg_repair_jobs (rb_pg d1))" using arg_cong [OF p1(5), of set] by simp
  then obtain rj where "?i = arj_job_id rj" "rj \<in> set (pg_repair_jobs (rb_pg d1))" by (rule imageE)
  then have rj: "rj \<in> set (pg_repair_jobs p2)" "arj_job_id rj = ?i" by (simp_all add: g(2))
  note p3 = succeed_inv [OF su inv2 disjI2 [OF other]]
  from p3(1) p3(4) [OF rj] up cap p1(3) show ?thesis by (simp add: recovery_ok_def d' attempts_bounded_def)
qed

lemma state_change_ok:
  assumes "recovery_ok rp d" "\<And>st. ps_asset_record_id (f st) = ps_asset_record_id st"
    and "\<And>st. st \<in> set (rb_states d) \<Longrightarrow> ps_asset_record_id st = a \<Longrightarrow>
      0 \<le> ps_admitted_attempts (f st) \<and> ps_admitted_attempts (f st) \<le> uint (repair_max_attempts rp)"
  shows "recovery_ok rp (set_repair_state a f d)"
  using set_repair_state_bounded [of rp d f a] assms by (simp add: recovery_ok_def set_repair_state_def)

lemma recovery_step_ok:
  assumes ok: "recovery_ok rp d" and legal: "recovery_legal rp op d" and pos: "0 < uint (repair_max_attempts rp)"
  shows "recovery_ok rp (recovery_step collate rp op d)"
proof (cases op)
  case (QueueOp X policy E q)
  with queue_settled [of q "rb_pg d" X policy E] legal ok show ?thesis
    by (auto simp: settled_def recovery_ok_def attempts_bounded_def)
next
  case (ResetLineage R i v)
  have "recovery_ok rp (d\<lparr>rb_pg := p'\<rparr>)" if "reset_article_refresh_lineage R i v (rb_pg d) = (Inr (), p')" for p'
    using reset_inv [OF that] ok legal by (intro recovery_ok_pg [OF ok]) (simp_all add: recovery_ok_def ResetLineage)
  then show ?thesis unfolding ResetLineage recovery_step.simps by (intro committed_pg [OF _ ok]) simp
next
  case (FinishRefresh R lease out)
  have "recovery_ok rp (d\<lparr>rb_pg := p'\<rparr>)" if "finish_article_refresh collate R lease out (rb_pg d) = (Inr r, p')" for r p'
    using finish_inv [OF that] ok by (intro recovery_ok_pg [OF ok]) (simp_all add: recovery_ok_def)
  then show ?thesis unfolding FinishRefresh recovery_step.simps by (intro committed_pg [OF _ ok])
next
  case (AbandonRefresh R lease)
  have cur: "\<forall>t. read_refresh_target (j_id (l_job lease)) (rb_pg d) = Some t \<longrightarrow> entry_is_current t (rb_pg d)"
    using legal AbandonRefresh by (auto split: option.splits)
  have "recovery_ok rp (d\<lparr>rb_pg := p'\<rparr>)" if "complete_unresolvable_article_refresh R lease (rb_pg d) = (Inr (), p')" for p'
    using unresolvable_inv [OF that _ cur] ok by (intro recovery_ok_pg [OF ok]) (simp_all add: recovery_ok_def)
  then show ?thesis unfolding AbandonRefresh recovery_step.simps by (intro committed_pg [OF _ ok]) simp
next
  case (ResumePending R)
  have "recovery_ok rp (d\<lparr>rb_pg := p'\<rparr>)" if "resume_pending_refreshes collate R (rb_assets d) (rb_pg d) = (Inr (), p')" for p'
    using scan_inv [OF that [unfolded resume_pending_refreshes_def]] ok legal
    by (intro recovery_ok_pg [OF ok]) (simp_all add: recovery_ok_def ResumePending)
  then show ?thesis unfolding ResumePending recovery_step.simps by (intro committed_pg [OF _ ok]) simp
next
  case (EnqueueRepair R articles a)
  have "recovery_ok rp d'" if "enqueue_repair_in_transaction collate R articles a d = (Inr r, d')" for r d'
    by (rule enqueue_repair_ok [OF that ok _ pos]) (use legal EnqueueRepair in simp)
  then show ?thesis using ok EnqueueRepair by (auto simp: enqueue_repair_def split: prod.splits sum.splits)
next
  case (FinishExpiry R lease a)
  have "recovery_ok rp d'" if "finish_confirmed_expiry collate R lease a d = (Inr r, d')" for r d'
    by (rule finish_expiry_ok [OF that ok]) (use legal FinishExpiry in simp)
  then show ?thesis using ok FinishExpiry by (auto simp: committed_def split: prod.splits sum.splits)
next
  case (FailRepair E lease a err)
  have "recovery_ok rp d'" if "record_repair_failure E rp lease a err d = (Inr r, d')" for r d'
  proof -
    from that consider "d' = d" | later where "d' = set_repair_state a (\<lambda>st. st\<lparr>ps_next_allowed_at := Some later,
        ps_exhausted := ps_admitted_attempts st \<ge> uint (repair_max_attempts rp), ps_last_error := Some (take 512 err),
        ps_updated_at := db_now E\<rparr>) d"
      by (auto simp: record_repair_failure_def split: option.splits sum.splits)
    then show ?thesis
    proof cases
      case 2
      show ?thesis unfolding 2 by (rule state_change_ok [OF ok]) (use ok in \<open>simp_all add: recovery_ok_def attempts_bounded_def\<close>)
    qed (use ok in simp)
  qed
  then show ?thesis using ok FailRepair by (auto simp: committed_def split: prod.splits sum.splits)
next
  case (CompleteRepair E lease a)
  have "recovery_ok rp d'" if "complete_repair E lease a d = (Inr r, d')" for r d'
  proof -
    from that have d': "d' = set_repair_state a (\<lambda>st. st\<lparr>ps_admitted_attempts := 0, ps_next_allowed_at := None, ps_exhausted := False,
        ps_last_error := None, ps_updated_at := db_now E\<rparr>) d" by (auto simp: complete_repair_def split: sum.splits)
    show ?thesis unfolding d' by (rule state_change_ok [OF ok]) simp_all
  qed
  then show ?thesis using ok CompleteRepair by (auto simp: committed_def split: prod.splits sum.splits)
qed

lemma recovery_run_ok:
  "recovery_ok rp d \<Longrightarrow> recovery_legal_run collate rp ops d \<Longrightarrow> 0 < uint (repair_max_attempts rp) \<Longrightarrow>
   recovery_ok rp (recovery_run collate rp ops d)"
  by (induction ops arbitrary: d) (simp_all add: recovery_step_ok)


section \<open>Properties\<close>


text \<open>One chain in flight, and one record with no bytes that an article shows.\<close>

definition example_repair_policy :: asset_repair_policy where
  "example_repair_policy = \<lparr>max_pending = 4, public_max_pending = 2, requeue_after = 60000000000, repair_max_attempts = 3\<rparr>"

definition example_missing :: asset_db where
  "example_missing = \<lparr>a_blobs = [],
     a_records = [\<lparr>rc_id = 3, rc_source_url = lit ''s'', rc_version = 1, rc_final_url = lit ''f'', rc_blob_id = None,
       rc_fetch_status = ''missing'', rc_last_error = None, rc_updated_at = 0\<rparr>],
     a_links = [\<lparr>aa_source_id = 5, aa_review_id = [65], aa_record_id = 3, aa_occurrence = 0, aa_role = ''content'',
       aa_referer_url = lit ''r'', aa_origin = None, aa_user_agent = None\<rparr>],
     a_deletion_queue = [], a_cleanup_queue = [], a_repairs = []\<rparr>"

definition example_recovery :: repair_db where
  "example_recovery = \<lparr>rb_pg = example_refresh_pg\<lparr>pg_jobs := [bind_job (example_job\<lparr>j_type := AssetRefresh\<rparr>)]\<rparr>,
     rb_assets = example_missing, rb_states = []\<rparr>"

definition example_refresh_run :: refresh_run where
  "example_refresh_run = \<lparr>rr_blobs = example_blob_libs, rr_text = (\<lambda>u. [unat u]), rr_env = example_env 100,
     rr_chrono = chrono_ref, rr_policy = example_policy, rr_repair = example_repair_policy,
     rr_view = (\<lambda>_ _. \<lparr>rv_articles = [], rv_assets = example_missing\<rparr>),
     rr_draw = (\<lambda>n. \<lparr>rd_now = 100, rd_job = 200 + of_nat n, rd_chain = 300 + of_nat n\<rparr>)\<rparr>"

lemma example_recovery_pg:
  "rb_pg example_recovery = example_refresh_pg\<lparr>pg_jobs := [bind_job (example_job\<lparr>j_type := AssetRefresh\<rparr>)]\<rparr>"
  "rb_states example_recovery = []" "rb_assets example_recovery = example_missing"
  by (simp_all add: example_recovery_def)

lemma example_recovery_ok: "recovery_ok example_repair_policy example_recovery"
proof -
  have carried: "carries (rb_pg example_recovery) 9 (hd (pg_entries example_refresh_pg))"
    by (simp add: carries_def example_recovery_pg example_refresh_pg_def bind_job_def example_job_eq active_statuses_def)
  have "refresh_inv {} (rb_pg example_recovery)"
    using carried by (simp add: refresh_inv_def keys_ok_def state_ok_def entry_check_def entry_served_def in_flight_def
        example_recovery_pg example_refresh_pg_def bind_job_def example_job_eq)
  moreover have "active_repairs (rb_pg example_recovery) \<le> 1"
    by (simp add: active_repairs_def example_recovery_pg example_refresh_pg_def)
  ultimately show ?thesis by (simp add: recovery_ok_def attempts_bounded_def example_repair_policy_def example_recovery_pg(2))
qed

lemma example_recovery_legal:
  "recovery_legal_run (length :: rstring \<Rightarrow> nat) example_repair_policy [EnqueueRepair example_refresh_run [] 3] example_recovery"
  "0 < uint (repair_max_attempts example_repair_policy)"
  by (simp_all add: example_refresh_run_def example_repair_policy_def)


definition example_repair :: job where
  "example_repair = (case new 202 (repair_job (\<lambda>u. [unat u]) 100 3) of Inr j \<Rightarrow> j)"

lemma example_repair_new: "new 202 (repair_job (\<lambda>u. [unat u]) 100 3) = Inr example_repair" "j_id example_repair = 202"
    "j_created_at example_repair = 100" "j_updated_at example_repair = 100" "j_run_after example_repair = 100"
  by (simp_all add: example_repair_def repair_job_def asset_repair_key_def job_eval REPAIR_JOB_MAX_ATTEMPTS_def)

lemma example_repair_key: "j_dedupe_key example_repair \<noteq> lit ''feed_rebuild:5''"
  by (simp add: example_repair_def repair_job_def asset_repair_key_def job_eval REPAIR_JOB_MAX_ATTEMPTS_def)

lemma example_repair_enqueued:
  "enqueue_internal (example_env 100) 202 (repair_job (\<lambda>u. [unat u]) 100 3) True (rb_pg example_recovery) =
     (Inr (Inserted example_repair), (rb_pg example_recovery)\<lparr>pg_jobs := pg_jobs (rb_pg example_recovery) @ [bind_job example_repair]\<rparr>)"
proof -
  have row: "(bind_job example_repair)\<lparr>r_run_after := 100, r_created_at := 100, r_updated_at := 100\<rparr> = bind_job example_repair"
    by (simp add: bind_job_def example_repair_new)
  have "decode_job (bind_job example_repair) = Inr example_repair"
    using new_ok [OF example_repair_new(1)] by (simp add: decode_job_iff)
  then show ?thesis
    by (simp add: enqueue_internal_def example_repair_new(1) example_env_def row example_recovery_pg Let_def active_conflict_def
        bind_job_def [of "example_job\<lparr>j_type := AssetRefresh\<rparr>"] example_job_eq example_repair_key [symmetric])
       (simp add: bind_job_def example_repair_new(2))
qed

lemma example_admission:
  "recovery_run (length :: rstring \<Rightarrow> nat) example_repair_policy [EnqueueRepair example_refresh_run [] 3] example_recovery =
     add_repair 202 3 (charge_attempt (example_env 100) 3
       (example_recovery\<lparr>rb_pg := (rb_pg example_recovery)\<lparr>pg_jobs := pg_jobs (rb_pg example_recovery) @ [bind_job example_repair]\<rparr>\<rparr>))"
proof -
  have verdicts: "lineage_verdict (rr_env example_refresh_run) (rr_policy example_refresh_run) [] 3 example_recovery = None"
    "state_verdict (rr_env example_refresh_run) (rr_repair example_refresh_run) 3 example_recovery = None"
    by (simp_all add: lineage_verdict_def state_verdict_def find_repair_state_def article_exists_def example_recovery_pg)
  have admit: "admit_repair example_refresh_run [] 3 example_recovery =
     (Inr (RepairEnqueued 202), add_repair 202 3 (charge_attempt (example_env 100) 3
       (example_recovery\<lparr>rb_pg := (rb_pg example_recovery)\<lparr>pg_jobs := pg_jobs (rb_pg example_recovery) @ [bind_job example_repair]\<rparr>\<rparr>)))"
    using example_repair_enqueued unfolding admit_repair_def verdicts option.case
    by (simp add: example_refresh_run_def example_repair_policy_def active_repairs_def public_repairs_def example_recovery_pg(1)
        example_refresh_pg_def example_repair_new(2))
  have "in_pg (resume_refresh_after_cache_miss (length :: rstring \<Rightarrow> nat) example_refresh_run 0 3) example_recovery = (Inr None, example_recovery)"
    by (simp add: in_pg_def resume_refresh_after_cache_miss_def find_state_def example_recovery_def example_refresh_pg_def)
  then have "enqueue_repair_in_transaction (length :: rstring \<Rightarrow> nat) example_refresh_run [] 3 example_recovery = admit_repair example_refresh_run [] 3 example_recovery"
    by (simp add: enqueue_repair_in_transaction_def referenced_record_def linked_def record_present_def active_repair_def
        example_recovery_pg example_missing_def)
  then show ?thesis by (simp add: admit enqueue_repair_def)
qed


text \<open>
  (C32) Repair and refresh stay within their limits. After any sequence of transactions the active
  repair and refresh jobs together are at most the configured number, and no record was charged
  more attempts than the configured ones.
\<close>

theorem recovery_within_limits:
  fixes collate :: "rstring \<Rightarrow> 'k::linorder"
  assumes "recovery_ok rp d" "recovery_legal_run collate rp ops d" "0 < uint (repair_max_attempts rp)"
  shows "active_repairs (rb_pg (recovery_run collate rp ops d)) \<le> unat (max_pending rp) \<and>
    (\<forall>st \<in> set (rb_states (recovery_run collate rp ops d)).
       0 \<le> ps_admitted_attempts st \<and> ps_admitted_attempts st \<le> uint (repair_max_attempts rp))"
  using recovery_run_ok [OF assms] by (simp add: recovery_ok_def attempts_bounded_def)

theorem recovery_within_limits_witness:
  "\<exists>st. rb_states (recovery_run (length :: rstring \<Rightarrow> nat) example_repair_policy
        [EnqueueRepair example_refresh_run [] 3] example_recovery) = [st] \<and> ps_admitted_attempts st \<le> 3 \<and>
     active_repairs (rb_pg (recovery_run (length :: rstring \<Rightarrow> nat) example_repair_policy
        [EnqueueRepair example_refresh_run [] 3] example_recovery)) \<le> 4"
proof -
  let ?d = "recovery_run (length :: rstring \<Rightarrow> nat) example_repair_policy [EnqueueRepair example_refresh_run [] 3] example_recovery"
  have "\<exists>st. rb_states ?d = [st]"
    unfolding example_admission by (simp add: add_repair_def charge_attempt_def find_repair_state_def example_recovery_pg(2))
  then show ?thesis
    using recovery_within_limits [OF example_recovery_ok example_recovery_legal] by (auto simp: example_repair_policy_def)
qed

end
