(* ===== verification/Sanitizer.thy ===== *)
theory Sanitizer
  imports Asset_Store
begin

text \<open>
  The HTML sanitizer of \<^verbatim>\<open>src/archive/sanitizer.rs\<close> and the archive boundary of
  \<^verbatim>\<open>src/application/archive_service.rs\<close>. The HTML5 parser is a parameter that yields a tree; the code
  walks its edges with a counter for the depth of omitted content. The theory shows that this walk
  renders the tree as a recursive reference does, and that what is written can be read back, character
  by character, as allowed elements, allowed attributes and text and nothing else.
\<close>

section \<open>Trees\<close>

datatype html_node =
    HtmlElement rstring "(rstring \<times> rstring) list"
  | HtmlText rstring
  | HtmlComment rstring
  | HtmlDoctype
  | HtmlDocument
  | HtmlFragment
  | HtmlProcessingInstruction

datatype html_tree = HtmlTree html_node "html_tree list"

datatype html_edge = EdgeOpen html_node | EdgeClose html_node

text \<open>\<^verbatim>\<open>traverse\<close>: a node is opened, its children are traversed in order, and it is closed.\<close>

fun traverse :: "html_tree \<Rightarrow> html_edge list" where
  "traverse (HtmlTree n ts) = EdgeOpen n # concat (map traverse ts) @ [EdgeClose n]"

text \<open>
  The scraper parser, and what the url crate does when a fragment is removed. What the code relies on:
  removing a fragment or a port keeps the other parts of a URL.
\<close>

record html_libs =
  parse_fragment :: "rstring \<Rightarrow> html_tree"
  url_clear_fragment :: "url \<Rightarrow> url"

definition same_origin :: "url \<Rightarrow> url \<Rightarrow> bool" where
  "same_origin u v \<longleftrightarrow>
     u_scheme u = u_scheme v \<and> u_host u = u_host v \<and> u_username u = u_username v \<and> u_password u = u_password v"

definition html_libs_ok :: "libs \<Rightarrow> html_libs \<Rightarrow> bool" where
  "html_libs_ok L H \<longleftrightarrow>
     (\<forall>u. same_origin (url_clear_fragment H u) u \<and> u_fragment (url_clear_fragment H u) = None) \<and>
     (\<forall>u v. url_clear_port L u = Some v \<longrightarrow> same_origin v u)"


section \<open>The policy\<close>

definition SAFE_ELEMENTS :: "rstring list" where
  "SAFE_ELEMENTS = map lit
     [''a'', ''abbr'', ''article'', ''b'', ''blockquote'', ''br'', ''caption'', ''code'', ''col'', ''colgroup'', ''dd'',
      ''del'', ''div'', ''dl'', ''dt'', ''em'', ''figcaption'', ''figure'', ''h1'', ''h2'', ''h3'', ''h4'', ''h5'', ''h6'',
      ''hr'', ''i'', ''img'', ''ins'', ''kbd'', ''li'', ''mark'', ''ol'', ''p'', ''pre'', ''q'', ''s'', ''samp'', ''section'',
      ''small'', ''span'', ''strong'', ''sub'', ''sup'', ''table'', ''tbody'', ''td'', ''tfoot'', ''th'', ''thead'', ''tr'',
      ''u'', ''ul'', ''wbr'']"

definition DROP_CONTENT_ELEMENTS :: "rstring list" where
  "DROP_CONTENT_ELEMENTS = map lit
     [''applet'', ''base'', ''embed'', ''frame'', ''frameset'', ''head'', ''iframe'', ''input'', ''link'', ''meta'',
      ''noscript'', ''object'', ''script'', ''select'', ''style'', ''svg'', ''template'', ''textarea'', ''video'']"

definition VOID_ELEMENTS :: "rstring list" where
  "VOID_ELEMENTS = map lit [''br'', ''col'', ''hr'', ''img'', ''wbr'']"

definition allowed_attribute :: "rstring \<Rightarrow> rstring \<Rightarrow> bool" where
  "allowed_attribute element attr =
     (let is = (\<lambda>names. attr \<in> lit ` set names); on = (\<lambda>names. element \<in> lit ` set names) in
      if is [''class'', ''id'', ''title''] then True
      else if is [''href''] then on [''a'']
      else if is [''alt''] then on [''img'']
      else if is [''width'', ''height''] then on [''img'', ''td'', ''th'']
      else if is [''colspan'', ''rowspan''] then on [''td'', ''th'']
      else if is [''align''] then on [''caption'', ''div'', ''p'', ''table'', ''td'', ''th'']
      else False)"

text \<open>\<^verbatim>\<open>value.split_once("://")\<close>\<close>

fun split_once_text :: "rstring \<Rightarrow> rstring \<Rightarrow> (rstring \<times> rstring) option" where
  "split_once_text p [] = (if p = [] then Some ([], []) else None)"
| "split_once_text p (c # s) =
     (if take (length p) (c # s) = p then Some ([], drop (length p) (c # s))
      else case split_once_text p s of None \<Rightarrow> None | Some (a, b) \<Rightarrow> Some (c # a, b))"

definition authority_contains_userinfo :: "rstring \<Rightarrow> bool" where
  "authority_contains_userinfo v =
     (case split_once_text (lit ''://'') v of
        None \<Rightarrow> False
      | Some (_, remainder) \<Rightarrow> 64 \<in> set (takeWhile (\<lambda>c. c \<notin> {47, 63, 35}) remainder))"

definition without_default_port :: "libs \<Rightarrow> url \<Rightarrow> url" where
  "without_default_port L u =
     (if (u_scheme u = lit ''http'' \<and> u_port u = Some 80) \<or> (u_scheme u = lit ''https'' \<and> u_port u = Some 443)
      then (case url_clear_port L u of None \<Rightarrow> u | Some u' \<Rightarrow> u')
      else u)"

definition approved_http_url :: "libs \<Rightarrow> html_libs \<Rightarrow> rstring \<Rightarrow> bool \<Rightarrow> url option" where
  "approved_http_url L H v strip_fragment =
     (let v = trim v in
      if authority_contains_userinfo v then None
      else case url_parse L v of None \<Rightarrow> None | Some u \<Rightarrow>
      if \<not> (u_scheme u = lit ''http'' \<or> u_scheme u = lit ''https'') \<or> u_host u = None \<or> u_username u \<noteq> [] \<or>
         u_password u \<noteq> None
      then None
      else let u1 = without_default_port L u
           in Some (if strip_fragment then url_clear_fragment H u1 else u1))"

fun first_approved :: "libs \<Rightarrow> html_libs \<Rightarrow> (rstring \<times> rstring) list \<Rightarrow> string list \<Rightarrow> url option" where
  "first_approved L H attrs [] = None"
| "first_approved L H attrs (name # names) =
     (case (case map_of attrs (lit name) of None \<Rightarrow> None | Some v \<Rightarrow> approved_http_url L H v True) of
        Some u \<Rightarrow> Some u
      | None \<Rightarrow> first_approved L H attrs names)"

definition image_source :: "libs \<Rightarrow> html_libs \<Rightarrow> (rstring \<times> rstring) list \<Rightarrow> url option" where
  "image_source L H attrs = first_approved L H attrs [''data-src'', ''data-original'', ''data-lazy-src'', ''src'']"

definition is_allowed_html_character :: "nat \<Rightarrow> bool" where
  "is_allowed_html_character c \<longleftrightarrow>
     c \<in> {9, 10, 13} \<or> (32 \<le> c \<and> c \<le> 55295) \<or> (57344 \<le> c \<and> c \<le> 65533) \<or> (65536 \<le> c \<and> c \<le> 1114111)"

definition escaped_char :: "bool \<Rightarrow> nat \<Rightarrow> rstring" where
  "escaped_char attr c =
     (if c = 38 then lit ''&amp;'' else if c = 60 then lit ''&lt;'' else if c = 62 then lit ''&gt;''
      else if c = 34 \<and> attr then lit ''&quot;'' else if c = 39 \<and> attr then lit ''&#39;''
      else if is_allowed_html_character c then [c] else [])"

definition append_escaped :: "rstring \<Rightarrow> rstring \<Rightarrow> bool \<Rightarrow> rstring" where
  "append_escaped output v attr = fold (\<lambda>c out. out @ escaped_char attr c) v output"

definition append_attribute :: "rstring \<Rightarrow> rstring \<Rightarrow> rstring \<Rightarrow> rstring" where
  "append_attribute output name v = append_escaped (output @ lit '' '' @ name @ lit ''=\"'') v True @ lit ''\"''"

definition append_text :: "rstring \<Rightarrow> rstring \<Rightarrow> rstring" where
  "append_text output t = append_escaped output t False"


section \<open>The walk\<close>

record html_renderer =
  r_html :: rstring
  r_external_assets :: "url list"
  r_seen_assets :: "url set"
  r_omitted_depth :: nat

fun append_attrs :: "libs \<Rightarrow> html_libs \<Rightarrow> rstring \<Rightarrow> (rstring \<times> rstring) list \<Rightarrow> rstring \<Rightarrow> rstring" where
  "append_attrs L H name [] out = out"
| "append_attrs L H name ((attr, v) # attrs) out =
     append_attrs L H name attrs
       (if attr = lit ''src'' \<or> take 5 attr = lit ''data-'' then out
        else if \<not> allowed_attribute name attr then out
        else if attr = lit ''href'' then
          (case approved_http_url L H v False of
             None \<Rightarrow> out
           | Some u \<Rightarrow> if has_provider_signature u then out else append_attribute out attr (url_text L u))
        else append_attribute out attr v)"

definition append_attributes ::
    "libs \<Rightarrow> html_libs \<Rightarrow> rstring \<Rightarrow> (rstring \<times> rstring) list \<Rightarrow> url option \<Rightarrow> rstring \<Rightarrow> rstring" where
  "append_attributes L H name attrs source out =
     (let out1 = append_attrs L H name attrs out
      in case source of None \<Rightarrow> out1 | Some u \<Rightarrow> append_attribute out1 (lit ''src'') (url_text L u))"

definition render_open_element ::
    "libs \<Rightarrow> html_libs \<Rightarrow> rstring \<Rightarrow> (rstring \<times> rstring) list \<Rightarrow> html_renderer \<Rightarrow> html_renderer" where
  "render_open_element L H name attrs r =
     (if name = lit ''img'' then
        (case image_source L H attrs of
           None \<Rightarrow> r\<lparr>r_omitted_depth := 1\<rparr>
         | Some source \<Rightarrow>
             (let r1 = (if source \<in> r_seen_assets r then r
                        else r\<lparr>r_seen_assets := insert source (r_seen_assets r),
                               r_external_assets := r_external_assets r @ [source]\<rparr>)
              in if has_provider_signature source then r1\<lparr>r_omitted_depth := 1\<rparr>
                 else r1\<lparr>r_html := append_attributes L H name attrs (Some source) (r_html r1 @ lit ''<'' @ name) @ lit '' />''\<rparr>))
      else r\<lparr>r_html := append_attributes L H name attrs None (r_html r @ lit ''<'' @ name) @
               (if name \<in> set VOID_ELEMENTS then lit '' />'' else lit ''>'')\<rparr>)"

definition open_node :: "libs \<Rightarrow> html_libs \<Rightarrow> html_node \<Rightarrow> html_renderer \<Rightarrow> html_renderer" where
  "open_node L H n r =
     (if r_omitted_depth r > 0 then r\<lparr>r_omitted_depth := r_omitted_depth r + 1\<rparr>
      else case n of
        HtmlElement name attrs \<Rightarrow>
          if name \<in> set DROP_CONTENT_ELEMENTS then r\<lparr>r_omitted_depth := 1\<rparr>
          else if name \<in> set SAFE_ELEMENTS then render_open_element L H name attrs r
          else r
      | HtmlText t \<Rightarrow> r\<lparr>r_html := append_text (r_html r) t\<rparr>
      | _ \<Rightarrow> r)"

definition close_node :: "html_node \<Rightarrow> html_renderer \<Rightarrow> html_renderer" where
  "close_node n r =
     (if r_omitted_depth r > 0 then r\<lparr>r_omitted_depth := r_omitted_depth r - 1\<rparr>
      else case n of
        HtmlElement name attrs \<Rightarrow>
          if name \<in> set SAFE_ELEMENTS \<and> name \<notin> set VOID_ELEMENTS
          then r\<lparr>r_html := r_html r @ lit ''</'' @ name @ lit ''>''\<rparr>
          else r
      | _ \<Rightarrow> r)"

fun render_edge :: "libs \<Rightarrow> html_libs \<Rightarrow> html_edge \<Rightarrow> html_renderer \<Rightarrow> html_renderer" where
  "render_edge L H (EdgeOpen n) r = open_node L H n r"
| "render_edge L H (EdgeClose n) r = close_node n r"

record sanitized_html =
  sh_html :: rstring
  sh_external_assets :: "url list"

definition renderer_new :: html_renderer where
  "renderer_new = \<lparr>r_html = [], r_external_assets = [], r_seen_assets = {}, r_omitted_depth = 0\<rparr>"

definition sanitize_tree :: "libs \<Rightarrow> html_libs \<Rightarrow> html_tree \<Rightarrow> sanitized_html" where
  "sanitize_tree L H t =
     (let r = fold (render_edge L H) (traverse t) renderer_new
      in \<lparr>sh_html = r_html r, sh_external_assets = r_external_assets r\<rparr>)"

definition sanitize :: "libs \<Rightarrow> html_libs \<Rightarrow> rstring \<Rightarrow> sanitized_html" where
  "sanitize L H input = sanitize_tree L H (parse_fragment H input)"


section \<open>The archive boundary\<close>

text \<open>The digest is taken of the UTF-8 text; \<open>utf8\<close> is that encoding.\<close>

record archived_content =
  arc_html :: rstring
  arc_content_hash :: "rstring option"
  arc_external_assets :: "url list"

definition from_sanitized :: "blob_libs \<Rightarrow> (rstring \<Rightarrow> bytes) \<Rightarrow> sanitized_html \<Rightarrow> archived_content" where
  "from_sanitized K utf8 s =
     \<lparr>arc_html = sh_html s,
      arc_content_hash = (if sh_html s \<noteq> [] then Some (sha256_hex K (utf8 (sh_html s))) else None),
      arc_external_assets = sh_external_assets s\<rparr>"

definition archive :: "libs \<Rightarrow> html_libs \<Rightarrow> blob_libs \<Rightarrow> (rstring \<Rightarrow> bytes) \<Rightarrow> rstring \<Rightarrow> archived_content" where
  "archive L H K utf8 raw_html = from_sanitized K utf8 (sanitize L H raw_html)"



section \<open>A recursive reference\<close>

text \<open>What a document is made of: opening tags with attributes and whether they are void, closing tags, characters.\<close>

datatype html_token = TokOpen rstring "(rstring \<times> rstring) list" bool | TokClose rstring | TokChar nat

definition attr_text :: "rstring \<times> rstring \<Rightarrow> rstring" where
  "attr_text p = lit '' '' @ fst p @ lit ''=\"'' @ snd p @ lit ''\"''"

fun token_text :: "html_token \<Rightarrow> rstring" where
  "token_text (TokOpen name attrs void) =
     lit ''<'' @ name @ concat (map attr_text attrs) @ (if void then lit '' />'' else lit ''>'')"
| "token_text (TokClose name) = lit ''</'' @ name @ lit ''>''"
| "token_text (TokChar c) = [c]"

definition escape :: "bool \<Rightarrow> rstring \<Rightarrow> rstring" where
  "escape attr v = concat (map (escaped_char attr) v)"

definition kept_attribute :: "libs \<Rightarrow> html_libs \<Rightarrow> rstring \<Rightarrow> rstring \<times> rstring \<Rightarrow> (rstring \<times> rstring) list" where
  "kept_attribute L H name = (\<lambda>(attr, v).
     if attr = lit ''src'' \<or> take 5 attr = lit ''data-'' \<or> \<not> allowed_attribute name attr then []
     else if attr = lit ''href'' then
       (case approved_http_url L H v False of
          None \<Rightarrow> [] | Some u \<Rightarrow> if has_provider_signature u then [] else [(attr, escape True (url_text L u))])
     else [(attr, escape True v)])"

definition kept_attributes :: "libs \<Rightarrow> html_libs \<Rightarrow> rstring \<Rightarrow> (rstring \<times> rstring) list \<Rightarrow> (rstring \<times> rstring) list" where
  "kept_attributes L H name attrs = concat (map (kept_attribute L H name) attrs)"

fun html_tokens :: "libs \<Rightarrow> html_libs \<Rightarrow> html_tree \<Rightarrow> html_token list" where
  "html_tokens L H (HtmlTree n ts) =
     (let inner = concat (map (html_tokens L H) ts) in
      case n of
        HtmlElement name attrs \<Rightarrow>
          if name \<in> set DROP_CONTENT_ELEMENTS then []
          else if name \<notin> set SAFE_ELEMENTS then inner
          else if name = lit ''img'' then
            (case image_source L H attrs of
               None \<Rightarrow> []
             | Some u \<Rightarrow> if has_provider_signature u then []
                 else TokOpen name (kept_attributes L H name attrs @ [(lit ''src'', escape True (url_text L u))]) True # inner)
          else TokOpen name (kept_attributes L H name attrs) (name \<in> set VOID_ELEMENTS) # inner @
               (if name \<in> set VOID_ELEMENTS then [] else [TokClose name])
      | HtmlText t \<Rightarrow> map TokChar (escape False t) @ inner
      | _ \<Rightarrow> inner)"

text \<open>The images that are not inside omitted content, signed ones included.\<close>

fun html_images :: "libs \<Rightarrow> html_libs \<Rightarrow> html_tree \<Rightarrow> url list" where
  "html_images L H (HtmlTree n ts) =
     (let inner = concat (map (html_images L H) ts) in
      case n of
        HtmlElement name attrs \<Rightarrow>
          if name \<in> set DROP_CONTENT_ELEMENTS then []
          else if name = lit ''img'' then
            (case image_source L H attrs of
               None \<Rightarrow> [] | Some u \<Rightarrow> if has_provider_signature u then [u] else u # inner)
          else inner
      | _ \<Rightarrow> inner)"

definition html_text :: "html_token list \<Rightarrow> rstring" where
  "html_text ts = concat (map token_text ts)"

definition note_asset :: "url \<Rightarrow> html_renderer \<Rightarrow> html_renderer" where
  "note_asset u r =
     (if u \<in> r_seen_assets r then r
      else r\<lparr>r_seen_assets := insert u (r_seen_assets r), r_external_assets := r_external_assets r @ [u]\<rparr>)"

lemma append_escaped_eq: "append_escaped out v attr = out @ escape attr v"
  unfolding append_escaped_def escape_def by (induction v arbitrary: out) auto

lemma append_attribute_eq: "append_attribute out name v = out @ attr_text (name, escape True v)"
  by (simp add: append_attribute_def append_escaped_eq attr_text_def)

lemma append_attrs_eq:
  "append_attrs L H name attrs out = out @ concat (map attr_text (kept_attributes L H name attrs))"
  by (induction attrs arbitrary: out)
    (auto simp: kept_attributes_def kept_attribute_def append_attribute_eq split: option.splits)

lemma img_safe: "lit ''img'' \<in> set SAFE_ELEMENTS" "lit ''img'' \<in> set VOID_ELEMENTS" "lit ''img'' \<notin> set DROP_CONTENT_ELEMENTS"
  by (simp_all add: SAFE_ELEMENTS_def VOID_ELEMENTS_def DROP_CONTENT_ELEMENTS_def lit_def)

lemma open_element_eq:
  assumes "r_omitted_depth r = 0" "name \<in> set SAFE_ELEMENTS" "name \<notin> set DROP_CONTENT_ELEMENTS" "name \<noteq> lit ''img''"
  shows "open_node L H (HtmlElement name attrs) r =
     r\<lparr>r_html := r_html r @ token_text (TokOpen name (kept_attributes L H name attrs) (name \<in> set VOID_ELEMENTS))\<rparr>"
  using assms by (simp add: open_node_def render_open_element_def append_attributes_def append_attrs_eq)

lemma open_image_eq:
  assumes "r_omitted_depth r = 0"
  shows "open_node L H (HtmlElement (lit ''img'') attrs) r =
     (case image_source L H attrs of
        None \<Rightarrow> r\<lparr>r_omitted_depth := 1\<rparr>
      | Some u \<Rightarrow> if has_provider_signature u then (note_asset u r)\<lparr>r_omitted_depth := 1\<rparr>
          else (note_asset u r)\<lparr>r_html := r_html r @
            token_text (TokOpen (lit ''img'') (kept_attributes L H (lit ''img'') attrs @ [(lit ''src'', escape True (url_text L u))]) True)\<rparr>)"
  using assms img_safe
  by (auto simp: open_node_def render_open_element_def append_attributes_def append_attrs_eq append_attribute_eq note_asset_def
      Let_def split: option.splits)

lemma note_asset_frame [simp]: "r_html (note_asset u r) = r_html r" "r_omitted_depth (note_asset u r) = r_omitted_depth r"
  by (simp_all add: note_asset_def)

lemma note_assets_frame [simp]: "r_html (fold note_asset us r) = r_html r" "r_omitted_depth (fold note_asset us r) = r_omitted_depth r"
  by (induction us arbitrary: r) simp_all

lemma note_assets_html [simp]: "fold note_asset us (r\<lparr>r_html := h\<rparr>) = (fold note_asset us r)\<lparr>r_html := h\<rparr>"
proof (induction us arbitrary: r)
  case (Cons u us)
  have "note_asset u (r\<lparr>r_html := h\<rparr>) = (note_asset u r)\<lparr>r_html := h\<rparr>" by (simp add: note_asset_def)
  with Cons show ?case by simp
qed simp

text \<open>Inside omitted content a subtree only moves the depth, and back.\<close>

lemma omitted_subtree:
  "r_omitted_depth r > 0 \<Longrightarrow> fold (render_edge L H) (traverse t) r = r"
proof (induction t arbitrary: r)
  case (HtmlTree n ts)
  have inner: "fold (render_edge L H) (concat (map traverse us)) x = x" if "set us \<subseteq> set ts" "r_omitted_depth x > 0" for us x
    using that
  proof (induction us arbitrary: x)
    case (Cons u us)
    with HtmlTree.IH [of u x] show ?case by simp
  qed simp
  show ?case using HtmlTree.prems inner [of ts "r\<lparr>r_omitted_depth := Suc (r_omitted_depth r)\<rparr>"]
    by (simp add: open_node_def close_node_def)
qed

lemma omitted_children:
  "r_omitted_depth r > 0 \<Longrightarrow> fold (render_edge L H) (concat (map traverse ts)) r = r"
  by (induction ts) (simp_all add: omitted_subtree)


definition wrote :: "libs \<Rightarrow> html_libs \<Rightarrow> url list \<Rightarrow> html_token list \<Rightarrow> html_renderer \<Rightarrow> html_renderer" where
  "wrote L H us ts r = (fold note_asset us r)\<lparr>r_html := r_html r @ html_text ts\<rparr>"

lemma html_text_simps [simp]: "html_text [] = []" "html_text (t # ts) = token_text t @ html_text ts"
  "html_text (ts @ us) = html_text ts @ html_text us" "html_text (map TokChar s) = s"
proof -
  show "html_text (map TokChar s) = s" unfolding html_text_def by (induction s) simp_all
qed (simp_all add: html_text_def)

lemma wrote_depth [simp]: "r_omitted_depth (wrote L H us ts r) = r_omitted_depth r"
  by (simp add: wrote_def)

lemma wrote_nothing [simp]: "wrote L H [] [] r = r"
  by (simp add: wrote_def)

lemma wrote_wrote: "wrote L H us' ts' (wrote L H us ts r) = wrote L H (us @ us') (ts @ ts') r"
  by (simp add: wrote_def)

lemma wrote_token: "r\<lparr>r_html := r_html r @ token_text t\<rparr> = wrote L H [] [t] r"
  by (simp add: wrote_def)

lemma close_element_eq:
  assumes "r_omitted_depth r = 0"
  shows "close_node (HtmlElement name attrs) r =
     (if name \<in> set SAFE_ELEMENTS \<and> name \<notin> set VOID_ELEMENTS then wrote L H [] [TokClose name] r else r)"
  using assms by (simp add: close_node_def wrote_def)

lemma walk_element:
  assumes inner: "\<And>r. r_omitted_depth r = 0 \<Longrightarrow>
       fold (render_edge L H) (concat (map traverse ts)) r = wrote L H us toks r"
    and us: "us = concat (map (html_images L H) ts)" and toks: "toks = concat (map (html_tokens L H) ts)"
    and r: "r_omitted_depth r = 0"
  shows "fold (render_edge L H) (traverse (HtmlTree (HtmlElement name attrs) ts)) r =
     wrote L H (html_images L H (HtmlTree (HtmlElement name attrs) ts)) (html_tokens L H (HtmlTree (HtmlElement name attrs) ts)) r"
proof (cases "name \<in> set DROP_CONTENT_ELEMENTS")
  case True
  with r show ?thesis by (simp add: open_node_def omitted_children close_node_def)
next
  case drop: False
  show ?thesis
  proof (cases "name \<in> set SAFE_ELEMENTS")
    case False
    then have "name \<noteq> lit ''img''" using img_safe by auto
    with False drop r inner [OF r] show ?thesis by (simp add: open_node_def close_node_def us toks)
  next
    case safe: True
    show ?thesis
    proof (cases "name = lit ''img''")
      case False
      let ?t = "TokOpen name (kept_attributes L H name attrs) (name \<in> set VOID_ELEMENTS)"
      have "open_node L H (HtmlElement name attrs) r = wrote L H [] [?t] r"
        unfolding open_element_eq [OF r safe drop False] by (rule wrote_token)
      with r safe drop False inner [of "wrote L H [] [?t] r"] close_element_eq [of "wrote L H us (?t # toks) r" name attrs L H] show ?thesis
        by (simp add: wrote_wrote us toks)
    next
      case img: True
      show ?thesis
      proof (cases "image_source L H attrs")
        case None
        with r img img_safe show ?thesis by (simp add: open_image_eq omitted_children close_node_def)
      next
        case (Some u)
        let ?t = "TokOpen (lit ''img'') (kept_attributes L H (lit ''img'') attrs @ [(lit ''src'', escape True (url_text L u))]) True"
        show ?thesis
        proof (cases "has_provider_signature u")
          case True
          have "(note_asset u r)\<lparr>r_omitted_depth := 0\<rparr> = note_asset u r" using r by (simp add: note_asset_def)
          with r img Some True img_safe show ?thesis by (simp add: open_image_eq omitted_children close_node_def wrote_def)
        next
          case False
          have "open_node L H (HtmlElement (lit ''img'') attrs) r = wrote L H [u] [?t] r"
            using r Some False by (simp add: open_image_eq wrote_def)
          with r img Some False img_safe inner [of "wrote L H [u] [?t] r"]
            close_element_eq [of "wrote L H (u # us) (?t # toks) r" "lit ''img''" attrs L H] show ?thesis
            by (simp add: wrote_wrote us toks)
        qed
      qed
    qed
  qed
qed

lemma walk_tree:
  "r_omitted_depth r = 0 \<Longrightarrow> fold (render_edge L H) (traverse t) r = wrote L H (html_images L H t) (html_tokens L H t) r"
proof (induction t arbitrary: r)
  case (HtmlTree n ts)
  have sub: "fold (render_edge L H) (concat (map traverse us)) x =
      wrote L H (concat (map (html_images L H) us)) (concat (map (html_tokens L H) us)) x"
    if "set us \<subseteq> set ts" "r_omitted_depth x = 0" for us x
    using that
  proof (induction us arbitrary: x)
    case (Cons u us)
    with HtmlTree.IH [of u x] show ?case by (simp add: wrote_wrote)
  qed simp
  note inner = sub [OF subset_refl]
  show ?case
  proof (cases n)
    case (HtmlElement name attrs)
    show ?thesis unfolding HtmlElement by (rule walk_element [OF inner refl refl HtmlTree.prems])
  next
    case (HtmlText v)
    have "open_node L H (HtmlText v) r = wrote L H [] (map TokChar (escape False v)) r"
      using HtmlTree.prems by (simp add: open_node_def append_text_def append_escaped_eq wrote_def)
    with HtmlText HtmlTree.prems inner show ?thesis by (simp add: wrote_wrote close_node_def)
  qed (use HtmlTree.prems inner in \<open>simp_all add: open_node_def close_node_def\<close>)
qed

text \<open>Keeping the first of equal values, in order.\<close>

definition first_seen :: "'a list \<Rightarrow> 'a list" where
  "first_seen xs = fold (\<lambda>x acc. if x \<in> set acc then acc else acc @ [x]) xs []"

lemma noted_assets:
  assumes "r_seen_assets r = set (r_external_assets r)"
  shows "r_external_assets (fold note_asset us r) =
     fold (\<lambda>x acc. if x \<in> set acc then acc else acc @ [x]) us (r_external_assets r)"
  using assms
proof (induction us arbitrary: r)
  case (Cons u us)
  have "r_seen_assets (note_asset u r) = set (r_external_assets (note_asset u r))"
    using Cons.prems by (simp add: note_asset_def)
  from Cons.IH [OF this] Cons.prems show ?case by (simp add: note_asset_def)
qed simp

lemma sanitized_walk:
  "sh_html (sanitize_tree L H t) = html_text (html_tokens L H t) \<and>
   sh_external_assets (sanitize_tree L H t) = first_seen (html_images L H t)"
proof -
  have "fold (render_edge L H) (traverse t) renderer_new = wrote L H (html_images L H t) (html_tokens L H t) renderer_new"
    by (rule walk_tree) (simp add: renderer_new_def)
  moreover have "r_external_assets (fold note_asset us renderer_new) = first_seen us" for us
    using noted_assets [of renderer_new us] by (simp add: renderer_new_def first_seen_def)
  ultimately show ?thesis by (simp add: sanitize_tree_def Let_def wrote_def) (simp add: renderer_new_def)
qed

text \<open>
  (C31) The walk with its depth counter renders the tree. For every tree, nested and malformed ones
  included, the sanitizer writes the text of the tokens that the recursive reference selects, and
  reports the images outside omitted content, each once and in the order they are first seen.
\<close>

theorem sanitizer_renders_tree:
  "sh_html (sanitize L H input) = html_text (html_tokens L H (parse_fragment H input)) \<and>
   sh_external_assets (sanitize L H input) = first_seen (html_images L H (parse_fragment H input))"
  unfolding sanitize_def by (rule sanitized_walk)


section \<open>Reading the result back\<close>

text \<open>
  How a reader tokenizes markup: \<^verbatim>\<open><\<close> starts a tag, attributes are \<^verbatim>\<open>name="value"\<close> up to the next quote, and a
  stray \<^verbatim>\<open>>\<close> is an error.
\<close>

lemma dropWhile_shorter: "dropWhile P xs = y # ys \<Longrightarrow> length ys < length xs"
  using length_dropWhile_le [of P xs] by simp

function lex_attrs :: "rstring \<Rightarrow> ((rstring \<times> rstring) list \<times> bool \<times> rstring) option" where
  "lex_attrs s =
     (case s of [] \<Rightarrow> None | c # s1 \<Rightarrow>
      if c = 62 then Some ([], False, s1)
      else if c \<noteq> 32 then None
      else if take 2 s1 = [47, 62] then Some ([], True, drop 2 s1)
      else case dropWhile (\<lambda>c. c \<noteq> 61) s1 of
        _ # q # v \<Rightarrow>
          if q \<noteq> 34 then None
          else (case dropWhile (\<lambda>c. c \<noteq> 34) v of
                  [] \<Rightarrow> None
                | _ # rest \<Rightarrow>
                    (case lex_attrs rest of
                       None \<Rightarrow> None
                     | Some (attrs, void, out) \<Rightarrow>
                         Some ((takeWhile (\<lambda>c. c \<noteq> 61) s1, takeWhile (\<lambda>c. c \<noteq> 34) v) # attrs, void, out)))
      | _ \<Rightarrow> None)"
  by pat_completeness auto
termination
  by (relation "measure length") (auto dest!: dropWhile_shorter)

declare lex_attrs.simps [simp del]

lemma lex_attrs_shorter: "lex_attrs s = Some (attrs, void, out) \<Longrightarrow> length out < length s"
proof (induction s arbitrary: attrs void out rule: lex_attrs.induct)
  case (1 s)
  obtain c s1 where s: "s = c # s1" using "1.prems" by (cases s) (auto simp: lex_attrs.simps)
  show ?case
  proof (cases "c = 62 \<or> c \<noteq> 32 \<or> take 2 s1 = [47, 62]")
    case True
    with "1.prems" s show ?thesis by (auto simp: lex_attrs.simps [of "c # s1"] split: if_splits)
  next
    case False
    with "1.prems" s obtain a q v y rest as vd o1 where
      v: "dropWhile (\<lambda>c. c \<noteq> 61) s1 = a # q # v" "q = 34" "dropWhile (\<lambda>c. c \<noteq> 34) v = y # rest"
      and r: "lex_attrs rest = Some (as, vd, o1)" "out = o1"
      by (auto simp: lex_attrs.simps [of "c # s1"] split: if_splits list.splits option.splits)
    from "1.IH" [OF s _ _ _ v(1) refl _ v(3) r(1)] False v(2) have "length o1 < length rest" by simp
    with dropWhile_shorter [OF v(1)] dropWhile_shorter [OF v(3)] s r(2) show ?thesis by simp
  qed
qed

lemma lex_attrs_drop: "lex_attrs (dropWhile P s) = Some (attrs, void, out) \<Longrightarrow> length out < length s"
  using lex_attrs_shorter [of "dropWhile P s" attrs void out] length_dropWhile_le [of P s] by simp

lemma dropWhile_drop: "dropWhile P (drop n s) = y # ys \<Longrightarrow> length ys < length s"
  using dropWhile_shorter [of P "drop n s" y ys] by simp

function lex_html :: "rstring \<Rightarrow> html_token list option" where
  "lex_html [] = Some []"
| "lex_html (c # s) =
     (if c = 60 then
        (if take 1 s = [47] then
           (case dropWhile (\<lambda>c. c \<noteq> 62) (drop 1 s) of
              [] \<Rightarrow> None
            | _ # rest \<Rightarrow> map_option (Cons (TokClose (takeWhile (\<lambda>c. c \<noteq> 62) (drop 1 s)))) (lex_html rest))
         else
           (case lex_attrs (dropWhile (\<lambda>c. c \<noteq> 32 \<and> c \<noteq> 62) s) of
              None \<Rightarrow> None
            | Some (attrs, void, rest) \<Rightarrow>
                map_option (Cons (TokOpen (takeWhile (\<lambda>c. c \<noteq> 32 \<and> c \<noteq> 62) s) attrs void)) (lex_html rest)))
      else if c = 62 then None
      else map_option (Cons (TokChar c)) (lex_html s))"
  by pat_completeness auto
termination
  by (relation "measure length") (auto dest: lex_attrs_drop dropWhile_drop less_SucI simp del: One_nat_def)


declare lex_html.simps(2) [simp del]

text \<open>Names that end at a blank, a closing bracket or an equals sign, and values without quotes.\<close>

definition plain_name :: "rstring \<Rightarrow> bool" where
  "plain_name n \<longleftrightarrow> n \<noteq> [] \<and> set n \<inter> {32, 34, 47, 60, 61, 62} = {}"

fun plain_token :: "html_token \<Rightarrow> bool" where
  "plain_token (TokOpen name attrs void) \<longleftrightarrow>
     plain_name name \<and> (\<forall>p \<in> set attrs. plain_name (fst p) \<and> 34 \<notin> set (snd p))"
| "plain_token (TokClose name) \<longleftrightarrow> plain_name name"
| "plain_token (TokChar c) \<longleftrightarrow> c \<noteq> 60 \<and> c \<noteq> 62"

lemma takeWhile_stop: "(\<forall>x \<in> set xs. P x) \<Longrightarrow> \<not> P y \<Longrightarrow> takeWhile P (xs @ y # ys) = xs"
  by (simp add: takeWhile_append2)

lemma dropWhile_stop: "(\<forall>x \<in> set xs. P x) \<Longrightarrow> \<not> P y \<Longrightarrow> dropWhile P (xs @ y # ys) = y # ys"
  by (simp add: dropWhile_append2)

lemma lex_attrs_text:
  assumes "\<forall>p \<in> set attrs. plain_name (fst p) \<and> 34 \<notin> set (snd p)"
  shows "lex_attrs (concat (map attr_text attrs) @ (if void then [32, 47, 62] else [62]) @ rest) = Some (attrs, void, rest)"
  using assms
proof (induction attrs)
  case Nil
  then show ?case by (simp add: lex_attrs.simps [of "62 # rest"] lex_attrs.simps [of "32 # 47 # 62 # rest"])
next
  case (Cons p attrs)
  obtain n v where p: "p = (n, v)" by fastforce
  let ?rest = "concat (map attr_text attrs) @ (if void then [32, 47, 62] else [62]) @ rest"
  have n: "n \<noteq> []" "\<forall>c \<in> set n. c \<noteq> 61" "47 \<notin> set n" and v: "\<forall>c \<in> set v. c \<noteq> 34"
    using Cons.prems by (auto simp: p plain_name_def)
  have written: "concat (map attr_text (p # attrs)) @ (if void then [32, 47, 62] else [62]) @ rest = 32 # n @ 61 # 34 # v @ 34 # ?rest"
    by (simp add: attr_text_def p lit_def)
  have "take 2 (n @ 61 # 34 # v @ 34 # ?rest) \<noteq> [47, 62]" using n(1,3) by (cases n) auto
  moreover have "lex_attrs ?rest = Some (attrs, void, rest)" using Cons by simp
  ultimately show ?case
    unfolding written lex_attrs.simps [of "32 # _"]
    by (simp add: takeWhile_stop [OF n(2)] dropWhile_stop [OF n(2)] takeWhile_stop [OF v] dropWhile_stop [OF v] p)
qed

lemma lex_token:
  assumes "plain_token t"
  shows "lex_html (token_text t @ s) = map_option (Cons t) (lex_html s)"
proof (cases t)
  case (TokOpen name attrs void)
  let ?tail = "concat (map attr_text attrs) @ (if void then [32, 47, 62] else [62]) @ s"
  have name: "name \<noteq> []" "\<forall>c \<in> set name. c \<noteq> 32 \<and> c \<noteq> 62" "47 \<notin> set name" using assms by (auto simp: TokOpen plain_name_def)
  have "\<exists>c r. ?tail = c # r \<and> c \<in> {32, 62}" by (cases attrs) (auto simp: attr_text_def lit_def)
  then obtain c r where tail: "?tail = c # r" "\<not> (c \<noteq> 32 \<and> c \<noteq> 62)" by blast
  have first: "take 1 (name @ ?tail) \<noteq> [47]" using name(1,3) by (cases name) auto
  have "lex_attrs (c # r) = Some (attrs, void, s)"
    unfolding tail(1) [symmetric] by (rule lex_attrs_text) (use assms TokOpen in simp)
  moreover have "token_text t @ s = 60 # name @ ?tail" by (simp add: TokOpen lit_def)
  ultimately show ?thesis
    using first unfolding tail(1) lex_html.simps(2)
    by (simp add: takeWhile_stop [OF name(2) tail(2)] dropWhile_stop [OF name(2) tail(2)] TokOpen lex_html.simps(2))
next
  case (TokClose name)
  have name: "\<forall>c \<in> set name. c \<noteq> 62" using assms by (auto simp: TokClose plain_name_def)
  have "token_text t @ s = 60 # 47 # name @ 62 # s" by (simp add: TokClose lit_def)
  then show ?thesis by (simp add: lex_html.simps(2) takeWhile_stop [OF name] dropWhile_stop [OF name] TokClose)
next
  case (TokChar c)
  with assms show ?thesis by (simp add: lex_html.simps(2))
qed

lemma lex_html_text: "\<forall>t \<in> set ts. plain_token t \<Longrightarrow> lex_html (html_text ts) = Some ts"
  by (induction ts) (simp_all add: lex_token)



section \<open>What the result contains\<close>

definition web_url :: "url \<Rightarrow> bool" where
  "web_url u \<longleftrightarrow>
     (u_scheme u = lit ''http'' \<or> u_scheme u = lit ''https'') \<and> u_host u \<noteq> None \<and> u_username u = [] \<and> u_password u = None"

definition inert :: "rstring \<Rightarrow> bool" where
  "inert v \<longleftrightarrow> (\<forall>c \<in> set v. is_allowed_html_character c \<and> c \<noteq> 60 \<and> c \<noteq> 62)"

definition safe_attribute :: "libs \<Rightarrow> rstring \<Rightarrow> rstring \<times> rstring \<Rightarrow> bool" where
  "safe_attribute L name p \<longleftrightarrow>
     (allowed_attribute name (fst p) \<or> fst p = lit ''src'' \<and> name = lit ''img'') \<and>
     inert (snd p) \<and> 34 \<notin> set (snd p) \<and> 39 \<notin> set (snd p) \<and>
     (fst p \<in> {lit ''href'', lit ''src''} \<longrightarrow>
        (\<exists>u. snd p = escape True (url_text L u) \<and> web_url u \<and> \<not> has_provider_signature u))"

fun safe_token :: "libs \<Rightarrow> html_token \<Rightarrow> bool" where
  "safe_token L (TokOpen name attrs void) \<longleftrightarrow>
     name \<in> set SAFE_ELEMENTS \<and> (void \<longleftrightarrow> name \<in> set VOID_ELEMENTS) \<and> list_all (safe_attribute L name) attrs"
| "safe_token L (TokClose name) \<longleftrightarrow> name \<in> set SAFE_ELEMENTS \<and> name \<notin> set VOID_ELEMENTS"
| "safe_token L (TokChar c) \<longleftrightarrow> inert [c]"

text \<open>Every closing tag closes the last open element, and none stays open.\<close>

fun balanced :: "rstring list \<Rightarrow> html_token list \<Rightarrow> bool" where
  "balanced stack [] \<longleftrightarrow> stack = []"
| "balanced stack (TokOpen name attrs void # ts) \<longleftrightarrow> balanced (if void then stack else name # stack) ts"
| "balanced stack (TokClose name # ts) \<longleftrightarrow> stack \<noteq> [] \<and> hd stack = name \<and> balanced (tl stack) ts"
| "balanced stack (TokChar c # ts) \<longleftrightarrow> balanced stack ts"

lemma escaped_char_facts:
  assumes "x \<in> set (escaped_char attr c)"
  shows "is_allowed_html_character x" "x \<noteq> 60" "x \<noteq> 62" "attr \<Longrightarrow> x \<noteq> 34 \<and> x \<noteq> 39"
  using assms by (auto simp: escaped_char_def lit_def is_allowed_html_character_def split: if_splits)

lemma escape_inert: "inert (escape attr v)" "34 \<notin> set (escape True v)" "39 \<notin> set (escape True v)"
  using escaped_char_facts(1-3) by (fastforce simp: inert_def escape_def)
    (use escaped_char_facts(4) in \<open>fastforce simp: escape_def\<close>)+

lemma approved_web_url:
  assumes "html_libs_ok L H" "approved_http_url L H v strip = Some u"
  shows "web_url u" "strip \<Longrightarrow> u_fragment u = None"
proof -
  from assms(2) obtain p where p: "web_url p" and
    u: "u = (if strip then url_clear_fragment H (without_default_port L p) else without_default_port L p)"
    by (auto simp: approved_http_url_def web_url_def Let_def simp del: if_split split: if_split_asm option.splits)
  have "web_url (without_default_port L p)"
    using assms(1) p by (auto simp: without_default_port_def html_libs_ok_def same_origin_def web_url_def split: option.splits)
  with assms(1) u show "web_url u" "strip \<Longrightarrow> u_fragment u = None"
    by (auto simp: html_libs_ok_def same_origin_def web_url_def)
qed

lemma image_source_web:
  assumes "html_libs_ok L H" "image_source L H attrs = Some u"
  shows "web_url u" "u_fragment u = None"
proof -
  have "web_url u \<and> u_fragment u = None" if "first_approved L H attrs names = Some u" for names
    using that approved_web_url [OF assms(1)] by (induction names) (auto split: option.splits)
  from this [OF assms(2) [unfolded image_source_def]] show "web_url u" "u_fragment u = None" by simp_all
qed

lemma kept_attributes_safe:
  assumes "html_libs_ok L H"
  shows "list_all (safe_attribute L name) (kept_attributes L H name attrs)"
proof -
  have "safe_attribute L name p" if "p \<in> set (kept_attribute L H name (attr, v))" for p attr v
    using that approved_web_url(1) [OF assms, of v False] escape_inert
    by (auto simp: kept_attribute_def safe_attribute_def split: if_splits option.splits)
  then show ?thesis by (fastforce simp: kept_attributes_def list_all_iff)
qed

lemma html_tokens_safe:
  assumes "html_libs_ok L H"
  shows "list_all (safe_token L) (html_tokens L H t)"
proof (induction t)
  case (HtmlTree n ts)
  then have inner: "list_all (safe_token L) (concat (map (html_tokens L H) ts))" by (auto simp: list_all_iff)
  show ?case
  proof (cases n)
    case (HtmlElement name attrs)
    have src: "safe_attribute L (lit ''img'') (lit ''src'', escape True (url_text L u))"
      if "image_source L H attrs = Some u" "\<not> has_provider_signature u" for u
      using that image_source_web(1) [OF assms that(1)] escape_inert by (auto simp: safe_attribute_def)
    show ?thesis
    proof (cases "name = lit ''img''")
      case True
      with inner kept_attributes_safe [OF assms] src img_safe show ?thesis
        by (simp add: HtmlElement Let_def split: option.split)
    next
      case False
      with inner kept_attributes_safe [OF assms] show ?thesis by (simp add: HtmlElement Let_def)
    qed
  next
    case (HtmlText v)
    have "list_all (safe_token L) (map TokChar (escape False v))"
      using escape_inert(1) [of False v] by (auto simp: list_all_iff inert_def)
    with inner HtmlText show ?thesis by simp
  qed (use inner in \<open>simp_all\<close>)
qed

lemma html_tokens_balanced: "balanced stack (html_tokens L H t @ rest) = balanced stack rest"
proof (induction t arbitrary: stack rest)
  case (HtmlTree n ts)
  have inner: "balanced st (concat (map (html_tokens L H) us) @ more) = balanced st more" if "set us \<subseteq> set ts" for us st more
    using that
  proof (induction us)
    case (Cons u us)
    with HtmlTree.IH [of u] show ?case by simp
  qed simp
  have chars: "balanced st (map TokChar v @ more) = balanced st more" for st v more by (induction v) auto
  note inner = inner [OF subset_refl]
  show ?case by (cases n) (simp_all add: Let_def inner chars split: option.split)
qed

lemma names_plain: "name \<in> set SAFE_ELEMENTS \<Longrightarrow> plain_name name"
  by (auto simp: SAFE_ELEMENTS_def plain_name_def lit_def)

lemma attribute_names_plain: "allowed_attribute name attr \<Longrightarrow> plain_name attr" "plain_name (lit ''src'')"
proof -
  assume "allowed_attribute name attr"
  then have "attr \<in> lit ` set [''class'', ''id'', ''title'', ''href'', ''alt'', ''width'', ''height'', ''colspan'', ''rowspan'', ''align'']"
    unfolding allowed_attribute_def Let_def by (simp split: if_split_asm) blast+
  then show "plain_name attr" by (auto simp: plain_name_def lit_def)
qed (simp add: plain_name_def lit_def)

lemma safe_plain: "safe_token L t \<Longrightarrow> plain_token t"
  by (cases t) (auto simp: names_plain inert_def list_all_iff safe_attribute_def attribute_names_plain)

text \<open>
  (C28) Sanitized HTML is inert. Whatever the input and whatever the parser makes of it, a reader that
  tokenizes the output finds only allowed elements, properly nested and closed, with allowed
  attributes whose values cannot end their quotes, links and images that lead to web addresses
  without credentials or provider signatures, and text; and every reported image is a web address
  without a fragment.
\<close>

theorem sanitized_html_is_inert:
  assumes "html_libs_ok L H"
  shows "\<exists>ts. lex_html (sh_html (sanitize L H input)) = Some ts \<and> list_all (safe_token L) ts \<and> balanced [] ts \<and>
     (\<forall>u \<in> set (sh_external_assets (sanitize L H input)). web_url u \<and> u_fragment u = None)"
proof -
  let ?t = "parse_fragment H input"
  have safe: "list_all (safe_token L) (html_tokens L H ?t)" by (rule html_tokens_safe [OF assms])
  have "lex_html (html_text (html_tokens L H ?t)) = Some (html_tokens L H ?t)"
    using safe safe_plain by (intro lex_html_text) (auto simp: list_all_iff)
  moreover have "balanced [] (html_tokens L H ?t)" using html_tokens_balanced [of "[]" L H ?t "[]"] by simp
  moreover have "web_url u \<and> u_fragment u = None" if "u \<in> set (html_images L H t)" for u t
    using that
  proof (induction t)
    case (HtmlTree n ts)
    then show ?case
      using image_source_web [OF assms] by (cases n) (auto simp: Let_def split: if_splits option.splits)
  qed
  moreover have "set (fold (\<lambda>x acc. if x \<in> set acc then acc else acc @ [x]) us acc) \<subseteq> set us \<union> set acc" for us acc :: "url list"
  proof (induction us arbitrary: acc)
    case (Cons a us)
    from Cons [of acc] Cons [of "acc @ [a]"] show ?case by auto
  qed simp
  then have "set (first_seen us) \<subseteq> set us" for us :: "url list" unfolding first_seen_def by fastforce
  ultimately show ?thesis
    using safe sanitized_walk [of L H ?t] unfolding sanitize_def by fastforce
qed

text \<open>A page with a script, a link that would run one, and an image.\<close>

definition example_page :: html_tree where
  "example_page =
     HtmlTree HtmlFragment
       [HtmlTree (HtmlElement (lit ''p'') [(lit ''onclick'', lit ''run()''), (lit ''class'', lit ''x\"y'')])
          [HtmlTree (HtmlText (lit ''a < b'')) [],
           HtmlTree (HtmlElement (lit ''script'') []) [HtmlTree (HtmlText (lit ''run()'')) []],
           HtmlTree (HtmlElement (lit ''a'') [(lit ''href'', lit ''javascript:run()'')]) [HtmlTree (HtmlText (lit ''link'')) []],
           HtmlTree (HtmlElement (lit ''img'') [(lit ''data-src'', example_prefix @ lit ''i.png'')]) []]]"

definition example_html_libs :: html_libs where
  "example_html_libs = \<lparr>parse_fragment = (\<lambda>_. example_page), url_clear_fragment = (\<lambda>u. u\<lparr>u_fragment := None\<rparr>)\<rparr>"

theorem sanitized_html_is_inert_witness:
  "html_libs_ok example_libs example_html_libs \<and>
   (\<exists>ts. lex_html (sh_html (sanitize example_libs example_html_libs (lit ''raw''))) = Some ts \<and>
      list_all (safe_token example_libs) ts \<and> balanced [] ts \<and>
      (\<forall>u \<in> set (sh_external_assets (sanitize example_libs example_html_libs (lit ''raw''))). web_url u \<and> u_fragment u = None))"
proof -
  have "html_libs_ok example_libs example_html_libs"
    by (auto simp: html_libs_ok_def example_libs_def example_html_libs_def same_origin_def)
  with sanitized_html_is_inert [OF this] show ?thesis by blast
qed

end
