(* ===== verification/Spec2Isabelle.thy ===== *)
theory Spec2Isabelle
  imports Prelude Worker Pacing Scheduler Feed_Service Sync_Run Source_Service Asset_Restore Asset_Recovery Sanitizer
begin

text \<open>
  werrss turns WeRead accounts into RSS feeds. Sources are synchronized by durable jobs: the
  scheduler enqueues jobs for due sources, workers claim jobs under a lease and run them, handlers
  write articles, and the feed of a source is rendered, cached and served with a revision that moves
  whenever something the feed shows changes. Every replica runs the same code against one PostgreSQL
  database; nothing but rows, leases and fencing tokens coordinates them. This library models the
  code that carries that coordination, in the order data flows through it.

  \<^bold>\<open>Theories and sources\<close> (paths under \<^verbatim>\<open>src/src/\<close>).
  \<^item> \<open>Prelude\<close>: strings as lists of code points, UUIDs as 128-bit words, instants and durations in
    nanoseconds, results with bind (the \<^verbatim>\<open>?\<close> operator), checked and saturating machine
    arithmetic, the chrono functions the code calls, generic lemmas.
  \<^item> \<open>Job\<close>, \<open>Job_Lifecycle\<close>: \<^verbatim>\<open>domain/job.rs\<close>. The job as a record, one definition per lifecycle
    method, events and the lifecycle as a step relation. The locale \<open>fenced_transition\<close> is the
    contract of the five operations of a lease owner. Shown: every reachable job satisfies the
    persisted-state invariant, a stale lease never acts, attempts are charged exactly, terminal
    jobs stay as they are, recovery releases a job.
  \<^item> \<open>Job_Store\<close>: the repository contract and the in-memory repository of
    \<^verbatim>\<open>persistence/repositories/job_repository.rs\<close>. The locale \<open>job_queue\<close> carries the properties of
    whole runs; \<open>total_cmp\<close> shows that the claim does not depend on the iteration order of the map.
  \<^item> \<open>Job_Pg\<close>, \<open>Job_Pg_Refine\<close>: the PostgreSQL repository of the same file, statement by statement
    on tables of rows, with the cleanup of the asset-refresh tables. Every operation refines the
    domain operation at the server's time; the repository interprets \<open>job_queue\<close>.
  \<^item> \<open>Job_Service\<close>: \<^verbatim>\<open>application/job_service.rs\<close> over the locale \<open>queue_contract\<close>, which both
    repositories interpret.
  \<^item> \<open>Worker\<close>: \<^verbatim>\<open>application/worker.rs\<close>: one pass (recover, claim, run with heartbeats and a
    deadline, settle) and the loop.
  \<^item> \<open>Pacing\<close>: \<^verbatim>\<open>domain/pacing.rs\<close>, \<^verbatim>\<open>acquisition/pacing.rs\<close> and the delay bounds of \<^verbatim>\<open>config.rs\<close>:
    sampled delays, scroll plans and quiet hours across time-zone changes.
  \<^item> \<open>Database\<close>: the tables the other repositories share, transactions, keyed tables, and the locale
    \<open>tracked_table\<close>: an invariant and a preorder along which the entries of a table move through
    any sequence of operations. Sources, articles, feed caches and reservations interpret it.
  \<^item> \<open>Source\<close>, \<open>Article\<close>: \<^verbatim>\<open>domain/source.rs\<close>, \<^verbatim>\<open>domain/url_policy.rs\<close>, \<^verbatim>\<open>domain/article.rs\<close> and their
    repositories: validation, patches, the feed revision, the upsert that merges an observation and
    starts again when it loses a race.
  \<^item> \<open>Lease\<close>: account leases and feed build leases (\<^verbatim>\<open>account_lease_repository.rs\<close>,
    \<^verbatim>\<open>feed_cache_repository.rs\<close>) as interpretations of the locale \<open>lease_store\<close>, and its client, the
    guard and the browser pool of \<^verbatim>\<open>acquisition/browser_pool.rs\<close>.
  \<^item> \<open>Feed\<close>: \<^verbatim>\<open>domain/feed.rs\<close> and the reads and fenced publications of \<^verbatim>\<open>feed_cache_repository.rs\<close>.
  \<^item> \<open>Scheduler\<close>: \<^verbatim>\<open>scheduler_repository.rs\<close> and \<^verbatim>\<open>application/scheduler.rs\<close>.
  \<^item> \<open>Asset_Urls\<close>: \<^verbatim>\<open>archive/url_rewriter.rs\<close>: asset routes in stored HTML made absolute for the feed.
  \<^item> \<open>Renderer\<close>: \<^verbatim>\<open>rss/renderer.rs\<close>: what a rendered document contains and its entity tag; the XML
    writer and the hash are a parameter.
  \<^item> \<open>Feed_Rebuild\<close>: \<^verbatim>\<open>application/feed_rebuild_service.rs\<close> and \<^verbatim>\<open>feed_rebuild_handler.rs\<close>: lease, reads, rendering,
    and the transaction that publishes and completes the job, with other sessions in between.
  \<^item> \<open>Feed_Service\<close>: \<^verbatim>\<open>application/feed_service.rs\<close> over the locale \<open>feed_backend\<close>: requests, the
    bounded wait for a concurrent rebuild, fallbacks, conditional requests.
  \<^item> \<open>Sync_Run\<close>: \<^verbatim>\<open>domain/sync.rs\<close> and \<^verbatim>\<open>sync_run_repository.rs\<close> over the table with its constraints
    and foreign keys; runs interpret \<open>tracked_table\<close>.
  \<^item> \<open>Source_Service\<close>: \<^verbatim>\<open>application/source_service.rs\<close> and the frame of a unit of work.
  \<^item> \<open>Asset_Store\<close>: \<^verbatim>\<open>archive/asset_store.rs\<close>: policies, inputs, blob keys, blobs.
  \<^item> \<open>Asset_Cache\<close>, \<open>Asset_Safety\<close>, \<open>Asset_Contracts\<close>: \<^verbatim>\<open>asset_repository.rs\<close> with the blob store in PostgreSQL, and
    what \<^verbatim>\<open>unit_of_work.rs\<close> does with evicted blobs: batches in savepoints, eviction, reads, queues,
    maintenance. The first has the definitions, the second the steps of a batch and the invariant, the third
    the contracts and a concrete cache on which one promise of the code fails.
  \<^item> \<open>Asset_Refresh\<close>, \<open>Asset_Chains\<close>, \<open>Asset_Chain_Runs\<close>, \<open>Asset_Chain_Jobs\<close>: the refresh of whole articles in the same
    file: generations of entries, chains of refresh jobs, article lineages, requests after a cache miss or a confirmed
    expiry, the periodic scan. The first has the definitions; the others the invariant of the refresh tables, kept by every
    transition of refreshes (\<open>Asset_Chain_Runs\<close>) and of the job queue (\<open>Asset_Chain_Jobs\<close>).
  \<^item> \<open>Asset_Repair\<close>, \<open>Asset_Recovery\<close>, \<open>Asset_Restore\<close>: the repair of one missing asset. \<open>Asset_Recovery\<close> runs the queue,
    refreshes and repairs together as sequences of transactions: a chain is never stranded, the limits hold.
    \<open>Asset_Restore\<close> has what a restore does to the cache: it reads back, and it frees no space, so a full cache
    ends above its limit.
  \<^item> \<open>Sanitizer\<close>: \<^verbatim>\<open>archive/sanitizer.rs\<close> and \<^verbatim>\<open>application/archive_service.rs\<close>: the walk over a parsed page
    against a recursive reference, and a tokenizer that reads the result back.
  \<^item> This theory: the property that spans sources, leases and the feed cache.

  \<^bold>\<open>How the code is read.\<close> A method returns its result and the state it leaves; errors are values, and
  an operation in its own transaction is rolled back on an error (\<open>autocommit\<close>, \<open>transact\<close>). Machine
  integers keep their width where the code computes on them; columns are integers. What the program
  takes from outside \<^verbatim>\<open>src/\<close> is an argument: chrono, the url crate, the text of a UUID, the time
  zone, the random generator and floating-point division, the XML writer and its hash, the server's
  clock, timestamp addition, the rounding of bound timestamps and locked rows. What the code relies on
  there is a named hypothesis (\<open>chrono_ok\<close>, \<open>libs_ok\<close>, \<open>asset_libs_ok\<close>, \<open>rss_libs_ok\<close>, \<open>blob_libs_ok\<close>, \<open>html_libs_ok\<close>,
  \<open>pg_env_ok\<close>, \<open>tz_ok\<close>, \<open>rng_ok\<close>, \<open>stamp_ok\<close>), each with a concrete instance in the witnesses. Random ids and
  tokens are arguments of the operation that draws them (\<open>fresh_ids\<close>: those of new blobs are new).

  \<^bold>\<open>Interleaving.\<close> Properties of shared state quantify over sequences of operations, each a transaction
  of any replica, with the clock reading of its statements. Inside an operation, other transactions
  appear where the code lets them in: between the statements of an upsert, between the two
  transactions of a scheduler pass, during a handler, during a wait. Loops that run until shutdown
  take the script of what they observe and return \<open>None\<close> only when the script ends first; the
  termination properties say that a script with a shutdown returns. A wait ends because every sleep
  moves the clock it reads (\<open>sleeps\<close>). What other sessions do during a rebuild or a request is a
  function of the run (\<open>lawful_run\<close>, \<open>orderly_run\<close>, \<open>quiet_run\<close> say which of them a property allows).

  \<^bold>\<open>Not modelled.\<close> Rounding of timestamps to microseconds by the server other than for runs, and JSON
  numbers other than integers; outages of the database, except where a unit of work begins or commits
  and where a handler reads the clock; logging; \<^verbatim>\<open>CHECK\<close> constraints that repeat validations, except
  those of runs; asynchronous cancellation of a method between two statements other than at the
  \<^verbatim>\<open>select!\<close> points of the worker. Whole parts that are left out, because they are input and output,
  wrap third-party code or are not reached yet, are listed in the manifest: the web layer and its
  pages, WebDriver and WeRead acquisition, QR login, the object store, the handlers that fetch and refresh assets, configuration files
  and their transfer, the runtime and its supervisor, accounts and authentication.
\<close>

section \<open>The feed from publication to delivery\<close>

lemma feed_run:
  assumes "feed_ok L d" "pg_env_ok E" "mono clk"
    and "transact (publish_if_current clk c owner token) d = (Inr (Published x), d1)" "cand_source_id c = i"
    and "\<forall>op \<in> set ops. feed_op_typed L op \<and> keeps_feed op i" "d2 = fold (feed_step L X E) ops d1"
  shows "\<exists>s0 s2 c2. source_at L d i = Some s0 \<and> src_feed_revision s0 = cache_feed_revision x \<and>
     feed_ok L d2 \<and> source_at L d2 i = Some s2 \<and> source_evolves s0 s2 \<and>
     cache_at d2 i = Some c2 \<and> cache_evolves x c2"
proof -
  from assms(4) have p: "publish_if_current clk c owner token d = (Inr (Published x), d1)" by (simp add: transact_Inr)
  note pub = published_step [OF assms(1) p]
  then obtain s0 where s0: "source_at L d i = Some s0" "src_feed_revision s0 = cand_feed_revision c"
    using assms(5) by auto
  have rev: "src_feed_revision s0 = cache_feed_revision x" using pub s0(2) by (simp add: from_candidate_def)
  have "d_sources d1 = d_sources d" using publish_published [OF p] by auto
  then have s1: "source_at L d1 i = Some s0" using s0(1) by (simp add: source_at_def find_source_row_def)
  have inv: "feed_ok L d1 \<and> pg_env_ok E" using pub assms(2) by simp
  have c1: "cache_at d1 i = Some x" using pub assms(5) by simp
  have typed: "\<forall>op \<in> set ops. feed_op_typed L op" using assms(6) by blast
  from fc.run_evolves [OF inv assms(6) c1, of X] fs.run_evolves [OF inv assms(6) s1, of X] fc.run_inv [OF inv typed, of X]
  show ?thesis using s0(1) rev assms(7) by blast
qed

text \<open>
  (C16) A reader never gets an outdated feed as fresh. After a document was published for a source,
  through any sequence of observations of articles, changes of sources, build leases and further
  publications that does not delete the source: a read finds a document that is at least as new as
  the published one and of no later revision than the source, and it reports the source's revision.
  When the read says fresh, the document has not expired and was rendered from the source's current
  revision; and if that is still the revision of the first document, then every field of the source
  that the feed shows is what it was when that document was published.
\<close>

theorem fresh_feed_is_current:
  assumes "feed_ok L d" "pg_env_ok E" "mono clk"
    and "transact (publish_if_current clk c owner token) d = (Inr (Published x), d1)" "cand_source_id c = i"
    and "\<forall>op \<in> set ops. feed_op_typed L op \<and> keeps_feed op i" "d2 = fold (feed_step L X E) ops d1"
  shows "\<exists>s0 s2 rd. source_at L d i = Some s0 \<and> source_at L d2 i = Some s2 \<and>
     get_cache now i d2 = Inr (Some rd) \<and> cache_evolves x (read_cache rd) \<and>
     cache_feed_revision (read_cache rd) \<le> src_feed_revision s2 \<and> read_source_revision rd = src_feed_revision s2 \<and>
     (read_fresh rd \<longrightarrow> now < cache_expires_at (read_cache rd) \<and>
        cache_feed_revision (read_cache rd) = src_feed_revision s2 \<and>
        (cache_feed_revision (read_cache rd) = cache_feed_revision x \<longrightarrow> visible s2 = visible s0))"
proof -
  from feed_run [OF assms] obtain s0 s2 c2 where
    s0: "source_at L d i = Some s0" "src_feed_revision s0 = cache_feed_revision x"
    and ok: "feed_ok L d2" and s2: "source_at L d2 i = Some s2" "source_evolves s0 s2"
    and c2: "cache_at d2 i = Some c2" "cache_evolves x c2" by blast
  from cache_at_row [OF ok c2(1)] s2(1) have "\<not> is_nil i" "cache_feed_revision c2 \<le> src_feed_revision s2" by auto
  with get_cache_exact [OF ok, of now i] c2 s2 s0 show ?thesis
    by (auto simp: is_fresh_at_def source_evolves_def)
qed

theorem fresh_feed_is_current_witness:
  "\<exists>rd. get_cache 100 7 (fold (feed_step example_libs chrono_ref (example_env 60))
       [OnBuildLease (LAcquire 50 3 7 (lit ''w2'') 2500000), OnTables (Source (SetEnabled 70 7 False))]
       (snd (transact (publish_if_current (\<lambda>n. 10 + int n) example_candidate (lit ''w1'') 9) example_feed_db))) =
       Inr (Some rd) \<and> cache_evolves (from_candidate example_candidate 11) (read_cache rd)"
proof -
  let ?ops = "[OnBuildLease (LAcquire 50 3 7 (lit ''w2'') 2500000), OnTables (Source (SetEnabled 70 7 False))]"
  have "pg_env_ok (example_env 60)" "mono (\<lambda>n. 10 + int n)" "cand_source_id example_candidate = 7"
    "\<forall>op \<in> set ?ops. feed_op_typed example_libs op \<and> keeps_feed op 7"
    by (simp_all add: pg_env_ok_def example_env_def mono_def example_candidate_def)
  from fresh_feed_is_current [OF example_feed_ok this(1,2) example_publishes this(3,4) refl, of chrono_ref 100]
  show ?thesis unfolding example_publishes by auto
qed

end
